(* ===== verification/Prelude.thy ===== *)
theory Prelude
  imports Main "HOL-Library.Word"
begin

text \<open>
  What every component of the model shares: the machine integer types of the Rust sources, the
  outcome of a fallible call (a value, an error value, or a panic), the slice reads and writes that
  panic out of range, the little-endian conversions of the standard library, and the facts on bits
  and byte lists that carry the component proofs.

  The sources are modelled as their release build runs them: \<open>usize\<close> is 64 bits wide, and a plain
  \<open>+\<close> on a fixed-width integer wraps.  Indices and lengths, which the sources hold in \<open>usize\<close>, are
  natural numbers here; every one of them is bounded by a slice length or by a sum of a few 32-bit
  fields, so none reaches \<open>2 ^ 64\<close>.
\<close>

unbundle bit_operations_syntax

named_theorems wf_intros \<open>what keeps a component well formed\<close>
named_theorems word_fields \<open>the bit fields of an encoded instruction word\<close>

type_synonym u8 = "8 word"
type_synonym u16 = "16 word"
type_synonym u32 = "32 word"
type_synonym u64 = "64 word"
type_synonym i32 = "32 word"
type_synonym i64 = "64 word"

section \<open>Outcomes\<close>

text \<open>
  A \<open>Result\<close> of the sources, with the panic of an \<open>assert!\<close>, an \<open>unreachable!\<close>, an index out of
  range or a subtraction below zero as a third outcome.
\<close>

datatype ('a, 'e) rresult = Ok 'a | Err 'e | Panic

fun rbind :: "('a, 'e) rresult \<Rightarrow> ('a \<Rightarrow> ('b, 'e) rresult) \<Rightarrow> ('b, 'e) rresult" where
  "rbind (Ok x) f = f x"
| "rbind (Err e) f = Err e"
| "rbind Panic f = Panic"

fun of_option :: "'a option \<Rightarrow> ('a, 'e) rresult" where
  "of_option (Some x) = Ok x"
| "of_option None = Panic"

lemma rbind_assoc [simp]: "rbind (rbind m f) g = rbind m (\<lambda>x. rbind (f x) g)"
  by (cases m) auto

lemma rbind_Ok_iff: "rbind m f = Ok y \<longleftrightarrow> (\<exists>x. m = Ok x \<and> f x = Ok y)"
  by (cases m) auto

lemma rbind_Err_iff: "rbind m f = Err e \<longleftrightarrow> m = Err e \<or> (\<exists>x. m = Ok x \<and> f x = Err e)"
  by (cases m) auto

lemma rbind_Panic_iff: "rbind m f = Panic \<longleftrightarrow> m = Panic \<or> (\<exists>x. m = Ok x \<and> f x = Panic)"
  by (cases m) auto

lemma rbind_cong [fundef_cong]:
  "m = m' \<Longrightarrow> (\<And>x. m' = Ok x \<Longrightarrow> f x = g x) \<Longrightarrow> rbind m f = rbind m' g"
  by (cases m') auto

lemma of_option_eq [simp]:
  "of_option x = Ok y \<longleftrightarrow> x = Some y" "of_option x \<noteq> Err e" "of_option x = Panic \<longleftrightarrow> x = None"
  by (cases x; simp)+

text \<open>Collecting an iterator of results: the first that is not a value is the outcome.\<close>

fun rcollect :: "('a, 'e) rresult list \<Rightarrow> ('a list, 'e) rresult" where
  "rcollect [] = Ok []"
| "rcollect (r # rs) = rbind r (\<lambda>x. rbind (rcollect rs) (\<lambda>xs. Ok (x # xs)))"

lemma rcollect_Ok_iff: "rcollect rs = Ok xs \<longleftrightarrow> rs = map Ok xs"
  by (induction rs arbitrary: xs) (auto simp: rbind_Ok_iff Cons_eq_map_conv)

lemma rcollect_Err: "rcollect rs = Err e \<Longrightarrow> Err e \<in> set rs"
  by (induction rs) (auto simp: rbind_Err_iff)

lemma rcollect_Panic: "rcollect rs = Panic \<Longrightarrow> Panic \<in> set rs"
  by (induction rs) (auto simp: rbind_Panic_iff)

section \<open>Slices\<close>

text \<open>\<open>bytes.get(at..at + len)\<close>, and the in-place copy \<open>bytes[at..at + len].copy_from_slice(src)\<close>.\<close>

definition slice_get :: "'a list \<Rightarrow> nat \<Rightarrow> nat \<Rightarrow> 'a list option" where
  "slice_get xs at len = (if at + len \<le> length xs then Some (take len (drop at xs)) else None)"

definition slice_put :: "'a list \<Rightarrow> nat \<Rightarrow> 'a list \<Rightarrow> 'a list" where
  "slice_put xs at src = take at xs @ src @ drop (at + length src) xs"

lemma slice_get_length: "slice_get xs at len = Some ys \<Longrightarrow> length ys = len"
  by (auto simp: slice_get_def split: if_splits)

lemma slice_get_Some_iff [simp]:
  "slice_get xs at len = Some ys \<longleftrightarrow> at + len \<le> length xs \<and> ys = take len (drop at xs)"
  "slice_get xs at len = None \<longleftrightarrow> length xs < at + len"
  by (auto simp: slice_get_def)

lemma length_slice_put [simp]:
  "at + length src \<le> length xs \<Longrightarrow> length (slice_put xs at src) = length xs"
  by (simp add: slice_put_def)

lemma slice_put_same [simp]:
  "at + length src \<le> length xs \<Longrightarrow> take (length src) (drop at (slice_put xs at src)) = src"
  by (simp add: slice_put_def)

lemma nth_slice_put:
  "at + length src \<le> length xs \<Longrightarrow> i < length xs \<Longrightarrow>
     slice_put xs at src ! i = (if at \<le> i \<and> i < at + length src then src ! (i - at) else xs ! i)"
  by (auto simp: slice_put_def nth_append)

lemma slice_put_disjoint:
  assumes "at + length src \<le> length xs" and "b + n \<le> length xs"
    and "b + n \<le> at \<or> at + length src \<le> b"
  shows "take n (drop b (slice_put xs at src)) = take n (drop b xs)"
  using assms by (intro nth_equalityI) (auto simp: nth_slice_put)

lemma take_drop_Cons: "at < length xs \<Longrightarrow> take (Suc n) (drop at xs) = xs ! at # take n (drop (Suc at) xs)"
  by (simp add: Cons_nth_drop_Suc [symmetric])

lemma slice_1: "at + 1 \<le> length xs \<Longrightarrow> take 1 (drop at xs) = [xs ! at]"
  by (simp add: take_drop_Cons)

lemma slice_2: "at + 2 \<le> length xs \<Longrightarrow> take 2 (drop at xs) = [xs ! at, xs ! (at + 1)]"
  by (simp add: take_drop_Cons numeral_2_eq_2)

lemma slice_4: "at + 4 \<le> length xs \<Longrightarrow>
    take 4 (drop at xs) = [xs ! at, xs ! (at + 1), xs ! (at + 2), xs ! (at + 3)]"
  by (simp add: take_drop_Cons numeral_eq_Suc)

section \<open>Bits and fields of a word\<close>

lemma bit_below:
  fixes x :: "'a::len word"
  assumes "x < 2 ^ k" and "bit x n"
  shows "n < k"
proof -
  have "x AND mask k = x" using assms(1) by (rule less_mask_eq)
  with assms(2) have "bit (x AND mask k) n" by simp
  then show ?thesis by (simp add: bit_simps)
qed

text \<open>The masks of the instruction formats, as masks.\<close>

lemma mask_32:
  "(0x7F :: u32) = mask 7" "(0x1F :: u32) = mask 5" "(0x7 :: u32) = mask 3"
  "(0xFF :: u32) = mask 8" "(0x3FF :: u32) = mask 10" "(0x3F :: u32) = mask 6" "(0xF :: u32) = mask 4"
  "(0xFFF :: u32) = mask 12"
  by (simp_all add: mask_eq_exp_minus_1)

lemma and_mask_less_nat: "k < LENGTH('a) \<Longrightarrow> unat (x AND mask k :: 'a::len word) < 2 ^ k"
  by (simp flip: take_bit_eq_mask add: unsigned_take_bit_eq)

section \<open>Little-endian conversions\<close>

text \<open>\<open>from_le_bytes\<close> and \<open>to_le_bytes\<close> at every width the sources use.\<close>

fun from_le_bytes :: "u8 list \<Rightarrow> 'a::len word" where
  "from_le_bytes [] = 0"
| "from_le_bytes (b # bs) = ucast b OR push_bit 8 (from_le_bytes bs)"

definition to_le_bytes :: "nat \<Rightarrow> 'a::len word \<Rightarrow> u8 list" where
  "to_le_bytes n w = map (\<lambda>i. ucast (drop_bit (8 * i) w)) [0..<n]"

lemma length_to_le_bytes [simp]: "length (to_le_bytes n w) = n"
  by (simp add: to_le_bytes_def)

lemma to_le_bytes_0 [simp]: "to_le_bytes 0 w = []"
  by (simp add: to_le_bytes_def)

lemma to_le_bytes_Suc: "to_le_bytes (Suc n) w = ucast w # to_le_bytes n (drop_bit 8 w)"
proof -
  have "[0..<Suc n] = 0 # map Suc [0..<n]" by (simp only: upt_conv_Cons map_Suc_upt zero_less_Suc)
  then show ?thesis by (simp del: upt_Suc add: to_le_bytes_def o_def ac_simps)
qed

lemma take_to_le_bytes [simp]: "n \<le> m \<Longrightarrow> take n (to_le_bytes m w) = to_le_bytes n w"
  by (simp add: to_le_bytes_def take_map)

lemma from_to_le_bytes [simp]: "from_le_bytes (to_le_bytes n w) = take_bit (8 * n) w"
proof (induction n arbitrary: w)
  case 0
  then show ?case by simp
next
  case (Suc n)
  have "from_le_bytes (to_le_bytes (Suc n) w) =
      (ucast (ucast w :: u8) OR push_bit 8 (take_bit (8 * n) (drop_bit 8 w)) :: 'a word)"
    by (simp only: to_le_bytes_Suc from_le_bytes.simps Suc.IH)
  also have "\<dots> = take_bit (8 * Suc n) w"
    by (rule bit_word_eqI) (auto simp: bit_simps)
  finally show ?case .
qed

lemma bit_from_le_bytes:
  "bit (from_le_bytes bs :: 'a::len word) n \<longleftrightarrow>
     n < LENGTH('a) \<and> n div 8 < length bs \<and> bit (bs ! (n div 8)) (n mod 8)"
proof (induction bs arbitrary: n)
  case Nil
  then show ?case by simp
next
  case (Cons b bs)
  show ?case
  proof (cases "n < 8")
    case True
    then show ?thesis by (auto simp: bit_simps dest: bit_imp_le_length)
  next
    case False
    then obtain m where m: "n = m + 8" by (metis add.commute le_Suc_ex not_less)
    have "\<not> bit b n" using False by (auto dest: bit_imp_le_length)
    moreover have "(m + 8) div 8 = Suc (m div 8)" by simp
    ultimately show ?thesis using Cons.IH [of m] by (auto simp: bit_simps m dest: bit_imp_le_length)
  qed
qed

lemma to_from_le_bytes [simp]:
  assumes "8 * length bs \<le> LENGTH('a)"
  shows "to_le_bytes (length bs) (from_le_bytes bs :: 'a::len word) = bs"
proof (rule nth_equalityI)
  fix i assume "i < length (to_le_bytes (length bs) (from_le_bytes bs :: 'a word))"
  then have i: "i < length bs" by simp
  have "ucast (drop_bit (8 * i) (from_le_bytes bs :: 'a word)) = bs ! i"
  proof (rule bit_word_eqI)
    fix n assume "n < LENGTH(8)"
    then have n: "n < 8" by simp
    have d: "(8 * i + n) div 8 = i" "(8 * i + n) mod 8 = n" using n by simp_all
    have "8 * i + n < LENGTH('a)" using i n assms by linarith
    then show "bit (ucast (drop_bit (8 * i) (from_le_bytes bs :: 'a word)) :: u8) n = bit (bs ! i) n"
      using i n by (simp add: bit_simps bit_from_le_bytes d)
  qed
  then show "to_le_bytes (length bs) (from_le_bytes bs :: 'a word) ! i = bs ! i"
    using i by (simp add: to_le_bytes_def)
qed simp

end
