(* ===== verification/Contract.thy ===== *)
theory Contract
  imports Prelude
begin

text \<open>
  The contract both engines agree on, from the crate \<open>spec\<close>: the memory map with its four regions
  and the classification of an access (\<open>spec/src/map.rs\<close>), and the closed vocabulary of halt reasons
  with its spellings (\<open>spec/src/halt.rs\<close>).
\<close>

section \<open>The memory map\<close>

definition RAM_BASE :: u32 where "RAM_BASE = 0x80000000"
definition RAM_SIZE :: u32 where "RAM_SIZE = 24 * 1024 * 1024"
definition MMIO_BASE :: u32 where "MMIO_BASE = 0x10000000"
definition MMIO_SIZE :: u32 where "MMIO_SIZE = 4 * 1024"
definition FRAMEBUFFER_BASE :: u32 where "FRAMEBUFFER_BASE = 0x11000000"
definition FRAMEBUFFER_SIZE :: u32 where "FRAMEBUFFER_SIZE = 64000"
definition PALETTE_BASE :: u32 where "PALETTE_BASE = 0x11010000"
definition PALETTE_SIZE :: u32 where "PALETTE_SIZE = 768"
definition IPMS_DEFAULT :: u32 where "IPMS_DEFAULT = 10000"

lemmas map_constants = RAM_BASE_def RAM_SIZE_def MMIO_BASE_def MMIO_SIZE_def FRAMEBUFFER_BASE_def
  FRAMEBUFFER_SIZE_def PALETTE_BASE_def PALETTE_SIZE_def IPMS_DEFAULT_def

text \<open>Register offsets within the device window.\<close>

definition TICKS_MS :: u32 where "TICKS_MS = 0x00"
definition KEYQ :: u32 where "KEYQ = 0x04"
definition EXIT :: u32 where "EXIT = 0x08"
definition PUTCHAR :: u32 where "PUTCHAR = 0x0C"
definition FRAME_COMMIT :: u32 where "FRAME_COMMIT = 0x10"

lemmas mmio_offsets = TICKS_MS_def KEYQ_def EXIT_def PUTCHAR_def FRAME_COMMIT_def

text \<open>A key event as the queue register returns it.\<close>

definition key_event :: "bool \<Rightarrow> u8 \<Rightarrow> u32" where
  "key_event pressed doomkey = push_bit 8 (of_bool pressed) OR ucast doomkey"

datatype region = Ram | Mmio | Framebuffer | Palette

fun region_as_str :: "region \<Rightarrow> string" where
  "region_as_str Ram = ''ram''"
| "region_as_str Mmio = ''mmio''"
| "region_as_str Framebuffer = ''framebuffer''"
| "region_as_str Palette = ''palette''"

record memory_map =
  ram_base :: u32
  ram_size :: u32
  mmio_base :: u32
  mmio_size :: u32
  framebuffer_base :: u32
  framebuffer_size :: u32
  palette_base :: u32
  palette_size :: u32

definition map_clickdoom :: memory_map where
  "map_clickdoom = \<lparr> ram_base = RAM_BASE, ram_size = RAM_SIZE,
     mmio_base = MMIO_BASE, mmio_size = MMIO_SIZE,
     framebuffer_base = FRAMEBUFFER_BASE, framebuffer_size = FRAMEBUFFER_SIZE,
     palette_base = PALETTE_BASE, palette_size = PALETTE_SIZE \<rparr>"

definition with_ram_size :: "memory_map \<Rightarrow> u32 \<Rightarrow> memory_map" where
  "with_ram_size m sz = m\<lparr>ram_size := sz\<rparr>"

fun bounds :: "memory_map \<Rightarrow> region \<Rightarrow> u32 \<times> u32" where
  "bounds m Ram = (ram_base m, ram_size m)"
| "bounds m Mmio = (mmio_base m, mmio_size m)"
| "bounds m Framebuffer = (framebuffer_base m, framebuffer_size m)"
| "bounds m Palette = (palette_base m, palette_size m)"

text \<open>
  The loop of \<open>classify\<close> over the constant list of regions, in the order the code lists them.  The
  comparisons are made on \<open>u64\<close> values that two \<open>u32\<close> values add up to, so they are exact: \<open>unat\<close>.
\<close>

fun classify_among :: "memory_map \<Rightarrow> u32 \<Rightarrow> u32 \<Rightarrow> region list \<Rightarrow> (region \<times> u32) option" where
  "classify_among m addr width [] = None"
| "classify_among m addr width (r # rs) =
     (case bounds m r of (base, len) \<Rightarrow>
        if unat base \<le> unat addr \<and> unat addr + unat width \<le> unat base + unat len
        then Some (r, addr - base)
        else classify_among m addr width rs)"

definition classify :: "memory_map \<Rightarrow> u32 \<Rightarrow> u32 \<Rightarrow> (region \<times> u32) option" where
  "classify m addr width = classify_among m addr width [Ram, Mmio, Framebuffer, Palette]"

text \<open>\<open>inside m r a w\<close>: the access \<open>[a, a + w)\<close> lies in region \<open>r\<close>.\<close>

definition inside :: "memory_map \<Rightarrow> region \<Rightarrow> u32 \<Rightarrow> u32 \<Rightarrow> bool" where
  "inside m r addr width \<longleftrightarrow>
     unat (fst (bounds m r)) \<le> unat addr \<and>
     unat addr + unat width \<le> unat (fst (bounds m r)) + unat (snd (bounds m r))"

lemma classify_amongD:
  "classify_among m addr width rs = Some (r, off) \<Longrightarrow>
     r \<in> set rs \<and> inside m r addr width \<and> off = addr - fst (bounds m r)"
  by (induction rs) (auto simp: inside_def split: prod.splits if_splits)

lemma classify_among_None:
  "classify_among m addr width rs = None \<longleftrightarrow> (\<forall>r\<in>set rs. \<not> inside m r addr width)"
  by (induction rs) (auto simp: inside_def split: prod.splits)

lemma classifyD:
  assumes "classify m addr width = Some (r, off)"
  shows "inside m r addr width" and "off = addr - fst (bounds m r)"
  using classify_amongD [OF assms [unfolded classify_def]] by simp_all

text \<open>The offset an access is classified at stays inside its region together with its width.\<close>

lemma classify_offset:
  assumes "classify m addr width = Some (r, off)"
  shows "unat off + unat width \<le> unat (snd (bounds m r))"
    and "unat off = unat addr - unat (fst (bounds m r))"
proof -
  note i = classifyD(1) [OF assms] and off = classifyD(2) [OF assms]
  from i have "fst (bounds m r) \<le> addr" by (simp add: inside_def word_le_nat_alt)
  then show u: "unat off = unat addr - unat (fst (bounds m r))"
    unfolding off by (rule unat_sub)
  show "unat off + unat width \<le> unat (snd (bounds m r))"
    using i unfolding u inside_def by linarith
qed

definition regions_disjoint :: "memory_map \<Rightarrow> bool" where
  "regions_disjoint m \<longleftrightarrow> (\<forall>r r'. r \<noteq> r' \<longrightarrow>
     unat (fst (bounds m r)) + unat (snd (bounds m r)) \<le> unat (fst (bounds m r')) \<or>
     unat (fst (bounds m r')) + unat (snd (bounds m r')) \<le> unat (fst (bounds m r)))"

lemma inside_unique:
  assumes "regions_disjoint m" "0 < width" "inside m r addr width" "inside m r' addr width"
  shows "r = r'"
proof (rule ccontr)
  assume "r \<noteq> r'"
  with assms(1) have "unat (fst (bounds m r)) + unat (snd (bounds m r)) \<le> unat (fst (bounds m r')) \<or>
     unat (fst (bounds m r')) + unat (snd (bounds m r')) \<le> unat (fst (bounds m r))"
    by (auto simp: regions_disjoint_def)
  moreover have "0 < unat width" using assms(2) by (simp add: word_less_nat_alt)
  ultimately show False using assms(3,4) unfolding inside_def by linarith
qed

lemma classify_exact_gen:
  assumes "regions_disjoint m" "0 < width"
  shows "classify m addr width = Some (r, off) \<longleftrightarrow>
           inside m r addr width \<and> off = addr - fst (bounds m r)"
proof
  assume "classify m addr width = Some (r, off)"
  then show "inside m r addr width \<and> off = addr - fst (bounds m r)"
    by (blast dest: classifyD)
next
  assume r: "inside m r addr width \<and> off = addr - fst (bounds m r)"
  have "r \<in> set [Ram, Mmio, Framebuffer, Palette]" by (cases r) auto
  with r have "classify m addr width \<noteq> None"
    unfolding classify_def classify_among_None by blast
  then obtain r' off' where c: "classify m addr width = Some (r', off')" by auto
  then have "inside m r' addr width" "off' = addr - fst (bounds m r')"
    by (blast dest: classifyD)+
  with r inside_unique [OF assms] c show "classify m addr width = Some (r, off)" by blast
qed

lemma clickdoom_disjoint:
  assumes "unat (sz :: u32) \<le> 2 ^ 31"
  shows "regions_disjoint (with_ram_size map_clickdoom sz)"
  unfolding regions_disjoint_def
proof (intro allI impI)
  fix r r' :: region assume "r \<noteq> r'"
  with assms show "unat (fst (bounds (with_ram_size map_clickdoom sz) r)) +
        unat (snd (bounds (with_ram_size map_clickdoom sz) r))
      \<le> unat (fst (bounds (with_ram_size map_clickdoom sz) r')) \<or>
      unat (fst (bounds (with_ram_size map_clickdoom sz) r')) +
        unat (snd (bounds (with_ram_size map_clickdoom sz) r'))
      \<le> unat (fst (bounds (with_ram_size map_clickdoom sz) r))"
    by (cases r; cases r') (simp_all add: with_ram_size_def map_clickdoom_def map_constants)
qed

lemma with_ram_size_shipped: "with_ram_size map_clickdoom RAM_SIZE = map_clickdoom"
  by (simp add: with_ram_size_def map_clickdoom_def)

section \<open>Halt reasons\<close>

datatype halt_reason =
  IllegalInsn | BadAddr | SelfModify | Misaligned | Ecall | Ebreak | Csr | Exit

definition ALL_HALT_REASONS :: "halt_reason list" where
  "ALL_HALT_REASONS = [IllegalInsn, BadAddr, SelfModify, Misaligned, Ecall, Ebreak, Csr, Exit]"

fun halt_as_str :: "halt_reason \<Rightarrow> string" where
  "halt_as_str IllegalInsn = ''ILLEGAL_INSN''"
| "halt_as_str BadAddr = ''BAD_ADDR''"
| "halt_as_str SelfModify = ''SELF_MODIFY''"
| "halt_as_str Misaligned = ''MISALIGNED''"
| "halt_as_str Ecall = ''ECALL''"
| "halt_as_str Ebreak = ''EBREAK''"
| "halt_as_str Csr = ''CSR''"
| "halt_as_str Exit = ''EXIT''"

fun is_fault :: "halt_reason \<Rightarrow> bool" where
  "is_fault Exit = False"
| "is_fault _ = True"

definition halt_from_str :: "string \<Rightarrow> (halt_reason, string) rresult" where
  "halt_from_str s = (case List.find (\<lambda>r. halt_as_str r = s) ALL_HALT_REASONS of
     Some r \<Rightarrow> Ok r | None \<Rightarrow> Err s)"

lemma all_reasons: "r \<in> set ALL_HALT_REASONS"
  by (cases r) (simp_all add: ALL_HALT_REASONS_def)

lemma halt_as_str_inj: "halt_as_str r = halt_as_str r' \<longleftrightarrow> r = r'"
  by (cases r; cases r') simp_all

text \<open>
  The halt vocabulary is closed and its spellings are unambiguous.  Parsing a string gives a
  reason exactly when the string is that reason's spelling, and every other string is refused with
  the string itself in the error, so no synonym of a reason is ever accepted.
\<close>

theorem halt_from_str_exact:
  "(halt_from_str s = Ok r \<longleftrightarrow> s = halt_as_str r) \<and>
   (halt_from_str s = Err e \<longleftrightarrow> e = s \<and> s \<notin> range halt_as_str) \<and>
   halt_from_str s \<noteq> Panic"
proof -
  have none: "List.find (\<lambda>r. halt_as_str r = s) ALL_HALT_REASONS = None \<longleftrightarrow> s \<notin> range halt_as_str"
    using all_reasons by (auto simp: find_None_iff)
  have some: "List.find (\<lambda>r. halt_as_str r = s) ALL_HALT_REASONS = Some r \<longleftrightarrow> s = halt_as_str r" for r
  proof
    assume "s = halt_as_str r"
    then have "List.find (\<lambda>r. halt_as_str r = s) ALL_HALT_REASONS \<noteq> None"
      using none by blast
    then obtain r' where "List.find (\<lambda>r. halt_as_str r = s) ALL_HALT_REASONS = Some r'" by auto
    moreover from this have "halt_as_str r' = s" by (auto simp: find_Some_iff)
    ultimately show "List.find (\<lambda>r. halt_as_str r = s) ALL_HALT_REASONS = Some r"
      using \<open>s = halt_as_str r\<close> by (simp add: halt_as_str_inj)
  qed (auto simp: find_Some_iff)
  show ?thesis
    using none some [of r] by (auto simp: halt_from_str_def split: option.splits)
qed

text \<open>
  On the shipped map, with the shipped amount of RAM or any amount up to two gigabytes, an access
  of at least one byte is classified into a region exactly when every byte of it lies in that region,
  and the offset reported is the distance from that region's base.  So the order in which the regions
  are tried never decides an answer, and no sum of an address and a width wraps into a false hit.
\<close>

theorem classify_exact:
  assumes "unat (sz :: u32) \<le> 2 ^ 31" and "0 < width"
  shows "classify (with_ram_size map_clickdoom sz) addr width = Some (r, off) \<longleftrightarrow>
     (case bounds (with_ram_size map_clickdoom sz) r of (base, len) \<Rightarrow>
        unat base \<le> unat addr \<and> unat addr + unat width \<le> unat base + unat len \<and>
        unat off = unat addr - unat base)"
proof -
  have off: "off = addr - b \<longleftrightarrow> unat off = unat addr - unat b" if "unat b \<le> unat addr" for b
    using that by (metis unat_sub word_le_nat_alt word_unat_eq_iff)
  show ?thesis
    unfolding classify_exact_gen [OF clickdoom_disjoint [OF assms(1)] assms(2)]
    using off by (auto simp: inside_def split: prod.splits)
qed

theorem classify_exact_witness:
  "unat RAM_SIZE \<le> 2 ^ 31 \<and> (0::u32) < 4 \<and>
   classify (with_ram_size map_clickdoom RAM_SIZE) 0x80000010 4 = Some (Ram, 0x10)"
proof -
  have a: "unat RAM_SIZE \<le> 2 ^ 31" by (simp add: RAM_SIZE_def)
  have b: "(0::u32) < 4" by simp
  show ?thesis
    using a b classify_exact [OF a b, of "0x80000010" Ram "0x10"]
    by (simp add: with_ram_size_def map_clickdoom_def map_constants)
qed

end
