(* ===== verification/Decode.thy ===== *)
theory Decode
  imports Contract
begin

text \<open>
  Instruction words to their decoded form: \<open>refemu/src/decode.rs\<close>.  The decoder computes nothing but
  fields; an encoding the machine does not implement decodes to \<open>Illegal\<close>.
\<close>

section \<open>Operations and decoded instructions\<close>

datatype (plugins only: code size) op =
    Lui | Auipc | Jal | Jalr
  | Beq | Bne | Blt | Bge | Bltu | Bgeu
  | Lb | Lh | Lw | Lbu | Lhu
  | Sb | Sh | Sw
  | Addi | Slti | Sltiu | Xori | Ori | Andi | Slli | Srli | Srai
  | Add | Sub | Sll | Slt | Sltu | Xor | Srl | Sra | Or | And
  | Mul | Mulh | Mulhsu | Mulhu | Div | Divu | Rem | Remu
  | Fence | Ecall | Ebreak | Csr | Illegal

primrec mnemonic :: "op \<Rightarrow> string" where
  "mnemonic Lui = ''lui''" | "mnemonic Auipc = ''auipc''"
| "mnemonic Jal = ''jal''" | "mnemonic Jalr = ''jalr''"
| "mnemonic Beq = ''beq''" | "mnemonic Bne = ''bne''" | "mnemonic Blt = ''blt''"
| "mnemonic Bge = ''bge''" | "mnemonic Bltu = ''bltu''" | "mnemonic Bgeu = ''bgeu''"
| "mnemonic Lb = ''lb''" | "mnemonic Lh = ''lh''" | "mnemonic Lw = ''lw''"
| "mnemonic Lbu = ''lbu''" | "mnemonic Lhu = ''lhu''"
| "mnemonic Sb = ''sb''" | "mnemonic Sh = ''sh''" | "mnemonic Sw = ''sw''"
| "mnemonic Addi = ''addi''" | "mnemonic Slti = ''slti''" | "mnemonic Sltiu = ''sltiu''"
| "mnemonic Xori = ''xori''" | "mnemonic Ori = ''ori''" | "mnemonic Andi = ''andi''"
| "mnemonic Slli = ''slli''" | "mnemonic Srli = ''srli''" | "mnemonic Srai = ''srai''"
| "mnemonic Add = ''add''" | "mnemonic Sub = ''sub''" | "mnemonic Sll = ''sll''"
| "mnemonic Slt = ''slt''" | "mnemonic Sltu = ''sltu''" | "mnemonic Xor = ''xor''"
| "mnemonic Srl = ''srl''" | "mnemonic Sra = ''sra''" | "mnemonic Or = ''or''"
| "mnemonic And = ''and''"
| "mnemonic Mul = ''mul''" | "mnemonic Mulh = ''mulh''" | "mnemonic Mulhsu = ''mulhsu''"
| "mnemonic Mulhu = ''mulhu''" | "mnemonic Div = ''div''" | "mnemonic Divu = ''divu''"
| "mnemonic Rem = ''rem''" | "mnemonic Remu = ''remu''"
| "mnemonic Fence = ''fence''" | "mnemonic op.Ecall = ''ecall''"
| "mnemonic op.Ebreak = ''ebreak''" | "mnemonic op.Csr = ''csr''"
| "mnemonic Illegal = ''illegal''"

record instruction =
  i_op :: op
  i_rd :: u8
  i_rs1 :: u8
  i_rs2 :: u8
  i_imm :: i32

definition illegal :: instruction where
  "illegal = \<lparr> i_op = Illegal, i_rd = 0, i_rs1 = 0, i_rs2 = 0, i_imm = 0 \<rparr>"

text \<open>\<open>sext\<close>: a left shift, then an arithmetic right shift of the same amount.\<close>

definition sext :: "u32 \<Rightarrow> nat \<Rightarrow> i32" where
  "sext v bits = signed_drop_bit (32 - bits) (push_bit (32 - bits) v)"

section \<open>The decoder\<close>

definition OP_LUI :: u32 where "OP_LUI = 0x37"
definition OP_AUIPC :: u32 where "OP_AUIPC = 0x17"
definition OP_JAL :: u32 where "OP_JAL = 0x6F"
definition OP_JALR :: u32 where "OP_JALR = 0x67"
definition OP_BRANCH :: u32 where "OP_BRANCH = 0x63"
definition OP_LOAD :: u32 where "OP_LOAD = 0x03"
definition OP_STORE :: u32 where "OP_STORE = 0x23"
definition OP_IMM :: u32 where "OP_IMM = 0x13"
definition OP_REG :: u32 where "OP_REG = 0x33"
definition OP_FENCE :: u32 where "OP_FENCE = 0x0F"
definition OP_SYSTEM :: u32 where "OP_SYSTEM = 0x73"

lemmas opcodes = OP_LUI_def OP_AUIPC_def OP_JAL_def OP_JALR_def OP_BRANCH_def OP_LOAD_def
  OP_STORE_def OP_IMM_def OP_REG_def OP_FENCE_def OP_SYSTEM_def

text \<open>The fields every format shares.\<close>

definition f_opcode :: "u32 \<Rightarrow> u32" where "f_opcode w = w AND 0x7F"
definition f_rd :: "u32 \<Rightarrow> u32" where "f_rd w = drop_bit 7 w AND 0x1F"
definition f_funct3 :: "u32 \<Rightarrow> u32" where "f_funct3 w = drop_bit 12 w AND 0x7"
definition f_rs1 :: "u32 \<Rightarrow> u32" where "f_rs1 w = drop_bit 15 w AND 0x1F"
definition f_rs2 :: "u32 \<Rightarrow> u32" where "f_rs2 w = drop_bit 20 w AND 0x1F"
definition f_funct7 :: "u32 \<Rightarrow> u32" where "f_funct7 w = drop_bit 25 w AND 0x7F"

lemmas fields = f_opcode_def f_rd_def f_funct3_def f_rs1_def f_rs2_def f_funct7_def

text \<open>The scattered immediates, before sign extension.\<close>

definition j_imm_bits :: "u32 \<Rightarrow> u32" where
  "j_imm_bits w = push_bit 20 (drop_bit 31 w AND 0x1) OR push_bit 12 (drop_bit 12 w AND 0xFF)
     OR push_bit 11 (drop_bit 20 w AND 0x1) OR push_bit 1 (drop_bit 21 w AND 0x3FF)"

definition b_imm_bits :: "u32 \<Rightarrow> u32" where
  "b_imm_bits w = push_bit 12 (drop_bit 31 w AND 0x1) OR push_bit 11 (drop_bit 7 w AND 0x1)
     OR push_bit 5 (drop_bit 25 w AND 0x3F) OR push_bit 1 (drop_bit 8 w AND 0xF)"

definition s_imm_bits :: "u32 \<Rightarrow> u32" where
  "s_imm_bits w = push_bit 5 (drop_bit 25 w AND 0x7F) OR (drop_bit 7 w AND 0x1F)"

text \<open>The operation tables of the opcodes that share one; \<open>None\<close> is the early return of \<open>illegal\<close>.\<close>

definition branch_op :: "u32 \<Rightarrow> op option" where
  "branch_op funct3 =
     (if funct3 = 0 then Some Beq else if funct3 = 1 then Some Bne
      else if funct3 = 4 then Some Blt else if funct3 = 5 then Some Bge
      else if funct3 = 6 then Some Bltu else if funct3 = 7 then Some Bgeu else None)"

definition load_op :: "u32 \<Rightarrow> op option" where
  "load_op funct3 =
     (if funct3 = 0 then Some Lb else if funct3 = 1 then Some Lh else if funct3 = 2 then Some Lw
      else if funct3 = 4 then Some Lbu else if funct3 = 5 then Some Lhu else None)"

definition store_op :: "u32 \<Rightarrow> op option" where
  "store_op funct3 =
     (if funct3 = 0 then Some Sb else if funct3 = 1 then Some Sh
      else if funct3 = 2 then Some Sw else None)"

definition imm_op :: "u32 \<Rightarrow> u32 \<Rightarrow> op option" where
  "imm_op funct3 funct7 =
     (if funct3 = 0 then Some Addi else if funct3 = 2 then Some Slti
      else if funct3 = 3 then Some Sltiu else if funct3 = 4 then Some Xori
      else if funct3 = 6 then Some Ori else if funct3 = 7 then Some Andi
      else if funct3 = 1 \<and> funct7 = 0 then Some Slli
      else if funct3 = 5 \<and> funct7 = 0 then Some Srli
      else if funct3 = 5 \<and> funct7 = 0x20 then Some Srai else None)"

definition mul_op :: "u32 \<Rightarrow> op" where
  "mul_op funct3 =
     (if funct3 = 0 then Mul else if funct3 = 1 then Mulh else if funct3 = 2 then Mulhsu
      else if funct3 = 3 then Mulhu else if funct3 = 4 then Div else if funct3 = 5 then Divu
      else if funct3 = 6 then Rem else Remu)"

definition reg_op :: "u32 \<Rightarrow> u32 \<Rightarrow> op option" where
  "reg_op funct3 funct7 =
     (if funct3 = 0 \<and> funct7 = 0 then Some Add else if funct3 = 0 \<and> funct7 = 0x20 then Some Sub
      else if funct3 = 1 \<and> funct7 = 0 then Some Sll else if funct3 = 2 \<and> funct7 = 0 then Some Slt
      else if funct3 = 3 \<and> funct7 = 0 then Some Sltu else if funct3 = 4 \<and> funct7 = 0 then Some Xor
      else if funct3 = 5 \<and> funct7 = 0 then Some Srl else if funct3 = 5 \<and> funct7 = 0x20 then Some Sra
      else if funct3 = 6 \<and> funct7 = 0 then Some Or else if funct3 = 7 \<and> funct7 = 0 then Some And
      else None)"

text \<open>The macro \<open>insn!\<close>: the shared register fields beside an operation and an immediate.\<close>

definition mk_insn :: "u32 \<Rightarrow> op \<Rightarrow> i32 \<Rightarrow> instruction" where
  "mk_insn w p imm = \<lparr> i_op = p, i_rd = ucast (f_rd w), i_rs1 = ucast (f_rs1 w),
     i_rs2 = ucast (f_rs2 w), i_imm = imm \<rparr>"

fun insn_or_illegal :: "u32 \<Rightarrow> op option \<Rightarrow> i32 \<Rightarrow> instruction" where
  "insn_or_illegal w (Some p) imm = mk_insn w p imm"
| "insn_or_illegal w None imm = illegal"

definition decode :: "u32 \<Rightarrow> instruction" where
  "decode word =
     (let opcode = f_opcode word; funct3 = f_funct3 word; funct7 = f_funct7 word;
          i_imm = sext (drop_bit 20 word) 12
      in if opcode = OP_LUI then mk_insn word Lui (word AND 0xFFFFF000)
         else if opcode = OP_AUIPC then mk_insn word Auipc (word AND 0xFFFFF000)
         else if opcode = OP_JAL then mk_insn word Jal (sext (j_imm_bits word) 21)
         else if opcode = OP_JALR then
           (if funct3 \<noteq> 0 then illegal else mk_insn word Jalr i_imm)
         else if opcode = OP_BRANCH then
           insn_or_illegal word (branch_op funct3) (sext (b_imm_bits word) 13)
         else if opcode = OP_LOAD then insn_or_illegal word (load_op funct3) i_imm
         else if opcode = OP_STORE then
           insn_or_illegal word (store_op funct3) (sext (s_imm_bits word) 12)
         else if opcode = OP_IMM then insn_or_illegal word (imm_op funct3 funct7) i_imm
         else if opcode = OP_REG then
           (if funct7 = 1 then mk_insn word (mul_op funct3) 0
            else insn_or_illegal word (reg_op funct3 funct7) 0)
         else if opcode = OP_FENCE then mk_insn word Fence 0
         else if opcode = OP_SYSTEM then
           (if funct3 = 0 then
              (if drop_bit 20 word = 0 then mk_insn word op.Ecall 0
               else if drop_bit 20 word = 1 then mk_insn word op.Ebreak 0 else illegal)
            else if funct3 \<in> {1, 2, 3, 5, 6, 7} then mk_insn word op.Csr i_imm else illegal)
         else illegal)"

section \<open>Facts on the decoder\<close>

lemma mk_insn_sel [simp]:
  "i_op (mk_insn w p imm) = p" "i_imm (mk_insn w p imm) = imm"
  "i_rd (mk_insn w p imm) = ucast (f_rd w)" "i_rs1 (mk_insn w p imm) = ucast (f_rs1 w)"
  "i_rs2 (mk_insn w p imm) = ucast (f_rs2 w)"
  by (simp_all add: mk_insn_def)

lemma illegal_sel [simp]: "i_op illegal = Illegal" "i_rd illegal = 0" "i_rs1 illegal = 0"
  "i_rs2 illegal = 0" "i_imm illegal = 0"
  by (simp_all add: illegal_def)

lemma unat_reg_field: "unat (ucast (x AND 0x1F :: u32) :: u8) < 32"
proof -
  have "unat (ucast (x AND mask 5) :: u8) \<le> unat (x AND mask 5)"
    by (simp only: unsigned_ucast_eq take_bit_nat_less_eq_self)
  also have "\<dots> < 2 ^ 5" by (rule and_mask_less_nat) simp
  finally show ?thesis by (simp add: mask_32)
qed

text \<open>Every decoded instruction is \<open>illegal\<close> itself or carries the register fields of its word.\<close>

lemma decode_shape: "decode w = illegal \<or> (\<exists>p imm. decode w = mk_insn w p imm)"
proof -
  define P where "P i \<longleftrightarrow> i = illegal \<or> (\<exists>p imm. i = mk_insn w p imm)" for i
  have ite: "P a \<Longrightarrow> P b \<Longrightarrow> P (if c then a else b)" for c a b by simp
  have ill: "P illegal" and mk: "P (mk_insn w p imm)" for p imm by (auto simp: P_def)
  have opt: "P (insn_or_illegal w x imm)" for x imm by (cases x) (auto simp: P_def)
  have "P (decode w)" unfolding decode_def Let_def by (intro ite ill mk opt)
  then show ?thesis by (simp add: P_def)
qed

lemma decode_regs_bound:
  "unat (i_rd (decode w)) < 32 \<and> unat (i_rs1 (decode w)) < 32 \<and> unat (i_rs2 (decode w)) < 32"
  using decode_shape [of w] unat_reg_field [of "drop_bit 7 w"] unat_reg_field [of "drop_bit 15 w"]
    unat_reg_field [of "drop_bit 20 w"]
  by (auto simp: f_rd_def f_rs1_def f_rs2_def)

end
