(* ===== verification/Asm.thy ===== *)
theory Asm
  imports Decode
begin

text \<open>
  The instruction-word encoders, \<open>refemu/src/asm.rs\<close>, and how they and the decoder agree.  The formats
  are the transcription of the manual's; the named encoders are the applications of a format that the
  macro \<open>encoders!\<close> lists.
\<close>

section \<open>Formats\<close>

definition imm_bits :: "i32 \<Rightarrow> nat \<Rightarrow> u32" where
  "imm_bits v bits = v AND (push_bit bits 1 - 1)"

definition r_type :: "u32 \<Rightarrow> u32 \<Rightarrow> u32 \<Rightarrow> u32 \<Rightarrow> u32 \<Rightarrow> u32 \<Rightarrow> u32" where
  "r_type opcode rd funct3 rs1 rs2 funct7 =
     push_bit 25 funct7 OR push_bit 20 rs2 OR push_bit 15 rs1 OR push_bit 12 funct3
       OR push_bit 7 rd OR opcode"

definition i_type :: "u32 \<Rightarrow> u32 \<Rightarrow> u32 \<Rightarrow> u32 \<Rightarrow> i32 \<Rightarrow> u32" where
  "i_type opcode rd funct3 rs1 imm =
     push_bit 20 (imm_bits imm 12) OR push_bit 15 rs1 OR push_bit 12 funct3
       OR push_bit 7 rd OR opcode"

definition s_type :: "u32 \<Rightarrow> u32 \<Rightarrow> u32 \<Rightarrow> u32 \<Rightarrow> i32 \<Rightarrow> u32" where
  "s_type opcode funct3 rs1 rs2 imm0 =
     (let imm = imm_bits imm0 12
      in push_bit 25 (drop_bit 5 imm) OR push_bit 20 rs2 OR push_bit 15 rs1 OR push_bit 12 funct3
           OR push_bit 7 (imm AND 0x1F) OR opcode)"

definition b_type :: "u32 \<Rightarrow> u32 \<Rightarrow> u32 \<Rightarrow> u32 \<Rightarrow> i32 \<Rightarrow> u32" where
  "b_type opcode funct3 rs1 rs2 imm0 =
     (let imm = imm_bits imm0 13
      in push_bit 31 (drop_bit 12 imm AND 1) OR push_bit 25 (drop_bit 5 imm AND 0x3F)
           OR push_bit 20 rs2 OR push_bit 15 rs1 OR push_bit 12 funct3
           OR push_bit 8 (drop_bit 1 imm AND 0xF) OR push_bit 7 (drop_bit 11 imm AND 1) OR opcode)"

definition u_type :: "u32 \<Rightarrow> u32 \<Rightarrow> i32 \<Rightarrow> u32" where
  "u_type opcode rd imm20 = push_bit 12 (imm_bits imm20 20) OR push_bit 7 rd OR opcode"

definition j_type :: "u32 \<Rightarrow> u32 \<Rightarrow> i32 \<Rightarrow> u32" where
  "j_type opcode rd imm0 =
     (let imm = imm_bits imm0 21
      in push_bit 31 (drop_bit 20 imm AND 1) OR push_bit 21 (drop_bit 1 imm AND 0x3FF)
           OR push_bit 20 (drop_bit 11 imm AND 1) OR push_bit 12 (drop_bit 12 imm AND 0xFF)
           OR push_bit 7 rd OR opcode)"

section \<open>The encoders\<close>

text \<open>
  The table of \<open>encoders!\<close>, one arm per named encoder, over a decoded instruction: \<open>assemble\<close> of an
  instruction calls the encoder of its operation with the operands that encoder takes.  \<open>csrrw\<close> is the
  one encoder of a CSR form; \<open>Illegal\<close> has none, and \<open>RESERVED_OPCODE\<close> stands for it.
\<close>

definition RESERVED_OPCODE :: u32 where "RESERVED_OPCODE = 0"

definition assemble_op :: "op \<Rightarrow> u32 \<Rightarrow> u32 \<Rightarrow> u32 \<Rightarrow> i32 \<Rightarrow> u32" where
  "assemble_op p rd rs1 rs2 imm = (case p of
     Lui \<Rightarrow> u_type 0x37 rd imm | Auipc \<Rightarrow> u_type 0x17 rd imm
   | Jal \<Rightarrow> j_type 0x6F rd imm | Jalr \<Rightarrow> i_type 0x67 rd 0 rs1 imm
   | Beq \<Rightarrow> b_type 0x63 0 rs1 rs2 imm | Bne \<Rightarrow> b_type 0x63 1 rs1 rs2 imm
   | Blt \<Rightarrow> b_type 0x63 4 rs1 rs2 imm | Bge \<Rightarrow> b_type 0x63 5 rs1 rs2 imm
   | Bltu \<Rightarrow> b_type 0x63 6 rs1 rs2 imm | Bgeu \<Rightarrow> b_type 0x63 7 rs1 rs2 imm
   | Lb \<Rightarrow> i_type 0x03 rd 0 rs1 imm | Lh \<Rightarrow> i_type 0x03 rd 1 rs1 imm
   | Lw \<Rightarrow> i_type 0x03 rd 2 rs1 imm | Lbu \<Rightarrow> i_type 0x03 rd 4 rs1 imm
   | Lhu \<Rightarrow> i_type 0x03 rd 5 rs1 imm
   | Sb \<Rightarrow> s_type 0x23 0 rs1 rs2 imm | Sh \<Rightarrow> s_type 0x23 1 rs1 rs2 imm
   | Sw \<Rightarrow> s_type 0x23 2 rs1 rs2 imm
   | Addi \<Rightarrow> i_type 0x13 rd 0 rs1 imm | Slti \<Rightarrow> i_type 0x13 rd 2 rs1 imm
   | Sltiu \<Rightarrow> i_type 0x13 rd 3 rs1 imm | Xori \<Rightarrow> i_type 0x13 rd 4 rs1 imm
   | Ori \<Rightarrow> i_type 0x13 rd 6 rs1 imm | Andi \<Rightarrow> i_type 0x13 rd 7 rs1 imm
   | Slli \<Rightarrow> r_type 0x13 rd 1 rs1 imm 0 | Srli \<Rightarrow> r_type 0x13 rd 5 rs1 imm 0
   | Srai \<Rightarrow> r_type 0x13 rd 5 rs1 imm 0x20
   | Add \<Rightarrow> r_type 0x33 rd 0 rs1 rs2 0 | Sub \<Rightarrow> r_type 0x33 rd 0 rs1 rs2 0x20
   | Sll \<Rightarrow> r_type 0x33 rd 1 rs1 rs2 0 | Slt \<Rightarrow> r_type 0x33 rd 2 rs1 rs2 0
   | Sltu \<Rightarrow> r_type 0x33 rd 3 rs1 rs2 0 | Xor \<Rightarrow> r_type 0x33 rd 4 rs1 rs2 0
   | Srl \<Rightarrow> r_type 0x33 rd 5 rs1 rs2 0 | Sra \<Rightarrow> r_type 0x33 rd 5 rs1 rs2 0x20
   | Or \<Rightarrow> r_type 0x33 rd 6 rs1 rs2 0 | And \<Rightarrow> r_type 0x33 rd 7 rs1 rs2 0
   | Mul \<Rightarrow> r_type 0x33 rd 0 rs1 rs2 1 | Mulh \<Rightarrow> r_type 0x33 rd 1 rs1 rs2 1
   | Mulhsu \<Rightarrow> r_type 0x33 rd 2 rs1 rs2 1 | Mulhu \<Rightarrow> r_type 0x33 rd 3 rs1 rs2 1
   | Div \<Rightarrow> r_type 0x33 rd 4 rs1 rs2 1 | Divu \<Rightarrow> r_type 0x33 rd 5 rs1 rs2 1
   | Rem \<Rightarrow> r_type 0x33 rd 6 rs1 rs2 1 | Remu \<Rightarrow> r_type 0x33 rd 7 rs1 rs2 1
   | Fence \<Rightarrow> i_type 0x0F 0 0 0 0
   | op.Ecall \<Rightarrow> i_type 0x73 0 0 0 0 | op.Ebreak \<Rightarrow> i_type 0x73 0 0 0 1
   | op.Csr \<Rightarrow> i_type 0x73 rd 1 rs1 imm | Illegal \<Rightarrow> RESERVED_OPCODE)"

definition NOP :: u32 where "NOP = assemble_op Addi 0 0 0 0"

text \<open>\<open>program\<close>: words packed into the bytes a loader takes.\<close>

definition program :: "u32 list \<Rightarrow> u8 list" where
  "program words = concat (map (to_le_bytes 4) words)"

lemma length_program [simp]: "length (program ws) = 4 * length ws"
  by (induction ws) (simp_all add: program_def)

section \<open>The fields of an encoded word\<close>

text \<open>What an operand is when it fits its field.\<close>

lemma imm_bits_mask: "imm_bits v n = v AND mask n"
  by (simp add: imm_bits_def mask_eq_exp_minus_1 push_bit_eq_mult)

lemmas format_defs = r_type_def i_type_def s_type_def b_type_def u_type_def j_type_def Let_def
  imm_bits_mask fields mask_32 j_imm_bits_def b_imm_bits_def s_imm_bits_def

definition fits :: "nat \<Rightarrow> u32 \<Rightarrow> bool" where
  "fits k x \<longleftrightarrow> x < 2 ^ k"

definition sfits :: "nat \<Rightarrow> i32 \<Rightarrow> bool" where
  "sfits k v \<longleftrightarrow> - (2 ^ (k - 1)) \<le> sint v \<and> sint v < 2 ^ (k - 1)"

lemma fitsD: "fits k x \<Longrightarrow> bit x n \<Longrightarrow> n < k"
  unfolding fits_def by (rule bit_below)

lemma sfitsD:
  assumes "sfits k v" "k - 1 \<le> n" "n < 32"
  shows "bit v n \<longleftrightarrow> bit v (k - 1)"
proof -
  have "signed_take_bit (k - 1) (sint v) = sint v"
    using assms(1) by (simp add: sfits_def signed_take_bit_int_eq_self_iff)
  then have "bit (sint v) n \<longleftrightarrow> bit (signed_take_bit (k - 1) (sint v)) n" by simp
  also have "\<dots> \<longleftrightarrow> bit (sint v) (k - 1)"
    using assms(2) by (simp add: bit_signed_take_bit_iff min_absorb1)
  finally show ?thesis using assms(2,3) by (simp add: bit_sint_iff)
qed

lemma fits_numeral [simp]:
  "fits 7 0x37" "fits 7 0x17" "fits 7 0x6F" "fits 7 0x67" "fits 7 0x63" "fits 7 0x03" "fits 7 0x23"
  "fits 7 0x13" "fits 7 0x33" "fits 7 0x0F" "fits 7 0x73" "fits 7 0x20" "fits 7 0" "fits 5 0" "fits 3 0" "fits 7 1"
  "fits 3 1" "fits 3 2" "fits 3 3" "fits 3 4" "fits 3 5" "fits 3 6" "fits 3 7"
  by (simp_all add: fits_def)

lemma bit_sext:
  "0 < k \<Longrightarrow> k \<le> 32 \<Longrightarrow> n < 32 \<Longrightarrow> bit (sext x k) n \<longleftrightarrow> bit x (if n < k then n else k - 1)"
  by (auto simp: sext_def bit_simps)

lemma sext_imm:
  assumes "sfits k v" "0 < k" "k \<le> 32" "\<And>n. n < k \<Longrightarrow> bit x n = bit v n"
  shows "sext x k = v"
proof (rule bit_word_eqI)
  fix n assume "n < LENGTH(32)"
  then show "bit (sext x k) n = bit v n"
    using assms(2-4) sfitsD [OF assms(1), of n] by (simp add: bit_sext)
qed

text \<open>
  A field of a disjunction of shifted operands: an operand placed at the field's own position is the
  field, one placed above or wholly below it contributes nothing.
\<close>

lemma fld_here: "fits k x \<Longrightarrow> k + t \<le> 32 \<Longrightarrow> drop_bit t (push_bit t x) AND mask k = x"
  by (rule bit_word_eqI) (auto simp: bit_simps dest: fitsD)

lemma fld_here_top: "fits k x \<Longrightarrow> k + t \<le> 32 \<Longrightarrow> drop_bit t (push_bit t x) = x"
  by (rule bit_word_eqI) (auto simp: bit_simps dest: fitsD)

lemma fld_above: "s + k \<le> t \<Longrightarrow> drop_bit s (push_bit t x) AND mask k = (0 :: u32)"
  by (rule bit_word_eqI) (auto simp: bit_simps)

lemma fld_below: "fits j x \<Longrightarrow> t + j \<le> s \<Longrightarrow> drop_bit s (push_bit t x) = (0 :: u32)"
  by (rule bit_word_eqI) (auto simp: bit_simps dest: fitsD)

lemma fld_below_0: "fits j x \<Longrightarrow> j \<le> s \<Longrightarrow> drop_bit s x = (0 :: u32)"
  by (rule bit_word_eqI) (auto simp: bit_simps dest: fitsD)

lemma fld_low: "k \<le> t \<Longrightarrow> push_bit t x AND mask k = (0 :: u32)"
  by (rule bit_word_eqI) (auto simp: bit_simps)

lemma fld_id: "fits k x \<Longrightarrow> x AND mask k = x"
  by (rule bit_word_eqI) (auto simp: bit_simps dest: fitsD)

lemma fits_mask: "k < 32 \<Longrightarrow> fits k (x AND mask k)"
  by (simp add: fits_def and_mask_less')

lemma fitsI:
  assumes "k < 32" "\<And>n. bit x n \<Longrightarrow> n < k"
  shows "fits k x"
proof -
  have "x AND mask k = x" by (rule bit_word_eqI) (auto simp: bit_simps dest: assms(2))
  then show ?thesis using fits_mask [OF assms(1), of x] by simp
qed

lemma fits_drop: "j + k < 32 \<Longrightarrow> fits k (drop_bit j (x AND mask (j + k)))"
  by (rule fitsI) (auto simp: bit_simps)

lemma fits_drop_12 [simp]: "fits 7 (drop_bit 5 (x AND mask 12))"
  using fits_drop [of 5 7 x] by simp

lemma fits_masked [simp]: "fits 1 (x AND mask 1)" "fits 4 (x AND mask 4)" "fits 5 (x AND mask 5)"
  "fits 6 (x AND mask 6)" "fits 8 (x AND mask 8)" "fits 10 (x AND mask 10)" "fits 12 (x AND mask 12)"
  "fits 20 (x AND mask 20)"
  by (simp_all only: fits_mask less_numeral_simps semiring_norm one_less_numeral_iff)

lemma fits_and_1 [simp]: "fits 1 (x AND 1)"
  using fits_masked(1) [of x] by simp

lemmas fld_1 = fld_here [of 1, simplified] fld_above [of _ 1, simplified] fld_id [of 1, simplified]

lemmas fld_simps = fld_here fld_here_top fld_above fld_below fld_below_0 fld_low fld_id fld_1
  drop_bit_or bit.conj_disj_distrib2

lemma r_type_fields [word_fields]:
  assumes "fits 7 opcode" "fits 5 rd" "fits 3 funct3" "fits 5 rs1" "fits 5 rs2" "fits 7 funct7"
  shows "f_opcode (r_type opcode rd funct3 rs1 rs2 funct7) = opcode"
    and "f_rd (r_type opcode rd funct3 rs1 rs2 funct7) = rd"
    and "f_funct3 (r_type opcode rd funct3 rs1 rs2 funct7) = funct3"
    and "f_rs1 (r_type opcode rd funct3 rs1 rs2 funct7) = rs1"
    and "f_rs2 (r_type opcode rd funct3 rs1 rs2 funct7) = rs2"
    and "f_funct7 (r_type opcode rd funct3 rs1 rs2 funct7) = funct7"
  using assms unfolding format_defs by (simp_all del: push_bit_and drop_bit_and add: fld_simps)

lemma i_word_fields:
  assumes "fits 7 opcode" "fits 5 rd" "fits 3 funct3" "fits 5 rs1" "fits 12 x"
  defines "w \<equiv> push_bit 20 x OR push_bit 15 rs1 OR push_bit 12 funct3 OR push_bit 7 rd OR opcode"
  shows "f_opcode w = opcode" "f_rd w = rd" "f_funct3 w = funct3" "f_rs1 w = rs1" "drop_bit 20 w = x"
  using assms(1-5) unfolding w_def format_defs by (simp_all add: fld_simps)

lemma i_type_fields:
  assumes "fits 7 opcode" "fits 5 rd" "fits 3 funct3" "fits 5 rs1"
  shows "f_opcode (i_type opcode rd funct3 rs1 imm) = opcode"
    and "f_rd (i_type opcode rd funct3 rs1 imm) = rd"
    and "f_funct3 (i_type opcode rd funct3 rs1 imm) = funct3"
    and "f_rs1 (i_type opcode rd funct3 rs1 imm) = rs1"
    and "drop_bit 20 (i_type opcode rd funct3 rs1 imm) = imm AND mask 12"
  unfolding i_type_def imm_bits_mask by (rule i_word_fields; simp add: assms)+

lemma s_type_fields:
  assumes "fits 7 opcode" "fits 3 funct3" "fits 5 rs1" "fits 5 rs2"
  shows "f_opcode (s_type opcode funct3 rs1 rs2 imm) = opcode"
    and "f_funct3 (s_type opcode funct3 rs1 rs2 imm) = funct3"
    and "f_rs1 (s_type opcode funct3 rs1 rs2 imm) = rs1"
    and "f_rs2 (s_type opcode funct3 rs1 rs2 imm) = rs2"
    and "s_imm_bits (s_type opcode funct3 rs1 rs2 imm) =
      push_bit 5 (drop_bit 5 (imm AND mask 12)) OR ((imm AND mask 12) AND mask 5)"
proof -
  let ?w = "s_type opcode funct3 rs1 rs2 imm"
  have w: "?w = r_type opcode ((imm AND mask 12) AND mask 5) funct3 rs1 rs2 (drop_bit 5 (imm AND mask 12))"
    by (simp only: s_type_def r_type_def imm_bits_mask Let_def mask_32)
  note f = r_type_fields [OF assms(1) fits_masked(3) assms(2,3,4) fits_drop_12]
  show "f_opcode ?w = opcode" "f_funct3 ?w = funct3" "f_rs1 ?w = rs1" "f_rs2 ?w = rs2"
    unfolding w by (rule f)+
  show "s_imm_bits ?w = push_bit 5 (drop_bit 5 (imm AND mask 12)) OR ((imm AND mask 12) AND mask 5)"
    unfolding s_imm_bits_def f_funct7_def [symmetric] f_rd_def [symmetric] unfolding w f ..
qed

lemma b_word_fields:
  assumes "fits 7 opcode" "fits 3 funct3" "fits 5 rs1" "fits 5 rs2" "fits 1 a" "fits 6 b" "fits 4 c" "fits 1 d"
  defines "w \<equiv> push_bit 31 a OR push_bit 25 b OR push_bit 20 rs2 OR push_bit 15 rs1 OR push_bit 12 funct3
      OR push_bit 8 c OR push_bit 7 d OR opcode"
  shows "f_opcode w = opcode" "f_funct3 w = funct3" "f_rs1 w = rs1" "f_rs2 w = rs2"
    "b_imm_bits w = push_bit 12 a OR push_bit 11 d OR push_bit 5 b OR push_bit 1 c"
  using assms(1-8) unfolding w_def format_defs by (simp_all del: push_bit_and add: fld_simps)

lemma b_type_fields:
  assumes "fits 7 opcode" "fits 3 funct3" "fits 5 rs1" "fits 5 rs2"
  shows "f_opcode (b_type opcode funct3 rs1 rs2 imm) = opcode"
    and "f_funct3 (b_type opcode funct3 rs1 rs2 imm) = funct3"
    and "f_rs1 (b_type opcode funct3 rs1 rs2 imm) = rs1"
    and "f_rs2 (b_type opcode funct3 rs1 rs2 imm) = rs2"
    and "b_imm_bits (b_type opcode funct3 rs1 rs2 imm) =
      push_bit 12 (drop_bit 12 (imm AND mask 13) AND 1) OR push_bit 11 (drop_bit 11 (imm AND mask 13) AND 1)
        OR push_bit 5 (drop_bit 5 (imm AND mask 13) AND mask 6)
        OR push_bit 1 (drop_bit 1 (imm AND mask 13) AND mask 4)"
  unfolding b_type_def imm_bits_mask Let_def mask_32
  by (rule b_word_fields [OF assms fits_and_1 fits_masked(4) fits_masked(2) fits_and_1])+

lemma j_word_fields:
  assumes "fits 7 opcode" "fits 5 rd" "fits 1 a" "fits 10 b" "fits 1 c" "fits 8 d"
  defines "w \<equiv> push_bit 31 a OR push_bit 21 b OR push_bit 20 c OR push_bit 12 d OR push_bit 7 rd OR opcode"
  shows "f_opcode w = opcode" "f_rd w = rd"
    "j_imm_bits w = push_bit 20 a OR push_bit 12 d OR push_bit 11 c OR push_bit 1 b"
  using assms(1-6) unfolding w_def format_defs by (simp_all del: push_bit_and add: fld_simps)

lemma j_type_fields:
  assumes "fits 7 opcode" "fits 5 rd"
  shows "f_opcode (j_type opcode rd imm) = opcode" and "f_rd (j_type opcode rd imm) = rd"
    and "j_imm_bits (j_type opcode rd imm) =
      push_bit 20 (drop_bit 20 (imm AND mask 21) AND 1) OR push_bit 12 (drop_bit 12 (imm AND mask 21) AND mask 8)
        OR push_bit 11 (drop_bit 11 (imm AND mask 21) AND 1)
        OR push_bit 1 (drop_bit 1 (imm AND mask 21) AND mask 10)"
  unfolding j_type_def imm_bits_mask Let_def mask_32
  by (rule j_word_fields [OF assms fits_and_1 fits_masked(6) fits_and_1 fits_masked(5)])+

lemma upper_20: "(0xFFFFF000 :: u32) = NOT (mask 12)"
  by (simp add: mask_eq_exp_minus_1)

lemma u_type_fields [word_fields]:
  assumes "fits 7 opcode" "fits 5 rd"
  shows "f_opcode (u_type opcode rd imm20) = opcode" and "f_rd (u_type opcode rd imm20) = rd"
    and "u_type opcode rd imm20 AND 0xFFFFF000 = push_bit 12 imm20"
  unfolding format_defs upper_20
  by - (rule bit_word_eqI, auto simp: bit_simps dest: assms [THEN fitsD])+

lemmas [word_fields] = i_type_fields(1-4) s_type_fields(1-4) b_type_fields(1-4) j_type_fields(1,2)

text \<open>The immediate of each format survives the encoding.\<close>

lemma i_type_imm [word_fields]:
  assumes "fits 7 opcode" "fits 5 rd" "fits 3 funct3" "fits 5 rs1" "sfits 12 imm"
  shows "sext (drop_bit 20 (i_type opcode rd funct3 rs1 imm)) 12 = imm"
  unfolding i_type_fields(5) [OF assms(1-4)] by (rule sext_imm [OF assms(5)]) (auto simp: bit_simps)

lemma s_type_imm [word_fields]:
  assumes "fits 7 opcode" "fits 3 funct3" "fits 5 rs1" "fits 5 rs2" "sfits 12 imm"
  shows "sext (s_imm_bits (s_type opcode funct3 rs1 rs2 imm)) 12 = imm"
  unfolding s_type_fields(5) [OF assms(1-4)] by (rule sext_imm [OF assms(5)]) (auto simp: bit_simps)

lemma b_type_imm [word_fields]:
  assumes "fits 7 opcode" "fits 3 funct3" "fits 5 rs1" "fits 5 rs2" "sfits 13 imm" "\<not> bit imm 0"
  shows "sext (b_imm_bits (b_type opcode funct3 rs1 rs2 imm)) 13 = imm"
  unfolding b_type_fields(5) [OF assms(1-4)]
proof (rule sext_imm [OF assms(5)])
  fix n :: nat assume "n < 13"
  then consider "n = 0" | "1 \<le> n \<and> n \<le> 4" | "5 \<le> n \<and> n \<le> 10" | "n = 11" | "n = 12" by linarith
  then show "bit (push_bit 12 (drop_bit 12 (imm AND mask 13) AND 1)
        OR push_bit 11 (drop_bit 11 (imm AND mask 13) AND 1)
        OR push_bit 5 (drop_bit 5 (imm AND mask 13) AND mask 6)
        OR push_bit 1 (drop_bit 1 (imm AND mask 13) AND mask 4)) n = bit imm n"
    by cases (use assms(6) in \<open>auto simp del: push_bit_Suc push_bit_and drop_bit_and simp: bit_simps\<close>)
qed simp_all

lemma j_type_imm [word_fields]:
  assumes "fits 7 opcode" "fits 5 rd" "sfits 21 imm" "\<not> bit imm 0"
  shows "sext (j_imm_bits (j_type opcode rd imm)) 21 = imm"
  unfolding j_type_fields(3) [OF assms(1,2)]
proof (rule sext_imm [OF assms(3)])
  fix n :: nat assume "n < 21"
  then consider "n = 0" | "1 \<le> n \<and> n \<le> 10" | "n = 11" | "12 \<le> n \<and> n \<le> 19" | "n = 20" by linarith
  then show "bit (push_bit 20 (drop_bit 20 (imm AND mask 21) AND 1)
        OR push_bit 12 (drop_bit 12 (imm AND mask 21) AND mask 8)
        OR push_bit 11 (drop_bit 11 (imm AND mask 21) AND 1)
        OR push_bit 1 (drop_bit 1 (imm AND mask 21) AND mask 10)) n = bit imm n"
    by cases (use assms(4) in \<open>auto simp del: push_bit_Suc push_bit_and drop_bit_and simp: bit_simps\<close>)
qed simp_all

section \<open>Assembling and decoding are inverse\<close>

text \<open>
  The operand each encoder takes for its immediate: the upper twenty bits, a shift amount, or the
  immediate itself.
\<close>

definition operand :: "op \<Rightarrow> i32 \<Rightarrow> i32" where
  "operand p imm = (if p \<in> {Lui, Auipc} then drop_bit 12 imm
     else if p \<in> {Slli, Srli, Srai} then imm AND 0x1F else imm)"

definition assemble :: "instruction \<Rightarrow> u32" where
  "assemble i = assemble_op (i_op i) (ucast (i_rd i)) (ucast (i_rs1 i)) (ucast (i_rs2 i))
     (operand (i_op i) (i_imm i))"

text \<open>The registers an operation's format carries, and the immediates it can hold.\<close>

definition uses_rd :: "op \<Rightarrow> bool" where
  "uses_rd p \<longleftrightarrow> p \<notin> {Beq, Bne, Blt, Bge, Bltu, Bgeu, Sb, Sh, Sw, Fence, op.Ecall, op.Ebreak, Illegal}"

definition uses_rs1 :: "op \<Rightarrow> bool" where
  "uses_rs1 p \<longleftrightarrow> p \<notin> {Lui, Auipc, Jal, Fence, op.Ecall, op.Ebreak, Illegal}"

definition uses_rs2 :: "op \<Rightarrow> bool" where
  "uses_rs2 p \<longleftrightarrow> p \<in> {Beq, Bne, Blt, Bge, Bltu, Bgeu, Sb, Sh, Sw, Add, Sub, Sll, Slt, Sltu, Xor, Srl, Sra,
     Or, And, Mul, Mulh, Mulhsu, Mulhu, Div, Divu, Rem, Remu}"

definition imm_ok :: "op \<Rightarrow> i32 \<Rightarrow> bool" where
  "imm_ok p imm \<longleftrightarrow>
     (if p \<in> {Lui, Auipc} then imm AND mask 12 = 0
      else if p = Jal then sfits 21 imm \<and> \<not> bit imm 0
      else if p \<in> {Beq, Bne, Blt, Bge, Bltu, Bgeu} then sfits 13 imm \<and> \<not> bit imm 0
      else if p \<in> {Jalr, Lb, Lh, Lw, Lbu, Lhu, Sb, Sh, Sw, Addi, Slti, Sltiu, Xori, Ori, Andi, op.Csr}
        then sfits 12 imm
      else if p \<in> {Slli, Srli} then fits 5 imm
      else if p = Srai then imm AND NOT (mask 5) = 0x400
      else imm = 0)"

definition encodable :: "instruction \<Rightarrow> bool" where
  "encodable i \<longleftrightarrow> i_op i \<noteq> Illegal \<and> imm_ok (i_op i) (i_imm i) \<and>
     unat (i_rd i) < 32 \<and> unat (i_rs1 i) < 32 \<and> unat (i_rs2 i) < 32"

definition same_insn :: "instruction \<Rightarrow> instruction \<Rightarrow> bool" where
  "same_insn d i \<longleftrightarrow> i_op d = i_op i \<and> i_imm d = i_imm i \<and>
     (uses_rd (i_op i) \<longrightarrow> i_rd d = i_rd i) \<and> (uses_rs1 (i_op i) \<longrightarrow> i_rs1 d = i_rs1 i) \<and>
     (uses_rs2 (i_op i) \<longrightarrow> i_rs2 d = i_rs2 i)"

lemma fits_reg: "unat (r :: u8) < 32 \<Longrightarrow> fits 5 (ucast r)"
  using le_less_trans [OF take_bit_nat_less_eq_self [of 32 "unat r"]]
  by (simp only: fits_def word_less_nat_alt unsigned_ucast_eq) simp

lemma reg_up_down [simp]: "ucast (ucast (r :: u8) :: u32) = r"
  by (rule bit_word_eqI) (simp add: bit_simps)

lemma and_31: "x AND 0x1F = x AND (mask 5 :: u32)"
  by (simp only: mask_32)

lemma shift_imm_bits:
  assumes "fits 5 x" "fits 7 f7"
    and "fits 7 opcode" "fits 5 rd" "fits 3 funct3" "fits 5 rs1"
  shows "drop_bit 20 (r_type opcode rd funct3 rs1 x f7) = push_bit 5 f7 OR x"
  unfolding format_defs by (rule bit_word_eqI) (auto simp: bit_simps dest: assms [THEN fitsD])

lemma shift_imm_0: "fits 5 x \<Longrightarrow> sext (push_bit 5 0 OR x) 12 = x"
  by (rule bit_word_eqI) (auto simp: sext_def bit_simps dest: fitsD)

lemma shift_imm_20:
  assumes "imm AND NOT (mask 5) = (0x400 :: i32)"
  shows "sext (push_bit 5 0x20 OR (imm AND mask 5)) 12 = imm"
proof -
  have k: "(0x400 :: i32) = 2 ^ 10" by simp
  have imm: "bit imm n \<longleftrightarrow> n = 10" if "5 \<le> n" "n < 32" for n
  proof -
    have "bit imm n \<longleftrightarrow> bit (imm AND NOT (mask 5)) n" using that by (simp add: bit_simps)
    also have "\<dots> \<longleftrightarrow> n = 10" unfolding assms k bit_exp_iff using that by auto
    finally show ?thesis .
  qed
  have p: "push_bit 5 0x20 = (2 ^ 10 :: i32)" by simp
  have b: "bit (push_bit 5 0x20 OR (imm AND mask 5)) n \<longleftrightarrow> n = 10 \<or> n < 5 \<and> bit imm n" for n
    unfolding p bit_or_iff bit_and_iff bit_exp_iff bit_mask_iff by auto
  show ?thesis
  proof (rule bit_word_eqI)
    fix n assume "n < LENGTH(32)"
    then have n: "n < 32" by simp
    have "bit (sext (push_bit 5 0x20 OR (imm AND mask 5)) 12) n \<longleftrightarrow>
        bit (push_bit 5 0x20 OR (imm AND mask 5)) (if n < 12 then n else 12 - 1)"
      by (rule bit_sext) (use n in simp_all)
    also have "\<dots> \<longleftrightarrow> bit imm n" unfolding b using imm [of n] n by (cases "n < 5") auto
    finally show "bit (sext (push_bit 5 0x20 OR (imm AND mask 5)) 12) n = bit imm n" .
  qed
qed

lemmas decode_tables = branch_op_def load_op_def store_op_def imm_op_def mul_op_def reg_op_def

text \<open>Decoding an encoded word, one lemma per opcode.\<close>

lemma decode_reg [word_fields]:
  assumes "fits 5 rd" "fits 5 rs1" "fits 5 rs2" "fits 3 funct3" "fits 7 funct7"
  shows "decode (r_type 0x33 rd funct3 rs1 rs2 funct7) =
    (if funct7 = 1 then mk_insn (r_type 0x33 rd funct3 rs1 rs2 funct7) (mul_op funct3) 0
     else insn_or_illegal (r_type 0x33 rd funct3 rs1 rs2 funct7) (reg_op funct3 funct7) 0)"
  using assms by (simp add: decode_def Let_def opcodes word_fields)

lemma decode_shift [word_fields]:
  assumes "fits 5 rd" "fits 5 rs1" "fits 5 x" "fits 3 funct3" "fits 7 funct7"
  shows "decode (r_type 0x13 rd funct3 rs1 x funct7) =
    insn_or_illegal (r_type 0x13 rd funct3 rs1 x funct7) (imm_op funct3 funct7)
      (sext (push_bit 5 funct7 OR x) 12)"
  using assms by (simp add: decode_def Let_def opcodes word_fields shift_imm_bits)

lemma decode_imm [word_fields]:
  assumes "fits 5 rd" "fits 5 rs1" "fits 3 funct3" "sfits 12 imm"
  shows "decode (i_type 0x13 rd funct3 rs1 imm) =
    insn_or_illegal (i_type 0x13 rd funct3 rs1 imm)
      (imm_op funct3 (f_funct7 (i_type 0x13 rd funct3 rs1 imm))) imm"
  using assms by (simp add: decode_def Let_def opcodes word_fields)

lemma decode_load [word_fields]:
  assumes "fits 5 rd" "fits 5 rs1" "fits 3 funct3" "sfits 12 imm"
  shows "decode (i_type 3 rd funct3 rs1 imm) =
    insn_or_illegal (i_type 3 rd funct3 rs1 imm) (load_op funct3) imm"
  using assms by (simp add: decode_def Let_def opcodes word_fields)

lemma decode_jalr [word_fields]:
  assumes "fits 5 rd" "fits 5 rs1" "sfits 12 imm"
  shows "decode (i_type 0x67 rd 0 rs1 imm) = mk_insn (i_type 0x67 rd 0 rs1 imm) Jalr imm"
  using assms by (simp add: decode_def Let_def opcodes word_fields)

lemma decode_csr [word_fields]:
  assumes "fits 5 rd" "fits 5 rs1" "sfits 12 imm"
  shows "decode (i_type 0x73 rd 1 rs1 imm) = mk_insn (i_type 0x73 rd 1 rs1 imm) op.Csr imm"
  using assms by (simp add: decode_def Let_def opcodes word_fields)

lemma decode_store [word_fields]:
  assumes "fits 5 rs1" "fits 5 rs2" "fits 3 funct3" "sfits 12 imm"
  shows "decode (s_type 0x23 funct3 rs1 rs2 imm) =
    insn_or_illegal (s_type 0x23 funct3 rs1 rs2 imm) (store_op funct3) imm"
  using assms by (simp add: decode_def Let_def opcodes s_type_imm s_type_fields(1-4))

lemma decode_branch [word_fields]:
  assumes "fits 5 rs1" "fits 5 rs2" "fits 3 funct3" "sfits 13 imm" "\<not> bit imm 0"
  shows "decode (b_type 0x63 funct3 rs1 rs2 imm) =
    insn_or_illegal (b_type 0x63 funct3 rs1 rs2 imm) (branch_op funct3) imm"
  using assms by (simp add: decode_def Let_def opcodes b_type_imm b_type_fields(1-4))

lemma decode_jal [word_fields]:
  assumes "fits 5 rd" "sfits 21 imm" "\<not> bit imm 0"
  shows "decode (j_type 0x6F rd imm) = mk_insn (j_type 0x6F rd imm) Jal imm"
  using assms by (simp add: decode_def Let_def opcodes j_type_imm j_type_fields(1,2))

lemma decode_upper [word_fields]:
  assumes "fits 5 rd"
  shows "decode (u_type 0x37 rd imm) = mk_insn (u_type 0x37 rd imm) Lui (push_bit 12 imm)"
    and "decode (u_type 0x17 rd imm) = mk_insn (u_type 0x17 rd imm) Auipc (push_bit 12 imm)"
  using assms by (simp_all add: decode_def Let_def opcodes u_type_fields)

lemma decode_closed [word_fields]:
  "decode (i_type 0xF 0 0 0 0) = mk_insn (i_type 0xF 0 0 0 0) Fence 0"
  "decode (i_type 0x73 0 0 0 0) = mk_insn (i_type 0x73 0 0 0 0) op.Ecall 0"
  "decode (i_type 0x73 0 0 0 1) = mk_insn (i_type 0x73 0 0 0 1) op.Ebreak 0"
  by (simp_all add: decode_def Let_def opcodes i_type_fields mask_32 [symmetric])

text \<open>Putting the fields of a word back where they came from gives the word.\<close>

lemma fits_fields [simp]: "fits 5 (f_rd w)" "fits 5 (f_rs1 w)" "fits 5 (f_rs2 w)"
  by (simp_all add: f_rd_def f_rs1_def f_rs2_def mask_32)

lemma reg_down_up [simp]: "ucast (ucast (f_rd w) :: u8) = f_rd w" "ucast (ucast (f_rs1 w) :: u8) = f_rs1 w"
  "ucast (ucast (f_rs2 w) :: u8) = f_rs2 w"
  by - (rule bit_word_eqI, auto simp: bit_simps f_rd_def f_rs1_def f_rs2_def mask_32)+

lemma r_rebuild: "r_type (f_opcode w) (f_rd w) (f_funct3 w) (f_rs1 w) (f_rs2 w) (f_funct7 w) = w"
proof (rule bit_word_eqI)
  fix n assume "n < LENGTH(32)"
  then consider "n < 7" | "7 \<le> n \<and> n < 12" | "12 \<le> n \<and> n < 15" | "15 \<le> n \<and> n < 20" | "20 \<le> n \<and> n < 25"
    | "25 \<le> n \<and> n < 32" by fastforce
  then show "bit (r_type (f_opcode w) (f_rd w) (f_funct3 w) (f_rs1 w) (f_rs2 w) (f_funct7 w)) n = bit w n"
    unfolding format_defs by cases (auto simp del: push_bit_and drop_bit_and simp: bit_simps)
qed

lemma i_rebuild: "i_type (f_opcode w) (f_rd w) (f_funct3 w) (f_rs1 w) (sext (drop_bit 20 w) 12) = w"
proof -
  have "push_bit 20 (sext (drop_bit 20 w) 12 AND mask 12) = push_bit 25 (f_funct7 w) OR push_bit 20 (f_rs2 w)"
    (is "?l = ?r")
  proof (rule bit_word_eqI)
    fix n assume "n < LENGTH(32)"
    then show "bit ?l n = bit ?r n"
      unfolding format_defs by (cases "n < 25") (auto simp: bit_simps sext_def)
  qed
  then show ?thesis
    using r_rebuild [of w] by (simp only: i_type_def r_type_def imm_bits_mask or.assoc)
qed

lemma s_rebuild: "s_type (f_opcode w) (f_funct3 w) (f_rs1 w) (f_rs2 w) (sext (s_imm_bits w) 12) = w"
proof -
  let ?m = "sext (s_imm_bits w) 12 AND mask 12"
  have "drop_bit 5 ?m = f_funct7 w" "?m AND mask 5 = f_rd w"
    unfolding format_defs by - (rule bit_word_eqI, auto simp: bit_simps sext_def)+
  then show ?thesis
    using r_rebuild [of w] by (simp only: s_type_def r_type_def imm_bits_mask Let_def mask_32)
qed

lemma bit_place:
  "bit (push_bit t (drop_bit s w AND mask k) :: u32) n \<longleftrightarrow> t \<le> n \<and> n < t + k \<and> n < 32 \<and> bit w (n - t + s)"
  by (auto simp del: push_bit_and drop_bit_and simp: bit_simps ac_simps)

lemma bit_place_1:
  "bit (push_bit t (drop_bit s w AND 1) :: u32) n \<longleftrightarrow> n = t \<and> t < 32 \<and> bit w s"
  using bit_place [of t s w 1 n] by (auto simp: less_Suc_eq_le)

lemma b_rebuild: "b_type (f_opcode w) (f_funct3 w) (f_rs1 w) (f_rs2 w) (sext (b_imm_bits w) 13) = w"
proof -
  let ?m = "sext (b_imm_bits w) 13 AND mask 13"
  have b: "bit (b_imm_bits w) n \<longleftrightarrow> n = 12 \<and> bit w 31 \<or> n = 11 \<and> bit w 7
      \<or> 5 \<le> n \<and> n < 11 \<and> bit w (n - 5 + 25) \<or> 1 \<le> n \<and> n < 5 \<and> bit w (n - 1 + 8)" for n
    unfolding b_imm_bits_def mask_32 bit_or_iff bit_place bit_place_1 by auto
  have m: "bit ?m n \<longleftrightarrow> n < 13 \<and> bit (b_imm_bits w) n" for n
    by (auto simp: bit_and_iff bit_mask_iff bit_sext)
  show ?thesis
  proof (rule bit_word_eqI)
    fix n assume "n < LENGTH(32)"
    then consider "n < 7" | "n = 7" | "8 \<le> n \<and> n < 12" | "12 \<le> n \<and> n < 15" | "15 \<le> n \<and> n < 20"
      | "20 \<le> n \<and> n < 25" | "25 \<le> n \<and> n < 31" | "n = 31" by fastforce
    then show "bit (b_type (f_opcode w) (f_funct3 w) (f_rs1 w) (f_rs2 w) (sext (b_imm_bits w) 13)) n = bit w n"
      unfolding b_type_def Let_def imm_bits_mask fields mask_32 bit_or_iff bit_place bit_place_1 m b
      by cases (auto simp: bit_and_iff bit_mask_iff)
  qed
qed

lemma j_rebuild: "j_type (f_opcode w) (f_rd w) (sext (j_imm_bits w) 21) = w"
proof -
  let ?m = "sext (j_imm_bits w) 21 AND mask 21"
  have j: "bit (j_imm_bits w) n \<longleftrightarrow> n = 20 \<and> bit w 31 \<or> 12 \<le> n \<and> n < 20 \<and> bit w (n - 12 + 12)
      \<or> n = 11 \<and> bit w 20 \<or> 1 \<le> n \<and> n < 11 \<and> bit w (n - 1 + 21)" for n
    unfolding j_imm_bits_def mask_32 bit_or_iff bit_place bit_place_1 by auto
  have m: "bit ?m n \<longleftrightarrow> n < 21 \<and> bit (j_imm_bits w) n" for n
    by (auto simp: bit_and_iff bit_mask_iff bit_sext)
  show ?thesis
  proof (rule bit_word_eqI)
    fix n assume "n < LENGTH(32)"
    then consider "n < 7" | "7 \<le> n \<and> n < 12" | "12 \<le> n \<and> n < 20" | "n = 20" | "21 \<le> n \<and> n < 31"
      | "n = 31" by fastforce
    then show "bit (j_type (f_opcode w) (f_rd w) (sext (j_imm_bits w) 21)) n = bit w n"
      unfolding j_type_def Let_def imm_bits_mask fields mask_32 bit_or_iff bit_place bit_place_1 m j
      by cases (auto simp: bit_and_iff bit_mask_iff)
  qed
qed

lemma u_rebuild: "u_type (f_opcode w) (f_rd w) (drop_bit 12 (w AND 0xFFFFF000)) = w"
proof (rule bit_word_eqI)
  fix n assume "n < LENGTH(32)"
  then consider "n < 7" | "7 \<le> n \<and> n < 12" | "12 \<le> n \<and> n < 32" by fastforce
  then show "bit (u_type (f_opcode w) (f_rd w) (drop_bit 12 (w AND 0xFFFFF000))) n = bit w n"
    unfolding format_defs upper_20 by cases (auto simp del: push_bit_and drop_bit_and simp: bit_simps)
qed

text \<open>The operations whose word is determined by what the decoder keeps of it.\<close>

definition whole_word :: "op \<Rightarrow> bool" where
  "whole_word p \<longleftrightarrow> p \<notin> {Fence, op.Ecall, op.Ebreak, op.Csr, Illegal}"

lemma assemble_mk_insn:
  "assemble (mk_insn w p imm) = assemble_op p (f_rd w) (f_rs1 w) (f_rs2 w) (operand p imm)"
  by (simp add: assemble_def)

lemma rebuild_branch:
  assumes "f_opcode w = 0x63" "branch_op (f_funct3 w) = Some p"
  shows "assemble (mk_insn w p (sext (b_imm_bits w) 13)) = w"
  using assms b_rebuild [of w]
  by (auto simp: assemble_mk_insn assemble_op_def operand_def branch_op_def split: if_splits)

lemma rebuild_load:
  assumes "f_opcode w = 0x03" "load_op (f_funct3 w) = Some p"
  shows "assemble (mk_insn w p (sext (drop_bit 20 w) 12)) = w"
  using assms i_rebuild [of w]
  by (auto simp: assemble_mk_insn assemble_op_def operand_def load_op_def split: if_splits)

lemma rebuild_store:
  assumes "f_opcode w = 0x23" "store_op (f_funct3 w) = Some p"
  shows "assemble (mk_insn w p (sext (s_imm_bits w) 12)) = w"
  using assms s_rebuild [of w]
  by (auto simp: assemble_mk_insn assemble_op_def operand_def store_op_def split: if_splits)

lemma shamt_field: "sext (drop_bit 20 w) 12 AND 0x1F = f_rs2 w"
  unfolding f_rs2_def mask_32 by (rule bit_word_eqI) (auto simp: bit_simps sext_def)

lemma rebuild_imm:
  assumes "f_opcode w = 0x13" "imm_op (f_funct3 w) (f_funct7 w) = Some p"
  shows "assemble (mk_insn w p (sext (drop_bit 20 w) 12)) = w"
  using assms i_rebuild [of w] r_rebuild [of w]
  by (auto simp: assemble_mk_insn assemble_op_def operand_def imm_op_def shamt_field split: if_splits)

lemma funct3_cases:
  "f_funct3 w = 0 \<or> f_funct3 w = 1 \<or> f_funct3 w = 2 \<or> f_funct3 w = 3 \<or> f_funct3 w = 4 \<or> f_funct3 w = 5
     \<or> f_funct3 w = 6 \<or> f_funct3 w = 7"
proof -
  have "unat (f_funct3 w) < 2 ^ 3" unfolding f_funct3_def mask_32 by (rule and_mask_less_nat) simp
  then have "unat (f_funct3 w) \<in> {0, 1, 2, 3, 4, 5, 6, 7}" by auto
  then show ?thesis by (auto simp: word_unat_eq_iff)
qed

lemma rebuild_mul:
  assumes "f_opcode w = 0x33" "f_funct7 w = 1"
  shows "assemble (mk_insn w (mul_op (f_funct3 w)) 0) = w"
  using assms r_rebuild [of w] funct3_cases [of w]
  by (auto simp: assemble_mk_insn assemble_op_def operand_def mul_op_def)

lemma rebuild_reg:
  assumes "f_opcode w = 0x33" "reg_op (f_funct3 w) (f_funct7 w) = Some p"
  shows "assemble (mk_insn w p 0) = w"
  using assms r_rebuild [of w]
  by (auto simp: assemble_mk_insn assemble_op_def operand_def reg_op_def split: if_splits)

lemma rebuild_jump:
  assumes "f_opcode w = 0x6F"
  shows "assemble (mk_insn w Jal (sext (j_imm_bits w) 21)) = w"
  using assms j_rebuild [of w] by (simp add: assemble_mk_insn assemble_op_def operand_def)

lemma rebuild_jalr:
  assumes "f_opcode w = 0x67" "f_funct3 w = 0"
  shows "assemble (mk_insn w Jalr (sext (drop_bit 20 w) 12)) = w"
  using assms i_rebuild [of w] by (simp add: assemble_mk_insn assemble_op_def operand_def)

lemma rebuild_upper:
  "f_opcode w = 0x37 \<Longrightarrow> assemble (mk_insn w Lui (w AND 0xFFFFF000)) = w"
  "f_opcode w = 0x17 \<Longrightarrow> assemble (mk_insn w Auipc (w AND 0xFFFFF000)) = w"
  using u_rebuild [of w]
  by (simp_all del: drop_bit_and add: assemble_mk_insn assemble_op_def operand_def)

lemma assemble_decode_gen: "whole_word (i_op (decode w)) \<Longrightarrow> assemble (decode w) = w"
proof -
  define P where "P i \<longleftrightarrow> whole_word (i_op i) \<longrightarrow> assemble i = w" for i
  have ite: "(c \<Longrightarrow> P a) \<Longrightarrow> (\<not> c \<Longrightarrow> P b) \<Longrightarrow> P (if c then a else b)" for c a b by simp
  have opt: "(\<And>p. x = Some p \<Longrightarrow> assemble (mk_insn w p imm) = w) \<Longrightarrow> P (insn_or_illegal w x imm)" for x imm
    by (cases x) (auto simp: P_def whole_word_def)
  have mk: "assemble (mk_insn w p imm) = w \<Longrightarrow> P (mk_insn w p imm)" for p imm by (simp add: P_def)
  have no: "P illegal" "P (mk_insn w Fence imm)" "P (mk_insn w op.Ecall imm)"
    "P (mk_insn w op.Ebreak imm)" "P (mk_insn w op.Csr imm)" for imm
    by (simp_all add: P_def whole_word_def)
  have "P (decode w)"
    unfolding decode_def Let_def opcodes
    by (intro ite no; (rule mk opt)?)
      (simp_all add: rebuild_branch rebuild_load rebuild_store rebuild_imm rebuild_mul rebuild_reg
        rebuild_jump rebuild_jalr rebuild_upper)
  then show "whole_word (i_op (decode w)) \<Longrightarrow> assemble (decode w) = w" by (simp add: P_def)
qed

text \<open>
  C21: Every encoder decodes back to its own operation, operands and immediate.  For a decoded
  instruction whose register numbers are below 32 and whose immediate its format can hold, decoding
  the word its encoder produces gives the same operation, the same sign-extended immediate, and the
  same register in every register field that the operation's format has.
\<close>

theorem decode_assemble:
  assumes "encodable i"
  shows "same_insn (decode (assemble i)) i"
proof -
  from assms have r: "fits 5 (ucast (i_rd i))" "fits 5 (ucast (i_rs1 i))" "fits 5 (ucast (i_rs2 i))"
    and ok: "imm_ok (i_op i) (i_imm i)" and nil: "i_op i \<noteq> Illegal"
    by (simp_all add: encodable_def fits_reg)
  have u: "push_bit 12 (drop_bit 12 m) = m" if "m AND mask 12 = 0" for m :: i32
  proof (rule bit_word_eqI)
    fix n assume "n < LENGTH(32)"
    then show "bit (push_bit 12 (drop_bit 12 m)) n = bit m n"
      using arg_cong [OF that, of "\<lambda>x. bit x n"] by (auto simp: bit_simps)
  qed
  show ?thesis
    using r ok nil
    by (cases "i_op i")
      (simp_all add: assemble_def assemble_op_def operand_def same_insn_def uses_rd_def uses_rs1_def
        uses_rs2_def imm_ok_def word_fields decode_tables u shift_imm_0 [simplified]
        shift_imm_20 [simplified] fld_id and_31)
qed

theorem decode_assemble_witness:
  "encodable \<lparr>i_op = Beq, i_rd = 0, i_rs1 = 1, i_rs2 = 2, i_imm = - 4096\<rparr> \<and>
   same_insn (decode (assemble \<lparr>i_op = Beq, i_rd = 0, i_rs1 = 1, i_rs2 = 2, i_imm = - 4096\<rparr>))
     \<lparr>i_op = Beq, i_rd = 0, i_rs1 = 1, i_rs2 = 2, i_imm = - 4096\<rparr>"
proof -
  have e: "encodable \<lparr>i_op = Beq, i_rd = 0, i_rs1 = 1, i_rs2 = 2, i_imm = - 4096\<rparr>"
    by (simp add: encodable_def imm_ok_def sfits_def)
  show ?thesis using e decode_assemble [OF e] by blast
qed

text \<open>
  C22: The decoder loses nothing.  Whenever a word decodes to an operation whose format names all of its
  bits (every implemented operation but the fence, the two environment calls and the CSR forms), the
  encoder of that operation rebuilds the very same word; so two such words that decode alike are equal,
  and no word is accepted that the instruction set does not assign.
\<close>

theorem assemble_decode:
  assumes "i_op (decode w) \<notin> {Fence, op.Ecall, op.Ebreak, op.Csr, Illegal}"
  shows "assemble (decode w) = w"
  using assms assemble_decode_gen [of w] by (simp add: whole_word_def)

theorem assemble_decode_witness:
  "i_op (decode 0x00310233) \<notin> {Fence, op.Ecall, op.Ebreak, op.Csr, Illegal} \<and>
   assemble (decode 0x00310233) = 0x00310233"
proof -
  have "i_op (decode 0x00310233) = Add"
    by (simp add: decode_def Let_def opcodes fields reg_op_def)
  then have e: "i_op (decode 0x00310233) \<notin> {Fence, op.Ecall, op.Ebreak, op.Csr, Illegal}" by simp
  show ?thesis using e assemble_decode [OF e] by blast
qed

end
