(* ===== verification/Mmio.thy ===== *)
theory Mmio
  imports Contract
begin

text \<open>
  The device window, \<open>refemu/src/mmio.rs\<close>: the five registers (tick counter, key queue, exit, console,
  frame commit) and the inert byte-backed alternative, behind the enumeration \<open>Devices\<close>.  An operation
  that mutates the device in place returns the device after it; \<open>None\<close> is a panic.

  The locale \<open>le_store\<close> is the contract of a byte store read and written little-endian at widths 1, 2
  and 4.  The byte window implements it here, and the three plain regions do in \<open>Memory\<close>.
\<close>

section \<open>Little-endian byte stores\<close>

definition access_width :: "u32 \<Rightarrow> bool" where
  "access_width w \<longleftrightarrow> w = 1 \<or> w = 2 \<or> w = 4"

lemma access_width_unat: "access_width w \<Longrightarrow> unat w = 1 \<or> unat w = 2 \<or> unat w = 4"
  by (auto simp: access_width_def)

lemma access_width_bound: "access_width w \<Longrightarrow> 0 < unat w \<and> unat w \<le> 4"
  by (auto dest: access_width_unat)

text \<open>
  \<open>get\<close> and \<open>put\<close> of a store \<open>'s\<close> whose contents are the bytes \<open>view\<close>: in range they read and write the
  little-endian bytes at the offset, out of range they panic.
\<close>

locale le_store =
  fixes view :: "'s \<Rightarrow> u8 list"
    and get :: "'s \<Rightarrow> u32 \<Rightarrow> u32 \<Rightarrow> u32 option"
    and put :: "'s \<Rightarrow> u32 \<Rightarrow> u32 \<Rightarrow> u32 \<Rightarrow> 's option"
  assumes get_view: "access_width w \<Longrightarrow> unat off + unat w \<le> length (view s) \<Longrightarrow>
      get s off w = Some (from_le_bytes (take (unat w) (drop (unat off) (view s))))"
    and put_view: "access_width w \<Longrightarrow> unat off + unat w \<le> length (view s) \<Longrightarrow>
      \<exists>s'. put s off w v = Some s' \<and> view s' = slice_put (view s) (unat off) (to_le_bytes (unat w) v)"
begin

lemma put_total:
  assumes "access_width w" "unat off + unat w \<le> length (view s)"
  obtains s' where "put s off w v = Some s'" "length (view s') = length (view s)"
    "view s' = slice_put (view s) (unat off) (to_le_bytes (unat w) v)"
  using put_view [OF assms, of v] assms(2) by auto

lemma put_length:
  assumes "access_width w" "unat off + unat w \<le> length (view s)" "put s off w v = Some s'"
  shows "length (view s') = length (view s)"
  using put_view [OF assms(1,2), of v] assms(2,3) by auto

lemma get_put_same:
  assumes "access_width w" "unat off + unat w \<le> length (view s)" "put s off w v = Some s'"
  shows "get s' off w = Some (take_bit (8 * unat w) v)"
proof -
  have v': "view s' = slice_put (view s) (unat off) (to_le_bytes (unat w) v)"
    using put_view [OF assms(1,2), of v] assms(3) by auto
  then have "length (view s') = length (view s)" using assms(2) by simp
  then have "get s' off w = Some (from_le_bytes (take (unat w) (drop (unat off) (view s'))))"
    using get_view [OF assms(1), of off s'] assms(2) by simp
  moreover have "take (unat w) (drop (unat off) (view s')) = to_le_bytes (unat w) v"
    unfolding v' using slice_put_same [of "unat off" "to_le_bytes (unat w) v" "view s"] assms(2) by simp
  ultimately show ?thesis by simp
qed

lemma get_put_disjoint:
  assumes "access_width w" "unat off + unat w \<le> length (view s)" "put s off w v = Some s'"
    and "access_width w'" "unat off' + unat w' \<le> length (view s)"
    and "unat off' + unat w' \<le> unat off \<or> unat off + unat w \<le> unat off'"
  shows "get s' off' w' = get s off' w'"
proof -
  have v': "view s' = slice_put (view s) (unat off) (to_le_bytes (unat w) v)"
    using put_view [OF assms(1,2), of v] assms(3) by auto
  then have "length (view s') = length (view s)" using assms(2) by simp
  then have "get s' off' w' = Some (from_le_bytes (take (unat w') (drop (unat off') (view s'))))"
    using get_view [OF assms(4), of off' s'] assms(5) by simp
  also have "\<dots> = get s off' w'"
    unfolding v' using get_view [OF assms(4,5)] assms(2,5,6) by (simp add: slice_put_disjoint)
  finally show ?thesis .
qed

end

section \<open>Records of the device\<close>

record frame_commit =
  frame_no :: u32
  commit_icount :: u64

definition retired_icount :: "frame_commit \<Rightarrow> u64" where
  "retired_icount c = commit_icount c + 1"

record mmio_exit =
  exit_value :: u32

record key_record =
  pressed :: bool
  doomkey :: u8

record registers =
  ipms :: u32
  key_queue :: "key_record list"
  console :: "u8 list"
  frame_commits :: "frame_commit list"

section \<open>The registers\<close>

definition registers_new :: "u32 \<Rightarrow> registers option" where
  "registers_new n = (if n \<noteq> 0
     then Some \<lparr> ipms = n, key_queue = [], console = [], frame_commits = [] \<rparr> else None)"

definition push_key :: "registers \<Rightarrow> bool \<Rightarrow> u8 \<Rightarrow> registers" where
  "push_key r p k = r\<lparr>key_queue := key_queue r @ [\<lparr>pressed = p, doomkey = k\<rparr>]\<rparr>"

definition registers_read :: "registers \<Rightarrow> u32 \<Rightarrow> u32 \<Rightarrow> u64 \<Rightarrow> (u32 \<times> registers) option" where
  "registers_read r offset width icount =
     (if width \<noteq> 4 then Some (0, r)
      else if offset = TICKS_MS then
        (if ipms r = 0 then None else Some (ucast (icount div ucast (ipms r)), r))
      else if offset = KEYQ then
        (case key_queue r of
           ev # rest \<Rightarrow> Some (key_event (pressed ev) (doomkey ev), r\<lparr>key_queue := rest\<rparr>)
         | [] \<Rightarrow> Some (0, r))
      else Some (0, r))"

definition registers_write :: "registers \<Rightarrow> u32 \<Rightarrow> u32 \<Rightarrow> u32 \<Rightarrow> u64 \<Rightarrow> (unit, mmio_exit) rresult \<times> registers" where
  "registers_write r offset width v icount =
     (if width \<noteq> 4 then (Ok (), r)
      else if offset = EXIT then (Err \<lparr>exit_value = v\<rparr>, r)
      else if offset = PUTCHAR then (Ok (), r\<lparr>console := console r @ [ucast v]\<rparr>)
      else if offset = FRAME_COMMIT then
        (Ok (), r\<lparr>frame_commits := frame_commits r @ [\<lparr>frame_no = v, commit_icount = icount\<rparr>]\<rparr>)
      else (Ok (), r))"

section \<open>The byte window\<close>

definition byte_window_new :: "u32 \<Rightarrow> u8 list" where
  "byte_window_new n = replicate (unat n) 0"

text \<open>The two loops over \<open>0..width\<close>; an index out of range panics.\<close>

fun byte_window_read_loop :: "u8 list \<Rightarrow> nat \<Rightarrow> nat list \<Rightarrow> u32 \<Rightarrow> u32 option" where
  "byte_window_read_loop bs at [] acc = Some acc"
| "byte_window_read_loop bs at (i # is) acc =
     (if at + i < length bs
      then byte_window_read_loop bs at is (acc OR push_bit (8 * i) (ucast (bs ! (at + i))))
      else None)"

definition byte_window_read :: "u8 list \<Rightarrow> u32 \<Rightarrow> u32 \<Rightarrow> u32 option" where
  "byte_window_read bs offset width = byte_window_read_loop bs (unat offset) [0..<unat width] 0"

fun byte_window_write_loop :: "u8 list \<Rightarrow> nat \<Rightarrow> nat list \<Rightarrow> u32 \<Rightarrow> u8 list option" where
  "byte_window_write_loop bs at [] v = Some bs"
| "byte_window_write_loop bs at (i # is) v =
     (if at + i < length bs
      then byte_window_write_loop (bs[at + i := ucast (drop_bit (8 * i) v)]) at is v
      else None)"

definition byte_window_write :: "u8 list \<Rightarrow> u32 \<Rightarrow> u32 \<Rightarrow> u32 \<Rightarrow> u8 list option" where
  "byte_window_write bs offset width v = byte_window_write_loop bs (unat offset) [0..<unat width] v"

section \<open>Devices\<close>

datatype devices = Registers registers | Bytes "u8 list"

definition devices_registers :: "u32 \<Rightarrow> devices option" where
  "devices_registers n = map_option Registers (registers_new n)"

definition devices_bytes :: "u32 \<Rightarrow> devices" where
  "devices_bytes n = Bytes (byte_window_new n)"

fun devices_read :: "devices \<Rightarrow> u32 \<Rightarrow> u32 \<Rightarrow> u64 \<Rightarrow> (u32 \<times> devices) option" where
  "devices_read (Registers r) offset width icount =
     map_option (\<lambda>(v, r'). (v, Registers r')) (registers_read r offset width icount)"
| "devices_read (Bytes b) offset width icount =
     map_option (\<lambda>v. (v, Bytes b)) (byte_window_read b offset width)"

fun devices_write :: "devices \<Rightarrow> u32 \<Rightarrow> u32 \<Rightarrow> u32 \<Rightarrow> u64 \<Rightarrow> (unit, mmio_exit) rresult \<times> devices" where
  "devices_write (Registers r) offset width v icount =
     (case registers_write r offset width v icount of (res, r') \<Rightarrow> (res, Registers r'))"
| "devices_write (Bytes b) offset width v icount =
     (case byte_window_write b offset width v of
        Some b' \<Rightarrow> (Ok (), Bytes b')
      | None \<Rightarrow> (Panic, Bytes b))"

fun registers_ref :: "devices \<Rightarrow> registers option" where
  "registers_ref (Registers r) = Some r"
| "registers_ref (Bytes b) = None"

section \<open>Facts\<close>

lemma byte_window_read_loop_eq:
  assumes "at + b \<le> length bs" "a \<le> b"
  shows "byte_window_read_loop bs at [a..<b] acc =
    Some (acc OR push_bit (8 * a) (from_le_bytes (take (b - a) (drop (at + a) bs))))"
  using assms
proof (induction "b - a" arbitrary: a acc)
  case 0
  then show ?case by simp
next
  case (Suc n)
  then have ab: "a < b" and n: "n = b - Suc a" by simp_all
  then have up: "[a..<b] = a # [Suc a..<b]" by (rule_tac upt_conv_Cons)
  have lt: "at + a < length bs" using Suc.prems ab by simp
  have t: "take (b - a) (drop (at + a) bs) = bs ! (at + a) # take (b - Suc a) (drop (at + Suc a) bs)"
    using lt ab by (metis Cons_nth_drop_Suc Suc_diff_Suc add_Suc_right take_Suc_Cons)
  show ?case
    unfolding up byte_window_read_loop.simps t
    using lt Suc.hyps(1) [OF n, of "acc OR push_bit (8 * a) (ucast (bs ! (at + a)))"] Suc.prems(1) ab
    by (simp add: push_bit_or ac_simps)
qed

lemma byte_window_write_loop_eq:
  assumes "at + b \<le> length bs" "a \<le> b"
  shows "byte_window_write_loop bs at [a..<b] v =
    Some (slice_put bs (at + a) (drop a (to_le_bytes b v)))"
  using assms
proof (induction "b - a" arbitrary: a bs)
  case 0
  then show ?case by (simp add: slice_put_def)
next
  case (Suc n)
  then have ab: "a < b" and n: "n = b - Suc a" by simp_all
  then have up: "[a..<b] = a # [Suc a..<b]" by (rule_tac upt_conv_Cons)
  have lt: "at + a < length bs" using Suc.prems ab by simp
  let ?b = "ucast (drop_bit (8 * a) v) :: u8"
  have d: "drop a (to_le_bytes b v) = ?b # drop (Suc a) (to_le_bytes b v)"
    using ab by (simp add: Cons_nth_drop_Suc [symmetric] to_le_bytes_def)
  have "slice_put (bs[at + a := ?b]) (at + Suc a) (drop (Suc a) (to_le_bytes b v)) =
      slice_put bs (at + a) (drop a (to_le_bytes b v))"
    unfolding d slice_put_def using lt ab by (simp add: take_Suc_conv_app_nth take_update_swap list_update_append min_absorb2)
  then show ?case
    unfolding up byte_window_write_loop.simps
    using lt Suc.hyps(1) [OF n, of "bs[at + a := ?b]"] Suc.prems(1) ab by simp
qed

interpretation window: le_store "\<lambda>b. b" byte_window_read byte_window_write
proof
  fix w off :: u32 and s :: "u8 list"
  assume "unat off + unat w \<le> length s"
  then show "byte_window_read s off w = Some (from_le_bytes (take (unat w) (drop (unat off) s)))"
    using byte_window_read_loop_eq [of "unat off" "unat w" s 0 0] by (simp add: byte_window_read_def)
next
  fix w off v :: u32 and s :: "u8 list"
  assume "unat off + unat w \<le> length s"
  then show "\<exists>s'. byte_window_write s off w v = Some s' \<and>
      s' = slice_put s (unat off) (to_le_bytes (unat w) v)"
    using byte_window_write_loop_eq [of "unat off" "unat w" s 0 v] by (simp add: byte_window_write_def)
qed

text \<open>A device window of the size the map declares, with a usable tick divisor.\<close>

fun devices_wf :: "u32 \<Rightarrow> devices \<Rightarrow> bool" where
  "devices_wf n (Registers r) \<longleftrightarrow> ipms r \<noteq> 0"
| "devices_wf n (Bytes b) \<longleftrightarrow> length b = unat n"

lemma registers_read_ok:
  "ipms r \<noteq> 0 \<Longrightarrow> \<exists>v r'. registers_read r off w ic = Some (v, r') \<and> ipms r' = ipms r"
  by (cases "key_queue r") (simp_all add: registers_read_def)

lemma registers_write_ok:
  "fst (registers_write r off w v ic) \<noteq> Panic \<and> ipms (snd (registers_write r off w v ic)) = ipms r"
  by (simp add: registers_write_def)

lemma devices_read_ok:
  assumes "devices_wf n d" "access_width w" "unat off + unat w \<le> unat n"
  obtains v d' where "devices_read d off w ic = Some (v, d')" "devices_wf n d'"
proof (cases d)
  case (Registers r)
  then obtain v r' where "registers_read r off w ic = Some (v, r')" "ipms r' = ipms r"
    using assms(1) registers_read_ok [of r off w ic] by auto
  then show ?thesis using Registers assms(1) that [of v "Registers r'"] by simp
next
  case (Bytes b)
  then show ?thesis using assms window.get_view [of w off b] that by auto
qed

lemma devices_write_ok:
  assumes "devices_wf n d" "access_width w" "unat off + unat w \<le> unat n"
  shows "fst (devices_write d off w v ic) \<noteq> Panic" "devices_wf n (snd (devices_write d off w v ic))"
proof -
  have "fst (devices_write d off w v ic) \<noteq> Panic \<and> devices_wf n (snd (devices_write d off w v ic))"
  proof (cases d)
    case (Registers r)
    then show ?thesis
      using assms(1) registers_write_ok [of r off w v ic] by (auto split: prod.splits)
  next
    case (Bytes b)
    then have "unat off + unat w \<le> length b" using assms(1,3) by simp
    then obtain b' where "byte_window_write b off w v = Some b'" "length b' = length b"
      by (rule window.put_total [OF assms(2)])
    then show ?thesis using Bytes assms(1) by simp
  qed
  then show "fst (devices_write d off w v ic) \<noteq> Panic" "devices_wf n (snd (devices_write d off w v ic))"
    by auto
qed

text \<open>A store to the device that stops the machine leaves the device as it was.\<close>

lemma devices_write_Err: "devices_write d off w v ic = (Err e, d') \<Longrightarrow> d' = d"
  by (cases d) (auto simp: registers_write_def split: if_splits option.splits)

section \<open>The key queue as a program sees it\<close>

text \<open>Pushing a list of events, and reading the queue register a number of times.\<close>

fun push_keys :: "registers \<Rightarrow> (bool \<times> u8) list \<Rightarrow> registers" where
  "push_keys r [] = r"
| "push_keys r ((p, k) # es) = push_keys (push_key r p k) es"

fun poll_keys :: "nat \<Rightarrow> u64 \<Rightarrow> registers \<Rightarrow> (u32 list \<times> registers) option" where
  "poll_keys 0 ic r = Some ([], r)"
| "poll_keys (Suc n) ic r =
     (case registers_read r KEYQ 4 ic of None \<Rightarrow> None
      | Some (v, r') \<Rightarrow> map_option (\<lambda>(vs, r''). (v # vs, r'')) (poll_keys n ic r'))"

definition queue_words :: "registers \<Rightarrow> u32 list" where
  "queue_words r = map (\<lambda>ev. key_event (pressed ev) (doomkey ev)) (key_queue r)"

lemma queue_words_push:
  "queue_words (push_keys r es) = queue_words r @ map (\<lambda>(p, k). key_event p k) es"
  by (induction r es rule: push_keys.induct) (auto simp: queue_words_def push_key_def)

lemma push_keys_frame:
  "ipms (push_keys r es) = ipms r \<and> console (push_keys r es) = console r
     \<and> frame_commits (push_keys r es) = frame_commits r"
  by (induction r es rule: push_keys.induct) (auto simp: push_key_def)

lemma read_keyq:
  "registers_read r KEYQ 4 ic = (case key_queue r of [] \<Rightarrow> Some (0, r)
     | ev # rest \<Rightarrow> Some (key_event (pressed ev) (doomkey ev), r\<lparr>key_queue := rest\<rparr>))"
  by (simp add: registers_read_def mmio_offsets split: list.split)

lemma poll_keys_eq:
  "poll_keys n ic r = Some (take n (queue_words r) @ replicate (n - length (queue_words r)) 0,
     r\<lparr>key_queue := drop n (key_queue r)\<rparr>)"
  by (induction n arbitrary: r) (auto simp: read_keyq queue_words_def split: list.split)

text \<open>
  The key queue is first in, first out, and loses nothing.  Whatever was queued before, a program
  that reads the queue register as often as there are events, and any number of times more, sees the
  older events first, then the pushed ones in the order they were pushed, each packed as the pressed
  flag above the key code, and then zeroes; the reads change nothing else in the device.
\<close>

theorem key_queue_fifo:
  "poll_keys (length (key_queue r) + length es + extra) ic (push_keys r es) =
     Some (queue_words r @ map (\<lambda>(p, k). key_event p k) es @ replicate extra 0, r\<lparr>key_queue := []\<rparr>)"
proof -
  have l: "length (queue_words (push_keys r es)) = length (key_queue r) + length es"
    by (simp only: queue_words_push) (simp add: queue_words_def)
  then have "length (key_queue (push_keys r es)) = length (key_queue r) + length es"
    by (simp add: queue_words_def)
  moreover have "(push_keys r es)\<lparr>key_queue := []\<rparr> = r\<lparr>key_queue := []\<rparr>"
    using push_keys_frame [of r es] by simp
  ultimately show ?thesis
    unfolding poll_keys_eq using l by (simp add: queue_words_push)
qed

end
