(* ===== verification/Memory.thy ===== *)
theory Memory
  imports Mmio
begin

text \<open>
  Physical memory, \<open>refemu/src/memory.rs\<close>: RAM, framebuffer and palette as byte stores and the device
  window, behind \<open>read\<close> and \<open>write\<close>, with the read-only text region and the optional watch over which
  words a run writes.  An operation returns its result beside the memory after it, so that what a
  failing access leaves behind is part of the model.
\<close>

section \<open>State\<close>

datatype mem_fault =
    BadAddr u32
  | Misaligned u32 u32
  | SelfModify u32
  | Exit u32

definition mem_fault_of_exit :: "mmio_exit \<Rightarrow> mem_fault" where
  "mem_fault_of_exit e = mem_fault.Exit (exit_value e)"

datatype load_error =
    BelowRam u32 u32
  | TooLarge u32 nat u32

record write_watch =
  watch_words :: "u64 list option list"
  watch_stores :: "u64 list"

record memory =
  mem_map :: memory_map
  ram :: "u8 list"
  framebuffer :: "u8 list"
  palette :: "u8 list"
  devices :: devices
  text_region :: "(u32 \<times> u32) option"
  watch :: "write_watch option"

section \<open>Plain byte regions\<close>

definition read_le :: "u8 list \<Rightarrow> u32 \<Rightarrow> u32 \<Rightarrow> u32 option" where
  "read_le bs offset width =
     (let at = unat offset in
      if width = 1 then (if at < length bs then Some (ucast (bs ! at)) else None)
      else if width = 2 then
        (if at + 1 < length bs then Some (ucast (from_le_bytes [bs ! at, bs ! (at + 1)] :: u16)) else None)
      else if width = 4 then
        (if at + 3 < length bs
         then Some (from_le_bytes [bs ! at, bs ! (at + 1), bs ! (at + 2), bs ! (at + 3)]) else None)
      else None)"

definition write_le :: "u8 list \<Rightarrow> u32 \<Rightarrow> u32 \<Rightarrow> u32 \<Rightarrow> u8 list option" where
  "write_le bs offset width v =
     (let at = unat offset; le = to_le_bytes 4 v in
      if at + unat width \<le> length bs \<and> unat width \<le> 4
      then Some (slice_put bs at (take (unat width) le)) else None)"

section \<open>The write watch\<close>

fun region_index :: "region \<Rightarrow> nat" where
  "region_index Ram = 0"
| "region_index Mmio = 1"
| "region_index Framebuffer = 2"
| "region_index Palette = 3"

definition div_ceil :: "nat \<Rightarrow> nat \<Rightarrow> nat" where
  "div_ceil a b = (a + b - 1) div b"

fun watch_words_of :: "memory_map \<Rightarrow> region list \<Rightarrow> u64 list option list \<Rightarrow> u64 list option list" where
  "watch_words_of m [] ws = ws"
| "watch_words_of m (r # rs) ws =
     watch_words_of m rs (ws[region_index r :=
       Some (replicate (div_ceil (div_ceil (unat (snd (bounds m r))) 4) 64) 0)])"

definition watch_new :: "memory_map \<Rightarrow> region list \<Rightarrow> write_watch" where
  "watch_new m rs = \<lparr> watch_words = watch_words_of m rs (replicate 4 None), watch_stores = replicate 4 0 \<rparr>"

text \<open>The loop \<open>for word in first..=last\<close>; an index past the bitset is skipped.\<close>

fun mark_words :: "nat list \<Rightarrow> u64 list \<Rightarrow> u64 list" where
  "mark_words [] bits = bits"
| "mark_words (word # ws) bits =
     mark_words ws (if word div 64 < length bits
       then bits[word div 64 := (bits ! (word div 64)) OR push_bit (word mod 64) 1] else bits)"

definition watch_record :: "write_watch \<Rightarrow> region \<Rightarrow> u32 \<Rightarrow> u32 \<Rightarrow> write_watch" where
  "watch_record w r offset width =
     (let at = region_index r;
          w1 = w\<lparr>watch_stores := (watch_stores w)[at := watch_stores w ! at + 1]\<rparr>
      in case watch_words w ! at of
           None \<Rightarrow> w1
         | Some bits \<Rightarrow>
             w1\<lparr>watch_words := (watch_words w)[at :=
               Some (mark_words [unat (offset div 4)..<Suc (unat ((offset + width - 1) div 4))] bits)]\<rparr>)"

definition words_written :: "write_watch \<Rightarrow> region \<Rightarrow> memory_map \<Rightarrow> (nat \<times> nat) option" where
  "words_written w r m = map_option
     (\<lambda>bits. (sum_list (map (\<lambda>x. card {n. bit x n}) bits), div_ceil (unat (snd (bounds m r))) 4))
     (watch_words w ! region_index r)"

definition stores_in :: "write_watch \<Rightarrow> region \<Rightarrow> u64" where
  "stores_in w r = watch_stores w ! region_index r"

definition watches :: "write_watch \<Rightarrow> region \<Rightarrow> bool" where
  "watches w r \<longleftrightarrow> watch_words w ! region_index r \<noteq> None"

section \<open>Memory operations\<close>

definition memory_new :: "memory_map \<Rightarrow> devices \<Rightarrow> memory" where
  "memory_new m d = \<lparr> mem_map = m, ram = replicate (unat (ram_size m)) 0,
     framebuffer = replicate (unat (framebuffer_size m)) 0,
     palette = replicate (unat (palette_size m)) 0,
     devices = d, text_region = None, watch = None \<rparr>"

definition watch_writes :: "memory \<Rightarrow> region list \<Rightarrow> memory" where
  "watch_writes m rs = m\<lparr>watch := Some (watch_new (mem_map m) rs)\<rparr>"

definition mem_set_text_region :: "memory \<Rightarrow> (u32 \<times> u32) option \<Rightarrow> memory" where
  "mem_set_text_region m t = m\<lparr>text_region := t\<rparr>"

definition mem_load_image :: "memory \<Rightarrow> u8 list \<Rightarrow> u32 \<Rightarrow> (unit, load_error) rresult \<times> memory" where
  "mem_load_image m dat load_addr =
     (if load_addr < ram_base (mem_map m)
      then (Err (BelowRam load_addr (ram_base (mem_map m))), m)
      else let at = unat (load_addr - ram_base (mem_map m)) in
        if at + length dat \<le> length (ram m)
        then (Ok (), m\<lparr>ram := slice_put (ram m) at dat\<rparr>)
        else (Err (TooLarge load_addr (length dat) (ram_size (mem_map m))), m))"

text \<open>One region put back: as much of the saved bytes as fits, and zeroes after them.\<close>

definition restore_region :: "u8 list \<Rightarrow> u8 list \<Rightarrow> u8 list" where
  "restore_region into from =
     (let n = min (length from) (length into) in take n from @ replicate (length into - n) 0)"

definition restore_regions :: "memory \<Rightarrow> u8 list \<Rightarrow> u8 list \<Rightarrow> u8 list \<Rightarrow> memory" where
  "restore_regions m r f p = m\<lparr>ram := restore_region (ram m) r,
     framebuffer := restore_region (framebuffer m) f, palette := restore_region (palette m) p\<rparr>"

definition check_align :: "u32 \<Rightarrow> u32 \<Rightarrow> (unit, mem_fault) rresult" where
  "check_align addr width =
     (if 1 < width \<and> addr mod width \<noteq> 0 then Err (mem_fault.Misaligned addr width) else Ok ())"

definition in_text :: "memory \<Rightarrow> u32 \<Rightarrow> u32 \<Rightarrow> bool" where
  "in_text m addr width = (case text_region m of None \<Rightarrow> False
     | Some (s, e) \<Rightarrow> \<not> (unat addr + unat width \<le> unat s \<or> e \<le> addr))"

fun plain_read :: "memory \<Rightarrow> u32 option \<Rightarrow> (u32, mem_fault) rresult \<times> memory" where
  "plain_read m v = (of_option v, m)"

definition mem_read :: "memory \<Rightarrow> u32 \<Rightarrow> u32 \<Rightarrow> u64 \<Rightarrow> (u32, mem_fault) rresult \<times> memory" where
  "mem_read m addr width icount =
     (case check_align addr width of
        Err f \<Rightarrow> (Err f, m)
      | Panic \<Rightarrow> (Panic, m)
      | Ok _ \<Rightarrow>
        (case classify (mem_map m) addr width of
           None \<Rightarrow> (Err (mem_fault.BadAddr addr), m)
         | Some (Ram, off) \<Rightarrow> plain_read m (read_le (ram m) off width)
         | Some (Mmio, off) \<Rightarrow>
             (case devices_read (devices m) off width icount of
                None \<Rightarrow> (Panic, m)
              | Some (v, d') \<Rightarrow> (Ok v, m\<lparr>devices := d'\<rparr>))
         | Some (Framebuffer, off) \<Rightarrow> plain_read m (read_le (framebuffer m) off width)
         | Some (Palette, off) \<Rightarrow> plain_read m (read_le (palette m) off width)))"

text \<open>The store itself, before the watch sees it.\<close>

definition mem_store :: "memory \<Rightarrow> region \<Rightarrow> u32 \<Rightarrow> u32 \<Rightarrow> u32 \<Rightarrow> u32 \<Rightarrow> u64 \<Rightarrow> (unit, mem_fault) rresult \<times> memory" where
  "mem_store m r off addr width v icount =
     (case r of
        Ram \<Rightarrow>
          if in_text m addr width then (Err (mem_fault.SelfModify addr), m)
          else (case write_le (ram m) off width v of
                  None \<Rightarrow> (Panic, m) | Some b \<Rightarrow> (Ok (), m\<lparr>ram := b\<rparr>))
      | Mmio \<Rightarrow>
          (case devices_write (devices m) off width v icount of
             (Ok _, d') \<Rightarrow> (Ok (), m\<lparr>devices := d'\<rparr>)
           | (Err e, d') \<Rightarrow> (Err (mem_fault_of_exit e), m\<lparr>devices := d'\<rparr>)
           | (Panic, d') \<Rightarrow> (Panic, m\<lparr>devices := d'\<rparr>))
      | Framebuffer \<Rightarrow>
          if width \<noteq> 4 then (Err (mem_fault.BadAddr addr), m)
          else (case write_le (framebuffer m) off width v of
                  None \<Rightarrow> (Panic, m) | Some b \<Rightarrow> (Ok (), m\<lparr>framebuffer := b\<rparr>))
      | Palette \<Rightarrow>
          if width \<noteq> 4 then (Err (mem_fault.BadAddr addr), m)
          else (case write_le (palette m) off width v of
                  None \<Rightarrow> (Panic, m) | Some b \<Rightarrow> (Ok (), m\<lparr>palette := b\<rparr>)))"

definition mem_write :: "memory \<Rightarrow> u32 \<Rightarrow> u32 \<Rightarrow> u32 \<Rightarrow> u64 \<Rightarrow> (unit, mem_fault) rresult \<times> memory" where
  "mem_write m addr width v icount =
     (case check_align addr width of
        Err f \<Rightarrow> (Err f, m)
      | Panic \<Rightarrow> (Panic, m)
      | Ok _ \<Rightarrow>
        (case classify (mem_map m) addr width of
           None \<Rightarrow> (Err (mem_fault.BadAddr addr), m)
         | Some (r, off) \<Rightarrow>
             (case mem_store m r off addr width v icount of
                (Ok _, m') \<Rightarrow>
                  (Ok (), m'\<lparr>watch := map_option (\<lambda>w. watch_record w r off width) (watch m')\<rparr>)
              | (res, m') \<Rightarrow> (res, m'))))"

section \<open>The byte regions meet their contract\<close>

lemma from_le_1: "from_le_bytes [b] = (ucast (b :: u8) :: 'a::len word)"
  by simp

lemma ucast_from_le_2: "ucast (from_le_bytes [a, b] :: u16) = (from_le_bytes [a, b] :: u32)"
  by (rule bit_word_eqI) (auto simp: bit_simps dest: bit_imp_le_length)

interpretation region: le_store "\<lambda>b. b" read_le write_le
proof
  fix w off :: u32 and s :: "u8 list"
  assume w: "access_width w" and r: "unat off + unat w \<le> length s"
  from w consider "w = 1" | "w = 2" | "w = 4" by (auto simp: access_width_def)
  then show "read_le s off w = Some (from_le_bytes (take (unat w) (drop (unat off) s)))"
  proof cases
    case 1
    then have "unat w = 1" by simp
    then show ?thesis using 1 r slice_1 [of "unat off" s] by (simp add: read_le_def)
  next
    case 2
    then have "unat w = 2" by simp
    then show ?thesis using 2 r slice_2 [of "unat off" s] ucast_from_le_2
      by (simp add: read_le_def Let_def del: from_le_bytes.simps)
  next
    case 3
    then have "unat w = 4" by simp
    then show ?thesis using 3 r slice_4 [of "unat off" s]
      by (simp add: read_le_def Let_def del: from_le_bytes.simps)
  qed
next
  fix w off v :: u32 and s :: "u8 list"
  assume "access_width w" "unat off + unat w \<le> length s"
  then show "\<exists>s'. write_le s off w v = Some s' \<and> s' = slice_put s (unat off) (to_le_bytes (unat w) v)"
    using access_width_bound [of w] by (simp add: write_le_def Let_def)
qed

section \<open>Well-formed memory\<close>

definition watch_wf :: "write_watch \<Rightarrow> bool" where
  "watch_wf w \<longleftrightarrow> length (watch_words w) = 4 \<and> length (watch_stores w) = 4"

definition mem_wf :: "memory \<Rightarrow> bool" where
  "mem_wf m \<longleftrightarrow> length (ram m) = unat (ram_size (mem_map m)) \<and>
     length (framebuffer m) = unat (framebuffer_size (mem_map m)) \<and>
     length (palette m) = unat (palette_size (mem_map m)) \<and>
     devices_wf (mmio_size (mem_map m)) (devices m) \<and>
     (case watch m of None \<Rightarrow> True | Some w \<Rightarrow> watch_wf w)"

text \<open>The parts of memory that a program can store to, besides the devices.\<close>

fun region_bytes :: "memory \<Rightarrow> region \<Rightarrow> u8 list" where
  "region_bytes m Ram = ram m"
| "region_bytes m Framebuffer = framebuffer m"
| "region_bytes m Palette = palette m"
| "region_bytes m Mmio = []"

lemma region_bytes_length:
  "mem_wf m \<Longrightarrow> r \<noteq> Mmio \<Longrightarrow> length (region_bytes m r) = unat (snd (bounds (mem_map m) r))"
  by (cases r) (auto simp: mem_wf_def)

lemma memory_new_wf [wf_intros]: "devices_wf (mmio_size m) d \<Longrightarrow> mem_wf (memory_new m d)"
  by (simp add: mem_wf_def memory_new_def)

lemma length_restore_region [simp]: "length (restore_region into from) = length into"
  by (simp add: restore_region_def Let_def)

lemma restore_regions_wf [wf_intros]: "mem_wf m \<Longrightarrow> mem_wf (restore_regions m r f p)"
  by (simp add: mem_wf_def restore_regions_def)

lemma mem_set_text_region_wf [wf_intros]: "mem_wf m \<Longrightarrow> mem_wf (mem_set_text_region m t)"
  by (simp add: mem_wf_def mem_set_text_region_def)

lemma length_watch_words_of: "length (watch_words_of m rs ws) = length ws"
  by (induction m rs ws rule: watch_words_of.induct) auto

lemma watch_writes_wf [wf_intros]: "mem_wf m \<Longrightarrow> mem_wf (watch_writes m rs)"
  by (simp add: mem_wf_def watch_writes_def watch_wf_def watch_new_def length_watch_words_of)

lemma watch_record_wf: "watch_wf w \<Longrightarrow> watch_wf (watch_record w r off width)"
  by (simp add: watch_wf_def watch_record_def Let_def split: option.split)

lemma mem_load_image_wf [wf_intros]: "mem_wf m \<Longrightarrow> mem_wf (snd (mem_load_image m dat a))"
  by (simp add: mem_wf_def mem_load_image_def Let_def)

lemma mem_load_image_no_panic: "fst (mem_load_image m dat a) \<noteq> Panic"
  by (simp add: mem_load_image_def Let_def)

lemma mem_load_image_frame:
  "mem_map (snd (mem_load_image m dat a)) = mem_map m"
  "framebuffer (snd (mem_load_image m dat a)) = framebuffer m"
  "palette (snd (mem_load_image m dat a)) = palette m"
  "devices (snd (mem_load_image m dat a)) = devices m"
  "text_region (snd (mem_load_image m dat a)) = text_region m"
  by (simp_all add: mem_load_image_def Let_def)

lemma check_align_cases:
  "check_align a w = Ok () \<and> \<not> (1 < w \<and> a mod w \<noteq> 0) \<or>
   check_align a w = Err (mem_fault.Misaligned a w) \<and> 1 < w \<and> a mod w \<noteq> 0"
  by (simp add: check_align_def)

section \<open>Reads\<close>

lemma mem_read_frame:
  "\<exists>d. snd (mem_read m a w ic) = m\<lparr>devices := d\<rparr>"
  by (auto simp: mem_read_def check_align_def split: option.split region.split prod.split)
    (metis memory.surjective memory.update_convs(5))+

lemma mem_read_Err: "mem_read m a w ic = (Err f, m') \<Longrightarrow> m' = m"
  by (auto simp: mem_read_def check_align_def split: option.splits region.splits prod.splits if_splits)

lemma mem_read_region:
  assumes "mem_wf m" "access_width w" "check_align a w = Ok ()" "classify (mem_map m) a w = Some (r, off)" "r \<noteq> Mmio"
  shows "mem_read m a w ic = (Ok (from_le_bytes (take (unat w) (drop (unat off) (region_bytes m r)))), m)"
proof -
  have b: "unat off + unat w \<le> length (region_bytes m r)"
    using classify_offset(1) [OF assms(4)] region_bytes_length [OF assms(1,5)] by simp
  then have "read_le (region_bytes m r) off w =
      Some (from_le_bytes (take (unat w) (drop (unat off) (region_bytes m r))))"
    by (rule region.get_view [OF assms(2)])
  then show ?thesis using assms(3-5) by (cases r) (simp_all add: mem_read_def)
qed

lemma mem_read_total:
  assumes "mem_wf m" "access_width w"
  shows "fst (mem_read m a w ic) \<noteq> Panic \<and> mem_wf (snd (mem_read m a w ic))"
proof (cases "check_align a w = Ok ()")
  case False
  then show ?thesis using check_align_cases [of a w] assms(1) by (auto simp: mem_read_def)
next
  case al: True
  show ?thesis
  proof (cases "classify (mem_map m) a w")
    case None
    then show ?thesis using assms(1) al by (simp add: mem_read_def)
  next
    case (Some p)
    obtain r off where p: "p = (r, off)" by (cases p)
    show ?thesis
    proof (cases "r = Mmio")
      case True
      have "unat off + unat w \<le> unat (mmio_size (mem_map m))"
        using classify_offset(1) [of "mem_map m" a w r off] Some p True by simp
      moreover have "devices_wf (mmio_size (mem_map m)) (devices m)" using assms(1) by (simp add: mem_wf_def)
      ultimately obtain v d where "devices_read (devices m) off w ic = Some (v, d)"
          "devices_wf (mmio_size (mem_map m)) d"
        using devices_read_ok [OF _ assms(2)] by blast
      then show ?thesis using assms(1) al Some p True by (simp add: mem_read_def mem_wf_def)
    next
      case False
      then show ?thesis using mem_read_region [OF assms al] Some p assms(1) by simp
    qed
  qed
qed

section \<open>Writes\<close>

lemma mem_store_Err: "mem_store m r off a w v ic = (Err f, m') \<Longrightarrow> m' = m"
  by (auto simp: mem_store_def split: region.splits if_splits option.splits prod.splits rresult.splits
      dest: devices_write_Err)

lemma mem_write_Err: "mem_write m a w v ic = (Err f, m') \<Longrightarrow> m' = m"
  by (auto simp: mem_write_def check_align_def split: option.splits prod.splits rresult.splits if_splits
      dest: mem_store_Err)

lemma mem_store_total:
  assumes "mem_wf m" "access_width w" "classify (mem_map m) a w = Some (r, off)"
  shows "fst (mem_store m r off a w v ic) \<noteq> Panic \<and> mem_wf (snd (mem_store m r off a w v ic)) \<and>
    mem_map (snd (mem_store m r off a w v ic)) = mem_map m"
proof (cases "r = Mmio")
  case True
  have b: "unat off + unat w \<le> unat (mmio_size (mem_map m))"
    using classify_offset(1) [OF assms(3)] True by simp
  have "devices_wf (mmio_size (mem_map m)) (devices m)" using assms(1) by (simp add: mem_wf_def)
  note d = devices_write_ok [OF this assms(2) b, of v ic]
  obtain res d' where e: "devices_write (devices m) off w v ic = (res, d')" by (cases "devices_write (devices m) off w v ic")
  then show ?thesis using d assms(1) True by (cases res) (simp_all add: mem_store_def mem_wf_def)
next
  case False
  have b: "unat off + unat w \<le> length (region_bytes m r)"
    using classify_offset(1) [OF assms(3)] region_bytes_length [OF assms(1) False] by simp
  obtain s' where "write_le (region_bytes m r) off w v = Some s'" "length s' = length (region_bytes m r)"
    using region.put_total [OF assms(2) b] by blast
  then show ?thesis using assms(1) False by (cases r; cases "w = 4") (simp_all add: mem_store_def mem_wf_def)
qed

lemma mem_write_total:
  assumes "mem_wf m" "access_width w"
  shows "fst (mem_write m a w v ic) \<noteq> Panic \<and> mem_wf (snd (mem_write m a w v ic))"
proof (cases "check_align a w = Ok ()")
  case False
  then show ?thesis using check_align_cases [of a w] assms(1) by (auto simp: mem_write_def)
next
  case al: True
  show ?thesis
  proof (cases "classify (mem_map m) a w")
    case None
    then show ?thesis using assms(1) al by (simp add: mem_write_def)
  next
    case (Some p)
    obtain r off where p: "p = (r, off)" by (cases p)
    obtain res m' where st: "mem_store m r off a w v ic = (res, m')" by (cases "mem_store m r off a w v ic")
    have t: "res \<noteq> Panic" "mem_wf m'" using mem_store_total [OF assms, of a r off v ic] Some p st by auto
    have "mem_wf (m'\<lparr>watch := map_option (\<lambda>w'. watch_record w' r off w) (watch m')\<rparr>)"
      using t(2) by (auto simp: mem_wf_def watch_record_wf split: option.splits)
    then show ?thesis using al Some p st t by (cases res) (simp_all add: mem_write_def)
  qed
qed

text \<open>What a store that lands changes.\<close>

lemma mem_write_OkD:
  assumes "mem_write m a w v ic = (Ok u, m')"
  obtains r off m1 where "check_align a w = Ok ()" "classify (mem_map m) a w = Some (r, off)"
    "mem_store m r off a w v ic = (Ok (), m1)"
    "m' = m1\<lparr>watch := map_option (\<lambda>w'. watch_record w' r off w) (watch m1)\<rparr>"
  using assms that
  by (auto simp: mem_write_def check_align_def split: option.splits prod.splits rresult.splits if_splits)

lemma region_bytes_other [simp]:
  "r \<noteq> Ram \<Longrightarrow> region_bytes (m\<lparr>ram := x\<rparr>) r = region_bytes m r"
  "r \<noteq> Framebuffer \<Longrightarrow> region_bytes (m\<lparr>framebuffer := x\<rparr>) r = region_bytes m r"
  "r \<noteq> Palette \<Longrightarrow> region_bytes (m\<lparr>palette := x\<rparr>) r = region_bytes m r"
  by (cases r; simp)+

lemma mem_store_Ok_region:
  assumes "mem_wf m" "access_width w" "classify (mem_map m) a w = Some (r, off)" "r \<noteq> Mmio"
    and "mem_store m r off a w v ic = (Ok (), m1)"
  shows "region_bytes m1 r = slice_put (region_bytes m r) (unat off) (to_le_bytes (unat w) v)"
    and "\<And>r'. r' \<noteq> r \<Longrightarrow> region_bytes m1 r' = region_bytes m r'"
    and "devices m1 = devices m" "mem_map m1 = mem_map m" "text_region m1 = text_region m" "watch m1 = watch m"
    and "r = Ram \<Longrightarrow> \<not> in_text m a w"
proof -
  have b: "unat off + unat w \<le> length (region_bytes m r)"
    using classify_offset(1) [OF assms(3)] region_bytes_length [OF assms(1,4)] by simp
  obtain s' where s': "write_le (region_bytes m r) off w v = Some s'"
      "s' = slice_put (region_bytes m r) (unat off) (to_le_bytes (unat w) v)"
    using region.put_total [OF assms(2) b] by blast
  have "region_bytes m1 r = s' \<and> (\<forall>r'. r' \<noteq> r \<longrightarrow> region_bytes m1 r' = region_bytes m r') \<and>
    devices m1 = devices m \<and> mem_map m1 = mem_map m \<and> text_region m1 = text_region m \<and> watch m1 = watch m \<and>
    (r = Ram \<longrightarrow> \<not> in_text m a w)"
    using assms(4,5) s'(1)
    by (cases r; cases "w = 4") (auto simp: mem_store_def split: if_splits)
  then show "region_bytes m1 r = slice_put (region_bytes m r) (unat off) (to_le_bytes (unat w) v)"
    "\<And>r'. r' \<noteq> r \<Longrightarrow> region_bytes m1 r' = region_bytes m r'"
    "devices m1 = devices m" "mem_map m1 = mem_map m" "text_region m1 = text_region m" "watch m1 = watch m"
    "r = Ram \<Longrightarrow> \<not> in_text m a w"
    using s'(2) by auto
qed

lemma mem_store_Mmio:
  "\<exists>d. snd (mem_store m Mmio off a w v ic) = m\<lparr>devices := d\<rparr>"
  by (auto simp: mem_store_def split: prod.split rresult.split)

lemma region_bytes_watch [simp]: "region_bytes (m\<lparr>watch := x\<rparr>) r = region_bytes m r"
  by (cases r) simp_all

lemma region_bytes_devices [simp]: "region_bytes (m\<lparr>devices := x\<rparr>) r = region_bytes m r"
  by (cases r) simp_all

lemma mem_write_frame:
  "mem_map (snd (mem_write m a w v ic)) = mem_map m"
  "text_region (snd (mem_write m a w v ic)) = text_region m"
  by (auto simp: mem_write_def mem_store_def check_align_def
      split: option.split region.split prod.split rresult.split)

end
