(* ===== verification/Memory_View.thy ===== *)
theory Memory_View
  imports Memory
begin

text \<open>
  What memory promises, seen as a flat map from addresses to bytes: \<open>mem_byte\<close> forgets the regions,
  and the region dispatch, the alignment rules and the little-endian stores of \<open>memory.rs\<close> refine plain
  byte updates on it.  The read-only text and the write watch are stated here too.
\<close>

section \<open>The flat view\<close>

definition mem_byte :: "memory \<Rightarrow> u32 \<Rightarrow> u8 option" where
  "mem_byte m a = (case classify (mem_map m) a 1 of
     None \<Rightarrow> None
   | Some (r, off) \<Rightarrow> if r = Mmio then None else Some (region_bytes m r ! unat off))"

text \<open>\<open>within a w b\<close>: the byte at \<open>b\<close> is one of the \<open>w\<close> bytes from \<open>a\<close> on.\<close>

definition within :: "u32 \<Rightarrow> u32 \<Rightarrow> u32 \<Rightarrow> bool" where
  "within a w b \<longleftrightarrow> unat a \<le> unat b \<and> unat b < unat a + unat w"

lemma classify_byte:
  assumes "regions_disjoint m" "classify m a w = Some (r, off)" "within a w b"
  shows "classify m b 1 = Some (r, b - fst (bounds m r))"
    and "unat (b - fst (bounds m r)) = unat off + (unat b - unat a)"
    and "unat b - unat a < unat w"
proof -
  note i = classifyD(1) [OF assms(2)] and o = classify_offset(2) [OF assms(2)]
  have "inside m r b 1" using i assms(3) by (simp add: inside_def within_def)
  then show c: "classify m b 1 = Some (r, b - fst (bounds m r))"
    using classify_exact_gen [OF assms(1), of 1 b r] by simp
  show "unat (b - fst (bounds m r)) = unat off + (unat b - unat a)"
    using classify_offset(2) [OF c] o assms(3) i by (simp add: within_def inside_def)
  show "unat b - unat a < unat w" using assms(3) by (auto simp: within_def)
qed

lemma classify_byte_outside:
  assumes "classify m a w = Some (r, off)" "classify m b 1 = Some (r, off')" "\<not> within a w b"
  shows "\<not> (unat off \<le> unat off' \<and> unat off' < unat off + unat w)"
  using classify_offset(2) [OF assms(1)] classify_offset(2) [OF assms(2)]
    classifyD(1) [OF assms(1)] classifyD(1) [OF assms(2)] assms(3)
  by (auto simp: within_def inside_def)

lemma mem_byte_cong:
  "mem_map m' = mem_map m \<Longrightarrow> (\<And>r. region_bytes m' r = region_bytes m r) \<Longrightarrow> mem_byte m' b = mem_byte m b"
  by (auto simp: mem_byte_def split: option.split)

lemma nth_to_le_bytes: "i < n \<Longrightarrow> to_le_bytes n v ! i = ucast (drop_bit (8 * i) v)"
  by (simp add: to_le_bytes_def)

lemma mem_write_byte_plain:
  assumes "mem_wf m" "regions_disjoint (mem_map m)" "access_width w" "r \<noteq> Mmio"
    and c: "classify (mem_map m) a w = Some (r, off)"
    and st: "mem_store m r off a w v ic = (Ok (), m1)"
  shows "mem_byte m1 b = (if within a w b then Some (ucast (drop_bit (8 * (unat b - unat a)) v)) else mem_byte m b)"
proof -
  note e = mem_store_Ok_region [OF assms(1,3) c assms(4) st]
  have len: "unat off + length (to_le_bytes (unat w) v) \<le> length (region_bytes m r)"
    using classify_offset(1) [OF c] region_bytes_length [OF assms(1,4)] by simp
  show ?thesis
  proof (cases "within a w b")
    case True
    note cb = classify_byte [OF assms(2) c True]
    have "unat off + (unat b - unat a) < length (region_bytes m r)" using len cb(3) by simp
    then have "region_bytes m1 r ! (unat off + (unat b - unat a)) = ucast (drop_bit (8 * (unat b - unat a)) v)"
      using nth_slice_put [OF len] cb(3) by (simp add: e(1) nth_to_le_bytes)
    then show ?thesis using True cb(1,2) assms(4) by (simp add: mem_byte_def e(4))
  next
    case False
    show ?thesis
    proof (cases "classify (mem_map m) b 1")
      case None
      then show ?thesis using False by (simp add: mem_byte_def e(4))
    next
      case (Some p)
      obtain r' off' where p: "p = (r', off')" by (cases p)
      show ?thesis
      proof (cases "r' = r")
        case True
        have "unat off' < length (region_bytes m r)"
          using classify_offset(1) [of "mem_map m" b 1 r' off'] Some p True region_bytes_length [OF assms(1,4)] by simp
        moreover have "\<not> (unat off \<le> unat off' \<and> unat off' < unat off + unat w)"
          using classify_byte_outside [OF c _ False] Some p True by simp
        ultimately have "region_bytes m1 r ! unat off' = region_bytes m r ! unat off'"
          by (auto simp: e(1) nth_slice_put [OF len])
        then show ?thesis using False Some p True assms(4) by (simp add: mem_byte_def e(4))
      next
        case False
        then show ?thesis using \<open>\<not> within a w b\<close> Some p e(2) by (simp add: mem_byte_def e(4))
      qed
    qed
  qed
qed

lemma mem_write_bytes:
  assumes "mem_wf m" "regions_disjoint (mem_map m)" "access_width w"
    and "mem_write m a w v ic = (Ok (), m')"
  shows "mem_byte m' b = (if mem_byte m b \<noteq> None \<and> within a w b
    then Some (ucast (drop_bit (8 * (unat b - unat a)) v)) else mem_byte m b)"
proof -
  obtain r off m1 where c: "classify (mem_map m) a w = Some (r, off)"
      and st: "mem_store m r off a w v ic = (Ok (), m1)"
      and m': "m' = m1\<lparr>watch := map_option (\<lambda>w'. watch_record w' r off w) (watch m1)\<rparr>"
    using mem_write_OkD [OF assms(4)] by metis
  have m'b: "mem_byte m' b = mem_byte m1 b" unfolding m' by (intro mem_byte_cong) simp_all
  show ?thesis
  proof (cases "r = Mmio")
    case True
    obtain d where "m1 = m\<lparr>devices := d\<rparr>" using mem_store_Mmio [of m off a w v ic] st True by auto
    then have "mem_byte m1 b = mem_byte m b" by (intro mem_byte_cong) simp_all
    moreover have "mem_byte m b = None" if "within a w b"
      using classify_byte(1) [OF assms(2) c that] True by (simp add: mem_byte_def)
    ultimately show ?thesis by (auto simp: m'b)
  next
    case False
    have "mem_byte m b \<noteq> None" if "within a w b"
      using classify_byte(1) [OF assms(2) c that] False by (simp add: mem_byte_def)
    then show ?thesis
      using mem_write_byte_plain [OF assms(1-3) False c st, of b] by (auto simp: m'b)
  qed
qed

text \<open>A machine small enough to evaluate: sixteen bytes of RAM, a plain device window.\<close>

definition map_small :: memory_map where
  "map_small = \<lparr> ram_base = 0x80000000, ram_size = 16, mmio_base = 0x10000000, mmio_size = 8,
     framebuffer_base = 0x20000000, framebuffer_size = 4, palette_base = 0x30000000, palette_size = 4 \<rparr>"

definition mem_small :: memory where
  "mem_small = memory_new map_small (devices_bytes 8)"

lemma mem_small_ok: "mem_wf mem_small" "regions_disjoint (mem_map mem_small)"
proof -
  show "mem_wf mem_small" unfolding mem_small_def
    by (rule memory_new_wf) (simp add: devices_bytes_def byte_window_new_def map_small_def)
  have "\<lbrakk> r \<noteq> r' \<rbrakk> \<Longrightarrow> unat (fst (bounds map_small r)) + unat (snd (bounds map_small r)) \<le> unat (fst (bounds map_small r')) \<or>
     unat (fst (bounds map_small r')) + unat (snd (bounds map_small r')) \<le> unat (fst (bounds map_small r))" for r r'
    by (cases r; cases r') (simp_all add: map_small_def)
  then show "regions_disjoint (mem_map mem_small)"
    by (simp add: regions_disjoint_def mem_small_def memory_new_def)
qed

lemmas small_eval = mem_small_def memory_new_def map_small_def classify_def

text \<open>
  C23: A store that lands is a plain byte update of the flat address space.  After a successful
  \<open>write\<close> every byte of the stored range that is backed by RAM, framebuffer or palette holds the
  corresponding little-endian byte of the value, and every other byte of the machine's memory, in
  whichever region, is what it was.  A store to the device window changes no byte.
\<close>

theorem mem_write_refines:
  assumes "mem_wf m" "regions_disjoint (mem_map m)" "access_width w"
    and "mem_write m a w v ic = (Ok (), m')"
  shows "mem_byte m' b = (if mem_byte m b \<noteq> None \<and> within a w b
    then Some (ucast (drop_bit (8 * (unat b - unat a)) v)) else mem_byte m b)"
  using assms by (rule mem_write_bytes)

theorem mem_write_refines_witness:
  "\<exists>m'. mem_write mem_small 0x80000004 2 0xABCD 0 = (Ok (), m') \<and>
     mem_byte m' 0x80000005 = Some 0xAB \<and> mem_byte m' 0x80000006 = Some 0"
proof -
  let ?r = "mem_write mem_small 0x80000004 2 0xABCD 0"
  have w: "access_width 2" by (simp add: access_width_def)
  have "fst ?r = Ok ()"
    by (simp add: mem_write_def check_align_def small_eval mem_store_def in_text_def write_le_def Let_def)
  then have r: "?r = (Ok (), snd ?r)" by (metis prod.collapse)
  have b: "mem_byte mem_small 0x80000005 = Some 0" "mem_byte mem_small 0x80000006 = Some 0"
    by (simp_all add: mem_byte_def small_eval)
  note f = mem_write_refines [OF mem_small_ok w r]
  show ?thesis using r f [of "0x80000005"] f [of "0x80000006"] b by (intro exI [of _ "snd ?r"]) (simp add: within_def)
qed

text \<open>
  A load is the little-endian value of the bytes at its address.  A successful \<open>read\<close> of a
  backed address leaves memory alone, and byte \<open>i\<close> of the value it returns is the byte the flat view
  holds \<open>i\<close> places after the address, with nothing above the access width.
\<close>

theorem mem_read_refines:
  assumes "mem_wf m" "regions_disjoint (mem_map m)" "access_width w" "mem_byte m a \<noteq> None"
    and "mem_read m a w ic = (Ok v, m')"
  shows "m' = m \<and> v = take_bit (8 * unat w) v \<and>
    (\<forall>b. within a w b \<longrightarrow> mem_byte m b = Some (ucast (drop_bit (8 * (unat b - unat a)) v)))"
proof -
  have al: "check_align a w = Ok ()"
    using assms(5) check_align_cases [of a w] by (auto simp: mem_read_def)
  have "classify (mem_map m) a w \<noteq> None"
  proof
    assume "classify (mem_map m) a w = None"
    then show False using assms(5) al by (simp add: mem_read_def)
  qed
  then obtain r off where c: "classify (mem_map m) a w = Some (r, off)" by auto
  have w0: "0 < unat w" "unat w \<le> 4" using access_width_bound [OF assms(3)] by simp_all
  then have "within a w a" by (simp add: within_def)
  note ca = classify_byte(1) [OF assms(2) c this]
  have r: "r \<noteq> Mmio" using assms(4) ca by (auto simp: mem_byte_def)
  let ?bs = "take (unat w) (drop (unat off) (region_bytes m r))"
  have e: "v = from_le_bytes ?bs" "m' = m"
    using mem_read_region [OF assms(1,3) al c r] assms(5) by auto
  have len: "unat off + unat w \<le> length (region_bytes m r)"
    using classify_offset(1) [OF c] region_bytes_length [OF assms(1) r] by simp
  then have l: "length ?bs = unat w" by simp
  have ob: "to_le_bytes (unat w) v = ?bs"
    using to_from_le_bytes [of ?bs, where 'a = 32] l w0(2) e(1) by simp
  have "take_bit (8 * unat w) v = v" using from_to_le_bytes [of "unat w" v] unfolding ob e(1) [symmetric] by simp
  moreover have "mem_byte m b = Some (ucast (drop_bit (8 * (unat b - unat a)) v))" if wb: "within a w b" for b
  proof -
    note cb = classify_byte [OF assms(2) c wb]
    have "ucast (drop_bit (8 * (unat b - unat a)) v) = ?bs ! (unat b - unat a)"
      using cb(3) by (simp flip: ob add: nth_to_le_bytes)
    also have "\<dots> = region_bytes m r ! (unat off + (unat b - unat a))"
      using cb(3) len by simp
    finally show ?thesis using cb(1,2) r by (simp add: mem_byte_def)
  qed
  ultimately show ?thesis using e(2) by simp
qed

theorem mem_read_refines_witness:
  "mem_read (mem_small\<lparr>ram := [0, 0, 0, 0, 0xCD, 0xAB, 0, 0, 0, 0, 0, 0, 0, 0, 0, 0]\<rparr>) 0x80000004 2 0 =
     (Ok 0xABCD, mem_small\<lparr>ram := [0, 0, 0, 0, 0xCD, 0xAB, 0, 0, 0, 0, 0, 0, 0, 0, 0, 0]\<rparr>) \<and>
   mem_byte (mem_small\<lparr>ram := [0, 0, 0, 0, 0xCD, 0xAB, 0, 0, 0, 0, 0, 0, 0, 0, 0, 0]\<rparr>) 0x80000005 = Some 0xAB"
proof -
  let ?m = "mem_small\<lparr>ram := [0, 0, 0, 0, 0xCD, 0xAB, 0, 0, 0, 0, 0, 0, 0, 0, 0, 0]\<rparr>"
  have w: "access_width 2" by (simp add: access_width_def)
  have wf: "mem_wf ?m" using mem_small_ok(1) by (simp add: mem_wf_def) (simp add: small_eval)
  have d: "regions_disjoint (mem_map ?m)" using mem_small_ok(2) by simp
  have b: "mem_byte ?m 0x80000004 \<noteq> None" by (simp add: mem_byte_def small_eval)
  have r: "mem_read ?m 0x80000004 2 0 = (Ok 0xABCD, ?m)"
    by (simp add: mem_read_def check_align_def small_eval read_le_def Let_def)
  note f = mem_read_refines [OF wf d w b r]
  show ?thesis using r f by (auto simp: within_def)
qed

section \<open>The read-only text\<close>

definition text_byte :: "memory \<Rightarrow> u32 \<Rightarrow> bool" where
  "text_byte m b \<longleftrightarrow> (\<exists>off. classify (mem_map m) b 1 = Some (Ram, off)) \<and>
     (case text_region m of None \<Rightarrow> False | Some (s, e) \<Rightarrow> s \<le> b \<and> b < e)"

lemma in_text_within: "text_byte m b \<Longrightarrow> within a w b \<Longrightarrow> in_text m a w"
  by (auto simp: text_byte_def within_def in_text_def word_le_nat_alt word_less_nat_alt split: option.splits)

lemma text_byte_cong:
  "mem_map m' = mem_map m \<Longrightarrow> text_region m' = text_region m \<Longrightarrow> text_byte m' b = text_byte m b"
  by (simp add: text_byte_def)

lemma mem_write_text:
  assumes "mem_wf m" "regions_disjoint (mem_map m)" "access_width w" "text_byte m b"
  shows "mem_byte (snd (mem_write m a w v ic)) b = mem_byte m b"
proof (cases "mem_write m a w v ic")
  case (Pair res m')
  show ?thesis
  proof (cases res)
    case (Ok u)
    obtain r off m1 where c: "classify (mem_map m) a w = Some (r, off)"
        and st: "mem_store m r off a w v ic = (Ok (), m1)"
      using mem_write_OkD Pair Ok by metis
    have "\<not> within a w b"
    proof
      assume wb: "within a w b"
      have "r = Ram" using classify_byte(1) [OF assms(2) c wb] assms(4) by (auto simp: text_byte_def)
      then show False using st in_text_within [OF assms(4) wb] by (simp add: mem_store_def)
    qed
    then show ?thesis using mem_write_bytes [OF assms(1-3)] Pair Ok by simp
  next
    case (Err e)
    then show ?thesis using mem_write_Err [of m a w v ic] Pair by simp
  next
    case Panic
    then show ?thesis using mem_write_total [OF assms(1,3), of a v ic] Pair by simp
  qed
qed

section \<open>The write watch\<close>

text \<open>The words of a region that a watch has marked.\<close>

definition marked :: "u64 list \<Rightarrow> nat set" where
  "marked bits = {n. n div 64 < length bits \<and> bit (bits ! (n div 64)) (n mod 64)}"

lemma marked_mark_words:
  "marked (mark_words ws bits) = marked bits \<union> {n \<in> set ws. n div 64 < length bits} \<and>
   length (mark_words ws bits) = length bits"
proof (induction ws arbitrary: bits)
  case Nil
  then show ?case by simp
next
  case (Cons x ws)
  let ?b = "if x div 64 < length bits then bits[x div 64 := (bits ! (x div 64)) OR push_bit (x mod 64) 1] else bits"
  have l: "length ?b = length bits" by simp
  have "marked ?b = marked bits \<union> (if x div 64 < length bits then {x} else {})"
  proof (cases "x div 64 < length bits")
    case True
    have "bit (?b ! (n div 64)) (n mod 64) \<longleftrightarrow> bit (bits ! (n div 64)) (n mod 64) \<or> n = x"
      if "n div 64 < length bits" for n
    proof (cases "n div 64 = x div 64")
      case eq: True
      have "n = x \<longleftrightarrow> n mod 64 = x mod 64" using eq by (metis div_mult_mod_eq)
      then show ?thesis using True eq by (auto simp: bit_simps)
    next
      case False
      then show ?thesis using True by auto
    qed
    then show ?thesis using True by (auto simp: marked_def)
  qed (simp add: marked_def)
  then show ?case using Cons.IH [of ?b] by (auto simp: l)
qed

lemma card_marked: "card (marked bits) = sum_list (map (\<lambda>x. card {n. bit x n}) bits)"
proof (induction bits)
  case Nil
  then show ?case by (simp add: marked_def)
next
  case (Cons x bits)
  have f: "finite {n. bit x n}" by (rule finite_subset [of _ "{..<64}"]) (auto dest: bit_imp_le_length)
  have "marked (x # bits) = {n. bit x n} \<union> (\<lambda>n. n + 64) ` marked bits"
  proof (rule set_eqI)
    fix n
    show "n \<in> marked (x # bits) \<longleftrightarrow> n \<in> {n. bit x n} \<union> (\<lambda>n. n + 64) ` marked bits"
    proof (cases "n < 64")
      case True
      then show ?thesis by (auto simp: marked_def)
    next
      case False
      then obtain k where k: "n = k + 64" by (metis add.commute le_Suc_ex not_less)
      have "\<not> bit x n" using False by (auto dest: bit_imp_le_length)
      moreover have "(k + 64) div 64 = Suc (k div 64)" by simp
      ultimately show ?thesis by (auto simp: marked_def k simp del: div_add_self2)
    qed
  qed
  moreover have "{n. bit x n} \<inter> (\<lambda>n. n + 64) ` marked bits = {}" by (auto dest: bit_imp_le_length)
  moreover have "finite (marked bits)"
    by (rule finite_subset [of _ "{..<64 * length bits}"])
      (auto simp: marked_def div_less_iff_less_mult mult.commute)
  ultimately show ?case using f Cons.IH
    by (simp add: card_Un_disjoint card_image)
qed

type_synonym store = "region \<times> u32 \<times> u32"

text \<open>A run of landed stores, each as its region, offset and width, and the words of \<open>r\<close> they touch.\<close>

definition record_all :: "write_watch \<Rightarrow> store list \<Rightarrow> write_watch" where
  "record_all w ss = fold (\<lambda>(r, off, width) w. watch_record w r off width) ss w"

definition touched :: "region \<Rightarrow> store list \<Rightarrow> nat set" where
  "touched r ss = 
     (\<Union>(r', off, w) \<in> set ss. if r' = r then {unat off div 4..(unat off + unat w - 1) div 4} else {})"

definition landed :: "memory_map \<Rightarrow> store \<Rightarrow> bool" where
  "landed m = (\<lambda>(r, off, w). 0 < w \<and> unat off + unat w \<le> unat (snd (bounds m r)))"

lemma region_index_inj [simp]: "region_index r = region_index r' \<longleftrightarrow> r = r'"
  by (cases r; cases r') simp_all

lemma region_index_less [simp]: "region_index r < 4"
  by (cases r) simp_all

lemma watch_words_of_nth:
  assumes "length ws = 4"
  shows "watch_words_of m rs ws ! region_index r =
    (if r \<in> set rs then Some (replicate (div_ceil (div_ceil (unat (snd (bounds m r))) 4) 64) 0) else ws ! region_index r)"
  using assms
proof (induction m rs ws rule: watch_words_of.induct)
  case (2 m x rs ws)
  then show ?case by (cases "x = r") (simp_all add: nth_list_update)
qed simp

lemma last_word:
  assumes "landed m (r, off, w)"
  shows "unat (off div 4) = unat off div 4" "unat ((off + w - 1) div 4) = (unat off + unat w - 1) div 4"
    and "(unat off + unat w - 1) div 4 < div_ceil (unat (snd (bounds m r))) 4"
proof -
  have b: "0 < unat w" "unat off + unat w \<le> unat (snd (bounds m r))"
    using assms by (auto simp: landed_def word_less_nat_alt)
  have "unat off + unat w < 2 ^ 32" using b(2) unsigned_less [of "snd (bounds m r)", where ?'a = nat] by simp
  then have a: "unat (off + w) = unat off + unat w" by (simp add: unat_add_lem [symmetric])
  then have "1 \<le> off + w" using b(1) by (simp add: word_le_nat_alt)
  then have "unat (off + w - 1) = unat off + unat w - 1" using a unat_sub [of 1 "off + w"] by simp
  then show "unat ((off + w - 1) div 4) = (unat off + unat w - 1) div 4" by (simp add: unat_div)
  show "unat (off div 4) = unat off div 4" by (simp add: unat_div)
  show "(unat off + unat w - 1) div 4 < div_ceil (unat (snd (bounds m r))) 4"
    using b unfolding div_ceil_def by linarith
qed

lemma word_slot: "n < k \<Longrightarrow> n div 64 < div_ceil k 64"
  unfolding div_ceil_def by linarith

lemma record_all_inv:
  assumes "list_all (landed m) ss" "watch_wf w"
    and "watch_words w ! region_index r = Some bits" "length bits = div_ceil (div_ceil (unat (snd (bounds m r))) 4) 64"
  shows "\<exists>bits'. watch_words (record_all w ss) ! region_index r = Some bits' \<and> marked bits' = marked bits \<union> touched r ss"
    and "stores_in (record_all w ss) r = stores_in w r + of_nat (length (filter (\<lambda>s. fst s = r) ss))"
proof -
  have "(\<exists>bits'. watch_words (record_all w ss) ! region_index r = Some bits' \<and> marked bits' = marked bits \<union> touched r ss) \<and>
     stores_in (record_all w ss) r = stores_in w r + of_nat (length (filter (\<lambda>s. fst s = r) ss))"
    using assms
  proof (induction ss arbitrary: w bits)
    case Nil
    then show ?case by (simp add: record_all_def touched_def)
  next
    case (Cons x ss)
    obtain r' off wd where x: "x = (r', off, wd)" by (cases x)
    have l: "landed m (r', off, wd)" and ls: "list_all (landed m) ss" using Cons.prems(1) x by simp_all
    let ?w = "watch_record w r' off wd"
    note wf = watch_record_wf [OF Cons.prems(2), of r' off wd]
    have len: "length (watch_stores w) = 4" "length (watch_words w) = 4" using Cons.prems(2) by (simp_all add: watch_wf_def)
    have st: "stores_in ?w r = stores_in w r + (if r' = r then 1 else 0)"
      using len by (auto simp: watch_record_def stores_in_def Let_def nth_list_update split: option.split)
    show ?case
    proof (cases "r' = r")
      case True
      let ?ws = "[unat (off div 4)..<Suc (unat ((off + wd - 1) div 4))]"
      have ww: "watch_words ?w ! region_index r = Some (mark_words ?ws bits)"
        using Cons.prems(3) len True by (simp add: watch_record_def Let_def)
      have "n div 64 < length bits" if "n \<in> set ?ws" for n
      proof -
        have "n \<le> (unat off + unat wd - 1) div 4" using that last_word(2) [OF l] by auto
        then have "n < div_ceil (unat (snd (bounds m r))) 4" using last_word(3) [OF l] True by simp
        then show ?thesis using word_slot Cons.prems(4) by simp
      qed
      then have mk: "marked (mark_words ?ws bits) = marked bits \<union> set ?ws"
        using marked_mark_words [of ?ws bits] by auto
      have "length (mark_words ?ws bits) = length bits" using marked_mark_words by blast
      note IH = Cons.IH [OF ls wf ww, unfolded this mk, OF Cons.prems(4)]
      have "set ?ws \<union> touched r ss = touched r (x # ss)"
        using last_word(1,2) [OF l] True x by (auto simp: touched_def)
      then show ?thesis using IH st True x by (simp add: record_all_def Un_assoc)
    next
      case False
      then have ww: "watch_words ?w ! region_index r = Some bits"
        using Cons.prems(3) len by (auto simp: watch_record_def Let_def split: option.split)
      have "touched r (x # ss) = touched r ss" using False x by (auto simp: touched_def)
      then show ?thesis using Cons.IH [OF ls wf ww Cons.prems(4)] st False x by (simp add: record_all_def)
    qed
  qed
  then show "\<exists>bits'. watch_words (record_all w ss) ! region_index r = Some bits' \<and> marked bits' = marked bits \<union> touched r ss"
    "stores_in (record_all w ss) r = stores_in w r + of_nat (length (filter (\<lambda>s. fst s = r) ss))" by blast+
qed

lemma marked_zero: "marked (replicate n 0) = {}"
  by (auto simp: marked_def)

text \<open>
  The watch counts what a run wrote.  After any sequence of landed stores, the figure reported for
  a watched region is the number of distinct four-byte words those stores touched, out of the number
  of words the region has, and the store count is the number of stores that went there.  No store in
  range falls off the end of the bitset.
\<close>

theorem watch_counts_words:
  assumes "list_all (landed m) ss" "r \<in> set rs"
  shows "words_written (record_all (watch_new m rs) ss) r m =
      Some (card (touched r ss), div_ceil (unat (snd (bounds m r))) 4) \<and>
    stores_in (record_all (watch_new m rs) ss) r = of_nat (length (filter (\<lambda>s. fst s = r) ss))"
proof -
  have wf: "watch_wf (watch_new m rs)" by (simp add: watch_wf_def watch_new_def length_watch_words_of)
  have ww: "watch_words (watch_new m rs) ! region_index r =
      Some (replicate (div_ceil (div_ceil (unat (snd (bounds m r))) 4) 64) 0)"
    using assms(2) by (simp add: watch_new_def watch_words_of_nth)
  note inv = record_all_inv [OF assms(1) wf ww]
  obtain bits' where "watch_words (record_all (watch_new m rs) ss) ! region_index r = Some bits'"
      "marked bits' = touched r ss"
    using inv(1) by (auto simp: marked_zero)
  moreover have "stores_in (watch_new m rs) r = 0" by (simp add: stores_in_def watch_new_def)
  ultimately show ?thesis using inv(2) by (simp add: words_written_def card_marked [symmetric])
qed

theorem watch_counts_words_witness:
  "words_written (record_all (watch_new map_small [Ram]) [(Ram, 2, 4), (Ram, 4, 4), (Palette, 0, 4)]) Ram map_small = Some (2, 4)"
proof -
  let ?ss = "[(Ram, 2, 4), (Ram, 4, 4), (Palette, 0, 4)] :: store list"
  have "list_all (landed map_small) ?ss" by (simp add: landed_def map_small_def)
  moreover have "touched Ram ?ss = {0, 1}"
    by (auto simp: touched_def)
  ultimately show ?thesis using watch_counts_words [of map_small ?ss Ram "[Ram]"]
    by (simp add: map_small_def div_ceil_def)
qed

end
