(* ===== verification/Image.thy ===== *)
theory Image
  imports Contract "HOL-Library.Product_Lexorder" "HOL-Library.List_Lexorder"
begin

text \<open>
  Reading a program image, \<open>refemu/src/image.rs\<close>: the ELF parser with its bounds-checked reader, the
  symbol table, the flat form, and the questions asked of a parsed image.  A \<open>String\<close> is the list of its
  UTF-8 bytes, which is also how the sources compare two of them.
\<close>

type_synonym rstring = "u8 list"

section \<open>Constants and data\<close>

definition ELF_MAGIC :: "u8 list" where "ELF_MAGIC = [0x7F, 0x45, 0x4C, 0x46]"
definition ELFCLASS32 :: u8 where "ELFCLASS32 = 1"
definition ELFDATA2LSB :: u8 where "ELFDATA2LSB = 1"
definition EM_RISCV :: u16 where "EM_RISCV = 243"
definition PT_LOAD :: u32 where "PT_LOAD = 1"
definition PF_X :: u32 where "PF_X = 1"
definition SHT_SYMTAB :: u32 where "SHT_SYMTAB = 2"
definition STT_NOTYPE :: u8 where "STT_NOTYPE = 0"
definition STT_OBJECT :: u8 where "STT_OBJECT = 1"
definition STT_FUNC :: u8 where "STT_FUNC = 2"
definition EHDR_SIZE :: nat where "EHDR_SIZE = 52"
definition PHDR_SIZE :: nat where "PHDR_SIZE = 32"
definition SHDR_SIZE :: nat where "SHDR_SIZE = 40"
definition SYM_SIZE :: nat where "SYM_SIZE = 16"

lemmas elf_constants = ELF_MAGIC_def ELFCLASS32_def ELFDATA2LSB_def EM_RISCV_def PT_LOAD_def PF_X_def
  SHT_SYMTAB_def STT_NOTYPE_def STT_OBJECT_def STT_FUNC_def EHDR_SIZE_def PHDR_SIZE_def SHDR_SIZE_def
  SYM_SIZE_def

datatype image_error =
    Truncated nat string
  | NotElf
  | WrongClass
  | WrongMachine u16
  | NoSegments
  | SegmentTooLong u32 u32 u32
  | SegmentWraps u32 u32

record segment =
  seg_vaddr :: u32
  seg_bytes :: "u8 list"
  seg_mem_len :: u32
  seg_executable :: bool

datatype symbol_kind = Function | Object | Untyped

record symbol =
  sym_addr :: u32
  sym_size :: u32
  sym_name :: rstring
  sym_kind :: symbol_kind

record image =
  img_entry :: u32
  img_segments :: "segment list"
  img_symbols :: "symbol list"

section \<open>The reader\<close>

text \<open>Indexing and slicing as the language checks them: a place or a range outside the slice panics.\<close>

definition slice_at :: "'a list \<Rightarrow> nat \<Rightarrow> ('a, 'e) rresult" where
  "slice_at xs i = (if i < length xs then Ok (xs ! i) else Panic)"

definition slice_range :: "'a list \<Rightarrow> nat \<Rightarrow> nat \<Rightarrow> ('a list, 'e) rresult" where
  "slice_range xs from to = (if from \<le> to \<and> to \<le> length xs then Ok (take (to - from) (drop from xs)) else Panic)"

definition rd_slice :: "u8 list \<Rightarrow> nat \<Rightarrow> nat \<Rightarrow> string \<Rightarrow> (u8 list, image_error) rresult" where
  "rd_slice bs at len what = (case slice_get bs at len of
     Some s \<Rightarrow> Ok s | None \<Rightarrow> Err (Truncated at what))"

definition rd_u8 :: "u8 list \<Rightarrow> nat \<Rightarrow> string \<Rightarrow> (u8, image_error) rresult" where
  "rd_u8 bs at what = rbind (rd_slice bs at 1 what) (\<lambda>b. slice_at b 0)"

definition rd_u16 :: "u8 list \<Rightarrow> nat \<Rightarrow> string \<Rightarrow> (u16, image_error) rresult" where
  "rd_u16 bs at what = rbind (rd_slice bs at 2 what) (\<lambda>b.
     rbind (slice_at b 0) (\<lambda>b0. rbind (slice_at b 1) (\<lambda>b1. Ok (from_le_bytes [b0, b1]))))"

definition rd_u32 :: "u8 list \<Rightarrow> nat \<Rightarrow> string \<Rightarrow> (u32, image_error) rresult" where
  "rd_u32 bs at what = rbind (rd_slice bs at 4 what) (\<lambda>b.
     rbind (slice_at b 0) (\<lambda>b0. rbind (slice_at b 1) (\<lambda>b1. rbind (slice_at b 2) (\<lambda>b2. rbind (slice_at b 3) (\<lambda>b3.
       Ok (from_le_bytes [b0, b1, b2, b3]))))))"

text \<open>
  \<open>String::from_utf8_lossy\<close>: the longest prefix that is, or could still become, one encoded character,
  and whether it is one.  A prefix that is not becomes one replacement character.
\<close>

definition safe_get :: "u8 list \<Rightarrow> nat \<Rightarrow> u8" where
  "safe_get bs i = (if i < length bs then bs ! i else 0)"

definition is_cont :: "u8 \<Rightarrow> bool" where
  "is_cont b \<longleftrightarrow> b AND 192 = 128"

definition utf8_char_width :: "u8 \<Rightarrow> nat" where
  "utf8_char_width b = (if b < 0x80 then 1 else if 0xC2 \<le> b \<and> b \<le> 0xDF then 2
     else if 0xE0 \<le> b \<and> b \<le> 0xEF then 3 else if 0xF0 \<le> b \<and> b \<le> 0xF4 then 4 else 0)"

definition second_of_3 :: "u8 \<Rightarrow> u8 \<Rightarrow> bool" where
  "second_of_3 b c \<longleftrightarrow> b = 0xE0 \<and> 0xA0 \<le> c \<and> c \<le> 0xBF \<or> 0xE1 \<le> b \<and> b \<le> 0xEC \<and> 0x80 \<le> c \<and> c \<le> 0xBF
     \<or> b = 0xED \<and> 0x80 \<le> c \<and> c \<le> 0x9F \<or> 0xEE \<le> b \<and> b \<le> 0xEF \<and> 0x80 \<le> c \<and> c \<le> 0xBF"

definition second_of_4 :: "u8 \<Rightarrow> u8 \<Rightarrow> bool" where
  "second_of_4 b c \<longleftrightarrow> b = 0xF0 \<and> 0x90 \<le> c \<and> c \<le> 0xBF \<or> 0xF1 \<le> b \<and> b \<le> 0xF3 \<and> 0x80 \<le> c \<and> c \<le> 0xBF
     \<or> b = 0xF4 \<and> 0x80 \<le> c \<and> c \<le> 0x8F"

definition utf8_step :: "u8 \<Rightarrow> u8 list \<Rightarrow> nat \<times> bool" where
  "utf8_step b rest =
     (let w = utf8_char_width b; c1 = safe_get rest 0; c2 = safe_get rest 1; c3 = safe_get rest 2 in
      if w = 1 then (1, True)
      else if w = 2 then (if is_cont c1 then (2, True) else (1, False))
      else if w = 3 then
        (if \<not> second_of_3 b c1 then (1, False) else if \<not> is_cont c2 then (2, False) else (3, True))
      else if w = 4 then
        (if \<not> second_of_4 b c1 then (1, False) else if \<not> is_cont c2 then (2, False)
         else if \<not> is_cont c3 then (3, False) else (4, True))
      else (1, False))"

function from_utf8_lossy :: "u8 list \<Rightarrow> rstring" where
  "from_utf8_lossy [] = []"
| "from_utf8_lossy (b # rest) = (case utf8_step b rest of (n, ok) \<Rightarrow>
     (if ok then take n (b # rest) else [0xEF, 0xBF, 0xBD]) @ from_utf8_lossy (drop (n - 1) rest))"
  by pat_completeness auto
termination by (relation "measure length") auto

definition rd_string :: "u8 list \<Rightarrow> nat \<Rightarrow> nat \<Rightarrow> nat \<Rightarrow> (rstring, image_error) rresult" where
  "rd_string bs table sz at =
     (if sz \<le> at then Ok []
      else rbind (rd_slice bs table sz ''a string table'') (\<lambda>available.
        rbind (slice_range available at (length available)) (\<lambda>tail.
        let end = length (takeWhile (\<lambda>b. b \<noteq> 0) tail) in
        rbind (slice_range tail 0 end) (\<lambda>name. Ok (from_utf8_lossy name)))))"

section \<open>The parser\<close>

text \<open>One entry of the segment table: nothing for an entry that is not loadable or is empty.\<close>

definition read_segment :: "u8 list \<Rightarrow> nat \<Rightarrow> (segment option, image_error) rresult" where
  "read_segment bs at =
     rbind (rd_u32 bs at ''a segment header'') (\<lambda>kind.
     if kind \<noteq> PT_LOAD then Ok None else
     rbind (rd_u32 bs (at + 4) ''a segment offset'') (\<lambda>offset.
     rbind (rd_u32 bs (at + 8) ''a segment address'') (\<lambda>vaddr.
     rbind (rd_u32 bs (at + 16) ''a segment file size'') (\<lambda>filesz.
     rbind (rd_u32 bs (at + 20) ''a segment memory size'') (\<lambda>memsz.
     rbind (rd_u32 bs (at + 24) ''a segment's flags'') (\<lambda>flags.
     if memsz < filesz then Err (SegmentTooLong vaddr filesz memsz)
     else if memsz = 0 then Ok None
     else if 2 ^ 32 \<le> unat vaddr + unat memsz then Err (SegmentWraps vaddr memsz)
     else if length bs < unat offset + unat filesz then Err (Truncated (unat offset) ''a segment's contents'')
     else rbind (slice_range bs (unat offset) (unat offset + unat filesz)) (\<lambda>body.
       Ok (Some \<lparr> seg_vaddr = vaddr, seg_bytes = body, seg_mem_len = memsz, seg_executable = (flags AND PF_X \<noteq> 0) \<rparr>))))))))"

fun read_segments :: "u8 list \<Rightarrow> nat \<Rightarrow> nat \<Rightarrow> nat list \<Rightarrow> segment list \<Rightarrow> (segment list, image_error) rresult" where
  "read_segments bs phoff phentsize [] acc = Ok acc"
| "read_segments bs phoff phentsize (i # is) acc =
     rbind (read_segment bs (phoff + i * phentsize)) (\<lambda>s. case s of
         None \<Rightarrow> read_segments bs phoff phentsize is acc
       | Some seg \<Rightarrow> read_segments bs phoff phentsize is (acc @ [seg]))"

definition symbol_kind_of :: "u8 \<Rightarrow> u32 \<Rightarrow> symbol_kind option" where
  "symbol_kind_of info sz =
     (if info AND 0xF = STT_FUNC then Some Function
      else if info AND 0xF = STT_OBJECT then Some Object
      else if info AND 0xF = STT_NOTYPE \<and> 0 < sz then Some Untyped
      else None)"

definition read_symbol :: "u8 list \<Rightarrow> nat \<Rightarrow> nat \<Rightarrow> nat \<Rightarrow> (symbol option, image_error) rresult" where
  "read_symbol bs sy str_off str_size =
     rbind (rd_u8 bs (sy + 12) ''a symbol's kind'') (\<lambda>info.
     rbind (rd_u32 bs (sy + 8) ''a symbol's size'') (\<lambda>size.
     case symbol_kind_of info size of None \<Rightarrow> Ok None | Some kind \<Rightarrow>
     rbind (rd_u32 bs sy ''a symbol's name'') (\<lambda>name_at.
     rbind (rd_u32 bs (sy + 4) ''a symbol's address'') (\<lambda>addr.
     rbind (rd_string bs str_off str_size (unat name_at)) (\<lambda>name.
     if name = [] then Ok None
     else Ok (Some \<lparr> sym_addr = addr, sym_size = size, sym_name = name, sym_kind = kind \<rparr>))))))"

fun read_symtab :: "u8 list \<Rightarrow> nat \<Rightarrow> nat \<Rightarrow> nat \<Rightarrow> nat list \<Rightarrow> symbol list \<Rightarrow> (symbol list, image_error) rresult" where
  "read_symtab bs offset str_off str_size [] acc = Ok acc"
| "read_symtab bs offset str_off str_size (e # es) acc =
     rbind (read_symbol bs (offset + e * SYM_SIZE) str_off str_size) (\<lambda>s. case s of
         None \<Rightarrow> read_symtab bs offset str_off str_size es acc
       | Some x \<Rightarrow> read_symtab bs offset str_off str_size es (acc @ [x]))"

fun read_sections :: "u8 list \<Rightarrow> nat \<Rightarrow> nat \<Rightarrow> nat \<Rightarrow> nat list \<Rightarrow> symbol list \<Rightarrow> (symbol list, image_error) rresult" where
  "read_sections bs shoff shentsize shnum [] acc = Ok acc"
| "read_sections bs shoff shentsize shnum (i # is) acc =
     (let at = shoff + i * shentsize in
      rbind (rd_u32 bs (at + 4) ''a section type'') (\<lambda>ty.
      if ty \<noteq> SHT_SYMTAB then read_sections bs shoff shentsize shnum is acc else
      rbind (rd_u32 bs (at + 16) ''a symbol table offset'') (\<lambda>offset.
      rbind (rd_u32 bs (at + 20) ''a symbol table size'') (\<lambda>size.
      rbind (rd_u32 bs (at + 24) ''a string table index'') (\<lambda>strtab_index.
      if shnum \<le> unat strtab_index then read_sections bs shoff shentsize shnum is acc else
      let str_at = shoff + unat strtab_index * shentsize in
      rbind (rd_u32 bs (str_at + 16) ''a string table offset'') (\<lambda>str_off.
      rbind (rd_u32 bs (str_at + 20) ''a string table size'') (\<lambda>str_size.
      rbind (read_symtab bs (unat offset) (unat str_off) (unat str_size) [0..<unat size div SYM_SIZE] acc) (\<lambda>acc'.
      read_sections bs shoff shentsize shnum is acc'))))))))"

definition symbol_key :: "symbol \<Rightarrow> u32 \<times> rstring" where
  "symbol_key s = (sym_addr s, sym_name s)"

definition read_symbols :: "u8 list \<Rightarrow> nat \<Rightarrow> nat \<Rightarrow> nat \<Rightarrow> (symbol list, image_error) rresult" where
  "read_symbols bs shoff shentsize shnum =
     rbind (read_sections bs shoff shentsize shnum [0..<shnum] []) (\<lambda>syms. Ok (sort_key symbol_key syms))"

definition parse_elf :: "u8 list \<Rightarrow> (image, image_error) rresult" where
  "parse_elf bs =
     (if length bs < EHDR_SIZE then Err (Truncated (length bs) ''the file header'')
      else rbind (slice_range bs 0 4) (\<lambda>magic.
      if magic \<noteq> ELF_MAGIC then Err NotElf else
      rbind (slice_at bs 4) (\<lambda>class.
      rbind (if class \<noteq> ELFCLASS32 then Ok True else rbind (slice_at bs 5) (\<lambda>data. Ok (data \<noteq> ELFDATA2LSB))) (\<lambda>wrong.
      if wrong then Err WrongClass else
      rbind (rd_u16 bs 18 ''the machine'') (\<lambda>machine.
      if machine \<noteq> EM_RISCV then Err (WrongMachine machine) else
      rbind (rd_u32 bs 24 ''the entry point'') (\<lambda>entry.
      rbind (rd_u32 bs 28 ''the segment table offset'') (\<lambda>phoff.
      rbind (rd_u32 bs 32 ''the section table offset'') (\<lambda>shoff.
      rbind (rd_u16 bs 42 ''the segment entry size'') (\<lambda>phentsize.
      rbind (rd_u16 bs 44 ''the segment count'') (\<lambda>phnum.
      rbind (rd_u16 bs 46 ''the section entry size'') (\<lambda>shentsize.
      rbind (rd_u16 bs 48 ''the section count'') (\<lambda>shnum.
      rbind (if 0 < phnum \<and> PHDR_SIZE \<le> unat phentsize
             then read_segments bs (unat phoff) (unat phentsize) [0..<unat phnum] [] else Ok []) (\<lambda>segments.
      if segments = [] then Err NoSegments else
      rbind (if 0 < shnum \<and> SHDR_SIZE \<le> unat shentsize
             then read_symbols bs (unat shoff) (unat shentsize) (unat shnum) else Ok []) (\<lambda>symbols.
      Ok \<lparr> img_entry = entry, img_segments = sort_key seg_vaddr segments, img_symbols = symbols \<rparr>))))))))))))))"

section \<open>Other operations\<close>

definition image_flat :: "u8 list \<Rightarrow> u32 \<Rightarrow> image" where
  "image_flat bytes load_addr = \<lparr> img_entry = load_addr,
     img_segments = [\<lparr> seg_vaddr = load_addr, seg_bytes = bytes, seg_mem_len = of_nat (length bytes),
       seg_executable = True \<rparr>], img_symbols = [] \<rparr>"

definition looks_like_elf :: "u8 list \<Rightarrow> bool" where
  "looks_like_elf bytes \<longleftrightarrow> 4 \<le> length bytes \<and> take 4 bytes = ELF_MAGIC"

definition saturating_add32 :: "u32 \<Rightarrow> u32 \<Rightarrow> u32" where
  "saturating_add32 a b = (if unat a + unat b < 2 ^ 32 then a + b else 0xFFFFFFFF)"

fun text_bounds :: "segment list \<Rightarrow> (u32 \<times> u32) option \<Rightarrow> (u32 \<times> u32) option" where
  "text_bounds [] b = b"
| "text_bounds (s # ss) b =
     (let end = saturating_add32 (seg_vaddr s) (seg_mem_len s) in
      text_bounds ss (Some (case b of None \<Rightarrow> (seg_vaddr s, end)
        | Some (lo, hi) \<Rightarrow> (min lo (seg_vaddr s), max hi end))))"

definition image_text_region :: "image \<Rightarrow> (u32 \<times> u32) option" where
  "image_text_region img =
     (case text_bounds (filter seg_executable (img_segments img)) None of
        Some (start, end) \<Rightarrow> if start < end then Some (start, end) else None
      | None \<Rightarrow> None)"

definition image_symbol :: "image \<Rightarrow> rstring \<Rightarrow> symbol option" where
  "image_symbol img name = List.find (\<lambda>s. sym_name s = name) (img_symbols img)"

definition partition_point :: "('a \<Rightarrow> bool) \<Rightarrow> 'a list \<Rightarrow> nat" where
  "partition_point P xs = length (takeWhile P xs)"

definition function_containing :: "symbol list \<Rightarrow> u32 \<Rightarrow> symbol option" where
  "function_containing syms addr =
     (let before = partition_point (\<lambda>s. sym_addr s \<le> addr) syms in
      case List.find (\<lambda>s. sym_kind s = Function) (rev (take before syms)) of
        Some s \<Rightarrow> if addr - sym_addr s < sym_size s then Some s else None
      | None \<Rightarrow> None)"

definition image_functions :: "image \<Rightarrow> symbol list" where
  "image_functions img = filter (\<lambda>s. sym_kind s = Function) (img_symbols img)"

definition read_image :: "u8 list \<Rightarrow> u32 option \<Rightarrow> (image, image_error) rresult" where
  "read_image bytes load_addr =
     (if looks_like_elf bytes then parse_elf bytes
      else Ok (image_flat bytes (case load_addr of Some a \<Rightarrow> a | None \<Rightarrow> RAM_BASE)))"

section \<open>The parser never panics\<close>

lemma slice_inside [simp]:
  "i < length xs \<Longrightarrow> slice_at xs i = Ok (xs ! i)"
  "from \<le> to \<Longrightarrow> to \<le> length xs \<Longrightarrow> slice_range xs from to = Ok (take (to - from) (drop from xs))"
  by (simp_all add: slice_at_def slice_range_def)

text \<open>The little-endian fields of a file, at a place inside it.\<close>

definition le32_at :: "u8 list \<Rightarrow> nat \<Rightarrow> u32" where
  "le32_at bs at = from_le_bytes (take 4 (drop at bs))"

definition le16_at :: "u8 list \<Rightarrow> nat \<Rightarrow> u16" where
  "le16_at bs at = from_le_bytes (take 2 (drop at bs))"

lemma list_of_4: "length xs = 4 \<Longrightarrow> [xs ! 0, xs ! 1, xs ! 2, xs ! 3] = xs"
  by (auto simp: list_eq_iff_nth_eq nth_Cons' numeral_eq_Suc less_Suc_eq)

lemma list_of_2: "length xs = 2 \<Longrightarrow> [xs ! 0, xs ! 1] = xs"
  by (auto simp: list_eq_iff_nth_eq nth_Cons' numeral_eq_Suc less_Suc_eq)

lemma rd_slice_cases: "rd_slice bs at len what = (if at + len \<le> length bs then Ok (take len (drop at bs)) else Err (Truncated at what))"
  by (simp add: rd_slice_def slice_get_def)

lemma rd_u32_cases: "rd_u32 bs at what = (if at + 4 \<le> length bs then Ok (le32_at bs at) else Err (Truncated at what))"
proof (cases "at + 4 \<le> length bs")
  case True
  then have "[bs ! at, bs ! (at + 1), bs ! (at + 2), bs ! (at + 3)] = take 4 (drop at bs)"
    using list_of_4 [of "take 4 (drop at bs)"] by simp
  then have "le32_at bs at = from_le_bytes [bs ! at, bs ! (at + 1), bs ! (at + 2), bs ! (at + 3)]" by (simp only: le32_at_def)
  then show ?thesis using True by (simp add: rd_u32_def rd_slice_cases)
qed (simp add: rd_u32_def rd_slice_cases)

lemma rd_u16_cases: "rd_u16 bs at what = (if at + 2 \<le> length bs then Ok (le16_at bs at) else Err (Truncated at what))"
proof (cases "at + 2 \<le> length bs")
  case True
  then have "[bs ! at, bs ! (at + 1)] = take 2 (drop at bs)" using list_of_2 [of "take 2 (drop at bs)"] by simp
  then have "le16_at bs at = from_le_bytes [bs ! at, bs ! (at + 1)]" by (simp only: le16_at_def)
  then show ?thesis using True by (simp add: rd_u16_def rd_slice_cases)
qed (simp add: rd_u16_def rd_slice_cases)

lemma rd_no_panic [simp]:
  "rd_slice bs at len what \<noteq> Panic" "rd_u8 bs at what \<noteq> Panic"
  "rd_u16 bs at what \<noteq> Panic" "rd_u32 bs at what \<noteq> Panic" "rd_string bs t n at \<noteq> Panic"
  by (auto simp: rd_slice_cases rd_u8_def rd_u16_cases rd_u32_cases rd_string_def rbind_Panic_iff Let_def length_takeWhile_le)

lemma read_segment_no_panic [simp]: "read_segment bs at \<noteq> Panic"
  unfolding read_segment_def by (auto simp: rbind_Panic_iff)

lemma read_segments_no_panic [simp]: "read_segments bs q e is acc \<noteq> Panic"
  by (induction bs q e "is" acc rule: read_segments.induct) (auto simp: rbind_Panic_iff split: option.splits)

lemma read_symbol_no_panic [simp]: "read_symbol bs sy q n \<noteq> Panic"
  unfolding read_symbol_def by (auto simp: rbind_Panic_iff split: option.splits)

lemma read_symtab_no_panic [simp]: "read_symtab bs off q n es acc \<noteq> Panic"
  by (induction bs off q n es acc rule: read_symtab.induct) (auto simp: rbind_Panic_iff split: option.splits)

lemma read_sections_no_panic [simp]: "read_sections bs q e n is acc \<noteq> Panic"
proof (induction "is" arbitrary: acc)
  case (Cons i "is")
  then show ?case unfolding read_sections.simps Let_def by (auto simp: rbind_Panic_iff)
qed simp

lemma read_symbols_no_panic [simp]: "read_symbols bs q e n \<noteq> Panic"
  unfolding read_symbols_def by (auto simp: rbind_Panic_iff)

lemma parse_elf_no_panic: "parse_elf bs \<noteq> Panic"
  unfolding parse_elf_def by (simp add: rbind_Panic_iff EHDR_SIZE_def)

section \<open>What a parsed image holds\<close>

text \<open>A segment of a file: its bytes are a slice of the file, and its memory does not wrap.\<close>

definition segment_of :: "u8 list \<Rightarrow> segment \<Rightarrow> bool" where
  "segment_of bs s \<longleftrightarrow>
     (\<exists>off. off + length (seg_bytes s) \<le> length bs \<and> seg_bytes s = take (length (seg_bytes s)) (drop off bs)) \<and>
     length (seg_bytes s) \<le> unat (seg_mem_len s) \<and> 0 < seg_mem_len s \<and>
     unat (seg_vaddr s) + unat (seg_mem_len s) < 2 ^ 32"

lemma read_segment_of:
  assumes "read_segment bs at = Ok (Some s)"
  shows "segment_of bs s"
proof -
  obtain off fs :: u32 where f: "\<not> seg_mem_len s < fs" "\<not> length bs < unat off + unat fs"
      "seg_bytes s = take (unat fs) (drop (unat off) bs)"
      and m: "seg_mem_len s \<noteq> 0" "\<not> 2 ^ 32 \<le> unat (seg_vaddr s) + unat (seg_mem_len s)"
    using assms unfolding read_segment_def rbind_Ok_iff by (auto simp: rbind_Ok_iff split: if_splits)
  from f(1) have "unat fs \<le> unat (seg_mem_len s)" by (simp add: word_le_nat_alt [symmetric])
  then show ?thesis using f(2,3) m
    by (auto simp: segment_of_def word_less_nat_alt unat_gt_0 intro: exI [of _ "unat off"])
qed

lemma read_segments_of:
  "read_segments bs q e is acc = Ok ss \<Longrightarrow> list_all (segment_of bs) acc \<Longrightarrow> list_all (segment_of bs) ss"
proof (induction bs q e "is" acc rule: read_segments.induct)
  case (2 bs q e i "is" acc)
  then obtain x where x: "read_segment bs (q + i * e) = Ok x" by (auto simp: rbind_Ok_iff)
  show ?case
  proof (cases x)
    case None
    then show ?thesis using 2 x by simp
  next
    case (Some y)
    then show ?thesis using 2 x read_segment_of [of bs "q + i * e" y] by simp
  qed
qed simp

lemma read_symbol_named: "read_symbol bs sy q n = Ok (Some x) \<Longrightarrow> sym_name x \<noteq> []"
  by (auto simp: read_symbol_def rbind_Ok_iff split: option.splits if_splits)

lemma read_symtab_named:
  "read_symtab bs off q n es acc = Ok ys \<Longrightarrow> (\<forall>x\<in>set acc. sym_name x \<noteq> []) \<Longrightarrow> (\<forall>x\<in>set ys. sym_name x \<noteq> [])"
proof (induction bs off q n es acc rule: read_symtab.induct)
  case (2 bs offset str_off str_size e es acc)
  then obtain x where x: "read_symbol bs (offset + e * SYM_SIZE) str_off str_size = Ok x" by (auto simp: rbind_Ok_iff)
  show ?case
  proof (cases x)
    case None
    then show ?thesis using 2 x by simp
  next
    case (Some y)
    then show ?thesis using 2 x read_symbol_named [of bs "offset + e * SYM_SIZE" str_off str_size y] by simp
  qed
qed simp

lemma read_sections_named:
  "read_sections bs q e n is acc = Ok ys \<Longrightarrow> (\<forall>x\<in>set acc. sym_name x \<noteq> []) \<Longrightarrow> (\<forall>x\<in>set ys. sym_name x \<noteq> [])"
proof (induction "is" arbitrary: acc)
  case (Cons i "is")
  from Cons.prems(1) consider "read_sections bs q e n is acc = Ok ys"
    | off so sz k acc' where "read_symtab bs off so sz k acc = Ok acc'" "read_sections bs q e n is acc' = Ok ys"
    unfolding read_sections.simps Let_def rbind_Ok_iff by (auto simp: rbind_Ok_iff split: if_splits)
  then show ?case
  proof cases
    case 1
    then show ?thesis using Cons by blast
  next
    case 2
    then show ?thesis using Cons.IH read_symtab_named Cons.prems(2) by blast
  qed
qed simp

text \<open>
  The segment a header describes, read straight off the file: its place in the segment table, whether it is loaded at all,
  and its fields.
\<close>

definition header_places :: "u8 list \<Rightarrow> nat list" where
  "header_places bs = map (\<lambda>i. unat (le32_at bs 28) + i * unat (le16_at bs 42)) [0..<unat (le16_at bs 44)]"

definition loadable :: "u8 list \<Rightarrow> nat \<Rightarrow> bool" where
  "loadable bs at \<longleftrightarrow> le32_at bs at = 1 \<and> le32_at bs (at + 20) \<noteq> 0"

definition segment_at :: "u8 list \<Rightarrow> nat \<Rightarrow> segment" where
  "segment_at bs at = \<lparr> seg_vaddr = le32_at bs (at + 8),
     seg_bytes = take (unat (le32_at bs (at + 16))) (drop (unat (le32_at bs (at + 4))) bs),
     seg_mem_len = le32_at bs (at + 20), seg_executable = bit (le32_at bs (at + 24)) 0 \<rparr>"

lemma and_one_bit: "(w AND PF_X \<noteq> 0) = bit (w :: u32) 0"
  by (simp add: PF_X_def and_one_eq odd_iff_mod_2_eq_one bit_0)

lemma read_segment_at: "read_segment bs at = Ok x \<Longrightarrow> x = (if loadable bs at then Some (segment_at bs at) else None)"
  unfolding read_segment_def rd_u32_cases and_one_bit
  by (auto simp: loadable_def segment_at_def PT_LOAD_def split: if_splits)

lemma read_segments_at:
  "read_segments bs q e is acc = Ok ss \<Longrightarrow> ss = acc @ map (segment_at bs) (filter (loadable bs) (map (\<lambda>i. q + i * e) is))"
proof (induction bs q e "is" acc rule: read_segments.induct)
  case (2 bs q e i "is" acc)
  then obtain x where x: "read_segment bs (q + i * e) = Ok x" by (auto simp: rbind_Ok_iff)
  show ?case using 2 x read_segment_at [OF x] by (cases "loadable bs (q + i * e)") simp_all
qed simp

lemma parse_elf_OkD:
  assumes "parse_elf bs = Ok img"
  obtains segs where "read_segments bs (unat (le32_at bs 28)) (unat (le16_at bs 42)) [0..<unat (le16_at bs 44)] [] = Ok segs"
    "segs \<noteq> []" "img_segments img = sort_key seg_vaddr segs" "img_entry img = le32_at bs 24"
    "(\<exists>so se n. read_symbols bs so se n = Ok (img_symbols img)) \<or> img_symbols img = []"
proof -
  have l: "\<not> length bs < 52" using assms by (auto simp: parse_elf_def EHDR_SIZE_def split: if_splits)
  then show ?thesis
    using assms that unfolding parse_elf_def by (auto simp: rbind_Ok_iff rd_u32_cases rd_u16_cases split: if_split_asm) blast
qed

lemma parse_elf_segments:
  assumes "parse_elf bs = Ok img"
  shows "img_segments img \<noteq> []" "sorted (map seg_vaddr (img_segments img))" "list_all (segment_of bs) (img_segments img)"
proof -
  obtain segs q e "is" where s: "read_segments bs q e is [] = Ok segs" "segs \<noteq> []" "img_segments img = sort_key seg_vaddr segs"
    using parse_elf_OkD [OF assms] by metis
  show "img_segments img \<noteq> []" using s(2,3) by (metis set_empty set_sort)
  show "sorted (map seg_vaddr (img_segments img))" using s(3) by simp
  show "list_all (segment_of bs) (img_segments img)"
    using read_segments_of [OF s(1)] s(3) by (simp add: list_all_iff)
qed

lemma parse_elf_headers:
  assumes "parse_elf bs = Ok img"
  shows "img_entry img = le32_at bs 24 \<and> img_segments img = sort_key seg_vaddr (map (segment_at bs) (filter (loadable bs) (header_places bs)))"
proof -
  obtain segs where "read_segments bs (unat (le32_at bs 28)) (unat (le16_at bs 42)) [0..<unat (le16_at bs 44)] [] = Ok segs"
      "img_segments img = sort_key seg_vaddr segs" "img_entry img = le32_at bs 24"
    using parse_elf_OkD [OF assms] by metis
  then show ?thesis using read_segments_at by (fastforce simp: header_places_def)
qed

lemma parse_elf_symbols:
  assumes "parse_elf bs = Ok img"
  shows "sorted (map symbol_key (img_symbols img))" "x \<in> set (img_symbols img) \<Longrightarrow> sym_name x \<noteq> []"
proof -
  consider so se n where "read_symbols bs so se n = Ok (img_symbols img)" | "img_symbols img = []"
    using parse_elf_OkD [OF assms] by metis
  then have "sorted (map symbol_key (img_symbols img)) \<and> (\<forall>x\<in>set (img_symbols img). sym_name x \<noteq> [])"
  proof cases
    case 1
    then obtain ys where "read_sections bs so se n [0..<n] [] = Ok ys" "img_symbols img = sort_key symbol_key ys"
      by (auto simp: read_symbols_def rbind_Ok_iff)
    then show ?thesis using read_sections_named [of bs so se n "[0..<n]" "[]" ys] by simp
  qed simp
  then show "sorted (map symbol_key (img_symbols img))" "x \<in> set (img_symbols img) \<Longrightarrow> sym_name x \<noteq> []" by blast+
qed

text \<open>
  C25: Parsing a file never panics, whatever its bytes: every index and every slice the parser takes is inside the
  file.  When it succeeds the entry point is the header's, the segments are exactly those of the loadable headers of the
  segment table in address order, there is at least one, every segment's bytes are a slice of the file that is no longer
  than the segment's memory, no segment's memory is empty or runs past the address space, and the symbols are all named
  and in order of address and then of name.
\<close>

theorem parse_elf_sound:
  "parse_elf bs \<noteq> Panic \<and>
   (\<forall>img. parse_elf bs = Ok img \<longrightarrow>
      img_entry img = le32_at bs 24 \<and>
      img_segments img = sort_key seg_vaddr (map (segment_at bs) (filter (loadable bs) (header_places bs))) \<and>
      img_segments img \<noteq> [] \<and> sorted (map seg_vaddr (img_segments img)) \<and>
      list_all (segment_of bs) (img_segments img) \<and>
      sorted (map symbol_key (img_symbols img)) \<and> (\<forall>x\<in>set (img_symbols img). sym_name x \<noteq> []))"
  using parse_elf_no_panic parse_elf_headers parse_elf_segments parse_elf_symbols by blast

text \<open>A file of one segment: four bytes of code at the base of RAM, with four zero bytes after them.\<close>

definition elf_small :: "u8 list" where
  "elf_small =
    [0x7F, 0x45, 0x4C, 0x46, 1, 1, 1, 0, 0, 0, 0, 0, 0, 0, 0, 0, 2, 0, 243, 0, 1, 0, 0, 0,
     0, 0, 0, 0x80, 52, 0, 0, 0, 0, 0, 0, 0, 0, 0, 0, 0, 52, 0, 32, 0, 1, 0, 40, 0, 0, 0, 0, 0,
     1, 0, 0, 0, 84, 0, 0, 0, 0, 0, 0, 0x80, 0, 0, 0, 0x80, 4, 0, 0, 0, 8, 0, 0, 0, 5, 0, 0, 0, 4, 0, 0, 0,
     0x13, 0, 0, 0]"

lemma parse_elf_small:
  "parse_elf elf_small = Ok \<lparr> img_entry = 0x80000000,
     img_segments = [\<lparr> seg_vaddr = 0x80000000, seg_bytes = [0x13, 0, 0, 0], seg_mem_len = 8, seg_executable = True \<rparr>],
     img_symbols = [] \<rparr>"
  by (simp add: parse_elf_def elf_small_def elf_constants rd_u16_def rd_u32_def rd_slice_def slice_get_def
      read_segment_def Let_def)

theorem parse_elf_sound_witness:
  "\<exists>img. parse_elf elf_small = Ok img \<and> list_all (segment_of elf_small) (img_segments img)"
  using parse_elf_sound [of elf_small] parse_elf_small by blast

section \<open>Questions about an image\<close>

lemma find_rev_Some:
  "List.find P (rev xs) = Some x \<longleftrightarrow> (\<exists>i<length xs. xs ! i = x \<and> P x \<and> (\<forall>j<length xs. i < j \<longrightarrow> \<not> P (xs ! j)))"
    (is "?l \<longleftrightarrow> ?r")
proof
  assume ?l
  then obtain i where i: "i < length xs" "x = rev xs ! i" "P x" "\<forall>j<i. \<not> P (rev xs ! j)"
    by (auto simp: find_Some_iff)
  have "\<not> P (xs ! j)" if "j < length xs" "length xs - Suc i < j" for j
  proof -
    have "rev xs ! (length xs - Suc j) = xs ! j" using that(1) by (simp add: rev_nth)
    then show ?thesis using i(4) that i(1) by (metis Suc_diff_Suc diff_less_mono2 diff_diff_cancel less_imp_le_nat Suc_leI less_Suc_eq_le not_less)
  qed
  then show ?r using i(1-3) by (intro exI [of _ "length xs - Suc i"]) (auto simp: rev_nth)
next
  assume ?r
  then obtain i where i: "i < length xs" "xs ! i = x" "P x" "\<forall>j<length xs. i < j \<longrightarrow> \<not> P (xs ! j)" by blast
  have "\<forall>j<length xs - Suc i. \<not> P (rev xs ! j)" using i(1,4) by (auto simp: rev_nth)
  moreover have "rev xs ! (length xs - Suc i) = x" using i(1,2) by (simp add: rev_nth)
  ultimately show ?l using i(1,3) by (auto simp: find_Some_iff intro!: exI [of _ "length xs - Suc i"])
qed

lemma partition_point_sorted:
  assumes "sorted (map f xs)" "i < length xs"
  shows "i < partition_point (\<lambda>x. f x \<le> a) xs \<longleftrightarrow> f (xs ! i) \<le> (a :: 'a::linorder)"
  using assms
proof (induction xs arbitrary: i)
  case (Cons x xs)
  show ?case
  proof (cases "f x \<le> a")
    case True
    then show ?thesis using Cons by (cases i) (auto simp: partition_point_def)
  next
    case False
    have "f x \<le> f ((x # xs) ! i)" using Cons.prems by (cases i) auto
    then show ?thesis using False by (auto simp: partition_point_def)
  qed
qed simp

text \<open>
  Looking up the function at an address names the last function symbol at or before the address,
  and only when the address lies inside that function's body: an address in a gap, or past the end of
  the nearest function, has no answer even when an earlier function would have reached it.
\<close>

theorem function_containing_correct:
  assumes "sorted (map sym_addr syms)"
  shows "function_containing syms a = Some s \<longleftrightarrow>
    (\<exists>i<length syms. syms ! i = s \<and> sym_kind s = Function \<and> sym_addr s \<le> a \<and>
       unat a < unat (sym_addr s) + unat (sym_size s) \<and>
       (\<forall>j<length syms. i < j \<and> sym_kind (syms ! j) = Function \<longrightarrow> a < sym_addr (syms ! j)))"
proof -
  let ?n = "partition_point (\<lambda>s. sym_addr s \<le> a) syms"
  note pp = partition_point_sorted [OF assms, of _ a]
  have le: "?n \<le> length syms" by (simp add: partition_point_def length_takeWhile_le)
  have sub: "a - sym_addr s < sym_size s \<longleftrightarrow> unat a < unat (sym_addr s) + unat (sym_size s)" if "sym_addr s \<le> a"
    using that by (simp add: word_less_nat_alt unat_sub word_le_nat_alt less_diff_conv2 add.commute)
  have "function_containing syms a = Some s \<longleftrightarrow>
      List.find (\<lambda>s. sym_kind s = Function) (rev (take ?n syms)) = Some s \<and> a - sym_addr s < sym_size s"
    by (auto simp: function_containing_def Let_def split: option.splits)
  also have "\<dots> \<longleftrightarrow> (\<exists>i<?n. syms ! i = s \<and> sym_kind s = Function \<and>
      (\<forall>j<?n. i < j \<longrightarrow> sym_kind (syms ! j) \<noteq> Function)) \<and> a - sym_addr s < sym_size s"
    using le by (auto simp: find_rev_Some min_def)
  also have "\<dots> \<longleftrightarrow> (\<exists>i<length syms. syms ! i = s \<and> sym_kind s = Function \<and> sym_addr s \<le> a \<and>
       unat a < unat (sym_addr s) + unat (sym_size s) \<and>
       (\<forall>j<length syms. i < j \<and> sym_kind (syms ! j) = Function \<longrightarrow> a < sym_addr (syms ! j)))"
    (is "?l \<longleftrightarrow> ?r")
  proof
    assume ?l
    then obtain i where i: "i < ?n" "syms ! i = s" "sym_kind s = Function" "a - sym_addr s < sym_size s"
        "\<forall>j<?n. i < j \<longrightarrow> sym_kind (syms ! j) \<noteq> Function" by blast
    then have "i < length syms" "sym_addr s \<le> a" using le pp [of i] by auto
    moreover have "\<forall>j<length syms. i < j \<and> sym_kind (syms ! j) = Function \<longrightarrow> a < sym_addr (syms ! j)"
      using i(5) pp by (meson not_le)
    ultimately show ?r using i sub by blast
  next
    assume ?r
    then obtain i where i: "i < length syms" "syms ! i = s" "sym_kind s = Function" "sym_addr s \<le> a"
       "unat a < unat (sym_addr s) + unat (sym_size s)"
       "\<forall>j<length syms. i < j \<and> sym_kind (syms ! j) = Function \<longrightarrow> a < sym_addr (syms ! j)" by blast
    then have "i < ?n" using pp by auto
    moreover have "\<forall>j<?n. i < j \<longrightarrow> sym_kind (syms ! j) \<noteq> Function"
      using i(6) pp le by (meson leD less_le_trans)
    ultimately show ?l using i sub by blast
  qed
  finally show ?thesis .
qed

theorem function_containing_correct_witness:
  "function_containing
     [\<lparr> sym_addr = 16, sym_size = 8, sym_name = [0x66], sym_kind = Function \<rparr>,
      \<lparr> sym_addr = 20, sym_size = 4, sym_name = [0x67], sym_kind = Object \<rparr>] 21 =
   Some \<lparr> sym_addr = 16, sym_size = 8, sym_name = [0x66], sym_kind = Function \<rparr>"
  by (subst function_containing_correct) (auto simp: less_Suc_eq intro: exI [of _ 0])

definition seg_end :: "segment \<Rightarrow> u32" where
  "seg_end s = saturating_add32 (seg_vaddr s) (seg_mem_len s)"

lemma text_bounds_fold:
  "text_bounds ss (Some (lo, hi)) = Some (fold min (map seg_vaddr ss) lo, fold max (map seg_end ss) hi)"
  by (induction ss arbitrary: lo hi) (simp_all add: Let_def seg_end_def min.commute max.commute)

lemma fold_min_le: "fold min xs (lo :: 'a::linorder) \<le> lo \<and> (\<forall>x\<in>set xs. fold min xs lo \<le> x)"
  by (induction xs arbitrary: lo) (auto, (meson min.boundedE)+)

lemma fold_max_ge: "hi \<le> fold max xs (hi :: 'a::linorder) \<and> (\<forall>x\<in>set xs. x \<le> fold max xs hi)"
  by (induction xs arbitrary: hi) (auto, (meson max.boundedE)+)

lemma text_bounds_cover:
  assumes "s \<in> set ss"
  shows "\<exists>lo hi. text_bounds ss None = Some (lo, hi) \<and> lo \<le> seg_vaddr s \<and> seg_end s \<le> hi"
proof (cases ss)
  case (Cons x xs)
  then have "text_bounds ss None = Some (fold min (map seg_vaddr xs) (seg_vaddr x), fold max (map seg_end xs) (seg_end x))"
    by (simp add: Let_def text_bounds_fold flip: seg_end_def)
  moreover have "fold min (map seg_vaddr xs) (seg_vaddr x) \<le> seg_vaddr s"
    using fold_min_le [of "map seg_vaddr xs" "seg_vaddr x"] assms Cons by auto
  moreover have "seg_end s \<le> fold max (map seg_end xs) (seg_end x)"
    using fold_max_ge [of "seg_end x" "map seg_end xs"] assms Cons by auto
  ultimately show ?thesis by blast
qed (use assms in simp)

text \<open>
  The text region derived from a parsed file protects every executable byte.  Each executable
  segment of a file that parses lies inside the region, from its first address to its last, so no store
  to one of its bytes can pass the self-modification check.
\<close>

theorem image_text_region_covers:
  assumes "parse_elf bs = Ok img" "s \<in> set (img_segments img)" "seg_executable s"
  shows "\<exists>lo hi. image_text_region img = Some (lo, hi) \<and> unat lo \<le> unat (seg_vaddr s) \<and>
    unat (seg_vaddr s) + unat (seg_mem_len s) \<le> unat hi"
proof -
  have sg: "unat (seg_vaddr s) + unat (seg_mem_len s) < 2 ^ 32" "0 < unat (seg_mem_len s)"
    using parse_elf_segments(3) [OF assms(1)] assms(2)
    by (auto simp: list_all_iff segment_of_def word_less_nat_alt)
  then have e: "unat (seg_end s) = unat (seg_vaddr s) + unat (seg_mem_len s)"
    by (simp add: seg_end_def saturating_add32_def unat_add_lem [symmetric])
  obtain lo hi where b: "text_bounds (filter seg_executable (img_segments img)) None = Some (lo, hi)"
      "lo \<le> seg_vaddr s" "seg_end s \<le> hi"
    using text_bounds_cover [of s "filter seg_executable (img_segments img)"] assms(2,3) by auto
  have le: "unat lo \<le> unat (seg_vaddr s)" "unat (seg_vaddr s) + unat (seg_mem_len s) \<le> unat hi"
    using b(2,3) e by (simp_all add: word_le_nat_alt)
  then have "lo < hi" using sg(2) by (simp add: word_less_nat_alt)
  then show ?thesis using b(1) le by (simp add: image_text_region_def)
qed

theorem image_text_region_covers_witness:
  "\<exists>img. parse_elf elf_small = Ok img \<and> image_text_region img = Some (0x80000000, 0x80000008)"
proof -
  obtain lo hi where r: "image_text_region \<lparr> img_entry = 0x80000000,
     img_segments = [\<lparr> seg_vaddr = 0x80000000, seg_bytes = [0x13, 0, 0, 0], seg_mem_len = 8, seg_executable = True \<rparr>],
     img_symbols = [] \<rparr> = Some (lo, hi)" and "unat lo \<le> 0x80000000" "0x80000008 \<le> unat hi"
    using image_text_region_covers [OF parse_elf_small] by fastforce
  moreover have "lo = 0x80000000 \<and> hi = 0x80000008"
    using r by (simp add: image_text_region_def saturating_add32_def Let_def)
  ultimately show ?thesis using parse_elf_small by blast
qed

end
