(* ===== verification/Predecode.thy ===== *)
theory Predecode
  imports Decode Memory_View
begin

text \<open>
  The decode cache, \<open>refemu/src/predecode.rs\<close>: the instructions of the read-only region decoded once,
  in front of the fetch path.  What the cache owes is stated over the whole machine in \<open>Exec\<close>; here is
  what it owes about one fetch.
\<close>

record entry =
  e_insn :: instruction
  e_word :: u32

record decode_cache =
  cache_base :: u32
  cache_entries :: "entry list"

text \<open>The loop body of \<open>build\<close>: four indexed bytes, each of which panics out of range.\<close>

definition entry_at :: "u8 list \<Rightarrow> nat \<Rightarrow> entry option" where
  "entry_at r at =
     (if at + 3 < length r
      then let word = from_le_bytes [r ! at, r ! (at + 1), r ! (at + 2), r ! (at + 3)] in
           Some \<lparr> e_insn = decode word, e_word = word \<rparr>
      else None)"

fun build_entries :: "u8 list \<Rightarrow> nat \<Rightarrow> nat list \<Rightarrow> entry list option" where
  "build_entries r at0 [] = Some []"
| "build_entries r at0 (i # is) =
     (case entry_at r (at0 + i * 4) of None \<Rightarrow> None
      | Some e \<Rightarrow> map_option (Cons e) (build_entries r at0 is))"

definition cache_build :: "memory \<Rightarrow> u32 \<Rightarrow> u32 \<Rightarrow> (decode_cache option, unit) rresult" where
  "cache_build m start end =
     (if end \<le> start \<or> start mod 4 \<noteq> 0 \<or> end mod 4 \<noteq> 0 then Ok None
      else if unat start < unat (ram_base (mem_map m)) \<or>
              unat (ram_base (mem_map m)) + unat (ram_size (mem_map m)) < unat end then Ok None
      else (case build_entries (ram m) (unat (start - ram_base (mem_map m))) [0..<unat ((end - start) div 4)] of
              None \<Rightarrow> Panic
            | Some es \<Rightarrow> Ok (Some \<lparr> cache_base = start, cache_entries = es \<rparr>)))"

definition cache_get :: "decode_cache \<Rightarrow> u32 \<Rightarrow> entry option" where
  "cache_get c pc =
     (let delta = pc - cache_base c in
      if delta mod 4 \<noteq> 0 then None
      else let i = unat (delta div 4) in
        if i < length (cache_entries c) then Some (cache_entries c ! i) else None)"

section \<open>What a hit returns\<close>

lemma build_entries_nth:
  assumes "\<forall>i\<in>set is. at0 + i * 4 + 3 < length r"
  shows "\<exists>es. build_entries r at0 is = Some es \<and> length es = length is \<and>
    (\<forall>k<length is. Some (es ! k) = entry_at r (at0 + (is ! k) * 4))"
  using assms
proof (induction "is")
  case (Cons i "is")
  then obtain es where es: "build_entries r at0 is = Some es" "length es = length is"
    "\<forall>k<length is. Some (es ! k) = entry_at r (at0 + (is ! k) * 4)" by auto
  obtain e where e: "entry_at r (at0 + i * 4) = Some e" using Cons.prems by (simp add: entry_at_def Let_def)
  show ?case using es e by (auto simp: nth_Cons split: nat.split)
qed simp

text \<open>A cache agrees with a memory when every hit is the word memory holds there, decoded.\<close>

definition cache_agrees :: "memory \<Rightarrow> decode_cache \<Rightarrow> bool" where
  "cache_agrees m c \<longleftrightarrow> (\<forall>pc e. cache_get c pc = Some e \<longrightarrow> pc mod 4 = 0 \<and> e_insn e = decode (e_word e) \<and>
     (\<exists>off. classify (mem_map m) pc 4 = Some (Ram, off) \<and>
        e_word e = from_le_bytes (take 4 (drop (unat off) (ram m)))))"

lemma mod_4_unat: "(a :: u32) mod 4 = 0 \<longleftrightarrow> unat a mod 4 = 0"
  by (simp add: unat_mod word_unat_eq_iff)

lemma cache_get_range:
  assumes g: "cache_get c pc = Some e" and b: "cache_base c mod 4 = 0"
    and s: "unat (cache_base c) + 4 * length (cache_entries c) \<le> 2 ^ 32"
  obtains i where "i < length (cache_entries c)" "e = cache_entries c ! i" "unat pc = unat (cache_base c) + 4 * i"
proof -
  let ?d = "pc - cache_base c"
  let ?i = "unat (?d div 4)"
  have h: "?d mod 4 = 0" "?i < length (cache_entries c)" "e = cache_entries c ! ?i"
    using g by (auto simp: cache_get_def Let_def split: if_splits)
  have d: "unat ?d = 4 * ?i" using h(1) by (simp add: mod_4_unat unat_div) presburger
  have "unat (cache_base c) + unat ?d < 2 ^ 32" using s h(2) d by linarith
  then have "unat pc = unat (cache_base c) + unat ?d" using unat_add_lem [of "cache_base c" ?d] by simp
  then have "unat pc = unat (cache_base c) + 4 * ?i" using d by simp
  then show ?thesis using that h(2,3) by blast
qed

lemma classify_Ram:
  "unat (ram_base m) \<le> unat a \<Longrightarrow> unat a + unat w \<le> unat (ram_base m) + unat (ram_size m) \<Longrightarrow>
     classify m a w = Some (Ram, a - ram_base m)"
  by (simp add: classify_def)

lemma cache_build_agrees:
  assumes "mem_wf m"
  shows "\<exists>r. cache_build m start end = Ok r \<and> (case r of None \<Rightarrow> True
    | Some c \<Rightarrow> cache_agrees m c \<and> cache_base c = start \<and> length (cache_entries c) = unat (end - start) div 4 \<and>
        start < end \<and> start mod 4 = 0 \<and> end mod 4 = 0)"
proof (cases "cache_build m start end = Ok None")
  case False
  let ?base = "ram_base (mem_map m)" and ?is = "[0..<unat ((end - start) div 4)]"
  have g: "start < end" "start mod 4 = 0" "end mod 4 = 0" "unat ?base \<le> unat start"
      "unat end \<le> unat ?base + unat (ram_size (mem_map m))"
    using False by (auto simp: cache_build_def not_le split: if_splits)
  have n: "unat ((end - start) div 4) = (unat end - unat start) div 4"
    using g(1) by (simp add: unat_div unat_sub less_imp_le)
  have a0: "unat (start - ?base) = unat start - unat ?base" using g(4) by (simp add: unat_sub word_le_nat_alt)
  have len: "length (ram m) = unat (ram_size (mem_map m))" using assms by (simp add: mem_wf_def)
  have in_range: "unat start - unat ?base + i * 4 + 3 < length (ram m)" if "i < (unat end - unat start) div 4" for i
    using that g(1,4,5) len by (simp add: word_less_nat_alt)
  obtain es where es: "build_entries (ram m) (unat (start - ?base)) ?is = Some es" "length es = length ?is"
      "\<forall>k<length ?is. Some (es ! k) = entry_at (ram m) (unat (start - ?base) + (?is ! k) * 4)"
    using build_entries_nth [of ?is "unat (start - ?base)" "ram m"] in_range by (auto simp: n a0)
  let ?c = "\<lparr> cache_base = start, cache_entries = es \<rparr>"
  have build: "cache_build m start end = Ok (Some ?c)"
    using g es(1) by (auto simp: cache_build_def not_le not_less)
  have sz: "unat start + 4 * length es \<le> unat end" using es(2) g(1) by (simp add: n word_less_nat_alt)
  have "cache_agrees m ?c" unfolding cache_agrees_def
  proof (intro allI impI)
    fix pc e assume ge: "cache_get ?c pc = Some e"
    have rg: "unat (cache_base ?c) + 4 * length (cache_entries ?c) \<le> 2 ^ 32"
      using sz unsigned_less [of "end", where ?'a = nat] by simp
    obtain i where i: "i < length es" "e = es ! i" "unat pc = unat start + 4 * i"
      using cache_get_range [OF ge _ rg] g(2) by auto
    have al: "pc mod 4 = 0" using g(2) i(3) unfolding mod_4_unat by presburger
    have "classify (mem_map m) pc 4 = Some (Ram, pc - ?base)"
      using i g(4,5) sz by (intro classify_Ram) simp_all
    moreover have off: "unat (pc - ?base) = unat start - unat ?base + i * 4"
      using i(3) g(4) by (simp add: unat_sub word_le_nat_alt)
    moreover have ir: "unat start - unat ?base + i * 4 + 3 < length (ram m)" using in_range i(1) es(2) n by simp
    moreover have "Some e = entry_at (ram m) (unat start - unat ?base + i * 4)"
      using es(2,3) i(1,2) a0 by simp
    ultimately show "pc mod 4 = 0 \<and> e_insn e = decode (e_word e) \<and>
       (\<exists>off. classify (mem_map m) pc 4 = Some (Ram, off) \<and> e_word e = from_le_bytes (take 4 (drop (unat off) (ram m))))"
      using al slice_4 [of "unat start - unat ?base + i * 4" "ram m"]
      by (simp add: entry_at_def Let_def del: from_le_bytes.simps)
  qed
  then show ?thesis using build g es(2) by (simp add: unat_div)
qed simp

lemma cache_hit_is_fetch:
  assumes "cache_agrees m c" "mem_wf m" "cache_get c pc = Some e"
  shows "mem_read m pc 4 ic = (Ok (e_word e), m)" "e_insn e = decode (e_word e)"
proof -
  obtain off where h: "pc mod 4 = 0" "e_insn e = decode (e_word e)" "classify (mem_map m) pc 4 = Some (Ram, off)"
      "e_word e = from_le_bytes (take 4 (drop (unat off) (ram m)))"
    using assms(1,3) by (auto simp: cache_agrees_def)
  have "check_align pc 4 = Ok ()" using h(1) by (simp add: check_align_def)
  then show "mem_read m pc 4 ic = (Ok (e_word e), m)"
    using mem_read_region [OF assms(2) _ _ h(3), of ic] h(4) by (simp add: access_width_def)
  show "e_insn e = decode (e_word e)" by (rule h(2))
qed

lemma cache_agrees_cong:
  "cache_agrees m c \<Longrightarrow> mem_map m' = mem_map m \<Longrightarrow> ram m' = ram m \<Longrightarrow> cache_agrees m' c"
  by (simp add: cache_agrees_def)

end
