(* ===== verification/Exec.thy ===== *)
theory Exec
  imports Predecode Image "HOL-Library.Signed_Division"
begin

text \<open>
  The machine, \<open>refemu/src/exec.rs\<close>: a register file, a program counter, a count of retired
  instructions and memory, and one instruction at a time.  Every operation returns its outcome beside
  the machine after it, so what a halt leaves behind is part of the model.
\<close>

section \<open>Halts\<close>

record halt =
  h_reason :: halt_reason
  h_pc :: u32
  h_insn :: "u32 option"
  h_addr :: "u32 option"
  h_exit_code :: "u32 option"

definition halt_new :: "halt_reason \<Rightarrow> u32 \<Rightarrow> halt" where
  "halt_new r pc = \<lparr> h_reason = r, h_pc = pc, h_insn = None, h_addr = None, h_exit_code = None \<rparr>"

definition halt_with_insn :: "halt_reason \<Rightarrow> u32 \<Rightarrow> u32 \<Rightarrow> halt" where
  "halt_with_insn r pc insn = (halt_new r pc)\<lparr>h_insn := Some insn\<rparr>"

definition halt_at :: "halt_reason \<Rightarrow> u32 \<Rightarrow> u32 \<Rightarrow> u32 \<Rightarrow> halt" where
  "halt_at r pc insn addr = (halt_new r pc)\<lparr>h_insn := Some insn, h_addr := Some addr\<rparr>"

definition halt_on_fetch :: "halt_reason \<Rightarrow> u32 \<Rightarrow> u32 \<Rightarrow> halt" where
  "halt_on_fetch r pc addr = (halt_new r pc)\<lparr>h_addr := Some addr\<rparr>"

definition halt_exit :: "u32 \<Rightarrow> u32 \<Rightarrow> u32 \<Rightarrow> halt" where
  "halt_exit pc insn code = (halt_new halt_reason.Exit pc)\<lparr>h_insn := Some insn, h_exit_code := Some code\<rparr>"

lemmas halts = halt_new_def halt_with_insn_def halt_at_def halt_on_fetch_def halt_exit_def

fun fetch_halt :: "u32 \<Rightarrow> mem_fault \<Rightarrow> halt" where
  "fetch_halt pc (mem_fault.BadAddr addr) = halt_on_fetch halt_reason.BadAddr pc addr"
| "fetch_halt pc (mem_fault.Misaligned addr w) = halt_on_fetch halt_reason.Misaligned pc addr"
| "fetch_halt pc (mem_fault.SelfModify addr) = halt_on_fetch halt_reason.SelfModify pc addr"
| "fetch_halt pc (mem_fault.Exit code) = (halt_new halt_reason.Exit pc)\<lparr>h_exit_code := Some code\<rparr>"

fun access_halt :: "u32 \<Rightarrow> u32 \<Rightarrow> mem_fault \<Rightarrow> halt" where
  "access_halt pc word (mem_fault.BadAddr addr) = halt_at halt_reason.BadAddr pc word addr"
| "access_halt pc word (mem_fault.Misaligned addr w) = halt_at halt_reason.Misaligned pc word addr"
| "access_halt pc word (mem_fault.SelfModify addr) = halt_at halt_reason.SelfModify pc word addr"
| "access_halt pc word (mem_fault.Exit code) = halt_exit pc word code"

section \<open>The machine\<close>

record cpu =
  cpu_memory :: memory
  cpu_pc :: u32
  cpu_regs :: "u32 list"
  cpu_icount :: u64
  cpu_cache :: "decode_cache option"

definition cpu_new :: "memory \<Rightarrow> u32 \<Rightarrow> cpu" where
  "cpu_new m entry = \<lparr> cpu_memory = m, cpu_pc = entry, cpu_regs = replicate 32 0, cpu_icount = 0, cpu_cache = None \<rparr>"

definition cpu_restore :: "cpu \<Rightarrow> u32 \<Rightarrow> u32 list \<Rightarrow> u64 \<Rightarrow> cpu" where
  "cpu_restore c pc regs icount = c\<lparr>cpu_pc := pc, cpu_regs := regs[0 := 0], cpu_icount := icount\<rparr>"

definition reg :: "cpu \<Rightarrow> u8 \<Rightarrow> u32 option" where
  "reg c i = (if unat i < length (cpu_regs c) then Some (cpu_regs c ! unat i) else None)"

definition set_reg :: "cpu \<Rightarrow> u8 \<Rightarrow> u32 \<Rightarrow> cpu option" where
  "set_reg c i v = (if unat i < length (cpu_regs c)
     then Some (c\<lparr>cpu_regs := (cpu_regs c)[unat i := v, 0 := 0]\<rparr>) else None)"

definition set_pc :: "cpu \<Rightarrow> u32 \<Rightarrow> cpu" where
  "set_pc c pc = c\<lparr>cpu_pc := pc\<rparr>"

definition cpu_clickdoom :: "u32 \<Rightarrow> cpu option" where
  "cpu_clickdoom ms = map_option (\<lambda>d. cpu_new (memory_new map_clickdoom d) RAM_BASE) (devices_registers ms)"

definition cpu_inert :: cpu where
  "cpu_inert = cpu_new (memory_new map_clickdoom (devices_bytes (mmio_size map_clickdoom))) RAM_BASE"

definition cpu_load_image :: "cpu \<Rightarrow> u8 list \<Rightarrow> u32 \<Rightarrow> (unit, load_error) rresult \<times> cpu" where
  "cpu_load_image c dat load_addr =
     (case mem_load_image (cpu_memory c) dat load_addr of
        (r, m) \<Rightarrow> (r, c\<lparr>cpu_cache := None, cpu_memory := m\<rparr>))"

text \<open>
  The loop of \<open>load\<close>.  A segment with more file than memory makes \<open>mem_len as usize - bytes.len()\<close> wrap
  to a length no allocation accepts, so it panics.
\<close>

fun load_segments :: "memory \<Rightarrow> segment list \<Rightarrow> (unit, load_error) rresult \<times> memory" where
  "load_segments m [] = (Ok (), m)"
| "load_segments m (s # ss) =
     (case mem_load_image m (seg_bytes s) (seg_vaddr s) of
        (Ok _, m1) \<Rightarrow>
          if unat (seg_mem_len s) < length (seg_bytes s) then (Panic, m1)
          else let tail = unat (seg_mem_len s) - length (seg_bytes s) in
            if 0 < tail
            then (case mem_load_image m1 (replicate tail 0) (seg_vaddr s + of_nat (length (seg_bytes s))) of
                    (Ok _, m2) \<Rightarrow> load_segments m2 ss
                  | (r, m2) \<Rightarrow> (r, m2))
            else load_segments m1 ss
      | (r, m1) \<Rightarrow> (r, m1))"

definition cpu_load :: "cpu \<Rightarrow> image \<Rightarrow> (unit, load_error) rresult \<times> cpu" where
  "cpu_load c img =
     (let c0 = c\<lparr>cpu_cache := None\<rparr> in
      case load_segments (cpu_memory c0) (img_segments img) of
        (Ok _, m) \<Rightarrow> (Ok (), c0\<lparr>cpu_memory := m, cpu_pc := img_entry img\<rparr>)
      | (r, m) \<Rightarrow> (r, c0\<lparr>cpu_memory := m\<rparr>))"

definition restore_memory :: "cpu \<Rightarrow> u8 list \<Rightarrow> u8 list \<Rightarrow> u8 list \<Rightarrow> cpu" where
  "restore_memory c r f p = c\<lparr>cpu_cache := None, cpu_memory := restore_regions (cpu_memory c) r f p\<rparr>"

definition cpu_set_text_region :: "cpu \<Rightarrow> (u32 \<times> u32) option \<Rightarrow> cpu" where
  "cpu_set_text_region c t = c\<lparr>cpu_cache := None, cpu_memory := mem_set_text_region (cpu_memory c) t\<rparr>"

definition enable_decode_cache :: "cpu \<Rightarrow> (bool, unit) rresult \<times> cpu" where
  "enable_decode_cache c =
     (case text_region (cpu_memory c) of
        None \<Rightarrow> (Ok False, c\<lparr>cpu_cache := None\<rparr>)
      | Some (start, end) \<Rightarrow>
          (case cache_build (cpu_memory c) start end of
             Ok cache \<Rightarrow> (Ok (cache \<noteq> None), c\<lparr>cpu_cache := cache\<rparr>)
           | Err e \<Rightarrow> (Err e, c)
           | Panic \<Rightarrow> (Panic, c)))"

section \<open>Executing one instruction\<close>

definition INT_MIN :: u32 where "INT_MIN = 0x80000000"
definition MINUS_ONE :: u32 where "MINUS_ONE = 0xFFFFFFFF"

definition sign_extend :: "u32 \<Rightarrow> u32 \<Rightarrow> u32" where
  "sign_extend v bits = signed_drop_bit (unat (32 - bits)) (push_bit (unat (32 - bits)) v)"

definition check_target :: "u32 \<Rightarrow> u32 \<Rightarrow> u32 \<Rightarrow> (unit, halt) rresult" where
  "check_target target pc word =
     (if target mod 4 \<noteq> 0 then Err (halt_at halt_reason.Misaligned pc word target) else Ok ())"

text \<open>The arms of the multiply extension.  \<open>sdiv\<close> and \<open>smod\<close> truncate towards zero, as \<open>/\<close> and \<open>%\<close> on \<open>i32\<close>.\<close>

definition mulh_val :: "u32 \<Rightarrow> u32 \<Rightarrow> u32" where
  "mulh_val a b = ucast (signed_drop_bit 32 (scast a * scast b :: i64))"

definition mulhsu_val :: "u32 \<Rightarrow> u32 \<Rightarrow> u32" where
  "mulhsu_val a b = ucast (signed_drop_bit 32 (scast a * ucast b :: i64))"

definition mulhu_val :: "u32 \<Rightarrow> u32 \<Rightarrow> u32" where
  "mulhu_val a b = ucast (drop_bit 32 (ucast a * ucast b :: u64))"

definition div_val :: "u32 \<Rightarrow> u32 \<Rightarrow> u32" where
  "div_val a b = (if b = 0 then 0xFFFFFFFF
     else if a = INT_MIN \<and> b = MINUS_ONE then INT_MIN
     else word_of_int (sint a sdiv sint b))"

definition divu_val :: "u32 \<Rightarrow> u32 \<Rightarrow> u32" where
  "divu_val a b = (if b = 0 then 0xFFFFFFFF else a div b)"

definition rem_val :: "u32 \<Rightarrow> u32 \<Rightarrow> u32" where
  "rem_val a b = (if b = 0 then a
     else if a = INT_MIN \<and> b = MINUS_ONE then 0
     else word_of_int (sint a smod sint b))"

definition remu_val :: "u32 \<Rightarrow> u32 \<Rightarrow> u32" where
  "remu_val a b = (if b = 0 then a else a mod b)"

text \<open>The common end of an arm that writes \<open>rd\<close> and falls through.\<close>

definition retire :: "cpu \<Rightarrow> u8 \<Rightarrow> u32 option \<Rightarrow> u32 \<Rightarrow> (u32, halt) rresult \<times> cpu" where
  "retire c rd v next =
     (case v of None \<Rightarrow> (Panic, c)
      | Some x \<Rightarrow> (case set_reg c rd x of None \<Rightarrow> (Panic, c) | Some c' \<Rightarrow> (Ok next, c')))"

fun on_both :: "(u32 \<Rightarrow> u32 \<Rightarrow> 'a) \<Rightarrow> u32 option \<Rightarrow> u32 option \<Rightarrow> 'a option" where
  "on_both f (Some a) (Some b) = Some (f a b)"
| "on_both f _ _ = None"

definition jump :: "cpu \<Rightarrow> u32 \<Rightarrow> u32 \<Rightarrow> u8 \<Rightarrow> u32 option \<Rightarrow> (u32, halt) rresult \<times> cpu" where
  "jump c pc word rd target =
     (case target of None \<Rightarrow> (Panic, c)
      | Some t \<Rightarrow> (case check_target t pc word of
            Ok _ \<Rightarrow> retire c rd (Some (pc + 4)) t
          | Err h \<Rightarrow> (Err h, c)
          | Panic \<Rightarrow> (Panic, c)))"

definition branch :: "cpu \<Rightarrow> u32 \<Rightarrow> u32 \<Rightarrow> bool option \<Rightarrow> i32 \<Rightarrow> (u32, halt) rresult \<times> cpu" where
  "branch c pc word taken imm =
     (case taken of None \<Rightarrow> (Panic, c)
      | Some tk \<Rightarrow>
          if \<not> tk then (Ok (pc + 4), c)
          else let target = pc + imm in
            (case check_target target pc word of
               Ok _ \<Rightarrow> (Ok target, c) | Err h \<Rightarrow> (Err h, c) | Panic \<Rightarrow> (Panic, c)))"

definition exec_load :: "cpu \<Rightarrow> u32 \<Rightarrow> u32 \<Rightarrow> u8 \<Rightarrow> u32 option \<Rightarrow> i32 \<Rightarrow> u32 \<Rightarrow> bool \<Rightarrow> (u32, halt) rresult \<times> cpu" where
  "exec_load c pc word rd r1 imm width sx =
     (case r1 of None \<Rightarrow> (Panic, c)
      | Some a \<Rightarrow>
          (case mem_read (cpu_memory c) (a + imm) width (cpu_icount c) of
             (Ok raw, m) \<Rightarrow>
               retire (c\<lparr>cpu_memory := m\<rparr>) rd (Some (if sx then sign_extend raw (width * 8) else raw)) (pc + 4)
           | (Err f, m) \<Rightarrow> (Err (access_halt pc word f), c\<lparr>cpu_memory := m\<rparr>)
           | (Panic, m) \<Rightarrow> (Panic, c\<lparr>cpu_memory := m\<rparr>)))"

definition exec_store :: "cpu \<Rightarrow> u32 \<Rightarrow> u32 \<Rightarrow> u32 option \<Rightarrow> u32 option \<Rightarrow> i32 \<Rightarrow> u32 \<Rightarrow> (u32, halt) rresult \<times> cpu" where
  "exec_store c pc word r1 r2 imm width =
     (case (r1, r2) of
        (Some a, Some v) \<Rightarrow>
          (case mem_write (cpu_memory c) (a + imm) width v (cpu_icount c) of
             (Ok _, m) \<Rightarrow> (Ok (pc + 4), c\<lparr>cpu_memory := m\<rparr>)
           | (Err f, m) \<Rightarrow> (Err (access_halt pc word f), c\<lparr>cpu_memory := m\<rparr>)
           | (Panic, m) \<Rightarrow> (Panic, c\<lparr>cpu_memory := m\<rparr>))
      | _ \<Rightarrow> (Panic, c))"

primrec exec_op :: "op \<Rightarrow> cpu \<Rightarrow> u32 \<Rightarrow> u32 \<Rightarrow> u8 \<Rightarrow> u32 option \<Rightarrow> u32 option \<Rightarrow> i32 \<Rightarrow> (u32, halt) rresult \<times> cpu" where
  "exec_op Lui c pc word rd r1 r2 imm = retire c rd (Some imm) (pc + 4)"
| "exec_op Auipc c pc word rd r1 r2 imm = retire c rd (Some (pc + imm)) (pc + 4)"
| "exec_op Jal c pc word rd r1 r2 imm = jump c pc word rd (Some (pc + imm))"
| "exec_op Jalr c pc word rd r1 r2 imm = jump c pc word rd (map_option (\<lambda>a. (a + imm) AND NOT 1) r1)"
| "exec_op Beq c pc word rd r1 r2 imm = branch c pc word (on_both (\<lambda>a b. a = b) r1 r2) imm"
| "exec_op Bne c pc word rd r1 r2 imm = branch c pc word (on_both (\<lambda>a b. a \<noteq> b) r1 r2) imm"
| "exec_op Blt c pc word rd r1 r2 imm = branch c pc word (on_both (\<lambda>a b. a <s b) r1 r2) imm"
| "exec_op Bge c pc word rd r1 r2 imm = branch c pc word (on_both (\<lambda>a b. b \<le>s a) r1 r2) imm"
| "exec_op Bltu c pc word rd r1 r2 imm = branch c pc word (on_both (\<lambda>a b. a < b) r1 r2) imm"
| "exec_op Bgeu c pc word rd r1 r2 imm = branch c pc word (on_both (\<lambda>a b. b \<le> a) r1 r2) imm"
| "exec_op Lb c pc word rd r1 r2 imm = exec_load c pc word rd r1 imm 1 True"
| "exec_op Lh c pc word rd r1 r2 imm = exec_load c pc word rd r1 imm 2 True"
| "exec_op Lw c pc word rd r1 r2 imm = exec_load c pc word rd r1 imm 4 True"
| "exec_op Lbu c pc word rd r1 r2 imm = exec_load c pc word rd r1 imm 1 False"
| "exec_op Lhu c pc word rd r1 r2 imm = exec_load c pc word rd r1 imm 2 False"
| "exec_op Sb c pc word rd r1 r2 imm = exec_store c pc word r1 r2 imm 1"
| "exec_op Sh c pc word rd r1 r2 imm = exec_store c pc word r1 r2 imm 2"
| "exec_op Sw c pc word rd r1 r2 imm = exec_store c pc word r1 r2 imm 4"
| "exec_op Addi c pc word rd r1 r2 imm = retire c rd (map_option (\<lambda>a. a + imm) r1) (pc + 4)"
| "exec_op Slti c pc word rd r1 r2 imm = retire c rd (map_option (\<lambda>a. of_bool (a <s imm)) r1) (pc + 4)"
| "exec_op Sltiu c pc word rd r1 r2 imm = retire c rd (map_option (\<lambda>a. of_bool (a < imm)) r1) (pc + 4)"
| "exec_op Xori c pc word rd r1 r2 imm = retire c rd (map_option (\<lambda>a. a XOR imm) r1) (pc + 4)"
| "exec_op Ori c pc word rd r1 r2 imm = retire c rd (map_option (\<lambda>a. a OR imm) r1) (pc + 4)"
| "exec_op Andi c pc word rd r1 r2 imm = retire c rd (map_option (\<lambda>a. a AND imm) r1) (pc + 4)"
| "exec_op Slli c pc word rd r1 r2 imm = retire c rd (map_option (\<lambda>a. push_bit (unat (imm AND 0x1F)) a) r1) (pc + 4)"
| "exec_op Srli c pc word rd r1 r2 imm = retire c rd (map_option (\<lambda>a. drop_bit (unat (imm AND 0x1F)) a) r1) (pc + 4)"
| "exec_op Srai c pc word rd r1 r2 imm = retire c rd (map_option (\<lambda>a. signed_drop_bit (unat (imm AND 0x1F)) a) r1) (pc + 4)"
| "exec_op Add c pc word rd r1 r2 imm = retire c rd (on_both (\<lambda>a b. a + b) r1 r2) (pc + 4)"
| "exec_op Sub c pc word rd r1 r2 imm = retire c rd (on_both (\<lambda>a b. a - b) r1 r2) (pc + 4)"
| "exec_op Sll c pc word rd r1 r2 imm = retire c rd (on_both (\<lambda>a b. push_bit (unat (b AND 0x1F)) a) r1 r2) (pc + 4)"
| "exec_op Slt c pc word rd r1 r2 imm = retire c rd (on_both (\<lambda>a b. of_bool (a <s b)) r1 r2) (pc + 4)"
| "exec_op Sltu c pc word rd r1 r2 imm = retire c rd (on_both (\<lambda>a b. of_bool (a < b)) r1 r2) (pc + 4)"
| "exec_op Xor c pc word rd r1 r2 imm = retire c rd (on_both (\<lambda>a b. a XOR b) r1 r2) (pc + 4)"
| "exec_op Srl c pc word rd r1 r2 imm = retire c rd (on_both (\<lambda>a b. drop_bit (unat (b AND 0x1F)) a) r1 r2) (pc + 4)"
| "exec_op Sra c pc word rd r1 r2 imm = retire c rd (on_both (\<lambda>a b. signed_drop_bit (unat (b AND 0x1F)) a) r1 r2) (pc + 4)"
| "exec_op Or c pc word rd r1 r2 imm = retire c rd (on_both (\<lambda>a b. a OR b) r1 r2) (pc + 4)"
| "exec_op And c pc word rd r1 r2 imm = retire c rd (on_both (\<lambda>a b. a AND b) r1 r2) (pc + 4)"
| "exec_op Mul c pc word rd r1 r2 imm = retire c rd (on_both (\<lambda>a b. a * b) r1 r2) (pc + 4)"
| "exec_op Mulh c pc word rd r1 r2 imm = retire c rd (on_both mulh_val r1 r2) (pc + 4)"
| "exec_op Mulhsu c pc word rd r1 r2 imm = retire c rd (on_both mulhsu_val r1 r2) (pc + 4)"
| "exec_op Mulhu c pc word rd r1 r2 imm = retire c rd (on_both mulhu_val r1 r2) (pc + 4)"
| "exec_op Div c pc word rd r1 r2 imm = retire c rd (on_both div_val r1 r2) (pc + 4)"
| "exec_op Divu c pc word rd r1 r2 imm = retire c rd (on_both divu_val r1 r2) (pc + 4)"
| "exec_op Rem c pc word rd r1 r2 imm = retire c rd (on_both rem_val r1 r2) (pc + 4)"
| "exec_op Remu c pc word rd r1 r2 imm = retire c rd (on_both remu_val r1 r2) (pc + 4)"
| "exec_op Fence c pc word rd r1 r2 imm = (Ok (pc + 4), c)"
| "exec_op op.Ecall c pc word rd r1 r2 imm = (Err (halt_with_insn halt_reason.Ecall pc word), c)"
| "exec_op op.Ebreak c pc word rd r1 r2 imm = (Err (halt_with_insn halt_reason.Ebreak pc word), c)"
| "exec_op op.Csr c pc word rd r1 r2 imm = (Err (halt_with_insn halt_reason.Csr pc word), c)"
| "exec_op Illegal c pc word rd r1 r2 imm = (Err (halt_with_insn halt_reason.IllegalInsn pc word), c)"

definition execute :: "cpu \<Rightarrow> u32 \<Rightarrow> u32 \<Rightarrow> instruction \<Rightarrow> (u32, halt) rresult \<times> cpu" where
  "execute c pc word insn =
     exec_op (i_op insn) c pc word (i_rd insn) (reg c (i_rs1 insn)) (reg c (i_rs2 insn)) (i_imm insn)"

section \<open>Stepping\<close>

text \<open>The fetch: a cached instruction when the cache covers the program counter, a read otherwise.\<close>

definition fetch :: "cpu \<Rightarrow> (u32 \<times> instruction, halt) rresult \<times> cpu" where
  "fetch c =
     (let pc = cpu_pc c in
      case Option.bind (cpu_cache c) (\<lambda>cache. cache_get cache pc) of
        Some e \<Rightarrow> (Ok (e_word e, e_insn e), c)
      | None \<Rightarrow>
          (case mem_read (cpu_memory c) pc 4 (cpu_icount c) of
             (Ok word, m) \<Rightarrow> (Ok (word, decode word), c\<lparr>cpu_memory := m\<rparr>)
           | (Err f, m) \<Rightarrow> (Err (fetch_halt pc f), c\<lparr>cpu_memory := m\<rparr>)
           | (Panic, m) \<Rightarrow> (Panic, c\<lparr>cpu_memory := m\<rparr>)))"

definition outside_text :: "cpu \<Rightarrow> bool" where
  "outside_text c \<longleftrightarrow> (case text_region (cpu_memory c) of None \<Rightarrow> False
     | Some (start, end) \<Rightarrow> \<not> (start \<le> cpu_pc c \<and> cpu_pc c < end))"

definition step_reporting :: "cpu \<Rightarrow> (u32 \<times> instruction, halt) rresult \<times> cpu" where
  "step_reporting c =
     (let pc = cpu_pc c in
      if outside_text c then (Err (halt_on_fetch halt_reason.BadAddr pc pc), c)
      else case fetch c of
        (Ok (word, insn), c1) \<Rightarrow>
          (case execute c1 pc word insn of
             (Ok next_pc, c2) \<Rightarrow> (Ok (word, insn), c2\<lparr>cpu_icount := cpu_icount c2 + 1, cpu_pc := next_pc\<rparr>)
           | (Err h, c2) \<Rightarrow> (Err h, c2)
           | (Panic, c2) \<Rightarrow> (Panic, c2))
      | (Err h, c1) \<Rightarrow> (Err h, c1)
      | (Panic, c1) \<Rightarrow> (Panic, c1))"

definition step :: "cpu \<Rightarrow> (unit, halt) rresult \<times> cpu" where
  "step c = (case step_reporting c of
     (Ok _, c') \<Rightarrow> (Ok (), c') | (Err h, c') \<Rightarrow> (Err h, c') | (Panic, c') \<Rightarrow> (Panic, c'))"

text \<open>The loop \<open>for _ in 0..max_steps\<close>: the halt when one comes, nothing when the bound is used up.\<close>

fun run_steps :: "nat \<Rightarrow> cpu \<Rightarrow> (halt option, unit) rresult \<times> cpu" where
  "run_steps 0 c = (Ok None, c)"
| "run_steps (Suc n) c = (case step c of
       (Ok _, c') \<Rightarrow> run_steps n c'
     | (Err h, c') \<Rightarrow> (Ok (Some h), c')
     | (Panic, c') \<Rightarrow> (Panic, c'))"

datatype did_not_halt = DidNotHalt u64

definition run_until_halt :: "cpu \<Rightarrow> u64 \<Rightarrow> (halt, did_not_halt) rresult \<times> cpu" where
  "run_until_halt c max_steps = (case run_steps (unat max_steps) c of
     (Ok (Some h), c') \<Rightarrow> (Ok h, c')
   | (Ok None, c') \<Rightarrow> (Err (DidNotHalt max_steps), c')
   | (Err e, c') \<Rightarrow> (Panic, c')
   | (Panic, c') \<Rightarrow> (Panic, c'))"

end
