(* ===== verification/Machine.thy ===== *)
theory Machine
  imports Exec
begin

text \<open>
  What the machine of \<open>exec.rs\<close> promises.  The arms of \<open>execute\<close> fall into seven shapes; each promise is
  proved once per shape, lifted to one step, and from there to whole runs by the locales over step
  invariants, step constants and step simulations, which are interpreted on the machine itself.
\<close>

section \<open>The shapes of an instruction\<close>

inductive shape :: "cpu \<Rightarrow> u32 \<Rightarrow> u32 \<Rightarrow> u8 \<Rightarrow> u32 option \<Rightarrow> u32 option \<Rightarrow> i32 \<Rightarrow> (u32, halt) rresult \<times> cpu \<Rightarrow> bool"
  for c pc word rd r1 r2 imm where
  alu: "(r1 \<noteq> None \<Longrightarrow> r2 \<noteq> None \<Longrightarrow> v \<noteq> None) \<Longrightarrow> shape c pc word rd r1 r2 imm (retire c rd v (pc + 4))"
| jmp: "(r1 \<noteq> None \<Longrightarrow> t \<noteq> None) \<Longrightarrow> shape c pc word rd r1 r2 imm (jump c pc word rd t)"
| br: "(r1 \<noteq> None \<Longrightarrow> r2 \<noteq> None \<Longrightarrow> b \<noteq> None) \<Longrightarrow> shape c pc word rd r1 r2 imm (branch c pc word b imm)"
| ld: "access_width w \<Longrightarrow> shape c pc word rd r1 r2 imm (exec_load c pc word rd r1 imm w sx)"
| st: "access_width w \<Longrightarrow> shape c pc word rd r1 r2 imm (exec_store c pc word r1 r2 imm w)"
| nop: "shape c pc word rd r1 r2 imm (Ok (pc + 4), c)"
| stop: "shape c pc word rd r1 r2 imm (Err (halt_with_insn r pc word), c)"

lemma on_both_Some: "r1 \<noteq> None \<Longrightarrow> r2 \<noteq> None \<Longrightarrow> on_both f r1 r2 \<noteq> None"
  by auto

lemma exec_op_shape: "shape c pc word rd r1 r2 imm (exec_op op c pc word rd r1 r2 imm)"
  by (cases op; simp only: exec_op.simps) (rule shape.intros; simp add: access_width_def on_both_Some)+

section \<open>One instruction\<close>

text \<open>A halt writes nothing: the machine after it is the machine before it.\<close>

lemma retire_not_Err [simp]: "retire c rd v n \<noteq> (Err h, c')" "(Err h, c') \<noteq> retire c rd v n"
  by (simp_all add: retire_def split: option.split)

lemma execute_Err:
  assumes "execute c pc word insn = (Err h, c')"
  shows "c' = c \<and> h_pc h = pc \<and> h_insn h = Some word"
proof -
  have ah: "h_pc (access_halt pc word f) = pc \<and> h_insn (access_halt pc word f) = Some word" for f
    by (cases f) (simp_all add: halts)
  have c: "shape c pc word (i_rd insn) (reg c (i_rs1 insn)) (reg c (i_rs2 insn)) (i_imm insn) (Err h, c')"
    using exec_op_shape assms by (metis execute_def)
  then show ?thesis
  proof cases
    case (jmp t)
    then show ?thesis 
      by (auto simp: jump_def check_target_def halts split: option.splits if_splits)
  next
    case (br b)
    then show ?thesis by (auto simp: branch_def check_target_def halts Let_def split: option.splits if_splits)
  next
    case (ld w sx)
    then show ?thesis using ah
      by (auto simp: exec_load_def split: option.splits prod.splits rresult.splits dest: mem_read_Err)
  next
    case (st w)
    then show ?thesis using ah
      by (auto simp: exec_store_def split: option.splits prod.splits rresult.splits dest: mem_write_Err)
  qed (simp_all add: halts)
qed

text \<open>What an instruction that retires may change.\<close>

definition regs_ok :: "cpu \<Rightarrow> bool" where
  "regs_ok c \<longleftrightarrow> length (cpu_regs c) = 32 \<and> cpu_regs c ! 0 = 0"

lemma set_reg_Some:
  assumes "length (cpu_regs c) = 32" "unat rd < 32"
  shows "set_reg c rd v = Some (c\<lparr>cpu_regs := (cpu_regs c)[unat rd := v, 0 := 0]\<rparr>)"
    and "regs_ok (c\<lparr>cpu_regs := (cpu_regs c)[unat rd := v, 0 := 0]\<rparr>)"
  using assms by (simp_all add: set_reg_def regs_ok_def)

definition aligned4 :: "u32 \<Rightarrow> bool" where
  "aligned4 a \<longleftrightarrow> unat a mod 4 = 0"

lemma aligned4_iff: "aligned4 a \<longleftrightarrow> a mod 4 = 0"
  by (simp only: aligned4_def mod_4_unat)

text \<open>
  The outcome of an instruction on a sound register file: it does not panic; it keeps the count, the
  program counter and the cache; the memory after it comes from at most one access; and the next
  program counter is aligned when the current one is.
\<close>

inductive mem_effect :: "memory \<Rightarrow> u64 \<Rightarrow> memory \<Rightarrow> bool" for m ic where
  same: "mem_effect m ic m"
| read: "access_width w \<Longrightarrow> mem_effect m ic (snd (mem_read m a w ic))"
| wrote: "access_width w \<Longrightarrow> mem_effect m ic (snd (mem_write m a w v ic))"

definition good :: "cpu \<Rightarrow> u32 \<Rightarrow> (u32, halt) rresult \<times> cpu \<Rightarrow> bool" where
  "good c pc r \<longleftrightarrow> (case r of (res, c') \<Rightarrow>
     res \<noteq> Panic \<and> regs_ok c' \<and> mem_effect (cpu_memory c) (cpu_icount c) (cpu_memory c') \<and>
     cpu_icount c' = cpu_icount c \<and> cpu_pc c' = cpu_pc c \<and> cpu_cache c' = cpu_cache c \<and>
     (\<forall>n. res = Ok n \<and> aligned4 pc \<longrightarrow> aligned4 n))"

lemma next_aligned: "aligned4 pc \<Longrightarrow> aligned4 (pc + 4)"
  unfolding aligned4_def unat_word_ariths by (simp add: mod_mod_cancel)

lemma retire_good:
  assumes "length (cpu_regs c') = 32" "unat rd < 32" "v \<noteq> None" "aligned4 pc \<Longrightarrow> aligned4 n"
    and "mem_effect (cpu_memory c) (cpu_icount c) (cpu_memory c')"
    and "cpu_icount c' = cpu_icount c" "cpu_pc c' = cpu_pc c" "cpu_cache c' = cpu_cache c"
  shows "good c pc (retire c' rd v n)"
  using assms set_reg_Some [OF assms(1,2)] by (auto simp: good_def retire_def)

lemma execute_good:
  assumes "regs_ok c" "unat (i_rd insn) < 32" "unat (i_rs1 insn) < 32" "unat (i_rs2 insn) < 32"
    and "mem_wf (cpu_memory c)"
  shows "good c pc (execute c pc word insn)"
proof -
  let ?r1 = "reg c (i_rs1 insn)" and ?r2 = "reg c (i_rs2 insn)"
  have l: "length (cpu_regs c) = 32" using assms(1) by (simp add: regs_ok_def)
  have r: "?r1 \<noteq> None" "?r2 \<noteq> None" using assms(3,4) l by (simp_all add: reg_def)
  have halt: "good c pc (Err h, c)" for h using assms(1) by (simp add: good_def mem_effect.same)
  have "shape c pc word (i_rd insn) ?r1 ?r2 (i_imm insn) (execute c pc word insn)"
    using exec_op_shape by (simp add: execute_def)
  then show ?thesis
  proof cases
    case (alu v)
    then show ?thesis using retire_good [OF l assms(2)] r next_aligned by (simp add: mem_effect.same)
  next
    case (jmp t)
    then obtain x where x: "t = Some x" using r by auto
    show ?thesis
    proof (cases "aligned4 x")
      case True
      then show ?thesis using jmp(1) x retire_good [OF l assms(2), of "Some (pc + 4)"]
        by (simp add: jump_def check_target_def mem_effect.same flip: aligned4_iff)
    next
      case False
      then show ?thesis using jmp(1) x halt by (simp add: jump_def check_target_def flip: aligned4_iff)
    qed
  next
    case (br b)
    then obtain x where x: "b = Some x" using r by auto
    show ?thesis using br(1) x assms(1) next_aligned halt
      by (auto simp: branch_def check_target_def good_def mem_effect.same Let_def simp flip: aligned4_iff)
  next
    case (ld w sx)
    obtain a where a: "?r1 = Some a" using r by auto
    obtain res m where m: "mem_read (cpu_memory c) (a + i_imm insn) w (cpu_icount c) = (res, m)" by fastforce
    then have np: "res \<noteq> Panic" using mem_read_total [OF assms(5) ld(2)] by (metis fst_conv)
    have me: "mem_effect (cpu_memory c) (cpu_icount c) m"
      using mem_effect.read [OF ld(2), of "cpu_memory c" "cpu_icount c" "a + i_imm insn"] m by simp
    show ?thesis
    proof (cases res)
      case (Ok raw)
      then show ?thesis using ld(1) a m retire_good [OF _ assms(2)] l me next_aligned by (simp add: exec_load_def)
    next
      case (Err f)
      then show ?thesis using ld(1) a m me assms(1) by (simp add: exec_load_def good_def regs_ok_def)
    qed (use np in simp)
  next
    case (st w)
    obtain a v where a: "?r1 = Some a" "?r2 = Some v" using r by auto
    obtain res m where m: "mem_write (cpu_memory c) (a + i_imm insn) w v (cpu_icount c) = (res, m)" by fastforce
    then have np: "res \<noteq> Panic" using mem_write_total [OF assms(5) st(2)] by (metis fst_conv)
    have me: "mem_effect (cpu_memory c) (cpu_icount c) m"
      using mem_effect.wrote [OF st(2), of "cpu_memory c" "cpu_icount c" "a + i_imm insn" v] m by simp
    show ?thesis using st(1) a m me assms(1) np next_aligned
      by (cases res) (auto simp: exec_store_def good_def regs_ok_def)
  next
    case nop
    then show ?thesis using assms(1) next_aligned by (simp add: good_def mem_effect.same)
  next
    case (stop r)
    then show ?thesis using halt by simp
  qed
qed

section \<open>What an access keeps\<close>

lemma mem_read_keeps [simp]:
  "mem_map (snd (mem_read m a w ic)) = mem_map m" "text_region (snd (mem_read m a w ic)) = text_region m"
  "ram (snd (mem_read m a w ic)) = ram m" "framebuffer (snd (mem_read m a w ic)) = framebuffer m"
  "palette (snd (mem_read m a w ic)) = palette m" "watch (snd (mem_read m a w ic)) = watch m"
  using mem_read_frame [of m a w ic] by auto

lemma mem_effect_frame:
  assumes "mem_effect m ic m'"
  shows "mem_map m' = mem_map m" "text_region m' = text_region m"
  using assms by (auto simp: mem_write_frame elim!: mem_effect.cases)

lemma mem_effect_wf: "mem_effect m ic m' \<Longrightarrow> mem_wf m \<Longrightarrow> mem_wf m'"
  by (auto elim!: mem_effect.cases dest: mem_read_total mem_write_total)

text \<open>A word of the read-only text survives every access.\<close>

definition text_word :: "memory \<Rightarrow> u32 \<Rightarrow> bool" where
  "text_word m pc \<longleftrightarrow> (\<exists>s e. text_region m = Some (s, e) \<and> s \<le> pc \<and> unat pc + 4 \<le> unat e)"

lemma mem_write_text_word:
  assumes "mem_wf m" "access_width w" "text_word m pc" "classify (mem_map m) pc 4 = Some (Ram, off)"
  shows "take 4 (drop (unat off) (ram (snd (mem_write m a w v ic)))) = take 4 (drop (unat off) (ram m))"
proof (cases "fst (mem_write m a w v ic)")
  case (Ok u)
  then obtain m' where "mem_write m a w v ic = (Ok u, m')" by (metis prod.collapse)
  then obtain r o2 m1 where c: "classify (mem_map m) a w = Some (r, o2)"
      and st: "mem_store m r o2 a w v ic = (Ok (), m1)" and m': "ram (snd (mem_write m a w v ic)) = ram m1"
    by (auto elim: mem_write_OkD)
  show ?thesis
  proof (cases "r = Mmio")
    case True
    then have "ram m1 = ram m" using mem_store_Mmio [of m o2 a w v ic] st by auto
    then show ?thesis using m' by simp
  next
    case nm: False
    note e = mem_store_Ok_region [OF assms(1,2) c nm st]
    show ?thesis
    proof (cases "r = Ram")
      case False
      then show ?thesis using e(2) [of Ram] m' by simp
    next
      case True
      obtain s x where t: "text_region m = Some (s, x)" "s \<le> pc" "unat pc + 4 \<le> unat x"
        using assms(3) by (auto simp: text_word_def)
      have "unat a + unat w \<le> unat s \<or> unat x \<le> unat a"
        using e(7) [OF True] t(1) by (auto simp: in_text_def word_le_nat_alt)
      then have "unat a + unat w \<le> unat pc \<or> unat pc + 4 \<le> unat a"
        using t(2,3) by (auto simp: word_le_nat_alt)
      moreover note o1 = classify_offset [OF assms(4)] and o2 = classify_offset [OF c]
      ultimately have "unat off + 4 \<le> unat o2 \<or> unat o2 + unat w \<le> unat off"
        using classifyD(1) [OF assms(4)] classifyD(1) [OF c] True by (auto simp: inside_def)
      then show ?thesis
        using slice_put_disjoint [of "unat o2" "to_le_bytes (unat w) v" "ram m" "unat off" 4] o1(1) o2(1) m' e(1) True
          region_bytes_length [OF assms(1), of Ram] by simp
    qed
  qed
next
  case (Err f)
  then show ?thesis using mem_write_Err [of m a w v ic f] by (metis prod.collapse)
next
  case Panic
  then show ?thesis using mem_write_total [OF assms(1,2), of a v ic] by simp
qed

lemma mem_effect_text_word:
  assumes "mem_effect m ic m'" "mem_wf m" "text_word m pc" "classify (mem_map m) pc 4 = Some (Ram, off)"
  shows "take 4 (drop (unat off) (ram m')) = take 4 (drop (unat off) (ram m))"
  using assms(1)
proof cases
  case (read w a)
  then show ?thesis using mem_read_frame [of m a w ic] by auto
next
  case (wrote w a v)
  then show ?thesis using mem_write_text_word [OF assms(2) _ assms(3,4)] by simp
qed simp

section \<open>The machine's invariant\<close>

definition cache_ok :: "memory \<Rightarrow> decode_cache \<Rightarrow> bool" where
  "cache_ok m k \<longleftrightarrow> cache_agrees m k \<and> (\<forall>pc e. cache_get k pc = Some e \<longrightarrow> text_word m pc)"

definition cpu_inv :: "cpu \<Rightarrow> bool" where
  "cpu_inv c \<longleftrightarrow> mem_wf (cpu_memory c) \<and> regs_ok c \<and>
     (case cpu_cache c of None \<Rightarrow> True | Some k \<Rightarrow> cache_ok (cpu_memory c) k)"

lemma cache_ok_effect:
  assumes "cache_ok m k" "mem_effect m ic m'" "mem_wf m"
  shows "cache_ok m' k"
proof -
  note f = mem_effect_frame [OF assms(2)]
  have "text_word m' pc = text_word m pc" for pc by (simp add: text_word_def f)
  then show ?thesis
    using assms(1) mem_effect_text_word [OF assms(2,3)] unfolding cache_ok_def cache_agrees_def f by metis
qed

lemma fetch_Ok:
  assumes "cpu_inv c" "fetch c = (Ok (word, insn), c1)"
  shows "insn = decode word" "aligned4 (cpu_pc c)"
    "c1 = c\<lparr>cpu_memory := snd (mem_read (cpu_memory c) (cpu_pc c) 4 (cpu_icount c))\<rparr>"
    "fst (mem_read (cpu_memory c) (cpu_pc c) 4 (cpu_icount c)) = Ok word"
proof -
  let ?r = "mem_read (cpu_memory c) (cpu_pc c) 4 (cpu_icount c)"
  have "insn = decode word \<and> ?r = (Ok word, cpu_memory c1) \<and> c1 = c\<lparr>cpu_memory := cpu_memory c1\<rparr>"
  proof (cases "Option.bind (cpu_cache c) (\<lambda>k. cache_get k (cpu_pc c))")
    case None
    then show ?thesis using assms(2) by (auto simp: fetch_def Let_def split: prod.splits rresult.splits)
  next
    case (Some e)
    then obtain k where k: "cpu_cache c = Some k" "cache_get k (cpu_pc c) = Some e" by (auto simp: bind_eq_Some_conv)
    then have ok: "cache_agrees (cpu_memory c) k" "mem_wf (cpu_memory c)" using assms(1) by (auto simp: cpu_inv_def cache_ok_def)
    show ?thesis using assms(2) Some cache_hit_is_fetch [OF ok k(2)] by (auto simp: fetch_def Let_def)
  qed
  then have h: "insn = decode word" "?r = (Ok word, cpu_memory c1)" "c1 = c\<lparr>cpu_memory := cpu_memory c1\<rparr>" by blast+
  show "insn = decode word" by (rule h(1))
  show "aligned4 (cpu_pc c)"
    using h(2) unfolding aligned4_iff by (auto simp: mem_read_def check_align_def split: if_splits)
  show "c1 = c\<lparr>cpu_memory := snd ?r\<rparr>" "fst ?r = Ok word" using h by simp_all
qed

lemma fetch_not_Ok:
  assumes "cpu_inv c" "fetch c = (r, c1)" "\<And>x. r \<noteq> Ok x"
  shows "c1 = c" "\<exists>h. r = Err h \<and> h_pc h = cpu_pc c"
proof -
  let ?m = "cpu_memory c"
  have e: "h_pc (fetch_halt pc f) = pc" for pc f by (cases f) (simp_all add: halts)
  have n: "Option.bind (cpu_cache c) (\<lambda>k. cache_get k (cpu_pc c)) = None"
    using assms(2,3) by (auto simp: fetch_def Let_def split: option.splits)
  obtain res m where m: "mem_read ?m (cpu_pc c) 4 (cpu_icount c) = (res, m)" by fastforce
  have "res \<noteq> Panic" using mem_read_total [of ?m 4 "cpu_pc c" "cpu_icount c"] m assms(1)
    by (simp add: cpu_inv_def access_width_def)
  then obtain f where f: "res = Err f" using assms(2,3) n m by (cases res) (auto simp: fetch_def Let_def)
  then have "m = ?m" using m mem_read_Err by blast
  then show "c1 = c" "\<exists>h. r = Err h \<and> h_pc h = cpu_pc c"
    using assms(2) n m f e by (auto simp: fetch_def Let_def)
qed

lemma mem_effect_inv:
  assumes "cpu_inv c" "mem_effect (cpu_memory c) ic (cpu_memory c')" "regs_ok c'" "cpu_cache c' = cpu_cache c"
  shows "cpu_inv c'"
  using assms cache_ok_effect [OF _ assms(2)] mem_effect_wf [OF assms(2)]
  by (auto simp: cpu_inv_def split: option.splits)

text \<open>One step, summed up: the fetch is one effect on memory, the instruction another.\<close>

inductive step_effect :: "cpu \<Rightarrow> cpu \<Rightarrow> bool" for c where
  "mem_effect (cpu_memory c) (cpu_icount c) m1 \<Longrightarrow> mem_effect m1 (cpu_icount c) (cpu_memory c') \<Longrightarrow>
     step_effect c c'"

lemma step_reporting_facts:
  assumes "cpu_inv c" "step_reporting c = (r, c')"
  shows "r \<noteq> Panic" "cpu_inv c'" "step_effect c c'" "cpu_cache c' = cpu_cache c"
    and "\<And>x. r = Ok x \<Longrightarrow> cpu_icount c' = cpu_icount c + 1 \<and> aligned4 (cpu_pc c) \<and> aligned4 (cpu_pc c') \<and> snd x = decode (fst x)"
proof -
  let ?P = "r \<noteq> Panic \<and> cpu_inv c' \<and> step_effect c c' \<and> cpu_cache c' = cpu_cache c \<and>
    (\<forall>x. r = Ok x \<longrightarrow> cpu_icount c' = cpu_icount c + 1 \<and> aligned4 (cpu_pc c) \<and> aligned4 (cpu_pc c') \<and> snd x = decode (fst x))"
  have stay: "step_effect c c" by (rule step_effect.intros [OF mem_effect.same mem_effect.same])
  have ?P
  proof (cases "outside_text c")
    case True
    then show ?thesis using assms stay by (auto simp: step_reporting_def Let_def)
  next
    case False
    obtain f c1 where f: "fetch c = (f, c1)" by fastforce
    show ?thesis
    proof (cases "\<exists>word insn. f = Ok (word, insn)")
      case True
      then obtain word insn where w: "fetch c = (Ok (word, insn), c1)" using f by blast
      note fo = fetch_Ok [OF assms(1) w]
      have e1: "mem_effect (cpu_memory c) (cpu_icount c) (cpu_memory c1)"
        unfolding fo(3) by (simp add: mem_effect.read access_width_def)
      have r1: "regs_ok c1" using assms(1) fo(3) by (simp add: cpu_inv_def regs_ok_def)
      have i1: "cpu_inv c1" by (rule mem_effect_inv [OF assms(1) e1 r1]) (simp add: fo(3))
      obtain x c2 where x: "execute c1 (cpu_pc c) word insn = (x, c2)" by fastforce
      have "good c1 (cpu_pc c) (x, c2)"
        using execute_good [OF r1, of insn "cpu_pc c" word] decode_regs_bound [of word] i1 x fo(1)
        by (simp add: cpu_inv_def)
      then have g: "x \<noteq> Panic" "regs_ok c2" "mem_effect (cpu_memory c1) (cpu_icount c) (cpu_memory c2)"
          "cpu_icount c2 = cpu_icount c" "cpu_cache c2 = cpu_cache c"
          "\<And>n. x = Ok n \<Longrightarrow> aligned4 n"
        using fo(2,3) by (auto simp: good_def)
      have i2: "cpu_inv c2" by (rule mem_effect_inv [OF i1 g(3,2)]) (simp add: g(5) fo(3))
      have se: "step_effect c c2" by (rule step_effect.intros [OF e1 g(3)])
      show ?thesis
      proof (cases x)
        case (Ok n)
        then have "c' = c2\<lparr>cpu_icount := cpu_icount c2 + 1, cpu_pc := n\<rparr>" "r = Ok (word, insn)"
          using assms(2) False w x by (simp_all add: step_reporting_def Let_def)
        then show ?thesis using g i2 se fo(1,2) Ok
          by (auto simp: cpu_inv_def regs_ok_def elim!: step_effect.cases intro: step_effect.intros split: option.splits)
      next
        case (Err h)
        then show ?thesis using assms(2) False w x i2 se g(5) by (auto simp: step_reporting_def Let_def)
      qed (use g(1) in simp)
    next
      case nf: False
      then have "c1 = c" "\<exists>h. f = Err h \<and> h_pc h = cpu_pc c" using fetch_not_Ok [OF assms(1) f] by auto
      then show ?thesis using assms False f stay by (auto simp: step_reporting_def Let_def)
    qed
  qed
  then show "r \<noteq> Panic" "cpu_inv c'" "step_effect c c'" "cpu_cache c' = cpu_cache c"
    "\<And>x. r = Ok x \<Longrightarrow> cpu_icount c' = cpu_icount c + 1 \<and> aligned4 (cpu_pc c) \<and> aligned4 (cpu_pc c') \<and> snd x = decode (fst x)"
    by blast+
qed

section \<open>Runs\<close>

text \<open>\<open>retires c xs c'\<close>: from \<open>c\<close> the instructions \<open>xs\<close> retire one after the other, and leave \<open>c'\<close>.\<close>

inductive retires :: "cpu \<Rightarrow> (u32 \<times> instruction) list \<Rightarrow> cpu \<Rightarrow> bool" where
  retires_Nil: "retires c [] c"
| retires_Cons: "step_reporting c = (Ok x, c1) \<Longrightarrow> retires c1 xs c' \<Longrightarrow> retires c (x # xs) c'"

inductive_cases retires_NilE: "retires c [] c'"
inductive_cases retires_ConsE: "retires c (x # xs) c'"
inductive_simps retires_simps: "retires c [] c'" "retires c (x # xs) c'"

text \<open>Determinism: of two runs from one machine, one is the start of the other.\<close>

lemma retires_unique: "retires c xs a \<Longrightarrow> retires c ys b \<Longrightarrow> length xs = length ys \<Longrightarrow> xs = ys \<and> a = b"
proof (induction arbitrary: ys b rule: retires.induct)
  case (retires_Nil c)
  then show ?case by (auto elim: retires_NilE)
next
  case (retires_Cons c x c1 xs c')
  from retires_Cons.prems(2) obtain y ys' where ys: "ys = y # ys'" by (cases ys) auto
  from retires_Cons.prems(1) obtain d where "step_reporting c = (Ok y, d)" "retires d ys' b"
    unfolding ys by (auto elim: retires_ConsE)
  then show ?case using retires_Cons ys by auto
qed

lemma step_eq: "step c = (r, c') \<longleftrightarrow> (\<exists>s. step_reporting c = (s, c') \<and>
    r = (case s of Ok _ \<Rightarrow> Ok () | Err h \<Rightarrow> Err h | Panic \<Rightarrow> Panic))"
  by (auto simp: step_def split: prod.splits rresult.splits)

lemma run_steps_retires:
  assumes "run_steps n c = (r, c')"
  shows "r = Ok None \<and> (\<exists>xs. length xs = n \<and> retires c xs c') \<or>
    (\<exists>xs d s. length xs < n \<and> retires c xs d \<and> step_reporting d = (s, c') \<and>
       (case s of Ok _ \<Rightarrow> False | Err h \<Rightarrow> r = Ok (Some h) | Panic \<Rightarrow> r = Panic))"
  using assms
proof (induction n arbitrary: c)
  case 0
  then show ?case by (auto simp: retires_simps)
next
  case (Suc n)
  obtain s c1 where s: "step_reporting c = (s, c1)" by fastforce
  show ?case
  proof (cases s)
    case (Ok x)
    then have "run_steps n c1 = (r, c')" using Suc.prems s by (simp add: step_def)
    from Suc.IH [OF this] consider
        (bound) xs where "r = Ok None" "length xs = n" "retires c1 xs c'"
      | (halt) xs d t where "length xs < n" "retires c1 xs d" "step_reporting d = (t, c')"
          "case t of Ok _ \<Rightarrow> False | Err h \<Rightarrow> r = Ok (Some h) | Panic \<Rightarrow> r = Panic" by blast
    then show ?thesis
    proof cases
      case bound
      then show ?thesis using retires_Cons s Ok by (metis length_Cons)
    next
      case halt
      then have "length (x # xs) < Suc n" "retires c (x # xs) d" using retires_Cons s Ok by auto
      then show ?thesis using halt by blast
    qed
  next
    case (Err h)
    then have "r = Ok (Some h)" "c' = c1" using Suc.prems s by (simp_all add: step_def)
    then show ?thesis using s Err by (intro disjI2 exI [of _ "[]"] exI [of _ c] exI [of _ s]) (simp add: retires_Nil)
  next
    case Panic
    then have "r = Panic" "c' = c1" using Suc.prems s by (simp_all add: step_def)
    then show ?thesis using s Panic by (intro disjI2 exI [of _ "[]"] exI [of _ c] exI [of _ s]) (simp add: retires_Nil)
  qed
qed

lemma run_steps_cases:
  assumes "run_steps n c = (r, c')"
  obtains (bound) xs where "r = Ok None" "length xs = n" "retires c xs c'"
  | (halt) xs d h where "length xs < n" "retires c xs d" "step_reporting d = (Err h, c')" "r = Ok (Some h)"
  | (panic) xs d where "length xs < n" "retires c xs d" "step_reporting d = (Panic, c')" "r = Panic"
proof -
  consider "r = Ok None \<and> (\<exists>xs. length xs = n \<and> retires c xs c')"
    | xs d s where "length xs < n" "retires c xs d" "step_reporting d = (s, c')"
        "case s of Ok _ \<Rightarrow> False | Err h \<Rightarrow> r = Ok (Some h) | Panic \<Rightarrow> r = Panic"
    using run_steps_retires [OF assms] by blast
  then show thesis
  proof cases
    case 1
    then show thesis using bound by blast
  next
    case 2
    then show thesis using halt panic by (cases s) auto
  qed
qed

section \<open>Contracts over steps\<close>

text \<open>What every step keeps, every run keeps; and a machine that keeps it does not panic.\<close>

locale step_invariant =
  fixes inv :: "cpu \<Rightarrow> bool"
  assumes step_total: "inv c \<Longrightarrow> step_reporting c = (r, c') \<Longrightarrow> r \<noteq> Panic \<and> inv c'"
begin

lemma retires_inv: "retires c xs c' \<Longrightarrow> inv c \<Longrightarrow> inv c'"
  by (induction rule: retires.induct) (auto dest: step_total)

lemma run_steps_inv:
  assumes "inv c" "run_steps n c = (r, c')"
  shows "inv c' \<and> (\<exists>x. r = Ok x)"
proof -
  from assms(2) show ?thesis
  proof (cases rule: run_steps_cases)
    case (bound xs)
    then show ?thesis using retires_inv assms(1) by blast
  next
    case (halt xs d h)
    then show ?thesis using step_total [OF retires_inv [OF halt(2) assms(1)] halt(3)] by blast
  next
    case (panic xs d)
    then show ?thesis using step_total [OF retires_inv [OF panic(2) assms(1)] panic(3)] by blast
  qed
qed

lemma run_until_halt_inv:
  assumes "inv c" "run_until_halt c n = (r, c')"
  shows "inv c' \<and> r \<noteq> Panic"
proof -
  obtain s d where s: "run_steps (unat n) c = (s, d)" by fastforce
  then obtain x where x: "s = Ok x" "inv d" using run_steps_inv [OF assms(1)] by blast
  then show ?thesis using s assms(2) by (cases x) (auto simp: run_until_halt_def)
qed

end

text \<open>What no step changes, no run changes.\<close>

locale step_constant = step_invariant +
  fixes obs :: "cpu \<Rightarrow> 'a"
  assumes step_obs: "inv c \<Longrightarrow> step_reporting c = (r, c') \<Longrightarrow> obs c' = obs c"
begin

lemma retires_obs: "retires c xs c' \<Longrightarrow> inv c \<Longrightarrow> obs c' = obs c"
proof (induction rule: retires.induct)
  case (retires_Cons c x c1 xs c')
  have "inv c1" using step_total [OF retires_Cons.prems retires_Cons.hyps(1)] by blast
  then show ?case using step_obs [OF retires_Cons.prems retires_Cons.hyps(1)] retires_Cons.IH by simp
qed simp

lemma run_steps_obs:
  assumes "inv c" "run_steps n c = (r, c')"
  shows "obs c' = obs c"
  using assms(2)
proof (cases rule: run_steps_cases)
  case (bound xs)
  then show ?thesis using retires_obs assms(1) by blast
next
  case (halt xs d h)
  then show ?thesis using step_obs [OF retires_inv [OF halt(2) assms(1)] halt(3)] retires_obs [OF halt(2) assms(1)] by simp
next
  case (panic xs d)
  then show ?thesis using step_obs [OF retires_inv [OF panic(2) assms(1)] panic(3)] retires_obs [OF panic(2) assms(1)] by simp
qed

end

text \<open>A view of the machine that steps on its own: what a run does is seen through it unchanged.\<close>

locale step_simulation = step_invariant +
  fixes view :: "cpu \<Rightarrow> cpu"
  assumes step_view: "inv c \<Longrightarrow> step_reporting c = (r, c') \<Longrightarrow> step_reporting (view c) = (r, view c')"
begin

lemma retires_view: "retires c xs c' \<Longrightarrow> inv c \<Longrightarrow> retires (view c) xs (view c')"
proof (induction rule: retires.induct)
  case (retires_Nil c)
  then show ?case by (simp add: retires_simps)
next
  case (retires_Cons c x c1 xs c')
  then show ?case using step_view step_total by (blast intro: retires.intros)
qed

lemma run_steps_view:
  assumes "inv c" "run_steps n c = (r, c')"
  shows "run_steps n (view c) = (r, view c')"
  using assms
proof (induction n arbitrary: c)
  case (Suc n)
  obtain s c1 where s: "step_reporting c = (s, c1)" by fastforce
  then have v: "step_reporting (view c) = (s, view c1)" "inv c1"
    using step_view step_total Suc.prems(1) by blast+
  then show ?case using Suc.IH [OF v(2)] Suc.prems(2) s by (cases s) (auto simp: step_def)
qed simp

end

end
