(* ===== verification/Machine_Properties.thy ===== *)
theory Machine_Properties
  imports Machine
begin

text \<open>
  The promises of the machine over steps and whole runs: soundness, what a halt leaves behind, the
  read-only text, and the proof the decode cache owes.
\<close>

section \<open>Soundness\<close>

interpretation sound: step_invariant cpu_inv
  by unfold_locales (use step_reporting_facts in blast)

lemma retires_count:
  assumes "retires c xs c'" "cpu_inv c"
  shows "cpu_icount c' = cpu_icount c + of_nat (length xs)"
  using assms
proof (induction rule: retires.induct)
  case (retires_Cons c x c1 xs c')
  note f = step_reporting_facts [OF retires_Cons.prems retires_Cons.hyps(1)]
  show ?case using f(2) f(5) [OF refl] retires_Cons.IH by simp
qed simp

lemma cpu_new_inv [wf_intros]: "mem_wf m \<Longrightarrow> cpu_inv (cpu_new m pc)"
  by (simp add: cpu_inv_def regs_ok_def cpu_new_def)

lemma cpu_restore_inv [wf_intros]: "cpu_inv c \<Longrightarrow> length rs = 32 \<Longrightarrow> cpu_inv (cpu_restore c pc rs ic)"
  by (auto simp: cpu_inv_def regs_ok_def cpu_restore_def split: option.splits)

lemma restore_memory_inv [wf_intros]: "cpu_inv c \<Longrightarrow> cpu_inv (restore_memory c r f p)"
  by (simp add: cpu_inv_def regs_ok_def restore_memory_def restore_regions_wf)

lemma cpu_set_text_region_inv [wf_intros]: "cpu_inv c \<Longrightarrow> cpu_inv (cpu_set_text_region c t)"
  by (simp add: cpu_inv_def regs_ok_def cpu_set_text_region_def mem_set_text_region_wf)

lemma cpu_load_image_inv [wf_intros]: "cpu_inv c \<Longrightarrow> cpu_inv (snd (cpu_load_image c dat a))"
  using mem_load_image_wf [of "cpu_memory c" dat a]
  by (auto simp: cpu_inv_def regs_ok_def cpu_load_image_def split: prod.splits)

section \<open>What a halt leaves behind\<close>

lemma step_Err:
  assumes "step_reporting c = (Err h, c')"
  shows "h_pc h = cpu_pc c"
    and "c' = c \<or> c' = c\<lparr>cpu_memory := snd (mem_read (cpu_memory c) (cpu_pc c) 4 (cpu_icount c))\<rparr>"
proof -
  let ?r = "mem_read (cpu_memory c) (cpu_pc c) 4 (cpu_icount c)"
  have e: "h_pc (fetch_halt pc f) = pc" for pc f by (cases f) (simp_all add: halts)
  have ft: "snd (fetch c) = c \<or> snd (fetch c) = c\<lparr>cpu_memory := snd ?r\<rparr>"
    by (auto simp: fetch_def Let_def split: option.split prod.split rresult.split)
  have "h_pc h = cpu_pc c \<and> (c' = c \<or> c' = c\<lparr>cpu_memory := snd ?r\<rparr>)"
  proof (cases "outside_text c")
    case True
    then show ?thesis using assms by (auto simp: step_reporting_def Let_def halts)
  next
    case False
    obtain f c1 where f: "fetch c = (f, c1)" by fastforce
    show ?thesis
    proof (cases f)
      case (Ok p)
      obtain word insn where p: "p = (word, insn)" by fastforce
      have "execute c1 (cpu_pc c) word insn = (Err h, c')"
        using assms False f Ok p by (auto simp: step_reporting_def Let_def split: prod.splits rresult.splits)
      then show ?thesis using execute_Err ft f by (metis snd_conv)
    next
      case (Err h1)
      then have "h1 = h" "c1 = c'" using assms False f by (simp_all add: step_reporting_def Let_def)
      moreover have "h_pc h1 = cpu_pc c"
        using f Err e by (auto simp: fetch_def Let_def split: option.splits prod.splits rresult.splits)
      ultimately show ?thesis using ft f by auto
    next
      case Panic
      then show ?thesis using assms False f by (simp add: step_reporting_def Let_def)
    qed
  qed
  then show "h_pc h = cpu_pc c" "c' = c \<or> c' = c\<lparr>cpu_memory := snd ?r\<rparr>" by blast+
qed

text \<open>
  C15: A halt does not retire the instruction that caused it.  Whatever stops a step, the record names
  the program counter, and the program counter, the registers, the count, the RAM, the framebuffer, the
  palette, the text region and the watch are what they were; only the devices can differ, and only when
  the fetch itself came from the device window.
\<close>

theorem halt_changes_nothing:
  assumes "step_reporting c = (Err h, c')"
  shows "h_pc h = cpu_pc c \<and> (\<exists>d. c' = c\<lparr>cpu_memory := (cpu_memory c)\<lparr>devices := d\<rparr>\<rparr>) \<and>
    ((\<forall>off. classify (mem_map (cpu_memory c)) (cpu_pc c) 4 \<noteq> Some (Mmio, off)) \<longrightarrow> c' = c)"
proof -
  let ?m = "cpu_memory c"
  let ?r = "mem_read ?m (cpu_pc c) 4 (cpu_icount c)"
  have "c = c\<lparr>cpu_memory := ?m\<lparr>devices := devices ?m\<rparr>\<rparr>" by simp
  moreover obtain d where "snd ?r = ?m\<lparr>devices := d\<rparr>" using mem_read_frame by blast
  ultimately have "\<exists>d. c' = c\<lparr>cpu_memory := ?m\<lparr>devices := d\<rparr>\<rparr>" using step_Err(2) [OF assms] by metis
  moreover have "snd ?r = ?m" if "\<forall>off. classify (mem_map ?m) (cpu_pc c) 4 \<noteq> Some (Mmio, off)"
    using that by (auto simp: mem_read_def check_align_def split: option.split region.split prod.split)
  then have "(\<forall>off. classify (mem_map ?m) (cpu_pc c) 4 \<noteq> Some (Mmio, off)) \<longrightarrow> c' = c"
    using step_Err(2) [OF assms] by fastforce
  ultimately show ?thesis using step_Err(1) [OF assms] by blast
qed

lemma run_until_halt_first:
  "step_reporting c = (Err h, c') \<Longrightarrow> n \<noteq> 0 \<Longrightarrow> run_until_halt c n = (Ok h, c')"
proof -
  assume a: "step_reporting c = (Err h, c')" "n \<noteq> 0"
  from a(2) obtain k where "unat n = Suc k" using unat_eq_zero not0_implies_Suc by blast
  then show ?thesis using a(1) by (simp add: run_until_halt_def step_def)
qed

text \<open>A machine small enough to evaluate, at an instruction word of zeroes.\<close>

definition cpu_small :: cpu where
  "cpu_small = cpu_new mem_small 0x80000000"

lemma cpu_small_inv: "cpu_inv cpu_small"
  unfolding cpu_small_def by (rule cpu_new_inv [OF mem_small_ok(1)])

lemma step_small: "step_reporting cpu_small = (Err (halt_with_insn halt_reason.IllegalInsn 0x80000000 0), cpu_small)"
proof -
  have r: "mem_read mem_small 0x80000000 4 0 = (Ok 0, mem_small)"
    by (simp add: mem_read_def check_align_def small_eval read_le_def Let_def)
  have d: "decode 0 = illegal" by (simp add: decode_def fields opcodes Let_def)
  have f: "fetch cpu_small = (Ok (0, illegal), cpu_small)"
    by (simp add: fetch_def cpu_small_def cpu_new_def r d Let_def)
  have t: "\<not> outside_text cpu_small" by (simp add: outside_text_def cpu_small_def cpu_new_def small_eval)
  show ?thesis using f t by (simp add: step_reporting_def execute_def Let_def) (simp add: cpu_small_def cpu_new_def)
qed

theorem halt_changes_nothing_witness:
  "\<exists>h. step_reporting cpu_small = (Err h, cpu_small) \<and> h_pc h = 0x80000000"
  using halt_changes_nothing [OF step_small] step_small by (simp add: cpu_small_def cpu_new_def)

section \<open>The decode cache\<close>

definition uncached :: "cpu \<Rightarrow> cpu" where
  "uncached c = c\<lparr>cpu_cache := None\<rparr>"

lemma uncached_sel [simp]: "cpu_memory (uncached c) = cpu_memory c" "cpu_pc (uncached c) = cpu_pc c"
  "cpu_regs (uncached c) = cpu_regs c" "cpu_icount (uncached c) = cpu_icount c" "cpu_cache (uncached c) = None"
  by (simp_all add: uncached_def)

lemma reg_uncached [simp]: "reg (uncached c) i = reg c i"
  by (simp add: reg_def)

lemma retire_uncached: "retire (uncached c) rd v n = map_prod id uncached (retire c rd v n)"
  by (auto simp: retire_def set_reg_def uncached_def split: option.split)

lemma execute_uncached: "execute (uncached c) pc word insn = map_prod id uncached (execute c pc word insn)"
proof -
  have m: "(uncached c)\<lparr>cpu_memory := m\<rparr> = uncached (c\<lparr>cpu_memory := m\<rparr>)" for m by (simp add: uncached_def)
  have j: "jump (uncached c) pc word rd t = map_prod id uncached (jump c pc word rd t)" for rd t
    by (auto simp: jump_def check_target_def retire_uncached split: option.split)
  have b: "branch (uncached c) pc word t imm = map_prod id uncached (branch c pc word t imm)" for t imm
    by (auto simp: branch_def check_target_def Let_def split: option.split)
  have l: "exec_load (uncached c) pc word rd r1 imm w sx = map_prod id uncached (exec_load c pc word rd r1 imm w sx)" for rd r1 imm w sx
    by (auto simp: exec_load_def retire_uncached m split: option.split prod.split rresult.split)
  have s: "exec_store (uncached c) pc word r1 r2 imm w = map_prod id uncached (exec_store c pc word r1 r2 imm w)" for r1 r2 imm w
    by (auto simp: exec_store_def m split: option.split prod.split rresult.split)
  show ?thesis unfolding execute_def by (cases "i_op insn") (simp_all add: retire_uncached j b l s)
qed

lemma fetch_uncached:
  assumes "cpu_inv c"
  shows "fetch (uncached c) = map_prod id uncached (fetch c)"
proof (cases "Option.bind (cpu_cache c) (\<lambda>k. cache_get k (cpu_pc c))")
  case None
  then show ?thesis by (auto simp: fetch_def Let_def uncached_def split: prod.split rresult.split)
next
  case (Some e)
  then obtain k where k: "cpu_cache c = Some k" "cache_get k (cpu_pc c) = Some e" by (auto simp: bind_eq_Some_conv)
  then have "cache_agrees (cpu_memory c) k" "mem_wf (cpu_memory c)" using assms by (auto simp: cpu_inv_def cache_ok_def)
  note h = cache_hit_is_fetch [OF this k(2)]
  show ?thesis using Some h by (simp add: fetch_def Let_def uncached_def)
qed

lemma step_uncached:
  assumes "cpu_inv c"
  shows "step_reporting (uncached c) = map_prod id uncached (step_reporting c)"
proof -
  have o1: "outside_text (uncached c) = outside_text c" by (auto simp: outside_text_def split: option.split)
  have u: "(uncached d)\<lparr>cpu_icount := a, cpu_pc := b\<rparr> = uncached (d\<lparr>cpu_icount := a, cpu_pc := b\<rparr>)" for d a b
    by (simp add: uncached_def)
  show ?thesis
    by (auto simp: step_reporting_def Let_def o1 fetch_uncached [OF assms] execute_uncached u
        split: prod.split rresult.split)
qed

interpretation cached: step_simulation cpu_inv uncached
  by unfold_locales (simp add: step_uncached)

lemma enable_decode_cache_facts:
  assumes "cpu_inv c" "enable_decode_cache c = (r, c')"
  shows "r = Ok (cpu_cache c' \<noteq> None) \<and> cpu_inv c' \<and> uncached c' = uncached c"
proof (cases "text_region (cpu_memory c)")
  case None
  then show ?thesis using assms by (auto simp: enable_decode_cache_def cpu_inv_def regs_ok_def uncached_def)
next
  case (Some t)
  obtain s e where t: "t = (s, e)" by fastforce
  have wf: "mem_wf (cpu_memory c)" using assms(1) by (simp add: cpu_inv_def)
  obtain k where k: "cache_build (cpu_memory c) s e = Ok k" "case k of None \<Rightarrow> True
    | Some c1 \<Rightarrow> cache_agrees (cpu_memory c) c1 \<and> cache_base c1 = s \<and> length (cache_entries c1) = unat (e - s) div 4 \<and>
        s < e \<and> s mod 4 = 0 \<and> e mod 4 = 0"
    using cache_build_agrees [OF wf, of s e] by blast
  have c': "c' = c\<lparr>cpu_cache := k\<rparr>" "r = Ok (k \<noteq> None)" using assms(2) Some t k(1) by (auto simp: enable_decode_cache_def)
  have "cache_ok (cpu_memory c) k1" if k1: "k = Some k1" for k1
  proof -
    have b: "cache_agrees (cpu_memory c) k1" "cache_base k1 = s" "length (cache_entries k1) = unat (e - s) div 4"
        "s < e" "s mod 4 = 0" using k(2) k1 by simp_all
    have n: "unat (e - s) = unat e - unat s" using b(4) by (simp add: unat_sub)
    have sz: "unat s + 4 * length (cache_entries k1) \<le> unat e"
      using b(3,4) n by (simp add: word_less_nat_alt)
    have "text_word (cpu_memory c) pc" if g: "cache_get k1 pc = Some en" for pc en
    proof -
      have "unat (cache_base k1) + 4 * length (cache_entries k1) \<le> 2 ^ 32"
        using sz b(2) unsigned_less [of e, where ?'a = nat] by simp
      then obtain i where "i < length (cache_entries k1)" "unat pc = unat s + 4 * i"
        using cache_get_range [OF g] b(2,5) by auto
      then show ?thesis using Some t sz by (simp add: text_word_def word_le_nat_alt)
    qed
    then show ?thesis using b(1) by (simp add: cache_ok_def)
  qed
  then have "cpu_inv c'" using assms(1) c'(1) by (auto simp: cpu_inv_def regs_ok_def split: option.split)
  then show ?thesis using c' by (simp add: uncached_def)
qed

text \<open>
  C13: Cached and uncached execution agree.  A machine that has decoded its text region up front runs,
  for any bound, to the same halt or to the same exhausted bound as the machine without the cache, and
  the two machines after the run differ in nothing but the cache; enabling the cache never panics.
\<close>

theorem decode_cache_transparent:
  assumes "cpu_inv c" "enable_decode_cache c = (r, k)"
  shows "r \<noteq> Panic \<and>
    fst (run_until_halt k n) = fst (run_until_halt (uncached c) n) \<and>
    uncached (snd (run_until_halt k n)) = snd (run_until_halt (uncached c) n)"
proof -
  note e = enable_decode_cache_facts [OF assms]
  obtain s d where s: "run_steps (unat n) k = (s, d)" by fastforce
  have "run_steps (unat n) (uncached c) = (s, uncached d)"
    using cached.run_steps_view [of k "unat n" s d] s e by simp
  then show ?thesis using s e by (auto simp: run_until_halt_def split: rresult.split option.split)
qed

lemma cpu_text_small:
  "step_reporting (cpu_set_text_region cpu_small (Some (0x80000000, 0x80000008))) =
     (Err (halt_with_insn halt_reason.IllegalInsn 0x80000000 0), cpu_set_text_region cpu_small (Some (0x80000000, 0x80000008)))"
  "uncached (cpu_set_text_region cpu_small (Some (0x80000000, 0x80000008))) = cpu_set_text_region cpu_small (Some (0x80000000, 0x80000008))"
proof -
  let ?c = "cpu_set_text_region cpu_small (Some (0x80000000, 0x80000008))"
  have r: "mem_read (cpu_memory ?c) 0x80000000 4 0 = (Ok 0, cpu_memory ?c)"
    by (simp add: mem_read_def check_align_def small_eval read_le_def Let_def cpu_set_text_region_def
        mem_set_text_region_def cpu_small_def cpu_new_def)
  have d: "decode 0 = illegal" by (simp add: decode_def fields opcodes Let_def)
  have s: "cpu_pc ?c = 0x80000000" "cpu_icount ?c = 0" "cpu_cache ?c = None"
    by (simp_all add: cpu_set_text_region_def cpu_small_def cpu_new_def)
  have f: "fetch ?c = (Ok (0, illegal), ?c)" using r by (simp add: fetch_def s d Let_def)
  have t: "\<not> outside_text ?c"
    by (simp add: outside_text_def cpu_set_text_region_def mem_set_text_region_def cpu_small_def cpu_new_def)
  show "step_reporting ?c = (Err (halt_with_insn halt_reason.IllegalInsn 0x80000000 0), ?c)"
    using f t s by (simp add: step_reporting_def execute_def Let_def)
  show "uncached ?c = ?c" using s by (simp add: uncached_def)
qed

theorem decode_cache_transparent_witness:
  "\<exists>k. snd (enable_decode_cache (cpu_set_text_region cpu_small (Some (0x80000000, 0x80000008)))) = k \<and>
     cpu_cache k \<noteq> None \<and> fst (run_until_halt k 5) = Ok (halt_with_insn halt_reason.IllegalInsn 0x80000000 0)"
proof -
  let ?c = "cpu_set_text_region cpu_small (Some (0x80000000, 0x80000008))"
  have i: "cpu_inv ?c" by (intro wf_intros cpu_small_inv)
  obtain r k where k: "enable_decode_cache ?c = (r, k)" by fastforce
  have u: "run_until_halt (uncached ?c) 5 = (Ok (halt_with_insn halt_reason.IllegalInsn 0x80000000 0), ?c)"
    using cpu_text_small by (simp add: run_until_halt_first)
  have m: "mem_map (cpu_memory ?c) = map_small" "text_region (cpu_memory ?c) = Some (0x80000000, 0x80000008)"
    by (simp_all add: cpu_set_text_region_def mem_set_text_region_def cpu_small_def cpu_new_def mem_small_def memory_new_def)
  have wf: "mem_wf (cpu_memory ?c)" using i by (simp add: cpu_inv_def)
  obtain k1 where k1: "cache_build (cpu_memory ?c) 0x80000000 0x80000008 = Ok k1"
    using cache_build_agrees [OF wf] by blast
  then have "k1 \<noteq> None" by (auto simp: cache_build_def m map_small_def split: option.splits)
  then have "cpu_cache k \<noteq> None" using k k1 m(2) by (auto simp: enable_decode_cache_def)
  then show ?thesis using decode_cache_transparent [OF i k, of 5] u k by simp
qed

section \<open>The read-only text\<close>

definition text_bytes :: "memory \<Rightarrow> u32 \<Rightarrow> u8 option" where
  "text_bytes m b = (if text_byte m b then mem_byte m b else None)"

definition text_inv :: "cpu \<Rightarrow> bool" where
  "text_inv c \<longleftrightarrow> cpu_inv c \<and> regions_disjoint (mem_map (cpu_memory c))"

lemma mem_effect_text:
  assumes "mem_effect m ic m'" "mem_wf m" "regions_disjoint (mem_map m)"
  shows "text_bytes m' = text_bytes m"
proof
  fix b
  note f = mem_effect_frame [OF assms(1)]
  have t: "text_byte m' b = text_byte m b" by (rule text_byte_cong [OF f])
  have "mem_byte m' b = mem_byte m b" if "text_byte m b"
    using assms(1)
  proof cases
    case (read w a)
    obtain d where "m' = m\<lparr>devices := d\<rparr>" using mem_read_frame [of m a w ic] read by auto
    then show ?thesis by (intro mem_byte_cong) simp_all
  next
    case (wrote w a v)
    then show ?thesis using mem_write_text [OF assms(2,3) _ that] by simp
  qed simp
  then show "text_bytes m' b = text_bytes m b" by (simp add: text_bytes_def t)
qed

lemma step_effect_text:
  assumes "step_effect c c'" "text_inv c"
  shows "text_bytes (cpu_memory c') = text_bytes (cpu_memory c) \<and> mem_map (cpu_memory c') = mem_map (cpu_memory c) \<and>
    text_region (cpu_memory c') = text_region (cpu_memory c)"
  using assms(1)
proof cases
  case (1 m1)
  have m: "mem_wf (cpu_memory c)" "regions_disjoint (mem_map (cpu_memory c))"
    using assms(2) by (auto simp: text_inv_def cpu_inv_def)
  have m1: "mem_wf m1" "regions_disjoint (mem_map m1)"
    using mem_effect_wf [OF 1(1) m(1)] mem_effect_frame [OF 1(1)] m(2) by simp_all
  show ?thesis using mem_effect_text [OF 1(1) m] mem_effect_text [OF 1(2) m1]
    mem_effect_frame [OF 1(1)] mem_effect_frame [OF 1(2)] by simp
qed

interpretation readonly: step_constant text_inv "\<lambda>c. (mem_map (cpu_memory c), text_region (cpu_memory c), text_bytes (cpu_memory c))"
proof unfold_locales
  fix c r c' assume a: "text_inv c" "step_reporting c = (r, c')"
  then have i: "cpu_inv c" by (simp add: text_inv_def)
  note f = step_reporting_facts [OF i a(2)]
  note t = step_effect_text [OF f(3) a(1)]
  show "r \<noteq> Panic \<and> text_inv c'" using f(1,2) t a(1) by (simp add: text_inv_def)
  show "(mem_map (cpu_memory c'), text_region (cpu_memory c'), text_bytes (cpu_memory c')) =
      (mem_map (cpu_memory c), text_region (cpu_memory c), text_bytes (cpu_memory c))" using t by simp
qed

text \<open>
  C14: A program cannot write over its own code.  Over a run of any length, to a halt or to the bound,
  every byte of RAM inside the declared text region keeps its value, and the region stays declared.
\<close>

theorem text_never_changes:
  assumes "cpu_inv c" "regions_disjoint (mem_map (cpu_memory c))" "text_region (cpu_memory c) = Some (s, e)"
    and "s \<le> b" "b < e" "classify (mem_map (cpu_memory c)) b 1 = Some (Ram, off)"
  shows "text_region (cpu_memory (snd (run_until_halt c n))) = Some (s, e) \<and>
    mem_byte (cpu_memory (snd (run_until_halt c n))) b = mem_byte (cpu_memory c) b"
proof -
  let ?c' = "snd (run_until_halt c n)"
  obtain r d where r: "run_steps (unat n) c = (r, d)" by fastforce
  have d: "?c' = d" using r by (auto simp: run_until_halt_def split: rresult.split option.split)
  have "text_inv c" using assms(1,2) by (simp add: text_inv_def)
  from readonly.run_steps_obs [OF this r] have ob: "text_region (cpu_memory d) = text_region (cpu_memory c)"
    "mem_map (cpu_memory d) = mem_map (cpu_memory c)" "text_bytes (cpu_memory d) b = text_bytes (cpu_memory c) b" by simp_all
  have "text_byte (cpu_memory c) b" using assms(3-6) by (simp add: text_byte_def)
  moreover have "text_byte (cpu_memory d) b = text_byte (cpu_memory c) b" by (rule text_byte_cong [OF ob(2,1)])
  ultimately show ?thesis using ob assms(3) d by (simp add: text_bytes_def)
qed

theorem text_never_changes_witness:
  "mem_byte (cpu_memory (snd (run_until_halt (cpu_set_text_region cpu_small (Some (0x80000000, 0x80000008))) 5))) 0x80000004 = Some 0"
proof -
  let ?c = "cpu_set_text_region cpu_small (Some (0x80000000, 0x80000008))"
  have i: "cpu_inv ?c" by (intro wf_intros cpu_small_inv)
  have m: "cpu_memory ?c = mem_small\<lparr>text_region := Some (0x80000000, 0x80000008)\<rparr>"
    by (simp add: cpu_set_text_region_def mem_set_text_region_def cpu_small_def cpu_new_def)
  have c: "classify (mem_map (cpu_memory ?c)) 0x80000004 1 = Some (Ram, 4)" by (simp add: m small_eval)
  have b: "mem_byte (cpu_memory ?c) 0x80000004 = Some 0" by (simp add: m mem_byte_def small_eval)
  show ?thesis
    using text_never_changes [OF i _ _ _ _ c, of "0x80000000" "0x80000008" 5] mem_small_ok(2) b by (simp add: m)
qed

text \<open>
  C16: Running until a halt always comes back, and says exactly what happened.  From a sound machine it
  never panics; a halt is reported when fewer instructions than the bound retired and the next one
  stopped; the bound is reported when exactly that many retired.  The count moves by one for each
  instruction that retired, register zero reads zero and the machine stays sound.
\<close>

theorem run_until_halt_exact:
  assumes "cpu_inv c" "run_until_halt c n = (r, c')"
  shows "cpu_inv c' \<and> cpu_regs c' ! 0 = 0 \<and>
    ((\<exists>h xs d. r = Ok h \<and> length xs < unat n \<and> retires c xs d \<and> step_reporting d = (Err h, c') \<and>
        cpu_icount d = cpu_icount c + of_nat (length xs)) \<or>
     (\<exists>xs. r = Err (DidNotHalt n) \<and> length xs = unat n \<and> retires c xs c' \<and> cpu_icount c' = cpu_icount c + n))"
proof -
  obtain s d where s: "run_steps (unat n) c = (s, d)" by fastforce
  have d: "d = c'" using assms(2) s by (auto simp: run_until_halt_def split: rresult.splits option.splits)
  have i: "cpu_inv c'" using sound.run_until_halt_inv [OF assms] by blast
  then have x0: "cpu_regs c' ! 0 = 0" by (simp add: cpu_inv_def regs_ok_def)
  from s show ?thesis
  proof (cases rule: run_steps_cases)
    case (bound xs)
    then have "r = Err (DidNotHalt n)" using assms(2) s by (simp add: run_until_halt_def)
    then show ?thesis using bound d i x0 retires_count [OF bound(3) assms(1)] by auto
  next
    case (halt xs e h)
    then have "r = Ok h" using assms(2) s by (simp add: run_until_halt_def)
    then show ?thesis using halt d i x0 retires_count [OF halt(2) assms(1)] by blast
  next
    case (panic xs e)
    then show ?thesis using sound.run_steps_inv [OF assms(1) s] by simp
  qed
qed

theorem run_until_halt_exact_witness:
  "\<exists>h c'. run_until_halt cpu_small 3 = (Ok h, c') \<and> cpu_regs c' ! 0 = 0"
proof -
  have r: "run_until_halt cpu_small 3 = (Ok (halt_with_insn halt_reason.IllegalInsn 0x80000000 0), cpu_small)"
    using step_small by (simp add: run_until_halt_first)
  show ?thesis using run_until_halt_exact [OF cpu_small_inv r] r by blast
qed

end
