(* ===== verification/Isa.thy ===== *)
theory Isa
  imports Machine_Properties
begin

text \<open>
  The arithmetic of the base instruction set and its multiply extension, as the architecture states
  it: functions of the signed and unsigned values of the operands over the integers, wrapped to 32 bits
  once at the end.  The arms of \<open>execute\<close> in \<open>exec.rs\<close>, with their shifts, widenings and guarded
  divisions, are shown to compute exactly these.
\<close>

section \<open>The architecture's functions\<close>

definition wrap :: "int \<Rightarrow> u32" where
  "wrap k = word_of_int k"

text \<open>Division that rounds towards zero, and its remainder, which takes the sign of the dividend.\<close>

definition tdiv :: "int \<Rightarrow> int \<Rightarrow> int" where
  "tdiv a b = sgn a * sgn b * (\<bar>a\<bar> div \<bar>b\<bar>)"

definition trem :: "int \<Rightarrow> int \<Rightarrow> int" where
  "trem a b = a - tdiv a b * b"

fun isa_rr :: "op \<Rightarrow> u32 \<Rightarrow> u32 \<Rightarrow> u32 option" where
  "isa_rr Add a b = Some (wrap (uint a + uint b))"
| "isa_rr Sub a b = Some (wrap (uint a - uint b))"
| "isa_rr Sll a b = Some (wrap (uint a * 2 ^ (unat b mod 32)))"
| "isa_rr Slt a b = Some (if sint a < sint b then 1 else 0)"
| "isa_rr Sltu a b = Some (if uint a < uint b then 1 else 0)"
| "isa_rr Xor a b = Some (wrap (uint a XOR uint b))"
| "isa_rr Srl a b = Some (wrap (uint a div 2 ^ (unat b mod 32)))"
| "isa_rr Sra a b = Some (wrap (sint a div 2 ^ (unat b mod 32)))"
| "isa_rr Or a b = Some (wrap (uint a OR uint b))"
| "isa_rr And a b = Some (wrap (uint a AND uint b))"
| "isa_rr Mul a b = Some (wrap (sint a * sint b))"
| "isa_rr Mulh a b = Some (wrap ((sint a * sint b) div 2 ^ 32))"
| "isa_rr Mulhsu a b = Some (wrap ((sint a * uint b) div 2 ^ 32))"
| "isa_rr Mulhu a b = Some (wrap ((uint a * uint b) div 2 ^ 32))"
| "isa_rr Div a b = Some (if b = 0 then wrap (-1) else wrap (tdiv (sint a) (sint b)))"
| "isa_rr Divu a b = Some (if b = 0 then wrap (2 ^ 32 - 1) else wrap (uint a div uint b))"
| "isa_rr Rem a b = Some (if b = 0 then a else wrap (trem (sint a) (sint b)))"
| "isa_rr Remu a b = Some (if b = 0 then a else wrap (uint a mod uint b))"
| "isa_rr _ a b = None"

section \<open>The arms compute them\<close>

lemma shamt: "unat ((b :: u32) AND 0x1F) = unat b mod 32"
proof -
  have "b AND 0x1F = take_bit 5 b" by (simp add: mask_32(2) take_bit_eq_mask)
  then show ?thesis by (simp add: take_bit_eq_mod unat_mod)
qed

lemma wrap_uint [simp]: "wrap (uint a) = a"
  by (simp add: wrap_def)

lemma wrap_sint [simp]: "wrap (sint a) = a"
  by (simp add: wrap_def)

lemma shift_arms:
  "push_bit n a = wrap (uint a * 2 ^ n)" "drop_bit n a = wrap (uint a div 2 ^ n)"
  "signed_drop_bit n a = wrap (sint a div 2 ^ n)"
proof -
  show "push_bit n a = wrap (uint a * 2 ^ n)" by (simp add: wrap_def push_bit_eq_mult)
  have "take_bit 32 (uint a) = uint a"
    using unsigned_less [of a, where ?'a = int] by (intro take_bit_int_eq_self) simp_all
  then have "uint (drop_bit n a) = drop_bit n (uint a)" by (simp add: unsigned_drop_bit_eq)
  also have "\<dots> = uint a div 2 ^ n" by (rule drop_bit_eq_div)
  finally show "drop_bit n a = wrap (uint a div 2 ^ n)" by (metis wrap_uint)
  have "sint (signed_drop_bit n a) = sint a div 2 ^ n" by (simp add: sint_signed_drop_bit_eq drop_bit_eq_div)
  then show "signed_drop_bit n a = wrap (sint a div 2 ^ n)" by (metis wrap_sint)
qed

lemma high_half: "ucast (signed_drop_bit 32 (word_of_int k :: i64)) = wrap (k div 2 ^ 32)"
    "ucast (drop_bit 32 (word_of_int k :: u64)) = wrap (k div 2 ^ 32)"
  unfolding wrap_def drop_bit_eq_div [symmetric]
  by (rule bit_word_eqI, simp add: bit_simps ac_simps)+

lemma multiply_arms:
  "mulh_val a b = wrap ((sint a * sint b) div 2 ^ 32)"
  "mulhsu_val a b = wrap ((sint a * uint b) div 2 ^ 32)"
  "mulhu_val a b = wrap ((uint a * uint b) div 2 ^ 32)"
proof -
  have s: "(scast a :: i64) = word_of_int (sint a)" for a :: u32 by simp
  have u: "(ucast a :: 64 word) = word_of_int (uint a)" for a :: u32 by simp
  show "mulh_val a b = wrap ((sint a * sint b) div 2 ^ 32)"
    unfolding mulh_val_def s wi_hom_mult by (rule high_half(1))
  show "mulhsu_val a b = wrap ((sint a * uint b) div 2 ^ 32)"
    unfolding mulhsu_val_def s u wi_hom_mult by (rule high_half(1))
  show "mulhu_val a b = wrap ((uint a * uint b) div 2 ^ 32)"
    unfolding mulhu_val_def u wi_hom_mult by (rule high_half(2))
qed

lemma trunc_div: "k sdiv l = tdiv k l" "k smod l = trem k l" for k l :: int
proof -
  show "k sdiv l = tdiv k l" by (simp add: tdiv_def signed_divide_int_def)
  have "k smod l = sgn k * (\<bar>k\<bar> - \<bar>k\<bar> div \<bar>l\<bar> * \<bar>l\<bar>)"
    by (simp add: signed_modulo_int_def minus_div_mult_eq_mod)
  also have "\<dots> = sgn k * \<bar>k\<bar> - sgn k * (\<bar>k\<bar> div \<bar>l\<bar>) * (sgn l * l)" by (simp add: right_diff_distrib abs_sgn mult.assoc)
  also have "\<dots> = trem k l" by (simp add: trem_def tdiv_def sgn_mult_abs)
  finally show "k smod l = trem k l" .
qed

lemma divide_arms:
  "div_val a b = (if b = 0 then wrap (-1) else wrap (tdiv (sint a) (sint b)))"
  "rem_val a b = (if b = 0 then a else wrap (trem (sint a) (sint b)))"
  "divu_val a b = (if b = 0 then wrap (2 ^ 32 - 1) else wrap (uint a div uint b))"
  "remu_val a b = (if b = 0 then a else wrap (uint a mod uint b))"
proof -
  have mo: "sint MINUS_ONE = -1" "sint INT_MIN = - (2 ^ 31)" by (simp_all add: MINUS_ONE_def INT_MIN_def)
  note t = trunc_div
  show "div_val a b = (if b = 0 then wrap (-1) else wrap (tdiv (sint a) (sint b)))"
    unfolding div_val_def t using mo by (auto simp: tdiv_def wrap_def INT_MIN_def MINUS_ONE_def)
  show "rem_val a b = (if b = 0 then a else wrap (trem (sint a) (sint b)))"
    unfolding rem_val_def t using mo by (auto simp: trem_def tdiv_def wrap_def INT_MIN_def MINUS_ONE_def)
  have "uint (a div b) = uint a div uint b" "uint (a mod b) = uint a mod uint b" by (simp_all add: uint_div uint_mod)
  then have "a div b = wrap (uint a div uint b)" "a mod b = wrap (uint a mod uint b)" by (metis wrap_uint)+
  then show "divu_val a b = (if b = 0 then wrap (2 ^ 32 - 1) else wrap (uint a div uint b))"
    "remu_val a b = (if b = 0 then a else wrap (uint a mod uint b))"
    by (simp_all add: divu_val_def remu_val_def wrap_def)
qed

lemma simple_arms:
  "a + b = wrap (uint a + uint b)" "a - b = wrap (uint a - uint b)" "a * b = wrap (sint a * sint b)"
  "a XOR b = wrap (uint a XOR uint b)" "a OR b = wrap (uint a OR uint b)" "a AND b = wrap (uint a AND uint b)"
  unfolding wrap_def by (simp, simp, simp) (rule bit_word_eqI, simp add: bit_simps)+

lemma compare_arms:
  "of_bool (a <s b) = (if sint a < sint b then 1 else 0 :: u32)"
  "of_bool (a < b) = (if uint a < uint b then 1 else 0 :: u32)"
  by (simp_all add: word_sless_alt word_less_def)

text \<open>
  C17: Every register-register instruction computes the architecture's function.  On a sound machine an
  instruction of the base set's register arithmetic or of the multiply extension retires to the next
  word and changes the machine in one place, its destination register (never register zero), which
  receives the integer function of its operands wrapped to 32 bits.  Division by zero and the one
  overflowing division are covered, and neither stops the machine.
\<close>

theorem execute_register_register:
  assumes "cpu_inv c" "unat (i_rd insn) < 32" "unat (i_rs1 insn) < 32" "unat (i_rs2 insn) < 32"
    and "isa_rr (i_op insn) (cpu_regs c ! unat (i_rs1 insn)) (cpu_regs c ! unat (i_rs2 insn)) = Some v"
  shows "execute c pc word insn = (Ok (pc + 4), c\<lparr>cpu_regs := (cpu_regs c)[unat (i_rd insn) := v, 0 := 0]\<rparr>)"
proof -
  let ?a = "cpu_regs c ! unat (i_rs1 insn)" and ?b = "cpu_regs c ! unat (i_rs2 insn)"
  have l: "length (cpu_regs c) = 32" using assms(1) by (simp add: cpu_inv_def regs_ok_def)
  have r: "reg c (i_rs1 insn) = Some ?a" "reg c (i_rs2 insn) = Some ?b" using assms(3,4) l by (simp_all add: reg_def)
  have w: "retire c (i_rd insn) (Some x) (pc + 4) =
      (Ok (pc + 4), c\<lparr>cpu_regs := (cpu_regs c)[unat (i_rd insn) := x, 0 := 0]\<rparr>)" for x
    using set_reg_Some(1) [OF l assms(2)] by (simp add: retire_def)
  have "execute c pc word insn = retire c (i_rd insn) (Some v) (pc + 4)"
    using assms(5)
    by (cases "i_op insn"; simp only: execute_def exec_op.simps r on_both.simps isa_rr.simps option.simps
        shamt shift_arms multiply_arms divide_arms compare_arms; (simp add: simple_arms [symmetric])?)
  then show ?thesis using w by simp
qed

theorem execute_register_register_witness:
  "execute cpu_small 0 0 \<lparr> i_op = Div, i_rd = 5, i_rs1 = 1, i_rs2 = 2, i_imm = 0 \<rparr> =
     (Ok 4, cpu_small\<lparr>cpu_regs := (cpu_regs cpu_small)[5 := 0xFFFFFFFF, 0 := 0]\<rparr>)"
proof -
  let ?i = "\<lparr> i_op = Div, i_rd = 5, i_rs1 = 1, i_rs2 = 2, i_imm = 0 \<rparr> :: instruction"
  have "isa_rr (i_op ?i) (cpu_regs cpu_small ! unat (i_rs1 ?i)) (cpu_regs cpu_small ! unat (i_rs2 ?i)) = Some 0xFFFFFFFF"
    by (simp add: cpu_small_def cpu_new_def wrap_def)
  from execute_register_register [OF cpu_small_inv _ _ _ this, of 0 0] show ?thesis by simp
qed

section \<open>The multiply extension as one law\<close>

lemma sint_wrap: "- (2 ^ 31) \<le> k \<Longrightarrow> k < 2 ^ 31 \<Longrightarrow> sint (wrap k) = k"
  unfolding wrap_def by (simp add: sint_sbintrunc' signed_take_bit_int_eq_self)

lemma uint_wrap: "uint (wrap k) = k mod 2 ^ 32"
  by (simp add: wrap_def uint_word_of_int)

lemma sint_range: "- (2 ^ 31) \<le> sint (a :: u32)" "sint (a :: u32) < 2 ^ 31"
  using sint_greater_eq [of a] sint_less [of a] by simp_all

lemma uint_range: "0 \<le> uint (a :: u32)" "uint (a :: u32) < 2 ^ 32"
  using unsigned_less [of a, where ?'a = int] by simp_all

lemma halves:
  assumes "- (2 ^ 31 * 2 ^ 32) \<le> k" "k < 2 ^ 31 * 2 ^ 32"
  shows "k = sint (wrap (k div 2 ^ 32)) * 2 ^ 32 + uint (wrap k)"
proof -
  have "- (2 ^ 31) \<le> k div 2 ^ 32" "k div 2 ^ 32 < 2 ^ 31" using assms by simp_all
  then show ?thesis using sint_wrap uint_wrap by simp
qed

lemma trem_small: "l \<noteq> 0 \<Longrightarrow> \<bar>trem k l\<bar> < \<bar>l\<bar>"
  unfolding trunc_div(2) [symmetric] signed_modulo_int_def by (simp add: abs_mult)

lemma products:
  "sint a * sint b = sint (mulh_val a b) * 2 ^ 32 + uint (a * b)"
  "sint a * uint b = sint (mulhsu_val a b) * 2 ^ 32 + uint (a * b)"
  "uint a * uint b = uint (mulhu_val a b) * 2 ^ 32 + uint (a * b)"
proof -
  have m: "a * b = wrap (sint a * sint b)" "a * b = wrap (sint a * uint b)" "a * b = wrap (uint a * uint b)"
    by (simp_all add: wrap_def)
  have "\<bar>sint a * sint b\<bar> \<le> 2 ^ 31 * 2 ^ 31"
    unfolding abs_mult using sint_range [of a] sint_range [of b] by (intro mult_mono) simp_all
  then show "sint a * sint b = sint (mulh_val a b) * 2 ^ 32 + uint (a * b)"
    unfolding multiply_arms m(1) by (intro halves) simp_all
  have "- (2 ^ 31) * uint b \<le> sint a * uint b" "sint a * uint b \<le> (2 ^ 31 - 1) * uint b"
    using sint_range [of a] uint_range [of b] by (intro mult_right_mono; simp)+
  then show "sint a * uint b = sint (mulhsu_val a b) * 2 ^ 32 + uint (a * b)"
    unfolding multiply_arms m(2) using uint_range [of b] by (intro halves) simp_all
  let ?k = "uint a * uint b"
  have "?k \<le> uint a * 2 ^ 32" using uint_range [of a] uint_range [of b] by (intro mult_left_mono) simp_all
  also have "\<dots> < 2 ^ 32 * 2 ^ 32" using uint_range [of a] by simp
  finally have "0 \<le> ?k div 2 ^ 32" "?k div 2 ^ 32 < 2 ^ 32" by (simp_all add: pos_imp_zdiv_nonneg_iff)
  then have "uint (wrap (?k div 2 ^ 32)) = ?k div 2 ^ 32" by (simp add: uint_wrap)
  then show "?k = uint (mulhu_val a b) * 2 ^ 32 + uint (a * b)" unfolding multiply_arms m(3) by (simp add: uint_wrap)
qed

lemma quotients:
  assumes "b \<noteq> 0"
  shows "a = div_val a b * b + rem_val a b" "\<bar>sint (rem_val a b)\<bar> < \<bar>sint b\<bar>"
    "a = divu_val a b * b + remu_val a b" "uint (remu_val a b) < uint b"
proof -
  have s: "sint b \<noteq> 0" using assms by (simp only: signed_eq_0_iff not_False_eq_True)
  have w: "wrap k * b + wrap l = wrap (k * sint b + l)" "wrap k * b + wrap l = wrap (k * uint b + l)" for k l
    by (simp_all add: wrap_def)
  show "a = div_val a b * b + rem_val a b"
    using assms unfolding divide_arms by (simp add: w(1) trem_def)
  have "\<bar>trem (sint a) (sint b)\<bar> < \<bar>sint b\<bar>" by (rule trem_small [OF s])
  moreover from this have "sint (wrap (trem (sint a) (sint b))) = trem (sint a) (sint b)"
    using sint_range [of b] by (intro sint_wrap) simp_all
  ultimately show "\<bar>sint (rem_val a b)\<bar> < \<bar>sint b\<bar>" using assms unfolding divide_arms by simp
  show "a = divu_val a b * b + remu_val a b" using assms unfolding divide_arms by (simp add: w(2))
  have "0 < uint b" using assms by (simp add: word_neq_0_conv word_less_def)
  then have "uint (a mod b) < uint b" by (simp add: uint_mod)
  then show "uint (remu_val a b) < uint b" using assms by (simp add: remu_val_def)
qed

text \<open>
  Quotient and remainder fit together, and the two halves of a product make the product.  For a
  divisor that is not zero the dividend is the quotient times the divisor plus the remainder, also when
  the signed quotient overflows; the remainder is smaller than the divisor; a high-multiply result and
  the low word together are the exact 64-bit product, in all three signednesses.
\<close>

theorem multiply_divide_laws:
  "(b \<noteq> 0 \<longrightarrow> a = div_val a b * b + rem_val a b \<and> \<bar>sint (rem_val a b)\<bar> < \<bar>sint b\<bar> \<and>
      a = divu_val a b * b + remu_val a b \<and> uint (remu_val a b) < uint b) \<and>
   sint a * sint b = sint (mulh_val a b) * 2 ^ 32 + uint (a * b) \<and>
   sint a * uint b = sint (mulhsu_val a b) * 2 ^ 32 + uint (a * b) \<and>
   uint a * uint b = uint (mulhu_val a b) * 2 ^ 32 + uint (a * b)"
  using quotients [of b a] products [of a b] by blast

theorem multiply_divide_laws_witness:
  "(0x80000000 :: u32) = div_val 0x80000000 0xFFFFFFFF * 0xFFFFFFFF + rem_val 0x80000000 0xFFFFFFFF"
proof -
  have "(0xFFFFFFFF :: u32) \<noteq> 0" by simp
  then show ?thesis using multiply_divide_laws [of "0xFFFFFFFF" "0x80000000"] by blast
qed

end
