(* ===== verification/Loading.thy ===== *)
theory Loading
  imports Machine_Properties
begin

text \<open>
  Loading a parsed image into the machine: \<open>Cpu::load\<close> of \<open>exec.rs\<close> over the segments that
  \<open>parse_elf\<close> of \<open>image.rs\<close> produced.
\<close>

section \<open>One segment\<close>

definition seg_contents :: "segment \<Rightarrow> u8 list" where
  "seg_contents s = seg_bytes s @ replicate (unat (seg_mem_len s) - length (seg_bytes s)) 0"

text \<open>A segment whose memory lies in RAM, with no more file than memory.\<close>

definition in_ram :: "memory_map \<Rightarrow> segment \<Rightarrow> bool" where
  "in_ram m s \<longleftrightarrow> length (seg_bytes s) \<le> unat (seg_mem_len s) \<and> unat (seg_vaddr s) + unat (seg_mem_len s) < 2 ^ 32 \<and>
     unat (ram_base m) \<le> unat (seg_vaddr s) \<and>
     unat (seg_vaddr s) + unat (seg_mem_len s) \<le> unat (ram_base m) + unat (ram_size m)"

definition seg_off :: "memory_map \<Rightarrow> segment \<Rightarrow> nat" where
  "seg_off m s = unat (seg_vaddr s) - unat (ram_base m)"

lemma length_seg_contents: "length (seg_bytes s) \<le> unat (seg_mem_len s) \<Longrightarrow> length (seg_contents s) = unat (seg_mem_len s)"
  by (simp add: seg_contents_def)

lemma slice_put_append:
  "at + length a + length b \<le> length xs \<Longrightarrow>
     slice_put (slice_put xs at a) (at + length a) b = slice_put xs at (a @ b)"
  by (simp add: slice_put_def ac_simps)

lemma mem_load_image_Ok:
  assumes "mem_wf m" "unat (ram_base (mem_map m)) \<le> unat a"
    "unat a + length dat \<le> unat (ram_base (mem_map m)) + unat (ram_size (mem_map m))"
  shows "mem_load_image m dat a = (Ok (), m\<lparr>ram := slice_put (ram m) (unat a - unat (ram_base (mem_map m))) dat\<rparr>)"
proof -
  have "unat (a - ram_base (mem_map m)) = unat a - unat (ram_base (mem_map m))"
    using assms(2) by (simp add: unat_sub word_le_nat_alt)
  moreover have "length (ram m) = unat (ram_size (mem_map m))" using assms(1) by (simp add: mem_wf_def)
  ultimately show ?thesis using assms(2,3) by (simp add: mem_load_image_def Let_def word_less_nat_alt)
qed

lemma mem_load_image_Ok_frame:
  "mem_load_image m dat a = (Ok u, m') \<Longrightarrow> mem_map m' = mem_map m"
  by (auto simp: mem_load_image_def Let_def split: if_splits)

definition place :: "memory_map \<Rightarrow> segment \<Rightarrow> u8 list \<Rightarrow> u8 list" where
  "place m s r = slice_put r (seg_off m s) (seg_contents s)"

lemma load_segments_Cons:
  assumes "mem_wf m" "in_ram (mem_map m) s"
  shows "load_segments m (s # ss) = load_segments (m\<lparr>ram := place (mem_map m) s (ram m)\<rparr>) ss"
proof -
  let ?b = "ram_base (mem_map m)" and ?n = "length (seg_bytes s)"
  let ?off = "unat (seg_vaddr s) - unat ?b" and ?tail = "unat (seg_mem_len s) - ?n"
  let ?m1 = "m\<lparr>ram := slice_put (ram m) ?off (seg_bytes s)\<rparr>"
  have r: "?n \<le> unat (seg_mem_len s)" "unat (seg_vaddr s) + unat (seg_mem_len s) < 2 ^ 32" "unat ?b \<le> unat (seg_vaddr s)"
     "unat (seg_vaddr s) + unat (seg_mem_len s) \<le> unat ?b + unat (ram_size (mem_map m))"
    using assms(2) by (simp_all add: in_ram_def)
  have len: "length (ram m) = unat (ram_size (mem_map m))" using assms(1) by (simp add: mem_wf_def)
  have l1: "mem_load_image m (seg_bytes s) (seg_vaddr s) = (Ok (), ?m1)"
    using mem_load_image_Ok [OF assms(1) r(3), of "seg_bytes s"] r(1,4) by simp
  have wf1: "mem_wf ?m1" using mem_load_image_wf [OF assms(1), of "seg_bytes s" "seg_vaddr s"] l1 by simp
  show ?thesis
  proof (cases "0 < ?tail")
    case True
    have "unat (of_nat ?n :: u32) = ?n" using r(1,2) by (simp add: unat_of_nat take_bit_nat_eq_self)
    then have a: "unat (seg_vaddr s + of_nat ?n) = unat (seg_vaddr s) + ?n"
      using r(1,2) unat_add_lem [of "seg_vaddr s" "of_nat ?n"] by simp
    have "mem_load_image ?m1 (replicate ?tail 0) (seg_vaddr s + of_nat ?n) =
        (Ok (), ?m1\<lparr>ram := slice_put (ram ?m1) (?off + ?n) (replicate ?tail 0)\<rparr>)"
      using mem_load_image_Ok [OF wf1, of "seg_vaddr s + of_nat ?n" "replicate ?tail 0"] r a True by simp
    moreover have "slice_put (ram ?m1) (?off + ?n) (replicate ?tail 0) = place (mem_map m) s (ram m)"
      unfolding place_def seg_off_def seg_contents_def
      using slice_put_append [of ?off "seg_bytes s" "replicate ?tail 0" "ram m"] r len by simp
    ultimately show ?thesis using l1 True r(1) by simp
  next
    case False
    then have "seg_contents s = seg_bytes s" by (simp add: seg_contents_def)
    then have "?m1 = m\<lparr>ram := place (mem_map m) s (ram m)\<rparr>" by (simp add: place_def seg_off_def)
    then show ?thesis using l1 False r(1) by simp
  qed
qed

lemma length_place:
  assumes "in_ram mm s" "length r = unat (ram_size mm)"
  shows "length (place mm s r) = unat (ram_size mm)"
proof -
  have "seg_off mm s + length (seg_contents s) \<le> length r"
    using assms by (auto simp: in_ram_def seg_off_def length_seg_contents)
  then show ?thesis using assms(2) by (simp add: place_def)
qed

lemma load_segments_fold:
  assumes "mem_wf m" "list_all (in_ram (mem_map m)) ss"
  shows "load_segments m ss = (Ok (), m\<lparr>ram := fold (place (mem_map m)) ss (ram m)\<rparr>)"
  using assms
proof (induction ss arbitrary: m)
  case (Cons s ss)
  let ?m = "m\<lparr>ram := place (mem_map m) s (ram m)\<rparr>"
  have i: "in_ram (mem_map m) s" using Cons.prems(2) by simp
  have "mem_wf ?m" using Cons.prems(1) length_place [OF i, of "ram m"] by (simp add: mem_wf_def)
  then show ?case using Cons.IH [of ?m] Cons.prems load_segments_Cons [OF Cons.prems(1) i] by simp
qed simp

section \<open>All of them\<close>

definition seg_apart :: "segment \<Rightarrow> segment \<Rightarrow> bool" where
  "seg_apart s t \<longleftrightarrow> unat (seg_vaddr s) + unat (seg_mem_len s) \<le> unat (seg_vaddr t) \<or>
     unat (seg_vaddr t) + unat (seg_mem_len t) \<le> unat (seg_vaddr s)"

lemma fold_place:
  assumes "list_all (in_ram mm) ss" "length r = unat (ram_size mm)"
  shows "length (fold (place mm) ss r) = length r"
    and "at + n \<le> length r \<Longrightarrow>
      (\<forall>s\<in>set ss. at + n \<le> seg_off mm s \<or> seg_off mm s + unat (seg_mem_len s) \<le> at) \<Longrightarrow>
      take n (drop at (fold (place mm) ss r)) = take n (drop at r)"
proof -
  show "length (fold (place mm) ss r) = length r"
    using assms by (induction ss arbitrary: r) (simp_all add: length_place)
  show "take n (drop at (fold (place mm) ss r)) = take n (drop at r)"
    if "at + n \<le> length r" "\<forall>s\<in>set ss. at + n \<le> seg_off mm s \<or> seg_off mm s + unat (seg_mem_len s) \<le> at"
    using assms that
  proof (induction ss arbitrary: r)
    case (Cons s ss)
    have i: "in_ram mm s" using Cons.prems(1) by simp
    have "take n (drop at (place mm s r)) = take n (drop at r)"
      unfolding place_def using Cons.prems(2-) i
      by (intro slice_put_disjoint) (auto simp: in_ram_def seg_off_def length_seg_contents)
    then show ?case using Cons.IH [of "place mm s r"] Cons.prems length_place [OF i] by simp
  qed simp
qed

lemma fold_place_contents:
  assumes "list_all (in_ram mm) ss" "length r = unat (ram_size mm)" "sorted_wrt seg_apart ss" "s \<in> set ss"
  shows "take (unat (seg_mem_len s)) (drop (seg_off mm s) (fold (place mm) ss r)) = seg_contents s"
  using assms
proof (induction ss arbitrary: r)
  case (Cons t ss)
  have i: "in_ram mm t" and iss: "list_all (in_ram mm) ss" using Cons.prems(1) by simp_all
  note l = length_place [OF i Cons.prems(2)]
  show ?case
  proof (cases "s \<in> set ss")
    case True
    then show ?thesis using Cons.IH [OF iss l] Cons.prems(3) by simp
  next
    case False
    then have st: "s = t" using Cons.prems(4) by simp
    have b: "seg_off mm t + unat (seg_mem_len t) \<le> unat (ram_size mm)" "length (seg_contents t) = unat (seg_mem_len t)"
      using i by (auto simp: in_ram_def seg_off_def length_seg_contents)
    have "seg_off mm t + unat (seg_mem_len t) \<le> seg_off mm u \<or> seg_off mm u + unat (seg_mem_len u) \<le> seg_off mm t"
      if "u \<in> set ss" for u
    proof -
      have "seg_apart t u" "in_ram mm u" using Cons.prems(1,3) that by (simp_all add: list_all_iff)
      then show ?thesis using i by (auto simp: seg_apart_def seg_off_def in_ram_def)
    qed
    then have "take (unat (seg_mem_len t)) (drop (seg_off mm t) (fold (place mm) ss (place mm t r))) =
        take (unat (seg_mem_len t)) (drop (seg_off mm t) (place mm t r))"
      using b l by (intro fold_place(2) [OF iss]) simp_all
    then show ?thesis using st b Cons.prems(2) slice_put_same [of "seg_off mm t" "seg_contents t" r]
      by (simp flip: place_def)
  qed
qed simp

lemma load_segments_no_panic:
  assumes "list_all (\<lambda>s. length (seg_bytes s) \<le> unat (seg_mem_len s)) ss"
  shows "fst (load_segments m ss) \<noteq> Panic"
  using assms
proof (induction ss arbitrary: m)
  case (Cons s ss)
  obtain r m1 where l: "mem_load_image m (seg_bytes s) (seg_vaddr s) = (r, m1)" by fastforce
  have np: "r \<noteq> Panic" using mem_load_image_no_panic [of m "seg_bytes s" "seg_vaddr s"] l by simp
  let ?n = "unat (seg_mem_len s) - length (seg_bytes s)"
  obtain r2 m2 where l2: "mem_load_image m1 (replicate ?n 0) (seg_vaddr s + of_nat (length (seg_bytes s))) = (r2, m2)" by fastforce
  have np2: "r2 \<noteq> Panic" using mem_load_image_no_panic [of m1 "replicate ?n 0"] l2 by (metis fst_conv)
  show ?case using Cons l l2 np np2 by (cases r; cases r2) (simp_all add: Let_def)
qed simp

text \<open>
  C24: Loading a parsed file puts every segment in its place.  Loading never panics on what the parser
  accepted.  When the segments lie in RAM and do not overlap, loading succeeds: the machine is at the
  image's entry with no stale decoded instructions, each segment's memory is its bytes and then zeroes,
  whatever a reused machine held there, and RAM outside the segments is unchanged.
\<close>

theorem load_places_segments:
  assumes "parse_elf bs = Ok img" "cpu_inv c"
  shows "fst (cpu_load c img) \<noteq> Panic \<and>
    (list_all (in_ram (mem_map (cpu_memory c))) (img_segments img) \<and> sorted_wrt seg_apart (img_segments img) \<longrightarrow>
      (\<exists>c'. cpu_load c img = (Ok (), c') \<and> cpu_inv c' \<and> cpu_pc c' = img_entry img \<and> cpu_cache c' = None \<and>
        (\<forall>s\<in>set (img_segments img).
          take (unat (seg_mem_len s)) (drop (seg_off (mem_map (cpu_memory c)) s) (ram (cpu_memory c'))) = seg_contents s) \<and>
        (\<forall>i<length (ram (cpu_memory c)). (\<forall>s\<in>set (img_segments img).
            i < seg_off (mem_map (cpu_memory c)) s \<or> seg_off (mem_map (cpu_memory c)) s + unat (seg_mem_len s) \<le> i) \<longrightarrow>
          ram (cpu_memory c') ! i = ram (cpu_memory c) ! i)))"
proof -
  let ?m = "cpu_memory c" and ?ss = "img_segments img"
  let ?r = "fold (place (mem_map ?m)) ?ss (ram ?m)"
  have wf: "mem_wf ?m" using assms(2) by (simp add: cpu_inv_def)
  have len: "length (ram ?m) = unat (ram_size (mem_map ?m))" using wf by (simp add: mem_wf_def)
  have "list_all (\<lambda>s. length (seg_bytes s) \<le> unat (seg_mem_len s)) ?ss"
    using parse_elf_segments(3) [OF assms(1)] by (simp add: list_all_iff segment_of_def)
  then have np: "fst (cpu_load c img) \<noteq> Panic"
    using load_segments_no_panic [of ?ss ?m] by (auto simp: cpu_load_def Let_def split: prod.splits rresult.splits)
  have "\<exists>c'. cpu_load c img = (Ok (), c') \<and> cpu_inv c' \<and> cpu_pc c' = img_entry img \<and> cpu_cache c' = None \<and> ram (cpu_memory c') = ?r"
    if a: "list_all (in_ram (mem_map ?m)) ?ss"
  proof -
    note l = load_segments_fold [OF wf a]
    have "mem_wf (?m\<lparr>ram := ?r\<rparr>)" using wf fold_place(1) [OF a len] len by (simp add: mem_wf_def)
    then show ?thesis using l assms(2) by (simp add: cpu_load_def Let_def cpu_inv_def regs_ok_def)
  qed
  moreover have "take (unat (seg_mem_len s)) (drop (seg_off (mem_map ?m) s) ?r) = seg_contents s"
    if "list_all (in_ram (mem_map ?m)) ?ss" "sorted_wrt seg_apart ?ss" "s \<in> set ?ss" for s
    by (rule fold_place_contents [OF that(1) len that(2,3)])
  moreover have "?r ! i = ram ?m ! i"
    if a: "list_all (in_ram (mem_map ?m)) ?ss" and i: "i < length (ram ?m)"
      and o: "\<forall>s\<in>set ?ss. i < seg_off (mem_map ?m) s \<or> seg_off (mem_map ?m) s + unat (seg_mem_len s) \<le> i" for i
  proof -
    have "take 1 (drop i ?r) = take 1 (drop i (ram ?m))"
      using fold_place(2) [OF a len, of i 1] i o by (simp add: Suc_le_eq)
    then show ?thesis using slice_1 [of i ?r] slice_1 [of i "ram ?m"] i fold_place(1) [OF a len] by simp
  qed
  ultimately show ?thesis using np by (metis (no_types, lifting))
qed

theorem load_places_segments_witness:
  "\<exists>img c'. parse_elf elf_small = Ok img \<and> cpu_load cpu_small img = (Ok (), c') \<and>
     take 8 (ram (cpu_memory c')) = [0x13, 0, 0, 0, 0, 0, 0, 0]"
proof -
  let ?img = "\<lparr> img_entry = 0x80000000,
     img_segments = [\<lparr> seg_vaddr = 0x80000000, seg_bytes = [0x13, 0, 0, 0], seg_mem_len = 8, seg_executable = True \<rparr>],
     img_symbols = [] \<rparr> :: image"
  have m: "mem_map (cpu_memory cpu_small) = map_small" by (simp add: cpu_small_def cpu_new_def mem_small_def memory_new_def)
  have four: "replicate 4 (0 :: u8) = [0, 0, 0, 0]" by (simp add: numeral_eq_Suc)
  have "list_all (in_ram map_small) (img_segments ?img) \<and> sorted_wrt seg_apart (img_segments ?img)"
    by (simp add: in_ram_def map_small_def)
  then obtain c' where "cpu_load cpu_small ?img = (Ok (), c')"
      "\<forall>s\<in>set (img_segments ?img). take (unat (seg_mem_len s)) (drop (seg_off map_small s) (ram (cpu_memory c'))) = seg_contents s"
    using load_places_segments [OF parse_elf_small cpu_small_inv] unfolding m by blast
  moreover from this(2) have "take 8 (ram (cpu_memory c')) = [0x13, 0, 0, 0, 0, 0, 0, 0]"
    using four by (simp add: seg_off_def map_small_def seg_contents_def)
  ultimately show ?thesis using parse_elf_small by blast
qed

end
