(* ===== verification/Text_Format.thy ===== *)
theory Text_Format
  imports Prelude
begin

text \<open>
  The number formats of the standard library that the trace lines, the snapshot headers and the
  reports are made of: decimal counts, fixed-width lowercase hexadecimal, and splitting a line at a
  separator.  Text is the list of its bytes.
\<close>

section \<open>Decimal\<close>

text \<open>The bytes of a literal.\<close>

definition ascii :: "string \<Rightarrow> u8 list" where
  "ascii s = map of_char s"

definition digit_byte :: "nat \<Rightarrow> u8" where
  "digit_byte d = of_nat (48 + d)"

fun to_decimal :: "nat \<Rightarrow> u8 list" where
  "to_decimal n = (if n < 10 then [digit_byte n] else to_decimal (n div 10) @ [digit_byte (n mod 10)])"

declare to_decimal.simps [simp del]

definition is_ascii_digit :: "u8 \<Rightarrow> bool" where
  "is_ascii_digit b \<longleftrightarrow> 48 \<le> b \<and> b \<le> 57"

text \<open>
  The loop of the standard integer parser below a limit, which gives up on a byte that is no digit and
  on overflow, and the parser itself, which takes one leading plus sign.
\<close>

fun decimal_loop :: "nat \<Rightarrow> nat \<Rightarrow> u8 list \<Rightarrow> nat option" where
  "decimal_loop lim acc [] = Some acc"
| "decimal_loop lim acc (b # bs) =
     (if \<not> is_ascii_digit b then None
      else let n = acc * 10 + (unat b - 48) in if n < lim then decimal_loop lim n bs else None)"

definition parse_uint :: "nat \<Rightarrow> u8 list \<Rightarrow> nat option" where
  "parse_uint lim s =
     (let ds = (case s of b # r \<Rightarrow> if b = 43 \<and> r \<noteq> [] then r else s | [] \<Rightarrow> [])
      in if ds = [] then None else decimal_loop lim 0 ds)"

definition parse_u64 :: "u8 list \<Rightarrow> u64 option" where
  "parse_u64 s = map_option of_nat (parse_uint (2 ^ 64) s)"

definition parse_u32 :: "u8 list \<Rightarrow> u32 option" where
  "parse_u32 s = map_option of_nat (parse_uint (2 ^ 32) s)"

lemma unat_byte: "n < 256 \<Longrightarrow> unat (of_nat n :: u8) = n"
  by (simp add: unat_of_nat take_bit_nat_eq_self)

lemma unat_digit_byte: "d < 10 \<Longrightarrow> unat (digit_byte d) = 48 + d"
  unfolding digit_byte_def by (rule unat_byte) simp

lemma digit_byte_digit: "d < 10 \<Longrightarrow> is_ascii_digit (digit_byte d)"
  using unat_digit_byte [of d] by (simp add: is_ascii_digit_def word_le_nat_alt)

lemma decimal_loop_append:
  "decimal_loop lim acc (xs @ ys) = Option.bind (decimal_loop lim acc xs) (\<lambda>n. decimal_loop lim n ys)"
  by (induction lim acc xs rule: decimal_loop.induct) (simp_all add: Let_def)

lemma decimal_loop_to_decimal: "n < lim \<Longrightarrow> decimal_loop lim 0 (to_decimal n) = Some n"
proof (induction n rule: to_decimal.induct)
  case (1 n)
  have d: "n mod 10 < 10" by simp
  show ?case
  proof (cases "n < 10")
    case True
    then show ?thesis using 1(2) unat_digit_byte digit_byte_digit by (simp add: to_decimal.simps)
  next
    case False
    then have "decimal_loop lim 0 (to_decimal (n div 10)) = Some (n div 10)" using 1 by simp
    moreover have "n div 10 * 10 + n mod 10 = n" by simp
    ultimately show ?thesis using False 1(2) unat_digit_byte [OF d] digit_byte_digit [OF d]
      by (subst to_decimal.simps) (simp add: decimal_loop_append)
  qed
qed

lemma to_decimal_digits: "b \<in> set (to_decimal n) \<Longrightarrow> is_ascii_digit b"
proof (induction n rule: to_decimal.induct)
  case (1 n)
  then show ?case using digit_byte_digit [of n] digit_byte_digit [of "n mod 10"]
    by (subst (asm) (2) to_decimal.simps) (auto split: if_splits)
qed

lemma to_decimal_not_Nil: "to_decimal n \<noteq> []"
  by (subst to_decimal.simps) simp

lemma parse_uint_to_decimal: "n < lim \<Longrightarrow> parse_uint lim (to_decimal n) = Some n"
proof -
  assume n: "n < lim"
  obtain b r where br: "to_decimal n = b # r" using to_decimal_not_Nil [of n] by (cases "to_decimal n") auto
  have "is_ascii_digit b" using to_decimal_digits [of b n] br by simp
  then have "b \<noteq> 43" by (auto simp: is_ascii_digit_def)
  then show ?thesis using decimal_loop_to_decimal [OF n] br by (simp add: parse_uint_def del: decimal_loop.simps)
qed

lemma parse_u64_to_decimal: "parse_u64 (to_decimal (unat n)) = Some n"
  using parse_uint_to_decimal [of "unat n" "2 ^ 64"] unsigned_less [of n, where ?'a = nat] by (simp add: parse_u64_def)

lemma parse_u32_to_decimal: "parse_u32 (to_decimal (unat n)) = Some n"
  using parse_uint_to_decimal [of "unat n" "2 ^ 32"] unsigned_less [of n, where ?'a = nat] by (simp add: parse_u32_def)

text \<open>A signed integer is displayed with its sign in front.\<close>

definition show_int :: "int \<Rightarrow> u8 list" where
  "show_int i = (if i < 0 then 45 # to_decimal (nat (- i)) else to_decimal (nat i))"

lemma show_int_bytes: "b \<in> set (show_int i) \<Longrightarrow> is_ascii_digit b \<or> b = 45"
  by (auto simp: show_int_def to_decimal_digits split: if_splits)

section \<open>Hexadecimal\<close>

definition hex_byte :: "nat \<Rightarrow> u8" where
  "hex_byte d = (if d < 10 then of_nat (48 + d) else of_nat (87 + d))"

text \<open>\<open>{:0kx}\<close> of a value of at most \<open>k\<close> digits.\<close>

fun to_hex :: "nat \<Rightarrow> nat \<Rightarrow> u8 list" where
  "to_hex 0 n = []"
| "to_hex (Suc k) n = to_hex k (n div 16) @ [hex_byte (n mod 16)]"

definition is_hex_digit :: "u8 \<Rightarrow> bool" where
  "is_hex_digit b \<longleftrightarrow> is_ascii_digit b \<or> 97 \<le> b \<and> b \<le> 102"

definition hex_value :: "u8 \<Rightarrow> nat" where
  "hex_value b = (if is_ascii_digit b then unat b - 48 else unat b - 87)"

definition from_hex :: "u8 list \<Rightarrow> nat" where
  "from_hex bs = foldl (\<lambda>acc b. acc * 16 + hex_value b) 0 bs"

lemma hex_byte_unat: "d < 16 \<Longrightarrow> unat (hex_byte d) = (if d < 10 then 48 + d else 87 + d)"
  using unat_byte [of "48 + d"] unat_byte [of "87 + d"] by (simp add: hex_byte_def)

lemma hex_byte_ok: "d < 16 \<Longrightarrow> is_hex_digit (hex_byte d) \<and> hex_value (hex_byte d) = d"
  using hex_byte_unat [of d] by (auto simp: is_hex_digit_def is_ascii_digit_def hex_value_def word_le_nat_alt)

lemma hex_value_ok: "is_hex_digit b \<Longrightarrow> hex_value b < 16 \<and> hex_byte (hex_value b) = b"
proof -
  assume h: "is_hex_digit b"
  then have v: "hex_value b < 16" by (auto simp: is_hex_digit_def is_ascii_digit_def hex_value_def word_le_nat_alt)
  have "unat (hex_byte (hex_value b)) = unat b"
    using hex_byte_unat [OF v] h by (auto simp: is_hex_digit_def is_ascii_digit_def hex_value_def word_le_nat_alt)
  then show ?thesis using v by (simp add: word_unat_eq_iff)
qed

lemma length_to_hex [simp]: "length (to_hex k n) = k"
  by (induction k n rule: to_hex.induct) simp_all

lemma to_hex_digits: "list_all is_hex_digit (to_hex k n)"
  by (induction k n rule: to_hex.induct) (simp_all add: hex_byte_ok)

lemma from_to_hex: "n < 16 ^ k \<Longrightarrow> from_hex (to_hex k n) = n"
proof (induction k n rule: to_hex.induct)
  case (2 k n)
  then have "n div 16 < 16 ^ k" by (simp add: div_less_iff_less_mult mult.commute)
  then show ?case using 2 hex_byte_ok [of "n mod 16"] by (simp add: from_hex_def)
qed (simp add: from_hex_def)

lemma to_from_hex: "list_all is_hex_digit bs \<Longrightarrow> from_hex bs < 16 ^ length bs \<and> to_hex (length bs) (from_hex bs) = bs"
proof (induction bs rule: rev_induct)
  case Nil
  then show ?case by (simp add: from_hex_def)
next
  case (snoc b bs)
  have e: "from_hex (bs @ [b]) = from_hex bs * 16 + hex_value b" by (simp add: from_hex_def)
  have b: "hex_value b < 16" "hex_byte (hex_value b) = b" using hex_value_ok [of b] snoc.prems by auto
  have i: "from_hex bs < 16 ^ length bs" "to_hex (length bs) (from_hex bs) = bs" using snoc by auto
  have "from_hex bs * 16 + hex_value b < 16 ^ Suc (length bs)" using i(1) b(1) by simp
  moreover have "(from_hex bs * 16 + hex_value b) div 16 = from_hex bs" "(from_hex bs * 16 + hex_value b) mod 16 = hex_value b"
    using b(1) by simp_all
  ultimately show ?case unfolding e using i(2) b(2) by simp
qed

section \<open>Fields\<close>

fun split_at :: "u8 \<Rightarrow> u8 list \<Rightarrow> u8 list list" where
  "split_at c [] = [[]]"
| "split_at c (b # bs) =
     (if b = c then [] # split_at c bs
      else (case split_at c bs of f # fs \<Rightarrow> (b # f) # fs | [] \<Rightarrow> [[b]]))"

fun join_with :: "u8 \<Rightarrow> u8 list list \<Rightarrow> u8 list" where
  "join_with c [] = []"
| "join_with c [f] = f"
| "join_with c (f # fs) = f @ c # join_with c fs"

lemma split_at_not_Nil: "split_at c bs \<noteq> []"
  by (induction bs) (auto split: list.split)

lemma join_split: "join_with c (split_at c bs) = bs"
proof (induction bs)
  case (Cons b bs)
  obtain f fs where f: "split_at c bs = f # fs" using split_at_not_Nil by (cases "split_at c bs") auto
  then show ?case using Cons by (cases fs) auto
qed simp

lemma split_no_sep: "c \<notin> set f \<Longrightarrow> split_at c f = [f]"
  by (induction f) auto

lemma split_append: "c \<notin> set f \<Longrightarrow> split_at c (f @ c # rest) = f # split_at c rest"
  by (induction f) auto

lemma split_join: "fs \<noteq> [] \<Longrightarrow> (\<And>f. f \<in> set fs \<Longrightarrow> c \<notin> set f) \<Longrightarrow> split_at c (join_with c fs) = fs"
  by (induction c fs rule: join_with.induct) (simp_all add: split_no_sep split_append)

text \<open>
  \<open>str::lines\<close>: a line ends at a line feed, which takes a carriage return before it along; what follows
  the last line feed is a line if it is not empty.
\<close>

definition strip_cr :: "u8 list \<Rightarrow> u8 list" where
  "strip_cr l = (if l \<noteq> [] \<and> last l = 13 then butlast l else l)"

definition text_lines :: "u8 list \<Rightarrow> u8 list list" where
  "text_lines s = (let ps = split_at 10 s in
     map strip_cr (butlast ps) @ (if last ps = [] then [] else [last ps]))"

lemma split_at_lines:
  "(\<And>l. l \<in> set ls \<Longrightarrow> c \<notin> set l) \<Longrightarrow> split_at c (concat (map (\<lambda>l. l @ [c]) ls)) = ls @ [[]]"
  by (induction ls) (simp_all add: split_append)

lemma text_lines_concat:
  assumes "\<And>l. l \<in> set ls \<Longrightarrow> 10 \<notin> set l \<and> (l = [] \<or> last l \<noteq> 13)"
  shows "text_lines (concat (map (\<lambda>l. l @ [10]) ls)) = ls"
proof -
  have "map strip_cr ls = ls" using assms by (intro map_idI) (auto simp: strip_cr_def)
  then show ?thesis using assms by (simp add: text_lines_def split_at_lines Let_def)
qed

section \<open>White space\<close>

text \<open>The white space \<open>str::trim\<close> removes, each as its UTF-8 bytes.\<close>

definition white_space :: "u8 list list" where
  "white_space = [[9], [10], [11], [12], [13], [32], [0xC2, 0x85], [0xC2, 0xA0], [0xE1, 0x9A, 0x80]] @
     map (\<lambda>b. [0xE2, 0x80, of_nat b]) [0x80..<0x8B] @
     [[0xE2, 0x80, 0xA8], [0xE2, 0x80, 0xA9], [0xE2, 0x80, 0xAF], [0xE2, 0x81, 0x9F], [0xE3, 0x80, 0x80]]"

function trim_with :: "u8 list list \<Rightarrow> u8 list \<Rightarrow> u8 list" where
  "trim_with ws bs = (case List.find (\<lambda>w. w \<noteq> [] \<and> take (length w) bs = w) ws of
     Some w \<Rightarrow> trim_with ws (drop (length w) bs) | None \<Rightarrow> bs)"
  by pat_completeness auto
termination
proof (relation "measure (length o snd)")
  fix ws :: "u8 list list" and bs w
  assume "List.find (\<lambda>w. w \<noteq> [] \<and> take (length w) bs = w) ws = Some w"
  then have w: "w \<noteq> []" "take (length w) bs = w" by (auto simp: find_Some_iff)
  then have "bs \<noteq> []" by auto
  then show "((ws, drop (length w) bs), ws, bs) \<in> measure (length o snd)" using w(1) by simp
qed simp

declare trim_with.simps [simp del]

definition str_trim_start :: "u8 list \<Rightarrow> u8 list" where
  "str_trim_start bs = trim_with white_space bs"

definition str_trim_end :: "u8 list \<Rightarrow> u8 list" where
  "str_trim_end bs = rev (trim_with (map rev white_space) (rev bs))"

definition str_trim :: "u8 list \<Rightarrow> u8 list" where
  "str_trim bs = str_trim_end (str_trim_start bs)"

section \<open>Chunks\<close>

text \<open>\<open>as_chunks\<close>: the full chunks, dropping what is left over.\<close>

function chunks :: "nat \<Rightarrow> 'a list \<Rightarrow> 'a list list" where
  "chunks n xs = (if n = 0 \<or> length xs < n then [] else take n xs # chunks n (drop n xs))"
  by pat_completeness auto
termination by (relation "measure (length o snd)") auto

declare chunks.simps [simp del]

lemma chunks_concat:
  assumes "0 < n" "\<forall>x\<in>set xs. length (f x) = n"
  shows "chunks n (concat (map f xs)) = map f xs"
  using assms(2)
proof (induction xs)
  case Nil
  then show ?case using assms(1) by (simp add: chunks.simps)
next
  case (Cons x xs)
  then show ?case using assms(1) by (subst chunks.simps) simp
qed

end
