(* ===== verification/Checkpoint.thy ===== *)
theory Checkpoint
  imports Text_Format
begin

text \<open>
  The checkpoint trace, \<open>spec/src/checkpoint.rs\<close>: what is hashed, how often a line is emitted, and the
  text of a line.  The digest is a package of its own, so it is a parameter: \<open>xxh64\<close> as a function of the
  bytes and the seed, and its streaming form as three functions.
\<close>

definition CHECKPOINT_INTERVAL :: u64 where "CHECKPOINT_INTERVAL = 4096"
definition RAM_HASH_INTERVAL :: u64 where "RAM_HASH_INTERVAL = 1048576"
definition XXH64_SEED :: u64 where "XXH64_SEED = 0"
definition REG_HASH_BYTES :: nat where "REG_HASH_BYTES = 4 + 31 * 4"

section \<open>The cadence\<close>

record trace_config =
  checkpoint_interval :: u64
  ram_hash_interval :: u64

definition trace_config_default :: trace_config where
  "trace_config_default = \<lparr> checkpoint_interval = CHECKPOINT_INTERVAL, ram_hash_interval = RAM_HASH_INTERVAL \<rparr>"

datatype trace_config_error =
    ZeroCheckpointInterval
  | ZeroRamHashInterval
  | NotAMultiple u64 u64

definition is_multiple_of :: "u64 \<Rightarrow> u64 \<Rightarrow> bool" where
  "is_multiple_of a b \<longleftrightarrow> (if b = 0 then a = 0 else a mod b = 0)"

definition config_validate :: "trace_config \<Rightarrow> (unit, trace_config_error) rresult" where
  "config_validate t =
     (if checkpoint_interval t = 0 then Err ZeroCheckpointInterval
      else if ram_hash_interval t = 0 then Err ZeroRamHashInterval
      else if \<not> is_multiple_of (ram_hash_interval t) (checkpoint_interval t)
        then Err (NotAMultiple (checkpoint_interval t) (ram_hash_interval t))
      else Ok ())"

definition is_checkpoint :: "trace_config \<Rightarrow> u64 \<Rightarrow> bool" where
  "is_checkpoint t icount \<longleftrightarrow> icount \<noteq> 0 \<and> is_multiple_of icount (checkpoint_interval t)"

definition is_ram_hash :: "trace_config \<Rightarrow> u64 \<Rightarrow> bool" where
  "is_ram_hash t icount \<longleftrightarrow> icount \<noteq> 0 \<and> is_multiple_of icount (ram_hash_interval t)"

text \<open>A remainder by zero panics.\<close>

definition next_checkpoint_after :: "trace_config \<Rightarrow> u64 \<Rightarrow> u64 option" where
  "next_checkpoint_after t icount =
     (if checkpoint_interval t = 0 then None
      else Some (icount + checkpoint_interval t - icount mod checkpoint_interval t))"

section \<open>The hashes\<close>

fun put_regs :: "u8 list \<Rightarrow> nat \<Rightarrow> u32 list \<Rightarrow> u8 list" where
  "put_regs buf i [] = buf"
| "put_regs buf i (r # rs) = put_regs (slice_put buf (4 + i * 4) (to_le_bytes 4 r)) (Suc i) rs"

definition reg_hash :: "(u8 list \<Rightarrow> u64 \<Rightarrow> u64) \<Rightarrow> u32 \<Rightarrow> u32 list \<Rightarrow> u64" where
  "reg_hash xxh64 pc regs =
     (let buf = slice_put (replicate REG_HASH_BYTES 0) 0 (to_le_bytes 4 pc)
      in xxh64 (put_regs buf 0 (drop 1 regs)) XXH64_SEED)"

definition ram_hash :: "(u8 list \<Rightarrow> u64 \<Rightarrow> u64) \<Rightarrow> u8 list \<Rightarrow> u64" where
  "ram_hash xxh64 ram = xxh64 ram XXH64_SEED"

definition fb_hash :: "(u64 \<Rightarrow> 'h) \<Rightarrow> ('h \<Rightarrow> u8 list \<Rightarrow> 'h) \<Rightarrow> ('h \<Rightarrow> u64) \<Rightarrow> u8 list \<Rightarrow> u8 list \<Rightarrow> u64" where
  "fb_hash hnew hupdate hdigest framebuffer palette =
     (let hasher = hnew XXH64_SEED;
          hasher = hupdate hasher framebuffer;
          hasher = hupdate hasher palette
      in hdigest hasher)"

section \<open>Trace lines\<close>

record checkpoint =
  ck_icount :: u64
  ck_pc :: u32
  ck_reghash :: u64
  ck_ramhash :: "u64 option"
  ck_fbhash :: "u64 option"

definition registers_only :: "u64 \<Rightarrow> u32 \<Rightarrow> u64 \<Rightarrow> checkpoint" where
  "registers_only icount pc reghash =
     \<lparr> ck_icount = icount, ck_pc = pc, ck_reghash = reghash, ck_ramhash = None, ck_fbhash = None \<rparr>"

definition with_memory :: "u64 \<Rightarrow> u32 \<Rightarrow> u64 \<Rightarrow> u64 \<Rightarrow> u64 \<Rightarrow> checkpoint" where
  "with_memory icount pc reghash ramhash fbhash =
     \<lparr> ck_icount = icount, ck_pc = pc, ck_reghash = reghash, ck_ramhash = Some ramhash, ck_fbhash = Some fbhash \<rparr>"

definition field_count :: "checkpoint \<Rightarrow> nat" where
  "field_count c = (if ck_ramhash c \<noteq> None then 5 else 3)"

definition TAB :: u8 where "TAB = 9"

definition checkpoint_display :: "checkpoint \<Rightarrow> u8 list" where
  "checkpoint_display c =
     to_decimal (unat (ck_icount c)) @ [TAB] @ to_hex 8 (unat (ck_pc c)) @ [TAB] @ to_hex 16 (unat (ck_reghash c)) @
     (case ck_ramhash c of None \<Rightarrow> [] | Some h \<Rightarrow> [TAB] @ to_hex 16 (unat h)) @
     (case ck_fbhash c of None \<Rightarrow> [] | Some h \<Rightarrow> [TAB] @ to_hex 16 (unat h))"

datatype parse_checkpoint_error =
    FieldCount nat
  | Field string "u8 list" string

definition parse_hex :: "string \<Rightarrow> u8 list \<Rightarrow> nat \<Rightarrow> (u64, parse_checkpoint_error) rresult" where
  "parse_hex field v digits =
     (if length v \<noteq> digits \<or> \<not> list_all is_hex_digit v
      then Err (Field field v (if digits = 8 then ''8 lowercase hex digits'' else ''16 lowercase hex digits''))
      else Ok (of_nat (from_hex v)))"

definition checkpoint_from_str :: "u8 list \<Rightarrow> (checkpoint, parse_checkpoint_error) rresult" where
  "checkpoint_from_str line =
     (let fields = split_at TAB line in
      if length fields \<noteq> 3 \<and> length fields \<noteq> 5 then Err (FieldCount (length fields))
      else case parse_u64 (fields ! 0) of
        None \<Rightarrow> Err (Field ''icount'' (fields ! 0) ''a decimal count'')
      | Some icount \<Rightarrow>
          if fields ! 0 \<noteq> to_decimal (unat icount)
          then Err (Field ''icount'' (fields ! 0) ''a decimal count without padding'')
          else rbind (parse_hex ''pc'' (fields ! 1) 8) (\<lambda>pc.
          rbind (parse_hex ''reghash'' (fields ! 2) 16) (\<lambda>reghash.
          if length fields = 5
          then rbind (parse_hex ''ramhash'' (fields ! 3) 16) (\<lambda>ramhash.
               rbind (parse_hex ''fbhash'' (fields ! 4) 16) (\<lambda>fbhash.
               Ok \<lparr> ck_icount = icount, ck_pc = ucast pc, ck_reghash = reghash,
                    ck_ramhash = Some ramhash, ck_fbhash = Some fbhash \<rparr>))
          else Ok \<lparr> ck_icount = icount, ck_pc = ucast pc, ck_reghash = reghash,
                    ck_ramhash = None, ck_fbhash = None \<rparr>)))"

section \<open>A line and its checkpoint\<close>

text \<open>The memory hashes are present together or not at all.\<close>

definition checkpoint_ok :: "checkpoint \<Rightarrow> bool" where
  "checkpoint_ok c \<longleftrightarrow> (ck_ramhash c = None \<longleftrightarrow> ck_fbhash c = None)"

definition checkpoint_fields :: "checkpoint \<Rightarrow> u8 list list" where
  "checkpoint_fields c =
     [to_decimal (unat (ck_icount c)), to_hex 8 (unat (ck_pc c)), to_hex 16 (unat (ck_reghash c))] @
     (case ck_ramhash c of None \<Rightarrow> [] | Some h \<Rightarrow> [to_hex 16 (unat h)]) @
     (case ck_fbhash c of None \<Rightarrow> [] | Some h \<Rightarrow> [to_hex 16 (unat h)])"

lemma display_fields: "checkpoint_display c = join_with TAB (checkpoint_fields c)"
  by (simp add: checkpoint_display_def checkpoint_fields_def split: option.split)

lemma no_tab: "TAB \<notin> set (to_decimal n)" "TAB \<notin> set (to_hex k n)"
proof -
  show "TAB \<notin> set (to_decimal n)" using to_decimal_digits [of TAB n] by (auto simp: TAB_def is_ascii_digit_def)
  show "TAB \<notin> set (to_hex k n)"
    using to_hex_digits [of k n] by (auto simp: TAB_def is_hex_digit_def is_ascii_digit_def list_all_iff)
qed

lemma split_display: "split_at TAB (checkpoint_display c) = checkpoint_fields c"
  unfolding display_fields
  by (rule split_join) (auto simp: checkpoint_fields_def no_tab split: option.splits)

lemma parse_hex_Ok:
  assumes "k \<le> 16"
  shows "parse_hex f v k = Ok w \<longleftrightarrow> v = to_hex k (unat w) \<and> unat w < 16 ^ k"
proof
  assume "parse_hex f v k = Ok w"
  then have h: "length v = k" "list_all is_hex_digit v" "w = of_nat (from_hex v)"
    by (auto simp: parse_hex_def split: if_splits)
  note t = to_from_hex [OF h(2)]
  have "(16 :: nat) ^ k \<le> 16 ^ 16" using assms by (intro power_increasing) auto
  then have "from_hex v < 2 ^ 64" using t h(1) by simp
  then have "unat w = from_hex v" using h(3) by (simp add: unat_of_nat take_bit_nat_eq_self)
  then show "v = to_hex k (unat w) \<and> unat w < 16 ^ k" using t h(1) by simp
next
  assume a: "v = to_hex k (unat w) \<and> unat w < 16 ^ k"
  then have "from_hex v = unat w" using from_to_hex by simp
  then show "parse_hex f v k = Ok w" using a to_hex_digits [of k "unat w"] by (simp add: parse_hex_def)
qed

lemma parse_hex_16: "parse_hex f v 16 = Ok w \<longleftrightarrow> v = to_hex 16 (unat w)"
  using parse_hex_Ok [of 16 f v w] unsigned_less [of w, where ?'a = nat] by simp

lemma ucast_down_up: "ucast (ucast (p :: u32) :: u64) = p"
  by (rule bit_word_eqI) (simp add: bit_simps)

lemma parse_hex_8: "parse_hex f v 8 = Ok w \<longleftrightarrow> (\<exists>p :: u32. w = ucast p \<and> v = to_hex 8 (unat p))"
proof -
  have u: "unat (ucast p :: u64) = unat p" for p :: u32
    using unsigned_less [of p, where ?'a = nat] by (simp add: unsigned_ucast_eq take_bit_nat_eq_self)
  have "unat w < 16 ^ 8 \<longleftrightarrow> (\<exists>p :: u32. w = ucast p)"
  proof
    assume "unat w < 16 ^ 8"
    then have "unat (ucast (ucast w :: u32) :: u64) = unat w" by (simp add: u unsigned_ucast_eq unsigned_take_bit_eq take_bit_nat_eq_self)
    then show "\<exists>p :: u32. w = ucast p" by (metis word_unat_eq_iff)
  next
    assume "\<exists>p :: u32. w = ucast p"
    then obtain p :: u32 where "w = ucast p" by blast
    then show "unat w < 16 ^ 8" using u [of p] unsigned_less [of p, where ?'a = nat] by simp
  qed
  then show ?thesis using parse_hex_Ok [of 8 f v w] by (auto simp: u)
qed

lemma list_of_3: "length xs = 3 \<Longrightarrow> xs = [xs ! 0, xs ! 1, xs ! 2]"
  by (auto simp: length_Suc_conv numeral_eq_Suc)

lemma list_of_5: "length xs = 5 \<Longrightarrow> xs = [xs ! 0, xs ! 1, xs ! 2, xs ! 3, xs ! 4]"
  by (auto simp: length_Suc_conv numeral_eq_Suc)

lemma from_str_display:
  assumes "checkpoint_ok c"
  shows "checkpoint_from_str (checkpoint_display c) = Ok c"
proof -
  have pc: "parse_hex ''pc'' (to_hex 8 (unat (ck_pc c))) 8 = Ok (ucast (ck_pc c))" using parse_hex_8 by blast
  have h: "parse_hex f (to_hex 16 (unat w)) 16 = Ok w" for f w using parse_hex_16 by blast
  show ?thesis
  proof (cases "ck_ramhash c")
    case None
    then have n: "ck_fbhash c = None" using assms by (simp add: checkpoint_ok_def)
    then have f: "checkpoint_fields c = [to_decimal (unat (ck_icount c)), to_hex 8 (unat (ck_pc c)), to_hex 16 (unat (ck_reghash c))]"
      using None by (simp add: checkpoint_fields_def)
    show ?thesis unfolding checkpoint_from_str_def Let_def split_display f
      using None n by (simp add: parse_u64_to_decimal pc h ucast_down_up)
  next
    case (Some r)
    then obtain b where b: "ck_fbhash c = Some b" using assms by (auto simp: checkpoint_ok_def)
    then have f: "checkpoint_fields c = [to_decimal (unat (ck_icount c)), to_hex 8 (unat (ck_pc c)),
        to_hex 16 (unat (ck_reghash c)), to_hex 16 (unat r), to_hex 16 (unat b)]"
      using Some by (simp add: checkpoint_fields_def)
    show ?thesis unfolding checkpoint_from_str_def Let_def split_display f
      using Some b by (simp add: parse_u64_to_decimal pc h ucast_down_up)
  qed
qed

lemma display_from_str:
  assumes "checkpoint_from_str line = Ok c"
  shows "line = checkpoint_display c \<and> checkpoint_ok c"
proof -
  let ?f = "split_at TAB line"
  obtain ic where n: "length ?f = 3 \<or> length ?f = 5" and ic: "parse_u64 (?f ! 0) = Some ic" "?f ! 0 = to_decimal (unat ic)"
    using assms by (auto simp: checkpoint_from_str_def Let_def split: if_splits option.splits)
  have "(length ?f = 3 \<and> (\<exists>pc h. ?f ! 1 = to_hex 8 (unat pc) \<and> ?f ! 2 = to_hex 16 (unat h) \<and>
        c = \<lparr> ck_icount = ic, ck_pc = pc, ck_reghash = h, ck_ramhash = None, ck_fbhash = None \<rparr>)) \<or>
     (length ?f = 5 \<and> (\<exists>pc h r b. ?f ! 1 = to_hex 8 (unat pc) \<and> ?f ! 2 = to_hex 16 (unat h) \<and>
        ?f ! 3 = to_hex 16 (unat r) \<and> ?f ! 4 = to_hex 16 (unat b) \<and>
        c = \<lparr> ck_icount = ic, ck_pc = pc, ck_reghash = h, ck_ramhash = Some r, ck_fbhash = Some b \<rparr>))"
    using assms n ic
    by (auto simp: checkpoint_from_str_def Let_def rbind_Ok_iff parse_hex_8 parse_hex_16 ucast_down_up split: if_splits)
  then have "?f = checkpoint_fields c \<and> checkpoint_ok c"
  proof (elim disjE conjE exE)
    fix pc h assume l: "length ?f = 3" "?f ! 1 = to_hex 8 (unat pc)" "?f ! 2 = to_hex 16 (unat h)"
      and c: "c = \<lparr> ck_icount = ic, ck_pc = pc, ck_reghash = h, ck_ramhash = None, ck_fbhash = None \<rparr>"
    show ?thesis using list_of_3 [OF l(1)] unfolding ic(2) l(2,3) c by (simp add: checkpoint_fields_def checkpoint_ok_def)
  next
    fix pc h r b assume l: "length ?f = 5" "?f ! 1 = to_hex 8 (unat pc)" "?f ! 2 = to_hex 16 (unat h)"
        "?f ! 3 = to_hex 16 (unat r)" "?f ! 4 = to_hex 16 (unat b)"
      and c: "c = \<lparr> ck_icount = ic, ck_pc = pc, ck_reghash = h, ck_ramhash = Some r, ck_fbhash = Some b \<rparr>"
    show ?thesis using list_of_5 [OF l(1)] unfolding ic(2) l(2-5) c by (simp add: checkpoint_fields_def checkpoint_ok_def)
  qed
  then show ?thesis using display_fields [of c] join_split [of TAB line] by simp
qed

text \<open>
  C26: Trace lines have one spelling each.  Parsing a line gives a checkpoint exactly when the line is,
  byte for byte, what that checkpoint renders to (with both memory hashes or neither), so two engines
  whose lines parse to the same checkpoints wrote the same file.  Parsing never panics.
\<close>

theorem checkpoint_roundtrip:
  "(checkpoint_from_str line = Ok c \<longleftrightarrow> line = checkpoint_display c \<and> checkpoint_ok c) \<and>
   checkpoint_from_str line \<noteq> Panic"
proof -
  have "checkpoint_from_str line \<noteq> Panic"
    by (auto simp: checkpoint_from_str_def Let_def rbind_Panic_iff parse_hex_def split: option.split)
  then show ?thesis using from_str_display display_from_str by blast
qed

section \<open>Where checkpoints fall\<close>

lemma is_checkpoint_unat:
  "checkpoint_interval t \<noteq> 0 \<Longrightarrow> is_checkpoint t n \<longleftrightarrow> 0 < unat n \<and> unat n mod unat (checkpoint_interval t) = 0"
  unfolding is_checkpoint_def is_multiple_of_def by (metis unat_mod unat_eq_zero unat_gt_0)

text \<open>
  With a cadence that passes validation, every memory hash lands on a checkpoint; and the next
  checkpoint after a count is strictly after it, is a checkpoint, and no checkpoint lies in between,
  as long as the sum stays inside 64 bits.
\<close>

theorem cadence_correct:
  assumes "config_validate t = Ok ()" "unat n + unat (checkpoint_interval t) < 2 ^ 64"
  shows "(is_ram_hash t k \<longrightarrow> is_checkpoint t k) \<and>
    (\<exists>m. next_checkpoint_after t n = Some m \<and> n < m \<and> is_checkpoint t m \<and> (\<forall>j. n < j \<and> j < m \<longrightarrow> \<not> is_checkpoint t j))"
proof -
  let ?i = "checkpoint_interval t" and ?r = "ram_hash_interval t"
  have z: "?i \<noteq> 0" "?r \<noteq> 0" and rm: "?r mod ?i = 0"
    using assms(1) by (auto simp: config_validate_def is_multiple_of_def split: if_splits)
  have m: "unat ?r mod unat ?i = 0" using rm by (metis unat_mod unat_eq_zero)
  have i0: "0 < unat ?i" using z(1) by (simp add: unat_gt_0)
  have rh: "is_ram_hash t k \<longrightarrow> is_checkpoint t k"
  proof
    assume "is_ram_hash t k"
    then have k: "k \<noteq> 0" "k mod ?r = 0" using z(2) by (simp_all add: is_ram_hash_def is_multiple_of_def)
    then have "unat ?r dvd unat k" by (metis unat_mod unat_eq_zero dvd_eq_mod_eq_0)
    then have "unat k mod unat ?i = 0" using m by (meson dvd_eq_mod_eq_0 dvd_trans)
    then show "is_checkpoint t k" using z(1) k(1) by (simp add: is_checkpoint_unat unat_gt_0)
  qed
  let ?n = "unat n" and ?d = "unat ?i"
  let ?m = "n + ?i - n mod ?i"
  have "unat (n + ?i) = ?n + ?d" using assms(2) by (simp add: unat_add_lem [symmetric])
  moreover have "unat (n mod ?i) = ?n mod ?d" by (simp add: unat_mod)
  moreover have "?n mod ?d \<le> ?n + ?d" using mod_less_eq_dividend [of ?n ?d] by linarith
  ultimately have um: "unat ?m = ?n + ?d - ?n mod ?d" by (simp add: unat_sub word_le_nat_alt)
  have lt: "?n mod ?d < ?d" using i0 by simp
  have q: "?n + ?d - ?n mod ?d = (?n div ?d + 1) * ?d"
  proof -
    have "?n + ?d - ?n mod ?d = ?n div ?d * ?d + ?d" using div_mult_mod_eq [of ?n ?d] by linarith
    then show ?thesis by (simp add: add_mult_distrib)
  qed
  have "n < ?m" using um lt by (simp add: word_less_nat_alt)
  moreover have "is_checkpoint t ?m" using z(1) um q i0 by (simp add: is_checkpoint_unat)
  moreover have "\<not> is_checkpoint t j" if "n < j" "j < ?m" for j
  proof
    assume "is_checkpoint t j"
    then obtain e where e: "unat j = ?d * e" using z(1) by (auto simp: is_checkpoint_unat)
    have "?n < ?d * e" "?d * e < (?n div ?d + 1) * ?d" using that e um q by (simp_all add: word_less_nat_alt)
    then have "?n div ?d < e" "e < ?n div ?d + 1" using i0
      by (simp_all only: less_mult_imp_div_less mult.commute [of ?d e] mult_less_cancel2)
    then show False by simp
  qed
  ultimately show ?thesis using z(1) rh by (auto simp: next_checkpoint_after_def)
qed

theorem cadence_correct_witness:
  "\<exists>m. next_checkpoint_after trace_config_default 4096 = Some m \<and> 4096 < m \<and> is_checkpoint trace_config_default m"
proof -
  have "config_validate trace_config_default = Ok ()"
    by (simp add: config_validate_def trace_config_default_def CHECKPOINT_INTERVAL_def RAM_HASH_INTERVAL_def is_multiple_of_def)
  moreover have "unat (4096 :: u64) + unat (checkpoint_interval trace_config_default) < 2 ^ 64"
    by (simp add: trace_config_default_def CHECKPOINT_INTERVAL_def)
  ultimately show ?thesis using cadence_correct [of trace_config_default 4096] by blast
qed

section \<open>What the hashes cover\<close>

lemma put_regs_eq:
  "length buf = 4 + i * 4 + 4 * length rs \<Longrightarrow> put_regs buf i rs = take (4 + i * 4) buf @ concat (map (to_le_bytes 4) rs)"
proof (induction buf i rs rule: put_regs.induct)
  case (2 buf i r rs)
  let ?b = "slice_put buf (4 + i * 4) (to_le_bytes 4 r)"
  have l: "length ?b = length buf" using 2(2) by simp
  have "take (4 + Suc i * 4) ?b = take (4 + i * 4) buf @ to_le_bytes 4 r"
    using 2(2) by (simp add: slice_put_def)
  then show ?case using 2(1) 2(2) l by simp
qed simp

text \<open>
  The register hash is the digest of the program counter and of registers one to thirty-one, each
  as four little-endian bytes in order, and so does not depend on register zero; the framebuffer hash is
  the digest of the framebuffer followed by the palette whenever the streaming digest is the digest of
  the concatenation.
\<close>

theorem hashes_cover:
  assumes "length regs = 32" "\<And>s a b. hdigest (hupdate (hupdate (hnew s) a) b) = xxh64 (a @ b) s"
  shows "reg_hash xxh64 pc regs = xxh64 (to_le_bytes 4 pc @ concat (map (to_le_bytes 4) (drop 1 regs))) XXH64_SEED \<and>
    reg_hash xxh64 pc (regs[0 := v]) = reg_hash xxh64 pc regs \<and>
    fb_hash hnew hupdate hdigest fb pal = xxh64 (fb @ pal) XXH64_SEED"
proof -
  let ?buf = "slice_put (replicate REG_HASH_BYTES 0) 0 (to_le_bytes 4 pc)"
  have t: "take 4 ?buf = to_le_bytes 4 pc" "length ?buf = 128" by (simp_all add: slice_put_def REG_HASH_BYTES_def)
  then have "put_regs ?buf 0 (drop 1 regs) = to_le_bytes 4 pc @ concat (map (to_le_bytes 4) (drop 1 regs))"
    using put_regs_eq [of ?buf 0 "drop 1 regs"] assms(1) by simp
  then show ?thesis using assms(2) by (simp add: reg_hash_def fb_hash_def Let_def)
qed

theorem hashes_cover_witness:
  "reg_hash (\<lambda>bs s. s + of_nat (length bs)) 5 (replicate 32 0) = 128"
proof -
  let ?x = "\<lambda>bs (s :: u64). s + of_nat (length (bs :: u8 list))"
  have "reg_hash ?x 5 (replicate 32 0) = ?x (to_le_bytes 4 (5 :: u32) @ concat (map (to_le_bytes 4) (drop 1 (replicate 32 (0 :: u32))))) XXH64_SEED"
    using hashes_cover [of "replicate 32 0" "\<lambda>h. h" "\<lambda>h a. h + of_nat (length a)" "\<lambda>s. s" ?x 5] by simp
  then show ?thesis by (simp add: XXH64_SEED_def length_concat sum_list_replicate)
qed

end
