(* ===== verification/Trace.thy ===== *)
theory Trace
  imports Machine_Properties Checkpoint
begin

text \<open>
  The checkpoint emitter, \<open>refemu/src/trace.rs\<close>: one loop drives a machine to a stop, reports each
  checkpoint to an observer, and lets the observer look on before and after every instruction.  The
  loop need not end for an observer that rewinds the machine, so it is a partial function; what an
  observer must keep to is a locale, and for every observer that keeps to it the loop returns.
\<close>

section \<open>Checkpoints of a machine\<close>

text \<open>The digest package, as the functions the sources call.\<close>

record 'h digest =
  d_xxh64 :: "u8 list \<Rightarrow> u64 \<Rightarrow> u64"
  d_new :: "u64 \<Rightarrow> 'h"
  d_update :: "'h \<Rightarrow> u8 list \<Rightarrow> 'h"
  d_finish :: "'h \<Rightarrow> u64"

definition reg_hash_of :: "'h digest \<Rightarrow> cpu \<Rightarrow> u64" where
  "reg_hash_of dg c = reg_hash (d_xxh64 dg) (cpu_pc c) (cpu_regs c)"

definition ram_hash_of :: "'h digest \<Rightarrow> cpu \<Rightarrow> u64" where
  "ram_hash_of dg c = ram_hash (d_xxh64 dg) (ram (cpu_memory c))"

definition fb_hash_of :: "'h digest \<Rightarrow> cpu \<Rightarrow> u64" where
  "fb_hash_of dg c =
     fb_hash (d_new dg) (d_update dg) (d_finish dg) (framebuffer (cpu_memory c)) (palette (cpu_memory c))"

definition checkpoint_of :: "'h digest \<Rightarrow> cpu \<Rightarrow> bool \<Rightarrow> checkpoint" where
  "checkpoint_of dg c with_mem =
     (if with_mem
      then with_memory (cpu_icount c) (cpu_pc c) (reg_hash_of dg c) (ram_hash_of dg c) (fb_hash_of dg c)
      else registers_only (cpu_icount c) (cpu_pc c) (reg_hash_of dg c))"

section \<open>Observers\<close>

datatype stop = Halted halt | Budget | StopObserver

fun stop_halt :: "stop \<Rightarrow> halt option" where
  "stop_halt (Halted h) = Some h"
| "stop_halt _ = None"

datatype step_answer = Continue | Stop

record 'o observer =
  before_step :: "'o \<Rightarrow> cpu \<Rightarrow> step_answer \<times> 'o \<times> cpu"
  after_step :: "'o \<Rightarrow> cpu \<Rightarrow> u32 \<Rightarrow> instruction \<Rightarrow> step_answer \<times> 'o \<times> cpu"
  on_checkpoint :: "'o \<Rightarrow> checkpoint \<Rightarrow> 'o"

text \<open>The defaults of the trait, which are also the observer \<open>()\<close>.\<close>

definition silent_observer :: "'o observer" where
  "silent_observer = \<lparr> before_step = \<lambda>s c. (Continue, s, c), after_step = \<lambda>s c pc i. (Continue, s, c),
     on_checkpoint = \<lambda>s k. s \<rparr>"

definition option_observer :: "'o observer \<Rightarrow> 'o option observer" where
  "option_observer ob = \<lparr>
     before_step = \<lambda>s c. (case s of None \<Rightarrow> (Continue, None, c)
       | Some x \<Rightarrow> (case before_step ob x c of (a, x', c') \<Rightarrow> (a, Some x', c'))),
     after_step = \<lambda>s c pc i. (case s of None \<Rightarrow> (Continue, None, c)
       | Some x \<Rightarrow> (case after_step ob x c pc i of (a, x', c') \<Rightarrow> (a, Some x', c'))),
     on_checkpoint = \<lambda>s k. map_option (\<lambda>x. on_checkpoint ob x k) s \<rparr>"

definition both_answer :: "step_answer \<Rightarrow> step_answer \<Rightarrow> step_answer" where
  "both_answer a b = (if a = Continue \<and> b = Continue then Continue else Stop)"

definition both_observer :: "'a observer \<Rightarrow> 'b observer \<Rightarrow> ('a \<times> 'b) observer" where
  "both_observer p q = \<lparr>
     before_step = \<lambda>s c. (case before_step p (fst s) c of (a, x, c1) \<Rightarrow>
       (case before_step q (snd s) c1 of (b, y, c2) \<Rightarrow> (both_answer a b, (x, y), c2))),
     after_step = \<lambda>s c pc i. (case after_step p (fst s) c pc i of (a, x, c1) \<Rightarrow>
       (case after_step q (snd s) c1 pc i of (b, y, c2) \<Rightarrow> (both_answer a b, (x, y), c2))),
     on_checkpoint = \<lambda>s k. (on_checkpoint p (fst s) k, on_checkpoint q (snd s) k) \<rparr>"

definition collector :: "checkpoint list observer" where
  "collector = silent_observer\<lparr>on_checkpoint := \<lambda>lines k. lines @ [k]\<rparr>"

section \<open>The loop\<close>

definition notify :: "'h digest \<Rightarrow> 'o observer \<Rightarrow> trace_config \<Rightarrow> 'o \<Rightarrow> cpu \<Rightarrow> 'o" where
  "notify dg ob cfg s c =
     (if is_checkpoint cfg (cpu_icount c)
      then on_checkpoint ob s (checkpoint_of dg c (is_ram_hash cfg (cpu_icount c))) else s)"

partial_function (option) run_trace ::
  "'h digest \<Rightarrow> 'o observer \<Rightarrow> trace_config \<Rightarrow> u64 \<Rightarrow> cpu \<Rightarrow> 'o \<Rightarrow> ((stop, unit) rresult \<times> cpu \<times> 'o) option" where
  "run_trace dg ob cfg budget c s =
     (if cpu_icount c < budget then
        (case before_step ob s c of (a, s1, c1) \<Rightarrow>
           if a = Stop then Some (Ok StopObserver, c1, s1)
           else (case step_reporting c1 of (r, c2) \<Rightarrow>
             (case r of
                Err h \<Rightarrow> Some (Ok (Halted h), c2, s1)
              | Panic \<Rightarrow> Some (Panic, c2, s1)
              | Ok p \<Rightarrow>
                  (case after_step ob (notify dg ob cfg s1 c2) c2 (cpu_pc c1) (snd p) of (b, s3, c3) \<Rightarrow>
                     if b = Stop then Some (Ok StopObserver, c3, s3)
                     else run_trace dg ob cfg budget c3 s3))))
      else Some (Ok Budget, c, s))"

definition collect :: "'h digest \<Rightarrow> cpu \<Rightarrow> trace_config \<Rightarrow> u64 \<Rightarrow> (checkpoint list \<times> (stop, unit) rresult \<times> cpu) option" where
  "collect dg c cfg budget =
     map_option (\<lambda>(st, c', lines). (lines, st, c')) (run_trace dg collector cfg budget c [])"

section \<open>Watching changes nothing\<close>

definition unwatched :: "cpu \<Rightarrow> cpu" where
  "unwatched c = c\<lparr>cpu_memory := (cpu_memory c)\<lparr>watch := None\<rparr>\<rparr>"

abbreviation unwatch :: "memory \<Rightarrow> memory" where
  "unwatch m \<equiv> m\<lparr>watch := None\<rparr>"

lemma mem_read_unwatch: "mem_read (unwatch m) a w ic = map_prod id unwatch (mem_read m a w ic)"
  by (auto simp: mem_read_def check_align_def split: option.split region.split prod.split)

lemma mem_store_unwatch: "mem_store (unwatch m) r off a w v ic = map_prod id unwatch (mem_store m r off a w v ic)"
proof -
  have t: "in_text (unwatch m) a w = in_text m a w" by (simp add: in_text_def)
  show ?thesis by (cases r) (auto simp: mem_store_def t split: option.split prod.split rresult.split)
qed

lemma mem_write_unwatch: "mem_write (unwatch m) a w v ic = map_prod id unwatch (mem_write m a w v ic)"
  by (auto simp: mem_write_def check_align_def mem_store_unwatch split: option.split prod.split rresult.split)

lemma unwatched_sel [simp]: "cpu_memory (unwatched c) = unwatch (cpu_memory c)" "cpu_pc (unwatched c) = cpu_pc c"
  "cpu_regs (unwatched c) = cpu_regs c" "cpu_icount (unwatched c) = cpu_icount c" "cpu_cache (unwatched c) = cpu_cache c"
  by (simp_all add: unwatched_def)

lemma retire_unwatched: "retire (unwatched c) rd v n = map_prod id unwatched (retire c rd v n)"
  by (auto simp: retire_def set_reg_def unwatched_def split: option.split)

lemma execute_unwatched: "execute (unwatched c) pc word insn = map_prod id unwatched (execute c pc word insn)"
proof -
  have m: "(unwatched c)\<lparr>cpu_memory := unwatch m\<rparr> = unwatched (c\<lparr>cpu_memory := m\<rparr>)" for m by (simp add: unwatched_def)
  have g: "reg (unwatched c) i = reg c i" for i by (simp add: reg_def)
  have j: "jump (unwatched c) pc word rd t = map_prod id unwatched (jump c pc word rd t)" for rd t
    by (auto simp: jump_def check_target_def retire_unwatched split: option.split)
  have b: "branch (unwatched c) pc word t imm = map_prod id unwatched (branch c pc word t imm)" for t imm
    by (auto simp: branch_def check_target_def Let_def split: option.split)
  have l: "exec_load (unwatched c) pc word rd r1 imm w sx = map_prod id unwatched (exec_load c pc word rd r1 imm w sx)" for rd r1 imm w sx
    by (auto simp: exec_load_def retire_unwatched mem_read_unwatch m split: option.split prod.split rresult.split)
  have s: "exec_store (unwatched c) pc word r1 r2 imm w = map_prod id unwatched (exec_store c pc word r1 r2 imm w)" for r1 r2 imm w
    by (auto simp: exec_store_def mem_write_unwatch m split: option.split prod.split rresult.split)
  show ?thesis unfolding execute_def by (cases "i_op insn") (simp_all add: retire_unwatched j b l s g)
qed

lemma step_unwatched: "step_reporting (unwatched c) = map_prod id unwatched (step_reporting c)"
proof -
  have o1: "outside_text (unwatched c) = outside_text c" by (auto simp: outside_text_def split: option.split)
  have m: "(unwatched c)\<lparr>cpu_memory := unwatch m\<rparr> = unwatched (c\<lparr>cpu_memory := m\<rparr>)" for m by (simp add: unwatched_def)
  have f: "fetch (unwatched c) = map_prod id unwatched (fetch c)"
    by (auto simp: fetch_def Let_def mem_read_unwatch m split: option.split prod.split rresult.split)
  have u: "(unwatched d)\<lparr>cpu_icount := a, cpu_pc := b\<rparr> = unwatched (d\<lparr>cpu_icount := a, cpu_pc := b\<rparr>)" for d a b
    by (simp add: unwatched_def)
  show ?thesis
    by (auto simp: step_reporting_def Let_def o1 f execute_unwatched u split: prod.split rresult.split)
qed

interpretation unwatched: step_simulation cpu_inv unwatched
  by unfold_locales (simp add: step_unwatched)

section \<open>What an observer must keep to\<close>

text \<open>
  An observer may switch its own recording on, which is the watch, and must leave the rest of the
  machine alone.
\<close>

locale observer_laws =
  fixes ob :: "'o observer"
  assumes before_arch: "before_step ob s c = (a, s', c') \<Longrightarrow> unwatched c' = unwatched c"
    and before_inv: "before_step ob s c = (a, s', c') \<Longrightarrow> cpu_inv c \<Longrightarrow> cpu_inv c'"
    and after_arch: "after_step ob s c pc i = (a, s', c') \<Longrightarrow> unwatched c' = unwatched c"
    and after_inv: "after_step ob s c pc i = (a, s', c') \<Longrightarrow> cpu_inv c \<Longrightarrow> cpu_inv c'"
begin

lemma same_count: "unwatched c' = unwatched c \<Longrightarrow> cpu_icount c' = cpu_icount c"
  by (metis unwatched_sel(4))

text \<open>One round of the loop, in which the instruction retires and the observer lets it go on.\<close>

lemma round:
  assumes "cpu_inv c" "cpu_icount c < budget" "before_step ob s c = (a, s1, c1)" "a \<noteq> Stop"
    and "step_reporting c1 = (Ok p, c2)"
    and "after_step ob (notify dg ob cfg s1 c2) c2 (cpu_pc c1) (snd p) = (b, s3, c3)"
  shows "cpu_inv c3" "step_reporting (unwatched c) = (Ok p, unwatched c3)"
    "unat budget - unat (cpu_icount c3) < unat budget - unat (cpu_icount c)"
    "unat (cpu_icount c3) = unat (cpu_icount c) + 1"
proof -
  have i1: "cpu_inv c1" by (rule before_inv [OF assms(3,1)])
  note f = step_reporting_facts [OF i1 assms(5)]
  have i2: "cpu_inv c2" by (rule f(2))
  show "cpu_inv c3" by (rule after_inv [OF assms(6) i2])
  have u: "unwatched c1 = unwatched c" "unwatched c3 = unwatched c2"
    by (rule before_arch [OF assms(3)], rule after_arch [OF assms(6)])
  show "step_reporting (unwatched c) = (Ok p, unwatched c3)"
    using step_unwatched [of c1] assms(5) u by simp
  have n: "cpu_icount c3 = cpu_icount c + 1" using same_count [OF u(1)] same_count [OF u(2)] f(5) [OF refl] by simp
  have "unat (cpu_icount c) + 1 < 2 ^ 64"
    using assms(2) unsigned_less [of budget, where ?'a = nat] by (simp add: word_less_nat_alt)
  then show e: "unat (cpu_icount c3) = unat (cpu_icount c) + 1" unfolding n using unat_add_lem [of "cpu_icount c" 1] by simp
  show "unat budget - unat (cpu_icount c3) < unat budget - unat (cpu_icount c)"
    using assms(2) e by (simp add: word_less_nat_alt)
qed

text \<open>The loop returns, without a panic, and its stop is what the bare machine did.\<close>

lemma run_correct:
  assumes "cpu_inv c"
  shows "\<exists>st c' s'. run_trace dg ob cfg budget c s = Some (Ok st, c', s') \<and> cpu_inv c' \<and>
    (\<exists>xs d. retires (unwatched c) xs d \<and>
      (case st of
         Budget \<Rightarrow> d = unwatched c' \<and> \<not> cpu_icount c' < budget
       | StopObserver \<Rightarrow> d = unwatched c'
       | Halted h \<Rightarrow> step_reporting d = (Err h, unwatched c')))"
  using assms
proof (induction "unat budget - unat (cpu_icount c)" arbitrary: c s rule: less_induct)
  case less
  show ?case
  proof (cases "cpu_icount c < budget")
    case False
    then show ?thesis using less.prems by (subst run_trace.simps) (auto intro: retires_Nil)
  next
    case True
    obtain a s1 c1 where b: "before_step ob s c = (a, s1, c1)" by (metis prod_cases3)
    have i1: "cpu_inv c1" by (rule before_inv [OF b less.prems])
    have u1: "unwatched c1 = unwatched c" by (rule before_arch [OF b])
    obtain r c2 where st: "step_reporting c1 = (r, c2)" by fastforce
    have i2: "cpu_inv c2" and np: "r \<noteq> Panic" using step_reporting_facts(1,2) [OF i1 st] by blast+
    show ?thesis
    proof (cases "a = Stop")
      case as: True
      have "run_trace dg ob cfg budget c s = Some (Ok StopObserver, c1, s1)" using True b as by (subst run_trace.simps) simp
      then show ?thesis using i1 u1 by (auto intro!: exI [of _ "[]"] simp: retires_simps)
    next
      case go: False
      show ?thesis
      proof (cases r)
        case (Err h)
        have "run_trace dg ob cfg budget c s = Some (Ok (Halted h), c2, s1)"
          using True b go st Err by (subst run_trace.simps) simp
        moreover have "step_reporting (unwatched c) = (Err h, unwatched c2)"
          using step_unwatched [of c1] st Err u1 by simp
        ultimately show ?thesis using i2 by (auto intro!: exI [of _ "[]"] simp: retires_simps)
      next
        case Panic
        then show ?thesis using np by simp
      next
        case (Ok p)
        obtain b2 s3 c3 where af: "after_step ob (notify dg ob cfg s1 c2) c2 (cpu_pc c1) (snd p) = (b2, s3, c3)"
          by (metis prod_cases3)
        note rd = round [OF less.prems True b go st [unfolded Ok] af]
        have e: "run_trace dg ob cfg budget c s =
            (if b2 = Stop then Some (Ok StopObserver, c3, s3) else run_trace dg ob cfg budget c3 s3)"
          using True b go st Ok af by (subst run_trace.simps) simp
        show ?thesis
        proof (cases "b2 = Stop")
          case stop: True
          have "retires (unwatched c) [p] (unwatched c3)" using rd(2) by (simp add: retires_simps)
          then show ?thesis using e stop rd(1) by (intro exI [of _ StopObserver]) auto
        next
          case False
          from less.hyps [OF rd(3) rd(1), of s3] obtain t c' s' xs d where
            t: "run_trace dg ob cfg budget c3 s3 = Some (Ok t, c', s')" "cpu_inv c'" "retires (unwatched c3) xs d"
              "case t of Budget \<Rightarrow> d = unwatched c' \<and> \<not> cpu_icount c' < budget
                 | StopObserver \<Rightarrow> d = unwatched c' | Halted h \<Rightarrow> step_reporting d = (Err h, unwatched c')" by blast
          have "retires (unwatched c) (p # xs) d" using rd(2) t(3) by (rule retires.retires_Cons)
          then show ?thesis using e False t(1,2,4) by (intro exI conjI) auto
        qed
      qed
    qed
  qed
qed

end

section \<open>The observers keep to it\<close>

interpretation silent: observer_laws silent_observer
  by unfold_locales (auto simp: silent_observer_def)

interpretation collected: observer_laws collector
  by unfold_locales (auto simp: collector_def silent_observer_def)

lemma option_observer_laws: "observer_laws ob \<Longrightarrow> observer_laws (option_observer ob)"
  unfolding observer_laws_def option_observer_def
  by (auto split: option.splits prod.splits)

lemma both_observer_laws:
  assumes "observer_laws p" "observer_laws q"
  shows "observer_laws (both_observer p q)"
proof
  fix s c a s' c' assume b: "before_step (both_observer p q) s c = (a, s', c')"
  obtain a1 x c1 where p1: "before_step p (fst s) c = (a1, x, c1)" by (metis prod_cases3)
  obtain a2 y c2 where q1: "before_step q (snd s) c1 = (a2, y, c2)" by (metis prod_cases3)
  have c': "c' = c2" using b p1 q1 by (simp add: both_observer_def)
  show "unwatched c' = unwatched c"
    using observer_laws.before_arch [OF assms(1) p1] observer_laws.before_arch [OF assms(2) q1] c' by simp
  show "cpu_inv c \<Longrightarrow> cpu_inv c'"
    using observer_laws.before_inv [OF assms(1) p1] observer_laws.before_inv [OF assms(2) q1] c' by simp
next
  fix s c pc i a s' c' assume b: "after_step (both_observer p q) s c pc i = (a, s', c')"
  obtain a1 x c1 where p1: "after_step p (fst s) c pc i = (a1, x, c1)" by (metis prod_cases3)
  obtain a2 y c2 where q1: "after_step q (snd s) c1 pc i = (a2, y, c2)" by (metis prod_cases3)
  have c': "c' = c2" using b p1 q1 by (simp add: both_observer_def)
  show "unwatched c' = unwatched c"
    using observer_laws.after_arch [OF assms(1) p1] observer_laws.after_arch [OF assms(2) q1] c' by simp
  show "cpu_inv c \<Longrightarrow> cpu_inv c'"
    using observer_laws.after_inv [OF assms(1) p1] observer_laws.after_inv [OF assms(2) q1] c' by simp
qed

text \<open>A digest simple enough to evaluate, whose streaming form agrees with it.\<close>

definition digest_small :: "u64 digest" where
  "digest_small = \<lparr> d_xxh64 = \<lambda>bs s. s + of_nat (length bs), d_new = \<lambda>s. s,
     d_update = \<lambda>h bs. h + of_nat (length bs), d_finish = \<lambda>h. h \<rparr>"

text \<open>
  C19: Observing a run does not change it.  For any observer that touches nothing but its own recording,
  pairs and optional observers included, the traced run returns without a panic, and it stops where the
  bare machine is after the same instructions: out of budget with the count at the budget, at the
  observer's request, or on the halt the bare machine reports there.
\<close>

theorem traced_run_is_the_run:
  assumes "observer_laws ob" "cpu_inv c"
  shows "\<exists>st c' s'. run_trace dg (both_observer collector (option_observer ob)) cfg budget c s = Some (Ok st, c', s') \<and> cpu_inv c' \<and>
    (\<exists>xs d. retires (unwatched c) xs d \<and>
      (case st of
         Budget \<Rightarrow> d = unwatched c' \<and> \<not> cpu_icount c' < budget
       | StopObserver \<Rightarrow> d = unwatched c'
       | Halted h \<Rightarrow> step_reporting d = (Err h, unwatched c')))"
  by (rule observer_laws.run_correct
      [OF both_observer_laws [OF collected.observer_laws_axioms option_observer_laws [OF assms(1)]] assms(2)])

theorem traced_run_is_the_run_witness:
  "\<exists>r. run_trace digest_small (both_observer collector (option_observer (silent_observer :: unit observer)))
     trace_config_default 10 cpu_small ([], None) = Some r"
  using traced_run_is_the_run [OF silent.observer_laws_axioms cpu_small_inv] by blast

section \<open>The collected trace\<close>

text \<open>The machines after each of at most \<open>n\<close> instructions, up to a halt.\<close>

fun follow :: "nat \<Rightarrow> cpu \<Rightarrow> cpu list" where
  "follow 0 c = []"
| "follow (Suc n) c = (case step_reporting c of (Ok _, c1) \<Rightarrow> c1 # follow n c1 | _ \<Rightarrow> [])"

definition trace_lines :: "'h digest \<Rightarrow> trace_config \<Rightarrow> cpu list \<Rightarrow> checkpoint list" where
  "trace_lines dg cfg ds =
     map (\<lambda>d. checkpoint_of dg d (is_ram_hash cfg (cpu_icount d))) (filter (\<lambda>d. is_checkpoint cfg (cpu_icount d)) ds)"

lemma run_collector:
  assumes "cpu_inv c"
  shows "\<exists>st c'. run_trace dg collector cfg budget c lines =
      Some (Ok st, c', lines @ trace_lines dg cfg (follow (unat budget - unat (cpu_icount c)) c)) \<and>
    (let ds = follow (unat budget - unat (cpu_icount c)) c; l = last (c # ds) in
       length ds = unat budget - unat (cpu_icount c) \<and> st = Budget \<and> c' = l \<or>
       length ds < unat budget - unat (cpu_icount c) \<and> (\<exists>h. st = Halted h \<and> step_reporting l = (Err h, c')))"
  using assms
proof (induction "unat budget - unat (cpu_icount c)" arbitrary: c lines)
  case 0
  then have "\<not> cpu_icount c < budget" by (simp add: word_less_nat_alt)
  then show ?case using 0(1) [symmetric] by (subst run_trace.simps) (simp add: trace_lines_def)
next
  case (Suc k)
  have lt: "cpu_icount c < budget" using Suc(2) by (simp add: word_less_nat_alt)
  have b: "before_step collector lines c = (Continue, lines, c)" by (simp add: collector_def silent_observer_def)
  obtain r c2 where st: "step_reporting c = (r, c2)" by fastforce
  have np: "r \<noteq> Panic" using step_reporting_facts(1) [OF Suc.prems st] .
  show ?case
  proof (cases r)
    case (Err h)
    then have "follow (Suc k) c = []" using st by simp
    then show ?thesis unfolding Suc(2) [symmetric] using lt b st Err
      by (subst run_trace.simps) (simp add: trace_lines_def)
  next
    case Panic
    then show ?thesis using np by simp
  next
    case (Ok p)
    let ?l = "notify dg collector cfg lines c2"
    have af: "after_step collector ?l c2 (cpu_pc c) (snd p) = (Continue, ?l, c2)"
      by (simp add: collector_def silent_observer_def)
    note rd = collected.round [OF Suc.prems lt b _ st [unfolded Ok] af]
    have k: "k = unat budget - unat (cpu_icount c2)" using rd(4) Suc(2) by simp
    have e: "run_trace dg collector cfg budget c lines = run_trace dg collector cfg budget c2 ?l"
      using lt b st Ok af by (subst run_trace.simps) simp
    have n: "?l = lines @ trace_lines dg cfg [c2]"
      by (simp add: notify_def collector_def trace_lines_def)
    have fw: "follow (Suc k) c = c2 # follow k c2" using st Ok by simp
    have t: "trace_lines dg cfg (c2 # follow k c2) = trace_lines dg cfg [c2] @ trace_lines dg cfg (follow k c2)"
      by (simp add: trace_lines_def)
    obtain st' c' where "run_trace dg collector cfg budget c2 ?l = Some (Ok st', c', ?l @ trace_lines dg cfg (follow k c2))"
        "length (follow k c2) = k \<and> st' = Budget \<and> c' = last (c2 # follow k c2) \<or>
         length (follow k c2) < k \<and> (\<exists>h. st' = Halted h \<and> step_reporting (last (c2 # follow k c2)) = (Err h, c'))"
      using Suc(1) [OF k rd(1), of ?l] unfolding k [symmetric] Let_def by auto
    then show ?thesis unfolding Suc(2) [symmetric] e fw t n Let_def by auto
  qed
qed

text \<open>
  C18: The collected trace is exactly the machine's checkpoints.  It returns one line for each
  instruction that retired within the budget at a cadence count, in order, taken from the machine as it
  stood after that instruction, with the memory hashes where the cadence asks for them; a halt adds no
  line, and the stop says whether the budget was used up or which halt came first.
\<close>

theorem collect_exact:
  assumes "cpu_inv c"
  shows "\<exists>st c'. collect dg c cfg budget =
      Some (trace_lines dg cfg (follow (unat budget - unat (cpu_icount c)) c), Ok st, c') \<and>
    (let ds = follow (unat budget - unat (cpu_icount c)) c; l = last (c # ds) in
       length ds = unat budget - unat (cpu_icount c) \<and> st = Budget \<and> c' = l \<or>
       length ds < unat budget - unat (cpu_icount c) \<and> (\<exists>h. st = Halted h \<and> step_reporting l = (Err h, c')))"
  using run_collector [OF assms, of dg cfg budget "[]"] by (auto simp: collect_def)

theorem collect_exact_witness:
  "\<exists>h c'. collect digest_small cpu_small trace_config_default 5 = Some ([], Ok (Halted h), c')"
proof -
  have i: "cpu_icount cpu_small = 0" by (simp add: cpu_small_def cpu_new_def)
  have f: "follow n cpu_small = []" for n using step_small by (cases n) simp_all
  show ?thesis using collect_exact [OF cpu_small_inv, of digest_small trace_config_default 5]
    by (simp add: f i trace_lines_def Let_def) blast
qed

end
