(* ===== verification/Snapshot.thy ===== *)
theory Snapshot
  imports Trace
begin

text \<open>
  Snapshots, \<open>refemu/src/snapshot.rs\<close>: a machine captured into named sections and a header, the
  container that holds them as one file, and putting a machine back.  The JSON text of a header, the
  sha256 of a section and the generator string are code of other packages and parameters here; the file
  system is left out, so writing gives the bytes of the file and reading takes them.
\<close>

section \<open>The container\<close>

definition FORMAT_VERSION :: u32 where "FORMAT_VERSION = 3"
definition BODY_OFFSET :: u64 where "BODY_OFFSET = 4096"

text \<open>\<open>REFEMU-SNAPSHOT 3\<close> and a newline, as bytes.\<close>

definition magic_prefix :: "u8 list" where
  "magic_prefix = [0x52, 0x45, 0x46, 0x45, 0x4D, 0x55, 0x2D, 0x53, 0x4E, 0x41, 0x50, 0x53, 0x48, 0x4F, 0x54, 0x20]"

definition magic :: "u8 list" where
  "magic = magic_prefix @ to_decimal (unat FORMAT_VERSION) @ [10]"

type_synonym path = "u8 list"

datatype snapshot_error =
    Io path nat
  | NotASnapshot path
  | WrongVersion path u32
  | HeaderError path
  | ShortSection path string nat nat
  | Corrupt path string
  | MissingSection path string
  | Mismatch path string "u8 list" "u8 list"

datatype kind = Machine | Frame

record section_info =
  sec_name :: string
  sec_offset :: u64
  sec_length :: u64
  sec_sha256 :: string

record 'm provenance =
  rom_sha256 :: "string option"
  pinned :: bool
  rom_manifest :: "'m option"

record frame_info =
  fi_index :: u64
  fi_frame_no :: u32
  fi_commit_icount :: u64
  fi_retired_icount :: u64

record 'm header =
  format_version :: u32
  hd_kind :: kind
  generator :: string
  created_from :: "'m provenance"
  hd_icount :: u64
  stop_condition :: "string option"
  hd_pc :: "u32 option"
  hd_regs :: "u32 list option"
  hd_ram_base :: "u32 option"
  hd_ram_size :: "u32 option"
  hd_ipms :: "u32 option"
  text_start :: "u32 option"
  text_end :: "u32 option"
  frame_commit_count :: u64
  last_frame_commit :: "frame_info option"
  hd_frame :: "frame_info option"
  hd_fbhash :: "u8 list option"
  hd_sections :: "section_info list"

record 'm snapshot =
  snap_header :: "'m header"
  snap_sections :: "(string \<times> u8 list) list"

definition snap_section :: "'m snapshot \<Rightarrow> string \<Rightarrow> u8 list option" where
  "snap_section s name = map_option snd (List.find (\<lambda>p. fst p = name) (snap_sections s))"

text \<open>The loop that lays the sections out one after the other.\<close>

fun section_infos :: "(u8 list \<Rightarrow> string) \<Rightarrow> u64 \<Rightarrow> (string \<times> u8 list) list \<Rightarrow> section_info list" where
  "section_infos sha at [] = []"
| "section_infos sha at ((name, bytes) # ss) =
     \<lparr> sec_name = name, sec_offset = at, sec_length = of_nat (length bytes), sec_sha256 = sha bytes \<rparr>
     # section_infos sha (at + of_nat (length bytes)) ss"

text \<open>\<open>head.resize(BODY_OFFSET, 0)\<close> after the check that the header fits.\<close>

definition snap_write :: "('m header \<Rightarrow> u8 list) \<Rightarrow> (u8 list \<Rightarrow> string) \<Rightarrow> 'm snapshot \<Rightarrow> path \<Rightarrow>
    (u8 list, snapshot_error) rresult" where
  "snap_write to_json sha s path =
     (let header = (snap_header s)\<lparr>hd_sections := section_infos sha BODY_OFFSET (snap_sections s)\<rparr>;
          head = magic @ to_json header @ [10]
      in if unat BODY_OFFSET < length head then Err (Io path (length head))
         else Ok (head @ replicate (unat BODY_OFFSET - length head) 0 @ concat (map snd (snap_sections s))))"

definition version_of :: "u8 list \<Rightarrow> u32 option" where
  "version_of bytes =
     (let text = from_utf8_lossy (take 64 bytes) in
      if take (length magic_prefix) text \<noteq> magic_prefix then None
      else parse_u32 (str_trim (takeWhile (\<lambda>b. b \<noteq> 10) (drop (length magic_prefix) text))))"

text \<open>The sum of offset and length is taken in 64 bits, where it can wrap.\<close>

fun read_section_list :: "(u8 list \<Rightarrow> string) \<Rightarrow> path \<Rightarrow> u8 list \<Rightarrow> section_info list \<Rightarrow>
    ((string \<times> u8 list) list, snapshot_error) rresult" where
  "read_section_list sha path bytes [] = Ok []"
| "read_section_list sha path bytes (info # infos) =
     (let at = unat (sec_offset info);
          stop = unat (sec_offset info + sec_length info)
      in if at \<le> stop \<and> stop \<le> length bytes
         then let slice = take (stop - at) (drop at bytes) in
           if sha slice \<noteq> sec_sha256 info then Err (Corrupt path (sec_name info))
           else rbind (read_section_list sha path bytes infos) (\<lambda>ss. Ok ((sec_name info, slice) # ss))
         else Err (ShortSection path (sec_name info) (length bytes - at) (unat (sec_length info))))"

definition snap_read :: "(u8 list \<Rightarrow> 'm header option) \<Rightarrow> (u8 list \<Rightarrow> string) \<Rightarrow> path \<Rightarrow> string list \<Rightarrow> u8 list \<Rightarrow>
    ('m snapshot, snapshot_error) rresult" where
  "snap_read from_json sha path needed bytes =
     (if length bytes < length magic \<or> take (length magic) bytes \<noteq> magic
      then (case version_of bytes of
              Some found \<Rightarrow> if found \<noteq> FORMAT_VERSION then Err (WrongVersion path found) else Err (NotASnapshot path)
            | None \<Rightarrow> Err (NotASnapshot path))
      else let rest = drop (length magic) bytes in
        if 10 \<notin> set rest then Err (NotASnapshot path)
        else case from_json (takeWhile (\<lambda>b. b \<noteq> 10) rest) of
          None \<Rightarrow> Err (HeaderError path)
        | Some header \<Rightarrow>
            rbind (read_section_list sha path bytes (hd_sections header)) (\<lambda>sections.
            let s = \<lparr> snap_header = header, snap_sections = sections \<rparr> in
            case List.find (\<lambda>name. snap_section s name = None) needed of
              Some name \<Rightarrow> Err (MissingSection path name)
            | None \<Rightarrow> Ok s))"

section \<open>Capturing\<close>

definition frame_info_of :: "u64 \<Rightarrow> frame_commit \<Rightarrow> frame_info" where
  "frame_info_of index c = \<lparr> fi_index = index, fi_frame_no = frame_no c, fi_commit_icount = commit_icount c,
     fi_retired_icount = retired_icount c \<rparr>"

definition commits_of :: "cpu \<Rightarrow> frame_commit list" where
  "commits_of c = (case registers_ref (devices (cpu_memory c)) of Some r \<Rightarrow> frame_commits r | None \<Rightarrow> [])"

definition last_commit_info :: "frame_commit list \<Rightarrow> frame_info option" where
  "last_commit_info cs = (if cs = [] then None else Some (frame_info_of (of_nat (length cs) - 1) (last cs)))"

definition base_header :: "string \<Rightarrow> cpu \<Rightarrow> kind \<Rightarrow> 'm provenance \<Rightarrow> string option \<Rightarrow> 'm header" where
  "base_header gen c k from stop = \<lparr> format_version = FORMAT_VERSION, hd_kind = k, generator = gen,
     created_from = from, hd_icount = cpu_icount c, stop_condition = stop, hd_pc = None, hd_regs = None,
     hd_ram_base = None, hd_ram_size = None, hd_ipms = None, text_start = None, text_end = None,
     frame_commit_count = of_nat (length (commits_of c)), last_frame_commit = last_commit_info (commits_of c),
     hd_frame = None, hd_fbhash = None, hd_sections = [] \<rparr>"

definition keyq_bytes :: "key_record list \<Rightarrow> u8 list" where
  "keyq_bytes ks = concat (map (\<lambda>k. [of_bool (pressed k), doomkey k]) ks)"

definition commit_bytes :: "frame_commit list \<Rightarrow> u8 list" where
  "commit_bytes cs = concat (map (\<lambda>c. to_le_bytes 4 (frame_no c) @ to_le_bytes 8 (commit_icount c)) cs)"

definition machine_snapshot :: "string \<Rightarrow> cpu \<Rightarrow> 'm provenance \<Rightarrow> string option \<Rightarrow> 'm snapshot" where
  "machine_snapshot gen c from stop =
     (let m = cpu_memory c; regs = registers_ref (devices m);
          h = (base_header gen c Machine from stop)\<lparr>hd_pc := Some (cpu_pc c), hd_regs := Some (cpu_regs c),
            hd_ram_base := Some (ram_base (mem_map m)), hd_ram_size := Some (ram_size (mem_map m)),
            hd_ipms := map_option ipms regs, text_start := map_option fst (text_region m),
            text_end := map_option snd (text_region m)\<rparr>
      in \<lparr> snap_header = h, snap_sections =
        [(''ram'', ram m), (''framebuffer'', framebuffer m), (''palette'', palette m),
         (''console'', case regs of Some r \<Rightarrow> console r | None \<Rightarrow> []),
         (''keyq'', case regs of Some r \<Rightarrow> keyq_bytes (key_queue r) | None \<Rightarrow> []),
         (''frame_commits'', case regs of Some r \<Rightarrow> commit_bytes (frame_commits r) | None \<Rightarrow> [])] \<rparr>)"

definition frame_snapshot :: "'h digest \<Rightarrow> string \<Rightarrow> cpu \<Rightarrow> 'm provenance \<Rightarrow> string option \<Rightarrow> 'm snapshot" where
  "frame_snapshot dg gen c from stop =
     \<lparr> snap_header = (base_header gen c Frame from stop)\<lparr>hd_frame := last_commit_info (commits_of c),
         hd_fbhash := Some (to_hex 16 (unat (fb_hash_of dg c)))\<rparr>,
       snap_sections = [(''framebuffer'', framebuffer (cpu_memory c)), (''palette'', palette (cpu_memory c))] \<rparr>"

section \<open>Putting a machine back\<close>

text \<open>Debug text of optional numbers and pairs, for the mismatch report.\<close>

definition bytes_of_string :: "string \<Rightarrow> u8 list" where
  "bytes_of_string s = map (\<lambda>c. of_nat (of_char c)) s"

definition debug_some :: "u8 list option \<Rightarrow> u8 list" where
  "debug_some x = (case x of None \<Rightarrow> bytes_of_string ''None'' | Some t \<Rightarrow> bytes_of_string ''Some('' @ t @ bytes_of_string '')'')"

definition debug_u32 :: "u32 option \<Rightarrow> u8 list" where
  "debug_u32 x = debug_some (map_option (\<lambda>n. to_decimal (unat n)) x)"

definition debug_region :: "(u32 \<times> u32) option \<Rightarrow> u8 list" where
  "debug_region x = debug_some (map_option (\<lambda>(a, b). bytes_of_string ''('' @ to_decimal (unat a) @
     bytes_of_string '', '' @ to_decimal (unat b) @ bytes_of_string '')'') x)"

definition restore_check :: "cpu \<Rightarrow> 'm header \<Rightarrow> path \<Rightarrow> (unit, snapshot_error) rresult" where
  "restore_check c h path =
     (let m = cpu_memory c; ours = map_option ipms (registers_ref (devices m));
          theirs = (case (text_start h, text_end h) of (Some a, Some b) \<Rightarrow> Some (a, b) | _ \<Rightarrow> None)
      in if hd_ram_size h \<noteq> Some (ram_size (mem_map m))
         then Err (Mismatch path ''ram_size'' (debug_u32 (hd_ram_size h)) (to_decimal (unat (ram_size (mem_map m)))))
         else if hd_ipms h \<noteq> ours then Err (Mismatch path ''ipms'' (debug_u32 (hd_ipms h)) (debug_u32 ours))
         else if theirs \<noteq> text_region m
         then Err (Mismatch path ''the text region'' (debug_region theirs) (debug_region (text_region m)))
         else Ok ())"

definition need :: "'m snapshot \<Rightarrow> path \<Rightarrow> string \<Rightarrow> (u8 list, snapshot_error) rresult" where
  "need s path name = (case snap_section s name of Some b \<Rightarrow> Ok b | None \<Rightarrow> Err (MissingSection path name))"

definition commit_of_row :: "u8 list \<Rightarrow> frame_commit" where
  "commit_of_row row = \<lparr> frame_no = from_le_bytes (take 4 row), commit_icount = from_le_bytes (drop 4 row) \<rparr>"

definition restore_registers :: "'m snapshot \<Rightarrow> path \<Rightarrow> registers \<Rightarrow> (unit, snapshot_error) rresult \<times> registers" where
  "restore_registers s path r =
     (case need s path ''console'' of
        Err e \<Rightarrow> (Err e, r) | Panic \<Rightarrow> (Panic, r)
      | Ok con \<Rightarrow>
          let r1 = r\<lparr>console := con, key_queue := []\<rparr> in
          (case need s path ''keyq'' of
             Err e \<Rightarrow> (Err e, r1) | Panic \<Rightarrow> (Panic, r1)
           | Ok kq \<Rightarrow>
               let r2 = fold (\<lambda>pair r. push_key r (pair ! 0 \<noteq> 0) (pair ! 1)) (chunks 2 kq) r1;
                   r3 = r2\<lparr>frame_commits := []\<rparr>
               in (case need s path ''frame_commits'' of
                     Err e \<Rightarrow> (Err e, r3) | Panic \<Rightarrow> (Panic, r3)
                   | Ok fc \<Rightarrow> (Ok (), r3\<lparr>frame_commits := map commit_of_row (chunks 12 fc)\<rparr>))))"

text \<open>\<open>regs.iter_mut().zip(saved)\<close>: as many registers as were saved, the rest zero.\<close>

definition saved_regs :: "u32 list option \<Rightarrow> u32 list" where
  "saved_regs x = (case x of None \<Rightarrow> replicate 32 0 | Some rs \<Rightarrow> take 32 rs @ replicate (32 - length rs) 0)"

definition snap_restore :: "cpu \<Rightarrow> 'm snapshot \<Rightarrow> path \<Rightarrow> bool \<Rightarrow> (unit, snapshot_error) rresult \<times> cpu" where
  "snap_restore c s path force =
     (let h = snap_header s in
      case (if force then Ok () else restore_check c h path) of
        Err e \<Rightarrow> (Err e, c) | Panic \<Rightarrow> (Panic, c)
      | Ok _ \<Rightarrow>
        (case rbind (need s path ''ram'') (\<lambda>r. rbind (need s path ''framebuffer'') (\<lambda>f.
               rbind (need s path ''palette'') (\<lambda>p. Ok (r, f, p)))) of
           Err e \<Rightarrow> (Err e, c) | Panic \<Rightarrow> (Panic, c)
         | Ok (r, f, p) \<Rightarrow>
             let c1 = restore_memory c r f p;
                 c2 = cpu_restore c1 (case hd_pc h of Some pc \<Rightarrow> pc | None \<Rightarrow> 0) (saved_regs (hd_regs h)) (hd_icount h)
             in (case devices (cpu_memory c2) of
                   Registers regs \<Rightarrow>
                     (case restore_registers s path regs of (res, regs') \<Rightarrow>
                        (res, c2\<lparr>cpu_memory := (cpu_memory c2)\<lparr>devices := Registers regs'\<rparr>\<rparr>))
                 | Bytes b \<Rightarrow> (Ok (), c2))))"

section \<open>A resumed machine is the machine that was captured\<close>

lemma restore_keys:
  "fold (\<lambda>pair r. push_key r (pair ! 0 \<noteq> 0) (pair ! 1)) (chunks 2 (keyq_bytes ks)) r = r\<lparr>key_queue := key_queue r @ ks\<rparr>"
proof -
  have c: "chunks 2 (keyq_bytes ks) = map (\<lambda>k. [of_bool (pressed k), doomkey k]) ks"
    unfolding keyq_bytes_def by (rule chunks_concat) simp_all
  have "fold (\<lambda>pair r. push_key r (pair ! 0 \<noteq> 0) (pair ! 1)) (map (\<lambda>k. [of_bool (pressed k), doomkey k]) ks) r =
      r\<lparr>key_queue := key_queue r @ ks\<rparr>"
    by (induction ks arbitrary: r) (simp_all add: push_key_def)
  then show ?thesis by (simp add: c)
qed

lemma restore_commits: "map commit_of_row (chunks 12 (commit_bytes cs)) = cs"
proof -
  have "chunks 12 (commit_bytes cs) = map (\<lambda>c. to_le_bytes 4 (frame_no c) @ to_le_bytes 8 (commit_icount c)) cs"
    unfolding commit_bytes_def by (rule chunks_concat) simp_all
  moreover have "commit_of_row (to_le_bytes 4 (frame_no c) @ to_le_bytes 8 (commit_icount c)) = c" for c
    by (simp add: commit_of_row_def take_bit_word_eq_self)
  ultimately show ?thesis by (simp add: o_def)
qed

lemma restore_region_same: "length from = length into \<Longrightarrow> restore_region into from = from"
  by (simp add: restore_region_def)

lemma machine_sections:
  assumes "devices (cpu_memory c) = Registers r"
  shows "snap_section (machine_snapshot gen c from stop) ''ram'' = Some (ram (cpu_memory c))"
    "snap_section (machine_snapshot gen c from stop) ''framebuffer'' = Some (framebuffer (cpu_memory c))"
    "snap_section (machine_snapshot gen c from stop) ''palette'' = Some (palette (cpu_memory c))"
    "snap_section (machine_snapshot gen c from stop) ''console'' = Some (console r)"
    "snap_section (machine_snapshot gen c from stop) ''keyq'' = Some (keyq_bytes (key_queue r))"
    "snap_section (machine_snapshot gen c from stop) ''frame_commits'' = Some (commit_bytes (frame_commits r))"
  using assms by (simp_all add: snap_section_def machine_snapshot_def Let_def)

lemma restore_registers_machine:
  assumes "devices (cpu_memory c) = Registers r" "ipms r0 = ipms r"
  shows "restore_registers (machine_snapshot gen c from stop) path r0 = (Ok (), r)"
  using assms(2) by (simp add: restore_registers_def need_def machine_sections [OF assms(1)] restore_keys [simplified] restore_commits Let_def)

lemma restore_machine:
  assumes "mem_wf (cpu_memory c)" "regs_ok c" "devices (cpu_memory c) = Registers r"
    and "mem_wf (cpu_memory c0)" "devices (cpu_memory c0) = Registers r0" "ipms r0 = ipms r"
    and "mem_map (cpu_memory c0) = mem_map (cpu_memory c)" "text_region (cpu_memory c0) = text_region (cpu_memory c)"
  shows "snap_restore c0 (machine_snapshot gen c from stop) path False =
    (Ok (), c\<lparr>cpu_cache := None, cpu_memory := (cpu_memory c)\<lparr>watch := watch (cpu_memory c0)\<rparr>\<rparr>)"
proof -
  let ?s = "machine_snapshot gen c from stop" and ?m = "cpu_memory c" and ?k = "cpu_memory c0"
  have h: "hd_pc (snap_header ?s) = Some (cpu_pc c)" "hd_regs (snap_header ?s) = Some (cpu_regs c)"
      "hd_ram_size (snap_header ?s) = Some (ram_size (mem_map ?m))" "hd_ipms (snap_header ?s) = Some (ipms r)"
      "text_start (snap_header ?s) = map_option fst (text_region ?m)" "text_end (snap_header ?s) = map_option snd (text_region ?m)"
      "hd_icount (snap_header ?s) = cpu_icount c"
    using assms(3) by (simp_all add: machine_snapshot_def Let_def base_header_def)
  have ck: "restore_check c0 (snap_header ?s) path = Ok ()"
    using assms(5-8) by (auto simp: restore_check_def Let_def h split: option.split)
  have l: "length (ram ?m) = length (ram ?k)" "length (framebuffer ?m) = length (framebuffer ?k)"
      "length (palette ?m) = length (palette ?k)"
    using assms(1,4,7) by (simp_all add: mem_wf_def)
  have g: "saved_regs (Some (cpu_regs c)) = cpu_regs c" "(cpu_regs c)[0 := 0] = cpu_regs c"
    using assms(2) by (simp_all add: saved_regs_def regs_ok_def) (metis list_update_id)
  show ?thesis
    using assms(3,5-8)
    by (simp add: snap_restore_def ck need_def machine_sections [OF assms(3)] h g restore_memory_def cpu_restore_def
        restore_regions_def restore_region_same l restore_registers_machine [OF assms(3,6)])
qed

text \<open>
  C27: A resumed run is the run that was captured.  Capturing a machine with the real devices and putting
  it back into any machine of the same map, tick rate and text region succeeds, and leaves the captured
  machine in every part a program can see, the devices' queue, console and frame log included; so the two
  then run, for any bound, to the same halt and to the same machine but for cached instructions and the
  write watch.
\<close>

theorem resume_continues:
  assumes "cpu_inv c" "devices (cpu_memory c) = Registers r"
    and "cpu_inv c0" "devices (cpu_memory c0) = Registers r0" "ipms r0 = ipms r"
    and "mem_map (cpu_memory c0) = mem_map (cpu_memory c)" "text_region (cpu_memory c0) = text_region (cpu_memory c)"
  shows "\<exists>c'. snap_restore c0 (machine_snapshot gen c from stop) path False = (Ok (), c') \<and>
    uncached (unwatched c') = uncached (unwatched c) \<and>
    fst (run_until_halt c' n) = fst (run_until_halt c n) \<and>
    uncached (unwatched (snd (run_until_halt c' n))) = uncached (unwatched (snd (run_until_halt c n)))"
proof -
  let ?c' = "c\<lparr>cpu_cache := None, cpu_memory := (cpu_memory c)\<lparr>watch := watch (cpu_memory c0)\<rparr>\<rparr>"
  have i: "mem_wf (cpu_memory c)" "regs_ok c" "mem_wf (cpu_memory c0)" using assms(1,3) by (auto simp: cpu_inv_def)
  note r = restore_machine [OF i(1,2) assms(2) i(3) assms(4-7), of gen "from" stop path]
  have i': "cpu_inv ?c'" using i by (simp add: cpu_inv_def regs_ok_def mem_wf_def)
  have u: "uncached (unwatched ?c') = uncached (unwatched c)" by (simp add: uncached_def unwatched_def)
  have run: "fst (run_until_halt d n) = fst (run_until_halt (uncached (unwatched d)) n) \<and>
      uncached (unwatched (snd (run_until_halt d n))) = snd (run_until_halt (uncached (unwatched d)) n)" if d: "cpu_inv d" for d
  proof -
    obtain s e where s: "run_steps (unat n) d = (s, e)" by fastforce
    note w = unwatched.run_steps_view [OF d s]
    have d2: "cpu_inv (unwatched d)" using d by (auto simp: cpu_inv_def regs_ok_def mem_wf_def cache_ok_def cache_agrees_def text_word_def split: option.splits)
    have "run_steps (unat n) (uncached (unwatched d)) = (s, uncached (unwatched e))" by (rule cached.run_steps_view [OF d2 w])
    then show ?thesis using s by (auto simp: run_until_halt_def split: rresult.split option.split)
  qed
  show ?thesis using r u run [OF i', unfolded u] run [OF assms(1)] by (intro exI [of _ ?c']) auto
qed

definition regs_small :: registers where
  "regs_small = \<lparr> ipms = 10, key_queue = [\<lparr>pressed = True, doomkey = 7\<rparr>], console = [65],
     frame_commits = [\<lparr>frame_no = 3, commit_icount = 99\<rparr>] \<rparr>"

definition cpu_devices_small :: cpu where
  "cpu_devices_small = cpu_new (memory_new map_small (Registers regs_small)) 0x80000000"

theorem resume_continues_witness:
  "\<exists>c'. snap_restore cpu_devices_small (machine_snapshot ''refemu'' cpu_devices_small
       \<lparr> rom_sha256 = None, pinned = False, rom_manifest = (None :: unit option) \<rparr> None) [] False = (Ok (), c')"
proof -
  have i: "cpu_inv cpu_devices_small"
    unfolding cpu_devices_small_def by (intro cpu_new_inv memory_new_wf) (simp add: regs_small_def)
  have d: "devices (cpu_memory cpu_devices_small) = Registers regs_small"
    by (simp add: cpu_devices_small_def cpu_new_def memory_new_def)
  show ?thesis using resume_continues [OF i d i d refl refl refl] by blast
qed

section \<open>The container round trip\<close>

lemma section_infos_read:
  assumes "bytes = pre @ concat (map snd ss)" "length pre = unat at" "length bytes < 2 ^ 64"
  shows "read_section_list sha path bytes (section_infos sha at ss) = Ok ss"
  using assms
proof (induction ss arbitrary: pre at)
  case (Cons x ss)
  obtain name b where x: "x = (name, b)" by fastforce
  have n: "unat (of_nat (length b) :: u64) = length b" using Cons.prems(1,3) x by (simp add: unat_of_nat take_bit_nat_eq_self)
  have a: "unat (at + of_nat (length b)) = unat at + length b"
    using unat_add_lem [of at "of_nat (length b)"] n Cons.prems x by simp
  have "bytes = (pre @ b) @ concat (map snd ss)" using Cons.prems(1) x by simp
  moreover have "length (pre @ b) = unat (at + of_nat (length b))" using a Cons.prems(2) by simp
  ultimately have "read_section_list sha path bytes (section_infos sha (at + of_nat (length b)) ss) = Ok ss"
    using Cons.IH Cons.prems(3) by blast
  moreover have "take (length b) (drop (unat at) bytes) = b" using Cons.prems(1,2) x by simp
  ultimately show ?case using x a Cons.prems(1,2) by (simp add: Let_def)
qed simp

text \<open>
  What is written is what is read.  A container that was written reads back as the same sections in
  the same order under the same header, with the layout the writer recorded, for every list of needed
  sections it carries; a header that does not fit before the body is refused and not cut.
\<close>

theorem snapshot_roundtrip:
  assumes "H = (snap_header s)\<lparr>hd_sections := section_infos sha BODY_OFFSET (snap_sections s)\<rparr>"
    and "from_json (to_json H) = Some H" "10 \<notin> set (to_json H)"
    and "snap_write to_json sha s path = Ok bytes" "length bytes < 2 ^ 64"
    and "\<forall>name\<in>set needed. snap_section s name \<noteq> None"
  shows "snap_read from_json sha path' needed bytes =
    Ok (s\<lparr>snap_header := H\<rparr>)"
proof -
  let ?head = "magic @ to_json H @ [10]"
  let ?z = "replicate (unat BODY_OFFSET - length ?head) 0"
  have w: "length ?head \<le> unat BODY_OFFSET" "bytes = ?head @ ?z @ concat (map snd (snap_sections s))"
    using assms(1,4) by (auto simp: snap_write_def Let_def split: if_splits)
  have m: "take (length magic) bytes = magic" "length magic \<le> length bytes" using w(2) by simp_all
  have r: "drop (length magic) bytes = to_json H @ 10 # (?z @ concat (map snd (snap_sections s)))" using w(2) by simp
  have t: "takeWhile (\<lambda>b. b \<noteq> 10) (drop (length magic) bytes) = to_json H" unfolding r
    using assms(3) by (simp add: takeWhile_append2 takeWhile_tail) (metis (mono_tags, lifting) takeWhile_eq_all_conv)
  have "length (?head @ ?z) = unat BODY_OFFSET" using w(1) by simp
  then have ss: "read_section_list sha path' bytes (hd_sections H) = Ok (snap_sections s)"
    using section_infos_read [of bytes "?head @ ?z" "snap_sections s" BODY_OFFSET sha path'] w(2) assms(1,5) by simp
  let ?s = "\<lparr> snap_header = H, snap_sections = snap_sections s \<rparr>"
  have nd: "List.find (\<lambda>name. snap_section ?s name = None) needed = None"
    using assms(6) by (auto simp: find_None_iff snap_section_def)
  have "10 \<in> set (drop (length magic) bytes)" unfolding r by simp
  then have "snap_read from_json sha path' needed bytes = Ok ?s"
    using m t ss nd assms(2) by (simp add: snap_read_def Let_def)
  then show ?thesis by (simp add: snapshot.splits)
qed

definition snap_small :: "unit snapshot" where
  "snap_small = machine_snapshot ''refemu'' cpu_devices_small
     \<lparr> rom_sha256 = None, pinned = False, rom_manifest = None \<rparr> None"

definition header_small :: "unit header" where
  "header_small = (snap_header snap_small)\<lparr>hd_sections := section_infos (\<lambda>_. ''h'') BODY_OFFSET (snap_sections snap_small)\<rparr>"

theorem snapshot_roundtrip_witness:
  "\<exists>bytes s. snap_write (\<lambda>_. [123, 125]) (\<lambda>_. ''h'') snap_small [] = Ok bytes \<and>
     snap_read (\<lambda>_. Some header_small) (\<lambda>_. ''h'') [] [''ram''] bytes = Ok s \<and>
     snap_section s ''ram'' = Some (replicate 16 0)"
proof -
  let ?w = "snap_write (\<lambda>_. [123, 125]) (\<lambda>_. ''h'') snap_small []"
  have d: "devices (cpu_memory cpu_devices_small) = Registers regs_small"
    by (simp add: cpu_devices_small_def cpu_new_def memory_new_def)
  have ram: "snap_section snap_small ''ram'' = Some (replicate 16 0)"
    unfolding snap_small_def machine_sections(1) [OF d] by (simp add: cpu_devices_small_def cpu_new_def memory_new_def map_small_def)
  have ml: "length magic = 18" by (simp add: magic_def magic_prefix_def FORMAT_VERSION_def to_decimal.simps)
  have body: "length (concat (map snd (snap_sections snap_small))) = 39"
    using d by (simp add: snap_small_def machine_snapshot_def Let_def cpu_devices_small_def cpu_new_def memory_new_def map_small_def
        regs_small_def keyq_bytes_def commit_bytes_def)
  obtain bytes where w: "?w = Ok bytes" "length bytes = 4096 + 39"
    using ml body by (simp add: snap_write_def Let_def BODY_OFFSET_def)
  have "snap_read (\<lambda>_. Some header_small) (\<lambda>_. ''h'') [] [''ram''] bytes = Ok (snap_small\<lparr>snap_header := header_small\<rparr>)"
    by (rule snapshot_roundtrip [OF header_small_def _ _ w(1)]) (simp_all add: w(2) ram)
  moreover have "snap_section (snap_small\<lparr>snap_header := header_small\<rparr>) ''ram'' = Some (replicate 16 0)"
    using ram by (simp add: snap_section_def)
  ultimately show ?thesis using w(1) by blast
qed

end
