(* ===== verification/Boot.thy ===== *)
theory Boot
  imports Machine_Properties "HOL-Library.Multiset"
begin

text \<open>
  Boot reports, \<open>refemu/src/boot.rs\<close>: running to the first announced frame, a halt or the end of the
  budget, while counting instructions by mnemonic and keeping the last program counters.
\<close>

section \<open>Reports\<close>

definition RETIRED_PC_HISTORY :: nat where "RETIRED_PC_HISTORY = 20"

datatype outcome = FrameCommit | Halt | BudgetExhausted

fun outcome_as_str :: "outcome \<Rightarrow> string" where
  "outcome_as_str FrameCommit = ''frame_commit''"
| "outcome_as_str Halt = ''halt''"
| "outcome_as_str BudgetExhausted = ''budget_exhausted''"

record boot_report =
  bt_outcome :: outcome
  bt_icount :: u64
  bt_histogram :: "(string \<times> u64) list"
  bt_retired_pcs :: "u32 list"
  bt_halt :: "halt option"
  bt_frame_no :: "u32 option"

text \<open>A stable sort on the count, largest first.\<close>

definition report :: "outcome \<Rightarrow> cpu \<Rightarrow> string list \<Rightarrow> u64 list \<Rightarrow> u32 list \<Rightarrow> halt option \<Rightarrow> u32 option \<Rightarrow> boot_report" where
  "report out c order counts recent h frame =
     \<lparr> bt_outcome = out, bt_icount = cpu_icount c,
       bt_histogram = sort_key (\<lambda>p. - int (unat (snd p))) (zip order counts),
       bt_retired_pcs = recent, bt_halt = h, bt_frame_no = frame \<rparr>"

definition total_retired :: "boot_report \<Rightarrow> u64" where
  "total_retired r = sum_list (map snd (bt_histogram r))"

section \<open>The loop\<close>

text \<open>\<open>recent\<close> as a queue: pop when full, then push.\<close>

definition push_recent :: "nat \<Rightarrow> u32 list \<Rightarrow> u32 \<Rightarrow> u32 list" where
  "push_recent pc_history recent pc =
     (if length recent = pc_history then drop 1 recent else recent) @ [pc]"

fun position :: "'a \<Rightarrow> 'a list \<Rightarrow> nat option" where
  "position x [] = None"
| "position x (y # ys) = (if y = x then Some 0 else map_option Suc (position x ys))"

definition tally :: "string \<Rightarrow> string list \<times> u64 list \<Rightarrow> string list \<times> u64 list" where
  "tally name t = (case t of (order, counts) \<Rightarrow>
     (case position name order of
        Some at \<Rightarrow> (order, counts[at := counts ! at + 1])
      | None \<Rightarrow> (order @ [name], counts @ [1])))"

definition announced :: "cpu \<Rightarrow> u32 option" where
  "announced c = (case registers_ref (devices (cpu_memory c)) of
     Some r \<Rightarrow> if frame_commits r = [] then None else Some (frame_no (last (frame_commits r)))
   | None \<Rightarrow> None)"

lemma execute_icount: "cpu_icount (snd (execute c pc word insn)) = cpu_icount c"
proof -
  have r: "cpu_icount (snd (retire c' rd v n)) = cpu_icount c'" for c' rd v n
    by (simp add: retire_def set_reg_def split: option.split)
  have "shape c pc word (i_rd insn) (reg c (i_rs1 insn)) (reg c (i_rs2 insn)) (i_imm insn) (execute c pc word insn)"
    using exec_op_shape by (simp add: execute_def)
  then show ?thesis
  proof cases
    case (ld w sx)
    then show ?thesis by (auto simp: exec_load_def r split: option.split prod.split rresult.split)
  next
    case (st w)
    then show ?thesis by (auto simp: exec_store_def split: option.split prod.split rresult.split)
  qed (auto simp: r jump_def branch_def check_target_def Let_def split: option.split)
qed

lemma step_icount: "step_reporting c = (Ok x, c') \<Longrightarrow> cpu_icount c' = cpu_icount c + 1"
proof -
  assume a: "step_reporting c = (Ok x, c')"
  have f: "cpu_icount (snd (fetch c)) = cpu_icount c"
    by (auto simp: fetch_def Let_def split: option.split prod.split rresult.split)
  obtain r c1 where fc: "fetch c = (r, c1)" by fastforce
  obtain y c2 where "execute c1 (cpu_pc c) (fst x) (snd x) = (y, c2)" by fastforce
  then show ?thesis using a f fc execute_icount [of c1 "cpu_pc c" "fst x" "snd x"]
    by (auto simp: step_reporting_def Let_def split: if_splits rresult.splits prod.splits)
qed

lemma budget_decreases:
  assumes "cpu_icount c < budget" "(Ok x, c1) = step_reporting c"
  shows "unat budget - unat (cpu_icount c1) < unat budget - unat (cpu_icount c)"
proof -
  have n: "cpu_icount c1 = cpu_icount c + 1" by (rule step_icount [OF assms(2) [symmetric]])
  have "unat (cpu_icount c) + 1 < 2 ^ 64" using assms(1) unsigned_less [of budget, where ?'a = nat] by (simp add: word_less_nat_alt)
  then have "unat (cpu_icount c1) = unat (cpu_icount c) + 1" using unat_add_lem [of "cpu_icount c" 1] by (simp add: n)
  then show ?thesis using assms(1) by (simp add: word_less_nat_alt)
qed

function boot_loop :: "nat \<Rightarrow> u64 \<Rightarrow> cpu \<Rightarrow> string list \<times> u64 list \<Rightarrow> u32 list \<Rightarrow> (boot_report, unit) rresult \<times> cpu" where
  "boot_loop pc_history budget c t recent =
     (if cpu_icount c < budget then
        (case step_reporting c of
           (Ok x, c1) \<Rightarrow>
             let recent1 = push_recent pc_history recent (cpu_pc c);
                 t1 = tally (mnemonic (i_op (snd x))) t
             in (case announced c1 of
                   Some n \<Rightarrow> (Ok (report FrameCommit c1 (fst t1) (snd t1) recent1 None (Some n)), c1)
                 | None \<Rightarrow> boot_loop pc_history budget c1 t1 recent1)
         | (Err h, c1) \<Rightarrow> (Ok (report Halt c1 (fst t) (snd t) recent (Some h) None), c1)
         | (Panic, c1) \<Rightarrow> (Panic, c1))
      else (Ok (report BudgetExhausted c (fst t) (snd t) recent None None), c))"
  by pat_completeness auto
termination
  by (relation "measure (\<lambda>(h, budget, c, t, r). unat budget - unat (cpu_icount c))") (auto intro: budget_decreases)

declare boot_loop.simps [simp del]

definition boot :: "cpu \<Rightarrow> u64 \<Rightarrow> nat \<Rightarrow> (boot_report, unit) rresult \<times> cpu" where
  "boot c max_instructions pc_history = boot_loop pc_history max_instructions c ([], []) []"

section \<open>What a report says\<close>

text \<open>\<open>executed c ps d\<close>: the instructions with program counters and mnemonics \<open>ps\<close> retire from \<open>c\<close> and leave \<open>d\<close>.\<close>

inductive executed :: "cpu \<Rightarrow> (u32 \<times> string) list \<Rightarrow> cpu \<Rightarrow> bool" for c where
  executed_Nil: "executed c [] c"
| executed_snoc: "executed c ps d \<Longrightarrow> step_reporting d = (Ok x, d1) \<Longrightarrow>
     executed c (ps @ [(cpu_pc d, mnemonic (i_op (snd x)))]) d1"

definition tally_ok :: "string list \<Rightarrow> string list \<times> u64 list \<Rightarrow> bool" where
  "tally_ok names t = (case t of (order, counts) \<Rightarrow> distinct order \<and> length counts = length order \<and>
     set order = set names \<and> (\<forall>i<length order. counts ! i = of_nat (count_list names (order ! i))) \<and>
     sum_list counts = of_nat (length names))"

lemma position_Some: "position x xs = Some i \<Longrightarrow> i < length xs \<and> xs ! i = x"
  by (induction xs arbitrary: i) (auto split: if_splits)

lemma position_None: "position x xs = None \<longleftrightarrow> x \<notin> set xs"
  by (induction xs) auto

lemma sum_list_bump: "i < length xs \<Longrightarrow> sum_list (xs[i := xs ! i + 1]) = sum_list xs + (1 :: u64)"
  by (induction xs arbitrary: i) (auto simp: nth_Cons' list_update_code gr0_conv_Suc split: nat.split)

lemma tally_step:
  assumes "tally_ok names t"
  shows "tally_ok (names @ [name]) (tally name t)"
proof -
  obtain order counts where t: "t = (order, counts)" by fastforce
  have a: "distinct order" "length counts = length order" "set order = set names"
      "\<And>i. i < length order \<Longrightarrow> counts ! i = of_nat (count_list names (order ! i))" "sum_list counts = of_nat (length names)"
    using assms t by (auto simp: tally_ok_def)
  show ?thesis
  proof (cases "position name order")
    case None
    then have "name \<notin> set names" using position_None a(3) by metis
    then have "count_list names name = 0" by (simp add: count_list_0_iff)
    then show ?thesis using None t a position_None [of name order]
      by (auto simp: tally_def tally_ok_def nth_append less_Suc_eq)
  next
    case (Some at)
    then have i: "at < length order" "order ! at = name" using position_Some by metis+
    have "order ! j = name \<longleftrightarrow> j = at" if "j < length order" for j
      using i a(1) that nth_eq_iff_index_eq by metis
    moreover have "name \<in> set names" using i a(3) nth_mem by metis
    ultimately show ?thesis using Some t a i sum_list_bump [of at counts]
      by (auto simp: tally_def tally_ok_def nth_list_update insert_absorb)
  qed
qed

lemma push_recent_last:
  assumes "0 < h" "recent = drop (length pcs - h) pcs"
  shows "push_recent h recent pc = drop (length (pcs @ [pc]) - h) (pcs @ [pc])"
proof (cases "h \<le> length pcs")
  case True
  then have "length recent = h" using assms(2) by simp
  moreover have "length pcs + 1 - h = Suc (length pcs - h)" using True by simp
  ultimately show ?thesis using True assms by (simp add: push_recent_def drop_Suc tl_drop)
next
  case False
  then show ?thesis using assms by (simp add: push_recent_def)
qed

definition report_ok :: "nat \<Rightarrow> (u32 \<times> string) list \<Rightarrow> boot_report \<Rightarrow> bool" where
  "report_ok h ps r \<longleftrightarrow> bt_retired_pcs r = drop (length ps - h) (map fst ps) \<and>
     distinct (map fst (bt_histogram r)) \<and> sorted (map (\<lambda>p. - int (unat (snd p))) (bt_histogram r)) \<and>
     (\<forall>name n. (name, n) \<in> set (bt_histogram r) \<longleftrightarrow> name \<in> set (map snd ps) \<and> n = of_nat (count_list (map snd ps) name)) \<and>
     total_retired r = of_nat (length ps)"

lemma report_report_ok:
  assumes "tally_ok (map snd ps) t" "recent = drop (length ps - h) (map fst ps)"
  shows "report_ok h ps (report out c (fst t) (snd t) recent hl fr)"
proof -
  obtain order counts where t: "t = (order, counts)" by fastforce
  let ?z = "zip order counts"
  have a: "distinct order" "length counts = length order" "set order = set (map snd ps)"
      "\<And>i. i < length order \<Longrightarrow> counts ! i = of_nat (count_list (map snd ps) (order ! i))" "sum_list counts = of_nat (length ps)"
    using assms(1) t by (auto simp: tally_ok_def)
  let ?s = "sort_key (\<lambda>p. - int (unat (snd p))) ?z"
  have mz: "mset ?s = mset ?z" by (rule mset_sort)
  have "mset (map fst ?s) = mset (map fst ?z)" unfolding mset_map mz ..
  then have "mset (map fst ?s) = mset order" using a(2) by simp
  then have d: "distinct (map fst ?s)" using a(1) mset_eq_imp_distinct_iff by blast
  have "mset (map snd ?s) = mset (map snd ?z)" unfolding mset_map mz ..
  then have "mset (map snd ?s) = mset counts" using a(2) by simp
  then have sm: "sum_list (map snd ?s) = sum_list counts" using sum_mset_sum_list by metis
  have "(name, n) \<in> set ?z \<longleftrightarrow> name \<in> set (map snd ps) \<and> n = of_nat (count_list (map snd ps) name)" for name n
  proof -
    have "(name, n) \<in> set ?z \<longleftrightarrow> (\<exists>i<length order. name = order ! i \<and> n = counts ! i)" using a(2) by (auto simp: set_zip)
    also have "\<dots> \<longleftrightarrow> (\<exists>i<length order. name = order ! i \<and> n = of_nat (count_list (map snd ps) name))" using a(4) by metis
    also have "\<dots> \<longleftrightarrow> name \<in> set order \<and> n = of_nat (count_list (map snd ps) name)" by (auto simp: in_set_conv_nth)
    finally show ?thesis using a(3) by simp
  qed
  then show ?thesis using assms(2) d sm a(5) unfolding t by (simp add: report_ok_def report_def total_retired_def)
qed

lemma boot_loop_correct:
  assumes "cpu_inv d" "0 < h" "executed c ps d" "tally_ok (map snd ps) t" "recent = drop (length ps - h) (map fst ps)"
  shows "\<exists>r c' qs e. boot_loop h budget d t recent = (Ok r, c') \<and> executed c qs e \<and> report_ok h qs r \<and> bt_icount r = cpu_icount c' \<and>
    (case bt_outcome r of
       FrameCommit \<Rightarrow> c' = e \<and> bt_frame_no r = announced e \<and> announced e \<noteq> None
     | Halt \<Rightarrow> \<exists>x. bt_halt r = Some x \<and> step_reporting e = (Err x, c')
     | BudgetExhausted \<Rightarrow> c' = e \<and> \<not> cpu_icount e < budget)"
  using assms
proof (induction h budget d t recent arbitrary: ps rule: boot_loop.induct)
  case (1 h budget d t recent)
  show ?case
  proof (cases "cpu_icount d < budget")
    case False
    let ?r = "report BudgetExhausted d (fst t) (snd t) recent None None"
    have e: "boot_loop h budget d t recent = (Ok ?r, d)" using False by (subst boot_loop.simps) simp
    have rep: "report_ok h ps ?r" by (rule report_report_ok [OF 1(5,6)])
    show ?thesis unfolding e using 1(4) rep False
      by (intro exI [of _ ?r] exI [of _ d] exI [of _ ps]) (simp add: report_def)
  next
    case True
    obtain s d1 where s: "step_reporting d = (s, d1)" by fastforce
    note f = step_reporting_facts [OF 1(2) s]
    show ?thesis
    proof (cases s)
      case (Err x)
      let ?r = "report Halt d1 (fst t) (snd t) recent (Some x) None"
      have e: "boot_loop h budget d t recent = (Ok ?r, d1)" using True s Err by (subst boot_loop.simps) simp
      have rep: "report_ok h ps ?r" by (rule report_report_ok [OF 1(5,6)])
      show ?thesis unfolding e using 1(4) rep s Err
        by (intro exI [of _ ?r] exI [of _ d1] exI [of _ ps] exI [of _ d]) (simp add: report_def)
    next
      case Panic
      then show ?thesis using f(1) by simp
    next
      case (Ok x)
      let ?p = "(cpu_pc d, mnemonic (i_op (snd x)))"
      let ?t = "tally (snd ?p) t" and ?r = "push_recent h recent (fst ?p)"
      have ex: "executed c (ps @ [?p]) d1" using 1(4) s Ok by (auto intro: executed_snoc)
      have tk: "tally_ok (map snd (ps @ [?p])) ?t" using tally_step [OF 1(5)] by simp
      have rk: "?r = drop (length (ps @ [?p]) - h) (map fst (ps @ [?p]))"
        using push_recent_last [OF 1(3), of recent "map fst ps" "fst ?p"] 1(6) by simp
      show ?thesis
      proof (cases "announced d1")
        case None
        have e: "boot_loop h budget d t recent = boot_loop h budget d1 ?t ?r"
          using True s Ok None by (subst boot_loop.simps) (simp add: Let_def)
        have iv: "cpu_inv d1" using f(2) .
        show ?thesis unfolding e
          using 1(1) [OF True s [symmetric] Ok refl refl _ iv 1(3) ex] tk rk None by simp
      next
        case (Some n)
        have e: "boot_loop h budget d t recent = (Ok (report FrameCommit d1 (fst ?t) (snd ?t) ?r None (Some n)), d1)"
          using True s Ok Some by (subst boot_loop.simps) (simp add: Let_def)
        have rep: "report_ok h (ps @ [?p]) (report FrameCommit d1 (fst ?t) (snd ?t) ?r None (Some n))"
          by (rule report_report_ok [OF tk rk])
        show ?thesis unfolding e using ex rep Some
          by (intro exI [of _ "report FrameCommit d1 (fst ?t) (snd ?t) ?r None (Some n)"] exI [of _ d1] exI [of _ "ps @ [?p]"])
            (simp add: report_def)
      qed
    qed
  qed
qed

text \<open>
  C28: A boot report tells the run as it was.  Booting a sound machine with a history of at least one
  always returns a report.  Its program counters are the last ones that retired, oldest first; its
  histogram names every mnemonic that ran exactly once, with the number of times it ran, most used first,
  and its counts add up to the instructions retired; and its outcome is what stopped the run: the first
  frame announced, the halt the machine reported, or the budget.
\<close>

theorem boot_report_correct:
  assumes "cpu_inv c" "0 < h"
  shows "\<exists>r c' ps e. boot c budget h = (Ok r, c') \<and> executed c ps e \<and> report_ok h ps r \<and> bt_icount r = cpu_icount c' \<and>
    (case bt_outcome r of
       FrameCommit \<Rightarrow> c' = e \<and> bt_frame_no r = announced e \<and> announced e \<noteq> None
     | Halt \<Rightarrow> \<exists>x. bt_halt r = Some x \<and> step_reporting e = (Err x, c')
     | BudgetExhausted \<Rightarrow> c' = e \<and> \<not> cpu_icount e < budget)"
  unfolding boot_def
  by (rule boot_loop_correct [OF assms executed_Nil]) (simp_all add: tally_ok_def)

theorem boot_report_correct_witness:
  "\<exists>r c'. boot cpu_small 100 RETIRED_PC_HISTORY = (Ok r, c') \<and> bt_icount r = cpu_icount c'"
  using boot_report_correct [OF cpu_small_inv, of RETIRED_PC_HISTORY 100] by (auto simp: RETIRED_PC_HISTORY_def)

text \<open>With a history of zero nothing is ever dropped, so the history grows with the run.\<close>

lemma push_recent_zero: "recent \<noteq> [] \<Longrightarrow> push_recent 0 recent pc = recent @ [pc]"
  by (simp add: push_recent_def)

end
