(* ===== verification/Wad.thy ===== *)
theory Wad
  imports Image Text_Format
begin

text \<open>
  The WAD reader, \<open>native/src/wad\<close>: the header and directory of a WAD read into lumps, each with the
  name of the map marker that encloses it, the lookups over them, and the check of a file against a
  \<open>sha256sum\<close> line.  The digest is code of another package and a parameter.
\<close>

section \<open>Checked arithmetic\<close>

definition checked_mul_u64 :: "u64 \<Rightarrow> u64 \<Rightarrow> u64 option" where
  "checked_mul_u64 a b = (if unat a * unat b < 2 ^ 64 then Some (a * b) else None)"

definition checked_add_u64 :: "u64 \<Rightarrow> u64 \<Rightarrow> u64 option" where
  "checked_add_u64 a b = (if unat a + unat b < 2 ^ 64 then Some (a + b) else None)"

text \<open>\<open>bytes.get(from..to)\<close>.\<close>

definition range_get :: "'a list \<Rightarrow> nat \<Rightarrow> nat \<Rightarrow> 'a list option" where
  "range_get xs from to = (if from \<le> to \<and> to \<le> length xs then Some (take (to - from) (drop from xs)) else None)"

section \<open>Errors\<close>

datatype wad_error =
    HeaderTooShort nat
  | BadMagic "u8 list"
  | NegativeLumpCount i32
  | NegativeDirectoryOffset i32
  | DirectoryOutOfRange u64 u64 nat
  | NegativeLumpExtent u32 i32 i32
  | LumpOutOfRange u32 "u8 list" u64 u64 nat
  | BadName u32 "u8 list"
  | OrphanMapLump u32 "u8 list"
  | BadChecksumFile "u8 list"
  | ChecksumMismatch "u8 list" "u8 list"

section \<open>Names\<close>

definition NAME_LEN :: nat where "NAME_LEN = 8"

definition is_ascii_graphic :: "u8 \<Rightarrow> bool" where
  "is_ascii_graphic b \<longleftrightarrow> 33 \<le> b \<and> b \<le> 126"

text \<open>\<open>std::str::from_utf8\<close> accepts the bytes the lossy reader would leave alone.\<close>

function valid_utf8 :: "u8 list \<Rightarrow> bool" where
  "valid_utf8 [] = True"
| "valid_utf8 (b # rest) = (case utf8_step b rest of (n, ok) \<Rightarrow> ok \<and> valid_utf8 (drop (n - 1) rest))"
  by pat_completeness auto
termination by (relation "measure length") auto

definition name_read :: "u32 \<Rightarrow> u8 list \<Rightarrow> (u8 list, wad_error) rresult" where
  "name_read index field =
     (let name = takeWhile (\<lambda>b. b \<noteq> 0) field;
          bad_padding = (\<exists>b\<in>set (drop (length name) field). b \<noteq> 0);
          bad_chars = (\<exists>b\<in>set name. \<not> is_ascii_graphic b)
      in if name = [] \<or> bad_padding \<or> bad_chars then Err (BadName index field)
         else if valid_utf8 name then Ok name else Err (BadName index field))"

section \<open>Markers\<close>

definition MAP_LUMPS :: "u8 list list" where
  "MAP_LUMPS = map ascii [''THINGS'', ''LINEDEFS'', ''SIDEDEFS'', ''VERTEXES'', ''SEGS'', ''SSECTORS'', ''NODES'',
     ''SECTORS'', ''REJECT'', ''BLOCKMAP'']"

definition is_marker :: "u8 list \<Rightarrow> bool" where
  "is_marker b \<longleftrightarrow>
     (if length b = 4 then b ! 0 = 69 \<and> is_ascii_digit (b ! 1) \<and> b ! 2 = 77 \<and> is_ascii_digit (b ! 3)
      else if length b = 5 then take 3 b = ascii ''MAP'' \<and> is_ascii_digit (b ! 3) \<and> is_ascii_digit (b ! 4)
      else False)"

definition is_map_lump :: "u8 list \<Rightarrow> bool" where
  "is_map_lump name \<longleftrightarrow> name \<in> set MAP_LUMPS"

section \<open>The directory\<close>

definition HEADER_LEN :: nat where "HEADER_LEN = 12"
definition ENTRY_LEN :: nat where "ENTRY_LEN = 16"

datatype wad_kind = Iwad | Pwad

record lump =
  lump_index :: u32
  lump_name :: "u8 list"
  lump_marker :: "u8 list"
  lump_bytes :: "u8 list"

record wad =
  wad_kind :: wad_kind
  wad_lumps :: "lump list"

definition read_i32 :: "u8 list \<Rightarrow> i32" where
  "read_i32 bytes = from_le_bytes bytes"

definition split_entry :: "u8 list \<Rightarrow> i32 \<times> i32 \<times> u8 list" where
  "split_entry entry = (from_le_bytes (take 4 entry), from_le_bytes (take 4 (drop 4 entry)), drop 8 entry)"

definition directory_slice :: "u8 list \<Rightarrow> u64 \<Rightarrow> u64 \<Rightarrow> (u8 list, wad_error) rresult" where
  "directory_slice bytes offset count =
     (case Option.bind (checked_mul_u64 count (of_nat ENTRY_LEN)) (\<lambda>span. checked_add_u64 span offset) of
        None \<Rightarrow> Err (DirectoryOutOfRange offset count (length bytes))
      | Some span \<Rightarrow>
          (case range_get bytes (unat offset) (unat span) of
             Some d \<Rightarrow> Ok d
           | None \<Rightarrow> Err (DirectoryOutOfRange offset count (length bytes))))"

definition read_entry :: "u8 list \<Rightarrow> u32 \<Rightarrow> u8 list \<Rightarrow> (lump, wad_error) rresult" where
  "read_entry bytes index entry =
     (case split_entry entry of (offset, len, field) \<Rightarrow>
      rbind (name_read index field) (\<lambda>name.
        if sint offset < 0 \<or> sint len < 0 then Err (NegativeLumpExtent index offset len)
        else let off = (scast offset :: u64); sz = (scast len :: u64) in
          (case Option.bind (checked_add_u64 off sz) (\<lambda>stop. range_get bytes (unat off) (unat stop)) of
             Some body \<Rightarrow> Ok \<lparr> lump_index = index, lump_name = name, lump_marker = [], lump_bytes = body \<rparr>
           | None \<Rightarrow> Err (LumpOutOfRange index name off sz (length bytes)))))"

text \<open>The loop over the entries, with the index and the marker in force.\<close>

fun read_lumps :: "u8 list \<Rightarrow> nat \<Rightarrow> u8 list \<Rightarrow> u8 list list \<Rightarrow> (lump list, wad_error) rresult" where
  "read_lumps bytes index current_marker [] = Ok []"
| "read_lumps bytes index current_marker (entry # entries) =
     rbind (read_entry bytes (of_nat index) entry) (\<lambda>l.
       let name = lump_name l in
       if \<not> is_marker name \<and> is_map_lump name \<and> current_marker = []
       then Err (OrphanMapLump (of_nat index) name)
       else let marker = (if is_marker name then name else if \<not> is_map_lump name then [] else current_marker)
         in rbind (read_lumps bytes (Suc index) marker entries) (\<lambda>ls. Ok (l\<lparr>lump_marker := marker\<rparr> # ls)))"

definition wad_parse :: "u8 list \<Rightarrow> (wad, wad_error) rresult" where
  "wad_parse bytes =
     (if length bytes < HEADER_LEN then Err (HeaderTooShort (length bytes))
      else let magic = take 4 bytes;
               count = read_i32 (take 4 (drop 4 bytes));
               offset = read_i32 (take 4 (drop 8 bytes))
        in rbind (if magic = ascii ''IWAD'' then Ok Iwad else if magic = ascii ''PWAD'' then Ok Pwad else Err (BadMagic magic)) (\<lambda>kind.
           if sint count < 0 then Err (NegativeLumpCount count)
           else if sint offset < 0 then Err (NegativeDirectoryOffset offset)
           else rbind (directory_slice bytes (scast offset) (scast count)) (\<lambda>dir.
             rbind (read_lumps bytes 0 [] (chunks ENTRY_LEN dir)) (\<lambda>lumps.
               Ok \<lparr> wad_kind = kind, wad_lumps = lumps \<rparr>))))"

section \<open>Lookups\<close>

definition wad_find :: "wad \<Rightarrow> u8 list \<Rightarrow> lump option" where
  "wad_find w name = List.find (\<lambda>l. lump_name l = name) (rev (wad_lumps w))"

definition wad_map :: "wad \<Rightarrow> u8 list \<Rightarrow> lump list" where
  "wad_map w marker = filter (\<lambda>l. lump_marker l = marker) (wad_lumps w)"

definition map_lump :: "wad \<Rightarrow> u8 list \<Rightarrow> u8 list \<Rightarrow> lump option" where
  "map_lump w marker name = List.find (\<lambda>l. lump_name l = name) (wad_map w marker)"

section \<open>Checksums\<close>

definition starts_white :: "u8 list \<Rightarrow> bool" where
  "starts_white bs \<longleftrightarrow> (\<exists>w\<in>set white_space. take (length w) bs = w)"

text \<open>The first field of \<open>split_whitespace\<close>, which has none on an all-blank line.\<close>

fun until_white :: "u8 list \<Rightarrow> u8 list" where
  "until_white [] = []"
| "until_white (b # bs) = (if starts_white (b # bs) then [] else b # until_white bs)"

definition first_field :: "u8 list \<Rightarrow> u8 list option" where
  "first_field line = (let rest = str_trim_start line in if rest = [] then None else Some (until_white rest))"

definition is_ascii_hexdigit :: "u8 \<Rightarrow> bool" where
  "is_ascii_hexdigit b \<longleftrightarrow> is_ascii_digit b \<or> 97 \<le> b \<and> b \<le> 102 \<or> 65 \<le> b \<and> b \<le> 70"

definition expected_digest :: "u8 list \<Rightarrow> (u8 list, wad_error) rresult" where
  "expected_digest line = (case first_field line of
     None \<Rightarrow> Err (BadChecksumFile (str_trim_end line))
   | Some digest \<Rightarrow>
       if length digest \<noteq> 64 \<or> \<not> list_all is_ascii_hexdigit digest then Err (BadChecksumFile (str_trim_end line))
       else Ok digest)"

definition wad_verify :: "(u8 list \<Rightarrow> u8 list) \<Rightarrow> u8 list \<Rightarrow> u8 list \<Rightarrow> (unit, wad_error) rresult" where
  "wad_verify sha256_hex bytes line = rbind (expected_digest line) (\<lambda>expected.
     let actual = sha256_hex bytes in
     if actual \<noteq> expected then Err (ChecksumMismatch expected actual) else Ok ())"

definition parse_verified :: "(u8 list \<Rightarrow> u8 list) \<Rightarrow> u8 list \<Rightarrow> u8 list \<Rightarrow> (wad, wad_error) rresult" where
  "parse_verified sha256_hex bytes line = rbind (wad_verify sha256_hex bytes line) (\<lambda>_. wad_parse bytes)"

section \<open>Names that are read\<close>

definition name_ok :: "u8 list \<Rightarrow> bool" where
  "name_ok name \<longleftrightarrow> name \<noteq> [] \<and> length name \<le> NAME_LEN \<and> list_all is_ascii_graphic name"

lemma graphic_nonzero: "is_ascii_graphic b \<Longrightarrow> b \<noteq> 0"
  by (auto simp: is_ascii_graphic_def)

lemma graphic_ascii: "is_ascii_graphic b \<Longrightarrow> utf8_step b rest = (1, True)"
proof -
  assume "is_ascii_graphic b"
  then have "b < 0x80" by (simp add: is_ascii_graphic_def word_less_nat_alt word_le_nat_alt)
  then show ?thesis by (simp add: utf8_step_def utf8_char_width_def)
qed

lemma graphic_valid: "list_all is_ascii_graphic bs \<Longrightarrow> valid_utf8 bs"
  by (induction bs) (auto simp: graphic_ascii)

lemma if_bad_Ok: "(if bad then Err e else if v then Ok n else Err e) = Ok name \<longleftrightarrow> \<not> bad \<and> v \<and> n = name"
  by auto

lemma name_read_Ok:
  assumes "name_read i field = Ok name" "length field = NAME_LEN"
  shows "name_ok name"
proof -
  have "name = takeWhile (\<lambda>b. b \<noteq> 0) field" "name \<noteq> []" "\<forall>b\<in>set name. is_ascii_graphic b"
    using assms(1) unfolding name_read_def Let_def if_bad_Ok by blast+
  then show ?thesis using length_takeWhile_le [of "\<lambda>b. b \<noteq> 0" field] assms(2) by (simp add: name_ok_def list_all_iff)
qed

lemma name_read_padded:
  assumes "name_ok name"
  shows "name_read i (name @ replicate (NAME_LEN - length name) 0) = Ok name"
proof -
  have nz: "\<forall>b\<in>set name. b \<noteq> 0" using assms graphic_nonzero by (auto simp: name_ok_def list_all_iff)
  have "takeWhile (\<lambda>b. b \<noteq> 0) (name @ replicate k 0) = name" for k
    using nz by (cases k) (simp_all add: takeWhile_append2)
  then show ?thesis using assms graphic_valid [of name]
    by (auto simp: name_read_def Let_def name_ok_def list_all_iff)
qed

lemma marker_not_map_lump: "is_marker name \<Longrightarrow> \<not> is_map_lump name"
  by (auto simp: is_marker_def is_map_lump_def MAP_LUMPS_def ascii_def is_ascii_digit_def)

section \<open>What a parsed WAD holds\<close>

lemma scast_i32: "0 \<le> sint x \<Longrightarrow> unat (scast (x :: i32) :: u64) = unat x"
proof -
  assume x: "0 \<le> sint x"
  have b: "sint x < 2 ^ 31" using sint_lt [of x] by simp
  have "take_bit LENGTH(32) (sint x) = sint x" using x b by (intro take_bit_int_eq_self) simp_all
  then have "uint x = sint x" using uint_sint [of x] by simp
  moreover have "take_bit LENGTH(64) (sint x) = sint x" using x b by (intro take_bit_int_eq_self) simp_all
  then have "uint (scast x :: u64) = sint x" by (simp only: scast_eq uint_word_of_int_eq)
  ultimately show ?thesis by (metis nat_uint_eq)
qed

lemma range_get_Some_iff: "range_get xs a b = Some ys \<longleftrightarrow> a \<le> b \<and> b \<le> length xs \<and> ys = take (b - a) (drop a xs)"
  by (auto simp: range_get_def)

text \<open>\<open>file_slice bytes xs\<close>: the bytes \<open>xs\<close> lie in the file.\<close>

definition file_slice :: "u8 list \<Rightarrow> u8 list \<Rightarrow> bool" where
  "file_slice bytes xs \<longleftrightarrow> (\<exists>off. off + length xs \<le> length bytes \<and> xs = take (length xs) (drop off bytes))"

lemma read_entry_Ok:
  assumes "read_entry bytes i entry = Ok l" "length entry = ENTRY_LEN"
  shows "lump_index l = i \<and> name_ok (lump_name l) \<and> file_slice bytes (lump_bytes l)"
proof -
  obtain off len field where e: "split_entry entry = (off, len, field)" by (metis prod_cases3)
  then have f: "length field = NAME_LEN" using assms(2) by (auto simp: split_entry_def ENTRY_LEN_def NAME_LEN_def)
  obtain name a b where n: "name_read i field = Ok name"
    and l: "lump_index l = i" "lump_name l = name" "a \<le> b" "b \<le> length bytes" "lump_bytes l = take (b - a) (drop a bytes)"
    using assms(1) e
    by (auto simp: read_entry_def Let_def rbind_Ok_iff range_get_Some_iff bind_eq_Some_conv split: if_splits option.splits)
  moreover have "name_ok name" using name_read_Ok [OF n f] .
  moreover have "file_slice bytes (lump_bytes l)"
    using l(3-5) by (auto simp: file_slice_def intro!: exI [of _ a])
  ultimately show ?thesis by simp
qed

text \<open>\<open>encloses names j i\<close>: the marker at \<open>j\<close> is the one the map lump at \<open>i\<close> belongs to.\<close>

definition encloses :: "u8 list list \<Rightarrow> nat \<Rightarrow> nat \<Rightarrow> bool" where
  "encloses names j i \<longleftrightarrow> j < i \<and> is_marker (names ! j) \<and> (\<forall>k. j < k \<and> k \<le> i \<longrightarrow> is_map_lump (names ! k))"

definition marker_of :: "u8 list \<Rightarrow> u8 list list \<Rightarrow> nat \<Rightarrow> u8 list \<Rightarrow> bool" where
  "marker_of m names i marker \<longleftrightarrow>
     (if is_marker (names ! i) then marker = names ! i
      else if \<not> is_map_lump (names ! i) then marker = []
      else (\<exists>j. encloses names j i \<and> marker = names ! j) \<or> m \<noteq> [] \<and> marker = m \<and> (\<forall>k\<le>i. is_map_lump (names ! k)))"

lemma encloses_Cons:
  assumes "encloses names j i"
  shows "encloses (n # names) (Suc j) (Suc i)"
proof -
  have "is_map_lump ((n # names) ! k)" if "Suc j < k" "k \<le> Suc i" for k
    using assms that by (cases k) (auto simp: encloses_def)
  then show ?thesis using assms by (auto simp: encloses_def)
qed

lemma all_less_Suc_shift: "(\<forall>k\<le>Suc i. P ((n # names) ! k)) \<longleftrightarrow> P n \<and> (\<forall>k\<le>i. P (names ! k))"
proof -
  have "(\<forall>k\<le>Suc i. Q k) \<longleftrightarrow> Q 0 \<and> (\<forall>k\<le>i. Q (Suc k))" for Q
    using Suc_le_D by (metis Suc_le_mono not0_implies_Suc zero_le)
  from this [of "\<lambda>k. P ((n # names) ! k)"] show ?thesis by simp
qed

lemma marker_of_Cons:
  assumes "marker_of m' names i marker"
    and "m' = (if is_marker n then n else if \<not> is_map_lump n then [] else m)"
  shows "marker_of m (n # names) (Suc i) marker"
proof -
  have k: "(\<forall>k\<le>Suc i. is_map_lump ((n # names) ! k)) \<longleftrightarrow> is_map_lump n \<and> (\<forall>k\<le>i. is_map_lump (names ! k))"
    by (rule all_less_Suc_shift)
  have z: "encloses (n # names) 0 (Suc i)" if "is_marker n" "\<forall>k\<le>i. is_map_lump (names ! k)"
    using that by (auto simp: encloses_def nth_Cons')
  show ?thesis
  proof (cases "\<not> is_marker (names ! i) \<and> is_map_lump (names ! i)")
    case False
    then show ?thesis using assms(1) by (auto simp: marker_of_def split: if_splits)
  next
    case True
    then consider (a) j where "encloses names j i" "marker = names ! j"
      | (b) "m' \<noteq> []" "marker = m'" "\<forall>k\<le>i. is_map_lump (names ! k)"
      using assms(1) by (auto simp: marker_of_def)
    then have "(\<exists>j. encloses (n # names) j (Suc i) \<and> marker = (n # names) ! j) \<or>
        m \<noteq> [] \<and> marker = m \<and> (\<forall>k\<le>Suc i. is_map_lump ((n # names) ! k))"
    proof cases
      case a
      then show ?thesis using encloses_Cons [of names j i n] by (metis nth_Cons_Suc)
    next
      case b
      then show ?thesis using z k assms(2) by (cases "is_marker n") (auto split: if_splits)
    qed
    then show ?thesis using True by (simp add: marker_of_def)
  qed
qed

lemma read_lumps_Ok:
  assumes "read_lumps bytes k m entries = Ok ls" "\<forall>e\<in>set entries. length e = ENTRY_LEN"
  shows "length ls = length entries \<and> (\<forall>i<length ls.
    lump_index (ls ! i) = of_nat (k + i) \<and> name_ok (lump_name (ls ! i)) \<and> file_slice bytes (lump_bytes (ls ! i)) \<and>
    marker_of m (map lump_name ls) i (lump_marker (ls ! i)))"
  using assms
proof (induction bytes k m entries arbitrary: ls rule: read_lumps.induct)
  case (2 bytes k m entry entries)
  obtain l where l: "read_entry bytes (of_nat k) entry = Ok l" using "2.prems"(1) by (auto simp: rbind_Ok_iff)
  let ?n = "lump_name l"
  let ?m = "if is_marker ?n then ?n else if \<not> is_map_lump ?n then [] else m"
  have g: "\<not> (\<not> is_marker ?n \<and> is_map_lump ?n \<and> m = [])" using "2.prems"(1) l by (auto simp: Let_def)
  then obtain rs where rs: "read_lumps bytes (Suc k) ?m entries = Ok rs" "ls = l\<lparr>lump_marker := ?m\<rparr> # rs"
    using "2.prems"(1) l by (auto simp: Let_def rbind_Ok_iff split: if_splits)
  note ih = "2.IH" [OF l refl g refl rs(1)]
  have e: "lump_index l = of_nat k \<and> name_ok (lump_name l) \<and> file_slice bytes (lump_bytes l)"
    using read_entry_Ok [OF l] "2.prems"(2) by simp
  have z: "marker_of m (map lump_name ls) 0 ?m" using rs(2) g by (auto simp: marker_of_def)
  have "marker_of m (map lump_name ls) (Suc i) (lump_marker (rs ! i))" if "i < length rs" for i
    using marker_of_Cons [of ?m "map lump_name rs" i "lump_marker (rs ! i)" ?n m] ih that "2.prems"(2) rs(2) g by auto
  then show ?case using rs(2) ih e z "2.prems"(2) by (auto simp: nth_Cons' gr0_conv_Suc)
qed simp

lemma chunks_length: "e \<in> set (chunks n xs) \<Longrightarrow> length e = n"
  by (induction n xs rule: chunks.induct) (subst (asm) (2) chunks.simps, auto split: if_splits)

lemma length_chunks: "0 < n \<Longrightarrow> length (chunks n xs) = length xs div n"
  by (induction n xs rule: chunks.induct) (subst chunks.simps, auto simp: le_div_geq)

lemma directory_slice_Ok:
  assumes "directory_slice bytes offset count = Ok d"
  shows "length d = unat count * ENTRY_LEN"
  using assms
  by (auto simp: directory_slice_def bind_eq_Some_conv checked_mul_u64_def checked_add_u64_def range_get_Some_iff
      unat_add_lem unat_word_ariths ENTRY_LEN_def split: option.splits if_splits)

text \<open>
  A WAD that parses is what its directory says.  There is one lump per entry the header counts, in
  order and numbered from zero; each name is one to eight printable characters; each body is a slice of
  the file; and the map marker of a lump is the lump itself when it is a marker, empty when no map owns
  it, and otherwise the last marker before it with nothing but map lumps in between, which there always
  is.  So looking a map lump up by marker and name answers with a lump of that name inside that map.
\<close>

theorem wad_parse_sound:
  assumes "wad_parse bytes = Ok w" and "names = map lump_name (wad_lumps w)"
  shows "length (wad_lumps w) = unat (from_le_bytes (take 4 (drop 4 bytes)) :: u32) \<and>
    (\<forall>i<length (wad_lumps w). let l = wad_lumps w ! i in
      lump_index l = of_nat i \<and> name_ok (names ! i) \<and> file_slice bytes (lump_bytes l) \<and>
      (if is_marker (names ! i) then lump_marker l = names ! i
       else if \<not> is_map_lump (names ! i) then lump_marker l = []
       else \<exists>j. encloses names j i \<and> lump_marker l = names ! j)) \<and>
    (\<forall>marker name l. map_lump w marker name = Some l \<and> is_map_lump name \<longrightarrow>
      (\<exists>i<length (wad_lumps w). \<exists>j. wad_lumps w ! i = l \<and> lump_name l = name \<and> encloses names j i \<and> names ! j = marker))"
proof -
  let ?ls = "wad_lumps w"
  obtain dir where d: "directory_slice bytes (scast (read_i32 (take 4 (drop 8 bytes)))) (scast (read_i32 (take 4 (drop 4 bytes)))) = Ok dir"
    and c: "0 \<le> sint (read_i32 (take 4 (drop 4 bytes)))"
    and r: "read_lumps bytes 0 [] (chunks ENTRY_LEN dir) = Ok ?ls"
    using assms(1) by (auto simp: wad_parse_def Let_def rbind_Ok_iff split: if_splits)
  note f = read_lumps_Ok [OF r]
  have e: "\<forall>e\<in>set (chunks ENTRY_LEN dir). length e = ENTRY_LEN" using chunks_length by blast
  have "length ?ls = length dir div ENTRY_LEN" using f e length_chunks [of ENTRY_LEN dir] by (simp add: ENTRY_LEN_def)
  then have n: "length ?ls = unat (from_le_bytes (take 4 (drop 4 bytes)) :: u32)"
    using directory_slice_Ok [OF d] scast_i32 [OF c] by (simp add: read_i32_def ENTRY_LEN_def)
  have s: "lump_index (?ls ! i) = of_nat i \<and> name_ok (names ! i) \<and> file_slice bytes (lump_bytes (?ls ! i)) \<and>
      (if is_marker (names ! i) then lump_marker (?ls ! i) = names ! i
       else if \<not> is_map_lump (names ! i) then lump_marker (?ls ! i) = []
       else \<exists>j. encloses names j i \<and> lump_marker (?ls ! i) = names ! j)" if "i < length ?ls" for i
    using f e that by (auto simp: assms(2) marker_of_def)
  have "\<exists>i<length ?ls. \<exists>j. ?ls ! i = l \<and> lump_name l = name \<and> encloses names j i \<and> names ! j = marker"
    if lk: "map_lump w marker name = Some l" "is_map_lump name" for marker name l
  proof -
    have "l \<in> set (wad_map w marker)" "lump_name l = name"
      using lk(1) unfolding map_lump_def find_Some_iff by auto
    then obtain i where i: "i < length ?ls" "?ls ! i = l" "lump_marker l = marker"
      by (auto simp: wad_map_def in_set_conv_nth)
    have "names ! i = name" using i \<open>lump_name l = name\<close> by (simp add: assms(2))
    then obtain j where "encloses names j i" "lump_marker (?ls ! i) = names ! j"
      using s [OF i(1)] lk(2) marker_not_map_lump [of name] by (metis (no_types, lifting))
    then show ?thesis using i \<open>lump_name l = name\<close> by auto
  qed
  then show ?thesis using n s by (simp add: Let_def)
qed

section \<open>Writing a WAD and reading it\<close>

text \<open>A WAD laid out the way the format means it: header, bodies one after the other, directory.\<close>

fun wad_entries :: "nat \<Rightarrow> (u8 list \<times> u8 list) list \<Rightarrow> u8 list list" where
  "wad_entries off [] = []"
| "wad_entries off ((name, body) # ls) =
     (to_le_bytes 4 (of_nat off :: u32) @ to_le_bytes 4 (of_nat (length body) :: u32) @
      name @ replicate (NAME_LEN - length name) 0) # wad_entries (off + length body) ls"

definition wad_layout :: "wad_kind \<Rightarrow> (u8 list \<times> u8 list) list \<Rightarrow> u8 list" where
  "wad_layout kind ls =
     (case kind of Iwad \<Rightarrow> ascii ''IWAD'' | Pwad \<Rightarrow> ascii ''PWAD'') @
     to_le_bytes 4 (of_nat (length ls) :: u32) @
     to_le_bytes 4 (of_nat (HEADER_LEN + length (concat (map snd ls))) :: u32) @
     concat (map snd ls) @ concat (wad_entries HEADER_LEN ls)"

text \<open>\<open>owned m names\<close>: every map lump has its marker, the first ones possibly the marker \<open>m\<close>.\<close>

definition owned :: "u8 list \<Rightarrow> u8 list list \<Rightarrow> bool" where
  "owned m names \<longleftrightarrow> (\<forall>i<length names. is_map_lump (names ! i) \<longrightarrow>
     (\<exists>j. encloses names j i) \<or> m \<noteq> [] \<and> (\<forall>k\<le>i. is_map_lump (names ! k)))"

lemma sint_small: "n < 2 ^ 31 \<Longrightarrow> 0 \<le> sint (of_nat n :: u32)"
proof -
  assume n: "n < 2 ^ 31"
  then have "unat (of_nat n :: u32) = n" by (simp add: unat_of_nat take_bit_nat_eq_self)
  then have "uint (of_nat n :: u32) = int n" by (metis of_nat_unat)
  moreover have "signed_take_bit 31 (int n) = int n" using n by (intro signed_take_bit_int_eq_self) simp_all
  ultimately show ?thesis by (simp add: sint_uint)
qed

lemma unat_of_nat_i32: "n < 2 ^ 31 \<Longrightarrow> unat (of_nat n :: u32) = n"
  by (simp add: unat_of_nat take_bit_nat_eq_self)

lemma owned_head: "owned m (n # names) \<Longrightarrow> is_map_lump n \<Longrightarrow> m \<noteq> []"
  by (auto simp: owned_def encloses_def dest: spec [of _ 0])

lemma owned_tail:
  assumes "owned m (n # names)"
  shows "owned (if is_marker n then n else if \<not> is_map_lump n then [] else m) names"
  unfolding owned_def
proof (intro allI impI)
  fix i assume i: "i < length names" "is_map_lump (names ! i)"
  let ?m = "if is_marker n then n else if \<not> is_map_lump n then [] else m"
  have k: "(\<forall>k\<le>Suc i. is_map_lump ((n # names) ! k)) \<longleftrightarrow> is_map_lump n \<and> (\<forall>k\<le>i. is_map_lump (names ! k))"
    by (rule all_less_Suc_shift)
  have "(\<exists>j. encloses (n # names) j (Suc i)) \<or> m \<noteq> [] \<and> (\<forall>k\<le>Suc i. is_map_lump ((n # names) ! k))"
    using assms i unfolding owned_def by (metis Suc_less_eq length_Cons nth_Cons_Suc)
  then consider (a) j where "encloses (n # names) j (Suc i)" | (b) "m \<noteq> []" "is_map_lump n" "\<forall>k\<le>i. is_map_lump (names ! k)"
    using k by auto
  then show "(\<exists>j. encloses names j i) \<or> ?m \<noteq> [] \<and> (\<forall>k\<le>i. is_map_lump (names ! k))"
  proof cases
    case (a j)
    have s: "is_map_lump (names ! k)" if "j < Suc k" "k \<le> i" for k
      using a that unfolding encloses_def by (metis Suc_le_mono nth_Cons_Suc)
    show ?thesis
    proof (cases j)
      case 0
      then have "is_marker n" using a by (simp add: encloses_def)
      moreover from this have "n \<noteq> []" by (auto simp: is_marker_def)
      ultimately show ?thesis using s 0 by simp
    next
      case (Suc j')
      then have "encloses names j' i" using a s by (auto simp: encloses_def)
      then show ?thesis by blast
    qed
  next
    case b
    then show ?thesis using marker_not_map_lump [of n] by auto
  qed
qed

lemma read_entry_layout:
  assumes "bytes = pre @ body @ post" "length pre = off" "length bytes < 2 ^ 31" "name_ok name"
    and "entry = to_le_bytes 4 (of_nat off :: u32) @ to_le_bytes 4 (of_nat (length body) :: u32) @
      name @ replicate (NAME_LEN - length name) 0"
  shows "read_entry bytes index entry = Ok \<lparr> lump_index = index, lump_name = name, lump_marker = [], lump_bytes = body \<rparr>"
proof -
  let ?o = "of_nat off :: u32" and ?l = "of_nat (length body) :: u32"
  have s: "split_entry entry = (?o, ?l, name @ replicate (NAME_LEN - length name) 0)"
    using assms(5) by (simp add: split_entry_def take_bit_word_eq_self)
  have b: "off < 2 ^ 31" "length body < 2 ^ 31" "off + length body \<le> length bytes" using assms(1-3) by auto
  have u: "unat ?o = off" "unat ?l = length body" using b by (simp_all add: unat_of_nat take_bit_nat_eq_self)
  have p: "0 \<le> sint ?o" "0 \<le> sint ?l" using b sint_small by blast+
  have c: "unat (scast ?o :: u64) = off" "unat (scast ?l :: u64) = length body" using scast_i32 p u by metis+
  have "unat (scast ?o + scast ?l :: u64) = off + length body"
    using c b by (subst unat_add_lem [THEN iffD1]) simp_all
  moreover have "checked_add_u64 (scast ?o) (scast ?l) = Some (scast ?o + scast ?l)" using c b by (simp add: checked_add_u64_def)
  moreover have "range_get bytes off (off + length body) = Some body" using assms(1,2) by (simp add: range_get_def)
  ultimately show ?thesis using s p c name_read_padded [OF assms(4)] by (simp add: read_entry_def Let_def)
qed

lemma read_lumps_layout:
  assumes "bytes = pre @ concat (map snd ls) @ post" "length pre = off" "length bytes < 2 ^ 31"
    and "\<forall>l\<in>set ls. name_ok (fst l)" "owned m (map fst ls)"
  shows "\<exists>lumps. read_lumps bytes k m (wad_entries off ls) = Ok lumps \<and> map (\<lambda>l. (lump_name l, lump_bytes l)) lumps = ls"
  using assms
proof (induction off ls arbitrary: pre m k rule: wad_entries.induct)
  case (2 off name body ls)
  let ?m = "if is_marker name then name else if \<not> is_map_lump name then [] else m"
  have b: "bytes = pre @ body @ (concat (map snd ls) @ post)" using "2.prems"(1) by simp
  have e: "read_entry bytes (of_nat k) (hd (wad_entries off ((name, body) # ls))) =
      Ok \<lparr> lump_index = of_nat k, lump_name = name, lump_marker = [], lump_bytes = body \<rparr>"
    using read_entry_layout [OF b "2.prems"(2,3)] "2.prems"(4) by simp
  have o: "owned ?m (map fst ls)" "is_map_lump name \<Longrightarrow> m \<noteq> []"
    using owned_tail [of m name "map fst ls"] owned_head [of m name "map fst ls"] "2.prems"(5) by simp_all
  have b2: "bytes = (pre @ body) @ concat (map snd ls) @ post" using b by simp
  obtain lumps where "read_lumps bytes (Suc k) ?m (wad_entries (off + length body) ls) = Ok lumps"
      "map (\<lambda>l. (lump_name l, lump_bytes l)) lumps = ls"
    using "2.IH" [OF b2 _ "2.prems"(3) _ o(1)] "2.prems"(2,4) by auto
  then show ?case using e o(2) by (auto simp: Let_def)
qed simp

lemma wad_entries_length: "\<forall>l\<in>set ls. name_ok (fst l) \<Longrightarrow> e \<in> set (wad_entries off ls) \<Longrightarrow> length e = ENTRY_LEN"
  by (induction off ls rule: wad_entries.induct) (auto simp: name_ok_def ENTRY_LEN_def NAME_LEN_def)

lemma length_wad_entries [simp]: "length (wad_entries off ls) = length ls"
  by (induction off ls rule: wad_entries.induct) auto

lemma length_concat_same: "(\<And>e. e \<in> set es \<Longrightarrow> length e = n) \<Longrightarrow> length (concat es) = length es * n"
  by (induction es) auto

lemma parse_layout:
  assumes "\<forall>l\<in>set ls. name_ok (fst l)" "owned [] (map fst ls)" "length (wad_layout kind ls) < 2 ^ 31"
  shows "\<exists>w. wad_parse (wad_layout kind ls) = Ok w \<and> wad_kind w = kind \<and>
    map (\<lambda>l. (lump_name l, lump_bytes l)) (wad_lumps w) = ls"
proof -
  let ?b = "wad_layout kind ls" and ?es = "wad_entries HEADER_LEN ls" and ?data = "concat (map snd ls)"
  let ?magic = "case kind of Iwad \<Rightarrow> ascii ''IWAD'' | Pwad \<Rightarrow> ascii ''PWAD''"
  let ?n = "of_nat (length ls) :: u32" and ?o = "of_nat (HEADER_LEN + length ?data) :: u32"
  let ?head = "?magic @ to_le_bytes 4 ?n @ to_le_bytes 4 ?o"
  have m: "length ?magic = 4" by (cases kind) (simp_all add: ascii_def)
  have es: "e \<in> set ?es \<Longrightarrow> length e = ENTRY_LEN" for e using wad_entries_length [OF assms(1)] .
  have lc: "length (concat ?es) = length ls * ENTRY_LEN" using length_concat_same [OF es] by simp
  have b: "?b = ?head @ ?data @ concat ?es" by (simp add: wad_layout_def)
  have h: "length ?head = HEADER_LEN" using m by (simp add: HEADER_LEN_def)
  have len: "length ?b = HEADER_LEN + length ?data + length ls * ENTRY_LEN" using b h lc by simp
  have f: "take 4 ?b = ?magic" "take 4 (drop 4 ?b) = to_le_bytes 4 ?n" "take 4 (drop 8 ?b) = to_le_bytes 4 ?o"
    using m by (simp_all add: wad_layout_def)
  have r: "read_i32 (to_le_bytes 4 x) = x" for x :: u32 by (simp add: read_i32_def take_bit_word_eq_self)
  have bd: "length ls < 2 ^ 31" "HEADER_LEN + length ?data < 2 ^ 31" using len assms(3) by (simp_all add: ENTRY_LEN_def)
  have s: "0 \<le> sint ?n" "0 \<le> sint ?o" using bd sint_small by blast+
  have u: "unat (scast ?n :: u64) = length ls" "unat (scast ?o :: u64) = HEADER_LEN + length ?data"
    using scast_i32 [OF s(1)] scast_i32 [OF s(2)] bd unat_of_nat_i32 by metis+
  have dir: "directory_slice ?b (scast ?o) (scast ?n) = Ok (concat ?es)"
  proof -
    let ?sp = "scast ?n * of_nat ENTRY_LEN :: u64"
    have e: "unat (of_nat ENTRY_LEN :: u64) = ENTRY_LEN" by (simp add: ENTRY_LEN_def)
    have k: "length ls * ENTRY_LEN + (HEADER_LEN + length ?data) < 2 ^ 31" using len assms(3) by simp
    have mu: "checked_mul_u64 (scast ?n) (of_nat ENTRY_LEN) = Some ?sp" using u e k by (simp add: checked_mul_u64_def)
    have us: "unat ?sp = length ls * ENTRY_LEN" using u(1) e k by (subst unat_mult_lem [THEN iffD1]) simp_all
    have ad: "checked_add_u64 ?sp (scast ?o) = Some (?sp + scast ?o)" using us u(2) k by (simp add: checked_add_u64_def)
    have ut: "unat (?sp + scast ?o) = length ?b"
      using us u(2) k len by (subst unat_add_lem [THEN iffD1]) simp_all
    have "range_get ?b (HEADER_LEN + length ?data) (length ?b) = Some (concat ?es)"
      using b h len lc by (simp add: range_get_def)
    then show ?thesis unfolding directory_slice_def mu by (simp only: bind.simps ad u ut option.case)
  qed
  have ch: "chunks ENTRY_LEN (concat ?es) = ?es"
    using chunks_concat [of ENTRY_LEN ?es "\<lambda>x. x"] es by (simp add: ENTRY_LEN_def)
  obtain lumps where "read_lumps ?b 0 [] ?es = Ok lumps" "map (\<lambda>l. (lump_name l, lump_bytes l)) lumps = ls"
    using read_lumps_layout [OF b h assms(3,1,2)] by blast
  then show ?thesis using f r s dir ch len
    by (cases kind) (auto simp: wad_parse_def Let_def not_less ascii_def)
qed

definition lumps_small :: "(u8 list \<times> u8 list) list" where
  "lumps_small = [(ascii ''E1M7'', []), (ascii ''THINGS'', [1, 2]), (ascii ''PNAMES'', [3])]"

lemma lumps_small_ok:
  "\<forall>l\<in>set lumps_small. name_ok (fst l)" "owned [] (map fst lumps_small)" "length (wad_layout Iwad lumps_small) < 2 ^ 31"
proof -
  show "\<forall>l\<in>set lumps_small. name_ok (fst l)"
    by (simp add: lumps_small_def name_ok_def ascii_def NAME_LEN_def is_ascii_graphic_def)
  show "length (wad_layout Iwad lumps_small) < 2 ^ 31"
    by (simp add: lumps_small_def wad_layout_def ascii_def NAME_LEN_def)
  let ?n = "map fst lumps_small"
  have nm: "is_map_lump (?n ! 1)" "\<not> is_map_lump (?n ! 0)" "\<not> is_map_lump (?n ! 2)" "is_marker (?n ! 0)"
    by (simp_all add: lumps_small_def is_map_lump_def MAP_LUMPS_def ascii_def is_marker_def is_ascii_digit_def)
  then have "encloses ?n 0 1" by (auto simp: encloses_def le_Suc_eq)
  moreover have "i = 1" if "i < length ?n" "is_map_lump (?n ! i)" for i
    using that nm by (auto simp: lumps_small_def less_Suc_eq numeral_2_eq_2)
  ultimately show "owned [] ?n" unfolding owned_def by blast
qed

lemma find_map_of:
  "map_option lump_bytes (List.find (\<lambda>l. lump_name l = name) ls) = map_of (map (\<lambda>l. (lump_name l, lump_bytes l)) ls) name"
  by (induction ls) auto

text \<open>
  C32: A WAD reads back as it was laid out.  For every kind and every list of named bodies whose names
  are one to eight printable characters, whose map lumps stand behind a marker and whose file is smaller
  than two gigabytes, the file of header, bodies and directory parses to that kind and to those names and
  bodies, in order; and finding a name in it gives the body of the last lump of that name.
\<close>

theorem wad_roundtrip:
  assumes "\<forall>l\<in>set ls. name_ok (fst l)" "owned [] (map fst ls)" "length (wad_layout kind ls) < 2 ^ 31"
  shows "\<exists>w. wad_parse (wad_layout kind ls) = Ok w \<and> wad_kind w = kind \<and>
    map (\<lambda>l. (lump_name l, lump_bytes l)) (wad_lumps w) = ls \<and>
    (\<forall>name. map_option lump_bytes (wad_find w name) = map_of (rev ls) name)"
proof -
  obtain w where w: "wad_parse (wad_layout kind ls) = Ok w" "wad_kind w = kind"
      "map (\<lambda>l. (lump_name l, lump_bytes l)) (wad_lumps w) = ls"
    using parse_layout [OF assms] by blast
  have "map_option lump_bytes (wad_find w name) = map_of (rev ls) name" for name
    using w(3) by (auto simp: wad_find_def find_map_of rev_map)
  then show ?thesis using w by blast
qed

theorem wad_roundtrip_witness:
  "\<exists>w. wad_parse (wad_layout Iwad lumps_small) = Ok w \<and> map_option lump_bytes (wad_find w (ascii ''THINGS'')) = Some [1, 2]"
proof -
  have "map_of (rev lumps_small) (ascii ''THINGS'') = Some [1, 2]" by (simp add: lumps_small_def ascii_def)
  moreover obtain w where "wad_parse (wad_layout Iwad lumps_small) = Ok w"
      "\<forall>name. map_option lump_bytes (wad_find w name) = map_of (rev lumps_small) name"
    using wad_roundtrip [OF lumps_small_ok] by blast
  ultimately show ?thesis by (intro exI [of _ w]) (simp only: simp_thms)
qed

theorem wad_parse_sound_witness:
  "\<exists>w. wad_parse (wad_layout Iwad lumps_small) = Ok w \<and>
     (\<exists>j. encloses (map lump_name (wad_lumps w)) j 1 \<and> lump_marker (wad_lumps w ! 1) = map lump_name (wad_lumps w) ! j)"
proof -
  obtain w where w: "wad_parse (wad_layout Iwad lumps_small) = Ok w"
      "map (\<lambda>l. (lump_name l, lump_bytes l)) (wad_lumps w) = lumps_small"
    using parse_layout [OF lumps_small_ok] by blast
  have n: "map lump_name (wad_lumps w) = map fst lumps_small" using arg_cong [OF w(2), of "map fst"] by (simp add: o_def)
  have "length (wad_lumps w) = 3" using arg_cong [OF w(2), of length] by (simp add: lumps_small_def)
  then have "1 < length (wad_lumps w)" by simp
  moreover have "is_map_lump (map fst lumps_small ! 1)" "\<not> is_marker (map fst lumps_small ! 1)"
    by (simp_all add: lumps_small_def is_map_lump_def MAP_LUMPS_def ascii_def is_marker_def)
  ultimately have "\<exists>j. encloses (map lump_name (wad_lumps w)) j 1 \<and> lump_marker (wad_lumps w ! 1) = map lump_name (wad_lumps w) ! j"
    using wad_parse_sound [OF w(1) refl, THEN conjunct2, THEN conjunct1, rule_format, of 1] unfolding n Let_def by simp
  then show ?thesis using w(1) by blast
qed

end
