(* ===== verification/C_Lex.thy ===== *)
theory C_Lex
  imports Image Text_Format
begin

text \<open>
  The lexer of the C source reader, \<open>native/src/csource/lex.rs\<close>, with the reader's errors.  Text is its
  UTF-8 bytes.  The lexer's cursor is modelled as the bytes from it on and the line it is on; taking
  bytes that end inside a character panics, as slicing a \<open>str\<close> there does.
\<close>

section \<open>Errors and tokens\<close>

type_synonym ctext = "u8 list"

datatype c_error =
    Unterminated ctext u32 string
  | BadNumber ctext u32 ctext
  | UnknownSymbol ctext u32 ctext
  | Expected ctext u32 string ctext
  | Ambiguous ctext u32 ctext
  | NoArray ctext ctext
  | NoEnum ctext ctext
  | TooManyEntries ctext ctext i64 nat
  | StructShape ctext ctext "ctext list" "ctext list"
  | NoStruct ctext ctext

datatype token =
    T_Ident ctext
  | T_Int i64
  | T_Str ctext
  | T_Punct ctext
  | T_Directive ctext

record tok =
  tok_token :: token
  tok_line :: u32

definition bytes_of :: "string \<Rightarrow> ctext" where
  "bytes_of s = map of_char s"

text \<open>
  How a token reads in an error message.  The \<open>Debug\<close> form of a string escapes the characters below; the
  strings and punctuation a token holds are ASCII, because the lexer panics on any other.
\<close>

definition debug_byte :: "u8 \<Rightarrow> ctext" where
  "debug_byte c =
     (if c = 0 then [92, 48] else if c = 9 then [92, 116] else if c = 10 then [92, 110] else if c = 13 then [92, 114]
      else if c = 34 then [92, 34] else if c = 92 then [92, 92]
      else if c < 16 then [92, 117, 123] @ to_hex 1 (unat c) @ [125]
      else if c < 32 \<or> c = 127 then [92, 117, 123] @ to_hex 2 (unat c) @ [125]
      else [c])"

definition debug_text :: "ctext \<Rightarrow> ctext" where
  "debug_text s = [34] @ concat (map debug_byte s) @ [34]"

definition signed_decimal :: "i64 \<Rightarrow> ctext" where
  "signed_decimal v = (if sint v < 0 then 45 # to_decimal (nat (- sint v)) else to_decimal (nat (sint v)))"

fun describe :: "token \<Rightarrow> ctext" where
  "describe (T_Ident name) = bytes_of ''identifier '' @ name"
| "describe (T_Int v) = signed_decimal v"
| "describe (T_Str s) = debug_text s"
| "describe (T_Punct p) = debug_text p"
| "describe (T_Directive d) = bytes_of ''a preprocessor line''"

definition DIGRAPHS :: "ctext list" where
  "DIGRAPHS = map bytes_of [''<<'', ''>>'', ''<='', ''>='', ''=='', ''!='', ''&&'', ''||'']"

record lexer =
  lx_rest :: ctext
  lx_line :: u32

type_synonym 'a lexed = "('a \<times> lexer, c_error) rresult"

section \<open>Moving the cursor\<close>

definition peek :: "lexer \<Rightarrow> u8 option" where
  "peek lx = (case lx_rest lx of b # _ \<Rightarrow> Some b | [] \<Rightarrow> None)"

definition starts_with :: "ctext \<Rightarrow> ctext \<Rightarrow> bool" where
  "starts_with s rest \<longleftrightarrow> take (length s) rest = s"

definition char_boundary :: "ctext \<Rightarrow> nat \<Rightarrow> bool" where
  "char_boundary rest n \<longleftrightarrow> n = 0 \<or> n = length rest \<or> n < length rest \<and> \<not> is_cont (rest ! n)"

definition newlines :: "ctext \<Rightarrow> u32" where
  "newlines bs = of_nat (length (filter (\<lambda>b. b = 10) bs))"

definition bump :: "lexer \<Rightarrow> nat \<Rightarrow> ctext lexed" where
  "bump lx n =
     (if char_boundary (lx_rest lx) n
      then let taken = take n (lx_rest lx) in
        Ok (taken, \<lparr> lx_rest = drop n (lx_rest lx), lx_line = lx_line lx + newlines taken \<rparr>)
      else Panic)"

definition unterminated :: "ctext \<Rightarrow> lexer \<Rightarrow> string \<Rightarrow> c_error" where
  "unterminated file lx what = Unterminated file (lx_line lx) what"

text \<open>\<open>find\<close> of a character, by its predicate, and of a two-byte string.\<close>

definition find_byte :: "(u8 \<Rightarrow> bool) \<Rightarrow> ctext \<Rightarrow> nat" where
  "find_byte P rest = length (takeWhile (\<lambda>b. \<not> P b) rest)"

fun find_close :: "ctext \<Rightarrow> nat option" where
  "find_close (a # b # rest) = (if a = 42 \<and> b = 47 then Some 0 else map_option Suc (find_close (b # rest)))"
| "find_close _ = None"

lemma bump_rest: "bump lx n = Ok (t, lx') \<Longrightarrow> t @ lx_rest lx' = lx_rest lx \<and> length t = n"
  by (auto simp: bump_def char_boundary_def Let_def split: if_splits)

lemma bump_length: "bump lx n = Ok x \<Longrightarrow> length (lx_rest lx) = n + length (lx_rest (snd x))"
  using bump_rest [of lx n "fst x" "snd x"] by (metis length_append prod.collapse)

lemma bump_less: "bump lx n = Ok x \<Longrightarrow> 0 < n \<Longrightarrow> length (lx_rest (snd x)) < length (lx_rest lx)"
  by (drule bump_length) simp

lemma find_byte_pos: "\<not> P b \<Longrightarrow> 0 < find_byte P (b # rest)"
  by (simp add: find_byte_def)

lemma starts_with_Cons: "starts_with (b # s) rest \<Longrightarrow> \<exists>r. rest = b # r"
  by (cases rest) (auto simp: starts_with_def)

function skip_trivia :: "ctext \<Rightarrow> lexer \<Rightarrow> (lexer, c_error) rresult" where
  "skip_trivia file lx =
     (let rest = lx_rest lx; spaces = length rest - length (str_trim_start rest) in
      if 0 < spaces then rbind (bump lx spaces) (\<lambda>x. skip_trivia file (snd x))
      else if starts_with [47, 47] rest then rbind (bump lx (find_byte (\<lambda>b. b = 10) rest)) (\<lambda>x. skip_trivia file (snd x))
      else if starts_with [47, 42] rest then
        (case find_close (drop 2 rest) of
           None \<Rightarrow> Err (unterminated file lx ''comment'')
         | Some n \<Rightarrow> rbind (bump lx (n + 4)) (\<lambda>x. skip_trivia file (snd x)))
      else Ok lx)"
  by pat_completeness auto
termination
proof (relation "measure (\<lambda>(f, lx). length (lx_rest lx))", goal_cases)
  case (3 f lx rest spaces x)
  then obtain r where "rest = 47 # r" using starts_with_Cons by blast
  then have "0 < find_byte (\<lambda>b. b = 10) rest" by (simp add: find_byte_pos)
  then show ?case using 3(5) bump_less by auto
qed (auto intro: bump_less)

declare skip_trivia.simps [simp del]

section \<open>Tokens\<close>

text \<open>A preprocessor line, joined across backslash continuations.\<close>

function directive_body :: "lexer \<Rightarrow> ctext \<Rightarrow> ctext lexed" where
  "directive_body lx body =
     (if lx_rest lx = [] then Ok (body, lx)
      else rbind (bump lx (find_byte (\<lambda>b. b = 10) (lx_rest lx))) (\<lambda>x.
        let line = fst x; lx1 = snd x in
        if line = [] \<or> last line \<noteq> 92 then Ok (body @ line, lx1)
        else rbind (bump lx1 (of_bool (lx_rest lx1 \<noteq> []))) (\<lambda>y. directive_body (snd y) (body @ butlast line @ [32]))))"
  by pat_completeness auto
termination
proof (relation "measure (\<lambda>(lx, b). length (lx_rest lx))", goal_cases)
  case (2 lx body x line lx1 y)
  then have "0 < length line" by simp
  moreover have "length (lx_rest lx) = length line + length (lx_rest lx1)"
    using 2(2-4) bump_length [of lx _ x] bump_rest [of lx _ "fst x" "snd x"] by simp
  moreover have "length (lx_rest (snd y)) \<le> length (lx_rest lx1)" using bump_length [OF 2(6)] by simp
  ultimately have "length (lx_rest (snd y)) < length (lx_rest lx)" by linarith
  then show ?case by simp
qed simp

declare directive_body.simps [simp del]

definition lex_directive :: "lexer \<Rightarrow> token lexed" where
  "lex_directive lx = rbind (bump lx 1) (\<lambda>x. rbind (directive_body (snd x) []) (\<lambda>y. Ok (T_Directive (str_trim (fst y)), snd y)))"

definition is_alnum :: "u8 \<Rightarrow> bool" where
  "is_alnum b \<longleftrightarrow> is_ascii_digit b \<or> 65 \<le> b \<and> b \<le> 90 \<or> 97 \<le> b \<and> b \<le> 122"

definition is_alpha :: "u8 \<Rightarrow> bool" where
  "is_alpha b \<longleftrightarrow> 65 \<le> b \<and> b \<le> 90 \<or> 97 \<le> b \<and> b \<le> 122"

definition lex_ident :: "lexer \<Rightarrow> token lexed" where
  "lex_ident lx = rbind (bump lx (find_byte (\<lambda>c. \<not> (c = 95 \<or> is_alnum c)) (lx_rest lx))) (\<lambda>x. Ok (T_Ident (fst x), snd x))"

text \<open>
  \<open>u64::from_str_radix(_, 16)\<close> on a run of letters and digits, where no sign can stand, and the decimal
  parser below \<open>2 ^ 63\<close> on the same.
\<close>

definition hex_digit_value :: "u8 \<Rightarrow> nat option" where
  "hex_digit_value b = (if is_ascii_digit b then Some (unat b - 48) else if 97 \<le> b \<and> b \<le> 102 then Some (unat b - 87)
     else if 65 \<le> b \<and> b \<le> 70 then Some (unat b - 55) else None)"

fun hex_loop :: "nat \<Rightarrow> ctext \<Rightarrow> nat option" where
  "hex_loop acc [] = Some acc"
| "hex_loop acc (b # bs) = (case hex_digit_value b of
     None \<Rightarrow> None
   | Some d \<Rightarrow> let n = acc * 16 + d in if n < 2 ^ 64 then hex_loop n bs else None)"

definition parse_hex_u64 :: "ctext \<Rightarrow> i64 option" where
  "parse_hex_u64 bs = (if bs = [] then None else map_option of_nat (hex_loop 0 bs))"

definition parse_dec_i64 :: "ctext \<Rightarrow> i64 option" where
  "parse_dec_i64 bs = map_option of_nat (parse_uint (2 ^ 63) bs)"

definition trim_suffix :: "ctext \<Rightarrow> ctext" where
  "trim_suffix bs = rev (dropWhile (\<lambda>b. b = 117 \<or> b = 85 \<or> b = 108 \<or> b = 76) (rev bs))"

definition number_value :: "ctext \<Rightarrow> i64 option" where
  "number_value t = (let digits = trim_suffix t in
     if starts_with [48, 120] digits \<or> starts_with [48, 88] digits then parse_hex_u64 (drop 2 digits)
     else parse_dec_i64 digits)"

definition lex_number :: "ctext \<Rightarrow> lexer \<Rightarrow> token lexed" where
  "lex_number file lx = rbind (bump lx (find_byte (\<lambda>c. \<not> is_alnum c) (lx_rest lx))) (\<lambda>x.
     case number_value (fst x) of Some v \<Rightarrow> Ok (T_Int v, snd x) | None \<Rightarrow> Err (BadNumber file (lx_line lx) (fst x)))"

definition unescape :: "u8 \<Rightarrow> u8" where
  "unescape b = (if b = 48 then 0 else if b = 110 then 10 else if b = 116 then 9 else if b = 114 then 13 else b)"

text \<open>\<open>String::push\<close> of a character below 256.\<close>

definition push_char :: "ctext \<Rightarrow> u8 \<Rightarrow> ctext" where
  "push_char out c = out @ (if c < 0x80 then [c] else [0xC0 OR drop_bit 6 c, 0x80 OR (c AND 0x3F)])"

function string_body :: "ctext \<Rightarrow> lexer \<Rightarrow> ctext \<Rightarrow> token lexed" where
  "string_body file lx out =
     (case peek lx of
        None \<Rightarrow> Err (unterminated file lx ''string'')
      | Some b \<Rightarrow>
          if b = 34 then rbind (bump lx 1) (\<lambda>x. Ok (T_Str out, snd x))
          else if b = 92 then
            rbind (bump lx 1) (\<lambda>x.
              case peek (snd x) of
                None \<Rightarrow> Err (unterminated file (snd x) ''escape'')
              | Some e \<Rightarrow> rbind (bump (snd x) 1) (\<lambda>y. string_body file (snd y) (push_char out (unescape e))))
          else rbind (bump lx 1) (\<lambda>x. string_body file (snd x) (out @ fst x)))"
  by pat_completeness auto
termination
proof (relation "measure (\<lambda>(f, lx, b). length (lx_rest lx))", goal_cases)
  case (2 f lx out b x e y)
  then show ?case using bump_less [of lx 1 x] bump_less [of "snd x" 1 y] by simp
qed (auto intro: bump_less)

declare string_body.simps [simp del]

definition lex_string :: "ctext \<Rightarrow> lexer \<Rightarrow> token lexed" where
  "lex_string file lx = rbind (bump lx 1) (\<lambda>x. string_body file (snd x) [])"

definition char_close :: "ctext \<Rightarrow> lexer \<Rightarrow> i64 \<Rightarrow> token lexed" where
  "char_close file lx v = rbind (bump lx 1) (\<lambda>x.
     if peek (snd x) \<noteq> Some 39 then Err (unterminated file (snd x) ''character'')
     else rbind (bump (snd x) 1) (\<lambda>y. Ok (T_Int v, snd y)))"

definition lex_char_literal :: "ctext \<Rightarrow> lexer \<Rightarrow> token lexed" where
  "lex_char_literal file lx = rbind (bump lx 1) (\<lambda>x.
     case peek (snd x) of
       None \<Rightarrow> Err (unterminated file (snd x) ''character'')
     | Some b \<Rightarrow>
         if b = 92 then rbind (bump (snd x) 1) (\<lambda>y.
           case peek (snd y) of
             None \<Rightarrow> Err (unterminated file (snd y) ''escape'')
           | Some e \<Rightarrow> char_close file (snd y) (ucast (unescape e)))
         else char_close file (snd x) (ucast b))"

definition lex_punct :: "lexer \<Rightarrow> token lexed" where
  "lex_punct lx = rbind (bump lx (if \<exists>d\<in>set DIGRAPHS. starts_with d (lx_rest lx) then 2 else 1)) (\<lambda>x. Ok (T_Punct (fst x), snd x))"

definition next_token :: "ctext \<Rightarrow> lexer \<Rightarrow> u8 \<Rightarrow> token lexed" where
  "next_token file lx b =
     (if b = 35 then lex_directive lx
      else if b = 34 then lex_string file lx
      else if b = 39 then lex_char_literal file lx
      else if is_ascii_digit b then lex_number file lx
      else if b = 95 \<or> is_alpha b then lex_ident lx
      else lex_punct lx)"

section \<open>The loop\<close>

text \<open>Every scanner takes something off the text, which is what ends the loop.\<close>

lemma skip_trivia_length: "skip_trivia f lx = Ok lx' \<Longrightarrow> length (lx_rest lx') \<le> length (lx_rest lx)"
proof (induction f lx rule: skip_trivia.induct)
  case (1 f lx)
  let ?spaces = "length (lx_rest lx) - length (str_trim_start (lx_rest lx))"
  have le: "length (lx_rest lx') \<le> length (lx_rest lx)"
    if "bump lx n = Ok x" "length (lx_rest lx') \<le> length (lx_rest (snd x))" for n x
    using bump_length [OF that(1)] that(2) by simp
  note h = "1.prems" [unfolded skip_trivia.simps [of f lx] Let_def]
  consider "0 < ?spaces" | "\<not> 0 < ?spaces" "starts_with [47, 47] (lx_rest lx)"
    | "\<not> 0 < ?spaces" "\<not> starts_with [47, 47] (lx_rest lx)" "starts_with [47, 42] (lx_rest lx)"
    | "\<not> 0 < ?spaces" "\<not> starts_with [47, 47] (lx_rest lx)" "\<not> starts_with [47, 42] (lx_rest lx)" by blast
  then show ?case
  proof cases
    case 1
    then show ?thesis using h "1.IH"(1) [OF refl refl 1] le by (auto simp: rbind_Ok_iff)
  next
    case 2
    then show ?thesis using h "1.IH"(2) [OF refl refl 2] le by (auto simp: rbind_Ok_iff)
  next
    case 3
    then show ?thesis using h "1.IH"(3) [OF refl refl 3] le by (auto simp: rbind_Ok_iff split: option.splits)
  qed (use h in auto)
qed

lemma directive_body_length: "directive_body lx body = Ok x \<Longrightarrow> length (lx_rest (snd x)) \<le> length (lx_rest lx)"
proof (induction lx body arbitrary: x rule: directive_body.induct)
  case (1 lx body)
  show ?case
  proof (cases "lx_rest lx = []")
    case True
    then show ?thesis using 1(2) by (auto simp: directive_body.simps)
  next
    case False
    then obtain y where y: "bump lx (find_byte (\<lambda>b. b = 10) (lx_rest lx)) = Ok y"
      using 1(2) by (subst (asm) directive_body.simps) (auto simp: rbind_Ok_iff)
    note l = bump_length [OF y]
    show ?thesis
    proof (cases "fst y = [] \<or> last (fst y) \<noteq> 92")
      case True
      then show ?thesis using 1(2) False y l by (subst (asm) directive_body.simps) (auto simp: Let_def)
    next
      case nl: False
      then obtain z where z: "bump (snd y) (of_bool (lx_rest (snd y) \<noteq> [])) = Ok z"
          "directive_body (snd z) (body @ butlast (fst y) @ [32]) = Ok x"
        using 1(2) False y by (subst (asm) directive_body.simps) (auto simp: Let_def rbind_Ok_iff)
      then show ?thesis using 1(1) [OF False y refl refl nl z] bump_length [OF z(1)] l by simp
    qed
  qed
qed

lemma string_body_length: "string_body f lx out = Ok x \<Longrightarrow> length (lx_rest (snd x)) \<le> length (lx_rest lx)"
proof (induction f lx out arbitrary: x rule: string_body.induct)
  case (1 f lx out)
  obtain b where b: "peek lx = Some b" using "1.prems" by (subst (asm) string_body.simps) (auto split: option.splits)
  then obtain y where y: "bump lx 1 = Ok y"
    using "1.prems" by (subst (asm) string_body.simps) (auto simp: rbind_Ok_iff split: if_splits)
  note l = bump_length [OF y]
  consider "b = 34" | "b = 92" | "b \<noteq> 34" "b \<noteq> 92" by blast
  then show ?case
  proof cases
    case 1
    then show ?thesis using "1.prems" b y l by (subst (asm) string_body.simps) auto
  next
    case 2
    then obtain e z where z: "peek (snd y) = Some e" "bump (snd y) 1 = Ok z" "string_body f (snd z) (push_char out (unescape e)) = Ok x"
      using "1.prems" b y by (subst (asm) string_body.simps) (auto simp: rbind_Ok_iff split: option.splits)
    have "length (lx_rest (snd x)) \<le> length (lx_rest (snd z))" using "1.IH"(1) [OF b _ 2 y z] 2 by simp
    then show ?thesis using bump_length [OF z(2)] l by simp
  next
    case 3
    then have "string_body f (snd y) (out @ fst y) = Ok x" using "1.prems" b y by (subst (asm) string_body.simps) auto
    then show ?thesis using "1.IH"(2) [OF b 3 y] l by simp
  qed
qed

lemma next_token_less:
  assumes "next_token f lx b = Ok x" "peek lx = Some b"
  shows "length (lx_rest (snd x)) < length (lx_rest lx)"
proof -
  obtain r where r: "lx_rest lx = b # r" using assms(2) by (auto simp: peek_def split: list.splits)
  have id: "0 < find_byte (\<lambda>c. \<not> (c = 95 \<or> is_alnum c)) (lx_rest lx)" if "b = 95 \<or> is_alpha b"
    using that unfolding r by (intro find_byte_pos) (auto simp: is_alnum_def is_alpha_def)
  have nm: "0 < find_byte (\<lambda>c. \<not> is_alnum c) (lx_rest lx)" if "is_ascii_digit b"
    using that unfolding r by (intro find_byte_pos) (auto simp: is_alnum_def)
  note l = bump_length directive_body_length string_body_length
  have ch: "length (lx_rest (snd x)) < length (lx_rest lx)" if "lex_char_literal f lx = Ok x"
  proof -
    obtain y v lx' where y: "bump lx 1 = Ok y" "char_close f lx' v = Ok x" "length (lx_rest lx') \<le> length (lx_rest (snd y))"
    proof -
      obtain y b where y: "bump lx 1 = Ok y" "peek (snd y) = Some b"
        using \<open>lex_char_literal f lx = Ok x\<close> by (auto simp: lex_char_literal_def rbind_Ok_iff split: option.splits)
      show thesis
      proof (cases "b = 92")
        case False
        then have "char_close f (snd y) (ucast b) = Ok x" using \<open>lex_char_literal f lx = Ok x\<close> y by (simp add: lex_char_literal_def)
        then show thesis using that y by blast
      next
        case True
        then obtain z e where "bump (snd y) 1 = Ok z" "char_close f (snd z) (ucast (unescape e)) = Ok x"
          using \<open>lex_char_literal f lx = Ok x\<close> y by (auto simp: lex_char_literal_def rbind_Ok_iff split: option.splits)
        then show thesis using that y bump_length [of "snd y" 1 z] by simp
      qed
    qed
    have "length (lx_rest (snd x)) \<le> length (lx_rest lx')"
      using y(2) by (auto simp: char_close_def rbind_Ok_iff split: if_splits dest!: bump_length)
    then show ?thesis using bump_length [OF y(1)] y(3) by simp
  qed
  show ?thesis using assms(1) id nm ch
    by (auto simp: next_token_def lex_directive_def lex_string_def lex_number_def lex_ident_def lex_punct_def
        rbind_Ok_iff split: if_splits option.splits dest!: l)
qed

function lex_run :: "ctext \<Rightarrow> lexer \<Rightarrow> (tok list, c_error) rresult" where
  "lex_run file lx = rbind (skip_trivia file lx) (\<lambda>lx1.
     case peek lx1 of
       None \<Rightarrow> Ok []
     | Some b \<Rightarrow> rbind (next_token file lx1 b) (\<lambda>x.
         rbind (lex_run file (snd x)) (\<lambda>out. Ok (\<lparr> tok_token = fst x, tok_line = lx_line lx1 \<rparr> # out))))"
  by pat_completeness auto
termination
  by (relation "measure (\<lambda>(f, lx). length (lx_rest lx))") (auto dest!: skip_trivia_length next_token_less)

declare lex_run.simps [simp del]

definition lex :: "ctext \<Rightarrow> ctext \<Rightarrow> (tok list, c_error) rresult" where
  "lex file src = lex_run file \<lparr> lx_rest = src, lx_line = 1 \<rparr>"

end
