(* ===== verification/C_Lex_Properties.thy ===== *)
theory C_Lex_Properties
  imports C_Lex
begin

text \<open>
  What the lexer promises: on ASCII text it never panics, and text made of tokens with white space and
  comments between them lexes back to those tokens, each with the line it starts on.
\<close>

section \<open>ASCII text\<close>

abbreviation is_ascii :: "u8 list \<Rightarrow> bool" where
  "is_ascii bs \<equiv> list_all (\<lambda>b. b < 0x80) bs"

lemma ascii_not_cont: "b < 0x80 \<Longrightarrow> \<not> is_cont b"
proof
  assume b: "b < 0x80" and c: "is_cont b"
  have "bit (b AND 192) 7" using c by (simp add: is_cont_def bit_simps)
  then have "bit b 7" by (simp add: bit_and_iff)
  moreover have "b < 2 ^ 7" using b by simp
  ultimately show False using bit_below [of b 7 7] by simp
qed

lemma ascii_boundary: "is_ascii rest \<Longrightarrow> char_boundary rest n \<longleftrightarrow> n \<le> length rest"
  by (auto simp: char_boundary_def list_all_length ascii_not_cont)

lemma bump_ascii:
  "is_ascii (lx_rest lx) \<Longrightarrow> n \<le> length (lx_rest lx) \<Longrightarrow>
     bump lx n = Ok (take n (lx_rest lx), \<lparr> lx_rest = drop n (lx_rest lx), lx_line = lx_line lx + newlines (take n (lx_rest lx)) \<rparr>)"
  by (simp add: bump_def ascii_boundary Let_def)

lemma is_ascii_drop: "is_ascii bs \<Longrightarrow> is_ascii (drop n bs)"
  by (auto simp: list_all_iff dest: in_set_dropD)

lemma bump_ascii_rest: "is_ascii (lx_rest lx) \<Longrightarrow> bump lx n = Ok x \<Longrightarrow> is_ascii (lx_rest (snd x))"
  by (auto simp: bump_def Let_def is_ascii_drop split: if_splits)

lemma find_byte_le: "find_byte P rest \<le> length rest"
  by (simp add: find_byte_def length_takeWhile_le)

lemma find_close_less: "find_close rest = Some n \<Longrightarrow> n + 2 \<le> length rest"
  by (induction rest arbitrary: n rule: find_close.induct) (auto split: if_splits)

lemma trim_with_length: "length (trim_with ws bs) \<le> length bs"
  by (induction ws bs rule: trim_with.induct) (subst trim_with.simps, auto split: option.split intro: order_trans)

lemma bump_no_panic: "is_ascii (lx_rest lx) \<Longrightarrow> n \<le> length (lx_rest lx) \<Longrightarrow> bump lx n \<noteq> Panic"
  by (simp add: bump_ascii)

lemma skip_trivia_ascii:
  "is_ascii (lx_rest lx) \<Longrightarrow> skip_trivia f lx \<noteq> Panic \<and> (\<forall>lx'. skip_trivia f lx = Ok lx' \<longrightarrow> is_ascii (lx_rest lx'))"
proof (induction f lx rule: skip_trivia.induct)
  case (1 f lx)
  let ?spaces = "length (lx_rest lx) - length (str_trim_start (lx_rest lx))"
  note b = bump_no_panic [OF "1.prems"] bump_ascii_rest [OF "1.prems"]
  note e = skip_trivia.simps [of f lx, unfolded Let_def]
  consider (sp) "0 < ?spaces" | (ln) "\<not> 0 < ?spaces" "starts_with [47, 47] (lx_rest lx)"
    | (bl) "\<not> 0 < ?spaces" "\<not> starts_with [47, 47] (lx_rest lx)" "starts_with [47, 42] (lx_rest lx)"
    | (no) "\<not> 0 < ?spaces" "\<not> starts_with [47, 47] (lx_rest lx)" "\<not> starts_with [47, 42] (lx_rest lx)" by blast
  then show ?case
  proof cases
    case sp
    then show ?thesis unfolding e using "1.IH"(1) [OF refl refl sp] b by (auto simp: rbind_Ok_iff rbind_Panic_iff)
  next
    case ln
    then show ?thesis unfolding e using "1.IH"(2) [OF refl refl ln] b find_byte_le by (auto simp: rbind_Ok_iff rbind_Panic_iff)
  next
    case bl
    then have "n + 4 \<le> length (lx_rest lx)" if "find_close (drop 2 (lx_rest lx)) = Some n" for n
      using find_close_less [OF that] by simp
    then show ?thesis unfolding e using "1.IH"(3) [OF refl refl bl] bl b
      by (auto simp: rbind_Ok_iff rbind_Panic_iff split: option.split)
  next
    case no
    then show ?thesis unfolding e using "1.prems" by simp
  qed
qed

lemma directive_body_ascii:
  "is_ascii (lx_rest lx) \<Longrightarrow> directive_body lx body \<noteq> Panic \<and> (\<forall>x. directive_body lx body = Ok x \<longrightarrow> is_ascii (lx_rest (snd x)))"
proof (induction lx body rule: directive_body.induct)
  case (1 lx body)
  let ?n = "find_byte (\<lambda>b. b = 10) (lx_rest lx)"
  obtain y where y: "bump lx ?n = Ok y" using bump_ascii [OF "1.prems" find_byte_le] by blast
  note a = bump_ascii_rest [OF "1.prems" y]
  have "of_bool (lx_rest (snd y) \<noteq> []) \<le> length (lx_rest (snd y))" by (cases "lx_rest (snd y)") simp_all
  then obtain z where z: "bump (snd y) (of_bool (lx_rest (snd y) \<noteq> [])) = Ok z" using bump_ascii [OF a] by blast
  show ?case using "1.IH" [OF _ y refl refl _ z bump_ascii_rest [OF a z]] "1.prems" a
    by (subst (1 2) directive_body.simps) (auto simp: y z Let_def)
qed

lemma peek_nonempty: "peek lx = Some b \<Longrightarrow> 1 \<le> length (lx_rest lx)"
  by (auto simp: peek_def split: list.splits)

lemma bump_1_ascii:
  assumes "is_ascii (lx_rest lx)" "peek lx = Some b"
  obtains lx' where "bump lx 1 = Ok ([b], lx')" "is_ascii (lx_rest lx')"
proof -
  obtain r where r: "lx_rest lx = b # r" using assms(2) by (auto simp: peek_def split: list.splits)
  have "bump lx 1 = Ok ([b], \<lparr> lx_rest = r, lx_line = lx_line lx + newlines [b] \<rparr>)"
    using bump_ascii [OF assms(1), of 1] r by simp
  then show thesis using that assms(1) r by simp
qed

lemma string_body_ascii:
  "is_ascii (lx_rest lx) \<Longrightarrow> string_body f lx out \<noteq> Panic \<and> (\<forall>x. string_body f lx out = Ok x \<longrightarrow> is_ascii (lx_rest (snd x)))"
proof (induction f lx out rule: string_body.induct)
  case (1 f lx out)
  show ?case
  proof (cases "peek lx")
    case None
    then show ?thesis by (subst (1 2) string_body.simps) simp
  next
    case (Some b)
    obtain y where y: "bump lx 1 = Ok ([b], y)" "is_ascii (lx_rest y)" using bump_1_ascii [OF "1.prems" Some] .
    consider "b = 34" | "b = 92" | "b \<noteq> 34" "b \<noteq> 92" by blast
    then show ?thesis
    proof cases
      case 1
      then show ?thesis using Some y by (subst (1 2) string_body.simps) simp
    next
      case 2
      show ?thesis
      proof (cases "peek y")
        case None
        then show ?thesis using Some 2 y by (subst (1 2) string_body.simps) simp
      next
        case e: (Some e)
        obtain z where z: "bump y 1 = Ok ([e], z)" "is_ascii (lx_rest z)" using bump_1_ascii [OF y(2) e] .
        have "string_body f z (push_char out (unescape e)) \<noteq> Panic \<and>
            (\<forall>x. string_body f z (push_char out (unescape e)) = Ok x \<longrightarrow> is_ascii (lx_rest (snd x)))"
          using "1.IH"(1) [OF Some _ 2 y(1), of e "([e], z)"] 2 e z by simp
        then show ?thesis using Some 2 y e z by (subst (1 2) string_body.simps) simp
      qed
    next
      case 3
      then show ?thesis using "1.IH"(2) [OF Some 3 y(1)] Some y by (subst (1 2) string_body.simps) simp
    qed
  qed
qed

lemma char_close_ascii:
  assumes "is_ascii (lx_rest lx)" "peek lx = Some b"
  shows "char_close f lx v \<noteq> Panic \<and> (\<forall>x. char_close f lx v = Ok x \<longrightarrow> is_ascii (lx_rest (snd x)))"
proof -
  obtain y where y: "bump lx 1 = Ok ([b], y)" "is_ascii (lx_rest y)" using bump_1_ascii [OF assms] .
  show ?thesis
  proof (cases "peek y = Some 39")
    case True
    then obtain z where "bump y 1 = Ok ([39], z)" "is_ascii (lx_rest z)" using bump_1_ascii [OF y(2)] by blast
    then show ?thesis using y True by (simp add: char_close_def)
  next
    case False
    then show ?thesis using y by (simp add: char_close_def)
  qed
qed

lemma char_literal_ascii:
  assumes "is_ascii (lx_rest lx)" "peek lx = Some b"
  shows "lex_char_literal f lx \<noteq> Panic \<and> (\<forall>x. lex_char_literal f lx = Ok x \<longrightarrow> is_ascii (lx_rest (snd x)))"
proof -
  obtain y where y: "bump lx 1 = Ok ([b], y)" "is_ascii (lx_rest y)" using bump_1_ascii [OF assms] .
  show ?thesis
  proof (cases "peek y")
    case None
    then show ?thesis using y by (simp add: lex_char_literal_def)
  next
    case (Some c)
    obtain z where z: "bump y 1 = Ok ([c], z)" "is_ascii (lx_rest z)" using bump_1_ascii [OF y(2) Some] .
    show ?thesis using y z Some char_close_ascii [OF y(2) Some] char_close_ascii [OF z(2)]
      by (simp add: lex_char_literal_def split: option.split)
  qed
qed

lemma next_token_ascii:
  assumes "is_ascii (lx_rest lx)" "peek lx = Some b"
  shows "next_token f lx b \<noteq> Panic \<and> (\<forall>x. next_token f lx b = Ok x \<longrightarrow> is_ascii (lx_rest (snd x)))"
proof -
  obtain y where y: "bump lx 1 = Ok ([b], y)" "is_ascii (lx_rest y)" using bump_1_ascii [OF assms] .
  have fb: "\<exists>x. bump lx (find_byte P (lx_rest lx)) = Ok x \<and> is_ascii (lx_rest (snd x))" for P
    using bump_ascii [OF assms(1) find_byte_le] is_ascii_drop [OF assms(1)] by auto
  have pu: "\<exists>x. bump lx (if \<exists>d\<in>set DIGRAPHS. starts_with d (lx_rest lx) then 2 else 1) = Ok x \<and> is_ascii (lx_rest (snd x))"
  proof -
    have "2 \<le> length (lx_rest lx)" if "\<exists>d\<in>set DIGRAPHS. starts_with d (lx_rest lx)"
    proof -
      obtain d where d: "d \<in> set DIGRAPHS" "take (length d) (lx_rest lx) = d" using \<open>\<exists>d\<in>set DIGRAPHS. starts_with d (lx_rest lx)\<close>
        by (auto simp: starts_with_def)
      have "length d = 2" using d(1) by (auto simp: DIGRAPHS_def bytes_of_def)
      then show ?thesis using arg_cong [OF d(2), of length] by simp
    qed
    then show ?thesis using bump_ascii [OF assms(1)] is_ascii_drop [OF assms(1)] y by auto
  qed
  have "lex_directive lx \<noteq> Panic \<and> (\<forall>x. lex_directive lx = Ok x \<longrightarrow> is_ascii (lx_rest (snd x)))"
    using y directive_body_ascii [OF y(2), of "[]"] by (auto simp: lex_directive_def rbind_Ok_iff rbind_Panic_iff)
  moreover have "lex_string f lx \<noteq> Panic \<and> (\<forall>x. lex_string f lx = Ok x \<longrightarrow> is_ascii (lx_rest (snd x)))"
    using y string_body_ascii [OF y(2)] by (simp add: lex_string_def)
  moreover have "lex_number f lx \<noteq> Panic \<and> (\<forall>x. lex_number f lx = Ok x \<longrightarrow> is_ascii (lx_rest (snd x)))"
    using fb [of "\<lambda>c. \<not> is_alnum c"] by (auto simp: lex_number_def split: option.splits)
  moreover have "lex_ident lx \<noteq> Panic \<and> (\<forall>x. lex_ident lx = Ok x \<longrightarrow> is_ascii (lx_rest (snd x)))"
    using fb [of "\<lambda>c. \<not> (c = 95 \<or> is_alnum c)"] by (auto simp: lex_ident_def)
  moreover have "lex_punct lx \<noteq> Panic \<and> (\<forall>x. lex_punct lx = Ok x \<longrightarrow> is_ascii (lx_rest (snd x)))"
    using pu unfolding lex_punct_def by (auto simp only: rbind.simps snd_conv rresult.simps)
  ultimately show ?thesis using char_literal_ascii [OF assms, of f] unfolding next_token_def by presburger
qed

text \<open>
  The lexer is total on ASCII.  Whatever ASCII text it is given, well formed or not, it returns
  tokens or an error and never panics.
\<close>

theorem lex_ascii_total:
  assumes "is_ascii src"
  shows "lex f src \<noteq> Panic"
proof -
  have "is_ascii (lx_rest lx) \<Longrightarrow> lex_run f lx \<noteq> Panic" for lx
  proof (induction f lx rule: lex_run.induct)
    case (1 f lx)
    note s = skip_trivia_ascii [OF "1.prems", of f]
    show ?case
    proof (cases "skip_trivia f lx")
      case (Ok lx1)
      then have a: "is_ascii (lx_rest lx1)" using s by blast
      show ?thesis
      proof (cases "peek lx1")
        case None
        then show ?thesis using Ok by (subst lex_run.simps) simp
      next
        case (Some b)
        note n = next_token_ascii [OF a Some, of f]
        show ?thesis using n "1.IH" [OF Ok Some] Ok Some
          by (subst lex_run.simps) (auto simp: rbind_Panic_iff)
      qed
    next
      case (Err e)
      then show ?thesis by (subst lex_run.simps) simp
    next
      case Panic
      then show ?thesis using s by simp
    qed
  qed
  then show ?thesis using assms by (simp add: lex_def)
qed

theorem lex_ascii_total_witness: "lex [] [39, 97] \<noteq> Panic"
  using lex_ascii_total [of "[39, 97]"] by simp

text \<open>A character that is not ASCII panics when it stands in a string, as here in a quote that holds \<open>0xC3 0xA9\<close>.\<close>

lemma lex_non_ascii_panics: "lex [] [34, 0xC3, 0xA9, 34] = Panic"
proof -
  have t: "str_trim_start (34 # r) = 34 # r" for r
    by (simp add: str_trim_start_def trim_with.simps white_space_def)
  show ?thesis
    by (simp add: lex_def lex_run.simps skip_trivia.simps Let_def t starts_with_def peek_def next_token_def lex_string_def
        bump_def char_boundary_def is_cont_def string_body.simps)
qed

section \<open>Trivia\<close>

definition white :: "u8 \<Rightarrow> bool" where
  "white b \<longleftrightarrow> b = 32 \<or> 9 \<le> b \<and> b \<le> 13"

text \<open>White space and the two kinds of comment, in any order.\<close>

inductive trivia :: "ctext \<Rightarrow> bool" where
  trivia_Nil: "trivia []"
| trivia_white: "white b \<Longrightarrow> trivia t \<Longrightarrow> trivia (b # t)"
| trivia_line: "is_ascii c \<Longrightarrow> 10 \<notin> set c \<Longrightarrow> trivia t \<Longrightarrow> trivia (47 # 47 # c @ 10 # t)"
| trivia_block: "is_ascii c \<Longrightarrow> find_close (c @ [42, 47]) = Some (length c) \<Longrightarrow> trivia t \<Longrightarrow> trivia (47 # 42 # c @ 42 # 47 # t)"

lemma white_cases: "white b \<longleftrightarrow> b \<in> {9, 10, 11, 12, 13, 32}"
proof
  assume "white b"
  then have "unat b = 32 \<or> unat b \<in> {9..13}" by (auto simp: white_def word_le_nat_alt)
  then have "unat b \<in> {9, 10, 11, 12, 13, 32}" by auto
  then show "b \<in> {9, 10, 11, 12, 13, 32}"
    by (elim insertE; simp add: word_unat_eq_iff)
qed (auto simp: white_def)

lemma white_space_split:
  "white_space = map (\<lambda>b. [b]) [9, 10, 11, 12, 13, 32] @ drop 6 white_space"
  "w \<in> set (drop 6 white_space) \<Longrightarrow> \<exists>b r. w = b # r \<and> 0x80 \<le> b"
  by (auto simp: white_space_def)

lemma find_white: "List.find P (map (\<lambda>b. [b]) bs @ ws) =
    (case List.find (\<lambda>b. P [b]) bs of Some b \<Rightarrow> Some [b] | None \<Rightarrow> List.find P ws)"
  by (induction bs) auto

lemma find_no_white:
  assumes "b < 0x80"
  shows "List.find (\<lambda>w. w \<noteq> [] \<and> take (length w) (b # x) = w) (drop 6 white_space) = None"
proof -
  have "\<not> take (length w) (b # x) = w" if "w \<in> set (drop 6 white_space)" for w
    using white_space_split(2) [OF that] assms by auto
  then show ?thesis by (simp add: find_None_iff)
qed

lemma trim_start_Cons:
  assumes "b < 0x80"
  shows "str_trim_start (b # x) = (if white b then str_trim_start x else b # x)"
proof -
  have "List.find (\<lambda>w. w \<noteq> [] \<and> take (length w) (b # x) = w) white_space =
      (case List.find (\<lambda>c. c = b) [9, 10, 11, 12, 13, 32] of Some c \<Rightarrow> Some [c] | None \<Rightarrow> None)"
    by (subst white_space_split(1), subst find_white, subst find_no_white [OF assms]) (simp add: eq_commute)
  also have "\<dots> = (if white b then Some [b] else None)" unfolding white_cases by simp
  finally show ?thesis unfolding str_trim_start_def by (subst trim_with.simps) simp
qed

lemma newlines_append: "newlines (a @ b) = newlines a + newlines b"
  by (simp add: newlines_def)

lemma skip_white:
  assumes "white b" "b < 0x80" "is_ascii x"
  shows "skip_trivia f \<lparr> lx_rest = b # x, lx_line = l \<rparr> = skip_trivia f \<lparr> lx_rest = x, lx_line = l + newlines [b] \<rparr>"
proof -
  let ?k = "length x - length (str_trim_start x)"
  have le: "length (str_trim_start x) \<le> length x" by (simp add: str_trim_start_def trim_with_length)
  have n: "newlines (b # take ?k x) = newlines [b] + newlines (take ?k x)" using newlines_append [of "[b]" "take ?k x"] by simp
  have "skip_trivia f \<lparr> lx_rest = b # x, lx_line = l \<rparr> =
      skip_trivia f \<lparr> lx_rest = drop ?k x, lx_line = l + newlines (b # take ?k x) \<rparr>"
    using assms le trim_start_Cons [OF assms(2)]
    by (subst skip_trivia.simps) (simp add: Let_def bump_ascii Suc_diff_le)
  moreover have "skip_trivia f \<lparr> lx_rest = x, lx_line = l + newlines [b] \<rparr> =
      skip_trivia f \<lparr> lx_rest = drop ?k x, lx_line = l + newlines (b # take ?k x) \<rparr>"
  proof (cases "0 < ?k")
    case True
    then show ?thesis unfolding n using assms(3) by (subst skip_trivia.simps) (simp add: Let_def bump_ascii add.assoc)
  next
    case False
    then have "?k = 0" by simp
    then show ?thesis by (simp only: drop_0 take_0)
  qed
  ultimately show ?thesis by simp
qed

lemma find_byte_append: "\<forall>b\<in>set c. \<not> P b \<Longrightarrow> P d \<Longrightarrow> find_byte P (c @ d # r) = length c"
  by (simp add: find_byte_def takeWhile_append2)

lemma newlines_none: "10 \<notin> set c \<Longrightarrow> newlines c = 0"
  by (induction c) (auto simp: newlines_def)

lemma skip_line:
  assumes "is_ascii c" "10 \<notin> set c" "is_ascii t"
  shows "skip_trivia f \<lparr> lx_rest = 47 # 47 # c @ 10 # t, lx_line = l \<rparr> = skip_trivia f \<lparr> lx_rest = 10 # t, lx_line = l \<rparr>"
proof -
  have "find_byte (\<lambda>b. b = 10) ((47 # 47 # c) @ 10 # t) = length (47 # 47 # c)"
    using assms(2) by (intro find_byte_append) auto
  moreover have "newlines (47 # 47 # c) = 0" using assms(2) by (intro newlines_none) simp
  ultimately show ?thesis using assms(1,3)
    by (subst skip_trivia.simps) (simp add: Let_def bump_ascii trim_start_Cons white_cases starts_with_def)
qed

lemma find_close_append: "find_close c = Some n \<Longrightarrow> find_close (c @ t) = Some n"
  by (induction c arbitrary: n rule: find_close.induct) (auto split: if_splits)

lemma skip_block:
  assumes "is_ascii c" "find_close (c @ [42, 47]) = Some (length c)" "is_ascii t"
  shows "skip_trivia f \<lparr> lx_rest = 47 # 42 # c @ 42 # 47 # t, lx_line = l \<rparr> =
    skip_trivia f \<lparr> lx_rest = t, lx_line = l + newlines (47 # 42 # c @ [42, 47]) \<rparr>"
proof -
  have "find_close (c @ 42 # 47 # t) = Some (length c)" using find_close_append [OF assms(2), of t] by simp
  moreover have "take (length c + 4) (47 # 42 # c @ 42 # 47 # t) = 47 # 42 # c @ [42, 47]"
      "drop (length c + 4) (47 # 42 # c @ 42 # 47 # t) = t"
    by (simp_all add: eval_nat_numeral)
  ultimately show ?thesis using assms(1,3)
    by (subst skip_trivia.simps) (simp add: Let_def bump_ascii trim_start_Cons white_cases starts_with_def)
qed

lemma white_ascii: "white b \<Longrightarrow> b < 0x80"
  by (auto simp: white_cases)

lemma trivia_ascii: "trivia t \<Longrightarrow> is_ascii t"
  by (induction rule: trivia.induct) (auto simp: white_ascii)

lemma skip_over_trivia:
  "trivia t \<Longrightarrow> is_ascii r \<Longrightarrow>
     skip_trivia f \<lparr> lx_rest = t @ r, lx_line = l \<rparr> = skip_trivia f \<lparr> lx_rest = r, lx_line = l + newlines t \<rparr>"
proof (induction arbitrary: l rule: trivia.induct)
  case trivia_Nil
  then show ?case by (simp add: newlines_def)
next
  case (trivia_white b t)
  have "newlines (b # t) = newlines [b] + newlines t" using newlines_append [of "[b]" t] by simp
  then show ?case using trivia_white trivia_ascii by (simp add: skip_white white_ascii add.assoc)
next
  case (trivia_line c t)
  have n: "newlines ((47 # 47 # c) @ [10] @ t) = newlines [10] + newlines t"
    unfolding newlines_append using trivia_line(2) by (simp add: newlines_none)
  have a: "is_ascii (t @ r)" using trivia_line trivia_ascii by simp
  have "white 10" by (simp add: white_cases)
  then show ?case using trivia_line a n by (simp add: skip_line skip_white add.assoc)
next
  case (trivia_block c t)
  have n: "newlines (47 # 42 # c @ 42 # 47 # t) = newlines (47 # 42 # c @ [42, 47]) + newlines t"
    using newlines_append [of "47 # 42 # c @ [42, 47]" t] by simp
  have a: "is_ascii (t @ r)" using trivia_block trivia_ascii by simp
  show ?case using trivia_block a n by (simp add: skip_block add.assoc)
qed

lemma skip_stops:
  assumes "rest = [] \<or> hd rest < 0x80 \<and> \<not> white (hd rest)" "\<not> starts_with [47, 47] rest" "\<not> starts_with [47, 42] rest"
  shows "skip_trivia f \<lparr> lx_rest = rest, lx_line = l \<rparr> = Ok \<lparr> lx_rest = rest, lx_line = l \<rparr>"
proof -
  have "str_trim_start rest = rest"
  proof (cases rest)
    case Nil
    have "List.find (\<lambda>w. w \<noteq> [] \<and> take (length w) [] = w) white_space = None" by (auto simp: find_None_iff)
    then show ?thesis unfolding Nil str_trim_start_def by (subst trim_with.simps) simp
  qed (use assms(1) in \<open>simp add: trim_start_Cons\<close>)
  then show ?thesis using assms(2,3) by (subst skip_trivia.simps) (simp add: Let_def)
qed

section \<open>Printed tokens\<close>

definition print_char :: "u8 \<Rightarrow> ctext" where
  "print_char c = (if c = 34 then [92, 34] else if c = 92 then [92, 92] else if c = 10 then [92, 110] else [c])"

fun print_token :: "token \<Rightarrow> ctext" where
  "print_token (T_Ident s) = s"
| "print_token (T_Int v) = to_decimal (unat v)"
| "print_token (T_Str s) = 34 # concat (map print_char s) @ [34]"
| "print_token (T_Punct p) = p"
| "print_token (T_Directive d) = []"

definition lone_punct :: "u8 \<Rightarrow> bool" where
  "lone_punct c \<longleftrightarrow> c < 0x80 \<and> \<not> white c \<and> c \<notin> {34, 35, 39, 95} \<and> \<not> is_alnum c"

fun token_ok :: "token \<Rightarrow> bool" where
  "token_ok (T_Ident s) \<longleftrightarrow> s \<noteq> [] \<and> (hd s = 95 \<or> is_alpha (hd s)) \<and> list_all (\<lambda>c. c = 95 \<or> is_alnum c) s"
| "token_ok (T_Int v) \<longleftrightarrow> unat v < 2 ^ 63"
| "token_ok (T_Str s) \<longleftrightarrow> is_ascii s"
| "token_ok (T_Punct p) \<longleftrightarrow> p \<in> set DIGRAPHS \<or> (\<exists>c. p = [c] \<and> lone_punct c)"
| "token_ok (T_Directive d) \<longleftrightarrow> False"

text \<open>
  What may follow a token: anything that does not run on into it.  A name or a number ends before a character that could
  not be part of it, a single punctuation mark before one that makes no digraph and opens no comment with it.
\<close>

fun ends :: "token \<Rightarrow> ctext \<Rightarrow> bool" where
  "ends t [] \<longleftrightarrow> True"
| "ends (T_Ident s) (b # r) \<longleftrightarrow> b \<noteq> 95 \<and> \<not> is_alnum b"
| "ends (T_Int v) (b # r) \<longleftrightarrow> \<not> is_alnum b"
| "ends (T_Punct p) (b # r) \<longleftrightarrow> length p = 2 \<or> p @ [b] \<notin> set DIGRAPHS \<and> (p = [47] \<longrightarrow> b \<noteq> 47 \<and> b \<noteq> 42)"
| "ends _ _ \<longleftrightarrow> True"

lemma find_byte_end: "\<forall>b\<in>set c. \<not> P b \<Longrightarrow> r = [] \<or> P (hd r) \<Longrightarrow> find_byte P (c @ r) = length c"
proof (cases r)
  case Nil
  assume "\<forall>b\<in>set c. \<not> P b"
  then have "takeWhile (\<lambda>b. \<not> P b) c = c" by (simp add: takeWhile_eq_all_conv)
  then show ?thesis unfolding Nil find_byte_def append_Nil2 by (rule arg_cong)
qed (auto simp: find_byte_append)

lemma white_not_alnum: "white b \<Longrightarrow> \<not> is_alnum b \<and> b \<noteq> 95"
  by (auto simp: white_cases is_alnum_def is_ascii_digit_def)

lemma alnum_ascii: "is_alnum b \<Longrightarrow> b < 0x80 \<and> b \<noteq> 10 \<and> \<not> white b"
proof -
  assume a: "is_alnum b"
  then have "b \<le> 122" by (auto simp: is_alnum_def is_ascii_digit_def word_le_nat_alt)
  then have "b < 0x80" using order.strict_trans1 [of b 122 "0x80"] by simp
  then show ?thesis using a white_not_alnum [of b] white_cases [of b] by auto
qed

lemma bump_prefix:
  assumes "is_ascii (c @ r)" "10 \<notin> set c" "n = length c"
  shows "bump \<lparr> lx_rest = c @ r, lx_line = l \<rparr> n = Ok (c, \<lparr> lx_rest = r, lx_line = l \<rparr>)"
  using assms bump_ascii [of "\<lparr> lx_rest = c @ r, lx_line = l \<rparr>" n] by (simp add: newlines_none)

lemma lex_ident_printed:
  assumes "list_all (\<lambda>c. c = 95 \<or> is_alnum c) s" "is_ascii r" "ends (T_Ident s) r"
  shows "lex_ident \<lparr> lx_rest = s @ r, lx_line = l \<rparr> = Ok (T_Ident s, \<lparr> lx_rest = r, lx_line = l \<rparr>)"
proof -
  have "find_byte (\<lambda>c. \<not> (c = 95 \<or> is_alnum c)) (s @ r) = length s"
    using assms by (cases r; intro find_byte_end) (auto simp: list_all_iff)
  moreover have "b < 0x80 \<and> b \<noteq> 10" if "b \<in> set s" for b
    using assms(1) that alnum_ascii [of b] by (auto simp: list_all_iff)
  then have "is_ascii (s @ r)" "10 \<notin> set s" using assms(2) by (auto simp: list_all_iff)
  ultimately show ?thesis using bump_prefix [of s r "length s" l] by (simp add: lex_ident_def)
qed

lemma digit_alnum: "is_ascii_digit b \<Longrightarrow> is_alnum b"
  by (simp add: is_alnum_def)

lemma number_value_decimal:
  assumes "unat v < 2 ^ 63"
  shows "number_value (to_decimal (unat v)) = Some v"
proof -
  let ?d = "to_decimal (unat v)"
  have dg: "is_ascii_digit b" if "b \<in> set ?d" for b using to_decimal_digits [OF that] .
  have "last ?d \<in> set ?d" using to_decimal_not_Nil by simp
  then have "is_ascii_digit (hd (rev ?d))" using dg by (simp add: hd_rev)
  then have "dropWhile (\<lambda>b. b = 117 \<or> b = 85 \<or> b = 108 \<or> b = 76) (rev ?d) = rev ?d"
    using to_decimal_not_Nil [of "unat v"] by (cases "rev ?d") (auto simp: is_ascii_digit_def)
  then have t: "trim_suffix ?d = ?d" by (simp add: trim_suffix_def)
  have "\<not> starts_with [48, c] ?d" if "\<not> is_ascii_digit c" for c
  proof
    assume "starts_with [48, c] ?d"
    then have "c \<in> set ?d" unfolding starts_with_def by (metis in_set_takeD list.set_intros(1,2))
    then show False using dg that by blast
  qed
  then have "\<not> starts_with [48, 120] ?d" "\<not> starts_with [48, 88] ?d" by (simp_all add: is_ascii_digit_def)
  then show ?thesis using t parse_uint_to_decimal [OF assms]
    by (simp add: number_value_def parse_dec_i64_def)
qed

lemma lex_number_printed:
  assumes "unat v < 2 ^ 63" "is_ascii r" "ends (T_Int v) r"
  shows "lex_number f \<lparr> lx_rest = to_decimal (unat v) @ r, lx_line = l \<rparr> = Ok (T_Int v, \<lparr> lx_rest = r, lx_line = l \<rparr>)"
proof -
  let ?d = "to_decimal (unat v)"
  have "find_byte (\<lambda>c. \<not> is_alnum c) (?d @ r) = length ?d"
    using assms digit_alnum to_decimal_digits by (cases r; intro find_byte_end) auto
  moreover have "is_ascii (?d @ r)" "10 \<notin> set ?d"
    using assms(2) alnum_ascii digit_alnum to_decimal_digits by (auto simp: list_all_iff) blast+
  ultimately show ?thesis using bump_prefix [of ?d r "length ?d" l] number_value_decimal [OF assms(1)] by (simp add: lex_number_def)
qed

lemma string_body_step:
  assumes "is_ascii (b # r)" "b \<noteq> 34" "b \<noteq> 92" "b \<noteq> 10"
  shows "string_body f \<lparr> lx_rest = b # r, lx_line = l \<rparr> out = string_body f \<lparr> lx_rest = r, lx_line = l \<rparr> (out @ [b])"
  using assms bump_prefix [of "[b]" r 1 l] by (subst string_body.simps) (simp add: peek_def)

lemma string_body_escape:
  assumes "is_ascii (e # r)" "e \<noteq> 10" "unescape e < 0x80"
  shows "string_body f \<lparr> lx_rest = 92 # e # r, lx_line = l \<rparr> out = string_body f \<lparr> lx_rest = r, lx_line = l \<rparr> (out @ [unescape e])"
  using assms bump_prefix [of "[92]" "e # r" 1 l] bump_prefix [of "[e]" r 1 l]
  by (subst string_body.simps) (simp add: peek_def push_char_def)

lemma is_ascii_printed: "is_ascii s \<Longrightarrow> is_ascii (concat (map print_char s))"
  by (induction s) (auto simp: print_char_def)

lemma string_body_printed:
  assumes "is_ascii s" "is_ascii r"
  shows "string_body f \<lparr> lx_rest = concat (map print_char s) @ 34 # r, lx_line = l \<rparr> out =
    Ok (T_Str (out @ s), \<lparr> lx_rest = r, lx_line = l \<rparr>)"
  using assms(1)
proof (induction s arbitrary: out)
  case Nil
  then show ?case using assms(2) bump_prefix [of "[34]" r 1 l] by (subst string_body.simps) (simp add: peek_def)
next
  case (Cons c s)
  let ?r = "concat (map print_char s) @ 34 # r"
  have a: "is_ascii ?r" using is_ascii_printed [of s] Cons.prems assms(2) by simp
  have ih: "string_body f \<lparr> lx_rest = ?r, lx_line = l \<rparr> (out @ [c]) = Ok (T_Str (out @ c # s), \<lparr> lx_rest = r, lx_line = l \<rparr>)"
    using Cons by simp
  have pc: "print_char 34 = [92, 34]" "print_char 92 = [92, 92]" "print_char 10 = [92, 110]" "c \<notin> {34, 92, 10} \<Longrightarrow> print_char c = [c]"
    by (auto simp: print_char_def)
  have u: "unescape 34 = 34" "unescape 92 = 92" "unescape 110 = 10" by (simp_all add: unescape_def)
  consider "c = 34" | "c = 92" | "c = 10" | "c \<notin> {34, 92, 10}" by blast
  then show ?case
  proof cases
    case 1
    then show ?thesis using ih a u string_body_escape [of 34 ?r f l out] by (simp add: pc)
  next
    case 2
    then show ?thesis using ih a u string_body_escape [of 92 ?r f l out] by (simp add: pc)
  next
    case 3
    then show ?thesis using ih a u string_body_escape [of 110 ?r f l out] by (simp add: pc)
  next
    case 4
    then show ?thesis using ih a Cons.prems string_body_step [of c ?r f l out] by (simp add: pc)
  qed
qed

lemma lex_string_printed:
  assumes "is_ascii s" "is_ascii r"
  shows "lex_string f \<lparr> lx_rest = print_token (T_Str s) @ r, lx_line = l \<rparr> = Ok (T_Str s, \<lparr> lx_rest = r, lx_line = l \<rparr>)"
proof -
  let ?b = "concat (map print_char s) @ 34 # r"
  have "bump \<lparr> lx_rest = [34] @ ?b, lx_line = l \<rparr> 1 = Ok ([34], \<lparr> lx_rest = ?b, lx_line = l \<rparr>)"
    using assms is_ascii_printed by (intro bump_prefix) auto
  then show ?thesis using string_body_printed [OF assms, of f l "[]"] by (simp add: lex_string_def)
qed

lemma digraph_cases: "d \<in> set DIGRAPHS \<Longrightarrow> \<exists>a b. d = [a, b] \<and> lone_punct a \<and> lone_punct b \<and> a \<noteq> 47"
  by (auto simp: DIGRAPHS_def bytes_of_def lone_punct_def white_cases is_alnum_def is_ascii_digit_def)

lemma lex_punct_printed:
  assumes "token_ok (T_Punct p)" "is_ascii r" "ends (T_Punct p) r"
  shows "lex_punct \<lparr> lx_rest = p @ r, lx_line = l \<rparr> = Ok (T_Punct p, \<lparr> lx_rest = r, lx_line = l \<rparr>)"
proof -
  have w: "(if \<exists>d\<in>set DIGRAPHS. starts_with d (p @ r) then 2 else 1) = length p \<and> is_ascii p \<and> 10 \<notin> set p"
  proof (cases "p \<in> set DIGRAPHS")
    case True
    then have "length p = 2" "is_ascii p" "10 \<notin> set p" using digraph_cases [OF True] by (auto simp: lone_punct_def white_cases)
    moreover from this have "starts_with p (p @ r)" by (simp add: starts_with_def)
    ultimately show ?thesis using True by auto
  next
    case False
    then obtain c where c: "p = [c]" "lone_punct c" using assms(1) by auto
    have "\<not> starts_with d (p @ r)" if d: "d \<in> set DIGRAPHS" for d
    proof
      assume s: "starts_with d (p @ r)"
      obtain a b where ab: "d = [a, b]" using digraph_cases [OF d] by blast
      then obtain r' where "r = b # r'" "a = c" using s c by (cases r) (auto simp: starts_with_def)
      then show False using assms(3) ab c d by simp
    qed
    then show ?thesis using c by (auto simp: lone_punct_def white_cases)
  qed
  show ?thesis using bump_prefix [of p r "length p" l] w assms(2) by (simp add: lex_punct_def)
qed

text \<open>One printed token at the cursor is read back, and the cursor stops behind it.\<close>

lemma printed_head:
  assumes "token_ok t" "ends t r"
  shows "\<exists>b x. print_token t @ r = b # x \<and> b < 0x80 \<and> \<not> white b" (is ?hd)
    and "\<not> starts_with [47, 47] (print_token t @ r) \<and> \<not> starts_with [47, 42] (print_token t @ r)" (is ?c)
    and "is_ascii (print_token t)" (is ?a)
proof -
  have hd: "?hd \<and> ?c \<and> ?a" if "print_token t = b # y" "b < 0x80" "\<not> white b" "b \<noteq> 47" "is_ascii (print_token t)" for b y
    using that by (auto simp: starts_with_def)
  have "?hd \<and> ?c \<and> ?a"
  proof (cases t)
    case (T_Ident s)
    then obtain b y where s: "s = b # y" "b = 95 \<or> is_alpha b" "list_all (\<lambda>c. c = 95 \<or> is_alnum c) s"
      using assms(1) by (cases s) auto
    have a: "c < 0x80 \<and> \<not> white c" if "c \<in> set s" for c
      using s(3) that alnum_ascii [of c] by (auto simp: list_all_iff white_cases)
    then show ?thesis using T_Ident s by (intro hd [of b y]) (auto simp: list_all_iff is_alpha_def)
  next
    case (T_Int v)
    obtain b y where d: "to_decimal (unat v) = b # y" using to_decimal_not_Nil by (cases "to_decimal (unat v)") auto
    have a: "c < 0x80 \<and> \<not> white c \<and> c \<noteq> 47" if "c \<in> set (to_decimal (unat v))" for c
      using to_decimal_digits [OF that] alnum_ascii [of c] by (auto simp: is_alnum_def is_ascii_digit_def)
    then show ?thesis using T_Int d by (intro hd [of b y]) (auto simp: list_all_iff)
  next
    case (T_Str s)
    then show ?thesis using assms(1) is_ascii_printed by (intro hd [of 34]) (auto simp: white_cases)
  next
    case (T_Punct p)
    show ?thesis
    proof (cases "p \<in> set DIGRAPHS")
      case True
      then obtain a b where "p = [a, b]" "lone_punct a" "lone_punct b" "a \<noteq> 47" using digraph_cases by blast
      then show ?thesis using T_Punct by (intro hd [of a]) (auto simp: lone_punct_def)
    next
      case False
      then obtain c where c: "p = [c]" "lone_punct c" using assms(1) T_Punct by auto
      have "\<not> starts_with [47, d] (p @ r)" if "d = 47 \<or> d = 42" for d
        using c assms(2) that T_Punct by (cases r) (auto simp: starts_with_def)
      then show ?thesis using T_Punct c by (auto simp: lone_punct_def white_cases)
    qed
  qed (use assms(1) in simp)
  then show ?hd ?c ?a by blast+
qed

lemma next_token_printed:
  assumes "token_ok t" "is_ascii r" "ends t r" "print_token t @ r = b # x"
  shows "next_token f \<lparr> lx_rest = print_token t @ r, lx_line = l \<rparr> b = Ok (t, \<lparr> lx_rest = r, lx_line = l \<rparr>)"
proof (cases t)
  case (T_Ident s)
  then have "b = 95 \<or> is_alpha b" using assms(1,4) by (cases s) auto
  then have "b \<noteq> 35" "b \<noteq> 34" "b \<noteq> 39" "\<not> is_ascii_digit b" "b = 95 \<or> is_alpha b"
    by (auto simp: is_alpha_def is_ascii_digit_def word_le_nat_alt)
  then show ?thesis using T_Ident assms lex_ident_printed [of s r l] by (simp add: next_token_def)
next
  case (T_Int v)
  then have "b \<in> set (to_decimal (unat v))"
    using assms(4) to_decimal_not_Nil [of "unat v"] by (cases "to_decimal (unat v)") auto
  then have "is_ascii_digit b" by (rule to_decimal_digits)
  then show ?thesis using T_Int assms lex_number_printed [of v r f l] by (auto simp: next_token_def is_ascii_digit_def)
next
  case (T_Str s)
  then show ?thesis using assms lex_string_printed [of s r f l] by (simp add: next_token_def)
next
  case (T_Punct p)
  then have "lone_punct b"
    using assms(1,4) digraph_cases [of p] by (cases "p \<in> set DIGRAPHS") auto
  then have "b \<noteq> 35" "b \<noteq> 34" "b \<noteq> 39" "\<not> is_ascii_digit b" "b \<noteq> 95" "\<not> is_alpha b"
    by (auto simp: lone_punct_def is_alnum_def is_alpha_def)
  then show ?thesis using T_Punct assms lex_punct_printed [of p r l] by (simp add: next_token_def)
qed (use assms(1) in simp)

section \<open>Laid out text\<close>

definition laid_out :: "(token \<times> ctext) list \<Rightarrow> ctext" where
  "laid_out items = concat (map (\<lambda>(t, g). print_token t @ g) items)"

fun placed :: "u32 \<Rightarrow> (token \<times> ctext) list \<Rightarrow> tok list" where
  "placed l [] = []"
| "placed l ((t, g) # items) = \<lparr> tok_token = t, tok_line = l \<rparr> # placed (l + newlines g) items"

text \<open>A layout: white space and comments, or nothing, behind each token, with no token running into what follows it.\<close>

fun layout_ok :: "(token \<times> ctext) list \<Rightarrow> bool" where
  "layout_ok [] \<longleftrightarrow> True"
| "layout_ok ((t, g) # items) \<longleftrightarrow> token_ok t \<and> trivia g \<and> ends t (g @ laid_out items) \<and> layout_ok items"

lemma laid_out_ascii: "layout_ok items \<Longrightarrow> is_ascii (laid_out items)"
  using printed_head(3) [of _ "[]"] trivia_ascii by (induction items) (auto simp: laid_out_def)

text \<open>White space ends every token.\<close>

lemma white_ends: "token_ok t \<Longrightarrow> white b \<Longrightarrow> ends t (b # r)"
proof (cases t)
  case (T_Punct p)
  assume t: "token_ok t" "white b"
  have n: "[c, b] \<notin> set DIGRAPHS" for c using t(2) digraph_cases [of "[c, b]"] by (auto simp: lone_punct_def)
  show ?thesis
  proof (cases "p \<in> set DIGRAPHS")
    case True
    then show ?thesis using T_Punct digraph_cases [OF True] by auto
  next
    case False
    then obtain c where "p = [c]" using t(1) T_Punct by auto
    then show ?thesis using T_Punct n [of c] t(2) by (auto simp: white_cases)
  qed
qed (use white_not_alnum [of b] in auto)

lemma lex_run_laid_out:
  assumes "trivia g" "layout_ok items"
  shows "lex_run f \<lparr> lx_rest = g @ laid_out items, lx_line = l \<rparr> = Ok (placed (l + newlines g) items)"
  using assms
proof (induction items arbitrary: g l)
  case Nil
  have "skip_trivia f \<lparr> lx_rest = g @ [], lx_line = l \<rparr> = skip_trivia f \<lparr> lx_rest = [], lx_line = l + newlines g \<rparr>"
    by (rule skip_over_trivia [OF Nil.prems(1)]) simp
  also have "\<dots> = Ok \<lparr> lx_rest = [], lx_line = l + newlines g \<rparr>" by (rule skip_stops) (auto simp: starts_with_def)
  finally show ?case by (subst lex_run.simps) (simp add: laid_out_def peek_def)
next
  case (Cons item items)
  obtain t h where i: "item = (t, h)" by fastforce
  then have h: "token_ok t" "ends t (h @ laid_out items)" "layout_ok items" "trivia h"
    using Cons.prems(2) by auto
  let ?r = "h @ laid_out items" and ?l = "l + newlines g"
  have r: "laid_out (item # items) = print_token t @ ?r" by (simp add: i laid_out_def)
  note p = printed_head [OF h(1,2)]
  obtain b x where b: "print_token t @ ?r = b # x" "b < 0x80" "\<not> white b" using p(1) by blast
  have a: "is_ascii ?r" using laid_out_ascii [OF h(3)] trivia_ascii [OF h(4)] by simp
  then have "skip_trivia f \<lparr> lx_rest = g @ print_token t @ ?r, lx_line = l \<rparr> =
      skip_trivia f \<lparr> lx_rest = print_token t @ ?r, lx_line = ?l \<rparr>"
    using p(3) by (intro skip_over_trivia [OF Cons.prems(1)]) simp
  also have "\<dots> = Ok \<lparr> lx_rest = print_token t @ ?r, lx_line = ?l \<rparr>"
    using p(2) b by (intro skip_stops) auto
  finally show ?case using next_token_printed [OF h(1) a h(2) b(1), of f ?l] Cons.IH [OF h(4,3), of ?l] b(1)
    unfolding r by (subst lex_run.simps) (simp add: i peek_def)
qed

text \<open>
  C33: Tokens lex back from any layout.  Text that starts with white space and comments and then holds
  tokens, each printed and followed by white space and comments, or by nothing where the next token cannot run into it,
  lexes to exactly those tokens in order, each with the line it starts on, counting every newline before it, also those
  inside comments.
\<close>

theorem lex_laid_out:
  assumes "trivia start" "layout_ok items"
  shows "lex f (start @ laid_out items) = Ok (placed (1 + newlines start) items)"
  unfolding lex_def by (rule lex_run_laid_out [OF assms])

text \<open>\<open>a\<close>, a comment over two lines, and then \<open><<7\<close>.\<close>

theorem lex_laid_out_witness:
  "lex [] ([97] @ [32, 47, 42, 10, 42, 47] @ [60, 60] @ [55] @ [10]) =
     Ok [\<lparr> tok_token = T_Ident [97], tok_line = 1 \<rparr>, \<lparr> tok_token = T_Punct [60, 60], tok_line = 2 \<rparr>, \<lparr> tok_token = T_Int 7, tok_line = 2 \<rparr>]"
proof -
  let ?items = "[(T_Ident [97], [32, 47, 42, 10, 42, 47]), (T_Punct [60, 60], []), (T_Int 7, [10])] :: (token \<times> ctext) list"
  have w: "white 32" "white 10" by (simp_all add: white_cases)
  have "trivia [32, 47, 42, 10, 42, 47]"
    using trivia_block [of "[10]" "[]"] w by (auto intro: trivia_white trivia_Nil)
  moreover have "trivia [10]" using w by (auto intro: trivia_white trivia_Nil)
  ultimately have ok: "layout_ok ?items"
    by (simp add: laid_out_def trivia_Nil is_alpha_def is_alnum_def is_ascii_digit_def DIGRAPHS_def bytes_of_def to_decimal.simps digit_byte_def)
  show ?thesis using lex_laid_out [OF trivia_Nil ok, of "[]"]
    by (simp add: laid_out_def newlines_def to_decimal.simps digit_byte_def)
qed

end
