(* ===== verification/C_Expr.thy ===== *)
theory C_Expr
  imports C_Lex "HOL-Library.Signed_Division"
begin

text \<open>
  Constant expressions of the C source reader: the symbol table they are read against, from
  \<open>native/src/csource/symbols.rs\<close>, and the evaluator of \<open>native/src/csource/expr.rs\<close>, a recursive descent
  over the binding powers.  The parser's cursor is an index into the tokens.
\<close>

section \<open>The symbol table\<close>

datatype pending =
    P_Define ctext ctext
  | P_Value ctext "tok list"
  | P_After ctext
  | P_Zero

record symbols =
  sy_values :: "ctext \<rightharpoonup> i64"
  sy_ambiguous :: "ctext set"
  sy_pending :: "(ctext \<times> pending) list"

definition symbols_new :: symbols where
  "symbols_new = \<lparr> sy_values = [bytes_of ''NULL'' \<mapsto> 0], sy_ambiguous = {}, sy_pending = [] \<rparr>"

definition symbols_get :: "symbols \<Rightarrow> ctext \<Rightarrow> i64 option" where
  "symbols_get sy name = sy_values sy name"

definition is_ambiguous :: "symbols \<Rightarrow> ctext \<Rightarrow> bool" where
  "is_ambiguous sy name \<longleftrightarrow> name \<in> sy_ambiguous sy"

section \<open>Operators\<close>

definition PRECEDENCE :: "ctext list list" where
  "PRECEDENCE = map (map bytes_of) [[''|''], [''^''], [''&''], [''<<'', ''>>''], [''+'', ''-''], [''*'', ''/'', ''%'']]"

definition checked_div :: "i64 \<Rightarrow> i64 \<Rightarrow> i64 option" where
  "checked_div a b = (if b = 0 \<or> sint a = - (2 ^ 63) \<and> sint b = -1 then None else Some (word_of_int (sint a sdiv sint b)))"

definition checked_rem :: "i64 \<Rightarrow> i64 \<Rightarrow> i64 option" where
  "checked_rem a b = (if b = 0 \<or> sint a = - (2 ^ 63) \<and> sint b = -1 then None else Some (word_of_int (sint a smod sint b)))"

text \<open>A wrapping shift takes the amount modulo the width, here from the low 32 bits of the operand.\<close>

definition shift_amount :: "i64 \<Rightarrow> nat" where
  "shift_amount r = unat (ucast r :: u32) mod 64"

definition apply_op :: "ctext \<Rightarrow> i64 \<Rightarrow> i64 \<Rightarrow> i64" where
  "apply_op op left right =
     (if op = bytes_of ''|'' then left OR right
      else if op = bytes_of ''^'' then left XOR right
      else if op = bytes_of ''&'' then left AND right
      else if op = bytes_of ''<<'' then push_bit (shift_amount right) left
      else if op = bytes_of ''>>'' then signed_drop_bit (shift_amount right) left
      else if op = bytes_of ''+'' then left + right
      else if op = bytes_of ''-'' then left - right
      else if op = bytes_of ''*'' then left * right
      else if op = bytes_of ''/'' then (case checked_div left right of Some q \<Rightarrow> q | None \<Rightarrow> 0)
      else (case checked_rem left right of Some q \<Rightarrow> q | None \<Rightarrow> 0))"

section \<open>The parser\<close>

definition tok_get :: "tok list \<Rightarrow> nat \<Rightarrow> tok option" where
  "tok_get toks at = (if at < length toks then Some (toks ! at) else None)"

definition parser_line :: "tok list \<Rightarrow> nat \<Rightarrow> u32" where
  "parser_line toks at = (case tok_get toks (min at (length toks - 1)) of Some t \<Rightarrow> tok_line t | None \<Rightarrow> 0)"

definition expected_token :: "ctext \<Rightarrow> string \<Rightarrow> tok \<Rightarrow> c_error" where
  "expected_token f want found = Expected f (tok_line found) want (describe (tok_token found))"

definition end_of_input :: "ctext \<Rightarrow> tok list \<Rightarrow> nat \<Rightarrow> string \<Rightarrow> c_error" where
  "end_of_input f toks at want = Expected f (parser_line toks at) want (bytes_of ''the end of the expression'')"

definition punct_at :: "tok list \<Rightarrow> nat \<Rightarrow> ctext option" where
  "punct_at toks at = (case tok_get toks at of
     Some t \<Rightarrow> (case tok_token t of T_Punct p \<Rightarrow> Some p | _ \<Rightarrow> None) | None \<Rightarrow> None)"

type_synonym parsed = "(i64 \<times> nat, c_error) rresult"

definition symbol_value :: "ctext \<Rightarrow> symbols \<Rightarrow> u32 \<Rightarrow> ctext \<Rightarrow> (i64, c_error) rresult" where
  "symbol_value f sy line name = (case symbols_get sy name of
     Some v \<Rightarrow> Ok v
   | None \<Rightarrow> if is_ambiguous sy name then Err (Ambiguous f line name) else Err (UnknownSymbol f line name))"

function (sequential) binary :: "ctext \<Rightarrow> tok list \<Rightarrow> symbols \<Rightarrow> nat \<Rightarrow> nat \<Rightarrow> parsed"
  and binary_loop :: "ctext \<Rightarrow> tok list \<Rightarrow> symbols \<Rightarrow> nat \<Rightarrow> i64 \<Rightarrow> nat \<Rightarrow> parsed"
  and unary :: "ctext \<Rightarrow> tok list \<Rightarrow> symbols \<Rightarrow> nat \<Rightarrow> parsed"
  and primary :: "ctext \<Rightarrow> tok list \<Rightarrow> symbols \<Rightarrow> nat \<Rightarrow> parsed"
where
  "binary f toks sy level at =
     (if level < length PRECEDENCE
      then rbind (binary f toks sy (level + 1) at) (\<lambda>x. binary_loop f toks sy level (fst x) (snd x))
      else unary f toks sy at)"
| "binary_loop f toks sy level left at =
     (case punct_at toks at of
        Some op \<Rightarrow>
          if op \<in> set (PRECEDENCE ! level)
          then rbind (binary f toks sy (level + 1) (at + 1)) (\<lambda>x.
                 binary_loop f toks sy level (apply_op op left (fst x)) (snd x))
          else Ok (left, at)
      | None \<Rightarrow> Ok (left, at))"
| "unary f toks sy at =
     (if punct_at toks at = Some (bytes_of ''-'') then rbind (unary f toks sy (at + 1)) (\<lambda>x. Ok (- fst x, snd x))
      else if punct_at toks at = Some (bytes_of ''+'') then unary f toks sy (at + 1)
      else if punct_at toks at = Some (bytes_of ''~'') then rbind (unary f toks sy (at + 1)) (\<lambda>x. Ok (NOT (fst x), snd x))
      else if punct_at toks at = Some (bytes_of ''!'') then rbind (unary f toks sy (at + 1)) (\<lambda>x. Ok (of_bool (fst x = 0), snd x))
      else primary f toks sy at)"
| "primary f toks sy at =
     (case tok_get toks at of
        None \<Rightarrow> Err (end_of_input f toks at ''a value'')
      | Some t \<Rightarrow>
          (case tok_token t of
             T_Int v \<Rightarrow> Ok (v, at + 1)
           | T_Ident name \<Rightarrow> rbind (symbol_value f sy (tok_line t) name) (\<lambda>v. Ok (v, at + 1))
           | T_Punct p \<Rightarrow>
               if p = bytes_of ''('' then
                 rbind (binary f toks sy 0 (at + 1)) (\<lambda>x.
                   case tok_get toks (snd x) of
                     Some other \<Rightarrow>
                       if tok_token other = T_Punct (bytes_of '')'') then Ok (fst x, snd x + 1)
                       else Err (expected_token f ''a closing parenthesis'' other)
                   | None \<Rightarrow> Err (end_of_input f toks (snd x) ''a closing parenthesis''))
               else Err (expected_token f ''a value'' t)
           | _ \<Rightarrow> Err (expected_token f ''a value'' t)))"
  by pat_completeness auto

text \<open>A parse that succeeds has moved the cursor on, and not past the end.\<close>

lemma parser_progress:
  "binary_binary_loop_unary_primary_dom (Inl (Inl (f, toks, sy, level, at))) \<Longrightarrow>
     binary f toks sy level at = Ok x \<Longrightarrow> at < snd x \<and> snd x \<le> length toks"
  "binary_binary_loop_unary_primary_dom (Inl (Inr (f, toks, sy, level, left, at))) \<Longrightarrow>
     binary_loop f toks sy level left at = Ok x \<Longrightarrow> at \<le> snd x \<and> (at \<le> length toks \<longrightarrow> snd x \<le> length toks)"
  "binary_binary_loop_unary_primary_dom (Inr (Inl (f, toks, sy, at))) \<Longrightarrow>
     unary f toks sy at = Ok x \<Longrightarrow> at < snd x \<and> snd x \<le> length toks"
  "binary_binary_loop_unary_primary_dom (Inr (Inr (f, toks, sy, at))) \<Longrightarrow>
     primary f toks sy at = Ok x \<Longrightarrow> at < snd x \<and> snd x \<le> length toks"
proof (induction f toks sy level at and f toks sy level left at and f toks sy at and f toks sy at
    arbitrary: x and x and x and x rule: binary_binary_loop_unary_primary.pinduct)
  case (1 f toks sy level at)
  show ?case
  proof (cases "level < length PRECEDENCE")
    case True
    then obtain y where y: "binary f toks sy (level + 1) at = Ok y" "binary_loop f toks sy level (fst y) (snd y) = Ok x"
      using 1(5) by (auto simp: binary.psimps [OF 1(1)] rbind_Ok_iff)
    show ?thesis using 1(2) [OF True y(1)] 1(3) [OF True y] by simp
  next
    case False
    then show ?thesis using 1(4) [OF False] 1(5) by (simp add: binary.psimps [OF 1(1)])
  qed
next
  case (2 f toks sy level left at)
  show ?case
  proof (cases "\<exists>op. punct_at toks at = Some op \<and> op \<in> set (PRECEDENCE ! level)")
    case True
    then obtain op where op: "punct_at toks at = Some op" "op \<in> set (PRECEDENCE ! level)" by blast
    then obtain y where y: "binary f toks sy (level + 1) (at + 1) = Ok y"
        "binary_loop f toks sy level (apply_op op left (fst y)) (snd y) = Ok x"
      using 2(4) by (auto simp: binary_loop.psimps [OF 2(1)] rbind_Ok_iff)
    show ?thesis using 2(2) [OF op y(1)] 2(3) [OF op y] by simp
  next
    case False
    then show ?thesis using 2(4) by (auto simp: binary_loop.psimps [OF 2(1)] split: option.splits if_splits)
  qed
next
  case (3 f toks sy at)
  let ?is = "\<lambda>c. punct_at toks at = Some (bytes_of c)"
  note e = 3(7) [unfolded unary.psimps [OF 3(1)]]
  consider (neg) "?is ''-''" | (pos) "\<not> ?is ''-''" "?is ''+''" | (inv) "\<not> ?is ''-''" "\<not> ?is ''+''" "?is ''~''"
    | (no) "\<not> ?is ''-''" "\<not> ?is ''+''" "\<not> ?is ''~''" "?is ''!''"
    | (prim) "\<not> ?is ''-''" "\<not> ?is ''+''" "\<not> ?is ''~''" "\<not> ?is ''!''" by blast
  then show ?case
  proof cases
    case neg
    then obtain y where "unary f toks sy (at + 1) = Ok y" "snd x = snd y" using e by (auto simp: rbind_Ok_iff)
    then show ?thesis using 3(2) [OF neg] by simp
  next
    case pos
    then show ?thesis using 3(3) [OF pos] e by simp
  next
    case inv
    then obtain y where "unary f toks sy (at + 1) = Ok y" "snd x = snd y" using e by (auto simp: rbind_Ok_iff)
    then show ?thesis using 3(4) [OF inv] by simp
  next
    case no
    then obtain y where "unary f toks sy (at + 1) = Ok y" "snd x = snd y" using e by (auto simp: rbind_Ok_iff)
    then show ?thesis using 3(5) [OF no] by simp
  next
    case prim
    then show ?thesis using 3(6) [OF prim] e by simp
  qed
next
  case (4 f toks sy at)
  obtain t where t: "tok_get toks at = Some t" "at < length toks"
    using 4(3) by (auto simp: primary.psimps [OF 4(1)] tok_get_def split: if_splits)
  show ?case
  proof (cases "tok_token t = T_Punct (bytes_of ''('')")
    case True
    then obtain y where "binary f toks sy 0 (at + 1) = Ok y" "snd x = snd y + 1" "snd y < length toks"
      using 4(3) t by (auto simp: primary.psimps [OF 4(1)] rbind_Ok_iff tok_get_def split: option.splits if_splits)
    then show ?thesis using 4(2) [OF t(1) True refl] by simp
  next
    case False
    then show ?thesis using 4(3) t
      by (auto simp: primary.psimps [OF 4(1)] rbind_Ok_iff split: token.splits)
  qed
qed

lemma punct_at_less: "punct_at toks at = Some p \<Longrightarrow> at < length toks"
  by (auto simp: punct_at_def tok_get_def split: if_splits option.splits)

lemma tok_get_less: "tok_get toks at = Some t \<Longrightarrow> at < length toks"
  by (auto simp: tok_get_def split: if_splits)

definition parser_rank :: "(ctext \<times> tok list \<times> symbols \<times> nat \<times> nat + ctext \<times> tok list \<times> symbols \<times> nat \<times> i64 \<times> nat) +
    (ctext \<times> tok list \<times> symbols \<times> nat + ctext \<times> tok list \<times> symbols \<times> nat) \<Rightarrow> nat \<times> nat" where
  "parser_rank x = (case x of
     Inl (Inl (f, toks, sy, level, at)) \<Rightarrow> (length toks - at, 9 - min level 6)
   | Inl (Inr (f, toks, sy, level, left, at)) \<Rightarrow> (length toks - at, 10)
   | Inr (Inl (f, toks, sy, at)) \<Rightarrow> (length toks - at, 2)
   | Inr (Inr (f, toks, sy, at)) \<Rightarrow> (length toks - at, 1))"

termination binary
proof (relation "inv_image (less_than <*lex*> less_than) parser_rank", goal_cases)
  case 1
  then show ?case by auto
next
  case (3 f toks sy level at x)
  then have "at < snd x \<and> snd x \<le> length toks" using parser_progress(1) by blast
  then have "length toks - snd x < length toks - at" by linarith
  then show ?case by (cases x) (simp add: parser_rank_def)
qed (auto simp: parser_rank_def PRECEDENCE_def dest: parser_progress punct_at_less tok_get_less)

declare binary.simps [simp del] binary_loop.simps [simp del] unary.simps [simp del] primary.simps [simp del]

definition eval_expr :: "ctext \<Rightarrow> tok list \<Rightarrow> symbols \<Rightarrow> (i64, c_error) rresult" where
  "eval_expr f toks sy = rbind (binary f toks sy 0 0) (\<lambda>x.
     case tok_get toks (snd x) of
       None \<Rightarrow> Ok (fst x)
     | Some t \<Rightarrow> Err (expected_token f ''the end of the expression'' t))"

section \<open>Expressions as trees\<close>

text \<open>A tree with its parentheses, where it fits, how it is written, and its value.\<close>

datatype cexpr =
    C_Num i64
  | C_Name ctext
  | C_Paren cexpr
  | C_Un ctext cexpr
  | C_Bin nat ctext cexpr cexpr

definition un_value :: "ctext \<Rightarrow> i64 \<Rightarrow> i64" where
  "un_value op v = (if op = bytes_of ''-'' then - v else if op = bytes_of ''+'' then v
     else if op = bytes_of ''~'' then NOT v else of_bool (v = 0))"

fun fits :: "nat \<Rightarrow> cexpr \<Rightarrow> bool" where
  "fits l (C_Num v) = True"
| "fits l (C_Name s) = True"
| "fits l (C_Paren e) = fits 0 e"
| "fits l (C_Un op e) = (op \<in> bytes_of ` {''-'', ''+'', ''~'', ''!''} \<and> fits 6 e)"
| "fits l (C_Bin k op a b) = (l \<le> k \<and> k < 6 \<and> op \<in> set (PRECEDENCE ! k) \<and> fits k a \<and> fits (k + 1) b)"

fun print_expr :: "cexpr \<Rightarrow> token list" where
  "print_expr (C_Num v) = [T_Int v]"
| "print_expr (C_Name s) = [T_Ident s]"
| "print_expr (C_Paren e) = [T_Punct (bytes_of ''('')] @ print_expr e @ [T_Punct (bytes_of '')'')]"
| "print_expr (C_Un op e) = T_Punct op # print_expr e"
| "print_expr (C_Bin k op a b) = print_expr a @ T_Punct op # print_expr b"

fun cval :: "symbols \<Rightarrow> cexpr \<Rightarrow> i64 option" where
  "cval sy (C_Num v) = Some v"
| "cval sy (C_Name s) = symbols_get sy s"
| "cval sy (C_Paren e) = cval sy e"
| "cval sy (C_Un op e) = map_option (un_value op) (cval sy e)"
| "cval sy (C_Bin k op a b) = Option.bind (cval sy a) (\<lambda>x. map_option (apply_op op x) (cval sy b))"

text \<open>\<open>holds toks at ts\<close>: the tokens \<open>ts\<close> stand at \<open>at\<close>; \<open>stops l toks at\<close>: no operator of level \<open>l\<close> or above does.\<close>

definition holds :: "tok list \<Rightarrow> nat \<Rightarrow> token list \<Rightarrow> bool" where
  "holds toks at ts \<longleftrightarrow> at + length ts \<le> length toks \<and> map tok_token (take (length ts) (drop at toks)) = ts"

definition stops :: "nat \<Rightarrow> tok list \<Rightarrow> nat \<Rightarrow> bool" where
  "stops l toks at \<longleftrightarrow> (\<forall>k op. l \<le> k \<and> k < 6 \<and> op \<in> set (PRECEDENCE ! k) \<longrightarrow> punct_at toks at \<noteq> Some op)"

lemma length_PRECEDENCE [simp]: "length PRECEDENCE = 6"
  by (simp add: PRECEDENCE_def)

lemma holds_Cons: "holds toks at (t # ts) \<longleftrightarrow> (\<exists>x. tok_get toks at = Some x \<and> tok_token x = t) \<and> holds toks (at + 1) ts"
  by (cases "at < length toks") (auto simp: holds_def tok_get_def take_drop_Cons)

lemma holds_Nil: "holds toks at [] \<longleftrightarrow> at \<le> length toks"
  by (simp add: holds_def)

lemma holds_append: "holds toks at (xs @ ys) \<longleftrightarrow> holds toks at xs \<and> holds toks (at + length xs) ys"
proof (induction xs arbitrary: at)
  case Nil
  then show ?case by (auto simp: holds_def)
next
  case (Cons x xs)
  then show ?case by (simp add: holds_Cons)
qed

lemma holds_punct: "holds toks at (T_Punct p # ts) \<Longrightarrow> punct_at toks at = Some p"
  by (auto simp: holds_Cons punct_at_def)

lemma holds_no_punct: "holds toks at (t # ts) \<Longrightarrow> (\<And>p. t \<noteq> T_Punct p) \<Longrightarrow> punct_at toks at = None"
  by (auto simp: holds_Cons punct_at_def split: token.split)

lemma stops_mono: "stops l toks at \<Longrightarrow> l \<le> m \<Longrightarrow> stops m toks at"
  unfolding stops_def by (meson order_trans)

lemma binary_loop_stops: "stops l toks at \<Longrightarrow> l < 6 \<Longrightarrow> binary_loop f toks sy l v at = Ok (v, at)"
  by (subst binary_loop.simps) (auto simp: stops_def split: option.split)

lemma binary_unary: "binary f toks sy 6 at = unary f toks sy at"
  by (simp add: binary.simps)

lemma binary_Suc: "l < 6 \<Longrightarrow> binary f toks sy l at = rbind (binary f toks sy (l + 1) at) (\<lambda>x. binary_loop f toks sy l (fst x) (snd x))"
  by (simp add: binary.simps [of f toks sy l])

text \<open>An operand of a tighter level is an operand of every looser level, if no operator follows it.\<close>

lemma binary_climb:
  assumes "binary f toks sy m at = Ok (v, en)" "stops l toks en" "l \<le> m" "m \<le> 6"
  shows "binary f toks sy l at = Ok (v, en)"
  using assms(3,2)
proof (induction rule: inc_induct)
  case (step l)
  have "stops (Suc l) toks en" using step.prems by (rule stops_mono) simp
  then have "binary f toks sy (l + 1) at = Ok (v, en)" using step.IH by simp
  then show ?case using step.hyps step.prems assms(4) binary_Suc [of l f toks sy at] binary_loop_stops [of l toks en f sy v] by simp
qed (use assms(1) in simp)

lemma unary_operator:
  assumes "op \<in> bytes_of ` {''-'', ''+'', ''~'', ''!''}" "punct_at toks at = Some op" "unary f toks sy (at + 1) = Ok (v, en)"
  shows "unary f toks sy at = Ok (un_value op v, en)"
proof -
  have "bytes_of ''-'' = [45]" "bytes_of ''+'' = [43]" "bytes_of ''~'' = [126]" "bytes_of ''!'' = [33]" by (simp_all add: bytes_of_def)
  then show ?thesis using assms by (subst unary.simps) (auto simp: un_value_def)
qed

lemma unary_primary:
  assumes "\<And>op. op \<in> bytes_of ` {''-'', ''+'', ''~'', ''!''} \<Longrightarrow> punct_at toks at \<noteq> Some op"
  shows "unary f toks sy at = primary f toks sy at"
  using assms by (subst unary.simps) auto

lemma PRECEDENCE_nth:
  "PRECEDENCE ! 0 = [[124]]" "PRECEDENCE ! 1 = [[94]]" "PRECEDENCE ! 2 = [[38]]" "PRECEDENCE ! 3 = [[60, 60], [62, 62]]"
  "PRECEDENCE ! 4 = [[43], [45]]" "PRECEDENCE ! 5 = [[42], [47], [37]]"
  by (simp_all add: PRECEDENCE_def bytes_of_def)

lemma level_cases: "(k :: nat) < 6 \<Longrightarrow> k = 0 \<or> k = 1 \<or> k = 2 \<or> k = 3 \<or> k = 4 \<or> k = 5"
  by presburger

lemma level_disjoint:
  assumes "op \<in> set (PRECEDENCE ! k)" "k < m" "m < 6"
  shows "op \<notin> set (PRECEDENCE ! m)"
  using assms level_cases [OF assms(3)] level_cases [of k]
  by (elim disjE) (auto simp: PRECEDENCE_nth PRECEDENCE_nth(2) [simplified])

lemma stops_at_operator: "punct_at toks at = Some op \<Longrightarrow> op \<in> set (PRECEDENCE ! k) \<Longrightarrow> stops (k + 1) toks at"
  unfolding stops_def using level_disjoint by (metis Suc_eq_plus1 Suc_le_eq option.inject)

lemma stops_at_close: "punct_at toks at = Some (bytes_of '')'') \<Longrightarrow> stops 0 toks at"
  by (auto simp: stops_def bytes_of_def PRECEDENCE_nth PRECEDENCE_nth(2) [simplified] dest!: level_cases)

lemma binary_of_unary:
  assumes "unary f toks sy at = Ok (v, en)" "stops (l + 1) toks en" "l < 6"
  shows "binary f toks sy l at = binary_loop f toks sy l v en"
  using binary_climb [of f toks sy 6 at v en "l + 1"] assms binary_Suc [of l f toks sy at] by (simp add: binary_unary)

lemma primary_paren:
  assumes "holds toks at [T_Punct (bytes_of ''('')]" "binary f toks sy 0 (at + 1) = Ok (v, en)" "holds toks en [T_Punct (bytes_of '')'')]"
  shows "primary f toks sy at = Ok (v, en + 1)"
proof -
  obtain t c where "tok_get toks at = Some t" "tok_token t = T_Punct (bytes_of ''('')"
      "tok_get toks en = Some c" "tok_token c = T_Punct (bytes_of '')'')"
    using assms(1,3) by (auto simp: holds_Cons)
  then show ?thesis using assms(2) by (subst primary.simps) simp
qed

lemma unary_not_operator:
  assumes "holds toks at (T_Punct (bytes_of ''('') # ts)"
  shows "unary f toks sy at = primary f toks sy at"
  using holds_punct [OF assms] by (intro unary_primary) (auto simp: bytes_of_def)

text \<open>
  The claim that carries the induction: a tree that fits a level is read up to its end there, leaving the
  loop of that level to go on.
\<close>

definition reads :: "ctext \<Rightarrow> tok list \<Rightarrow> symbols \<Rightarrow> nat \<Rightarrow> nat \<Rightarrow> i64 \<Rightarrow> nat \<Rightarrow> bool" where
  "reads f toks sy l at v en \<longleftrightarrow>
     (if l < 6 then binary f toks sy l at = binary_loop f toks sy l v en else unary f toks sy at = Ok (v, en))"

lemma reads_unary: "unary f toks sy at = Ok (v, en) \<Longrightarrow> stops (l + 1) toks en \<Longrightarrow> reads f toks sy l at v en"
  by (simp add: reads_def binary_of_unary)

lemma reads_binary: "reads f toks sy l at v en \<Longrightarrow> stops l toks en \<Longrightarrow> l \<le> 6 \<Longrightarrow> binary f toks sy l at = Ok (v, en)"
  by (cases "l < 6") (auto simp: reads_def binary_loop_stops binary_unary dest: le_neq_implies_less)

lemma print_reads:
  assumes "fits l e" "l \<le> 6" "cval sy e = Some v" "holds toks at (print_expr e)" "stops (l + 1) toks (at + length (print_expr e))"
  shows "reads f toks sy l at v (at + length (print_expr e))"
  using assms
proof (induction e arbitrary: l at v)
  case (C_Num n)
  then have "punct_at toks at = None" using holds_no_punct by auto
  then have "unary f toks sy at = Ok (v, at + 1)"
    using C_Num unary_primary [of toks at f sy] by (auto simp: primary.simps holds_Cons)
  then show ?case using C_Num.prems by (intro reads_unary) simp_all
next
  case (C_Name s)
  then have "punct_at toks at = None" using holds_no_punct by auto
  then have "unary f toks sy at = Ok (v, at + 1)"
    using C_Name unary_primary [of toks at f sy] by (auto simp: primary.simps holds_Cons symbol_value_def)
  then show ?case using C_Name.prems by (intro reads_unary) simp_all
next
  case (C_Paren e)
  let ?n = "length (print_expr e)"
  have h: "holds toks at [T_Punct (bytes_of ''('')]" "holds toks (at + 1) (print_expr e)"
      "holds toks (at + 1 + ?n) [T_Punct (bytes_of '')'')]"
    using C_Paren.prems(4) unfolding print_expr.simps holds_append by simp_all
  have cl: "stops 0 toks (at + 1 + ?n)" using stops_at_close holds_punct [OF h(3)] by blast
  have "reads f toks sy 0 (at + 1) v (at + 1 + ?n)"
    using C_Paren.prems h(2) stops_mono [OF cl, of 1] by (intro C_Paren.IH) simp_all
  then have "binary f toks sy 0 (at + 1) = Ok (v, at + 1 + ?n)" using reads_binary cl by blast
  then have "unary f toks sy at = Ok (v, at + 1 + ?n + 1)"
    using primary_paren [OF h(1) _ h(3)] unary_not_operator [OF h(1)] by simp
  then show ?case using C_Paren.prems by (intro reads_unary) simp_all
next
  case (C_Un op e)
  let ?n = "length (print_expr e)"
  have h: "holds toks (at + 1) (print_expr e)" "punct_at toks at = Some op"
    using C_Un.prems(4) holds_punct [of toks at op] by (auto simp: holds_Cons)
  obtain w where w: "cval sy e = Some w" "v = un_value op w" using C_Un.prems(3) by auto
  have s: "stops 7 toks (at + 1 + ?n)" by (auto simp: stops_def)
  have "reads f toks sy 6 (at + 1) w (at + 1 + ?n)"
    using C_Un.IH [of 6 w "at + 1"] C_Un.prems h(1) w(1) s by simp
  then have "unary f toks sy (at + 1) = Ok (w, at + 1 + ?n)" by (simp add: reads_def)
  then have "unary f toks sy at = Ok (v, at + 1 + ?n)" using unary_operator [OF _ h(2)] C_Un.prems(1) w(2) by simp
  then show ?case using C_Un.prems by (intro reads_unary) simp_all
next
  case (C_Bin k op a b)
  let ?na = "length (print_expr a)" and ?nb = "length (print_expr b)"
  let ?m = "at + ?na" and ?en = "at + ?na + 1 + ?nb"
  have k: "l \<le> k" "k < 6" "op \<in> set (PRECEDENCE ! k)" "fits k a" "fits (k + 1) b" using C_Bin.prems(1) by auto
  have h: "holds toks at (print_expr a)" "punct_at toks ?m = Some op" "holds toks (?m + 1) (print_expr b)"
    using C_Bin.prems(4) holds_punct [of toks ?m op] by (auto simp: holds_append holds_Cons)
  obtain x y where v: "cval sy a = Some x" "cval sy b = Some y" "v = apply_op op x y"
    using C_Bin.prems(3) by (auto simp: bind_eq_Some_conv)
  have st: "stops (l + 1) toks ?en" using C_Bin.prems(5) by (simp add: add.assoc)
  have sk: "stops (k + 1) toks ?en" using stops_mono [OF st] k(1) by simp
  have ra: "binary f toks sy k at = binary_loop f toks sy k x ?m"
    using C_Bin.IH(1) [of k x at] k h(1) v(1) stops_at_operator [OF h(2) k(3)] by (simp add: reads_def)
  have "reads f toks sy (k + 1) (?m + 1) y ?en"
    using C_Bin.IH(2) [of "k + 1" y "?m + 1"] k h(3) v(2) stops_mono [OF sk, of "k + 2"] by simp
  then have "binary f toks sy (k + 1) (?m + 1) = Ok (y, ?en)" using reads_binary sk k(2) by simp
  then have bk: "binary f toks sy k at = binary_loop f toks sy k v ?en"
    using ra h(2) k(3) v(3) by (simp add: binary_loop.simps [of f toks sy k x])
  have "binary f toks sy l at = binary_loop f toks sy l v ?en"
  proof (cases "l = k")
    case False
    then have "stops k toks ?en" "l < k" using stops_mono [OF st, of k] k(1) by simp_all
    then have "binary f toks sy k at = Ok (v, ?en)" using bk binary_loop_stops k(2) by simp
    then have "binary f toks sy (l + 1) at = Ok (v, ?en)" by (rule binary_climb [OF _ st]) (use \<open>l < k\<close> k(2) in simp_all)
    then show ?thesis using binary_Suc [of l f toks sy at] \<open>l < k\<close> k(2) by simp
  qed (use bk in simp)
  then show ?case using k(1,2) by (simp add: reads_def add.assoc)
qed

text \<open>What is written as tokens evaluates to the value of the tree.\<close>

lemma eval_print:
  assumes "fits 0 e" "cval sy e = Some v" "map tok_token toks = print_expr e"
  shows "eval_expr f toks sy = Ok v"
proof -
  have n: "length (print_expr e) = length toks" using arg_cong [OF assms(3), of length] by simp
  have h: "holds toks 0 (print_expr e)" using assms(3) n by (simp add: holds_def)
  have s: "stops 0 toks (length toks)" by (simp add: stops_def punct_at_def tok_get_def)
  have "reads f toks sy 0 0 v (0 + length (print_expr e))"
    using s n by (intro print_reads [OF assms(1) _ assms(2) h]) (auto intro: stops_mono)
  then have "binary f toks sy 0 0 = Ok (v, length toks)" using reads_binary [of f toks sy 0 0 v "length toks"] s n by simp
  then show ?thesis by (simp add: eval_expr_def tok_get_def)
qed

end
