(* ===== verification/C_Grammar.thy ===== *)
theory C_Grammar
  imports C_Expr C_Lex_Properties
begin

text \<open>
  The constant expressions of C as a grammar, independent of the evaluator's tables: the productions of the language's
  expression grammar for the operators the reader takes, each with the value it gives in 64-bit integers.  The evaluator
  of \<open>native/src/csource/expr.rs\<close> is shown to accept exactly the token lists the grammar derives, with those values.
\<close>

section \<open>The grammar\<close>

datatype category = Or_Expr | Xor_Expr | And_Expr | Shift_Expr | Additive | Multiplicative | Unary_Expr | Primary

text \<open>Division truncates; where C leaves it undefined, for a zero divisor or a quotient that does not fit, the reader says 0.\<close>

definition trunc_quot :: "i64 \<Rightarrow> i64 \<Rightarrow> int" where
  "trunc_quot x y = sgn (sint x) * sgn (sint y) * (\<bar>sint x\<bar> div \<bar>sint y\<bar>)"

definition divides_ok :: "i64 \<Rightarrow> i64 \<Rightarrow> bool" where
  "divides_ok x y \<longleftrightarrow> y \<noteq> 0 \<and> trunc_quot x y < 2 ^ 63"

abbreviation punct :: "string \<Rightarrow> token" where
  "punct c \<equiv> T_Punct (bytes_of c)"

inductive c_means :: "symbols \<Rightarrow> category \<Rightarrow> token list \<Rightarrow> i64 \<Rightarrow> bool" for sy where
  number: "c_means sy Primary [T_Int v] v"
| name: "symbols_get sy s = Some v \<Longrightarrow> c_means sy Primary [T_Ident s] v"
| parens: "c_means sy Or_Expr ts v \<Longrightarrow> c_means sy Primary (punct ''('' # ts @ [punct '')'']) v"
| primary_unary: "c_means sy Primary ts v \<Longrightarrow> c_means sy Unary_Expr ts v"
| minus: "c_means sy Unary_Expr ts x \<Longrightarrow> c_means sy Unary_Expr (punct ''-'' # ts) (word_of_int (- sint x))"
| plus: "c_means sy Unary_Expr ts x \<Longrightarrow> c_means sy Unary_Expr (punct ''+'' # ts) x"
| complement: "c_means sy Unary_Expr ts x \<Longrightarrow> c_means sy Unary_Expr (punct ''~'' # ts) (word_of_int (- sint x - 1))"
| negation: "c_means sy Unary_Expr ts x \<Longrightarrow> c_means sy Unary_Expr (punct ''!'' # ts) (if sint x = 0 then 1 else 0)"
| mul_unary: "c_means sy Unary_Expr ts v \<Longrightarrow> c_means sy Multiplicative ts v"
| times: "c_means sy Multiplicative ts x \<Longrightarrow> c_means sy Unary_Expr us y \<Longrightarrow>
    c_means sy Multiplicative (ts @ punct ''*'' # us) (word_of_int (sint x * sint y))"
| divide: "c_means sy Multiplicative ts x \<Longrightarrow> c_means sy Unary_Expr us y \<Longrightarrow>
    c_means sy Multiplicative (ts @ punct ''/'' # us) (if divides_ok x y then word_of_int (trunc_quot x y) else 0)"
| remainder: "c_means sy Multiplicative ts x \<Longrightarrow> c_means sy Unary_Expr us y \<Longrightarrow>
    c_means sy Multiplicative (ts @ punct ''%'' # us) (if divides_ok x y then word_of_int (sint x - trunc_quot x y * sint y) else 0)"
| add_mul: "c_means sy Multiplicative ts v \<Longrightarrow> c_means sy Additive ts v"
| add: "c_means sy Additive ts x \<Longrightarrow> c_means sy Multiplicative us y \<Longrightarrow>
    c_means sy Additive (ts @ punct ''+'' # us) (word_of_int (sint x + sint y))"
| subtract: "c_means sy Additive ts x \<Longrightarrow> c_means sy Multiplicative us y \<Longrightarrow>
    c_means sy Additive (ts @ punct ''-'' # us) (word_of_int (sint x - sint y))"
| shift_add: "c_means sy Additive ts v \<Longrightarrow> c_means sy Shift_Expr ts v"
| shift_left: "c_means sy Shift_Expr ts x \<Longrightarrow> c_means sy Additive us y \<Longrightarrow>
    c_means sy Shift_Expr (ts @ punct ''<<'' # us) (word_of_int (sint x * 2 ^ (unat y mod 64)))"
| shift_right: "c_means sy Shift_Expr ts x \<Longrightarrow> c_means sy Additive us y \<Longrightarrow>
    c_means sy Shift_Expr (ts @ punct ''>>'' # us) (word_of_int (sint x div 2 ^ (unat y mod 64)))"
| and_shift: "c_means sy Shift_Expr ts v \<Longrightarrow> c_means sy And_Expr ts v"
| bit_and: "c_means sy And_Expr ts x \<Longrightarrow> c_means sy Shift_Expr us y \<Longrightarrow> c_means sy And_Expr (ts @ punct ''&'' # us) (x AND y)"
| xor_and: "c_means sy And_Expr ts v \<Longrightarrow> c_means sy Xor_Expr ts v"
| bit_xor: "c_means sy Xor_Expr ts x \<Longrightarrow> c_means sy And_Expr us y \<Longrightarrow> c_means sy Xor_Expr (ts @ punct ''^'' # us) (x XOR y)"
| or_xor: "c_means sy Xor_Expr ts v \<Longrightarrow> c_means sy Or_Expr ts v"
| bit_or: "c_means sy Or_Expr ts x \<Longrightarrow> c_means sy Xor_Expr us y \<Longrightarrow> c_means sy Or_Expr (ts @ punct ''|'' # us) (x OR y)"

section \<open>The operators compute what the grammar says\<close>

lemma quotient_sdiv: "trunc_quot x y = sint x sdiv sint y"
  by (simp add: trunc_quot_def signed_divide_int_def)

lemma quotient_overflow:
  assumes "y \<noteq> 0"
  shows "2 ^ 63 \<le> trunc_quot x y \<longleftrightarrow> sint x = - (2 ^ 63) \<and> sint y = -1"
proof
  assume o: "2 ^ 63 \<le> trunc_quot x y"
  have x: "\<bar>sint x\<bar> \<le> 2 ^ 63" "sint x < 2 ^ 63" using sint_range_size [of x] by (auto simp: word_size)
  have y: "1 \<le> \<bar>sint y\<bar>" using assms by (metis abs_0_eq int_one_le_iff_zero_less order_le_less abs_ge_zero signed_eq_0_iff)
  have "trunc_quot x y \<le> \<bar>sint x\<bar> div \<bar>sint y\<bar>"
    by (auto simp: trunc_quot_def sgn_if pos_imp_zdiv_nonneg_iff)
  then have d: "2 ^ 63 \<le> \<bar>sint x\<bar> div \<bar>sint y\<bar>" using o by linarith
  have y1: "\<bar>sint y\<bar> = 1"
  proof (rule ccontr)
    assume "\<bar>sint y\<bar> \<noteq> 1"
    then have "2 \<le> \<bar>sint y\<bar>" using y by linarith
    then have "\<bar>sint x\<bar> div \<bar>sint y\<bar> \<le> \<bar>sint x\<bar> div 2" by (intro zdiv_mono2) simp_all
    then show False using d x(1) by simp
  qed
  then have "sint x = - (2 ^ 63)" using d x by simp
  moreover have "sint y \<noteq> 1" using o \<open>sint x = - (2 ^ 63)\<close> by (auto simp: trunc_quot_def)
  ultimately show "sint x = - (2 ^ 63) \<and> sint y = -1" using y1 by linarith
qed (simp add: trunc_quot_def)

lemma divides_ok_iff: "divides_ok x y \<longleftrightarrow> \<not> (y = 0 \<or> sint x = - (2 ^ 63) \<and> sint y = -1)"
  using quotient_overflow [of y x] by (auto simp: divides_ok_def)

lemma shift_amount_unat: "shift_amount y = unat y mod 64"
proof -
  have "unat (ucast y :: u32) = unat y mod 2 ^ 32" by (simp add: unsigned_ucast_eq take_bit_eq_mod)
  then show ?thesis by (simp add: shift_amount_def mod_mod_cancel)
qed

lemma apply_values:
  "apply_op (bytes_of ''|'') x y = x OR y" "apply_op (bytes_of ''^'') x y = x XOR y" "apply_op (bytes_of ''&'') x y = x AND y"
  "apply_op (bytes_of ''<<'') x y = word_of_int (sint x * 2 ^ (unat y mod 64))"
  "apply_op (bytes_of ''>>'') x y = word_of_int (sint x div 2 ^ (unat y mod 64))"
  "apply_op (bytes_of ''+'') x y = word_of_int (sint x + sint y)" "apply_op (bytes_of ''-'') x y = word_of_int (sint x - sint y)"
  "apply_op (bytes_of ''*'') x y = word_of_int (sint x * sint y)"
  "apply_op (bytes_of ''/'') x y = (if divides_ok x y then word_of_int (trunc_quot x y) else 0)"
  "apply_op (bytes_of ''%'') x y = (if divides_ok x y then word_of_int (sint x - trunc_quot x y * sint y) else 0)"
proof -
  have "signed_drop_bit (shift_amount y) x = word_of_int (sint (signed_drop_bit (shift_amount y) x))" by simp
  also have "\<dots> = word_of_int (sint x div 2 ^ (unat y mod 64))"
    unfolding sint_signed_drop_bit_eq drop_bit_eq_div shift_amount_unat ..
  finally show "apply_op (bytes_of ''>>'') x y = word_of_int (sint x div 2 ^ (unat y mod 64))" by (simp add: apply_op_def bytes_of_def)
next
  show "apply_op (bytes_of ''%'') x y = (if divides_ok x y then word_of_int (sint x - trunc_quot x y * sint y) else 0)"
    unfolding quotient_sdiv minus_sdiv_mult_eq_smod divides_ok_iff by (simp add: apply_op_def bytes_of_def checked_rem_def)
qed (simp_all add: apply_op_def bytes_of_def shift_amount_unat push_bit_eq_mult checked_div_def divides_ok_iff quotient_sdiv mult.commute)

lemma un_values:
  "un_value (bytes_of ''-'') x = word_of_int (- sint x)" "un_value (bytes_of ''+'') x = x"
  "un_value (bytes_of ''~'') x = word_of_int (- sint x - 1)" "un_value (bytes_of ''!'') x = (if sint x = 0 then 1 else 0)"
  by (simp_all add: un_value_def bytes_of_def not_eq_complement signed_eq_0_iff)

section \<open>Every derivation is evaluated\<close>

fun level :: "category \<Rightarrow> nat" where
  "level Or_Expr = 0" | "level Xor_Expr = 1" | "level And_Expr = 2" | "level Shift_Expr = 3" | "level Additive = 4"
| "level Multiplicative = 5" | "level Unary_Expr = 6" | "level Primary = 7"

lemma fits_mono: "fits m e \<Longrightarrow> l \<le> m \<Longrightarrow> fits l e"
  by (cases e) auto

lemma fits_down:
  "fits 7 e \<Longrightarrow> fits 6 e" "fits 6 e \<Longrightarrow> fits 5 e" "fits 5 e \<Longrightarrow> fits 4 e" "fits 4 e \<Longrightarrow> fits 3 e" "fits 3 e \<Longrightarrow> fits 2 e"
  "fits 2 e \<Longrightarrow> fits (Suc 0) e" "fits (Suc 0) e \<Longrightarrow> fits 0 e"
  by (simp_all add: fits_mono)

lemma bin_tree:
  assumes "fits k a" "cval sy a = Some x" "print_expr a = ts" "fits (k + 1) b" "cval sy b = Some y" "print_expr b = us"
    "k < 6" "op \<in> set (PRECEDENCE ! k)"
  shows "\<exists>e. fits k e \<and> cval sy e = Some (apply_op op x y) \<and> print_expr e = ts @ T_Punct op # us"
  using assms by (intro exI [of _ "C_Bin k op a b"]) simp

lemma un_tree:
  assumes "fits 6 a" "cval sy a = Some x" "print_expr a = ts" "op \<in> bytes_of ` {''-'', ''+'', ''~'', ''!''}"
  shows "\<exists>e. fits 6 e \<and> cval sy e = Some (un_value op x) \<and> print_expr e = T_Punct op # ts"
  using assms by (intro exI [of _ "C_Un op a"]) simp

lemma level_ops:
  "bytes_of ''|'' \<in> set (PRECEDENCE ! 0)" "bytes_of ''^'' \<in> set (PRECEDENCE ! 1)" "bytes_of ''&'' \<in> set (PRECEDENCE ! 2)"
  "bytes_of ''<<'' \<in> set (PRECEDENCE ! 3)" "bytes_of ''>>'' \<in> set (PRECEDENCE ! 3)" "bytes_of ''+'' \<in> set (PRECEDENCE ! 4)"
  "bytes_of ''-'' \<in> set (PRECEDENCE ! 4)" "bytes_of ''*'' \<in> set (PRECEDENCE ! 5)" "bytes_of ''/'' \<in> set (PRECEDENCE ! 5)"
  "bytes_of ''%'' \<in> set (PRECEDENCE ! 5)"
  by (simp_all add: PRECEDENCE_def)

lemma means_tree: "c_means sy c ts v \<Longrightarrow> \<exists>e. fits (level c) e \<and> cval sy e = Some v \<and> print_expr e = ts"
proof (induction rule: c_means.induct)
  case (number v)
  then show ?case by (intro exI [of _ "C_Num v"]) simp
next
  case (name s v)
  then show ?case by (intro exI [of _ "C_Name s"]) simp
next
  case (parens ts v)
  then obtain e where "fits 0 e" "cval sy e = Some v" "print_expr e = ts" by auto
  then show ?case by (intro exI [of _ "C_Paren e"]) simp
next
  case (times ts x us y)
  then show ?case using bin_tree [OF _ _ _ _ _ _ _ level_ops(8), of _ sy x ts _ y us] by (auto simp: apply_values)
next
  case (divide ts x us y)
  then show ?case using bin_tree [OF _ _ _ _ _ _ _ level_ops(9), of _ sy x ts _ y us] by (auto simp: apply_values)
next
  case (remainder ts x us y)
  then show ?case using bin_tree [OF _ _ _ _ _ _ _ level_ops(10), of _ sy x ts _ y us] by (auto simp: apply_values)
next
  case (add ts x us y)
  then show ?case using bin_tree [OF _ _ _ _ _ _ _ level_ops(6), of _ sy x ts _ y us] by (auto simp: apply_values)
next
  case (subtract ts x us y)
  then show ?case using bin_tree [OF _ _ _ _ _ _ _ level_ops(7), of _ sy x ts _ y us] by (auto simp: apply_values)
next
  case (shift_left ts x us y)
  then show ?case using bin_tree [OF _ _ _ _ _ _ _ level_ops(4), of _ sy x ts _ y us] by (auto simp: apply_values)
next
  case (shift_right ts x us y)
  then show ?case using bin_tree [OF _ _ _ _ _ _ _ level_ops(5), of _ sy x ts _ y us] by (auto simp: apply_values)
next
  case (bit_and ts x us y)
  then show ?case using bin_tree [OF _ _ _ _ _ _ _ level_ops(3), of _ sy x ts _ y us] by (auto simp: apply_values)
next
  case (bit_xor ts x us y)
  then show ?case using bin_tree [OF _ _ _ _ _ _ _ level_ops(2), of _ sy x ts _ y us] by (auto simp: apply_values numeral_2_eq_2)
next
  case (bit_or ts x us y)
  then show ?case using bin_tree [OF _ _ _ _ _ _ _ level_ops(1), of _ sy x ts _ y us] by (auto simp: apply_values)
next
  case (minus ts x)
  then show ?case using un_tree [of _ sy x ts "bytes_of ''-''"] by (auto simp: un_values)
next
  case (plus ts x)
  then show ?case using un_tree [of _ sy x ts "bytes_of ''+''"] by (auto simp: un_values)
next
  case (complement ts x)
  then show ?case using un_tree [of _ sy x ts "bytes_of ''~''"] by (auto simp: un_values)
next
  case (negation ts x)
  then show ?case using un_tree [of _ sy x ts "bytes_of ''!''"] by (auto simp: un_values)
qed (auto intro: fits_down)

section \<open>Whatever is evaluated has a derivation\<close>

text \<open>The tokens from one place to another.\<close>

definition seg :: "tok list \<Rightarrow> nat \<Rightarrow> nat \<Rightarrow> token list" where
  "seg toks a b = map tok_token (take (b - a) (drop a toks))"

lemma seg_append: "a \<le> b \<Longrightarrow> b \<le> c \<Longrightarrow> seg toks a c = seg toks a b @ seg toks b c"
proof -
  assume "a \<le> b" "b \<le> c"
  then have "take (c - a) (drop a toks) = take (b - a) (drop a toks) @ take (c - b) (drop b toks)"
    using take_add [of "b - a" "c - b" "drop a toks"] by (simp add: drop_drop)
  then show ?thesis by (simp add: seg_def)
qed

lemma seg_one: "tok_get toks a = Some t \<Longrightarrow> seg toks a (a + 1) = [tok_token t]"
  by (auto simp: seg_def tok_get_def take_Suc_conv_app_nth hd_drop_conv_nth take_Suc split: if_splits)

lemma seg_Cons: "tok_get toks a = Some t \<Longrightarrow> a < b \<Longrightarrow> seg toks a b = tok_token t # seg toks (a + 1) b"
  using seg_append [of a "a + 1" b toks] seg_one [of toks a t] by simp

lemma seg_punct: "punct_at toks a = Some p \<Longrightarrow> a < b \<Longrightarrow> seg toks a b = T_Punct p # seg toks (a + 1) b"
  using seg_Cons [of toks a _ b] by (auto simp: punct_at_def split: option.splits token.splits)

definition category_at :: "nat \<Rightarrow> category" where
  "category_at l = [Or_Expr, Xor_Expr, And_Expr, Shift_Expr, Additive, Multiplicative, Unary_Expr] ! l"

lemma category_at_simps [simp]: "category_at 0 = Or_Expr" "category_at 1 = Xor_Expr" "category_at (Suc 0) = Xor_Expr" "category_at 2 = And_Expr"
  "category_at 3 = Shift_Expr" "category_at 4 = Additive" "category_at 5 = Multiplicative" "category_at 6 = Unary_Expr"
  by (simp_all add: category_at_def)

lemma category_at_next: "category_at (0 + 1) = Xor_Expr" "category_at (1 + 1) = And_Expr" "category_at (2 + 1) = Shift_Expr"
  "category_at (3 + 1) = Additive" "category_at (4 + 1) = Multiplicative" "category_at (5 + 1) = Unary_Expr"
  by (simp_all add: category_at_def)

lemma level_op_cases:
  assumes "l < 6" "op \<in> set (PRECEDENCE ! l)"
  shows "l = 0 \<and> op = bytes_of ''|'' \<or> l = 1 \<and> op = bytes_of ''^'' \<or> l = 2 \<and> op = bytes_of ''&'' \<or>
    l = 3 \<and> op = bytes_of ''<<'' \<or> l = 3 \<and> op = bytes_of ''>>'' \<or> l = 4 \<and> op = bytes_of ''+'' \<or> l = 4 \<and> op = bytes_of ''-'' \<or>
    l = 5 \<and> op = bytes_of ''*'' \<or> l = 5 \<and> op = bytes_of ''/'' \<or> l = 5 \<and> op = bytes_of ''%''"
  using assms(2) level_cases [OF assms(1)] by (elim disjE) (auto simp: PRECEDENCE_def)

lemma means_up: "l < 6 \<Longrightarrow> c_means sy (category_at (l + 1)) ts v \<Longrightarrow> c_means sy (category_at l) ts v"
  by (drule level_cases) (auto simp: numeral_2_eq_2 [symmetric] intro: c_means.intros)

lemma means_bin:
  assumes "l < 6" "op \<in> set (PRECEDENCE ! l)" "c_means sy (category_at l) ts x" "c_means sy (category_at (l + 1)) us y"
  shows "c_means sy (category_at l) (ts @ T_Punct op # us) (apply_op op x y)"
  using level_op_cases [OF assms(1,2)] assms(3,4)
  by (elim disjE conjE) (simp_all only: category_at_simps category_at_next apply_values c_means.intros)

lemma means_un:
  assumes "op \<in> bytes_of ` {''-'', ''+'', ''~'', ''!''}" "c_means sy Unary_Expr ts x"
  shows "c_means sy Unary_Expr (T_Punct op # ts) (un_value op x)"
proof -
  consider "op = bytes_of ''-''" | "op = bytes_of ''+''" | "op = bytes_of ''~''" | "op = bytes_of ''!''" using assms(1) by auto
  then show ?thesis using assms(2) by cases (simp_all only: un_values c_means.intros)
qed

lemma parse_means:
  "binary f toks sy l at = Ok r \<Longrightarrow> l \<le> 6 \<Longrightarrow> at < snd r \<and> snd r \<le> length toks \<and> c_means sy (category_at l) (seg toks at (snd r)) (fst r)"
  "binary_loop f toks sy l left at = Ok r \<Longrightarrow> l < 6 \<Longrightarrow> s < at \<Longrightarrow> at \<le> length toks \<Longrightarrow> c_means sy (category_at l) (seg toks s at) left \<Longrightarrow>
     at \<le> snd r \<and> snd r \<le> length toks \<and> c_means sy (category_at l) (seg toks s (snd r)) (fst r)"
  "unary f toks sy at = Ok r \<Longrightarrow> at < snd r \<and> snd r \<le> length toks \<and> c_means sy Unary_Expr (seg toks at (snd r)) (fst r)"
  "primary f toks sy at = Ok r \<Longrightarrow> at < snd r \<and> snd r \<le> length toks \<and> c_means sy Primary (seg toks at (snd r)) (fst r)"
proof (induction f toks sy l at and f toks sy l left at and f toks sy at and f toks sy at
    arbitrary: r and r s and r and r rule: binary_binary_loop_unary_primary.induct)
  case (1 f toks sy l at)
  show ?case
  proof (cases "l < 6")
    case True
    then obtain y where y: "binary f toks sy (l + 1) at = Ok y" "binary_loop f toks sy l (fst y) (snd y) = Ok r"
      using "1.prems"(1) by (auto simp: binary.simps [of f toks sy l at] rbind_Ok_iff)
    have h: "at < snd y \<and> snd y \<le> length toks \<and> c_means sy (category_at (l + 1)) (seg toks at (snd y)) (fst y)"
      using "1.IH"(1) [OF _ y(1)] True by simp
    show ?thesis using "1.IH"(2) [OF _ y(1) y(2) True, of at] h True means_up [OF True] by auto
  next
    case False
    then have "l = 6" "unary f toks sy at = Ok r" using "1.prems" by (auto simp: binary_unary)
    then show ?thesis using "1.IH"(3) by simp
  qed
next
  case (2 f toks sy l left at)
  show ?case
  proof (cases "\<exists>op. punct_at toks at = Some op \<and> op \<in> set (PRECEDENCE ! l)")
    case True
    then obtain op where op: "punct_at toks at = Some op" "op \<in> set (PRECEDENCE ! l)" by blast
    then obtain y where y: "binary f toks sy (l + 1) (at + 1) = Ok y" "binary_loop f toks sy l (apply_op op left (fst y)) (snd y) = Ok r"
      using "2.prems"(1) by (auto simp: binary_loop.simps [of f toks sy l left at] rbind_Ok_iff)
    have h: "at + 1 < snd y \<and> snd y \<le> length toks \<and> c_means sy (category_at (l + 1)) (seg toks (at + 1) (snd y)) (fst y)"
      using "2.IH"(1) [OF op y(1)] "2.prems"(2) by simp
    then have "seg toks s (snd y) = seg toks s at @ T_Punct op # seg toks (at + 1) (snd y)"
      using seg_append [of s at "snd y" toks] seg_punct [OF op(1), of "snd y"] "2.prems"(3) by simp
    then have "c_means sy (category_at l) (seg toks s (snd y)) (apply_op op left (fst y))"
      using means_bin [OF "2.prems"(2) op(2) "2.prems"(5)] h by simp
    then show ?thesis using "2.IH"(2) [OF op y "2.prems"(2), of s] h "2.prems"(3) by auto
  next
    case False
    then have "r = (left, at)" using "2.prems"(1) by (auto simp: binary_loop.simps [of f toks sy l left at] split: option.splits if_splits)
    then show ?thesis using "2.prems" by simp
  qed
next
  case (3 f toks sy at)
  let ?is = "\<lambda>c. punct_at toks at = Some (bytes_of c)"
  have op: ?case if "op \<in> bytes_of ` {''-'', ''+'', ''~'', ''!''}" "punct_at toks at = Some op" "unary f toks sy (at + 1) = Ok y" "r = (un_value op (fst y), snd y)"
      "at + 1 < snd y \<and> snd y \<le> length toks \<and> c_means sy Unary_Expr (seg toks (at + 1) (snd y)) (fst y)" for op y
    using that means_un [OF that(1)] seg_punct [OF that(2), of "snd y"] by simp
  note e = "3.prems" [unfolded unary.simps [of f toks sy at]]
  consider (neg) "?is ''-''" | (pos) "\<not> ?is ''-''" "?is ''+''" | (inv) "\<not> ?is ''-''" "\<not> ?is ''+''" "?is ''~''"
    | (no) "\<not> ?is ''-''" "\<not> ?is ''+''" "\<not> ?is ''~''" "?is ''!''"
    | (prim) "\<not> ?is ''-''" "\<not> ?is ''+''" "\<not> ?is ''~''" "\<not> ?is ''!''" by blast
  then show ?case
  proof cases
    case neg
    then obtain y where y: "unary f toks sy (at + 1) = Ok y" "r = (- fst y, snd y)" using e by (auto simp: rbind_Ok_iff)
    show ?thesis using op [OF _ neg y(1)] y(2) "3.IH"(1) [OF neg y(1)] by (simp add: un_value_def)
  next
    case pos
    then have y: "unary f toks sy (at + 1) = Ok r" using e by simp
    show ?thesis using op [OF _ pos(2) y] "3.IH"(2) [OF pos y] by (simp add: un_values)
  next
    case inv
    then obtain y where y: "unary f toks sy (at + 1) = Ok y" "r = (NOT (fst y), snd y)" using e by (auto simp: rbind_Ok_iff)
    show ?thesis using op [OF _ inv(3) y(1)] y(2) "3.IH"(3) [OF inv y(1)] by (simp add: un_value_def bytes_of_def)
  next
    case no
    then obtain y where y: "unary f toks sy (at + 1) = Ok y" "r = (of_bool (fst y = 0), snd y)" using e by (auto simp: rbind_Ok_iff)
    show ?thesis using op [OF _ no(4) y(1)] y(2) "3.IH"(4) [OF no y(1)] by (simp add: un_value_def bytes_of_def)
  next
    case prim
    then have "primary f toks sy at = Ok r" using e by simp
    then show ?thesis using "3.IH"(5) [OF prim] by (auto intro: primary_unary)
  qed
next
  case (4 f toks sy at)
  obtain t where t: "tok_get toks at = Some t" "at < length toks"
    using "4.prems" by (auto simp: primary.simps [of f toks sy at] tok_get_def split: if_splits)
  note e = "4.prems" [unfolded primary.simps [of f toks sy at] t(1) option.case]
  show ?case
  proof (cases "tok_token t = punct ''(''")
    case True
    then obtain y c where y: "binary f toks sy 0 (at + 1) = Ok y" "tok_get toks (snd y) = Some c" "tok_token c = punct '')''" "r = (fst y, snd y + 1)"
      using e by (auto simp: rbind_Ok_iff split: option.splits if_splits)
    have h: "at + 1 < snd y \<and> snd y \<le> length toks \<and> c_means sy Or_Expr (seg toks (at + 1) (snd y)) (fst y)"
      using "4.IH" [OF t(1) True refl y(1)] by simp
    then have "seg toks at (snd y + 1) = punct ''('' # seg toks (at + 1) (snd y) @ [punct '')'']"
      using seg_Cons [OF t(1), of "snd y + 1"] seg_append [of "at + 1" "snd y" "snd y + 1" toks] seg_one [OF y(2)] True y(3) by simp
    then show ?thesis using h parens [of sy "seg toks (at + 1) (snd y)" "fst y"] y(2,4) by (auto dest: tok_get_less)
  next
    case False
    then show ?thesis using e t seg_one [OF t(1)]
      by (auto simp: rbind_Ok_iff symbol_value_def split: token.splits if_splits option.splits intro: number name)
  qed
qed

text \<open>
  The evaluator and the grammar agree: a token list is evaluated exactly when it is an expression, to the value the
  grammar gives it.
\<close>

lemma eval_means: "eval_expr f toks sy = Ok v \<longleftrightarrow> c_means sy Or_Expr (map tok_token toks) v"
proof
  assume "eval_expr f toks sy = Ok v"
  then obtain r where r: "binary f toks sy 0 0 = Ok r" "v = fst r" "tok_get toks (snd r) = None"
    by (auto simp: eval_expr_def rbind_Ok_iff split: option.splits)
  then have "snd r = length toks" using parse_means(1) [OF r(1)] by (auto simp: tok_get_def split: if_splits)
  then show "c_means sy Or_Expr (map tok_token toks) v" using parse_means(1) [OF r(1)] r(2) by (simp add: seg_def)
next
  assume "c_means sy Or_Expr (map tok_token toks) v"
  then obtain e where "fits 0 e" "cval sy e = Some v" "print_expr e = map tok_token toks" using means_tree by fastforce
  then show "eval_expr f toks sy = Ok v" using eval_print by metis
qed

section \<open>Constant expressions in text\<close>

lemma placed_tokens: "map tok_token (placed l items) = map fst items"
  by (induction l items rule: placed.induct) auto

text \<open>
  C34: Constant expressions mean what C says.  Take any text of tokens, with white space and comments between them or
  nothing where none is needed: lexing and evaluating it succeeds exactly when C's expression grammar derives those tokens,
  and gives the value of the derivation.  Or, xor, and, shifts, sums and products bind in that order, each to the left,
  unary operators bind tightest, arithmetic wraps at 64 bits, a shift takes its amount modulo 64, and a division that C
  leaves undefined is 0.
\<close>

theorem constant_text_value:
  assumes "trivia start" "layout_ok items"
  shows "rbind (lex f (start @ laid_out items)) (\<lambda>toks. eval_expr f toks sy) = Ok v \<longleftrightarrow> c_means sy Or_Expr (map fst items) v"
proof -
  have "lex f (start @ laid_out items) = Ok (placed (1 + newlines start) items)"
    unfolding lex_def by (rule lex_run_laid_out [OF assms])
  then show ?thesis by (simp add: eval_means placed_tokens)
qed

text \<open>\<open>1|2<<3\<close> is 17.\<close>

theorem constant_text_value_witness:
  "rbind (lex [] ([] @ [49, 124, 50, 60, 60, 51])) (\<lambda>toks. eval_expr [] toks symbols_new) = Ok 17"
proof -
  let ?items = "[(T_Int 1, []), (T_Punct [124], []), (T_Int 2, []), (T_Punct [60, 60], []), (T_Int 3, [])] :: (token \<times> ctext) list"
  have ok: "layout_ok ?items"
    by (simp add: laid_out_def trivia_Nil DIGRAPHS_def bytes_of_def lone_punct_def white_cases is_alnum_def is_ascii_digit_def
        to_decimal.simps digit_byte_def)
  have n: "c_means symbols_new Multiplicative [T_Int k] k" for k by (intro mul_unary primary_unary number)
  have "c_means symbols_new Shift_Expr ([T_Int 2] @ punct ''<<'' # [T_Int 3]) (word_of_int (sint (2 :: i64) * 2 ^ (unat (3 :: i64) mod 64)))"
    by (intro shift_left shift_add add_mul n)
  then have "c_means symbols_new Or_Expr ([T_Int 1] @ punct ''|'' # [T_Int 2] @ punct ''<<'' # [T_Int 3]) (1 OR word_of_int (sint (2 :: i64) * 2 ^ (unat (3 :: i64) mod 64)))"
    by (intro bit_or or_xor [OF xor_and [OF and_shift [OF shift_add [OF add_mul [OF n]]]]] xor_and and_shift)
  then have "c_means symbols_new Or_Expr (map fst ?items) 17" by (simp add: bytes_of_def)
  then show ?thesis using constant_text_value [OF trivia_Nil ok, of "[]" symbols_new 17]
    by (simp add: laid_out_def to_decimal.simps digit_byte_def)
qed

end
