(* ===== verification/C_Symbols.thy ===== *)
theory C_Symbols
  imports C_Grammar
begin

text \<open>
  The constants of the C source reader, \<open>native/src/csource/symbols.rs\<close>: collecting \<open>#define\<close>s and
  enumerator lists, and resolving them in rounds until one makes no progress.
\<close>

section \<open>Collecting definitions\<close>

definition is_punct :: "tok list \<Rightarrow> nat \<Rightarrow> string \<Rightarrow> bool" where
  "is_punct toks at p \<longleftrightarrow> map_option tok_token (tok_get toks at) = Some (T_Punct (bytes_of p))"

definition is_ident :: "tok list \<Rightarrow> nat \<Rightarrow> bool" where
  "is_ident toks at \<longleftrightarrow> (case tok_get toks at of Some t \<Rightarrow> (case tok_token t of T_Ident _ \<Rightarrow> True | _ \<Rightarrow> False) | None \<Rightarrow> False)"

definition push_pending :: "symbols \<Rightarrow> ctext \<Rightarrow> pending \<Rightarrow> symbols" where
  "push_pending sy name d = sy\<lparr>sy_pending := sy_pending sy @ [(name, d)]\<rparr>"

definition absorb_define :: "ctext \<Rightarrow> ctext \<Rightarrow> symbols \<Rightarrow> symbols" where
  "absorb_define f body sy =
     (if \<not> starts_with (bytes_of ''define '') body then sy
      else let rest = str_trim_start (drop 7 body);
               n = find_byte (\<lambda>c. \<not> (c = 95 \<or> is_alnum c)) rest;
               name = take n rest; tail = drop n rest
           in if name = [] \<or> starts_with [40] tail \<or> str_trim tail = [] then sy
              else push_pending sy name (P_Define f (str_trim tail)))"

text \<open>The next separator outside brackets; the depth is a 32-bit counter.\<close>

function skip_to_separator :: "tok list \<Rightarrow> nat \<Rightarrow> i32 \<Rightarrow> nat" where
  "skip_to_separator toks at depth =
     (case tok_get toks at of
        None \<Rightarrow> at
      | Some t \<Rightarrow>
          if tok_token t \<in> T_Punct ` bytes_of ` {''('', ''['', ''{''} then skip_to_separator toks (at + 1) (depth + 1)
          else if tok_token t \<in> T_Punct ` bytes_of ` {'')'', '']''} then skip_to_separator toks (at + 1) (depth - 1)
          else if tok_token t = T_Punct (bytes_of ''}'') then
            (if depth = 0 then at else skip_to_separator toks (at + 1) (depth - 1))
          else if tok_token t = T_Punct (bytes_of '','') \<and> depth = 0 then at
          else skip_to_separator toks (at + 1) depth)"
  by pat_completeness auto
termination by (relation "measure (\<lambda>(toks, at, d). length toks - at)") (auto dest: tok_get_less)

declare skip_to_separator.simps [simp del]

lemma skip_to_separator_ge: "at \<le> skip_to_separator toks at depth"
proof (induction toks at depth rule: skip_to_separator.induct)
  case (1 toks at depth)
  show ?case by (subst skip_to_separator.simps) (use 1 in \<open>auto split: option.split dest: Suc_leD\<close>)
qed

text \<open>The enumerators of a list, up to the index past its closing brace.\<close>

function enum_loop :: "ctext \<Rightarrow> tok list \<Rightarrow> nat \<Rightarrow> ctext option \<Rightarrow> symbols \<Rightarrow> symbols \<times> nat" where
  "enum_loop f toks at previous sy =
     (case tok_get toks at of
        None \<Rightarrow> (sy, at)
      | Some t \<Rightarrow>
          (case tok_token t of
             T_Ident name \<Rightarrow>
               let at1 = at + 1;
                   explicit = is_punct toks at1 ''='';
                   stop = (if explicit then skip_to_separator toks (at1 + 1) 0 else at1);
                   definition = (if explicit then P_Value f (take (stop - (at1 + 1)) (drop (at1 + 1) toks))
                                 else (case previous of Some before \<Rightarrow> P_After before | None \<Rightarrow> P_Zero));
                   next = (if is_punct toks stop '','' then stop + 1 else stop)
               in enum_loop f toks next (Some name) (push_pending sy name definition)
           | _ \<Rightarrow> (sy, at + 1)))"
  by pat_completeness auto
termination
proof (relation "measure (\<lambda>(f, toks, at, p, sy). length toks - at)", goal_cases)
  case (2 f toks at previous sy t name at1 explicit stop d nx)
  have "at < length toks" using 2(1) by (rule tok_get_less)
  moreover have "at1 \<le> stop" using 2 skip_to_separator_ge [of "at1 + 1" toks 0] by (auto split: if_splits)
  ultimately have "length toks - nx < length toks - at" using 2(3,7) by (auto split: if_splits)
  then show ?case by simp
qed simp

declare enum_loop.simps [simp del]

definition absorb_enum :: "ctext \<Rightarrow> tok list \<Rightarrow> nat \<Rightarrow> symbols \<Rightarrow> symbols \<times> nat" where
  "absorb_enum f toks at sy =
     (let at1 = (if is_ident toks at then at + 1 else at) in
      if is_punct toks at1 ''{'' then enum_loop f toks (at1 + 1) None sy else (sy, at1))"

lemma enum_loop_ge: "at \<le> snd (enum_loop f toks at previous sy)"
proof (induction f toks at previous sy rule: enum_loop.induct)
  case (1 f toks at previous sy)
  show ?case
  proof (cases "\<exists>t name. tok_get toks at = Some t \<and> tok_token t = T_Ident name")
    case True
    then obtain t name where t: "tok_get toks at = Some t" "tok_token t = T_Ident name" by blast
    note ih = 1 [OF t refl refl refl refl refl]
    show ?thesis using ih t skip_to_separator_ge [of "at + 2" toks 0]
      by (subst enum_loop.simps) (auto simp: Let_def split: if_splits)
  next
    case False
    then show ?thesis by (subst enum_loop.simps) (auto split: option.split token.split)
  qed
qed

lemma absorb_enum_ge: "at \<le> snd (absorb_enum f toks at sy)"
  using enum_loop_ge [of "at + 1" f toks None sy] enum_loop_ge [of "at + 2" f toks None sy]
  by (auto simp: absorb_enum_def Let_def)

function absorb_loop :: "ctext \<Rightarrow> tok list \<Rightarrow> nat \<Rightarrow> symbols \<Rightarrow> symbols" where
  "absorb_loop f toks at sy =
     (if at < length toks then
        (case tok_token (toks ! at) of
           T_Directive body \<Rightarrow> absorb_loop f toks (at + 1) (absorb_define f body sy)
         | T_Ident name \<Rightarrow>
             if name = bytes_of ''enum''
             then let r = absorb_enum f toks (at + 1) sy in absorb_loop f toks (snd r) (fst r)
             else absorb_loop f toks (at + 1) sy
         | _ \<Rightarrow> absorb_loop f toks (at + 1) sy)
      else sy)"
  by pat_completeness auto
termination
proof (relation "measure (\<lambda>(f, toks, at, sy). length toks - at)", goal_cases)
  case (2 f toks at sy name r)
  then show ?case using absorb_enum_ge [of "at + 1" f toks sy] by auto
qed auto

declare absorb_loop.simps [simp del]

definition absorb :: "ctext \<Rightarrow> tok list \<Rightarrow> symbols \<Rightarrow> symbols" where
  "absorb f toks sy = absorb_loop f toks 0 sy"

section \<open>Resolving\<close>

fun result_ok :: "('a, 'e) rresult \<Rightarrow> ('a option, 'e) rresult" where
  "result_ok (Ok x) = Ok (Some x)"
| "result_ok (Err e) = Ok None"
| "result_ok Panic = Panic"

fun evaluate :: "symbols \<Rightarrow> pending \<Rightarrow> (i64 option, c_error) rresult" where
  "evaluate sy P_Zero = Ok (Some 0)"
| "evaluate sy (P_After before) = Ok (map_option (\<lambda>v. v + 1) (symbols_get sy before))"
| "evaluate sy (P_Value f toks) = result_ok (eval_expr f toks sy)"
| "evaluate sy (P_Define f body) = rbind (lex f body) (\<lambda>toks. result_ok (eval_expr f toks sy))"

definition define_symbol :: "symbols \<Rightarrow> ctext \<Rightarrow> i64 \<Rightarrow> symbols" where
  "define_symbol sy name v =
     (if name \<in> sy_ambiguous sy then sy
      else (case sy_values sy name of
              Some first \<Rightarrow> if first \<noteq> v
                then sy\<lparr>sy_values := (sy_values sy)(name := None), sy_ambiguous := insert name (sy_ambiguous sy)\<rparr>
                else sy\<lparr>sy_values := (sy_values sy)(name \<mapsto> v)\<rparr>
            | None \<Rightarrow> sy\<lparr>sy_values := (sy_values sy)(name \<mapsto> v)\<rparr>))"

text \<open>One round: how many definitions resolved, and the ones put off.\<close>

fun resolve_round :: "symbols \<Rightarrow> (ctext \<times> pending) list \<Rightarrow> (nat \<times> (ctext \<times> pending) list, c_error) rresult \<times> symbols" where
  "resolve_round sy [] = (Ok (0, []), sy)"
| "resolve_round sy ((name, d) # ds) =
     (case evaluate sy d of
        Ok (Some v) \<Rightarrow> (case resolve_round (define_symbol sy name v) ds of
            (Ok (n, deferred), sy') \<Rightarrow> (Ok (n + 1, deferred), sy')
          | (Err e, sy') \<Rightarrow> (Err e, sy') | (Panic, sy') \<Rightarrow> (Panic, sy'))
      | Ok None \<Rightarrow> (case resolve_round sy ds of
            (Ok (n, deferred), sy') \<Rightarrow> (Ok (n, (name, d) # deferred), sy')
          | (Err e, sy') \<Rightarrow> (Err e, sy') | (Panic, sy') \<Rightarrow> (Panic, sy'))
      | Err e \<Rightarrow> (Err e, sy)
      | Panic \<Rightarrow> (Panic, sy))"

lemma resolve_round_length: "resolve_round sy ds = (Ok (n, deferred), sy') \<Longrightarrow> n + length deferred = length ds"
  by (induction sy ds arbitrary: n deferred sy' rule: resolve_round.induct)
    (auto split: rresult.splits option.splits prod.splits)

function resolve :: "symbols \<Rightarrow> (unit, c_error) rresult \<times> symbols" where
  "resolve sy =
     (if sy_pending sy = [] then (Ok (), sy)
      else (case resolve_round (sy\<lparr>sy_pending := []\<rparr>) (sy_pending sy) of
              (Ok x, sy') \<Rightarrow> if fst x = 0 then (Ok (), sy') else resolve (sy'\<lparr>sy_pending := snd x\<rparr>)
            | (Err e, sy') \<Rightarrow> (Err e, sy')
            | (Panic, sy') \<Rightarrow> (Panic, sy')))"
  by pat_completeness auto
termination
proof (relation "measure (\<lambda>sy. length (sy_pending sy))", goal_cases)
  case (2 sy r sy' x)
  then have "fst x + length (snd x) = length (sy_pending sy)"
    using resolve_round_length [of "sy\<lparr>sy_pending := []\<rparr>" "sy_pending sy" "fst x" "snd x" sy'] by simp
  then show ?case using 2 by simp
qed simp

declare resolve.simps [simp del]

section \<open>The invariant\<close>

text \<open>A name is given a value or is ambiguous, never both.\<close>

definition symbols_ok :: "symbols \<Rightarrow> bool" where
  "symbols_ok sy \<longleftrightarrow> (\<forall>name\<in>sy_ambiguous sy. sy_values sy name = None)"

definition same_table :: "symbols \<Rightarrow> symbols \<Rightarrow> bool" where
  "same_table sy sy' \<longleftrightarrow> sy_values sy' = sy_values sy \<and> sy_ambiguous sy' = sy_ambiguous sy"

lemma same_table_trans: "same_table a b \<Longrightarrow> same_table b c \<Longrightarrow> same_table a c"
  by (simp add: same_table_def)

lemma push_pending_table:
  "same_table sy (push_pending sy name d)" "same_table (push_pending sy name d) x \<longleftrightarrow> same_table sy x"
  by (simp_all add: same_table_def push_pending_def)

lemma absorb_define_table: "same_table sy (absorb_define f body sy)"
  using push_pending_table by (simp add: absorb_define_def Let_def same_table_def)

lemma enum_loop_table: "same_table sy (fst (enum_loop f toks at previous sy))"
proof (induction f toks at previous sy rule: enum_loop.induct)
  case (1 f toks at previous sy)
  show ?case
  proof (cases "\<exists>t name. tok_get toks at = Some t \<and> tok_token t = T_Ident name")
    case True
    then obtain t name where t: "tok_get toks at = Some t" "tok_token t = T_Ident name" by blast
    show ?thesis using 1 [OF t refl refl refl refl refl] t
      by (subst enum_loop.simps) (auto simp: Let_def push_pending_table)
  next
    case False
    then show ?thesis by (subst enum_loop.simps) (auto simp: same_table_def split: option.split token.split)
  qed
qed

lemma absorb_enum_table: "same_table sy (fst (absorb_enum f toks at sy))"
  using enum_loop_table by (auto simp: absorb_enum_def Let_def same_table_def)

lemma absorb_loop_table: "same_table sy (absorb_loop f toks at sy)"
proof (induction f toks at sy rule: absorb_loop.induct)
  case (1 f toks at sy)
  show ?case
  proof (cases "at < length toks")
    case True
    show ?thesis
    proof (cases "tok_token (toks ! at)")
      case (T_Ident name)
      show ?thesis
      proof (cases "name = bytes_of ''enum''")
        case en: True
        note ih = 1(1) [OF True T_Ident en refl]
        show ?thesis using True T_Ident en same_table_trans [OF absorb_enum_table ih]
          by (subst absorb_loop.simps) (simp add: Let_def)
      next
        case False
        then show ?thesis using True T_Ident 1(2) [OF True T_Ident False] by (subst absorb_loop.simps) simp
      qed
    next
      case (T_Directive body)
      then show ?thesis using True same_table_trans [OF absorb_define_table 1(6) [OF True T_Directive]]
        by (subst absorb_loop.simps) simp
    qed (use True 1 in \<open>subst absorb_loop.simps, simp\<close>)+
  next
    case False
    then show ?thesis by (subst absorb_loop.simps) (simp add: same_table_def)
  qed
qed

text \<open>Defining keeps the invariant and never makes an ambiguous name good again.\<close>

definition grows :: "symbols \<Rightarrow> symbols \<Rightarrow> bool" where
  "grows sy sy' \<longleftrightarrow> (symbols_ok sy \<longrightarrow> symbols_ok sy') \<and> sy_ambiguous sy \<subseteq> sy_ambiguous sy' \<and> sy_pending sy' = sy_pending sy"

lemma grows_trans: "grows a b \<Longrightarrow> grows b c \<Longrightarrow> grows a c"
  by (auto simp: grows_def)

lemma define_grows: "grows sy (define_symbol sy name v)"
  by (auto simp: grows_def define_symbol_def symbols_ok_def split: option.split)

lemma round_grows: "grows sy (snd (resolve_round sy ds))"
proof (induction sy ds rule: resolve_round.induct)
  case (2 sy name d ds)
  have s: "grows sy sy" by (simp add: grows_def)
  show ?case
  proof (cases "evaluate sy d")
    case (Ok w)
    show ?thesis
    proof (cases w)
      case None
      obtain r sy' where r: "resolve_round sy ds = (r, sy')" by fastforce
      then have "grows sy sy'" using 2(1) [OF Ok None] by simp
      then show ?thesis using Ok None r by (cases r) auto
    next
      case (Some v)
      obtain r sy' where r: "resolve_round (define_symbol sy name v) ds = (r, sy')" by fastforce
      then have "grows sy sy'" using grows_trans [OF define_grows 2(2) [OF Ok Some]] by simp
      then show ?thesis using Ok Some r by (cases r) auto
    qed
  qed (use s in simp_all)
qed (simp add: grows_def)

lemma resolve_grows:
  "(symbols_ok sy \<longrightarrow> symbols_ok (snd (resolve sy))) \<and> sy_ambiguous sy \<subseteq> sy_ambiguous (snd (resolve sy)) \<and>
   sy_pending (snd (resolve sy)) = []"
proof (induction sy rule: resolve.induct)
  case (1 sy)
  show ?case
  proof (cases "sy_pending sy = []")
    case True
    then show ?thesis by (simp add: resolve.simps)
  next
    case False
    obtain r sy' where r: "resolve_round (sy\<lparr>sy_pending := []\<rparr>) (sy_pending sy) = (r, sy')" by fastforce
    have g: "symbols_ok sy \<longrightarrow> symbols_ok sy'" "sy_ambiguous sy \<subseteq> sy_ambiguous sy'" "sy_pending sy' = []"
      using round_grows [of "sy\<lparr>sy_pending := []\<rparr>" "sy_pending sy"] r by (auto simp: grows_def symbols_ok_def)
    show ?thesis
    proof (cases r)
      case (Ok x)
      show ?thesis
      proof (cases "fst x = 0")
        case True
        then show ?thesis using False r Ok g by (subst (1 2 3) resolve.simps) simp
      next
        case n: False
        have "(symbols_ok sy' \<longrightarrow> symbols_ok (snd (resolve (sy'\<lparr>sy_pending := snd x\<rparr>)))) \<and>
            sy_ambiguous sy' \<subseteq> sy_ambiguous (snd (resolve (sy'\<lparr>sy_pending := snd x\<rparr>))) \<and>
            sy_pending (snd (resolve (sy'\<lparr>sy_pending := snd x\<rparr>))) = []"
          using 1 [OF False r [symmetric] Ok n] by (simp add: symbols_ok_def)
        moreover have "resolve sy = resolve (sy'\<lparr>sy_pending := snd x\<rparr>)"
          using False r Ok n by (subst resolve.simps) simp
        ultimately show ?thesis using g by auto
      qed
    next
      case (Err e)
      then show ?thesis using False r g by (subst (1 2 3) resolve.simps) simp
    next
      case Panic
      then show ?thesis using False r g by (subst (1 2 3) resolve.simps) simp
    qed
  qed
qed

text \<open>The tables a reader can have: a new one, after absorbing tokens, after resolving.\<close>

inductive symbols_reach :: "symbols \<Rightarrow> bool" where
  reach_new: "symbols_reach symbols_new"
| reach_absorb: "symbols_reach sy \<Longrightarrow> symbols_reach (absorb f toks sy)"
| reach_resolve: "symbols_reach sy \<Longrightarrow> symbols_reach (snd (resolve sy))"

lemma reach_ok: "symbols_reach sy \<Longrightarrow> symbols_ok sy"
proof (induction rule: symbols_reach.induct)
  case (reach_absorb sy f toks)
  then show ?case using absorb_loop_table [of sy f toks 0] by (simp add: absorb_def symbols_ok_def same_table_def)
qed (simp_all add: symbols_ok_def symbols_new_def resolve_grows [unfolded symbols_ok_def])

text \<open>
  C35: No guessing between two values.  In every table that absorbing and resolving can lead to, a name
  that has a value is not ambiguous; resolving always comes to an end with nothing left pending, and a
  name once ambiguous stays ambiguous, so no later definition gives it a value.
\<close>

theorem symbols_invariant:
  assumes "symbols_reach sy"
  shows "\<not> (symbols_get sy name \<noteq> None \<and> is_ambiguous sy name) \<and>
    sy_pending (snd (resolve sy)) = [] \<and>
    (is_ambiguous sy name \<longrightarrow> is_ambiguous (snd (resolve sy)) name \<and> symbols_get (snd (resolve sy)) name = None)"
proof -
  have "symbols_ok sy" "symbols_ok (snd (resolve sy))"
    using reach_ok assms reach_resolve by blast+
  then show ?thesis using resolve_grows [of sy] by (auto simp: symbols_ok_def symbols_get_def is_ambiguous_def)
qed

theorem symbols_invariant_witness: "\<not> (symbols_get symbols_new [75] \<noteq> None \<and> is_ambiguous symbols_new [75])"
  using symbols_invariant [OF reach_new] by blast

section \<open>Enumerator lists\<close>

text \<open>An enumerator list as it is written, each enumerator with its expression if it has one.\<close>

type_synonym enumerators = "(ctext \<times> cexpr option) list"

fun enum_tokens :: "enumerators \<Rightarrow> token list" where
  "enum_tokens [] = [T_Punct (bytes_of ''}'')]"
| "enum_tokens ((name, None) # es) = [T_Ident name, T_Punct (bytes_of '','')] @ enum_tokens es"
| "enum_tokens ((name, Some e) # es) = [T_Ident name, T_Punct (bytes_of ''='')] @ print_expr e @ [T_Punct (bytes_of '','')] @ enum_tokens es"

text \<open>What C gives each: its expression, or one more than the enumerator before it, or zero for the first.\<close>

fun enum_value :: "symbols \<Rightarrow> ctext option \<Rightarrow> cexpr option \<Rightarrow> i64 option" where
  "enum_value sy prev (Some e) = cval sy e"
| "enum_value sy (Some p) None = map_option (\<lambda>v. v + 1) (symbols_get sy p)"
| "enum_value sy None None = Some 0"

fun enum_env :: "symbols \<Rightarrow> ctext option \<Rightarrow> enumerators \<Rightarrow> symbols option" where
  "enum_env sy prev [] = Some sy"
| "enum_env sy prev ((name, e) # es) =
     Option.bind (enum_value sy prev e) (\<lambda>v. enum_env (sy\<lparr>sy_values := (sy_values sy)(name \<mapsto> v)\<rparr>) (Some name) es)"

text \<open>No token of an expression ends the search for a separator.\<close>

lemma skip_step:
  assumes "holds toks at (t # ts)" "t \<notin> T_Punct ` bytes_of ` {''('', ''['', ''{'', '')'', '']'', ''}'', '',''}"
  shows "skip_to_separator toks at depth = skip_to_separator toks (at + 1) depth"
  using assms by (subst skip_to_separator.simps) (auto simp: holds_Cons)

lemma skip_open:
  assumes "holds toks at (T_Punct (bytes_of ''('') # ts)"
  shows "skip_to_separator toks at depth = skip_to_separator toks (at + 1) (depth + 1)"
  using assms by (subst skip_to_separator.simps) (auto simp: holds_Cons)

lemma skip_close:
  assumes "holds toks at (T_Punct (bytes_of '')'') # ts)"
  shows "skip_to_separator toks at depth = skip_to_separator toks (at + 1) (depth - 1)"
  using assms by (subst skip_to_separator.simps) (auto simp: holds_Cons bytes_of_def)

lemma skip_comma:
  assumes "holds toks at (T_Punct (bytes_of '','') # ts)"
  shows "skip_to_separator toks at 0 = at"
  using assms by (subst skip_to_separator.simps) (auto simp: holds_Cons bytes_of_def)

lemma operator_plain:
  assumes "op \<in> bytes_of ` {''-'', ''+'', ''~'', ''!''} \<or> k < 6 \<and> op \<in> set (PRECEDENCE ! k)"
  shows "T_Punct op \<notin> T_Punct ` bytes_of ` {''('', ''['', ''{'', '')'', '']'', ''}'', '',''}"
  using assms by (auto simp: bytes_of_def PRECEDENCE_nth PRECEDENCE_nth(2) [simplified] dest!: level_cases)

lemma skip_expr:
  assumes "fits l e" "holds toks at (print_expr e)"
  shows "skip_to_separator toks at depth = skip_to_separator toks (at + length (print_expr e)) depth"
  using assms
proof (induction e arbitrary: l at depth)
  case (C_Num v)
  then show ?case using skip_step [of toks at "T_Int v" "[]"] by auto
next
  case (C_Name s)
  then show ?case using skip_step [of toks at "T_Ident s" "[]"] by auto
next
  case (C_Paren e)
  let ?n = "length (print_expr e)"
  have h: "holds toks at [T_Punct (bytes_of ''('')]" "holds toks (at + 1) (print_expr e)"
      "holds toks (at + 1 + ?n) [T_Punct (bytes_of '')'')]"
    using C_Paren.prems(2) unfolding print_expr.simps holds_append by simp_all
  show ?case using skip_open [OF h(1)] C_Paren.IH [OF _ h(2), of 0 "depth + 1"] skip_close [OF h(3)] C_Paren.prems(1) by simp
next
  case (C_Un op e)
  have h: "holds toks (at + 1) (print_expr e)" using C_Un.prems(2) by (simp add: holds_Cons)
  have "skip_to_separator toks at depth = skip_to_separator toks (at + 1) depth"
    using C_Un.prems operator_plain [of op 0] by (intro skip_step) auto
  then show ?case using C_Un.IH [OF _ h, of 6 depth] C_Un.prems(1) by simp
next
  case (C_Bin k op a b)
  let ?m = "at + length (print_expr a)"
  have h: "holds toks at (print_expr a)" "holds toks ?m (T_Punct op # print_expr b)"
    using C_Bin.prems(2) unfolding print_expr.simps holds_append by simp_all
  then have hb: "holds toks (?m + 1) (print_expr b)" by (simp add: holds_Cons)
  have "skip_to_separator toks ?m depth = skip_to_separator toks (?m + 1) depth"
    using C_Bin.prems(1) operator_plain [of op k] by (intro skip_step [OF h(2)]) auto
  then show ?case using C_Bin.IH(1) [OF _ h(1), of k depth] C_Bin.IH(2) [OF _ hb, of "k + 1" depth] C_Bin.prems(1) by (simp add: add.assoc)
qed

fun pending_of :: "ctext option \<Rightarrow> cexpr option \<Rightarrow> pending \<Rightarrow> bool" where
  "pending_of prev (Some e) (P_Value f ts) = (map tok_token ts = print_expr e)"
| "pending_of (Some p) None (P_After q) = (p = q)"
| "pending_of None None P_Zero = True"
| "pending_of prev e d = False"

fun enum_pending :: "ctext option \<Rightarrow> enumerators \<Rightarrow> (ctext \<times> pending) list \<Rightarrow> bool" where
  "enum_pending prev [] ds = (ds = [])"
| "enum_pending prev ((name, e) # es) [] = False"
| "enum_pending prev ((name, e) # es) ((name', d) # ds) = (name = name' \<and> pending_of prev e d \<and> enum_pending (Some name) es ds)"

lemma enum_loop_pending:
  assumes "holds toks at (enum_tokens es)" "\<forall>(name, e)\<in>set es. \<forall>x. e = Some x \<longrightarrow> fits 0 x"
  shows "\<exists>ds. enum_loop f toks at prev sy = (sy\<lparr>sy_pending := sy_pending sy @ ds\<rparr>, at + length (enum_tokens es)) \<and> enum_pending prev es ds"
  using assms
proof (induction es arbitrary: at prev sy)
  case Nil
  then show ?case by (subst enum_loop.simps) (auto simp: holds_Cons)
next
  case (Cons x es)
  obtain name e where x: "x = (name, e)" by fastforce
  show ?case
  proof (cases e)
    case None
    let ?d = "case prev of Some before \<Rightarrow> P_After before | None \<Rightarrow> P_Zero"
    have h: "holds toks at [T_Ident name]" "holds toks (at + 1) [T_Punct (bytes_of '','')]" "holds toks (at + 2) (enum_tokens es)"
      using Cons.prems(1) x None by (auto simp: holds_Cons holds_Nil holds_append dest: tok_get_less)
    have p: "\<not> is_punct toks (at + 1) ''=''" "is_punct toks (at + 1) '',''"
      using h(2) by (auto simp: is_punct_def holds_Cons bytes_of_def)
    have e: "enum_loop f toks at prev sy = enum_loop f toks (at + 2) (Some name) (push_pending sy name ?d)"
      using h(1) p by (subst enum_loop.simps) (auto simp: holds_Cons Let_def)
    obtain ds where "enum_loop f toks (at + 2) (Some name) (push_pending sy name ?d) =
        ((push_pending sy name ?d)\<lparr>sy_pending := sy_pending (push_pending sy name ?d) @ ds\<rparr>, at + 2 + length (enum_tokens es))"
        "enum_pending (Some name) es ds"
      using Cons.IH [OF h(3), of "Some name" "push_pending sy name ?d"] Cons.prems(2) by auto
    moreover have "pending_of prev None ?d" by (cases prev) auto
    ultimately show ?thesis using e x None
      by (intro exI [of _ "(name, ?d) # ds"]) (simp add: push_pending_def)
  next
    case (Some c)
    let ?n = "length (print_expr c)" and ?d = "P_Value f (take (length (print_expr c)) (drop (at + 2) toks))"
    have h: "holds toks at [T_Ident name]" "holds toks (at + 1) [T_Punct (bytes_of ''='')]" "holds toks (at + 2) (print_expr c)"
        "holds toks (at + 2 + ?n) [T_Punct (bytes_of '','')]" "holds toks (at + 3 + ?n) (enum_tokens es)"
      using Cons.prems(1) x Some by (auto simp: holds_Cons holds_Nil holds_append numeral_3_eq_3 dest: tok_get_less)
    have fc: "fits 0 c" using Cons.prems(2) x Some by auto
    have sk: "skip_to_separator toks (at + 1 + 1) 0 = at + 2 + ?n"
      using skip_expr [OF fc h(3), of 0] skip_comma [OF h(4)] by simp
    have p: "is_punct toks (at + 1) ''=''" "is_punct toks (at + 2 + ?n) '',''"
      using h(2,4) by (auto simp: is_punct_def holds_Cons)
    have e: "enum_loop f toks at prev sy = enum_loop f toks (at + 3 + ?n) (Some name) (push_pending sy name ?d)"
      using h(1) p sk by (subst enum_loop.simps) (auto simp: holds_Cons Let_def numeral_3_eq_3)
    obtain ds where "enum_loop f toks (at + 3 + ?n) (Some name) (push_pending sy name ?d) =
        ((push_pending sy name ?d)\<lparr>sy_pending := sy_pending (push_pending sy name ?d) @ ds\<rparr>, at + 3 + ?n + length (enum_tokens es))"
        "enum_pending (Some name) es ds"
      using Cons.IH [OF h(5), of "Some name" "push_pending sy name ?d"] Cons.prems(2) by auto
    moreover have "pending_of prev (Some c) ?d" using h(3) by (simp add: holds_def)
    ultimately show ?thesis using e x Some
      by (intro exI [of _ "(name, ?d) # ds"]) (simp add: push_pending_def)
  qed
qed

lemma resolve_round_enum:
  assumes "enum_pending prev es ds" "enum_env sy prev es = Some sy'" "\<forall>(name, e)\<in>set es. \<forall>x. e = Some x \<longrightarrow> fits 0 x"
    and "distinct (map fst es)" "\<forall>name\<in>fst ` set es. sy_values sy name = None \<and> name \<notin> sy_ambiguous sy"
  shows "resolve_round sy ds = (Ok (length ds, []), sy')"
  using assms
proof (induction prev es ds arbitrary: sy rule: enum_pending.induct)
  case (3 prev name e es name' d ds)
  obtain v where v: "enum_value sy prev e = Some v" "enum_env (sy\<lparr>sy_values := (sy_values sy)(name \<mapsto> v)\<rparr>) (Some name) es = Some sy'"
    using "3.prems"(2) by (auto simp: bind_eq_Some_conv)
  have p: "name' = name" "pending_of prev e d" "enum_pending (Some name) es ds" using "3.prems"(1) by auto
  have "evaluate sy d = Ok (Some v)"
    using p(2) v(1) "3.prems"(3) eval_print [of _ sy v]
    by (cases "(prev, e, d)" rule: pending_of.cases) auto
  moreover have "define_symbol sy name v = sy\<lparr>sy_values := (sy_values sy)(name \<mapsto> v)\<rparr>"
    using "3.prems"(5) by (simp add: define_symbol_def)
  moreover have "resolve_round (sy\<lparr>sy_values := (sy_values sy)(name \<mapsto> v)\<rparr>) ds = (Ok (length ds, []), sy')"
    using "3.prems" p v(2) by (intro "3.IH") auto
  ultimately show ?case using p(1) by simp
qed auto

text \<open>
  Enumerators number as C numbers them.  For a list of new, distinct enumerators, with or without
  expressions, absorbing its tokens and resolving succeeds and leaves the table extended by exactly the
  values C gives: an expression's value, which may name the enumerators before it, one more than the
  enumerator before, and zero for a first one without expression.
\<close>

theorem enum_numbering:
  assumes "map tok_token toks = [T_Ident (bytes_of ''enum''), T_Punct (bytes_of ''{'')] @ enum_tokens es"
    and "enum_env sy None es = Some sy'" "sy_pending sy = []"
    and "\<forall>(name, e)\<in>set es. \<forall>x. e = Some x \<longrightarrow> fits 0 x" "distinct (map fst es)"
    and "\<forall>name\<in>fst ` set es. symbols_get sy name = None \<and> \<not> is_ambiguous sy name"
  shows "resolve (absorb f toks sy) = (Ok (), sy')"
proof -
  have n: "length toks = 2 + length (enum_tokens es)" using arg_cong [OF assms(1), of length] by simp
  have h0: "holds toks 0 ([T_Ident (bytes_of ''enum''), T_Punct (bytes_of ''{'')] @ enum_tokens es)"
    using assms(1) n by (simp add: holds_def)
  have h: "holds toks 0 [T_Ident (bytes_of ''enum'')]" "holds toks 1 [T_Punct (bytes_of ''{'')]" "holds toks 2 (enum_tokens es)"
    using h0 by (auto simp: holds_append holds_Cons holds_Nil numeral_2_eq_2 dest: tok_get_less)
  obtain ds where ds: "enum_loop f toks 2 None sy = (sy\<lparr>sy_pending := ds\<rparr>, 2 + length (enum_tokens es))" "enum_pending None es ds"
    using enum_loop_pending [OF h(3) assms(4), of f None sy] assms(3) by auto
  have "absorb_enum f toks 1 sy = (sy\<lparr>sy_pending := ds\<rparr>, length toks)"
    using h(2) ds(1) n by (auto simp: absorb_enum_def is_ident_def is_punct_def holds_Cons Let_def numeral_2_eq_2)
  moreover have "tok_token (toks ! 0) = T_Ident (bytes_of ''enum'')" "0 < length toks"
    using h(1) by (auto simp: holds_Cons tok_get_def split: if_splits)
  moreover have "absorb_loop f toks (length toks) s = s" for s by (subst absorb_loop.simps) simp
  ultimately have ab: "absorb f toks sy = sy\<lparr>sy_pending := ds\<rparr>"
    by (simp add: absorb_def absorb_loop.simps [of f toks 0] Let_def)
  have sy: "sy\<lparr>sy_pending := []\<rparr> = sy" using assms(3) by simp
  have r: "resolve_round sy ds = (Ok (length ds, []), sy')"
    using resolve_round_enum [OF ds(2) assms(2,4,5)] assms(6) by (auto simp: symbols_get_def is_ambiguous_def)
  have p': "sy'\<lparr>sy_pending := []\<rparr> = sy'" "sy_pending sy' = []"
    using round_grows [of sy ds] r assms(3) by (simp_all add: grows_def)
  show ?thesis
  proof (cases "ds = []")
    case True
    then show ?thesis using ab r sy p'(2) by (subst resolve.simps) simp
  next
    case False
    then have "resolve (sy\<lparr>sy_pending := ds\<rparr>) = resolve (sy'\<lparr>sy_pending := []\<rparr>)" using sy r by (subst resolve.simps) simp
    then have "resolve (sy\<lparr>sy_pending := ds\<rparr>) = resolve sy'" unfolding p'(1) .
    then show ?thesis using ab p' by (simp add: resolve.simps)
  qed
qed

text \<open>\<open>enum { a, b = 8, c, }\<close>.\<close>

theorem enum_numbering_witness:
  "\<exists>sy'. resolve (absorb [] (map (\<lambda>t. \<lparr> tok_token = t, tok_line = 1 \<rparr>)
       ([T_Ident (bytes_of ''enum''), T_Punct (bytes_of ''{'')] @ enum_tokens [([97], None), ([98], Some (C_Num 8)), ([99], None)])) symbols_new) =
     (Ok (), sy') \<and> symbols_get sy' [97] = Some 0 \<and> symbols_get sy' [99] = Some 9"
proof -
  let ?es = "[([97], None), ([98], Some (C_Num 8)), ([99], None)] :: enumerators"
  obtain sy' where s: "enum_env symbols_new None ?es = Some sy'" "symbols_get sy' [97] = Some 0" "symbols_get sy' [99] = Some 9"
    by (simp add: symbols_get_def)
  have "sy_pending symbols_new = []" by (simp add: symbols_new_def)
  moreover have "\<forall>name\<in>fst ` set ?es. symbols_get symbols_new name = None \<and> \<not> is_ambiguous symbols_new name"
    by (simp add: symbols_new_def symbols_get_def is_ambiguous_def bytes_of_def)
  ultimately show ?thesis using enum_numbering [OF _ s(1), of "map (\<lambda>t. \<lparr> tok_token = t, tok_line = 1 \<rparr>)
       ([T_Ident (bytes_of ''enum''), T_Punct (bytes_of ''{'')] @ enum_tokens ?es)" "[]"] s(2,3)
    by (simp add: o_def)
qed

section \<open>Definitions used before they conflict\<close>

text \<open>
  A definition is evaluated with the values known when its turn comes.  When a name gets its second,
  different value later in the same round, what was computed from the first one stays: after
  \<open>K = 1\<close>, \<open>J = K\<close>, \<open>K = 2\<close> the name \<open>K\<close> is ambiguous and \<open>J\<close> is still 1.
\<close>

lemma stale_value:
  "let one = P_Value [] [\<lparr> tok_token = T_Int 1, tok_line = 1 \<rparr>]; two = P_Value [] [\<lparr> tok_token = T_Int 2, tok_line = 3 \<rparr>];
       name = P_Value [] [\<lparr> tok_token = T_Ident [75], tok_line = 2 \<rparr>];
       sy = snd (resolve (symbols_new\<lparr>sy_pending := [([75], one), ([74], name), ([75], two)]\<rparr>))
   in is_ambiguous sy [75] \<and> symbols_get sy [75] = None \<and> symbols_get sy [74] = Some 1"
proof -
  have e: "eval_expr [] [\<lparr> tok_token = T_Int v, tok_line = l \<rparr>] sy = Ok v" for v l sy
    using eval_print [of "C_Num v"] by simp
  have n: "symbols_get sy s = Some v \<Longrightarrow> eval_expr [] [\<lparr> tok_token = T_Ident s, tok_line = l \<rparr>] sy = Ok v" for s v l sy
    using eval_print [of "C_Name s"] by simp
  show ?thesis
    by (simp add: Let_def resolve.simps e n symbols_new_def define_symbol_def symbols_get_def is_ambiguous_def bytes_of_def)
qed

end
