(* ===== verification/C_Init.thy ===== *)
theory C_Init
  imports C_Symbols
begin

text \<open>
  Braced initializers and struct shapes of the C source reader, \<open>native/src/csource/init.rs\<close>: an initializer is
  read as a tree whose leaves are runs of tokens, and each caller says what it expects a leaf to be.
\<close>

section \<open>Nodes\<close>

record ctx =
  ctx_file :: ctext
  ctx_symbols :: symbols

datatype node =
    Leaf u32 "tok list"
  | List u32 "node list"

record array =
  arr_bounds :: "i64 option list"
  arr_root :: node

fun node_line :: "node \<Rightarrow> u32" where
  "node_line (Leaf line toks) = line"
| "node_line (List line items) = line"

fun node_found :: "node \<Rightarrow> ctext" where
  "node_found (List line items) = bytes_of ''a braced list''"
| "node_found (Leaf line (t # ts)) = describe (tok_token t)"
| "node_found (Leaf line []) = bytes_of ''an empty initializer''"

definition node_expected :: "ctx \<Rightarrow> string \<Rightarrow> node \<Rightarrow> c_error" where
  "node_expected ctx want n = Expected (ctx_file ctx) (node_line n) want (node_found n)"

fun node_list :: "ctx \<Rightarrow> node \<Rightarrow> (node list, c_error) rresult" where
  "node_list ctx (List line items) = Ok items"
| "node_list ctx n = Err (node_expected ctx ''a braced list'' n)"

fun node_int :: "ctx \<Rightarrow> node \<Rightarrow> (i64, c_error) rresult" where
  "node_int ctx (Leaf line toks) = eval_expr (ctx_file ctx) toks (ctx_symbols ctx)"
| "node_int ctx (List line [n]) = node_int ctx n"
| "node_int ctx n = Err (node_expected ctx ''an integer'' n)"

fun node_name :: "ctx \<Rightarrow> node \<Rightarrow> (ctext, c_error) rresult" where
  "node_name ctx (Leaf line [t]) = (case tok_token t of
     T_Ident name \<Rightarrow> Ok name | _ \<Rightarrow> Err (node_expected ctx ''one identifier'' (Leaf line [t])))"
| "node_name ctx (List line [n]) = node_name ctx n"
| "node_name ctx n = Err (node_expected ctx ''one identifier'' n)"

fun node_text :: "ctx \<Rightarrow> node \<Rightarrow> (ctext, c_error) rresult" where
  "node_text ctx (Leaf line [t]) = (case tok_token t of
     T_Str s \<Rightarrow> Ok (takeWhile (\<lambda>b. b \<noteq> 0) s) | _ \<Rightarrow> Err (node_expected ctx ''a string literal'' (Leaf line [t])))"
| "node_text ctx n = Err (node_expected ctx ''a string literal'' n)"

fun ints_loop :: "ctx \<Rightarrow> node list \<Rightarrow> (i64 list, c_error) rresult" where
  "ints_loop ctx [] = Ok []"
| "ints_loop ctx (n # ns) = rbind (node_int ctx n) (\<lambda>v. rbind (ints_loop ctx ns) (\<lambda>vs. Ok (v # vs)))"

text \<open>\<open>resize\<close>: cut or filled with zeros to the arity.\<close>

definition node_ints :: "ctx \<Rightarrow> node \<Rightarrow> nat \<Rightarrow> (i64 list, c_error) rresult" where
  "node_ints ctx n arity = rbind (node_list ctx n) (\<lambda>items.
     rbind (ints_loop ctx (take arity items)) (\<lambda>out. Ok (take arity out @ replicate (arity - length out) 0)))"

section \<open>Reading an initializer\<close>

function leaf_end :: "tok list \<Rightarrow> nat \<Rightarrow> i32 \<Rightarrow> nat" where
  "leaf_end toks at depth =
     (case tok_get toks at of
        None \<Rightarrow> at
      | Some t \<Rightarrow>
          if tok_token t \<in> T_Punct ` bytes_of ` {''('', ''[''} then leaf_end toks (at + 1) (depth + 1)
          else if tok_token t \<in> T_Punct ` bytes_of ` {'')'', '']''} then leaf_end toks (at + 1) (depth - 1)
          else if tok_token t \<in> T_Punct ` bytes_of ` {'','', ''}''} \<and> depth = 0 then at
          else leaf_end toks (at + 1) depth)"
  by pat_completeness auto
termination by (relation "measure (\<lambda>(toks, at, d). length toks - at)") (auto dest: tok_get_less)

declare leaf_end.simps [simp del]

lemma leaf_end_ge: "at \<le> leaf_end toks at depth"
proof (induction toks at depth rule: leaf_end.induct)
  case (1 toks at depth)
  show ?case by (subst leaf_end.simps) (use 1 in \<open>auto split: option.split dest: Suc_leD\<close>)
qed

lemma leaf_end_gt:
  assumes "tok_get toks at = Some t" "tok_token t \<notin> T_Punct ` bytes_of ` {'','', ''}''}"
  shows "at < leaf_end toks at depth"
  using assms leaf_end_ge [of "at + 1" toks] by (subst leaf_end.simps) (auto simp: Suc_le_eq)

function (sequential) read_node :: "tok list \<Rightarrow> nat \<Rightarrow> node \<times> nat"
  and read_items :: "tok list \<Rightarrow> u32 \<Rightarrow> nat \<Rightarrow> node list \<Rightarrow> node \<times> nat"
where
  "read_node toks at =
     (let line = (case tok_get toks at of Some t \<Rightarrow> tok_line t | None \<Rightarrow> 0) in
      if \<not> is_punct toks at ''{''
      then let stop = leaf_end toks at 0 in (Leaf line (take (stop - at) (drop at toks)), stop)
      else read_items toks line (at + 1) [])"
| "read_items toks line at items =
     (case tok_get toks at of
        None \<Rightarrow> (List line items, at)
      | Some t \<Rightarrow>
          if tok_token t = T_Punct (bytes_of ''}'') then (List line items, at + 1)
          else if tok_token t = T_Punct (bytes_of '','') then read_items toks line (at + 1) items
          else case read_node toks at of (n, next) \<Rightarrow> read_items toks line next (items @ [n]))"
  by pat_completeness auto

lemma read_progress:
  "read_node_read_items_dom (Inl (toks, at)) \<Longrightarrow> tok_get toks at = Some t \<Longrightarrow> tok_token t \<notin> T_Punct ` bytes_of ` {'','', ''}''} \<Longrightarrow>
     at < snd (read_node toks at)"
  "read_node_read_items_dom (Inr (toks, line, at, items)) \<Longrightarrow> at \<le> snd (read_items toks line at items)"
proof (induction toks at and toks line at items arbitrary: t and rule: read_node_read_items.pinduct)
  case (1 toks at)
  show ?case
  proof (cases "is_punct toks at ''{''")
    case True
    then show ?thesis using 1(2) [OF refl] by (simp add: read_node.psimps [OF 1(1)] Let_def)
  next
    case False
    then show ?thesis using leaf_end_gt [OF 1(3,4)] by (simp add: read_node.psimps [OF 1(1)] Let_def)
  qed
next
  case (2 toks line at items)
  show ?case
  proof (cases "tok_get toks at")
    case None
    then show ?thesis by (simp add: read_items.psimps [OF 2(1)])
  next
    case (Some t)
    obtain n nx where rn: "read_node toks at = (n, nx)" by fastforce
    consider "tok_token t = T_Punct (bytes_of ''}'')" | "tok_token t \<noteq> T_Punct (bytes_of ''}'')" "tok_token t = T_Punct (bytes_of '','')"
      | "tok_token t \<noteq> T_Punct (bytes_of ''}'')" "tok_token t \<noteq> T_Punct (bytes_of '','')" by blast
    then show ?thesis
    proof cases
      case 1
      then show ?thesis using Some by (simp add: read_items.psimps [OF 2(1)])
    next
      case c: 2
      then show ?thesis using 2(2) [OF Some c] Some by (simp add: read_items.psimps [OF 2(1)])
    next
      case 3
      have "at < nx" using 2(3) [OF Some 3 Some] rn 3 by auto
      then show ?thesis using 2(4) [OF Some 3 rn [symmetric]] Some 3 rn by (simp add: read_items.psimps [OF 2(1)])
    qed
  qed
qed

termination read_node
proof (relation "measure (\<lambda>x. case x of Inl (toks, at) \<Rightarrow> 2 * (length toks - at) | Inr (toks, line, at, items) \<Rightarrow> 2 * (length toks - at) + 1)", goal_cases)
  case (2 toks at line)
  then have "at < length toks" using tok_get_less by (auto simp: is_punct_def)
  then show ?case by simp
next
  case (3 toks line at items t)
  then show ?case using tok_get_less [OF 3(1)] by simp
next
  case (5 toks line at items t n nx)
  have "tok_token t \<notin> T_Punct ` bytes_of ` {'','', ''}''}" using 5(2,3) by auto
  then have "at < snd (read_node toks at)" using read_progress(1) 5(1,5) by blast
  then have "at < nx" using arg_cong [OF 5(4), of snd] by simp
  then show ?case using tok_get_less [OF 5(1)] by simp
qed simp_all

declare read_node.simps [simp del] read_items.simps [simp del]

section \<open>Finding an array\<close>

function to_bracket :: "tok list \<Rightarrow> nat \<Rightarrow> nat" where
  "to_bracket toks at =
     (if tok_get toks at \<noteq> None \<and> \<not> is_punct toks at '']'' then to_bracket toks (at + 1) else at)"
  by pat_completeness auto
termination by (relation "measure (\<lambda>(toks, at). length toks - at)") (auto dest: tok_get_less)

declare to_bracket.simps [simp del]

lemma to_bracket_ge: "at \<le> to_bracket toks at"
proof (induction toks at rule: to_bracket.induct)
  case (1 toks at)
  then show ?case by (subst to_bracket.simps) (auto dest: Suc_leD)
qed

function bounds_loop :: "ctx \<Rightarrow> tok list \<Rightarrow> nat \<Rightarrow> i64 option list \<Rightarrow> (i64 option list \<times> nat, c_error) rresult" where
  "bounds_loop ctx toks at bs =
     (if is_punct toks at ''['' then
        let start = at + 1; stop = to_bracket toks start in
        if start = stop then bounds_loop ctx toks (stop + 1) (bs @ [None])
        else rbind (eval_expr (ctx_file ctx) (take (stop - start) (drop start toks)) (ctx_symbols ctx)) (\<lambda>v.
          bounds_loop ctx toks (stop + 1) (bs @ [Some v]))
      else Ok (bs, at))"
  by pat_completeness auto
termination
proof (relation "measure (\<lambda>(c, toks, at, b). length toks - at)", goal_cases)
  case (2 ctx toks at bs start stop)
  have "at < length toks" using 2(1) tok_get_less by (auto simp: is_punct_def)
  then show ?case using to_bracket_ge [of start toks] 2(2,3) by simp
next
  case (3 ctx toks at bs start stop v)
  have "at < length toks" using 3(1) tok_get_less by (auto simp: is_punct_def)
  then show ?case using to_bracket_ge [of start toks] 3(2,3) by simp
qed simp

declare bounds_loop.simps [simp del]

definition read_bounds :: "ctx \<Rightarrow> tok list \<Rightarrow> nat \<Rightarrow> ((i64 option list \<times> nat) option, c_error) rresult" where
  "read_bounds ctx toks at = rbind (bounds_loop ctx toks at []) (\<lambda>x. Ok (if fst x = [] then None else Some x))"

definition is_list :: "node \<Rightarrow> bool" where
  "is_list n \<longleftrightarrow> (case n of List _ _ \<Rightarrow> True | _ \<Rightarrow> False)"

function find_array_from :: "ctx \<Rightarrow> tok list \<Rightarrow> ctext \<Rightarrow> nat \<Rightarrow> (array, c_error) rresult" where
  "find_array_from ctx toks name at =
     (if at < length toks then
        if tok_token (toks ! at) \<noteq> T_Ident name then find_array_from ctx toks name (at + 1)
        else rbind (read_bounds ctx toks (at + 1)) (\<lambda>found.
          case found of
            None \<Rightarrow> find_array_from ctx toks name (at + 1)
          | Some (bs, after) \<Rightarrow>
              if \<not> is_punct toks after ''='' then find_array_from ctx toks name (at + 1)
              else let root = fst (read_node toks (after + 1)) in
                if is_list root then Ok \<lparr> arr_bounds = bs, arr_root = root \<rparr>
                else find_array_from ctx toks name (at + 1))
      else Err (NoArray (ctx_file ctx) name))"
  by pat_completeness auto
termination by (relation "measure (\<lambda>(c, toks, n, at). length toks - at)") auto

declare find_array_from.simps [simp del]

definition find_array :: "ctx \<Rightarrow> tok list \<Rightarrow> ctext \<Rightarrow> (array, c_error) rresult" where
  "find_array ctx toks name = find_array_from ctx toks name 0"

section \<open>Struct shapes\<close>

fun matching_brace_from :: "tok list \<Rightarrow> nat \<Rightarrow> i32 \<Rightarrow> nat option" where
  "matching_brace_from [] offset depth = None"
| "matching_brace_from (t # ts) offset depth =
     (if tok_token t = T_Punct (bytes_of ''{'') then matching_brace_from ts (offset + 1) (depth + 1)
      else if tok_token t = T_Punct (bytes_of ''}'') then
        (if depth - 1 = 0 then Some offset else matching_brace_from ts (offset + 1) (depth - 1))
      else matching_brace_from ts (offset + 1) depth)"

definition matching_brace :: "tok list \<Rightarrow> nat \<Rightarrow> nat option" where
  "matching_brace toks open = matching_brace_from (drop open toks) open 0"

fun field_names_from :: "tok list \<Rightarrow> ctext option \<Rightarrow> ctext list" where
  "field_names_from [] seen = []"
| "field_names_from (t # ts) seen =
     (case tok_token t of
        T_Ident name \<Rightarrow> field_names_from ts (Some name)
      | T_Punct p \<Rightarrow>
          if p = bytes_of '';'' \<or> p = bytes_of ''[''
          then (case seen of Some name \<Rightarrow> [name] | None \<Rightarrow> []) @ field_names_from ts None
          else field_names_from ts seen
      | _ \<Rightarrow> field_names_from ts seen)"

definition field_names :: "tok list \<Rightarrow> ctext list" where
  "field_names body = field_names_from body None"

definition struct_at :: "tok list \<Rightarrow> ctext \<Rightarrow> nat \<Rightarrow> ctext list option" where
  "struct_at toks name at =
     (if tok_token (toks ! at) \<noteq> T_Ident (bytes_of ''struct'') then None
      else let open = at + 1 + of_bool (is_ident toks (at + 1)) in
        if \<not> is_punct toks open ''{'' then None
        else (case matching_brace toks open of
                None \<Rightarrow> None
              | Some close \<Rightarrow>
                  if map_option tok_token (tok_get toks (close + 1)) \<noteq> Some (T_Ident name) then None
                  else Some (field_names (take (close - (open + 1)) (drop (open + 1) toks)))))"

fun first_struct :: "tok list \<Rightarrow> ctext \<Rightarrow> nat list \<Rightarrow> ctext list option" where
  "first_struct toks name [] = None"
| "first_struct toks name (at # ats) = (case struct_at toks name at of Some fs \<Rightarrow> Some fs | None \<Rightarrow> first_struct toks name ats)"

definition struct_fields :: "ctx \<Rightarrow> tok list \<Rightarrow> ctext \<Rightarrow> (ctext list, c_error) rresult" where
  "struct_fields ctx toks name = (case first_struct toks name [0..<length toks] of
     Some fs \<Rightarrow> Ok fs | None \<Rightarrow> Err (NoStruct (ctx_file ctx) name))"

definition check_struct :: "ctx \<Rightarrow> tok list \<Rightarrow> ctext \<Rightarrow> ctext list \<Rightarrow> (unit, c_error) rresult" where
  "check_struct ctx toks name expected = rbind (struct_fields ctx toks name) (\<lambda>actual.
     if actual \<noteq> expected then Err (StructShape (ctx_file ctx) name expected actual) else Ok ())"

section \<open>Initializers as trees\<close>

datatype shape = S_Leaf "token list" | S_List "shape list"

fun shape_of :: "node \<Rightarrow> shape" where
  "shape_of (Leaf line toks) = S_Leaf (map tok_token toks)"
| "shape_of (List line items) = S_List (map shape_of items)"

fun print_shape :: "shape \<Rightarrow> token list" where
  "print_shape (S_Leaf ts) = ts"
| "print_shape (S_List ss) = T_Punct (bytes_of ''{'') # concat (map (\<lambda>s. print_shape s @ [T_Punct (bytes_of '','')]) ss) @ [T_Punct (bytes_of ''}'')]"

text \<open>A leaf holds at least one token, starts with no brace or comma and has none outside brackets.\<close>

fun leaf_inside :: "token list \<Rightarrow> i32 \<Rightarrow> bool" where
  "leaf_inside [] depth = (depth = 0)"
| "leaf_inside (t # ts) depth =
     (if t \<in> T_Punct ` bytes_of ` {''('', ''[''} then leaf_inside ts (depth + 1)
      else if t \<in> T_Punct ` bytes_of ` {'')'', '']''} then leaf_inside ts (depth - 1)
      else \<not> (t \<in> T_Punct ` bytes_of ` {'','', ''}''} \<and> depth = 0) \<and> leaf_inside ts depth)"

fun shape_ok :: "shape \<Rightarrow> bool" where
  "shape_ok (S_Leaf ts) = (ts \<noteq> [] \<and> hd ts \<noteq> T_Punct (bytes_of ''{'') \<and> leaf_inside ts 0)"
| "shape_ok (S_List ss) = list_all shape_ok ss"

lemma leaf_end_inside:
  assumes "holds toks at (ts @ [T_Punct (bytes_of '','')])" "leaf_inside ts depth"
  shows "leaf_end toks at depth = at + length ts"
  using assms
proof (induction ts arbitrary: at depth)
  case Nil
  then show ?case by (subst leaf_end.simps) (auto simp: holds_Cons bytes_of_def)
next
  case (Cons t ts)
  obtain x where x: "tok_get toks at = Some x" "tok_token x = t" "holds toks (at + 1) (ts @ [T_Punct (bytes_of '','')])"
    using Cons.prems(1) by (auto simp: holds_Cons)
  show ?case
    by (subst leaf_end.simps) (use Cons.IH [OF x(3)] Cons.prems(2) x(1,2) in \<open>auto split: if_splits\<close>)
qed

lemma first_token: "shape_ok s \<Longrightarrow> \<exists>t ts. print_shape s = t # ts \<and> t \<notin> T_Punct ` bytes_of ` {'','', ''}''}"
proof (cases s)
  case (S_Leaf ts)
  assume "shape_ok s"
  then obtain t us where "ts = t # us" "leaf_inside (t # us) 0" using S_Leaf by (cases ts) auto
  moreover from this have "t \<notin> T_Punct ` bytes_of ` {'','', ''}''}" by (auto simp: bytes_of_def split: if_splits)
  ultimately show ?thesis using S_Leaf by auto
qed (auto simp: bytes_of_def)

definition listed :: "shape list \<Rightarrow> token list" where
  "listed ss = concat (map (\<lambda>s. print_shape s @ [T_Punct (bytes_of '','')]) ss)"

lemma listed_Cons: "listed (s # ss) = print_shape s @ [T_Punct (bytes_of '','')] @ listed ss"
  by (simp add: listed_def)

text \<open>Reading the items of a list, when every item reads back.\<close>

lemma read_items_listed:
  assumes "holds toks at (listed ss @ [T_Punct (bytes_of ''}'')])" "list_all shape_ok ss"
    and "\<And>s at. s \<in> set ss \<Longrightarrow> holds toks at (print_shape s @ [T_Punct (bytes_of '','')]) \<Longrightarrow>
      \<exists>n. read_node toks at = (n, at + length (print_shape s)) \<and> shape_of n = s"
  shows "\<exists>ns. read_items toks line at items = (List line (items @ ns), at + length (listed ss) + 1) \<and> map shape_of ns = ss"
  using assms
proof (induction ss arbitrary: at items)
  case Nil
  then show ?case by (subst read_items.simps) (auto simp: listed_def holds_Cons)
next
  case (Cons s ss)
  let ?m = "at + length (print_shape s)"
  have h: "holds toks at (print_shape s @ [T_Punct (bytes_of '','')])" "holds toks ?m [T_Punct (bytes_of '','')]"
      "holds toks (?m + 1) (listed ss @ [T_Punct (bytes_of ''}'')])"
    using Cons.prems(1) unfolding listed_Cons append_assoc holds_append by (simp_all add: holds_append)
  obtain t ts x where t: "print_shape s = t # ts" "t \<notin> T_Punct ` bytes_of ` {'','', ''}''}" "tok_get toks at = Some x" "tok_token x = t"
    using first_token [of s] Cons.prems(2) h(1) by (auto simp: holds_Cons)
  obtain n where n: "read_node toks at = (n, ?m)" "shape_of n = s" using Cons.prems(3) [OF _ h(1)] by auto
  obtain ns where ns: "read_items toks line (?m + 1) (items @ [n]) = (List line ((items @ [n]) @ ns), ?m + 1 + length (listed ss) + 1)"
      "map shape_of ns = ss"
    using Cons.IH [OF h(3), of "items @ [n]"] Cons.prems(2,3) by auto
  obtain c where c: "tok_get toks ?m = Some c" "tok_token c = T_Punct (bytes_of '','')" using h(2) by (auto simp: holds_Cons)
  have "read_items toks line at items = read_items toks line ?m (items @ [n])"
    using t n(1) by (subst read_items.simps) auto
  also have "\<dots> = read_items toks line (?m + 1) (items @ [n])"
    using c by (subst read_items.simps) (auto simp: bytes_of_def)
  finally show ?case using ns n(2) by (intro exI [of _ "n # ns"]) (simp add: listed_Cons)
qed

lemma read_node_list:
  assumes "holds toks at (print_shape (S_List ss))" "list_all shape_ok ss"
    and "\<And>s at. s \<in> set ss \<Longrightarrow> holds toks at (print_shape s @ [T_Punct (bytes_of '','')]) \<Longrightarrow>
      \<exists>n. read_node toks at = (n, at + length (print_shape s)) \<and> shape_of n = s"
  shows "\<exists>n. read_node toks at = (n, at + length (print_shape (S_List ss))) \<and> shape_of n = S_List ss \<and> is_list n"
proof -
  have p: "print_shape (S_List ss) = T_Punct (bytes_of ''{'') # listed ss @ [T_Punct (bytes_of ''}'')]" by (simp add: listed_def)
  obtain x where x: "tok_get toks at = Some x" "tok_token x = T_Punct (bytes_of ''{'')" "holds toks (at + 1) (listed ss @ [T_Punct (bytes_of ''}'')])"
    using assms(1) unfolding p by (auto simp: holds_Cons)
  then have "read_node toks at = read_items toks (tok_line x) (at + 1) []"
    by (subst read_node.simps) (simp add: is_punct_def Let_def)
  moreover obtain ns where "read_items toks (tok_line x) (at + 1) [] = (List (tok_line x) ns, at + 1 + length (listed ss) + 1)"
      "map shape_of ns = ss"
    using read_items_listed [OF x(3) assms(2,3), of "tok_line x" "[]"] by auto
  ultimately show ?thesis unfolding p by (auto simp: is_list_def)
qed

lemma read_node_print:
  "shape_ok s \<Longrightarrow> holds toks at (print_shape s @ [T_Punct (bytes_of '','')]) \<Longrightarrow>
     \<exists>n. read_node toks at = (n, at + length (print_shape s)) \<and> shape_of n = s"
proof (induction s arbitrary: at)
  case (S_Leaf ts)
  obtain t us x where t: "ts = t # us" "tok_get toks at = Some x" "tok_token x = t"
    using S_Leaf by (cases ts) (auto simp: holds_Cons)
  have l: "leaf_end toks at 0 = at + length ts" using leaf_end_inside S_Leaf by simp
  have "holds toks at ts" using S_Leaf.prems(2) by (simp add: holds_append)
  then have "map tok_token (take (length ts) (drop at toks)) = ts" by (simp add: holds_def)
  then show ?case using t l S_Leaf.prems(1) by (subst read_node.simps) (simp add: is_punct_def Let_def)
next
  case (S_List ss)
  have h: "holds toks at (print_shape (S_List ss))" using S_List.prems(2) by (simp only: holds_append)
  have ok: "list_all shape_ok ss" using S_List.prems(1) by simp
  have "\<exists>n. read_node toks a = (n, a + length (print_shape s)) \<and> shape_of n = s"
    if "s \<in> set ss" "holds toks a (print_shape s @ [T_Punct (bytes_of '','')])" for s a
    using S_List.IH [OF that(1) _ that(2)] ok that(1) by (auto simp: list_all_iff)
  then show ?case using read_node_list [OF h ok] by blast
qed

text \<open>
  C36: Initializers read back.  For every tree of braced lists whose leaves are runs of tokens with
  balanced brackets, the tokens it is written as, wherever they stand among other tokens, are read as a
  node of that tree and the reader stops right behind them.
\<close>

theorem initializer_roundtrip:
  assumes "shape_ok (S_List ss)" "map tok_token (take (length (print_shape (S_List ss))) (drop at toks)) = print_shape (S_List ss)"
  shows "\<exists>n. read_node toks at = (n, at + length (print_shape (S_List ss))) \<and> shape_of n = S_List ss"
proof -
  have "length (print_shape (S_List ss)) \<le> length toks - at" using arg_cong [OF assms(2), of length] by simp
  moreover have "0 < length (print_shape (S_List ss))" by simp
  ultimately have "at + length (print_shape (S_List ss)) \<le> length toks" by linarith
  then have h: "holds toks at (print_shape (S_List ss))" using assms(2) by (simp add: holds_def)
  have ok: "list_all shape_ok ss" using assms(1) by simp
  show ?thesis using read_node_list [OF h ok] read_node_print ok unfolding list_all_iff by blast
qed

definition toks_of :: "token list \<Rightarrow> tok list" where
  "toks_of ts = map (\<lambda>t. \<lparr> tok_token = t, tok_line = 1 \<rparr>) ts"

lemma toks_of_tokens: "map tok_token (take n (drop k (toks_of ts))) = take n (drop k ts)"
  by (simp add: toks_of_def take_map drop_map o_def)

theorem initializer_roundtrip_witness:
  "\<exists>n. read_node (toks_of (print_shape (S_List [S_List [S_Leaf [T_Int 3], S_Leaf [T_Int 0]], S_Leaf [T_Ident [97]]]))) 0 = (n, 11) \<and>
     shape_of n = S_List [S_List [S_Leaf [T_Int 3], S_Leaf [T_Int 0]], S_Leaf [T_Ident [97]]]"
proof -
  let ?ss = "[S_List [S_Leaf [T_Int 3], S_Leaf [T_Int 0]], S_Leaf [T_Ident [97]]]"
  have "shape_ok (S_List ?ss)" by simp
  moreover have "length (print_shape (S_List ?ss)) = 11" by simp
  ultimately show ?thesis
    using initializer_roundtrip [of ?ss 0 "toks_of (print_shape (S_List ?ss))"] unfolding toks_of_tokens by (simp add: eval_nat_numeral)
qed

section \<open>Tables\<close>

lemma leaf_inside_expr: "fits l e \<Longrightarrow> leaf_inside (print_expr e @ rest) depth = leaf_inside rest depth"
proof (induction e arbitrary: l rest depth)
  case (C_Paren e)
  have b: "T_Punct (bytes_of '')'') \<notin> T_Punct ` bytes_of ` {''('', ''[''}" by (auto simp: bytes_of_def)
  show ?case using C_Paren.IH [of 0 "[T_Punct (bytes_of '')'')] @ rest" "depth + 1"] C_Paren.prems b by simp
next
  case (C_Un op e)
  then have "T_Punct op \<notin> T_Punct ` bytes_of ` {''('', ''['', ''{'', '')'', '']'', ''}'', '',''}" using operator_plain [of op 0] by auto
  then show ?case using C_Un.IH [of 6 rest depth] C_Un.prems by auto
next
  case (C_Bin k op a b)
  then have "T_Punct op \<notin> T_Punct ` bytes_of ` {''('', ''['', ''{'', '')'', '']'', ''}'', '',''}" using operator_plain [of op k] by auto
  then show ?case using C_Bin.IH(1) [of k "T_Punct op # print_expr b @ rest" depth] C_Bin.IH(2) [of "k + 1" rest depth] C_Bin.prems by auto
qed auto

lemma print_expr_head: "fits l e \<Longrightarrow> \<exists>t ts. print_expr e = t # ts \<and> t \<noteq> T_Punct (bytes_of ''{'')"
proof (induction e arbitrary: l)
  case (C_Bin k op a b)
  then obtain t ts where "print_expr a = t # ts" "t \<noteq> T_Punct (bytes_of ''{'')" by (metis fits.simps(5))
  then show ?case by simp
qed (auto simp: bytes_of_def)

lemma expr_leaf_ok: "fits 0 e \<Longrightarrow> shape_ok (S_Leaf (print_expr e))"
  using print_expr_head [of 0 e] leaf_inside_expr [of 0 e "[]" 0] by auto

lemma expr_no_bracket: "fits l e \<Longrightarrow> T_Punct (bytes_of '']'') \<notin> set (print_expr e)"
proof (induction e arbitrary: l)
  case (C_Un op e)
  then show ?case using operator_plain [of op 0] by auto
next
  case (C_Bin k op a b)
  then show ?case using operator_plain [of op k] by auto
qed (auto simp: bytes_of_def)

lemma to_bracket_holds:
  assumes "holds toks at (ts @ [T_Punct (bytes_of '']'')])" "T_Punct (bytes_of '']'') \<notin> set ts"
  shows "to_bracket toks at = at + length ts"
  using assms
proof (induction ts arbitrary: at)
  case Nil
  then show ?case by (subst to_bracket.simps) (auto simp: holds_Cons is_punct_def)
next
  case (Cons t ts)
  then have "tok_get toks at \<noteq> None \<and> \<not> is_punct toks at '']''" by (auto simp: holds_Cons is_punct_def)
  moreover have "to_bracket toks (at + 1) = at + 1 + length ts" using Cons by (simp add: holds_Cons)
  ultimately show ?case by (subst to_bracket.simps) simp
qed

text \<open>The bounds of a declaration, as they are written and what they are worth.\<close>

definition print_bound :: "cexpr option \<Rightarrow> token list" where
  "print_bound b = [T_Punct (bytes_of ''['')] @ (case b of Some e \<Rightarrow> print_expr e | None \<Rightarrow> []) @ [T_Punct (bytes_of '']'')]"

fun bound_value :: "symbols \<Rightarrow> cexpr option \<Rightarrow> i64 option \<Rightarrow> bool" where
  "bound_value sy None v = (v = None)"
| "bound_value sy (Some e) v = (fits 0 e \<and> v \<noteq> None \<and> cval sy e = v)"

lemma bounds_loop_printed:
  assumes "holds toks at (concat (map print_bound bs))" "list_all2 (bound_value (ctx_symbols c)) bs vs"
    and "\<not> is_punct toks (at + length (concat (map print_bound bs))) ''[''"
  shows "bounds_loop c toks at acc = Ok (acc @ vs, at + length (concat (map print_bound bs)))"
  using assms
proof (induction bs arbitrary: at acc vs)
  case Nil
  then show ?case by (subst bounds_loop.simps) simp
next
  case (Cons b bs)
  obtain v ws where v: "vs = v # ws" "bound_value (ctx_symbols c) b v" "list_all2 (bound_value (ctx_symbols c)) bs ws"
    using Cons.prems(2) by (cases vs) auto
  let ?ts = "case b of Some e \<Rightarrow> print_expr e | None \<Rightarrow> []" and ?n = "length (print_bound b)"
  have "holds toks at (print_bound b @ concat (map print_bound bs))" using Cons.prems(1) by simp
  then have h: "holds toks at [T_Punct (bytes_of ''['')]" "holds toks (at + 1) (?ts @ [T_Punct (bytes_of '']'')])"
      "holds toks (at + ?n) (concat (map print_bound bs))" "holds toks (at + 1) ?ts"
    unfolding print_bound_def holds_append by (simp_all add: add.assoc)
  have nb: "T_Punct (bytes_of '']'') \<notin> set ?ts" using v(2) expr_no_bracket by (cases b) auto
  have st: "to_bracket toks (at + 1) = at + 1 + length ?ts" by (rule to_bracket_holds [OF h(2) nb])
  have n: "at + 1 + length ?ts + 1 = at + ?n" by (simp add: print_bound_def)
  have p: "is_punct toks at ''[''" using h(1) by (auto simp: holds_Cons is_punct_def)
  have step: "bounds_loop c toks at acc = bounds_loop c toks (at + ?n) (acc @ [v])"
  proof (cases b)
    case None
    then show ?thesis using p st v(2) n by (subst bounds_loop.simps) (simp add: Let_def)
  next
    case (Some e)
    then have e: "fits 0 e" "cval (ctx_symbols c) e = v" "v \<noteq> None" using v(2) by auto
    then obtain w where w: "v = Some w" by blast
    have "map tok_token (take (length (print_expr e)) (drop (at + 1) toks)) = print_expr e" using h(4) Some by (simp add: holds_def)
    then have "eval_expr (ctx_file c) (take (length (print_expr e)) (drop (at + 1) toks)) (ctx_symbols c) = Ok w"
      using eval_print e w by blast
    moreover have "print_expr e \<noteq> []" using print_expr_head [OF e(1)] by auto
    ultimately show ?thesis using p st w Some by (subst bounds_loop.simps) (simp add: Let_def print_bound_def)
  qed
  have "bounds_loop c toks (at + ?n) (acc @ [v]) = Ok ((acc @ [v]) @ ws, at + ?n + length (concat (map print_bound bs)))"
    using Cons.IH [OF h(3) v(3)] Cons.prems(3) by (simp add: add.assoc)
  then show ?case using step v(1) by (simp add: add.assoc)
qed

lemma ints_loop_values:
  assumes "map shape_of ns = map (S_Leaf \<circ> print_expr) es" "list_all (fits 0) es" "map (cval (ctx_symbols c)) es = map Some vs"
  shows "ints_loop c ns = Ok vs"
  using assms
proof (induction ns arbitrary: es vs)
  case Nil
  then show ?case by simp
next
  case (Cons n ns)
  obtain e es' where es: "es = e # es'" using Cons.prems(1) by (cases es) auto
  obtain v vs' where vs: "vs = v # vs'" using Cons.prems(3) es by (cases vs) auto
  obtain l toks where n: "n = Leaf l toks" "map tok_token toks = print_expr e" using Cons.prems(1) es by (cases n) auto
  have "node_int c n = Ok v" using n eval_print [of e "ctx_symbols c" v toks] Cons.prems(2,3) es vs by simp
  moreover have "ints_loop c ns = Ok vs'" using Cons.IH [of es' vs'] Cons.prems es vs by simp
  ultimately show ?case using vs by simp
qed

lemma find_array_skip:
  assumes "at \<le> k" "k \<le> length toks" "\<And>j. at \<le> j \<Longrightarrow> j < k \<Longrightarrow> tok_token (toks ! j) \<noteq> T_Ident name"
  shows "find_array_from c toks name at = find_array_from c toks name k"
  using assms
proof (induction rule: inc_induct)
  case (step j)
  then have "find_array_from c toks name j = find_array_from c toks name (Suc j)" by (subst find_array_from.simps) simp
  then show ?case using step by simp
qed simp

text \<open>
  A table is read as C would initialise it.  Take a source that declares an array of the given name,
  with bounds written as constant expressions or left out, and initialises it with constant expressions,
  and in which the name is not mentioned before.  The reader finds the declaration, its bounds are the
  values of their expressions, and read as integers its entries are the values of theirs, cut at the
  arity asked for and filled with zeros up to it.
\<close>

theorem array_reads:
  assumes "map tok_token toks = pre @ T_Ident name # concat (map print_bound bs) @ T_Punct (bytes_of ''='') #
      print_shape (S_List (map (S_Leaf \<circ> print_expr) es)) @ post"
    and "T_Ident name \<notin> set pre" "bs \<noteq> []" "list_all2 (bound_value (ctx_symbols c)) bs ws"
    and "list_all (fits 0) es" "map (cval (ctx_symbols c)) es = map Some vs"
  shows "\<exists>a. find_array c toks name = Ok a \<and> arr_bounds a = ws \<and>
    node_ints c (arr_root a) arity = Ok (take arity vs @ replicate (arity - length vs) 0)"
proof -
  let ?k = "length pre" and ?bt = "concat (map print_bound bs)" and ?ss = "map (S_Leaf \<circ> print_expr) es"
  let ?after = "?k + 1 + length ?bt"
  have len: "length toks = length (map tok_token toks)" by simp
  have "holds toks 0 (pre @ [T_Ident name] @ ?bt @ [T_Punct (bytes_of ''='')] @ print_shape (S_List ?ss) @ post)"
    using assms(1) len unfolding holds_def by simp
  then have h: "holds toks ?k [T_Ident name]" "holds toks (?k + 1) ?bt" "holds toks ?after [T_Punct (bytes_of ''='')]"
      "holds toks (?after + 1) (print_shape (S_List ?ss))"
    unfolding holds_append by (simp_all add: add.assoc)
  have id: "tok_token (toks ! ?k) = T_Ident name" "?k < length toks" using h(1) by (auto simp: holds_Cons tok_get_def split: if_splits)
  have pre: "tok_token (toks ! j) \<noteq> T_Ident name" if "j < ?k" for j
  proof -
    have "tok_token (toks ! j) = map tok_token toks ! j" using that id(2) by simp
    also have "\<dots> = pre ! j" using that unfolding assms(1) by (simp add: nth_append)
    finally show ?thesis using that assms(2) nth_mem by metis
  qed
  have eq: "is_punct toks ?after ''=''" "\<not> is_punct toks ?after ''[''"
    using h(3) by (auto simp: holds_Cons is_punct_def bytes_of_def)
  have ws: "ws \<noteq> []" using assms(3,4) by auto
  have b: "read_bounds c toks (?k + 1) = Ok (Some (ws, ?after))"
    using bounds_loop_printed [OF h(2) assms(4) eq(2), of "[]"] ws by (simp add: read_bounds_def)
  have ok: "list_all shape_ok ?ss" using assms(5) expr_leaf_ok by (simp add: list_all_iff)
  obtain n nx where n: "read_node toks (?after + 1) = (n, nx)" "shape_of n = S_List ?ss" "is_list n"
    using read_node_list [OF h(4) ok] read_node_print ok unfolding list_all_iff by blast
  have f: "find_array c toks name = Ok \<lparr> arr_bounds = ws, arr_root = n \<rparr>"
  proof -
    have "find_array c toks name = find_array_from c toks name ?k"
      unfolding find_array_def using id(2) pre by (intro find_array_skip) simp_all
    also have "\<dots> = Ok \<lparr> arr_bounds = ws, arr_root = n \<rparr>"
      using id b eq(1) n by (subst find_array_from.simps) (simp add: Let_def)
    finally show ?thesis .
  qed
  obtain l items where i: "n = List l items" "map shape_of items = ?ss" using n(2) by (cases n) auto
  have "map shape_of (take arity items) = map (S_Leaf \<circ> print_expr) (take arity es)"
    using i(2) by (metis take_map)
  moreover have "list_all (fits 0) (take arity es)" using assms(5) by (auto simp: list_all_iff dest: in_set_takeD)
  moreover have "map (cval (ctx_symbols c)) (take arity es) = map Some (take arity vs)" using assms(6) by (metis take_map)
  ultimately have "ints_loop c (take arity items) = Ok (take arity vs)" by (rule ints_loop_values)
  then have "node_ints c n arity = Ok (take arity vs @ replicate (arity - length vs) 0)"
    using i(1) by (simp add: node_ints_def min_def)
  then show ?thesis using f by simp
qed

text \<open>\<open>x[1 | 2] = { 7, }\<close> read at arity two.\<close>

theorem array_reads_witness:
  "\<exists>a. find_array \<lparr> ctx_file = [], ctx_symbols = symbols_new \<rparr> (toks_of (T_Ident [120] #
       print_bound (Some (C_Bin 0 [124] (C_Num 1) (C_Num 2))) @ T_Punct (bytes_of ''='') # print_shape (S_List [S_Leaf [T_Int 7]]))) [120] = Ok a \<and>
     arr_bounds a = [Some 3] \<and> node_ints \<lparr> ctx_file = [], ctx_symbols = symbols_new \<rparr> (arr_root a) 2 = Ok [7, 0]"
proof -
  let ?c = "\<lparr> ctx_file = [], ctx_symbols = symbols_new \<rparr>" and ?b = "Some (C_Bin 0 [124] (C_Num 1) (C_Num 2))"
  have b: "list_all2 (bound_value (ctx_symbols ?c)) [?b] [Some 3]"
    by (simp add: PRECEDENCE_nth apply_op_def bytes_of_def)
  have m: "map tok_token (toks_of ts) = ts" for ts by (simp add: toks_of_def o_def)
  show ?thesis
    using array_reads [OF _ _ _ b, of _ "[]" "[120]" "[C_Num 7]" "[]" "[7]" 2, OF m] by simp
qed

section \<open>Where the reader is narrower than its comments\<close>

text \<open>An array bound that is a name is taken for a field of its own: \<open>int x[N];\<close> has the fields \<open>x\<close> and \<open>N\<close>.\<close>

lemma field_names_named_bound:
  "field_names (toks_of [T_Ident (bytes_of ''int''), T_Ident [120], T_Punct (bytes_of ''[''), T_Ident [78], T_Punct (bytes_of '']''), T_Punct (bytes_of '';'')]) =
     [[120], [78]]"
  by (simp add: field_names_def toks_of_def bytes_of_def)

text \<open>A mention whose subscript is not constant stops the search with an error instead of being passed over.\<close>

lemma find_array_subscript:
  "find_array \<lparr> ctx_file = [], ctx_symbols = symbols_new \<rparr>
     (toks_of ([T_Ident [120], T_Punct (bytes_of ''[''), T_Ident [105], T_Punct (bytes_of '']''), T_Punct (bytes_of '';'')] @ declaration)) [120] =
   Err (UnknownSymbol [] 1 [105])"
proof -
  let ?toks = "toks_of ([T_Ident [120], T_Punct (bytes_of ''[''), T_Ident [105], T_Punct (bytes_of '']''), T_Punct (bytes_of '';'')] @ declaration)"
  have "holds ?toks 2 ([T_Ident [105]] @ [T_Punct (bytes_of '']'')])" by (simp add: holds_def toks_of_def eval_nat_numeral)
  then have st: "to_bracket ?toks 2 = 3" using to_bracket_holds [of ?toks 2 "[T_Ident [105]]"] by simp
  have e: "eval_expr [] [\<lparr> tok_token = T_Ident [105], tok_line = 1 \<rparr>] symbols_new = Err (UnknownSymbol [] 1 [105])"
    by (simp add: eval_expr_def binary.simps unary.simps primary.simps punct_at_def tok_get_def symbol_value_def symbols_get_def
        is_ambiguous_def symbols_new_def bytes_of_def)
  have "is_punct ?toks 1 ''[''" by (simp add: is_punct_def tok_get_def toks_of_def)
  then have "bounds_loop \<lparr> ctx_file = [], ctx_symbols = symbols_new \<rparr> ?toks 1 [] = Err (UnknownSymbol [] 1 [105])"
    using st e by (subst bounds_loop.simps) (simp add: Let_def toks_of_def numeral_2_eq_2)
  then show ?thesis
    by (simp add: find_array_def find_array_from.simps [of _ _ _ 0] read_bounds_def) (simp add: toks_of_def)
qed

end
