(* ===== verification/Probe_Ram.thy ===== *)
theory Probe_Ram
  imports Exec Text_Format
begin

text \<open>
  The probe's typed reads over the machine's RAM, \<open>refemu/src/probe/ram.rs\<close>, and the errors of the
  whole probe, \<open>ProbeError\<close> of \<open>refemu/src/probe/mod.rs\<close>.  A read takes the RAM bytes directly, so it
  pops no key and changes nothing, and one outside RAM is an error that names the address.
\<close>

section \<open>Errors\<close>

datatype probe_error =
    LayoutRow nat string
  | LayoutEmpty
  | LayoutMissing rstring rstring
  | LayoutWidth rstring rstring u32 u32
  | NoSymbol rstring
  | AmbiguousSymbol rstring
  | SymbolSize rstring u32 u32
  | OutsideRam u32 u32 string
  | UnknownThinker u32 u32
  | ThinkerListRuns u32
  | MobjAsSectorThinker u32
  | NotAnIndex string u32 u32 string
  | ColumnOutOfOrder rstring rstring
  | RowTooShort nat nat
  | UnknownCaller u32
  | WriteFailed rstring

section \<open>Reads\<close>

record ram_view =
  rv_base :: u32
  rv_bytes :: "u8 list"

type_synonym 'a read = "('a, probe_error) rresult"

definition ram_holds :: "ram_view \<Rightarrow> u32 \<Rightarrow> bool" where
  "ram_holds r addr \<longleftrightarrow> rv_base r \<le> addr \<and> unat (addr - rv_base r) < length (rv_bytes r)"

definition ram_slice :: "ram_view \<Rightarrow> u32 \<Rightarrow> u32 \<Rightarrow> string \<Rightarrow> u8 list read" where
  "ram_slice r addr len what =
     (let at = (if rv_base r \<le> addr then Some (unat (addr - rv_base r)) else None) in
      case at of
        Some i \<Rightarrow> if i + unat len \<le> length (rv_bytes r) then Ok (take (unat len) (drop i (rv_bytes r)))
                  else Err (OutsideRam addr len what)
      | None \<Rightarrow> Err (OutsideRam addr len what))"

definition ram_u8 :: "ram_view \<Rightarrow> u32 \<Rightarrow> string \<Rightarrow> u8 read" where
  "ram_u8 r addr what = rbind (ram_slice r addr 1 what) (\<lambda>bs. of_option (if bs = [] then None else Some (bs ! 0)))"

definition ram_u16 :: "ram_view \<Rightarrow> u32 \<Rightarrow> string \<Rightarrow> u16 read" where
  "ram_u16 r addr what = rbind (ram_slice r addr 2 what) (\<lambda>bs.
     of_option (if length bs < 2 then None else Some (from_le_bytes [bs ! 0, bs ! 1])))"

definition ram_u32 :: "ram_view \<Rightarrow> u32 \<Rightarrow> string \<Rightarrow> u32 read" where
  "ram_u32 r addr what = rbind (ram_slice r addr 4 what) (\<lambda>bs.
     of_option (if length bs < 4 then None else Some (from_le_bytes [bs ! 0, bs ! 1, bs ! 2, bs ! 3])))"

text \<open>The signed reads are the same bytes; a value of theirs is read with \<open>sint\<close>.\<close>

definition ram_i8 :: "ram_view \<Rightarrow> u32 \<Rightarrow> string \<Rightarrow> int read" where
  "ram_i8 r addr what = rbind (ram_u8 r addr what) (\<lambda>v. Ok (sint v))"

definition ram_i16 :: "ram_view \<Rightarrow> u32 \<Rightarrow> string \<Rightarrow> int read" where
  "ram_i16 r addr what = rbind (ram_u16 r addr what) (\<lambda>v. Ok (sint v))"

definition ram_i32 :: "ram_view \<Rightarrow> u32 \<Rightarrow> string \<Rightarrow> int read" where
  "ram_i32 r addr what = rbind (ram_u32 r addr what) (\<lambda>v. Ok (sint v))"

definition ram_cstr :: "ram_view \<Rightarrow> u32 \<Rightarrow> u32 \<Rightarrow> string \<Rightarrow> u8 list read" where
  "ram_cstr r addr limit what =
     (if \<not> ram_holds r addr then Err (OutsideRam addr limit what)
      else let available = length (rv_bytes r) - (if rv_base r \<le> addr then unat (addr - rv_base r) else 0);
               len = min limit (of_nat available) in
        rbind (ram_slice r addr len what) (\<lambda>bs. Ok (takeWhile (\<lambda>b. b \<noteq> 0) bs)))"

section \<open>What a read returns\<close>

text \<open>\<open>within r addr n\<close>: the \<open>n\<close> bytes at \<open>addr\<close> are bytes of RAM.\<close>

definition within :: "ram_view \<Rightarrow> u32 \<Rightarrow> nat \<Rightarrow> bool" where
  "within r addr n \<longleftrightarrow> rv_base r \<le> addr \<and> unat (addr - rv_base r) + n \<le> length (rv_bytes r)"

definition bytes_at :: "ram_view \<Rightarrow> u32 \<Rightarrow> nat \<Rightarrow> u8 list" where
  "bytes_at r addr n = take n (drop (unat (addr - rv_base r)) (rv_bytes r))"

lemma ram_slice_eq:
  "ram_slice r addr len what =
     (if within r addr (unat len) then Ok (bytes_at r addr (unat len)) else Err (OutsideRam addr len what))"
  by (simp add: ram_slice_def within_def bytes_at_def)

lemma length_bytes_at [simp]: "within r addr n \<Longrightarrow> length (bytes_at r addr n) = n"
  by (auto simp: within_def bytes_at_def)

lemma ram_u8_eq: "ram_u8 r addr what = (if within r addr 1 then Ok (hd (bytes_at r addr 1)) else Err (OutsideRam addr 1 what))"
proof (cases "within r addr 1")
  case True
  then have "bytes_at r addr 1 \<noteq> []" using length_bytes_at [OF True] by (metis length_0_conv zero_neq_one)
  then show ?thesis using True by (simp add: ram_u8_def ram_slice_eq hd_conv_nth)
qed (simp add: ram_u8_def ram_slice_eq)

lemma ram_u16_eq:
  "ram_u16 r addr what = (if within r addr 2 then Ok (from_le_bytes (bytes_at r addr 2)) else Err (OutsideRam addr 2 what))"
proof (cases "within r addr 2")
  case True
  then have "unat (addr - rv_base r) + 2 \<le> length (rv_bytes r)" by (simp add: within_def)
  then show ?thesis using True slice_2 [of "unat (addr - rv_base r)" "rv_bytes r"]
    by (simp add: ram_u16_def ram_slice_eq bytes_at_def)
qed (simp add: ram_u16_def ram_slice_eq)

lemma ram_u32_eq:
  "ram_u32 r addr what = (if within r addr 4 then Ok (from_le_bytes (bytes_at r addr 4)) else Err (OutsideRam addr 4 what))"
proof (cases "within r addr 4")
  case True
  then have "unat (addr - rv_base r) + 4 \<le> length (rv_bytes r)" by (simp add: within_def)
  then show ?thesis using True slice_4 [of "unat (addr - rv_base r)" "rv_bytes r"]
    by (simp add: ram_u32_def ram_slice_eq bytes_at_def)
qed (simp add: ram_u32_def ram_slice_eq)

text \<open>The outcomes of a read that are no value: only the address outside RAM, and never a panic.\<close>

definition outside :: "probe_error \<Rightarrow> bool" where
  "outside e \<longleftrightarrow> (\<exists>a n w. e = OutsideRam a n w)"

lemma ram_read_err:
  "ram_slice r a n w = Err e \<Longrightarrow> outside e" "ram_u8 r a w = Err e \<Longrightarrow> outside e" "ram_u16 r a w = Err e \<Longrightarrow> outside e"
  "ram_u32 r a w = Err e \<Longrightarrow> outside e" "ram_i8 r a w = Err e \<Longrightarrow> outside e" "ram_i16 r a w = Err e \<Longrightarrow> outside e"
  "ram_i32 r a w = Err e \<Longrightarrow> outside e" "ram_cstr r a n w = Err e \<Longrightarrow> outside e"
  by (auto simp: outside_def ram_slice_eq ram_u8_eq ram_u16_eq ram_u32_eq ram_i8_def ram_i16_def ram_i32_def
      ram_cstr_def rbind_Err_iff Let_def split: if_splits)

lemma ram_read_no_panic [simp]:
  "ram_slice r a n w \<noteq> Panic" "ram_u8 r a w \<noteq> Panic" "ram_u16 r a w \<noteq> Panic" "ram_u32 r a w \<noteq> Panic"
  "ram_i8 r a w \<noteq> Panic" "ram_i16 r a w \<noteq> Panic" "ram_i32 r a w \<noteq> Panic" "ram_cstr r a n w \<noteq> Panic"
  by (auto simp: ram_slice_eq ram_u8_eq ram_u16_eq ram_u32_eq ram_i8_def ram_i16_def ram_i32_def
      ram_cstr_def rbind_Panic_iff Let_def)

end
