(* ===== verification/Probe_Layout.thy ===== *)
theory Probe_Layout
  imports Probe_Ram
begin

text \<open>
  The layout table of the probe, \<open>refemu/src/probe/layout.rs\<close>: parsing the table, looking a field up at
  the width the probe reads it at.  The hash map of the sources, which refuses a second row of the same
  key, is an association list.
\<close>

section \<open>The table\<close>

record layout_entry =
  fd_offset :: u32
  fd_size :: u32

record array_field =
  af_offset :: u32
  af_count :: u32

type_synonym layout = "((rstring \<times> rstring) \<times> layout_entry) list"

definition next_column :: "nat \<Rightarrow> rstring list \<Rightarrow> string \<Rightarrow> (rstring \<times> rstring list) read" where
  "next_column number columns what =
     (case columns of c # rest \<Rightarrow> Ok (c, rest) | [] \<Rightarrow> Err (LayoutRow (number + 1) what))"

definition decimal_column :: "nat \<Rightarrow> rstring \<Rightarrow> string \<Rightarrow> u32 read" where
  "decimal_column number column what =
     (case parse_u32 column of Some v \<Rightarrow> Ok v | None \<Rightarrow> Err (LayoutRow (number + 1) what))"

definition layout_row :: "nat \<Rightarrow> rstring \<Rightarrow> layout \<Rightarrow> layout read" where
  "layout_row number line table =
     rbind (next_column number (split_at 9 line) ''a struct name'') (\<lambda>(type_name, columns).
     rbind (next_column number columns ''a field name'') (\<lambda>(field_name, columns).
     rbind (next_column number columns ''an offset'') (\<lambda>(o_text, columns).
     rbind (decimal_column number o_text ''a decimal offset'') (\<lambda>offset.
     rbind (next_column number columns ''a size'') (\<lambda>(s_text, columns).
     rbind (decimal_column number s_text ''a decimal size'') (\<lambda>size.
     if columns \<noteq> [] then Err (LayoutRow (number + 1) ''four columns'')
     else if map_of table (type_name, field_name) \<noteq> None then Err (LayoutRow (number + 1) ''each field once'')
     else Ok (((type_name, field_name), \<lparr> fd_offset = offset, fd_size = size \<rparr>) # table)))))))"

fun layout_rows :: "nat \<Rightarrow> rstring list \<Rightarrow> layout \<Rightarrow> layout read" where
  "layout_rows number [] table = Ok table"
| "layout_rows number (raw # rest) table =
     (let line = str_trim_end raw in
      if line = [] \<or> hd line = 35 then layout_rows (number + 1) rest table
      else rbind (layout_row number line table) (\<lambda>table'. layout_rows (number + 1) rest table'))"

definition layout_parse :: "rstring \<Rightarrow> layout read" where
  "layout_parse txt = rbind (layout_rows 0 (text_lines txt) []) (\<lambda>table.
     if table = [] then Err LayoutEmpty else Ok table)"

definition layout_lookup :: "layout \<Rightarrow> rstring \<Rightarrow> rstring \<Rightarrow> layout_entry read" where
  "layout_lookup l type_name field = (case map_of l (type_name, field) of
     Some f \<Rightarrow> Ok f | None \<Rightarrow> Err (LayoutMissing type_name field))"

definition layout_field :: "layout \<Rightarrow> rstring \<Rightarrow> rstring \<Rightarrow> u32 \<Rightarrow> u32 read" where
  "layout_field l type_name field width = rbind (layout_lookup l type_name field) (\<lambda>found.
     if fd_size found \<noteq> width then Err (LayoutWidth type_name field width (fd_size found))
     else Ok (fd_offset found))"

definition layout_array :: "layout \<Rightarrow> rstring \<Rightarrow> rstring \<Rightarrow> u32 \<Rightarrow> (u32 \<times> u32) read" where
  "layout_array l type_name field element = rbind (layout_lookup l type_name field) (\<lambda>found.
     if element = 0 \<or> fd_size found mod element \<noteq> 0
     then Err (LayoutWidth type_name field element (fd_size found))
     else Ok (fd_offset found, fd_size found div element))"

definition SIZEOF :: rstring where
  "SIZEOF = ascii ''sizeof''"

definition layout_size_of :: "layout \<Rightarrow> rstring \<Rightarrow> u32 read" where
  "layout_size_of l type_name = rbind (layout_lookup l type_name SIZEOF) (\<lambda>f. Ok (fd_size f))"

section \<open>A field of the table\<close>

lemma layout_field_Ok_iff:
  "layout_field l t f w = Ok off \<longleftrightarrow> map_of l (t, f) = Some \<lparr> fd_offset = off, fd_size = w \<rparr>"
  by (cases "map_of l (t, f)") (auto simp: layout_field_def layout_lookup_def, metis layout_entry.select_convs(1))

lemma layout_size_of_Ok_iff:
  "layout_size_of l t = Ok n \<longleftrightarrow> (\<exists>f. map_of l (t, SIZEOF) = Some f \<and> fd_size f = n)"
  by (auto simp: layout_size_of_def layout_lookup_def split: option.split)

section \<open>Writing a table\<close>

text \<open>A line of a table: a comment, or a row of a struct, a field, its offset and its size.\<close>

datatype layout_line = Remark rstring | Row rstring rstring u32 u32

fun line_text :: "layout_line \<Rightarrow> rstring" where
  "line_text (Remark c) = 35 # c"
| "line_text (Row t f off n) = t @ [9] @ f @ [9] @ to_decimal (unat off) @ [9] @ to_decimal (unat n)"

fun line_ok :: "layout_line \<Rightarrow> bool" where
  "line_ok (Remark c) \<longleftrightarrow> 10 \<notin> set c \<and> 13 \<notin> set c"
| "line_ok (Row t f off n) \<longleftrightarrow> {9, 10} \<inter> (set t \<union> set f) = {} \<and> (t = [] \<or> hd t \<noteq> 35)"

definition table_text :: "layout_line list \<Rightarrow> rstring" where
  "table_text ls = concat (map (\<lambda>l. line_text l @ [10]) ls)"

fun table_rows :: "layout_line list \<Rightarrow> layout" where
  "table_rows [] = []"
| "table_rows (Remark c # ls) = table_rows ls"
| "table_rows (Row t f off n # ls) = ((t, f), \<lparr> fd_offset = off, fd_size = n \<rparr>) # table_rows ls"

lemma trim_with_suffix: "\<exists>ys. bs = ys @ trim_with ws bs \<and> set ys \<subseteq> \<Union> (set ` set ws)"
proof (induction ws bs rule: trim_with.induct)
  case (1 ws bs)
  let ?f = "List.find (\<lambda>w. w \<noteq> [] \<and> take (length w) bs = w) ws"
  show ?case
  proof (cases ?f)
    case None
    then show ?thesis by (simp add: trim_with.simps [of ws bs])
  next
    case (Some w)
    then have w: "w \<in> set ws" "take (length w) bs = w" by (auto simp: find_Some_iff)
    obtain ys where ys: "drop (length w) bs = ys @ trim_with ws (drop (length w) bs)" "set ys \<subseteq> \<Union> (set ` set ws)"
      using 1 [OF Some] by blast
    have "bs = w @ drop (length w) bs" using w(2) append_take_drop_id [of "length w" bs] by simp
    then have "bs = (w @ ys) @ trim_with ws bs" using ys(1) Some by (simp add: trim_with.simps [of ws bs])
    moreover have "set (w @ ys) \<subseteq> \<Union> (set ` set ws)" using w(1) ys(2) by auto
    ultimately show ?thesis by blast
  qed
qed

text \<open>A byte that no white space holds stops the trimming.\<close>

lemma str_trim_end_append:
  assumes "b \<notin> \<Union> (set ` set white_space)"
  shows "\<exists>zs. str_trim_end (xs @ b # ys) = xs @ b # zs \<and> (ys = [] \<longrightarrow> zs = [])"
proof -
  let ?ws = "map rev white_space" and ?r = "rev ys @ b # rev xs"
  have e: "str_trim_end (xs @ b # ys) = rev (trim_with ?ws ?r)" by (simp add: str_trim_end_def)
  obtain us where us: "?r = us @ trim_with ?ws ?r" "set us \<subseteq> \<Union> (set ` set ?ws)" using trim_with_suffix by blast
  have nb: "b \<notin> set us" using us(2) assms by auto
  have "length us \<le> length ys"
  proof (rule ccontr)
    assume "\<not> length us \<le> length ys"
    then have "us ! length ys = b" using us(1) nth_append [of us "trim_with ?ws ?r" "length ys"]
      by (metis length_rev not_le nth_append_length)
    then show False using nb \<open>\<not> length us \<le> length ys\<close> by (metis not_le nth_mem)
  qed
  then have "trim_with ?ws ?r = drop (length us) (rev ys) @ b # rev xs"
    using us(1) by (metis append_eq_conv_conj drop_append length_rev diff_is_0_eq drop_0)
  then have "str_trim_end (xs @ b # ys) = xs @ b # rev (drop (length us) (rev ys))" unfolding e by simp
  then show ?thesis by auto
qed

lemma white_space_bytes: "b \<in> \<Union> (set ` set white_space) \<Longrightarrow> \<not> is_ascii_digit b \<and> b \<noteq> 35"
  by (auto simp: white_space_def is_ascii_digit_def upt_rec)

lemma trim_decimal: "str_trim_end (xs @ to_decimal n) = xs @ to_decimal n"
proof -
  have "last (to_decimal n) \<in> set (to_decimal n)" using to_decimal_not_Nil by simp
  then have "last (to_decimal n) \<notin> \<Union> (set ` set white_space)" using white_space_bytes to_decimal_digits by blast
  from str_trim_end_append [OF this, of "xs @ butlast (to_decimal n)" "[]"] show ?thesis
    using to_decimal_not_Nil [of n] by simp
qed

lemma trim_remark: "\<exists>zs. str_trim_end (35 # c) = 35 # zs"
  using str_trim_end_append [of 35 "[]" c] white_space_bytes by auto

lemma digits_plain: "b \<in> {9, 10, 13, 35} \<Longrightarrow> b \<notin> set (to_decimal n)"
  using to_decimal_digits [of b n] by (auto simp: is_ascii_digit_def)

lemma last_decimal: "last (xs @ to_decimal n) \<noteq> 13"
  using to_decimal_not_Nil [of n] digits_plain [of 13 n] by (metis insertI1 insertI2 last_appendR last_in_set)

lemma line_text_plain: "line_ok l \<Longrightarrow> 10 \<notin> set (line_text l) \<and> last (line_text l) \<noteq> 13"
proof (cases l)
  case (Remark c)
  then show "line_ok l \<Longrightarrow> ?thesis" by (auto dest: last_in_set)
next
  case (Row t f off n)
  then show "line_ok l \<Longrightarrow> ?thesis"
    using last_decimal [of "t @ [9] @ f @ [9] @ to_decimal (unat off) @ [9]" "unat n"] digits_plain [of 10] by auto
qed

lemma row_columns_split:
  assumes "line_ok (Row t f off n)"
  shows "split_at 9 (line_text (Row t f off n)) = [t, f, to_decimal (unat off), to_decimal (unat n)]"
  using assms digits_plain [of 9] by (auto simp: split_append split_no_sep)

lemma layout_row_line:
  assumes "line_ok (Row t f off n)" "map_of table (t, f) = None"
  shows "layout_row k (line_text (Row t f off n)) table = Ok (((t, f), \<lparr> fd_offset = off, fd_size = n \<rparr>) # table)"
  using assms(2) by (simp add: layout_row_def row_columns_split [OF assms(1)] next_column_def decimal_column_def
      parse_u32_to_decimal del: line_text.simps)

lemma row_line_head:
  assumes "line_ok (Row t f off n)"
  shows "str_trim_end (line_text (Row t f off n)) = line_text (Row t f off n)"
    "line_text (Row t f off n) \<noteq> []" "hd (line_text (Row t f off n)) \<noteq> 35"
  using assms trim_decimal [of "t @ [9] @ f @ [9] @ to_decimal (unat off) @ [9]" "unat n"] by (auto simp: hd_append)

lemma layout_rows_text:
  assumes "\<forall>l\<in>set ls. line_ok l" "distinct (map fst (table_rows ls) @ map fst table)"
  shows "layout_rows k (map line_text ls) table = Ok (rev (table_rows ls) @ table)"
  using assms
proof (induction ls arbitrary: k table)
  case (Cons l ls)
  show ?case
  proof (cases l)
    case (Remark c)
    then show ?thesis using Cons trim_remark [of c] by (auto simp: Let_def)
  next
    case (Row t f off n)
    have ok: "line_ok (Row t f off n)" using Cons.prems(1) Row by simp
    have "(t, f) \<notin> fst ` set table" using Cons.prems(2) Row by auto
    then have new: "map_of table (t, f) = None" by (simp add: map_of_eq_None_iff)
    show ?thesis
      using Cons row_line_head [OF ok] layout_row_line [OF ok new] Row by (simp add: Let_def del: line_text.simps)
  qed
qed simp

text \<open>
  A layout table reads back as it was written: with comment lines anywhere, as long as each field
  has one row, the parsed table gives every field the offset and the size of its row and knows no other
  field, and the width check accepts exactly the size of the row.
\<close>

theorem layout_roundtrip:
  assumes "\<forall>l\<in>set ls. line_ok l" "distinct (map fst (table_rows ls))" "table_rows ls \<noteq> []"
  shows "\<exists>l. layout_parse (table_text ls) = Ok l \<and>
    (\<forall>t f off w. layout_field l t f w = Ok off \<longleftrightarrow> Row t f off w \<in> set ls)"
proof -
  have "text_lines (table_text ls) = map line_text ls"
    using text_lines_concat [of "map line_text ls"] line_text_plain assms(1) by (auto simp: table_text_def comp_def)
  then have p: "layout_parse (table_text ls) = Ok (rev (table_rows ls))"
    using layout_rows_text [of ls "[]" 0] assms by (simp add: layout_parse_def)
  have m: "map_of (rev (table_rows ls)) k = Some e \<longleftrightarrow> (k, e) \<in> set (table_rows ls)" for k e
    using assms(2) map_of_eq_Some_iff [of "rev (table_rows ls)" k e] by (simp add: rev_map [symmetric])
  have r: "((t, f), \<lparr> fd_offset = off, fd_size = w \<rparr>) \<in> set (table_rows ls) \<longleftrightarrow> Row t f off w \<in> set ls" for t f off w
    by (induction ls rule: table_rows.induct) auto
  show ?thesis using p m r by (simp add: layout_field_Ok_iff)
qed

text \<open>Two rows of \<open>thinker_t\<close> under a comment.\<close>

definition table_small :: "layout_line list" where
  "table_small = [Remark (ascii '' clickdoom-layout 1''), Row (ascii ''thinker_t'') (ascii ''next'') 4 4,
     Row (ascii ''thinker_t'') SIZEOF 0 12]"

theorem layout_roundtrip_witness:
  "\<exists>l. layout_parse (table_text table_small) = Ok l \<and> layout_field l (ascii ''thinker_t'') (ascii ''next'') 4 = Ok 4"
proof -
  have "\<forall>l\<in>set table_small. line_ok l" "distinct (map fst (table_rows table_small))" "table_rows table_small \<noteq> []"
    by (simp_all add: table_small_def ascii_def SIZEOF_def)
  from layout_roundtrip [OF this] show ?thesis by (auto simp: table_small_def)
qed

end
