(* ===== verification/Probe_Offsets.thy ===== *)
theory Probe_Offsets
  imports Probe_Layout
begin

text \<open>
  The structs the \<open>offsets!\<close> macro declares in \<open>refemu/src/probe/world.rs\<close>, the resolution it generates
  for each, and all of them together.
\<close>

section \<open>The structs of the engine\<close>

text \<open>
  What the macro makes of a struct: its size, and each field at its width; a bracketed width is an array
  of elements of that width.
\<close>

definition layout_array_field :: "layout \<Rightarrow> rstring \<Rightarrow> rstring \<Rightarrow> u32 \<Rightarrow> array_field read" where
  "layout_array_field l type_name field element = rbind (layout_array l type_name field element) (\<lambda>(off, n).
     Ok \<lparr> af_offset = off, af_count = n \<rparr>)"

record thinker_offsets =
  th_size :: u32
  th_prev :: u32
  th_next :: u32
  th_function :: u32

definition thinker_offsets_resolve :: "layout \<Rightarrow> thinker_offsets read" where
  "thinker_offsets_resolve l = (let t = ascii ''thinker_t'' in
     rbind (layout_size_of l t) (\<lambda>size.
     rbind (layout_field l t (ascii ''prev'') 4) (\<lambda>prev.
     rbind (layout_field l t (ascii ''next'') 4) (\<lambda>next.
     rbind (layout_field l t (ascii ''function'') 4) (\<lambda>function.
     Ok \<lparr> th_size = size, th_prev = prev, th_next = next, th_function = function \<rparr>)))))"

record mapthing_offsets =
  mt_size :: u32
  mt_x :: u32
  mt_y :: u32
  mt_angle :: u32
  mt_kind :: u32
  mt_options :: u32

definition mapthing_offsets_resolve :: "layout \<Rightarrow> mapthing_offsets read" where
  "mapthing_offsets_resolve l = (let t = ascii ''mapthing_t'' in
     rbind (layout_size_of l t) (\<lambda>size.
     rbind (layout_field l t (ascii ''x'') 2) (\<lambda>x.
     rbind (layout_field l t (ascii ''y'') 2) (\<lambda>y.
     rbind (layout_field l t (ascii ''angle'') 2) (\<lambda>angle.
     rbind (layout_field l t (ascii ''type'') 2) (\<lambda>kind.
     rbind (layout_field l t (ascii ''options'') 2) (\<lambda>options.
     Ok \<lparr> mt_size = size, mt_x = x, mt_y = y, mt_angle = angle, mt_kind = kind, mt_options = options \<rparr>)))))))"

record mobj_offsets =
  mo_size :: u32
  mo_x :: u32
  mo_y :: u32
  mo_z :: u32
  mo_angle :: u32
  mo_sprite :: u32
  mo_frame :: u32
  mo_subsector :: u32
  mo_floorz :: u32
  mo_ceilingz :: u32
  mo_radius :: u32
  mo_height :: u32
  mo_momx :: u32
  mo_momy :: u32
  mo_momz :: u32
  mo_kind :: u32
  mo_tics :: u32
  mo_state :: u32
  mo_flags :: u32
  mo_health :: u32
  mo_movedir :: u32
  mo_movecount :: u32
  mo_target :: u32
  mo_reactiontime :: u32
  mo_threshold :: u32
  mo_player :: u32
  mo_lastlook :: u32
  mo_spawnpoint :: u32
  mo_tracer :: u32

definition mobj_offsets_resolve :: "layout \<Rightarrow> mobj_offsets read" where
  "mobj_offsets_resolve l = (let t = ascii ''mobj_t'' in
     rbind (layout_size_of l t) (\<lambda>size.
     rbind (layout_field l t (ascii ''x'') 4) (\<lambda>x.
     rbind (layout_field l t (ascii ''y'') 4) (\<lambda>y.
     rbind (layout_field l t (ascii ''z'') 4) (\<lambda>z.
     rbind (layout_field l t (ascii ''angle'') 4) (\<lambda>angle.
     rbind (layout_field l t (ascii ''sprite'') 4) (\<lambda>sprite.
     rbind (layout_field l t (ascii ''frame'') 4) (\<lambda>frame.
     rbind (layout_field l t (ascii ''subsector'') 4) (\<lambda>subsector.
     rbind (layout_field l t (ascii ''floorz'') 4) (\<lambda>floorz.
     rbind (layout_field l t (ascii ''ceilingz'') 4) (\<lambda>ceilingz.
     rbind (layout_field l t (ascii ''radius'') 4) (\<lambda>radius.
     rbind (layout_field l t (ascii ''height'') 4) (\<lambda>height.
     rbind (layout_field l t (ascii ''momx'') 4) (\<lambda>momx.
     rbind (layout_field l t (ascii ''momy'') 4) (\<lambda>momy.
     rbind (layout_field l t (ascii ''momz'') 4) (\<lambda>momz.
     rbind (layout_field l t (ascii ''type'') 4) (\<lambda>kind.
     rbind (layout_field l t (ascii ''tics'') 4) (\<lambda>tics.
     rbind (layout_field l t (ascii ''state'') 4) (\<lambda>state.
     rbind (layout_field l t (ascii ''flags'') 4) (\<lambda>flags.
     rbind (layout_field l t (ascii ''health'') 4) (\<lambda>health.
     rbind (layout_field l t (ascii ''movedir'') 4) (\<lambda>movedir.
     rbind (layout_field l t (ascii ''movecount'') 4) (\<lambda>movecount.
     rbind (layout_field l t (ascii ''target'') 4) (\<lambda>target.
     rbind (layout_field l t (ascii ''reactiontime'') 4) (\<lambda>reactiontime.
     rbind (layout_field l t (ascii ''threshold'') 4) (\<lambda>threshold.
     rbind (layout_field l t (ascii ''player'') 4) (\<lambda>player.
     rbind (layout_field l t (ascii ''lastlook'') 4) (\<lambda>lastlook.
     rbind (layout_field l t (ascii ''spawnpoint'') 10) (\<lambda>spawnpoint.
     rbind (layout_field l t (ascii ''tracer'') 4) (\<lambda>tracer.
     Ok \<lparr> mo_size = size, mo_x = x, mo_y = y, mo_z = z, mo_angle = angle, mo_sprite = sprite,
       mo_frame = frame, mo_subsector = subsector, mo_floorz = floorz, mo_ceilingz = ceilingz,
       mo_radius = radius, mo_height = height, mo_momx = momx, mo_momy = momy, mo_momz = momz, mo_kind = kind,
       mo_tics = tics, mo_state = state, mo_flags = flags, mo_health = health, mo_movedir = movedir,
       mo_movecount = movecount, mo_target = target, mo_reactiontime = reactiontime, mo_threshold = threshold,
       mo_player = player, mo_lastlook = lastlook, mo_spawnpoint = spawnpoint, mo_tracer = tracer \<rparr>))))))))))))))))))))))))))))))"

record ticcmd_offsets =
  tc_size :: u32
  tc_forwardmove :: u32
  tc_sidemove :: u32
  tc_angleturn :: u32
  tc_buttons :: u32

definition ticcmd_offsets_resolve :: "layout \<Rightarrow> ticcmd_offsets read" where
  "ticcmd_offsets_resolve l = (let t = ascii ''ticcmd_t'' in
     rbind (layout_size_of l t) (\<lambda>size.
     rbind (layout_field l t (ascii ''forwardmove'') 1) (\<lambda>forwardmove.
     rbind (layout_field l t (ascii ''sidemove'') 1) (\<lambda>sidemove.
     rbind (layout_field l t (ascii ''angleturn'') 2) (\<lambda>angleturn.
     rbind (layout_field l t (ascii ''buttons'') 1) (\<lambda>buttons.
     Ok \<lparr> tc_size = size, tc_forwardmove = forwardmove, tc_sidemove = sidemove, tc_angleturn = angleturn,
       tc_buttons = buttons \<rparr>))))))"

record pspdef_offsets =
  psp_size :: u32
  psp_state :: u32
  psp_tics :: u32
  psp_sx :: u32
  psp_sy :: u32

definition pspdef_offsets_resolve :: "layout \<Rightarrow> pspdef_offsets read" where
  "pspdef_offsets_resolve l = (let t = ascii ''pspdef_t'' in
     rbind (layout_size_of l t) (\<lambda>size.
     rbind (layout_field l t (ascii ''state'') 4) (\<lambda>state.
     rbind (layout_field l t (ascii ''tics'') 4) (\<lambda>tics.
     rbind (layout_field l t (ascii ''sx'') 4) (\<lambda>sx.
     rbind (layout_field l t (ascii ''sy'') 4) (\<lambda>sy.
     Ok \<lparr> psp_size = size, psp_state = state, psp_tics = tics, psp_sx = sx, psp_sy = sy \<rparr>))))))"

record player_offsets =
  pl_size :: u32
  pl_mo :: u32
  pl_playerstate :: u32
  pl_cmd :: u32
  pl_viewz :: u32
  pl_viewheight :: u32
  pl_deltaviewheight :: u32
  pl_bob :: u32
  pl_health :: u32
  pl_armorpoints :: u32
  pl_armortype :: u32
  pl_powers :: array_field
  pl_cards :: array_field
  pl_backpack :: u32
  pl_readyweapon :: u32
  pl_pendingweapon :: u32
  pl_weaponowned :: array_field
  pl_ammo :: array_field
  pl_maxammo :: array_field
  pl_attackdown :: u32
  pl_usedown :: u32
  pl_cheats :: u32
  pl_refire :: u32
  pl_killcount :: u32
  pl_itemcount :: u32
  pl_secretcount :: u32
  pl_message :: u32
  pl_damagecount :: u32
  pl_bonuscount :: u32
  pl_attacker :: u32
  pl_extralight :: u32
  pl_fixedcolormap :: u32
  pl_psprites :: array_field

definition player_offsets_resolve :: "layout \<Rightarrow> player_offsets read" where
  "player_offsets_resolve l = (let t = ascii ''player_t'' in
     rbind (layout_size_of l t) (\<lambda>size.
     rbind (layout_field l t (ascii ''mo'') 4) (\<lambda>mo.
     rbind (layout_field l t (ascii ''playerstate'') 4) (\<lambda>playerstate.
     rbind (layout_field l t (ascii ''cmd'') 16) (\<lambda>cmd.
     rbind (layout_field l t (ascii ''viewz'') 4) (\<lambda>viewz.
     rbind (layout_field l t (ascii ''viewheight'') 4) (\<lambda>viewheight.
     rbind (layout_field l t (ascii ''deltaviewheight'') 4) (\<lambda>deltaviewheight.
     rbind (layout_field l t (ascii ''bob'') 4) (\<lambda>bob.
     rbind (layout_field l t (ascii ''health'') 4) (\<lambda>health.
     rbind (layout_field l t (ascii ''armorpoints'') 4) (\<lambda>armorpoints.
     rbind (layout_field l t (ascii ''armortype'') 4) (\<lambda>armortype.
     rbind (layout_array_field l t (ascii ''powers'') 4) (\<lambda>powers.
     rbind (layout_array_field l t (ascii ''cards'') 4) (\<lambda>cards.
     rbind (layout_field l t (ascii ''backpack'') 4) (\<lambda>backpack.
     rbind (layout_field l t (ascii ''readyweapon'') 4) (\<lambda>readyweapon.
     rbind (layout_field l t (ascii ''pendingweapon'') 4) (\<lambda>pendingweapon.
     rbind (layout_array_field l t (ascii ''weaponowned'') 4) (\<lambda>weaponowned.
     rbind (layout_array_field l t (ascii ''ammo'') 4) (\<lambda>ammo.
     rbind (layout_array_field l t (ascii ''maxammo'') 4) (\<lambda>maxammo.
     rbind (layout_field l t (ascii ''attackdown'') 4) (\<lambda>attackdown.
     rbind (layout_field l t (ascii ''usedown'') 4) (\<lambda>usedown.
     rbind (layout_field l t (ascii ''cheats'') 4) (\<lambda>cheats.
     rbind (layout_field l t (ascii ''refire'') 4) (\<lambda>refire.
     rbind (layout_field l t (ascii ''killcount'') 4) (\<lambda>killcount.
     rbind (layout_field l t (ascii ''itemcount'') 4) (\<lambda>itemcount.
     rbind (layout_field l t (ascii ''secretcount'') 4) (\<lambda>secretcount.
     rbind (layout_field l t (ascii ''message'') 4) (\<lambda>message.
     rbind (layout_field l t (ascii ''damagecount'') 4) (\<lambda>damagecount.
     rbind (layout_field l t (ascii ''bonuscount'') 4) (\<lambda>bonuscount.
     rbind (layout_field l t (ascii ''attacker'') 4) (\<lambda>attacker.
     rbind (layout_field l t (ascii ''extralight'') 4) (\<lambda>extralight.
     rbind (layout_field l t (ascii ''fixedcolormap'') 4) (\<lambda>fixedcolormap.
     rbind (layout_array_field l t (ascii ''psprites'') 16) (\<lambda>psprites.
     Ok \<lparr> pl_size = size, pl_mo = mo, pl_playerstate = playerstate, pl_cmd = cmd, pl_viewz = viewz,
       pl_viewheight = viewheight, pl_deltaviewheight = deltaviewheight, pl_bob = bob, pl_health = health,
       pl_armorpoints = armorpoints, pl_armortype = armortype, pl_powers = powers, pl_cards = cards,
       pl_backpack = backpack, pl_readyweapon = readyweapon, pl_pendingweapon = pendingweapon,
       pl_weaponowned = weaponowned, pl_ammo = ammo, pl_maxammo = maxammo, pl_attackdown = attackdown,
       pl_usedown = usedown, pl_cheats = cheats, pl_refire = refire, pl_killcount = killcount,
       pl_itemcount = itemcount, pl_secretcount = secretcount, pl_message = message,
       pl_damagecount = damagecount, pl_bonuscount = bonuscount, pl_attacker = attacker,
       pl_extralight = extralight, pl_fixedcolormap = fixedcolormap, pl_psprites = psprites \<rparr>))))))))))))))))))))))))))))))))))"

record sector_offsets =
  sec_size :: u32
  sec_floorheight :: u32
  sec_ceilingheight :: u32
  sec_floorpic :: u32
  sec_lightlevel :: u32
  sec_special :: u32
  sec_soundtraversed :: u32
  sec_soundtarget :: u32
  sec_specialdata :: u32

definition sector_offsets_resolve :: "layout \<Rightarrow> sector_offsets read" where
  "sector_offsets_resolve l = (let t = ascii ''sector_t'' in
     rbind (layout_size_of l t) (\<lambda>size.
     rbind (layout_field l t (ascii ''floorheight'') 4) (\<lambda>floorheight.
     rbind (layout_field l t (ascii ''ceilingheight'') 4) (\<lambda>ceilingheight.
     rbind (layout_field l t (ascii ''floorpic'') 2) (\<lambda>floorpic.
     rbind (layout_field l t (ascii ''lightlevel'') 2) (\<lambda>lightlevel.
     rbind (layout_field l t (ascii ''special'') 2) (\<lambda>special.
     rbind (layout_field l t (ascii ''soundtraversed'') 4) (\<lambda>soundtraversed.
     rbind (layout_field l t (ascii ''soundtarget'') 4) (\<lambda>soundtarget.
     rbind (layout_field l t (ascii ''specialdata'') 4) (\<lambda>specialdata.
     Ok \<lparr> sec_size = size, sec_floorheight = floorheight, sec_ceilingheight = ceilingheight,
       sec_floorpic = floorpic, sec_lightlevel = lightlevel, sec_special = special,
       sec_soundtraversed = soundtraversed, sec_soundtarget = soundtarget, sec_specialdata = specialdata \<rparr>))))))))))"

record line_offsets =
  ln_size :: u32
  ln_special :: u32

definition line_offsets_resolve :: "layout \<Rightarrow> line_offsets read" where
  "line_offsets_resolve l = (let t = ascii ''line_t'' in
     rbind (layout_size_of l t) (\<lambda>size.
     rbind (layout_field l t (ascii ''special'') 2) (\<lambda>special.
     Ok \<lparr> ln_size = size, ln_special = special \<rparr>)))"

record side_offsets =
  sd_size :: u32
  sd_textureoffset :: u32
  sd_toptexture :: u32
  sd_bottomtexture :: u32
  sd_midtexture :: u32

definition side_offsets_resolve :: "layout \<Rightarrow> side_offsets read" where
  "side_offsets_resolve l = (let t = ascii ''side_t'' in
     rbind (layout_size_of l t) (\<lambda>size.
     rbind (layout_field l t (ascii ''textureoffset'') 4) (\<lambda>textureoffset.
     rbind (layout_field l t (ascii ''toptexture'') 2) (\<lambda>toptexture.
     rbind (layout_field l t (ascii ''bottomtexture'') 2) (\<lambda>bottomtexture.
     rbind (layout_field l t (ascii ''midtexture'') 2) (\<lambda>midtexture.
     Ok \<lparr> sd_size = size, sd_textureoffset = textureoffset, sd_toptexture = toptexture,
       sd_bottomtexture = bottomtexture, sd_midtexture = midtexture \<rparr>))))))"

record door_offsets =
  dr_size :: u32
  dr_kind :: u32
  dr_sector :: u32
  dr_topheight :: u32
  dr_speed :: u32
  dr_direction :: u32
  dr_topwait :: u32
  dr_topcountdown :: u32

definition door_offsets_resolve :: "layout \<Rightarrow> door_offsets read" where
  "door_offsets_resolve l = (let t = ascii ''vldoor_t'' in
     rbind (layout_size_of l t) (\<lambda>size.
     rbind (layout_field l t (ascii ''type'') 4) (\<lambda>kind.
     rbind (layout_field l t (ascii ''sector'') 4) (\<lambda>sector.
     rbind (layout_field l t (ascii ''topheight'') 4) (\<lambda>topheight.
     rbind (layout_field l t (ascii ''speed'') 4) (\<lambda>speed.
     rbind (layout_field l t (ascii ''direction'') 4) (\<lambda>direction.
     rbind (layout_field l t (ascii ''topwait'') 4) (\<lambda>topwait.
     rbind (layout_field l t (ascii ''topcountdown'') 4) (\<lambda>topcountdown.
     Ok \<lparr> dr_size = size, dr_kind = kind, dr_sector = sector, dr_topheight = topheight, dr_speed = speed,
       dr_direction = direction, dr_topwait = topwait, dr_topcountdown = topcountdown \<rparr>)))))))))"

record plat_offsets =
  pt_size :: u32
  pt_sector :: u32
  pt_speed :: u32
  pt_low :: u32
  pt_high :: u32
  pt_wait :: u32
  pt_count :: u32
  pt_status :: u32
  pt_oldstatus :: u32
  pt_crush :: u32
  pt_tag :: u32
  pt_kind :: u32

definition plat_offsets_resolve :: "layout \<Rightarrow> plat_offsets read" where
  "plat_offsets_resolve l = (let t = ascii ''plat_t'' in
     rbind (layout_size_of l t) (\<lambda>size.
     rbind (layout_field l t (ascii ''sector'') 4) (\<lambda>sector.
     rbind (layout_field l t (ascii ''speed'') 4) (\<lambda>speed.
     rbind (layout_field l t (ascii ''low'') 4) (\<lambda>low.
     rbind (layout_field l t (ascii ''high'') 4) (\<lambda>high.
     rbind (layout_field l t (ascii ''wait'') 4) (\<lambda>wait.
     rbind (layout_field l t (ascii ''count'') 4) (\<lambda>count.
     rbind (layout_field l t (ascii ''status'') 4) (\<lambda>status.
     rbind (layout_field l t (ascii ''oldstatus'') 4) (\<lambda>oldstatus.
     rbind (layout_field l t (ascii ''crush'') 4) (\<lambda>crush.
     rbind (layout_field l t (ascii ''tag'') 4) (\<lambda>tag.
     rbind (layout_field l t (ascii ''type'') 4) (\<lambda>kind.
     Ok \<lparr> pt_size = size, pt_sector = sector, pt_speed = speed, pt_low = low, pt_high = high,
       pt_wait = wait, pt_count = count, pt_status = status, pt_oldstatus = oldstatus, pt_crush = crush,
       pt_tag = tag, pt_kind = kind \<rparr>)))))))))))))"

record floor_offsets =
  flr_size :: u32
  flr_kind :: u32
  flr_crush :: u32
  flr_sector :: u32
  flr_direction :: u32
  flr_newspecial :: u32
  flr_texture :: u32
  flr_floordestheight :: u32
  flr_speed :: u32

definition floor_offsets_resolve :: "layout \<Rightarrow> floor_offsets read" where
  "floor_offsets_resolve l = (let t = ascii ''floormove_t'' in
     rbind (layout_size_of l t) (\<lambda>size.
     rbind (layout_field l t (ascii ''type'') 4) (\<lambda>kind.
     rbind (layout_field l t (ascii ''crush'') 4) (\<lambda>crush.
     rbind (layout_field l t (ascii ''sector'') 4) (\<lambda>sector.
     rbind (layout_field l t (ascii ''direction'') 4) (\<lambda>direction.
     rbind (layout_field l t (ascii ''newspecial'') 4) (\<lambda>newspecial.
     rbind (layout_field l t (ascii ''texture'') 2) (\<lambda>texture.
     rbind (layout_field l t (ascii ''floordestheight'') 4) (\<lambda>floordestheight.
     rbind (layout_field l t (ascii ''speed'') 4) (\<lambda>speed.
     Ok \<lparr> flr_size = size, flr_kind = kind, flr_crush = crush, flr_sector = sector,
       flr_direction = direction, flr_newspecial = newspecial, flr_texture = texture,
       flr_floordestheight = floordestheight, flr_speed = speed \<rparr>))))))))))"

record ceiling_offsets =
  ceil_size :: u32
  ceil_kind :: u32
  ceil_sector :: u32
  ceil_bottomheight :: u32
  ceil_topheight :: u32
  ceil_speed :: u32
  ceil_crush :: u32
  ceil_direction :: u32
  ceil_tag :: u32
  ceil_olddirection :: u32

definition ceiling_offsets_resolve :: "layout \<Rightarrow> ceiling_offsets read" where
  "ceiling_offsets_resolve l = (let t = ascii ''ceiling_t'' in
     rbind (layout_size_of l t) (\<lambda>size.
     rbind (layout_field l t (ascii ''type'') 4) (\<lambda>kind.
     rbind (layout_field l t (ascii ''sector'') 4) (\<lambda>sector.
     rbind (layout_field l t (ascii ''bottomheight'') 4) (\<lambda>bottomheight.
     rbind (layout_field l t (ascii ''topheight'') 4) (\<lambda>topheight.
     rbind (layout_field l t (ascii ''speed'') 4) (\<lambda>speed.
     rbind (layout_field l t (ascii ''crush'') 4) (\<lambda>crush.
     rbind (layout_field l t (ascii ''direction'') 4) (\<lambda>direction.
     rbind (layout_field l t (ascii ''tag'') 4) (\<lambda>tag.
     rbind (layout_field l t (ascii ''olddirection'') 4) (\<lambda>olddirection.
     Ok \<lparr> ceil_size = size, ceil_kind = kind, ceil_sector = sector, ceil_bottomheight = bottomheight,
       ceil_topheight = topheight, ceil_speed = speed, ceil_crush = crush, ceil_direction = direction,
       ceil_tag = tag, ceil_olddirection = olddirection \<rparr>)))))))))))"

record light_flash_offsets =
  lf_size :: u32
  lf_sector :: u32
  lf_count :: u32
  lf_maxlight :: u32
  lf_minlight :: u32
  lf_maxtime :: u32
  lf_mintime :: u32

definition light_flash_offsets_resolve :: "layout \<Rightarrow> light_flash_offsets read" where
  "light_flash_offsets_resolve l = (let t = ascii ''lightflash_t'' in
     rbind (layout_size_of l t) (\<lambda>size.
     rbind (layout_field l t (ascii ''sector'') 4) (\<lambda>sector.
     rbind (layout_field l t (ascii ''count'') 4) (\<lambda>count.
     rbind (layout_field l t (ascii ''maxlight'') 4) (\<lambda>maxlight.
     rbind (layout_field l t (ascii ''minlight'') 4) (\<lambda>minlight.
     rbind (layout_field l t (ascii ''maxtime'') 4) (\<lambda>maxtime.
     rbind (layout_field l t (ascii ''mintime'') 4) (\<lambda>mintime.
     Ok \<lparr> lf_size = size, lf_sector = sector, lf_count = count, lf_maxlight = maxlight,
       lf_minlight = minlight, lf_maxtime = maxtime, lf_mintime = mintime \<rparr>))))))))"

record strobe_offsets =
  stb_size :: u32
  stb_sector :: u32
  stb_count :: u32
  stb_minlight :: u32
  stb_maxlight :: u32
  stb_darktime :: u32
  stb_brighttime :: u32

definition strobe_offsets_resolve :: "layout \<Rightarrow> strobe_offsets read" where
  "strobe_offsets_resolve l = (let t = ascii ''strobe_t'' in
     rbind (layout_size_of l t) (\<lambda>size.
     rbind (layout_field l t (ascii ''sector'') 4) (\<lambda>sector.
     rbind (layout_field l t (ascii ''count'') 4) (\<lambda>count.
     rbind (layout_field l t (ascii ''minlight'') 4) (\<lambda>minlight.
     rbind (layout_field l t (ascii ''maxlight'') 4) (\<lambda>maxlight.
     rbind (layout_field l t (ascii ''darktime'') 4) (\<lambda>darktime.
     rbind (layout_field l t (ascii ''brighttime'') 4) (\<lambda>brighttime.
     Ok \<lparr> stb_size = size, stb_sector = sector, stb_count = count, stb_minlight = minlight,
       stb_maxlight = maxlight, stb_darktime = darktime, stb_brighttime = brighttime \<rparr>))))))))"

record glow_offsets =
  glo_size :: u32
  glo_sector :: u32
  glo_minlight :: u32
  glo_maxlight :: u32
  glo_direction :: u32

definition glow_offsets_resolve :: "layout \<Rightarrow> glow_offsets read" where
  "glow_offsets_resolve l = (let t = ascii ''glow_t'' in
     rbind (layout_size_of l t) (\<lambda>size.
     rbind (layout_field l t (ascii ''sector'') 4) (\<lambda>sector.
     rbind (layout_field l t (ascii ''minlight'') 4) (\<lambda>minlight.
     rbind (layout_field l t (ascii ''maxlight'') 4) (\<lambda>maxlight.
     rbind (layout_field l t (ascii ''direction'') 4) (\<lambda>direction.
     Ok \<lparr> glo_size = size, glo_sector = sector, glo_minlight = minlight, glo_maxlight = maxlight,
       glo_direction = direction \<rparr>))))))"

record fire_flicker_offsets =
  ff_size :: u32
  ff_sector :: u32
  ff_count :: u32
  ff_maxlight :: u32
  ff_minlight :: u32

definition fire_flicker_offsets_resolve :: "layout \<Rightarrow> fire_flicker_offsets read" where
  "fire_flicker_offsets_resolve l = (let t = ascii ''fireflicker_t'' in
     rbind (layout_size_of l t) (\<lambda>size.
     rbind (layout_field l t (ascii ''sector'') 4) (\<lambda>sector.
     rbind (layout_field l t (ascii ''count'') 4) (\<lambda>count.
     rbind (layout_field l t (ascii ''maxlight'') 4) (\<lambda>maxlight.
     rbind (layout_field l t (ascii ''minlight'') 4) (\<lambda>minlight.
     Ok \<lparr> ff_size = size, ff_sector = sector, ff_count = count, ff_maxlight = maxlight,
       ff_minlight = minlight \<rparr>))))))"

record button_offsets =
  btn_size :: u32
  btn_line :: u32
  btn_place :: u32
  btn_btexture :: u32
  btn_btimer :: u32

definition button_offsets_resolve :: "layout \<Rightarrow> button_offsets read" where
  "button_offsets_resolve l = (let t = ascii ''button_t'' in
     rbind (layout_size_of l t) (\<lambda>size.
     rbind (layout_field l t (ascii ''line'') 4) (\<lambda>line.
     rbind (layout_field l t (ascii ''where'') 4) (\<lambda>place.
     rbind (layout_field l t (ascii ''btexture'') 4) (\<lambda>btexture.
     rbind (layout_field l t (ascii ''btimer'') 4) (\<lambda>btimer.
     Ok \<lparr> btn_size = size, btn_line = line, btn_place = place, btn_btexture = btexture,
       btn_btimer = btimer \<rparr>))))))"

record textline_offsets =
  tl_size :: u32
  tl_text :: array_field
  tl_len :: u32

definition textline_offsets_resolve :: "layout \<Rightarrow> textline_offsets read" where
  "textline_offsets_resolve l = (let t = ascii ''hu_textline_t'' in
     rbind (layout_size_of l t) (\<lambda>size.
     rbind (layout_array_field l t (ascii ''l'') 1) (\<lambda>text.
     rbind (layout_field l t (ascii ''len'') 4) (\<lambda>len.
     Ok \<lparr> tl_size = size, tl_text = text, tl_len = len \<rparr>))))"

text \<open>The message widget, whose line count is the extent of its lines over the size of a line.\<close>

record stext_offsets =
  stx_size :: u32
  stx_lines :: u32
  stx_line_count :: u32
  stx_current :: u32

definition stext_offsets_resolve :: "layout \<Rightarrow> u32 \<Rightarrow> stext_offsets read" where
  "stext_offsets_resolve l line_size = (let t = ascii ''hu_stext_t'' in
     rbind (layout_array l t (ascii ''l'') line_size) (\<lambda>(lines, line_count).
     rbind (layout_size_of l t) (\<lambda>size.
     rbind (layout_field l t (ascii ''cl'') 4) (\<lambda>current.
     Ok \<lparr> stx_size = size, stx_lines = lines, stx_line_count = line_count, stx_current = current \<rparr>))))"

record offsets =
  o_thinker :: thinker_offsets
  o_mapthing :: mapthing_offsets
  o_mobj :: mobj_offsets
  o_ticcmd :: ticcmd_offsets
  o_pspdef :: pspdef_offsets
  o_player :: player_offsets
  o_sector :: sector_offsets
  o_line :: line_offsets
  o_side :: side_offsets
  o_door :: door_offsets
  o_plat :: plat_offsets
  o_floor :: floor_offsets
  o_ceiling :: ceiling_offsets
  o_light_flash :: light_flash_offsets
  o_strobe :: strobe_offsets
  o_glow :: glow_offsets
  o_fire_flicker :: fire_flicker_offsets
  o_button :: button_offsets
  o_textline :: textline_offsets
  o_stext :: stext_offsets
  o_state_size :: u32
  o_subsector_size :: u32

definition offsets_resolve :: "layout \<Rightarrow> offsets read" where
  "offsets_resolve l =
     rbind (thinker_offsets_resolve l) (\<lambda>thinker.
     rbind (mapthing_offsets_resolve l) (\<lambda>mapthing.
     rbind (mobj_offsets_resolve l) (\<lambda>mobj.
     rbind (ticcmd_offsets_resolve l) (\<lambda>ticcmd.
     rbind (pspdef_offsets_resolve l) (\<lambda>pspdef.
     rbind (player_offsets_resolve l) (\<lambda>player.
     rbind (sector_offsets_resolve l) (\<lambda>sector.
     rbind (line_offsets_resolve l) (\<lambda>line.
     rbind (side_offsets_resolve l) (\<lambda>side.
     rbind (door_offsets_resolve l) (\<lambda>door.
     rbind (plat_offsets_resolve l) (\<lambda>plat.
     rbind (floor_offsets_resolve l) (\<lambda>floor.
     rbind (ceiling_offsets_resolve l) (\<lambda>ceiling.
     rbind (light_flash_offsets_resolve l) (\<lambda>light_flash.
     rbind (strobe_offsets_resolve l) (\<lambda>strobe.
     rbind (glow_offsets_resolve l) (\<lambda>glow.
     rbind (fire_flicker_offsets_resolve l) (\<lambda>fire_flicker.
     rbind (button_offsets_resolve l) (\<lambda>button.
     rbind (textline_offsets_resolve l) (\<lambda>textline.
     rbind (rbind (layout_size_of l (ascii ''hu_textline_t'')) (stext_offsets_resolve l)) (\<lambda>stext.
     rbind (layout_size_of l (ascii ''state_t'')) (\<lambda>state_size.
     rbind (layout_size_of l (ascii ''subsector_t'')) (\<lambda>subsector_size.
     Ok \<lparr> o_thinker = thinker, o_mapthing = mapthing, o_mobj = mobj, o_ticcmd = ticcmd,
       o_pspdef = pspdef, o_player = player, o_sector = sector, o_line = line, o_side = side, o_door = door,
       o_plat = plat, o_floor = floor, o_ceiling = ceiling, o_light_flash = light_flash, o_strobe = strobe,
       o_glow = glow, o_fire_flicker = fire_flicker, o_button = button, o_textline = textline, o_stext = stext,
       o_state_size = state_size, o_subsector_size = subsector_size \<rparr>))))))))))))))))))))))"

end
