(* ===== verification/Probe_World.thy ===== *)
theory Probe_World
  imports Probe_Offsets
begin

text \<open>
  The engine as the probe addresses it, \<open>refemu/src/probe/world.rs\<close>: the globals found by name in the
  image's symbol table, the engine resolved from them and the layout table, the walk along the thinker
  list, and the index of a pointer into an array of the engine.
\<close>

section \<open>Symbols by name\<close>

record global =
  glb_addr :: u32
  glb_count :: u32

record globals =
  gl_leveltime :: u32
  gl_gametic :: u32
  gl_prndindex :: u32
  gl_rndindex :: u32
  gl_paused :: u32
  gl_demoplayback :: u32
  gl_totalkills :: u32
  gl_totalitems :: u32
  gl_totalsecret :: u32
  gl_thinkercap :: u32
  gl_sectors :: u32
  gl_numsectors :: u32
  gl_lines :: u32
  gl_numlines :: u32
  gl_sides :: u32
  gl_numsides :: u32
  gl_subsectors :: u32
  gl_numsubsectors :: u32
  gl_states :: global
  gl_texturetranslation :: u32
  gl_numtextures :: u32
  gl_flattranslation :: u32
  gl_numflats :: u32
  gl_players :: global
  gl_buttonlist :: global
  gl_activeplats :: global
  gl_activeceilings :: global
  gl_st_faceindex :: u32
  gl_st_facecount :: u32
  gl_st_priority :: u32
  gl_st_lastattackdown :: u32
  gl_st_oldweaponsowned :: global
  gl_st_oldhealth :: u32
  gl_st_randomnumber :: u32
  gl_st_lastcalc :: u32
  gl_st_calc_oldhealth :: u32
  gl_st_palette :: u32
  gl_st_clock :: u32
  gl_message_on :: u32
  gl_message_counter :: u32
  gl_w_message :: u32
  gl_message_nottobefuckedwith :: u32
  gl_skull_anim_counter :: u32
  gl_which_skull :: u32
  gl_turnheld :: u32

definition suffixed :: "rstring \<Rightarrow> rstring \<Rightarrow> bool" where
  "suffixed whole name \<longleftrightarrow>
     (if take (length name) whole = name \<and> length name \<le> length whole
      then case drop (length name) whole of
             [] \<Rightarrow> True
           | b # tail \<Rightarrow> b = 46 \<and> tail \<noteq> [] \<and> list_all is_ascii_digit tail
      else False)"

definition names_find :: "image \<Rightarrow> rstring \<Rightarrow> global read" where
  "names_find img name = (case image_symbol img name of
     Some s \<Rightarrow> if sym_kind s \<noteq> Function then Ok \<lparr> glb_addr = sym_addr s, glb_count = sym_size s \<rparr> else Err (NoSymbol name)
   | None \<Rightarrow> Err (NoSymbol name))"

definition names_sized :: "image \<Rightarrow> rstring \<Rightarrow> u32 \<Rightarrow> global read" where
  "names_sized img name want = rbind (names_find img name) (\<lambda>found.
     if glb_count found \<noteq> want then Err (SymbolSize name want (glb_count found))
     else Ok \<lparr> glb_addr = glb_addr found, glb_count = 1 \<rparr>)"

definition names_word :: "image \<Rightarrow> rstring \<Rightarrow> u32 read" where
  "names_word img name = rbind (names_sized img name 4) (\<lambda>g. Ok (glb_addr g))"

definition names_half :: "image \<Rightarrow> rstring \<Rightarrow> u32 read" where
  "names_half img name = rbind (names_sized img name 2) (\<lambda>g. Ok (glb_addr g))"

definition names_array :: "image \<Rightarrow> rstring \<Rightarrow> u32 \<Rightarrow> global read" where
  "names_array img name element = rbind (names_find img name) (\<lambda>found.
     if element = 0 \<or> glb_count found mod element \<noteq> 0 then Err (SymbolSize name element (glb_count found))
     else Ok \<lparr> glb_addr = glb_addr found, glb_count = glb_count found div element \<rparr>)"

definition names_local :: "image \<Rightarrow> rstring \<Rightarrow> u32 read" where
  "names_local img name =
     (case filter (\<lambda>s. sym_kind s \<noteq> Function \<and> suffixed (sym_name s) name) (img_symbols img) of
        [] \<Rightarrow> Err (NoSymbol name)
      | first # rest \<Rightarrow>
          if rest \<noteq> [] then Err (AmbiguousSymbol name)
          else if sym_size first \<noteq> 4 then Err (SymbolSize name 4 (sym_size first))
          else Ok (sym_addr first))"

definition names_function :: "image \<Rightarrow> rstring \<Rightarrow> u32 read" where
  "names_function img name = (case image_symbol img name of
     Some s \<Rightarrow> if sym_kind s = Function then Ok (sym_addr s) else Err (NoSymbol name)
   | None \<Rightarrow> Err (NoSymbol name))"

section \<open>The engine\<close>

datatype thinker_kind = Mobj | Door | Plat | Floor | Ceiling | LightFlash | Strobe | Glow | FireFlicker

fun sector_kind :: "thinker_kind \<Rightarrow> u8" where
  "sector_kind Mobj = 0"
| "sector_kind Door = 1"
| "sector_kind Plat = 2"
| "sector_kind Floor = 3"
| "sector_kind Ceiling = 4"
| "sector_kind LightFlash = 5"
| "sector_kind Strobe = 6"
| "sector_kind Glow = 7"
| "sector_kind FireFlicker = 8"

record engine =
  en_offsets :: offsets
  en_globals :: globals
  en_by_function :: "u32 \<rightharpoonup> thinker_kind"

definition THINKER_FUNCTIONS :: "(rstring \<times> thinker_kind) list" where
  "THINKER_FUNCTIONS = map (map_prod ascii id)
     [(''P_MobjThinker'', Mobj), (''T_VerticalDoor'', Door), (''T_PlatRaise'', Plat), (''T_MoveFloor'', Floor),
      (''T_MoveCeiling'', Ceiling), (''T_LightFlash'', LightFlash), (''T_StrobeFlash'', Strobe), (''T_Glow'', Glow),
      (''T_FireFlicker'', FireFlicker)]"

definition globals_resolve :: "image \<Rightarrow> layout \<Rightarrow> offsets \<Rightarrow> globals read" where
  "globals_resolve img l offs =
     rbind (names_word img (ascii ''leveltime'')) (\<lambda>leveltime.
     rbind (names_word img (ascii ''gametic'')) (\<lambda>gametic.
     rbind (names_word img (ascii ''prndindex'')) (\<lambda>prndindex.
     rbind (names_word img (ascii ''rndindex'')) (\<lambda>rndindex.
     rbind (names_word img (ascii ''paused'')) (\<lambda>paused.
     rbind (names_word img (ascii ''demoplayback'')) (\<lambda>demoplayback.
     rbind (names_word img (ascii ''totalkills'')) (\<lambda>totalkills.
     rbind (names_word img (ascii ''totalitems'')) (\<lambda>totalitems.
     rbind (names_word img (ascii ''totalsecret'')) (\<lambda>totalsecret.
     rbind (names_sized img (ascii ''thinkercap'') (th_size (o_thinker offs))) (\<lambda>thinkercap.
     rbind (names_word img (ascii ''sectors'')) (\<lambda>sectors.
     rbind (names_word img (ascii ''numsectors'')) (\<lambda>numsectors.
     rbind (names_word img (ascii ''lines'')) (\<lambda>lines.
     rbind (names_word img (ascii ''numlines'')) (\<lambda>numlines.
     rbind (names_word img (ascii ''sides'')) (\<lambda>sides.
     rbind (names_word img (ascii ''numsides'')) (\<lambda>numsides.
     rbind (names_word img (ascii ''subsectors'')) (\<lambda>subsectors.
     rbind (names_word img (ascii ''numsubsectors'')) (\<lambda>numsubsectors.
     rbind (rbind (layout_size_of l (ascii ''state_t'')) (names_array img (ascii ''states''))) (\<lambda>states.
     rbind (names_word img (ascii ''texturetranslation'')) (\<lambda>texturetranslation.
     rbind (names_word img (ascii ''numtextures'')) (\<lambda>numtextures.
     rbind (names_word img (ascii ''flattranslation'')) (\<lambda>flattranslation.
     rbind (names_word img (ascii ''numflats'')) (\<lambda>numflats.
     rbind (names_array img (ascii ''players'') (pl_size (o_player offs))) (\<lambda>players.
     rbind (names_array img (ascii ''buttonlist'') (btn_size (o_button offs))) (\<lambda>buttonlist.
     rbind (names_array img (ascii ''activeplats'') 4) (\<lambda>activeplats.
     rbind (names_array img (ascii ''activeceilings'') 4) (\<lambda>activeceilings.
     rbind (names_word img (ascii ''st_faceindex'')) (\<lambda>st_faceindex.
     rbind (names_word img (ascii ''st_facecount'')) (\<lambda>st_facecount.
     rbind (names_local img (ascii ''priority'')) (\<lambda>st_priority.
     rbind (names_local img (ascii ''lastattackdown'')) (\<lambda>st_lastattackdown.
     rbind (names_array img (ascii ''oldweaponsowned'') 4) (\<lambda>st_oldweaponsowned.
     rbind (names_word img (ascii ''st_oldhealth'')) (\<lambda>st_oldhealth.
     rbind (names_word img (ascii ''st_randomnumber'')) (\<lambda>st_randomnumber.
     rbind (names_local img (ascii ''lastcalc'')) (\<lambda>st_lastcalc.
     rbind (names_local img (ascii ''oldhealth'')) (\<lambda>st_calc_oldhealth.
     rbind (names_word img (ascii ''st_palette'')) (\<lambda>st_palette.
     rbind (names_word img (ascii ''st_clock'')) (\<lambda>st_clock.
     rbind (names_word img (ascii ''message_on'')) (\<lambda>message_on.
     rbind (names_word img (ascii ''message_counter'')) (\<lambda>message_counter.
     rbind (names_sized img (ascii ''w_message'') (stx_size (o_stext offs))) (\<lambda>w_message.
     rbind (names_word img (ascii ''message_nottobefuckedwith'')) (\<lambda>message_nottobefuckedwith.
     rbind (names_half img (ascii ''skullAnimCounter'')) (\<lambda>skull_anim_counter.
     rbind (names_half img (ascii ''whichSkull'')) (\<lambda>which_skull.
     rbind (names_word img (ascii ''turnheld'')) (\<lambda>turnheld.
     Ok \<lparr> gl_leveltime = leveltime, gl_gametic = gametic, gl_prndindex = prndindex,
       gl_rndindex = rndindex, gl_paused = paused, gl_demoplayback = demoplayback, gl_totalkills = totalkills,
       gl_totalitems = totalitems, gl_totalsecret = totalsecret, gl_thinkercap = glb_addr thinkercap,
       gl_sectors = sectors, gl_numsectors = numsectors, gl_lines = lines, gl_numlines = numlines,
       gl_sides = sides, gl_numsides = numsides, gl_subsectors = subsectors, gl_numsubsectors = numsubsectors,
       gl_states = states, gl_texturetranslation = texturetranslation, gl_numtextures = numtextures,
       gl_flattranslation = flattranslation, gl_numflats = numflats, gl_players = players,
       gl_buttonlist = buttonlist, gl_activeplats = activeplats, gl_activeceilings = activeceilings,
       gl_st_faceindex = st_faceindex, gl_st_facecount = st_facecount, gl_st_priority = st_priority,
       gl_st_lastattackdown = st_lastattackdown, gl_st_oldweaponsowned = st_oldweaponsowned,
       gl_st_oldhealth = st_oldhealth, gl_st_randomnumber = st_randomnumber, gl_st_lastcalc = st_lastcalc,
       gl_st_calc_oldhealth = st_calc_oldhealth, gl_st_palette = st_palette, gl_st_clock = st_clock,
       gl_message_on = message_on, gl_message_counter = message_counter, gl_w_message = glb_addr w_message,
       gl_message_nottobefuckedwith = message_nottobefuckedwith, gl_skull_anim_counter = skull_anim_counter,
       gl_which_skull = which_skull, gl_turnheld = turnheld \<rparr>)))))))))))))))))))))))))))))))))))))))))))))"

fun thinker_functions :: "image \<Rightarrow> (rstring \<times> thinker_kind) list \<Rightarrow> (u32 \<rightharpoonup> thinker_kind) \<Rightarrow> (u32 \<rightharpoonup> thinker_kind) read" where
  "thinker_functions img [] by_function = Ok by_function"
| "thinker_functions img ((name, kind) # rest) by_function =
     rbind (names_function img name) (\<lambda>a. thinker_functions img rest (by_function(a \<mapsto> kind)))"

definition engine_resolve :: "image \<Rightarrow> layout \<Rightarrow> engine read" where
  "engine_resolve img l =
     rbind (offsets_resolve l) (\<lambda>offs.
     rbind (globals_resolve img l offs) (\<lambda>gs.
     rbind (thinker_functions img THINKER_FUNCTIONS Map.empty) (\<lambda>by_function.
     Ok \<lparr> en_offsets = offs, en_globals = gs, en_by_function = by_function \<rparr>)))"

definition ram_of :: "cpu \<Rightarrow> ram_view" where
  "ram_of c = \<lparr> rv_base = ram_base (mem_map (cpu_memory c)), rv_bytes = ram (cpu_memory c) \<rparr>"

definition gametic :: "engine \<Rightarrow> cpu \<Rightarrow> int read" where
  "gametic e c = ram_i32 (ram_of c) (gl_gametic (en_globals e)) ''gametic''"

section \<open>The thinker list\<close>

definition THINKER_LIMIT :: u32 where "THINKER_LIMIT = 2 ^ 20"
definition THINKER_REMOVED :: u32 where "THINKER_REMOVED = 0xFFFFFFFF"
definition THINKER_STASIS :: u32 where "THINKER_STASIS = 0"

record thinker =
  tk_addr :: u32
  tk_kind :: thinker_kind
  tk_active :: bool

record walk_result =
  wk_mobjs :: "thinker list"
  wk_sector_thinkers :: "thinker list"
  wk_setup_things :: u32
  wk_slots :: "u32 \<rightharpoonup> u32"
  wk_sector_slots :: "u32 \<rightharpoonup> u32"

definition mobj_slot :: "walk_result \<Rightarrow> u32 \<Rightarrow> u32" where
  "mobj_slot w addr = (case wk_slots w addr of Some s \<Rightarrow> s | None \<Rightarrow> 0)"

definition sector_slot :: "walk_result \<Rightarrow> u32 \<Rightarrow> u32" where
  "sector_slot w addr = (case wk_sector_slots w addr of Some s \<Rightarrow> s | None \<Rightarrow> 0)"

text \<open>The stasis tables: each table is read in order, and a later entry replaces an earlier one.\<close>

fun stasis_entries :: "ram_view \<Rightarrow> global \<Rightarrow> thinker_kind \<Rightarrow> string \<Rightarrow> u32 list \<Rightarrow> (u32 \<rightharpoonup> thinker_kind) \<Rightarrow>
    (u32 \<rightharpoonup> thinker_kind) read" where
  "stasis_entries r table kind what [] kinds = Ok kinds"
| "stasis_entries r table kind what (index # rest) kinds =
     rbind (ram_u32 r (glb_addr table + index * 4) what) (\<lambda>entry.
       stasis_entries r table kind what rest (if entry \<noteq> 0 then kinds(entry \<mapsto> kind) else kinds))"

definition indices :: "u32 \<Rightarrow> u32 list" where
  "indices count = map of_nat [0..<unat count]"

definition stasis_kinds :: "engine \<Rightarrow> ram_view \<Rightarrow> (u32 \<rightharpoonup> thinker_kind) read" where
  "stasis_kinds e r =
     (let plats = gl_activeplats (en_globals e); ceilings = gl_activeceilings (en_globals e) in
      rbind (stasis_entries r plats Plat ''activeplats'' (indices (glb_count plats)) Map.empty) (\<lambda>kinds.
      stasis_entries r ceilings Ceiling ''activeceilings'' (indices (glb_count ceilings)) kinds))"

text \<open>What a function slot makes of a thinker: nothing if it is removed, else its kind and whether it runs.\<close>

definition thinker_of :: "engine \<Rightarrow> (u32 \<rightharpoonup> thinker_kind) \<Rightarrow> u32 \<Rightarrow> u32 \<Rightarrow> thinker option read" where
  "thinker_of e in_stasis at function =
     (if function = THINKER_REMOVED then Ok None
      else if function = THINKER_STASIS then
        (case in_stasis at of
           Some kind \<Rightarrow> Ok (Some \<lparr> tk_addr = at, tk_kind = kind, tk_active = False \<rparr>)
         | None \<Rightarrow> Err (UnknownThinker at function))
      else
        (case en_by_function e function of
           Some kind \<Rightarrow> Ok (Some \<lparr> tk_addr = at, tk_kind = kind, tk_active = True \<rparr>)
         | None \<Rightarrow> Err (UnknownThinker at function)))"

definition walk_push :: "walk_result \<Rightarrow> u32 option \<Rightarrow> thinker \<Rightarrow> walk_result \<times> u32 option" where
  "walk_push w split t =
     (if tk_kind t = Mobj
      then (let mobjs = wk_mobjs w @ [t] in
            (w\<lparr>wk_mobjs := mobjs, wk_slots := (wk_slots w)(tk_addr t \<mapsto> of_nat (length mobjs))\<rparr>, split))
      else (let sectors = wk_sector_thinkers w @ [t] in
            (w\<lparr>wk_sector_thinkers := sectors, wk_sector_slots := (wk_sector_slots w)(tk_addr t \<mapsto> of_nat (length sectors))\<rparr>,
             case split of Some n \<Rightarrow> Some n | None \<Rightarrow> Some (of_nat (length (wk_mobjs w))))))"

function walk_loop :: "engine \<Rightarrow> ram_view \<Rightarrow> (u32 \<rightharpoonup> thinker_kind) \<Rightarrow> u32 \<Rightarrow> u32 \<Rightarrow> walk_result \<Rightarrow> u32 option \<Rightarrow>
    (walk_result \<times> u32 option) read" where
  "walk_loop e r in_stasis at steps w split =
     (let o_th = o_thinker (en_offsets e) in
      if at = gl_thinkercap (en_globals e) then Ok (w, split)
      else if steps + 1 > THINKER_LIMIT then Err (ThinkerListRuns THINKER_LIMIT)
      else rbind (ram_u32 r (at + th_function o_th) ''a thinker's function'') (\<lambda>function.
        rbind (thinker_of e in_stasis at function) (\<lambda>found.
          let (w', split') = (case found of None \<Rightarrow> (w, split) | Some t \<Rightarrow> walk_push w split t) in
          rbind (ram_u32 r (at + th_next o_th) ''a thinker's next link'') (\<lambda>next.
            walk_loop e r in_stasis next (steps + 1) w' split'))))"
  by pat_completeness auto
termination
proof (relation "measure (\<lambda>(e, r, st, at, steps, w, sp). unat (THINKER_LIMIT - steps))", goal_cases)
  case 1
  then show ?case by simp
next
  case (2 e r st at steps w sp o_th func found pr w' sp' nx)
  have "THINKER_LIMIT - steps \<noteq> 0" using 2(3) by (auto simp: THINKER_LIMIT_def)
  then have "unat (THINKER_LIMIT - steps - 1) < unat (THINKER_LIMIT - steps)" by (simp add: measure_unat)
  then show ?case by (simp add: algebra_simps)
qed

declare walk_loop.simps [simp del]

definition walk_new :: walk_result where
  "walk_new = \<lparr> wk_mobjs = [], wk_sector_thinkers = [], wk_setup_things = 0, wk_slots = Map.empty, wk_sector_slots = Map.empty \<rparr>"

definition walk_done :: "walk_result \<times> u32 option \<Rightarrow> walk_result" where
  "walk_done ws = (fst ws)\<lparr>wk_setup_things := (case snd ws of Some n \<Rightarrow> n | None \<Rightarrow> of_nat (length (wk_mobjs (fst ws))))\<rparr>"

definition walk :: "engine \<Rightarrow> cpu \<Rightarrow> walk_result read" where
  "walk e c =
     (let r = ram_of c; cap = gl_thinkercap (en_globals e) in
      rbind (stasis_kinds e r) (\<lambda>in_stasis.
      rbind (ram_u32 r (cap + th_next (o_thinker (en_offsets e))) ''thinkercap.next'') (\<lambda>at.
      rbind (walk_loop e r in_stasis at 0 walk_new None) (\<lambda>ws. Ok (walk_done ws)))))"

section \<open>Pointers as indices\<close>

text \<open>\<open>is_multiple_of\<close> of a zero stride holds of zero alone, and the division after it panics.\<close>

definition index_of :: "u32 \<Rightarrow> u32 \<Rightarrow> u32 \<Rightarrow> u32 \<Rightarrow> string \<Rightarrow> string \<Rightarrow> int read" where
  "index_of base count stride addr what into =
     (let offset = addr - base in
      if addr < base \<or> (if stride = 0 then offset \<noteq> 0 else offset mod stride \<noteq> 0) then Err (NotAnIndex what base addr into)
      else if stride = 0 then Panic
      else if offset div stride \<ge> count then Err (NotAnIndex what base addr into)
      else Ok (sint (offset div stride)))"

section \<open>What the walk finds\<close>

text \<open>
  \<open>chained e r at as\<close>: following the links from \<open>at\<close> passes the thinkers \<open>as\<close> and then reaches the head of
  the list.  \<open>thinker_at\<close> is what stands at an address, and \<open>walk_of\<close> the two sequences with their slots.
\<close>

fun chained :: "engine \<Rightarrow> ram_view \<Rightarrow> u32 \<Rightarrow> u32 list \<Rightarrow> bool" where
  "chained e r at [] \<longleftrightarrow> at = gl_thinkercap (en_globals e)"
| "chained e r at (a # as) \<longleftrightarrow> at = a \<and> a \<noteq> gl_thinkercap (en_globals e) \<and>
     (case ram_u32 r (a + th_next (o_thinker (en_offsets e))) ''a thinker's next link'' of
        Ok nx \<Rightarrow> chained e r nx as | _ \<Rightarrow> False)"

definition thinker_at :: "engine \<Rightarrow> ram_view \<Rightarrow> (u32 \<rightharpoonup> thinker_kind) \<Rightarrow> u32 \<Rightarrow> thinker option read" where
  "thinker_at e r in_stasis a =
     rbind (ram_u32 r (a + th_function (o_thinker (en_offsets e))) ''a thinker's function'') (thinker_of e in_stasis a)"

abbreviation is_mobj :: "thinker \<Rightarrow> bool" where
  "is_mobj t \<equiv> tk_kind t = Mobj"

definition slots_of :: "thinker list \<Rightarrow> u32 \<rightharpoonup> u32" where
  "slots_of ts = map_of (zip (map tk_addr ts) (map (\<lambda>i. of_nat (Suc i)) [0..<length ts]))"

definition walk_of :: "thinker list \<Rightarrow> walk_result" where
  "walk_of ts = \<lparr> wk_mobjs = filter is_mobj ts, wk_sector_thinkers = filter (Not \<circ> is_mobj) ts,
     wk_setup_things = of_nat (length (takeWhile is_mobj ts)),
     wk_slots = slots_of (filter is_mobj ts), wk_sector_slots = slots_of (filter (Not \<circ> is_mobj) ts) \<rparr>"

lemma chained_unique: "chained e r at as \<Longrightarrow> chained e r at bs \<Longrightarrow> as = bs"
proof (induction e r at as arbitrary: bs rule: chained.induct)
  case (1 e r at)
  then show ?case by (cases bs) auto
next
  case (2 e r at a as)
  from 2(2) obtain nx where nx: "ram_u32 r (a + th_next (o_thinker (en_offsets e))) ''a thinker's next link'' = Ok nx"
      "chained e r nx as" "at = a" "a \<noteq> gl_thinkercap (en_globals e)" by (auto split: rresult.splits)
  obtain bs' where "bs = a # bs'" "chained e r nx bs'" using 2(3) nx by (cases bs) auto
  then show ?case using 2(1) [OF nx(1,2)] by simp
qed

lemma chained_suffix: "chained e r at (xs @ a # ys) \<Longrightarrow> chained e r a (a # ys)"
proof (induction xs arbitrary: at)
  case Nil
  then show ?case by auto
next
  case (Cons x xs)
  then show ?case by (auto split: rresult.splits)
qed

text \<open>A list that comes back to its head passes no thinker twice.\<close>

lemma chained_distinct: "chained e r at as \<Longrightarrow> distinct as"
proof (rule ccontr)
  assume c: "chained e r at as" and "\<not> distinct as"
  then obtain xs ys zs a where as: "as = xs @ [a] @ ys @ [a] @ zs" using not_distinct_decomp by blast
  have "chained e r a (a # ys @ a # zs)" "chained e r a (a # zs)"
    using chained_suffix [of e r at xs a "ys @ a # zs"] chained_suffix [of e r at "xs @ a # ys" a zs] c as by simp_all
  then show False using chained_unique by fastforce
qed

definition push_all :: "thinker list \<Rightarrow> walk_result \<times> u32 option \<Rightarrow> walk_result \<times> u32 option" where
  "push_all ts ws = foldl (\<lambda>(w, sp) t. walk_push w sp t) ws ts"

abbreviation live :: "thinker option list \<Rightarrow> thinker list" where
  "live ts \<equiv> List.map_filter id ts"

lemma THINKER_LIMIT_unat: "unat THINKER_LIMIT = 2 ^ 20"
  by (simp add: THINKER_LIMIT_def)

definition finds :: "engine \<Rightarrow> ram_view \<Rightarrow> (u32 \<rightharpoonup> thinker_kind) \<Rightarrow> u32 \<Rightarrow> nat \<Rightarrow> thinker list \<Rightarrow> bool" where
  "finds e r st at n found \<longleftrightarrow>
     (\<exists>as ts. chained e r at as \<and> length as \<le> n \<and> map (thinker_at e r st) as = map Ok ts \<and> found = live ts)"

lemma live_simps [simp]: "live [] = []" "live (None # ts) = live ts" "live (Some t # ts) = t # live ts"
  by (simp_all add: map_filter_def)

lemma finds_cap: "finds e r st (gl_thinkercap (en_globals e)) n found \<longleftrightarrow> found = []"
proof -
  have "as = []" if "chained e r (gl_thinkercap (en_globals e)) as" for as using that by (cases as) auto
  moreover have "chained e r (gl_thinkercap (en_globals e)) []" by simp
  ultimately show ?thesis unfolding finds_def by (metis live_simps(1) list.simps(8) list.size(3) map_is_Nil_conv zero_le)
qed

lemma finds_step:
  assumes "at \<noteq> gl_thinkercap (en_globals e)"
  shows "finds e r st at n found \<longleftrightarrow> (\<exists>m t nx found'. n = Suc m \<and> thinker_at e r st at = Ok t \<and>
    ram_u32 r (at + th_next (o_thinker (en_offsets e))) ''a thinker's next link'' = Ok nx \<and>
    finds e r st nx m found' \<and> found = (case t of None \<Rightarrow> found' | Some x \<Rightarrow> x # found'))" (is "_ \<longleftrightarrow> ?rhs")
proof
  assume "finds e r st at n found"
  then obtain as ts where f: "chained e r at as" "length as \<le> n" "map (thinker_at e r st) as = map Ok ts" "found = live ts"
    unfolding finds_def by blast
  from f(1) assms obtain as' where as: "as = at # as'" by (cases as) auto
  then obtain nx where nx: "ram_u32 r (at + th_next (o_thinker (en_offsets e))) ''a thinker's next link'' = Ok nx" "chained e r nx as'"
    using f(1) by (auto split: rresult.splits)
  obtain t ts' where ts: "ts = t # ts'" using f(3) as by (cases ts) auto
  obtain m where n: "n = Suc m" "length as' \<le> m" using f(2) as by (cases n) auto
  have "finds e r st nx m (live ts')" unfolding finds_def using nx(2) n(2) f(3) as ts by auto
  then show ?rhs using nx(1) n(1) f(3,4) as ts by (cases t) auto
next
  assume ?rhs
  then obtain m t nx as ts where m: "n = Suc m" "thinker_at e r st at = Ok t"
      "ram_u32 r (at + th_next (o_thinker (en_offsets e))) ''a thinker's next link'' = Ok nx"
      "chained e r nx as" "length as \<le> m" "map (thinker_at e r st) as = map Ok ts"
      "found = (case t of None \<Rightarrow> live ts | Some x \<Rightarrow> x # live ts)"
    unfolding finds_def by blast
  have "chained e r at (at # as)" "length (at # as) \<le> n" "map (thinker_at e r st) (at # as) = map Ok (t # ts)"
    "found = live (t # ts)" using m assms by (simp_all split: option.split)
  then show "finds e r st at n found" unfolding finds_def by blast
qed

lemma push_first:
  "push_all found (case t of None \<Rightarrow> (w, split) | Some x \<Rightarrow> walk_push w split x) =
     push_all (case t of None \<Rightarrow> found | Some x \<Rightarrow> x # found) (w, split)"
  by (cases t) (simp_all add: push_all_def)

lemma walk_loop_exact:
  "unat steps \<le> 2 ^ 20 \<Longrightarrow>
   walk_loop e r st at steps w split = Ok res \<longleftrightarrow>
     (\<exists>found. finds e r st at (2 ^ 20 - unat steps) found \<and> res = push_all found (w, split))"
proof (induction e r st at steps w split rule: walk_loop.induct)
  case (1 e r st at steps w split)
  let ?cap = "gl_thinkercap (en_globals e)" and ?o = "o_thinker (en_offsets e)"
  have s: "unat (steps + 1) = unat steps + 1" using 1(2) by (simp add: unat_word_ariths)
  have lim: "steps + 1 > THINKER_LIMIT \<longleftrightarrow> 2 ^ 20 - unat steps = 0"
    using 1(2) s THINKER_LIMIT_unat by (auto simp: word_less_nat_alt)
  consider (cap) "at = ?cap" | (long) "at \<noteq> ?cap" "steps + 1 > THINKER_LIMIT" | (go) "at \<noteq> ?cap" "\<not> steps + 1 > THINKER_LIMIT" by blast
  then show ?case
  proof cases
    case cap
    then show ?thesis by (subst walk_loop.simps) (auto simp: finds_cap push_all_def)
  next
    case long
    then show ?thesis using lim by (subst walk_loop.simps) (simp add: finds_step Let_def)
  next
    case go
    then obtain m where m: "2 ^ 20 - unat steps = Suc m" using lim not0_implies_Suc by blast
    then have m': "2 ^ 20 - unat (steps + 1) = m" "unat (steps + 1) \<le> 2 ^ 20" using s by simp_all
    let ?ws = "\<lambda>t. case t of None \<Rightarrow> (w, split) | Some x \<Rightarrow> walk_push w split x"
    have ih: "walk_loop e r st nx (steps + 1) (fst (?ws t)) (snd (?ws t)) = Ok res \<longleftrightarrow>
        (\<exists>found. finds e r st nx m found \<and> res = push_all found (?ws t))"
      if "ram_u32 r (at + th_function ?o) ''a thinker's function'' = Ok f" "thinker_of e st at f = Ok t"
        "ram_u32 r (at + th_next ?o) ''a thinker's next link'' = Ok nx" for f t nx
      using 1(1) [OF refl go that(1,2) refl prod.collapse that(3) m'(2)] m'(1) by simp
    have "walk_loop e r st at steps w split = Ok res \<longleftrightarrow> (\<exists>t nx. thinker_at e r st at = Ok t \<and>
        ram_u32 r (at + th_next ?o) ''a thinker's next link'' = Ok nx \<and>
        walk_loop e r st nx (steps + 1) (fst (?ws t)) (snd (?ws t)) = Ok res)"
      using go by (subst walk_loop.simps) (auto simp: thinker_at_def rbind_Ok_iff Let_def split_beta)
    also have "\<dots> \<longleftrightarrow> (\<exists>t nx found. thinker_at e r st at = Ok t \<and>
        ram_u32 r (at + th_next ?o) ''a thinker's next link'' = Ok nx \<and>
        finds e r st nx m found \<and> res = push_all found (?ws t))"
      using ih by (auto simp: thinker_at_def rbind_Ok_iff)
    also have "\<dots> \<longleftrightarrow> (\<exists>found. finds e r st at (2 ^ 20 - unat steps) found \<and> res = push_all found (w, split))"
      unfolding finds_step [OF go(1)] m push_first by blast
    finally show ?thesis .
  qed
qed


lemma slots_of_snoc:
  assumes "tk_addr t \<notin> tk_addr ` set ts"
  shows "slots_of (ts @ [t]) = (slots_of ts)(tk_addr t \<mapsto> of_nat (Suc (length ts)))"
proof -
  have "tk_addr t \<notin> dom (slots_of ts)" using assms by (auto simp: slots_of_def dest: map_of_SomeD set_zip_leftD)
  then have "[tk_addr t \<mapsto> of_nat (Suc (length ts))] ++ slots_of ts = (slots_of ts)(tk_addr t \<mapsto> of_nat (Suc (length ts)))"
    by (auto simp: map_add_def fun_eq_iff dom_def split: option.split)
  then show ?thesis by (simp add: slots_of_def)
qed

text \<open>The state of the loop after the thinkers \<open>ts\<close>.\<close>

definition walk_state :: "thinker list \<Rightarrow> walk_result \<times> u32 option" where
  "walk_state ts = ((walk_of ts)\<lparr>wk_setup_things := 0\<rparr>,
     if list_all is_mobj ts then None else Some (of_nat (length (takeWhile is_mobj ts))))"

lemma walk_push_state:
  assumes "tk_addr t \<notin> tk_addr ` set ts"
  shows "walk_push (fst (walk_state ts)) (snd (walk_state ts)) t = walk_state (ts @ [t])"
proof -
  have "tk_addr t \<notin> tk_addr ` set (filter is_mobj ts)" "tk_addr t \<notin> tk_addr ` set (filter (Not \<circ> is_mobj) ts)"
    using assms by auto
  note s = slots_of_snoc [OF this(1)] slots_of_snoc [OF this(2)]
  have "list_all is_mobj ts \<Longrightarrow> takeWhile is_mobj ts = ts \<and> filter is_mobj ts = ts"
    by (simp add: list_all_iff)
  moreover have "\<not> list_all is_mobj ts \<Longrightarrow> takeWhile is_mobj (ts @ [t]) = takeWhile is_mobj ts"
    by (auto simp: list_all_iff takeWhile_append1)
  ultimately show ?thesis using s by (auto simp: walk_push_def walk_state_def walk_of_def Let_def)
qed

lemma push_all_state:
  "distinct (map tk_addr (ts @ us)) \<Longrightarrow> push_all us (walk_state ts) = walk_state (ts @ us)"
proof (induction us arbitrary: ts)
  case Nil
  then show ?case by (simp add: push_all_def)
next
  case (Cons u us)
  have "walk_push (fst (walk_state ts)) (snd (walk_state ts)) u = walk_state (ts @ [u])"
    using Cons.prems by (intro walk_push_state) auto
  then show ?case using Cons.IH [of "ts @ [u]"] Cons.prems by (simp add: push_all_def split_beta)
qed

lemma thinker_at_addr: "thinker_at e r st a = Ok (Some t) \<Longrightarrow> tk_addr t = a"
  by (auto simp: thinker_at_def thinker_of_def rbind_Ok_iff split: if_splits option.splits)

lemma live_addrs: "map (thinker_at e r st) as = map Ok ts \<Longrightarrow> set (map tk_addr (live ts)) \<subseteq> set as \<and> (distinct as \<longrightarrow> distinct (map tk_addr (live ts)))"
proof (induction as arbitrary: ts)
  case Nil
  then show ?case by simp
next
  case (Cons a as)
  then obtain t ts' where ts: "ts = t # ts'" "thinker_at e r st a = Ok t" "map (thinker_at e r st) as = map Ok ts'" by (cases ts) auto
  then show ?case using Cons.IH [OF ts(3)] thinker_at_addr [of e r st a] by (cases t) auto
qed

lemma finds_distinct: "finds e r st at n found \<Longrightarrow> distinct (map tk_addr found)"
  using live_addrs chained_distinct unfolding finds_def by blast

lemma walk_done_state: "walk_done (walk_state ts) = walk_of ts"
proof (cases "list_all is_mobj ts")
  case True
  then have "length (takeWhile is_mobj ts) = length ts" by (metis list_all_iff takeWhile_eq_all_conv)
  moreover have "filter is_mobj ts = ts" using True by (simp add: list_all_iff)
  ultimately show ?thesis using True by (simp add: walk_done_def walk_state_def walk_of_def)
qed (simp add: walk_done_def walk_state_def walk_of_def)

lemma walk_finds:
  "walk e c = Ok w \<longleftrightarrow> (\<exists>st at found. stasis_kinds e (ram_of c) = Ok st \<and>
      ram_u32 (ram_of c) (gl_thinkercap (en_globals e) + th_next (o_thinker (en_offsets e))) ''thinkercap.next'' = Ok at \<and>
      finds e (ram_of c) st at (2 ^ 20) found \<and> w = walk_of found)"
proof -
  have start: "walk_new = fst (walk_state [])" "None = snd (walk_state [])"
    by (simp_all add: walk_new_def walk_state_def walk_of_def slots_of_def)
  have p: "push_all found (walk_state []) = walk_state found" if "finds e r st at n found" for r st at n found
    using push_all_state [of "[]" found] finds_distinct [OF that] by simp
  have "rbind (walk_loop e r st at 0 (fst (walk_state [])) (snd (walk_state []))) (\<lambda>ws. Ok (walk_done ws)) = Ok w \<longleftrightarrow>
      (\<exists>found. finds e r st at (2 ^ 20) found \<and> w = walk_of found)" for r st at
  proof
    assume "rbind (walk_loop e r st at 0 (fst (walk_state [])) (snd (walk_state []))) (\<lambda>ws. Ok (walk_done ws)) = Ok w"
    then obtain found where "finds e r st at (2 ^ 20) found" "w = walk_done (push_all found (walk_state []))"
      unfolding rbind_Ok_iff walk_loop_exact [of 0, simplified] by auto
    then show "\<exists>found. finds e r st at (2 ^ 20) found \<and> w = walk_of found" using p walk_done_state by metis
  next
    assume "\<exists>found. finds e r st at (2 ^ 20) found \<and> w = walk_of found"
    then obtain found where f: "finds e r st at (2 ^ 20) found" "w = walk_of found" by blast
    then have "walk_loop e r st at 0 (fst (walk_state [])) (snd (walk_state [])) = Ok (walk_state found)"
      using walk_loop_exact [of 0] p [OF f(1)] by fastforce
    then show "rbind (walk_loop e r st at 0 (fst (walk_state [])) (snd (walk_state []))) (\<lambda>ws. Ok (walk_done ws)) = Ok w"
      using f(2) walk_done_state by simp
  qed
  then show ?thesis by (simp only: walk_def Let_def start) (simp only: rbind_Ok_iff, blast)
qed

lemma stasis_no_panic: "stasis_entries r g k wh ixs m \<noteq> Panic"
  by (induction ixs arbitrary: m) (simp_all add: rbind_Panic_iff)

lemma walk_loop_no_panic: "walk_loop e r st at steps w split \<noteq> Panic"
proof (induction e r st at steps w split rule: walk_loop.induct)
  case (1 e r st at steps w split)
  have "thinker_of e st at f \<noteq> Panic" for f by (simp add: thinker_of_def split: option.split)
  then show ?case using 1 by (subst walk_loop.simps) (auto simp: Let_def rbind_Panic_iff split_beta)
qed

lemma walk_no_panic: "walk e c \<noteq> Panic"
  by (auto simp: walk_def stasis_kinds_def rbind_Panic_iff stasis_no_panic walk_loop_no_panic Let_def split: prod.splits)

text \<open>
  C37: The walk returns exactly the thinker list.  It succeeds if and only if the links from the head of
  the list come back to the head within the limit, over thinkers that are removed or known; its result
  is then those not removed, the mobjs and the sector thinkers each in list order with one-based slots,
  and the count of mobjs ahead of the first sector thinker.  It never panics, and no list is walked
  for ever.
\<close>

theorem walk_exact:
  "walk e c \<noteq> Panic \<and> (walk e c = Ok w \<longleftrightarrow>
     (\<exists>st at as ts. stasis_kinds e (ram_of c) = Ok st \<and>
        ram_u32 (ram_of c) (gl_thinkercap (en_globals e) + th_next (o_thinker (en_offsets e))) ''thinkercap.next'' = Ok at \<and>
        chained e (ram_of c) at as \<and> length as \<le> 2 ^ 20 \<and> map (thinker_at e (ram_of c) st) as = map Ok ts \<and>
        w = walk_of (live ts)))"
proof (intro conjI walk_no_panic)
  show "walk e c = Ok w \<longleftrightarrow>
     (\<exists>st at as ts. stasis_kinds e (ram_of c) = Ok st \<and>
        ram_u32 (ram_of c) (gl_thinkercap (en_globals e) + th_next (o_thinker (en_offsets e))) ''thinkercap.next'' = Ok at \<and>
        chained e (ram_of c) at as \<and> length as \<le> 2 ^ 20 \<and> map (thinker_at e (ram_of c) st) as = map Ok ts \<and>
        w = walk_of (live ts))"
    unfolding walk_finds finds_def by blast
qed


section \<open>Slots and indices\<close>

lemma slots_of_nth:
  assumes "distinct (map tk_addr ts)" "i < length ts"
  shows "slots_of ts (tk_addr (ts ! i)) = Some (of_nat (Suc i))"
  using assms map_of_zip_nth [of "map tk_addr ts" "map (\<lambda>i. of_nat (Suc i)) [0..<length ts]" i]
  by (simp add: slots_of_def)

lemma slots_of_None: "a \<notin> tk_addr ` set ts \<Longrightarrow> slots_of ts a = None"
  by (auto simp: slots_of_def map_of_eq_None_iff dest: set_zip_leftD)

text \<open>A slot names the thinker at that position of its own sequence, and an address not on it has none.\<close>

lemma walk_slots:
  assumes "walk e c = Ok w"
  shows "i < length (wk_mobjs w) \<Longrightarrow> mobj_slot w (tk_addr (wk_mobjs w ! i)) = of_nat (Suc i)"
    "i < length (wk_sector_thinkers w) \<Longrightarrow> sector_slot w (tk_addr (wk_sector_thinkers w ! i)) = of_nat (Suc i)"
    "a \<notin> tk_addr ` set (wk_mobjs w) \<Longrightarrow> mobj_slot w a = 0"
    "a \<notin> tk_addr ` set (wk_sector_thinkers w) \<Longrightarrow> sector_slot w a = 0"
proof -
  obtain ts where w: "w = walk_of ts" "distinct (map tk_addr ts)" using assms walk_finds finds_distinct by blast
  have d: "distinct (map tk_addr (filter P ts))" for P using w(2) by (rule distinct_map_filter)
  show "i < length (wk_mobjs w) \<Longrightarrow> mobj_slot w (tk_addr (wk_mobjs w ! i)) = of_nat (Suc i)"
    "i < length (wk_sector_thinkers w) \<Longrightarrow> sector_slot w (tk_addr (wk_sector_thinkers w ! i)) = of_nat (Suc i)"
    using slots_of_nth [OF d] by (simp_all add: w(1) walk_of_def mobj_slot_def sector_slot_def)
  show "a \<notin> tk_addr ` set (wk_mobjs w) \<Longrightarrow> mobj_slot w a = 0"
    "a \<notin> tk_addr ` set (wk_sector_thinkers w) \<Longrightarrow> sector_slot w a = 0"
    by (simp_all add: w(1) walk_of_def mobj_slot_def sector_slot_def slots_of_None)
qed

text \<open>
  An index is given exactly to the addresses of the elements: the array of \<open>count\<close> elements of a nonzero
  stride, as long as it does not run past the end of the address space.
\<close>

lemma index_of_Ok_iff:
  assumes "stride \<noteq> 0" "unat base + unat count * unat stride \<le> 2 ^ 32"
  shows "(\<exists>v. index_of base count stride addr what into = Ok v) \<longleftrightarrow> (\<exists>i<count. addr = base + i * stride)"
proof
  assume "\<exists>v. index_of base count stride addr what into = Ok v"
  then have *: "base \<le> addr" "(addr - base) mod stride = 0" "(addr - base) div stride < count"
    using assms(1) by (auto simp: index_of_def Let_def split: if_splits)
  then have "addr = base + (addr - base) div stride * stride"
    using mult_div_mod_eq [of stride "addr - base"] by (simp add: ac_simps)
  then show "\<exists>i<count. addr = base + i * stride" using *(3) by blast
next
  assume "\<exists>i<count. addr = base + i * stride"
  then obtain i where i: "i < count" "addr = base + i * stride" by blast
  have "unat i + 1 \<le> unat count" using i(1) by (simp add: word_less_nat_alt)
  then have "(unat i + 1) * unat stride \<le> unat count * unat stride" by (rule mult_le_mono1)
  moreover have "0 < unat stride" using assms(1) by (simp add: unat_gt_0)
  ultimately have b: "unat base + unat i * unat stride < 2 ^ 32" using assms(2) by simp
  have m: "unat (i * stride) = unat i * unat stride" using b unat_mult_lem [of i stride] by simp
  then have "unat (base + i * stride) = unat base + unat i * unat stride" using b unat_add_lem [of base "i * stride"] by simp
  then have "base \<le> addr" using i(2) by (simp add: word_le_nat_alt)
  moreover have "addr - base = i * stride" using i(2) by simp
  moreover have "i * stride div stride = i" "i * stride mod stride = 0"
    using assms(1) m by (simp_all add: word_unat_eq_iff unat_div unat_mod)
  ultimately show "\<exists>v. index_of base count stride addr what into = Ok v"
    using i(1) assms(1) by (auto simp: index_of_def Let_def not_le)
qed

text \<open>A stride of zero is not refused: the base address itself divides by it.\<close>

lemma index_of_zero_stride: "index_of base count 0 base what into = Panic"
  by (simp add: index_of_def)

end
