(* ===== verification/Probe_Row.thy ===== *)
theory Probe_Row
  imports Probe_World Trace
begin

text \<open>
  One frame of game state as one TSV row, \<open>refemu/src/probe/row.rs\<close>, with the column lists of
  \<open>spec/src/native_state.rs\<close>.  A section of the source is a run of writes, each naming the next column of
  its list; here it is the list of the values it writes, each a read that may fail, written in order by
  \<open>put_all\<close>.  The digest package is a parameter.
\<close>

section \<open>The columns of the contract\<close>

definition GAME_FIELDS :: "rstring list" where
  "GAME_FIELDS = map ascii
     [''leveltime'', ''prndindex'', ''rndindex'', ''next_seq'', ''next_linkseq'', ''setup_things'', ''paused'',
      ''demo_end'', ''totalkills'', ''totalitems'', ''totalsecret'']"

definition MOBJ_FIELDS :: "rstring list" where
  "MOBJ_FIELDS = map ascii
     [''m_id'', ''m_x'', ''m_y'', ''m_z'', ''m_angle'', ''m_sprite'', ''m_frame'', ''m_floorz'', ''m_ceilingz'',
      ''m_radius'', ''m_height'', ''m_momx'', ''m_momy'', ''m_momz'', ''m_type'', ''m_tics'', ''m_state'',
      ''m_flags'', ''m_health'', ''m_movedir'', ''m_movecount'', ''m_target'', ''m_reactiontime'',
      ''m_threshold'', ''m_player'', ''m_lastlook'', ''m_sp_x'', ''m_sp_y'', ''m_sp_angle'', ''m_sp_type'',
      ''m_sp_options'', ''m_tracer'', ''m_subsector'', ''m_linkseq'']"

definition SECTOR_THINKER_FIELDS :: "rstring list" where
  "SECTOR_THINKER_FIELDS = map ascii
     [''s_seq'', ''s_kind'', ''s_sector'', ''s_type'', ''s_direction'', ''s_speed'', ''s_dest'', ''s_dest2'',
      ''s_count'', ''s_wait'', ''s_status'', ''s_oldstatus'', ''s_crush'', ''s_tag'', ''s_texture'',
      ''s_newspecial'', ''s_minlight'', ''s_maxlight'', ''s_mintime'', ''s_maxtime'', ''s_active'',
      ''s_activeplat_slot'', ''s_activeceil_slot'']"

definition SECTOR_FIELDS :: "rstring list" where
  "SECTOR_FIELDS = map ascii
     [''sec_floorheight'', ''sec_ceilingheight'', ''sec_floorpic'', ''sec_lightlevel'', ''sec_special'',
      ''sec_specialdata'', ''sec_soundtarget'', ''sec_soundtraversed'']"

definition LINE_SIDE_FIELDS :: "rstring list" where
  "LINE_SIDE_FIELDS = map ascii
     [''line_special'', ''side_toptexture'', ''side_midtexture'', ''side_bottomtexture'',
      ''side_textureoffset'']"

definition BUTTON_FIELDS :: "rstring list" where
  "BUTTON_FIELDS = map ascii
     [''btn_line'', ''btn_where'', ''btn_texture'', ''btn_timer'']"

definition ANIM_FIELDS :: "rstring list" where
  "ANIM_FIELDS = map ascii
     [''texturetranslation'', ''flattranslation'']"

definition PLAYER_FIELDS :: "rstring list" where
  "PLAYER_FIELDS = map ascii
     [''p_mo'', ''p_playerstate'', ''p_cmd_forwardmove'', ''p_cmd_sidemove'', ''p_cmd_angleturn'',
      ''p_cmd_buttons'', ''p_viewz'', ''p_viewheight'', ''p_deltaviewheight'', ''p_bob'', ''p_health'',
      ''p_armorpoints'', ''p_armortype'', ''p_powers'', ''p_cards'', ''p_backpack'', ''p_readyweapon'',
      ''p_pendingweapon'', ''p_weaponowned'', ''p_ammo'', ''p_maxammo'', ''p_attackdown'', ''p_usedown'',
      ''p_cheats'', ''p_refire'', ''p_killcount'', ''p_itemcount'', ''p_secretcount'', ''p_message'',
      ''p_damagecount'', ''p_bonuscount'', ''p_attacker'', ''p_extralight'', ''p_fixedcolormap'']"

definition PSPRITE_FIELDS :: "rstring list" where
  "PSPRITE_FIELDS = map ascii
     [''psp_state'', ''psp_tics'', ''psp_sx'', ''psp_sy'']"

definition HUD_FIELDS :: "rstring list" where
  "HUD_FIELDS = map ascii
     [''st_faceindex'', ''st_facecount'', ''st_priority'', ''st_lastattackdown'', ''st_oldweaponsowned'',
      ''st_oldhealth'', ''st_randomnumber'', ''st_lastcalc'', ''st_calc_oldhealth'', ''st_palette'',
      ''st_clock'', ''hu_message_on'', ''hu_message_counter'', ''hu_message'', ''hu_nottobefuckedwith'',
      ''menu_skullanim'', ''menu_whichskull'']"

definition INPUT_FIELDS :: "rstring list" where
  "INPUT_FIELDS = map ascii
     [''turnheld'']"

definition all_fields :: "rstring list" where
  "all_fields = GAME_FIELDS @ MOBJ_FIELDS @ SECTOR_THINKER_FIELDS @ SECTOR_FIELDS @ LINE_SIDE_FIELDS @
     BUTTON_FIELDS @ ANIM_FIELDS @ PLAYER_FIELDS @ PSPRITE_FIELDS @ HUD_FIELDS @ INPUT_FIELDS"

lemmas field_lists = GAME_FIELDS_def MOBJ_FIELDS_def SECTOR_THINKER_FIELDS_def SECTOR_FIELDS_def LINE_SIDE_FIELDS_def
  BUTTON_FIELDS_def ANIM_FIELDS_def PLAYER_FIELDS_def PSPRITE_FIELDS_def HUD_FIELDS_def INPUT_FIELDS_def

section \<open>A row under construction\<close>

record row =
  row_out :: rstring
  row_want :: "rstring list"
  row_at :: nat

definition row_new :: row where
  "row_new = \<lparr> row_out = [], row_want = all_fields, row_at = 0 \<rparr>"

definition row_put :: "row \<Rightarrow> rstring \<Rightarrow> rstring \<Rightarrow> row read" where
  "row_put row name value =
     (let want = (if row_at row < length (row_want row) then Some (row_want row ! row_at row) else None) in
      if want = Some name
      then Ok (row\<lparr>row_at := row_at row + 1, row_out := row_out row @ 9 # value\<rparr>)
      else Err (ColumnOutOfOrder name (case want of Some w \<Rightarrow> w | None \<Rightarrow> ascii ''nothing'')))"

definition row_put_array :: "row \<Rightarrow> rstring \<Rightarrow> rstring list \<Rightarrow> row read" where
  "row_put_array row name values = rbind (row_put row name []) (\<lambda>row'.
     Ok (row'\<lparr>row_out := row_out row' @ [91] @ join_with 44 values @ [93]\<rparr>))"

definition row_finish :: "row \<Rightarrow> rstring read" where
  "row_finish row = (if row_at row \<noteq> length (row_want row) then Err (RowTooShort (row_at row) (length (row_want row)))
     else Ok (row_out row @ [10]))"

text \<open>A value to be written, and the writes of a section: the value is read, then put under the next name.\<close>

datatype cell = Scalar rstring | Array "rstring list"

fun put_cell :: "row \<Rightarrow> rstring \<Rightarrow> cell \<Rightarrow> row read" where
  "put_cell row name (Scalar v) = row_put row name v"
| "put_cell row name (Array vs) = row_put_array row name vs"

definition next_name :: "rstring list \<Rightarrow> rstring" where
  "next_name names = (case names of n # _ \<Rightarrow> n | [] \<Rightarrow> [])"

fun put_all :: "row \<Rightarrow> rstring list \<Rightarrow> cell read list \<Rightarrow> row read" where
  "put_all row names [] = Ok row"
| "put_all row names (v # vs) =
     rbind v (\<lambda>c. rbind (put_cell row (next_name names) c) (\<lambda>row'. put_all row' (tl names) vs))"

definition icell :: "int read \<Rightarrow> cell read" where
  "icell v = rbind v (\<lambda>i. Ok (Scalar (show_int i)))"

definition ucell :: "'a::len word read \<Rightarrow> cell read" where
  "ucell v = rbind v (\<lambda>u. Ok (Scalar (to_decimal (unat u))))"

definition icells :: "int read list \<Rightarrow> cell read" where
  "icells vs = rbind (rcollect vs) (\<lambda>xs. Ok (Array (map show_int xs)))"

definition ucells :: "'a::len word read list \<Rightarrow> cell read" where
  "ucells vs = rbind (rcollect vs) (\<lambda>xs. Ok (Array (map (\<lambda>u. to_decimal (unat u)) xs)))"

section \<open>A frame\<close>

definition MESSAGE_LIMIT :: u32 where "MESSAGE_LIMIT = 1024"
definition UNREADABLE :: int where "UNREADABLE = 0"

record frame =
  fr_engine :: engine
  fr_ram :: ram_view
  fr_walk :: walk_result
  fr_player :: u32
  fr_numsectors :: int
  fr_numlines :: int
  fr_numsides :: int
  fr_numsubsectors :: int

abbreviation fr_globals :: "frame \<Rightarrow> globals" where
  "fr_globals fr \<equiv> en_globals (fr_engine fr)"

abbreviation fr_offsets :: "frame \<Rightarrow> offsets" where
  "fr_offsets fr \<equiv> en_offsets (fr_engine fr)"

text \<open>\<open>n.max(0) as u32\<close>.\<close>

definition count_of :: "int \<Rightarrow> u32" where
  "count_of n = word_of_int (max 0 n)"

definition frame_mobj_slot :: "frame \<Rightarrow> u32 \<Rightarrow> u32" where
  "frame_mobj_slot fr addr = mobj_slot (fr_walk fr) addr"

definition frame_index :: "frame \<Rightarrow> u32 \<Rightarrow> int \<Rightarrow> u32 \<Rightarrow> u32 \<Rightarrow> string \<Rightarrow> string \<Rightarrow> int read" where
  "frame_index fr base_ptr count stride ptr what into =
     (if ptr = 0 then Ok (- 1)
      else rbind (ram_u32 (fr_ram fr) base_ptr what) (\<lambda>base. index_of base (count_of count) stride ptr what into))"

definition player_number :: "frame \<Rightarrow> u32 \<Rightarrow> int read" where
  "player_number fr ptr =
     (if ptr = 0 then Ok (- 1)
      else let players = gl_players (fr_globals fr) in
        index_of (glb_addr players) (glb_count players) (pl_size (o_player (fr_offsets fr))) ptr ''mobj.player'' ''player'')"

definition state_index :: "frame \<Rightarrow> u32 \<Rightarrow> string \<Rightarrow> int read" where
  "state_index fr ptr what =
     (if ptr = 0 then Ok (- 1)
      else let states = gl_states (fr_globals fr) in
        index_of (glb_addr states) (glb_count states) (o_state_size (fr_offsets fr)) ptr what ''state'')"

definition message_hash :: "'h digest \<Rightarrow> frame \<Rightarrow> u32 \<Rightarrow> u64 read" where
  "message_hash dg fr ptr =
     (if ptr = 0 then Ok 0
      else rbind (ram_cstr (fr_ram fr) ptr MESSAGE_LIMIT ''a message'') (\<lambda>bs. Ok (d_xxh64 dg bs XXH64_SEED)))"

section \<open>World and things\<close>

definition game_cells :: "frame \<Rightarrow> cell read list" where
  "game_cells fr = (let g = fr_globals fr; r = fr_ram fr in
     [icell (ram_i32 r (gl_leveltime g) ''leveltime''),
      icell (ram_i32 r (gl_prndindex g) ''prndindex''),
      icell (ram_i32 r (gl_rndindex g) ''rndindex''),
      icell (Ok UNREADABLE),
      icell (Ok UNREADABLE),
      ucell (Ok (wk_setup_things (fr_walk fr))),
      ucell (ram_u32 r (gl_paused g) ''paused''),
      ucell (rbind (ram_u32 r (gl_demoplayback g) ''demoplayback'') (\<lambda>d. Ok (of_bool (d = 0) :: u32))),
      icell (ram_i32 r (gl_totalkills g) ''totalkills''),
      icell (ram_i32 r (gl_totalitems g) ''totalitems''),
      icell (ram_i32 r (gl_totalsecret g) ''totalsecret'')])"

definition column :: "thinker list \<Rightarrow> (u32 \<Rightarrow> 'a read) \<Rightarrow> 'a read list" where
  "column ts f = map (\<lambda>t. f (tk_addr t)) ts"

definition mobj_cells :: "frame \<Rightarrow> cell read list" where
  "mobj_cells fr = (let q = o_mobj (fr_offsets fr); sp = o_mapthing (fr_offsets fr); r = fr_ram fr;
       ts = wk_mobjs (fr_walk fr); unread = icells (map (\<lambda>_. Ok UNREADABLE) ts);
       word = (\<lambda>off. icells (column ts (\<lambda>a. ram_i32 r (a + off) ''a mobj''))) in
     [unread] @
     map word [mo_x q, mo_y q, mo_z q] @
     [ucells (column ts (\<lambda>a. ram_u32 r (a + mo_angle q) ''a mobj''))] @
     map word [mo_sprite q, mo_frame q, mo_floorz q, mo_ceilingz q, mo_radius q, mo_height q] @
     map word [mo_momx q, mo_momy q, mo_momz q, mo_kind q, mo_tics q] @
     [icells (column ts (\<lambda>a. rbind (ram_u32 r (a + mo_state q) ''mobj.state'') (\<lambda>p. state_index fr p ''mobj.state'')))] @
     map word [mo_flags q, mo_health q, mo_movedir q, mo_movecount q] @
     [ucells (column ts (\<lambda>a. rbind (ram_u32 r (a + mo_target q) ''mobj.target'') (\<lambda>p. Ok (frame_mobj_slot fr p))))] @
     map word [mo_reactiontime q, mo_threshold q] @
     [icells (column ts (\<lambda>a. rbind (ram_u32 r (a + mo_player q) ''mobj.player'') (player_number fr))),
      icells (column ts (\<lambda>a. ram_i32 r (a + mo_lastlook q) ''mobj.lastlook''))] @
     map (\<lambda>off. icells (column ts (\<lambda>a. ram_i16 r (a + mo_spawnpoint q + off) ''mobj.spawnpoint'')))
       [mt_x sp, mt_y sp, mt_angle sp, mt_kind sp, mt_options sp] @
     [ucells (column ts (\<lambda>a. rbind (ram_u32 r (a + mo_tracer q) ''mobj.tracer'') (\<lambda>p. Ok (frame_mobj_slot fr p)))),
      icells (column ts (\<lambda>a. rbind (ram_u32 r (a + mo_subsector q) ''mobj.subsector'') (\<lambda>p.
        frame_index fr (gl_subsectors (fr_globals fr)) (fr_numsubsectors fr) (o_subsector_size (fr_offsets fr)) p
          ''mobj.subsector'' ''subsector''))),
      unread])"

section \<open>Sector thinkers\<close>

record sector_thinker_row =
  st_sector :: int
  st_kind :: u8
  st_values :: "int list"
  st_active :: u32
  st_plat_slot :: u32
  st_ceiling_slot :: u32

definition SLOT_TYPE :: nat where "SLOT_TYPE = 0"
definition SLOT_DIRECTION :: nat where "SLOT_DIRECTION = 1"
definition SLOT_SPEED :: nat where "SLOT_SPEED = 2"
definition SLOT_DEST :: nat where "SLOT_DEST = 3"
definition SLOT_DEST2 :: nat where "SLOT_DEST2 = 4"
definition SLOT_COUNT :: nat where "SLOT_COUNT = 5"
definition SLOT_WAIT :: nat where "SLOT_WAIT = 6"
definition SLOT_STATUS :: nat where "SLOT_STATUS = 7"
definition SLOT_OLDSTATUS :: nat where "SLOT_OLDSTATUS = 8"
definition SLOT_CRUSH :: nat where "SLOT_CRUSH = 9"
definition SLOT_TAG :: nat where "SLOT_TAG = 10"
definition SLOT_TEXTURE :: nat where "SLOT_TEXTURE = 11"
definition SLOT_NEWSPECIAL :: nat where "SLOT_NEWSPECIAL = 12"
definition SLOT_MINLIGHT :: nat where "SLOT_MINLIGHT = 13"
definition SLOT_MAXLIGHT :: nat where "SLOT_MAXLIGHT = 14"
definition SLOT_MINTIME :: nat where "SLOT_MINTIME = 15"
definition SLOT_MAXTIME :: nat where "SLOT_MAXTIME = 16"

text \<open>The sector pointer of a thinker, and the reads that fill its values, in the order of the source.\<close>

fun kind_reads :: "ram_view \<Rightarrow> offsets \<Rightarrow> u32 \<Rightarrow> thinker_kind \<Rightarrow> u32 read \<times> (nat \<times> int read) list" where
  "kind_reads r o_all at Mobj = (Err (MobjAsSectorThinker at), [])"
| "kind_reads r o_all at Door = (let q = o_door o_all in
     (ram_u32 r (at + dr_sector q) ''vldoor.sector'',
      [(SLOT_TYPE, ram_i32 r (at + dr_kind q) ''vldoor.type''),
       (SLOT_DEST, ram_i32 r (at + dr_topheight q) ''vldoor.topheight''),
       (SLOT_SPEED, ram_i32 r (at + dr_speed q) ''vldoor.speed''),
       (SLOT_DIRECTION, ram_i32 r (at + dr_direction q) ''vldoor''),
       (SLOT_WAIT, ram_i32 r (at + dr_topwait q) ''vldoor.topwait''),
       (SLOT_COUNT, ram_i32 r (at + dr_topcountdown q) ''vldoor'')]))"
| "kind_reads r o_all at Plat = (let q = o_plat o_all in
     (ram_u32 r (at + pt_sector q) ''plat.sector'',
      [(SLOT_TYPE, ram_i32 r (at + pt_kind q) ''plat.type''),
       (SLOT_SPEED, ram_i32 r (at + pt_speed q) ''plat.speed''), (SLOT_DEST, ram_i32 r (at + pt_low q) ''plat.low''),
       (SLOT_DEST2, ram_i32 r (at + pt_high q) ''plat.high''), (SLOT_WAIT, ram_i32 r (at + pt_wait q) ''plat.wait''),
       (SLOT_COUNT, ram_i32 r (at + pt_count q) ''plat.count''),
       (SLOT_STATUS, ram_i32 r (at + pt_status q) ''plat.status''),
       (SLOT_OLDSTATUS, ram_i32 r (at + pt_oldstatus q) ''plat''),
       (SLOT_CRUSH, ram_i32 r (at + pt_crush q) ''plat.crush''),
       (SLOT_TAG, ram_i32 r (at + pt_tag q) ''plat.tag'')]))"
| "kind_reads r o_all at Floor = (let q = o_floor o_all in
     (ram_u32 r (at + flr_sector q) ''floormove.sector'',
      [(SLOT_TYPE, ram_i32 r (at + flr_kind q) ''floormove.type''),
       (SLOT_CRUSH, ram_i32 r (at + flr_crush q) ''floormove.crush''),
       (SLOT_DIRECTION, ram_i32 r (at + flr_direction q) ''floormove''),
       (SLOT_NEWSPECIAL, ram_i32 r (at + flr_newspecial q) ''floormove''),
       (SLOT_TEXTURE, ram_i16 r (at + flr_texture q) ''floormove''),
       (SLOT_DEST, ram_i32 r (at + flr_floordestheight q) ''floormove''),
       (SLOT_SPEED, ram_i32 r (at + flr_speed q) ''floormove.speed'')]))"
| "kind_reads r o_all at Ceiling = (let q = o_ceiling o_all in
     (ram_u32 r (at + ceil_sector q) ''ceiling.sector'',
      [(SLOT_TYPE, ram_i32 r (at + ceil_kind q) ''ceiling.type''),
       (SLOT_DEST, ram_i32 r (at + ceil_bottomheight q) ''ceiling''),
       (SLOT_DEST2, ram_i32 r (at + ceil_topheight q) ''ceiling''),
       (SLOT_SPEED, ram_i32 r (at + ceil_speed q) ''ceiling.speed''),
       (SLOT_CRUSH, ram_i32 r (at + ceil_crush q) ''ceiling.crush''),
       (SLOT_DIRECTION, ram_i32 r (at + ceil_direction q) ''ceiling''),
       (SLOT_TAG, ram_i32 r (at + ceil_tag q) ''ceiling.tag''),
       (SLOT_OLDSTATUS, ram_i32 r (at + ceil_olddirection q) ''ceiling'')]))"
| "kind_reads r o_all at LightFlash = (let q = o_light_flash o_all in
     (ram_u32 r (at + lf_sector q) ''lightflash.sector'',
      [(SLOT_COUNT, ram_i32 r (at + lf_count q) ''lightflash.count''),
       (SLOT_MAXLIGHT, ram_i32 r (at + lf_maxlight q) ''lightflash''),
       (SLOT_MINLIGHT, ram_i32 r (at + lf_minlight q) ''lightflash''),
       (SLOT_MAXTIME, ram_i32 r (at + lf_maxtime q) ''lightflash''),
       (SLOT_MINTIME, ram_i32 r (at + lf_mintime q) ''lightflash'')]))"
| "kind_reads r o_all at Strobe = (let q = o_strobe o_all in
     (ram_u32 r (at + stb_sector q) ''strobe.sector'',
      [(SLOT_COUNT, ram_i32 r (at + stb_count q) ''strobe.count''),
       (SLOT_MINLIGHT, ram_i32 r (at + stb_minlight q) ''strobe''),
       (SLOT_MAXLIGHT, ram_i32 r (at + stb_maxlight q) ''strobe''),
       (SLOT_MINTIME, ram_i32 r (at + stb_darktime q) ''strobe''),
       (SLOT_MAXTIME, ram_i32 r (at + stb_brighttime q) ''strobe'')]))"
| "kind_reads r o_all at Glow = (let q = o_glow o_all in
     (ram_u32 r (at + glo_sector q) ''glow.sector'',
      [(SLOT_MINLIGHT, ram_i32 r (at + glo_minlight q) ''glow''),
       (SLOT_MAXLIGHT, ram_i32 r (at + glo_maxlight q) ''glow''),
       (SLOT_DIRECTION, ram_i32 r (at + glo_direction q) ''glow'')]))"
| "kind_reads r o_all at FireFlicker = (let q = o_fire_flicker o_all in
     (ram_u32 r (at + ff_sector q) ''fireflicker.sector'',
      [(SLOT_COUNT, ram_i32 r (at + ff_count q) ''fireflicker.count''),
       (SLOT_MAXLIGHT, ram_i32 r (at + ff_maxlight q) ''fireflicker''),
       (SLOT_MINLIGHT, ram_i32 r (at + ff_minlight q) ''fireflicker'')]))"

fun set_all :: "(nat \<times> int read) list \<Rightarrow> int list \<Rightarrow> int list read" where
  "set_all [] values = Ok values"
| "set_all ((k, v) # rest) values = rbind v (\<lambda>x. set_all rest (values[k := x]))"

fun table_slot_from :: "ram_view \<Rightarrow> global \<Rightarrow> u32 \<Rightarrow> string \<Rightarrow> u32 list \<Rightarrow> u32 read" where
  "table_slot_from r table addr what [] = Ok 0"
| "table_slot_from r table addr what (index # rest) =
     rbind (ram_u32 r (glb_addr table + index * 4) what) (\<lambda>entry.
       if entry = addr then Ok (index + 1) else table_slot_from r table addr what rest)"

definition table_slot :: "frame \<Rightarrow> global \<Rightarrow> u32 \<Rightarrow> string \<Rightarrow> u32 read" where
  "table_slot fr table addr what = table_slot_from (fr_ram fr) table addr what (indices (glb_count table))"

definition sector_thinker :: "frame \<Rightarrow> thinker \<Rightarrow> sector_thinker_row read" where
  "sector_thinker fr t =
     (let (sector_read, reads) = kind_reads (fr_ram fr) (fr_offsets fr) (tk_addr t) (tk_kind t); g = fr_globals fr in
      rbind sector_read (\<lambda>sector_ptr.
      rbind (set_all reads (replicate 17 0)) (\<lambda>values.
      rbind (frame_index fr (gl_sectors g) (fr_numsectors fr) (sec_size (o_sector (fr_offsets fr))) sector_ptr
        ''a sector thinker's sector'' ''sector'') (\<lambda>sector.
      rbind (table_slot fr (gl_activeplats g) (tk_addr t) ''activeplats'') (\<lambda>plat.
      rbind (table_slot fr (gl_activeceilings g) (tk_addr t) ''activeceilings'') (\<lambda>ceiling.
      Ok \<lparr> st_sector = sector, st_kind = sector_kind (tk_kind t), st_values = values,
        st_active = of_bool (tk_active t), st_plat_slot = plat, st_ceiling_slot = ceiling \<rparr>))))))"

definition sector_thinker_cells :: "sector_thinker_row list \<Rightarrow> cell read list" where
  "sector_thinker_cells rows =
     [icells (map (\<lambda>_. Ok UNREADABLE) rows),
      ucells (map (\<lambda>x. Ok (st_kind x)) rows),
      icells (map (\<lambda>x. Ok (st_sector x)) rows)] @
     map (\<lambda>k. icells (map (\<lambda>x. of_option (if k < length (st_values x) then Some (st_values x ! k) else None)) rows))
      [SLOT_TYPE, SLOT_DIRECTION, SLOT_SPEED, SLOT_DEST, SLOT_DEST2, SLOT_COUNT, SLOT_WAIT, SLOT_STATUS,
      SLOT_OLDSTATUS, SLOT_CRUSH, SLOT_TAG, SLOT_TEXTURE, SLOT_NEWSPECIAL, SLOT_MINLIGHT, SLOT_MAXLIGHT,
      SLOT_MINTIME, SLOT_MAXTIME] @
     [ucells (map (\<lambda>x. Ok (st_active x)) rows),
      ucells (map (\<lambda>x. Ok (st_plat_slot x)) rows),
      ucells (map (\<lambda>x. Ok (st_ceiling_slot x)) rows)]"

section \<open>Map state\<close>

definition each :: "u32 \<Rightarrow> u32 \<Rightarrow> u32 \<Rightarrow> u32 \<Rightarrow> u32 list" where
  "each base count stride off = map (\<lambda>i. base + i * stride + off) (indices count)"

definition sector_cells :: "frame \<Rightarrow> u32 \<Rightarrow> cell read list" where
  "sector_cells fr base = (let q = o_sector (fr_offsets fr); r = fr_ram fr;
       at = each base (count_of (fr_numsectors fr)) (sec_size q) in
     map (\<lambda>off. icells (map (\<lambda>a. ram_i32 r a ''a sector'') (at off))) [sec_floorheight q, sec_ceilingheight q] @
     map (\<lambda>off. icells (map (\<lambda>a. ram_i16 r a ''a sector'') (at off))) [sec_floorpic q, sec_lightlevel q, sec_special q] @
     [ucells (map (\<lambda>a. rbind (ram_u32 r a ''sector.specialdata'') (\<lambda>p. Ok (sector_slot (fr_walk fr) p))) (at (sec_specialdata q))),
      ucells (map (\<lambda>a. rbind (ram_u32 r a ''sector.soundtarget'') (\<lambda>p. Ok (frame_mobj_slot fr p))) (at (sec_soundtarget q))),
      icells (map (\<lambda>a. ram_i32 r a ''sector.soundtraversed'') (at (sec_soundtraversed q)))])"

definition line_side_cells :: "frame \<Rightarrow> u32 \<Rightarrow> u32 \<Rightarrow> cell read list" where
  "line_side_cells fr lines sides = (let ln = o_line (fr_offsets fr); sd = o_side (fr_offsets fr); r = fr_ram fr;
       at = each sides (count_of (fr_numsides fr)) (sd_size sd) in
     [icells (map (\<lambda>a. ram_i16 r a ''line.special'') (each lines (count_of (fr_numlines fr)) (ln_size ln) (ln_special ln)))] @
     map (\<lambda>off. icells (map (\<lambda>a. ram_i16 r a ''a side'') (at off))) [sd_toptexture sd, sd_midtexture sd, sd_bottomtexture sd] @
     [icells (map (\<lambda>a. ram_i32 r a ''a side'') (at (sd_textureoffset sd)))])"

definition button_cells :: "frame \<Rightarrow> cell read list" where
  "button_cells fr = (let q = o_button (fr_offsets fr); g = fr_globals fr; table = gl_buttonlist g; r = fr_ram fr;
       at = each (glb_addr table) (glb_count table) (btn_size q) in
     [icells (map (\<lambda>a. rbind (ram_u32 r a ''button.line'') (\<lambda>p.
        frame_index fr (gl_lines g) (fr_numlines fr) (ln_size (o_line (fr_offsets fr))) p ''button.line'' ''line'')) (at (btn_line q)))] @
     map (\<lambda>off. icells (map (\<lambda>a. ram_i32 r a ''a button'') (at off))) [btn_place q, btn_btexture q, btn_btimer q])"

definition anim_cells :: "frame \<Rightarrow> cell read list" where
  "anim_cells fr = (let g = fr_globals fr; r = fr_ram fr in
     map (\<lambda>(table, count, what).
       rbind (ram_u32 r table what) (\<lambda>base. rbind (ram_i32 r count what) (\<lambda>n.
         icells (map (\<lambda>i. ram_i32 r (base + i * 4) what) (indices (count_of n))))))
       [(gl_texturetranslation g, gl_numtextures g, ''texturetranslation''),
        (gl_flattranslation g, gl_numflats g, ''flattranslation'')])"

section \<open>Player and display\<close>

definition player_cells :: "'h digest \<Rightarrow> frame \<Rightarrow> cell read list" where
  "player_cells dg fr = (let q = o_player (fr_offsets fr); cmd = o_ticcmd (fr_offsets fr); r = fr_ram fr; p = fr_player fr;
       words = (\<lambda>fd. icells (map (\<lambda>i. ram_i32 r (p + af_offset fd + i * 4) ''a player array'') (indices (af_count fd))));
       word = (\<lambda>off. icell (ram_i32 r (p + off) ''a player field''));
       own = (\<lambda>off. icell (ram_i32 r (p + off) ''player'')) in
     [ucell (rbind (ram_u32 r (p + pl_mo q) ''player.mo'') (\<lambda>a. Ok (frame_mobj_slot fr a))),
      own (pl_playerstate q),
      icell (ram_i8 r (p + pl_cmd q + tc_forwardmove cmd) ''cmd''),
      icell (ram_i8 r (p + pl_cmd q + tc_sidemove cmd) ''cmd''),
      icell (ram_i16 r (p + pl_cmd q + tc_angleturn cmd) ''cmd''),
      ucell (ram_u8 r (p + pl_cmd q + tc_buttons cmd) ''cmd'')] @
     map word [pl_viewz q, pl_viewheight q, pl_deltaviewheight q, pl_bob q, pl_health q, pl_armorpoints q, pl_armortype q] @
     [words (pl_powers q), words (pl_cards q),
      own (pl_backpack q), own (pl_readyweapon q), own (pl_pendingweapon q),
      words (pl_weaponowned q), words (pl_ammo q), words (pl_maxammo q)] @
     map word [pl_attackdown q, pl_usedown q, pl_cheats q, pl_refire q, pl_killcount q, pl_itemcount q, pl_secretcount q] @
     [ucell (rbind (ram_u32 r (p + pl_message q) ''player.message'') (message_hash dg fr)),
      own (pl_damagecount q), own (pl_bonuscount q),
      ucell (rbind (ram_u32 r (p + pl_attacker q) ''player.attacker'') (\<lambda>a. Ok (frame_mobj_slot fr a))),
      own (pl_extralight q), own (pl_fixedcolormap q)])"

definition psprite_cells :: "frame \<Rightarrow> cell read list" where
  "psprite_cells fr = (let fd = pl_psprites (o_player (fr_offsets fr)); q = o_pspdef (fr_offsets fr); r = fr_ram fr;
       at = each (fr_player fr + af_offset fd) (af_count fd) (psp_size q) in
     [icells (map (\<lambda>a. rbind (ram_u32 r a ''psprite.state'') (\<lambda>p. state_index fr p ''psprite.state'')) (at (psp_state q)))] @
     map (\<lambda>off. icells (map (\<lambda>a. ram_i32 r a ''a psprite'') (at off))) [psp_tics q, psp_sx q, psp_sy q])"

text \<open>\<open>clamp\<close> panics where its bounds are out of order.\<close>

definition hud_message :: "'h digest \<Rightarrow> frame \<Rightarrow> u64 read" where
  "hud_message dg fr = (let r = fr_ram fr; q = o_stext (fr_offsets fr); tl = o_textline (fr_offsets fr);
       widget = gl_w_message (fr_globals fr) in
     rbind (ram_i32 r (widget + stx_current q) ''w_message.cl'') (\<lambda>current.
     if current < 0 \<or> stx_line_count q \<le> word_of_int current
     then Err (NotAnIndex ''w_message.cl'' widget (word_of_int current) ''message line'')
     else let line = widget + stx_lines q + word_of_int current * tl_size tl in
       rbind (ram_i32 r (line + tl_len tl) ''a message line's length'') (\<lambda>len0.
       if sint (af_count (tl_text tl)) < 0 then Panic
       else let len = word_of_int (max 0 (min len0 (sint (af_count (tl_text tl))))) :: u32 in
         if len = 0 then Ok 0
         else rbind (ram_cstr r (line + af_offset (tl_text tl)) len ''a message line'') (\<lambda>txt.
           Ok (d_xxh64 dg txt XXH64_SEED)))))"

definition hud_cells :: "'h digest \<Rightarrow> frame \<Rightarrow> cell read list" where
  "hud_cells dg fr = (let g = fr_globals fr; r = fr_ram fr; old = gl_st_oldweaponsowned g in
     map (\<lambda>(a, what). icell (ram_i32 r a what))
       [(gl_st_faceindex g, ''st_faceindex''), (gl_st_facecount g, ''st_facecount''), (gl_st_priority g, ''priority''),
        (gl_st_lastattackdown g, ''lastattackdown'')] @
     [icells (map (\<lambda>i. ram_i32 r (glb_addr old + i * 4) ''oldweaponsowned'') (indices (glb_count old)))] @
     map (\<lambda>(a, what). icell (ram_i32 r a what))
       [(gl_st_oldhealth g, ''st_oldhealth''), (gl_st_randomnumber g, ''st_randomnumber''), (gl_st_lastcalc g, ''lastcalc''),
        (gl_st_calc_oldhealth g, ''oldhealth''), (gl_st_palette g, ''st_palette''), (gl_st_clock g, ''st_clock''),
        (gl_message_on g, ''message_on''), (gl_message_counter g, ''message_counter'')] @
     [ucell (hud_message dg fr),
      icell (ram_i32 r (gl_message_nottobefuckedwith g) ''message_nottobefuckedwith''),
      icell (ram_i16 r (gl_skull_anim_counter g) ''skullAnimCounter''),
      icell (ram_i16 r (gl_which_skull g) ''whichSkull'')])"

definition input_cells :: "frame \<Rightarrow> cell read list" where
  "input_cells fr = [icell (ram_i32 (fr_ram fr) (gl_turnheld (fr_globals fr)) ''turnheld'')]"

section \<open>The whole row\<close>

definition frame_of :: "engine \<Rightarrow> cpu \<Rightarrow> frame read" where
  "frame_of e c = (let r = ram_of c; g = en_globals e in
     rbind (walk e c) (\<lambda>w.
     rbind (ram_i32 r (gl_numsectors g) ''numsectors'') (\<lambda>numsectors.
     rbind (ram_i32 r (gl_numlines g) ''numlines'') (\<lambda>numlines.
     rbind (ram_i32 r (gl_numsides g) ''numsides'') (\<lambda>numsides.
     rbind (ram_i32 r (gl_numsubsectors g) ''numsubsectors'') (\<lambda>numsubsectors.
     Ok \<lparr> fr_engine = e, fr_ram = r, fr_walk = w, fr_player = glb_addr (gl_players g), fr_numsectors = numsectors,
       fr_numlines = numlines, fr_numsides = numsides, fr_numsubsectors = numsubsectors \<rparr>))))))"

definition put_sector_thinkers :: "frame \<Rightarrow> row \<Rightarrow> row read" where
  "put_sector_thinkers fr row = rbind (rcollect (map (sector_thinker fr) (wk_sector_thinkers (fr_walk fr)))) (\<lambda>rows.
     put_all row SECTOR_THINKER_FIELDS (sector_thinker_cells rows))"

definition put_sectors :: "frame \<Rightarrow> row \<Rightarrow> row read" where
  "put_sectors fr row = rbind (ram_u32 (fr_ram fr) (gl_sectors (fr_globals fr)) ''sectors'') (\<lambda>base.
     put_all row SECTOR_FIELDS (sector_cells fr base))"

definition put_lines_and_sides :: "frame \<Rightarrow> row \<Rightarrow> row read" where
  "put_lines_and_sides fr row =
     rbind (ram_u32 (fr_ram fr) (gl_lines (fr_globals fr)) ''lines'') (\<lambda>lines.
     rbind (ram_u32 (fr_ram fr) (gl_sides (fr_globals fr)) ''sides'') (\<lambda>sides.
     put_all row LINE_SIDE_FIELDS (line_side_cells fr lines sides)))"

definition put_frame :: "'h digest \<Rightarrow> frame \<Rightarrow> row \<Rightarrow> row read" where
  "put_frame dg fr row =
     rbind (put_all row GAME_FIELDS (game_cells fr)) (\<lambda>row.
     rbind (put_all row MOBJ_FIELDS (mobj_cells fr)) (\<lambda>row.
     rbind (put_sector_thinkers fr row) (\<lambda>row.
     rbind (put_sectors fr row) (\<lambda>row.
     rbind (put_lines_and_sides fr row) (\<lambda>row.
     rbind (put_all row BUTTON_FIELDS (button_cells fr)) (\<lambda>row.
     rbind (put_all row ANIM_FIELDS (anim_cells fr)) (\<lambda>row.
     rbind (put_all row PLAYER_FIELDS (player_cells dg fr)) (\<lambda>row.
     rbind (put_all row PSPRITE_FIELDS (psprite_cells fr)) (\<lambda>row.
     rbind (put_all row HUD_FIELDS (hud_cells dg fr)) (\<lambda>row.
     put_all row INPUT_FIELDS (input_cells fr)))))))))))"

definition row_write :: "'h digest \<Rightarrow> engine \<Rightarrow> cpu \<Rightarrow> u64 \<Rightarrow> rstring read" where
  "row_write dg e c index =
     rbind (frame_of e c) (\<lambda>fr.
     rbind (ram_i32 (fr_ram fr) (gl_gametic (en_globals e)) ''gametic'') (\<lambda>tic.
     rbind (put_frame dg fr (row_new\<lparr>row_out := to_decimal (unat index) @ 9 # show_int tic @ 9 # to_hex 16 (unat (fb_hash_of dg c))\<rparr>))
       row_finish))"

section \<open>What a section writes\<close>

fun cell_text :: "cell \<Rightarrow> rstring" where
  "cell_text (Scalar v) = v"
| "cell_text (Array vs) = [91] @ join_with 44 vs @ [93]"

definition row_left :: "row \<Rightarrow> rstring list" where
  "row_left row = drop (row_at row) (row_want row)"

definition row_add :: "row \<Rightarrow> cell list \<Rightarrow> row" where
  "row_add row cs = row\<lparr>row_at := row_at row + length cs, row_out := row_out row @ concat (map (\<lambda>c. 9 # cell_text c) cs)\<rparr>"

lemma row_add_simps [simp]: "row_add row [] = row" "row_add (row_add row xs) ys = row_add row (xs @ ys)"
  by (simp_all add: row_add_def)

lemma row_left_add: "row_left (row_add row cs) = drop (length cs) (row_left row)"
  by (simp add: row_left_def row_add_def add.commute)

lemma put_cell_next:
  assumes "row_left row = name # rest"
  shows "put_cell row name c = Ok (row_add row [c])"
proof -
  have "row_at row < length (row_want row)" "row_want row ! row_at row = name"
    using assms by (auto simp: row_left_def nth_via_drop intro: ccontr)
  then show ?thesis by (cases c) (simp_all add: row_put_def row_put_array_def row_add_def)
qed

lemma put_all_next:
  assumes "row_left row = names @ rest" "length vs = length names"
  shows "put_all row names vs = rbind (rcollect vs) (\<lambda>cs. Ok (row_add row cs))"
  using assms
proof (induction vs arbitrary: row names)
  case (Cons v vs)
  then obtain n ns where n: "names = n # ns" by (cases names) auto
  have "put_all (row_add row [c]) ns vs = rbind (rcollect vs) (\<lambda>cs. Ok (row_add row (c # cs)))" for c
    using Cons.IH [of "row_add row [c]" ns] Cons.prems n by (simp add: row_left_add)
  moreover have "put_cell row n c = Ok (row_add row [c])" for c
    using Cons.prems n by (intro put_cell_next [where rest = "ns @ rest"]) simp
  ultimately show ?case using n by (simp add: next_name_def)
qed simp

text \<open>
  \<open>writes names f cells\<close>: where the columns \<open>names\<close> are due, \<open>f\<close> reads \<open>cells\<close> and adds them, one for each name.
\<close>

definition writes :: "rstring list \<Rightarrow> (row \<Rightarrow> row read) \<Rightarrow> cell list read \<Rightarrow> bool" where
  "writes names f cells \<longleftrightarrow>
     (\<forall>row rest. row_left row = names @ rest \<longrightarrow> f row = rbind cells (\<lambda>cs. Ok (row_add row cs))) \<and>
     (\<forall>cs. cells = Ok cs \<longrightarrow> length cs = length names)"

lemma writes_put_all: "length vs = length names \<Longrightarrow> writes names (\<lambda>row. put_all row names vs) (rcollect vs)"
  by (auto simp: writes_def put_all_next rcollect_Ok_iff)

lemma writes_bind: "(\<And>x. writes names (f x) (cells x)) \<Longrightarrow> writes names (\<lambda>row. rbind m (\<lambda>x. f x row)) (rbind m cells)"
  by (cases m) (auto simp: writes_def)

lemma writes_seq:
  assumes "writes ns f a" "writes ms g b"
  shows "writes (ns @ ms) (\<lambda>row. rbind (f row) g) (rbind a (\<lambda>x. rbind b (\<lambda>y. Ok (x @ y))))"
proof (cases a)
  case (Ok x)
  then have l: "length x = length ns" using assms(1) by (simp add: writes_def)
  have "f row = Ok (row_add row x) \<and> g (row_add row x) = rbind b (\<lambda>cs. Ok (row_add row (x @ cs)))"
    if "row_left row = (ns @ ms) @ rest" for row rest
    using that assms l Ok by (simp add: writes_def row_left_add)
  then show ?thesis using l Ok assms(2) by (auto simp: writes_def rbind_Ok_iff)
qed (use assms(1) in \<open>auto simp: writes_def\<close>)

section \<open>The cells of a frame\<close>

definition thinker_section :: "frame \<Rightarrow> cell list read" where
  "thinker_section fr = rbind (rcollect (map (sector_thinker fr) (wk_sector_thinkers (fr_walk fr)))) (\<lambda>rows.
     rcollect (sector_thinker_cells rows))"

definition sector_section :: "frame \<Rightarrow> cell list read" where
  "sector_section fr = rbind (ram_u32 (fr_ram fr) (gl_sectors (fr_globals fr)) ''sectors'') (\<lambda>base. rcollect (sector_cells fr base))"

definition line_side_section :: "frame \<Rightarrow> cell list read" where
  "line_side_section fr =
     rbind (ram_u32 (fr_ram fr) (gl_lines (fr_globals fr)) ''lines'') (\<lambda>lines.
     rbind (ram_u32 (fr_ram fr) (gl_sides (fr_globals fr)) ''sides'') (\<lambda>sides. rcollect (line_side_cells fr lines sides)))"

fun append_reads :: "cell list read list \<Rightarrow> cell list read" where
  "append_reads [] = Ok []"
| "append_reads [a] = a"
| "append_reads (a # as) = rbind a (\<lambda>x. rbind (append_reads as) (\<lambda>y. Ok (x @ y)))"

definition frame_cells :: "'h digest \<Rightarrow> frame \<Rightarrow> cell list read" where
  "frame_cells dg fr = append_reads
     [rcollect (game_cells fr), rcollect (mobj_cells fr), thinker_section fr, sector_section fr, line_side_section fr,
      rcollect (button_cells fr), rcollect (anim_cells fr), rcollect (player_cells dg fr), rcollect (psprite_cells fr),
      rcollect (hud_cells dg fr), rcollect (input_cells fr)]"

lemma section_lengths:
  "length (game_cells fr) = length GAME_FIELDS" "length (mobj_cells fr) = length MOBJ_FIELDS"
  "length (sector_thinker_cells rows) = length SECTOR_THINKER_FIELDS" "length (sector_cells fr b) = length SECTOR_FIELDS"
  "length (line_side_cells fr l s) = length LINE_SIDE_FIELDS" "length (button_cells fr) = length BUTTON_FIELDS"
  "length (anim_cells fr) = length ANIM_FIELDS" "length (player_cells dg fr) = length PLAYER_FIELDS"
  "length (psprite_cells fr) = length PSPRITE_FIELDS" "length (hud_cells dg fr) = length HUD_FIELDS"
  "length (input_cells fr) = length INPUT_FIELDS"
  by (simp_all add: field_lists game_cells_def mobj_cells_def sector_thinker_cells_def sector_cells_def line_side_cells_def
      button_cells_def anim_cells_def player_cells_def psprite_cells_def hud_cells_def input_cells_def Let_def)

lemma writes_sections:
  "writes SECTOR_THINKER_FIELDS (put_sector_thinkers fr) (thinker_section fr)"
  "writes SECTOR_FIELDS (put_sectors fr) (sector_section fr)"
  "writes LINE_SIDE_FIELDS (put_lines_and_sides fr) (line_side_section fr)"
  unfolding put_sector_thinkers_def thinker_section_def put_sectors_def sector_section_def put_lines_and_sides_def line_side_section_def
  by (intro writes_bind writes_put_all section_lengths)+

lemma writes_frame: "writes all_fields (put_frame dg fr) (frame_cells dg fr)"
  unfolding all_fields_def put_frame_def frame_cells_def append_reads.simps
  by (intro writes_seq writes_put_all section_lengths writes_sections)


section \<open>No column is out of turn\<close>

definition clean :: "'a read \<Rightarrow> bool" where
  "clean r \<longleftrightarrow> (\<forall>e. r = Err e \<longrightarrow> (\<forall>a b. e \<noteq> ColumnOutOfOrder a b) \<and> (\<forall>n m. e \<noteq> RowTooShort n m))"

lemma clean_simps [simp]:
  "clean (Ok x)" "clean Panic" "clean (of_option y)"
  by (auto simp: clean_def)

lemma clean_rbind [simp]: "clean m \<Longrightarrow> (\<And>x. m = Ok x \<Longrightarrow> clean (f x)) \<Longrightarrow> clean (rbind m f)"
  by (cases m) (auto simp: clean_def)

lemma clean_rcollect [simp]: "list_all clean rs \<Longrightarrow> clean (rcollect rs)"
  by (induction rs) simp_all

lemma clean_outside: "(\<And>e. m = Err e \<Longrightarrow> outside e) \<Longrightarrow> clean m"
  by (auto simp: clean_def outside_def)

lemma clean_ram [simp]:
  "clean (ram_u8 r a w)" "clean (ram_u32 r a w)" "clean (ram_i8 r a w)" "clean (ram_i16 r a w)" "clean (ram_i32 r a w)"
  "clean (ram_cstr r a n w)"
  by (auto intro: clean_outside ram_read_err)

lemma clean_index_of [simp]: "clean (index_of b n s a w i)"
  by (simp add: index_of_def Let_def clean_def)

lemma clean_index [simp]: "clean (frame_index fr bp n s p w i)" "clean (player_number fr p)" "clean (state_index fr p w)"
  "clean (message_hash dg fr p)"
  by (simp_all add: frame_index_def player_number_def state_index_def message_hash_def Let_def)

lemma clean_cells [simp]:
  "clean v \<Longrightarrow> clean (icell v)" "clean u \<Longrightarrow> clean (ucell u)"
  "list_all clean vs \<Longrightarrow> clean (icells vs)" "list_all clean us \<Longrightarrow> clean (ucells us)"
  by (simp_all add: icell_def ucell_def icells_def ucells_def)

lemma clean_column [simp]: "(\<And>a. clean (f a)) \<Longrightarrow> list_all clean (column ts f)"
  by (simp add: column_def list_all_iff)

lemma clean_map [simp]: "(\<And>x. clean (f x)) \<Longrightarrow> list_all clean (map f xs)"
  by (simp add: list_all_iff)

lemma clean_hud_message [simp]: "clean (hud_message dg fr)"
  unfolding hud_message_def Let_def by (simp add: clean_def [of "Err _"])

lemma clean_sections:
  "list_all clean (game_cells fr)" "list_all clean (mobj_cells fr)" "list_all clean (sector_thinker_cells rows)"
  "list_all clean (sector_cells fr b)" "list_all clean (line_side_cells fr l s)" "list_all clean (button_cells fr)"
  "list_all clean (anim_cells fr)" "list_all clean (player_cells dg fr)" "list_all clean (psprite_cells fr)"
  "list_all clean (hud_cells dg fr)" "list_all clean (input_cells fr)"
  by (simp_all add: game_cells_def mobj_cells_def sector_thinker_cells_def sector_cells_def line_side_cells_def
      button_cells_def anim_cells_def player_cells_def psprite_cells_def hud_cells_def input_cells_def Let_def)

lemma clean_table_slot [simp]: "clean (table_slot_from r g a w ixs)"
  by (induction ixs) simp_all

lemma clean_set_all: "list_all (\<lambda>p. clean (snd p)) rs \<Longrightarrow> clean (set_all rs vs)"
  by (induction rs vs rule: set_all.induct) simp_all

lemma clean_kind_reads: "clean (fst (kind_reads r q a k))" "list_all (\<lambda>p. clean (snd p)) (snd (kind_reads r q a k))"
  by (cases k; simp add: Let_def clean_def [of "Err _"])+

lemma clean_sector_thinker [simp]: "clean (sector_thinker fr t)"
  using clean_kind_reads clean_set_all [OF clean_kind_reads(2)]
  by (simp add: sector_thinker_def table_slot_def split_beta Let_def)

lemma clean_frame_cells: "clean (frame_cells dg fr)"
  by (simp add: frame_cells_def thinker_section_def sector_section_def line_side_section_def clean_sections)

lemma clean_thinker_of [simp]: "clean (thinker_of e st a f)"
  by (simp add: thinker_of_def clean_def [of "Err _"] split: option.split)

lemma clean_stasis [simp]: "clean (stasis_entries r g k w ixs m)"
  by (induction ixs arbitrary: m) simp_all

lemma clean_walk_loop: "clean (walk_loop e r st at steps w split)"
proof (induction e r st at steps w split rule: walk_loop.induct)
  case (1 e r st at steps w split)
  show ?case
    by (subst walk_loop.simps) (use 1 in \<open>simp add: Let_def clean_def [of "Err _"] split_beta\<close>)
qed

lemma clean_frame_of: "clean (frame_of e c)"
  by (simp add: frame_of_def walk_def stasis_kinds_def clean_walk_loop Let_def)

section \<open>A row is the columns of the contract\<close>

definition row_head :: "'h digest \<Rightarrow> cpu \<Rightarrow> u64 \<Rightarrow> int \<Rightarrow> rstring list" where
  "row_head dg c index tic = [to_decimal (unat index), show_int tic, to_hex 16 (unat (fb_hash_of dg c))]"

lemma join_with_snoc_cells: "fs \<noteq> [] \<Longrightarrow> join_with 9 fs @ concat (map (\<lambda>c. 9 # cell_text c) cs) = join_with 9 (fs @ map cell_text cs)"
proof (induction cs arbitrary: fs)
  case (Cons c cs)
  have "join_with 9 (fs @ [t]) = join_with 9 fs @ 9 # t" for t
    using Cons.prems by (induction "9 :: u8" fs rule: join_with.induct) auto
  then show ?case using Cons.IH [of "fs @ [cell_text c]"] by simp
qed simp

lemma row_write_eq:
  "row_write dg e c index = rbind (frame_of e c) (\<lambda>fr. rbind (gametic e c) (\<lambda>tic. rbind (frame_cells dg fr) (\<lambda>cells.
     Ok (join_with 9 (row_head dg c index tic @ map cell_text cells) @ [10]))))"
proof -
  have ram: "frame_of e c = Ok fr \<Longrightarrow> fr_ram fr = ram_of c" for fr
    by (auto simp: frame_of_def rbind_Ok_iff Let_def)
  have put: "rbind (put_frame dg fr (row_new\<lparr>row_out := out\<rparr>)) row_finish =
      rbind (frame_cells dg fr) (\<lambda>cs. Ok (out @ concat (map (\<lambda>c. 9 # cell_text c) cs) @ [10]))" for fr out
  proof -
    have "put_frame dg fr (row_new\<lparr>row_out := out\<rparr>) = rbind (frame_cells dg fr) (\<lambda>cs. Ok (row_add (row_new\<lparr>row_out := out\<rparr>) cs))"
      using writes_frame [of dg fr] by (auto simp: writes_def row_left_def row_new_def)
    moreover have "row_finish (row_add (row_new\<lparr>row_out := out\<rparr>) cs) = Ok (out @ concat (map (\<lambda>c. 9 # cell_text c) cs) @ [10])"
      if "frame_cells dg fr = Ok cs" for cs
      using that writes_frame [of dg fr] by (simp add: writes_def row_finish_def row_add_def row_new_def)
    ultimately show ?thesis by (auto intro: rbind_cong)
  qed
  have head: "to_decimal (unat index) @ 9 # show_int tic @ 9 # to_hex 16 (unat (fb_hash_of dg c)) = join_with 9 (row_head dg c index tic)" for tic
    by (simp add: row_head_def)
  show ?thesis unfolding row_write_def gametic_def put head using join_with_snoc_cells [of "row_head dg c index _"] ram
    by (auto intro!: rbind_cong simp: row_head_def)
qed


definition plain :: "rstring \<Rightarrow> bool" where
  "plain t \<longleftrightarrow> 9 \<notin> set t \<and> 10 \<notin> set t \<and> 13 \<notin> set t"

lemma plain_simps [simp]: "plain []" "plain (xs @ ys) \<longleftrightarrow> plain xs \<and> plain ys"
  "plain (b # xs) \<longleftrightarrow> b \<noteq> 9 \<and> b \<noteq> 10 \<and> b \<noteq> 13 \<and> plain xs"
  by (auto simp: plain_def)

lemma plain_numbers [simp]: "plain (to_decimal n)" "plain (show_int i)"
proof -
  show d: "plain (to_decimal n)" for n using digits_plain [of _ n] by (simp add: plain_def)
  show "plain (show_int i)" by (simp add: show_int_def d)
qed

lemma plain_hex [simp]: "plain (to_hex k n)"
  using to_hex_digits [of k n] by (auto simp: plain_def list_all_iff is_hex_digit_def is_ascii_digit_def)

lemma plain_join: "(\<And>t. t \<in> set ts \<Longrightarrow> plain t) \<Longrightarrow> plain (join_with 44 ts)"
  by (induction "44 :: u8" ts rule: join_with.induct) auto

definition printed :: "cell read \<Rightarrow> bool" where
  "printed r \<longleftrightarrow> (\<forall>c. r = Ok c \<longrightarrow> plain (cell_text c))"

lemma printed_simps [simp]:
  "printed (icell i)" "printed (ucell u)" "printed (icells is')" "printed (ucells us)"
  "(\<And>x. printed (f x)) \<Longrightarrow> printed (rbind m f)"
  by (auto simp: printed_def icell_def ucell_def icells_def ucells_def rbind_Ok_iff intro!: plain_join)

lemma printed_map [simp]: "(\<And>x. printed (f x)) \<Longrightarrow> list_all printed (map f xs)"
  by (simp add: list_all_iff)

lemma printed_sections:
  "list_all printed (game_cells fr)" "list_all printed (mobj_cells fr)" "list_all printed (sector_thinker_cells rows)"
  "list_all printed (sector_cells fr b)" "list_all printed (line_side_cells fr l s)" "list_all printed (button_cells fr)"
  "list_all printed (anim_cells fr)" "list_all printed (player_cells dg fr)" "list_all printed (psprite_cells fr)"
  "list_all printed (hud_cells dg fr)" "list_all printed (input_cells fr)"
  by (simp_all add: game_cells_def mobj_cells_def sector_thinker_cells_def sector_cells_def line_side_cells_def
      button_cells_def anim_cells_def player_cells_def psprite_cells_def hud_cells_def input_cells_def Let_def)

lemma printed_collected: "list_all printed rs \<Longrightarrow> rcollect rs = Ok cs \<Longrightarrow> c \<in> set cs \<Longrightarrow> plain (cell_text c)"
  by (auto simp: rcollect_Ok_iff list_all_iff printed_def)

lemma printed_frame: "frame_cells dg fr = Ok cells \<Longrightarrow> c \<in> set cells \<Longrightarrow> plain (cell_text c)"
  by (auto simp: frame_cells_def thinker_section_def sector_section_def line_side_section_def rbind_Ok_iff
      dest: printed_collected [OF printed_sections(1)] printed_collected [OF printed_sections(2)] printed_collected [OF printed_sections(3)]
        printed_collected [OF printed_sections(4)] printed_collected [OF printed_sections(5)] printed_collected [OF printed_sections(6)]
        printed_collected [OF printed_sections(7)] printed_collected [OF printed_sections(8)] printed_collected [OF printed_sections(9)]
        printed_collected [OF printed_sections(10)] printed_collected [OF printed_sections(11)])

lemma plain_join_columns: "(\<And>t. t \<in> set ts \<Longrightarrow> plain t) \<Longrightarrow> 10 \<notin> set (join_with 9 ts) \<and> 13 \<notin> set (join_with 9 ts)"
  by (induction "9 :: u8" ts rule: join_with.induct) (auto simp: plain_def)

lemma row_text_columns:
  assumes "\<And>t. t \<in> set ts \<Longrightarrow> plain t" "ts \<noteq> []"
  shows "map (split_at 9) (text_lines (join_with 9 ts @ [10])) = [ts]"
proof -
  have "text_lines (join_with 9 ts @ [10]) = [join_with 9 ts]"
  proof -
    have "10 \<notin> set (join_with 9 ts) \<and> 13 \<notin> set (join_with 9 ts)" using plain_join_columns assms(1) by blast
    moreover from this have "join_with 9 ts = [] \<or> last (join_with 9 ts) \<noteq> 13" using last_in_set by metis
    ultimately show ?thesis using text_lines_concat [of "[join_with 9 ts]"] by simp
  qed
  moreover have "split_at 9 (join_with 9 ts) = ts" using split_join [of ts 9] assms by (simp add: plain_def)
  ultimately show ?thesis by simp
qed

text \<open>
  C38: A row of the probe is one line of the contract's columns.  Reading the row back as tab separated
  text gives one line: the frame index, the tic and the framebuffer hash, and then one column for every
  field of the contract in its order, each the value the section of that field read.  No frame makes
  the writer put a column out of turn or stop short of the last column.
\<close>

theorem row_columns:
  "(\<forall>a b. row_write dg e c index \<noteq> Err (ColumnOutOfOrder a b)) \<and> (\<forall>n m. row_write dg e c index \<noteq> Err (RowTooShort n m)) \<and>
   rbind (row_write dg e c index) (\<lambda>txt. Ok (map (split_at 9) (text_lines txt))) =
     rbind (frame_of e c) (\<lambda>fr. rbind (gametic e c) (\<lambda>tic. rbind (frame_cells dg fr) (\<lambda>cells.
       Ok [row_head dg c index tic @ map cell_text cells]))) \<and>
   rbind (row_write dg e c index) (\<lambda>txt. Ok (map (length \<circ> split_at 9) (text_lines txt))) =
     rbind (row_write dg e c index) (\<lambda>txt. Ok [3 + length all_fields])"
proof (intro conjI allI)
  have "clean (row_write dg e c index)"
    unfolding row_write_eq gametic_def by (intro clean_rbind clean_frame_of clean_frame_cells clean_ram clean_simps)
  then show "row_write dg e c index \<noteq> Err (ColumnOutOfOrder a b)" "row_write dg e c index \<noteq> Err (RowTooShort n m)" for a b n m
    by (auto simp: clean_def)
  have p: "map (split_at 9) (text_lines (join_with 9 (row_head dg c index tic @ map cell_text cells) @ [10])) =
      [row_head dg c index tic @ map cell_text cells]" if "frame_cells dg fr = Ok cells" for fr cells tic
    using printed_frame [OF that] by (intro row_text_columns) (auto simp: row_head_def)
  then show "rbind (row_write dg e c index) (\<lambda>txt. Ok (map (split_at 9) (text_lines txt))) =
     rbind (frame_of e c) (\<lambda>fr. rbind (gametic e c) (\<lambda>tic. rbind (frame_cells dg fr) (\<lambda>cells.
       Ok [row_head dg c index tic @ map cell_text cells])))"
    unfolding row_write_eq by (auto intro!: rbind_cong)
  have l: "length cells = length all_fields" if "frame_cells dg fr = Ok cells" for fr cells
    using that writes_frame [of dg fr] by (simp add: writes_def)
  have q: "map (length \<circ> split_at 9) ls = map length (map (split_at 9) ls)" for ls by simp
  show "rbind (row_write dg e c index) (\<lambda>txt. Ok (map (length \<circ> split_at 9) (text_lines txt))) =
     rbind (row_write dg e c index) (\<lambda>txt. Ok [3 + length all_fields])"
    unfolding row_write_eq q rbind_assoc rbind.simps using p l by (auto intro!: rbind_cong simp: row_head_def simp del: map_map)
qed

end
