(* ===== verification/Position.thy ===== *)
theory Position
  imports Text_Format
begin

text \<open>
  Positions in a run as the command line spells them, \<open>refemu/src/cli/point.rs\<close>: one grammar with a
  subset for each flag, the counts, addresses and hashes, and how a position is displayed.  An error
  message is the constructor of what it says.
\<close>

section \<open>Numbers\<close>

text \<open>\<open>u64::from_str_radix(_, 16)\<close>: one leading plus sign, digits of either case, and no overflow.\<close>

definition radix16_digit :: "u8 \<Rightarrow> nat option" where
  "radix16_digit b =
     (if is_ascii_digit b then Some (unat b - 48)
      else if 97 \<le> b \<and> b \<le> 102 then Some (unat b - 87)
      else if 65 \<le> b \<and> b \<le> 70 then Some (unat b - 55) else None)"

fun radix16_loop :: "nat \<Rightarrow> nat \<Rightarrow> u8 list \<Rightarrow> nat option" where
  "radix16_loop lim acc [] = Some acc"
| "radix16_loop lim acc (b # bs) =
     (case radix16_digit b of None \<Rightarrow> None
      | Some d \<Rightarrow> if acc * 16 + d < lim then radix16_loop lim (acc * 16 + d) bs else None)"

definition from_str_radix16 :: "u8 list \<Rightarrow> u64 option" where
  "from_str_radix16 s =
     (let ds = (case s of b # r \<Rightarrow> if b = 43 \<and> r \<noteq> [] then r else s | [] \<Rightarrow> [])
      in if ds = [] then None else map_option of_nat (radix16_loop (2 ^ 64) 0 ds))"

definition strip_prefix :: "u8 list \<Rightarrow> u8 list \<Rightarrow> u8 list option" where
  "strip_prefix p s = (if take (length p) s = p then Some (drop (length p) s) else None)"

datatype point_error =
    NotACount "u8 list"
  | DoesNotFit "u8 list"
  | NotAHash "u8 list"
  | NotAPosition "u8 list" "u8 list list"
  | NotAllowed "u8 list" "u8 list list"

definition parse_count :: "u8 list \<Rightarrow> (u64, point_error) rresult" where
  "parse_count txt =
     (let cleaned = filter (\<lambda>b. b \<noteq> 95) txt;
          hex = (case strip_prefix (ascii ''0x'') cleaned of Some h \<Rightarrow> Some h | None \<Rightarrow> strip_prefix (ascii ''0X'') cleaned);
          parsed = (case hex of Some h \<Rightarrow> from_str_radix16 h | None \<Rightarrow> parse_u64 cleaned)
      in case parsed of Some n \<Rightarrow> Ok n | None \<Rightarrow> Err (NotACount txt))"

definition parse_addr :: "u8 list \<Rightarrow> (u32, point_error) rresult" where
  "parse_addr txt = rbind (parse_count txt) (\<lambda>v. if unat v < 2 ^ 32 then Ok (ucast v) else Err (DoesNotFit txt))"

definition parse_hash64 :: "u8 list \<Rightarrow> (u64, point_error) rresult" where
  "parse_hash64 txt =
     (let cleaned = (case strip_prefix (ascii ''0x'') txt of Some h \<Rightarrow> h | None \<Rightarrow> txt) in
      case from_str_radix16 cleaned of Some n \<Rightarrow> Ok n | None \<Rightarrow> Err (NotAHash txt))"

section \<open>Positions\<close>

datatype point = P_Start | P_Icount u64 | P_Frame u64 | P_End | P_Halt | P_Budget

fun point_kind :: "point \<Rightarrow> u8 list" where
  "point_kind P_Start = ascii ''start''"
| "point_kind (P_Icount n) = ascii ''icount:N''"
| "point_kind (P_Frame n) = ascii ''frame:N''"
| "point_kind P_End = ascii ''end''"
| "point_kind P_Halt = ascii ''halt''"
| "point_kind P_Budget = ascii ''budget''"

fun split_once :: "u8 list \<Rightarrow> u8 list \<Rightarrow> (u8 list \<times> u8 list) option" where
  "split_once pat [] = (if pat = [] then Some ([], []) else None)"
| "split_once pat (b # bs) =
     (if take (length pat) (b # bs) = pat then Some ([], drop (length pat) (b # bs))
      else map_option (map_prod (Cons b) id) (split_once pat bs))"

definition point_parse_in :: "u8 list \<Rightarrow> u8 list list \<Rightarrow> (point, point_error) rresult" where
  "point_parse_in txt allowed =
     rbind (if txt = ascii ''start'' then Ok P_Start
            else if txt = ascii ''end'' then Ok P_End
            else if txt = ascii ''halt'' then Ok P_Halt
            else if txt = ascii ''budget'' then Ok P_Budget
            else case split_once (ascii '':'') txt of
              Some (kind, n) \<Rightarrow>
                if kind = ascii ''icount'' then rbind (parse_count n) (\<lambda>v. Ok (P_Icount v))
                else if kind = ascii ''frame'' then rbind (parse_count n) (\<lambda>v. Ok (P_Frame v))
                else Err (NotAPosition kind allowed)
            | None \<Rightarrow> Err (NotAPosition txt allowed)) (\<lambda>p.
     if point_kind p \<notin> set allowed then Err (NotAllowed txt allowed) else Ok p)"

fun point_display :: "point \<Rightarrow> u8 list" where
  "point_display (P_Icount n) = ascii ''icount:'' @ to_decimal (unat n)"
| "point_display (P_Frame n) = ascii ''frame:'' @ to_decimal (unat n)"
| "point_display p = point_kind p"

definition stop_at_from_str :: "u8 list \<Rightarrow> (point, point_error) rresult" where
  "stop_at_from_str txt = point_parse_in txt (map ascii [''icount:N'', ''frame:N'', ''halt'', ''budget''])"

definition watch_from_from_str :: "u8 list \<Rightarrow> (point, point_error) rresult" where
  "watch_from_from_str txt = point_parse_in txt (map ascii [''icount:N'', ''frame:N'', ''start''])"

section \<open>A position reads back as it is displayed\<close>

lemma decimal_no_underscore: "filter (\<lambda>b. b \<noteq> 95) (to_decimal n) = to_decimal n"
  by (intro filter_True) (auto dest: to_decimal_digits simp: is_ascii_digit_def)

lemma strip_prefix_x: "strip_prefix (ascii ''0x'') (to_decimal n) = None" "strip_prefix (ascii ''0X'') (to_decimal n) = None"
proof -
  have *: "take (Suc (Suc 0)) (to_decimal n) \<noteq> [48, b]" if "\<not> is_ascii_digit b" for b
  proof
    assume "take (Suc (Suc 0)) (to_decimal n) = [48, b]"
    then have "b \<in> set (take (Suc (Suc 0)) (to_decimal n))" by simp
    then show False using that to_decimal_digits [of b n] in_set_takeD by metis
  qed
  show "strip_prefix (ascii ''0x'') (to_decimal n) = None" "strip_prefix (ascii ''0X'') (to_decimal n) = None"
    using * [of 120] * [of 88] by (simp_all add: strip_prefix_def ascii_def is_ascii_digit_def)
qed

lemma parse_count_decimal: "parse_count (to_decimal (unat n)) = Ok n"
  by (simp add: parse_count_def decimal_no_underscore strip_prefix_x parse_u64_to_decimal Let_def)

lemma split_once_colon: "58 \<notin> set k \<Longrightarrow> split_once [58] (k @ 58 # r) = Some (k, r)"
  by (induction k) auto

lemma point_parse_display:
  assumes "point_kind p \<in> set allowed"
  shows "point_parse_in (point_display p) allowed = Ok p"
proof (cases p)
  case (P_Icount n)
  have "split_once (ascii '':'') (ascii ''icount:'' @ to_decimal (unat n)) = Some (ascii ''icount'', to_decimal (unat n))"
    using split_once_colon [of "ascii ''icount''" "to_decimal (unat n)"] by (simp add: ascii_def)
  moreover have "ascii ''icount:'' @ to_decimal (unat n) \<notin> {ascii ''start'', ascii ''end'', ascii ''halt'', ascii ''budget''}"
    by (auto simp: ascii_def)
  ultimately show ?thesis using assms P_Icount by (simp add: point_parse_in_def parse_count_decimal)
next
  case (P_Frame n)
  have "split_once (ascii '':'') (ascii ''frame:'' @ to_decimal (unat n)) = Some (ascii ''frame'', to_decimal (unat n))"
    using split_once_colon [of "ascii ''frame''" "to_decimal (unat n)"] by (simp add: ascii_def)
  moreover have "ascii ''frame:'' @ to_decimal (unat n) \<notin> {ascii ''start'', ascii ''end'', ascii ''halt'', ascii ''budget''}"
    by (auto simp: ascii_def)
  moreover have "ascii ''frame'' \<noteq> ascii ''icount''" by (simp add: ascii_def)
  ultimately show ?thesis using assms P_Frame by (simp add: point_parse_in_def parse_count_decimal)
qed (use assms in \<open>simp_all add: point_parse_in_def ascii_def\<close>)

lemma point_parse_allowed: "point_parse_in txt allowed = Ok p \<Longrightarrow> point_kind p \<in> set allowed"
  by (auto simp: point_parse_in_def rbind_Ok_iff split: if_splits)

text \<open>The flag that stops a run takes exactly the positions a run can end at, in their own spelling.\<close>

lemma stop_at_positions:
  "stop_at_from_str (point_display p) = Ok p \<longleftrightarrow> p \<noteq> P_Start \<and> p \<noteq> P_End"
proof -
  have "point_kind p \<in> set (map ascii [''icount:N'', ''frame:N'', ''halt'', ''budget'']) \<longleftrightarrow> p \<noteq> P_Start \<and> p \<noteq> P_End"
    by (cases p) (simp_all add: ascii_def)
  then show ?thesis unfolding stop_at_from_str_def
    using point_parse_display [of p "map ascii [''icount:N'', ''frame:N'', ''halt'', ''budget'']"]
      point_parse_allowed [of "point_display p" "map ascii [''icount:N'', ''frame:N'', ''halt'', ''budget'']" p] by blast
qed

end
