(* ===== verification/Probe.thy ===== *)
theory Probe
  imports Probe_Row Position
begin

text \<open>
  The probe and the random-call log as observers of a traced run, \<open>refemu/src/probe/mod.rs\<close> and
  \<open>refemu/src/probe/rng.rs\<close>: which frames a run writes, the row written when a frame is committed, and
  the line written when the random-number function is entered.  The sink is a parameter; a panic inside
  an observer ends the run, and is kept here as a flag of the observer.
\<close>

section \<open>Frame selections\<close>

type_synonym frames = "(u64 \<times> u64) list"

definition frames_all :: frames where
  "frames_all = []"

definition frames_contains :: "frames \<Rightarrow> u64 \<Rightarrow> bool" where
  "frames_contains fs index \<longleftrightarrow> fs = [] \<or> (\<exists>r\<in>set fs. fst r \<le> index \<and> index \<le> snd r)"

definition frames_last :: "frames \<Rightarrow> u64 option" where
  "frames_last fs = (if fs = [] then None else Some (Max (set (map snd fs))))"

datatype frames_error = BadCount point_error | EndsBeforeStart rstring | NoFrame

definition lift_count :: "(u64, point_error) rresult \<Rightarrow> (u64, frames_error) rresult" where
  "lift_count r = (case r of Ok n \<Rightarrow> Ok n | Err e \<Rightarrow> Err (BadCount e) | Panic \<Rightarrow> Panic)"

fun frames_parts :: "rstring list \<Rightarrow> frames \<Rightarrow> (frames, frames_error) rresult" where
  "frames_parts [] ranges = Ok ranges"
| "frames_parts (raw # rest) ranges =
     (let part = str_trim raw in
      if part = [] then frames_parts rest ranges
      else let (a, b) = (case split_once (ascii ''..'') part of Some p \<Rightarrow> p | None \<Rightarrow> (part, part)) in
        rbind (lift_count (parse_count a)) (\<lambda>first.
        rbind (lift_count (parse_count b)) (\<lambda>end.
        if end < first then Err (EndsBeforeStart part) else frames_parts rest (ranges @ [(first, end)]))))"

definition frames_from_str :: "rstring \<Rightarrow> (frames, frames_error) rresult" where
  "frames_from_str txt = rbind (frames_parts (split_at 44 txt) []) (\<lambda>ranges.
     if ranges = [] then Err NoFrame else Ok ranges)"

section \<open>Headers\<close>

definition STATE_SCHEMA_VERSION :: nat where "STATE_SCHEMA_VERSION = 2"

definition probe_header :: rstring where
  "probe_header =
     (let columns = map ascii [''frame_index'', ''gametic'', ''fb_hash''] @ all_fields in
      ascii ''# refemu-probe 1'' @ [10] @ ascii ''# state_schema_version'' @ [9] @ to_decimal STATE_SCHEMA_VERSION @ [10] @
      ascii ''# columns'' @ [9] @ join_with 9 columns @ [10])"

definition rng_header :: rstring where
  "rng_header = ascii ''# refemu-probe-rng 1'' @ [10] @ ascii ''# columns'' @ [9] @
     join_with 9 (map ascii [''gametic'', ''call_index'', ''caller'', ''caller_offset'', ''icount'']) @ [10]"

section \<open>The probe\<close>

record written =
  wr_rows :: u64
  wr_bytes :: u64
  wr_frames_seen :: u64
  wr_first_gameplay_frame :: "u64 option"
  wr_last_gametic :: "int option"
  wr_last_repeat :: "u64 option"

definition written_default :: written where
  "written_default = \<lparr> wr_rows = 0, wr_bytes = 0, wr_frames_seen = 0, wr_first_gameplay_frame = None,
     wr_last_gametic = None, wr_last_repeat = None \<rparr>"

record 'w probe =
  pb_engine :: engine
  pb_frames :: frames
  pb_out :: 'w
  pb_seen :: u64
  pb_written :: written
  pb_failed :: "probe_error option"
  pb_panicked :: bool

text \<open>\<open>write_all\<close> of the sink: the error's message, and the sink after it.\<close>

type_synonym 'w sink = "'w \<Rightarrow> rstring \<Rightarrow> (unit, rstring) rresult \<times> 'w"

definition probe_new :: "image \<Rightarrow> layout \<Rightarrow> frames \<Rightarrow> 'w \<Rightarrow> 'w probe read" where
  "probe_new img l fs out = rbind (engine_resolve img l) (\<lambda>e.
     Ok \<lparr> pb_engine = e, pb_frames = fs, pb_out = out, pb_seen = 0, pb_written = written_default, pb_failed = None,
       pb_panicked = False \<rparr>)"

definition probe_done :: "'w probe \<Rightarrow> bool" where
  "probe_done p \<longleftrightarrow> (case frames_last (pb_frames p) of Some l \<Rightarrow> l < pb_seen p | None \<Rightarrow> False)"

definition probe_dump :: "'w sink \<Rightarrow> 'h digest \<Rightarrow> 'w probe \<Rightarrow> cpu \<Rightarrow> unit read \<times> 'w probe" where
  "probe_dump write_all dg p c =
     (case row_write dg (pb_engine p) c (pb_seen p - 1) of
        Err e \<Rightarrow> (Err e, p)
      | Panic \<Rightarrow> (Panic, p)
      | Ok txt \<Rightarrow>
          (case write_all (pb_out p) txt of
             (Err m, w) \<Rightarrow> (Err (WriteFailed m), p\<lparr>pb_out := w\<rparr>)
           | (Panic, w) \<Rightarrow> (Panic, p\<lparr>pb_out := w\<rparr>)
           | (Ok _, w) \<Rightarrow>
               (Ok (), p\<lparr>pb_out := w, pb_written := (pb_written p)\<lparr>wr_rows := wr_rows (pb_written p) + 1,
                  wr_bytes := wr_bytes (pb_written p) + of_nat (length txt)\<rparr>\<rparr>)))"

definition commit_count :: "cpu \<Rightarrow> nat" where
  "commit_count c = (case registers_ref (devices (cpu_memory c)) of Some r \<Rightarrow> length (frame_commits r) | None \<Rightarrow> 0)"

definition note_gametic :: "written \<Rightarrow> u64 \<Rightarrow> int \<Rightarrow> written" where
  "note_gametic w index tic =
     (let repeat = (if wr_last_gametic w = Some tic then Some index else wr_last_repeat w) in
      w\<lparr>wr_last_repeat := repeat, wr_last_gametic := Some tic,
        wr_first_gameplay_frame := Some (case repeat of Some at \<Rightarrow> at + 1 | None \<Rightarrow> 0)\<rparr>)"

definition probe_after :: "'w sink \<Rightarrow> 'h digest \<Rightarrow> 'w probe \<Rightarrow> cpu \<Rightarrow> step_answer \<times> 'w probe" where
  "probe_after write_all dg p c =
     (let commits = of_nat (commit_count c) in
      if commits = pb_seen p then (Continue, p)
      else let index = commits - 1;
               p1 = p\<lparr>pb_seen := commits, pb_written := (pb_written p)\<lparr>wr_frames_seen := commits\<rparr>\<rparr>
        in case gametic (pb_engine p) c of
             Err e \<Rightarrow> (Stop, p1\<lparr>pb_failed := Some e\<rparr>)
           | Panic \<Rightarrow> (Stop, p1\<lparr>pb_panicked := True\<rparr>)
           | Ok tic \<Rightarrow>
               let p2 = p1\<lparr>pb_written := note_gametic (pb_written p1) index tic\<rparr>;
                   (r, p3) = (if frames_contains (pb_frames p) index then probe_dump write_all dg p2 c else (Ok (), p2))
               in case r of
                    Err e \<Rightarrow> (Stop, p3\<lparr>pb_failed := Some e\<rparr>)
                  | Panic \<Rightarrow> (Stop, p3\<lparr>pb_panicked := True\<rparr>)
                  | Ok _ \<Rightarrow> (if probe_done p3 then Stop else Continue, p3))"

definition probe_observer :: "'w sink \<Rightarrow> 'h digest \<Rightarrow> 'w probe observer" where
  "probe_observer write_all dg = silent_observer\<lparr>after_step := \<lambda>p c pc i.
     (case probe_after write_all dg p c of (a, p') \<Rightarrow> (a, p', c))\<rparr>"

section \<open>The random-call log\<close>

definition RA :: nat where "RA = 1"
definition RANDOM_FUNCTION :: rstring where "RANDOM_FUNCTION = ascii ''P_Random''"

record 'w rng_log =
  rl_at :: u32
  rl_gametic :: u32
  rl_functions :: "symbol list"
  rl_out :: 'w
  rl_tic :: "int option"
  rl_index :: u64
  rl_rows :: u64
  rl_failed :: "probe_error option"
  rl_panicked :: bool

definition rng_new :: "image \<Rightarrow> engine \<Rightarrow> 'w \<Rightarrow> 'w rng_log read" where
  "rng_new img e out = (case image_symbol img RANDOM_FUNCTION of
     None \<Rightarrow> Err (NoSymbol RANDOM_FUNCTION)
   | Some s \<Rightarrow> Ok \<lparr> rl_at = sym_addr s, rl_gametic = gl_gametic (en_globals e), rl_functions = image_functions img,
       rl_out = out, rl_tic = None, rl_index = 0, rl_rows = 0, rl_failed = None, rl_panicked = False \<rparr>)"

definition rng_line :: "int \<Rightarrow> u64 \<Rightarrow> symbol \<Rightarrow> u32 \<Rightarrow> u64 \<Rightarrow> rstring" where
  "rng_line tic index caller ra icount =
     join_with 9 [show_int tic, to_decimal (unat index), sym_name caller, to_decimal (unat (ra - sym_addr caller)),
       to_decimal (unat icount)] @ [10]"

definition rng_record :: "'w sink \<Rightarrow> 'w rng_log \<Rightarrow> cpu \<Rightarrow> unit read \<times> 'w rng_log" where
  "rng_record write_all l c =
     (case ram_i32 (ram_of c) (rl_gametic l) ''gametic'' of
        Err e \<Rightarrow> (Err e, l)
      | Panic \<Rightarrow> (Panic, l)
      | Ok tic \<Rightarrow>
          let l1 = (if rl_tic l \<noteq> Some tic then l\<lparr>rl_tic := Some tic, rl_index := 0\<rparr> else l) in
          if length (cpu_regs c) \<le> RA then (Panic, l1)
          else let ra = cpu_regs c ! RA in
            (case function_containing (rl_functions l1) ra of
               None \<Rightarrow> (Err (UnknownCaller ra), l1)
             | Some caller \<Rightarrow>
                 (case write_all (rl_out l1) (rng_line tic (rl_index l1) caller ra (cpu_icount c)) of
                    (Err m, w) \<Rightarrow> (Err (WriteFailed m), l1\<lparr>rl_out := w\<rparr>)
                  | (Panic, w) \<Rightarrow> (Panic, l1\<lparr>rl_out := w\<rparr>)
                  | (Ok _, w) \<Rightarrow> (Ok (), l1\<lparr>rl_out := w, rl_index := rl_index l1 + 1, rl_rows := rl_rows l1 + 1\<rparr>))))"

definition rng_observer :: "'w sink \<Rightarrow> 'w rng_log observer" where
  "rng_observer write_all = silent_observer\<lparr>before_step := \<lambda>l c.
     (if cpu_pc c \<noteq> rl_at l then (Continue, l, c)
      else case rng_record write_all l c of
        (Ok _, l') \<Rightarrow> (Continue, l', c)
      | (Err e, l') \<Rightarrow> (Stop, l'\<lparr>rl_failed := Some e\<rparr>, c)
      | (Panic, l') \<Rightarrow> (Stop, l'\<lparr>rl_panicked := True\<rparr>, c))\<rparr>"

section \<open>Observers that only look\<close>

interpretation probing: observer_laws "probe_observer write_all dg"
  by unfold_locales (auto simp: probe_observer_def silent_observer_def split: prod.splits)

interpretation rng_logging: observer_laws "rng_observer write_all"
  by unfold_locales (auto simp: rng_observer_def silent_observer_def split: if_splits prod.splits rresult.splits)

section \<open>A frame at a time\<close>

definition mem_commits :: "memory \<Rightarrow> nat" where
  "mem_commits m = (case registers_ref (devices m) of Some r \<Rightarrow> length (frame_commits r) | None \<Rightarrow> 0)"

lemma commit_count_mem: "commit_count c = mem_commits (cpu_memory c)"
  by (simp add: commit_count_def mem_commits_def)

lemma mem_read_commits: "mem_commits (snd (mem_read m a w ic)) = mem_commits m"
proof -
  have "devices_read d off w ic = Some (v, d') \<Longrightarrow>
      map_option frame_commits (registers_ref d') = map_option frame_commits (registers_ref d)" for d off v d'
    by (cases d) (auto simp: registers_read_def split: if_splits list.splits)
  then show ?thesis
    by (fastforce simp: mem_read_def mem_commits_def check_align_def split: option.splits region.splits prod.splits rresult.splits)
qed

lemma devices_write_commits:
  "devices_write d off w v ic = (r, d') \<Longrightarrow>
     mem_commits (m\<lparr>devices := d'\<rparr>) \<in> {mem_commits (m\<lparr>devices := d\<rparr>), Suc (mem_commits (m\<lparr>devices := d\<rparr>))}"
  by (cases d) (auto simp: mem_commits_def registers_write_def split: if_splits prod.splits option.splits)

lemma mem_write_commits: "mem_commits (snd (mem_write m a w v ic)) \<in> {mem_commits m, Suc (mem_commits m)}"
proof -
  have "mem_commits (snd (mem_store m r off a w v ic)) \<in> {mem_commits m, Suc (mem_commits m)}" for r off
    using devices_write_commits [of "devices m" off w v ic _ _ m]
    by (cases r) (auto simp: mem_store_def mem_commits_def split: option.split prod.split rresult.split)
  then have s: "mem_store m r off a w v ic = (x, m') \<Longrightarrow> mem_commits m' \<in> {mem_commits m, Suc (mem_commits m)}" for r off x m'
    by (metis snd_conv)
  have "mem_commits (m'\<lparr>watch := x\<rparr>) = mem_commits m'" for m' x by (simp add: mem_commits_def)
  then show ?thesis by (auto simp: mem_write_def check_align_def split: option.split prod.split rresult.split dest!: s)
qed


lemma execute_commits: "commit_count (snd (execute c pc word insn)) \<in> {commit_count c, Suc (commit_count c)}"
proof -
  have r: "cpu_memory (snd (retire c' rd v n)) = cpu_memory c'" for c' rd v n
    by (simp add: retire_def set_reg_def split: option.split)
  have rd: "mem_read m a w ic = (x, m') \<Longrightarrow> mem_commits m' = mem_commits m" for m a w ic x m'
    using mem_read_commits [of m a w ic] by simp
  have wr: "mem_write m a w v ic = (x, m') \<Longrightarrow> mem_commits m' \<in> {mem_commits m, Suc (mem_commits m)}" for m a w v ic x m'
    using mem_write_commits [of m a w v ic] by simp
  have "shape c pc word (i_rd insn) (reg c (i_rs1 insn)) (reg c (i_rs2 insn)) (i_imm insn) (execute c pc word insn)"
    using exec_op_shape by (simp add: execute_def)
  then show ?thesis
  proof cases
    case (ld w sx)
    then show ?thesis unfolding commit_count_mem by (auto simp: exec_load_def r dest!: rd split: option.split prod.split rresult.split)
  next
    case (st w)
    then show ?thesis unfolding commit_count_mem by (auto simp: exec_store_def dest!: wr split: option.split prod.split rresult.split)
  qed (auto simp: commit_count_mem r jump_def branch_def check_target_def Let_def split: option.split)
qed

text \<open>One instruction commits at most one frame.\<close>

lemma step_commits: "step_reporting c = (Ok x, d) \<Longrightarrow> commit_count d \<in> {commit_count c, Suc (commit_count c)}"
proof -
  assume a: "step_reporting c = (Ok x, d)"
  obtain f c1 where fc: "fetch c = (f, c1)" by fastforce
  have f: "commit_count c1 = commit_count c"
    using mem_read_commits [of "cpu_memory c" "cpu_pc c" 4 "cpu_icount c"] fc
    by (auto simp: commit_count_mem fetch_def Let_def split: option.splits prod.splits rresult.splits)
  obtain n c2 where x: "execute c1 (cpu_pc c) (fst x) (snd x) = (Ok n, c2)" "cpu_memory d = cpu_memory c2"
    using a fc by (auto simp: step_reporting_def Let_def split: if_splits rresult.splits prod.splits)
  show ?thesis using execute_commits [of c1 "cpu_pc c" "fst x" "snd x"] x f by (simp add: commit_count_mem)
qed

text \<open>The frames committed along a run, each with the machine right after it.\<close>

fun committed :: "nat \<Rightarrow> cpu list \<Rightarrow> (nat \<times> cpu) list" where
  "committed n [] = []"
| "committed n (d # ds) = (if commit_count d = n then [] else [(n, d)]) @ committed (commit_count d) ds"

lemma committed_indices:
  "map fst (committed (commit_count c) (follow m c)) = [commit_count c..<commit_count (last (c # follow m c))] \<and>
     commit_count c \<le> commit_count (last (c # follow m c))"
proof (induction m arbitrary: c)
  case (Suc m)
  show ?case
  proof (cases "step_reporting c")
    case (Pair r d)
    show ?thesis
    proof (cases r)
      case (Ok x)
      let ?l = "last (d # follow m d)"
      have s: "commit_count d \<in> {commit_count c, Suc (commit_count c)}" using step_commits Pair Ok by blast
      have ih: "map fst (committed (commit_count d) (follow m d)) = [commit_count d..<commit_count ?l]"
          "commit_count d \<le> commit_count ?l" using Suc by simp_all
      have "last (c # follow (Suc m) c) = ?l" using Pair Ok by simp
      then show ?thesis using ih s Pair Ok by (auto simp: upt_conv_Cons Suc_le_eq)
    qed (use Pair in simp_all)
  qed
qed simp

definition vec_sink :: "rstring sink" where
  "vec_sink out t = (Ok (), out @ t)"

definition healthy :: "'w probe \<Rightarrow> bool" where
  "healthy p \<longleftrightarrow> pb_failed p = None \<and> \<not> pb_panicked p"

text \<open>The rows the selection asks for, of the frames committed after the first \<open>n\<close>.\<close>

definition due_rows :: "'h digest \<Rightarrow> engine \<Rightarrow> frames \<Rightarrow> (nat \<times> cpu) list \<Rightarrow> rstring read list" where
  "due_rows dg e fs cs = map (\<lambda>(k, d). row_write dg e d (of_nat k)) (filter (\<lambda>(k, d). frames_contains fs (of_nat k)) cs)"

lemma due_rows_append: "due_rows dg e fs (xs @ ys) = due_rows dg e fs xs @ due_rows dg e fs ys"
  by (simp add: due_rows_def)

lemma probe_after_step:
  fixes p :: "rstring probe"
  assumes "pb_seen p = of_nat n" "commit_count d \<in> {n, Suc n}" "probe_after vec_sink dg p d = (a, p')" "healthy p"
  shows "pb_seen p' = of_nat (commit_count d)" "pb_engine p' = pb_engine p" "pb_frames p' = pb_frames p"
    "\<not> healthy p' \<Longrightarrow> a = Stop"
    "healthy p' \<Longrightarrow> a = Stop \<Longrightarrow> probe_done p'"
    "healthy p' \<Longrightarrow> \<exists>ts. due_rows dg (pb_engine p) (pb_frames p) (committed n [d]) = map Ok ts \<and> pb_out p' = pb_out p @ concat ts"
proof -
  have ne: "(of_nat (Suc n) :: u64) \<noteq> of_nat n" by simp
  have one: "\<exists>ts. [Ok t] = map Ok ts \<and> t = concat ts" for t :: rstring by (rule exI [of _ "[t]"]) simp
  have "pb_seen p' = of_nat (commit_count d) \<and> pb_engine p' = pb_engine p \<and> pb_frames p' = pb_frames p \<and>
    (\<not> healthy p' \<longrightarrow> a = Stop) \<and> (healthy p' \<longrightarrow> a = Stop \<longrightarrow> probe_done p') \<and>
    (healthy p' \<longrightarrow> (\<exists>ts. due_rows dg (pb_engine p) (pb_frames p) (committed n [d]) = map Ok ts \<and> pb_out p' = pb_out p @ concat ts))"
  proof (cases "commit_count d = n")
    case True
    then show ?thesis using assms by (auto simp: probe_after_def due_rows_def)
  next
    case False
    then have d: "commit_count d = Suc n" using assms(2) by simp
    note after = assms(3) [unfolded probe_after_def Let_def d assms(1)]
    consider (tic) e where "gametic (pb_engine p) d = Err e" | (panic) "gametic (pb_engine p) d = Panic"
      | (skip) t where "gametic (pb_engine p) d = Ok t" "\<not> frames_contains (pb_frames p) (of_nat n)"
      | (dump) t where "gametic (pb_engine p) d = Ok t" "frames_contains (pb_frames p) (of_nat n)"
      by (cases "gametic (pb_engine p) d") auto
    then show ?thesis
    proof cases
      case dump
      then show ?thesis using after assms(4) d ne
        by (cases "row_write dg (pb_engine p) d (of_nat n)")
          (auto simp: probe_dump_def vec_sink_def healthy_def due_rows_def one split: if_splits)
    qed (use after assms(4) d ne in \<open>auto simp: healthy_def due_rows_def split: if_splits\<close>)
  qed
  then show "pb_seen p' = of_nat (commit_count d)" "pb_engine p' = pb_engine p" "pb_frames p' = pb_frames p"
    "\<not> healthy p' \<Longrightarrow> a = Stop"
    "healthy p' \<Longrightarrow> a = Stop \<Longrightarrow> probe_done p'"
    "healthy p' \<Longrightarrow> \<exists>ts. due_rows dg (pb_engine p) (pb_frames p) (committed n [d]) = map Ok ts \<and> pb_out p' = pb_out p @ concat ts"
    by blast+
qed


lemma run_probe:
  fixes p :: "rstring probe"
  assumes "cpu_inv c" "pb_seen p = of_nat (commit_count c)" "healthy p"
  shows "\<exists>st c' p' m. run_trace dg (probe_observer vec_sink dg) cfg budget c p = Some (Ok st, c', p') \<and>
    length (follow m c) = m \<and>
    (healthy p' \<longrightarrow> (\<exists>ts. due_rows dg (pb_engine p) (pb_frames p) (committed (commit_count c) (follow m c)) = map Ok ts \<and>
       pb_out p' = pb_out p @ concat ts)) \<and>
    (case st of
       Budget \<Rightarrow> m = unat budget - unat (cpu_icount c) \<and> c' = last (c # follow m c)
     | Halted h \<Rightarrow> step_reporting (last (c # follow m c)) = (Err h, c')
     | StopObserver \<Rightarrow> c' = last (c # follow m c) \<and> (healthy p' \<longrightarrow> probe_done p'))"
  using assms
proof (induction "unat budget - unat (cpu_icount c)" arbitrary: c p rule: less_induct)
  case less
  let ?ob = "probe_observer vec_sink dg :: rstring probe observer"
  have b: "before_step ?ob p c = (Continue, p, c)" by (simp add: probe_observer_def silent_observer_def)
  show ?case
  proof (cases "cpu_icount c < budget")
    case False
    then have "unat budget - unat (cpu_icount c) = 0" by (simp add: word_less_nat_alt)
    moreover have "run_trace dg ?ob cfg budget c p = Some (Ok Budget, c, p)" using False by (subst run_trace.simps) simp
    ultimately show ?thesis by (intro exI [of _ Budget] exI [of _ c] exI [of _ p] exI [of _ 0]) (simp add: due_rows_def)
  next
    case lt: True
    obtain r d where st: "step_reporting c = (r, d)" by fastforce
    show ?thesis
    proof (cases r)
      case Panic
      then show ?thesis using step_reporting_facts(1) [OF less.prems(1) st] by simp
    next
      case (Err h)
      then have "run_trace dg ?ob cfg budget c p = Some (Ok (Halted h), d, p)"
        using lt b st by (subst run_trace.simps) simp
      then show ?thesis using st Err
        by (intro exI [of _ "Halted h"] exI [of _ d] exI [of _ p] exI [of _ 0]) (simp add: due_rows_def)
    next
      case (Ok x)
      have notify: "notify dg ?ob cfg p d = p" by (simp add: notify_def probe_observer_def silent_observer_def)
      obtain a p1 where pa: "probe_after vec_sink dg p d = (a, p1)" by fastforce
      have af: "after_step ?ob (notify dg ?ob cfg p d) d (cpu_pc c) (snd x) = (a, p1, d)"
        unfolding notify using pa by (simp add: probe_observer_def)
      note one = probe_after_step [OF less.prems(2) step_commits [OF st [unfolded Ok]] pa less.prems(3)]
      have fw: "follow (Suc m) c = d # follow m d" for m using st Ok by simp
      have cs: "committed (commit_count c) (d # follow m d) = committed (commit_count c) [d] @ committed (commit_count d) (follow m d)" for m
        by simp
      show ?thesis
      proof (cases "a = Stop")
        case True
        have "run_trace dg ?ob cfg budget c p = Some (Ok StopObserver, d, p1)"
          using lt b st Ok af True by (subst run_trace.simps) simp
        moreover have "follow (Suc 0) c = [d]" using fw [of 0] by simp
        ultimately show ?thesis using one(5,6) True
          by (intro exI [of _ StopObserver] exI [of _ d] exI [of _ p1] exI [of _ "Suc 0"]) auto
      next
        case False
        then have h: "healthy p1" using one(4) by blast
        have c: "Continue \<noteq> Stop" by simp
        note rd = probing.round [OF less.prems(1) lt b c st [unfolded Ok] af]
        have e: "run_trace dg ?ob cfg budget c p = run_trace dg ?ob cfg budget d p1"
          using lt b st Ok af False by (subst run_trace.simps) (cases a, auto)
        from less.hyps [OF rd(3) rd(1) one(1) h] obtain st' c' p' m where ih:
            "run_trace dg ?ob cfg budget d p1 = Some (Ok st', c', p')" "length (follow m d) = m"
            "healthy p' \<longrightarrow> (\<exists>ts. due_rows dg (pb_engine p1) (pb_frames p1) (committed (commit_count d) (follow m d)) = map Ok ts \<and>
               pb_out p' = pb_out p1 @ concat ts)"
            "case st' of Budget \<Rightarrow> m = unat budget - unat (cpu_icount d) \<and> c' = last (d # follow m d)
             | Halted h \<Rightarrow> step_reporting (last (d # follow m d)) = (Err h, c')
             | StopObserver \<Rightarrow> c' = last (d # follow m d) \<and> (healthy p' \<longrightarrow> probe_done p')" by blast
        obtain ts where ts: "due_rows dg (pb_engine p) (pb_frames p) (committed (commit_count c) [d]) = map Ok ts" "pb_out p1 = pb_out p @ concat ts"
          using one(6) [OF h] by blast
        have rows: "healthy p' \<longrightarrow> (\<exists>us. due_rows dg (pb_engine p) (pb_frames p) (committed (commit_count c) (follow (Suc m) c)) = map Ok us \<and>
            pb_out p' = pb_out p @ concat us)"
          unfolding fw cs due_rows_append ts(1) using ih(3) one(2,3) ts(2) by (metis append_assoc concat_append map_append)
        have stop: "case st' of Budget \<Rightarrow> Suc m = unat budget - unat (cpu_icount c) \<and> c' = last (c # follow (Suc m) c)
             | Halted h \<Rightarrow> step_reporting (last (c # follow (Suc m) c)) = (Err h, c')
             | StopObserver \<Rightarrow> c' = last (c # follow (Suc m) c) \<and> (healthy p' \<longrightarrow> probe_done p')"
          unfolding fw using ih(4) rd(4) lt by (cases st') (auto simp: word_less_nat_alt)
        have len: "length (follow (Suc m) c) = Suc m" unfolding fw using ih(2) by simp
        show ?thesis unfolding e
          by (intro exI [of _ st'] exI [of _ c'] exI [of _ p'] exI [of _ "Suc m"] conjI ih(1) len rows stop)
      qed
    qed
  qed
qed


text \<open>
  C39: The probe's file holds the committed frames.  A run traced with the probe from a machine whose
  commits the probe has all seen returns without a panic of the machine; the frames committed along it
  are numbered without a gap, and unless the probe reports a failure, what it has written is the row of
  every selected frame, in order and once each, of the machine right after the instruction that
  committed it.  The run stops early only for a failure or when every selected frame has been written.
\<close>

theorem probe_rows_exact:
  fixes p :: "rstring probe"
  assumes "cpu_inv c" "pb_seen p = of_nat (commit_count c)" "healthy p"
  shows "\<exists>st c' p' m. run_trace dg (probe_observer vec_sink dg) cfg budget c p = Some (Ok st, c', p') \<and>
    length (follow m c) = m \<and>
    map fst (committed (commit_count c) (follow m c)) = [commit_count c..<commit_count (last (c # follow m c))] \<and>
    (healthy p' \<longrightarrow> (\<exists>ts. due_rows dg (pb_engine p) (pb_frames p) (committed (commit_count c) (follow m c)) = map Ok ts \<and>
       pb_out p' = pb_out p @ concat ts)) \<and>
    (case st of
       Budget \<Rightarrow> m = unat budget - unat (cpu_icount c) \<and> c' = last (c # follow m c)
     | Halted h \<Rightarrow> step_reporting (last (c # follow m c)) = (Err h, c')
     | StopObserver \<Rightarrow> c' = last (c # follow m c) \<and> (healthy p' \<longrightarrow> probe_done p'))"
  using run_probe [OF assms, of dg cfg budget] committed_indices by blast

theorem probe_rows_exact_witness:
  "\<forall>e. \<exists>st c' p'. run_trace digest_small (probe_observer vec_sink digest_small) trace_config_default 5 cpu_small
     \<lparr> pb_engine = e, pb_frames = frames_all, pb_out = [], pb_seen = 0, pb_written = written_default, pb_failed = None,
       pb_panicked = False \<rparr> = Some (Ok st, c', p')"
proof
  fix e
  let ?p = "\<lparr> pb_engine = e, pb_frames = frames_all, pb_out = [] :: rstring, pb_seen = 0, pb_written = written_default, pb_failed = None,
       pb_panicked = False \<rparr>"
  have "commit_count cpu_small = 0"
    by (simp add: commit_count_def cpu_small_def cpu_new_def mem_small_def memory_new_def devices_bytes_def)
  then have "pb_seen ?p = of_nat (commit_count cpu_small)" "healthy ?p" by (simp_all add: healthy_def)
  from probe_rows_exact [OF cpu_small_inv this, of digest_small trace_config_default 5]
  show "\<exists>st c' p'. run_trace digest_small (probe_observer vec_sink digest_small) trace_config_default 5 cpu_small ?p = Some (Ok st, c', p')"
    by blast
qed

end
