(* ===== verification/Row_Binary.thy ===== *)
theory Row_Binary
  imports Text_Format
begin

text \<open>
  RowBinary rows of the resident statements, \<open>native/src/resident/rowbinary.rs\<close>: the appenders of a row,
  the unsigned LEB128 length of a string, the input schema and the padding row.  The byte buffer is code
  of another package; its operations are a parameter, and that appending appends is a hypothesis.
\<close>

section \<open>The buffer\<close>

record 'b buffer =
  buf_new :: 'b
  buf_put :: "'b \<Rightarrow> u8 list \<Rightarrow> 'b"
  buf_len :: "'b \<Rightarrow> nat"
  buf_freeze :: "'b \<Rightarrow> u8 list"

definition buffer_laws :: "'b buffer \<Rightarrow> bool" where
  "buffer_laws bf \<longleftrightarrow> buf_freeze bf (buf_new bf) = [] \<and>
     (\<forall>b s. buf_freeze bf (buf_put bf b s) = buf_freeze bf b @ s) \<and> (\<forall>b. buf_len bf b = length (buf_freeze bf b))"

section \<open>Rows\<close>

definition row_u8 :: "'b buffer \<Rightarrow> 'b \<Rightarrow> u8 \<Rightarrow> 'b" where
  "row_u8 bf b v = buf_put bf b [v]"

definition row_u16 :: "'b buffer \<Rightarrow> 'b \<Rightarrow> u16 \<Rightarrow> 'b" where
  "row_u16 bf b v = buf_put bf b (to_le_bytes 2 v)"

definition row_u32 :: "'b buffer \<Rightarrow> 'b \<Rightarrow> u32 \<Rightarrow> 'b" where
  "row_u32 bf b v = buf_put bf b (to_le_bytes 4 v)"

definition row_u64 :: "'b buffer \<Rightarrow> 'b \<Rightarrow> u64 \<Rightarrow> 'b" where
  "row_u64 bf b v = buf_put bf b (to_le_bytes 8 v)"

text \<open>The signed appenders take the value as its two's complement word.\<close>

definition row_i8 :: "'b buffer \<Rightarrow> 'b \<Rightarrow> 8 word \<Rightarrow> 'b" where
  "row_i8 bf b v = buf_put bf b [v]"

definition row_i16 :: "'b buffer \<Rightarrow> 'b \<Rightarrow> 16 word \<Rightarrow> 'b" where
  "row_i16 bf b v = buf_put bf b (to_le_bytes 2 v)"

definition row_i32 :: "'b buffer \<Rightarrow> 'b \<Rightarrow> i32 \<Rightarrow> 'b" where
  "row_i32 bf b v = buf_put bf b (to_le_bytes 4 v)"

definition row_i64 :: "'b buffer \<Rightarrow> 'b \<Rightarrow> i64 \<Rightarrow> 'b" where
  "row_i64 bf b v = buf_put bf b (to_le_bytes 8 v)"

lemma shift_unat: "unat (drop_bit 7 (v :: u64)) = unat v div 128"
  unfolding unat_drop_bit_eq by (simp add: drop_bit_eq_div)

lemma shift_smaller: "drop_bit 7 (v :: u64) \<noteq> 0 \<Longrightarrow> unat (drop_bit 7 v) < unat v"
proof -
  assume "drop_bit 7 v \<noteq> 0"
  then have "v \<noteq> 0" by auto
  then have "0 < unat v" by (simp add: unat_gt_0)
  then show ?thesis unfolding shift_unat by simp
qed

function put_leb128 :: "'b buffer \<Rightarrow> 'b \<Rightarrow> u64 \<Rightarrow> 'b" where
  "put_leb128 bf b v =
     (let group = ucast (v AND 0x7F) :: u8; v' = drop_bit 7 v in
      if v' = 0 then buf_put bf b [group] else put_leb128 bf (buf_put bf b [group OR 0x80]) v')"
  by pat_completeness auto
termination by (relation "measure (\<lambda>(bf, b, v). unat v)") (auto intro: shift_smaller)

declare put_leb128.simps [simp del]

definition row_bytes :: "'b buffer \<Rightarrow> 'b \<Rightarrow> u8 list \<Rightarrow> 'b" where
  "row_bytes bf b v = buf_put bf (put_leb128 bf b (of_nat (length v))) v"

definition row_len :: "'b buffer \<Rightarrow> 'b \<Rightarrow> nat" where
  "row_len bf b = buf_len bf b"

definition row_is_empty :: "'b buffer \<Rightarrow> 'b \<Rightarrow> bool" where
  "row_is_empty bf b \<longleftrightarrow> buf_len bf b = 0"

section \<open>Schemas\<close>

datatype column_ty = Fixed nat | Text

datatype schema_error = BadShape "u8 list" | BadType "u8 list" "u8 list" | NoText

definition column_type :: "u8 list \<Rightarrow> column_ty option" where
  "column_type name =
     (if name = ascii ''UInt8'' \<or> name = ascii ''Int8'' then Some (Fixed 1)
      else if name = ascii ''UInt16'' \<or> name = ascii ''Int16'' then Some (Fixed 2)
      else if name = ascii ''UInt32'' \<or> name = ascii ''Int32'' then Some (Fixed 4)
      else if name = ascii ''UInt64'' \<or> name = ascii ''Int64'' then Some (Fixed 8)
      else if name = ascii ''String'' then Some Text else None)"

text \<open>\<open>rsplit_once(char::is_whitespace)\<close>: around the last white space.\<close>

fun rsplit_white :: "u8 list \<Rightarrow> (u8 list \<times> u8 list) option" where
  "rsplit_white [] = None"
| "rsplit_white (b # bs) =
     (case rsplit_white bs of
        Some (p, q) \<Rightarrow> Some (b # p, q)
      | None \<Rightarrow> map_option (\<lambda>w. ([], drop (length w) (b # bs)))
          (List.find (\<lambda>w. take (length w) (b # bs) = w) white_space))"

definition schema_column :: "u8 list \<Rightarrow> (column_ty, schema_error) rresult" where
  "schema_column column = (case rsplit_white column of
     None \<Rightarrow> Err (BadShape column)
   | Some (_, type_name) \<Rightarrow> (case column_type type_name of
       None \<Rightarrow> Err (BadType column type_name) | Some t \<Rightarrow> Ok t))"

definition parse_schema :: "u8 list \<Rightarrow> (column_ty list, schema_error) rresult" where
  "parse_schema schema =
     rcollect (map schema_column (filter (\<lambda>c. c \<noteq> []) (map str_trim (split_at 44 schema))))"

definition PADDING_BYTES :: nat where "PADDING_BYTES = 128"

fun put_zeros :: "'b buffer \<Rightarrow> 'b \<Rightarrow> nat \<Rightarrow> 'b" where
  "put_zeros bf b 0 = b"
| "put_zeros bf b (Suc n) = put_zeros bf (row_u8 bf b 0) n"

fun put_columns :: "'b buffer \<Rightarrow> u8 list \<Rightarrow> 'b \<Rightarrow> column_ty list \<Rightarrow> 'b" where
  "put_columns bf pad b [] = b"
| "put_columns bf pad b (Fixed w # cs) = put_columns bf pad (put_zeros bf b w) cs"
| "put_columns bf pad b (Text # cs) = put_columns bf pad (row_bytes bf b pad) cs"

definition padding_row :: "'b buffer \<Rightarrow> u8 list \<Rightarrow> (u8 list, schema_error) rresult" where
  "padding_row bf schema = rbind (parse_schema schema) (\<lambda>columns.
     if Text \<notin> set columns then Err NoText
     else Ok (buf_freeze bf (put_columns bf (replicate PADDING_BYTES 48) (buf_new bf) columns)))"

section \<open>A reader of the format\<close>

text \<open>What a reader of the format makes of the bytes: the specification the rows are held to.\<close>

datatype column_value = V_Fixed "u8 list" | V_Text "u8 list"

fun read_leb128 :: "u8 list \<Rightarrow> (nat \<times> u8 list) option" where
  "read_leb128 [] = None"
| "read_leb128 (b # bs) =
     (if b < 0x80 then Some (unat b, bs)
      else map_option (map_prod (\<lambda>n. unat b - 128 + 128 * n) id) (read_leb128 bs))"

fun read_column :: "column_ty \<Rightarrow> u8 list \<Rightarrow> (column_value \<times> u8 list) option" where
  "read_column (Fixed w) bs = (if w \<le> length bs then Some (V_Fixed (take w bs), drop w bs) else None)"
| "read_column Text bs = Option.bind (read_leb128 bs) (\<lambda>(n, rest).
     if n \<le> length rest then Some (V_Text (take n rest), drop n rest) else None)"

fun read_columns :: "column_ty list \<Rightarrow> u8 list \<Rightarrow> (column_value list \<times> u8 list) option" where
  "read_columns [] bs = Some ([], bs)"
| "read_columns (t # ts) bs = Option.bind (read_column t bs) (\<lambda>(v, rest).
     map_option (map_prod (Cons v) id) (read_columns ts rest))"

text \<open>A value to append: an integer of a width, or text; \<open>row_append\<close> calls the appender of its width.\<close>

datatype row_value = R8 u8 | R16 u16 | R32 u32 | R64 u64 | RText "u8 list"

fun row_append :: "'b buffer \<Rightarrow> 'b \<Rightarrow> row_value \<Rightarrow> 'b" where
  "row_append bf b (R8 v) = row_u8 bf b v"
| "row_append bf b (R16 v) = row_u16 bf b v"
| "row_append bf b (R32 v) = row_u32 bf b v"
| "row_append bf b (R64 v) = row_u64 bf b v"
| "row_append bf b (RText v) = row_bytes bf b v"

fun value_type :: "row_value \<Rightarrow> column_ty" where
  "value_type (R8 v) = Fixed 1"
| "value_type (R16 v) = Fixed 2"
| "value_type (R32 v) = Fixed 4"
| "value_type (R64 v) = Fixed 8"
| "value_type (RText v) = Text"

fun value_ok :: "row_value \<Rightarrow> column_value \<Rightarrow> bool" where
  "value_ok (R8 v) c \<longleftrightarrow> (\<exists>bs. c = V_Fixed bs \<and> from_le_bytes bs = v)"
| "value_ok (R16 v) c \<longleftrightarrow> (\<exists>bs. c = V_Fixed bs \<and> from_le_bytes bs = v)"
| "value_ok (R32 v) c \<longleftrightarrow> (\<exists>bs. c = V_Fixed bs \<and> from_le_bytes bs = v)"
| "value_ok (R64 v) c \<longleftrightarrow> (\<exists>bs. c = V_Fixed bs \<and> from_le_bytes bs = v)"
| "value_ok (RText v) c \<longleftrightarrow> c = V_Text v"


section \<open>Rows read back\<close>

lemma group_unat: "unat (ucast (v AND 0x7F :: u64) :: u8) = unat v mod 128"
proof -
  have m: "(0x7F :: u64) = mask 7" by (simp add: mask_eq_exp_minus_1)
  have "unat (v AND 0x7F :: u64) = unat v mod 128" unfolding m
    by (simp flip: take_bit_eq_mask add: unsigned_take_bit_eq) (simp add: take_bit_eq_mod)
  moreover have "unat v mod 128 < 256" using mod_less_divisor [of 128 "unat v"] by simp
  ultimately show ?thesis unfolding unsigned_ucast_eq by (simp add: take_bit_nat_eq_self)
qed

lemma group_continue:
  assumes "unat g < 128"
  shows "\<not> (g OR 0x80 :: u8) < 0x80" "unat (g OR 0x80 :: u8) = unat g + 128"
proof -
  have "(0x80 :: u8) = 2 ^ 7" by simp
  then have b7: "bit (0x80 :: u8) n \<longleftrightarrow> n = 7" for n by (simp only: bit_exp_iff) auto
  have "g < 2 ^ 7" using assms by (simp add: word_less_nat_alt)
  then have "n < 7" if "bit g n" for n using that by (rule bit_below)
  then have "g AND 0x80 = 0" by (intro bit_word_eqI) (simp only: bit_and_iff b7, auto)
  then have "g OR 0x80 = g + 0x80" using disjunctive_add_eq_or [of g "0x80 :: u8"] by simp
  then show u: "unat (g OR 0x80 :: u8) = unat g + 128" using assms unat_add_lem [of g "0x80 :: u8"] by simp
  show "\<not> (g OR 0x80 :: u8) < 0x80" using u by (simp add: word_less_nat_alt)
qed

lemma put_leb128_reads:
  assumes "buffer_laws bf"
  shows "\<exists>ls. buf_freeze bf (put_leb128 bf b v) = buf_freeze bf b @ ls \<and> (\<forall>rest. read_leb128 (ls @ rest) = Some (unat v, rest))"
  using assms
proof (induction bf b v rule: put_leb128.induct)
  case (1 bf b v)
  let ?g = "ucast (v AND 0x7F) :: u8"
  have g: "unat ?g = unat v mod 128" by (rule group_unat)
  have d: "unat (drop_bit 7 v) = unat v div 128" by (rule shift_unat)
  have put: "buf_freeze bf (buf_put bf b' bs) = buf_freeze bf b' @ bs" for b' bs using 1(2) by (simp add: buffer_laws_def)
  show ?case
  proof (cases "drop_bit 7 v = 0")
    case True
    then have "unat v div 128 = 0" using d by simp
    then have "unat ?g = unat v" "?g < 0x80" using g by (simp_all add: word_less_nat_alt)
    then show ?thesis using True put by (subst put_leb128.simps) (auto simp: Let_def)
  next
    case False
    have lt: "unat ?g < 128" using g by simp
    obtain ls where ls: "buf_freeze bf (put_leb128 bf (buf_put bf b [?g OR 0x80]) (drop_bit 7 v)) = buf_freeze bf (buf_put bf b [?g OR 0x80]) @ ls"
        "\<forall>rest. read_leb128 (ls @ rest) = Some (unat (drop_bit 7 v), rest)"
      using 1(1) [OF refl refl False 1(2)] by blast
    have "unat (?g OR 0x80) - 128 + 128 * unat (drop_bit 7 v) = unat v"
      using group_continue(2) [OF lt] g d by simp
    then have "read_leb128 (((?g OR 0x80) # ls) @ rest) = Some (unat v, rest)" for rest
      using ls(2) group_continue(1) [OF lt] by simp
    moreover have "buf_freeze bf (put_leb128 bf b v) = buf_freeze bf b @ ((?g OR 0x80) # ls)"
      using False ls(1) put by (subst put_leb128.simps) (simp add: Let_def)
    ultimately show ?thesis by blast
  qed
qed

lemma row_bytes_reads:
  assumes "buffer_laws bf" "length v < 2 ^ 64"
  shows "\<exists>ls. buf_freeze bf (row_bytes bf b v) = buf_freeze bf b @ ls \<and> (\<forall>rest. read_column Text (ls @ rest) = Some (V_Text v, rest))"
proof -
  obtain ls where ls: "buf_freeze bf (put_leb128 bf b (of_nat (length v))) = buf_freeze bf b @ ls"
      "\<forall>rest. read_leb128 (ls @ rest) = Some (unat (of_nat (length v) :: u64), rest)"
    using put_leb128_reads [OF assms(1)] by blast
  have "unat (of_nat (length v) :: u64) = length v" using assms(2) by (simp add: unat_of_nat take_bit_nat_eq_self)
  then have "read_column Text ((ls @ v) @ rest) = Some (V_Text v, rest)" for rest using ls(2) by simp
  moreover have "buf_freeze bf (row_bytes bf b v) = buf_freeze bf b @ (ls @ v)"
    using ls(1) assms(1) by (simp add: row_bytes_def buffer_laws_def)
  ultimately show ?thesis by blast
qed

lemma row_append_reads:
  assumes "buffer_laws bf" "\<And>t. v = RText t \<Longrightarrow> length t < 2 ^ 64"
  shows "\<exists>ls c. buf_freeze bf (row_append bf b v) = buf_freeze bf b @ ls \<and> value_ok v c \<and>
    (\<forall>rest. read_column (value_type v) (ls @ rest) = Some (c, rest))"
proof (cases v)
  case (RText t)
  then show ?thesis using row_bytes_reads [OF assms(1), of t b] assms(2) by auto
next
  case (R8 x)
  have "buf_freeze bf (row_append bf b v) = buf_freeze bf b @ [x]" using assms(1) R8 by (simp add: row_u8_def buffer_laws_def)
  then show ?thesis using R8 by (intro exI [of _ "[x]"] exI [of _ "V_Fixed [x]"]) simp
next
  case (R16 x)
  have "buf_freeze bf (row_append bf b v) = buf_freeze bf b @ to_le_bytes 2 x" using assms(1) R16 by (simp add: row_u16_def buffer_laws_def)
  then show ?thesis using R16 by (intro exI [of _ "to_le_bytes 2 x"] exI [of _ "V_Fixed (to_le_bytes 2 x)"]) (simp add: take_bit_word_eq_self)
next
  case (R32 x)
  have "buf_freeze bf (row_append bf b v) = buf_freeze bf b @ to_le_bytes 4 x" using assms(1) R32 by (simp add: row_u32_def buffer_laws_def)
  then show ?thesis using R32 by (intro exI [of _ "to_le_bytes 4 x"] exI [of _ "V_Fixed (to_le_bytes 4 x)"]) (simp add: take_bit_word_eq_self)
next
  case (R64 x)
  have "buf_freeze bf (row_append bf b v) = buf_freeze bf b @ to_le_bytes 8 x" using assms(1) R64 by (simp add: row_u64_def buffer_laws_def)
  then show ?thesis using R64 by (intro exI [of _ "to_le_bytes 8 x"] exI [of _ "V_Fixed (to_le_bytes 8 x)"]) (simp add: take_bit_word_eq_self)
qed

lemma row_values_read:
  assumes "buffer_laws bf" "\<forall>t. RText t \<in> set vs \<longrightarrow> length t < 2 ^ 64"
  shows "\<exists>ls cs. buf_freeze bf (foldl (row_append bf) b vs) = buf_freeze bf b @ ls \<and> list_all2 value_ok vs cs \<and>
    (\<forall>rest. read_columns (map value_type vs) (ls @ rest) = Some (cs, rest))"
  using assms(2)
proof (induction vs arbitrary: b)
  case Nil
  then show ?case by simp
next
  case (Cons v vs)
  obtain ls c where v: "buf_freeze bf (row_append bf b v) = buf_freeze bf b @ ls" "value_ok v c"
      "\<forall>rest. read_column (value_type v) (ls @ rest) = Some (c, rest)"
    using row_append_reads [OF assms(1), of v b] Cons.prems by auto
  obtain ms cs where vs: "buf_freeze bf (foldl (row_append bf) (row_append bf b v) vs) = buf_freeze bf (row_append bf b v) @ ms"
      "list_all2 value_ok vs cs" "\<forall>rest. read_columns (map value_type vs) (ms @ rest) = Some (cs, rest)"
    using Cons.IH [of "row_append bf b v"] Cons.prems by auto
  have "read_columns (map value_type (v # vs)) ((ls @ ms) @ rest) = Some (c # cs, rest)" for rest
    using v(3) vs(3) by simp
  then show ?case using v vs by (intro exI [of _ "ls @ ms"] exI [of _ "c # cs"]) simp
qed


text \<open>
  C40: A row reads back as the values appended to it.  Whatever the byte buffer, as long as appending to it
  appends, the row of a list of integers and texts is read by a reader of the format, given the columns'
  types in order, as exactly those values, with every byte of the row used; what follows the row is left
  for the next one.
\<close>

theorem row_roundtrip:
  assumes "buffer_laws bf" "\<forall>t. RText t \<in> set vs \<longrightarrow> length t < 2 ^ 64"
  shows "\<exists>cs. read_columns (map value_type vs) (buf_freeze bf (foldl (row_append bf) (buf_new bf) vs) @ rest) = Some (cs, rest) \<and>
    list_all2 value_ok vs cs"
  using row_values_read [OF assms, of "buf_new bf"] assms(1) by (auto simp: buffer_laws_def)

text \<open>A buffer that is its bytes.\<close>

definition list_buffer :: "u8 list buffer" where
  "list_buffer = \<lparr> buf_new = [], buf_put = \<lambda>b s. b @ s, buf_len = length, buf_freeze = id \<rparr>"

theorem row_roundtrip_witness:
  "\<exists>cs. read_columns [Fixed 4, Text] (foldl (row_append list_buffer) [] [R32 7, RText [1, 2, 3]]) = Some (cs, []) \<and>
     list_all2 value_ok [R32 7, RText [1, 2, 3]] cs"
proof -
  have "buffer_laws list_buffer" by (simp add: buffer_laws_def list_buffer_def)
  moreover have "\<forall>t. RText t \<in> set [R32 7, RText [1, 2, 3]] \<longrightarrow> length t < 2 ^ 64" by simp
  ultimately show ?thesis using row_roundtrip [of list_buffer "[R32 7, RText [1, 2, 3]]" "[]"]
    by (simp add: list_buffer_def)
qed

section \<open>The padding row\<close>

fun zero_value :: "column_ty \<Rightarrow> column_value" where
  "zero_value (Fixed w) = V_Fixed (replicate w 0)"
| "zero_value Text = V_Text (replicate PADDING_BYTES 48)"

lemma put_zeros_freeze: "buffer_laws bf \<Longrightarrow> buf_freeze bf (put_zeros bf b n) = buf_freeze bf b @ replicate n 0"
  by (induction n arbitrary: b) (simp_all add: row_u8_def buffer_laws_def replicate_append_same)

lemma put_columns_reads:
  assumes "buffer_laws bf"
  shows "\<exists>ls. buf_freeze bf (put_columns bf (replicate PADDING_BYTES 48) b cs) = buf_freeze bf b @ ls \<and>
    (\<forall>rest. read_columns cs (ls @ rest) = Some (map zero_value cs, rest))"
proof (induction cs arbitrary: b)
  case Nil
  then show ?case by simp
next
  case (Cons c cs)
  let ?b = "case c of Fixed w \<Rightarrow> put_zeros bf b w | Text \<Rightarrow> row_bytes bf b (replicate PADDING_BYTES 48)"
  have "\<exists>ms. buf_freeze bf ?b = buf_freeze bf b @ ms \<and> (\<forall>rest. read_column c (ms @ rest) = Some (zero_value c, rest))"
  proof (cases c)
    case (Fixed w)
    then show ?thesis using put_zeros_freeze [OF assms, of b w] by (intro exI [of _ "replicate w 0"]) simp
  next
    case Text
    then show ?thesis using row_bytes_reads [OF assms, of "replicate PADDING_BYTES 48" b] by (simp add: PADDING_BYTES_def)
  qed
  then obtain ms where ms: "buf_freeze bf ?b = buf_freeze bf b @ ms" "\<forall>rest. read_column c (ms @ rest) = Some (zero_value c, rest)" by blast
  obtain ls where ls: "buf_freeze bf (put_columns bf (replicate PADDING_BYTES 48) ?b cs) = buf_freeze bf ?b @ ls"
      "\<forall>rest. read_columns cs (ls @ rest) = Some (map zero_value cs, rest)" using Cons.IH [of ?b] by blast
  have "put_columns bf (replicate PADDING_BYTES 48) b (c # cs) = put_columns bf (replicate PADDING_BYTES 48) ?b cs" by (cases c) simp_all
  then show ?case using ms ls by (intro exI [of _ "ms @ ls"]) simp
qed

text \<open>The padding row of a schema is a row of it with every column zero and every text full of padding.\<close>

lemma padding_row_reads:
  assumes "buffer_laws bf" "padding_row bf schema = Ok bs"
  shows "\<exists>cs. parse_schema schema = Ok cs \<and> Text \<in> set cs \<and> read_columns cs bs = Some (map zero_value cs, [])"
proof -
  obtain cs where cs: "parse_schema schema = Ok cs" "Text \<in> set cs"
      "bs = buf_freeze bf (put_columns bf (replicate PADDING_BYTES 48) (buf_new bf) cs)"
    using assms(2) by (auto simp: padding_row_def rbind_Ok_iff split: if_splits)
  obtain ls where "bs = ls" "\<forall>rest. read_columns cs (ls @ rest) = Some (map zero_value cs, rest)"
    using put_columns_reads [OF assms(1), of "buf_new bf" cs] assms(1) cs(3) by (auto simp: buffer_laws_def)
  then have "read_columns cs bs = Some (map zero_value cs, [])" by (metis append_Nil2)
  then show ?thesis using cs(1,2) by blast
qed

end
