(* ===== verification/Observe.thy ===== *)
theory Observe
  imports Trace Position "HOL-Library.Multiset" "HOL-Library.Sublist"
begin

text \<open>
  What a run records about itself, \<open>refemu/src/cli/observe.rs\<close>: the retired instructions per program
  counter, the calls that reach a watched address, and the moment the console settles before a frame.
  A hash map is an association list with distinct keys; nothing below depends on its order.
\<close>

section \<open>Program counter histogram\<close>

record pc_snapshot =
  snap_label :: "u8 list"
  snap_rows :: "(u32 \<times> u64) list"
  snap_retired :: u64

record pc_histogram =
  hist_base :: u32
  hist_dense :: "u64 list"
  hist_sparse :: "(u32 \<times> u64) list"
  hist_snapshots :: "pc_snapshot list"
  hist_retired :: u64

fun dense_region :: "(u32 \<times> u32) option \<Rightarrow> u32 \<times> nat" where
  "dense_region (Some (start, end)) = (if start < end then (start, unat (end - start) div 4) else (0, 0))"
| "dense_region None = (0, 0)"

definition histogram_new :: "(u32 \<times> u32) option \<Rightarrow> pc_histogram" where
  "histogram_new txt = (case dense_region txt of (base, n) \<Rightarrow>
     \<lparr> hist_base = base, hist_dense = replicate n 0, hist_sparse = [], hist_snapshots = [], hist_retired = 0 \<rparr>)"

text \<open>\<open>*entry(key).or_insert(0) += 1\<close>.\<close>

fun entry_incr :: "u32 \<Rightarrow> (u32 \<times> u64) list \<Rightarrow> (u32 \<times> u64) list" where
  "entry_incr k [] = [(k, 1)]"
| "entry_incr k ((k', n) # r) = (if k' = k then (k', n + 1) # r else (k', n) # entry_incr k r)"

definition histogram_record :: "pc_histogram \<Rightarrow> u32 \<Rightarrow> pc_histogram" where
  "histogram_record h pc =
     (let h1 = h\<lparr>hist_retired := hist_retired h + 1\<rparr>; delta = pc - hist_base h; i = unat delta div 4 in
      if unat delta mod 4 = 0 \<and> i < length (hist_dense h)
      then h1\<lparr>hist_dense := (hist_dense h)[i := hist_dense h ! i + 1]\<rparr>
      else h1\<lparr>hist_sparse := entry_incr pc (hist_sparse h)\<rparr>)"

definition dense_rows :: "pc_histogram \<Rightarrow> (u32 \<times> u64) list" where
  "dense_rows h =
     map (\<lambda>(i, n). (hist_base h + of_nat i * 4, n)) (filter (\<lambda>(i, n). 0 < n) (enumerate 0 (hist_dense h)))"

definition histogram_rows :: "pc_histogram \<Rightarrow> (u32 \<times> u64) list" where
  "histogram_rows h = sort_key fst (dense_rows h @ hist_sparse h)"

definition take_snapshot :: "pc_histogram \<Rightarrow> u8 list \<Rightarrow> pc_histogram" where
  "take_snapshot h label =
     h\<lparr>hist_snapshots := hist_snapshots h @
        [\<lparr> snap_label = label, snap_rows = histogram_rows h, snap_retired = hist_retired h \<rparr>]\<rparr>"

section \<open>Traps\<close>

record trap_spec =
  trap_addr :: u32
  trap_name :: "u8 list"

text \<open>\<open>rsplit_once\<close> at a character.\<close>

fun rsplit_once :: "u8 \<Rightarrow> u8 list \<Rightarrow> (u8 list \<times> u8 list) option" where
  "rsplit_once c [] = None"
| "rsplit_once c (b # bs) =
     (case rsplit_once c bs of Some (l, r) \<Rightarrow> Some (b # l, r)
      | None \<Rightarrow> if b = c then Some ([], bs) else None)"

datatype spec_error = NotTrapSpec "u8 list" | NotMilestoneSpec "u8 list" | NotNamedCount "u8 list" | InSpec point_error

fun spec_result :: "('a, point_error) rresult \<Rightarrow> ('a, spec_error) rresult" where
  "spec_result (Ok x) = Ok x"
| "spec_result (Err e) = Err (InSpec e)"
| "spec_result Panic = Panic"

definition trap_spec_from_str :: "u8 list \<Rightarrow> (trap_spec, spec_error) rresult" where
  "trap_spec_from_str txt =
     (case rsplit_once 61 txt of None \<Rightarrow> Err (NotTrapSpec txt)
      | Some (addr, name) \<Rightarrow>
          rbind (spec_result (parse_addr addr)) (\<lambda>a. Ok \<lparr> trap_addr = a, trap_name = name \<rparr>))"

record trap_hit =
  hit_icount_before :: u64
  hit_pc :: u32
  hit_name_index :: nat
  hit_regs :: "u32 list"

record traps =
  traps_base :: u32
  traps_marked :: "u64 list"
  traps_at :: "(u32 \<times> nat) list"
  traps_names :: "u8 list list"
  traps_regs :: "u8 list"
  traps_hits :: "trap_hit list"
  traps_limit :: u64
  traps_overflowed :: bool

definition mark_slot :: "u32 \<Rightarrow> u64 list \<Rightarrow> u32 \<Rightarrow> u64 list" where
  "mark_slot base bits addr =
     (let delta = addr - base; word = unat delta div 4 in
      if unat delta mod 4 = 0 \<and> word div 64 < length bits
      then bits[word div 64 := bits ! (word div 64) OR push_bit (word mod 64) 1] else bits)"

definition traps_add :: "traps \<Rightarrow> trap_spec \<Rightarrow> traps" where
  "traps_add t spec =
     t\<lparr>traps_names := traps_names t @ [trap_name spec],
       traps_at := (trap_addr spec, length (traps_names t)) # filter (\<lambda>(a, _). a \<noteq> trap_addr spec) (traps_at t),
       traps_marked := mark_slot (traps_base t) (traps_marked t) (trap_addr spec)\<rparr>"

definition traps_new :: "trap_spec list \<Rightarrow> u8 list \<Rightarrow> (u32 \<times> u32) option \<Rightarrow> u64 \<Rightarrow> traps" where
  "traps_new specs regs txt limit = (case dense_region txt of (base, n) \<Rightarrow>
     foldl traps_add \<lparr> traps_base = base, traps_marked = replicate (div_ceil n 64) 0, traps_at = [],
       traps_names = [], traps_regs = regs, traps_hits = [], traps_limit = limit, traps_overflowed = False \<rparr> specs)"

definition is_marked :: "traps \<Rightarrow> u32 \<Rightarrow> bool" where
  "is_marked t pc =
     (let delta = pc - traps_base t; word = unat delta div 4 in
      if unat delta mod 4 \<noteq> 0 then traps_at t \<noteq> []
      else if word div 64 < length (traps_marked t)
      then traps_marked t ! (word div 64) AND push_bit (word mod 64) 1 \<noteq> 0
      else traps_at t \<noteq> [])"

text \<open>A register number past the register file is an index out of range.\<close>

definition read_regs :: "u8 list \<Rightarrow> cpu \<Rightarrow> (u32 list, unit) rresult" where
  "read_regs rs c =
     rcollect (map (\<lambda>i. if unat i < length (cpu_regs c) then Ok (cpu_regs c ! unat i) else Panic) rs)"

definition traps_observe :: "traps \<Rightarrow> cpu \<Rightarrow> (traps, unit) rresult" where
  "traps_observe t c =
     (if \<not> is_marked t (cpu_pc c) then Ok t
      else case map_of (traps_at t) (cpu_pc c) of None \<Rightarrow> Ok t
        | Some name_index \<Rightarrow>
            if unat (traps_limit t) \<le> length (traps_hits t) then Ok (t\<lparr>traps_overflowed := True\<rparr>)
            else rbind (read_regs (traps_regs t) c) (\<lambda>vs. Ok (t\<lparr>traps_hits := traps_hits t @
              [\<lparr> hit_icount_before = cpu_icount c, hit_pc = cpu_pc c, hit_name_index = name_index, hit_regs = vs \<rparr>]\<rparr>)))"

definition traps_is_empty :: "traps \<Rightarrow> bool" where
  "traps_is_empty t \<longleftrightarrow> traps_at t = []"

section \<open>Console milestones\<close>

record console_milestone =
  ms_needle :: "u8 list"
  ms_name :: "u8 list"
  ms_last_len :: nat
  ms_last_change :: "u64 option"
  ms_found :: "u64 option"

definition milestone_new :: "u8 list \<Rightarrow> u8 list \<Rightarrow> console_milestone" where
  "milestone_new needle name =
     \<lparr> ms_needle = needle, ms_name = name, ms_last_len = 0, ms_last_change = None, ms_found = None \<rparr>"

text \<open>\<open>slice.windows(n)\<close>, which panics for a width of zero.\<close>

definition windows :: "'a list \<Rightarrow> nat \<Rightarrow> 'a list list option" where
  "windows xs n = (if n = 0 then None else Some (map (\<lambda>i. take n (drop i xs)) [0..<length xs + 1 - n]))"

definition milestone_observe :: "console_milestone \<Rightarrow> cpu \<Rightarrow> (console_milestone, unit) rresult" where
  "milestone_observe m c =
     (case registers_ref (devices (cpu_memory c)) of None \<Rightarrow> Ok m
      | Some r \<Rightarrow>
          let m1 = (if length (console r) \<noteq> ms_last_len m
                    then m\<lparr>ms_last_len := length (console r), ms_last_change := Some (cpu_icount c)\<rparr> else m) in
          case (ms_found m1, frame_commits r, ms_last_change m1) of
            (None, _ # _, Some at) \<Rightarrow>
              (case windows (console r) (length (ms_needle m1)) of None \<Rightarrow> Panic
               | Some ws \<Rightarrow> Ok (if ms_needle m1 \<in> set ws then m1\<lparr>ms_found := Some at\<rparr> else m1))
          | _ \<Rightarrow> Ok m1)"

record milestone_spec =
  msp_needle :: "u8 list"
  msp_name :: "u8 list"

definition milestone_spec_from_str :: "u8 list \<Rightarrow> (milestone_spec, spec_error) rresult" where
  "milestone_spec_from_str txt =
     (case rsplit_once 61 txt of None \<Rightarrow> Err (NotMilestoneSpec txt)
      | Some (needle, name) \<Rightarrow> Ok \<lparr> msp_needle = needle, msp_name = name \<rparr>)"

record named_count =
  nc_name :: "u8 list"
  nc_value :: u64

definition named_count_from_str :: "u8 list \<Rightarrow> (named_count, spec_error) rresult" where
  "named_count_from_str txt =
     (case rsplit_once 61 txt of None \<Rightarrow> Err (NotNamedCount txt)
      | Some (name, value) \<Rightarrow>
          rbind (spec_result (parse_count value)) (\<lambda>v. Ok \<lparr> nc_name = name, nc_value = v \<rparr>))"

section \<open>Recorders\<close>

record recorders =
  rec_histogram :: "pc_histogram option"
  rec_traps :: "traps option"
  rec_milestones :: "console_milestone list"
  rec_watch_writes :: "region list"
  rec_watching :: bool

definition rec_before :: "recorders \<Rightarrow> cpu \<Rightarrow> (recorders, unit) rresult" where
  "rec_before rc c =
     (case rec_traps rc of None \<Rightarrow> Ok rc
      | Some t \<Rightarrow> rbind (traps_observe t c) (\<lambda>t'. Ok (rc\<lparr>rec_traps := Some t'\<rparr>)))"

definition rec_after_console :: "recorders \<Rightarrow> cpu \<Rightarrow> (recorders, unit) rresult" where
  "rec_after_console rc c =
     rbind (rcollect (map (\<lambda>m. milestone_observe m c) (rec_milestones rc)))
       (\<lambda>ms. Ok (rc\<lparr>rec_milestones := ms\<rparr>))"

definition rec_after :: "recorders \<Rightarrow> u32 \<Rightarrow> instruction \<Rightarrow> recorders" where
  "rec_after rc retired_pc insn = rc\<lparr>rec_histogram := map_option (\<lambda>h. histogram_record h retired_pc) (rec_histogram rc)\<rparr>"

definition records_anything :: "recorders \<Rightarrow> bool" where
  "records_anything rc \<longleftrightarrow>
     rec_histogram rc \<noteq> None \<or> rec_traps rc \<noteq> None \<or> rec_watch_writes rc \<noteq> [] \<or> rec_milestones rc \<noteq> []"

section \<open>The histogram counts\<close>

text \<open>A table that is bumped once per event holds the number of events of each key.\<close>

locale counting =
  fixes look :: "'h \<Rightarrow> 'k \<Rightarrow> u64" and bump :: "'h \<Rightarrow> 'k \<Rightarrow> 'h" and ok :: "'h \<Rightarrow> bool"
  assumes ok_bump: "ok h \<Longrightarrow> ok (bump h k)"
    and look_bump: "ok h \<Longrightarrow> look (bump h k) j = (if j = k then look h j + 1 else look h j)"
begin

lemma bumps_ok: "ok h \<Longrightarrow> ok (foldl bump h ks)"
  by (induction ks arbitrary: h) (auto intro: ok_bump)

lemma look_bumps: "ok h \<Longrightarrow> look (foldl bump h ks) j = look h j + of_nat (count_list ks j)"
  by (induction ks arbitrary: h) (auto simp: look_bump ok_bump)

end

definition in_dense :: "pc_histogram \<Rightarrow> u32 \<Rightarrow> bool" where
  "in_dense h pc \<longleftrightarrow> unat (pc - hist_base h) mod 4 = 0 \<and> unat (pc - hist_base h) div 4 < length (hist_dense h)"

definition hist_look :: "pc_histogram \<Rightarrow> u32 \<Rightarrow> u64" where
  "hist_look h pc =
     (if in_dense h pc then hist_dense h ! (unat (pc - hist_base h) div 4)
      else case map_of (hist_sparse h) pc of None \<Rightarrow> 0 | Some n \<Rightarrow> n)"

definition hist_wf :: "pc_histogram \<Rightarrow> bool" where
  "hist_wf h \<longleftrightarrow> 4 * length (hist_dense h) < 2 ^ 32 \<and> distinct (map fst (hist_sparse h)) \<and>
     fst ` set (hist_sparse h) \<inter> Collect (in_dense h) = {}"

lemma entry_incr_keys: "fst ` set (entry_incr k xs) = insert k (fst ` set xs)"
  by (induction k xs rule: entry_incr.induct) auto

lemma entry_incr_distinct: "distinct (map fst xs) \<Longrightarrow> distinct (map fst (entry_incr k xs))"
proof (induction k xs rule: entry_incr.induct)
  case (2 k k' n r)
  then show ?case using entry_incr_keys [of k r] by (auto simp: set_map [symmetric] simp del: set_map)
qed simp

lemma map_of_entry_incr:
  "map_of (entry_incr k xs) = (map_of xs)(k := Some (case map_of xs k of None \<Rightarrow> 1 | Some n \<Rightarrow> n + 1))"
  by (induction k xs rule: entry_incr.induct) (auto simp: fun_eq_iff)

lemma histogram_new_wf: "hist_wf (histogram_new txt)"
proof (cases "txt")
  case (Some p)
  obtain a b where p: "p = (a, b)" by fastforce
  have "4 * (unat (b - a) div 4) \<le> unat (b - a)" by simp
  also have "\<dots> < 2 ^ 32" using unsigned_less [of "b - a", where ?'a = nat] by simp
  finally show ?thesis using Some p by (simp add: hist_wf_def histogram_new_def)
qed (simp add: hist_wf_def histogram_new_def)

lemma histogram_new_look: "hist_look (histogram_new txt) pc = 0"
  by (simp add: hist_look_def histogram_new_def in_dense_def split: prod.split)

lemma in_dense_record [simp]: "in_dense (histogram_record h pc) = in_dense h"
  by (rule ext) (simp add: in_dense_def histogram_record_def Let_def)

lemma record_base [simp]: "hist_base (histogram_record h pc) = hist_base h"
  by (simp add: histogram_record_def Let_def)

lemma record_dense: "hist_dense (histogram_record h pc) =
    (if in_dense h pc then (hist_dense h)[unat (pc - hist_base h) div 4 := hist_dense h ! (unat (pc - hist_base h) div 4) + 1]
     else hist_dense h)"
  by (simp add: in_dense_def histogram_record_def Let_def)

lemma record_sparse: "hist_sparse (histogram_record h pc) =
    (if in_dense h pc then hist_sparse h else entry_incr pc (hist_sparse h))"
  by (simp add: in_dense_def histogram_record_def Let_def)

lemma dense_index_eq:
  assumes "in_dense h j" "in_dense h k" "unat (j - hist_base h) div 4 = unat (k - hist_base h) div 4"
  shows "j = k"
proof -
  have "unat (j - hist_base h) = unat (k - hist_base h)"
    using assms unfolding in_dense_def by (metis mult_div_mod_eq)
  then show ?thesis by (metis diff_add_cancel word_unat_eq_iff)
qed

interpretation pc_counts: counting hist_look histogram_record hist_wf
proof
  fix h k assume "hist_wf h"
  then show "hist_wf (histogram_record h k)"
    by (simp add: hist_wf_def record_dense record_sparse entry_incr_distinct entry_incr_keys)
next
  fix h :: pc_histogram and k j
  show "hist_look (histogram_record h k) j = (if j = k then hist_look h j + 1 else hist_look h j)"
  proof (cases "in_dense h j")
    case True
    show ?thesis
    proof (cases "in_dense h k")
      case k: True
      have "unat (k - hist_base h) div 4 < length (hist_dense h)" using k by (simp add: in_dense_def)
      moreover have "j = k \<longleftrightarrow> unat (k - hist_base h) div 4 = unat (j - hist_base h) div 4"
        using dense_index_eq [OF k True] by auto
      ultimately show ?thesis using True k by (simp add: hist_look_def record_dense nth_list_update)
    next
      case False
      then show ?thesis using True by (auto simp: hist_look_def record_dense)
    qed
  next
    case False
    then show ?thesis by (auto simp: hist_look_def record_sparse map_of_entry_incr split: option.split)
  qed
qed

lemma sort_key_distinct:
  fixes xs :: "('k::linorder \<times> 'v) list"
  assumes "distinct (map fst xs)"
  shows "sort_key fst xs = map (\<lambda>k. (k, the (map_of xs k))) (sorted_list_of_set (fst ` set xs))"
proof -
  have "map fst (sort_key fst xs) = sort (map fst xs)" by (intro properties_for_sort [symmetric]) (simp_all add: mset_map)
  also have "\<dots> = sorted_list_of_set (set (map fst xs))"
    using assms sorted_list_of_set_sort_remdups [of "map fst xs"] by (simp add: distinct_remdups_id)
  finally have k: "map fst (sort_key fst xs) = sorted_list_of_set (fst ` set xs)" by simp
  have "(fst p, the (map_of xs (fst p))) = p" if "p \<in> set (sort_key fst xs)" for p
    using that map_of_is_SomeI [OF assms, of "fst p" "snd p"] by simp
  then have "sort_key fst xs = map (\<lambda>p. (fst p, the (map_of xs (fst p)))) (sort_key fst xs)"
    by (intro map_idI [symmetric])
  also have "\<dots> = map (\<lambda>k. (k, the (map_of xs k))) (map fst (sort_key fst xs))" by simp
  finally show ?thesis unfolding k .
qed

lemma dense_keys:
  assumes "4 * length (hist_dense h) < 2 ^ 32" "i < length (hist_dense h)"
  shows "unat (hist_base h + of_nat i * 4 - hist_base h) = 4 * i" "in_dense h (hist_base h + of_nat i * 4)"
proof -
  have "unat (of_nat (4 * i) :: u32) = 4 * i" using assms by (intro of_nat_inverse [OF refl]) simp
  then show u: "unat (hist_base h + of_nat i * 4 - hist_base h) = 4 * i" by (simp add: mult.commute)
  show "in_dense h (hist_base h + of_nat i * 4)" unfolding in_dense_def u using assms(2) by simp
qed

lemma in_dense_index:
  assumes "in_dense h pc"
  shows "pc = hist_base h + of_nat (unat (pc - hist_base h) div 4) * 4"
proof -
  have "of_nat (4 * (unat (pc - hist_base h) div 4)) = (of_nat (unat (pc - hist_base h)) :: u32)"
    using assms by (simp add: in_dense_def dvd_mult_div_cancel mod_0_imp_dvd)
  then show ?thesis by (simp add: mult.commute)
qed

lemma dense_rows_mem:
  assumes len: "4 * length (hist_dense h) < 2 ^ 32"
  shows "(pc, n) \<in> set (dense_rows h) \<longleftrightarrow>
    in_dense h pc \<and> hist_dense h ! (unat (pc - hist_base h) div 4) = n \<and> n \<noteq> 0"
proof
  assume "(pc, n) \<in> set (dense_rows h)"
  then obtain i where "i < length (hist_dense h)" "pc = hist_base h + of_nat i * 4" "n = hist_dense h ! i" "n \<noteq> 0"
    by (auto simp: dense_rows_def in_set_enumerate_eq word_gt_0)
  then show "in_dense h pc \<and> hist_dense h ! (unat (pc - hist_base h) div 4) = n \<and> n \<noteq> 0"
    using dense_keys [OF len] by simp
next
  assume r: "in_dense h pc \<and> hist_dense h ! (unat (pc - hist_base h) div 4) = n \<and> n \<noteq> 0"
  let ?i = "unat (pc - hist_base h) div 4"
  have "(?i, n) \<in> set (filter (\<lambda>(i, n). 0 < n) (enumerate 0 (hist_dense h)))"
    using r by (auto simp: in_set_enumerate_eq in_dense_def word_gt_0)
  then have "(hist_base h + of_nat ?i * 4, n) \<in> set (dense_rows h)" by (force simp: dense_rows_def simp del: set_filter)
  then show "(pc, n) \<in> set (dense_rows h)" using in_dense_index [of h pc] r by simp
qed

lemma dense_rows_distinct:
  assumes len: "4 * length (hist_dense h) < 2 ^ 32"
  shows "distinct (map fst (dense_rows h))"
proof -
  let ?f = "filter (\<lambda>(i, n). 0 < n) (enumerate 0 (hist_dense h))"
  have inj: "inj_on (\<lambda>i. hist_base h + of_nat i * 4 :: u32) {..<length (hist_dense h)}"
  proof (rule inj_onI)
    fix i j assume "i \<in> {..<length (hist_dense h)}" "j \<in> {..<length (hist_dense h)}"
      and "hist_base h + of_nat i * 4 = hist_base h + (of_nat j * 4 :: u32)"
    then show "i = j" using dense_keys(1) [OF len, of i] dense_keys(1) [OF len, of j] by simp
  qed
  have "map fst (dense_rows h) = map (\<lambda>i. hist_base h + of_nat i * 4) (map fst ?f)"
    by (simp add: dense_rows_def case_prod_beta' o_def)
  moreover have "distinct (map fst ?f)" by (rule distinct_map_filter) simp
  moreover have "inj_on (\<lambda>i. hist_base h + of_nat i * 4 :: u32) (set (map fst ?f))"
    by (rule inj_on_subset [OF inj]) (auto simp: in_set_enumerate_eq)
  ultimately show ?thesis by (simp only: distinct_map)
qed

lemma histogram_entries:
  assumes wf: "hist_wf h" and pos: "\<forall>n \<in> snd ` set (hist_sparse h). n \<noteq> 0"
  shows "distinct (map fst (dense_rows h @ hist_sparse h))"
    and "map_of (dense_rows h @ hist_sparse h) pc = (if hist_look h pc = 0 then None else Some (hist_look h pc))"
proof -
  have len: "4 * length (hist_dense h) < 2 ^ 32" and ds: "distinct (map fst (hist_sparse h))"
    and dj: "fst ` set (hist_sparse h) \<inter> Collect (in_dense h) = {}" using wf by (simp_all add: hist_wf_def)
  note mem = dense_rows_mem [OF len] and dd = dense_rows_distinct [OF len]
  have "fst ` set (dense_rows h) \<inter> fst ` set (hist_sparse h) = {}" using mem dj by fastforce
  then show "distinct (map fst (dense_rows h @ hist_sparse h))" using ds dd by simp
  show "map_of (dense_rows h @ hist_sparse h) pc = (if hist_look h pc = 0 then None else Some (hist_look h pc))"
  proof (cases "in_dense h pc")
    case True
    then have "map_of (hist_sparse h) pc = None" using dj by (auto simp: map_of_eq_None_iff)
    moreover have "map_of (dense_rows h) pc = (if hist_look h pc = 0 then None else Some (hist_look h pc))"
      using True mem map_of_is_SomeI [OF dd, of pc "hist_look h pc"]
      by (cases "hist_look h pc = 0") (force simp: map_of_eq_None_iff hist_look_def)+
    ultimately show ?thesis by (simp add: map_add_def)
  next
    case False
    then have "map_of (dense_rows h) pc = None" using mem by (force simp: map_of_eq_None_iff)
    moreover have "n \<noteq> 0" if "map_of (hist_sparse h) pc = Some n" for n
      using pos map_of_SomeD [OF that] by force
    ultimately show ?thesis using False by (auto simp: map_add_def hist_look_def split: option.split)
  qed
qed

text \<open>The rows of a histogram are its nonzero counts, ascending.\<close>

lemma histogram_rows_look:
  assumes wf: "hist_wf h" and pos: "\<forall>n \<in> snd ` set (hist_sparse h). n \<noteq> 0"
  shows "histogram_rows h = map (\<lambda>pc. (pc, hist_look h pc)) (sorted_list_of_set {pc. hist_look h pc \<noteq> 0})"
proof -
  let ?xs = "dense_rows h @ hist_sparse h"
  note look = histogram_entries(2) [OF assms]
  have keys: "fst ` set ?xs = {pc. hist_look h pc \<noteq> 0}"
    unfolding dom_map_of_conv_image_fst [symmetric] using look by (auto simp: dom_def simp del: map_of_append)
  have "histogram_rows h = map (\<lambda>k. (k, the (map_of ?xs k))) (sorted_list_of_set (fst ` set ?xs))"
    unfolding histogram_rows_def by (rule sort_key_distinct [OF histogram_entries(1) [OF assms]])
  also have "\<dots> = map (\<lambda>pc. (pc, hist_look h pc)) (sorted_list_of_set {pc. hist_look h pc \<noteq> 0})"
    unfolding keys by (rule map_cong [OF refl]) (simp add: look del: map_of_append)
  finally show ?thesis .
qed

lemma retired_records: "hist_retired (foldl histogram_record h pcs) = hist_retired h + of_nat (length pcs)"
  by (induction pcs arbitrary: h) (auto simp: histogram_record_def Let_def)

lemma of_nat_u64_0: "n < 2 ^ 64 \<Longrightarrow> (of_nat n :: u64) = 0 \<longleftrightarrow> n = 0"
  using of_nat_inverse [OF refl, of n, where ?'a = 64] by auto

lemma sparse_keys: "fst ` set (hist_sparse (foldl histogram_record h pcs)) \<subseteq> fst ` set (hist_sparse h) \<union> set pcs"
proof (induction pcs arbitrary: h)
  case (Cons pc pcs)
  have "fst ` set (hist_sparse (histogram_record h pc)) \<subseteq> insert pc (fst ` set (hist_sparse h))"
    by (simp add: record_sparse entry_incr_keys subset_insertI)
  then show ?case using Cons.IH [of "histogram_record h pc"] by (simp, blast)
qed simp

lemma histogram_counts:
  assumes "length pcs < 2 ^ 64"
  shows "histogram_rows (foldl histogram_record (histogram_new region) pcs) =
      map (\<lambda>pc. (pc, of_nat (count_list pcs pc))) (sorted_list_of_set (set pcs)) \<and>
    hist_retired (foldl histogram_record (histogram_new region) pcs) = of_nat (length pcs)"
proof -
  let ?h = "foldl histogram_record (histogram_new region) pcs"
  have wf: "hist_wf ?h" by (rule pc_counts.bumps_ok [OF histogram_new_wf])
  have look: "hist_look ?h pc = of_nat (count_list pcs pc)" for pc
    by (simp add: pc_counts.look_bumps [OF histogram_new_wf] histogram_new_look)
  have nz: "hist_look ?h pc \<noteq> 0 \<longleftrightarrow> pc \<in> set pcs" for pc
    unfolding look using of_nat_u64_0 [of "count_list pcs pc"] count_le_length [of pcs pc] assms
    by (auto simp: count_list_0_iff)
  have "n \<noteq> 0" if n: "(k, n) \<in> set (hist_sparse ?h)" for k n
  proof -
    have "k \<in> set pcs" using sparse_keys [of "histogram_new region" pcs] n
      by (force simp: histogram_new_def split: prod.splits)
    moreover have "\<not> in_dense ?h k" "map_of (hist_sparse ?h) k = Some n"
      using wf n by (force simp: hist_wf_def)+
    ultimately show ?thesis using nz [of k] by (simp add: hist_look_def)
  qed
  then have "histogram_rows ?h = map (\<lambda>pc. (pc, hist_look ?h pc)) (sorted_list_of_set {pc. hist_look ?h pc \<noteq> 0})"
    by (intro histogram_rows_look [OF wf]) auto
  moreover have "hist_retired ?h = of_nat (length pcs)"
    unfolding retired_records by (simp add: histogram_new_def split: prod.split)
  ultimately show ?thesis by (simp add: look nz [unfolded look])
qed

text \<open>
  A histogram of a run holds each program counter's number of retirements and nothing else.  After
  recording fewer than \<open>2 ^ 64\<close> retirements, inside and outside the dense range in any order, its rows
  are the program counters that retired, ascending, each once and with how often it retired, and
  \<open>retired\<close> is how many there were.
\<close>

theorem histogram_exact:
  assumes "length pcs < 2 ^ 64"
  shows "histogram_rows (foldl histogram_record (histogram_new region) pcs) =
      map (\<lambda>pc. (pc, of_nat (count_list pcs pc))) (sorted_list_of_set (set pcs)) \<and>
    hist_retired (foldl histogram_record (histogram_new region) pcs) = of_nat (length pcs)"
  by (rule histogram_counts [OF assms])

theorem histogram_exact_witness:
  "histogram_rows (foldl histogram_record (histogram_new (Some (0x80000000, 0x80000010))) [0x80000000, 0x80000000, 0x10000000]) =
     map (\<lambda>pc. (pc, of_nat (count_list [0x80000000, 0x80000000, 0x10000000] pc)))
       (sorted_list_of_set {0x80000000, 0x10000000})"
  using histogram_exact [of "[0x80000000, 0x80000000, 0x10000000]" "Some (0x80000000, 0x80000010)"] by simp

section \<open>The traps see every call\<close>

text \<open>Several specs may name one address; the last one gives the name.\<close>

definition trap_index :: "trap_spec list \<Rightarrow> u32 \<Rightarrow> nat option" where
  "trap_index specs pc = map_of (rev (zip (map trap_addr specs) [0..<length specs])) pc"

definition traps_ok :: "trap_spec list \<Rightarrow> traps \<Rightarrow> bool" where
  "traps_ok specs t \<longleftrightarrow> map_of (traps_at t) = trap_index specs \<and> length (traps_names t) = length specs \<and>
     traps_names t = map trap_name specs \<and> (\<forall>pc. map_of (traps_at t) pc \<noteq> None \<longrightarrow> is_marked t pc)"

lemma is_marked_bit:
  "is_marked t pc \<longleftrightarrow>
     (let delta = pc - traps_base t; word = unat delta div 4 in
      if unat delta mod 4 = 0 \<and> word div 64 < length (traps_marked t)
      then bit (traps_marked t ! (word div 64)) (word mod 64) else traps_at t \<noteq> [])"
  by (simp add: is_marked_def Let_def bit_iff_and_push_bit_not_eq_0)

lemma mark_slot_bit:
  assumes "i < length bits"
  shows "bit (mark_slot base bits addr ! i) k \<longleftrightarrow>
    bit (bits ! i) k \<or> (unat (addr - base) mod 4 = 0 \<and> unat (addr - base) div 4 div 64 = i \<and> unat (addr - base) div 4 mod 64 = k)"
  using assms by (auto simp: mark_slot_def Let_def nth_list_update bit_simps)

lemma length_mark_slot [simp]: "length (mark_slot base bits addr) = length bits"
  by (simp add: mark_slot_def Let_def)

lemma trap_index_snoc: "trap_index (specs @ [spec]) pc = (if pc = trap_addr spec then Some (length specs) else trap_index specs pc)"
  by (simp add: trap_index_def)

lemma map_of_filter_other: "map_of (filter (\<lambda>(a, _). a \<noteq> k) xs) pc = (if pc = k then None else map_of xs pc)"
  by (induction xs) auto

lemma traps_add_ok: "traps_ok specs t \<Longrightarrow> traps_ok (specs @ [spec]) (traps_add t spec)"
proof -
  assume ok: "traps_ok specs t"
  have "is_marked (traps_add t spec) pc" if "map_of (traps_at (traps_add t spec)) pc \<noteq> None" for pc
  proof (cases "pc = trap_addr spec")
    case True
    then show ?thesis by (simp add: is_marked_bit Let_def traps_add_def mark_slot_bit)
  next
    case False
    then have "is_marked t pc" using that ok by (simp add: traps_ok_def traps_add_def map_of_filter_other)
    then show ?thesis by (simp add: is_marked_bit Let_def traps_add_def mark_slot_bit split: if_splits)
  qed
  then show ?thesis using ok
    by (auto simp: traps_ok_def traps_add_def map_of_filter_other trap_index_snoc fun_eq_iff)
qed

lemma traps_adds_ok: "traps_ok specs t \<Longrightarrow> traps_ok (specs @ ss) (foldl traps_add t ss)"
  by (induction ss arbitrary: specs t) (use traps_add_ok in \<open>force+\<close>)

lemma foldl_traps_add [simp]:
  "traps_hits (foldl traps_add t specs) = traps_hits t" "traps_regs (foldl traps_add t specs) = traps_regs t"
  "traps_limit (foldl traps_add t specs) = traps_limit t" "traps_overflowed (foldl traps_add t specs) = traps_overflowed t"
  by (induction specs arbitrary: t) (simp_all add: traps_add_def)

lemma traps_new_ok:
  "traps_ok specs (traps_new specs regs region limit)" "traps_hits (traps_new specs regs region limit) = []"
  "traps_regs (traps_new specs regs region limit) = regs" "traps_limit (traps_new specs regs region limit) = limit"
  "\<not> traps_overflowed (traps_new specs regs region limit)"
proof -
  obtain base n where d: "dense_region region = (base, n)" by fastforce
  have "traps_ok [] \<lparr> traps_base = base, traps_marked = replicate (div_ceil n 64) 0, traps_at = [],
       traps_names = [], traps_regs = regs, traps_hits = [], traps_limit = limit, traps_overflowed = False \<rparr>"
    by (simp add: traps_ok_def trap_index_def fun_eq_iff)
  from traps_adds_ok [OF this, of specs] show "traps_ok specs (traps_new specs regs region limit)"
    by (simp add: traps_new_def d)
qed (simp_all add: traps_new_def split: prod.split)

definition trap_hit_of :: "u8 list \<Rightarrow> cpu \<Rightarrow> nat \<Rightarrow> trap_hit" where
  "trap_hit_of regs c i =
     \<lparr> hit_icount_before = cpu_icount c, hit_pc = cpu_pc c, hit_name_index = i,
       hit_regs = map (\<lambda>r. cpu_regs c ! unat r) regs \<rparr>"

definition calls_of :: "trap_spec list \<Rightarrow> u8 list \<Rightarrow> cpu list \<Rightarrow> trap_hit list" where
  "calls_of specs regs cs =
     List.map_filter (\<lambda>c. map_option (trap_hit_of regs c) (trap_index specs (cpu_pc c))) cs"

lemma read_regs_ok: "\<forall>r \<in> set rs. unat r < length (cpu_regs c) \<Longrightarrow> read_regs rs c = Ok (map (\<lambda>r. cpu_regs c ! unat r) rs)"
  by (simp add: read_regs_def rcollect_Ok_iff)

fun observe_all :: "traps \<Rightarrow> cpu list \<Rightarrow> (traps, unit) rresult" where
  "observe_all t [] = Ok t"
| "observe_all t (c # cs) = rbind (traps_observe t c) (\<lambda>t'. observe_all t' cs)"

lemma traps_observe_step:
  assumes ok: "traps_ok specs t" and regs: "\<forall>r \<in> set (traps_regs t). unat r < length (cpu_regs c)"
  shows "traps_observe t c = Ok (case trap_index specs (cpu_pc c) of None \<Rightarrow> t
    | Some i \<Rightarrow> if unat (traps_limit t) \<le> length (traps_hits t) then t\<lparr>traps_overflowed := True\<rparr>
        else t\<lparr>traps_hits := traps_hits t @ [trap_hit_of (traps_regs t) c i]\<rparr>)"
proof -
  have "is_marked t (cpu_pc c)" if "trap_index specs (cpu_pc c) = Some i" for i
    using ok that by (simp add: traps_ok_def)
  moreover have "map_of (traps_at t) = trap_index specs" using ok by (simp add: traps_ok_def)
  ultimately show ?thesis using read_regs_ok [OF regs]
    by (auto simp: traps_observe_def trap_hit_of_def split: option.split)
qed

lemma observe_all_exact:
  assumes "traps_ok specs t" "\<forall>c \<in> set cs. \<forall>r \<in> set (traps_regs t). unat r < length (cpu_regs c)"
    and "length (traps_hits t) \<le> unat (traps_limit t)"
  shows "\<exists>t'. observe_all t cs = Ok t' \<and>
    traps_hits t' = take (unat (traps_limit t)) (traps_hits t @ calls_of specs (traps_regs t) cs) \<and>
    (traps_overflowed t' \<longleftrightarrow> traps_overflowed t \<or>
       unat (traps_limit t) < length (traps_hits t @ calls_of specs (traps_regs t) cs))"
  using assms
proof (induction cs arbitrary: t)
  case Nil
  then show ?case by (simp add: calls_of_def)
next
  case (Cons c cs)
  let ?i = "trap_index specs (cpu_pc c)"
  have "is_marked (t\<lparr>traps_hits := h\<rparr>) = is_marked t" "is_marked (t\<lparr>traps_overflowed := b\<rparr>) = is_marked t" for h b
    by (simp_all add: is_marked_def fun_eq_iff)
  then have keep: "traps_ok specs (t\<lparr>traps_hits := h\<rparr>)" "traps_ok specs (t\<lparr>traps_overflowed := b\<rparr>)" for h b
    using Cons.prems(1) by (simp_all add: traps_ok_def)
  have st: "traps_observe t c = Ok (case ?i of None \<Rightarrow> t
    | Some i \<Rightarrow> if unat (traps_limit t) \<le> length (traps_hits t) then t\<lparr>traps_overflowed := True\<rparr>
        else t\<lparr>traps_hits := traps_hits t @ [trap_hit_of (traps_regs t) c i]\<rparr>)"
    using Cons.prems by (intro traps_observe_step) auto
  show ?case
  proof (cases ?i)
    case None
    then show ?thesis using Cons.IH [of t] Cons.prems st by (simp add: calls_of_def map_filter_simps)
  next
    case (Some i)
    show ?thesis
    proof (cases "unat (traps_limit t) \<le> length (traps_hits t)")
      case True
      then show ?thesis using Cons.IH [OF keep(2) [of True]] Cons.prems st Some
        by (auto simp: calls_of_def map_filter_simps)
    next
      case False
      then show ?thesis using Cons.IH [OF keep(1) [of "traps_hits t @ [trap_hit_of (traps_regs t) c i]"]] Cons.prems st Some
        by (auto simp: calls_of_def map_filter_simps)
    qed
  qed
qed

text \<open>
  The traps record every call to a watched address and no other step.  For registers the machine
  has, observing a run returns, the log holds the calls in order, with the count, address, register
  values and name of each, cut at the limit, and the overflow is recorded exactly when there were more;
  the bit table that skips the map lookup never hides a call.
\<close>

theorem traps_exact:
  assumes "\<forall>c \<in> set cs. \<forall>r \<in> set regs. unat r < length (cpu_regs c)"
  shows "\<exists>t. observe_all (traps_new specs regs region limit) cs = Ok t \<and>
    traps_hits t = take (unat limit) (calls_of specs regs cs) \<and>
    (traps_overflowed t \<longleftrightarrow> unat limit < length (calls_of specs regs cs))"
  using observe_all_exact [OF traps_new_ok(1) [of specs regs region limit], of cs] assms
  by (simp add: traps_new_ok)

theorem traps_exact_witness:
  "\<exists>t. observe_all (traps_new [\<lparr> trap_addr = cpu_pc cpu_small, trap_name = [102] \<rparr>] [10] None 2) (replicate 3 cpu_small) = Ok t \<and>
     traps_overflowed t"
proof -
  have c: "calls_of [\<lparr> trap_addr = cpu_pc cpu_small, trap_name = [102] \<rparr>] [10] (replicate 3 cpu_small) =
      replicate 3 (trap_hit_of [10] cpu_small 0)"
    by (simp add: calls_of_def trap_index_def numeral_eq_Suc map_filter_simps)
  have "\<forall>c \<in> set (replicate 3 cpu_small). \<forall>r \<in> set [10]. unat (r :: u8) < length (cpu_regs c)"
    by (simp add: cpu_small_def cpu_new_def)
  from traps_exact [OF this, of "[\<lparr> trap_addr = cpu_pc cpu_small, trap_name = [102] \<rparr>]" None 2, unfolded c]
  show ?thesis by auto
qed

section \<open>The milestone is where the console settled\<close>

definition console_of :: "cpu \<Rightarrow> u8 list" where
  "console_of c = (case registers_ref (devices (cpu_memory c)) of None \<Rightarrow> [] | Some r \<Rightarrow> console r)"

definition has_frame :: "cpu \<Rightarrow> bool" where
  "has_frame c = (case registers_ref (devices (cpu_memory c)) of None \<Rightarrow> False | Some r \<Rightarrow> frame_commits r \<noteq> [])"

text \<open>The count at the last observation that found the console's length changed.\<close>

definition last_write :: "cpu list \<Rightarrow> u64 option" where
  "last_write cs =
     (let js = filter (\<lambda>j. length (console_of (cs ! j)) \<noteq> (if j = 0 then 0 else length (console_of (cs ! (j - 1))))) [0..<length cs]
      in if js = [] then None else Some (cpu_icount (cs ! last js)))"

definition settled :: "u8 list \<Rightarrow> cpu list \<Rightarrow> u64 option" where
  "settled needle cs =
     (let is = filter (\<lambda>i. has_frame (cs ! i) \<and> sublist needle (console_of (cs ! i))) [0..<length cs]
      in if is = [] then None else last_write (take (Suc (hd is)) cs))"

fun milestone_all :: "console_milestone \<Rightarrow> cpu list \<Rightarrow> (console_milestone, unit) rresult" where
  "milestone_all m [] = Ok m"
| "milestone_all m (c # cs) = rbind (milestone_observe m c) (\<lambda>m'. milestone_all m' cs)"

lemma milestone_all_snoc: "milestone_all m (cs @ [c]) = rbind (milestone_all m cs) (\<lambda>m'. milestone_observe m' c)"
proof (induction cs arbitrary: m)
  case Nil
  show ?case by (cases "milestone_observe m c") simp_all
qed simp

lemma in_windows: "n \<noteq> 0 \<Longrightarrow> length ys = n \<Longrightarrow> windows xs n = Some ws \<Longrightarrow> ys \<in> set ws \<longleftrightarrow> sublist ys xs"
proof -
  assume n: "n \<noteq> 0" "length ys = n" and "windows xs n = Some ws"
  then have ws: "set ws = (\<lambda>i. take n (drop i xs)) ` {0..<length xs + 1 - n}" by (auto simp: windows_def)
  show ?thesis
  proof
    assume "ys \<in> set ws"
    then show "sublist ys xs" using ws by (auto intro: sublist_order.order_trans [OF sublist_take sublist_drop])
  next
    assume "sublist ys xs"
    then obtain p q where "xs = p @ ys @ q" by (auto simp: sublist_def)
    then show "ys \<in> set ws" unfolding ws using n by (intro image_eqI [of _ _ "length p"]) simp_all
  qed
qed

lemma last_write_snoc:
  "last_write (cs @ [c]) = (if length (console_of c) \<noteq> (if cs = [] then 0 else length (console_of (last cs)))
     then Some (cpu_icount c) else last_write cs)"
proof -
  let ?P = "\<lambda>ds j. length (console_of (ds ! j)) \<noteq> (if j = 0 then 0 else length (console_of (ds ! (j - 1))))"
  have "filter (?P (cs @ [c])) [0..<length cs] = filter (?P cs) [0..<length cs]"
    by (rule filter_cong) (auto simp: nth_append)
  then have f: "filter (?P (cs @ [c])) [0..<length (cs @ [c])] =
      filter (?P cs) [0..<length cs] @ (if ?P (cs @ [c]) (length cs) then [length cs] else [])" by simp
  have l: "?P (cs @ [c]) (length cs) \<longleftrightarrow> length (console_of c) \<noteq> (if cs = [] then 0 else length (console_of (last cs)))"
    by (auto simp: nth_append last_conv_nth)
  have "(cs @ [c]) ! last (filter (?P cs) [0..<length cs]) = cs ! last (filter (?P cs) [0..<length cs])"
    if "filter (?P cs) [0..<length cs] \<noteq> []"
    using last_in_set [OF that] by (simp add: nth_append)
  then show ?thesis unfolding last_write_def Let_def f l by simp
qed

lemma last_write_None: "last_write cs = None \<Longrightarrow> c \<in> set cs \<Longrightarrow> console_of c = []"
proof (induction cs arbitrary: c rule: rev_induct)
  case (snoc d cs)
  then have eq: "length (console_of d) = (if cs = [] then 0 else length (console_of (last cs)))" and n: "last_write cs = None"
    by (auto simp: last_write_snoc split: if_splits)
  have "console_of d = []" using eq snoc.IH [OF n last_in_set] by (auto split: if_splits)
  then show ?case using snoc.IH [OF n] snoc.prems(2) by auto
qed simp

lemma settled_snoc:
  assumes "needle \<noteq> []"
  shows "settled needle (cs @ [c]) =
     (if settled needle cs \<noteq> None then settled needle cs
      else if has_frame c \<and> sublist needle (console_of c) then last_write (cs @ [c]) else None)"
proof -
  let ?Q = "\<lambda>c. has_frame c \<and> sublist needle (console_of c)"
  let ?is = "filter (\<lambda>i. ?Q (cs ! i)) [0..<length cs]"
  have "filter (\<lambda>i. ?Q ((cs @ [c]) ! i)) [0..<length cs] = ?is"
    by (rule filter_cong) (auto simp: nth_append)
  then have f: "filter (\<lambda>i. ?Q ((cs @ [c]) ! i)) [0..<length (cs @ [c])] = ?is @ (if ?Q c then [length cs] else [])"
    by simp
  show ?thesis
  proof (cases "?is = []")
    case True
    then show ?thesis unfolding settled_def Let_def f by simp
  next
    case False
    let ?i = "hd ?is"
    have "?i \<in> set ?is" using False by (rule hd_in_set)
    then have i: "?i < length cs" "?Q (cs ! ?i)" by auto
    have "last_write (take (Suc ?i) cs) \<noteq> None"
    proof
      assume "last_write (take (Suc ?i) cs) = None"
      moreover have "cs ! ?i \<in> set (take (Suc ?i) cs)" using i(1) by (simp add: take_Suc_conv_app_nth)
      ultimately have "console_of (cs ! ?i) = []" by (rule last_write_None)
      then show False using i(2) assms by simp
    qed
    then show ?thesis using False i(1) unfolding settled_def Let_def f by (simp add: hd_append)
  qed
qed

lemma milestone_observe_step:
  assumes "ms_needle m \<noteq> []" "registers_ref (devices (cpu_memory c)) \<noteq> None"
  shows "\<exists>m'. milestone_observe m c = Ok m' \<and> ms_needle m' = ms_needle m \<and> ms_last_len m' = length (console_of c) \<and>
    ms_last_change m' = (if length (console_of c) \<noteq> ms_last_len m then Some (cpu_icount c) else ms_last_change m) \<and>
    ms_found m' = (if ms_found m \<noteq> None then ms_found m
      else if has_frame c \<and> sublist (ms_needle m) (console_of c) then ms_last_change m' else None)"
proof -
  obtain r where r: "registers_ref (devices (cpu_memory c)) = Some r" using assms(2) by blast
  have k: "console_of c = console r" "has_frame c \<longleftrightarrow> frame_commits r \<noteq> []" by (simp_all add: console_of_def has_frame_def r)
  obtain ws where ws: "windows (console r) (length (ms_needle m)) = Some ws" using assms(1) by (simp add: windows_def)
  have w: "ms_needle m \<in> set ws \<longleftrightarrow> sublist (ms_needle m) (console r)"
    by (rule in_windows [OF _ refl ws]) (use assms(1) in simp)
  show ?thesis unfolding milestone_observe_def r option.case Let_def k
    using ws w by (auto split: option.split list.split)
qed

lemma milestone_invariant:
  assumes "needle \<noteq> []" "\<forall>c \<in> set cs. registers_ref (devices (cpu_memory c)) \<noteq> None"
  shows "\<exists>m. milestone_all (milestone_new needle name) cs = Ok m \<and> ms_needle m = needle \<and>
    ms_last_len m = (if cs = [] then 0 else length (console_of (last cs))) \<and>
    ms_last_change m = last_write cs \<and> ms_found m = settled needle cs"
  using assms(2)
proof (induction cs rule: rev_induct)
  case Nil
  show ?case by (simp add: milestone_new_def last_write_def settled_def)
next
  case (snoc c cs)
  then obtain m where m: "milestone_all (milestone_new needle name) cs = Ok m" "ms_needle m = needle"
      "ms_last_len m = (if cs = [] then 0 else length (console_of (last cs)))"
      "ms_last_change m = last_write cs" "ms_found m = settled needle cs" by auto
  have "ms_needle m \<noteq> []" "registers_ref (devices (cpu_memory c)) \<noteq> None" using m(2) assms(1) snoc.prems by auto
  from milestone_observe_step [OF this] show ?case
    using m by (auto simp: milestone_all_snoc last_write_snoc settled_snoc [OF assms(1)] simp del: append.simps)
qed

text \<open>
  A console milestone is found at the first observation at which a frame has been announced and
  the console holds the needle, and it names the count of the last console write up to there.  With a
  needle of at least one byte the observer never panics, and before that observation nothing is found.
\<close>

theorem milestone_exact:
  assumes "needle \<noteq> []" "\<forall>c \<in> set cs. registers_ref (devices (cpu_memory c)) \<noteq> None"
  shows "\<exists>m. milestone_all (milestone_new needle name) cs = Ok m \<and> ms_found m = settled needle cs"
  using milestone_invariant [OF assms] by blast

definition cpu_printed :: cpu where
  "cpu_printed = cpu_small\<lparr>cpu_memory := mem_small\<lparr>devices := Registers
     \<lparr> ipms = 1, key_queue = [], console = [65], frame_commits = [\<lparr>frame_no = 0, commit_icount = 0\<rparr>] \<rparr>\<rparr>\<rparr>"

theorem milestone_exact_witness:
  "\<exists>m. milestone_all (milestone_new [65] []) [cpu_printed] = Ok m \<and> ms_found m = Some (cpu_icount cpu_printed)"
proof -
  have r: "registers_ref (devices (cpu_memory cpu_printed)) =
      Some \<lparr> ipms = 1, key_queue = [], console = [65], frame_commits = [\<lparr>frame_no = 0, commit_icount = 0\<rparr>] \<rparr>"
    by (simp add: cpu_printed_def)
  have "settled [65] [cpu_printed] = Some (cpu_icount cpu_printed)"
    by (simp add: settled_def last_write_def has_frame_def console_of_def r)
  then show ?thesis using milestone_exact [of "[65]" "[cpu_printed]" "[]"] r by simp
qed

text \<open>An empty needle panics at the first frame after the console was written.\<close>

lemma empty_needle_panics:
  assumes "registers_ref (devices (cpu_memory c)) = Some r" "console r \<noteq> []" "frame_commits r \<noteq> []"
  shows "milestone_all (milestone_new [] name) [c] = Panic"
  using assms by (auto simp: milestone_observe_def milestone_new_def windows_def Let_def split: list.split)

text \<open>A register number past the file panics at the first call.\<close>

lemma trap_register_panics:
  assumes "length (cpu_regs c) \<le> unat r" "0 < limit" "trap_index specs (cpu_pc c) = Some i"
  shows "observe_all (traps_new specs [r] region limit) [c] = Panic"
  using assms traps_new_ok [of specs "[r]" region limit]
  by (auto simp: traps_observe_def traps_ok_def read_regs_def word_gt_0 unat_eq_zero)

text \<open>A milestone argument reads back whatever its needle holds, as long as its name has no equals sign.\<close>

lemma rsplit_once_last: "c \<notin> set name \<Longrightarrow> rsplit_once c (l @ c # name) = Some (l, name)"
proof (induction l)
  case Nil
  have "rsplit_once c name = None" using Nil by (induction name) auto
  then show ?case by simp
qed simp

lemma milestone_spec_reads:
  "61 \<notin> set name \<Longrightarrow> milestone_spec_from_str (needle @ 61 # name) = Ok \<lparr> msp_needle = needle, msp_name = name \<rparr>"
  by (simp add: milestone_spec_from_str_def rsplit_once_last)

end
