(* ===== verification/Cli_Drive.thy ===== *)
theory Cli_Drive
  imports Observe
begin

text \<open>
  How a command of \<open>refemu/src/cli/mod.rs\<close> drives the machine: the budget and observation arguments,
  the observer that stops where the caller asked, feeds the checkpoints to a sink and drives what
  recording was turned on, and how the run ended.  A panic inside a recorder ends the run, and is kept
  as a flag of the observer.
\<close>

section \<open>Arguments\<close>

record budget_args =
  max_instructions :: u64
  stop_at :: "point list"

definition budget_conditions :: "budget_args \<Rightarrow> point list" where
  "budget_conditions b = (if stop_at b = [] then [P_Budget] else stop_at b)"

datatype watch_region = WatchRam | WatchFramebuffer | WatchPalette

fun watched_region :: "watch_region \<Rightarrow> region" where
  "watched_region WatchRam = Ram"
| "watched_region WatchFramebuffer = Framebuffer"
| "watched_region WatchPalette = Palette"

record observe_args =
  watch_from :: "point option"
  arg_pc_histogram :: "u8 list option"
  arg_histogram_at :: "point list"
  arg_trap_pc :: "trap_spec list"
  arg_trap_pcs :: "u8 list option"
  arg_trap_regs :: "u8 list"
  arg_trap_report :: "u8 list option"
  arg_trap_limit :: u64
  arg_watch_writes :: "watch_region list"
  arg_write_coverage :: "u8 list option"
  arg_require_coverage :: "watch_region list"
  arg_frame_log :: "u8 list option"

section \<open>The driver\<close>

text \<open>Whether a run has reached a position.\<close>

fun reached :: "cpu \<Rightarrow> point \<Rightarrow> bool" where
  "reached c (P_Icount n) \<longleftrightarrow> cpu_icount c = n"
| "reached c (P_Frame n) \<longleftrightarrow>
     (case registers_ref (devices (cpu_memory c)) of None \<Rightarrow> False
      | Some r \<Rightarrow> of_nat (length (frame_commits r)) = n + 1)"
| "reached c P_Start \<longleftrightarrow> True"
| "reached c _ \<longleftrightarrow> False"

record driver =
  dr_stops :: "point list"
  dr_fired :: "point option"
  dr_watch_from :: point
  dr_watching :: bool
  dr_watch_regions :: "region list"
  dr_histogram_at :: "point list"
  dr_taken :: "bool list"
  dr_rec :: recorders
  dr_sink :: "checkpoint list"
  dr_panicked :: bool

definition maybe_start_watching :: "driver \<Rightarrow> cpu \<Rightarrow> driver \<times> cpu" where
  "maybe_start_watching d c =
     (if dr_watching d \<or> dr_watch_regions d = [] \<or> \<not> reached c (dr_watch_from d) then (d, c)
      else (d\<lparr>dr_watching := True\<rparr>, c\<lparr>cpu_memory := watch_writes (cpu_memory c) (dr_watch_regions d)\<rparr>))"

fun snapshot_points :: "cpu \<Rightarrow> point list \<Rightarrow> bool list \<Rightarrow> pc_histogram \<Rightarrow> bool list \<times> pc_histogram" where
  "snapshot_points c (p # ps) (t # ts) h =
     (if \<not> t \<and> reached c p
      then map_prod (Cons True) id (snapshot_points c ps ts (take_snapshot h (point_display p)))
      else map_prod (Cons t) id (snapshot_points c ps ts h))"
| "snapshot_points c _ ts h = (ts, h)"

definition maybe_snapshot :: "driver \<Rightarrow> cpu \<Rightarrow> driver" where
  "maybe_snapshot d c =
     (case rec_histogram (dr_rec d) of None \<Rightarrow> d
      | Some h \<Rightarrow> (case snapshot_points c (dr_histogram_at d) (dr_taken d) h of (ts, h') \<Rightarrow>
          d\<lparr>dr_taken := ts, dr_rec := (dr_rec d)\<lparr>rec_histogram := Some h'\<rparr>\<rparr>))"

definition driver_before :: "driver \<Rightarrow> cpu \<Rightarrow> step_answer \<times> driver \<times> cpu" where
  "driver_before d c =
     (case maybe_start_watching d c of (d1, c1) \<Rightarrow>
        (case rec_before (dr_rec d1) c1 of
           Ok rc \<Rightarrow> (Continue, d1\<lparr>dr_rec := rc\<rparr>, c1)
         | _ \<Rightarrow> (Stop, d1\<lparr>dr_panicked := True\<rparr>, c1)))"

definition driver_after :: "driver \<Rightarrow> cpu \<Rightarrow> u32 \<Rightarrow> instruction \<Rightarrow> step_answer \<times> driver \<times> cpu" where
  "driver_after d c retired_pc insn =
     (let d1 = d\<lparr>dr_rec := rec_after (dr_rec d) retired_pc insn\<rparr> in
      case rec_after_console (dr_rec d1) c of
        Ok rc \<Rightarrow>
          (case maybe_start_watching (d1\<lparr>dr_rec := rc\<rparr>) c of (d2, c2) \<Rightarrow>
             let d3 = maybe_snapshot d2 c2 in
             (case List.find (reached c2) (dr_stops d3) of
                Some p \<Rightarrow> (Stop, d3\<lparr>dr_fired := Some p\<rparr>, c2)
              | None \<Rightarrow> (Continue, d3, c2)))
      | _ \<Rightarrow> (Stop, d1\<lparr>dr_panicked := True\<rparr>, c))"

definition driver_observer :: "driver observer" where
  "driver_observer = \<lparr> before_step = driver_before, after_step = driver_after,
     on_checkpoint = \<lambda>d k. d\<lparr>dr_sink := dr_sink d @ [k]\<rparr> \<rparr>"

section \<open>Driving\<close>

datatype run_outcome = RunStop | RunHalt | RunBudget

record ending =
  end_outcome :: run_outcome
  end_condition :: "point option"
  end_halt :: "halt option"
  end_unreached :: "u8 list list"

definition driver_new :: "budget_args \<Rightarrow> observe_args \<Rightarrow> recorders \<Rightarrow> driver" where
  "driver_new b ob rc = \<lparr> dr_stops = budget_conditions b, dr_fired = None,
     dr_watch_from = (case watch_from ob of None \<Rightarrow> P_Start | Some p \<Rightarrow> p), dr_watching = False,
     dr_watch_regions = map watched_region (arg_watch_writes ob), dr_histogram_at = arg_histogram_at ob,
     dr_taken = replicate (length (arg_histogram_at ob)) False, dr_rec = rc, dr_sink = [], dr_panicked = False \<rparr>"

fun ending_of :: "stop \<Rightarrow> point list \<Rightarrow> point option \<Rightarrow> u8 list list \<Rightarrow> ending" where
  "ending_of (Halted h) conds fired un = \<lparr> end_outcome = RunHalt,
     end_condition = (if P_Halt \<in> set conds then Some P_Halt else None), end_halt = Some h, end_unreached = un \<rparr>"
| "ending_of Budget conds fired un = \<lparr> end_outcome = RunBudget,
     end_condition = (if P_Budget \<in> set conds then Some P_Budget else None), end_halt = None, end_unreached = un \<rparr>"
| "ending_of StopObserver conds fired un = \<lparr> end_outcome = RunStop, end_condition = fired, end_halt = None, end_unreached = un \<rparr>"

definition finish_rec :: "recorders \<Rightarrow> recorders" where
  "finish_rec rc = rc\<lparr>rec_histogram := map_option (\<lambda>h. take_snapshot h (ascii ''end'')) (rec_histogram rc)\<rparr>"

definition drive :: "'h digest \<Rightarrow> cpu \<Rightarrow> trace_config \<Rightarrow> budget_args \<Rightarrow> observe_args \<Rightarrow> recorders \<Rightarrow>
    ((ending \<times> recorders \<times> checkpoint list, unit) rresult \<times> cpu) option" where
  "drive dg c cfg b ob rc =
     map_option (\<lambda>(r, c', d).
       (if dr_panicked d then Panic
        else rbind r (\<lambda>st. Ok (ending_of st (budget_conditions b) (dr_fired d)
            (map (point_display \<circ> fst) (filter (\<lambda>(p, t). \<not> t) (zip (dr_histogram_at d) (dr_taken d)))),
          finish_rec (dr_rec d), dr_sink d)), c'))
     (run_trace dg driver_observer cfg (max_instructions b) c (driver_new b ob rc))"

section \<open>The driver leaves the machine alone\<close>

lemma start_watching_arch: "maybe_start_watching d c = (d', c') \<Longrightarrow> unwatched c' = unwatched c"
  by (auto simp: maybe_start_watching_def unwatched_def watch_writes_def split: if_splits)

lemma watch_writes_inv: "cpu_inv c \<Longrightarrow> cpu_inv (c\<lparr>cpu_memory := watch_writes (cpu_memory c) rs\<rparr>)"
  using watch_writes_wf [of "cpu_memory c" rs]
  by (auto simp: cpu_inv_def regs_ok_def cache_ok_def cache_agrees_def text_word_def watch_writes_def split: option.split)

lemma start_watching_inv: "maybe_start_watching d c = (d', c') \<Longrightarrow> cpu_inv c \<Longrightarrow> cpu_inv c'"
  by (auto simp: maybe_start_watching_def watch_writes_inv split: if_splits)

lemma driver_before_starts: "driver_before d c = (a, d', c') \<Longrightarrow> \<exists>d1. maybe_start_watching d c = (d1, c')"
  by (auto simp: driver_before_def split: prod.splits rresult.splits)

lemma driver_after_starts: "driver_after d c pc i = (a, d', c') \<Longrightarrow> c' = c \<or> (\<exists>d1 d2. maybe_start_watching d1 c = (d2, c'))"
  by (auto simp: driver_after_def Let_def split: prod.splits rresult.splits option.splits)

interpretation driving: observer_laws driver_observer
proof
  fix s c a s' c' assume b: "before_step driver_observer s c = (a, s', c')"
  then obtain d1 where "maybe_start_watching s c = (d1, c')" using driver_before_starts [of s c a s' c'] by (auto simp: driver_observer_def)
  then show "unwatched c' = unwatched c" "cpu_inv c \<Longrightarrow> cpu_inv c'" by (auto dest: start_watching_arch start_watching_inv)
next
  fix s c pc i a s' c' assume b: "after_step driver_observer s c pc i = (a, s', c')"
  then have "c' = c \<or> (\<exists>d1 d2. maybe_start_watching d1 c = (d2, c'))" using driver_after_starts [of s c pc i a s' c'] by (auto simp: driver_observer_def)
  then show "unwatched c' = unwatched c" "cpu_inv c \<Longrightarrow> cpu_inv c'" by (auto dest: start_watching_arch start_watching_inv)
qed

section \<open>What a round does to the driver\<close>

text \<open>Recording that cannot panic: register numbers of the machine, and needles that are not empty.\<close>

definition rec_safe :: "recorders \<Rightarrow> bool" where
  "rec_safe rc \<longleftrightarrow> (\<forall>t. rec_traps rc = Some t \<longrightarrow> (\<forall>r \<in> set (traps_regs t). unat r < 32)) \<and>
     (\<forall>m \<in> set (rec_milestones rc). ms_needle m \<noteq> [])"

definition plain_counts :: "pc_histogram option \<Rightarrow> pc_histogram option" where
  "plain_counts = map_option (\<lambda>h. h\<lparr>hist_snapshots := []\<rparr>)"

lemma traps_observe_regs: "traps_observe t c = Ok t' \<Longrightarrow> traps_regs t' = traps_regs t"
  by (auto simp: traps_observe_def rbind_Ok_iff split: if_splits option.splits)

lemma traps_observe_safe:
  "length (cpu_regs c) = 32 \<Longrightarrow> \<forall>r \<in> set (traps_regs t). unat r < 32 \<Longrightarrow> \<exists>t'. traps_observe t c = Ok t'"
  using read_regs_ok [of "traps_regs t" c] by (auto simp: traps_observe_def split: option.split)

lemma rec_before_safe:
  assumes "rec_safe rc" "length (cpu_regs c) = 32"
  shows "\<exists>rc'. rec_before rc c = Ok rc' \<and> rec_safe rc' \<and> rec_histogram rc' = rec_histogram rc"
proof (cases "rec_traps rc")
  case (Some t)
  then obtain t' where "traps_observe t c = Ok t'" using traps_observe_safe [OF assms(2), of t] assms(1) by (auto simp: rec_safe_def)
  then show ?thesis using Some assms(1) by (auto simp: rec_before_def rec_safe_def dest: traps_observe_regs)
qed (use assms in \<open>simp add: rec_before_def\<close>)

lemma milestone_observe_safe:
  assumes "ms_needle m \<noteq> []"
  shows "\<exists>m'. milestone_observe m c = Ok m' \<and> ms_needle m' \<noteq> []"
proof (cases "registers_ref (devices (cpu_memory c)) = None")
  case False
  from milestone_observe_step [OF assms this] show ?thesis using assms by metis
qed (use assms in \<open>simp add: milestone_observe_def\<close>)

lemma rec_after_console_safe:
  assumes "rec_safe rc"
  shows "\<exists>rc'. rec_after_console rc c = Ok rc' \<and> rec_safe rc' \<and> rec_histogram rc' = rec_histogram rc"
proof -
  have "\<exists>ms. rcollect (map (\<lambda>m. milestone_observe m c) xs) = Ok ms \<and> (\<forall>m \<in> set ms. ms_needle m \<noteq> [])"
    if "\<forall>m \<in> set xs. ms_needle m \<noteq> []" for xs
    using that
  proof (induction xs)
    case (Cons m xs)
    then obtain ms where "rcollect (map (\<lambda>m. milestone_observe m c) xs) = Ok ms" "\<forall>m \<in> set ms. ms_needle m \<noteq> []" by auto
    moreover obtain m' where "milestone_observe m c = Ok m'" "ms_needle m' \<noteq> []"
      using milestone_observe_safe [of m c] Cons.prems by auto
    ultimately show ?case by simp
  qed simp
  from this [of "rec_milestones rc"] assms
  obtain ms where "rcollect (map (\<lambda>m. milestone_observe m c) (rec_milestones rc)) = Ok ms" "\<forall>m \<in> set ms. ms_needle m \<noteq> []"
    by (auto simp: rec_safe_def)
  then show ?thesis using assms by (simp add: rec_after_console_def rec_safe_def)
qed

lemma snapshot_points_plain:
  "(snd (snapshot_points c ps ts h))\<lparr>hist_snapshots := []\<rparr> = h\<lparr>hist_snapshots := []\<rparr>"
  by (induction c ps ts h rule: snapshot_points.induct) (simp_all add: take_snapshot_def)

lemma maybe_snapshot_keeps:
  "dr_stops (maybe_snapshot d c) = dr_stops d" "dr_fired (maybe_snapshot d c) = dr_fired d"
  "dr_sink (maybe_snapshot d c) = dr_sink d" "dr_panicked (maybe_snapshot d c) = dr_panicked d"
  "rec_safe (dr_rec (maybe_snapshot d c)) = rec_safe (dr_rec d)"
  "plain_counts (rec_histogram (dr_rec (maybe_snapshot d c))) = plain_counts (rec_histogram (dr_rec d))"
proof -
  have "dr_stops (maybe_snapshot d c) = dr_stops d \<and> dr_fired (maybe_snapshot d c) = dr_fired d \<and>
    dr_sink (maybe_snapshot d c) = dr_sink d \<and> dr_panicked (maybe_snapshot d c) = dr_panicked d \<and>
    rec_safe (dr_rec (maybe_snapshot d c)) = rec_safe (dr_rec d) \<and>
    plain_counts (rec_histogram (dr_rec (maybe_snapshot d c))) = plain_counts (rec_histogram (dr_rec d))"
  proof (cases "rec_histogram (dr_rec d)")
    case (Some h)
    obtain ts h' where p: "snapshot_points c (dr_histogram_at d) (dr_taken d) h = (ts, h')" by fastforce
    then have "h'\<lparr>hist_snapshots := []\<rparr> = h\<lparr>hist_snapshots := []\<rparr>" using snapshot_points_plain [of c "dr_histogram_at d" "dr_taken d" h] by simp
    then show ?thesis using Some p by (simp add: maybe_snapshot_def rec_safe_def plain_counts_def)
  qed (simp add: maybe_snapshot_def)
  then show "dr_stops (maybe_snapshot d c) = dr_stops d" "dr_fired (maybe_snapshot d c) = dr_fired d"
    "dr_sink (maybe_snapshot d c) = dr_sink d" "dr_panicked (maybe_snapshot d c) = dr_panicked d"
    "rec_safe (dr_rec (maybe_snapshot d c)) = rec_safe (dr_rec d)"
    "plain_counts (rec_histogram (dr_rec (maybe_snapshot d c))) = plain_counts (rec_histogram (dr_rec d))" by blast+
qed

lemma start_watching_keeps:
  assumes "maybe_start_watching d c = (d', c')"
  shows "dr_stops d' = dr_stops d" "dr_fired d' = dr_fired d" "dr_sink d' = dr_sink d"
    "dr_panicked d' = dr_panicked d" "dr_rec d' = dr_rec d"
  using assms by (auto simp: maybe_start_watching_def split: if_splits)

lemma reached_unwatched: "reached (unwatched c) p = reached c p"
  by (cases p) simp_all

lemma reached_same: "unwatched c' = unwatched c \<Longrightarrow> reached c' = reached c"
  using reached_unwatched [of c] reached_unwatched [of c'] by (auto simp: fun_eq_iff)

lemma driver_before_safe:
  assumes "rec_safe (dr_rec d)" "length (cpu_regs c) = 32"
  shows "\<exists>d' c'. driver_before d c = (Continue, d', c') \<and> dr_stops d' = dr_stops d \<and> dr_fired d' = dr_fired d \<and>
    dr_sink d' = dr_sink d \<and> dr_panicked d' = dr_panicked d \<and> rec_safe (dr_rec d') \<and>
    rec_histogram (dr_rec d') = rec_histogram (dr_rec d)"
proof -
  obtain d1 c1 where w: "maybe_start_watching d c = (d1, c1)" by fastforce
  note k = start_watching_keeps [OF w]
  have "cpu_regs c1 = cpu_regs c" using start_watching_arch [OF w] by (metis unwatched_sel(3))
  then obtain rc where "rec_before (dr_rec d1) c1 = Ok rc" "rec_safe rc" "rec_histogram rc = rec_histogram (dr_rec d)"
    using rec_before_safe [of "dr_rec d1" c1] assms k by auto
  then show ?thesis using w k by (simp add: driver_before_def)
qed

lemma driver_after_safe:
  assumes "rec_safe (dr_rec d)"
  shows "\<exists>d' c'. driver_after d c pc i = (if \<exists>p \<in> set (dr_stops d). reached c p then Stop else Continue, d', c') \<and>
    dr_stops d' = dr_stops d \<and> dr_sink d' = dr_sink d \<and> dr_panicked d' = dr_panicked d \<and> rec_safe (dr_rec d') \<and>
    dr_fired d' = (case List.find (reached c) (dr_stops d) of None \<Rightarrow> dr_fired d | Some p \<Rightarrow> Some p) \<and>
    plain_counts (rec_histogram (dr_rec d')) =
      plain_counts (map_option (\<lambda>h. histogram_record h pc) (rec_histogram (dr_rec d)))"
proof -
  let ?d1 = "d\<lparr>dr_rec := rec_after (dr_rec d) pc i\<rparr>"
  have s1: "rec_safe (dr_rec ?d1)" using assms by (simp add: rec_safe_def rec_after_def)
  then obtain rc where rc: "rec_after_console (dr_rec ?d1) c = Ok rc" "rec_safe rc" "rec_histogram rc = rec_histogram (dr_rec ?d1)"
    using rec_after_console_safe by blast
  obtain d2 c2 where w: "maybe_start_watching (?d1\<lparr>dr_rec := rc\<rparr>) c = (d2, c2)" by fastforce
  note k = start_watching_keeps [OF w]
  have r: "reached c2 = reached c" by (rule reached_same [OF start_watching_arch [OF w]])
  have e: "(\<exists>p \<in> set (dr_stops d). reached c p) \<longleftrightarrow> List.find (reached c) (dr_stops d) \<noteq> None"
    by (auto simp: find_None_iff)
  show ?thesis unfolding driver_after_def Let_def rc(1) rresult.case w prod.case e using k rc(2,3) r
    by (auto simp: maybe_snapshot_keeps rec_after_def split: option.split)
qed

section \<open>Where a command stops, and what it recorded\<close>

text \<open>The machines after each instruction, up to the first at which one of the stops is reached.\<close>

fun up_to_stop :: "point list \<Rightarrow> cpu list \<Rightarrow> cpu list" where
  "up_to_stop stops [] = []"
| "up_to_stop stops (d # ds) = (if \<exists>p \<in> set stops. reached d p then [d] else d # up_to_stop stops ds)"

definition at_stop :: "point list \<Rightarrow> cpu list \<Rightarrow> bool" where
  "at_stop stops ds \<longleftrightarrow> ds \<noteq> [] \<and> (\<exists>p \<in> set stops. reached (last ds) p)"

lemma checkpoint_unwatched: "checkpoint_of dg (unwatched c) b = checkpoint_of dg c b"
  by (simp add: checkpoint_of_def reg_hash_of_def ram_hash_of_def fb_hash_of_def)

lemma trace_lines_Cons: "trace_lines dg cfg (c # ds) = trace_lines dg cfg [c] @ trace_lines dg cfg ds"
  by (simp add: trace_lines_def)

lemma notify_sink:
  "notify dg driver_observer cfg d c = d\<lparr>dr_sink := dr_sink d @ trace_lines dg cfg [unwatched c]\<rparr>"
  by (simp add: notify_def driver_observer_def trace_lines_def checkpoint_unwatched)

lemma plain_counts_record:
  "plain_counts x = plain_counts y \<Longrightarrow>
    plain_counts (map_option (\<lambda>h. histogram_record h pc) x) = plain_counts (map_option (\<lambda>h. histogram_record h pc) y)"
proof -
  have "(histogram_record h pc)\<lparr>hist_snapshots := []\<rparr> = histogram_record (h\<lparr>hist_snapshots := []\<rparr>) pc" for h
    by (simp add: histogram_record_def Let_def)
  then have "plain_counts (map_option (\<lambda>h. histogram_record h pc) z) = map_option (\<lambda>h. histogram_record h pc) (plain_counts z)" for z
    by (cases z) (simp_all add: plain_counts_def)
  then show "plain_counts x = plain_counts y \<Longrightarrow> ?thesis" by simp
qed

lemma plain_counts_records:
  "plain_counts x = plain_counts y \<Longrightarrow>
    plain_counts (map_option (\<lambda>h. foldl histogram_record h pcs) x) = plain_counts (map_option (\<lambda>h. foldl histogram_record h pcs) y)"
proof (induction pcs arbitrary: x y)
  case (Cons pc pcs)
  from Cons.IH [OF plain_counts_record [OF Cons.prems, of pc]] show ?case
    by (simp add: option.map_comp o_def)
qed (simp add: option.map_ident)

definition driven :: "'h digest \<Rightarrow> trace_config \<Rightarrow> u64 \<Rightarrow> cpu \<Rightarrow> driver \<Rightarrow> stop \<Rightarrow> cpu \<Rightarrow> driver \<Rightarrow> bool" where
  "driven dg cfg budget c d st c' d' \<longleftrightarrow>
     (let n = unat budget - unat (cpu_icount c);
          ds = up_to_stop (dr_stops d) (follow n (unwatched c));
          l = last (unwatched c # ds) in
      dr_sink d' = dr_sink d @ trace_lines dg cfg ds \<and> \<not> dr_panicked d' \<and>
      plain_counts (rec_histogram (dr_rec d')) =
        plain_counts (map_option (\<lambda>h. foldl histogram_record h (map cpu_pc (butlast (unwatched c # ds)))) (rec_histogram (dr_rec d))) \<and>
      (if at_stop (dr_stops d) ds
       then st = StopObserver \<and> unwatched c' = l \<and> dr_fired d' = List.find (reached l) (dr_stops d)
       else dr_fired d' = None \<and>
         (length ds = n \<and> st = Budget \<and> unwatched c' = l \<or>
          length ds < n \<and> (\<exists>h. st = Halted h \<and> step_reporting l = (Err h, unwatched c')))))"

lemma driven_step:
  assumes n: "Suc k = unat budget - unat (cpu_icount c)" and k: "k = unat budget - unat (cpu_icount c3)"
    and st: "step_reporting (unwatched c) = (Ok p, unwatched c3)" and no: "\<not> (\<exists>p \<in> set (dr_stops d). reached c3 p)"
    and d3: "dr_stops d3 = dr_stops d" "dr_sink d3 = dr_sink d @ trace_lines dg cfg [unwatched c3]"
      "plain_counts (rec_histogram (dr_rec d3)) =
         plain_counts (map_option (\<lambda>h. histogram_record h (cpu_pc c)) (rec_histogram (dr_rec d)))"
    and t: "driven dg cfg budget c3 d3 st' c' d'"
  shows "driven dg cfg budget c d st' c' d'"
proof -
  let ?U = "up_to_stop (dr_stops d) (follow k (unwatched c3))"
  have fw: "follow (Suc k) (unwatched c) = unwatched c3 # follow k (unwatched c3)" using st by simp
  have up: "up_to_stop (dr_stops d) (unwatched c3 # follow k (unwatched c3)) = unwatched c3 # ?U"
    using no by (simp add: reached_unwatched)
  have tl: "trace_lines dg cfg (unwatched c3 # ?U) = trace_lines dg cfg [unwatched c3] @ trace_lines dg cfg ?U"
    by (rule trace_lines_Cons)
  have as: "at_stop (dr_stops d) (unwatched c3 # ?U) = at_stop (dr_stops d) ?U"
    using no by (auto simp: at_stop_def reached_unwatched)
  have pl: "plain_counts (map_option (\<lambda>h. foldl histogram_record h (map cpu_pc (butlast (unwatched c # unwatched c3 # ?U)))) (rec_histogram (dr_rec d))) =
      plain_counts (map_option (\<lambda>h. foldl histogram_record h (map cpu_pc (butlast (unwatched c3 # ?U)))) (rec_histogram (dr_rec d3)))"
    using plain_counts_records [OF d3(3)] by (simp add: option.map_comp o_def)
  show ?thesis
    using t unfolding driven_def Let_def n [symmetric] k [symmetric] fw d3(1) up tl as pl d3(2) by auto
qed

lemma run_driver:
  assumes "cpu_inv c" "rec_safe (dr_rec d)" "\<not> dr_panicked d" "dr_fired d = None"
  shows "\<exists>st c' d'. run_trace dg driver_observer cfg budget c d = Some (Ok st, c', d') \<and> driven dg cfg budget c d st c' d'"
  using assms
proof (induction "unat budget - unat (cpu_icount c)" arbitrary: c d)
  case 0
  then have "\<not> cpu_icount c < budget" by (simp add: word_less_nat_alt)
  then have "run_trace dg driver_observer cfg budget c d = Some (Ok Budget, c, d)" by (subst run_trace.simps) simp
  moreover have "driven dg cfg budget c d Budget c d"
    using 0 by (simp add: driven_def Let_def 0(1) [symmetric] trace_lines_def at_stop_def option.map_ident)
  ultimately show ?case by blast
next
  case (Suc k)
  have lt: "cpu_icount c < budget" using Suc(2) by (simp add: word_less_nat_alt)
  have rl: "length (cpu_regs c) = 32" using Suc.prems(1) by (simp add: cpu_inv_def regs_ok_def)
  obtain d1 c1 where b: "before_step driver_observer d c = (Continue, d1, c1)" and d1: "dr_stops d1 = dr_stops d"
      "dr_fired d1 = None" "dr_sink d1 = dr_sink d" "\<not> dr_panicked d1" "rec_safe (dr_rec d1)"
      "rec_histogram (dr_rec d1) = rec_histogram (dr_rec d)"
    using driver_before_safe [OF Suc.prems(2) rl] Suc.prems(3,4) by (auto simp: driver_observer_def)
  have u1: "unwatched c1 = unwatched c" by (rule driving.before_arch [OF b])
  have i1: "cpu_inv c1" by (rule driving.before_inv [OF b Suc.prems(1)])
  obtain r c2 where st: "step_reporting c1 = (r, c2)" by fastforce
  have us: "step_reporting (unwatched c) = (r, unwatched c2)" using step_unwatched [of c1] st u1 by simp
  show ?case
  proof (cases r)
    case (Err h)
    have "run_trace dg driver_observer cfg budget c d = Some (Ok (Halted h), c2, d1)"
      using lt b st Err by (subst run_trace.simps) simp
    moreover have "driven dg cfg budget c d (Halted h) c2 d1"
      using us Err d1 by (simp add: driven_def Let_def Suc(2) [symmetric] trace_lines_def at_stop_def option.map_ident)
    ultimately show ?thesis by blast
  next
    case Panic
    then show ?thesis using step_reporting_facts(1) [OF i1 st] by simp
  next
    case (Ok p)
    let ?d2 = "notify dg driver_observer cfg d1 c2"
    have d2: "dr_stops ?d2 = dr_stops d" "dr_fired ?d2 = None" "\<not> dr_panicked ?d2" "rec_safe (dr_rec ?d2)"
        "dr_rec ?d2 = dr_rec d1" "dr_sink ?d2 = dr_sink d @ trace_lines dg cfg [unwatched c2]"
      using d1 by (simp_all add: notify_sink)
    have pc: "cpu_pc c1 = cpu_pc c" using u1 by (metis unwatched_sel(2))
    obtain d3 c3 where af: "after_step driver_observer ?d2 c2 (cpu_pc c1) (snd p) =
          (if \<exists>p \<in> set (dr_stops d). reached c2 p then Stop else Continue, d3, c3)"
        and d3: "dr_stops d3 = dr_stops d" "dr_sink d3 = dr_sink ?d2" "\<not> dr_panicked d3" "rec_safe (dr_rec d3)"
          "dr_fired d3 = List.find (reached c2) (dr_stops d)"
          "plain_counts (rec_histogram (dr_rec d3)) =
             plain_counts (map_option (\<lambda>h. histogram_record h (cpu_pc c)) (rec_histogram (dr_rec d)))"
      using driver_after_safe [OF d2(4), of c2 "cpu_pc c1" "snd p"] d2 d1(6) pc
      by (auto simp: driver_observer_def split: option.splits)
    note rd = driving.round [OF Suc.prems(1) lt b _ st [unfolded Ok] af, simplified]
    have u3: "unwatched c3 = unwatched c2" by (rule driving.after_arch [OF af])
    have rr: "reached (unwatched c3) = reached c2" "reached (unwatched c2) = reached c2"
      using u3 reached_unwatched [of c2] by (simp_all add: fun_eq_iff)
    have fw: "follow (Suc k) (unwatched c) = unwatched c3 # follow k (unwatched c3)" using us Ok u3 by simp
    have e: "run_trace dg driver_observer cfg budget c d =
        (if \<exists>p \<in> set (dr_stops d). reached c2 p then Some (Ok StopObserver, c3, d3) else run_trace dg driver_observer cfg budget c3 d3)"
      using lt b st Ok af by (subst run_trace.simps) simp
    show ?thesis
    proof (cases "\<exists>p \<in> set (dr_stops d). reached c2 p")
      case True
      then have "driven dg cfg budget c d StopObserver c3 d3"
        unfolding driven_def Let_def Suc(2) [symmetric] fw using d3 d2 rr u3
        by (simp add: at_stop_def)
      then show ?thesis using e True by auto
    next
      case False
      have fn: "dr_fired d3 = None" using d3(5) False by (simp add: find_None_iff)
      have kk: "k = unat budget - unat (cpu_icount c3)" using rd(4) Suc(2) by simp
      obtain st' c' d' where t: "run_trace dg driver_observer cfg budget c3 d3 = Some (Ok st', c', d')"
          "driven dg cfg budget c3 d3 st' c' d'"
        using Suc(1) [OF kk rd(1) d3(4,3) fn] by blast
      have "driven dg cfg budget c d st' c' d'"
        using False rr(1) reached_same [OF u3] d3(1,2,6) d2(6) u3 us Ok
        by (intro driven_step [OF Suc(2) kk _ _ _ _ _ t(2)]) simp_all
      then show ?thesis using e False t(1) by auto
    qed
  qed
qed

lemma drive_run:
  assumes "cpu_inv c" "rec_safe rc"
  shows "\<exists>st c' d' un. driven dg cfg (max_instructions b) c (driver_new b ob rc) st c' d' \<and>
    drive dg c cfg b ob rc = Some (Ok (ending_of st (budget_conditions b) (dr_fired d') un, finish_rec (dr_rec d'), dr_sink d'), c')"
proof -
  let ?d = "driver_new b ob rc"
  have "rec_safe (dr_rec ?d)" "\<not> dr_panicked ?d" "dr_fired ?d = None" using assms(2) by (simp_all add: driver_new_def)
  from run_driver [OF assms(1) this, of dg cfg "max_instructions b"] obtain st c' d' where
    r: "run_trace dg driver_observer cfg (max_instructions b) c ?d = Some (Ok st, c', d')"
      "driven dg cfg (max_instructions b) c ?d st c' d'" by blast
  then have "\<not> dr_panicked d'" by (simp add: driven_def Let_def)
  then show ?thesis using r by (auto simp: drive_def)
qed

lemma driver_new_sel [simp]: "dr_rec (driver_new b ob rc) = rc" "dr_stops (driver_new b ob rc) = budget_conditions b"
  "dr_sink (driver_new b ob rc) = []"
  by (simp_all add: driver_new_def)

lemma length_up_to_stop: "length (up_to_stop stops ds) \<le> length ds"
  by (induction ds) auto

lemma length_follow: "length (follow n c) \<le> n"
  by (induction n arbitrary: c) (auto split: prod.split rresult.split)

text \<open>
  C20: A command stops at the earliest of its stops, and what it wrote covers the run up to there.  For a
  sound machine and recording that cannot panic the run returns; the machines it went through are the
  machine's own, whatever is being recorded; it ends at the first instruction after which one of the
  stops holds, named by the first stop in the caller's order, else at the halt of the machine, else with
  the budget used up, and an unasked-for ending names no condition; and the checkpoints handed to the
  sink are those of the cadence counts up to the end, each once and in order.
\<close>

theorem drive_exact:
  assumes "cpu_inv c" "rec_safe rc"
  shows "\<exists>e rc' c'. drive dg c cfg b ob rc = Some (Ok (e, rc',
        trace_lines dg cfg (up_to_stop (budget_conditions b) (follow (unat (max_instructions b) - unat (cpu_icount c)) (unwatched c)))), c') \<and>
    (let n = unat (max_instructions b) - unat (cpu_icount c); conds = budget_conditions b;
         ds = up_to_stop conds (follow n (unwatched c)); l = last (unwatched c # ds) in
     if at_stop conds ds then end_outcome e = RunStop \<and> end_condition e = List.find (reached l) conds \<and> unwatched c' = l
     else if length ds = n
     then end_outcome e = RunBudget \<and> end_condition e = (if P_Budget \<in> set conds then Some P_Budget else None) \<and> unwatched c' = l
     else end_outcome e = RunHalt \<and> end_condition e = (if P_Halt \<in> set conds then Some P_Halt else None) \<and>
       (\<exists>h. end_halt e = Some h \<and> step_reporting l = (Err h, unwatched c')))"
proof -
  obtain st c' d' un where r: "driven dg cfg (max_instructions b) c (driver_new b ob rc) st c' d'"
      "drive dg c cfg b ob rc = Some (Ok (ending_of st (budget_conditions b) (dr_fired d') un, finish_rec (dr_rec d'), dr_sink d'), c')"
    using drive_run [OF assms, of dg cfg b ob] by blast
  show ?thesis using r unfolding driven_def Let_def driver_new_sel by (cases st) (auto split: if_splits)
qed

definition observe_none :: observe_args where
  "observe_none = \<lparr> watch_from = None, arg_pc_histogram = None, arg_histogram_at = [], arg_trap_pc = [], arg_trap_pcs = None,
     arg_trap_regs = [], arg_trap_report = None, arg_trap_limit = 0, arg_watch_writes = [], arg_write_coverage = None,
     arg_require_coverage = [], arg_frame_log = None \<rparr>"

theorem drive_exact_witness:
  "\<exists>e rc' c'. drive digest_small cpu_small trace_config_default \<lparr> max_instructions = 5, stop_at = [P_Halt] \<rparr> observe_none
      \<lparr> rec_histogram = None, rec_traps = None, rec_milestones = [], rec_watch_writes = [], rec_watching = False \<rparr> =
    Some (Ok (e, rc', []), c') \<and> end_condition e = Some P_Halt"
proof -
  have i: "cpu_icount cpu_small = 0" by (simp add: cpu_small_def cpu_new_def)
  have f: "follow n (unwatched cpu_small) = []" for n using step_small step_unwatched [of cpu_small] by (cases n) simp_all
  show ?thesis
    using drive_exact [OF cpu_small_inv, of "\<lparr> rec_histogram = None, rec_traps = None, rec_milestones = [], rec_watch_writes = [], rec_watching = False \<rparr>"
        digest_small trace_config_default "\<lparr> max_instructions = 5, stop_at = [P_Halt] \<rparr>" observe_none]
    by (fastforce simp: rec_safe_def f i at_stop_def trace_lines_def Let_def budget_conditions_def)
qed

text \<open>
  A profile is the run's own.  The histogram a command writes ends with a snapshot labelled \<open>end\<close>
  whose rows are the program counters the run retired, ascending, each with how often, taken over
  exactly the instructions up to where the run stopped.
\<close>

theorem profile_exact:
  assumes "cpu_inv c" "rec_safe rc" "rec_histogram rc = Some (histogram_new region)"
  shows "\<exists>e rc' lines c' h. drive dg c cfg b ob rc = Some (Ok (e, rc', lines), c') \<and> rec_histogram rc' = Some h \<and>
    (let ds = up_to_stop (budget_conditions b) (follow (unat (max_instructions b) - unat (cpu_icount c)) (unwatched c));
         pcs = map cpu_pc (butlast (unwatched c # ds)) in
     last (hist_snapshots h) = \<lparr> snap_label = ascii ''end'',
       snap_rows = map (\<lambda>pc. (pc, of_nat (count_list pcs pc))) (sorted_list_of_set (set pcs)),
       snap_retired = of_nat (length ds) \<rparr>)"
proof -
  let ?ds = "up_to_stop (budget_conditions b) (follow (unat (max_instructions b) - unat (cpu_icount c)) (unwatched c))"
  let ?pcs = "map cpu_pc (butlast (unwatched c # ?ds))"
  obtain st c' d' un where r: "driven dg cfg (max_instructions b) c (driver_new b ob rc) st c' d'"
      "drive dg c cfg b ob rc = Some (Ok (ending_of st (budget_conditions b) (dr_fired d') un, finish_rec (dr_rec d'), dr_sink d'), c')"
    using drive_run [OF assms(1,2), of dg cfg b ob] by blast
  have "plain_counts (rec_histogram (dr_rec d')) = plain_counts (Some (foldl histogram_record (histogram_new region) ?pcs))"
    using r(1) unfolding driven_def Let_def driver_new_sel by (simp add: assms(3))
  then obtain h where h: "rec_histogram (dr_rec d') = Some h"
      "h\<lparr>hist_snapshots := []\<rparr> = (foldl histogram_record (histogram_new region) ?pcs)\<lparr>hist_snapshots := []\<rparr>"
    by (auto simp: plain_counts_def)
  have rows: "histogram_rows (g\<lparr>hist_snapshots := []\<rparr>) = histogram_rows g" "hist_retired (g\<lparr>hist_snapshots := []\<rparr>) = hist_retired g" for g
    by (simp_all add: histogram_rows_def dense_rows_def)
  have "length ?ds \<le> unat (max_instructions b)"
    using length_up_to_stop [of "budget_conditions b"] length_follow by (meson diff_le_self le_trans)
  then have "length ?pcs < 2 ^ 64" using unsigned_less [of "max_instructions b", where ?'a = nat] by simp
  note hx = histogram_counts [OF this, of region]
  have same: "histogram_rows h = histogram_rows (foldl histogram_record (histogram_new region) ?pcs)"
      "hist_retired h = hist_retired (foldl histogram_record (histogram_new region) ?pcs)"
    using rows h(2) by metis+
  have "histogram_rows h = map (\<lambda>pc. (pc, of_nat (count_list ?pcs pc))) (sorted_list_of_set (set ?pcs))"
      "hist_retired h = of_nat (length ?ds)"
    unfolding same using hx by (blast, simp)
  then have "last (hist_snapshots (take_snapshot h (ascii ''end''))) = \<lparr> snap_label = ascii ''end'',
       snap_rows = map (\<lambda>pc. (pc, of_nat (count_list ?pcs pc))) (sorted_list_of_set (set ?pcs)), snap_retired = of_nat (length ?ds) \<rparr>"
    by (simp add: take_snapshot_def)
  moreover have "rec_histogram (finish_rec (dr_rec d')) = Some (take_snapshot h (ascii ''end''))" by (simp add: finish_rec_def h(1))
  ultimately show ?thesis using r(2) unfolding Let_def by blast
qed

theorem profile_exact_witness:
  "\<exists>e rc' lines c' h. drive digest_small cpu_small trace_config_default \<lparr> max_instructions = 5, stop_at = [P_Halt] \<rparr> observe_none
      \<lparr> rec_histogram = Some (histogram_new None), rec_traps = None, rec_milestones = [], rec_watch_writes = [], rec_watching = False \<rparr> =
    Some (Ok (e, rc', lines), c') \<and> rec_histogram rc' = Some h \<and> snap_rows (last (hist_snapshots h)) = []"
proof -
  have f: "follow n (unwatched cpu_small) = []" for n using step_small step_unwatched [of cpu_small] by (cases n) simp_all
  show ?thesis
    using profile_exact [OF cpu_small_inv, of "\<lparr> rec_histogram = Some (histogram_new None), rec_traps = None, rec_milestones = [], rec_watch_writes = [], rec_watching = False \<rparr>"
        None digest_small trace_config_default "\<lparr> max_instructions = 5, stop_at = [P_Halt] \<rparr>" observe_none]
    by (fastforce simp: rec_safe_def f Let_def)
qed

end
