(* ===== verification/Sql_Step.thy ===== *)
theory Sql_Step
  imports Checkpoint Exec
begin

text \<open>
  The machine inside the database.  \<open>executor/src/fold.rs\<close> writes one SQL statement per batch: an
  \<open>arrayFold\<close> whose lambda is one step of the machine over an accumulator tuple, reading the program from
  the table \<open>sqlcpu/decode.sql\<close> fills.  The SQL expressions are translated as the functions they are: every
  binding of \<open>build_step_inner\<close> is a definition, with the word addresses of \<open>executor/src/word.rs\<close> and the
  codes of \<open>executor/src/config.rs\<close>.  The server's arithmetic widens and the text narrows it again with
  \<open>toUInt32\<close>, which is arithmetic on 32-bit words.
\<close>

section \<open>Word addresses\<close>

datatype word_addr = WordAddr (word_addr_get: u32)
datatype widx = Widx (widx_get: u32)

record below_base =
  bb_addr :: u32
  bb_base :: u32

definition word_addr_of_byte :: "u32 \<Rightarrow> word_addr" where
  "word_addr_of_byte b = WordAddr (drop_bit 2 b)"

definition word_addr_ram_base :: word_addr where
  "word_addr_ram_base = WordAddr (drop_bit 2 RAM_BASE)"

definition widx_from :: "word_addr \<Rightarrow> word_addr \<Rightarrow> (widx, below_base) rresult" where
  "widx_from a base = (if word_addr_get a < word_addr_get base
     then Err \<lparr> bb_addr = word_addr_get a, bb_base = word_addr_get base \<rparr>
     else Ok (Widx (word_addr_get a - word_addr_get base)))"

definition widx_word_addr :: "widx \<Rightarrow> word_addr \<Rightarrow> word_addr" where
  "widx_word_addr i base = WordAddr (word_addr_get base + widx_get i)"

section \<open>Codes\<close>

definition HALT_NONE :: u8 where "HALT_NONE = 0"
definition HALT_ILLEGAL_INSN :: u8 where "HALT_ILLEGAL_INSN = 1"
definition HALT_SELF_MODIFY :: u8 where "HALT_SELF_MODIFY = 2"
definition HALT_BAD_ADDR :: u8 where "HALT_BAD_ADDR = 3"
definition HALT_MISALIGNED :: u8 where "HALT_MISALIGNED = 4"
definition HALT_ECALL :: u8 where "HALT_ECALL = 5"
definition HALT_EBREAK :: u8 where "HALT_EBREAK = 6"
definition HALT_CSR :: u8 where "HALT_CSR = 7"
definition HALT_EXIT :: u8 where "HALT_EXIT = 8"

lemmas halt_codes = HALT_NONE_def HALT_ILLEGAL_INSN_def HALT_SELF_MODIFY_def HALT_BAD_ADDR_def
  HALT_MISALIGNED_def HALT_ECALL_def HALT_EBREAK_def HALT_CSR_def HALT_EXIT_def

definition HALT_REASON_NAMES :: "(u8 \<times> string) list" where
  "HALT_REASON_NAMES = [(HALT_ILLEGAL_INSN, ''ILLEGAL_INSN''), (HALT_SELF_MODIFY, ''SELF_MODIFY''),
     (HALT_BAD_ADDR, ''BAD_ADDR''), (HALT_MISALIGNED, ''MISALIGNED''), (HALT_ECALL, ''ECALL''),
     (HALT_EBREAK, ''EBREAK''), (HALT_CSR, ''CSR''), (HALT_EXIT, ''EXIT'')]"

definition ID_LOAD :: u8 where "ID_LOAD = 18"
definition ID_STORE :: u8 where "ID_STORE = 19"
definition ID_ECALL :: u8 where "ID_ECALL = 28"
definition ID_EBREAK :: u8 where "ID_EBREAK = 29"
definition ID_CSR :: u8 where "ID_CSR = 30"
definition ID_ILLEGAL :: u8 where "ID_ILLEGAL = 31"

lemmas op_ids = ID_LOAD_def ID_STORE_def ID_ECALL_def ID_EBREAK_def ID_CSR_def ID_ILLEGAL_def

section \<open>The decoded table\<close>

text \<open>A row of \<open>decoded\<close>, and the nine of its columns that the fold captures.\<close>

record decoded_row =
  dc_spec_version :: string
  dc_word_addr :: u32
  dc_id :: u8
  dc_rd :: u8
  dc_rs1 :: u8
  dc_rs2 :: u8
  dc_imm :: u32
  dc_tgt :: u32
  dc_mk :: u32
  dc_sg :: u8
  dc_m_sg1 :: u8
  dc_m_sg2 :: u8
  dc_m_hi :: u8
  dc_d_sg :: u8
  dc_cmp_sel :: u8
  dc_neg :: u8
  dc_tgt_mis :: u8
  dc_raw :: u32

record dec_row =
  d_id :: u8
  d_rd :: u8
  d_rs1 :: u8
  d_rs2 :: u8
  d_imm :: u32
  d_tgt :: u32
  d_mk :: u32
  d_sg :: u8
  d_raw :: u32

definition sql_iimm :: "u32 \<Rightarrow> u32" where
  "sql_iimm w = drop_bit 20 w - (if w AND 2147483648 \<noteq> 0 then 4096 else 0)"

definition sql_simm :: "u32 \<Rightarrow> u32" where
  "sql_simm w = ((drop_bit 25 (w AND 4294967295) * 32) OR (drop_bit 7 w AND 31)) -
     (if w AND 2147483648 \<noteq> 0 then 4096 else 0)"

definition sql_bimm :: "u32 \<Rightarrow> u32" where
  "sql_bimm w = ((drop_bit 7 w AND 30) + (drop_bit 20 w AND 2016) + push_bit 11 (drop_bit 7 w AND 1)) -
     (if w AND 2147483648 \<noteq> 0 then 4096 else 0)"

definition sql_jimm :: "u32 \<Rightarrow> u32" where
  "sql_jimm w = ((drop_bit 20 w AND 2046) + push_bit 11 (drop_bit 20 w AND 1) + (w AND 1044480)) -
     (if w AND 2147483648 \<noteq> 0 then 1048576 else 0)"

definition sql_id :: "u32 \<Rightarrow> u8" where
  "sql_id w = (let op = w AND 127; f3 = drop_bit 12 w AND 7; f7 = drop_bit 25 w; sysimm = drop_bit 20 w AND 4095 in
     if op = 55 then 0 else if op = 23 then 0 else if op = 111 then 26
     else if op = 103 \<and> f3 = 0 then 27 else if op = 103 then 31
     else if op = 99 \<and> f3 = 0 then 20 else if op = 99 \<and> f3 = 1 then 21
     else if op = 99 \<and> f3 = 4 then 22 else if op = 99 \<and> f3 = 5 then 23
     else if op = 99 \<and> f3 = 6 then 24 else if op = 99 \<and> f3 = 7 then 25 else if op = 99 then 31
     else if op = 3 \<and> f3 \<in> {0, 1, 2, 4, 5} then 18 else if op = 3 then 31
     else if op = 35 \<and> f3 \<in> {0, 1, 2} then 19 else if op = 35 then 31
     else if op = 15 then 0
     else if op = 19 \<and> f3 = 0 then 0 else if op = 19 \<and> f3 = 1 \<and> f7 = 0 then 2
     else if op = 19 \<and> f3 = 2 then 3 else if op = 19 \<and> f3 = 3 then 4 else if op = 19 \<and> f3 = 4 then 5
     else if op = 19 \<and> f3 = 5 \<and> f7 = 0 then 6 else if op = 19 \<and> f3 = 5 \<and> f7 = 32 then 7
     else if op = 19 \<and> f3 = 6 then 8 else if op = 19 \<and> f3 = 7 then 9 else if op = 19 then 31
     else if op = 51 \<and> f7 = 1 \<and> f3 = 0 then 10 else if op = 51 \<and> f7 = 1 \<and> f3 = 1 then 11
     else if op = 51 \<and> f7 = 1 \<and> f3 = 2 then 12 else if op = 51 \<and> f7 = 1 \<and> f3 = 3 then 13
     else if op = 51 \<and> f7 = 1 \<and> f3 = 4 then 14 else if op = 51 \<and> f7 = 1 \<and> f3 = 5 then 15
     else if op = 51 \<and> f7 = 1 \<and> f3 = 6 then 16 else if op = 51 \<and> f7 = 1 \<and> f3 = 7 then 17
     else if op = 51 \<and> f7 = 0 \<and> f3 = 0 then 0 else if op = 51 \<and> f7 = 32 \<and> f3 = 0 then 1
     else if op = 51 \<and> f7 = 0 \<and> f3 = 1 then 2 else if op = 51 \<and> f7 = 0 \<and> f3 = 2 then 3
     else if op = 51 \<and> f7 = 0 \<and> f3 = 3 then 4 else if op = 51 \<and> f7 = 0 \<and> f3 = 4 then 5
     else if op = 51 \<and> f7 = 0 \<and> f3 = 5 then 6 else if op = 51 \<and> f7 = 32 \<and> f3 = 5 then 7
     else if op = 51 \<and> f7 = 0 \<and> f3 = 6 then 8 else if op = 51 \<and> f7 = 0 \<and> f3 = 7 then 9
     else if op = 51 then 31
     else if op = 115 \<and> f3 = 0 \<and> sysimm = 0 then 28 else if op = 115 \<and> f3 = 0 \<and> sysimm = 1 then 29
     else if op = 115 \<and> f3 \<in> {1, 2, 3, 5, 6, 7} then 30 else 31)"

definition sql_imm :: "u32 \<Rightarrow> u32 \<Rightarrow> u32" where
  "sql_imm pc w = (let op = w AND 127; f3 = drop_bit 12 w AND 7 in
     if op = 55 then w AND 4294963200 else if op = 23 then pc + (w AND 4294963200)
     else if op = 19 \<and> f3 \<in> {1, 5} then drop_bit 20 w AND 31
     else if op = 19 then sql_iimm w else if op = 3 then sql_iimm w
     else if op = 35 then sql_simm w else if op = 103 then sql_iimm w else 0)"

definition sql_tgt :: "u32 \<Rightarrow> u32 \<Rightarrow> u32" where
  "sql_tgt pc w = (let op = w AND 127 in
     if op = 111 then pc + sql_jimm w else if op = 99 then pc + sql_bimm w else 0)"

definition sql_mk :: "u32 \<Rightarrow> u32" where
  "sql_mk w = (let op = w AND 127; f3 = drop_bit 12 w AND 7 in
     if op = 3 \<and> f3 \<in> {0, 4} then 255 else if op = 3 \<and> f3 \<in> {1, 5} then 65535
     else if op = 3 \<and> f3 = 2 then 4294967295
     else if op = 35 \<and> f3 = 0 then 255 else if op = 35 \<and> f3 = 1 then 65535
     else if op = 35 \<and> f3 = 2 then 4294967295 else 0)"

definition decoded_columns :: "u32 \<Rightarrow> u32 \<Rightarrow> decoded_row" where
  "decoded_columns waddr w = (let op = w AND 127; f3 = drop_bit 12 w AND 7; f7 = drop_bit 25 w; pc = waddr * 4; tgt = sql_tgt pc w in
     \<lparr> dc_spec_version = ''0.3.1'', dc_word_addr = waddr, dc_id = sql_id w,
       dc_rd = (if op \<in> {55, 23, 111, 103, 3, 19, 51, 115} then ucast (drop_bit 7 w AND 31) else 0),
       dc_rs1 = (if op \<in> {19, 51, 3, 35, 99, 103, 115} then ucast (drop_bit 15 w AND 31) else 0),
       dc_rs2 = (if op \<in> {51, 35, 99} then ucast (drop_bit 20 w AND 31) else 0),
       dc_imm = sql_imm pc w, dc_tgt = tgt, dc_mk = sql_mk w,
       dc_sg = (if op = 3 \<and> f3 \<in> {0, 1} then 1 else 0),
       dc_m_sg1 = (if op = 51 \<and> f7 = 1 \<and> f3 \<in> {0, 1, 2} then 1 else 0),
       dc_m_sg2 = (if op = 51 \<and> f7 = 1 \<and> f3 \<in> {0, 1} then 1 else 0),
       dc_m_hi = (if op = 51 \<and> f7 = 1 \<and> f3 \<in> {1, 2, 3} then 1 else 0),
       dc_d_sg = (if op = 51 \<and> f7 = 1 \<and> f3 \<in> {4, 6} then 1 else 0),
       dc_cmp_sel = (if op = 99 \<and> f3 \<in> {4, 5} then 1 else if op = 99 \<and> f3 \<in> {6, 7} then 2 else 0),
       dc_neg = (if op = 99 \<and> f3 \<in> {1, 5, 7} then 1 else 0),
       dc_tgt_mis = (if tgt AND 3 \<noteq> 0 then 1 else 0), dc_raw = w \<rparr>)"

text \<open>The tuple that \<open>decode_with\<close> captures of a row, and so what the fold sees of a word.\<close>

definition captured :: "decoded_row \<Rightarrow> dec_row" where
  "captured r = \<lparr> d_id = dc_id r, d_rd = dc_rd r, d_rs1 = dc_rs1 r, d_rs2 = dc_rs2 r, d_imm = dc_imm r, d_tgt = dc_tgt r,
     d_mk = dc_mk r, d_sg = dc_sg r, d_raw = dc_raw r \<rparr>"

definition decode_row :: "u32 \<Rightarrow> u32 \<Rightarrow> dec_row" where
  "decode_row waddr w = captured (decoded_columns waddr w)"

lemma decoded_columns_sel [simp]:
  "dc_word_addr (decoded_columns waddr w) = waddr" "captured (decoded_columns waddr w) = decode_row waddr w"
  by (simp_all add: decoded_columns_def decode_row_def Let_def)

lemma decode_row_columns:
  "decode_row waddr w = (let op = w AND 127; f3 = drop_bit 12 w AND 7; pc = waddr * 4 in
     \<lparr> d_id = sql_id w,
       d_rd = (if op \<in> {55, 23, 111, 103, 3, 19, 51, 115} then ucast (drop_bit 7 w AND 31) else 0),
       d_rs1 = (if op \<in> {19, 51, 3, 35, 99, 103, 115} then ucast (drop_bit 15 w AND 31) else 0),
       d_rs2 = (if op \<in> {51, 35, 99} then ucast (drop_bit 20 w AND 31) else 0),
       d_imm = sql_imm pc w, d_tgt = sql_tgt pc w, d_mk = sql_mk w,
       d_sg = (if op = 3 \<and> f3 \<in> {0, 1} then 1 else 0), d_raw = w \<rparr>)"
  unfolding decode_row_def captured_def decoded_columns_def Let_def by (simp only: decoded_row.select_convs)

section \<open>What the fold reads\<close>

text \<open>
  The variants of the step.  \<open>InlineHaltCode\<close>, \<open>ShortBindingParam\<close>, \<open>BindDecodeRow\<close> and \<open>BindRepeated\<close> say which
  subexpressions the text binds to a name before using them; a binding has no effect of its own, so as values they are the
  baseline.  \<open>FewerConstants\<close> and \<open>MoreConstants\<close> rewrite the masks, the bounds and the dispatch.
\<close>

datatype variant = Baseline | InlineHaltCode | ShortBindingParam | BindDecodeRow | BindRepeated
  | FewerConstants | MoreConstants

record fold_cfg =
  text_start_widx :: widx
  text_end_widx :: widx
  fc_decn :: u32
  fc_ram_words :: u32
  fc_ram_base :: u32
  fc_hwm :: u32
  fc_ipms :: u32

text \<open>The three arrays of \<open>decode_with\<close>.\<close>

record fold_tables =
  RAMT :: "u32 list"
  DEC :: "dec_row list"
  KEYQT :: "u16 list"

record acc =
  acc_pc :: u32
  acc_regs :: "u32 list"
  acc_wl_addr :: "u32 list"
  acc_wl_val :: "u32 list"
  acc_wl_icount :: "u64 list"
  acc_stopped :: u8
  acc_halted :: u8
  acc_halt_reason :: u8
  acc_halt_pc :: u32
  acc_halt_extra :: u32
  acc_icount :: u64
  acc_console :: "u8 list"
  acc_keyq_pos :: u32
  acc_frame_no :: u32
  acc_frame_committed :: u8
  acc_fb_addr :: "u32 list"
  acc_fb_val :: "u32 list"
  acc_fb_icount :: "u64 list"
  acc_pal_addr :: "u32 list"
  acc_pal_val :: "u32 list"
  acc_pal_icount :: "u64 list"
  acc_cp_icount :: "u64 list"
  acc_cp_pc :: "u32 list"
  acc_cp_regs :: "u32 list"

text \<open>Arrays count from one; an index outside the array gives the element type's default value.\<close>

definition array_element :: "'a \<Rightarrow> 'a list \<Rightarrow> nat \<Rightarrow> 'a" where
  "array_element d xs n = (if 1 \<le> n \<and> n \<le> length xs then xs ! (n - 1) else d)"

text \<open>The position of the last element equal to \<open>x\<close>, 0 when there is none.\<close>

fun array_last_index :: "'a \<Rightarrow> 'a list \<Rightarrow> nat" where
  "array_last_index x [] = 0"
| "array_last_index x (y # ys) =
     (let n = array_last_index x ys in if 0 < n then Suc n else if x = y then 1 else 0)"

definition no_row :: dec_row where
  "no_row = \<lparr> d_id = 0, d_rd = 0, d_rs1 = 0, d_rs2 = 0, d_imm = 0, d_tgt = 0, d_mk = 0, d_sg = 0, d_raw = 0 \<rparr>"


section \<open>The step's expressions\<close>

definition sq_pc_widx :: "fold_cfg \<Rightarrow> acc \<Rightarrow> u32" where
  "sq_pc_widx k a = drop_bit 2 (acc_pc a - fc_ram_base k)"

definition sq_dec :: "fold_cfg \<Rightarrow> fold_tables \<Rightarrow> acc \<Rightarrow> dec_row" where
  "sq_dec k t a = array_element no_row (DEC t) (unat (min (sq_pc_widx k a) (fc_decn k - 1)) + 1)"

text \<open>A program counter outside the text window; an empty window declares nothing to be outside of.\<close>

definition pc_out_of_text :: "fold_cfg \<Rightarrow> acc \<Rightarrow> bool" where
  "pc_out_of_text k a =
     (if widx_get (text_end_widx k) = widx_get (text_start_widx k) then False
      else if widx_get (text_start_widx k) = 0 then widx_get (text_end_widx k) \<le> sq_pc_widx k a
      else sq_pc_widx k a < widx_get (text_start_widx k) \<or> widx_get (text_end_widx k) \<le> sq_pc_widx k a)"

definition sq_reg :: "acc \<Rightarrow> u8 \<Rightarrow> u32" where
  "sq_reg a r = (if r = 0 then 0 else array_element 0 (acc_regs a) (unat r))"

definition sq_a :: "dec_row \<Rightarrow> acc \<Rightarrow> u32" where
  "sq_a d a = sq_reg a (d_rs1 d)"

definition sq_rs2v :: "dec_row \<Rightarrow> acc \<Rightarrow> u32" where
  "sq_rs2v d a = sq_reg a (d_rs2 d)"

definition sq_b :: "dec_row \<Rightarrow> acc \<Rightarrow> u32" where
  "sq_b d a = sq_reg a (d_rs2 d) + d_imm d"

definition sq_addr :: "dec_row \<Rightarrow> acc \<Rightarrow> u32" where
  "sq_addr d a = sq_a d a + d_imm d"

text \<open>\<open>addr_and_align\<close>.\<close>

definition sq_ram_off :: "fold_cfg \<Rightarrow> u32 \<Rightarrow> u32" where
  "sq_ram_off k addr = drop_bit 2 (addr - fc_ram_base k)"

definition sq_wa :: "fold_cfg \<Rightarrow> u32 \<Rightarrow> u32" where
  "sq_wa k addr = min (sq_ram_off k addr) (fc_ram_words k - 1)"

definition sq_outside_ram :: "variant \<Rightarrow> fold_cfg \<Rightarrow> u32 \<Rightarrow> bool" where
  "sq_outside_ram v k addr =
     (if v = FewerConstants then fc_ram_words k - 1 < sq_ram_off k addr
      else addr < fc_ram_base k \<or> fc_ram_base k + fc_ram_words k * 4 \<le> addr)"

definition sq_align_mask :: "variant \<Rightarrow> u32 \<Rightarrow> u32" where
  "sq_align_mask v mk =
     (if v = FewerConstants then (drop_bit 15 mk AND 1) OR (drop_bit 30 mk AND 2)
      else if mk = 4294967295 then 3 else if mk = 65535 then 1 else 0)"

definition sq_misaligned :: "variant \<Rightarrow> u32 \<Rightarrow> u32 \<Rightarrow> bool" where
  "sq_misaligned v addr mk \<longleftrightarrow> addr AND sq_align_mask v mk \<noteq> 0"

definition sq_is_mmio :: "variant \<Rightarrow> u32 \<Rightarrow> bool" where
  "sq_is_mmio v addr =
     (if v = FewerConstants then addr - MMIO_BASE < MMIO_SIZE
      else addr AND (0xFFFFFFFF XOR (MMIO_SIZE - 1)) = MMIO_BASE)"

definition sq_is_fb :: "u32 \<Rightarrow> bool" where
  "sq_is_fb addr \<longleftrightarrow> addr - FRAMEBUFFER_BASE < FRAMEBUFFER_SIZE"

definition sq_is_pal :: "u32 \<Rightarrow> bool" where
  "sq_is_pal addr \<longleftrightarrow> addr - PALETTE_BASE < PALETTE_SIZE"

definition sq_fb_or_pal_store :: "dec_row \<Rightarrow> u32 \<Rightarrow> bool" where
  "sq_fb_or_pal_store d addr \<longleftrightarrow> d_id d = ID_STORE \<and> (sq_is_fb addr \<or> sq_is_pal addr)"

definition sq_bad_addr :: "variant \<Rightarrow> fold_cfg \<Rightarrow> dec_row \<Rightarrow> u32 \<Rightarrow> bool" where
  "sq_bad_addr v k d addr \<longleftrightarrow>
     sq_outside_ram v k addr \<and> \<not> sq_is_mmio v addr \<and> \<not> sq_fb_or_pal_store d addr"

definition mmio_is :: "variant \<Rightarrow> u32 \<Rightarrow> u32 \<Rightarrow> bool" where
  "mmio_is v addr r = (if v = FewerConstants then addr - MMIO_BASE = r else addr = MMIO_BASE + r)"

definition sq_is_mmio_load :: "variant \<Rightarrow> dec_row \<Rightarrow> u32 \<Rightarrow> bool" where
  "sq_is_mmio_load v d addr \<longleftrightarrow> sq_is_mmio v addr \<and> d_id d = ID_LOAD \<and> d_mk d = 4294967295"

definition sq_is_mmio_store :: "variant \<Rightarrow> dec_row \<Rightarrow> u32 \<Rightarrow> bool" where
  "sq_is_mmio_store v d addr \<longleftrightarrow> sq_is_mmio v addr \<and> d_id d = ID_STORE \<and> d_mk d = 4294967295"

definition sq_keyq_has :: "fold_tables \<Rightarrow> acc \<Rightarrow> bool" where
  "sq_keyq_has t a \<longleftrightarrow> acc_keyq_pos a < of_nat (length (KEYQT t))"

definition sq_keyq_val :: "fold_tables \<Rightarrow> acc \<Rightarrow> u32" where
  "sq_keyq_val t a = (if sq_keyq_has t a then ucast (array_element 0 (KEYQT t) (unat (acc_keyq_pos a) + 1)) else 0)"

definition sq_mmio_read :: "variant \<Rightarrow> fold_cfg \<Rightarrow> fold_tables \<Rightarrow> acc \<Rightarrow> u32 \<Rightarrow> u32" where
  "sq_mmio_read v k t a addr =
     (if mmio_is v addr TICKS_MS then ucast (acc_icount a div ucast (fc_ipms k))
      else if mmio_is v addr KEYQ then sq_keyq_val t a else 0)"

text \<open>Loads read the latest entry of the write log at the word, else the captured RAM.\<close>

definition sq_lw :: "fold_tables \<Rightarrow> acc \<Rightarrow> u32 \<Rightarrow> u32" where
  "sq_lw t a wa = (if 0 < array_last_index wa (acc_wl_addr a)
     then array_element 0 (acc_wl_val a) (array_last_index wa (acc_wl_addr a))
     else array_element 0 (RAMT t) (unat wa + 1))"

definition sq_sh :: "u32 \<Rightarrow> nat" where
  "sq_sh addr = 8 * unat (addr AND 3)"

definition sq_ram_loadv :: "dec_row \<Rightarrow> u32 \<Rightarrow> u32 \<Rightarrow> u32" where
  "sq_ram_loadv d lw addr =
     (let extracted = drop_bit (sq_sh addr) lw AND d_mk d; sign_pos = drop_bit 1 (d_mk d) + 1 in
      extracted - (if extracted AND sign_pos \<noteq> 0 \<and> d_sg d \<noteq> 0 then d_mk d + 1 else 0))"

definition sq_loadv :: "variant \<Rightarrow> fold_cfg \<Rightarrow> fold_tables \<Rightarrow> dec_row \<Rightarrow> acc \<Rightarrow> u32 \<Rightarrow> u32" where
  "sq_loadv v k t d a addr =
     (if sq_is_mmio v addr \<and> d_mk d = 4294967295 then sq_mmio_read v k t a addr
      else if sq_is_mmio v addr then 0
      else sq_ram_loadv d (sq_lw t a (sq_wa k addr)) addr)"

definition sq_sval :: "dec_row \<Rightarrow> u32 \<Rightarrow> u32 \<Rightarrow> u32 \<Rightarrow> u32" where
  "sq_sval d lw rs2v addr =
     (lw AND (4294967295 XOR push_bit (sq_sh addr) (d_mk d))) OR push_bit (sq_sh addr) (rs2v AND d_mk d)"

definition sq_jalr_target :: "variant \<Rightarrow> u32 \<Rightarrow> u32" where
  "sq_jalr_target v addr =
     (if v = FewerConstants then push_bit 1 (drop_bit 1 addr) else addr AND 4294967294)"

text \<open>The divisors the divide and remainder arms can evaluate for any input.\<close>

definition sq_nz_b :: "u32 \<Rightarrow> u32" where
  "sq_nz_b b = (if b = 0 then 1 else b)"

definition sq_nz_sb64 :: "u32 \<Rightarrow> int" where
  "sq_nz_sb64 b = (if b = 0 then 1 else sint b)"

definition sq_result :: "u8 \<Rightarrow> u32 \<Rightarrow> u32 \<Rightarrow> u32 \<Rightarrow> u32 \<Rightarrow> u32" where
  "sq_result oid a b loadv link =
     (if oid = 0 then a + b else if oid = 1 then a - b
      else if oid = 2 then push_bit (unat (b AND 31)) a
      else if oid = 3 then of_bool (a <s b) else if oid = 4 then of_bool (a < b)
      else if oid = 5 then a XOR b else if oid = 6 then drop_bit (unat (b AND 31)) a
      else if oid = 7 then signed_drop_bit (unat (b AND 31)) a
      else if oid = 8 then a OR b else if oid = 9 then a AND b
      else if oid = 10 then word_of_int (sint a * sint b)
      else if oid = 11 then ucast (signed_drop_bit 32 (scast a * scast b :: i64))
      else if oid = 12 then ucast (signed_drop_bit 32 (scast a * ucast b :: i64))
      else if oid = 13 then ucast (drop_bit 32 (ucast a * ucast b :: u64))
      else if oid = 14 then (if b = 0 then 4294967295 else word_of_int (sint a sdiv sq_nz_sb64 b))
      else if oid = 15 then (if b = 0 then 4294967295 else a div sq_nz_b b)
      else if oid = 16 then (if b = 0 then a else word_of_int (sint a smod sq_nz_sb64 b))
      else if oid = 17 then (if b = 0 then a else a mod sq_nz_b b)
      else if oid = ID_LOAD then loadv
      else link)"

definition sq_taken :: "u8 \<Rightarrow> u32 \<Rightarrow> u32 \<Rightarrow> bool" where
  "sq_taken oid a b =
     (if oid = 20 then a = b else if oid = 21 then a \<noteq> b
      else if oid = 22 then a <s b else if oid = 23 then b \<le>s a
      else if oid = 24 then a < b else if oid = 25 then b \<le> a
      else if oid = 26 then True else if oid = 27 then True else False)"

definition sq_next :: "u8 \<Rightarrow> u32 \<Rightarrow> u32 \<Rightarrow> u32 \<Rightarrow> u32 \<Rightarrow> u32 \<Rightarrow> u32" where
  "sq_next oid a b tgt jalr fallthrough =
     (if oid = 20 then (if a = b then tgt else fallthrough)
      else if oid = 21 then (if a \<noteq> b then tgt else fallthrough)
      else if oid = 22 then (if a <s b then tgt else fallthrough)
      else if oid = 23 then (if b \<le>s a then tgt else fallthrough)
      else if oid = 24 then (if a < b then tgt else fallthrough)
      else if oid = 25 then (if b \<le> a then tgt else fallthrough)
      else if oid = 26 then tgt else if oid = 27 then jalr else fallthrough)"

definition sq_jump_target :: "u8 \<Rightarrow> u32 \<Rightarrow> u32 \<Rightarrow> u32" where
  "sq_jump_target oid tgt jalr = (if oid = 27 then jalr else tgt)"

definition sq_jump_misaligned :: "u8 \<Rightarrow> u32 \<Rightarrow> u32 \<Rightarrow> u32 \<Rightarrow> u32 \<Rightarrow> bool" where
  "sq_jump_misaligned oid a b tgt jalr \<longleftrightarrow>
     20 \<le> oid \<and> oid \<le> 27 \<and> sq_taken oid a b \<and> sq_jump_target oid tgt jalr AND 3 \<noteq> 0"

text \<open>
  Whether a framebuffer or palette address, wrapped and clamped as a RAM word, can land in the text
  window.  The two region bases are checked against the base of RAM by an assertion.
\<close>

definition fb_pal_wa_provably_outside_text :: "u32 \<Rightarrow> u32 \<Rightarrow> u32 \<Rightarrow> bool" where
  "fb_pal_wa_provably_outside_text base words text_end =
     list_all (\<lambda>region. let shifted = of_nat (((2 ^ 32 - (unat base - unat region)) mod 2 ^ 32) div 4) :: u32 in
        \<not> (shifted < words - 1 \<or> words - 1 < text_end)) [FRAMEBUFFER_BASE, PALETTE_BASE]"

definition sq_text_upper :: "variant \<Rightarrow> fold_cfg \<Rightarrow> u32 \<Rightarrow> bool" where
  "sq_text_upper v k wa =
     (if v = FewerConstants then wa \<le> widx_get (text_end_widx k) - 1 else wa < widx_get (text_end_widx k))"

definition sq_halt_code :: "variant \<Rightarrow> fold_cfg \<Rightarrow> dec_row \<Rightarrow> acc \<Rightarrow> u8" where
  "sq_halt_code v k d a =
     (let oid = d_id d; addr = sq_addr d a; mk = d_mk d; wa = sq_wa k addr; jalr = sq_jalr_target v addr;
          is_mem = (oid = ID_LOAD \<or> oid = ID_STORE); mis = sq_misaligned v addr mk; bad = sq_bad_addr v k d addr;
          guard = (fb_pal_wa_provably_outside_text (fc_ram_base k) (fc_ram_words k) (widx_get (text_end_widx k)) \<or>
                   \<not> sq_fb_or_pal_store d addr) in
      if pc_out_of_text k a then HALT_BAD_ADDR
      else if oid = ID_ILLEGAL then HALT_ILLEGAL_INSN
      else if oid = ID_ECALL then HALT_ECALL
      else if oid = ID_EBREAK then HALT_EBREAK
      else if oid = ID_CSR then HALT_CSR
      else if sq_jump_misaligned oid (sq_a d a) (sq_b d a) (d_tgt d) jalr then HALT_MISALIGNED
      else if is_mem \<and> mis then HALT_MISALIGNED
      else if is_mem \<and> bad then HALT_BAD_ADDR
      else if sq_fb_or_pal_store d addr \<and> mk \<noteq> 4294967295 then HALT_BAD_ADDR
      else if oid = ID_STORE \<and> \<not> bad \<and> \<not> mis \<and> \<not> sq_is_mmio v addr \<and> guard \<and>
        widx_get (text_start_widx k) \<le> wa \<and> sq_text_upper v k wa then HALT_SELF_MODIFY
      else if sq_is_mmio_store v d addr \<and> \<not> mis \<and> mmio_is v addr EXIT then HALT_EXIT
      else HALT_NONE)"

text \<open>
  The extra word of a halt record.  The variant with added constants tests the code against sixty values
  above every code first.
\<close>

definition ADDED_CONSTANTS :: nat where "ADDED_CONSTANTS = 60"
definition ADDED_CONSTANTS_FIRST :: nat where "ADDED_CONSTANTS_FIRST = 33"

definition sq_halt_extra :: "variant \<Rightarrow> fold_cfg \<Rightarrow> dec_row \<Rightarrow> acc \<Rightarrow> u8 \<Rightarrow> u32" where
  "sq_halt_extra v k d a hc =
     (let addr = sq_addr d a; jalr = sq_jalr_target v addr;
          jm = sq_jump_misaligned (d_id d) (sq_a d a) (sq_b d a) (d_tgt d) jalr in
      if v = MoreConstants \<and> (\<exists>n \<in> set [0..<ADDED_CONSTANTS]. hc = of_nat (ADDED_CONSTANTS_FIRST + n)) then 0
      else if pc_out_of_text k a then acc_pc a
      else if hc = HALT_ILLEGAL_INSN then d_raw d
      else if hc = HALT_EXIT then sq_rs2v d a
      else if jm then sq_jump_target (d_id d) (d_tgt d) jalr
      else if hc \<in> {HALT_BAD_ADDR, HALT_MISALIGNED, HALT_SELF_MODIFY} then addr else 0)"

definition sq_retiring_store :: "variant \<Rightarrow> dec_row \<Rightarrow> u32 \<Rightarrow> bool \<Rightarrow> bool" where
  "sq_retiring_store v d addr retires \<longleftrightarrow>
     retires \<and> d_id d = ID_STORE \<and> \<not> sq_is_mmio v addr \<and> \<not> sq_fb_or_pal_store d addr"

definition sq_at_checkpoint :: "acc \<Rightarrow> nat \<Rightarrow> bool" where
  "sq_at_checkpoint a i \<longleftrightarrow> acc_stopped a = 0 \<and> 0 < i \<and> acc_icount a \<noteq> 0 \<and> acc_icount a mod CHECKPOINT_INTERVAL = 0"

definition push_if :: "bool \<Rightarrow> 'a \<Rightarrow> 'a list \<Rightarrow> 'a list" where
  "push_if c x xs = (if c then xs @ [x] else xs)"

definition fold_step :: "variant \<Rightarrow> fold_cfg \<Rightarrow> fold_tables \<Rightarrow> acc \<Rightarrow> nat \<Rightarrow> acc" where
  "fold_step v k t a i =
     (let d = sq_dec k t a; oid = d_id d; rd = d_rd d; addr = sq_addr d a; wa = sq_wa k addr; rs2v = sq_rs2v d a;
          hc = sq_halt_code v k d a; pc = acc_pc a; active = (acc_stopped a = 0);
          halts = (active \<and> hc \<noteq> 0); retires = (active \<and> hc = 0);
          store = sq_retiring_store v d addr retires;
          hits_hwm = (store \<and> uint (fc_hwm k) \<le> uint (of_nat (length (acc_wl_addr a)) :: u32) + 1);
          frame = (retires \<and> sq_is_mmio_store v d addr \<and> mmio_is v addr FRAME_COMMIT);
          fb = (retires \<and> oid = ID_STORE \<and> sq_is_fb addr); pal = (retires \<and> oid = ID_STORE \<and> sq_is_pal addr);
          cp = sq_at_checkpoint a i; ic = acc_icount a + 1;
          result = sq_result oid (sq_a d a) (sq_b d a) (sq_loadv v k t d a addr) (pc + 4) in
      a\<lparr> acc_pc := (if retires
             then sq_next oid (sq_a d a) (sq_b d a) (d_tgt d) (sq_jalr_target v addr) (pc + 4) else pc),
         acc_regs := (if retires \<and> rd \<noteq> 0
             then take (unat rd - 1) (acc_regs a) @ [result] @ drop (unat rd) (acc_regs a) else acc_regs a),
         acc_wl_addr := push_if store wa (acc_wl_addr a),
         acc_wl_val := push_if store (sq_sval d (sq_lw t a wa) rs2v addr) (acc_wl_val a),
         acc_wl_icount := push_if store ic (acc_wl_icount a),
         acc_stopped := (if halts \<or> hits_hwm \<or> frame then 1 else acc_stopped a),
         acc_halted := (if halts then 1 else acc_halted a),
         acc_halt_reason := (if halts then hc else acc_halt_reason a),
         acc_halt_pc := (if halts then pc else acc_halt_pc a),
         acc_halt_extra := (if halts then sq_halt_extra v k d a hc else acc_halt_extra a),
         acc_icount := (if retires then ic else acc_icount a),
         acc_console := push_if (retires \<and> sq_is_mmio_store v d addr \<and> mmio_is v addr PUTCHAR)
             (ucast (rs2v AND 255)) (acc_console a),
         acc_keyq_pos := (if retires \<and> sq_is_mmio_load v d addr \<and> mmio_is v addr KEYQ \<and> sq_keyq_has t a
             then acc_keyq_pos a + 1 else acc_keyq_pos a),
         acc_frame_no := (if frame then rs2v else acc_frame_no a),
         acc_frame_committed := (if frame then 1 else acc_frame_committed a),
         acc_fb_addr := push_if fb (drop_bit 2 (addr - FRAMEBUFFER_BASE)) (acc_fb_addr a),
         acc_fb_val := push_if fb rs2v (acc_fb_val a),
         acc_fb_icount := push_if fb ic (acc_fb_icount a),
         acc_pal_addr := push_if pal (drop_bit 2 (addr - PALETTE_BASE)) (acc_pal_addr a),
         acc_pal_val := push_if pal rs2v (acc_pal_val a),
         acc_pal_icount := push_if pal ic (acc_pal_icount a),
         acc_cp_icount := push_if cp (acc_icount a) (acc_cp_icount a),
         acc_cp_pc := push_if cp pc (acc_cp_pc a),
         acc_cp_regs := (if cp then acc_cp_regs a @ acc_regs a else acc_cp_regs a) \<rparr>)"

text \<open>The assertions of \<open>build_step_inner\<close>: where they fail, building the statement panics.\<close>

definition step_builds :: "variant \<Rightarrow> fold_cfg \<Rightarrow> bool" where
  "step_builds v k \<longleftrightarrow>
     widx_get (text_start_widx k) \<le> widx_get (text_end_widx k) \<and> widx_get (text_end_widx k) \<le> fc_ram_words k \<and>
     fc_ipms k \<noteq> 0 \<and>
     (v = FewerConstants \<longrightarrow> 1 \<le> widx_get (text_end_widx k) \<and> unat (fc_ram_base k) + unat (fc_ram_words k) * 4 \<le> 2 ^ 32) \<and>
     FRAMEBUFFER_BASE < fc_ram_base k \<and> PALETTE_BASE < fc_ram_base k"

definition init_acc :: "u32 \<Rightarrow> u32 list \<Rightarrow> u64 \<Rightarrow> u32 \<Rightarrow> acc" where
  "init_acc pc0 regs0 icount0 keyq0 =
     \<lparr> acc_pc = pc0, acc_regs = regs0, acc_wl_addr = [], acc_wl_val = [], acc_wl_icount = [],
       acc_stopped = 0, acc_halted = 0, acc_halt_reason = 0, acc_halt_pc = 0, acc_halt_extra = 0,
       acc_icount = icount0, acc_console = [], acc_keyq_pos = keyq0, acc_frame_no = 0, acc_frame_committed = 0,
       acc_fb_addr = [], acc_fb_val = [], acc_fb_icount = [], acc_pal_addr = [], acc_pal_val = [], acc_pal_icount = [],
       acc_cp_icount = [], acc_cp_pc = [], acc_cp_regs = [] \<rparr>"

text \<open>\<open>arrayFold((acc, i) -> step, range(K), init)\<close>.\<close>

definition array_fold :: "variant \<Rightarrow> fold_cfg \<Rightarrow> fold_tables \<Rightarrow> nat \<Rightarrow> acc \<Rightarrow> acc" where
  "array_fold v k t n a = foldl (fold_step v k t) a [0..<n]"

end
