(* ===== verification/Sql_Decode.thy ===== *)
theory Sql_Decode
  imports Sql_Step Isa
begin

text \<open>
  The table of \<open>sqlcpu/decode.sql\<close> against the decoder of \<open>refemu/src/decode.rs\<close>: the rows the fold reads say
  the same of a word as the decoded instruction does.
\<close>

section \<open>Immediates\<close>

lemma sext_sub:
  assumes "0 < n" "n < 32" "v < 2 ^ n"
  shows "sext v n = v - (if bit v (n - 1) then 2 ^ n else 0)"
proof (cases "bit v (n - 1)")
  case False
  have h: "bit v m \<Longrightarrow> m < n - 1" for m
    using bit_below [OF assms(3), of m] False assms(1) by (cases "m = n - 1") auto
  have "sext v n = v"
    unfolding sext_def
    by (rule bit_word_eqI) (use assms in \<open>auto simp: bit_simps dest: h split: if_splits\<close>)
  then show ?thesis using False by simp
next
  case True
  have lt: "bit v m \<Longrightarrow> m < n" for m using bit_below [OF assms(3)] by blast
  have "sext v n = v OR NOT (mask n)"
    unfolding sext_def
  proof (rule bit_word_eqI)
    fix m assume "m < LENGTH(32)"
    then show "bit (signed_drop_bit (32 - n) (push_bit (32 - n) v)) m = bit (v OR NOT (mask n)) m"
      using assms True lt [of m] by (cases "m < n") (auto simp: bit_simps)
  qed
  also have "\<dots> = v + NOT (mask n)"
    by (rule disjunctive_add [symmetric]) (use lt in \<open>auto simp: bit_simps\<close>)
  also have "NOT (mask n) = - (2 ^ n :: u32)"
    by (simp add: not_eq_complement mask_eq_exp_minus_1)
  finally show ?thesis using True by simp
qed



lemma less_from_bits: "(\<And>m. bit v m \<Longrightarrow> m < n) \<Longrightarrow> n < 32 \<Longrightarrow> v < 2 ^ n" for v :: u32
proof -
  assume b: "\<And>m. bit v m \<Longrightarrow> m < n" and n: "n < 32"
  have "v AND mask n = v" by (rule bit_word_eqI) (auto simp: bit_simps dest: b)
  then show "v < 2 ^ n" using n and_mask_less' [of n v] by simp
qed

lemma all_ones_32: "(4294967295 :: u32) = mask 32" "(w :: u32) AND mask 32 = w"
proof -
  show "(4294967295 :: u32) = mask 32" by (simp add: mask_eq_exp_minus_1)
  show "w AND mask 32 = w" by (rule bit_word_eqI) (simp add: bit_simps)
qed

lemma sign_bit_32: "(w :: u32) AND 2147483648 \<noteq> 0 \<longleftrightarrow> bit w 31"
proof -
  have "(2147483648 :: u32) = 2 ^ 31" by simp
  then show ?thesis by (simp only: and_exp_eq_0_iff_not_bit not_not)
qed

lemma funct7_full: "drop_bit 25 w AND 0x7F = (drop_bit 25 w :: u32)"
  by (rule bit_word_eqI) (auto simp: bit_simps mask_32 dest: bit_imp_le_length)

lemma sql_iimm_sext: "sql_iimm w = sext (drop_bit 20 w) 12"
proof -
  have "drop_bit 20 w < 2 ^ 12" by (rule less_from_bits) (auto simp: bit_simps dest: bit_imp_le_length)
  then show ?thesis using sext_sub [of 12 "drop_bit 20 w"] by (simp add: sql_iimm_def sign_bit_32 bit_simps)
qed

lemma sql_simm_sext: "sql_simm w = sext (s_imm_bits w) 12"
proof -
  have b: "drop_bit 25 (w AND 4294967295) * 32 OR (drop_bit 7 w AND 31) = s_imm_bits w"
  proof -
    have "drop_bit 25 w AND 0x7F = drop_bit 25 w" by (rule funct7_full)
    then show ?thesis by (simp add: all_ones_32 s_imm_bits_def push_bit_eq_mult)
  qed
  have "s_imm_bits w < 2 ^ 12" by (rule less_from_bits) (auto simp: bit_simps s_imm_bits_def mask_32)
  then show ?thesis using sext_sub [of 12 "s_imm_bits w"] b
    by (simp add: sql_simm_def sign_bit_32 s_imm_bits_def bit_simps mask_32)
qed

text \<open>The masks of the branch and jump immediates, as bits.\<close>

lemma bit_masks_32:
  "bit (30 :: u32) n \<longleftrightarrow> 1 \<le> n \<and> n \<le> 4" "bit (2016 :: u32) n \<longleftrightarrow> 5 \<le> n \<and> n \<le> 10"
  "bit (2046 :: u32) n \<longleftrightarrow> 1 \<le> n \<and> n \<le> 10" "bit (1044480 :: u32) n \<longleftrightarrow> 12 \<le> n \<and> n \<le> 19"
proof -
  have m: "(30 :: u32) = push_bit 1 (mask 4)" "(2016 :: u32) = push_bit 5 (mask 6)"
    "(2046 :: u32) = push_bit 1 (mask 10)" "(1044480 :: u32) = push_bit 12 (mask 8)"
    by (simp_all add: push_bit_eq_mult mask_eq_exp_minus_1)
  have b: "bit (push_bit k (mask j) :: u32) n \<longleftrightarrow> k \<le> n \<and> n < k + j \<and> n < 32" for k j
    by (auto simp: bit_push_bit_iff bit_mask_iff)
  show "bit (30 :: u32) n \<longleftrightarrow> 1 \<le> n \<and> n \<le> 4" "bit (2016 :: u32) n \<longleftrightarrow> 5 \<le> n \<and> n \<le> 10"
    "bit (2046 :: u32) n \<longleftrightarrow> 1 \<le> n \<and> n \<le> 10" "bit (1044480 :: u32) n \<longleftrightarrow> 12 \<le> n \<and> n \<le> 19"
    unfolding m b by auto
qed


lemma bit_field: "bit (push_bit k (drop_bit j w AND mask m) :: u32) n \<longleftrightarrow> k \<le> n \<and> n < k + m \<and> n < 32 \<and> bit w (n - k + j)"
  by (auto simp: bit_push_bit_iff bit_and_iff bit_mask_iff bit_drop_bit_eq ac_simps)


lemma bit_b_imm: "bit (b_imm_bits w) n \<longleftrightarrow> n = 12 \<and> bit w 31 \<or> n = 11 \<and> bit w 7 \<or>
    5 \<le> n \<and> n \<le> 10 \<and> bit w (20 + n) \<or> 1 \<le> n \<and> n \<le> 4 \<and> bit w (7 + n)"
proof -
  have e: "drop_bit k w AND 0x1 = drop_bit k w AND mask 1" for k by simp
  have "n = 12 \<or> n = 11 \<or> 5 \<le> n \<and> n \<le> 10 \<or> 1 \<le> n \<and> n \<le> 4 \<or> n = 0 \<or> 13 \<le> n" by arith
  then show ?thesis unfolding b_imm_bits_def e mask_32 bit_or_iff bit_field by (elim disjE) simp_all
qed

lemma bit_j_imm: "bit (j_imm_bits w) n \<longleftrightarrow> n = 20 \<and> bit w 31 \<or> 12 \<le> n \<and> n \<le> 19 \<and> bit w n \<or>
    n = 11 \<and> bit w 20 \<or> 1 \<le> n \<and> n \<le> 10 \<and> bit w (20 + n)"
proof -
  have e: "drop_bit k w AND 0x1 = drop_bit k w AND mask 1" for k by simp
  have "n = 20 \<or> 12 \<le> n \<and> n \<le> 19 \<or> n = 11 \<or> 1 \<le> n \<and> n \<le> 10 \<or> n = 0 \<or> 21 \<le> n" by arith
  then show ?thesis unfolding j_imm_bits_def e mask_32 bit_or_iff bit_field by (elim disjE) simp_all
qed

text \<open>A signed field read as an unsigned sum, less twice the weight of its sign bit.\<close>

lemma sext_from_parts:
  assumes "0 < n" "n < 31" "\<And>m. bit v m \<longleftrightarrow> bit p m \<or> m = n \<and> s" "\<And>m. bit p m \<Longrightarrow> m < n"
  shows "sext v (Suc n) = p - (if s then 2 ^ n else 0)"
proof -
  have lt: "v < 2 ^ Suc n" by (rule less_from_bits) (use assms in \<open>auto dest: less_SucI\<close>)
  have "v = p + (if s then 2 ^ n else 0)"
  proof (cases s)
    case True
    have "v = p OR 2 ^ n" by (rule bit_word_eqI) (use assms True in \<open>auto simp: bit_simps\<close>)
    also have "\<dots> = p + 2 ^ n" by (rule disjunctive_add [symmetric]) (use assms(4) in \<open>auto simp: bit_simps\<close>)
    finally show ?thesis using True by simp
  qed (use assms(3) in \<open>auto intro: bit_word_eqI\<close>)
  moreover have "bit v n = s" using assms(3,4) by auto
  ultimately show ?thesis using sext_sub [OF _ _ lt] assms(2) by (cases s) simp_all
qed

lemma bit_one_field: "bit (push_bit 11 (drop_bit k w AND 1) :: u32) n \<longleftrightarrow> n = 11 \<and> bit w k"
proof -
  have e: "drop_bit k w AND 1 = drop_bit k w AND mask 1" by simp
  show ?thesis unfolding e bit_field by (cases "n = 11") auto
qed

lemmas bit_parts = bit_and_iff bit_or_iff bit_drop_bit_eq bit_masks_32 bit_one_field comp_def

lemma sql_bimm_sext: "sql_bimm w = sext (b_imm_bits w) 13"
proof -
  let ?x = "drop_bit 7 w AND 30" and ?y = "drop_bit 20 w AND 2016" and ?z = "push_bit 11 (drop_bit 7 w AND 1)"
  have "?x + ?y = ?x OR ?y" by (rule disjunctive_add) (unfold bit_parts, auto)
  moreover have "(?x OR ?y) + ?z = (?x OR ?y) OR ?z" by (rule disjunctive_add) (unfold bit_parts, auto)
  ultimately have s: "?x + ?y + ?z = (?x OR ?y) OR ?z" by simp
  have "sext (b_imm_bits w) (Suc 12) = ((?x OR ?y) OR ?z) - (if bit w 31 then 2 ^ 12 else 0)"
    by (rule sext_from_parts) (unfold bit_parts bit_b_imm, auto)
  then show ?thesis unfolding sql_bimm_def s sign_bit_32 by simp
qed

lemma sql_jimm_sext: "sql_jimm w = sext (j_imm_bits w) 21"
proof -
  let ?x = "drop_bit 20 w AND 2046" and ?y = "push_bit 11 (drop_bit 20 w AND 1)" and ?z = "w AND 1044480"
  have "?x + ?y = ?x OR ?y" by (rule disjunctive_add) (unfold bit_parts, auto)
  moreover have "(?x OR ?y) + ?z = (?x OR ?y) OR ?z" by (rule disjunctive_add) (unfold bit_parts, auto)
  ultimately have s: "?x + ?y + ?z = (?x OR ?y) OR ?z" by simp
  have "sext (j_imm_bits w) (Suc 20) = ((?x OR ?y) OR ?z) - (if bit w 31 then 2 ^ 20 else 0)"
    by (rule sext_from_parts) (unfold bit_parts bit_j_imm, auto)
  then show ?thesis unfolding sql_jimm_def s sign_bit_32 by simp
qed

section \<open>Operations\<close>

text \<open>The arm of the fold an operation takes; several operations share an arm.\<close>

primrec op_id :: "op \<Rightarrow> u8" where
  "op_id Lui = 0" | "op_id Auipc = 0" | "op_id Jal = 26" | "op_id Jalr = 27"
| "op_id Beq = 20" | "op_id Bne = 21" | "op_id Blt = 22" | "op_id Bge = 23" | "op_id Bltu = 24" | "op_id Bgeu = 25"
| "op_id Lb = 18" | "op_id Lh = 18" | "op_id Lw = 18" | "op_id Lbu = 18" | "op_id Lhu = 18"
| "op_id Sb = 19" | "op_id Sh = 19" | "op_id Sw = 19"
| "op_id Addi = 0" | "op_id Slti = 3" | "op_id Sltiu = 4" | "op_id Xori = 5" | "op_id Ori = 8" | "op_id Andi = 9"
| "op_id Slli = 2" | "op_id Srli = 6" | "op_id Srai = 7"
| "op_id Add = 0" | "op_id Sub = 1" | "op_id Sll = 2" | "op_id Slt = 3" | "op_id Sltu = 4" | "op_id Xor = 5"
| "op_id Srl = 6" | "op_id Sra = 7" | "op_id Or = 8" | "op_id And = 9"
| "op_id Mul = 10" | "op_id Mulh = 11" | "op_id Mulhsu = 12" | "op_id Mulhu = 13"
| "op_id Div = 14" | "op_id Divu = 15" | "op_id Rem = 16" | "op_id Remu = 17"
| "op_id Fence = 0" | "op_id op.Ecall = 28" | "op_id op.Ebreak = 29" | "op_id op.Csr = 30" | "op_id Illegal = 31"

lemma i_op_or_illegal: "i_op (insn_or_illegal w p imm) = (case p of Some q \<Rightarrow> q | None \<Rightarrow> Illegal)"
  by (cases p) simp_all

lemma sql_funct3_cases: "f_funct3 w \<in> {0, 1, 2, 3, 4, 5, 6, 7}"
proof -
  have "unat (f_funct3 w) < 8" using and_mask_less_nat [of 3 "drop_bit 12 w"] by (simp add: f_funct3_def mask_32)
  then show ?thesis by (auto simp: word_unat_eq_iff)
qed

lemma sysimm_full: "drop_bit 20 w AND 4095 = (drop_bit 20 w :: u32)"
proof -
  have m: "(4095 :: u32) = mask 12" by (simp add: mask_eq_exp_minus_1)
  show ?thesis unfolding m by (rule bit_word_eqI) (auto simp: bit_simps dest: bit_imp_le_length)
qed

lemma sql_fields: "w AND 127 = f_opcode w" "drop_bit 12 w AND 7 = f_funct3 w" "drop_bit 25 w = f_funct7 w"
  by (simp_all add: fields funct7_full)

lemma sql_id_decode: "sql_id w = op_id (i_op (decode w))"
proof -
  have f: "f_funct3 w = 0 \<or> f_funct3 w = 1 \<or> f_funct3 w = 2 \<or> f_funct3 w = 3 \<or> f_funct3 w = 4 \<or> f_funct3 w = 5 \<or> f_funct3 w = 6 \<or> f_funct3 w = 7"
    using sql_funct3_cases [of w] by simp
  have "f_opcode w \<in> {55, 23, 111, 103, 99, 3, 35, 15} \<or> f_opcode w = 19 \<or> f_opcode w = 51 \<or> f_opcode w = 115 \<or>
      f_opcode w \<notin> {55, 23, 111, 103, 99, 3, 35, 15, 19, 51, 115}" by blast
  then show ?thesis
    unfolding sql_id_def decode_def sql_fields sysimm_full Let_def opcodes
    by (elim disjE insertE emptyE; use f in \<open>elim disjE\<close>;
        simp add: branch_op_def load_op_def store_op_def imm_op_def mul_op_def reg_op_def)
qed

section \<open>Rows\<close>

text \<open>The operand format of an operation, with the mask and the sign flag of a memory access.\<close>

datatype op_kind = K_Upper | K_Auipc | K_Jal | K_Jalr | K_Branch | K_Load u32 u8 | K_Store u32
  | K_Imm | K_Shift | K_Reg | K_Fence | K_Halt

primrec kind_of :: "op \<Rightarrow> op_kind" where
  "kind_of Lui = K_Upper" | "kind_of Auipc = K_Auipc" | "kind_of Jal = K_Jal" | "kind_of Jalr = K_Jalr"
| "kind_of Beq = K_Branch" | "kind_of Bne = K_Branch" | "kind_of Blt = K_Branch" | "kind_of Bge = K_Branch"
| "kind_of Bltu = K_Branch" | "kind_of Bgeu = K_Branch"
| "kind_of Lb = K_Load 255 1" | "kind_of Lh = K_Load 65535 1" | "kind_of Lw = K_Load 4294967295 0"
| "kind_of Lbu = K_Load 255 0" | "kind_of Lhu = K_Load 65535 0"
| "kind_of Sb = K_Store 255" | "kind_of Sh = K_Store 65535" | "kind_of Sw = K_Store 4294967295"
| "kind_of Addi = K_Imm" | "kind_of Slti = K_Imm" | "kind_of Sltiu = K_Imm" | "kind_of Xori = K_Imm"
| "kind_of Ori = K_Imm" | "kind_of Andi = K_Imm"
| "kind_of Slli = K_Shift" | "kind_of Srli = K_Shift" | "kind_of Srai = K_Shift"
| "kind_of Add = K_Reg" | "kind_of Sub = K_Reg" | "kind_of Sll = K_Reg" | "kind_of Slt = K_Reg" | "kind_of Sltu = K_Reg"
| "kind_of Xor = K_Reg" | "kind_of Srl = K_Reg" | "kind_of Sra = K_Reg" | "kind_of Or = K_Reg" | "kind_of And = K_Reg"
| "kind_of Mul = K_Reg" | "kind_of Mulh = K_Reg" | "kind_of Mulhsu = K_Reg" | "kind_of Mulhu = K_Reg"
| "kind_of Div = K_Reg" | "kind_of Divu = K_Reg" | "kind_of Rem = K_Reg" | "kind_of Remu = K_Reg"
| "kind_of Fence = K_Fence" | "kind_of op.Ecall = K_Halt" | "kind_of op.Ebreak = K_Halt" | "kind_of op.Csr = K_Halt"
| "kind_of Illegal = K_Halt"

text \<open>What a row should hold, from the decoded instruction at \<open>pc\<close>.\<close>

definition plain_row :: "u8 \<Rightarrow> u32 \<Rightarrow> dec_row" where
  "plain_row n w = \<lparr> d_id = n, d_rd = 0, d_rs1 = 0, d_rs2 = 0, d_imm = 0, d_tgt = 0, d_mk = 0, d_sg = 0, d_raw = w \<rparr>"

definition row_of :: "u32 \<Rightarrow> u32 \<Rightarrow> instruction \<Rightarrow> dec_row" where
  "row_of pc w i = (let r = plain_row (op_id (i_op i)) w in
     case kind_of (i_op i) of
       K_Upper \<Rightarrow> r\<lparr>d_rd := i_rd i, d_imm := i_imm i\<rparr>
     | K_Auipc \<Rightarrow> r\<lparr>d_rd := i_rd i, d_imm := pc + i_imm i\<rparr>
     | K_Jal \<Rightarrow> r\<lparr>d_rd := i_rd i, d_tgt := pc + i_imm i\<rparr>
     | K_Jalr \<Rightarrow> r\<lparr>d_rd := i_rd i, d_rs1 := i_rs1 i, d_imm := i_imm i\<rparr>
     | K_Branch \<Rightarrow> r\<lparr>d_rs1 := i_rs1 i, d_rs2 := i_rs2 i, d_tgt := pc + i_imm i\<rparr>
     | K_Load mk sg \<Rightarrow> r\<lparr>d_rd := i_rd i, d_rs1 := i_rs1 i, d_imm := i_imm i, d_mk := mk, d_sg := sg\<rparr>
     | K_Store mk \<Rightarrow> r\<lparr>d_rs1 := i_rs1 i, d_rs2 := i_rs2 i, d_imm := i_imm i, d_mk := mk\<rparr>
     | K_Imm \<Rightarrow> r\<lparr>d_rd := i_rd i, d_rs1 := i_rs1 i, d_imm := i_imm i\<rparr>
     | K_Shift \<Rightarrow> r\<lparr>d_rd := i_rd i, d_rs1 := i_rs1 i, d_imm := i_imm i AND 31\<rparr>
     | K_Reg \<Rightarrow> r\<lparr>d_rd := i_rd i, d_rs1 := i_rs1 i, d_rs2 := i_rs2 i\<rparr>
     | _ \<Rightarrow> r)"

lemma shamt_imm: "sext (drop_bit 20 w) 12 AND 31 = drop_bit 20 w AND (31 :: u32)"
proof -
  have "sext (drop_bit 20 w) 12 = signed_drop_bit 20 (push_bit 20 (drop_bit 20 w))" by (simp add: sext_def)
  then show ?thesis by (intro bit_word_eqI) (auto simp: bit_simps mask_32 simp del: bit_numeral_word_iff)
qed

lemma decode_row_exact:
  assumes k: "kind_of (i_op (decode w)) \<noteq> K_Halt"
  shows "decode_row waddr w = row_of (waddr * 4) w (decode w)"
proof -
  let ?f = "f_funct3 w"
  have r: "drop_bit 7 w AND 31 = f_rd w" "drop_bit 15 w AND 31 = f_rs1 w" "drop_bit 20 w AND 31 = f_rs2 w"
    by (simp_all add: fields)
  have sh: "sext (drop_bit 20 w) 12 AND 31 = f_rs2 w" using shamt_imm by (simp add: fields)
  note d = decode_row_columns sql_id_decode sql_imm_def sql_tgt_def sql_mk_def sql_iimm_sext sql_simm_sext sql_bimm_sext
      sql_jimm_sext sql_fields r Let_def
  note e = decode_def Let_def opcodes
  consider "f_opcode w = 55" | "f_opcode w = 23" | "f_opcode w = 111" | "f_opcode w = 103" | "f_opcode w = 99"
    | "f_opcode w = 3" | "f_opcode w = 35" | "f_opcode w = 15" | "f_opcode w = 19" | "f_opcode w = 51"
    | "f_opcode w = 115" | "f_opcode w \<notin> {55, 23, 111, 103, 99, 3, 35, 15, 19, 51, 115}" by blast
  then show ?thesis
  proof cases
    case 5
    then show ?thesis using k unfolding d unfolding e by (auto simp: row_of_def plain_row_def branch_op_def split: if_splits)
  next
    case 6
    then show ?thesis using k unfolding d unfolding e by (auto simp: row_of_def plain_row_def load_op_def split: if_splits)
  next
    case 7
    then show ?thesis using k unfolding d unfolding e by (auto simp: row_of_def plain_row_def store_op_def split: if_splits)
  next
    case 9
    then show ?thesis using k unfolding d unfolding e by (auto simp: row_of_def plain_row_def imm_op_def sh split: if_splits)
  next
    case 10
    then show ?thesis using k sql_funct3_cases [of w] unfolding d unfolding e
      by (auto simp: row_of_def plain_row_def reg_op_def mul_op_def split: if_splits)
  next
    case 11
    then show ?thesis using k unfolding d unfolding e by (auto split: if_splits)
  next
    case 12
    then show ?thesis using k unfolding d unfolding e by simp
  qed (use k in \<open>simp_all add: d e row_of_def plain_row_def split: if_splits\<close>)
qed

section \<open>Words that halt\<close>

text \<open>
  The row of a word that halts is never executed, and is still determined: an environment call, a breakpoint or a CSR
  instruction carries its registers; a word that decodes to nothing carries the operands of its opcode's format, with no
  access mask.
\<close>

definition illegal_row :: "u32 \<Rightarrow> u32 \<Rightarrow> dec_row" where
  "illegal_row pc w = (let r = plain_row 31 w; rd = ucast (f_rd w); rs1 = ucast (f_rs1 w); rs2 = ucast (f_rs2 w) in
     if f_opcode w \<in> {OP_JALR, OP_LOAD} then r\<lparr>d_rd := rd, d_rs1 := rs1, d_imm := sext (drop_bit 20 w) 12\<rparr>
     else if f_opcode w = OP_IMM then r\<lparr>d_rd := rd, d_rs1 := rs1, d_imm := sext (drop_bit 20 w) 12 AND 31\<rparr>
     else if f_opcode w = OP_BRANCH then r\<lparr>d_rs1 := rs1, d_rs2 := rs2, d_tgt := pc + sext (b_imm_bits w) 13\<rparr>
     else if f_opcode w = OP_STORE then r\<lparr>d_rs1 := rs1, d_rs2 := rs2, d_imm := sext (s_imm_bits w) 12\<rparr>
     else if f_opcode w = OP_REG then r\<lparr>d_rd := rd, d_rs1 := rs1, d_rs2 := rs2\<rparr>
     else if f_opcode w = OP_SYSTEM then r\<lparr>d_rd := rd, d_rs1 := rs1\<rparr> else r)"

definition halt_row :: "u32 \<Rightarrow> u32 \<Rightarrow> instruction \<Rightarrow> dec_row" where
  "halt_row pc w i = (if i_op i = Illegal then illegal_row pc w
     else (plain_row (op_id (i_op i)) w)\<lparr>d_rd := i_rd i, d_rs1 := i_rs1 i\<rparr>)"

lemma decode_row_halts:
  assumes k: "kind_of (i_op (decode w)) = K_Halt"
  shows "decode_row waddr w = halt_row (waddr * 4) w (decode w)"
proof -
  have r: "drop_bit 7 w AND 31 = f_rd w" "drop_bit 15 w AND 31 = f_rs1 w" "drop_bit 20 w AND 31 = f_rs2 w"
    by (simp_all add: fields)
  have sh: "sext (drop_bit 20 w) 12 AND 31 = f_rs2 w" using shamt_imm by (simp add: fields)
  note d = decode_row_columns sql_id_decode sql_imm_def sql_tgt_def sql_mk_def sql_iimm_sext sql_simm_sext sql_bimm_sext
      sql_jimm_sext sql_fields r Let_def
  note e = decode_def Let_def opcodes
  consider "f_opcode w = 55" | "f_opcode w = 23" | "f_opcode w = 111" | "f_opcode w = 103" | "f_opcode w = 99"
    | "f_opcode w = 3" | "f_opcode w = 35" | "f_opcode w = 15" | "f_opcode w = 19" | "f_opcode w = 51"
    | "f_opcode w = 115" | "f_opcode w \<notin> {55, 23, 111, 103, 99, 3, 35, 15, 19, 51, 115}" by blast
  then show ?thesis
  proof cases
    case 5
    then show ?thesis using k unfolding d unfolding e by (auto simp: halt_row_def illegal_row_def opcodes plain_row_def branch_op_def split: if_splits)
  next
    case 6
    then show ?thesis using k unfolding d unfolding e by (auto simp: halt_row_def illegal_row_def opcodes plain_row_def load_op_def split: if_splits)
  next
    case 7
    then show ?thesis using k unfolding d unfolding e by (auto simp: halt_row_def illegal_row_def opcodes plain_row_def store_op_def split: if_splits)
  next
    case 9
    then show ?thesis using k sql_funct3_cases [of w] unfolding d unfolding e
      by (auto simp: halt_row_def illegal_row_def opcodes plain_row_def imm_op_def sh split: if_splits)
  next
    case 10
    then show ?thesis using k sql_funct3_cases [of w] unfolding d unfolding e
      by (auto simp: halt_row_def illegal_row_def opcodes plain_row_def reg_op_def mul_op_def split: if_splits)
  next
    case 11
    then show ?thesis using k unfolding d unfolding e by (auto simp: halt_row_def illegal_row_def opcodes plain_row_def split: if_splits)
  next
    case 12
    then show ?thesis using k unfolding d unfolding e by (simp add: halt_row_def illegal_row_def opcodes plain_row_def)
  qed (use k in \<open>simp_all add: d e halt_row_def illegal_row_def opcodes plain_row_def split: if_splits\<close>)
qed

section \<open>The whole row\<close>

text \<open>The flags of an operation: signed operands and half of a product, signed quotient, comparison and its negation.\<close>

definition flags_of :: "op \<Rightarrow> u8 list" where
  "flags_of p = [of_bool (p \<in> {Mul, Mulh, Mulhsu}), of_bool (p \<in> {Mul, Mulh}), of_bool (p \<in> {Mulh, Mulhsu, Mulhu}), of_bool (p \<in> {Div, Rem}),
     (if p \<in> {Blt, Bge} then 1 else if p \<in> {Bltu, Bgeu} then 2 else 0), of_bool (p \<in> {Bne, Bge, Bgeu})]"

definition table_row :: "u32 \<Rightarrow> u32 \<Rightarrow> decoded_row" where
  "table_row waddr w = (let i = decode w; fl = flags_of (i_op i);
       r = (if kind_of (i_op i) = K_Halt then halt_row (waddr * 4) w i else row_of (waddr * 4) w i) in
     \<lparr> dc_spec_version = ''0.3.1'', dc_word_addr = waddr, dc_id = d_id r, dc_rd = d_rd r, dc_rs1 = d_rs1 r, dc_rs2 = d_rs2 r,
        dc_imm = d_imm r, dc_tgt = d_tgt r, dc_mk = d_mk r, dc_sg = d_sg r, dc_m_sg1 = fl ! 0, dc_m_sg2 = fl ! 1, dc_m_hi = fl ! 2,
        dc_d_sg = fl ! 3, dc_cmp_sel = fl ! 4, dc_neg = fl ! 5, dc_tgt_mis = of_bool (\<not> 4 dvd uint (d_tgt r)), dc_raw = w \<rparr>)"

lemma flag_columns:
  "[dc_m_sg1 (decoded_columns waddr w), dc_m_sg2 (decoded_columns waddr w), dc_m_hi (decoded_columns waddr w), dc_d_sg (decoded_columns waddr w),
     dc_cmp_sel (decoded_columns waddr w), dc_neg (decoded_columns waddr w)] = flags_of (i_op (decode w))"
proof -
  have f: "f_funct3 w = 0 \<or> f_funct3 w = 1 \<or> f_funct3 w = 2 \<or> f_funct3 w = 3 \<or> f_funct3 w = 4 \<or> f_funct3 w = 5 \<or> f_funct3 w = 6 \<or> f_funct3 w = 7"
    using sql_funct3_cases [of w] by simp
  have "f_opcode w \<in> {55, 23, 111, 103, 99, 3, 35, 15} \<or> f_opcode w = 19 \<or> f_opcode w = 51 \<or> f_opcode w = 115 \<or>
      f_opcode w \<notin> {55, 23, 111, 103, 99, 3, 35, 15, 19, 51, 115}" by blast
  then show ?thesis
    unfolding decoded_columns_def flags_of_def decode_def sql_fields Let_def opcodes
    by (elim disjE insertE emptyE; use f in \<open>elim disjE\<close>;
        simp add: branch_op_def load_op_def store_op_def imm_op_def mul_op_def reg_op_def)
qed

lemma target_misaligned: "(w :: u32) AND 3 \<noteq> 0 \<longleftrightarrow> \<not> 4 dvd uint w"
proof -
  have m: "(3 :: int) = mask 2" by (simp add: mask_eq_exp_minus_1)
  have "uint (w AND 3) = uint w AND 3" by (simp add: uint_and)
  also have "\<dots> = uint w mod 4" unfolding m take_bit_eq_mask [symmetric] by (simp add: take_bit_eq_mod)
  finally have "uint (w AND 3) = uint w mod 4" .
  then show ?thesis by (metis dvd_eq_mod_eq_0 uint_0_iff)
qed

lemma decoded_columns_exact: "decoded_columns waddr w = table_row waddr w"
proof -
  let ?i = "decode w"
  have r: "decode_row waddr w = (if kind_of (i_op ?i) = K_Halt then halt_row (waddr * 4) w ?i else row_of (waddr * 4) w ?i)"
    using decode_row_halts [of w waddr] decode_row_exact [of w waddr] by simp
  show ?thesis
    unfolding table_row_def Let_def r [symmetric]
    by (rule decoded_row.equality) (simp_all add: flag_columns [of waddr w, symmetric] decode_row_def captured_def,
      simp_all add: decoded_columns_def Let_def target_misaligned)
qed

end
