(* ===== verification/Sql_Refines.thy ===== *)
theory Sql_Refines
  imports Sql_Decode Machine_Properties
begin

text \<open>
  The step of the fold implements the step of the reference machine.  The accumulator together with the
  captured tables stands for a machine: the write log over the captured RAM is its memory, the registers
  are its registers less \<open>x0\<close>.  Every operation, device register, halt and memory region is covered; the one
  access the two engines are allowed to differ on is a load from the framebuffer or the palette.
\<close>

section \<open>Write logs\<close>

definition log_read :: "u32 list \<Rightarrow> 'a list \<Rightarrow> 'a \<Rightarrow> u32 \<Rightarrow> 'a" where
  "log_read addrs vals d w = (if 0 < array_last_index w addrs
     then array_element d vals (array_last_index w addrs) else d)"

lemma array_last_index_le: "array_last_index x xs \<le> length xs"
  by (induction xs) (auto simp: Let_def)

lemma array_last_index_snoc: "array_last_index x (xs @ [y]) = (if x = y then Suc (length xs) else array_last_index x xs)"
  by (induction xs) (auto simp: Let_def)

lemma array_last_index_0: "array_last_index x xs = 0 \<longleftrightarrow> x \<notin> set xs"
  by (induction xs) (auto simp: Let_def)

lemma log_read_nil [simp]: "log_read [] vals d w = d"
  by (simp add: log_read_def)

lemma log_read_snoc:
  assumes "length addrs = length vals"
  shows "log_read (addrs @ [x]) (vals @ [v]) d w = (if w = x then v else log_read addrs vals d w)"
  using assms array_last_index_le [of w addrs]
  by (auto simp: log_read_def array_last_index_snoc array_element_def nth_append)

lemma log_read_absent: "w \<notin> set addrs \<Longrightarrow> log_read addrs vals d w = d"
  by (simp add: log_read_def array_last_index_0 [THEN iffD2])

lemma sq_lw_log:
  assumes "length (acc_wl_addr a) = length (acc_wl_val a)"
  shows "sq_lw t a w = log_read (acc_wl_addr a) (acc_wl_val a) (array_element 0 (RAMT t) (unat w + 1)) w"
  using array_last_index_le [of w "acc_wl_addr a"] assms
  by (auto simp: sq_lw_def log_read_def array_element_def)

section \<open>The shape of a step\<close>

text \<open>What every active step records, whatever its instruction does.\<close>

definition record_cp :: "acc \<Rightarrow> nat \<Rightarrow> acc" where
  "record_cp a i = (if sq_at_checkpoint a i
     then a\<lparr>acc_cp_icount := acc_cp_icount a @ [acc_icount a], acc_cp_pc := acc_cp_pc a @ [acc_pc a],
            acc_cp_regs := acc_cp_regs a @ acc_regs a\<rparr> else a)"

definition put_reg :: "u8 \<Rightarrow> u32 \<Rightarrow> u32 list \<Rightarrow> u32 list" where
  "put_reg rd v regs = (if rd = 0 then regs else take (unat rd - 1) regs @ [v] @ drop (unat rd) regs)"

lemma put_reg_set: "length regs = 31 \<Longrightarrow> unat rd < 32 \<Longrightarrow> 0 # put_reg rd v regs = (0 # regs)[unat rd := v, 0 := 0]"
proof -
  assume l: "length regs = 31" "unat rd < 32"
  show ?thesis
  proof (cases "unat rd")
    case 0
    then have "rd = 0" by (simp add: unat_eq_0)
    then show ?thesis by (simp add: put_reg_def)
  next
    case (Suc n)
    then have "rd \<noteq> 0" by auto
    then show ?thesis using l Suc by (simp add: put_reg_def upd_conv_take_nth_drop)
  qed
qed

lemma fold_step_stopped: "acc_stopped a \<noteq> 0 \<Longrightarrow> fold_step v k t a i = a"
  by (simp add: fold_step_def Let_def push_if_def sq_retiring_store_def sq_at_checkpoint_def)

lemma fold_step_halts:
  assumes "acc_stopped a = 0" "d = sq_dec k t a" "sq_halt_code v k d a = hc" "hc \<noteq> 0"
  shows "fold_step v k t a i = (record_cp a i)\<lparr>acc_stopped := 1, acc_halted := 1, acc_halt_reason := hc,
     acc_halt_pc := acc_pc a, acc_halt_extra := sq_halt_extra v k d a hc\<rparr>"
  using assms by (auto simp: fold_step_def Let_def push_if_def sq_retiring_store_def record_cp_def)

definition retired :: "acc \<Rightarrow> nat \<Rightarrow> u32 \<Rightarrow> u32 list \<Rightarrow> acc" where
  "retired a i pc regs = (record_cp a i)\<lparr>acc_pc := pc, acc_regs := regs, acc_icount := acc_icount a + 1\<rparr>"

lemma fold_step_plain:
  assumes "acc_stopped a = 0" "d = sq_dec k t a" "sq_halt_code v k d a = 0" "d_id d \<noteq> ID_LOAD" "d_id d \<noteq> ID_STORE"
  shows "fold_step v k t a i = retired a i
     (sq_next (d_id d) (sq_a d a) (sq_b d a) (d_tgt d) (sq_jalr_target v (sq_addr d a)) (acc_pc a + 4))
     (put_reg (d_rd d) (sq_result (d_id d) (sq_a d a) (sq_b d a) 0 (acc_pc a + 4)) (acc_regs a))"
  using assms by (auto simp: fold_step_def Let_def push_if_def sq_retiring_store_def record_cp_def retired_def put_reg_def
      sq_is_mmio_store_def sq_is_mmio_load_def sq_result_def)

lemma sq_next_mem: "n = ID_LOAD \<or> n = ID_STORE \<Longrightarrow> sq_next n a b tgt j f = f"
  by (auto simp: sq_next_def op_ids)

lemma fold_step_load:
  assumes "acc_stopped a = 0" "d = sq_dec k t a" "sq_halt_code v k d a = 0" "d_id d = ID_LOAD" "addr = sq_addr d a"
  shows "fold_step v k t a i = (retired a i (acc_pc a + 4) (put_reg (d_rd d) (sq_loadv v k t d a addr) (acc_regs a)))
     \<lparr>acc_keyq_pos := (if sq_is_mmio_load v d addr \<and> mmio_is v addr KEYQ \<and> sq_keyq_has t a
        then acc_keyq_pos a + 1 else acc_keyq_pos a)\<rparr>"
  using assms by (auto simp: fold_step_def Let_def push_if_def sq_retiring_store_def record_cp_def retired_def put_reg_def
      sq_is_mmio_store_def sq_result_def sq_next_mem op_ids)

lemma fold_step_ram_store:
  assumes "acc_stopped a = 0" "d = sq_dec k t a" "sq_halt_code v k d a = 0" "d_id d = ID_STORE" "addr = sq_addr d a" "d_rd d = 0"
    and "\<not> sq_is_mmio v addr" "\<not> sq_is_fb addr" "\<not> sq_is_pal addr"
  shows "fold_step v k t a i = (retired a i (acc_pc a + 4) (acc_regs a))
     \<lparr>acc_wl_addr := acc_wl_addr a @ [sq_wa k addr],
      acc_wl_val := acc_wl_val a @ [sq_sval d (sq_lw t a (sq_wa k addr)) (sq_rs2v d a) addr],
      acc_wl_icount := acc_wl_icount a @ [acc_icount a + 1],
      acc_stopped := (if uint (fc_hwm k) \<le> uint (of_nat (length (acc_wl_addr a)) :: u32) + 1 then 1 else 0)\<rparr>"
  using assms by (auto simp: fold_step_def Let_def push_if_def sq_retiring_store_def sq_fb_or_pal_store_def record_cp_def retired_def
      sq_is_mmio_store_def sq_is_mmio_load_def sq_next_mem)

lemma fold_step_mmio_store:
  assumes "acc_stopped a = 0" "d = sq_dec k t a" "sq_halt_code v k d a = 0" "d_id d = ID_STORE" "addr = sq_addr d a" "d_rd d = 0"
    and "sq_is_mmio v addr" "\<not> sq_is_fb addr" "\<not> sq_is_pal addr"
  shows "fold_step v k t a i = (let word = d_mk d = 4294967295; x = sq_rs2v d a in (retired a i (acc_pc a + 4) (acc_regs a))
     \<lparr>acc_stopped := (if word \<and> mmio_is v addr FRAME_COMMIT then 1 else 0),
      acc_console := push_if (word \<and> mmio_is v addr PUTCHAR) (ucast (x AND 255)) (acc_console a),
      acc_frame_no := (if word \<and> mmio_is v addr FRAME_COMMIT then x else acc_frame_no a),
      acc_frame_committed := (if word \<and> mmio_is v addr FRAME_COMMIT then 1 else acc_frame_committed a)\<rparr>)"
  using assms by (auto simp: fold_step_def Let_def push_if_def sq_retiring_store_def sq_fb_or_pal_store_def record_cp_def retired_def
      sq_is_mmio_store_def sq_is_mmio_load_def sq_next_mem op_ids)


lemma fold_step_display_store:
  assumes "acc_stopped a = 0" "d = sq_dec k t a" "sq_halt_code v k d a = 0" "d_id d = ID_STORE" "addr = sq_addr d a" "d_rd d = 0"
    and "\<not> sq_is_mmio v addr" "sq_is_fb addr \<or> sq_is_pal addr"
  shows "fold_step v k t a i = (let x = sq_rs2v d a; fb = sq_is_fb addr; pal = sq_is_pal addr; ic = acc_icount a + 1 in
     (retired a i (acc_pc a + 4) (acc_regs a))
     \<lparr>acc_fb_addr := push_if fb (drop_bit 2 (addr - FRAMEBUFFER_BASE)) (acc_fb_addr a),
      acc_fb_val := push_if fb x (acc_fb_val a), acc_fb_icount := push_if fb ic (acc_fb_icount a),
      acc_pal_addr := push_if pal (drop_bit 2 (addr - PALETTE_BASE)) (acc_pal_addr a),
      acc_pal_val := push_if pal x (acc_pal_val a), acc_pal_icount := push_if pal ic (acc_pal_icount a)\<rparr>)"
  using assms by (auto simp: fold_step_def Let_def push_if_def sq_retiring_store_def sq_fb_or_pal_store_def record_cp_def retired_def
      sq_is_mmio_store_def sq_is_mmio_load_def sq_next_mem)

section \<open>The address tests\<close>

lemma sub_less_iff:
  fixes a b n :: u32
  assumes "unat b + unat n \<le> 2 ^ 32"
  shows "a - b < n \<longleftrightarrow> unat b \<le> unat a \<and> unat a < unat b + unat n"
proof (cases "b \<le> a")
  case True
  then have "unat (a - b) = unat a - unat b" by (rule unat_sub)
  then show ?thesis using True by (auto simp: word_less_nat_alt word_le_nat_alt)
next
  case False
  then have lt: "unat a < unat b" by (simp add: word_le_nat_alt)
  have "unat (a - b) = 2 ^ 32 + unat a - unat b"
    using lt by (simp add: unat_sub_if_size word_size)
  then show ?thesis using lt assms unsigned_less [of b] by (simp add: word_less_nat_alt)
qed

text \<open>Both formulations of every test decide the same.\<close>

lemma is_mmio_iff: "sq_is_mmio v addr \<longleftrightarrow> 0x10000000 \<le> unat addr \<and> unat addr < 0x10001000"
proof -
  have "addr AND 0xFFFFF000 = 0x10000000 \<longleftrightarrow> unat addr div 4096 = 65536"
  proof -
    have "addr AND 0xFFFFF000 = push_bit 12 (drop_bit 12 addr)"
    proof -
      have m: "(0xFFFFF000 :: u32) = push_bit 12 (mask 20)" by (simp add: push_bit_eq_mult mask_eq_exp_minus_1)
      show ?thesis unfolding m by (rule bit_word_eqI) (auto simp: bit_and_iff bit_push_bit_iff bit_mask_iff bit_drop_bit_eq)
    qed
    moreover have "(0x10000000 :: u32) = push_bit 12 (drop_bit 12 0x10000000)" by (simp add: push_bit_eq_mult drop_bit_eq_div)
    moreover have "push_bit 12 (drop_bit 12 x) = push_bit 12 (drop_bit 12 y) \<longleftrightarrow> drop_bit 12 x = drop_bit 12 y" for x y :: u32
    proof
      assume e: "push_bit 12 (drop_bit 12 x) = push_bit 12 (drop_bit 12 y)"
      show "drop_bit 12 x = drop_bit 12 y"
      proof (rule bit_word_eqI)
        fix n assume "n < LENGTH(32)"
        show "bit (drop_bit 12 x) n = bit (drop_bit 12 y) n"
          using arg_cong [OF e, of "\<lambda>z. bit z (n + 12)"]
          by (cases "n + 12 < 32") (auto simp: bit_push_bit_iff bit_drop_bit_eq dest: bit_imp_le_length)
      qed
    qed simp
    moreover have "drop_bit 12 addr = drop_bit 12 0x10000000 \<longleftrightarrow> unat addr div 4096 = 65536"
      by (simp add: word_unat_eq_iff unat_div drop_bit_eq_div)
    ultimately show ?thesis by metis
  qed
  moreover have "unat addr div 4096 = 65536 \<longleftrightarrow> 0x10000000 \<le> unat addr \<and> unat addr < 0x10001000"
    by (auto intro!: div_nat_eqI)
  moreover have "addr - MMIO_BASE < MMIO_SIZE \<longleftrightarrow> 0x10000000 \<le> unat addr \<and> unat addr < 0x10001000"
    by (subst sub_less_iff) (simp_all add: map_constants)
  ultimately show ?thesis by (simp add: sq_is_mmio_def map_constants)
qed

lemma is_fb_iff: "sq_is_fb addr \<longleftrightarrow> 0x11000000 \<le> unat addr \<and> unat addr < 0x1100FA00"
  unfolding sq_is_fb_def by (subst sub_less_iff) (simp_all add: map_constants)

lemma is_pal_iff: "sq_is_pal addr \<longleftrightarrow> 0x11010000 \<le> unat addr \<and> unat addr < 0x11010300"
  unfolding sq_is_pal_def by (subst sub_less_iff) (simp_all add: map_constants)

lemma mmio_is_iff: "mmio_is v addr r \<longleftrightarrow> addr = MMIO_BASE + r"
  by (auto simp: mmio_is_def)

lemma jalr_target_iff: "sq_jalr_target v addr = addr AND NOT 1"
proof -
  have "push_bit 1 (drop_bit 1 addr) = addr AND NOT 1" by (rule bit_word_eqI) (auto simp: bit_push_bit_iff bit_drop_bit_eq bit_and_iff bit_not_iff bit_1_iff simp del: push_bit_of_Suc_0 One_nat_def)
  moreover have "(4294967294 :: u32) = NOT 1" by simp
  ultimately show ?thesis unfolding sq_jalr_target_def by metis
qed

text \<open>RAM of \<open>words\<close> words at the base of the contract's map.\<close>

definition ram_cfg :: "fold_cfg \<Rightarrow> bool" where
  "ram_cfg k \<longleftrightarrow> fc_ram_base k = RAM_BASE \<and> 0 < unat (fc_ram_words k) \<and> unat (fc_ram_words k) < 2 ^ 29"

lemma ram_off_nat: "fc_ram_base k = RAM_BASE \<Longrightarrow> 0x80000000 \<le> unat addr \<Longrightarrow> unat (sq_ram_off k addr) = (unat addr - 0x80000000) div 4"
proof -
  assume b: "fc_ram_base k = RAM_BASE" "0x80000000 \<le> unat addr"
  have "unat (addr - RAM_BASE) = unat addr - 0x80000000"
    using b(2) by (subst unat_sub) (simp_all add: map_constants word_le_nat_alt)
  then show ?thesis by (simp add: sq_ram_off_def b(1) unat_div drop_bit_eq_div)
qed

lemma outside_ram_iff:
  assumes "ram_cfg k"
  shows "sq_outside_ram v k addr \<longleftrightarrow> \<not> (0x80000000 \<le> unat addr \<and> unat addr < 0x80000000 + 4 * unat (fc_ram_words k))"
proof -
  let ?n = "unat (fc_ram_words k)"
  have n: "0 < ?n" "?n < 2 ^ 29" and b: "fc_ram_base k = RAM_BASE" using assms by (auto simp: ram_cfg_def)
  have e: "unat (fc_ram_base k + fc_ram_words k * 4) = 0x80000000 + 4 * ?n"
    using n by (simp add: b map_constants unat_word_ariths)
  have one: "unat (fc_ram_words k - 1) = ?n - 1" using n(1) by (simp add: unat_minus_one unat_gt_0)
  have few: "fc_ram_words k - 1 < sq_ram_off k addr \<longleftrightarrow> \<not> (0x80000000 \<le> unat addr \<and> unat addr < 0x80000000 + 4 * ?n)"
  proof (cases "0x80000000 \<le> unat addr")
    case True
    then show ?thesis using ram_off_nat [OF b True] n by (simp add: word_less_nat_alt one) arith
  next
    case False
    then have "unat (addr - RAM_BASE) = 2 ^ 32 + unat addr - 0x80000000"
      by (simp add: unat_sub_if_size word_size map_constants)
    then have "unat (sq_ram_off k addr) = (2 ^ 32 + unat addr - 0x80000000) div 4"
      by (simp add: sq_ram_off_def b unat_div drop_bit_eq_div)
    then show ?thesis using False n by (simp add: word_less_nat_alt one)
  qed
  have "addr < fc_ram_base k \<or> fc_ram_base k + fc_ram_words k * 4 \<le> addr \<longleftrightarrow>
      \<not> (0x80000000 \<le> unat addr \<and> unat addr < 0x80000000 + 4 * ?n)"
    by (auto simp: word_less_nat_alt word_le_nat_alt e) (simp_all add: b map_constants)
  then show ?thesis by (simp add: sq_outside_ram_def few)
qed

lemma wa_nat:
  assumes "ram_cfg k" "0x80000000 \<le> unat addr" "unat addr < 0x80000000 + 4 * unat (fc_ram_words k)"
  shows "unat (sq_wa k addr) = (unat addr - 0x80000000) div 4"
proof -
  have b: "fc_ram_base k = RAM_BASE" and n: "0 < unat (fc_ram_words k)" using assms(1) by (auto simp: ram_cfg_def)
  have "unat (fc_ram_words k - 1) = unat (fc_ram_words k) - 1" using n by (simp add: unat_minus_one unat_gt_0)
  then have "sq_ram_off k addr \<le> fc_ram_words k - 1"
    using ram_off_nat [OF b assms(2)] assms(3) by (simp add: word_le_nat_alt)
  then show ?thesis using ram_off_nat [OF b assms(2)] by (simp add: sq_wa_def)
qed


section \<open>The machine's memory map\<close>

definition sql_map :: "fold_cfg \<Rightarrow> memory_map" where
  "sql_map k = with_ram_size map_clickdoom (4 * fc_ram_words k)"

lemma aligned_end:
  fixes x e :: nat
  assumes "w = 1 \<or> w = 2 \<or> w = 4" "x mod w = 0" "e mod 4 = 0" "x < e"
  shows "x + w \<le> e"
  using assms by (elim disjE) presburger+

lemma ram_size_nat: "ram_cfg k \<Longrightarrow> unat (4 * fc_ram_words k) = 4 * unat (fc_ram_words k)"
  by (simp add: ram_cfg_def unat_word_ariths)

lemma classify_sql:
  assumes "ram_cfg k" "access_width w" "unat addr mod unat w = 0"
  shows "classify (sql_map k) addr w =
    (if \<not> sq_outside_ram v k addr then Some (Ram, addr - RAM_BASE)
     else if sq_is_mmio v addr then Some (Mmio, addr - MMIO_BASE)
     else if sq_is_fb addr then Some (Framebuffer, addr - FRAMEBUFFER_BASE)
     else if sq_is_pal addr then Some (Palette, addr - PALETTE_BASE) else None)"
proof -
  let ?n = "unat (fc_ram_words k)"
  note w = access_width_unat [OF assms(2)]
  have in_region: "b \<le> unat addr \<and> unat addr + unat w \<le> e \<longleftrightarrow> b \<le> unat addr \<and> unat addr < e" if "e mod 4 = 0" for b e
    using aligned_end [OF w assms(3) that] access_width_bound [OF assms(2)] by auto
  have r: "unat RAM_BASE \<le> unat addr \<and> unat addr + unat w \<le> unat RAM_BASE + unat (4 * fc_ram_words k) \<longleftrightarrow> \<not> sq_outside_ram v k addr"
    unfolding outside_ram_iff [OF assms(1)] ram_size_nat [OF assms(1)] using in_region [of "0x80000000 + 4 * ?n" "0x80000000"]
    by (simp add: map_constants)
  have m: "unat MMIO_BASE \<le> unat addr \<and> unat addr + unat w \<le> unat MMIO_BASE + unat MMIO_SIZE \<longleftrightarrow> sq_is_mmio v addr"
    unfolding is_mmio_iff using in_region [of "0x10001000" "0x10000000"] by (simp add: map_constants)
  have f: "unat FRAMEBUFFER_BASE \<le> unat addr \<and> unat addr + unat w \<le> unat FRAMEBUFFER_BASE + unat FRAMEBUFFER_SIZE \<longleftrightarrow> sq_is_fb addr"
    unfolding is_fb_iff using in_region [of "0x1100FA00" "0x11000000"] by (simp add: map_constants)
  have p: "unat PALETTE_BASE \<le> unat addr \<and> unat addr + unat w \<le> unat PALETTE_BASE + unat PALETTE_SIZE \<longleftrightarrow> sq_is_pal addr"
    unfolding is_pal_iff using in_region [of "0x11010300" "0x11010000"] by (simp add: map_constants)
  show ?thesis
    by (simp add: classify_def sql_map_def with_ram_size_def map_clickdoom_def r m f p)
qed

text \<open>The mask of an access and its width.\<close>

definition mask_width :: "u32 \<Rightarrow> u32 \<Rightarrow> bool" where
  "mask_width mk w \<longleftrightarrow> mk = 255 \<and> w = 1 \<or> mk = 65535 \<and> w = 2 \<or> mk = 4294967295 \<and> w = 4"

lemma mask_width_access: "mask_width mk w \<Longrightarrow> access_width w"
  by (auto simp: mask_width_def access_width_def)

lemma align_mask_eq:
  assumes "mask_width mk w"
  shows "sq_align_mask v mk = w - 1"
  using assms by (auto simp: mask_width_def sq_align_mask_def)

lemma mod_4_and: "unat (x AND 3 :: u32) = unat x mod 4" "unat (x AND 1 :: u32) = unat x mod 2"
proof -
  have m: "(3 :: u32) = mask 2" "(1 :: u32) = mask 1" by (simp_all add: mask_eq_exp_minus_1)
  show "unat (x AND 3) = unat x mod 4" "unat (x AND 1) = unat x mod 2"
    unfolding m by (simp_all only: take_bit_eq_mask [symmetric] unsigned_take_bit_eq take_bit_eq_mod) (simp_all add: unat_mod)
qed

lemma misaligned_iff:
  assumes "mask_width mk w"
  shows "sq_misaligned v addr mk \<longleftrightarrow> unat addr mod unat w \<noteq> 0"
proof -
  have z: "x = 0 \<longleftrightarrow> unat x = 0" for x :: u32 by (simp add: unat_eq_0)
  show ?thesis using assms unfolding sq_misaligned_def align_mask_eq [OF assms] z
    by (auto simp: mask_width_def mod_4_and)
qed

lemma check_align_iff:
  assumes "access_width w"
  shows "check_align addr w = (if unat addr mod unat w \<noteq> 0 then Err (mem_fault.Misaligned addr w) else Ok ())"
proof -
  have "addr mod w = 0 \<longleftrightarrow> unat addr mod unat w = 0" by (metis unat_eq_0 unat_mod)
  moreover have "\<not> 1 < w \<Longrightarrow> unat w = 1" using assms by (auto simp: access_width_def)
  ultimately show ?thesis by (auto simp: check_align_def)
qed

section \<open>Words of a byte region\<close>

definition word_at :: "u8 list \<Rightarrow> nat \<Rightarrow> u32" where
  "word_at bs j = from_le_bytes (take 4 (drop (4 * j) bs))"

lemma bit_word_at: "4 * j + 4 \<le> length bs \<Longrightarrow> n < 32 \<Longrightarrow> bit (word_at bs j) n = bit (bs ! (4 * j + n div 8)) (n mod 8)"
  by (subst word_at_def) (auto simp: bit_from_le_bytes)


lemma mask_width_mask:
  assumes "mask_width mk w"
  shows "mk = mask (8 * unat w)" "unat w = 1 \<or> unat w = 2 \<or> unat w = 4"
  using assms by (auto simp: mask_width_def mask_eq_exp_minus_1)

lemma within_word:
  fixes off :: nat
  assumes "w = 1 \<or> w = 2 \<or> w = 4" "off mod w = 0"
  shows "off mod 4 + w \<le> 4"
  using assms by (elim disjE) (presburger+)

lemma bytes_are_word_field:
  assumes "mask_width mk w" "off mod unat w = 0" "4 * (off div 4) + 4 \<le> length bs"
  shows "from_le_bytes (take (unat w) (drop off bs)) = drop_bit (8 * (off mod 4)) (word_at bs (off div 4)) AND mk"
proof (rule bit_word_eqI)
  fix n assume "n < LENGTH(32)"
  then have n: "n < 32" by simp
  let ?r = "off mod 4" and ?w = "unat w"
  note m = mask_width_mask [OF assms(1)]
  have le: "?r + ?w \<le> 4" by (rule within_word [OF m(2) assms(2)])
  have off: "off = 4 * (off div 4) + ?r" by simp
  have len: "off + ?w \<le> length bs" using assms(3) le off by linarith
  have d: "(8 * ?r + n) div 8 = ?r + n div 8" "(8 * ?r + n) mod 8 = n mod 8" by simp_all
  show "bit (from_le_bytes (take ?w (drop off bs)) :: u32) n = bit (drop_bit (8 * ?r) (word_at bs (off div 4)) AND mk) n"
  proof (cases "n < 8 * ?w")
    case True
    then have q: "n div 8 < ?w" by (simp add: less_mult_imp_div_less mult.commute)
    have i: "4 * (off div 4) + (?r + n div 8) = off + n div 8" using off by linarith
    have "8 * ?r + n < 32" using True le by linarith
    then have "bit (drop_bit (8 * ?r) (word_at bs (off div 4)) AND mk) n = bit (bs ! (off + n div 8)) (n mod 8)"
      using True n bit_word_at [OF assms(3), of "8 * ?r + n"]
      by (simp only: m(1) bit_and_iff bit_mask_iff bit_drop_bit_eq comp_def d i) simp
    then show ?thesis using n q len by (simp add: bit_from_le_bytes)
  next
    case False
    then have "\<not> n div 8 < ?w" by simp
    then show ?thesis using False len by (simp add: bit_from_le_bytes m(1) bit_and_iff bit_mask_iff)
  qed
qed

lemma word_at_store:
  assumes "mask_width mk w" "off mod unat w = 0" "4 * (off div 4) + 4 \<le> length bs" "4 * j + 4 \<le> length bs"
  shows "word_at (slice_put bs off (to_le_bytes (unat w) v)) j =
    (if j = off div 4
     then (word_at bs j AND (4294967295 XOR push_bit (8 * (off mod 4)) mk)) OR push_bit (8 * (off mod 4)) (v AND mk)
     else word_at bs j)"
proof -
  let ?r = "off mod 4" and ?w = "unat w" and ?b = "slice_put bs off (to_le_bytes (unat w) v)"
  note m = mask_width_mask [OF assms(1)]
  have le: "?r + ?w \<le> 4" by (rule within_word [OF m(2) assms(2)])
  have off: "off = 4 * (off div 4) + ?r" by simp
  have len: "off + ?w \<le> length bs" using assms(3) le off by linarith
  have lb: "4 * j + 4 \<le> length ?b" using len assms(4) by simp
  have at: "bit (word_at ?b j) n = (if off \<le> 4 * j + n div 8 \<and> 4 * j + n div 8 < off + ?w
      then bit v (8 * (4 * j + n div 8 - off) + n mod 8) else bit (word_at bs j) n)" if n: "n < 32" for n
  proof -
    have i: "4 * j + n div 8 < length bs" using n assms(4) by linarith
    have "bit (word_at ?b j) n = bit (?b ! (4 * j + n div 8)) (n mod 8)" by (rule bit_word_at [OF lb n])
    also have "?b ! (4 * j + n div 8) = (if off \<le> 4 * j + n div 8 \<and> 4 * j + n div 8 < off + ?w
        then to_le_bytes ?w v ! (4 * j + n div 8 - off) else bs ! (4 * j + n div 8))"
      using nth_slice_put [of off "to_le_bytes ?w v" bs "4 * j + n div 8"] len i by simp
    finally show ?thesis using bit_word_at [OF assms(4) n] n
      by (auto simp: nth_to_le_bytes bit_simps dest: bit_imp_le_length)
  qed
  show ?thesis
  proof (cases "j = off div 4")
    case False
    have no: "\<not> (off \<le> 4 * j + q \<and> 4 * j + q < off + ?w)" if "q < 4" for q
    proof (cases "j < off div 4")
      case True
      then show ?thesis using off that by linarith
    next
      case nlt: False
      then have "off div 4 + 1 \<le> j" using False by simp
      then show ?thesis using off le by linarith
    qed
    have "word_at ?b j = word_at bs j"
    proof (rule bit_word_eqI)
      fix n assume "n < LENGTH(32)"
      then show "bit (word_at ?b j) n = bit (word_at bs j) n" using at [of n] no [of "n div 8"] by simp
    qed
    then show ?thesis using False by simp
  next
    case True
    have "word_at ?b j = (word_at bs j AND (4294967295 XOR push_bit (8 * ?r) mk)) OR push_bit (8 * ?r) (v AND mk)"
    proof (rule bit_word_eqI)
      fix n assume "n < LENGTH(32)"
      then have n: "n < 32" by simp
      have ones: "bit (4294967295 :: u32) n" using n by (simp only: all_ones_32 bit_mask_iff) simp
      have c: "off \<le> 4 * j + n div 8 \<and> 4 * j + n div 8 < off + ?w \<longleftrightarrow> 8 * ?r \<le> n \<and> n - 8 * ?r < 8 * ?w"
      proof -
        have "off \<le> 4 * j + n div 8 \<longleftrightarrow> ?r \<le> n div 8" "4 * j + n div 8 < off + ?w \<longleftrightarrow> n div 8 < ?r + ?w"
          using off True by linarith+
        moreover have "?r \<le> n div 8 \<longleftrightarrow> 8 * ?r \<le> n" by (simp add: less_eq_div_iff_mult_less_eq mult.commute)
        moreover have "n div 8 < ?r + ?w \<longleftrightarrow> n < 8 * (?r + ?w)" by (simp add: div_less_iff_less_mult mult.commute)
        moreover have "8 * ?r \<le> n \<Longrightarrow> n < 8 * (?r + ?w) \<longleftrightarrow> n - 8 * ?r < 8 * ?w"
          by (simp add: less_diff_conv2 distrib_left add.commute)
        ultimately show ?thesis by blast
      qed
      have v: "8 * (4 * j + n div 8 - off) + n mod 8 = n - 8 * ?r" if "8 * ?r \<le> n"
      proof -
        have "4 * j + n div 8 - off = n div 8 - ?r" using off True by linarith
        moreover have "8 * (n div 8 - ?r) + n mod 8 = n - 8 * ?r" using that div_mult_mod_eq [of n 8] by linarith
        ultimately show ?thesis by simp
      qed
      show "bit (word_at ?b j) n = bit ((word_at bs j AND (4294967295 XOR push_bit (8 * ?r) mk)) OR push_bit (8 * ?r) (v AND mk)) n"
        using n ones v less_imp_diff_less [OF n, of "8 * ?r"] unfolding at [OF n] c m(1)
        by (auto simp only: bit_or_iff bit_and_iff bit_xor_iff bit_push_bit_iff bit_mask_iff if_True if_False split: if_splits) auto
    qed
    then show ?thesis using True by simp
  qed
qed

section \<open>The simulation\<close>

text \<open>
  The configuration of a run and the tables the fold captures: the text window starts where RAM does,
  every word of it is decoded, RAM is dense, and the queue is short enough to count in 32 bits.
\<close>

definition tables_ok :: "fold_cfg \<Rightarrow> fold_tables \<Rightarrow> bool" where
  "tables_ok k t \<longleftrightarrow> ram_cfg k \<and> fc_ipms k \<noteq> 0 \<and> widx_get (text_start_widx k) = 0 \<and>
     0 < unat (widx_get (text_end_widx k)) \<and> unat (widx_get (text_end_widx k)) \<le> unat (fc_ram_words k) \<and>
     fc_decn k = widx_get (text_end_widx k) \<and> length (RAMT t) = unat (fc_ram_words k) \<and>
     length (DEC t) = unat (fc_decn k) \<and>
     (\<forall>i < length (DEC t). DEC t ! i = decode_row (word_addr_get word_addr_ram_base + of_nat i) (RAMT t ! i)) \<and>
     length (KEYQT t) < 2 ^ 32"

definition registers_sim :: "fold_cfg \<Rightarrow> fold_tables \<Rightarrow> registers \<Rightarrow> acc \<Rightarrow> registers \<Rightarrow> bool" where
  "registers_sim k t r0 a r \<longleftrightarrow> ipms r = fc_ipms k \<and> unat (acc_keyq_pos a) \<le> length (KEYQT t) \<and>
     map (\<lambda>e. key_event (pressed e) (doomkey e)) (key_queue r) = map ucast (drop (unat (acc_keyq_pos a)) (KEYQT t)) \<and>
     console r = console r0 @ acc_console a \<and>
     frame_commits r = frame_commits r0 @ (if acc_frame_committed a = 0 then []
       else [\<lparr>frame_no = acc_frame_no a, commit_icount = acc_icount a - 1\<rparr>])"

definition memory_sim :: "fold_cfg \<Rightarrow> fold_tables \<Rightarrow> memory \<Rightarrow> acc \<Rightarrow> memory \<Rightarrow> bool" where
  "memory_sim k t m0 a m \<longleftrightarrow> mem_map m = sql_map k \<and>
     text_region m = Some (RAM_BASE, RAM_BASE + 4 * widx_get (text_end_widx k)) \<and>
     (\<forall>j < unat (fc_ram_words k). word_at (ram m) j = sq_lw t a (of_nat j)) \<and>
     length (acc_wl_addr a) = length (acc_wl_val a) \<and> (\<forall>w \<in> set (acc_wl_addr a). widx_get (text_end_widx k) \<le> w) \<and>
     length (acc_fb_addr a) = length (acc_fb_val a) \<and> length (acc_pal_addr a) = length (acc_pal_val a) \<and>
     (\<forall>j < 16000. word_at (framebuffer m) j = log_read (acc_fb_addr a) (acc_fb_val a) (word_at (framebuffer m0) j) (of_nat j)) \<and>
     (\<forall>j < 192. word_at (palette m) j = log_read (acc_pal_addr a) (acc_pal_val a) (word_at (palette m0) j) (of_nat j)) \<and>
     (\<exists>r r0. devices m = Registers r \<and> devices m0 = Registers r0 \<and> registers_sim k t r0 a r)"

definition sim :: "fold_cfg \<Rightarrow> fold_tables \<Rightarrow> memory \<Rightarrow> acc \<Rightarrow> cpu \<Rightarrow> bool" where
  "sim k t m0 a c \<longleftrightarrow> cpu_inv c \<and> cpu_pc c = acc_pc a \<and> aligned4 (acc_pc a) \<and>
     cpu_regs c = 0 # acc_regs a \<and> cpu_icount c = acc_icount a \<and> memory_sim k t m0 a (cpu_memory c)"

lemma sim_regs: "sim k t m0 a c \<Longrightarrow> length (acc_regs a) = 31"
  by (auto simp: sim_def cpu_inv_def regs_ok_def)

lemma sq_reg_sim:
  assumes "sim k t m0 a c" "unat i < 32"
  shows "reg c i = Some (sq_reg a i)"
proof -
  have l: "length (acc_regs a) = 31" by (rule sim_regs [OF assms(1)])
  have r: "cpu_regs c = 0 # acc_regs a" using assms(1) by (simp add: sim_def)
  show ?thesis
  proof (cases "unat i")
    case 0
    then have "i = 0" by (simp add: unat_eq_0)
    then show ?thesis by (simp add: reg_def r sq_reg_def)
  next
    case (Suc n)
    then have "i \<noteq> 0" by auto
    then show ?thesis using Suc assms(2) l by (simp add: reg_def r sq_reg_def array_element_def)
  qed
qed

lemma text_word_bound: "tables_ok k t \<Longrightarrow> unat (4 * widx_get (text_end_widx k)) = 4 * unat (widx_get (text_end_widx k))"
  by (simp add: tables_ok_def ram_cfg_def unat_word_ariths)

lemma pc_widx_nat:
  assumes "fc_ram_base k = RAM_BASE" "0x80000000 \<le> unat (acc_pc a)"
  shows "unat (sq_pc_widx k a) = (unat (acc_pc a) - 0x80000000) div 4"
  using ram_off_nat [OF assms] by (simp add: sq_pc_widx_def sq_ram_off_def)

lemma outside_text_iff:
  assumes "tables_ok k t" "sim k t m0 a c"
  shows "outside_text c \<longleftrightarrow> pc_out_of_text k a"
    and "\<not> pc_out_of_text k a \<longleftrightarrow> 0x80000000 \<le> unat (acc_pc a) \<and> unat (acc_pc a) < 0x80000000 + 4 * unat (widx_get (text_end_widx k))"
proof -
  let ?e = "widx_get (text_end_widx k)"
  have t: "ram_cfg k" "widx_get (text_start_widx k) = 0" "0 < unat ?e" "unat ?e \<le> unat (fc_ram_words k)"
    using assms(1) by (auto simp: tables_ok_def)
  have b: "fc_ram_base k = RAM_BASE" and n: "unat ?e < 2 ^ 29" using t by (auto simp: ram_cfg_def)
  have e0: "?e \<noteq> 0" using t(3) by auto
  have c: "cpu_pc c = acc_pc a" "text_region (cpu_memory c) = Some (RAM_BASE, RAM_BASE + 4 * ?e)"
    using assms(2) by (auto simp: sim_def memory_sim_def)
  have u: "unat (RAM_BASE + 4 * ?e) = 0x80000000 + 4 * unat ?e"
    using n by (simp add: map_constants unat_word_ariths)
  have out: "outside_text c \<longleftrightarrow> \<not> (0x80000000 \<le> unat (acc_pc a) \<and> unat (acc_pc a) < 0x80000000 + 4 * unat ?e)"
    by (simp add: outside_text_def c word_le_nat_alt word_less_nat_alt u) (simp add: map_constants)
  have pc: "pc_out_of_text k a \<longleftrightarrow> unat ?e \<le> unat (sq_pc_widx k a)"
    using e0 by (simp add: pc_out_of_text_def t(2) word_le_nat_alt)
  show two: "\<not> pc_out_of_text k a \<longleftrightarrow> 0x80000000 \<le> unat (acc_pc a) \<and> unat (acc_pc a) < 0x80000000 + 4 * unat ?e"
  proof (cases "0x80000000 \<le> unat (acc_pc a)")
    case True
    then show ?thesis using pc_widx_nat [OF b True] unfolding pc by linarith
  next
    case False
    then have "unat (acc_pc a - RAM_BASE) = 2 ^ 32 + unat (acc_pc a) - 0x80000000"
      by (simp add: unat_sub_if_size word_size map_constants)
    then have "unat (sq_pc_widx k a) = (2 ^ 32 + unat (acc_pc a) - 0x80000000) div 4"
      by (simp add: sq_pc_widx_def b unat_div drop_bit_eq_div)
    then show ?thesis using False n unfolding pc by simp
  qed
  show "outside_text c \<longleftrightarrow> pc_out_of_text k a" using out two by blast
qed

lemma fetch_sim:
  assumes "tables_ok k t" "sim k t m0 a c" "\<not> pc_out_of_text k a"
  obtains w where "fetch c = (Ok (w, decode w), c)" "sq_dec k t a = decode_row (drop_bit 2 (acc_pc a)) w"
    "drop_bit 2 (acc_pc a) * 4 = acc_pc a"
proof -
  let ?e = "widx_get (text_end_widx k)" and ?m = "cpu_memory c" and ?pc = "acc_pc a" and ?i = "sq_pc_widx k a"
  let ?w = "word_at (ram ?m) (unat ?i)"
  have t: "ram_cfg k" "0 < unat ?e" "unat ?e \<le> unat (fc_ram_words k)" "fc_decn k = ?e" "length (RAMT t) = unat (fc_ram_words k)"
    "length (DEC t) = unat ?e" "\<And>i. i < unat ?e \<Longrightarrow> DEC t ! i = decode_row (word_addr_get word_addr_ram_base + of_nat i) (RAMT t ! i)"
    using assms(1) by (auto simp: tables_ok_def)
  have b: "fc_ram_base k = RAM_BASE" using t(1) by (simp add: ram_cfg_def)
  have s: "cpu_inv c" "cpu_pc c = ?pc" "unat ?pc mod 4 = 0" "mem_map ?m = sql_map k" "mem_wf ?m"
    "\<And>j. j < unat (fc_ram_words k) \<Longrightarrow> word_at (ram ?m) j = sq_lw t a (of_nat j)"
    "length (acc_wl_addr a) = length (acc_wl_val a)" "\<And>w. w \<in> set (acc_wl_addr a) \<Longrightarrow> ?e \<le> w"
    using assms(2) by (auto simp: sim_def memory_sim_def cpu_inv_def aligned4_def)
  have p: "0x80000000 \<le> unat ?pc" "unat ?pc < 0x80000000 + 4 * unat ?e" using outside_text_iff(2) [OF assms(1,2)] assms(3) by auto
  have i: "unat ?i = (unat ?pc - 0x80000000) div 4" by (rule pc_widx_nat [OF b p(1)])
  have ie: "unat ?i < unat ?e" unfolding i using p by linarith
  have off: "unat (?pc - RAM_BASE) = 4 * unat ?i"
  proof -
    have "unat (?pc - RAM_BASE) = unat ?pc - 0x80000000"
      using p(1) by (subst unat_sub) (simp_all add: map_constants word_le_nat_alt)
    moreover have "4 dvd unat ?pc - 0x80000000" using s(3) by (intro dvd_diff_nat) (simp_all add: dvd_eq_mod_eq_0)
    ultimately show ?thesis unfolding i by simp
  qed
  have ram: "\<not> sq_outside_ram Baseline k ?pc" using outside_ram_iff [OF t(1)] p t(3) by simp
  have cl: "classify (mem_map ?m) ?pc 4 = Some (Ram, ?pc - RAM_BASE)"
    using classify_sql [OF t(1), of 4 ?pc Baseline] s(3) ram by (simp add: s(4) access_width_def)
  have rd: "mem_read ?m ?pc 4 (cpu_icount c) = (Ok ?w, ?m)"
    using mem_read_region [OF s(5), of 4 ?pc Ram "?pc - RAM_BASE" "cpu_icount c"] cl s(3) off
    by (simp add: access_width_def check_align_iff word_at_def)
  have absent: "?i \<notin> set (acc_wl_addr a)" using s(8) [of ?i] ie by (auto simp: word_le_nat_alt)
  have wi: "?w = RAMT t ! unat ?i"
    using s(6) [of "unat ?i"] ie t(3,5) sq_lw_log [OF s(7), of t ?i] log_read_absent [OF absent]
    by (simp add: array_element_def)
  have four: "drop_bit 2 ?pc * 4 = ?pc"
  proof -
    have q: "unat ?pc div 4 * 4 = unat ?pc" using s(3) by (simp add: dvd_eq_mod_eq_0 [symmetric])
    have "unat (drop_bit 2 ?pc * 4) = (unat ?pc div 4 * 4) mod 2 ^ 32"
      by (simp add: drop_bit_eq_div unat_word_ariths unat_div mod_mult_left_eq)
    also have "\<dots> = unat ?pc" unfolding q using unsigned_less [of ?pc] by (intro mod_less) simp
    finally show ?thesis by (simp add: word_unat_eq_iff)
  qed
  have wa: "word_addr_get word_addr_ram_base + ?i = drop_bit 2 ?pc"
  proof -
    have q: "unat ?pc div 4 = 536870912 + (unat ?pc - 0x80000000) div 4" using p(1) by linarith
    have "?i = drop_bit 2 ?pc - 0x20000000"
      using i q by (simp add: word_unat_eq_iff unat_sub_if' unat_div drop_bit_eq_div)
    then show ?thesis by (simp add: word_addr_ram_base_def map_constants)
  qed
  have "unat (?e - 1) = unat ?e - 1" using t(2) by (intro unat_minus_one) auto
  then have "?i \<le> fc_decn k - 1" using ie by (simp add: t(4) word_le_nat_alt)
  then have "min ?i (fc_decn k - 1) = ?i" by simp
  then have dec: "sq_dec k t a = decode_row (drop_bit 2 ?pc) ?w"
    using ie t(6) t(7) [OF ie] by (simp add: sq_dec_def array_element_def wa wi)
  have "fetch c = (Ok (?w, decode ?w), c)"
  proof (cases "Option.bind (cpu_cache c) (\<lambda>kc. cache_get kc (cpu_pc c))")
    case None
    then show ?thesis using rd s(2) by (simp add: fetch_def)
  next
    case (Some ent)
    then obtain kc where kc: "cpu_cache c = Some kc" "cache_get kc (cpu_pc c) = Some ent" by (auto simp: bind_eq_Some_conv)
    then have ok: "cache_agrees ?m kc" using s(1) by (auto simp: cpu_inv_def cache_ok_def)
    show ?thesis using Some cache_hit_is_fetch(1) [OF ok s(5) kc(2), of "cpu_icount c"] cache_hit_is_fetch(2) [OF ok s(5) kc(2)] rd s(2) by (simp add: fetch_def)
  qed
  then show ?thesis using dec four that by blast
qed

section \<open>Halt codes by operation\<close>

lemma small_ids: "n = ID_LOAD \<longleftrightarrow> n = 18" "n = ID_STORE \<longleftrightarrow> n = 19" by (simp_all add: op_ids)

lemma hc_plain:
  assumes "\<not> pc_out_of_text k a" "d_id d < 18"
  shows "sq_halt_code v k d a = 0"
proof -
  have "d_id d \<noteq> 18" "d_id d \<noteq> 19" "\<not> 20 \<le> d_id d" "d_id d \<noteq> 28" "d_id d \<noteq> 29" "d_id d \<noteq> 30" "d_id d \<noteq> 31"
    using assms(2) by (auto simp: word_less_nat_alt word_le_nat_alt)
  then show ?thesis using assms(1)
    by (simp add: sq_halt_code_def Let_def op_ids halt_codes sq_jump_misaligned_def sq_is_mmio_store_def sq_fb_or_pal_store_def)
qed

lemma hc_jump:
  assumes "\<not> pc_out_of_text k a" "20 \<le> d_id d" "d_id d \<le> 27"
  shows "sq_halt_code v k d a =
    (if sq_jump_misaligned (d_id d) (sq_a d a) (sq_b d a) (d_tgt d) (sq_addr d a AND NOT 1) then HALT_MISALIGNED else 0)"
proof -
  have "d_id d \<noteq> 18" "d_id d \<noteq> 19" "d_id d \<noteq> 28" "d_id d \<noteq> 29" "d_id d \<noteq> 30" "d_id d \<noteq> 31"
    using assms(2,3) by (auto simp: word_less_nat_alt word_le_nat_alt)
  then show ?thesis using assms(1)
    by (simp add: sq_halt_code_def Let_def op_ids HALT_NONE_def jalr_target_iff sq_is_mmio_store_def sq_fb_or_pal_store_def)
qed

lemma hc_load:
  assumes "\<not> pc_out_of_text k a" "d_id d = 18" "mask_width (d_mk d) w" "addr = sq_addr d a"
  shows "sq_halt_code v k d a = (if unat addr mod unat w \<noteq> 0 then HALT_MISALIGNED
     else if sq_outside_ram v k addr \<and> \<not> sq_is_mmio v addr then HALT_BAD_ADDR else 0)"
  using assms misaligned_iff [OF assms(3), of v addr]
  by (simp add: sq_halt_code_def Let_def op_ids HALT_NONE_def sq_jump_misaligned_def sq_taken_def sq_bad_addr_def sq_is_mmio_store_def
      sq_fb_or_pal_store_def)

lemma clamped_wa:
  assumes "ram_cfg k" "unat addr < 0x80000000"
  shows "sq_wa k addr = fc_ram_words k - 1"
proof -
  have b: "fc_ram_base k = RAM_BASE" and n: "0 < unat (fc_ram_words k)" "unat (fc_ram_words k) < 2 ^ 29"
    using assms(1) by (auto simp: ram_cfg_def)
  have "unat (addr - RAM_BASE) = 2 ^ 32 + unat addr - 0x80000000"
    using assms(2) by (simp add: unat_sub_if_size word_size map_constants)
  then have "unat (sq_ram_off k addr) = (2 ^ 32 + unat addr - 0x80000000) div 4"
    by (simp add: sq_ram_off_def b unat_div drop_bit_eq_div)
  moreover have "unat (fc_ram_words k - 1) = unat (fc_ram_words k) - 1" using n(1) by (intro unat_minus_one) auto
  ultimately have "fc_ram_words k - 1 \<le> sq_ram_off k addr" using n by (simp add: word_le_nat_alt)
  then show ?thesis by (simp add: sq_wa_def)
qed

text \<open>Where the guard on display stores is left out, their clamped word is past the text window.\<close>

lemma display_guard:
  assumes "ram_cfg k" "fb_pal_wa_provably_outside_text (fc_ram_base k) (fc_ram_words k) e" "sq_is_fb addr \<or> sq_is_pal addr"
  shows "\<not> sq_wa k addr < e"
proof -
  have "unat addr < 0x80000000" using assms(3) by (auto simp: is_fb_iff is_pal_iff)
  then have "sq_wa k addr = fc_ram_words k - 1" by (rule clamped_wa [OF assms(1)])
  then show ?thesis using assms(2) by (simp add: fb_pal_wa_provably_outside_text_def Let_def)
qed

lemma hc_store:
  assumes "tables_ok k t" "\<not> pc_out_of_text k a" "d_id d = 19" "mask_width (d_mk d) w" "addr = sq_addr d a"
  shows "sq_halt_code v k d a = (let display = sq_is_fb addr \<or> sq_is_pal addr; word = d_mk d = 4294967295 in
     if unat addr mod unat w \<noteq> 0 then HALT_MISALIGNED
     else if sq_outside_ram v k addr \<and> \<not> sq_is_mmio v addr \<and> \<not> display then HALT_BAD_ADDR
     else if display \<and> \<not> word then HALT_BAD_ADDR
     else if \<not> sq_is_mmio v addr \<and> \<not> display \<and> sq_wa k addr < widx_get (text_end_widx k) then HALT_SELF_MODIFY
     else if sq_is_mmio v addr \<and> word \<and> addr = MMIO_BASE + EXIT then HALT_EXIT else 0)"
proof -
  let ?e = "widx_get (text_end_widx k)"
  have t: "ram_cfg k" "widx_get (text_start_widx k) = 0" "0 < unat ?e" using assms(1) by (auto simp: tables_ok_def)
  have e: "?e \<noteq> 0" using t(3) by auto
  have one: "unat (?e - 1) = unat ?e - 1" using e by (rule unat_minus_one)
  have "x \<le> ?e - 1 \<longleftrightarrow> x < ?e" for x using t(3) one unfolding word_le_nat_alt word_less_nat_alt by linarith
  then have u: "sq_text_upper v k x \<longleftrightarrow> x < ?e" for x by (simp add: sq_text_upper_def)
  have g: "\<not> (fb_pal_wa_provably_outside_text (fc_ram_base k) (fc_ram_words k) ?e \<and> (sq_is_fb addr \<or> sq_is_pal addr) \<and> sq_wa k addr < ?e)"
    using display_guard [OF t(1)] by blast
  have s: "sq_fb_or_pal_store d addr \<longleftrightarrow> sq_is_fb addr \<or> sq_is_pal addr" using assms(3) by (simp add: sq_fb_or_pal_store_def op_ids)
  have m: "sq_is_mmio_store v d addr \<longleftrightarrow> sq_is_mmio v addr \<and> d_mk d = 4294967295" using assms(3) by (simp add: sq_is_mmio_store_def op_ids)
  have md: "sq_is_mmio v addr \<Longrightarrow> \<not> (sq_is_fb addr \<or> sq_is_pal addr)" by (auto simp: is_mmio_iff is_fb_iff is_pal_iff)
  have j: "\<not> sq_jump_misaligned (d_id d) x y z z'" for x y z z' using assms(3) by (simp add: sq_jump_misaligned_def)
  note ids = assms(3) op_ids j [unfolded assms(3)] HALT_NONE_def
  note unf = sq_halt_code_def Let_def assms(5) [symmetric] s m u mmio_is_iff misaligned_iff [OF assms(4)] sq_bad_addr_def t(2)
  consider (mmio) "sq_is_mmio v addr" "\<not> sq_is_fb addr" "\<not> sq_is_pal addr"
    | (display) "\<not> sq_is_mmio v addr" "sq_is_fb addr \<or> sq_is_pal addr"
    | (other) "\<not> sq_is_mmio v addr" "\<not> sq_is_fb addr" "\<not> sq_is_pal addr" using md by blast
  then show ?thesis
  proof cases
    case mmio
    then show ?thesis using assms(2) unfolding unf by (simp add: ids)
  next
    case display
    then show ?thesis using assms(2) g unfolding unf by (simp add: ids) blast
  next
    case other
    then show ?thesis using assms(2) unfolding unf by (simp add: ids)
  qed
qed

section \<open>Steps that leave memory alone\<close>

lemma memory_sim_retired:
  assumes "memory_sim k t m0 a m" "acc_frame_committed a = 0"
  shows "memory_sim k t m0 (retired a i pc regs) m"
proof -
  let ?b = "retired a i pc regs"
  have e: "acc_wl_addr ?b = acc_wl_addr a" "acc_wl_val ?b = acc_wl_val a" "acc_fb_addr ?b = acc_fb_addr a"
    "acc_fb_val ?b = acc_fb_val a" "acc_pal_addr ?b = acc_pal_addr a" "acc_pal_val ?b = acc_pal_val a"
    "acc_keyq_pos ?b = acc_keyq_pos a" "acc_console ?b = acc_console a" "acc_frame_committed ?b = 0"
    using assms(2) by (simp_all add: retired_def record_cp_def)
  have lw: "sq_lw t ?b w = sq_lw t a w" for w by (simp add: sq_lw_def e)
  show ?thesis using assms unfolding memory_sim_def registers_sim_def e lw by simp
qed

lemma sim_retired:
  assumes "sim k t m0 a c" "acc_frame_committed a = 0" "aligned4 pc" "length regs = 31"
  shows "sim k t m0 (retired a i pc regs) (c\<lparr>cpu_regs := 0 # regs, cpu_icount := cpu_icount c + 1, cpu_pc := pc\<rparr>)"
proof -
  let ?b = "retired a i pc regs"
  have e: "acc_pc ?b = pc" "acc_regs ?b = regs" "acc_icount ?b = acc_icount a + 1" by (simp_all add: retired_def)
  have "memory_sim k t m0 ?b (cpu_memory c)" using memory_sim_retired assms(1,2) by (simp add: sim_def)
  then show ?thesis using assms(1,3,4) by (auto simp: sim_def e cpu_inv_def regs_ok_def split: option.splits)
qed

lemma length_put_reg: "length regs = 31 \<Longrightarrow> unat rd < 32 \<Longrightarrow> length (put_reg rd v regs) = 31"
  using arg_cong [OF put_reg_set [of regs rd v], of length] by (simp split: nat.splits)

lemma retire_sim:
  assumes "sim k t m0 a c" "unat rd < 32"
  shows "retire c rd (Some x) n = (Ok n, c\<lparr>cpu_regs := 0 # put_reg rd x (acc_regs a)\<rparr>)"
proof -
  have "cpu_regs c = 0 # acc_regs a" "length (acc_regs a) = 31" using assms(1) sim_regs by (auto simp: sim_def)
  then show ?thesis using set_reg_Some(1) [of c rd x] put_reg_set [of "acc_regs a" rd x] assms(2) by (simp add: retire_def)
qed

lemma same_regs: "sim k t m0 a c \<Longrightarrow> c\<lparr>cpu_regs := 0 # acc_regs a\<rparr> = c"
  by (simp add: sim_def)

lemma div_arm: "div_val x y = (if y = 0 then 4294967295 else word_of_int (sint x sdiv sq_nz_sb64 y))"
  and rem_arm: "rem_val x y = (if y = 0 then x else word_of_int (sint x smod sq_nz_sb64 y))"
  by (auto simp: div_val_def rem_val_def sq_nz_sb64_def INT_MIN_def MINUS_ONE_def signed_divide_int_def signed_modulo_int_def)

lemma mul_arm: "word_of_int (sint x * sint y) = (x * y :: u32)"
  using wrap_sint [of x] wrap_sint [of y] unfolding wrap_def by (metis wi_hom_mult)

lemma exec_plain:
  assumes "sim k t m0 a c" "i = decode w" "d = row_of pc w i" "pc = acc_pc a"
    and "kind_of (i_op i) \<in> {K_Upper, K_Auipc, K_Imm, K_Shift, K_Reg, K_Fence}"
  shows "d_id d < 18" "execute c pc w i = (Ok (pc + 4),
     c\<lparr>cpu_regs := 0 # put_reg (d_rd d) (sq_result (d_id d) (sq_a d a) (sq_b d a) 0 (pc + 4)) (acc_regs a)\<rparr>)"
proof -
  have b: "unat (i_rd i) < 32" "unat (i_rs1 i) < 32" "unat (i_rs2 i) < 32" using decode_regs_bound assms(2) by auto
  note r = sq_reg_sim [OF assms(1) b(2)] sq_reg_sim [OF assms(1) b(3)]
  note f = row_of_def plain_row_def sq_a_def sq_b_def
  have z: "sq_reg a 0 = 0" by (simp add: sq_reg_def)
  show "d_id d < 18" using assms(5) unfolding assms(3) by (cases "i_op i") (simp_all add: f)
  show "execute c pc w i = (Ok (pc + 4),
     c\<lparr>cpu_regs := 0 # put_reg (d_rd d) (sq_result (d_id d) (sq_a d a) (sq_b d a) 0 (pc + 4)) (acc_regs a)\<rparr>)"
    using assms(5) unfolding assms(3)
    by (cases "i_op i") (simp_all add: execute_def f r z retire_sim [OF assms(1) b(1)] sq_result_def
        div_arm rem_arm mul_arm divu_val_def remu_val_def sq_nz_b_def mulh_val_def mulhsu_val_def mulhu_val_def
        and.assoc put_reg_def same_regs [OF assms(1)] sq_addr_def)
qed

lemma and_3_aligned: "(x :: u32) AND 3 \<noteq> 0 \<longleftrightarrow> \<not> aligned4 x"
  using mod_4_and(1) [of x] by (simp add: aligned4_def unat_eq_0 [symmetric])

lemma exec_jump:
  assumes "sim k t m0 a c" "i = decode w" "d = row_of pc w i" "pc = acc_pc a"
    and "kind_of (i_op i) \<in> {K_Jal, K_Jalr, K_Branch}"
    and "tgt = sq_jump_target (d_id d) (d_tgt d) (sq_addr d a AND NOT 1)"
  shows "20 \<le> d_id d" "d_id d \<le> 27"
    "execute c pc w i = (if sq_taken (d_id d) (sq_a d a) (sq_b d a) \<and> \<not> aligned4 tgt
       then (Err (halt_at halt_reason.Misaligned pc w tgt), c)
       else (Ok (sq_next (d_id d) (sq_a d a) (sq_b d a) (d_tgt d) (sq_addr d a AND NOT 1) (pc + 4)),
         c\<lparr>cpu_regs := 0 # put_reg (d_rd d) (sq_result (d_id d) (sq_a d a) (sq_b d a) 0 (pc + 4)) (acc_regs a)\<rparr>))"
    "sq_taken (d_id d) (sq_a d a) (sq_b d a) \<Longrightarrow>
       sq_next (d_id d) (sq_a d a) (sq_b d a) (d_tgt d) (sq_addr d a AND NOT 1) (pc + 4) = tgt"
    "\<not> sq_taken (d_id d) (sq_a d a) (sq_b d a) \<Longrightarrow>
       sq_next (d_id d) (sq_a d a) (sq_b d a) (d_tgt d) (sq_addr d a AND NOT 1) (pc + 4) = pc + 4"
proof -
  have b: "unat (i_rd i) < 32" "unat (i_rs1 i) < 32" "unat (i_rs2 i) < 32" using decode_regs_bound assms(2) by auto
  note r = sq_reg_sim [OF assms(1) b(2)] sq_reg_sim [OF assms(1) b(3)]
  note f = row_of_def plain_row_def sq_a_def sq_b_def sq_addr_def sq_jump_target_def
  show "20 \<le> d_id d" "d_id d \<le> 27" using assms(5) unfolding assms(3) by (cases "i_op i"; simp add: f)+
  show "sq_taken (d_id d) (sq_a d a) (sq_b d a) \<Longrightarrow>
       sq_next (d_id d) (sq_a d a) (sq_b d a) (d_tgt d) (sq_addr d a AND NOT 1) (pc + 4) = tgt"
    "\<not> sq_taken (d_id d) (sq_a d a) (sq_b d a) \<Longrightarrow>
       sq_next (d_id d) (sq_a d a) (sq_b d a) (d_tgt d) (sq_addr d a AND NOT 1) (pc + 4) = pc + 4"
    using assms(5) unfolding assms(3,6) by (cases "i_op i"; simp add: f sq_taken_def sq_next_def)+
  show "execute c pc w i = (if sq_taken (d_id d) (sq_a d a) (sq_b d a) \<and> \<not> aligned4 tgt
       then (Err (halt_at halt_reason.Misaligned pc w tgt), c)
       else (Ok (sq_next (d_id d) (sq_a d a) (sq_b d a) (d_tgt d) (sq_addr d a AND NOT 1) (pc + 4)),
         c\<lparr>cpu_regs := 0 # put_reg (d_rd d) (sq_result (d_id d) (sq_a d a) (sq_b d a) 0 (pc + 4)) (acc_regs a)\<rparr>))"
    using assms(5) unfolding assms(3,6)
    by (cases "i_op i") (simp_all add: execute_def f r jump_def branch_def check_target_def aligned4_iff Let_def
        retire_sim [OF assms(1) b(1)] sq_taken_def sq_next_def sq_result_def put_reg_def same_regs [OF assms(1)] op_ids)
qed

section \<open>Loads\<close>

lemma mmio_offset: "(addr :: u32) - MMIO_BASE = r \<longleftrightarrow> mmio_is v addr r"
  by (auto simp: mmio_is_iff)

lemma keyq_sim:
  assumes "registers_sim k t r0 a r" "length (KEYQT t) < 2 ^ 32"
  shows "sq_keyq_has t a \<longleftrightarrow> key_queue r \<noteq> []"
    and "key_queue r = ev # rest \<Longrightarrow> sq_keyq_val t a = key_event (pressed ev) (doomkey ev)"
    and "key_queue r = ev # rest \<Longrightarrow> registers_sim k t r0 (a\<lparr>acc_keyq_pos := acc_keyq_pos a + 1\<rparr>) (r\<lparr>key_queue := rest\<rparr>)"
proof -
  let ?p = "unat (acc_keyq_pos a)"
  have q: "map (\<lambda>e. key_event (pressed e) (doomkey e)) (key_queue r) = map ucast (drop ?p (KEYQT t))" "?p \<le> length (KEYQT t)"
    using assms(1) by (auto simp: registers_sim_def)
  have u: "unat (of_nat (length (KEYQT t)) :: u32) = length (KEYQT t)" using assms(2) by (simp add: unat_of_nat)
  show has: "sq_keyq_has t a \<longleftrightarrow> key_queue r \<noteq> []"
    using arg_cong [OF q(1), of length] by (simp add: sq_keyq_has_def word_less_nat_alt u flip: length_greater_0_conv)
  assume kq: "key_queue r = ev # rest"
  then have p: "?p < length (KEYQT t)" using has by (simp add: sq_keyq_has_def word_less_nat_alt u)
  then have d: "drop ?p (KEYQT t) = KEYQT t ! ?p # drop (Suc ?p) (KEYQT t)" by (simp add: Cons_nth_drop_Suc)
  show "sq_keyq_val t a = key_event (pressed ev) (doomkey ev)"
    using q(1) kq has p unfolding d by (simp add: sq_keyq_val_def array_element_def)
  have "unat (acc_keyq_pos a + 1) = Suc ?p" using p assms(2) by (simp add: unat_word_ariths)
  then show "registers_sim k t r0 (a\<lparr>acc_keyq_pos := acc_keyq_pos a + 1\<rparr>) (r\<lparr>key_queue := rest\<rparr>)"
    using assms(1) p q(1) kq unfolding d by (simp add: registers_sim_def)
qed

lemma mmio_read_sim:
  assumes "tables_ok k t" "registers_sim k t r0 a r" "mask_width mk wd"
  obtains r' where "registers_read r (addr - MMIO_BASE) wd (acc_icount a) =
      Some (if mk = 4294967295 then sq_mmio_read v k t a addr else 0, r')"
    "registers_sim k t r0 (a\<lparr>acc_keyq_pos := (if mk = 4294967295 \<and> mmio_is v addr KEYQ \<and> sq_keyq_has t a
       then acc_keyq_pos a + 1 else acc_keyq_pos a)\<rparr>) r'"
proof -
  have t: "fc_ipms k \<noteq> 0" "length (KEYQT t) < 2 ^ 32" using assms(1) by (auto simp: tables_ok_def)
  have ip: "ipms r = fc_ipms k" using assms(2) by (simp add: registers_sim_def)
  note kq = keyq_sim [OF assms(2) t(2)]
  have off: "addr - MMIO_BASE = x \<longleftrightarrow> mmio_is v addr x" for x by (rule mmio_offset)
  have same: "registers_sim k t r0 (a\<lparr>acc_keyq_pos := acc_keyq_pos a\<rparr>) r" using assms(2) by simp
  show ?thesis
  proof (cases "mk = 4294967295 \<and> mmio_is v addr KEYQ")
    case False
    then have "registers_read r (addr - MMIO_BASE) wd (acc_icount a) =
        Some (if mk = 4294967295 then sq_mmio_read v k t a addr else 0, r)"
      using assms(3) t(1) by (auto simp: registers_read_def mask_width_def off ip sq_mmio_read_def)
    moreover have "registers_sim k t r0 (a\<lparr>acc_keyq_pos := (if mk = 4294967295 \<and> mmio_is v addr KEYQ \<and> sq_keyq_has t a
       then acc_keyq_pos a + 1 else acc_keyq_pos a)\<rparr>) r" using False same by auto
    ultimately show ?thesis by (rule that)
  next
    case True
    then have nt: "\<not> mmio_is v addr TICKS_MS" by (auto simp: mmio_is_iff mmio_offsets)
    have w: "wd = 4" using True assms(3) by (auto simp: mask_width_def)
    show ?thesis
    proof (cases "key_queue r")
      case Nil
      then have nh: "\<not> sq_keyq_has t a" using kq(1) by simp
      then have "sq_keyq_val t a = 0" by (simp add: sq_keyq_val_def)
      then show ?thesis using True Nil nt nh w same
        by (intro that [of r]) (simp_all add: registers_read_def off sq_mmio_read_def)
    next
      case (Cons ev rest)
      then show ?thesis using True nt w kq(1) kq(2,3) [OF Cons]
        by (intro that [of "r\<lparr>key_queue := rest\<rparr>"]) (simp_all add: registers_read_def off sq_mmio_read_def)
    qed
  qed
qed

lemma load_kind:
  assumes "kind_of p = K_Load mk sg"
  obtains wd sx where "mask_width mk wd" "exec_op p = (\<lambda>c pc w rd r1 r2 imm. exec_load c pc w rd r1 imm wd sx)"
    "sx \<longleftrightarrow> sg \<noteq> 0 \<or> mk = 4294967295" "op_id p = 18"
proof (cases p)
  case Lb
  then show ?thesis using assms by (intro that [of 1 True]) (simp_all add: mask_width_def fun_eq_iff)
next
  case Lh
  then show ?thesis using assms by (intro that [of 2 True]) (simp_all add: mask_width_def fun_eq_iff)
next
  case Lw
  then show ?thesis using assms by (intro that [of 4 True]) (simp_all add: mask_width_def fun_eq_iff)
next
  case Lbu
  then show ?thesis using assms by (intro that [of 1 False]) (simp_all add: mask_width_def fun_eq_iff)
next
  case Lhu
  then show ?thesis using assms by (intro that [of 2 False]) (simp_all add: mask_width_def fun_eq_iff)
qed (use assms in simp_all)

lemma sign_extend_arm:
  assumes "mask_width mk wd" "raw = raw AND mk" "sx \<longleftrightarrow> sg \<noteq> 0 \<or> mk = 4294967295"
  shows "(if sx then sign_extend raw (wd * 8) else raw) =
    raw - (if raw AND (drop_bit 1 mk + 1) \<noteq> 0 \<and> (sg :: u8) \<noteq> 0 then mk + 1 else 0)"
proof (cases "mk = 4294967295")
  case True
  then have "wd = 4" using assms(1) by (auto simp: mask_width_def)
  then show ?thesis using True assms(3) by (simp add: sign_extend_def)
next
  case False
  then obtain n where n: "0 < n" "n < 32" "mk = mask n" "unat (32 - wd * 8) = 32 - n" "(drop_bit 1 mk + 1 :: u32) = 2 ^ (n - 1)" "mk + 1 = 2 ^ n"
  proof -
    consider "mk = 255" "wd = 1" | "mk = 65535" "wd = 2" using assms(1) False by (auto simp: mask_width_def)
    then show ?thesis by cases (intro that [of 8] that [of 16]; simp add: mask_eq_exp_minus_1)+
  qed
  have lt: "raw < 2 ^ n" using assms(2) and_mask_less' [of n raw] n by simp
  have "sign_extend raw (wd * 8) = sext raw n" by (simp add: sign_extend_def sext_def n(4))
  also have "\<dots> = raw - (if bit raw (n - 1) then 2 ^ n else 0)" by (rule sext_sub [OF n(1,2) lt])
  finally show ?thesis using False assms(3) unfolding n(5,6) and_exp_eq_0_iff_not_bit by simp
qed

lemma ram_read_sim:
  assumes "ram_cfg k" "memory_sim k t m0 a m" "mem_wf m" "mask_width mk wd" "unat addr mod unat wd = 0" "\<not> sq_outside_ram v k addr"
  shows "mem_read m addr wd ic = (Ok (drop_bit (sq_sh addr) (sq_lw t a (sq_wa k addr)) AND mk), m)"
proof -
  let ?off = "unat (addr - RAM_BASE)"
  have r: "0x80000000 \<le> unat addr" "unat addr < 0x80000000 + 4 * unat (fc_ram_words k)"
    using assms(6) outside_ram_iff [OF assms(1)] by auto
  have off: "?off = unat addr - 0x80000000" using r(1) by (subst unat_sub) (simp_all add: map_constants word_le_nat_alt)
  have mm: "mem_map m = sql_map k" and wd: "\<And>j. j < unat (fc_ram_words k) \<Longrightarrow> word_at (ram m) j = sq_lw t a (of_nat j)"
    using assms(2) by (auto simp: memory_sim_def)
  have wa: "unat (sq_wa k addr) = ?off div 4" using wa_nat [OF assms(1) r] off by simp
  have lt: "?off div 4 < unat (fc_ram_words k)" using r off by linarith
  have len: "length (ram m) = 4 * unat (fc_ram_words k)"
    using assms(3) ram_size_nat [OF assms(1)] by (simp add: mem_wf_def mm sql_map_def with_ram_size_def)
  have sh: "sq_sh addr = 8 * (?off mod 4)"
  proof -
    have "unat addr = ?off + 4 * 536870912" using r(1) off by linarith
    then have "unat addr mod 4 = ?off mod 4" by (metis mod_mult_self2)
    then show ?thesis by (simp add: sq_sh_def mod_4_and)
  qed
  have al: "?off mod unat wd = 0"
  proof -
    have "unat wd dvd 0x80000000" using mask_width_mask(2) [OF assms(4)] by auto
    then show ?thesis using assms(5) unfolding off by (simp add: dvd_diff_nat flip: dvd_eq_mod_eq_0)
  qed
  have cl: "classify (mem_map m) addr wd = Some (Ram, addr - RAM_BASE)"
    using classify_sql [OF assms(1) mask_width_access [OF assms(4)] assms(5), of v] assms(6) by (simp add: mm)
  have "mem_read m addr wd ic = (Ok (from_le_bytes (take (unat wd) (drop ?off (ram m)))), m)"
    using mem_read_region [OF assms(3) mask_width_access [OF assms(4)] _ cl] assms(5)
    by (simp add: check_align_iff [OF mask_width_access [OF assms(4)]])
  also have "from_le_bytes (take (unat wd) (drop ?off (ram m))) = drop_bit (8 * (?off mod 4)) (word_at (ram m) (?off div 4)) AND mk"
    by (rule bytes_are_word_field [OF assms(4) al]) (use lt len in linarith)
  also have "word_at (ram m) (?off div 4) = sq_lw t a (sq_wa k addr)"
    using wd [OF lt] by (simp flip: wa)
  finally show ?thesis by (simp add: sh)
qed

lemma memory_sim_keyq:
  assumes "memory_sim k t m0 a m" "devices m = Registers r" "devices m0 = Registers r0"
    "registers_sim k t r0 (a\<lparr>acc_keyq_pos := q\<rparr>) r'"
  shows "memory_sim k t m0 (a\<lparr>acc_keyq_pos := q\<rparr>) (m\<lparr>devices := Registers r'\<rparr>)"
proof -
  have lw: "sq_lw t (a\<lparr>acc_keyq_pos := q\<rparr>) w = sq_lw t a w" for w by (simp add: sq_lw_def)
  show ?thesis using assms unfolding memory_sim_def lw by simp
qed

lemma mem_read_sim:
  assumes "tables_ok k t" "memory_sim k t m0 a m" "mem_wf m" "mask_width (d_mk d) wd" "d_id d = ID_LOAD"
    and "\<not> sq_is_fb addr" "\<not> sq_is_pal addr" "ic = acc_icount a"
    and "raw = (if sq_is_mmio v addr then (if d_mk d = 4294967295 then sq_mmio_read v k t a addr else 0)
      else drop_bit (sq_sh addr) (sq_lw t a (sq_wa k addr)) AND d_mk d)"
  obtains m' where "mem_read m addr wd ic =
     (if unat addr mod unat wd \<noteq> 0 then (Err (mem_fault.Misaligned addr wd), m)
      else if sq_outside_ram v k addr \<and> \<not> sq_is_mmio v addr then (Err (mem_fault.BadAddr addr), m)
      else (Ok raw, m'))"
    "unat addr mod unat wd = 0 \<longrightarrow> memory_sim k t m0 (a\<lparr>acc_keyq_pos := (if sq_is_mmio_load v d addr \<and> mmio_is v addr KEYQ \<and> sq_keyq_has t a
       then acc_keyq_pos a + 1 else acc_keyq_pos a)\<rparr>) m'"
proof -
  note rc = assms(1) [unfolded tables_ok_def, THEN conjunct1]
  note aw = mask_width_access [OF assms(4)]
  have mm: "mem_map m = sql_map k" using assms(2) by (simp add: memory_sim_def)
  have ml: "sq_is_mmio_load v d addr \<longleftrightarrow> sq_is_mmio v addr \<and> d_mk d = 4294967295" using assms(5) by (simp add: sq_is_mmio_load_def)
  have dis: "sq_is_mmio v addr \<Longrightarrow> sq_outside_ram v k addr" using outside_ram_iff [OF rc] by (auto simp: is_mmio_iff)
  have keep: "memory_sim k t m0 (a\<lparr>acc_keyq_pos := acc_keyq_pos a\<rparr>) m" using assms(2) by simp
  show ?thesis
  proof (cases "unat addr mod unat wd = 0 \<and> sq_is_mmio v addr")
    case False
    have "mem_read m addr wd ic =
     (if unat addr mod unat wd \<noteq> 0 then (Err (mem_fault.Misaligned addr wd), m)
      else if sq_outside_ram v k addr \<and> \<not> sq_is_mmio v addr then (Err (mem_fault.BadAddr addr), m)
      else (Ok raw, m))"
    proof (cases "unat addr mod unat wd = 0")
      case nal: False
      then show ?thesis by (simp add: mem_read_def check_align_iff [OF aw])
    next
      case al: True
      then have nm: "\<not> sq_is_mmio v addr" using False by simp
      show ?thesis
      proof (cases "sq_outside_ram v k addr")
        case True
        then have "classify (mem_map m) addr wd = None" using classify_sql [OF rc aw al, of v] nm assms(6,7) by (simp add: mm)
        then show ?thesis using al nm True by (simp add: mem_read_def check_align_iff [OF aw])
      next
        case out: False
        then show ?thesis using ram_read_sim [OF rc assms(2,3,4) al out] al nm assms(9) by simp
      qed
    qed
    moreover have "unat addr mod unat wd = 0 \<longrightarrow> memory_sim k t m0 (a\<lparr>acc_keyq_pos :=
        (if sq_is_mmio_load v d addr \<and> mmio_is v addr KEYQ \<and> sq_keyq_has t a then acc_keyq_pos a + 1 else acc_keyq_pos a)\<rparr>) m"
      using keep False by (auto simp: ml)
    ultimately show ?thesis by (rule that)
  next
    case True
    then have c: "classify (mem_map m) addr wd = Some (Mmio, addr - MMIO_BASE)"
      using classify_sql [OF rc aw, of addr v] dis by (simp add: mm)
    obtain r r0 where r: "devices m = Registers r" "devices m0 = Registers r0" "registers_sim k t r0 a r"
      using assms(2) by (auto simp: memory_sim_def)
    obtain r' where r': "registers_read r (addr - MMIO_BASE) wd (acc_icount a) =
      Some (if d_mk d = 4294967295 then sq_mmio_read v k t a addr else 0, r')"
      "registers_sim k t r0 (a\<lparr>acc_keyq_pos := (if d_mk d = 4294967295 \<and> mmio_is v addr KEYQ \<and> sq_keyq_has t a
         then acc_keyq_pos a + 1 else acc_keyq_pos a)\<rparr>) r'"
      by (rule mmio_read_sim [OF assms(1) r(3) assms(4), of addr v])
    show ?thesis
    proof (rule that [of "m\<lparr>devices := Registers r'\<rparr>"])
      show "mem_read m addr wd ic =
       (if unat addr mod unat wd \<noteq> 0 then (Err (mem_fault.Misaligned addr wd), m)
        else if sq_outside_ram v k addr \<and> \<not> sq_is_mmio v addr then (Err (mem_fault.BadAddr addr), m)
        else (Ok raw, m\<lparr>devices := Registers r'\<rparr>))"
        using True c r'(1) assms(8,9) by (simp add: mem_read_def check_align_iff [OF aw] r(1))
      show "unat addr mod unat wd = 0 \<longrightarrow> memory_sim k t m0 (a\<lparr>acc_keyq_pos := (if sq_is_mmio_load v d addr \<and> mmio_is v addr KEYQ \<and> sq_keyq_has t a
         then acc_keyq_pos a + 1 else acc_keyq_pos a)\<rparr>) (m\<lparr>devices := Registers r'\<rparr>)"
        using memory_sim_keyq [OF assms(2) r(1,2) r'(2)] True by (simp add: ml)
    qed
  qed
qed

lemma exec_load_sim:
  assumes "tables_ok k t" "sim k t m0 a c" "i = decode w" "d = row_of pc w i" "pc = acc_pc a" "kind_of (i_op i) = K_Load mk sg"
    and "addr = sq_addr d a" "\<not> sq_is_fb addr" "\<not> sq_is_pal addr"
  obtains wd m' where "mask_width (d_mk d) wd" "d_id d = 18"
    "execute c pc w i = (if unat addr mod unat wd \<noteq> 0 then (Err (halt_at halt_reason.Misaligned pc w addr), c)
      else if sq_outside_ram v k addr \<and> \<not> sq_is_mmio v addr then (Err (halt_at halt_reason.BadAddr pc w addr), c)
      else (Ok (pc + 4), c\<lparr>cpu_memory := m', cpu_regs := 0 # put_reg (d_rd d) (sq_loadv v k t d a addr) (acc_regs a)\<rparr>))"
    "unat addr mod unat wd = 0 \<longrightarrow> memory_sim k t m0 (a\<lparr>acc_keyq_pos :=
       (if sq_is_mmio_load v d addr \<and> mmio_is v addr KEYQ \<and> sq_keyq_has t a then acc_keyq_pos a + 1 else acc_keyq_pos a)\<rparr>) m'"
proof -
  have b: "unat (i_rd i) < 32" "unat (i_rs1 i) < 32" using decode_regs_bound assms(3) by auto
  note r1 = sq_reg_sim [OF assms(2) b(2)]
  obtain wd sx where l: "mask_width mk wd" "exec_op (i_op i) = (\<lambda>c pc w rd r1 r2 imm. exec_load c pc w rd r1 imm wd sx)"
    "sx \<longleftrightarrow> sg \<noteq> 0 \<or> mk = 4294967295" "op_id (i_op i) = 18" by (rule load_kind [OF assms(6)])
  have d: "d_mk d = mk" "d_sg d = sg" "d_id d = 18" "d_rd d = i_rd i" "d_rs1 d = i_rs1 i" "d_imm d = i_imm i"
    using assms(6) l(4) unfolding assms(4) by (simp_all add: row_of_def plain_row_def)
  have ad: "sq_reg a (i_rs1 i) + i_imm i = addr" unfolding assms(7) by (simp add: sq_addr_def sq_a_def d)
  have s: "memory_sim k t m0 a (cpu_memory c)" "mem_wf (cpu_memory c)" "cpu_icount c = acc_icount a"
    using assms(2) by (auto simp: sim_def cpu_inv_def)
  let ?raw = "if sq_is_mmio v addr then (if d_mk d = 4294967295 then sq_mmio_read v k t a addr else 0)
      else drop_bit (sq_sh addr) (sq_lw t a (sq_wa k addr)) AND d_mk d"
  have idl: "d_id d = ID_LOAD" and mwd: "mask_width (d_mk d) wd" using d l(1) by (simp_all add: op_ids)
  obtain m' where m': "mem_read (cpu_memory c) addr wd (cpu_icount c) =
     (if unat addr mod unat wd \<noteq> 0 then (Err (mem_fault.Misaligned addr wd), cpu_memory c)
      else if sq_outside_ram v k addr \<and> \<not> sq_is_mmio v addr then (Err (mem_fault.BadAddr addr), cpu_memory c)
      else (Ok ?raw, m'))"
    "unat addr mod unat wd = 0 \<longrightarrow> memory_sim k t m0 (a\<lparr>acc_keyq_pos :=
       (if sq_is_mmio_load v d addr \<and> mmio_is v addr KEYQ \<and> sq_keyq_has t a then acc_keyq_pos a + 1 else acc_keyq_pos a)\<rparr>) m'"
    by (rule mem_read_sim [OF assms(1) s(1,2) mwd idl assms(8,9) s(3) refl, where v = v])
  have lv: "(if sx then sign_extend ?raw (wd * 8) else ?raw) = sq_loadv v k t d a addr"
  proof (cases "sq_is_mmio v addr")
    case True
    have z: "sign_extend 0 x = 0" for x by (simp add: sign_extend_def)
    have "mk = 4294967295 \<Longrightarrow> sign_extend x (wd * 8) = x" for x using l(1) by (auto simp: mask_width_def sign_extend_def)
    then show ?thesis using True l(3) z by (simp add: sq_loadv_def d)
  next
    case False
    have "?raw = ?raw AND mk" using False by (simp add: d and.assoc)
    then show ?thesis using sign_extend_arm [OF l(1) _ l(3), of ?raw] False by (simp add: sq_loadv_def sq_ram_loadv_def d Let_def)
  qed
  have rt: "retire (c\<lparr>cpu_memory := x\<rparr>) rd (Some y) n = (case retire c rd (Some y) n of (q, c') \<Rightarrow> (q, c'\<lparr>cpu_memory := x\<rparr>))" for x rd y n
    by (simp add: retire_def set_reg_def)
  have "execute c pc w i = exec_load c pc w (i_rd i) (Some (sq_reg a (i_rs1 i))) (i_imm i) wd sx"
    by (simp add: execute_def l(2) r1)
  also have "\<dots> = (if unat addr mod unat wd \<noteq> 0 then (Err (halt_at halt_reason.Misaligned pc w addr), c)
      else if sq_outside_ram v k addr \<and> \<not> sq_is_mmio v addr then (Err (halt_at halt_reason.BadAddr pc w addr), c)
      else (Ok (pc + 4), c\<lparr>cpu_memory := m', cpu_regs := 0 # put_reg (d_rd d) (sq_loadv v k t d a addr) (acc_regs a)\<rparr>))"
    unfolding exec_load_def using lv by (simp add: ad m'(1) rt retire_sim [OF assms(2) b(1)] d(4))
  finally show ?thesis using mwd d(3) m'(2) by (intro that)
qed

section \<open>Stores\<close>

definition log_ram :: "acc \<Rightarrow> u32 \<Rightarrow> u32 \<Rightarrow> acc" where
  "log_ram a wa x = a\<lparr>acc_wl_addr := acc_wl_addr a @ [wa], acc_wl_val := acc_wl_val a @ [x]\<rparr>"

lemma log_ram_registers: "registers_sim k t r0 (log_ram a wa x) r = registers_sim k t r0 a r"
  by (simp add: registers_sim_def log_ram_def)

lemma ram_write_sim:
  assumes "tables_ok k t" "memory_sim k t m0 a m" "mem_wf m" "mask_width (d_mk d) wd" "unat addr mod unat wd = 0" "\<not> sq_outside_ram v k addr"
  shows "sq_wa k addr < widx_get (text_end_widx k) \<Longrightarrow> mem_write m addr wd x ic = (Err (mem_fault.SelfModify addr), m)"
    and "\<not> sq_wa k addr < widx_get (text_end_widx k) \<Longrightarrow> \<exists>m'. mem_write m addr wd x ic = (Ok (), m') \<and>
      memory_sim k t m0 (log_ram a (sq_wa k addr) (sq_sval d (sq_lw t a (sq_wa k addr)) x addr)) m'"
proof -
  let ?off = "unat (addr - RAM_BASE)" and ?e = "widx_get (text_end_widx k)" and ?wa = "sq_wa k addr"
  note rc = assms(1) [unfolded tables_ok_def, THEN conjunct1]
  note aw = mask_width_access [OF assms(4)]
  have r: "0x80000000 \<le> unat addr" "unat addr < 0x80000000 + 4 * unat (fc_ram_words k)"
    using assms(6) outside_ram_iff [OF rc] by auto
  have off: "?off = unat addr - 0x80000000" using r(1) by (subst unat_sub) (simp_all add: map_constants word_le_nat_alt)
  have wa: "unat ?wa = ?off div 4" using wa_nat [OF rc r] off by simp
  have lt: "?off div 4 < unat (fc_ram_words k)" using r off by linarith
  have mm: "mem_map m = sql_map k" and tx: "text_region m = Some (RAM_BASE, RAM_BASE + 4 * ?e)"
    using assms(2) by (auto simp: memory_sim_def)
  have len: "length (ram m) = 4 * unat (fc_ram_words k)"
    using assms(3) ram_size_nat [OF rc] by (simp add: mem_wf_def mm sql_map_def with_ram_size_def)
  have sh: "sq_sh addr = 8 * (?off mod 4)"
  proof -
    have "unat addr = ?off + 4 * 536870912" using r(1) off by linarith
    then have "unat addr mod 4 = ?off mod 4" by (metis mod_mult_self2)
    then show ?thesis by (simp add: sq_sh_def mod_4_and)
  qed
  have al: "?off mod unat wd = 0"
  proof -
    have "unat wd dvd 0x80000000" using mask_width_mask(2) [OF assms(4)] by auto
    then show ?thesis using assms(5) unfolding off by (simp add: dvd_diff_nat flip: dvd_eq_mod_eq_0)
  qed
  have cl: "classify (mem_map m) addr wd = Some (Ram, addr - RAM_BASE)"
    using classify_sql [OF rc aw assms(5), of v] assms(6) by (simp add: mm)
  have ub: "unat (RAM_BASE + 4 * ?e) = 0x80000000 + 4 * unat ?e"
    using assms(1) by (simp add: tables_ok_def ram_cfg_def map_constants unat_word_ariths)
  have "in_text m addr wd \<longleftrightarrow> unat addr < 0x80000000 + 4 * unat ?e"
    using r(1) access_width_bound [OF aw] by (simp add: in_text_def tx word_le_nat_alt ub) (simp add: map_constants not_le)
  also have "\<dots> \<longleftrightarrow> ?wa < ?e" unfolding word_less_nat_alt wa off using r(1) by linarith
  finally have it: "in_text m addr wd \<longleftrightarrow> ?wa < ?e" .
  show "?wa < ?e \<Longrightarrow> mem_write m addr wd x ic = (Err (mem_fault.SelfModify addr), m)"
    using assms(5) by (simp add: mem_write_def check_align_iff [OF aw] cl mem_store_def it)
  assume out: "\<not> ?wa < ?e"
  let ?b = "slice_put (ram m) ?off (to_le_bytes (unat wd) x)" and ?a = "log_ram a ?wa (sq_sval d (sq_lw t a ?wa) x addr)"
  have fits: "4 * (?off div 4) + 4 \<le> length (ram m)" using lt len by linarith
  have "?off mod 4 + unat wd \<le> 4" by (rule within_word [OF mask_width_mask(2) [OF assms(4)] al])
  then have "?off + unat wd \<le> length (ram m)" using fits mult_div_mod_eq [of 4 ?off] by linarith
  then obtain b where b: "write_le (ram m) (addr - RAM_BASE) wd x = Some b" "b = ?b"
    using region.put_total [OF aw, of "addr - RAM_BASE" "ram m" x] by metis
  define m' where "m' = m\<lparr>ram := ?b, watch := map_option (\<lambda>w. watch_record w Ram (addr - RAM_BASE) wd) (watch m)\<rparr>"
  have w: "mem_write m addr wd x ic = (Ok (), m')"
    using assms(5) out by (simp add: mem_write_def check_align_iff [OF aw] cl mem_store_def it b m'_def)
  have ll: "length (acc_wl_addr a) = length (acc_wl_val a)" and words: "\<And>j. j < unat (fc_ram_words k) \<Longrightarrow> word_at (ram m) j = sq_lw t a (of_nat j)"
    using assms(2) by (auto simp: memory_sim_def)
  have "word_at ?b j = sq_lw t ?a (of_nat j)" if j: "j < unat (fc_ram_words k)" for j
  proof -
    have j': "unat (of_nat j :: u32) = j" using j rc by (simp add: unat_of_nat ram_cfg_def)
    have e: "(of_nat j = ?wa) = (j = ?off div 4)" by (metis j' wa word_unat_eq_iff)
    have new: "sq_lw t ?a (of_nat j) = (if of_nat j = ?wa then sq_sval d (sq_lw t a ?wa) x addr else sq_lw t a (of_nat j))"
      using sq_lw_log [OF ll, of t "of_nat j"] sq_lw_log [of ?a t "of_nat j"] log_read_snoc [OF ll] ll by (simp add: log_ram_def)
    have old: "word_at (ram m) (?off div 4) = sq_lw t a ?wa" using words [OF lt] by (simp flip: wa)
    have "word_at ?b j = (if j = ?off div 4 then sq_sval d (word_at (ram m) j) x addr else word_at (ram m) j)"
      using word_at_store [OF assms(4) al fits, of j x] j len by (simp add: sq_sval_def sh)
    then show ?thesis using new words [OF j] old e by auto
  qed
  then have "memory_sim k t m0 ?a m'"
    using assms(2) out unfolding memory_sim_def by (simp add: m'_def log_ram_registers) (simp add: log_ram_def not_less)
  then show "\<exists>m'. mem_write m addr wd x ic = (Ok (), m') \<and> memory_sim k t m0 ?a m'" using w by blast
qed

text \<open>A store to a device register, as the accumulator after it records it.\<close>

definition log_mmio :: "variant \<Rightarrow> acc \<Rightarrow> u32 \<Rightarrow> bool \<Rightarrow> u32 \<Rightarrow> acc" where
  "log_mmio v a addr word x = a\<lparr>acc_icount := acc_icount a + 1,
     acc_console := push_if (word \<and> mmio_is v addr PUTCHAR) (ucast (x AND 255)) (acc_console a),
     acc_frame_no := (if word \<and> mmio_is v addr FRAME_COMMIT then x else acc_frame_no a),
     acc_frame_committed := (if word \<and> mmio_is v addr FRAME_COMMIT then 1 else acc_frame_committed a)\<rparr>"

lemma low_byte: "ucast (x AND 255 :: u32) = (ucast x :: u8)"
  by (rule bit_word_eqI) (auto simp: bit_simps mask_32 simp del: bit_numeral_word_iff)

lemma mmio_write_sim:
  assumes "tables_ok k t" "memory_sim k t m0 a m" "mem_wf m" "mask_width mk wd" "unat addr mod unat wd = 0" "sq_is_mmio v addr"
    and "acc_frame_committed a = 0" "ic = acc_icount a"
  shows "mk = 4294967295 \<Longrightarrow> addr = MMIO_BASE + EXIT \<Longrightarrow> mem_write m addr wd x ic = (Err (mem_fault.Exit x), m)"
    and "\<not> (mk = 4294967295 \<and> addr = MMIO_BASE + EXIT) \<Longrightarrow> \<exists>m'. mem_write m addr wd x ic = (Ok (), m') \<and>
      memory_sim k t m0 (log_mmio v a addr (mk = 4294967295) x) m'"
proof -
  note rc = assms(1) [unfolded tables_ok_def, THEN conjunct1]
  note aw = mask_width_access [OF assms(4)]
  have mm: "mem_map m = sql_map k" using assms(2) by (simp add: memory_sim_def)
  have out: "sq_outside_ram v k addr" using outside_ram_iff [OF rc] assms(6) by (auto simp: is_mmio_iff)
  have cl: "classify (mem_map m) addr wd = Some (Mmio, addr - MMIO_BASE)"
    using classify_sql [OF rc aw assms(5), of v] assms(6) out by (simp add: mm)
  have w4: "wd = 4 \<longleftrightarrow> mk = 4294967295" using assms(4) by (auto simp: mask_width_def)
  obtain r r0 where r: "devices m = Registers r" "devices m0 = Registers r0" "registers_sim k t r0 a r"
    using assms(2) by (auto simp: memory_sim_def)
  have off: "addr - MMIO_BASE = y \<longleftrightarrow> mmio_is v addr y" for y by (rule mmio_offset)
  have ex: "addr = MMIO_BASE + EXIT \<longleftrightarrow> mmio_is v addr EXIT" by (simp add: mmio_is_iff)
  show "mk = 4294967295 \<Longrightarrow> addr = MMIO_BASE + EXIT \<Longrightarrow> mem_write m addr wd x ic = (Err (mem_fault.Exit x), m)"
  proof -
    assume "mk = 4294967295" "addr = MMIO_BASE + EXIT"
    then have "registers_write r (addr - MMIO_BASE) wd x ic = (Err \<lparr>exit_value = x\<rparr>, r)"
      using w4 unfolding ex by (simp add: registers_write_def off)
    then show ?thesis using assms(5) r(1)
      by (simp add: mem_write_def check_align_iff [OF aw] cl mem_store_def mem_fault_of_exit_def)
  qed
  assume ne: "\<not> (mk = 4294967295 \<and> addr = MMIO_BASE + EXIT)"
  define r' where "r' = (if mk \<noteq> 4294967295 then r
     else if mmio_is v addr PUTCHAR then r\<lparr>console := console r @ [ucast x]\<rparr>
     else if mmio_is v addr FRAME_COMMIT then r\<lparr>frame_commits := frame_commits r @ [\<lparr>frame_no = x, commit_icount = ic\<rparr>]\<rparr> else r)"
  have rw: "registers_write r (addr - MMIO_BASE) wd x ic = (Ok (), r')"
    using ne unfolding ex by (auto simp: registers_write_def off r'_def w4)
  define m' where "m' = m\<lparr>devices := Registers r', watch := map_option (\<lambda>w. watch_record w Mmio (addr - MMIO_BASE) wd) (watch m)\<rparr>"
  have w: "mem_write m addr wd x ic = (Ok (), m')"
    using assms(5) rw r(1) by (simp add: mem_write_def check_align_iff [OF aw] cl mem_store_def m'_def)
  let ?a = "log_mmio v a addr (mk = 4294967295) x"
  have "\<not> (mmio_is v addr PUTCHAR \<and> mmio_is v addr FRAME_COMMIT)" by (auto simp: mmio_is_iff mmio_offsets)
  then have "registers_sim k t r0 ?a r'"
    using r(3) assms(7,8) by (auto simp: registers_sim_def log_mmio_def r'_def push_if_def low_byte)
  moreover have "sq_lw t ?a y = sq_lw t a y" for y by (simp add: sq_lw_def log_mmio_def)
  ultimately have "memory_sim k t m0 ?a m'"
    using assms(2) r(2) unfolding memory_sim_def by (simp add: m'_def) (simp add: log_mmio_def)
  then show "\<exists>m'. mem_write m addr wd x ic = (Ok (), m') \<and> memory_sim k t m0 ?a m'" using w by blast
qed

text \<open>A store to the display, as the log of its region records it.\<close>

definition log_display :: "acc \<Rightarrow> u32 \<Rightarrow> u32 \<Rightarrow> acc" where
  "log_display a addr x = a\<lparr>
     acc_fb_addr := push_if (sq_is_fb addr) (drop_bit 2 (addr - FRAMEBUFFER_BASE)) (acc_fb_addr a),
     acc_fb_val := push_if (sq_is_fb addr) x (acc_fb_val a),
     acc_pal_addr := push_if (sq_is_pal addr) (drop_bit 2 (addr - PALETTE_BASE)) (acc_pal_addr a),
     acc_pal_val := push_if (sq_is_pal addr) x (acc_pal_val a)\<rparr>"

lemma word_store_log:
  assumes "length addrs = length vals" "\<And>j. j < n \<Longrightarrow> word_at bs j = log_read addrs vals (f j) (of_nat j)"
    and "unat off mod 4 = 0" "unat off + 4 \<le> 4 * n" "length bs = 4 * n" "n < 2 ^ 30" "j < n"
  shows "word_at (slice_put bs (unat off) (to_le_bytes 4 x)) j = log_read (addrs @ [drop_bit 2 off]) (vals @ [x]) (f j) (of_nat j)"
proof -
  have mw: "mask_width 4294967295 4" by (simp add: mask_width_def)
  have w4: "unat (4 :: u32) = 4" by simp
  have q: "unat off div 4 < n" using assms(4) by linarith
  have fits: "4 * (unat off div 4) + 4 \<le> length bs" "4 * j + 4 \<le> length bs" using q assms(5,7) by linarith+
  have e: "of_nat j = drop_bit 2 off \<longleftrightarrow> j = unat off div 4"
    using assms(6,7) by (auto simp: word_unat_eq_iff unat_of_nat drop_bit_eq_div unat_div)
  have "word_at (slice_put bs (unat off) (to_le_bytes 4 x)) j = (if j = unat off div 4 then x else word_at bs j)"
    using word_at_store [OF mw, of "unat off" bs j x] assms(3) fits by (simp add: all_ones_32)
  then show ?thesis using log_read_snoc [OF assms(1)] assms(2) [OF assms(7)] e by simp
qed

lemma display_word_slot:
  assumes "unat base \<le> unat addr" "unat addr < unat base + 4 * n" "unat base mod 4 = 0" "unat addr mod 4 = 0" "length bs = 4 * n"
  shows "unat (addr - base) mod 4 = 0" "unat (addr - base) + 4 \<le> 4 * n"
    "write_le bs (addr - base) 4 x = Some (slice_put bs (unat (addr - base)) (to_le_bytes 4 x))"
proof -
  have off: "unat (addr - base) = unat addr - unat base" using assms(1) by (simp add: unat_sub word_le_nat_alt)
  show "unat (addr - base) mod 4 = 0" using assms(3,4) unfolding off by (simp add: dvd_diff_nat flip: dvd_eq_mod_eq_0)
  have "(unat base + 4 * n) mod 4 = 0" using assms(3) by simp
  then show fit: "unat (addr - base) + 4 \<le> 4 * n" using aligned_end [of 4 "unat addr" "unat base + 4 * n"] assms(1,2,4) unfolding off by simp
  show "write_le bs (addr - base) 4 x = Some (slice_put bs (unat (addr - base)) (to_le_bytes 4 x))"
    using region.put_view [of 4 "addr - base" bs x] fit assms(5) by (simp add: access_width_def)
qed

lemma display_classify:
  assumes "ram_cfg k" "access_width wd" "unat addr mod unat wd = 0" "sq_is_fb addr \<or> sq_is_pal addr"
  shows "classify (sql_map k) addr wd = (if sq_is_fb addr then Some (Framebuffer, addr - FRAMEBUFFER_BASE) else Some (Palette, addr - PALETTE_BASE))"
proof -
  have "sq_outside_ram Baseline k addr" "\<not> sq_is_mmio Baseline addr"
    using outside_ram_iff [OF assms(1)] assms(4) by (auto simp: is_mmio_iff is_fb_iff is_pal_iff)
  then show ?thesis using classify_sql [OF assms(1-3), of Baseline] assms(4) by auto
qed

lemma display_write_narrow:
  assumes "ram_cfg k" "memory_sim k t m0 a m" "mask_width mk wd" "unat addr mod unat wd = 0" "sq_is_fb addr \<or> sq_is_pal addr" "mk \<noteq> 4294967295"
  shows "mem_write m addr wd x ic = (Err (mem_fault.BadAddr addr), m)"
proof -
  note aw = mask_width_access [OF assms(3)]
  have "mem_map m = sql_map k" using assms(2) by (simp add: memory_sim_def)
  moreover have "wd \<noteq> 4" using assms(3,6) by (auto simp: mask_width_def)
  ultimately show ?thesis using display_classify [OF assms(1) aw assms(4,5)] assms(4)
    by (simp add: mem_write_def check_align_iff [OF aw] mem_store_def)
qed

lemma display_write_word:
  assumes "ram_cfg k" "memory_sim k t m0 a m" "mem_wf m" "unat addr mod 4 = 0" "sq_is_fb addr \<or> sq_is_pal addr"
  shows "\<exists>m'. mem_write m addr 4 x ic = (Ok (), m') \<and> memory_sim k t m0 (log_display a addr x) m'"
proof -
  have aw: "access_width 4" "unat (4 :: u32) = 4" by (simp_all add: access_width_def)
  have mm: "mem_map m = sql_map k" using assms(2) by (simp add: memory_sim_def)
  have ca: "check_align addr 4 = Ok ()" using assms(4) by (simp add: check_align_iff [OF aw(1)])
  have cl: "classify (mem_map m) addr 4 = (if sq_is_fb addr then Some (Framebuffer, addr - FRAMEBUFFER_BASE) else Some (Palette, addr - PALETTE_BASE))"
    using display_classify [OF assms(1) aw(1) _ assms(5)] assms(4) by (simp add: mm)
  have len: "length (framebuffer m) = 4 * 16000" "length (palette m) = 4 * 192"
    using assms(3) by (simp_all add: mem_wf_def mm sql_map_def with_ram_size_def map_clickdoom_def map_constants)
  have reg: "registers_sim k t r0 (log_display a addr x) r = registers_sim k t r0 a r" for r0 r
    by (simp add: registers_sim_def log_display_def)
  have lw: "sq_lw t (log_display a addr x) y = sq_lw t a y" for y by (simp add: sq_lw_def log_display_def)
  have ms: "length (acc_fb_addr a) = length (acc_fb_val a)" "length (acc_pal_addr a) = length (acc_pal_val a)"
    "\<And>j. j < 16000 \<Longrightarrow> word_at (framebuffer m) j = log_read (acc_fb_addr a) (acc_fb_val a) (word_at (framebuffer m0) j) (of_nat j)"
    "\<And>j. j < 192 \<Longrightarrow> word_at (palette m) j = log_read (acc_pal_addr a) (acc_pal_val a) (word_at (palette m0) j) (of_nat j)"
    using assms(2) by (auto simp: memory_sim_def)
  show ?thesis
  proof (cases "sq_is_fb addr")
    case True
    let ?off = "addr - FRAMEBUFFER_BASE"
    note s = display_word_slot [of FRAMEBUFFER_BASE addr 16000 "framebuffer m"]
    have r: "unat FRAMEBUFFER_BASE \<le> unat addr" "unat addr < unat FRAMEBUFFER_BASE + 4 * 16000" "unat FRAMEBUFFER_BASE mod 4 = 0"
      using True is_fb_iff [of addr] by (auto simp: map_constants)
    have np: "\<not> sq_is_pal addr" using True by (auto simp: is_fb_iff is_pal_iff)
    let ?b = "slice_put (framebuffer m) (unat ?off) (to_le_bytes 4 x)"
    define m' where "m' = m\<lparr>framebuffer := ?b, watch := map_option (\<lambda>w. watch_record w Framebuffer ?off 4) (watch m)\<rparr>"
    have w: "mem_write m addr 4 x ic = (Ok (), m')"
      using True s(3) [OF r assms(4) len(1)] by (simp add: mem_write_def ca cl mem_store_def m'_def)
    have "word_at ?b j = log_read (acc_fb_addr a @ [drop_bit 2 ?off]) (acc_fb_val a @ [x]) (word_at (framebuffer m0) j) (of_nat j)" if "j < 16000" for j
      by (rule word_store_log [OF ms(1) ms(3) s(1) [OF r assms(4) len(1)] s(2) [OF r assms(4) len(1)] len(1) _ that]) simp_all
    then have "memory_sim k t m0 (log_display a addr x) m'"
      using assms(2) np True unfolding memory_sim_def by (simp add: m'_def reg lw) (simp add: log_display_def push_if_def)
    then show ?thesis using w by blast
  next
    case False
    let ?off = "addr - PALETTE_BASE"
    note s = display_word_slot [of PALETTE_BASE addr 192 "palette m"]
    have p: "sq_is_pal addr" using assms(5) False by simp
    have r: "unat PALETTE_BASE \<le> unat addr" "unat addr < unat PALETTE_BASE + 4 * 192" "unat PALETTE_BASE mod 4 = 0"
      using p is_pal_iff [of addr] by (auto simp: map_constants)
    let ?b = "slice_put (palette m) (unat ?off) (to_le_bytes 4 x)"
    define m' where "m' = m\<lparr>palette := ?b, watch := map_option (\<lambda>w. watch_record w Palette ?off 4) (watch m)\<rparr>"
    have w: "mem_write m addr 4 x ic = (Ok (), m')"
      using False s(3) [OF r assms(4) len(2)] by (simp add: mem_write_def ca cl mem_store_def m'_def)
    have "word_at ?b j = log_read (acc_pal_addr a @ [drop_bit 2 ?off]) (acc_pal_val a @ [x]) (word_at (palette m0) j) (of_nat j)" if "j < 192" for j
      by (rule word_store_log [OF ms(2) ms(4) s(1) [OF r assms(4) len(2)] s(2) [OF r assms(4) len(2)] len(2) _ that]) simp_all
    then have "memory_sim k t m0 (log_display a addr x) m'"
      using assms(2) False p unfolding memory_sim_def by (simp add: m'_def reg lw) (simp add: log_display_def push_if_def)
    then show ?thesis using w by blast
  qed
qed

lemma store_kind:
  assumes "kind_of p = K_Store mk"
  obtains wd where "mask_width mk wd" "exec_op p = (\<lambda>c pc w rd r1 r2 imm. exec_store c pc w r1 r2 imm wd)" "op_id p = 19"
proof (cases p)
  case Sb
  then show ?thesis using assms by (intro that [of 1]) (simp_all add: mask_width_def fun_eq_iff)
next
  case Sh
  then show ?thesis using assms by (intro that [of 2]) (simp_all add: mask_width_def fun_eq_iff)
next
  case Sw
  then show ?thesis using assms by (intro that [of 4]) (simp_all add: mask_width_def fun_eq_iff)
qed (use assms in simp_all)
end
