(* ===== verification/Sql_Run.thy ===== *)
theory Sql_Run
  imports Sql_Refines
begin

text \<open>
  One step and one batch of the fold against the reference machine: instruction by instruction first,
  then over the whole of \<open>arrayFold\<close>, up to the halt, the high-water mark or the frame that ends a batch.
\<close>

section \<open>Halt records\<close>

fun halt_code_of :: "halt_reason \<Rightarrow> u8" where
  "halt_code_of halt_reason.IllegalInsn = HALT_ILLEGAL_INSN"
| "halt_code_of halt_reason.SelfModify = HALT_SELF_MODIFY"
| "halt_code_of halt_reason.BadAddr = HALT_BAD_ADDR"
| "halt_code_of halt_reason.Misaligned = HALT_MISALIGNED"
| "halt_code_of halt_reason.Ecall = HALT_ECALL"
| "halt_code_of halt_reason.Ebreak = HALT_EBREAK"
| "halt_code_of halt_reason.Csr = HALT_CSR"
| "halt_code_of halt_reason.Exit = HALT_EXIT"

fun or_zero :: "u32 option \<Rightarrow> u32" where
  "or_zero (Some x) = x"
| "or_zero None = 0"

text \<open>The word a halt is reported with: the instruction, the exit code or the address it is about.\<close>

definition halt_extra_of :: "halt \<Rightarrow> u32" where
  "halt_extra_of h = (if h_reason h = halt_reason.IllegalInsn then or_zero (h_insn h)
     else if h_reason h = halt_reason.Exit then or_zero (h_exit_code h) else or_zero (h_addr h))"

definition halted_acc :: "acc \<Rightarrow> nat \<Rightarrow> halt \<Rightarrow> acc" where
  "halted_acc a i h = (record_cp a i)\<lparr>acc_stopped := 1, acc_halted := 1, acc_halt_reason := halt_code_of (h_reason h),
     acc_halt_pc := h_pc h, acc_halt_extra := halt_extra_of h\<rparr>"

lemma halt_code_of_bound: "unat (halt_code_of r) \<le> 8" "halt_code_of r \<noteq> 0"
  by (cases r; simp add: halt_codes)+

lemma added_dead: "unat hc \<le> 8 \<Longrightarrow> \<not> (\<exists>n \<in> set [0..<ADDED_CONSTANTS]. hc = of_nat (ADDED_CONSTANTS_FIRST + n))" for hc :: u8
proof -
  assume hc: "unat hc \<le> 8"
  have "unat (of_nat (33 + n) :: u8) = 33 + n" if "n < 60" for n using that by (simp add: unat_of_nat del: of_nat_add)
  then show ?thesis using hc by (auto simp: ADDED_CONSTANTS_def ADDED_CONSTANTS_FIRST_def simp del: of_nat_add)
qed

lemma fold_step_halted:
  assumes "acc_stopped a = 0" "sq_halt_code v k (sq_dec k t a) a = halt_code_of (h_reason h)" "h_pc h = acc_pc a"
    "sq_halt_extra v k (sq_dec k t a) a (halt_code_of (h_reason h)) = halt_extra_of h"
  shows "fold_step v k t a i = halted_acc a i h"
  using fold_step_halts [OF assms(1) refl assms(2) halt_code_of_bound(2)] assms(3,4) by (simp add: halted_acc_def)

section \<open>One instruction\<close>

text \<open>What the step leaves is what the instruction left, or its halt.\<close>

definition agrees :: "variant \<Rightarrow> fold_cfg \<Rightarrow> fold_tables \<Rightarrow> memory \<Rightarrow> acc \<Rightarrow> nat \<Rightarrow> cpu \<Rightarrow> (u32, halt) rresult \<times> cpu \<Rightarrow> bool" where
  "agrees v k t m0 a i c r = (case r of
     (Ok n, c') \<Rightarrow> let b = fold_step v k t a i in
       acc_pc b = n \<and> cpu_regs c' = 0 # acc_regs b \<and> acc_icount b = acc_icount a + 1 \<and> memory_sim k t m0 b (cpu_memory c') \<and>
       acc_halted b = acc_halted a \<and> (acc_stopped b = 0 \<longrightarrow> acc_frame_committed b = 0)
   | (Err h, c') \<Rightarrow> c' = c \<and> fold_step v k t a i = halted_acc a i h
   | (Panic, c') \<Rightarrow> False)"

lemma agrees_retired:
  assumes "sim k t m0 a c" "acc_frame_committed a = 0" "acc_stopped a = 0" "fold_step v k t a i = retired a i n regs"
  shows "agrees v k t m0 a i c (Ok n, c\<lparr>cpu_regs := 0 # regs\<rparr>)"
proof -
  have "memory_sim k t m0 (retired a i n regs) (cpu_memory c)" using memory_sim_retired assms(1,2) by (simp add: sim_def)
  then show ?thesis using assms(2,3) unfolding agrees_def assms(4) by (simp add: Let_def) (simp add: retired_def record_cp_def)
qed

lemma agrees_plain:
  assumes "sim k t m0 a c" "acc_frame_committed a = 0" "acc_stopped a = 0" "\<not> pc_out_of_text k a"
    and "i = decode w" "sq_dec k t a = row_of (acc_pc a) w i" "kind_of (i_op i) \<in> {K_Upper, K_Auipc, K_Imm, K_Shift, K_Reg, K_Fence}"
  shows "agrees v k t m0 a n c (execute c (acc_pc a) w i)"
proof -
  let ?d = "sq_dec k t a"
  note e = exec_plain [OF assms(1,5,6) refl assms(7)]
  have hc: "sq_halt_code v k ?d a = 0" by (rule hc_plain [OF assms(4) e(1)])
  have ids: "d_id ?d \<noteq> ID_LOAD" "d_id ?d \<noteq> ID_STORE" using e(1) by (auto simp: op_ids)
  have nx: "sq_next (d_id ?d) x y z u q = q" for x y z u q using e(1) by (auto simp: sq_next_def)
  show ?thesis unfolding e(2)
    by (rule agrees_retired [OF assms(1-3)]) (use fold_step_plain [OF assms(3) refl hc ids, of n] nx in simp)
qed

lemma agrees_jump:
  assumes "sim k t m0 a c" "acc_frame_committed a = 0" "acc_stopped a = 0" "\<not> pc_out_of_text k a"
    and "i = decode w" "sq_dec k t a = row_of (acc_pc a) w i" "kind_of (i_op i) \<in> {K_Jal, K_Jalr, K_Branch}"
  shows "agrees v k t m0 a n c (execute c (acc_pc a) w i)"
proof -
  let ?d = "sq_dec k t a"
  let ?tgt = "sq_jump_target (d_id ?d) (d_tgt ?d) (sq_addr ?d a AND NOT 1)"
  note e = exec_jump [OF assms(1,5,6) refl assms(7) refl]
  let ?bad = "sq_taken (d_id ?d) (sq_a ?d a) (sq_b ?d a) \<and> \<not> aligned4 ?tgt"
  have jm: "sq_jump_misaligned (d_id ?d) (sq_a ?d a) (sq_b ?d a) (d_tgt ?d) (sq_addr ?d a AND NOT 1) \<longleftrightarrow> ?bad"
    using e(1,2) by (simp add: sq_jump_misaligned_def and_3_aligned)
  note hc = hc_jump [OF assms(4) e(1,2), unfolded jm]
  have ids: "d_id ?d \<noteq> ID_LOAD" "d_id ?d \<noteq> ID_STORE" using e(1) by (auto simp: op_ids)
  show ?thesis
  proof (cases ?bad)
    case True
    then have "fold_step v k t a n = halted_acc a n (halt_at halt_reason.Misaligned (acc_pc a) w ?tgt)"
      using jm hc added_dead [of HALT_MISALIGNED] assms(4)
      by (intro fold_step_halted [OF assms(3)])
        (simp_all add: halts halt_extra_of_def sq_halt_extra_def Let_def jalr_target_iff, simp_all add: halt_codes)
    then show ?thesis using True unfolding e(3) by (simp add: agrees_def)
  next
    case False
    then have z: "sq_halt_code v k ?d a = 0" unfolding hc by (rule if_not_P)
    show ?thesis unfolding e(3) if_not_P [OF False]
      by (rule agrees_retired [OF assms(1-3)]) (use fold_step_plain [OF assms(3) refl z ids, of n] in \<open>simp add: jalr_target_iff\<close>)
  qed
qed

lemma agrees_halt:
  assumes "acc_stopped a = 0" "\<not> pc_out_of_text k a" "i = decode w" "sq_dec k t a = decode_row wa w" "kind_of (i_op i) = K_Halt"
  shows "agrees v k t m0 a n c (execute c (acc_pc a) w i)"
proof -
  let ?d = "sq_dec k t a"
  have d: "d_id ?d = op_id (i_op i)" "d_raw ?d = w" using assms(3,4) by (simp_all add: decode_row_columns sql_id_decode Let_def)
  obtain r where r: "execute c (acc_pc a) w i = (Err (halt_with_insn r (acc_pc a) w), c)"
    "sq_halt_code v k ?d a = halt_code_of r" "r \<in> {halt_reason.IllegalInsn, halt_reason.Ecall, halt_reason.Ebreak, halt_reason.Csr}"
  proof -
    consider "i_op i = op.Ecall" | "i_op i = op.Ebreak" | "i_op i = op.Csr" | "i_op i = Illegal"
      using assms(5) by (cases "i_op i") simp_all
    then show ?thesis
    proof cases
      case 1
      then show ?thesis by (intro that [of halt_reason.Ecall]) (simp_all add: execute_def sq_halt_code_def Let_def assms(2) d(1) op_ids)
    next
      case 2
      then show ?thesis by (intro that [of halt_reason.Ebreak]) (simp_all add: execute_def sq_halt_code_def Let_def assms(2) d(1) op_ids)
    next
      case 3
      then show ?thesis by (intro that [of halt_reason.Csr]) (simp_all add: execute_def sq_halt_code_def Let_def assms(2) d(1) op_ids)
    next
      case 4
      then show ?thesis by (intro that [of halt_reason.IllegalInsn]) (simp_all add: execute_def sq_halt_code_def Let_def assms(2) d(1) op_ids)
    qed
  qed
  have "\<not> 20 \<le> d_id ?d \<or> \<not> d_id ?d \<le> 27" using assms(5) unfolding d(1) by (cases "i_op i") simp_all
  then have jm: "\<not> sq_jump_misaligned (d_id ?d) x y z u" for x y z u by (auto simp: sq_jump_misaligned_def)
  have "fold_step v k t a n = halted_acc a n (halt_with_insn r (acc_pc a) w)"
    using r(2,3) assms(2) jm added_dead [OF halt_code_of_bound(1) [of r]]
    by (intro fold_step_halted [OF assms(1)]) (auto simp: halts halt_extra_of_def sq_halt_extra_def Let_def d(2) halt_codes)
  then show ?thesis unfolding r(1) by (simp add: agrees_def)
qed


lemma agrees_load:
  assumes "tables_ok k t" "sim k t m0 a c" "acc_frame_committed a = 0" "acc_stopped a = 0" "\<not> pc_out_of_text k a"
    and "i = decode w" "sq_dec k t a = row_of (acc_pc a) w i" "kind_of (i_op i) = K_Load mk sg"
    and "\<not> sq_is_fb (sq_addr (sq_dec k t a) a)" "\<not> sq_is_pal (sq_addr (sq_dec k t a) a)"
  shows "agrees v k t m0 a n c (execute c (acc_pc a) w i)"
proof -
  let ?d = "sq_dec k t a" and ?pc = "acc_pc a"
  let ?addr = "sq_addr ?d a"
  let ?q = "if sq_is_mmio_load v ?d ?addr \<and> mmio_is v ?addr KEYQ \<and> sq_keyq_has t a then acc_keyq_pos a + 1 else acc_keyq_pos a"
  let ?regs = "put_reg (d_rd ?d) (sq_loadv v k t ?d a ?addr) (acc_regs a)"
  obtain wd m' where l: "mask_width (d_mk ?d) wd" "d_id ?d = 18"
    "execute c ?pc w i = (if unat ?addr mod unat wd \<noteq> 0 then (Err (halt_at halt_reason.Misaligned ?pc w ?addr), c)
      else if sq_outside_ram v k ?addr \<and> \<not> sq_is_mmio v ?addr then (Err (halt_at halt_reason.BadAddr ?pc w ?addr), c)
      else (Ok (?pc + 4), c\<lparr>cpu_memory := m', cpu_regs := 0 # ?regs\<rparr>))"
    "unat ?addr mod unat wd = 0 \<longrightarrow> memory_sim k t m0 (a\<lparr>acc_keyq_pos := ?q\<rparr>) m'"
    by (rule exec_load_sim [OF assms(1,2,6,7) refl assms(8) refl assms(9,10), where v = v])
  note hc = hc_load [OF assms(5) l(2,1) refl, of v]
  have jm: "\<not> sq_jump_misaligned (d_id ?d) x y z u" for x y z u using l(2) by (simp add: sq_jump_misaligned_def)
  have stop: "fold_step v k t a n = halted_acc a n (halt_at r ?pc w ?addr)"
    if "sq_halt_code v k ?d a = halt_code_of r" "r = halt_reason.Misaligned \<or> r = halt_reason.BadAddr" for r
    using that jm assms(5) added_dead [OF halt_code_of_bound(1) [of r]]
    by (intro fold_step_halted [OF assms(4)]) (auto simp: halts halt_extra_of_def sq_halt_extra_def Let_def halt_codes)
  consider "unat ?addr mod unat wd \<noteq> 0" | "unat ?addr mod unat wd = 0" "sq_outside_ram v k ?addr \<and> \<not> sq_is_mmio v ?addr"
    | "unat ?addr mod unat wd = 0" "\<not> (sq_outside_ram v k ?addr \<and> \<not> sq_is_mmio v ?addr)" by blast
  then show ?thesis
  proof cases
    case 1
    then show ?thesis using stop [of halt_reason.Misaligned] hc unfolding l(3) by (simp add: agrees_def)
  next
    case 2
    then show ?thesis using stop [of halt_reason.BadAddr] hc unfolding l(3) by (simp add: agrees_def)
  next
    case 3
    then have z: "sq_halt_code v k ?d a = 0" using hc by auto
    have idl: "d_id ?d = ID_LOAD" using l(2) by (simp add: op_ids)
    have b: "fold_step v k t a n = retired (a\<lparr>acc_keyq_pos := ?q\<rparr>) n (?pc + 4) ?regs"
      using fold_step_load [OF assms(4) refl z idl refl, of n] by (simp add: retired_def record_cp_def sq_at_checkpoint_def)
    have "memory_sim k t m0 (retired (a\<lparr>acc_keyq_pos := ?q\<rparr>) n (?pc + 4) ?regs) m'"
      using memory_sim_retired [of k t m0 "a\<lparr>acc_keyq_pos := ?q\<rparr>" m'] l(4) 3(1) assms(3) by simp
    then show ?thesis using 3 assms(3,4) unfolding l(3) agrees_def b by (auto simp: Let_def retired_def record_cp_def)
  qed
qed

lemma memory_sim_cong:
  assumes "memory_sim k t m0 a m" "acc_wl_addr b = acc_wl_addr a" "acc_wl_val b = acc_wl_val a" "acc_fb_addr b = acc_fb_addr a"
    "acc_fb_val b = acc_fb_val a" "acc_pal_addr b = acc_pal_addr a" "acc_pal_val b = acc_pal_val a" "acc_keyq_pos b = acc_keyq_pos a"
    "acc_console b = acc_console a" "acc_frame_committed b = acc_frame_committed a" "acc_frame_no b = acc_frame_no a"
    "acc_frame_committed a \<noteq> 0 \<longrightarrow> acc_icount b = acc_icount a"
  shows "memory_sim k t m0 b m"
proof -
  have lw: "sq_lw t b w = sq_lw t a w" for w by (simp add: sq_lw_def assms)
  show ?thesis using assms(1,12) unfolding memory_sim_def registers_sim_def lw assms(2-11) by (cases "acc_frame_committed a = 0") auto
qed

text \<open>A store that changes memory and nothing else of the machine.\<close>

lemma agrees_stored:
  assumes "sim k t m0 a c" "fold_step v k t a i = b" "memory_sim k t m0 b m'" "acc_pc b = n" "acc_regs b = acc_regs a"
    "acc_icount b = acc_icount a + 1" "acc_halted b = acc_halted a" "acc_stopped b = 0 \<longrightarrow> acc_frame_committed b = 0"
  shows "agrees v k t m0 a i c (Ok n, c\<lparr>cpu_memory := m'\<rparr>)"
  using assms unfolding agrees_def by (simp add: sim_def Let_def)

lemma exec_store_sim:
  assumes "sim k t m0 a c" "i = decode w" "d = row_of pc w i" "kind_of (i_op i) = K_Store mk" "addr = sq_addr d a"
  obtains wd where "mask_width (d_mk d) wd" "d_id d = 19" "d_rd d = 0"
    "execute c pc w i = (case mem_write (cpu_memory c) addr wd (sq_rs2v d a) (acc_icount a) of
       (Ok _, m) \<Rightarrow> (Ok (pc + 4), c\<lparr>cpu_memory := m\<rparr>)
     | (Err f, m) \<Rightarrow> (Err (access_halt pc w f), c\<lparr>cpu_memory := m\<rparr>)
     | (Panic, m) \<Rightarrow> (Panic, c\<lparr>cpu_memory := m\<rparr>))"
proof -
  obtain wd where l: "mask_width mk wd" "exec_op (i_op i) = (\<lambda>c pc w rd r1 r2 imm. exec_store c pc w r1 r2 imm wd)" "op_id (i_op i) = 19"
    by (rule store_kind [OF assms(4)])
  have b: "unat (i_rs1 i) < 32" "unat (i_rs2 i) < 32" using decode_regs_bound assms(2) by auto
  note r = sq_reg_sim [OF assms(1) b(1)] sq_reg_sim [OF assms(1) b(2)]
  have d: "d_mk d = mk" "d_id d = 19" "d_rd d = 0" "d_rs1 d = i_rs1 i" "d_rs2 d = i_rs2 i" "d_imm d = i_imm i"
    using assms(4) l(3) unfolding assms(3) by (simp_all add: row_of_def plain_row_def)
  have ic: "cpu_icount c = acc_icount a" using assms(1) by (simp add: sim_def)
  show ?thesis by (rule that [of wd])
    (use l(1) in \<open>simp_all add: d execute_def l(2) r exec_store_def ic assms(5) sq_addr_def sq_a_def sq_rs2v_def\<close>)
qed


lemma agrees_ram_store:
  assumes "tables_ok k t" "sim k t m0 a c" "acc_frame_committed a = 0" "acc_stopped a = 0"
    and d: "d = sq_dec k t a" "d_id d = 19" "d_rd d = 0" "mask_width (d_mk d) wd" and addr: "addr = sq_addr d a"
    and "sq_halt_code v k d a = 0" "unat addr mod unat wd = 0" "\<not> sq_outside_ram v k addr" "\<not> sq_wa k addr < widx_get (text_end_widx k)"
  shows "\<exists>m'. mem_write (cpu_memory c) addr wd (sq_rs2v d a) (acc_icount a) = (Ok (), m') \<and>
    agrees v k t m0 a n c (Ok (acc_pc a + 4), c\<lparr>cpu_memory := m'\<rparr>)"
proof -
  note rc = assms(1) [unfolded tables_ok_def, THEN conjunct1]
  have out: "\<not> sq_is_mmio v addr" "\<not> sq_is_fb addr" "\<not> sq_is_pal addr"
    using assms(12) outside_ram_iff [OF rc] by (auto simp: is_mmio_iff is_fb_iff is_pal_iff)
  have s: "memory_sim k t m0 a (cpu_memory c)" "mem_wf (cpu_memory c)" using assms(2) by (auto simp: sim_def cpu_inv_def)
  let ?x = "sq_sval d (sq_lw t a (sq_wa k addr)) (sq_rs2v d a) addr"
  obtain m' where m': "mem_write (cpu_memory c) addr wd (sq_rs2v d a) (acc_icount a) = (Ok (), m')" "memory_sim k t m0 (log_ram a (sq_wa k addr) ?x) m'"
    using ram_write_sim(2) [OF assms(1) s d(4) assms(11,12,13)] by blast
  have ids: "d_id d = ID_STORE" using d(2) by (simp add: op_ids)
  note f = fold_step_ram_store [OF assms(4) d(1) assms(10) ids addr d(3) out, of n]
  have "agrees v k t m0 a n c (Ok (acc_pc a + 4), c\<lparr>cpu_memory := m'\<rparr>)"
    by (rule agrees_stored [OF assms(2) f memory_sim_cong [OF m'(2)]])
      (use assms(3) in \<open>simp_all add: retired_def record_cp_def log_ram_def\<close>)
  then show ?thesis using m'(1) by blast
qed

lemma agrees_mmio_store:
  assumes "tables_ok k t" "sim k t m0 a c" "acc_frame_committed a = 0" "acc_stopped a = 0"
    and d: "d = sq_dec k t a" "d_id d = 19" "d_rd d = 0" "mask_width (d_mk d) wd" and addr: "addr = sq_addr d a"
    and "sq_halt_code v k d a = 0" "unat addr mod unat wd = 0" "sq_is_mmio v addr" "\<not> (d_mk d = 4294967295 \<and> addr = MMIO_BASE + EXIT)"
  shows "\<exists>m'. mem_write (cpu_memory c) addr wd (sq_rs2v d a) (acc_icount a) = (Ok (), m') \<and>
    agrees v k t m0 a n c (Ok (acc_pc a + 4), c\<lparr>cpu_memory := m'\<rparr>)"
proof -
  have out: "\<not> sq_is_fb addr" "\<not> sq_is_pal addr" using assms(12) by (auto simp: is_mmio_iff is_fb_iff is_pal_iff)
  have s: "memory_sim k t m0 a (cpu_memory c)" "mem_wf (cpu_memory c)" using assms(2) by (auto simp: sim_def cpu_inv_def)
  obtain m' where m': "mem_write (cpu_memory c) addr wd (sq_rs2v d a) (acc_icount a) = (Ok (), m')"
    "memory_sim k t m0 (log_mmio v a addr (d_mk d = 4294967295) (sq_rs2v d a)) m'"
    using mmio_write_sim(2) [OF assms(1) s d(4) assms(11,12,3) refl assms(13)] by blast
  have ids: "d_id d = ID_STORE" using d(2) by (simp add: op_ids)
  note f = fold_step_mmio_store [OF assms(4) d(1) assms(10) ids addr d(3) assms(12) out, of n]
  have "agrees v k t m0 a n c (Ok (acc_pc a + 4), c\<lparr>cpu_memory := m'\<rparr>)"
    by (rule agrees_stored [OF assms(2) f memory_sim_cong [OF m'(2)]])
      (use assms(3) in \<open>simp_all add: retired_def record_cp_def log_mmio_def Let_def\<close>)
  then show ?thesis using m'(1) by blast
qed

lemma agrees_display_store:
  assumes "tables_ok k t" "sim k t m0 a c" "acc_frame_committed a = 0" "acc_stopped a = 0"
    and d: "d = sq_dec k t a" "d_id d = 19" "d_rd d = 0" and addr: "addr = sq_addr d a"
    and "sq_halt_code v k d a = 0" "unat addr mod 4 = 0" "sq_is_fb addr \<or> sq_is_pal addr"
  shows "\<exists>m'. mem_write (cpu_memory c) addr 4 (sq_rs2v d a) (acc_icount a) = (Ok (), m') \<and>
    agrees v k t m0 a n c (Ok (acc_pc a + 4), c\<lparr>cpu_memory := m'\<rparr>)"
proof -
  note rc = assms(1) [unfolded tables_ok_def, THEN conjunct1]
  have out: "\<not> sq_is_mmio v addr" using assms(11) by (auto simp: is_mmio_iff is_fb_iff is_pal_iff)
  have s: "memory_sim k t m0 a (cpu_memory c)" "mem_wf (cpu_memory c)" using assms(2) by (auto simp: sim_def cpu_inv_def)
  obtain m' where m': "mem_write (cpu_memory c) addr 4 (sq_rs2v d a) (acc_icount a) = (Ok (), m')"
    "memory_sim k t m0 (log_display a addr (sq_rs2v d a)) m'"
    using display_write_word [OF rc s assms(10,11)] by blast
  have ids: "d_id d = ID_STORE" using d(2) by (simp add: op_ids)
  note f = fold_step_display_store [OF assms(4) d(1) assms(9) ids addr d(3) out assms(11), of n]
  have "agrees v k t m0 a n c (Ok (acc_pc a + 4), c\<lparr>cpu_memory := m'\<rparr>)"
    by (rule agrees_stored [OF assms(2) f memory_sim_cong [OF m'(2)]])
      (use assms(3,4) in \<open>simp_all add: retired_def record_cp_def log_display_def Let_def\<close>)
  then show ?thesis using m'(1) by blast
qed

lemma agrees_store:
  assumes "tables_ok k t" "sim k t m0 a c" "acc_frame_committed a = 0" "acc_stopped a = 0" "\<not> pc_out_of_text k a"
    and "i = decode w" "sq_dec k t a = row_of (acc_pc a) w i" "kind_of (i_op i) = K_Store mk"
  shows "agrees v k t m0 a n c (execute c (acc_pc a) w i)"
proof -
  let ?d = "sq_dec k t a" and ?pc = "acc_pc a" and ?m = "cpu_memory c"
  let ?addr = "sq_addr ?d a" and ?x = "sq_rs2v (sq_dec k t a) a"
  let ?display = "sq_is_fb ?addr \<or> sq_is_pal ?addr" and ?word = "d_mk ?d = 4294967295"
  note rc = assms(1) [unfolded tables_ok_def, THEN conjunct1]
  have s: "memory_sim k t m0 a ?m" "mem_wf ?m" using assms(2) by (auto simp: sim_def cpu_inv_def)
  obtain wd where l: "mask_width (d_mk ?d) wd" "d_id ?d = 19" "d_rd ?d = 0"
    "execute c ?pc w i = (case mem_write ?m ?addr wd ?x (acc_icount a) of
       (Ok _, m) \<Rightarrow> (Ok (?pc + 4), c\<lparr>cpu_memory := m\<rparr>)
     | (Err f, m) \<Rightarrow> (Err (access_halt ?pc w f), c\<lparr>cpu_memory := m\<rparr>)
     | (Panic, m) \<Rightarrow> (Panic, c\<lparr>cpu_memory := m\<rparr>))"
    by (rule exec_store_sim [OF assms(2,6,7,8) refl])
  note aw = mask_width_access [OF l(1)]
  note hc = hc_store [OF assms(1,5) l(2,1) refl, of v, unfolded Let_def]
  have jm: "\<not> sq_jump_misaligned (d_id ?d) x y z u" for x y z u using l(2) by (simp add: sq_jump_misaligned_def)
  have stop: "agrees v k t m0 a n c (Err h, c\<lparr>cpu_memory := ?m\<rparr>)"
    if "sq_halt_code v k ?d a = halt_code_of (h_reason h)" "h_pc h = ?pc"
      "h_reason h \<in> {halt_reason.Misaligned, halt_reason.BadAddr, halt_reason.SelfModify} \<and> h_addr h = Some ?addr \<or>
       h_reason h = halt_reason.Exit \<and> h_exit_code h = Some ?x" for h
  proof -
    have "fold_step v k t a n = halted_acc a n h"
      using that jm assms(5) added_dead [OF halt_code_of_bound(1) [of "h_reason h"]]
      by (intro fold_step_halted [OF assms(4)]) (auto simp: halt_extra_of_def sq_halt_extra_def Let_def halt_codes)
    then show ?thesis by (simp add: agrees_def)
  qed
  have md: "sq_is_mmio v ?addr \<Longrightarrow> \<not> ?display" by (auto simp: is_mmio_iff is_fb_iff is_pal_iff)
  have mo: "sq_is_mmio v ?addr \<or> ?display \<Longrightarrow> sq_outside_ram v k ?addr"
    using outside_ram_iff [OF rc] by (auto simp: is_mmio_iff is_fb_iff is_pal_iff)
  consider (mis) "unat ?addr mod unat wd \<noteq> 0"
    | (bad) "unat ?addr mod unat wd = 0" "sq_outside_ram v k ?addr" "\<not> sq_is_mmio v ?addr" "\<not> ?display"
    | (narrow) "unat ?addr mod unat wd = 0" "?display" "\<not> ?word"
    | (display) "unat ?addr mod unat wd = 0" "?display" "?word"
    | (text_store) "unat ?addr mod unat wd = 0" "\<not> sq_outside_ram v k ?addr" "sq_wa k ?addr < widx_get (text_end_widx k)"
    | (ram) "unat ?addr mod unat wd = 0" "\<not> sq_outside_ram v k ?addr" "\<not> sq_wa k ?addr < widx_get (text_end_widx k)"
    | (exit) "unat ?addr mod unat wd = 0" "sq_is_mmio v ?addr" "?word" "?addr = MMIO_BASE + EXIT"
    | (mmio) "unat ?addr mod unat wd = 0" "sq_is_mmio v ?addr" "\<not> (?word \<and> ?addr = MMIO_BASE + EXIT)" by blast
  then show ?thesis
  proof cases
    case mis
    then have "mem_write ?m ?addr wd ?x (acc_icount a) = (Err (mem_fault.Misaligned ?addr wd), ?m)"
      by (simp add: mem_write_def check_align_iff [OF aw])
    then show ?thesis using stop [of "access_halt ?pc w (mem_fault.Misaligned ?addr wd)"] hc mis unfolding l(4) by (simp add: halts)
  next
    case bad
    have "mem_map ?m = sql_map k" using s(1) by (simp add: memory_sim_def)
    then have "mem_write ?m ?addr wd ?x (acc_icount a) = (Err (mem_fault.BadAddr ?addr), ?m)"
      using classify_sql [OF rc aw bad(1), of v] bad by (simp add: mem_write_def check_align_iff [OF aw])
    then show ?thesis using stop [of "access_halt ?pc w (mem_fault.BadAddr ?addr)"] hc bad unfolding l(4) by (simp add: halts)
  next
    case narrow
    note mw = display_write_narrow [OF rc s(1) l(1) narrow(1,2,3), of ?x "acc_icount a"]
    have z: "sq_halt_code v k ?d a = HALT_BAD_ADDR" using hc narrow by auto
    show ?thesis using mw stop [of "access_halt ?pc w (mem_fault.BadAddr ?addr)"] z unfolding l(4) by (simp add: halts)
  next
    case display
    have w4: "wd = 4" using l(1) display(3) by (auto simp: mask_width_def)
    have z: "sq_halt_code v k ?d a = 0" using hc display md by auto
    show ?thesis using agrees_display_store [OF assms(1-4) refl l(2,3) refl z _ display(2), of n] display(1) unfolding l(4) w4 by auto
  next
    case text_store
    note mw = ram_write_sim(1) [OF assms(1) s l(1) text_store(1,2,3), of ?x "acc_icount a"]
    have z: "sq_halt_code v k ?d a = HALT_SELF_MODIFY" using hc text_store mo by auto
    show ?thesis using mw stop [of "access_halt ?pc w (mem_fault.SelfModify ?addr)"] z unfolding l(4) by (simp add: halts)
  next
    case ram
    then have z: "sq_halt_code v k ?d a = 0" using hc mo by auto
    show ?thesis using agrees_ram_store [OF assms(1-4) refl l(2,3,1) refl z ram, of n] unfolding l(4) by auto
  next
    case exit
    note mw = mmio_write_sim(1) [OF assms(1) s l(1) exit(1,2) assms(3) refl exit(3,4), of ?x]
    have z: "sq_halt_code v k ?d a = HALT_EXIT" using hc exit md by auto
    show ?thesis using mw stop [of "access_halt ?pc w (mem_fault.Exit ?x)"] z unfolding l(4) by (simp add: halts)
  next
    case mmio
    then have z: "sq_halt_code v k ?d a = 0" using hc md by auto
    show ?thesis using agrees_mmio_store [OF assms(1-4) refl l(2,3,1) refl z mmio, of n] unfolding l(4) by auto
  qed
qed


section \<open>One step\<close>

text \<open>
  A load of a framebuffer or palette byte: the reference machine reads it, the fold has no array to read it
  from and reports a bad address.  The contract leaves such a load to the engine.
\<close>

definition display_addr :: "memory_map \<Rightarrow> u32 \<Rightarrow> bool" where
  "display_addr m addr = (case classify m addr 1 of Some (Framebuffer, _) \<Rightarrow> True | Some (Palette, _) \<Rightarrow> True | _ \<Rightarrow> False)"

definition reads_display :: "cpu \<Rightarrow> bool" where
  "reads_display c = (case fetch c of
     (Ok (w, i), _) \<Rightarrow> i_op i \<in> {Lb, Lh, Lw, Lbu, Lhu} \<and>
       (case reg c (i_rs1 i) of Some b \<Rightarrow> display_addr (mem_map (cpu_memory c)) (b + i_imm i) | None \<Rightarrow> False)
   | _ \<Rightarrow> False)"

lemma display_addr_sql: "ram_cfg k \<Longrightarrow> display_addr (sql_map k) addr \<longleftrightarrow> sq_is_fb addr \<or> sq_is_pal addr"
  using classify_sql [of k 1 addr Baseline] outside_ram_iff [of k Baseline addr]
  by (auto simp: display_addr_def access_width_def is_mmio_iff is_fb_iff is_pal_iff)

lemma execute_agrees:
  assumes "tables_ok k t" "sim k t m0 a c" "acc_frame_committed a = 0" "acc_stopped a = 0" "\<not> pc_out_of_text k a"
    and f: "fetch c = (Ok (w, decode w), c)" "sq_dec k t a = decode_row wa w" "wa * 4 = acc_pc a" and "\<not> reads_display c"
  shows "agrees v k t m0 a n c (execute c (acc_pc a) w (decode w))"
proof (cases "kind_of (i_op (decode w)) = K_Halt")
  case True
  then show ?thesis using agrees_halt assms f by blast
next
  case False
  then have d: "sq_dec k t a = row_of (acc_pc a) w (decode w)" using decode_row_exact f(2,3) by simp
  show ?thesis
  proof (cases "kind_of (i_op (decode w))")
    case (K_Load mk sg)
    note rc = assms(1) [unfolded tables_ok_def, THEN conjunct1]
    have b: "unat (i_rs1 (decode w)) < 32" using decode_regs_bound by auto
    have ld: "i_op (decode w) \<in> {Lb, Lh, Lw, Lbu, Lhu}" using K_Load by (cases "i_op (decode w)") simp_all
    have "sq_addr (sq_dec k t a) a = sq_reg a (i_rs1 (decode w)) + i_imm (decode w)"
      using K_Load unfolding d by (simp add: row_of_def plain_row_def sq_addr_def sq_a_def)
    moreover have "mem_map (cpu_memory c) = sql_map k" using assms(2) by (simp add: sim_def memory_sim_def)
    ultimately have "\<not> (sq_is_fb (sq_addr (sq_dec k t a) a) \<or> sq_is_pal (sq_addr (sq_dec k t a) a))"
      using assms(9) ld display_addr_sql [OF rc] by (auto simp: reads_display_def f(1) sq_reg_sim [OF assms(2) b])
    then show ?thesis using agrees_load [OF assms(1-5) refl d K_Load] by simp
  next
    case (K_Store mk)
    then show ?thesis using agrees_store [OF assms(1-5) refl d] by simp
  qed (use agrees_plain [OF assms(2-5) refl d] agrees_jump [OF assms(2-5) refl d] False in simp_all)
qed

lemma step_sim:
  assumes "tables_ok k t" "sim k t m0 a c" "acc_stopped a = 0" "acc_frame_committed a = 0" "\<not> reads_display c" "step c = (r, c')"
  shows "case r of
     Ok _ \<Rightarrow> sim k t m0 (fold_step v k t a i) c' \<and> acc_halted (fold_step v k t a i) = acc_halted a \<and>
       (acc_stopped (fold_step v k t a i) = 0 \<longrightarrow> acc_frame_committed (fold_step v k t a i) = 0)
   | Err h \<Rightarrow> c' = c \<and> fold_step v k t a i = halted_acc a i h
   | Panic \<Rightarrow> False"
proof (cases "pc_out_of_text k a")
  case True
  then have "outside_text c" "cpu_pc c = acc_pc a" using outside_text_iff(1) [OF assms(1,2)] assms(2) by (auto simp: sim_def)
  then have r: "r = Err (halt_on_fetch halt_reason.BadAddr (acc_pc a) (acc_pc a))" "c' = c"
    using assms(6) by (auto simp: step_def step_reporting_def Let_def)
  have "fold_step v k t a i = halted_acc a i (halt_on_fetch halt_reason.BadAddr (acc_pc a) (acc_pc a))"
    using True added_dead [of HALT_BAD_ADDR]
    by (intro fold_step_halted [OF assms(3)])
      (simp_all add: halts halt_extra_of_def sq_halt_extra_def sq_halt_code_def Let_def, simp_all add: halt_codes)
  then show ?thesis using r by simp
next
  case False
  obtain w where f: "fetch c = (Ok (w, decode w), c)" "sq_dec k t a = decode_row (drop_bit 2 (acc_pc a)) w"
    "drop_bit 2 (acc_pc a) * 4 = acc_pc a" by (rule fetch_sim [OF assms(1,2) False])
  have pc: "cpu_pc c = acc_pc a" and inv: "cpu_inv c" and ic: "cpu_icount c = acc_icount a" using assms(2) by (auto simp: sim_def)
  have out: "\<not> outside_text c" using outside_text_iff(1) [OF assms(1,2)] False by simp
  have ag: "agrees v k t m0 a i c (execute c (acc_pc a) w (decode w))"
    by (rule execute_agrees [OF assms(1,2,4,3) False f assms(5)])
  obtain s where s: "step_reporting c = (s, c')" "r = (case s of Ok _ \<Rightarrow> Ok () | Err h \<Rightarrow> Err h | Panic \<Rightarrow> Panic)"
    using assms(6) unfolding step_eq by blast
  note facts = step_reporting_facts [OF inv s(1)]
  obtain x c2 where x: "execute c (acc_pc a) w (decode w) = (x, c2)" by fastforce
  have sr: "step_reporting c = (case (x, c2) of
      (Ok n, c2) \<Rightarrow> (Ok (w, decode w), c2\<lparr>cpu_icount := cpu_icount c2 + 1, cpu_pc := n\<rparr>) | (Err h, c2) \<Rightarrow> (Err h, c2) | (Panic, c2) \<Rightarrow> (Panic, c2))"
    using out f(1) x pc by (simp add: step_reporting_def Let_def)
  show ?thesis
  proof (cases x)
    case (Ok n)
    then have c': "c' = c2\<lparr>cpu_icount := cpu_icount c2 + 1, cpu_pc := n\<rparr>" "s = Ok (w, decode w)" using sr s(1) by simp_all
    then have "aligned4 n" "cpu_icount c' = acc_icount a + 1" using facts(5) ic by auto
    then show ?thesis using ag facts(2) s(2) c' unfolding x Ok agrees_def by (simp add: sim_def Let_def)
  next
    case (Err h)
    then show ?thesis using ag sr s unfolding x agrees_def by simp
  next
    case Panic
    then show ?thesis using ag unfolding x agrees_def by simp
  qed
qed


section \<open>One batch\<close>

text \<open>What the tables of a batch hold of the machine it starts from.\<close>

definition captures :: "fold_cfg \<Rightarrow> fold_tables \<Rightarrow> u32 \<Rightarrow> cpu \<Rightarrow> bool" where
  "captures k t q c \<longleftrightarrow> cpu_inv c \<and> aligned4 (cpu_pc c) \<and> mem_map (cpu_memory c) = sql_map k \<and>
     text_region (cpu_memory c) = Some (RAM_BASE, RAM_BASE + 4 * widx_get (text_end_widx k)) \<and>
     (\<forall>j < unat (fc_ram_words k). word_at (ram (cpu_memory c)) j = RAMT t ! j) \<and>
     (\<exists>r. devices (cpu_memory c) = Registers r \<and> ipms r = fc_ipms k \<and> unat q \<le> length (KEYQT t) \<and>
       map (\<lambda>e. key_event (pressed e) (doomkey e)) (key_queue r) = map ucast (drop (unat q) (KEYQT t)))"

definition start_acc :: "u32 \<Rightarrow> cpu \<Rightarrow> acc" where
  "start_acc q c = init_acc (cpu_pc c) (tl (cpu_regs c)) (cpu_icount c) q"

lemma start_sim:
  assumes "tables_ok k t" "captures k t q c"
  shows "sim k t (cpu_memory c) (start_acc q c) c"
proof -
  let ?a = "start_acc q c"
  have "sq_lw t ?a (of_nat j) = RAMT t ! j" if "j < unat (fc_ram_words k)" for j
    using that assms(1) by (simp add: sq_lw_def start_acc_def init_acc_def array_element_def tables_ok_def ram_cfg_def unat_of_nat)
  then have "memory_sim k t (cpu_memory c) ?a (cpu_memory c)"
    using assms(2) unfolding memory_sim_def captures_def by (auto simp: start_acc_def init_acc_def registers_sim_def)
  moreover have "cpu_regs c = 0 # tl (cpu_regs c)"
    using assms(2) by (cases "cpu_regs c") (auto simp: captures_def cpu_inv_def regs_ok_def)
  ultimately show ?thesis using assms(2) by (simp add: sim_def captures_def start_acc_def init_acc_def)
qed

text \<open>No step of the next \<open>n\<close> loads from the display.\<close>

fun display_free :: "nat \<Rightarrow> cpu \<Rightarrow> bool" where
  "display_free 0 c = True"
| "display_free (Suc n) c = (\<not> reads_display c \<and> (case step c of (Ok _, c') \<Rightarrow> display_free n c' | _ \<Rightarrow> True))"

text \<open>The machines at which a checkpoint falls due, of the next \<open>n\<close> steps; the first of a batch is not recorded in it.\<close>

fun due :: "nat \<Rightarrow> nat \<Rightarrow> cpu \<Rightarrow> cpu list" where
  "due i 0 c = []"
| "due i (Suc n) c = (if 0 < i \<and> is_checkpoint trace_config_default (cpu_icount c) then [c] else []) @
     (case step c of (Ok _, c') \<Rightarrow> due (Suc i) n c' | _ \<Rightarrow> [])"

definition records :: "acc \<Rightarrow> cpu list \<Rightarrow> acc \<Rightarrow> bool" where
  "records a ds b \<longleftrightarrow> acc_cp_icount b = acc_cp_icount a @ map cpu_icount ds \<and> acc_cp_pc b = acc_cp_pc a @ map cpu_pc ds \<and>
     acc_cp_regs b = acc_cp_regs a @ concat (map (\<lambda>d. tl (cpu_regs d)) ds)"

lemma records_refl: "records a [] a"
  by (simp add: records_def)

lemma records_trans: "records a xs b \<Longrightarrow> records b ys d \<Longrightarrow> records a (xs @ ys) d"
  by (simp add: records_def)

lemma fold_step_records:
  assumes "sim k t m0 a c" "acc_stopped a = 0"
  shows "records a (if 0 < i \<and> is_checkpoint trace_config_default (cpu_icount c) then [c] else []) (fold_step v k t a i)"
proof -
  have s: "cpu_pc c = acc_pc a" "cpu_regs c = 0 # acc_regs a" "cpu_icount c = acc_icount a" using assms(1) by (auto simp: sim_def)
  have "sq_at_checkpoint a i \<longleftrightarrow> 0 < i \<and> is_checkpoint trace_config_default (acc_icount a)"
    using assms(2) by (auto simp: sq_at_checkpoint_def is_checkpoint_def is_multiple_of_def trace_config_default_def CHECKPOINT_INTERVAL_def)
  then show ?thesis using s by (auto simp: records_def fold_step_def Let_def push_if_def)
qed

text \<open>What ends a batch early other than a halt.\<close>

lemma fold_step_stops:
  assumes "acc_stopped a = 0" "acc_stopped (fold_step v k t a i) \<noteq> 0" "acc_halted (fold_step v k t a i) = 0"
  shows "acc_frame_committed (fold_step v k t a i) = 1 \<or> uint (fc_hwm k) \<le> int (length (acc_wl_addr (fold_step v k t a i)))"
proof -
  have "uint (of_nat n :: u32) \<le> int n" for n by (simp add: unsigned_of_nat take_bit_nat_less_eq_self flip: of_nat_take_bit)
  then have "uint (of_nat (length (acc_wl_addr a)) :: u32) + 1 \<le> 1 + int (length (acc_wl_addr a))" by simp
  then have "uint (fc_hwm k) \<le> uint (of_nat (length (acc_wl_addr a)) :: u32) + 1 \<Longrightarrow> uint (fc_hwm k) \<le> 1 + int (length (acc_wl_addr a))"
    by linarith
  then show ?thesis using assms by (auto simp: fold_step_def Let_def push_if_def split: if_splits)
qed

lemma foldl_stopped: "acc_stopped a \<noteq> 0 \<Longrightarrow> foldl (fold_step v k t) a is = a"
  by (induction "is") (simp_all add: fold_step_stopped)

lemma sim_halted:
  assumes "sim k t m0 a c"
  shows "sim k t m0 (halted_acc a i h) c"
proof -
  have e: "acc_pc (halted_acc a i h) = acc_pc a" "acc_regs (halted_acc a i h) = acc_regs a" "acc_icount (halted_acc a i h) = acc_icount a"
    by (simp_all add: halted_acc_def record_cp_def)
  have "memory_sim k t m0 a (cpu_memory c)" using assms by (simp add: sim_def)
  then have "memory_sim k t m0 (halted_acc a i h) (cpu_memory c)"
    by (rule memory_sim_cong) (simp_all add: halted_acc_def record_cp_def)
  then show ?thesis using assms by (simp add: sim_def e)
qed

definition batch_outcome :: "fold_cfg \<Rightarrow> nat \<Rightarrow> nat \<Rightarrow> cpu \<Rightarrow> acc \<Rightarrow> bool" where
  "batch_outcome k n m c b \<longleftrightarrow>
     (if acc_halted b = 0
      then (if acc_stopped b = 0 then m = n \<and> acc_frame_committed b = 0
            else 0 < m \<and> (acc_frame_committed b = 1 \<or> uint (fc_hwm k) \<le> int (length (acc_wl_addr b))))
      else m < n \<and> (\<exists>h. step c = (Err h, c) \<and> acc_halted b = 1 \<and> acc_halt_reason b = halt_code_of (h_reason h) \<and>
             acc_halt_pc b = h_pc h \<and> acc_halt_extra b = halt_extra_of h))"

lemma fold_sim:
  assumes "tables_ok k t" "sim k t m0 a c" "acc_stopped a = 0" "acc_frame_committed a = 0" "acc_halted a = 0" "display_free n c"
  shows "\<exists>m c'. m \<le> n \<and> run_steps m c = (Ok None, c') \<and> sim k t m0 (foldl (fold_step v k t) a [i..<i + n]) c' \<and>
    batch_outcome k n m c' (foldl (fold_step v k t) a [i..<i + n]) \<and>
    records a (due i (m + unat (acc_halted (foldl (fold_step v k t) a [i..<i + n]))) c) (foldl (fold_step v k t) a [i..<i + n])"
  using assms(2-6)
proof (induction n arbitrary: a c i)
  case 0
  then show ?case by (intro exI [of _ 0] exI [of _ c]) (simp add: batch_outcome_def records_refl)
next
  case (Suc n)
  let ?b = "fold_step v k t a i"
  have e: "foldl (fold_step v k t) a [i..<i + Suc n] = foldl (fold_step v k t) ?b [Suc i..<Suc i + n]"
    by (simp add: upt_conv_Cons del: upt_Suc)
  obtain r c1 where r: "step c = (r, c1)" by fastforce
  have nr: "\<not> reads_display c" using Suc.prems(5) by simp
  note st = step_sim [OF assms(1) Suc.prems(1-3) nr r, of v i]
  note rec = fold_step_records [OF Suc.prems(1,2), of i v]
  show ?case
  proof (cases r)
    case (Ok u)
    then have s1: "sim k t m0 ?b c1" "acc_halted ?b = 0" "acc_stopped ?b = 0 \<longrightarrow> acc_frame_committed ?b = 0" using st Suc.prems(4) by auto
    have df: "display_free n c1" using Suc.prems(5) r Ok by simp
    show ?thesis
    proof (cases "acc_stopped ?b = 0")
      case True
      from Suc.IH [OF s1(1) True _ s1(2) df, of "Suc i"] s1(3) True obtain m c' where
        ih: "m \<le> n" "run_steps m c1 = (Ok None, c')" "sim k t m0 (foldl (fold_step v k t) ?b [Suc i..<Suc i + n]) c'"
        "batch_outcome k n m c' (foldl (fold_step v k t) ?b [Suc i..<Suc i + n])"
        "records ?b (due (Suc i) (m + unat (acc_halted (foldl (fold_step v k t) ?b [Suc i..<Suc i + n]))) c1) (foldl (fold_step v k t) ?b [Suc i..<Suc i + n])"
        by auto
      show ?thesis unfolding e using ih r Ok records_trans [OF rec ih(5)]
        by (intro exI [of _ "Suc m"] exI [of _ c']) (auto simp: batch_outcome_def split: if_splits)
    next
      case False
      show ?thesis unfolding e foldl_stopped [OF False]
        using s1 r Ok rec fold_step_stops [OF Suc.prems(2) False s1(2)] False
        by (intro exI [of _ "Suc 0"] exI [of _ c1]) (simp add: batch_outcome_def)
    qed
  next
    case (Err h)
    then have b: "c1 = c" "?b = halted_acc a i h" using st by auto
    then have st1: "acc_stopped ?b \<noteq> 0" "acc_halted ?b = 1" by (simp_all add: halted_acc_def)
    have o: "batch_outcome k (Suc n) 0 c ?b" using r Err b by (simp add: batch_outcome_def halted_acc_def)
    show ?thesis unfolding e foldl_stopped [OF st1(1)]
      using sim_halted [OF Suc.prems(1), of i h] b(2) o rec r Err st1(2)
      by (intro exI [of _ 0] exI [of _ c]) simp
  next
    case Panic
    then show ?thesis using st by simp
  qed
qed

end
