(* ===== verification/Sql_Db.thy ===== *)
theory Sql_Db
  imports Sql_Run
begin

text \<open>
  The tables the machine lives in between batches and the statements that move it: the batch statement of
  \<open>executor/src/fold.rs\<close>, the flushes and the retention of \<open>executor/src/commit.rs\<close>, the frame readout of
  \<open>driver/src/render.rs\<close>, the decode pass, the reset row of \<open>driver/src/emulation/bootstrap.rs\<close> and the words
  \<open>driver/src/emulation/rom.rs\<close> loads.  A table is the list of its rows in the order they were inserted; a read
  with \<open>FINAL\<close> keeps, of the rows with one key, the one with the greatest version, the last inserted of equals.
\<close>

section \<open>Replacing tables\<close>

text \<open>The row of key \<open>x\<close> that \<open>FINAL\<close> keeps.\<close>

fun final_row :: "('r \<Rightarrow> 'k) \<Rightarrow> ('r \<Rightarrow> 'v::linorder) \<Rightarrow> 'r option \<Rightarrow> 'r list \<Rightarrow> 'k \<Rightarrow> 'r option" where
  "final_row key ver best [] x = best"
| "final_row key ver best (r # rs) x =
     final_row key ver (if key r \<noteq> x then best else case best of None \<Rightarrow> Some r
        | Some b \<Rightarrow> if ver b \<le> ver r then Some r else Some b) rs x"

text \<open>\<open>SELECT ... FROM table FINAL ORDER BY key\<close>.\<close>

definition final_rows :: "('r \<Rightarrow> 'k::linorder) \<Rightarrow> ('r \<Rightarrow> 'v::linorder) \<Rightarrow> 'r list \<Rightarrow> 'r list" where
  "final_rows key ver rs = List.map_filter (final_row key ver None rs) (sort (remdups (map key rs)))"

text \<open>A table without a version column keeps the last row inserted.\<close>

definition unversioned :: "'r \<Rightarrow> nat" where
  "unversioned r = 0"

section \<open>The tables\<close>

record word_row =
  wr_addr :: u32
  wr_value :: u32
  wr_version :: u64

record batch_commit_row =
  bc_batch_id :: u64
  bc_icount :: u64
  bc_pc :: u32
  bc_regs :: "u32 list"
  bc_halted :: u8
  bc_halt_reason :: string
  bc_exit_code :: u32
  bc_keyq_pos :: u64
  bc_has_frame :: u8
  bc_frame_no :: u32
  bc_wl_addr :: "u32 list"
  bc_wl_val :: "u32 list"
  bc_wl_icount :: "u64 list"
  bc_fb_wl_addr :: "u32 list"
  bc_fb_wl_val :: "u32 list"
  bc_fb_wl_icount :: "u64 list"
  bc_pal_wl_addr :: "u32 list"
  bc_pal_wl_val :: "u32 list"
  bc_pal_wl_icount :: "u64 list"
  bc_console_bytes :: "u8 list"
  bc_cp_icount :: "u64 list"
  bc_cp_pc :: "u32 list"
  bc_cp_regs :: "u32 list"

record cpu_state_row =
  cs_batch_id :: u64
  cs_icount :: u64
  cs_pc :: u32
  cs_regs :: "u32 list"
  cs_halted :: u8
  cs_halt_reason :: string
  cs_exit_code :: u32

record console_row =
  co_seq :: u64
  co_byte :: u8

record frame_row =
  fo_frame_no :: u32
  fo_committed_icount :: u64
  fo_fb :: "u8 list"
  fo_palette :: "u8 list"

record key_row =
  iq_event_seq :: u64
  iq_key_event :: u16

record database =
  t_batch_commit :: "batch_commit_row list"
  t_cpu_state :: "cpu_state_row list"
  t_ram :: "word_row list"
  t_framebuffer :: "word_row list"
  t_palette :: "word_row list"
  t_input_queue :: "key_row list"
  t_frames_out :: "frame_row list"
  t_console_out :: "console_row list"
  t_decoded :: "decoded_row list"

text \<open>\<open>ORDER BY batch_id DESC LIMIT 1\<close>.\<close>

fun latest_by :: "('r \<Rightarrow> 'k::linorder) \<Rightarrow> 'r list \<Rightarrow> 'r option" where
  "latest_by key [] = None"
| "latest_by key (r # rs) = (case latest_by key rs of None \<Rightarrow> Some r
     | Some b \<Rightarrow> if key b < key r then Some r else Some b)"

section \<open>One batch\<close>

text \<open>\<open>decode_with\<close>: the arrays a batch captures.\<close>

definition decode_with :: "database \<Rightarrow> fold_tables" where
  "decode_with d = \<lparr> RAMT = map wr_value (final_rows wr_addr wr_version (t_ram d)),
     DEC = map captured (sort_key dc_word_addr (t_decoded d)),
     KEYQT = map iq_key_event (sort_key iq_event_seq (t_input_queue d)) \<rparr>"

text \<open>\<open>transform(code, [1..8], names, '')\<close>.\<close>

definition halt_reason_transform :: "u8 \<Rightarrow> string" where
  "halt_reason_transform c = (case map_of HALT_REASON_NAMES c of Some s \<Rightarrow> s | None \<Rightarrow> '''')"

definition commit_row :: "u64 \<Rightarrow> acc \<Rightarrow> batch_commit_row" where
  "commit_row b r = \<lparr> bc_batch_id = b, bc_icount = acc_icount r, bc_pc = acc_pc r, bc_regs = acc_regs r,
     bc_halted = acc_halted r, bc_halt_reason = halt_reason_transform (acc_halt_reason r),
     bc_exit_code = (if acc_halt_reason r = HALT_EXIT then acc_halt_extra r else 0),
     bc_keyq_pos = ucast (acc_keyq_pos r), bc_has_frame = acc_frame_committed r, bc_frame_no = acc_frame_no r,
     bc_wl_addr = acc_wl_addr r, bc_wl_val = acc_wl_val r, bc_wl_icount = acc_wl_icount r,
     bc_fb_wl_addr = acc_fb_addr r, bc_fb_wl_val = acc_fb_val r, bc_fb_wl_icount = acc_fb_icount r,
     bc_pal_wl_addr = acc_pal_addr r, bc_pal_wl_val = acc_pal_val r, bc_pal_wl_icount = acc_pal_icount r,
     bc_console_bytes = acc_console r,
     bc_cp_icount = acc_cp_icount r, bc_cp_pc = acc_cp_pc r, bc_cp_regs = acc_cp_regs r \<rparr>"

text \<open>
  The batch statement: the accumulator starts from the latest committed row, and the row it ends with is the
  one row inserted.  Without a committed row there is nothing to start from.
\<close>

definition batch :: "variant \<Rightarrow> fold_cfg \<Rightarrow> nat \<Rightarrow> database \<Rightarrow> database option" where
  "batch v k n d = (case latest_by bc_batch_id (t_batch_commit d) of
     None \<Rightarrow> None
   | Some prev \<Rightarrow> let r = array_fold v k (decode_with d) n
         (init_acc (bc_pc prev) (bc_regs prev) (bc_icount prev) (ucast (bc_keyq_pos prev))) in
       Some (d\<lparr>t_batch_commit := t_batch_commit d @ [commit_row (bc_batch_id prev + 1) r]\<rparr>))"

section \<open>Flushes\<close>

definition batch_rows :: "database \<Rightarrow> u64 \<Rightarrow> batch_commit_row list" where
  "batch_rows d b = filter (\<lambda>r. bc_batch_id r = b) (t_batch_commit d)"

text \<open>\<open>arrayJoin(arrayZip(addr, val, icount))\<close>: the three arrays of a log have one length.\<close>

fun log_rows :: "u32 \<Rightarrow> u32 list \<Rightarrow> u32 list \<Rightarrow> u64 list \<Rightarrow> word_row list" where
  "log_rows base (a # as) (v # vs) (i # is) =
     \<lparr> wr_addr = base + a, wr_value = v, wr_version = i \<rparr> # log_rows base as vs is"
| "log_rows base as vs is = []"

definition ram_flush :: "u64 \<Rightarrow> database \<Rightarrow> database" where
  "ram_flush b d = d\<lparr>t_ram := t_ram d @
     concat (map (\<lambda>r. log_rows (drop_bit 2 RAM_BASE) (bc_wl_addr r) (bc_wl_val r) (bc_wl_icount r)) (batch_rows d b))\<rparr>"

definition framebuffer_flush :: "u64 \<Rightarrow> database \<Rightarrow> database" where
  "framebuffer_flush b d = d\<lparr>t_framebuffer := t_framebuffer d @
     concat (map (\<lambda>r. log_rows 0 (bc_fb_wl_addr r) (bc_fb_wl_val r) (bc_fb_wl_icount r)) (batch_rows d b))\<rparr>"

definition palette_flush :: "u64 \<Rightarrow> database \<Rightarrow> database" where
  "palette_flush b d = d\<lparr>t_palette := t_palette d @
     concat (map (\<lambda>r. log_rows 0 (bc_pal_wl_addr r) (bc_pal_wl_val r) (bc_pal_wl_icount r)) (batch_rows d b))\<rparr>"

definition console_rows :: "u64 \<Rightarrow> u8 list \<Rightarrow> console_row list" where
  "console_rows b bytes = map (\<lambda>(i, x). \<lparr> co_seq = push_bit 32 b + (of_nat i - 1), co_byte = x \<rparr>) (zip [1..<length bytes + 1] bytes)"

definition console_out_flush :: "u64 \<Rightarrow> database \<Rightarrow> database" where
  "console_out_flush b d = d\<lparr>t_console_out := t_console_out d @
     concat (map (\<lambda>r. console_rows (bc_batch_id r) (bc_console_bytes r)) (batch_rows d b))\<rparr>"

definition cpu_state_of :: "batch_commit_row \<Rightarrow> cpu_state_row" where
  "cpu_state_of r = \<lparr> cs_batch_id = bc_batch_id r, cs_icount = bc_icount r, cs_pc = bc_pc r, cs_regs = bc_regs r,
     cs_halted = bc_halted r, cs_halt_reason = bc_halt_reason r, cs_exit_code = bc_exit_code r \<rparr>"

definition cpu_state_flush :: "u64 \<Rightarrow> database \<Rightarrow> database" where
  "cpu_state_flush b d = d\<lparr>t_cpu_state := t_cpu_state d @ map cpu_state_of (batch_rows d b)\<rparr>"

text \<open>
  The window's edge is computed in signed 64-bit arithmetic and floored at 0.  The server runs the delete in the
  background; the model drops the rows at once, which no reader can tell apart (lemma \<open>retention_unread\<close> of
  \<open>Sql_Store\<close>): the rows that go are neither the latest one nor of the batch being read.
\<close>

definition BATCH_COMMIT_RETENTION_N :: u32 where "BATCH_COMMIT_RETENTION_N = 16"

definition retention_threshold :: "u64 \<Rightarrow> u32 \<Rightarrow> u64" where
  "retention_threshold b n = word_of_int (max 0 (sint (word_of_int (sint b - uint n) :: i64)))"

definition retention :: "u64 \<Rightarrow> u32 \<Rightarrow> database \<Rightarrow> database" where
  "retention b n d = d\<lparr>t_batch_commit := filter (\<lambda>r. \<not> bc_batch_id r < retention_threshold b n) (t_batch_commit d)\<rparr>"

section \<open>Frames\<close>

definition FRAMEBUFFER_WORDS :: u32 where "FRAMEBUFFER_WORDS = FRAMEBUFFER_SIZE div 4"
definition PALETTE_WORDS :: u32 where "PALETTE_WORDS = PALETTE_SIZE div 4"

text \<open>Every word of a region, 0 where nothing was stored.\<close>

definition dense_words :: "word_row list \<Rightarrow> u32 \<Rightarrow> u32 list" where
  "dense_words rows n = map (\<lambda>i. case final_row wr_addr wr_version None rows (of_nat i) of
     Some r \<Rightarrow> wr_value r | None \<Rightarrow> 0) [0..<unat n]"

definition region_bytes_sql :: "u32 list \<Rightarrow> u8 list" where
  "region_bytes_sql ws = concat (map (to_le_bytes 4) ws)"

definition frame_readout :: "u64 \<Rightarrow> database \<Rightarrow> database" where
  "frame_readout b d = d\<lparr>t_frames_out := t_frames_out d @ map (\<lambda>r.
       \<lparr> fo_frame_no = bc_frame_no r, fo_committed_icount = bc_icount r,
         fo_fb = region_bytes_sql (dense_words (t_framebuffer d) FRAMEBUFFER_WORDS),
         fo_palette = region_bytes_sql (dense_words (t_palette d) PALETTE_WORDS) \<rparr>)
     (filter (\<lambda>r. bc_has_frame r = 1 \<and> bc_frame_no r \<notin> set (map fo_frame_no (t_frames_out d))) (batch_rows d b))\<rparr>"

section \<open>The runner's sequences\<close>

text \<open>\<open>flush\<close> and \<open>recover\<close> of \<open>driver/src/emulation/run.rs\<close>, statement by statement.\<close>

definition flush :: "u64 \<Rightarrow> (database \<Rightarrow> database) list" where
  "flush b = [ram_flush b, framebuffer_flush b, palette_flush b, console_out_flush b, cpu_state_flush b]"

definition recover :: "u64 \<Rightarrow> (database \<Rightarrow> database) list" where
  "recover b = flush b @ [frame_readout b]"

definition run_all :: "(database \<Rightarrow> database) list \<Rightarrow> database \<Rightarrow> database" where
  "run_all ss d = foldl (\<lambda>d s. s d) d ss"

section \<open>Provisioning\<close>

definition RESET_REGS :: "u32 list" where "RESET_REGS = replicate 31 0"

datatype seed_error = WrongRegisterCount nat
datatype seeded = Fresh nat | AlreadySeeded

definition reset_row :: "u32 list \<Rightarrow> batch_commit_row" where
  "reset_row regs = \<lparr> bc_batch_id = 0, bc_icount = 0, bc_pc = RAM_BASE, bc_regs = regs, bc_halted = 0,
     bc_halt_reason = '''', bc_exit_code = 0, bc_keyq_pos = 0, bc_has_frame = 0, bc_frame_no = 0,
     bc_wl_addr = [], bc_wl_val = [], bc_wl_icount = [], bc_fb_wl_addr = [], bc_fb_wl_val = [], bc_fb_wl_icount = [],
     bc_pal_wl_addr = [], bc_pal_wl_val = [], bc_pal_wl_icount = [], bc_console_bytes = [],
     bc_cp_icount = [], bc_cp_pc = [], bc_cp_regs = [] \<rparr>"

definition seed :: "u32 list \<Rightarrow> database \<Rightarrow> (seeded, seed_error) rresult \<times> database" where
  "seed regs d =
     (if length regs \<noteq> 31 then (Err (WrongRegisterCount (length regs)), d)
      else if 0 < length (batch_rows d 0) then (Ok AlreadySeeded, d)
      else (Ok (Fresh (length regs)), d\<lparr>t_batch_commit := t_batch_commit d @ [reset_row regs]\<rparr>))"

text \<open>\<open>sqlcpu/decode.sql\<close>: the table is emptied, then filled with the rows of the text window in address order.\<close>

definition decode_pass :: "u32 \<Rightarrow> u32 \<Rightarrow> database \<Rightarrow> database" where
  "decode_pass text_start_word text_end_word d = d\<lparr>t_decoded :=
     map (\<lambda>r. decoded_columns (wr_addr r) (wr_value r))
       (filter (\<lambda>r. text_start_word \<le> wr_addr r \<and> wr_addr r < text_end_word) (final_rows wr_addr wr_version (t_ram d)))\<rparr>"

end
