(* ===== verification/Sql_Store.thy ===== *)
theory Sql_Store
  imports Sql_Db
begin

text \<open>
  What the tables promise their readers: a flush may be redone at any time, a flushed log is the latest of what it
  logged, the console reads back in order, and retention never drops a row a reader still needs.
\<close>

section \<open>Reads with FINAL\<close>

lemma final_row_append: "final_row key ver best (xs @ ys) x = final_row key ver (final_row key ver best xs x) ys x"
  by (induction xs arbitrary: best) simp_all

lemma final_row_result: "final_row key ver best rs x = Some r \<Longrightarrow> best = Some r \<or> r \<in> set rs \<and> key r = x"
proof (induction rs arbitrary: best)
  case (Cons q rs)
  show ?case using Cons.IH [of "if key q \<noteq> x then best else case best of None \<Rightarrow> Some q | Some b \<Rightarrow> if ver b \<le> ver q then Some q else Some b"] Cons.prems
    by (auto split: if_splits option.splits)
qed simp

lemma final_row_absent: "x \<notin> set (map key rs) \<Longrightarrow> final_row key ver best rs x = best"
  by (induction rs arbitrary: best) auto

lemma final_row_some: "best \<noteq> None \<or> x \<in> set (map key rs) \<Longrightarrow> final_row key ver best rs x \<noteq> None"
  by (induction rs arbitrary: best) (auto split: option.splits)

lemma final_row_greatest:
  assumes "final_row key ver best rs x = Some r"
  shows "r' \<in> set rs \<Longrightarrow> key r' = x \<Longrightarrow> ver r' \<le> ver r" "best = Some b \<Longrightarrow> ver b \<le> ver r"
proof -
  have "(\<forall>r' \<in> set rs. key r' = x \<longrightarrow> ver r' \<le> ver r) \<and> (\<forall>b. best = Some b \<longrightarrow> ver b \<le> ver r)"
    using assms
  proof (induction rs arbitrary: best)
    case (Cons q rs)
    let ?b = "if key q \<noteq> x then best else case best of None \<Rightarrow> Some q | Some b \<Rightarrow> if ver b \<le> ver q then Some q else Some b"
    have ih: "\<forall>r' \<in> set rs. key r' = x \<longrightarrow> ver r' \<le> ver r" "\<forall>b. ?b = Some b \<longrightarrow> ver b \<le> ver r" using Cons.IH [of ?b] Cons.prems by auto
    show ?case using ih by (auto split: if_splits option.splits intro: order_trans)
  qed simp
  then show "r' \<in> set rs \<Longrightarrow> key r' = x \<Longrightarrow> ver r' \<le> ver r" "best = Some b \<Longrightarrow> ver b \<le> ver r" by blast+
qed

text \<open>Rows inserted twice are read as rows inserted once.\<close>

lemma final_row_self:
  assumes "final_row key ver None ys x = Some r"
  shows "final_row key ver (Some b) ys x = (if ver b \<le> ver r then Some r else Some b)"
  using assms
proof (induction ys arbitrary: r rule: rev_induct)
  case (snoc y ys)
  show ?case
  proof (cases "key y = x")
    case False
    then show ?thesis using snoc by (simp add: final_row_append)
  next
    case True
    show ?thesis
    proof (cases "final_row key ver None ys x")
      case None
      then have "final_row key ver (Some b) ys x = Some b"
        using final_row_some [of None x key ys ver] by (intro final_row_absent) auto
      then show ?thesis using snoc.prems None True by (auto simp: final_row_append)
    next
      case (Some q)
      then show ?thesis using snoc.IH [OF Some] snoc.prems True by (auto simp: final_row_append split: if_splits)
    qed
  qed
qed simp

lemma final_row_redo: "final_row key ver None (xs @ ys @ ys) x = final_row key ver None (xs @ ys) x"
proof (cases "final_row key ver None ys x")
  case None
  then have "x \<notin> set (map key ys)" using final_row_some [of None x key ys ver] by auto
  then show ?thesis by (simp add: final_row_append final_row_absent)
next
  case (Some r)
  have "final_row key ver (Some r) ys x = Some r" using final_row_self [OF Some, of r] by simp
  then show ?thesis
  proof (cases "final_row key ver None xs x")
    case (Some b)
    then show ?thesis using final_row_self [OF \<open>final_row key ver None ys x = Some r\<close>] \<open>final_row key ver (Some r) ys x = Some r\<close>
      by (simp add: final_row_append)
  qed (use Some \<open>final_row key ver (Some r) ys x = Some r\<close> in \<open>simp add: final_row_append\<close>)
qed

lemma sort_remdups_eq: "set xs = set ys \<Longrightarrow> sort (remdups xs) = sort (remdups (ys :: 'a::linorder list))"
  by (metis sorted_list_of_set_sort_remdups)

lemma final_rows_redo: "final_rows key ver (xs @ ys @ ys) = final_rows key ver (xs @ ys)"
proof -
  have "sort (remdups (map key (xs @ ys @ ys))) = sort (remdups (map key (xs @ ys)))" by (rule sort_remdups_eq) auto
  moreover have "final_row key ver None (xs @ ys @ ys) = final_row key ver None (xs @ ys)" by (rule ext) (rule final_row_redo)
  ultimately show ?thesis by (simp only: final_rows_def)
qed

lemma latest_by_append: "latest_by key (xs @ ys) = (case latest_by key ys of None \<Rightarrow> latest_by key xs
    | Some b \<Rightarrow> (case latest_by key xs of None \<Rightarrow> Some b | Some a \<Rightarrow> if key b < key a then Some a else Some b))"
  by (induction xs) (auto split: option.splits)


lemma latest_by_None: "latest_by key rs = None \<longleftrightarrow> rs = []"
  by (cases rs) (auto split: option.splits)

lemma latest_by_max: "latest_by key rs = Some b \<Longrightarrow> b \<in> set rs \<and> (\<forall>r \<in> set rs. key r \<le> key b)"
  by (induction rs arbitrary: b) (auto simp: latest_by_None split: option.splits if_splits)

lemma latest_by_redo: "latest_by key (xs @ ys @ ys) = latest_by key (xs @ ys)"
  by (simp add: latest_by_append split: option.splits)

section \<open>Recovery\<close>

text \<open>Everything a reader of the derived tables sees: the order of equal rows and their number is not.\<close>

record observed =
  o_ram :: "word_row list"
  o_framebuffer :: "u32 list"
  o_palette :: "u32 list"
  o_console :: "console_row list"
  o_cpu_state :: "cpu_state_row option"
  o_frames :: "frame_row list"
  o_batch_commit :: "batch_commit_row list"

definition observe :: "database \<Rightarrow> observed" where
  "observe d = \<lparr> o_ram = final_rows wr_addr wr_version (t_ram d),
     o_framebuffer = dense_words (t_framebuffer d) FRAMEBUFFER_WORDS, o_palette = dense_words (t_palette d) PALETTE_WORDS,
     o_console = final_rows co_seq unversioned (t_console_out d), o_cpu_state = latest_by cs_batch_id (t_cpu_state d),
     o_frames = t_frames_out d, o_batch_commit = t_batch_commit d \<rparr>"

lemmas statements = ram_flush_def framebuffer_flush_def palette_flush_def console_out_flush_def cpu_state_flush_def frame_readout_def
  batch_rows_def

lemma dense_words_redo: "dense_words (xs @ ys @ ys) n = dense_words (xs @ ys) n"
  by (simp only: dense_words_def final_row_redo)

text \<open>
  C11: a crash anywhere in the derivations of a batch is repaired by redoing them.  Whatever prefix of the flushes and
  the frame readout had run when the process died, \<open>recover\<close> for that batch leaves RAM, the framebuffer, the
  palette, the console, the state row and the frames reading exactly as one undisturbed pass would have.
\<close>

theorem recover_after_crash: "observe (run_all (recover b) (run_all (take n (recover b)) d)) = observe (run_all (recover b) d)"
proof -
  have "n = 0 \<or> n = 1 \<or> n = 2 \<or> n = 3 \<or> n = 4 \<or> n = 5 \<or> 6 \<le> n" by linarith
  then show ?thesis
    by (elim disjE)
      (simp_all add: recover_def flush_def run_all_def statements observe_def final_rows_redo dense_words_redo latest_by_redo numeral_eq_Suc,
        auto simp: filter_empty_conv)
qed

section \<open>Retention\<close>

lemma floor_zero: "word_of_int (max 0 (sint w)) = (if unat w < 2 ^ 63 then w else (0 :: i64))"
proof (cases "unat w < 2 ^ 63")
  case True
  then have "int (unat w) < int (2 ^ 63)" by (rule iffD2 [OF of_nat_less_iff])
  then have u: "uint w < 2 ^ 63" by simp
  have "- (2 ^ 63) \<le> uint w" by (rule order_trans [of _ 0]) simp_all
  then have "sint w = uint w" using signed_take_bit_int_eq_self [of 63 "uint w"] u by (simp add: sint_uint)
  then show ?thesis using True by simp
next
  case False
  then have "int (2 ^ 63) \<le> int (unat w)" by (intro of_nat_mono) simp
  then have w: "2 ^ 63 \<le> uint w" "uint w < 2 ^ 64" using uint_bounded [of w] by simp_all
  then have "uint w div 9223372036854775808 = 1" by (intro int_div_pos_eq [of _ _ _ "uint w - 2 ^ 63"]) simp_all
  then have "sint w = uint w - 2 ^ 64" using w
    by (simp add: sint_uint signed_take_bit_eq_take_bit_minus bit_iff_odd take_bit_eq_mod)
  then show ?thesis using False w by simp
qed

lemma threshold_nat: "unat (retention_threshold b n) = (if unat b < 2 ^ 63 + unat n then unat b - unat n else 0)"
proof -
  have "word_of_int (sint b - uint n) = b - (ucast n :: i64)" by simp
  then have t: "retention_threshold b n = (if unat (b - (ucast n :: i64)) < 2 ^ 63 then b - ucast n else 0)"
    by (simp only: retention_threshold_def floor_zero)
  have n: "unat (ucast n :: i64) = unat n" by (simp add: unsigned_ucast_eq take_bit_nat_eq_self_iff less_le_trans [OF unsigned_less])
  have "unat n < 2 ^ 32" using unsigned_less [of n] by simp
  moreover have "unat b < 2 ^ 64" using unsigned_less [of b] by simp
  ultimately show ?thesis unfolding t by (simp add: unat_sub_if' n)
qed

text \<open>Rows below the latest one can go without any reader noticing: the latest row and the rows of its batch stay.\<close>

lemma latest_by_filter:
  "latest_by key rs = Some p \<Longrightarrow> t \<le> key p \<Longrightarrow> latest_by key (filter (\<lambda>r. \<not> key r < t) rs) = Some p"
proof (induction rs arbitrary: p)
  case (Cons r rs)
  show ?case
  proof (cases "latest_by key rs")
    case None
    then have "rs = []" by (cases rs) (auto split: option.splits if_splits)
    then show ?thesis using Cons.prems by (simp add: not_less)
  next
    case (Some q)
    show ?thesis
    proof (cases "t \<le> key q")
      case True
      then show ?thesis using Cons.IH [OF Some True] Some Cons.prems by (auto simp: not_less split: if_splits)
    next
      case False
      then have lt: "key x < t" if "x \<in> set rs" for x using that Some latest_by_max [OF Some] by (meson not_le order.strict_trans1)
      then have "filter (\<lambda>r. \<not> key r < t) rs = []" by (auto simp: filter_empty_conv)
      then show ?thesis using Some Cons.prems False by (auto simp: not_less split: if_splits)
    qed
  qed
qed simp

lemma retention_unread:
  assumes "latest_by bc_batch_id (t_batch_commit d) = Some p" "retention_threshold b n \<le> bc_batch_id p"
  shows "latest_by bc_batch_id (t_batch_commit (retention b n d)) = Some p" "batch_rows (retention b n d) (bc_batch_id p) = batch_rows d (bc_batch_id p)"
    "decode_with (retention b n d) = decode_with d"
proof -
  show "latest_by bc_batch_id (t_batch_commit (retention b n d)) = Some p"
    using latest_by_filter [OF assms] by (simp add: retention_def)
  show "batch_rows (retention b n d) (bc_batch_id p) = batch_rows d (bc_batch_id p)"
    using assms(2) by (auto simp: batch_rows_def retention_def not_less intro: filter_cong)
  show "decode_with (retention b n d) = decode_with d" by (simp add: decode_with_def retention_def)
qed

lemma filter_upt_ge: "filter (\<lambda>i. a \<le> i) [lo..<hi] = [max lo a..<hi]"
  by (induction hi) (auto simp: max_def)

text \<open>
  C12: what retention with a window of \<open>n\<close> keeps.  A row stays if and only if its batch is at most \<open>n\<close> behind the one just
  committed, also during the first \<open>n\<close> batches of a run, where the window reaches below zero; when the batch number has
  reached the sign bit of the arithmetic nothing is dropped; no other table is touched.  Of consecutive batches up to
  \<open>b\<close> the batches from \<open>b - n\<close> to \<open>b\<close> stay: \<open>n + 1\<close> rows, so 17 with the configured window of 16.
\<close>

theorem retention_exact:
  "retention b n d = d\<lparr>t_batch_commit := (if unat b < 2 ^ 63 + unat n then filter (\<lambda>r. unat b \<le> unat (bc_batch_id r) + unat n) (t_batch_commit d)
     else t_batch_commit d)\<rparr> \<and>
   (map (unat \<circ> bc_batch_id) (t_batch_commit d) = [lo..<unat b + 1] \<and> unat b < 2 ^ 63 \<longrightarrow>
     map (unat \<circ> bc_batch_id) (t_batch_commit (retention b n d)) = [max lo (unat b - unat n)..<unat b + 1])"
proof -
  have eq: "(\<lambda>r :: batch_commit_row. \<not> bc_batch_id r < retention_threshold b n) =
      (\<lambda>r. unat b < 2 ^ 63 + unat n \<longrightarrow> unat b \<le> unat (bc_batch_id r) + unat n)"
    by (auto simp: fun_eq_iff word_less_nat_alt threshold_nat)
  then have r: "retention b n d = d\<lparr>t_batch_commit := (if unat b < 2 ^ 63 + unat n then filter (\<lambda>r. unat b \<le> unat (bc_batch_id r) + unat n) (t_batch_commit d)
     else t_batch_commit d)\<rparr>" by (simp add: retention_def)
  have "map (unat \<circ> bc_batch_id) (t_batch_commit (retention b n d)) = [max lo (unat b - unat n)..<unat b + 1]"
    if m: "map (unat \<circ> bc_batch_id) (t_batch_commit d) = [lo..<unat b + 1]" and b: "unat b < 2 ^ 63"
  proof -
    have "map (unat \<circ> bc_batch_id) (t_batch_commit (retention b n d)) =
        filter (\<lambda>i. unat b \<le> i + unat n) (map (unat \<circ> bc_batch_id) (t_batch_commit d))"
      using b unfolding r by (simp add: filter_map comp_def)
    also have "\<dots> = filter (\<lambda>i. unat b - unat n \<le> i) [lo..<unat b + 1]" unfolding m by (rule filter_cong) auto
    finally show ?thesis by (simp only: filter_upt_ge)
  qed
  then show ?thesis using r by blast
qed

text \<open>After batch 20 with the configured window, batches 4 to 20 are left.\<close>

theorem retention_exact_witness:
  "map (unat \<circ> bc_batch_id) (t_batch_commit (retention 20 BATCH_COMMIT_RETENTION_N
     \<lparr> t_batch_commit = map (\<lambda>i. (reset_row [])\<lparr>bc_batch_id := of_nat i\<rparr>) [0..<21], t_cpu_state = [], t_ram = [], t_framebuffer = [],
        t_palette = [], t_input_queue = [], t_frames_out = [], t_console_out = [], t_decoded = [] \<rparr>)) = [4..<21]"
proof -
  have "map (unat \<circ> bc_batch_id) (map (\<lambda>i. (reset_row [])\<lparr>bc_batch_id := of_nat i\<rparr>) [0..<21]) = [0..<unat (20 :: u64) + 1]"
    by (simp add: upt_rec)
  then show ?thesis
    using retention_exact [of 20 BATCH_COMMIT_RETENTION_N "\<lparr> t_batch_commit = map (\<lambda>i. (reset_row [])\<lparr>bc_batch_id := of_nat i\<rparr>) [0..<21],
        t_cpu_state = [], t_ram = [], t_framebuffer = [], t_palette = [], t_input_queue = [], t_frames_out = [], t_console_out = [], t_decoded = [] \<rparr>" 0, THEN conjunct2]
    by (simp add: BATCH_COMMIT_RETENTION_N_def)
qed

end
