(* ===== verification/Sql_Loop.thy ===== *)
theory Sql_Loop
  imports Sql_Store
begin

text \<open>
  The machine across batches.  The tables stand for a reference machine when the latest committed row has its
  registers and counters, RAM read with FINAL is its RAM word for word, the display tables are its display and the
  decoded rows are its text.  One turn of the runner's loop, a batch, its flushes and retention, takes such tables
  to tables that stand for the machine after the steps the batch retired.
\<close>

section \<open>Flushed logs\<close>

lemma log_rows_snoc:
  assumes "length as = length vs" "length vs = length is"
  shows "log_rows base (as @ [a]) (vs @ [v]) (is @ [i]) = log_rows base as vs is @ [\<lparr> wr_addr = base + a, wr_value = v, wr_version = i \<rparr>]"
  using assms by (induction as vs "is" rule: list_induct3) simp_all

lemma log_rows_set:
  assumes "length as = length vs" "length vs = length is" "r \<in> set (log_rows base as vs is)"
  shows "wr_version r \<in> set is" "wr_addr r - base \<in> set as"
  using assms by (induction as vs "is" rule: list_induct3) auto

text \<open>A log whose versions only grow, past everything the table holds: the table then reads as the log over itself.\<close>

lemma final_log:
  assumes "length as = length vs" "length vs = length is" "sorted is"
    and "\<And>b i. best = Some b \<Longrightarrow> i \<in> set is \<Longrightarrow> wr_version b \<le> i"
  shows "map_option wr_value (final_row wr_addr wr_version best (log_rows base as vs is) (base + w)) =
    (if w \<in> set as then Some (log_read as vs 0 w) else map_option wr_value best)"
  using assms
proof (induction "length as" arbitrary: as vs "is")
  case 0
  then show ?case by simp
next
  case (Suc n)
  from Suc.hyps(2) Suc.prems(1,2) obtain as' a vs' v is' i where e: "as = as' @ [a]" "vs = vs' @ [v]" "is = is' @ [i]"
    by (metis length_Suc_conv_rev)
  have l: "length as' = length vs'" "length vs' = length is'" "n = length as'" using Suc.prems(1,2) Suc.hyps(2) by (simp_all add: e)
  have s: "sorted is'" "\<And>j. j \<in> set is' \<Longrightarrow> j \<le> i" using Suc.prems(3) by (auto simp: e sorted_append)
  let ?f = "final_row wr_addr wr_version best (log_rows base as' vs' is') (base + w)"
  have ih: "map_option wr_value ?f = (if w \<in> set as' then Some (log_read as' vs' 0 w) else map_option wr_value best)"
    using Suc.hyps(1) [OF l(3,1,2) s(1)] Suc.prems(4) by (simp add: e)
  have ver: "wr_version r \<le> i" if "?f = Some r" for r
    using final_row_result [OF that] log_rows_set(1) [OF l(1,2), of r base] s(2) Suc.prems(4) [of r i] by (auto simp: e)
  show ?case
  proof (cases "w = a")
    case True
    then show ?thesis using ver l log_read_snoc [OF l(1), of a v 0 w]
      by (cases ?f) (auto simp: e log_rows_snoc [OF l(1,2)] final_row_append)
  next
    case False
    then have "base + a \<noteq> base + w" by simp
    then show ?thesis using ih False log_read_snoc [OF l(1), of a v 0 w]
      by (simp add: e log_rows_snoc [OF l(1,2)] final_row_append)
  qed
qed

section \<open>The logs of a batch\<close>

text \<open>Three arrays of one length, their counts ascending and of this batch.\<close>

definition log_ok :: "u64 \<Rightarrow> u64 \<Rightarrow> u32 list \<Rightarrow> u32 list \<Rightarrow> u64 list \<Rightarrow> bool" where
  "log_ok i0 ic as vs is \<longleftrightarrow> length as = length vs \<and> length vs = length is \<and> sorted is \<and> (\<forall>i \<in> set is. i0 < i \<and> i \<le> ic)"

definition logs_ok :: "u64 \<Rightarrow> acc \<Rightarrow> bool" where
  "logs_ok i0 a \<longleftrightarrow> i0 \<le> acc_icount a \<and> log_ok i0 (acc_icount a) (acc_wl_addr a) (acc_wl_val a) (acc_wl_icount a) \<and>
     log_ok i0 (acc_icount a) (acc_fb_addr a) (acc_fb_val a) (acc_fb_icount a) \<and>
     log_ok i0 (acc_icount a) (acc_pal_addr a) (acc_pal_val a) (acc_pal_icount a)"

lemma log_ok_push:
  assumes "log_ok i0 ic as vs is" "ic < ic + 1" "i0 \<le> ic"
  shows "log_ok i0 (ic + 1) (push_if c a as) (push_if c v vs) (push_if c (ic + 1) is)"
proof -
  have "i \<le> ic + 1" if "i \<le> ic" for i using that assms(2) by (meson less_imp_le order_trans)
  moreover have "i0 < ic + 1" using assms(2,3) by (meson le_less_trans)
  ultimately show ?thesis using assms(1) by (auto simp: log_ok_def push_if_def sorted_append)
qed

lemma log_ok_mono: "log_ok i0 ic as vs is \<Longrightarrow> ic \<le> ic' \<Longrightarrow> log_ok i0 ic' as vs is"
  by (auto simp: log_ok_def)

lemma fold_step_logs:
  assumes "logs_ok i0 a" "acc_icount a < acc_icount a + 1"
  shows "logs_ok i0 (fold_step v k t a i)"
proof -
  let ?r = "acc_stopped a = 0 \<and> sq_halt_code v k (sq_dec k t a) a = 0"
  have le: "i0 \<le> acc_icount a" "i0 \<le> acc_icount a + 1" using assms by (auto simp: logs_ok_def)
  show ?thesis
  proof (cases ?r)
    case True
    then have ic: "acc_icount (fold_step v k t a i) = acc_icount a + 1" by (simp add: fold_step_def Let_def)
    show ?thesis using assms(1) le log_ok_push [OF _ assms(2) le(1)] unfolding logs_ok_def ic by (simp add: fold_step_def Let_def)
  next
    case False
    then show ?thesis using assms(1) by (auto simp: logs_ok_def fold_step_def Let_def push_if_def sq_retiring_store_def)
  qed
qed

lemma fold_step_icount: "acc_icount (fold_step v k t a i) = acc_icount a \<or> acc_icount (fold_step v k t a i) = acc_icount a + 1"
  by (simp add: fold_step_def Let_def)

lemma foldl_logs:
  assumes "logs_ok i0 a" "unat (acc_icount a) + length is < 2 ^ 64"
  shows "logs_ok i0 (foldl (fold_step v k t) a is)"
  using assms
proof (induction "is" arbitrary: a)
  case (Cons i "is")
  have nw: "unat (acc_icount a + 1) = unat (acc_icount a) + 1" using Cons.prems(2) by (simp add: unat_word_ariths)
  then have "acc_icount a < acc_icount a + 1" by (simp add: word_less_nat_alt)
  then have "logs_ok i0 (fold_step v k t a i)" by (rule fold_step_logs [OF Cons.prems(1)])
  moreover have "unat (acc_icount (fold_step v k t a i)) + length is < 2 ^ 64"
    using fold_step_icount [of v k t a i] nw Cons.prems(2) by auto
  ultimately show ?case using Cons.IH by simp
qed simp

lemma start_logs: "logs_ok i (init_acc pc regs i q)"
  by (simp add: logs_ok_def log_ok_def init_acc_def)


section \<open>Words of a table\<close>

definition word_value :: "word_row list \<Rightarrow> u32 \<Rightarrow> u32" where
  "word_value rows x = (case final_row wr_addr wr_version None rows x of Some r \<Rightarrow> wr_value r | None \<Rightarrow> 0)"

lemma log_read_default: "length as = length vs \<Longrightarrow> w \<in> set as \<Longrightarrow> log_read as vs d w = log_read as vs e w"
  using array_last_index_le [of w as] array_last_index_0 [of w as] by (auto simp: log_read_def array_element_def)

lemma word_value_flush:
  assumes "log_ok i0 ic as vs is" "\<forall>r \<in> set rows. wr_version r \<le> i0"
  shows "word_value (rows @ log_rows base as vs is) (base + w) = log_read as vs (word_value rows (base + w)) w"
proof -
  let ?b = "final_row wr_addr wr_version None rows (base + w)" and ?f = "final_row wr_addr wr_version None (rows @ log_rows base as vs is) (base + w)"
  have l: "length as = length vs" "length vs = length is" "sorted is" "\<And>i. i \<in> set is \<Longrightarrow> i0 < i" using assms(1) by (auto simp: log_ok_def)
  have f: "?f = final_row wr_addr wr_version ?b (log_rows base as vs is) (base + w)" by (rule final_row_append)
  have "map_option wr_value ?f = (if w \<in> set as then Some (log_read as vs 0 w) else map_option wr_value ?b)"
    unfolding f
  proof (rule final_log [OF l(1,2,3)])
    fix b i assume "?b = Some b" "i \<in> set is"
    then show "wr_version b \<le> i" using final_row_result [of wr_addr wr_version None rows "base + w" b] assms(2) l(4) [of i] by fastforce
  qed
  then have f: "map_option wr_value ?f = (if w \<in> set as then Some (log_read as vs 0 w) else map_option wr_value ?b)" .
  show ?thesis
  proof (cases "w \<in> set as")
    case True
    then have "word_value (rows @ log_rows base as vs is) (base + w) = log_read as vs 0 w" using f by (auto simp: word_value_def)
    also have "\<dots> = log_read as vs (word_value rows (base + w)) w" by (rule log_read_default [OF l(1) True])
    finally show ?thesis .
  next
    case False
    then have "word_value (rows @ log_rows base as vs is) (base + w) = word_value rows (base + w)"
      using f by (cases ?f; cases ?b) (simp_all add: word_value_def)
    then show ?thesis by (simp only: log_read_absent [OF False])
  qed
qed

lemma dense_words_value: "dense_words rows n = map (\<lambda>j. word_value rows (of_nat j)) [0..<unat n]"
  by (simp add: dense_words_def word_value_def)

text \<open>Dense RAM reads back word by word.\<close>

definition dense_ram :: "fold_cfg \<Rightarrow> word_row list \<Rightarrow> bool" where
  "dense_ram k rows \<longleftrightarrow> wr_addr ` set rows = (\<lambda>j. 0x20000000 + of_nat j) ` {..<unat (fc_ram_words k)}"

lemma ram_word_nat: "ram_cfg k \<Longrightarrow> j < unat (fc_ram_words k) \<Longrightarrow> unat (0x20000000 + of_nat j :: u32) = 0x20000000 + j"
  by (simp add: ram_cfg_def unat_word_ariths unat_of_nat)

lemma ram_keys:
  assumes "ram_cfg k" "dense_ram k rows"
  shows "sort (remdups (map wr_addr rows)) = map (\<lambda>j. 0x20000000 + of_nat j) [0..<unat (fc_ram_words k)]"
proof (rule sorted_distinct_set_unique)
  let ?n = "unat (fc_ram_words k)"
  show "sorted (map (\<lambda>j. 0x20000000 + of_nat j :: u32) [0..<?n])"
    by (auto simp: sorted_iff_nth_mono word_le_nat_alt ram_word_nat [OF assms(1)])
  show "distinct (map (\<lambda>j. 0x20000000 + of_nat j :: u32) [0..<?n])"
    by (auto simp: distinct_map inj_on_def) (metis add_left_cancel ram_word_nat [OF assms(1)])
  show "set (sort (remdups (map wr_addr rows))) = set (map (\<lambda>j. 0x20000000 + of_nat j) [0..<?n])"
    using assms(2) by (auto simp: dense_ram_def)
qed simp_all

lemma ramt_words:
  assumes "ram_cfg k" "dense_ram k (t_ram d)"
  shows "RAMT (decode_with d) = map (\<lambda>j. word_value (t_ram d) (0x20000000 + of_nat j)) [0..<unat (fc_ram_words k)]"
proof -
  have "final_row wr_addr wr_version None (t_ram d) x \<noteq> None" if "x \<in> wr_addr ` set (t_ram d)" for x
    using that by (intro final_row_some) simp
  then have "map wr_value (List.map_filter (final_row wr_addr wr_version None (t_ram d)) xs) = map (word_value (t_ram d)) xs"
    if "set xs \<subseteq> wr_addr ` set (t_ram d)" for xs
    using that by (induction xs) (auto simp: map_filter_simps word_value_def split: option.splits)
  moreover have "set (map (\<lambda>j. 0x20000000 + of_nat j) [0..<unat (fc_ram_words k)]) \<subseteq> wr_addr ` set (t_ram d)"
    using assms(2) by (auto simp: dense_ram_def)
  ultimately show ?thesis by (simp add: decode_with_def final_rows_def ram_keys [OF assms] o_def)
qed

lemma latest_by_snoc: "(\<And>r. r \<in> set rs \<Longrightarrow> key r \<le> key x) \<Longrightarrow> latest_by key (rs @ [x]) = Some x"
  using latest_by_max [of key rs] by (auto simp: latest_by_append not_less split: option.splits dest: leD)


section \<open>The console\<close>

lemma map_filter_cong': "(\<And>x. x \<in> set xs \<Longrightarrow> f x = g x) \<Longrightarrow> List.map_filter f xs = List.map_filter g xs"
  by (induction xs) (auto simp: map_filter_simps split: option.splits)

lemma map_filter_append': "List.map_filter f (xs @ ys) = List.map_filter f xs @ List.map_filter f ys"
  by (induction xs) (simp_all add: map_filter_simps split: option.splits)

text \<open>Rows with later keys read after the rest.\<close>

lemma final_rows_append:
  assumes "\<And>x y. x \<in> set xs \<Longrightarrow> y \<in> set ys \<Longrightarrow> key x < key y"
  shows "final_rows key ver (xs @ ys) = final_rows key ver xs @ final_rows key ver ys"
proof -
  let ?kx = "sort (remdups (map key xs))" and ?ky = "sort (remdups (map key ys))"
  have "sort (remdups (map key (xs @ ys))) = ?kx @ ?ky"
  proof (rule sorted_distinct_set_unique)
    show "sorted (?kx @ ?ky)" "distinct (?kx @ ?ky)" using assms by (fastforce simp: sorted_append)+
  qed auto
  moreover have "List.map_filter (final_row key ver None (xs @ ys)) ?kx = List.map_filter (final_row key ver None xs) ?kx"
  proof (rule map_filter_cong')
    fix x assume "x \<in> set ?kx"
    then have "x \<notin> set (map key ys)" using assms by fastforce
    then show "final_row key ver None (xs @ ys) x = final_row key ver None xs x" by (simp add: final_row_append final_row_absent)
  qed
  moreover have "List.map_filter (final_row key ver None (xs @ ys)) ?ky = List.map_filter (final_row key ver None ys) ?ky"
  proof (rule map_filter_cong')
    fix y assume "y \<in> set ?ky"
    then have "y \<notin> set (map key xs)" using assms by fastforce
    then show "final_row key ver None (xs @ ys) y = final_row key ver None ys y" by (simp add: final_row_append final_row_absent)
  qed
  ultimately show ?thesis by (simp add: final_rows_def map_filter_append')
qed

lemma final_rows_sorted: "sorted_wrt (<) (map key ys) \<Longrightarrow> final_rows key ver ys = ys"
proof (induction ys)
  case (Cons y ys)
  have "final_rows key ver ([y] @ ys) = final_rows key ver [y] @ final_rows key ver ys"
    using Cons.prems by (intro final_rows_append) auto
  moreover have "final_rows key ver [y] = [y]" by (simp add: final_rows_def map_filter_simps)
  ultimately show ?case using Cons by simp
qed (simp add: final_rows_def map_filter_simps)

lemma console_seq:
  assumes "unat b < 2 ^ 32" "i < 2 ^ 32"
  shows "unat (push_bit 32 b + of_nat i :: u64) = unat b * 2 ^ 32 + i"
proof -
  have "unat (push_bit 32 b) = unat b * 2 ^ 32"
    using assms(1) by (simp add: push_bit_eq_mult unat_word_ariths)
  moreover have "unat b * 2 ^ 32 + i < 2 ^ 64" using assms by simp
  ultimately show ?thesis using assms(2) by (simp add: unat_word_ariths unat_of_nat)
qed

lemma console_rows_nth: "i < length bytes \<Longrightarrow> console_rows b bytes ! i = \<lparr> co_seq = push_bit 32 b + of_nat i, co_byte = bytes ! i \<rparr>"
  by (simp add: console_rows_def del: upt_Suc)

lemma length_console_rows [simp]: "length (console_rows b bytes) = length bytes"
  by (simp add: console_rows_def del: upt_Suc)

lemma console_rows_bytes: "map co_byte (console_rows b bytes) = bytes"
  by (rule nth_equalityI) (simp_all add: console_rows_nth)

lemma console_flush:
  assumes "unat b < 2 ^ 32" "length bytes < 2 ^ 32" "\<forall>r \<in> set rows. unat (co_seq r) < unat b * 2 ^ 32"
  shows "map co_byte (final_rows co_seq unversioned (rows @ console_rows b bytes)) = map co_byte (final_rows co_seq unversioned rows) @ bytes"
    and "\<forall>r \<in> set (rows @ console_rows b bytes). unat (co_seq r) < (unat b + 1) * 2 ^ 32"
proof -
  have seq: "unat (co_seq (console_rows b bytes ! i)) = unat b * 2 ^ 32 + i" if "i < length bytes" for i
    using console_seq [OF assms(1), of i] that assms(2) by (simp add: console_rows_nth)
  have new: "unat b * 2 ^ 32 \<le> unat (co_seq r) \<and> unat (co_seq r) < (unat b + 1) * 2 ^ 32" if "r \<in> set (console_rows b bytes)" for r
    using that seq assms(2) by (fastforce simp: in_set_conv_nth)
  have "final_rows co_seq unversioned (rows @ console_rows b bytes) = final_rows co_seq unversioned rows @ final_rows co_seq unversioned (console_rows b bytes)"
    by (rule final_rows_append) (use new assms(3) in \<open>auto simp: word_less_nat_alt intro: less_le_trans\<close>)
  moreover have "final_rows co_seq unversioned (console_rows b bytes) = console_rows b bytes"
    by (intro final_rows_sorted) (auto simp: sorted_wrt_iff_nth_less word_less_nat_alt seq)
  ultimately show "map co_byte (final_rows co_seq unversioned (rows @ console_rows b bytes)) = map co_byte (final_rows co_seq unversioned rows) @ bytes"
    by (simp add: console_rows_bytes)
  show "\<forall>r \<in> set (rows @ console_rows b bytes). unat (co_seq r) < (unat b + 1) * 2 ^ 32" using new assms(3) by fastforce
qed


section \<open>One turn of the loop\<close>

text \<open>The body of the runner's loop: the batch, the flushes of the row it committed, retention.\<close>

definition turn :: "variant \<Rightarrow> fold_cfg \<Rightarrow> nat \<Rightarrow> database \<Rightarrow> database option" where
  "turn v k n d = (case batch v k n d of None \<Rightarrow> None | Some d1 \<Rightarrow>
     (case latest_by bc_batch_id (t_batch_commit d1) of None \<Rightarrow> None | Some p \<Rightarrow>
        Some (retention (bc_batch_id p) BATCH_COMMIT_RETENTION_N (run_all (flush (bc_batch_id p)) d1))))"

lemma turn_tables:
  assumes p: "latest_by bc_batch_id (t_batch_commit d) = Some p" "unat (bc_batch_id p) + 1 < 2 ^ 32"
    and row: "row = commit_row (bc_batch_id p + 1) (array_fold v k (decode_with d) n (init_acc (bc_pc p) (bc_regs p) (bc_icount p) (ucast (bc_keyq_pos p))))"
  obtains d' where "turn v k n d = Some d'" "latest_by bc_batch_id (t_batch_commit d') = Some row" "batch_rows d' (bc_batch_id row) = [row]"
    "t_ram d' = t_ram d @ log_rows 0x20000000 (bc_wl_addr row) (bc_wl_val row) (bc_wl_icount row)"
    "t_framebuffer d' = t_framebuffer d @ log_rows 0 (bc_fb_wl_addr row) (bc_fb_wl_val row) (bc_fb_wl_icount row)"
    "t_palette d' = t_palette d @ log_rows 0 (bc_pal_wl_addr row) (bc_pal_wl_val row) (bc_pal_wl_icount row)"
    "t_console_out d' = t_console_out d @ console_rows (bc_batch_id row) (bc_console_bytes row)"
    "t_cpu_state d' = t_cpu_state d @ [cpu_state_of row]"
    "t_input_queue d' = t_input_queue d" "t_decoded d' = t_decoded d" "t_frames_out d' = t_frames_out d"
proof -
  let ?b = "bc_batch_id p + 1" and ?d1 = "d\<lparr>t_batch_commit := t_batch_commit d @ [row]\<rparr>"
  have b: "unat ?b = unat (bc_batch_id p) + 1" "bc_batch_id row = ?b" using p(2) by (simp_all add: unat_word_ariths row commit_row_def)
  have lt: "bc_batch_id r < ?b" if "r \<in> set (t_batch_commit d)" for r
    using latest_by_max [OF p(1)] that b by (fastforce simp: word_less_nat_alt word_le_nat_alt)
  have one: "batch v k n d = Some ?d1" by (simp add: batch_def p(1) row Let_def)
  have two: "latest_by bc_batch_id (t_batch_commit d @ [row]) = Some row" using lt b(2) by (intro latest_by_snoc) (auto intro: less_imp_le)
  have nr: "filter (\<lambda>r. bc_batch_id r = ?b) (t_batch_commit d) = []" by (auto simp: filter_empty_conv dest!: lt)
  have base: "drop_bit 2 RAM_BASE = (0x20000000 :: u32)" by (simp add: map_constants)
  let ?keep = "\<lambda>r. \<not> bc_batch_id r < retention_threshold ?b BATCH_COMMIT_RETENTION_N"
  have "unat ?b < 2 ^ 63" using b(1) p(2) by simp
  then have keep: "?keep row" unfolding b(2) word_less_nat_alt by (simp add: threshold_nat)
  define d' where "d' = retention ?b BATCH_COMMIT_RETENTION_N (run_all (flush ?b) ?d1)"
  have t: "turn v k n d = Some d'" by (simp add: turn_def one two b(2) d'_def)
  have bc: "t_batch_commit d' = filter ?keep (t_batch_commit d) @ [row]"
    using keep by (simp add: d'_def retention_def run_all_def flush_def statements)
  show ?thesis
  proof (rule that [OF t])
    show "latest_by bc_batch_id (t_batch_commit d') = Some row"
      unfolding bc using lt b(2) by (intro latest_by_snoc) (auto intro: less_imp_le)
    show "batch_rows d' (bc_batch_id row) = [row]"
      unfolding batch_rows_def bc b(2) by (auto simp: b(2) filter_empty_conv dest!: lt)
  qed (simp_all add: d'_def retention_def run_all_def flush_def statements base b(2) nr)
qed


section \<open>Tables that stand for a machine\<close>

definition stands_for :: "fold_cfg \<Rightarrow> database \<Rightarrow> cpu \<Rightarrow> bool" where
  "stands_for k d c \<longleftrightarrow> (\<exists>p r. latest_by bc_batch_id (t_batch_commit d) = Some p \<and> devices (cpu_memory c) = Registers r \<and>
     bc_pc p = cpu_pc c \<and> bc_regs p = tl (cpu_regs c) \<and> bc_icount p = cpu_icount c \<and> unat (bc_keyq_pos p) < 2 ^ 32 \<and>
     tables_ok k (decode_with d) \<and> captures k (decode_with d) (ucast (bc_keyq_pos p)) c \<and> dense_ram k (t_ram d) \<and>
     (\<forall>j < 16000. word_at (framebuffer (cpu_memory c)) j = word_value (t_framebuffer d) (of_nat j)) \<and>
     (\<forall>j < 192. word_at (palette (cpu_memory c)) j = word_value (t_palette d) (of_nat j)) \<and>
     (\<forall>x \<in> set (t_ram d) \<union> set (t_framebuffer d) \<union> set (t_palette d). wr_version x \<le> cpu_icount c) \<and>
     latest_by cs_batch_id (t_cpu_state d) = Some (cpu_state_of p) \<and>
     map co_byte (final_rows co_seq unversioned (t_console_out d)) = console r \<and>
     (\<forall>x \<in> set (t_console_out d). unat (co_seq x) < (unat (bc_batch_id p) + 1) * 2 ^ 32))"

lemma array_fold_console: "length (acc_console (foldl (fold_step v k t) a is)) \<le> length (acc_console a) + length is"
proof (induction "is" arbitrary: a)
  case (Cons i "is")
  have "length (acc_console (fold_step v k t a i)) \<le> length (acc_console a) + 1" by (simp add: fold_step_def Let_def push_if_def)
  then show ?case using Cons.IH [of "fold_step v k t a i"] by simp
qed simp

lemma flushed_region:
  assumes "log_ok i0 ic as vs is" "\<forall>r \<in> set rows. wr_version r \<le> i0" "i0 \<le> ic"
    and "\<forall>j < n. word_at bs0 j = word_value rows (of_nat j)"
    and "\<forall>j < n. word_at bs j = log_read as vs (word_at bs0 j) (of_nat j)"
  shows "\<forall>j < n. word_at bs j = word_value (rows @ log_rows 0 as vs is) (of_nat j)"
  using word_value_flush [OF assms(1,2), of 0] assms(4,5) by simp

lemma flushed_versions:
  assumes "log_ok i0 ic as vs is" "\<forall>r \<in> set rows. wr_version r \<le> i0" "i0 \<le> ic"
  shows "\<forall>r \<in> set (rows @ log_rows base as vs is). wr_version r \<le> ic"
proof -
  have l: "length as = length vs" "length vs = length is" "\<And>i. i \<in> set is \<Longrightarrow> i \<le> ic" using assms(1) by (auto simp: log_ok_def)
  show ?thesis using log_rows_set(1) [OF l(1,2), of _ base] assms(2,3) l(3) by fastforce
qed

lemma flushed_ram:
  assumes "tables_ok k (decode_with d)" "dense_ram k (t_ram d)" "log_ok i0 ic as vs is" "\<forall>r \<in> set (t_ram d). wr_version r \<le> i0"
    and "\<forall>w \<in> set as. widx_get (text_end_widx k) \<le> w \<and> w < fc_ram_words k"
    and d': "t_ram d' = t_ram d @ log_rows 0x20000000 as vs is" "t_decoded d' = t_decoded d" "t_input_queue d' = t_input_queue d"
  shows "dense_ram k (t_ram d')" "tables_ok k (decode_with d')"
    and "j < unat (fc_ram_words k) \<Longrightarrow> RAMT (decode_with d') ! j = log_read as vs (RAMT (decode_with d) ! j) (of_nat j)"
proof -
  have rc: "ram_cfg k" using assms(1) by (simp add: tables_ok_def)
  have l: "length as = length vs" "length vs = length is" using assms(3) by (auto simp: log_ok_def)
  have "wr_addr r \<in> (\<lambda>j. 0x20000000 + of_nat j) ` {..<unat (fc_ram_words k)}" if "r \<in> set (log_rows 0x20000000 as vs is)" for r
  proof -
    have "wr_addr r - 0x20000000 < fc_ram_words k" using log_rows_set(2) [OF l that] assms(5) by blast
    moreover have "wr_addr r = 0x20000000 + of_nat (unat (wr_addr r - 0x20000000))" by simp
    ultimately show ?thesis by (intro image_eqI [where x = "unat (wr_addr r - 0x20000000)"]) (auto simp: word_less_nat_alt)
  qed
  then show dr: "dense_ram k (t_ram d')" using assms(2) by (auto simp: dense_ram_def d'(1))
  note r = ramt_words [OF rc assms(2)] ramt_words [OF rc dr]
  have w: "RAMT (decode_with d') ! j = log_read as vs (RAMT (decode_with d) ! j) (of_nat j)" if "j < unat (fc_ram_words k)" for j
    using that word_value_flush [OF assms(3,4), of "0x20000000" "of_nat j"] by (simp add: r d'(1))
  then show "j < unat (fc_ram_words k) \<Longrightarrow> RAMT (decode_with d') ! j = log_read as vs (RAMT (decode_with d) ! j) (of_nat j)" .
  have same: "DEC (decode_with d') = DEC (decode_with d)" "KEYQT (decode_with d') = KEYQT (decode_with d)"
    by (simp_all add: decode_with_def d'(2,3))
  have "RAMT (decode_with d') ! j = RAMT (decode_with d) ! j" if "j < unat (widx_get (text_end_widx k))" for j
  proof -
    have e: "unat (widx_get (text_end_widx k)) \<le> unat (fc_ram_words k)" using assms(1) by (simp add: tables_ok_def)
    then have "unat (of_nat j :: u32) = j" using that rc by (simp add: ram_cfg_def unat_of_nat)
    then have "of_nat j \<notin> set as" using assms(5) that by (auto simp: word_le_nat_alt)
    then show ?thesis using w [of j] that e log_read_absent by fastforce
  qed
  moreover have "length (RAMT (decode_with d')) = unat (fc_ram_words k)" by (simp add: r)
  ultimately show "tables_ok k (decode_with d')" using assms(1) unfolding tables_ok_def same by simp
qed


lemma foldl_wl_addr:
  assumes "0 < unat (fc_ram_words k)" "\<forall>w \<in> set (acc_wl_addr a). w < fc_ram_words k"
  shows "\<forall>w \<in> set (acc_wl_addr (foldl (fold_step v k t) a is)). w < fc_ram_words k"
  using assms(2)
proof (induction "is" arbitrary: a)
  case (Cons i "is")
  have "fc_ram_words k - 1 < fc_ram_words k" using assms(1) by (simp add: word_less_nat_alt unat_minus_one unat_gt_0)
  then have "sq_wa k x < fc_ram_words k" for x unfolding sq_wa_def by (meson le_less_trans min.cobounded2)
  then have "\<forall>w \<in> set (acc_wl_addr (fold_step v k t a i)). w < fc_ram_words k"
    using Cons.prems by (auto simp: fold_step_def Let_def push_if_def)
  then show ?case using Cons.IH by simp
qed simp

text \<open>What the committed row says of how the batch ended.\<close>

definition row_outcome :: "nat \<Rightarrow> nat \<Rightarrow> cpu \<Rightarrow> batch_commit_row \<Rightarrow> bool" where
  "row_outcome n m c p \<longleftrightarrow>
     (if bc_halted p = 0 then m = n \<or> 0 < m
      else m < n \<and> bc_halted p = 1 \<and> (\<exists>h. step c = (Err h, c) \<and> bc_halt_reason p = halt_as_str (h_reason h) \<and>
        bc_exit_code p = (if h_reason h = halt_reason.Exit then or_zero (h_exit_code h) else 0)))"

lemma halt_name: "halt_reason_transform (halt_code_of r) = halt_as_str r"
  by (cases r) (simp_all add: halt_reason_transform_def HALT_REASON_NAMES_def halt_codes)

lemma row_outcome_of:
  assumes "batch_outcome k n m c b"
  shows "row_outcome n m c (commit_row i b)"
proof (cases "acc_halted b = 0")
  case True
  then show ?thesis using assms by (auto simp: row_outcome_def batch_outcome_def commit_row_def split: if_splits)
next
  case False
  then obtain h where h: "m < n" "step c = (Err h, c)" "acc_halted b = 1" "acc_halt_reason b = halt_code_of (h_reason h)" "acc_halt_extra b = halt_extra_of h"
    using assms by (auto simp: batch_outcome_def)
  have "halt_code_of (h_reason h) = HALT_EXIT \<longleftrightarrow> h_reason h = halt_reason.Exit" by (cases "h_reason h") (simp_all add: halt_codes)
  then show ?thesis using h by (auto simp: row_outcome_def commit_row_def halt_name halt_extra_of_def)
qed

lemma keyq_width: "ucast (ucast q :: u64) = (q :: u32)" "unat (ucast q :: u64) < 2 ^ 32" for q :: u32
proof -
  have u: "unat (ucast q :: u64) = unat q" using unsigned_less [of q, where ?'a = nat] by (simp add: unsigned_ucast_eq take_bit_nat_eq_self)
  show "ucast (ucast q :: u64) = q" by (rule bit_word_eqI) (simp add: bit_simps)
  show "unat (ucast q :: u64) < 2 ^ 32" using u unsigned_less [of q, where ?'a = nat] by simp
qed

lemma turn_sim:
  assumes d: "stands_for k d c" "latest_by bc_batch_id (t_batch_commit d) = Some p"
    and "display_free n c" "unat (cpu_icount c) + n < 2 ^ 64" "n < 2 ^ 32" "unat (bc_batch_id p) + 1 < 2 ^ 32"
  shows "\<exists>d' p' m c'. turn v k n d = Some d' \<and> m \<le> n \<and> run_steps m c = (Ok None, c') \<and> stands_for k d' c' \<and>
    latest_by bc_batch_id (t_batch_commit d') = Some p' \<and> bc_batch_id p' = bc_batch_id p + 1 \<and> row_outcome n m c' p' \<and>
    batch_rows d' (bc_batch_id p') = [p'] \<and>
    (\<exists>a. p' = commit_row (bc_batch_id p + 1) a \<and> records (start_acc (ucast (bc_keyq_pos p)) c) (due 0 (m + unat (acc_halted a)) c) a)"
proof -
  let ?q = "ucast (bc_keyq_pos p) :: u32" and ?t = "decode_with d"
  obtain r where r: "devices (cpu_memory c) = Registers r" "bc_pc p = cpu_pc c" "bc_regs p = tl (cpu_regs c)" "bc_icount p = cpu_icount c"
    "tables_ok k ?t" "captures k ?t ?q c" "dense_ram k (t_ram d)"
    "\<forall>j < 16000. word_at (framebuffer (cpu_memory c)) j = word_value (t_framebuffer d) (of_nat j)"
    "\<forall>j < 192. word_at (palette (cpu_memory c)) j = word_value (t_palette d) (of_nat j)"
    "\<forall>x \<in> set (t_ram d). wr_version x \<le> cpu_icount c" "\<forall>x \<in> set (t_framebuffer d). wr_version x \<le> cpu_icount c"
    "\<forall>x \<in> set (t_palette d). wr_version x \<le> cpu_icount c"
    "map co_byte (final_rows co_seq unversioned (t_console_out d)) = console r"
    "\<forall>x \<in> set (t_console_out d). unat (co_seq x) < (unat (bc_batch_id p) + 1) * 2 ^ 32"
    "latest_by cs_batch_id (t_cpu_state d) = Some (cpu_state_of p)"
    using d(1) unfolding stands_for_def d(2) by auto
  let ?a0 = "start_acc ?q c"
  define b where "b = array_fold v k ?t n ?a0"
  define row where "row = commit_row (bc_batch_id p + 1) b"
  have st: "acc_stopped ?a0 = 0" "acc_frame_committed ?a0 = 0" "acc_halted ?a0 = 0" by (simp_all add: start_acc_def init_acc_def)
  from fold_sim [OF r(5) start_sim [OF r(5,6)] st assms(3), of v 0] obtain m c' where
    m: "m \<le> n" "run_steps m c = (Ok None, c')" "sim k ?t (cpu_memory c) b c'" "batch_outcome k n m c' b" "records ?a0 (due 0 (m + unat (acc_halted b)) c) b"
    by (auto simp: b_def array_fold_def)
  have lg: "logs_ok (cpu_icount c) b" unfolding b_def array_fold_def start_acc_def
    by (rule foldl_logs [OF start_logs]) (use assms(4) in \<open>simp add: init_acc_def\<close>)
  then have ic: "cpu_icount c \<le> cpu_icount c'" and ic': "acc_icount b = cpu_icount c'" using m(3) by (simp_all add: logs_ok_def sim_def)
  have ms: "memory_sim k ?t (cpu_memory c) b (cpu_memory c')" "cpu_inv c'" "aligned4 (cpu_pc c')" "acc_pc b = cpu_pc c'" "acc_regs b = tl (cpu_regs c')"
    using m(3) by (simp_all add: sim_def)
  have words: "0 < unat (fc_ram_words k)" using r(5) by (simp add: tables_ok_def ram_cfg_def)
  have wa: "\<forall>w \<in> set (acc_wl_addr b). w < fc_ram_words k" unfolding b_def array_fold_def
    by (rule foldl_wl_addr [OF words]) (simp add: start_acc_def init_acc_def)
  have row': "row = commit_row (bc_batch_id p + 1) (array_fold v k ?t n (init_acc (bc_pc p) (bc_regs p) (bc_icount p) ?q))"
    by (simp add: row_def b_def start_acc_def r(2-4))
  obtain d' where d': "turn v k n d = Some d'" "latest_by bc_batch_id (t_batch_commit d') = Some row"
    "t_ram d' = t_ram d @ log_rows 0x20000000 (bc_wl_addr row) (bc_wl_val row) (bc_wl_icount row)"
    "t_framebuffer d' = t_framebuffer d @ log_rows 0 (bc_fb_wl_addr row) (bc_fb_wl_val row) (bc_fb_wl_icount row)"
    "t_palette d' = t_palette d @ log_rows 0 (bc_pal_wl_addr row) (bc_pal_wl_val row) (bc_pal_wl_icount row)"
    "t_console_out d' = t_console_out d @ console_rows (bc_batch_id row) (bc_console_bytes row)"
    "t_input_queue d' = t_input_queue d" "t_decoded d' = t_decoded d" "t_cpu_state d' = t_cpu_state d @ [cpu_state_of row]"
    "batch_rows d' (bc_batch_id row) = [row]"
    by (rule turn_tables [OF d(2) assms(6) row'])
  have rw: "bc_batch_id row = bc_batch_id p + 1" "bc_pc row = cpu_pc c'" "bc_regs row = tl (cpu_regs c')" "bc_icount row = cpu_icount c'"
    "bc_keyq_pos row = ucast (acc_keyq_pos b)" "bc_wl_addr row = acc_wl_addr b" "bc_wl_val row = acc_wl_val b" "bc_wl_icount row = acc_wl_icount b"
    "bc_fb_wl_addr row = acc_fb_addr b" "bc_fb_wl_val row = acc_fb_val b" "bc_fb_wl_icount row = acc_fb_icount b"
    "bc_pal_wl_addr row = acc_pal_addr b" "bc_pal_wl_val row = acc_pal_val b" "bc_pal_wl_icount row = acc_pal_icount b"
    "bc_console_bytes row = acc_console b" using ms(4,5) ic' by (simp_all add: row_def commit_row_def)
  have lo: "log_ok (cpu_icount c) (cpu_icount c') (bc_wl_addr row) (bc_wl_val row) (bc_wl_icount row)"
    "log_ok (cpu_icount c) (cpu_icount c') (bc_fb_wl_addr row) (bc_fb_wl_val row) (bc_fb_wl_icount row)"
    "log_ok (cpu_icount c) (cpu_icount c') (bc_pal_wl_addr row) (bc_pal_wl_val row) (bc_pal_wl_icount row)"
    using lg by (simp_all add: logs_ok_def rw ic')
  have tx: "\<forall>w \<in> set (bc_wl_addr row). widx_get (text_end_widx k) \<le> w \<and> w < fc_ram_words k"
    using ms(1) wa by (auto simp: memory_sim_def rw)
  note fr = flushed_ram [OF r(5,7) lo(1) r(10) tx d'(3,8,7)]
  have ll: "length (acc_wl_addr b) = length (acc_wl_val b)" using lo(1) by (simp add: log_ok_def rw)
  have rw_ram: "word_at (ram (cpu_memory c')) j = RAMT (decode_with d') ! j" if j: "j < unat (fc_ram_words k)" for j
  proof -
    have "unat (of_nat j :: u32) = j" using j r(5) by (simp add: tables_ok_def ram_cfg_def unat_of_nat)
    moreover have "length (RAMT ?t) = unat (fc_ram_words k)" using r(5) by (simp add: tables_ok_def)
    ultimately have "sq_lw ?t b (of_nat j) = log_read (acc_wl_addr b) (acc_wl_val b) (RAMT ?t ! j) (of_nat j)"
      using sq_lw_log [OF ll, of ?t "of_nat j"] j by (simp add: array_element_def)
    then show ?thesis using ms(1) j fr(3) [OF j] by (simp add: memory_sim_def rw)
  qed
  have kq: "KEYQT (decode_with d') = KEYQT ?t" by (simp add: decode_with_def d'(7))
  obtain r' where r': "devices (cpu_memory c') = Registers r'" "registers_sim k ?t r b r'" using ms(1) r(1) by (auto simp: memory_sim_def)
  have q': "ucast (bc_keyq_pos row) = acc_keyq_pos b" "unat (bc_keyq_pos row) < 2 ^ 32"
    using keyq_width by (simp_all add: rw(5))
  have cap: "captures k (decode_with d') (ucast (bc_keyq_pos row)) c'"
    using ms(1,2,3) rw_ram r' unfolding captures_def q'(1) kq by (auto simp: memory_sim_def registers_sim_def)
  have b1: "unat (bc_batch_id p + 1) = unat (bc_batch_id p) + 1" using assms(6) by (simp add: unat_word_ariths)
  have "length (acc_console b) \<le> n" using array_fold_console [of v k ?t ?a0 "[0..<n]"] by (simp add: b_def array_fold_def start_acc_def init_acc_def)
  then have len: "length (acc_console b) < 2 ^ 32" using assms(5) by simp
  have b32: "unat (bc_batch_id p + 1) < 2 ^ 32" using b1 assms(6) by simp
  note con = console_flush [OF b32 len r(14) [folded b1]]
  have fb: "\<forall>j < 16000. word_at (framebuffer (cpu_memory c')) j = log_read (bc_fb_wl_addr row) (bc_fb_wl_val row) (word_at (framebuffer (cpu_memory c)) j) (of_nat j)"
    "\<forall>j < 192. word_at (palette (cpu_memory c')) j = log_read (bc_pal_wl_addr row) (bc_pal_wl_val row) (word_at (palette (cpu_memory c)) j) (of_nat j)"
    using ms(1) by (simp_all add: memory_sim_def rw)
  note fl = flushed_region [OF lo(2) r(11) ic r(8) fb(1)] flushed_region [OF lo(3) r(12) ic r(9) fb(2)]
  have vers: "\<forall>x \<in> set (t_ram d') \<union> set (t_framebuffer d') \<union> set (t_palette d'). wr_version x \<le> cpu_icount c'"
    using flushed_versions [OF lo(1) r(10) ic, where base = "0x20000000"] flushed_versions [OF lo(2) r(11) ic, where base = 0] flushed_versions [OF lo(3) r(12) ic, where base = 0]
    unfolding d'(3,4,5) set_append by blast
  have cons: "map co_byte (final_rows co_seq unversioned (t_console_out d')) = console r'"
    using con(1) r(13) r'(2) by (simp add: d'(6) rw(1,15) registers_sim_def)
  have seqs: "\<forall>x \<in> set (t_console_out d'). unat (co_seq x) < (unat (bc_batch_id row) + 1) * 2 ^ 32"
    using con(2) by (simp add: d'(6) rw(1,15))
  have cst: "latest_by cs_batch_id (t_cpu_state d') = Some (cpu_state_of row)" unfolding d'(9)
  proof (rule latest_by_snoc)
    fix x assume "x \<in> set (t_cpu_state d)"
    then have "cs_batch_id x \<le> bc_batch_id p" using latest_by_max [OF r(15)] by (simp add: cpu_state_of_def)
    then show "cs_batch_id x \<le> cs_batch_id (cpu_state_of row)" using b1 by (simp add: cpu_state_of_def rw(1) word_le_nat_alt)
  qed
  have "stands_for k d' c'"
    unfolding stands_for_def
    by (rule exI [of _ row], rule exI [of _ r'], intro conjI) (fact d'(2) r'(1) rw(2-4) q'(2) fr(1,2) cap fl [folded d'(4,5)] vers cst cons seqs)+
  then show ?thesis using d'(1,2,10) m(1,2,5) rw(1) row_outcome_of [OF m(4), of "bc_batch_id p + 1"] unfolding row_def by blast
qed


section \<open>Runs of the loop\<close>

text \<open>The loop over the lengths its batches ask for, left at the first committed halt.\<close>

fun turns :: "variant \<Rightarrow> fold_cfg \<Rightarrow> nat list \<Rightarrow> database \<Rightarrow> database option" where
  "turns v k [] d = Some d"
| "turns v k (n # ns) d = (case turn v k n d of None \<Rightarrow> None | Some d' \<Rightarrow>
     (case latest_by bc_batch_id (t_batch_commit d') of None \<Rightarrow> None
      | Some p \<Rightarrow> if bc_halted p = 1 then Some d' else turns v k ns d'))"

lemma run_steps_add: "run_steps m c = (Ok None, c') \<Longrightarrow> run_steps (m + n) c = run_steps n c'"
proof (induction m arbitrary: c)
  case (Suc m)
  then show ?case by (cases "step c" rule: prod.exhaust) (auto split: rresult.splits prod.splits)
qed simp

lemma display_free_add: "run_steps m c = (Ok None, c') \<Longrightarrow> display_free (m + n) c \<Longrightarrow> display_free n c'"
proof (induction m arbitrary: c)
  case (Suc m)
  then show ?case by (cases "step c" rule: prod.exhaust) (auto split: rresult.splits prod.splits)
qed simp

lemma display_free_mono: "display_free n c \<Longrightarrow> m \<le> n \<Longrightarrow> display_free m c"
proof (induction m arbitrary: n c)
  case (Suc m)
  then obtain n' where "n = Suc n'" "m \<le> n'" by (cases n) auto
  then show ?case using Suc.IH Suc.prems(1) by (auto split: rresult.splits prod.splits)
qed simp

lemma run_steps_icount:
  assumes "cpu_inv c" "run_steps m c = (Ok None, c')"
  shows "cpu_icount c' = cpu_icount c + of_nat m"
proof -
  from assms(2) obtain xs where "length xs = m" "retires c xs c'" by (cases rule: run_steps_cases) auto
  then show ?thesis using retires_count [of c xs c'] assms(1) by simp
qed

lemma turns_sim:
  assumes "stands_for k d c" "latest_by bc_batch_id (t_batch_commit d) = Some p" "display_free (sum_list ns) c"
    "unat (cpu_icount c) + sum_list ns < 2 ^ 64" "\<forall>n \<in> set ns. n < 2 ^ 32" "unat (bc_batch_id p) + length ns < 2 ^ 32"
  shows "\<exists>d' m c'. turns v k ns d = Some d' \<and> m \<le> sum_list ns \<and> run_steps m c = (Ok None, c') \<and> stands_for k d' c'"
  using assms
proof (induction ns arbitrary: d c p)
  case Nil
  then show ?case by (intro exI [of _ d] exI [of _ 0] exI [of _ c]) simp
next
  case (Cons n ns)
  have inv: "cpu_inv c" using Cons.prems(1) by (auto simp: stands_for_def captures_def)
  have df: "display_free n c" by (rule display_free_mono [OF Cons.prems(3)]) simp
  from turn_sim [OF Cons.prems(1,2) df, of v] Cons.prems(4,5,6) obtain d1 p1 m c1 where
    one: "turn v k n d = Some d1" "m \<le> n" "run_steps m c = (Ok None, c1)" "stands_for k d1 c1"
      "latest_by bc_batch_id (t_batch_commit d1) = Some p1" "bc_batch_id p1 = bc_batch_id p + 1" by auto
  show ?case
  proof (cases "bc_halted p1 = 1")
    case True
    then show ?thesis using one by (intro exI [of _ d1] exI [of _ m] exI [of _ c1]) simp
  next
    case False
    have b: "unat (bc_batch_id p1) = unat (bc_batch_id p) + 1" using Cons.prems(6) by (simp add: one(6) unat_word_ariths)
    have ic: "unat (cpu_icount c1) = unat (cpu_icount c) + m"
      using run_steps_icount [OF inv one(3)] one(2) Cons.prems(4) by (simp add: unat_word_ariths unat_of_nat)
    have "display_free (sum_list ns) c1"
      by (rule display_free_add [OF one(3)]) (rule display_free_mono [OF Cons.prems(3)], use one(2) in simp)
    from Cons.IH [OF one(4,5) this] ic one(2) Cons.prems(4,5,6) b obtain d' m' c' where
      "turns v k ns d1 = Some d'" "m' \<le> sum_list ns" "run_steps m' c1 = (Ok None, c')" "stands_for k d' c'" by auto
    then show ?thesis using one False run_steps_add [OF one(3)] by (intro exI [of _ d'] exI [of _ "m + m'"] exI [of _ c']) simp
  qed
qed

end
