(* ===== verification/Sql_Checkpoint.thy ===== *)
theory Sql_Checkpoint
  imports Sql_Loop Trace
begin

text \<open>
  The checkpoint lines the database writes of itself, \<open>driver/src/checkpoint.rs\<close>, against the lines the reference
  emulator's trace has.  The server's \<open>xxHash64\<close> is a function of the bytes; that it is the digest the trace is
  hashed with, in one piece and in two, is a hypothesis where the two are compared.
\<close>

section \<open>The expressions\<close>

text \<open>\<open>hex\<close> prints whole bytes, the first of them not zero unless it is the only one; \<open>lpad\<close> fills and cuts.\<close>

fun hex_bytes :: "nat \<Rightarrow> nat" where
  "hex_bytes n = (if n < 256 then 1 else Suc (hex_bytes (n div 256)))"

declare hex_bytes.simps [simp del]

definition lower_hex :: "nat \<Rightarrow> u8 list" where
  "lower_hex n = to_hex (2 * hex_bytes n) n"

definition lpad :: "'a list \<Rightarrow> nat \<Rightarrow> 'a \<Rightarrow> 'a list" where
  "lpad xs n p = replicate (n - length xs) p @ take n xs"

definition hex64 :: "u64 \<Rightarrow> u8 list" where
  "hex64 x = lpad (lower_hex (unat x)) 16 48"

definition hex32 :: "u32 \<Rightarrow> u8 list" where
  "hex32 x = lpad (lower_hex (unat x)) 8 48"

definition sql_reg_hash :: "(u8 list \<Rightarrow> u64) \<Rightarrow> u32 \<Rightarrow> u32 list \<Rightarrow> u64" where
  "sql_reg_hash xxHash64 pc regs = xxHash64 (concat (to_le_bytes 4 pc # map (\<lambda>i. to_le_bytes 4 (array_element 0 regs i)) [1..<32]))"

definition word_array_hash :: "(u8 list \<Rightarrow> u64) \<Rightarrow> u32 list \<Rightarrow> u64" where
  "word_array_hash xxHash64 ws = xxHash64 (region_bytes_sql ws)"

definition sql_fb_hash :: "(u8 list \<Rightarrow> u64) \<Rightarrow> u8 list \<Rightarrow> u8 list \<Rightarrow> u64" where
  "sql_fb_hash xxHash64 fb pal = xxHash64 (fb @ pal)"

definition format_checkpoint :: "u64 \<Rightarrow> u32 \<Rightarrow> u64 \<Rightarrow> (u64 \<times> u64) option \<Rightarrow> u8 list" where
  "format_checkpoint icount pc reghash ram_and_fb = to_decimal (unat icount) @ [TAB] @ hex32 pc @ [TAB] @ hex64 reghash @
     (case ram_and_fb of None \<Rightarrow> [] | Some (ramhash, fbhash) \<Rightarrow> [TAB] @ hex64 ramhash @ [TAB] @ hex64 fbhash)"

section \<open>The queries\<close>

definition reg_checkpoint_sql :: "(u8 list \<Rightarrow> u64) \<Rightarrow> database \<Rightarrow> u8 list option" where
  "reg_checkpoint_sql xxHash64 d = map_option (\<lambda>s.
     format_checkpoint (cs_icount s) (cs_pc s) (sql_reg_hash xxHash64 (cs_pc s) (cs_regs s)) None) (latest_by cs_batch_id (t_cpu_state d))"

definition checkpoint_sql :: "(u8 list \<Rightarrow> u64) \<Rightarrow> database \<Rightarrow> u8 list option" where
  "checkpoint_sql xxHash64 d = map_option (\<lambda>s.
     format_checkpoint (cs_icount s) (cs_pc s) (sql_reg_hash xxHash64 (cs_pc s) (cs_regs s))
       (Some (word_array_hash xxHash64 (map wr_value (final_rows wr_addr wr_version (t_ram d))),
              sql_fb_hash xxHash64 (region_bytes_sql (dense_words (t_framebuffer d) FRAMEBUFFER_WORDS))
                (region_bytes_sql (dense_words (t_palette d) PALETTE_WORDS))))) (latest_by cs_batch_id (t_cpu_state d))"

text \<open>\<open>arraySlice(xs, from, n)\<close> counts from one.\<close>

definition array_slice :: "'a list \<Rightarrow> nat \<Rightarrow> nat \<Rightarrow> 'a list" where
  "array_slice xs from n = take n (drop (from - 1) xs)"

definition CHECKPOINT_REGS :: nat where "CHECKPOINT_REGS = 31"

definition row_checkpoints :: "batch_commit_row \<Rightarrow> (u64 \<times> u32 \<times> u32 list) list" where
  "row_checkpoints r = map (\<lambda>n. (array_element 0 (bc_cp_icount r) n, array_element 0 (bc_cp_pc r) n,
     array_slice (bc_cp_regs r) ((n - 1) * CHECKPOINT_REGS + 1) CHECKPOINT_REGS)) [1..<length (bc_cp_icount r) + 1]"

definition batch_checkpoints_sql :: "(u8 list \<Rightarrow> u64) \<Rightarrow> u64 \<Rightarrow> database \<Rightarrow> u8 list list" where
  "batch_checkpoints_sql xxHash64 b d = map (\<lambda>(ic, pc, regs). format_checkpoint ic pc (sql_reg_hash xxHash64 pc regs) None)
     (sort_key fst (concat (map row_checkpoints (batch_rows d b))))"

section \<open>The same text\<close>

lemma to_hex_lead: "n < 16 ^ k \<Longrightarrow> to_hex (j + k) n = replicate j 48 @ to_hex k n"
proof (induction k arbitrary: n)
  case 0
  then have "n = 0" by simp
  moreover have "to_hex j 0 = replicate j 48" by (induction j) (simp_all add: hex_byte_def replicate_append_same)
  ultimately show ?case by simp
next
  case (Suc k)
  have "n div 16 < 16 ^ k" using Suc.prems by (simp add: div_less_iff_less_mult mult.commute)
  from Suc.IH [OF this] show ?case by simp
qed

lemma hex_bytes_bound: "n < 256 ^ k \<Longrightarrow> 0 < k \<Longrightarrow> hex_bytes n \<le> k"
proof (induction n arbitrary: k rule: hex_bytes.induct)
  case (1 n)
  show ?case
  proof (cases "n < 256")
    case False
    then have "k \<noteq> 1" using "1.prems"(1) by auto
    then obtain j where j: "k = Suc j" "0 < j" using "1.prems"(2) by (metis One_nat_def gr0_conv_Suc not_gr_zero)
    have "n div 256 < 256 ^ j" using "1.prems"(1) by (simp add: j(1) div_less_iff_less_mult mult.commute)
    then show ?thesis using "1.IH" [OF False _ j(2)] False j(1) by (simp add: hex_bytes.simps [of n])
  qed (use "1.prems" in \<open>simp add: hex_bytes.simps [of n]\<close>)
qed

lemma hex_bytes_fit: "n < 256 ^ hex_bytes n"
proof (induction n rule: hex_bytes.induct)
  case (1 n)
  show ?case
  proof (cases "n < 256")
    case False
    then have "n div 256 < 256 ^ hex_bytes (n div 256)" using 1 by simp
    then show ?thesis using False by (simp add: hex_bytes.simps [of n] div_less_iff_less_mult mult.commute)
  qed (simp add: hex_bytes.simps [of n])
qed

lemma padded_hex:
  assumes "n < 256 ^ k" "0 < k"
  shows "lpad (lower_hex n) (2 * k) 48 = to_hex (2 * k) n"
proof -
  have le: "hex_bytes n \<le> k" by (rule hex_bytes_bound [OF assms])
  have "n < 16 ^ (2 * hex_bytes n)" using hex_bytes_fit [of n] by (simp add: power_mult)
  from to_hex_lead [OF this, of "2 * k - 2 * hex_bytes n"] le show ?thesis by (simp add: lpad_def lower_hex_def)
qed

lemma hex_text: "hex64 x = to_hex 16 (unat x)" "hex32 y = to_hex 8 (unat y)"
  using padded_hex [of "unat x" 8] padded_hex [of "unat y" 4] unsigned_less [of x, where ?'a = nat] unsigned_less [of y, where ?'a = nat]
  by (simp_all add: hex64_def hex32_def)


text \<open>The digest of the trace, in one piece and streamed, and the server's function of the bytes.\<close>

definition digest_law :: "'h digest \<Rightarrow> bool" where
  "digest_law dg \<longleftrightarrow> (\<forall>s a b. d_finish dg (d_update dg (d_update dg (d_new dg s) a) b) = d_xxh64 dg (a @ b) s)"

definition server_hash :: "'h digest \<Rightarrow> u8 list \<Rightarrow> u64" where
  "server_hash dg bs = d_xxh64 dg bs XXH64_SEED"

lemma reg_hash_text:
  assumes "length regs = 31"
  shows "sql_reg_hash (server_hash dg) pc regs = reg_hash (d_xxh64 dg) pc (0 # regs)"
proof -
  have "map (\<lambda>i. array_element 0 regs i) [1..<32] = regs"
    by (rule nth_equalityI) (use assms in \<open>auto simp: array_element_def\<close>)
  from arg_cong [OF this, of "map (to_le_bytes 4)"]
  have "map (\<lambda>i. to_le_bytes 4 (array_element 0 regs i)) [1..<32] = map (to_le_bytes 4) regs" by (simp only: map_map o_def)
  moreover have "reg_hash (d_xxh64 dg) pc (0 # regs) = d_xxh64 dg (to_le_bytes 4 pc @ concat (map (to_le_bytes 4) regs)) XXH64_SEED"
    using hashes_cover [of "0 # regs" "\<lambda>h. d_xxh64 dg (snd h) (fst h)" "\<lambda>h a. (fst h, snd h @ a)" "\<lambda>s. (s, [])" "d_xxh64 dg" pc] assms by simp
  ultimately show ?thesis by (simp add: sql_reg_hash_def server_hash_def)
qed

lemma concat_chunks: "length bs = 4 * n \<Longrightarrow> concat (map (\<lambda>j. take 4 (drop (4 * j) bs)) [0..<n]) = bs"
proof (induction n arbitrary: bs)
  case (Suc n)
  have "[0..<Suc n] = 0 # map Suc [0..<n]" by (simp add: map_Suc_upt upt_conv_Cons del: upt_Suc)
  then have "map (\<lambda>j. take 4 (drop (4 * j) bs)) [0..<Suc n] = take 4 bs # map (\<lambda>j. take 4 (drop (4 * j) (drop 4 bs))) [0..<n]"
    by (simp add: add.commute)
  then show ?case using Suc.IH [of "drop 4 bs"] Suc.prems by (simp only: concat.simps) simp
qed simp

lemma words_bytes:
  assumes "length bs = 4 * n"
  shows "region_bytes_sql (map (word_at bs) [0..<n]) = bs"
proof -
  have "to_le_bytes 4 (word_at bs j) = take 4 (drop (4 * j) bs)" if "j < n" for j
  proof -
    have "length (take 4 (drop (4 * j) bs)) = 4" using that assms by simp
    then show ?thesis using to_from_le_bytes [of "take 4 (drop (4 * j) bs)", where ?'a = 32] by (simp add: word_at_def)
  qed
  then have "map (to_le_bytes 4) (map (word_at bs) [0..<n]) = map (\<lambda>j. take 4 (drop (4 * j) bs)) [0..<n]" by simp
  then show ?thesis by (simp only: region_bytes_sql_def concat_chunks [OF assms])
qed

text \<open>The lines the database writes of the machine it stands for.\<close>

lemma format_is_display:
  "format_checkpoint ic pc rh None = checkpoint_display (registers_only ic pc rh)"
  "format_checkpoint ic pc rh (Some (mh, fh)) = checkpoint_display (with_memory ic pc rh mh fh)"
  by (simp_all add: format_checkpoint_def checkpoint_display_def registers_only_def with_memory_def hex_text)

lemma stands_for_reads:
  assumes "stands_for k d c"
  shows "map wr_value (final_rows wr_addr wr_version (t_ram d)) = map (word_at (ram (cpu_memory c))) [0..<unat (fc_ram_words k)]"
    and "dense_words (t_framebuffer d) FRAMEBUFFER_WORDS = map (word_at (framebuffer (cpu_memory c))) [0..<16000]"
    and "dense_words (t_palette d) PALETTE_WORDS = map (word_at (palette (cpu_memory c))) [0..<192]"
    and "length (ram (cpu_memory c)) = 4 * unat (fc_ram_words k)" "length (framebuffer (cpu_memory c)) = 4 * 16000" "length (palette (cpu_memory c)) = 4 * 192"
proof -
  have s: "tables_ok k (decode_with d)" "\<exists>q. captures k (decode_with d) q c"
    "\<forall>j < 16000. word_at (framebuffer (cpu_memory c)) j = word_value (t_framebuffer d) (of_nat j)"
    "\<forall>j < 192. word_at (palette (cpu_memory c)) j = word_value (t_palette d) (of_nat j)"
    using assms by (auto simp: stands_for_def)
  have rc: "ram_cfg k" and len: "length (RAMT (decode_with d)) = unat (fc_ram_words k)" using s(1) by (simp_all add: tables_ok_def)
  have cap: "\<forall>j < unat (fc_ram_words k). word_at (ram (cpu_memory c)) j = RAMT (decode_with d) ! j" "mem_wf (cpu_memory c)" "mem_map (cpu_memory c) = sql_map k"
    using s(2) by (auto simp: captures_def cpu_inv_def)
  show "map wr_value (final_rows wr_addr wr_version (t_ram d)) = map (word_at (ram (cpu_memory c))) [0..<unat (fc_ram_words k)]"
    by (rule nth_equalityI) (use cap(1) len in \<open>simp_all add: decode_with_def\<close>)
  have w: "unat FRAMEBUFFER_WORDS = 16000" "unat PALETTE_WORDS = 192"
    by (simp_all add: FRAMEBUFFER_WORDS_def PALETTE_WORDS_def map_constants)
  show "dense_words (t_framebuffer d) FRAMEBUFFER_WORDS = map (word_at (framebuffer (cpu_memory c))) [0..<16000]"
    "dense_words (t_palette d) PALETTE_WORDS = map (word_at (palette (cpu_memory c))) [0..<192]"
    using s(3,4) by (simp_all add: dense_words_value w)
  show "length (ram (cpu_memory c)) = 4 * unat (fc_ram_words k)" "length (framebuffer (cpu_memory c)) = 4 * 16000" "length (palette (cpu_memory c)) = 4 * 192"
    using cap(2,3) ram_size_nat [OF rc] by (simp_all add: mem_wf_def sql_map_def with_ram_size_def map_clickdoom_def map_constants)
qed

lemma lines_agree:
  assumes "stands_for k d c" "digest_law dg"
  shows "reg_checkpoint_sql (server_hash dg) d = Some (checkpoint_display (checkpoint_of dg c False))"
    and "checkpoint_sql (server_hash dg) d = Some (checkpoint_display (checkpoint_of dg c True))"
proof -
  note rd = stands_for_reads [OF assms(1)]
  obtain p where p: "latest_by cs_batch_id (t_cpu_state d) = Some (cpu_state_of p)" "bc_pc p = cpu_pc c" "bc_regs p = tl (cpu_regs c)"
    "bc_icount p = cpu_icount c" "cpu_inv c" using assms(1) by (auto simp: stands_for_def captures_def)
  have regs: "length (tl (cpu_regs c)) = 31" "0 # tl (cpu_regs c) = cpu_regs c"
    using p(5) by (cases "cpu_regs c"; simp add: cpu_inv_def regs_ok_def)+
  have rh: "sql_reg_hash (server_hash dg) (cpu_pc c) (tl (cpu_regs c)) = reg_hash_of dg c"
    using reg_hash_text [OF regs(1), of dg "cpu_pc c"] by (simp add: reg_hash_of_def regs(2))
  show "reg_checkpoint_sql (server_hash dg) d = Some (checkpoint_display (checkpoint_of dg c False))"
    by (simp add: reg_checkpoint_sql_def p cpu_state_of_def rh format_is_display checkpoint_of_def)
  have mh: "word_array_hash (server_hash dg) (map wr_value (final_rows wr_addr wr_version (t_ram d))) = ram_hash_of dg c"
    by (simp add: word_array_hash_def rd(1) words_bytes [OF rd(4)] server_hash_def ram_hash_of_def ram_hash_def)
  have fh: "sql_fb_hash (server_hash dg) (region_bytes_sql (dense_words (t_framebuffer d) FRAMEBUFFER_WORDS)) (region_bytes_sql (dense_words (t_palette d) PALETTE_WORDS)) = fb_hash_of dg c"
    using assms(2) unfolding rd(2,3) words_bytes [OF rd(5)] words_bytes [OF rd(6)]
    by (simp add: sql_fb_hash_def server_hash_def fb_hash_of_def fb_hash_def Let_def digest_law_def)
  show "checkpoint_sql (server_hash dg) d = Some (checkpoint_display (checkpoint_of dg c True))"
    unfolding checkpoint_sql_def p(1) mh fh by (simp add: p cpu_state_of_def rh format_is_display checkpoint_of_def)
qed


section \<open>The checkpoints of a batch\<close>

text \<open>The machines due are sound, and their counts ascend.\<close>

lemma due_facts:
  assumes "cpu_inv c" "unat (cpu_icount c) + n < 2 ^ 64"
  shows "(\<forall>d \<in> set (due i n c). cpu_inv d \<and> cpu_icount c \<le> cpu_icount d) \<and> sorted_wrt (<) (map cpu_icount (due i n c))"
  using assms
proof (induction n arbitrary: i c)
  case (Suc n)
  obtain r c1 where r: "step c = (r, c1)" by fastforce
  show ?case
  proof (cases r)
    case (Ok u)
    then obtain x where x: "step_reporting c = (Ok x, c1)" using r by (auto simp: step_def split: prod.splits rresult.splits)
    note f = step_reporting_facts [OF Suc.prems(1) x]
    have ic: "cpu_icount c1 = cpu_icount c + 1" using f(5) by blast
    have u: "unat (cpu_icount c1) = unat (cpu_icount c) + 1" using Suc.prems(2) by (simp add: ic unat_word_ariths)
    then have lt: "cpu_icount c < cpu_icount c1" by (simp add: word_less_nat_alt)
    have "unat (cpu_icount c1) + n < 2 ^ 64" using Suc.prems(2) u by simp
    from Suc.IH [OF f(2) this, of "Suc i"] show ?thesis using Suc.prems(1) r Ok lt by fastforce
  qed (use r Suc.prems(1) in \<open>auto\<close>)
qed simp

lemma row_checkpoints_due:
  assumes "bc_cp_icount r = map cpu_icount ds" "bc_cp_pc r = map cpu_pc ds" "bc_cp_regs r = concat (map (\<lambda>d. tl (cpu_regs d)) ds)"
    and "\<forall>d \<in> set ds. cpu_inv d"
  shows "row_checkpoints r = map (\<lambda>d. (cpu_icount d, cpu_pc d, tl (cpu_regs d))) ds"
proof -
  have l: "\<forall>d \<in> set ds. length (tl (cpu_regs d)) = 31" using assms(4) by (auto simp: cpu_inv_def regs_ok_def)
  have slice: "take 31 (drop (j * 31) (concat (map (\<lambda>d. tl (cpu_regs d)) ds))) = tl (cpu_regs (ds ! j))" if "j < length ds" for j
    using l that
  proof (induction ds arbitrary: j)
    case (Cons d ds)
    then show ?case by (cases j) (simp_all add: drop_append)
  qed simp
  show ?thesis
    by (rule nth_equalityI)
      (use slice in \<open>simp_all add: row_checkpoints_def assms(1-3) array_element_def array_slice_def CHECKPOINT_REGS_def del: upt_Suc\<close>)
qed

lemma batch_lines_agree:
  assumes "batch_rows d b = [commit_row b' a]" "records (start_acc q c) ds a" "\<forall>x \<in> set ds. cpu_inv x" "sorted_wrt (<) (map cpu_icount ds)"
  shows "batch_checkpoints_sql (server_hash dg) b d = map (\<lambda>x. checkpoint_display (checkpoint_of dg x False)) ds"
proof -
  have "row_checkpoints (commit_row b' a) = map (\<lambda>d. (cpu_icount d, cpu_pc d, tl (cpu_regs d))) ds"
    using assms(2,3) by (intro row_checkpoints_due) (simp_all add: records_def commit_row_def start_acc_def init_acc_def)
  moreover have "sorted (map cpu_icount ds)" using assms(4) by (rule strict_sorted_imp_sorted)
  moreover have "sql_reg_hash (server_hash dg) (cpu_pc x) (tl (cpu_regs x)) = reg_hash_of dg x" if "x \<in> set ds" for x
  proof -
    have "cpu_inv x" using assms(3) that by blast
    then have "length (tl (cpu_regs x)) = 31" "0 # tl (cpu_regs x) = cpu_regs x"
      by (cases "cpu_regs x"; simp add: cpu_inv_def regs_ok_def)+
    then show ?thesis using reg_hash_text [of "tl (cpu_regs x)" dg "cpu_pc x"] by (simp add: reg_hash_of_def)
  qed
  ultimately show ?thesis
    by (simp add: batch_checkpoints_sql_def assms(1) sort_key_id_if_sorted o_def format_is_display checkpoint_of_def)
qed

section \<open>How many there are\<close>

abbreviation at_cadence :: "cpu \<Rightarrow> bool" where
  "at_cadence c \<equiv> is_checkpoint trace_config_default (cpu_icount c)"

lemma at_cadence_nat: "at_cadence c \<longleftrightarrow> 0 < unat (cpu_icount c) \<and> unat (cpu_icount c) mod 4096 = 0"
proof -
  have "cpu_icount c mod 4096 = 0 \<longleftrightarrow> unat (cpu_icount c mod 4096) = 0" by (simp add: unat_eq_0)
  also have "unat (cpu_icount c mod 4096) = unat (cpu_icount c) mod 4096" by (simp add: unat_mod)
  finally show ?thesis by (auto simp: is_checkpoint_def is_multiple_of_def trace_config_default_def CHECKPOINT_INTERVAL_def unat_gt_0)
qed

lemma due_later_count:
  assumes "cpu_inv c" "run_steps m c = (Ok None, c')" "unat (cpu_icount c) + m < 2 ^ 64"
  shows "length (due (Suc i) m c) + of_bool (at_cadence c') =
    (unat (cpu_icount c) + m) div 4096 - unat (cpu_icount c) div 4096 + of_bool (at_cadence c)"
  using assms
proof (induction m arbitrary: i c)
  case (Suc m)
  then obtain c1 where s: "step c = (Ok (), c1)" "run_steps m c1 = (Ok None, c')" by (auto split: prod.splits rresult.splits)
  then obtain x where x: "step_reporting c = (Ok x, c1)" by (auto simp: step_def split: prod.splits rresult.splits)
  note f = step_reporting_facts [OF Suc.prems(1) x]
  have u: "unat (cpu_icount c1) = unat (cpu_icount c) + 1" using f(5) Suc.prems(3) by (auto simp: unat_word_ariths)
  have ih: "length (due (Suc (Suc i)) m c1) + of_bool (at_cadence c') =
      (unat (cpu_icount c) + Suc m) div 4096 - (unat (cpu_icount c) + 1) div 4096 + of_bool (at_cadence c1)"
    using Suc.IH [OF f(2) s(2), of "Suc i"] u Suc.prems(3) by simp
  have d: "(unat (cpu_icount c) + 1) div 4096 = unat (cpu_icount c) div 4096 + of_bool (at_cadence c1)"
    unfolding at_cadence_nat [of c1] u by (simp add: div_Suc mod_Suc)
  have le: "(unat (cpu_icount c) + 1) div 4096 \<le> (unat (cpu_icount c) + Suc m) div 4096" by (rule div_le_mono) simp
  have "unat (cpu_icount c) div 4096 \<le> (unat (cpu_icount c) + Suc m) div 4096" by (rule div_le_mono) simp
  then show ?case using ih d le s(1) by (auto simp: Suc_diff_le)
qed simp

lemma due_halt: "run_steps m c = (Ok None, c') \<Longrightarrow> step c' = (Err h, c'') \<Longrightarrow>
    due i (m + 1) c = due i m c @ (if 0 < i + m \<and> at_cadence c' then [c'] else [])"
proof (induction m arbitrary: i c)
  case (Suc m)
  then obtain c1 where "step c = (Ok (), c1)" "run_steps m c1 = (Ok None, c')" by (auto split: prod.splits rresult.splits)
  then show ?case using Suc.IH [of c1 "Suc i"] Suc.prems(2) by simp
qed simp

lemma due_count:
  assumes "cpu_inv c" "run_steps m c = (Ok None, c')" "unat (cpu_icount c) + m < 2 ^ 64" "0 < m"
  shows "length (due 0 m c) + of_bool (at_cadence c') = (unat (cpu_icount c) + m) div 4096 - unat (cpu_icount c) div 4096"
proof -
  obtain j where j: "m = Suc j" using assms(4) by (cases m) auto
  have "due (Suc 0) m c = (if at_cadence c then [c] else []) @ due 0 m c"
  proof -
    obtain c1 where "step c = (Ok (), c1)" using assms(2) j by (auto split: prod.splits rresult.splits)
    moreover have "due (Suc i) j d = due (Suc k) j d" for i k j d
      by (induction j arbitrary: i k d) (auto split: prod.splits rresult.splits)
    ultimately show ?thesis by (simp add: j)
  qed
  then show ?thesis using due_later_count [OF assms(1-3), of 0] by (auto split: if_splits)
qed

end
