(* ===== verification/Emu_Run.thy ===== *)
theory Emu_Run
  imports Sql_Checkpoint
begin

text \<open>
  The resumable runner of \<open>driver/src/emulation/run.rs\<close>: the length of the next batch, the comparison of its
  checkpoints with a reference trace, the loop with its stops, and the assertions at its end.  The trace file is its
  text, or nothing when it cannot be read; the interrupt flag is a function of how often it was loaded; what another
  client does to the tables between a batch and the reading of its row is an argument.
\<close>

section \<open>Errors and arguments\<close>

datatype run_error = RunDb | RunRead | NoTraceLine u64 | CheckpointMismatch u64 "u8 list" "u8 list"
  | MalformedCheckpoint "u8 list" | BatchIdMoved u64 u64 | CheckpointCountShortfall u64 u64 u64 u64
  | FramesOutGap u64 u64 u64 u64 | FatalHalt string u64 u64

record run_args =
  ra_k :: u32
  ra_target_icount :: u64
  ra_stop_at_frame :: "u32 option"

record run_state =
  rs_db :: database
  rs_icount :: u64
  rs_batch_id :: u64
  rs_halted_reason :: string
  rs_reached_target :: bool
  rs_frames_observed :: u32
  rs_batches_run :: u64
  rs_compared :: u64

datatype run_stop = Interrupted | ReachedTarget | HaltedAtOrPastTarget string

record run_result =
  ro_stop :: run_stop
  ro_final_batch_id :: u64
  ro_final_icount :: u64
  ro_frames_observed :: u32
  ro_reg_checkpoints_compared :: u64

section \<open>The reference trace\<close>

definition trace_line_for :: "u8 list option \<Rightarrow> u64 \<Rightarrow> (u8 list, run_error) rresult" where
  "trace_line_for file icount = (case file of None \<Rightarrow> Err RunRead
   | Some text \<Rightarrow> (case List.find (\<lambda>line. hd (split_at TAB line) = to_decimal (unat icount)) (text_lines text) of
       None \<Rightarrow> Err (NoTraceLine icount) | Some line \<Rightarrow> Ok line))"

definition register_fields :: "u8 list \<Rightarrow> u8 list" where
  "register_fields line = join_with TAB (take 3 (split_at TAB line))"

fun compare_lines :: "u8 list option \<Rightarrow> u8 list list \<Rightarrow> u64 \<Rightarrow> (u64, run_error) rresult" where
  "compare_lines file [] compared = Ok compared"
| "compare_lines file (actual # rest) compared = (case parse_u64 (hd (split_at TAB actual)) of
     None \<Rightarrow> Err (MalformedCheckpoint actual)
   | Some icount \<Rightarrow> rbind (trace_line_for file icount) (\<lambda>line. let expected = register_fields line in
       if actual \<noteq> expected then Err (CheckpointMismatch icount expected actual)
       else compare_lines file rest (compared + 1)))"

definition compare_batch_checkpoints :: "(u8 list \<Rightarrow> u64) \<Rightarrow> u8 list option \<Rightarrow> u64 \<Rightarrow> database \<Rightarrow> (u64, run_error) rresult" where
  "compare_batch_checkpoints xxHash64 file b d = compare_lines file (batch_checkpoints_sql xxHash64 b d) 0"

text \<open>The boundary on the batch's own last instruction, read from the committed row.\<close>

definition compare_committed :: "(u8 list \<Rightarrow> u64) \<Rightarrow> u8 list option \<Rightarrow> u64 \<Rightarrow> database \<Rightarrow> (u64, run_error) rresult" where
  "compare_committed xxHash64 file icount d =
     (if is_multiple_of icount CHECKPOINT_INTERVAL \<and> 0 < icount
      then let at_ram_hash = is_multiple_of icount RAM_HASH_INTERVAL in
        (case if at_ram_hash then checkpoint_sql xxHash64 d else reg_checkpoint_sql xxHash64 d of
           None \<Rightarrow> Err RunDb
         | Some actual \<Rightarrow> rbind (trace_line_for file icount) (\<lambda>line.
             let expected = if at_ram_hash then line else register_fields line in
             if actual \<noteq> expected then Err (CheckpointMismatch icount expected actual) else Ok 1))
      else Ok 0)"

section \<open>The loop\<close>

definition step_k :: "u32 \<Rightarrow> u64 \<Rightarrow> u64 \<Rightarrow> u32" where
  "step_k k target icount =
     (let next_boundary = (icount div RAM_HASH_INTERVAL + 1) * RAM_HASH_INTERVAL;
          stop_at = min next_boundary target; remaining = stop_at - icount in
      if 0 < remaining \<and> remaining < ucast k then ucast remaining else k)"

text \<open>
  What follows the comparisons: a halt or the frame asked for leaves the loop.  The framebuffer hash that is printed for a
  frame, and the picture file that is written when a directory for them is given, are output beside the tables and are left
  out: the runs modelled are those without such a directory.
\<close>

definition run_after :: "run_args \<Rightarrow> batch_commit_row \<Rightarrow> run_state \<Rightarrow> bool \<times> run_state" where
  "run_after args p st =
     (if bc_halted p = 1 then (True, st\<lparr>rs_halted_reason := bc_halt_reason p\<rparr>)
      else if bc_has_frame p = 1 then
        let st' = st\<lparr>rs_frames_observed := rs_frames_observed st + 1, rs_db := frame_readout (rs_batch_id st) (rs_db st)\<rparr> in
        (case ra_stop_at_frame args of
           Some f \<Rightarrow> if f \<le> bc_frame_no p then (True, st'\<lparr>rs_reached_target := True\<rparr>) else (False, st')
         | None \<Rightarrow> (False, st'))
      else (False, st))"

text \<open>One round: \<open>Ok True\<close> leaves the loop.  Building the statement panics where its assertions fail.\<close>

definition run_body :: "(u8 list \<Rightarrow> u64) \<Rightarrow> u8 list option \<Rightarrow> (u64 \<Rightarrow> database \<Rightarrow> database) \<Rightarrow> fold_cfg \<Rightarrow> run_args \<Rightarrow> run_state \<Rightarrow>
    (bool, run_error) rresult \<times> run_state" where
  "run_body xxHash64 file other cfg args st =
     (if \<not> step_builds Baseline cfg then (Panic, st) else
      case batch Baseline cfg (unat (step_k (ra_k args) (ra_target_icount args) (rs_icount st))) (rs_db st) of
        None \<Rightarrow> (Err RunDb, st)
      | Some d1 \<Rightarrow> let this_batch = rs_batch_id st + 1; d2 = other this_batch d1 in
       (case latest_by bc_batch_id (t_batch_commit d2) of
          None \<Rightarrow> (Err RunDb, st\<lparr>rs_db := d2\<rparr>)
        | Some p \<Rightarrow> if bc_batch_id p \<noteq> this_batch then (Err (BatchIdMoved this_batch (bc_batch_id p)), st\<lparr>rs_db := d2\<rparr>)
          else let d3 = retention this_batch BATCH_COMMIT_RETENTION_N (run_all (flush this_batch) d2);
                   st3 = st\<lparr>rs_db := d3, rs_batch_id := this_batch, rs_icount := bc_icount p, rs_batches_run := rs_batches_run st + 1\<rparr> in
           (case compare_batch_checkpoints xxHash64 file this_batch d3 of
              Err e \<Rightarrow> (Err e, st3) | Panic \<Rightarrow> (Panic, st3)
            | Ok n \<Rightarrow> let st4 = st3\<lparr>rs_compared := rs_compared st3 + n\<rparr> in
               (case compare_committed xxHash64 file (bc_icount p) d3 of
                  Err e \<Rightarrow> (Err e, st4) | Panic \<Rightarrow> (Panic, st4)
                | Ok m \<Rightarrow> let (leave, st5) = run_after args p (st4\<lparr>rs_compared := rs_compared st4 + m\<rparr>) in (Ok leave, st5)))))"

partial_function (option) run_loop :: "(u8 list \<Rightarrow> u64) \<Rightarrow> u8 list option \<Rightarrow> (u64 \<Rightarrow> database \<Rightarrow> database) \<Rightarrow> fold_cfg \<Rightarrow> run_args \<Rightarrow>
    (nat \<Rightarrow> bool) \<Rightarrow> nat \<Rightarrow> run_state \<Rightarrow> (nat \<times> (unit, run_error) rresult \<times> run_state) option" where
  "run_loop xxHash64 file other cfg args interrupted n st =
     (if interrupted n then Some (Suc n, Ok (), st)
      else if ra_target_icount args \<le> rs_icount st then Some (Suc n, Ok (), st\<lparr>rs_reached_target := True\<rparr>)
      else case run_body xxHash64 file other cfg args st of
        (Ok leave, st') \<Rightarrow> if leave then Some (Suc n, Ok (), st') else run_loop xxHash64 file other cfg args interrupted (Suc n) st'
      | (Err e, st') \<Rightarrow> Some (Suc n, Err e, st')
      | (Panic, st') \<Rightarrow> Some (Suc n, Panic, st'))"

section \<open>The end of the run\<close>

definition frames_out_span :: "database \<Rightarrow> u64 \<times> u64 \<times> u64 \<times> u64" where
  "frames_out_span d = (let ns = map fo_frame_no (t_frames_out d) in
     (of_nat (length ns), of_nat (length (remdups ns)), if ns = [] then 0 else ucast (Min (set ns)), if ns = [] then 0 else ucast (Max (set ns))))"

definition run_finish :: "run_args \<Rightarrow> bool \<Rightarrow> u64 \<Rightarrow> run_state \<Rightarrow> (run_result, run_error) rresult" where
  "run_finish args interrupted resume_icount st =
     (let (rows, distinct, lowest, highest) = frames_out_span (rs_db st); span = highest - lowest + 1;
          expected = rs_icount st div CHECKPOINT_INTERVAL - resume_icount div CHECKPOINT_INTERVAL;
          outcome = (\<lambda>stop. \<lparr> ro_stop = stop, ro_final_batch_id = rs_batch_id st, ro_final_icount = rs_icount st,
             ro_frames_observed = rs_frames_observed st, ro_reg_checkpoints_compared = rs_compared st \<rparr>) in
      if 0 < rows \<and> (rows \<noteq> span \<or> distinct \<noteq> span) then Err (FramesOutGap rows distinct lowest highest)
      else if rs_compared st \<noteq> expected then Err (CheckpointCountShortfall (rs_compared st) expected resume_icount (rs_icount st))
      else if interrupted then Ok (outcome Interrupted)
      else if rs_halted_reason st \<noteq> '''' then
        (if rs_icount st < ra_target_icount args then Err (FatalHalt (rs_halted_reason st) (rs_icount st) (ra_target_icount args))
         else Ok (outcome (HaltedAtOrPastTarget (rs_halted_reason st))))
      else Ok (outcome ReachedTarget))"

text \<open>
  The runner on provisioned tables: it resumes at the latest committed row, redoes that row's derivations, and enters
  the loop.
\<close>

definition run_from :: "(u8 list \<Rightarrow> u64) \<Rightarrow> u8 list option \<Rightarrow> (u64 \<Rightarrow> database \<Rightarrow> database) \<Rightarrow> fold_cfg \<Rightarrow> run_args \<Rightarrow> (nat \<Rightarrow> bool) \<Rightarrow> database \<Rightarrow>
    ((run_result, run_error) rresult \<times> database) option" where
  "run_from xxHash64 file other cfg args interrupted d = (case latest_by bc_batch_id (t_batch_commit d) of
     None \<Rightarrow> Some (Err RunDb, d)
   | Some p \<Rightarrow> map_option (\<lambda>(n, r, st). (rbind r (\<lambda>_. run_finish args (interrupted n) (bc_icount p) st), rs_db st))
       (run_loop xxHash64 file other cfg args interrupted 0
         \<lparr> rs_db = run_all (recover (bc_batch_id p)) d, rs_icount = bc_icount p, rs_batch_id = bc_batch_id p, rs_halted_reason = '''',
            rs_reached_target = False, rs_frames_observed = 0, rs_batches_run = 0, rs_compared = 0 \<rparr>))"

section \<open>Looking a trace up\<close>

text \<open>The file the emulator's trace command writes: a line for each checkpoint.\<close>

definition trace_text :: "checkpoint list \<Rightarrow> u8 list" where
  "trace_text cps = concat (map (\<lambda>cp. checkpoint_display cp @ [10]) cps)"

lemma display_one_line: "10 \<notin> set (checkpoint_display cp) \<and> last (checkpoint_display cp) \<noteq> 13"
proof -
  have x: "b \<noteq> 10 \<and> b \<noteq> 13" if "b \<in> set (to_decimal n)" for b n using to_decimal_digits [OF that] by (auto simp: is_ascii_digit_def)
  have y: "b \<noteq> 10 \<and> b \<noteq> 13" if "b \<in> set (to_hex k n)" for b k n
    using to_hex_digits [of k n] that by (auto simp: is_hex_digit_def is_ascii_digit_def list_all_iff)
  have "\<forall>b \<in> set (checkpoint_display cp). b \<noteq> 10 \<and> b \<noteq> 13"
    by (auto simp: checkpoint_display_def TAB_def dest: x y split: option.splits)
  moreover have "checkpoint_display cp \<noteq> []" by (simp add: checkpoint_display_def)
  ultimately show ?thesis using last_in_set by blast
qed

lemma trace_text_lines: "text_lines (trace_text cps) = map checkpoint_display cps"
proof -
  have "trace_text cps = concat (map (\<lambda>l. l @ [10]) (map checkpoint_display cps))" by (simp add: trace_text_def o_def)
  then show ?thesis using text_lines_concat [of "map checkpoint_display cps"] display_one_line by auto
qed

lemma display_first_field: "hd (split_at TAB (checkpoint_display cp)) = to_decimal (unat (ck_icount cp))"
  by (simp add: split_display checkpoint_fields_def)

lemma to_decimal_inj: "to_decimal (unat (x :: u64)) = to_decimal (unat y) \<Longrightarrow> x = y"
  by (metis parse_u64_to_decimal option.inject)

lemma register_fields_display: "register_fields (checkpoint_display (checkpoint_of dg c b)) = checkpoint_display (checkpoint_of dg c False)"
  unfolding register_fields_def split_display
  by (simp add: display_fields checkpoint_fields_def checkpoint_of_def with_memory_def registers_only_def)

lemma find_unique: "x \<in> set xs \<Longrightarrow> P x \<Longrightarrow> (\<And>y. y \<in> set xs \<Longrightarrow> P y \<Longrightarrow> y = x) \<Longrightarrow> List.find P xs = Some x"
proof (induction xs)
  case (Cons a xs)
  show ?case
  proof (cases "P a")
    case True
    then show ?thesis using Cons.prems(3) [of a] by simp
  next
    case False
    then have "x \<in> set xs" using Cons.prems(1,2) by auto
    then have "List.find P xs = Some x" by (rule Cons.IH [OF _ Cons.prems(2)]) (rule Cons.prems(3), simp_all)
    then show ?thesis using False by simp
  qed
qed simp

text \<open>The machines a run passes through, and where the trace has them.\<close>

lemma run_steps_Suc:
  assumes "run_steps (Suc i) c = (Ok None, x)"
  obtains c1 y where "step c = (Ok (), c1)" "step_reporting c = (Ok y, c1)" "run_steps i c1 = (Ok None, x)"
proof -
  obtain r c1 where r: "step c = (r, c1)" by fastforce
  then have "r = Ok ()" "run_steps i c1 = (Ok None, x)" using assms by (auto split: rresult.splits)
  moreover from this(1) obtain y where "step_reporting c = (Ok y, c1)" using r by (auto simp: step_def split: prod.splits rresult.splits)
  ultimately show ?thesis using that r by simp
qed

lemma steps_inv: "run_steps m c = (Ok None, c') \<Longrightarrow> cpu_inv c \<Longrightarrow> cpu_inv c'"
proof (induction m arbitrary: c)
  case (Suc m)
  from Suc.prems(1) obtain c1 y where s: "step_reporting c = (Ok y, c1)" "run_steps m c1 = (Ok None, c')" by (rule run_steps_Suc)
  then show ?case using Suc.IH step_reporting_facts(2) [OF Suc.prems(2) s(1)] by blast
qed simp

lemma follow_reaches: "x \<in> set (follow n c) \<Longrightarrow> \<exists>j. 0 < j \<and> j \<le> n \<and> run_steps j c = (Ok None, x)"
proof (induction n arbitrary: c)
  case (Suc n)
  obtain r c1 where r: "step_reporting c = (r, c1)" by fastforce
  then obtain y where y: "r = Ok y" "x = c1 \<or> x \<in> set (follow n c1)" using Suc.prems by (auto split: rresult.splits)
  have s: "step c = (Ok (), c1)" using r y(1) by (simp add: step_def)
  from y(2) show ?case
  proof
    assume "x = c1"
    then show ?thesis using s by (intro exI [of _ 1]) simp
  next
    assume "x \<in> set (follow n c1)"
    from Suc.IH [OF this] obtain j where "j \<le> n" "run_steps j c1 = (Ok None, x)" by blast
    then show ?thesis using s by (intro exI [of _ "Suc j"]) simp
  qed
qed simp

lemma follow_reached: "run_steps j c = (Ok None, x) \<Longrightarrow> 0 < j \<Longrightarrow> j \<le> n \<Longrightarrow> x \<in> set (follow n c)"
proof (induction n arbitrary: j c)
  case (Suc n)
  then obtain i where i: "j = Suc i" by (cases j) auto
  from Suc.prems(1) [unfolded i] obtain c1 y where s: "step_reporting c = (Ok y, c1)" "run_steps i c1 = (Ok None, x)" by (rule run_steps_Suc)
  have "x \<in> set (follow n c1)" if "0 < i" using Suc.IH [OF s(2) that] Suc.prems(3) i by simp
  moreover have "x = c1" if "i = 0" using s(2) that by simp
  ultimately show ?case using s(1) by auto
qed simp

lemma follow_counts:
  assumes "cpu_inv c" "unat (cpu_icount c) + n < 2 ^ 64"
  shows "distinct (map cpu_icount (follow n c)) \<and> (\<forall>x \<in> set (follow n c). unat (cpu_icount c) < unat (cpu_icount x))"
  using assms
proof (induction n arbitrary: c)
  case (Suc n)
  obtain r c1 where r: "step_reporting c = (r, c1)" by fastforce
  show ?case
  proof (cases r)
    case (Ok y)
    note f = step_reporting_facts [OF Suc.prems(1) r [unfolded Ok]]
    have ic: "unat (cpu_icount c1) = unat (cpu_icount c) + 1" using f(5) Suc.prems(2) by (auto simp: unat_word_ariths)
    then have "distinct (map cpu_icount (follow n c1))" "\<forall>x \<in> set (follow n c1). unat (cpu_icount c1) < unat (cpu_icount x)"
      using Suc.IH [OF f(2)] Suc.prems(2) by auto
    then show ?thesis using r Ok ic by fastforce
  qed (use r in auto)
qed simp

text \<open>
  What a reader of a trace promises: the first line of the text whose first field is the count it is asked for.  Both
  the runner and the differential runner have one.
\<close>

locale trace_reader =
  fixes lookup :: "u8 list option \<Rightarrow> u64 \<Rightarrow> (u8 list, 'e) rresult"
  assumes lookup_first: "List.find (\<lambda>line. hd (split_at TAB line) = to_decimal (unat icount)) (text_lines text) = Some line \<Longrightarrow>
    lookup (Some text) icount = Ok line"
begin

lemma lookup_machine:
  assumes "cpu_inv c0" "unat (cpu_icount c0) + n < 2 ^ 64" "run_steps j c0 = (Ok None, x)" "0 < j" "j \<le> n" "at_cadence x"
  shows "lookup (Some (trace_text (trace_lines dg trace_config_default (follow n c0)))) (cpu_icount x) =
    Ok (checkpoint_display (checkpoint_of dg x (is_ram_hash trace_config_default (cpu_icount x))))"
proof -
  let ?cp = "\<lambda>x. checkpoint_of dg x (is_ram_hash trace_config_default (cpu_icount x))"
  let ?ds = "filter at_cadence (follow n c0)" and ?P = "\<lambda>line. hd (split_at TAB line) = to_decimal (unat (cpu_icount x))"
  have ic: "ck_icount (?cp y) = cpu_icount y" for y by (simp add: checkpoint_of_def with_memory_def registers_only_def)
  have x: "x \<in> set ?ds" using follow_reached [OF assms(3,4,5)] assms(6) by simp
  have "distinct (map cpu_icount ?ds)" using follow_counts [OF assms(1,2)] distinct_map_filter by blast
  then have uniq: "y = x" if "y \<in> set ?ds" "cpu_icount y = cpu_icount x" for y using that x by (auto simp: distinct_map inj_on_def)
  have ls: "text_lines (trace_text (trace_lines dg trace_config_default (follow n c0))) = map (checkpoint_display \<circ> ?cp) ?ds"
    by (simp add: trace_text_lines trace_lines_def)
  have "List.find ?P (map (checkpoint_display \<circ> ?cp) ?ds) = Some (checkpoint_display (?cp x))"
  proof (rule find_unique)
    show "checkpoint_display (?cp x) \<in> set (map (checkpoint_display \<circ> ?cp) ?ds)" using x by force
    show "?P (checkpoint_display (?cp x))" by (simp add: display_first_field ic)
    show "l = checkpoint_display (?cp x)" if "l \<in> set (map (checkpoint_display \<circ> ?cp) ?ds)" "?P l" for l
    proof -
      from that(1) obtain y where y: "y \<in> set ?ds" "l = checkpoint_display (?cp y)" by (auto simp only: set_map o_def)
      then have "cpu_icount y = cpu_icount x" using that(2) to_decimal_inj by (simp add: display_first_field ic)
      then show ?thesis using uniq y by auto
    qed
  qed
  then show ?thesis using lookup_first ls by auto
qed

end

interpretation run_trace_reader: trace_reader trace_line_for
  by unfold_locales (simp add: trace_line_for_def)

section \<open>One round\<close>

lemma due_reached: "x \<in> set (due i n c) \<Longrightarrow> \<exists>j < n. run_steps j c = (Ok None, x) \<and> at_cadence x \<and> 0 < i + j"
proof (induction n arbitrary: i c)
  case (Suc n)
  obtain r c1 where r: "step c = (r, c1)" by fastforce
  show ?case
  proof (cases "0 < i \<and> at_cadence c \<and> x = c")
    case True
    then show ?thesis by (intro exI [of _ 0]) simp
  next
    case False
    then obtain u where u: "r = Ok u" "x \<in> set (due (Suc i) n c1)" using Suc.prems r by (auto split: rresult.splits if_splits)
    from Suc.IH [OF this(2)] obtain j where "j < n" "run_steps j c1 = (Ok None, x)" "at_cadence x" by blast
    then show ?thesis using r u(1) by (intro exI [of _ "Suc j"]) simp
  qed
qed simp

text \<open>A file that is the reference trace of a run from reset that passes \<open>c\<close> and goes on for at least \<open>n\<close> instructions, or to its halt.\<close>

definition traced :: "'h digest \<Rightarrow> u8 list option \<Rightarrow> nat \<Rightarrow> cpu \<Rightarrow> bool" where
  "traced dg file n c \<longleftrightarrow> (\<exists>c0 m l. cpu_inv c0 \<and> cpu_icount c0 = 0 \<and> l < 2 ^ 64 \<and> run_steps m c0 = (Ok None, c) \<and> m + n \<le> l \<and>
     file = Some (trace_text (trace_lines dg trace_config_default (follow l c0))))"

lemma traced_later: "traced dg file n c \<Longrightarrow> run_steps m c = (Ok None, c') \<Longrightarrow> m \<le> n \<Longrightarrow> traced dg file (n - m) c'"
  unfolding traced_def using run_steps_add by (metis add.assoc le_add_diff_inverse)

context trace_reader
begin

lemma lookup_traced:
  assumes "traced dg file n c" "run_steps j c = (Ok None, x)" "j \<le> n" "at_cadence x"
  shows "lookup file (cpu_icount x) = Ok (checkpoint_display (checkpoint_of dg x (is_ram_hash trace_config_default (cpu_icount x))))"
proof -
  from assms(1) obtain c0 m l where t: "cpu_inv c0" "cpu_icount c0 = 0" "l < 2 ^ 64" "run_steps m c0 = (Ok None, c)" "m + n \<le> l"
    "file = Some (trace_text (trace_lines dg trace_config_default (follow l c0)))" unfolding traced_def by blast
  have s: "run_steps (m + j) c0 = (Ok None, x)" using run_steps_add [OF t(4)] assms(2) by simp
  have "0 < m + j" using run_steps_icount [OF t(1) s] assms(4) t(2) by (cases "m + j = 0") (auto simp: is_checkpoint_def)
  then show ?thesis using lookup_machine [OF t(1) _ s, of l dg] t assms(3,4) by simp
qed

end

lemmas traced_line = run_trace_reader.lookup_traced

lemma compare_lines_ok:
  assumes "\<And>x. x \<in> set ds \<Longrightarrow> \<exists>b. trace_line_for file (cpu_icount x) = Ok (checkpoint_display (checkpoint_of dg x b))"
  shows "compare_lines file (map (\<lambda>x. checkpoint_display (checkpoint_of dg x False)) ds) k = Ok (k + of_nat (length ds))"
  using assms
proof (induction ds arbitrary: k)
  case (Cons x ds)
  have p: "parse_u64 (hd (split_at TAB (checkpoint_display (checkpoint_of dg x False)))) = Some (cpu_icount x)"
    by (simp only: display_first_field parse_u64_to_decimal) (simp add: checkpoint_of_def registers_only_def)
  obtain b where b: "trace_line_for file (cpu_icount x) = Ok (checkpoint_display (checkpoint_of dg x b))" using Cons.prems [of x] by auto
  have "compare_lines file (map (\<lambda>x. checkpoint_display (checkpoint_of dg x False)) ds) (k + 1) = Ok (k + 1 + of_nat (length ds))"
    by (rule Cons.IH) (rule Cons.prems, simp)
  then show ?case using p b by (simp add: register_fields_display add.assoc)
qed simp

lemma turn_parts:
  assumes "latest_by bc_batch_id (t_batch_commit d) = Some p" "unat (bc_batch_id p) + 1 < 2 ^ 32" "turn v k n d = Some d'"
    "latest_by bc_batch_id (t_batch_commit d') = Some p'"
  obtains d1 where "batch v k n d = Some d1" "latest_by bc_batch_id (t_batch_commit d1) = Some p'" "bc_batch_id p' = bc_batch_id p + 1"
    "d' = retention (bc_batch_id p') BATCH_COMMIT_RETENTION_N (run_all (flush (bc_batch_id p')) d1)"
proof -
  define row where "row = commit_row (bc_batch_id p + 1) (array_fold v k (decode_with d) n (init_acc (bc_pc p) (bc_regs p) (bc_icount p) (ucast (bc_keyq_pos p))))"
  let ?d1 = "d\<lparr>t_batch_commit := t_batch_commit d @ [row]\<rparr>"
  from turn_tables [OF assms(1,2) row_def] assms(3,4) have r: "p' = row" by force
  have one: "batch v k n d = Some ?d1" by (simp add: batch_def assms(1) row_def Let_def)
  have b: "bc_batch_id row = bc_batch_id p + 1" by (simp add: row_def commit_row_def)
  have "bc_batch_id q \<le> bc_batch_id row" if "q \<in> set (t_batch_commit d)" for q
    using latest_by_max [OF assms(1)] that assms(2) by (fastforce simp: b word_le_nat_alt unat_word_ariths)
  then have two: "latest_by bc_batch_id (t_batch_commit ?d1) = Some row" by (simp add: latest_by_snoc)
  have "d' = retention (bc_batch_id row) BATCH_COMMIT_RETENTION_N (run_all (flush (bc_batch_id row)) ?d1)"
    using assms(3) two by (simp add: turn_def one)
  then show ?thesis using that [OF one] two r b by simp
qed

lemma stands_for_frames: "stands_for k (d\<lparr>t_frames_out := fs\<rparr>) c \<longleftrightarrow> stands_for k d c"
  by (simp add: stands_for_def decode_with_def)

lemma tables_build: "tables_ok k t \<Longrightarrow> step_builds Baseline k"
  by (simp add: tables_ok_def step_builds_def ram_cfg_def map_constants word_le_nat_alt word_less_nat_alt)

text \<open>The runner's variables beside the tables: they stand for a machine.\<close>

definition run_at :: "fold_cfg \<Rightarrow> run_state \<Rightarrow> cpu \<Rightarrow> bool" where
  "run_at k st c \<longleftrightarrow> stands_for k (rs_db st) c \<and> rs_icount st = cpu_icount c \<and>
     (\<exists>p. latest_by bc_batch_id (t_batch_commit (rs_db st)) = Some p \<and> bc_batch_id p = rs_batch_id st)"

abbreviation crossed :: "cpu \<Rightarrow> cpu \<Rightarrow> nat" where
  "crossed c c' \<equiv> unat (cpu_icount c') div 4096 - unat (cpu_icount c) div 4096"

lemma compare_committed_ok:
  assumes "stands_for k d c" "digest_law dg" "at_cadence c \<Longrightarrow> trace_line_for file (cpu_icount c) =
      Ok (checkpoint_display (checkpoint_of dg c (is_ram_hash trace_config_default (cpu_icount c))))"
  shows "compare_committed (server_hash dg) file (cpu_icount c) d = Ok (of_bool (at_cadence c))"
proof (cases "at_cadence c")
  case True
  then show ?thesis using lines_agree [OF assms(1,2)] assms(3)
    by (auto simp: compare_committed_def Let_def is_checkpoint_def is_ram_hash_def trace_config_default_def register_fields_display word_neq_0_conv)
next
  case False
  then show ?thesis by (auto simp: compare_committed_def is_checkpoint_def trace_config_default_def)
qed

lemma run_after_facts:
  assumes "run_after args p st = (leave, st')"
  shows "rs_icount st' = rs_icount st" "rs_batch_id st' = rs_batch_id st" "rs_compared st' = rs_compared st"
    "rs_db st' = (rs_db st)\<lparr>t_frames_out := t_frames_out (rs_db st')\<rparr>"
    "bc_halted p = 1 \<Longrightarrow> leave \<and> rs_halted_reason st' = bc_halt_reason p \<and> rs_reached_target st' = rs_reached_target st"
    "bc_halted p \<noteq> 1 \<Longrightarrow> rs_halted_reason st' = rs_halted_reason st \<and>
       (if leave then rs_reached_target st' \<and> (\<exists>f. ra_stop_at_frame args = Some f \<and> bc_has_frame p = 1 \<and> f \<le> bc_frame_no p)
        else rs_reached_target st' = rs_reached_target st)"
  using assms by (auto simp: run_after_def Let_def frame_readout_def split: if_splits option.splits)

text \<open>How a round ended: by the halt of the machine, by the frame asked for, or it goes on.\<close>

definition round_ends :: "run_args \<Rightarrow> run_state \<Rightarrow> bool \<Rightarrow> run_state \<Rightarrow> cpu \<Rightarrow> bool" where
  "round_ends args st leave st' c \<longleftrightarrow>
     (if rs_halted_reason st' \<noteq> ''''
      then leave \<and> (\<exists>h. step c = (Err h, c) \<and> rs_halted_reason st' = halt_as_str (h_reason h))
      else if leave then rs_reached_target st' \<and> ra_stop_at_frame args \<noteq> None
      else rs_reached_target st' = rs_reached_target st)"

lemma halt_named: "halt_as_str r \<noteq> ''''" "'''' \<noteq> halt_as_str r"
  by (cases r; simp)+

lemma round_outcome:
  assumes inv: "cpu_inv c" and s: "run_steps m c = (Ok None, c')" "m \<le> n" "0 < n" "unat (cpu_icount c) + n < 2 ^ 64"
    and o: "row_outcome n m c' p" and ra: "run_after args p st = (leave, st')" "rs_halted_reason st = ''''"
  shows "0 < m \<or> leave" "round_ends args st leave st' c'" "rs_halted_reason st' \<noteq> '''' \<Longrightarrow> m < n"
    "length (due 0 (m + unat (bc_halted p)) c) + of_bool (at_cadence c') = crossed c c' + of_bool (rs_halted_reason st' \<noteq> '''' \<and> at_cadence c')"
proof -
  note af = run_after_facts [OF ra(1)]
  have c4: "unat (cpu_icount c') = unat (cpu_icount c) + m" using run_steps_icount [OF inv s(1)] s(2,4) by (simp add: unat_word_ariths unat_of_nat)
  show "m < n" if "rs_halted_reason st' \<noteq> ''''" using that o af(6) ra(2) by (auto simp: row_outcome_def split: if_splits)
  show "0 < m \<or> leave" using o s(3) af(5) by (auto simp: row_outcome_def split: if_splits)
  show "round_ends args st leave st' c'" using o af(5,6) ra(2) halt_named by (auto simp: round_ends_def row_outcome_def split: if_splits)
  show "length (due 0 (m + unat (bc_halted p)) c) + of_bool (at_cadence c') = crossed c c' + of_bool (rs_halted_reason st' \<noteq> '''' \<and> at_cadence c')"
  proof (cases "bc_halted p = 0")
    case True
    then have "0 < m" "rs_halted_reason st' = ''''" using o s(3) af(6) ra(2) by (auto simp: row_outcome_def)
    then show ?thesis using True due_count [OF inv s(1)] c4 s(2,4) by simp
  next
    case False
    then obtain x where x: "bc_halted p = 1" "step c' = (Err x, c')" "rs_halted_reason st' \<noteq> ''''"
      using o af(5) halt_named by (auto simp: row_outcome_def split: if_splits)
    have "length (due 0 (m + unat (bc_halted p)) c) = length (due 0 m c) + of_bool (0 < m \<and> at_cadence c')" using due_halt [OF s(1) x(2), of 0] x(1) by simp
    then show ?thesis using x(3) due_count [OF inv s(1)] c4 s(2,4) by (cases "m = 0") auto
  qed
qed

lemma run_body_sim:
  assumes at: "run_at k st c" and tr: "traced dg file n c" "digest_law dg"
    and n: "n = unat (step_k (ra_k args) (ra_target_icount args) (rs_icount st))" "0 < n" "display_free n c" "unat (cpu_icount c) + n < 2 ^ 64"
    and b: "unat (rs_batch_id st) + 1 < 2 ^ 32" and h: "rs_halted_reason st = ''''"
  shows "\<exists>m c' leave st'. run_body (server_hash dg) file (\<lambda>_ d. d) k args st = (Ok leave, st') \<and> m \<le> n \<and> run_steps m c = (Ok None, c') \<and>
    run_at k st' c' \<and> rs_batch_id st' = rs_batch_id st + 1 \<and> round_ends args st leave st' c' \<and> (0 < m \<or> leave) \<and> (rs_halted_reason st' \<noteq> '''' \<longrightarrow> m < n) \<and>
    rs_compared st' = rs_compared st + of_nat (crossed c c' + of_bool (rs_halted_reason st' \<noteq> '''' \<and> at_cadence c'))"
proof -
  from at obtain p where p: "stands_for k (rs_db st) c" "rs_icount st = cpu_icount c" "latest_by bc_batch_id (t_batch_commit (rs_db st)) = Some p"
    "bc_batch_id p = rs_batch_id st" unfolding run_at_def by blast
  have inv: "cpu_inv c" and sb: "step_builds Baseline k" using p(1) tables_build by (auto simp: stands_for_def captures_def)
  have n32: "n < 2 ^ 32" unfolding n(1) using unsigned_less [where 'a = nat and 'b = 32] by simp
  obtain d' p' m c' a where t: "turn Baseline k n (rs_db st) = Some d'" "m \<le> n" "run_steps m c = (Ok None, c')" "stands_for k d' c'"
    "latest_by bc_batch_id (t_batch_commit d') = Some p'" "bc_batch_id p' = bc_batch_id p + 1" "row_outcome n m c' p'"
    "batch_rows d' (bc_batch_id p') = [p']" "p' = commit_row (bc_batch_id p + 1) a"
    "records (start_acc (ucast (bc_keyq_pos p)) c) (due 0 (m + unat (acc_halted a)) c) a"
    using turn_sim [OF p(1,3) n(3,4) n32, of Baseline] b p(4) by auto
  obtain d1 where d1: "batch Baseline k n (rs_db st) = Some d1" "latest_by bc_batch_id (t_batch_commit d1) = Some p'"
    "d' = retention (bc_batch_id p') BATCH_COMMIT_RETENTION_N (run_all (flush (bc_batch_id p')) d1)"
    by (rule turn_parts [OF p(3) _ t(1,5)]) (use b p(4) in auto)
  have ic: "bc_icount p' = cpu_icount c'" using t(4,5) by (auto simp: stands_for_def)
  have bid: "bc_batch_id p' = rs_batch_id st + 1" using t(6) p(4) by simp
  let ?ds = "due 0 (m + unat (bc_halted p')) c"
  have hl: "bc_halted p' = acc_halted a" by (simp add: t(9) commit_row_def)
  have hm: "m + unat (bc_halted p') \<le> n" using t(2,7) by (auto simp: row_outcome_def split: if_splits)
  note df = due_facts [OF inv, of "m + unat (bc_halted p')" 0]
  have lines: "batch_checkpoints_sql (server_hash dg) (rs_batch_id st + 1) d' = map (\<lambda>x. checkpoint_display (checkpoint_of dg x False)) ?ds"
    unfolding bid [symmetric] hl by (rule batch_lines_agree [OF _ t(10)]) (use df hm n(4) t(8,9) hl in auto)
  have "\<exists>b. trace_line_for file (cpu_icount x) = Ok (checkpoint_display (checkpoint_of dg x b))" if "x \<in> set ?ds" for x
    using due_reached [OF that] traced_line [OF tr(1)] hm by (meson le_trans less_imp_le)
  from compare_lines_ok [OF this, of ?ds 0] have cb: "compare_batch_checkpoints (server_hash dg) file (rs_batch_id st + 1) d' = Ok (of_nat (length ?ds))"
    by (simp add: compare_batch_checkpoints_def lines)
  have cc: "compare_committed (server_hash dg) file (cpu_icount c') d' = Ok (of_bool (at_cadence c'))"
    by (rule compare_committed_ok [OF t(4) tr(2)]) (rule traced_line [OF tr(1) t(3,2)])
  let ?st = "st\<lparr>rs_db := d', rs_batch_id := rs_batch_id st + 1, rs_icount := cpu_icount c', rs_batches_run := rs_batches_run st + 1,
    rs_compared := rs_compared st + of_nat (length ?ds) + of_bool (at_cadence c')\<rparr>"
  obtain leave st' where ra: "run_after args p' ?st = (leave, st')" by fastforce
  note af = run_after_facts [OF ra]
  have body: "run_body (server_hash dg) file (\<lambda>_ d. d) k args st = (Ok leave, st')"
    using d1 cb cc ra sb by (simp add: run_body_def n(1) [symmetric] bid ic)
  have "run_at k st' c'" using af(1,2) t(4,5) bid by (subst run_at_def, subst af(4), subst (2) af(4)) (simp add: stands_for_frames)
  moreover have "rs_halted_reason ?st = ''''" using h by simp
  note ro = round_outcome [OF inv t(3,2) n(2,4) t(7) ra this]
  moreover have "round_ends args st leave st' c'" using ro(2) by (simp add: round_ends_def)
  moreover have "rs_compared st' = rs_compared st + of_nat (crossed c c' + of_bool (rs_halted_reason st' \<noteq> '''' \<and> at_cadence c'))"
    unfolding ro(4) [symmetric] using af(3) by (simp add: add.assoc)
  ultimately show ?thesis using body t(2,3) af(2) by (intro exI [of _ m] exI [of _ c'] exI [of _ leave] exI [of _ st']) simp
qed

section \<open>The whole loop\<close>

text \<open>The distance to the next multiple of an interval, cut at the target.\<close>

lemma to_boundary:
  assumes "icount < target" "unat target \<le> 2 ^ 63" "0 < unat v" "unat v \<le> 2 ^ 32"
  shows "unat (min ((icount div v + 1) * v) target - icount) = min ((unat icount div unat v + 1) * unat v) (unat target) - unat (icount :: u64)"
    and "unat icount < (unat icount div unat v + 1) * unat v"
proof -
  let ?nb = "(icount div v + 1) * v" and ?i = "unat icount" and ?v = "unat v"
  have lt: "?i < unat target" "?i < 2 ^ 63" using assms(1,2) by (simp_all add: word_less_nat_alt)
  show up: "?i < (?i div ?v + 1) * ?v" using dividend_less_div_times [OF assms(3), of ?i] by (simp add: algebra_simps)
  have "(?i div ?v + 1) * ?v \<le> ?i + ?v" using div_times_less_eq_dividend [of ?i ?v] by simp
  also have "\<dots> < 2 ^ 64" using lt(2) assms(4) by simp
  finally have "(?i div ?v + 1) * ?v < 2 ^ 64" .
  moreover have "?i div ?v + 1 < 2 ^ 64" using le_less_trans [OF div_le_dividend lt(2), of ?v] by simp
  ultimately have nb: "unat ?nb = (?i div ?v + 1) * ?v" by (simp add: unat_word_ariths unat_div)
  have "unat (min ?nb target) = min (unat ?nb) (unat target)" by (simp add: min_def word_le_nat_alt)
  then show "unat (min ?nb target - icount) = min ((?i div ?v + 1) * ?v) (unat target) - ?i"
    using nb lt(1) up by (subst unat_sub) (simp_all add: word_le_nat_alt)
qed

lemma step_k_bounds:
  assumes "icount < target" "unat target \<le> 2 ^ 63" "0 < k"
  shows "0 < unat (step_k k target icount)" "unat (step_k k target icount) \<le> unat target - unat icount"
proof -
  let ?r = "min ((icount div RAM_HASH_INTERVAL + 1) * RAM_HASH_INTERVAL) target - icount"
  have "0 < unat RAM_HASH_INTERVAL" "unat RAM_HASH_INTERVAL \<le> 2 ^ 32" by (simp_all add: RAM_HASH_INTERVAL_def)
  note b = to_boundary [OF assms(1,2) this]
  have pos: "0 < unat ?r" "unat ?r \<le> unat target - unat icount" using b assms(1) by (auto simp: min_def word_less_nat_alt)
  have uk: "unat (ucast k :: u64) = unat k" using unsigned_less [of k, where 'a = nat] by (simp add: unsigned_ucast_eq take_bit_nat_eq_self)
  have "unat (step_k k target icount) = (if unat ?r < unat k then unat ?r else unat k)"
    using pos(1) uk unsigned_less [of k, where 'a = nat]
    by (simp add: step_k_def Let_def word_less_nat_alt unsigned_ucast_eq take_bit_nat_eq_self)
  then show "0 < unat (step_k k target icount)" "unat (step_k k target icount) \<le> unat target - unat icount"
    using pos assms(3) by (auto simp: word_less_nat_alt)
qed

text \<open>Why the loop was left: at the machine's halt, at an interrupt, at the target, or at the frame asked for.\<close>

definition loop_ends :: "run_args \<Rightarrow> (nat \<Rightarrow> bool) \<Rightarrow> nat \<Rightarrow> run_state \<Rightarrow> cpu \<Rightarrow> bool" where
  "loop_ends args interrupted i st c \<longleftrightarrow>
     (if rs_halted_reason st \<noteq> '''' then rs_icount st < ra_target_icount args \<and> (\<exists>h. step c = (Err h, c) \<and> rs_halted_reason st = halt_as_str (h_reason h))
      else interrupted (i - 1) \<or> rs_reached_target st \<and> (ra_target_icount args \<le> rs_icount st \<or> ra_stop_at_frame args \<noteq> None))"

text \<open>
  A loop that ended well: it stands where the machine is after some steps, not past the target, it says why it ended,
  and it compared every boundary it crossed once, and the one it halted on once more.
\<close>

definition follows :: "fold_cfg \<Rightarrow> run_args \<Rightarrow> (nat \<Rightarrow> bool) \<Rightarrow> cpu \<Rightarrow> u64 \<Rightarrow> (nat \<times> (unit, run_error) rresult \<times> run_state) option \<Rightarrow> bool" where
  "follows k args interrupted c compared r \<longleftrightarrow> (\<exists>i m c' st. r = Some (i, Ok (), st) \<and>
     run_steps m c = (Ok None, c') \<and> m \<le> unat (ra_target_icount args) - unat (cpu_icount c) \<and> run_at k st c' \<and>
     loop_ends args interrupted i st c' \<and>
     rs_compared st = compared + of_nat (crossed c c' + of_bool (rs_halted_reason st \<noteq> '''' \<and> at_cadence c')))"

lemma follows_later:
  assumes s: "run_steps m c = (Ok None, c1)" "m \<le> unat (ra_target_icount args) - unat (cpu_icount c)" and T: "unat (ra_target_icount args) \<le> 2 ^ 63"
    and inv: "cpu_inv c" "cpu_inv c1" and r: "follows k args interrupted c1 (compared + of_nat (crossed c c1)) r"
  shows "follows k args interrupted c compared r"
proof -
  let ?T = "unat (ra_target_icount args)"
  from r obtain i m' c' st where f: "r = Some (i, Ok (), st)" "run_steps m' c1 = (Ok None, c')" "m' \<le> ?T - unat (cpu_icount c1)" "run_at k st c'"
    "loop_ends args interrupted i st c'"
    "rs_compared st = compared + of_nat (crossed c c1) + of_nat (crossed c1 c' + of_bool (rs_halted_reason st \<noteq> '''' \<and> at_cadence c'))"
    unfolding follows_def by blast
  have c1: "unat (cpu_icount c1) = unat (cpu_icount c) + m"
  proof (cases "m = 0")
    case False
    then show ?thesis using run_steps_icount [OF inv(1) s(1)] s(2) T by (simp add: unat_word_ariths unat_of_nat)
  qed (use s(1) in simp)
  have "unat (cpu_icount c') = unat (cpu_icount c1) + m'"
  proof (cases "m' = 0")
    case False
    then show ?thesis using run_steps_icount [OF inv(2) f(2)] f(3) T by (simp add: unat_word_ariths unat_of_nat)
  qed (use f(2) in simp)
  then have x: "crossed c c' = crossed c c1 + crossed c1 c'" using c1 div_le_mono [of "unat (cpu_icount c)" "unat (cpu_icount c1)" 4096]
      div_le_mono [of "unat (cpu_icount c1)" "unat (cpu_icount c')" 4096] by simp
  have "run_steps (m + m') c = (Ok None, c')" using run_steps_add [OF s(1)] f(2) by simp
  moreover have "m + m' \<le> ?T - unat (cpu_icount c)" using f(3) c1 s(2) by simp
  moreover have "rs_compared st = compared + of_nat (crossed c c' + of_bool (rs_halted_reason st \<noteq> '''' \<and> at_cadence c'))"
    unfolding x f(6) by (simp add: add.assoc)
  ultimately show ?thesis unfolding follows_def using f(1,4,5) by blast
qed

lemma run_loop_follows:
  assumes "run_at k st c" "traced dg file (unat (ra_target_icount args) - unat (cpu_icount c)) c" "digest_law dg"
    "display_free (unat (ra_target_icount args) - unat (cpu_icount c)) c" "unat (ra_target_icount args) \<le> 2 ^ 63" "0 < ra_k args"
    "rs_halted_reason st = ''''" "unat (rs_batch_id st) + (unat (ra_target_icount args) - unat (cpu_icount c)) < 2 ^ 32"
  shows "follows k args interrupted c (rs_compared st) (run_loop (server_hash dg) file (\<lambda>_ d. d) k args interrupted n st)"
  using assms
proof (induction "unat (ra_target_icount args) - unat (cpu_icount c)" arbitrary: c st n rule: less_induct)
  case less
  let ?T = "ra_target_icount args" let ?run = "\<lambda>n st. run_loop (server_hash dg) file (\<lambda>_ d. d) k args interrupted n st"
  have ic: "rs_icount st = cpu_icount c" using less.prems(1) by (simp add: run_at_def)
  have inv: "cpu_inv c" using less.prems(1) by (auto simp: run_at_def stands_for_def captures_def)
  show ?case
  proof (cases "interrupted n \<or> ?T \<le> rs_icount st")
    case True
    then have "?run n st = Some (Suc n, Ok (), if interrupted n then st else st\<lparr>rs_reached_target := True\<rparr>)" by (subst run_loop.simps) auto
    then show ?thesis using True less.prems(1,7) unfolding follows_def
      by (intro exI [of _ "Suc n"] exI [of _ 0] exI [of _ c] exI [of _ "if interrupted n then st else st\<lparr>rs_reached_target := True\<rparr>"])
        (auto simp: loop_ends_def run_at_def)
  next
    case False
    then have lt: "rs_icount st < ?T" by (simp add: not_le)
    let ?n = "unat (step_k (ra_k args) ?T (rs_icount st))"
    note sk = step_k_bounds [OF lt less.prems(5,6), unfolded ic]
    have tr: "traced dg file ?n c" using less.prems(2) sk(2) by (fastforce simp: traced_def ic)
    have df: "display_free ?n c" by (rule display_free_mono [OF less.prems(4)]) (use sk(2) ic in simp)
    have w: "unat (cpu_icount c) + ?n < 2 ^ 64" "unat (rs_batch_id st) + 1 < 2 ^ 32"
      using sk less.prems(5,8) lt unfolding ic word_less_nat_alt by auto
    obtain m c1 leave st1 where b: "run_body (server_hash dg) file (\<lambda>_ d. d) k args st = (Ok leave, st1)" "m \<le> ?n" "run_steps m c = (Ok None, c1)"
      "run_at k st1 c1" "rs_batch_id st1 = rs_batch_id st + 1" "round_ends args st leave st1 c1" "0 < m \<or> leave" "rs_halted_reason st1 \<noteq> '''' \<longrightarrow> m < ?n"
      "rs_compared st1 = rs_compared st + of_nat (crossed c c1 + of_bool (rs_halted_reason st1 \<noteq> '''' \<and> at_cadence c1))"
      using run_body_sim [OF less.prems(1) tr less.prems(3) refl _ df w less.prems(7)] sk(1) ic by auto
    have m: "m \<le> unat ?T - unat (cpu_icount c)" using b(2) sk(2) ic by simp
    have ic1: "unat (cpu_icount c1) = unat (cpu_icount c) + m"
      using run_steps_icount [OF inv b(3)] b(2) w(1) by (simp add: unat_word_ariths unat_of_nat)
    show ?thesis
    proof (cases leave)
      case True
      then have "?run n st = Some (Suc n, Ok (), st1)" using False b(1) by (subst run_loop.simps) simp
      moreover have "rs_icount st1 < ?T" if "rs_halted_reason st1 \<noteq> ''''"
        using that b(4,8) sk(2) ic1 ic by (simp add: run_at_def word_less_nat_alt)
      then have "loop_ends args interrupted (Suc n) st1 c1" using b(6) True by (auto simp: loop_ends_def round_ends_def)
      ultimately show ?thesis unfolding follows_def using b(3,4,9) m by blast
    next
      case go: False
      have e: "?run n st = ?run (Suc n) st1" using False b(1) go by (subst run_loop.simps) simp
      have h: "rs_halted_reason st1 = ''''" using b(6) go by (auto simp: round_ends_def split: if_splits)
      have inv1: "cpu_inv c1" using b(4) by (auto simp: run_at_def stands_for_def captures_def)
      let ?l = "unat ?T - unat (cpu_icount c1)"
      have l: "?l < unat ?T - unat (cpu_icount c)" "?l = unat ?T - unat (cpu_icount c) - m" using b(7) go m ic1 by auto
      have "unat (rs_batch_id st1) + ?l < 2 ^ 32" using less.prems(8) l b(5,7) w(2) m go by (simp add: unat_word_ariths)
      moreover have "traced dg file ?l c1" unfolding l(2) by (rule traced_later [OF less.prems(2) b(3) m])
      moreover have "display_free ?l c1" unfolding l(2) by (rule display_free_add [OF b(3)]) (simp only: le_add_diff_inverse [OF m] less.prems(4))
      ultimately have "follows k args interrupted c1 (rs_compared st1) (?run (Suc n) st1)"
        using less.hyps [OF l(1) b(4) _ less.prems(3) _ less.prems(5,6) h] by blast
      then show ?thesis unfolding e using follows_later [OF b(3) m less.prems(5) inv inv1] b(9) h by simp
    qed
  qed
qed

section \<open>Resuming\<close>

text \<open>What \<open>stands_for\<close> looks at: duplicates of rows and their order are not among it.\<close>

definition same_reading :: "database \<Rightarrow> database \<Rightarrow> bool" where
  "same_reading d e \<longleftrightarrow> latest_by bc_batch_id (t_batch_commit d) = latest_by bc_batch_id (t_batch_commit e) \<and>
     latest_by cs_batch_id (t_cpu_state d) = latest_by cs_batch_id (t_cpu_state e) \<and>
     final_rows wr_addr wr_version (t_ram d) = final_rows wr_addr wr_version (t_ram e) \<and> set (t_ram d) = set (t_ram e) \<and>
     word_value (t_framebuffer d) = word_value (t_framebuffer e) \<and> set (t_framebuffer d) = set (t_framebuffer e) \<and>
     word_value (t_palette d) = word_value (t_palette e) \<and> set (t_palette d) = set (t_palette e) \<and>
     final_rows co_seq unversioned (t_console_out d) = final_rows co_seq unversioned (t_console_out e) \<and>
     set (t_console_out d) = set (t_console_out e) \<and>
     t_input_queue d = t_input_queue e \<and> t_decoded d = t_decoded e"

lemma stands_for_reading: "same_reading d e \<Longrightarrow> stands_for k d c \<longleftrightarrow> stands_for k e c"
  by (simp add: same_reading_def stands_for_def decode_with_def dense_ram_def)

lemma word_value_redo: "word_value (xs @ ys @ ys) = word_value (xs @ ys)"
  by (simp add: fun_eq_iff word_value_def final_row_redo)

lemma recover_reading: "same_reading (run_all (recover b) (run_all (take n (recover b)) d)) (run_all (recover b) d)"
proof -
  have "n = 0 \<or> n = 1 \<or> n = 2 \<or> n = 3 \<or> n = 4 \<or> n = 5 \<or> 6 \<le> n" by linarith
  then show ?thesis
    by (elim disjE)
      (simp_all add: recover_def flush_def run_all_def statements same_reading_def final_rows_redo word_value_redo latest_by_redo numeral_eq_Suc Un_ac)
qed

lemma resume_stands:
  assumes d: "stands_for k d c" "latest_by bc_batch_id (t_batch_commit d) = Some p"
    and "display_free n c" "unat (cpu_icount c) + n < 2 ^ 64" "n < 2 ^ 32" "unat (bc_batch_id p) + 1 < 2 ^ 32"
  shows "\<exists>d1 p' m c'. batch v k n d = Some d1 \<and> latest_by bc_batch_id (t_batch_commit d1) = Some p' \<and> m \<le> n \<and> run_steps m c = (Ok None, c') \<and>
    (\<forall>j. stands_for k (run_all (recover (bc_batch_id p')) (run_all (take j (recover (bc_batch_id p'))) d1)) c')"
proof -
  from turn_sim [OF assms, of v] obtain d' p' m c' where t: "turn v k n d = Some d'" "m \<le> n" "run_steps m c = (Ok None, c')" "stands_for k d' c'"
    "latest_by bc_batch_id (t_batch_commit d') = Some p'" by blast
  obtain d1 where d1: "batch v k n d = Some d1" "latest_by bc_batch_id (t_batch_commit d1) = Some p'"
    "d' = retention (bc_batch_id p') BATCH_COMMIT_RETENTION_N (run_all (flush (bc_batch_id p')) d1)"
    by (rule turn_parts [OF d(2) assms(6) t(1,5)])
  have "same_reading (run_all (recover (bc_batch_id p')) d1) d'"
    using d1(2) t(5) unfolding d1(3) by (simp add: same_reading_def recover_def flush_def run_all_def retention_def statements)
  then have "stands_for k (run_all (recover (bc_batch_id p')) (run_all (take j (recover (bc_batch_id p'))) d1)) c'" for j
    using t(4) stands_for_reading recover_reading by blast
  then show ?thesis using t(2,3) d1(1,2) by blast
qed

end
