(* ===== verification/Sql_Properties.thy ===== *)
theory Sql_Properties
  imports Sql_Checkpoint
begin

text \<open>
  What the machine in the database promises: its decoded table is the decoder's, every variant of its step is one
  step, its batches and its loop are runs of the reference machine, and the checkpoint lines it writes are the lines
  of the reference trace.
\<close>

section \<open>The decoded table\<close>

text \<open>
  C10: the decode pass agrees with the reference decoder.  It leaves one row per word of the text window, in address
  order and with every column what the decoded instruction asks for: the dispatch number, the registers, the immediate,
  the branch target, the access mask and sign flag, the flags of products, quotients and comparisons, whether the target
  is misaligned, and the raw word.  This holds for every word, also for those that halt: an environment call, a breakpoint
  or a CSR instruction keeps its registers, and a word that is no instruction the operands of its opcode's format.  No
  other table changes.
\<close>

theorem decode_table_agrees:
  "decode_pass text_start_word text_end_word d = d\<lparr>t_decoded := map (\<lambda>r. table_row (wr_addr r) (wr_value r))
     (filter (\<lambda>r. text_start_word \<le> wr_addr r \<and> wr_addr r < text_end_word) (final_rows wr_addr wr_version (t_ram d)))\<rparr>"
  by (simp add: decode_pass_def decoded_columns_exact)

section \<open>The variants\<close>

lemma sql_mk_values: "sql_mk w \<in> {0, 255, 65535, 4294967295}"
  by (auto simp: sql_mk_def Let_def)

lemma align_mask_variant: "mk \<in> {0, 255, 65535, 4294967295} \<Longrightarrow> sq_align_mask v mk = sq_align_mask Baseline mk"
  by (auto simp: sq_align_mask_def)


text \<open>A batch's rows: decoded words, or the default row past the end of the table.\<close>

definition decoded_rows :: "fold_tables \<Rightarrow> bool" where
  "decoded_rows t \<longleftrightarrow> (\<forall>d \<in> set (DEC t). \<exists>waddr w. d = decode_row waddr w)"

lemma row_mask: "decoded_rows t \<Longrightarrow> d_mk (sq_dec k t a) \<in> {0, 255, 65535, 4294967295}"
proof -
  assume r: "decoded_rows t"
  let ?n = "unat (min (sq_pc_widx k a) (fc_decn k - 1)) + 1"
  show ?thesis
  proof (cases "?n \<le> length (DEC t)")
    case True
    then have "sq_dec k t a \<in> set (DEC t)" by (simp add: sq_dec_def array_element_def)
    then obtain x w where "sq_dec k t a = decode_row x w" using r by (auto simp: decoded_rows_def)
    then show ?thesis using sql_mk_values [of w] by (simp add: decode_row_columns Let_def)
  qed (simp add: sq_dec_def array_element_def no_row_def)
qed

lemma halt_code_bound: "unat (sq_halt_code v k d a) \<le> 8"
proof -
  have c: "unat x \<le> 8 \<Longrightarrow> unat y \<le> 8 \<Longrightarrow> unat (if b then x else y) \<le> 8" for b and x y :: u8 by simp
  show ?thesis unfolding sq_halt_code_def Let_def by (intro c) (simp_all add: halt_codes HALT_NONE_def)
qed

lemma halt_code_variant:
  assumes "ram_cfg k" "0 < unat (widx_get (text_end_widx k))" "d_mk d \<in> {0, 255, 65535, 4294967295}"
  shows "sq_halt_code v k d a = sq_halt_code Baseline k d a"
proof -
  let ?e = "widx_get (text_end_widx k)"
  have one: "unat (?e - 1) = unat ?e - 1" using assms(2) by (intro unat_minus_one) auto
  have u: "sq_text_upper v k x = sq_text_upper Baseline k x" for x
    using assms(2) one by (auto simp: sq_text_upper_def word_le_nat_alt word_less_nat_alt)
  have m: "sq_misaligned v x (d_mk d) = sq_misaligned Baseline x (d_mk d)" for x
    by (simp add: sq_misaligned_def align_mask_variant [OF assms(3), of v])
  have b: "sq_bad_addr v k d x = sq_bad_addr Baseline k d x" for x
    by (simp only: sq_bad_addr_def is_mmio_iff outside_ram_iff [OF assms(1)])
  have s: "sq_is_mmio v x = sq_is_mmio Baseline x" "sq_is_mmio_store v d x = sq_is_mmio_store Baseline d x" "mmio_is v x y = mmio_is Baseline x y"
    "sq_jalr_target v x = sq_jalr_target Baseline x" for x y
    by (simp_all only: sq_is_mmio_store_def is_mmio_iff mmio_is_iff jalr_target_iff)
  show ?thesis unfolding sq_halt_code_def Let_def u m b s by (rule refl)
qed

lemma halt_extra_variant: "unat hc \<le> 8 \<Longrightarrow> sq_halt_extra v k d a hc = sq_halt_extra Baseline k d a hc"
  using added_dead [of hc] by (simp add: sq_halt_extra_def Let_def jalr_target_iff)

lemma fold_step_variant:
  assumes "ram_cfg k" "0 < unat (widx_get (text_end_widx k))" "decoded_rows t"
  shows "fold_step v k t a i = fold_step Baseline k t a i"
proof -
  let ?d = "sq_dec k t a"
  note hc = halt_code_variant [OF assms(1,2) row_mask [OF assms(3)], of v]
  have x: "sq_halt_extra v k ?d a (sq_halt_code Baseline k ?d a) = sq_halt_extra Baseline k ?d a (sq_halt_code Baseline k ?d a)"
    by (rule halt_extra_variant [OF halt_code_bound])
  have l: "sq_loadv v k t ?d a y = sq_loadv Baseline k t ?d a y" for y
    by (simp only: sq_loadv_def sq_mmio_read_def is_mmio_iff mmio_is_iff)
  have s: "sq_is_mmio_store v ?d y = sq_is_mmio_store Baseline ?d y" "sq_is_mmio_load v ?d y = sq_is_mmio_load Baseline ?d y"
    "mmio_is v y z = mmio_is Baseline y z" "sq_jalr_target v y = sq_jalr_target Baseline y"
    "sq_retiring_store v ?d y u = sq_retiring_store Baseline ?d y u" for y z u
    by (simp_all only: sq_is_mmio_store_def sq_is_mmio_load_def sq_retiring_store_def is_mmio_iff mmio_is_iff jalr_target_iff)
  show ?thesis unfolding fold_step_def Let_def hc x l s by (rule refl)
qed


section \<open>A small machine and its tables\<close>

text \<open>Two words of text, \<open>addi x1, x0, 65\<close> and \<open>ecall\<close>, at the base of RAM, and nothing else.\<close>

definition cfg_two :: fold_cfg where
  "cfg_two = \<lparr> text_start_widx = Widx 0, text_end_widx = Widx 2, fc_decn = 2, fc_ram_words = 2, fc_ram_base = RAM_BASE,
     fc_hwm = 10, fc_ipms = 10000 \<rparr>"

definition tables_two :: fold_tables where
  "tables_two = \<lparr> RAMT = [0x04100093, 0x73], DEC = [decode_row 0x20000000 0x04100093, decode_row 0x20000001 0x73], KEYQT = [] \<rparr>"

definition registers_two :: registers where
  "registers_two = \<lparr> ipms = 10000, key_queue = [], console = [], frame_commits = [] \<rparr>"

definition mem_two :: memory where
  "mem_two = (memory_new (sql_map cfg_two) (Registers registers_two))
     \<lparr>ram := [0x93, 0x00, 0x10, 0x04, 0x73, 0x00, 0x00, 0x00], text_region := Some (0x80000000, 0x80000008)\<rparr>"

definition cpu_two :: cpu where
  "cpu_two = cpu_new mem_two 0x80000000"

lemma mem_two: "mem_map mem_two = sql_map cfg_two" "text_region mem_two = Some (0x80000000, 0x80000008)"
  "ram mem_two = [0x93, 0x00, 0x10, 0x04, 0x73, 0x00, 0x00, 0x00]" "devices mem_two = Registers registers_two" "mem_wf mem_two"
  by (simp_all add: mem_two_def memory_new_def registers_two_def mem_wf_def sql_map_def with_ram_size_def map_clickdoom_def cfg_two_def map_constants)

lemma tables_two_ok: "tables_ok cfg_two tables_two"
proof -
  have "DEC tables_two ! i = decode_row (word_addr_get word_addr_ram_base + of_nat i) (RAMT tables_two ! i)" if "i < 2" for i
    using less_2_cases [OF that] by (auto simp: tables_two_def word_addr_ram_base_def map_constants)
  then show ?thesis by (simp add: tables_ok_def cfg_two_def ram_cfg_def) (simp add: tables_two_def)
qed

lemma captures_two: "captures cfg_two tables_two 0 cpu_two"
proof -
  have "cpu_inv cpu_two" unfolding cpu_two_def by (intro wf_intros mem_two(5))
  moreover have "word_at (ram mem_two) j = RAMT tables_two ! j" if "j < 2" for j
    using less_2_cases [OF that] by (auto simp: mem_two(3) tables_two_def word_at_def)
  ultimately show ?thesis
    by (simp add: captures_def cpu_two_def cpu_new_def mem_two aligned4_def)
      (simp add: cfg_two_def map_constants tables_two_def registers_two_def)
qed

definition cpu_two_next :: cpu where
  "cpu_two_next = cpu_two\<lparr>cpu_regs := (replicate 32 0)[1 := 65, 0 := 0], cpu_icount := 1, cpu_pc := 0x80000004\<rparr>"

lemma runs_two:
  shows step_two: "step cpu_two = (Ok (), cpu_two_next)"
    and halt_two: "step cpu_two_next = (Err (halt_with_insn halt_reason.Ecall 0x80000004 0x73), cpu_two_next)"
    and display_free_two: "display_free 3 cpu_two"
proof -
  note ram = mem_two(3)
  have cl: "classify (mem_map mem_two) 0x80000000 4 = Some (Ram, 0)" "classify (mem_map mem_two) 0x80000004 4 = Some (Ram, 4)"
    by (simp_all add: mem_two classify_def sql_map_def with_ram_size_def map_clickdoom_def cfg_two_def map_constants)
  have rd: "mem_read mem_two 0x80000000 4 ic = (Ok 0x04100093, mem_two)" "mem_read mem_two 0x80000004 4 ic = (Ok 0x73, mem_two)" for ic
    by (simp_all add: mem_read_def check_align_def cl read_le_def Let_def ram)
  have f: "fetch cpu_two = (Ok (0x04100093, decode 0x04100093), cpu_two)"
    by (simp add: fetch_def cpu_two_def cpu_new_def rd)
  have d: "i_op (decode 0x04100093) = Addi" "i_rd (decode 0x04100093) = 1" "i_rs1 (decode 0x04100093) = 0" "i_imm (decode 0x04100093) = 65"
    "i_op (decode 0x73) = op.Ecall" by code_simp+
  show s: "step cpu_two = (Ok (), cpu_two_next)"
    using f unfolding cpu_two_next_def by (simp add: step_def step_reporting_def Let_def outside_text_def d execute_def) (simp add: cpu_two_def cpu_new_def mem_two retire_def set_reg_def reg_def)
  have f2: "fetch cpu_two_next = (Ok (0x73, decode 0x73), cpu_two_next)"
    by (simp add: fetch_def cpu_two_next_def cpu_two_def cpu_new_def rd)
  show s2: "step cpu_two_next = (Err (halt_with_insn halt_reason.Ecall 0x80000004 0x73), cpu_two_next)"
    using f2 by (simp add: step_def step_reporting_def Let_def outside_text_def d execute_def) (simp add: cpu_two_next_def cpu_two_def cpu_new_def mem_two)
  show "display_free 3 cpu_two" by (simp add: numeral_3_eq_3 s s2 reads_display_def f f2 d)
qed

text \<open>
  C9: every variant of the step the executor can build computes the same batch: the restructured bindings, the
  tests written with fewer constants and the sixty dead comparisons change the text of the statement and not one
  field of the accumulator.
\<close>

theorem variants_agree:
  assumes "ram_cfg k" "0 < unat (widx_get (text_end_widx k))" "decoded_rows t"
  shows "array_fold v k t n a = array_fold w k t n a"
proof -
  have "fold_step v k t = fold_step w k t"
    using fold_step_variant [OF assms, of v] fold_step_variant [OF assms, of w] by (simp add: fun_eq_iff)
  then show ?thesis by (simp add: array_fold_def)
qed

theorem variants_agree_witness: "array_fold FewerConstants cfg_two tables_two 3 (start_acc 0 cpu_two) = array_fold MoreConstants cfg_two tables_two 3 (start_acc 0 cpu_two)"
proof -
  have "ram_cfg cfg_two" "0 < unat (widx_get (text_end_widx cfg_two))" "decoded_rows tables_two"
    using tables_two_ok by (auto simp: tables_ok_def decoded_rows_def tables_two_def)
  then show ?thesis by (rule variants_agree)
qed

section \<open>The batch\<close>

text \<open>
  C8: a batch of the fold is a run of the reference machine.  From tables that hold the machine's RAM, its decoded
  text and its key queue, the fold of \<open>n\<close> steps ends where the machine is after some number \<open>m\<close> of steps: same program
  counter, registers and instruction count, the write logs over the captured tables are its RAM, framebuffer and
  palette, and the console and the frame commit are the machine's.  A batch that did not stop took all \<open>n\<close>; one that
  halted stands at the instruction the machine halts on, with its reason, address or exit code; any other stop follows
  a committed frame or a full write log.  The checkpoints it recorded are the machines at the cadence.
\<close>

theorem batch_refines:
  assumes "tables_ok k t" "captures k t q c" "display_free n c" "b = array_fold v k t n (start_acc q c)"
  shows "\<exists>m c'. m \<le> n \<and> run_steps m c = (Ok None, c') \<and> sim k t (cpu_memory c) b c' \<and> batch_outcome k n m c' b \<and>
    records (start_acc q c) (due 0 (m + unat (acc_halted b)) c) b"
proof -
  have "acc_stopped (start_acc q c) = 0" "acc_frame_committed (start_acc q c) = 0" "acc_halted (start_acc q c) = 0"
    by (simp_all add: start_acc_def init_acc_def)
  from fold_sim [OF assms(1) start_sim [OF assms(1,2)] this assms(3), of v 0] show ?thesis
    by (simp add: assms(4) array_fold_def)
qed

theorem batch_refines_witness:
  "\<exists>b m c'. b = array_fold FewerConstants cfg_two tables_two 3 (start_acc 0 cpu_two) \<and> m \<le> 3 \<and>
     run_steps m cpu_two = (Ok None, c') \<and> sim cfg_two tables_two (cpu_memory cpu_two) b c' \<and> batch_outcome cfg_two 3 m c' b"
  using batch_refines [OF tables_two_ok captures_two display_free_two refl] by blast

text \<open>
  a batch makes progress.  With at least one step to take, it retires an instruction or records a halt: no batch
  leaves the machine where it was without saying why.
\<close>

theorem batch_progress:
  assumes "tables_ok k t" "captures k t q c" "display_free n c" "b = array_fold v k t n (start_acc q c)" "0 < n"
  shows "acc_halted b = 1 \<or> (\<exists>m. 0 < m \<and> m \<le> n \<and> acc_icount b = cpu_icount c + of_nat m)"
proof -
  have i: "cpu_inv c" using assms(2) by (simp add: captures_def)
  have "acc_stopped (start_acc q c) = 0" "acc_frame_committed (start_acc q c) = 0" "acc_halted (start_acc q c) = 0"
    by (simp_all add: start_acc_def init_acc_def)
  from fold_sim [OF assms(1) start_sim [OF assms(1,2)] this assms(3), of v 0] obtain m c' where
    m: "m \<le> n" "run_steps m c = (Ok None, c')" "sim k t (cpu_memory c) b c'" "batch_outcome k n m c' b"
    by (auto simp: assms(4) array_fold_def)
  from m(2) obtain xs where xs: "length xs = m" "retires c xs c'" by (cases rule: run_steps_cases) auto
  have "cpu_icount c' = cpu_icount c + of_nat m" using retires_count [OF xs(2) i] xs(1) by simp
  moreover have "acc_icount b = cpu_icount c'" using m(3) by (simp add: sim_def)
  ultimately show ?thesis using m(1,4) assms(5) by (auto simp: batch_outcome_def split: if_splits)
qed

theorem batch_progress_witness:
  "\<exists>b. b = array_fold Baseline cfg_two tables_two 3 (start_acc 0 cpu_two) \<and>
     (acc_halted b = 1 \<or> (\<exists>m. 0 < m \<and> m \<le> 3 \<and> acc_icount b = cpu_icount cpu_two + of_nat m))"
  using batch_progress [OF tables_two_ok captures_two display_free_two refl, of Baseline] by simp


section \<open>The loop\<close>

text \<open>The tables of the small machine: its two words loaded and decoded, the reset row committed and flushed.\<close>

definition db_two :: database where
  "db_two = \<lparr> t_batch_commit = [reset_row RESET_REGS], t_cpu_state = [cpu_state_of (reset_row RESET_REGS)],
     t_ram = [\<lparr> wr_addr = 0x20000000, wr_value = 0x04100093, wr_version = 0 \<rparr>, \<lparr> wr_addr = 0x20000001, wr_value = 0x73, wr_version = 0 \<rparr>],
     t_framebuffer = [], t_palette = [], t_input_queue = [], t_frames_out = [], t_console_out = [],
     t_decoded = [decoded_columns 0x20000000 0x04100093, decoded_columns 0x20000001 0x73] \<rparr>"

lemma word_at_zeros: "4 * j + 4 \<le> n \<Longrightarrow> word_at (replicate n 0) j = 0"
  by (simp add: word_at_def numeral_eq_Suc min_def)

lemma stands_for_two: "stands_for cfg_two db_two cpu_two"
proof -
  have t: "decode_with db_two = tables_two"
    by (simp add: decode_with_def db_two_def tables_two_def final_rows_def map_filter_simps)
  have z: "bc_pc (reset_row RESET_REGS) = cpu_pc cpu_two" "bc_regs (reset_row RESET_REGS) = tl (cpu_regs cpu_two)" "bc_icount (reset_row RESET_REGS) = cpu_icount cpu_two"
    "bc_keyq_pos (reset_row RESET_REGS) = 0"
    by (simp_all add: reset_row_def RESET_REGS_def cpu_two_def cpu_new_def map_constants)
  have "unat (fc_ram_words cfg_two) = 2" "{..<2 :: nat} = {0, 1}" by (auto simp: cfg_two_def)
  then have dr: "dense_ram cfg_two (t_ram db_two)" by (auto simp: dense_ram_def db_two_def)
  have fb: "word_at (framebuffer (cpu_memory cpu_two)) j = 0" if "j < 16000" for j
    using word_at_zeros [of j 64000] that
    by (simp add: cpu_two_def cpu_new_def mem_two_def memory_new_def sql_map_def with_ram_size_def map_clickdoom_def map_constants)
  have pal: "word_at (palette (cpu_memory cpu_two)) j = 0" if "j < 192" for j
    using word_at_zeros [of j 768] that
    by (simp add: cpu_two_def cpu_new_def mem_two_def memory_new_def sql_map_def with_ram_size_def map_clickdoom_def map_constants)
  have dv: "devices (cpu_memory cpu_two) = Registers registers_two" by (simp add: cpu_two_def cpu_new_def mem_two)
  show ?thesis
    unfolding stands_for_def t
    using z dr fb pal dv tables_two_ok captures_two
    by (intro exI [of _ "reset_row RESET_REGS"] exI [of _ registers_two])
      (simp add: db_two_def word_value_def final_rows_def map_filter_simps registers_two_def cpu_two_def cpu_new_def)
qed

text \<open>
  a run of the loop is a run of the reference machine.  From tables that stand for a machine, any sequence of
  batches with their flushes and retention succeeds and leaves tables that stand for the machine some number of steps
  later, no more than the batches asked for: registers, counters, every word of RAM, framebuffer and palette, and the
  whole console.
\<close>

theorem loop_refines:
  assumes "stands_for k d c" "latest_by bc_batch_id (t_batch_commit d) = Some p" "display_free (sum_list ns) c"
    "unat (cpu_icount c) + sum_list ns < 2 ^ 64" "\<forall>n \<in> set ns. n < 2 ^ 32" "unat (bc_batch_id p) + length ns < 2 ^ 32"
  shows "\<exists>d' m c'. turns v k ns d = Some d' \<and> m \<le> sum_list ns \<and> run_steps m c = (Ok None, c') \<and> stands_for k d' c'"
  by (rule turns_sim [OF assms])

theorem loop_refines_witness:
  "\<exists>d' m c'. turns Baseline cfg_two [2, 1] db_two = Some d' \<and> m \<le> 3 \<and> run_steps m cpu_two = (Ok None, c') \<and> stands_for cfg_two d' c'"
proof -
  have l: "latest_by bc_batch_id (t_batch_commit db_two) = Some (reset_row RESET_REGS)" by (simp add: db_two_def)
  have "display_free (sum_list [2, 1]) cpu_two" using display_free_two by simp
  from loop_refines [OF stands_for_two l this, of Baseline] show ?thesis
    by (simp add: reset_row_def cpu_two_def cpu_new_def)
qed

text \<open>
  C7: the database writes the reference trace.  After a batch and its flushes, the lines it reads back are the lines of
  the reference emulator, byte for byte: the batch's recorded checkpoints are the lines of the machines the cadence
  falls on, and the line of the committed row is the machine's own, with and without the memory hashes.
\<close>

theorem lines_are_the_trace:
  assumes "stands_for k d c" "latest_by bc_batch_id (t_batch_commit d) = Some p" "display_free n c"
    "unat (cpu_icount c) + n < 2 ^ 64" "n < 2 ^ 32" "unat (bc_batch_id p) + 1 < 2 ^ 32" "digest_law dg"
  shows "\<exists>d' p' m c'. turn v k n d = Some d' \<and> latest_by bc_batch_id (t_batch_commit d') = Some p' \<and> m \<le> n \<and> run_steps m c = (Ok None, c') \<and>
    batch_checkpoints_sql (server_hash dg) (bc_batch_id p') d' =
      map (\<lambda>x. checkpoint_display (checkpoint_of dg x False)) (due 0 (m + unat (bc_halted p')) c) \<and>
    reg_checkpoint_sql (server_hash dg) d' = Some (checkpoint_display (checkpoint_of dg c' False)) \<and>
    checkpoint_sql (server_hash dg) d' = Some (checkpoint_display (checkpoint_of dg c' True))"
proof -
  obtain d' p' m c' a where t: "turn v k n d = Some d'" "m \<le> n" "run_steps m c = (Ok None, c')" "stands_for k d' c'"
    "latest_by bc_batch_id (t_batch_commit d') = Some p'" "batch_rows d' (bc_batch_id p') = [p']" "p' = commit_row (bc_batch_id p + 1) a"
    "records (start_acc (ucast (bc_keyq_pos p)) c) (due 0 (m + unat (acc_halted a)) c) a" "row_outcome n m c' p'"
    using turn_sim [OF assms(1-6), of v] by blast
  have h: "bc_halted p' = acc_halted a" by (simp add: t(7) commit_row_def)
  have inv: "cpu_inv c" using assms(1) by (auto simp: stands_for_def captures_def)
  have "m + unat (acc_halted a) \<le> n" using t(2,9) unfolding h [symmetric] by (auto simp: row_outcome_def split: if_splits)
  then have "unat (cpu_icount c) + (m + unat (acc_halted a)) < 2 ^ 64" using assms(4) by simp
  note f = due_facts [OF inv this, of 0]
  have rows: "batch_rows d' (bc_batch_id p') = [commit_row (bc_batch_id p + 1) a]" using t(6,7) by simp
  have "batch_checkpoints_sql (server_hash dg) (bc_batch_id p') d' = map (\<lambda>x. checkpoint_display (checkpoint_of dg x False)) (due 0 (m + unat (bc_halted p')) c)"
    unfolding h by (rule batch_lines_agree [OF rows t(8)]) (use f in auto)
  then show ?thesis using t(1,2,3,5) lines_agree [OF t(4) assms(7)] by blast
qed

lemma digest_small_law: "digest_law digest_small"
  by (simp add: digest_law_def digest_small_def)

theorem lines_are_the_trace_witness:
  "\<exists>d' p' m c'. turn Baseline cfg_two 3 db_two = Some d' \<and> latest_by bc_batch_id (t_batch_commit d') = Some p' \<and> m \<le> 3 \<and> run_steps m cpu_two = (Ok None, c') \<and>
    reg_checkpoint_sql (server_hash digest_small) d' = Some (checkpoint_display (checkpoint_of digest_small c' False))"
proof -
  have l: "latest_by bc_batch_id (t_batch_commit db_two) = Some (reset_row RESET_REGS)" by (simp add: db_two_def)
  from lines_are_the_trace [OF stands_for_two l display_free_two _ _ _ digest_small_law, of Baseline] show ?thesis
    by (auto simp: reset_row_def cpu_two_def cpu_new_def)
qed

end
