(* ===== verification/Emu_Properties.thy ===== *)
theory Emu_Properties
  imports Emu_Run Sql_Properties
begin

text \<open>
  What the runner of the database machine delivers: it agrees with the reference trace at every boundary, it reaches
  its target, and it resumes after a crash.
\<close>

section \<open>The end of a run\<close>

lemma crossed_word:
  assumes "unat (cpu_icount c) \<le> unat (cpu_icount c')"
  shows "cpu_icount c' div CHECKPOINT_INTERVAL - cpu_icount c div CHECKPOINT_INTERVAL = of_nat (crossed c c')"
proof -
  have "x div CHECKPOINT_INTERVAL = of_nat (unat x div 4096)" for x :: u64 by (simp add: word_arith_nat_div CHECKPOINT_INTERVAL_def)
  then show ?thesis using div_le_mono [OF assms, of 4096] by (simp add: of_nat_diff)
qed

text \<open>
  The verdict of a run that stopped with the machine at \<open>c'\<close>.  A clean one compared every boundary between resume and
  stop; an error is a gap in the frames, the machine's own halt short of the target, or, when that halt is on a
  boundary, the count that then is one too many.
\<close>

definition verdict :: "run_args \<Rightarrow> cpu \<Rightarrow> cpu \<Rightarrow> (run_result, run_error) rresult \<Rightarrow> bool" where
  "verdict args c c' r = (case r of
     Ok out \<Rightarrow> ro_final_icount out = cpu_icount c' \<and> ro_reg_checkpoints_compared out = of_nat (crossed c c') \<and>
       (ro_stop out = Interrupted \<or> ro_stop out = ReachedTarget \<and> (ra_target_icount args \<le> cpu_icount c' \<or> ra_stop_at_frame args \<noteq> None))
   | Err e \<Rightarrow> (\<exists>rows distinct lowest highest. e = FramesOutGap rows distinct lowest highest) \<or>
       (\<exists>h. step c' = (Err h, c') \<and> cpu_icount c' < ra_target_icount args \<and>
         (e = FatalHalt (halt_as_str (h_reason h)) (cpu_icount c') (ra_target_icount args) \<or>
          at_cadence c' \<and> e = CheckpointCountShortfall (of_nat (crossed c c') + 1) (of_nat (crossed c c')) (cpu_icount c) (cpu_icount c')))
   | Panic \<Rightarrow> False)"

lemma finish_verdict:
  assumes st: "run_at k st c'" "loop_ends args interrupted i st c'" "unat (cpu_icount c) \<le> unat (cpu_icount c')"
    and cmp: "rs_compared st = of_nat (crossed c c' + of_bool (rs_halted_reason st \<noteq> '''' \<and> at_cadence c'))"
    and flag: "interrupted (i - 1) \<Longrightarrow> interrupted i"
  shows "verdict args c c' (run_finish args (interrupted i) (cpu_icount c) st)"
proof -
  have ic: "rs_icount st = cpu_icount c'" using st(1) by (simp add: run_at_def)
  obtain rows distinct lowest highest where f: "frames_out_span (rs_db st) = (rows, distinct, lowest, highest)" by (cases "frames_out_span (rs_db st)") auto
  show ?thesis
  proof (cases "rs_halted_reason st = ''''")
    case True
    then show ?thesis using st(2) cmp flag by (auto simp: run_finish_def verdict_def f Let_def ic crossed_word [OF st(3)] loop_ends_def)
  next
    case False
    then show ?thesis using st(2) cmp by (auto simp: run_finish_def verdict_def f Let_def ic crossed_word [OF st(3)] loop_ends_def)
  qed
qed

lemma run_from_follows:
  assumes "latest_by bc_batch_id (t_batch_commit d) = Some p" "stands_for k (run_all (recover (bc_batch_id p)) d) c"
    "traced dg file (unat (ra_target_icount args) - unat (cpu_icount c)) c" "digest_law dg"
    "display_free (unat (ra_target_icount args) - unat (cpu_icount c)) c" "unat (ra_target_icount args) \<le> 2 ^ 63" "0 < ra_k args"
    "unat (bc_batch_id p) + (unat (ra_target_icount args) - unat (cpu_icount c)) < 2 ^ 32" "\<And>i. interrupted i \<Longrightarrow> interrupted (Suc i)"
  obtains i m c' st where
    "run_from (server_hash dg) file (\<lambda>_ d. d) k args interrupted d = Some (run_finish args (interrupted i) (cpu_icount c) st, rs_db st)"
    "run_steps m c = (Ok None, c')" "m \<le> unat (ra_target_icount args) - unat (cpu_icount c)" "run_at k st c'" "loop_ends args interrupted i st c'"
    "verdict args c c' (run_finish args (interrupted i) (cpu_icount c) st)"
proof -
  let ?d = "run_all (recover (bc_batch_id p)) d"
  let ?st = "\<lparr> rs_db = ?d, rs_icount = bc_icount p, rs_batch_id = bc_batch_id p, rs_halted_reason = '''',
    rs_reached_target = False, rs_frames_observed = 0, rs_batches_run = 0, rs_compared = 0 \<rparr>"
  have l: "latest_by bc_batch_id (t_batch_commit ?d) = Some p" using assms(1) by (simp add: recover_def flush_def run_all_def statements)
  have ic: "bc_icount p = cpu_icount c" using assms(2) l by (auto simp: stands_for_def)
  have inv: "cpu_inv c" using assms(2) by (auto simp: stands_for_def captures_def)
  have "run_at k ?st c" using assms(2) l ic by (simp add: run_at_def)
  from run_loop_follows [OF this assms(3-7), of interrupted 0] assms(8) obtain i m c' st where
    r: "run_loop (server_hash dg) file (\<lambda>_ d. d) k args interrupted 0 ?st = Some (i, Ok (), st)" "run_steps m c = (Ok None, c')"
      "m \<le> unat (ra_target_icount args) - unat (cpu_icount c)" "run_at k st c'" "loop_ends args interrupted i st c'"
      "rs_compared st = of_nat (crossed c c' + of_bool (rs_halted_reason st \<noteq> '''' \<and> at_cadence c'))"
    by (auto simp: follows_def)
  have "unat (cpu_icount c) \<le> unat (cpu_icount c')"
  proof (cases "m = 0")
    case False
    then show ?thesis using run_steps_icount [OF inv r(2)] r(3) assms(6) by (simp add: unat_word_ariths unat_of_nat)
  qed (use r(2) in simp)
  moreover have "interrupted i" if "interrupted (i - 1)" using that assms(9) [of "i - 1"] by (cases i) auto
  ultimately have "verdict args c c' (run_finish args (interrupted i) (cpu_icount c) st)" by (intro finish_verdict [OF r(4,5)] r(6))
  moreover have "run_from (server_hash dg) file (\<lambda>_ d. d) k args interrupted d = Some (run_finish args (interrupted i) (cpu_icount c) st, rs_db st)"
    using r(1) by (simp add: run_from_def assms(1) ic)
  ultimately show ?thesis using that r(2,3,4,5) by blast
qed

section \<open>The runner\<close>

lemma recover_two: "stands_for cfg_two (run_all (recover 0) db_two) cpu_two"
proof -
  have "same_reading (run_all (recover 0) db_two) db_two"
    by (simp add: same_reading_def recover_def flush_def run_all_def statements db_two_def reset_row_def cpu_state_of_def console_rows_def)
  then show ?thesis using stands_for_two stands_for_reading by blast
qed

definition trace_two :: "u8 list option" where
  "trace_two = Some (trace_text (trace_lines digest_small trace_config_default (follow 3 cpu_two)))"

lemma traced_two: "n \<le> 3 \<Longrightarrow> traced digest_small trace_two n cpu_two"
proof -
  have "cpu_inv cpu_two" "cpu_icount cpu_two = 0" using captures_two by (simp_all add: captures_def cpu_two_def cpu_new_def)
  then show "n \<le> 3 \<Longrightarrow> traced digest_small trace_two n cpu_two"
    unfolding traced_def trace_two_def by (intro exI [of _ cpu_two] exI [of _ 0] exI [of _ 3]) simp
qed

text \<open>
  C3: the runner agrees with the reference trace.  Resumed on tables that stand for a machine after recovery, with the
  reference trace of that machine's run as its file, the runner returns, and its tables then stand for the machine
  some steps later, at most at the target.  It never reports a mismatch, a missing or malformed line, or a foreign
  batch.  A clean stop compared every boundary crossed, exactly once; the errors left are a gap in the frames, the
  machine's own halt before the target, and a count that is one too many when that halt is on a boundary.
\<close>

theorem run_agrees:
  assumes "latest_by bc_batch_id (t_batch_commit d) = Some p" "stands_for k (run_all (recover (bc_batch_id p)) d) c"
    "traced dg file (unat (ra_target_icount args) - unat (cpu_icount c)) c" "digest_law dg"
    "display_free (unat (ra_target_icount args) - unat (cpu_icount c)) c" "unat (ra_target_icount args) \<le> 2 ^ 63" "0 < ra_k args"
    "unat (bc_batch_id p) + (unat (ra_target_icount args) - unat (cpu_icount c)) < 2 ^ 32" "\<And>i. interrupted i \<Longrightarrow> interrupted (Suc i)"
  shows "\<exists>r d' m c'. run_from (server_hash dg) file (\<lambda>_ d. d) k args interrupted d = Some (r, d') \<and>
    run_steps m c = (Ok None, c') \<and> m \<le> unat (ra_target_icount args) - unat (cpu_icount c) \<and> stands_for k d' c' \<and> verdict args c c' r"
proof -
  obtain i m c' st where "run_from (server_hash dg) file (\<lambda>_ d. d) k args interrupted d = Some (run_finish args (interrupted i) (cpu_icount c) st, rs_db st)"
    "run_steps m c = (Ok None, c')" "m \<le> unat (ra_target_icount args) - unat (cpu_icount c)" "run_at k st c'"
    "verdict args c c' (run_finish args (interrupted i) (cpu_icount c) st)"
    by (rule run_from_follows [OF assms(1-8), of interrupted]) (use assms(9) in auto)
  then show ?thesis by (auto simp: run_at_def)
qed

theorem run_agrees_witness:
  "\<exists>r d' m c'. run_from (server_hash digest_small) trace_two (\<lambda>_ d. d) cfg_two \<lparr> ra_k = 2, ra_target_icount = 3, ra_stop_at_frame = None \<rparr> (\<lambda>_. False) db_two = Some (r, d') \<and>
    run_steps m cpu_two = (Ok None, c') \<and> stands_for cfg_two d' c' \<and> verdict \<lparr> ra_k = 2, ra_target_icount = 3, ra_stop_at_frame = None \<rparr> cpu_two c' r"
proof -
  let ?args = "\<lparr> ra_k = 2, ra_target_icount = 3, ra_stop_at_frame = None \<rparr>"
  have l: "latest_by bc_batch_id (t_batch_commit db_two) = Some (reset_row RESET_REGS)" "bc_batch_id (reset_row RESET_REGS) = 0"
    by (simp_all add: db_two_def reset_row_def)
  have n: "unat (ra_target_icount ?args) - unat (cpu_icount cpu_two) = 3" by (simp add: cpu_two_def cpu_new_def)
  from run_agrees [OF l(1), unfolded l(2), OF recover_two, of digest_small trace_two ?args "\<lambda>_. False", unfolded n, OF traced_two [OF order_refl] digest_small_law display_free_two]
  show ?thesis by (simp add: reset_row_def) blast
qed

text \<open>
  C4: the runner reaches its target.  If the machine retires every instruction up to the target, and nobody interrupts
  the run or asks for a frame, the runner stops with the tables standing for exactly that machine, at the target's
  count, with every boundary on the way compared; only a gap in the frame numbers can make it report an error.
\<close>

theorem run_reaches_target:
  assumes "latest_by bc_batch_id (t_batch_commit d) = Some p" "stands_for k (run_all (recover (bc_batch_id p)) d) c"
    "traced dg file (unat (ra_target_icount args) - unat (cpu_icount c)) c" "digest_law dg"
    "display_free (unat (ra_target_icount args) - unat (cpu_icount c)) c" "unat (ra_target_icount args) \<le> 2 ^ 63" "0 < ra_k args"
    "unat (bc_batch_id p) + (unat (ra_target_icount args) - unat (cpu_icount c)) < 2 ^ 32"
    and go: "run_steps (unat (ra_target_icount args) - unat (cpu_icount c)) c = (Ok None, c')" "ra_stop_at_frame args = None"
  shows "\<exists>r d'. run_from (server_hash dg) file (\<lambda>_ d. d) k args (\<lambda>_. False) d = Some (r, d') \<and> stands_for k d' c' \<and>
    (case r of Ok out \<Rightarrow> ro_stop out = ReachedTarget \<and> ro_final_icount out = cpu_icount c' \<and> ro_reg_checkpoints_compared out = of_nat (crossed c c')
     | Err e \<Rightarrow> \<exists>rows distinct lowest highest. e = FramesOutGap rows distinct lowest highest | Panic \<Rightarrow> False)"
proof -
  let ?n = "unat (ra_target_icount args) - unat (cpu_icount c)"
  obtain i m x st where r: "run_from (server_hash dg) file (\<lambda>_ d. d) k args (\<lambda>_. False) d = Some (run_finish args False (cpu_icount c) st, rs_db st)"
    "run_steps m c = (Ok None, x)" "m \<le> ?n" "run_at k st x" "loop_ends args (\<lambda>_. False) i st x"
    "verdict args c x (run_finish args False (cpu_icount c) st)"
    by (rule run_from_follows [OF assms(1-8), of "\<lambda>_. False"]) simp
  have inv: "cpu_inv c" using assms(2) by (auto simp: stands_for_def captures_def)
  have rest: "run_steps (?n - m) x = (Ok None, c')" using run_steps_add [OF r(2), of "?n - m"] go(1) unfolding le_add_diff_inverse [OF r(3)] by simp
  have ic: "unat (cpu_icount x) = unat (cpu_icount c) + m"
  proof (cases "m = 0")
    case False
    then show ?thesis using run_steps_icount [OF inv r(2)] r(3) assms(6) by (simp add: unat_word_ariths unat_of_nat)
  qed (use r(2) in simp)
  have run: "cpu_icount x < ra_target_icount args \<Longrightarrow> \<exists>y. step x = (Ok (), y)"
    using rest ic by (cases "?n - m") (auto simp: word_less_nat_alt split: prod.splits rresult.splits)
  then have at: "ra_target_icount args \<le> cpu_icount x" "rs_halted_reason st = ''''"
    using r(4,5) go(2) by (auto simp: loop_ends_def run_at_def split: if_splits)
  then have "?n - m = 0" using ic by (simp add: word_le_nat_alt)
  then have x: "x = c'" using rest by simp
  have "\<not> cpu_icount x < ra_target_icount args" using at(1) by (simp add: not_less)
  moreover have "ro_stop out \<noteq> Interrupted" if "run_finish args False (cpu_icount c) st = Ok out" for out
    using that at(2) by (auto simp: run_finish_def Let_def split: if_splits prod.splits)
  ultimately show ?thesis using r(1,4,6) unfolding x by (auto simp: run_at_def verdict_def split: rresult.splits)
qed

theorem run_reaches_target_witness:
  "\<exists>c' r d'. run_steps 1 cpu_two = (Ok None, c') \<and>
    run_from (server_hash digest_small) trace_two (\<lambda>_ d. d) cfg_two \<lparr> ra_k = 2, ra_target_icount = 1, ra_stop_at_frame = None \<rparr> (\<lambda>_. False) db_two = Some (r, d') \<and> stands_for cfg_two d' c'"
proof -
  let ?args = "\<lparr> ra_k = 2, ra_target_icount = 1, ra_stop_at_frame = None \<rparr>"
  have l: "latest_by bc_batch_id (t_batch_commit db_two) = Some (reset_row RESET_REGS)" "bc_batch_id (reset_row RESET_REGS) = 0"
    by (simp_all add: db_two_def reset_row_def)
  have n: "unat (ra_target_icount ?args) - unat (cpu_icount cpu_two) = 1" by (simp add: cpu_two_def cpu_new_def)
  obtain c' where c: "run_steps 1 cpu_two = (Ok None, c')" using step_two by simp
  have df: "display_free 1 cpu_two" by (rule display_free_mono [OF display_free_two]) simp
  from run_reaches_target [OF l(1), unfolded l(2), OF recover_two, of digest_small trace_two ?args c', unfolded n, OF traced_two digest_small_law df _ _ _ c] c
  show ?thesis by simp blast
qed

text \<open>
  C5: a run resumes after a crash.  Let a batch be committed on tables that stand for a machine, and let the process die
  after any number of the derivations of its row.  Recovery then leaves tables that stand for the machine after the
  instructions that batch retired, so the next process continues that run and no other.
\<close>

theorem resume_after_crash:
  assumes "stands_for k d c" "latest_by bc_batch_id (t_batch_commit d) = Some p"
    and "display_free n c" "unat (cpu_icount c) + n < 2 ^ 64" "n < 2 ^ 32" "unat (bc_batch_id p) + 1 < 2 ^ 32"
  shows "\<exists>d1 p' m c'. batch v k n d = Some d1 \<and> latest_by bc_batch_id (t_batch_commit d1) = Some p' \<and> m \<le> n \<and> run_steps m c = (Ok None, c') \<and>
    (\<forall>j. stands_for k (run_all (recover (bc_batch_id p')) (run_all (take j (recover (bc_batch_id p'))) d1)) c')"
  by (rule resume_stands [OF assms])

theorem resume_after_crash_witness:
  "\<exists>d1 p' m c'. batch Baseline cfg_two 3 db_two = Some d1 \<and> latest_by bc_batch_id (t_batch_commit d1) = Some p' \<and> m \<le> 3 \<and>
    run_steps m cpu_two = (Ok None, c') \<and> stands_for cfg_two (run_all (recover (bc_batch_id p')) (run_all (take 2 (recover (bc_batch_id p'))) d1)) c'"
proof -
  have l: "latest_by bc_batch_id (t_batch_commit db_two) = Some (reset_row RESET_REGS)" by (simp add: db_two_def)
  from resume_after_crash [OF stands_for_two l display_free_two, of Baseline] show ?thesis
    by (simp add: reset_row_def cpu_two_def cpu_new_def) blast
qed

end
