(* ===== verification/Emu_Load.thy ===== *)
theory Emu_Load
  imports Emu_Properties Loading Snapshot
begin

text \<open>
  Provisioning: the manifest of a ROM, the load of its words into \<open>ram\<close> (\<open>driver/src/emulation/rom.rs\<close>), the decode
  pass and the reset row (\<open>bench/canonical.rs\<close>, \<open>bootstrap.rs\<close>), the shape a run takes from the manifest (\<open>run.rs\<close>), and
  beside it the machine the reference emulator makes of the same file (\<open>refemu/src/cli/mod.rs\<close>).  The tables then stand
  for that machine.
\<close>

section \<open>The manifest\<close>

record manifest =
  mf_spec_version :: "string option"
  mf_entry :: "u32 option"
  mf_load_addr :: "u32 option"
  mf_size :: "u64 option"
  mf_sha256 :: "string option"
  mf_text_start :: "u32 option"
  mf_text_end :: "u32 option"

definition unwrap_or :: "'a option \<Rightarrow> 'a \<Rightarrow> 'a" where
  "unwrap_or x d = (case x of Some y \<Rightarrow> y | None \<Rightarrow> d)"

lemma unwrap_or_simps [simp]: "unwrap_or (Some x) d = x" "unwrap_or None d = d"
  by (simp_all add: unwrap_or_def)

text \<open>One bound without the other leaves the region undeclared.\<close>

definition manifest_text_region :: "manifest \<Rightarrow> (u32 \<times> u32) option" where
  "manifest_text_region m = (case (mf_text_start m, mf_text_end m) of (Some s, Some e) \<Rightarrow> Some (s, e) | _ \<Rightarrow> None)"

section \<open>Loading the ROM\<close>

definition RAM_WORDS_DEFAULT :: u32 where "RAM_WORDS_DEFAULT = RAM_SIZE div 4"

datatype load_rom_error = SizeMismatch u64 u64 | HashMismatch string string | Unaligned u64 | LoadAddrUnaligned u32
  | RomOverflow u32 u32 u32 | NotDense u64 u64 u64 u32 u32

record loaded_rom =
  lr_words :: u32
  lr_bytes :: u64
  lr_base_word :: u32
  lr_ram_words :: u32

text \<open>The image as rows, and the explicit zeros behind it.\<close>

definition image_rows :: "u32 \<Rightarrow> u8 list \<Rightarrow> word_row list" where
  "image_rows base_word blob = map (\<lambda>(i, w). \<lparr> wr_addr = base_word + of_nat i, wr_value = from_le_bytes w, wr_version = 0 \<rparr>)
     (zip [0..<length blob div 4] (chunks 4 blob))"

definition fill_rows :: "u32 \<Rightarrow> u32 \<Rightarrow> word_row list" where
  "fill_rows fill_start fill_count = map (\<lambda>i. \<lparr> wr_addr = fill_start + of_nat i, wr_value = 0, wr_version = 0 \<rparr>) [0..<unat fill_count]"

text \<open>\<open>count()\<close>, the span and the least address of \<open>ram FINAL\<close>; an empty table has 0 for its bounds.\<close>

definition ram_density :: "word_row list \<Rightarrow> u64 \<times> u64 \<times> u64" where
  "ram_density rows = (let addrs = map wr_addr (final_rows wr_addr wr_version rows);
      lo = if addrs = [] then 0 else Min (set addrs); hi = if addrs = [] then 0 else Max (set addrs) in
    (of_nat (length addrs), ucast hi - ucast lo + 1, ucast lo))"

definition load_rom :: "(u8 list \<Rightarrow> string) \<Rightarrow> manifest \<Rightarrow> u8 list \<Rightarrow> u32 \<Rightarrow> database \<Rightarrow> (loaded_rom, load_rom_error) rresult \<times> database" where
  "load_rom sha256_hex m blob ram_words d =
     (let len = of_nat (length blob) :: u64; digest = sha256_hex blob; load_addr = unwrap_or (mf_load_addr m) RAM_BASE in
      if \<not> (case mf_size m of Some expected \<Rightarrow> len = expected | None \<Rightarrow> True)
      then (Err (SizeMismatch len (the (mf_size m))), d)
      else if \<not> (case mf_sha256 m of Some expected \<Rightarrow> digest = expected | None \<Rightarrow> True)
      then (Err (HashMismatch digest (the (mf_sha256 m))), d)
      else if length blob mod 4 \<noteq> 0 then (Err (Unaligned len), d)
      else if load_addr mod 4 \<noteq> 0 then (Err (LoadAddrUnaligned load_addr), d)
      else let base_word = load_addr div 4; word_count = of_nat (length blob div 4) :: u32;
               d1 = d\<lparr>t_ram := t_ram d @ image_rows base_word blob\<rparr>;
               fill_start = base_word + word_count; region_end = base_word + ram_words in
        if region_end < fill_start then (Err (RomOverflow fill_start ram_words region_end), d1)
        else let d2 = if fill_start < region_end then d1\<lparr>t_ram := t_ram d1 @ fill_rows fill_start (region_end - fill_start)\<rparr> else d1;
                 (rows, span, lowest) = ram_density (t_ram d2) in
          if rows \<noteq> span \<or> rows \<noteq> ucast ram_words \<or> lowest \<noteq> ucast base_word
          then (Err (NotDense rows span lowest ram_words base_word), d2)
          else (Ok \<lparr> lr_words = word_count, lr_bytes = len, lr_base_word = base_word, lr_ram_words = ram_words \<rparr>, d2))"

section \<open>The shape of a run\<close>

definition run_cfg :: "manifest \<Rightarrow> u32 \<Rightarrow> u32 \<Rightarrow> (fold_cfg, below_base) rresult" where
  "run_cfg m ram_words hwm =
     (let text_start_word = word_addr_of_byte (unwrap_or (mf_text_start m) RAM_BASE);
          text_end_word = word_addr_of_byte (unwrap_or (mf_text_end m) RAM_BASE);
          ram_base_word = word_addr_of_byte (unwrap_or (mf_load_addr m) RAM_BASE) in
      rbind (widx_from text_start_word ram_base_word) (\<lambda>ts. rbind (widx_from text_end_word ram_base_word) (\<lambda>te.
        Ok \<lparr> text_start_widx = ts, text_end_widx = te, fc_decn = word_addr_get text_end_word - word_addr_get text_start_word,
             fc_ram_words = ram_words, fc_ram_base = RAM_BASE, fc_hwm = hwm, fc_ipms = IPMS_DEFAULT \<rparr>)))"

section \<open>Provisioning\<close>

definition empty_database :: database where
  "empty_database = \<lparr> t_batch_commit = [], t_cpu_state = [], t_ram = [], t_framebuffer = [], t_palette = [],
     t_input_queue = [], t_frames_out = [], t_console_out = [], t_decoded = [] \<rparr>"

definition create_and_load_database :: "(u8 list \<Rightarrow> string) \<Rightarrow> manifest \<Rightarrow> u8 list \<Rightarrow> u32 \<Rightarrow> (unit, load_rom_error) rresult \<times> database" where
  "create_and_load_database sha256_hex m blob ram_words =
     (case load_rom sha256_hex m blob ram_words empty_database of
        (Ok _, d) \<Rightarrow> (Ok (), decode_pass (word_addr_get (word_addr_of_byte (unwrap_or (mf_text_start m) RAM_BASE)))
                         (word_addr_get (word_addr_of_byte (unwrap_or (mf_text_end m) RAM_BASE))) d)
      | (Err e, d) \<Rightarrow> (Err e, d) | (Panic, d) \<Rightarrow> (Panic, d))"

section \<open>The emulator's machine\<close>

text \<open>
  \<open>load\<close> of the emulator's command line, from the bytes of the image and its manifest on.  \<open>resume\<close> is the capture to
  resume from: its path, what reading it gave, and whether a mismatch is forced.
\<close>

datatype image_format = Format_Auto | Format_Flat | Format_Elf
datatype device_set = Devices_Full | Devices_None

record image_args =
  ia_format :: image_format
  ia_entry :: "u32 option"
  ia_load_addr :: "u32 option"
  ia_text_start :: "u32 option"
  ia_text_end :: "u32 option"

record machine_args =
  ma_ram_size :: u32
  ma_ipms :: u32
  ma_devices :: device_set

datatype load_failure = LoadFailed load_error | ImageFailed image_error | ResumeFailed snapshot_error

definition option_or :: "'a option \<Rightarrow> 'a option \<Rightarrow> 'a option" where
  "option_or x y = (case x of Some _ \<Rightarrow> x | None \<Rightarrow> y)"

definition cli_load :: "image_args \<Rightarrow> machine_args \<Rightarrow> (path \<times> ('m snapshot, snapshot_error) rresult \<times> bool) option \<Rightarrow> manifest \<Rightarrow> u8 list \<Rightarrow>
    (cpu, load_failure) rresult" where
  "cli_load ia ma resume m bytes =
     (let load_addr = unwrap_or (option_or (ia_load_addr ia) (mf_load_addr m)) RAM_BASE in
      case (case ia_format ia of Format_Flat \<Rightarrow> Ok (image_flat bytes load_addr) | Format_Elf \<Rightarrow> parse_elf bytes
            | Format_Auto \<Rightarrow> read_image bytes (Some load_addr)) of Err e \<Rightarrow> Err (ImageFailed e) | Panic \<Rightarrow> Panic
      | Ok parsed \<Rightarrow>
        let region = (case (option_or (ia_text_start ia) (mf_text_start m), option_or (ia_text_end ia) (mf_text_end m)) of
              (Some s, Some e) \<Rightarrow> Some (s, e) | _ \<Rightarrow> image_text_region parsed);
            map = with_ram_size map_clickdoom (ma_ram_size ma) in
        case (case ma_devices ma of Devices_Full \<Rightarrow> devices_registers (ma_ipms ma) | Devices_None \<Rightarrow> Some (devices_bytes (mmio_size map))) of None \<Rightarrow> Panic
        | Some dv \<Rightarrow> (case cpu_load (cpu_new (memory_new map dv) (img_entry parsed)) parsed of
             (Err e, _) \<Rightarrow> Err (LoadFailed e) | (Panic, _) \<Rightarrow> Panic
           | (Ok _, c) \<Rightarrow>
             let c1 = (case ia_entry ia of Some entry \<Rightarrow> set_pc c entry | None \<Rightarrow> c); c2 = cpu_set_text_region c1 region in
             case (case resume of None \<Rightarrow> (Ok (), c2) | Some (path, read, force) \<Rightarrow>
                 (case read of Ok snap \<Rightarrow> snap_restore c2 snap path force | Err e \<Rightarrow> (Err e, c2) | Panic \<Rightarrow> (Panic, c2))) of
               (Err e, _) \<Rightarrow> Err (ResumeFailed e) | (Panic, _) \<Rightarrow> Panic
             | (Ok _, c3) \<Rightarrow> (case enable_decode_cache c3 of
                  (Ok _, c4) \<Rightarrow> Ok c4 | (Err _, _) \<Rightarrow> Panic | (Panic, _) \<Rightarrow> Panic)))"

text \<open>A ROM: a flat image with nothing overridden, the full device set, nothing to resume.\<close>

definition flat_image :: image_args where
  "flat_image = \<lparr> ia_format = Format_Flat, ia_entry = None, ia_load_addr = None, ia_text_start = None, ia_text_end = None \<rparr>"

definition full_machine :: "u32 \<Rightarrow> u32 \<Rightarrow> machine_args" where
  "full_machine sz n = \<lparr> ma_ram_size = sz, ma_ipms = n, ma_devices = Devices_Full \<rparr>"

abbreviation flat_load :: "manifest \<Rightarrow> u8 list \<Rightarrow> u32 \<Rightarrow> u32 \<Rightarrow> (cpu, load_failure) rresult" where
  "flat_load m bytes sz n \<equiv> cli_load flat_image (full_machine sz n) (None :: (path \<times> (unit snapshot, snapshot_error) rresult \<times> bool) option) m bytes"

section \<open>The rows of a load\<close>

lemma chunks_nth: "length xs = n * j \<Longrightarrow> 0 < n \<Longrightarrow> chunks n xs = map (\<lambda>i. take n (drop (n * i) xs)) [0..<j]"
proof (induction j arbitrary: xs)
  case (Suc j)
  then have "length (drop n xs) = n * j" "xs \<noteq> []" by auto
  then have "chunks n xs = take n xs # map (\<lambda>i. take n (drop (n * i) (drop n xs))) [0..<j]" using Suc by (subst chunks.simps) simp
  then show ?case by (simp add: upt_conv_Cons map_Suc_upt [symmetric] o_def add.commute del: upt_Suc)
qed (simp add: chunks.simps)

text \<open>One row for every word of the region, holding the words of a byte string.\<close>

definition region_rows :: "u8 list \<Rightarrow> nat \<Rightarrow> word_row list" where
  "region_rows bs n = map (\<lambda>j. \<lparr> wr_addr = 0x20000000 + of_nat j, wr_value = word_at bs j, wr_version = 0 \<rparr>) [0..<n]"

lemma image_fill_rows:
  assumes "length blob = 4 * j" "unat n = j + i"
  shows "image_rows 0x20000000 blob @ fill_rows (0x20000000 + of_nat j) (n - of_nat j) = region_rows (blob @ replicate (4 * i) 0) (unat n)"
proof -
  let ?bs = "blob @ replicate (4 * i) 0"
  have im: "image_rows 0x20000000 blob = map (\<lambda>i. \<lparr> wr_addr = 0x20000000 + of_nat i, wr_value = word_at blob i, wr_version = 0 \<rparr>) [0..<j]"
    by (rule nth_equalityI) (simp_all add: image_rows_def assms(1) chunks_nth [OF assms(1)] word_at_def)
  have "unat (of_nat j :: u32) = j" using assms(2) unsigned_less [of n, where 'a = nat] by (simp add: unat_of_nat take_bit_nat_eq_self)
  then have sub: "unat (n - of_nat j) = i" using assms(2) by (subst unat_sub) (simp_all add: word_le_nat_alt)
  have lo: "word_at ?bs l = word_at blob l" if "l < j" for l using that assms(1) by (simp add: word_at_def)
  have hi: "word_at ?bs (j + l) = 0" if "l < i" for l
    using word_at_zeros [of l "4 * i"] that assms(1) by (simp add: word_at_def algebra_simps)
  show ?thesis
  proof (rule nth_equalityI)
    fix l assume "l < length (image_rows 0x20000000 blob @ fill_rows (0x20000000 + of_nat j) (n - of_nat j))"
    then have l: "l < j + i" by (simp add: im fill_rows_def sub)
    then show "(image_rows 0x20000000 blob @ fill_rows (0x20000000 + of_nat j) (n - of_nat j)) ! l = region_rows ?bs (unat n) ! l"
      using lo [of l] hi [of "l - j"] by (cases "l < j") (simp_all add: im nth_append fill_rows_def region_rows_def sub assms(2) of_nat_diff)
  qed (simp add: im fill_rows_def region_rows_def sub assms(2))
qed

lemma dense_addr: "n < 2 ^ 29 \<Longrightarrow> j < n \<Longrightarrow> unat (0x20000000 + of_nat j :: u32) = 0x20000000 + j"
  by (simp add: unat_word_ariths unat_of_nat)

lemma dense_sorted: "n < 2 ^ 29 \<Longrightarrow> sorted_wrt (<) (map wr_addr (region_rows bs n))"
  by (auto simp: region_rows_def sorted_wrt_iff_nth_less word_less_nat_alt dense_addr)

lemma dense_final: "n < 2 ^ 29 \<Longrightarrow> final_rows wr_addr wr_version (region_rows bs n) = region_rows bs n"
  by (rule final_rows_sorted) (rule dense_sorted)

lemma dense_density:
  assumes "n < 2 ^ 29" "0 < n"
  shows "ram_density (region_rows bs n) = (of_nat n, of_nat n, 0x20000000)"
proof -
  let ?a = "\<lambda>j. 0x20000000 + of_nat j :: u32" and ?s = "wr_addr ` set (region_rows bs n)"
  have s: "?s = ?a ` {..<n}" by (force simp: region_rows_def)
  have lo: "Min ?s = 0x20000000"
  proof (rule Min_eqI)
    show "0x20000000 \<in> ?s" unfolding s using assms(2) by (intro image_eqI [of _ _ 0]) simp_all
    show "0x20000000 \<le> y" if "y \<in> ?s" for y using that unfolding s by (auto simp: word_le_nat_alt dense_addr [OF assms(1)])
  qed simp
  obtain m where m: "n = Suc m" using assms(2) by (cases n) auto
  have hi: "Max ?s = ?a m"
  proof (rule Max_eqI)
    show "?a m \<in> ?s" unfolding s by (rule image_eqI [OF refl]) (simp add: m)
    show "y \<le> ?a m" if "y \<in> ?s" for y
      using that m unfolding s by (auto simp: word_le_nat_alt dense_addr [OF assms(1)])
  qed simp
  have "unat (?a m) = 0x20000000 + m" using dense_addr [OF assms(1), of m] m by simp
  then have "ucast (?a m) = (of_nat (0x20000000 + m) :: u64)" by (metis of_nat_unat)
  then have span: "ucast (?a m) - ucast (0x20000000 :: u32) + 1 = (of_nat n :: u64)" by (simp add: m)
  have len: "length (map wr_addr (region_rows bs n)) = n" "map wr_addr (region_rows bs n) \<noteq> []" using assms(2) by (simp_all add: region_rows_def)
  have "ucast (0x20000000 :: u32) = (0x20000000 :: u64)" by simp
  with span len show ?thesis unfolding ram_density_def dense_final [OF assms(1)] by (simp only: Let_def if_False list.set_map lo hi len simp_thms)
qed

text \<open>A manifest the load accepts for a file: what it declares of size and hash is right, and it loads at the base.\<close>

definition rom_ok :: "(u8 list \<Rightarrow> string) \<Rightarrow> manifest \<Rightarrow> u8 list \<Rightarrow> bool" where
  "rom_ok sha256_hex m blob \<longleftrightarrow> mf_size m \<in> {None, Some (of_nat (length blob))} \<and> mf_sha256 m \<in> {None, Some (sha256_hex blob)} \<and>
     mf_load_addr m \<in> {None, Some RAM_BASE}"

lemma load_rom_dense:
  assumes m: "rom_ok sha256_hex m blob" and len: "length blob = 4 * j" "j \<le> unat n" and n: "unat n < 2 ^ 29" "0 < unat n"
  shows "load_rom sha256_hex m blob n empty_database =
    (Ok \<lparr> lr_words = of_nat j, lr_bytes = of_nat (length blob), lr_base_word = 0x20000000, lr_ram_words = n \<rparr>,
     empty_database\<lparr>t_ram := region_rows (blob @ replicate (4 * (unat n - j)) 0) (unat n)\<rparr>)"
proof -
  let ?b = "0x20000000 :: u32" and ?rows = "region_rows (blob @ replicate (4 * (unat n - j)) 0) (unat n)"
  have la: "unwrap_or (mf_load_addr m) RAM_BASE = RAM_BASE" using m by (auto simp: rom_ok_def)
  have base: "RAM_BASE div 4 = ?b" "RAM_BASE mod 4 = 0" by (simp_all add: map_constants)
  have u: "unat (of_nat j :: u32) = j" "unat (?b + of_nat j) = 0x20000000 + j" "unat (?b + n) = 0x20000000 + unat n"
    using len(2) n(1) by (simp_all add: unat_of_nat unat_word_ariths)
  have sub: "?b + n - (?b + of_nat j) = n - of_nat j" by simp
  have rows: "image_rows ?b blob @ fill_rows (?b + of_nat j) (n - of_nat j) = ?rows"
    using image_fill_rows [OF len(1), of n "unat n - j"] len(2) by simp
  have "(if ?b + of_nat j < ?b + n then image_rows ?b blob @ fill_rows (?b + of_nat j) (?b + n - (?b + of_nat j)) else image_rows ?b blob) = ?rows"
  proof (cases "j < unat n")
    case True
    then show ?thesis unfolding sub rows by (simp add: word_less_nat_alt u)
  next
    case False
    then have "n = of_nat j" using len(2) u(1) by (simp add: word_unat_eq_iff)
    then have "fill_rows (?b + of_nat j) (n - of_nat j) = []" by (simp add: fill_rows_def)
    then show ?thesis using rows False by (simp add: word_less_nat_alt u)
  qed
  moreover have "ram_density ?rows = (of_nat (unat n), of_nat (unat n), 0x20000000)" using dense_density n by simp
  moreover have "\<not> ?b + n < ?b + of_nat j" using len(2) by (simp add: word_less_nat_alt u)
  ultimately show ?thesis
    using m len(1) by (auto simp: load_rom_def Let_def la base rom_ok_def empty_database_def of_nat_unat split: if_splits option.splits)
qed

section \<open>Provisioned tables\<close>

lemma filter_below: "w \<le> n \<Longrightarrow> filter (\<lambda>j. j < w) [0..<n] = [0..<w]"
  by (induction n) (auto simp: le_Suc_eq)

lemma decode_dense:
  assumes "n < 2 ^ 29" "unat w \<le> n" "t_ram d = region_rows bs n"
  shows "t_decoded (decode_pass 0x20000000 (0x20000000 + w) d) =
    map (\<lambda>j. decoded_columns (0x20000000 + of_nat j) (word_at bs j)) [0..<unat w]"
proof -
  have e: "unat (0x20000000 + w) = 0x20000000 + unat w" using assms(1,2) by (simp add: unat_word_ariths)
  have "filter (\<lambda>r. 0x20000000 \<le> wr_addr r \<and> wr_addr r < 0x20000000 + w) (region_rows bs n) = region_rows bs (unat w)"
    unfolding region_rows_def filter_map o_def filter_below [OF assms(2), symmetric]
    by (intro arg_cong [of _ _ "map _"] filter_cong) (auto simp: word_le_nat_alt word_less_nat_alt e dense_addr [OF assms(1)])
  then show ?thesis by (simp add: decode_pass_def assms(3) dense_final [OF assms(1)]) (simp add: region_rows_def)
qed

lemma provisioned_tables:
  assumes "n < 2 ^ 29" "unat w \<le> n" "t_ram d = region_rows bs n" "t_input_queue d = []"
  shows "decode_with (decode_pass 0x20000000 (0x20000000 + w) d) =
    \<lparr> RAMT = map (word_at bs) [0..<n], DEC = map (\<lambda>j. decode_row (0x20000000 + of_nat j) (word_at bs j)) [0..<unat w], KEYQT = [] \<rparr>"
proof -
  let ?f = "\<lambda>j. decoded_columns (0x20000000 + of_nat j) (word_at bs j)"
  have "sorted (map dc_word_addr (map ?f [0..<unat w]))"
    unfolding sorted_wrt_map decoded_columns_sel using assms(1,2) by (auto simp: sorted_wrt_iff_nth_less word_le_nat_alt dense_addr [OF assms(1)])
  then have "sort_key dc_word_addr (map ?f [0..<unat w]) = map ?f [0..<unat w]" by (rule sort_key_id_if_sorted)
  moreover have "t_ram (decode_pass 0x20000000 (0x20000000 + w) d) = region_rows bs n" "t_input_queue (decode_pass 0x20000000 (0x20000000 + w) d) = []"
    using assms(3,4) by (simp_all add: decode_pass_def)
  ultimately show ?thesis by (simp add: decode_with_def decode_dense [OF assms(1-3)] dense_final [OF assms(1)] comp_def) (simp add: region_rows_def)
qed

section \<open>The loaded machine\<close>

lemma cli_load_flat:
  assumes la: "mf_load_addr m \<in> {None, Some RAM_BASE}" and t: "mf_text_start m = Some s" "mf_text_end m = Some e"
    and n: "unat n < 2 ^ 29" and len: "length blob \<le> 4 * unat n" and ip: "ipms_n \<noteq> 0"
  shows "\<exists>c. flat_load m blob (4 * n) ipms_n = Ok c \<and> cpu_inv c \<and> cpu_pc c = RAM_BASE \<and> cpu_regs c = replicate 32 0 \<and> cpu_icount c = 0 \<and>
    cpu_memory c = (memory_new (with_ram_size map_clickdoom (4 * n)) (Registers \<lparr> ipms = ipms_n, key_queue = [], console = [], frame_commits = [] \<rparr>))
      \<lparr>ram := blob @ replicate (4 * unat n - length blob) 0, text_region := Some (s, e)\<rparr>"
proof -
  let ?map = "with_ram_size map_clickdoom (4 * n)" and ?dv = "Registers \<lparr> ipms = ipms_n, key_queue = [], console = [], frame_commits = [] \<rparr>"
  let ?m0 = "memory_new ?map ?dv" and ?r = "blob @ replicate (4 * unat n - length blob) 0"
  have u: "unat (4 * n) = 4 * unat n" using n by (simp add: unat_word_ariths)
  have l: "unwrap_or (mf_load_addr m) RAM_BASE = RAM_BASE" using la by auto
  have wf: "mem_wf ?m0" using ip by (intro memory_new_wf) (simp add: with_ram_size_def map_clickdoom_def)
  have c0: "cpu_inv (cpu_new ?m0 RAM_BASE)" by (rule cpu_new_inv [OF wf])
  have ls: "load_segments ?m0 (img_segments (image_flat blob RAM_BASE)) = (Ok (), ?m0\<lparr>ram := ?r\<rparr>)"
  proof -
    have "mem_load_image ?m0 blob RAM_BASE = (Ok (), ?m0\<lparr>ram := ?r\<rparr>)"
      using len u by (simp add: mem_load_image_def memory_new_def with_ram_size_def map_clickdoom_def slice_put_def Let_def)
    moreover have "unat (of_nat (length blob) :: u32) = length blob" using len n by (simp add: unat_of_nat)
    ultimately show ?thesis by (simp add: image_flat_def)
  qed
  let ?c1 = "(cpu_new ?m0 RAM_BASE)\<lparr>cpu_memory := ?m0\<lparr>ram := ?r\<rparr>\<rparr>"
  have ld: "cpu_load (cpu_new ?m0 RAM_BASE) (image_flat blob RAM_BASE) = (Ok (), ?c1)"
    using ls by (simp add: cpu_load_def cpu_new_def Let_def) (simp add: image_flat_def)
  have "cpu_inv ?c1" using c0 wf len u by (auto simp: cpu_inv_def cpu_new_def mem_wf_def regs_ok_def memory_new_def with_ram_size_def map_clickdoom_def)
  then have i2: "cpu_inv (cpu_set_text_region ?c1 (Some (s, e)))" by (rule cpu_set_text_region_inv)
  obtain r c where en: "enable_decode_cache (cpu_set_text_region ?c1 (Some (s, e))) = (r, c)" by fastforce
  note f = enable_decode_cache_facts [OF i2 en]
  have img: "img_entry (image_flat blob RAM_BASE) = RAM_BASE" by (simp add: image_flat_def)
  have "flat_load m blob (4 * n) ipms_n = Ok c"
    using f ip img by (simp add: cli_load_def flat_image_def full_machine_def option_or_def l t Let_def devices_registers_def registers_new_def ld en)
  moreover have "cpu_memory c = ?m0\<lparr>ram := ?r, text_region := Some (s, e)\<rparr>" "cpu_pc c = RAM_BASE" "cpu_regs c = replicate 32 0" "cpu_icount c = 0"
    using f uncached_sel [of c] uncached_sel [of "cpu_set_text_region ?c1 (Some (s, e))"]
    by (simp_all add: cpu_set_text_region_def mem_set_text_region_def cpu_new_def)
  ultimately show ?thesis using f by blast
qed

section \<open>Provisioning stands for the machine\<close>

lemma text_window:
  assumes "unat w < 2 ^ 29"
  shows "drop_bit 2 (RAM_BASE + 4 * w) = (0x20000000 + w :: u32)"
proof -
  have "unat (RAM_BASE + 4 * w) = 4 * (0x20000000 + unat w)" using assms by (simp add: map_constants unat_word_ariths)
  then have "unat (drop_bit 2 (RAM_BASE + 4 * w)) = 0x20000000 + unat w" by (simp add: drop_bit_eq_div unat_div)
  moreover have "unat (0x20000000 + w) = 0x20000000 + unat w" using assms by (simp add: unat_word_ariths)
  ultimately show ?thesis by (simp add: word_unat_eq_iff)
qed

definition rom_cfg :: "u32 \<Rightarrow> u32 \<Rightarrow> u32 \<Rightarrow> fold_cfg" where
  "rom_cfg w n hwm = \<lparr> text_start_widx = Widx 0, text_end_widx = Widx w, fc_decn = w, fc_ram_words = n, fc_ram_base = RAM_BASE,
     fc_hwm = hwm, fc_ipms = IPMS_DEFAULT \<rparr>"

lemma run_cfg_base:
  assumes "mf_load_addr m \<in> {None, Some RAM_BASE}" "mf_text_start m = Some RAM_BASE" "mf_text_end m = Some (RAM_BASE + 4 * w)" "unat w < 2 ^ 29"
  shows "run_cfg m n hwm = Ok (rom_cfg w n hwm)"
proof -
  have b: "unwrap_or (mf_load_addr m) RAM_BASE = RAM_BASE" "drop_bit 2 RAM_BASE = (0x20000000 :: u32)" using assms(1) by (auto simp: map_constants)
  have "unat (0x20000000 + w) = 0x20000000 + unat w" using assms(4) by (simp add: unat_word_ariths)
  then have "\<not> 0x20000000 + w < 0x20000000" by (simp add: word_less_nat_alt)
  then show ?thesis
    by (simp add: run_cfg_def rom_cfg_def assms(2,3) b(1) word_addr_of_byte_def text_window [OF assms(4)] widx_from_def) (simp add: b(2))
qed

lemma provision_stands:
  assumes m: "rom_ok sha256_hex m blob" "mf_text_start m = Some RAM_BASE" "mf_text_end m = Some (RAM_BASE + 4 * w)"
    and n: "unat n < 2 ^ 29" "0 < unat w" "unat w \<le> unat n" and len: "length blob mod 4 = 0" "length blob \<le> 4 * unat n"
  shows "\<exists>d d' c. create_and_load_database sha256_hex m blob n = (Ok (), d) \<and> seed RESET_REGS d = (Ok (Fresh 31), d') \<and>
    flat_load m blob (4 * n) IPMS_DEFAULT = Ok c \<and> cpu_inv c \<and> cpu_icount c = 0 \<and>
    latest_by bc_batch_id (t_batch_commit d') = Some (reset_row RESET_REGS) \<and> stands_for (rom_cfg w n hwm) (run_all (recover 0) d') c"
proof -
  obtain j where j: "length blob = 4 * j" "j \<le> unat n" using len by auto
  let ?bs = "blob @ replicate (4 * (unat n - j)) 0"
  let ?d1 = "empty_database\<lparr>t_ram := region_rows ?bs (unat n)\<rparr>" let ?d = "decode_pass 0x20000000 (0x20000000 + w) ?d1"
  let ?d' = "?d\<lparr>t_batch_commit := [reset_row RESET_REGS]\<rparr>" let ?e = "run_all (recover 0) ?d'"
  have la: "mf_load_addr m \<in> {None, Some RAM_BASE}" using m(1) by (simp add: rom_ok_def)
  have w29: "unat w < 2 ^ 29" using n by simp
  have "load_rom sha256_hex m blob n empty_database = (Ok \<lparr> lr_words = of_nat j, lr_bytes = of_nat (length blob), lr_base_word = 0x20000000, lr_ram_words = n \<rparr>, ?d1)"
    by (rule load_rom_dense [OF m(1) j n(1)]) (use n in simp)
  moreover have "drop_bit 2 RAM_BASE = (0x20000000 :: u32)" by (simp add: map_constants)
  ultimately have cr: "create_and_load_database sha256_hex m blob n = (Ok (), ?d)"
    by (simp add: create_and_load_database_def m(2,3) word_addr_of_byte_def text_window [OF w29])
  have sd: "seed RESET_REGS ?d = (Ok (Fresh 31), ?d')"
    by (simp add: seed_def batch_rows_def decode_pass_def empty_database_def RESET_REGS_def)
  obtain c where c: "flat_load m blob (4 * n) IPMS_DEFAULT = Ok c" "cpu_inv c" "cpu_pc c = RAM_BASE" "cpu_regs c = replicate 32 0" "cpu_icount c = 0"
    "cpu_memory c = (memory_new (with_ram_size map_clickdoom (4 * n)) (Registers \<lparr> ipms = IPMS_DEFAULT, key_queue = [], console = [], frame_commits = [] \<rparr>))
      \<lparr>ram := blob @ replicate (4 * unat n - length blob) 0, text_region := Some (RAM_BASE, RAM_BASE + 4 * w)\<rparr>"
    using cli_load_flat [OF la m(2,3) n(1) len(2), of IPMS_DEFAULT] by (auto simp: map_constants)
  let ?k = "rom_cfg w n hwm" and ?t = "decode_with ?e"
  have t: "?t = \<lparr> RAMT = map (word_at ?bs) [0..<unat n], DEC = map (\<lambda>j. decode_row (0x20000000 + of_nat j) (word_at ?bs j)) [0..<unat w], KEYQT = [] \<rparr>"
    using provisioned_tables [OF n(1,3), of ?d1 ?bs] by (simp add: decode_with_def empty_database_def decode_pass_def run_all_def recover_def flush_def statements reset_row_def)
  have tk: "tables_ok ?k ?t"
    using n by (simp add: t tables_ok_def rom_cfg_def ram_cfg_def word_addr_ram_base_def) (simp add: map_constants)
  have bs: "4 * unat n - length blob = 4 * (unat n - j)" using j by simp
  have cap: "captures ?k ?t 0 c"
    using c n(1) by (simp add: captures_def t rom_cfg_def sql_map_def aligned4_def memory_new_def bs) (simp add: map_constants)
  have dr: "dense_ram ?k (t_ram ?e)"
    by (force simp: dense_ram_def rom_cfg_def region_rows_def run_all_def recover_def flush_def statements reset_row_def decode_pass_def empty_database_def)
  have z: "word_at (replicate 64000 0) i = 0" if "i < 16000" for i using word_at_zeros [of i 64000] that by simp
  have z': "word_at (replicate 768 0) i = 0" if "i < 192" for i using word_at_zeros [of i 768] that by simp
  have "stands_for ?k ?e c"
    unfolding stands_for_def using tk cap dr c z z'
    by (intro exI [of _ "reset_row RESET_REGS"] exI [of _ "\<lparr> ipms = IPMS_DEFAULT, key_queue = [], console = [], frame_commits = [] \<rparr>"])
      (simp add: run_all_def recover_def flush_def statements reset_row_def decode_pass_def empty_database_def RESET_REGS_def memory_new_def
        with_ram_size_def map_clickdoom_def map_constants word_value_def region_rows_def console_rows_def final_rows_def map_filter_simps)
  then show ?thesis using cr sd c(1,2,5) by (intro exI [of _ ?d] exI [of _ ?d'] exI [of _ c]) simp
qed

section \<open>From the file to the verdict\<close>

text \<open>
  C6: provisioning gives the database the emulator's machine.  For a ROM that loads at the RAM base with its text window
  there, and a manifest that tells the truth about it, creating the database, loading, decoding and seeding succeed, the
  emulator loads the same file, and after the recovery a run begins with, the tables stand for the emulator's machine.
\<close>

theorem provision_stands_for:
  assumes "rom_ok sha256_hex m blob" "mf_text_start m = Some RAM_BASE" "mf_text_end m = Some (RAM_BASE + 4 * w)"
    and "unat n < 2 ^ 29" "0 < unat w" "unat w \<le> unat n" and "length blob mod 4 = 0" "length blob \<le> 4 * unat n"
  shows "\<exists>d d' c k. create_and_load_database sha256_hex m blob n = (Ok (), d) \<and> seed RESET_REGS d = (Ok (Fresh 31), d') \<and>
    flat_load m blob (4 * n) IPMS_DEFAULT = Ok c \<and> run_cfg m n hwm = Ok k \<and> stands_for k (run_all (recover 0) d') c"
proof -
  have "mf_load_addr m \<in> {None, Some RAM_BASE}" using assms(1) by (simp add: rom_ok_def)
  then have "run_cfg m n hwm = Ok (rom_cfg w n hwm)" using assms(2-6) by (intro run_cfg_base) simp_all
  then show ?thesis using provision_stands [OF assms, of hwm] by blast
qed

definition rom_two :: "u8 list" where
  "rom_two = [0x93, 0x00, 0x10, 0x04, 0x73, 0x00, 0x00, 0x00]"

definition manifest_two :: manifest where
  "manifest_two = \<lparr> mf_spec_version = None, mf_entry = None, mf_load_addr = Some RAM_BASE, mf_size = Some 8, mf_sha256 = None,
     mf_text_start = Some RAM_BASE, mf_text_end = Some (RAM_BASE + 4 * 2) \<rparr>"

lemma rom_two_ok: "rom_ok sha256_hex manifest_two rom_two" "mf_text_start manifest_two = Some RAM_BASE" "mf_text_end manifest_two = Some (RAM_BASE + 4 * 2)"
  "unat (2 :: u32) < 2 ^ 29" "0 < unat (2 :: u32)" "unat (2 :: u32) \<le> unat (2 :: u32)" "length rom_two mod 4 = 0" "length rom_two \<le> 4 * unat (2 :: u32)"
  by (simp_all add: rom_ok_def manifest_two_def rom_two_def)

theorem provision_stands_for_witness:
  "\<exists>d d' c k. create_and_load_database (\<lambda>_. '''') manifest_two rom_two 2 = (Ok (), d) \<and> seed RESET_REGS d = (Ok (Fresh 31), d') \<and>
    flat_load manifest_two rom_two 8 IPMS_DEFAULT = Ok c \<and> run_cfg manifest_two 2 10 = Ok k \<and> stands_for k (run_all (recover 0) d') c"
  using provision_stands_for [OF rom_two_ok, of "\<lambda>_. ''''" 10] by simp

lemma display_free_uncached: "cpu_inv c \<Longrightarrow> display_free n (uncached c) = display_free n c"
proof (induction n arbitrary: c)
  case (Suc n)
  obtain r c1 where r: "step_reporting c = (r, c1)" by fastforce
  have s: "step (uncached c) = map_prod id uncached (step c)"
    by (auto simp: step_def step_uncached [OF Suc.prems] r split: rresult.splits)
  have d: "reads_display (uncached c) = reads_display c"
    by (auto simp: reads_display_def fetch_uncached [OF Suc.prems] split: prod.splits rresult.splits option.splits)
  show ?case
  proof (cases r)
    case (Ok x)
    then have "cpu_inv c1" using step_reporting_facts(2) [OF Suc.prems r [unfolded Ok]] by simp
    then show ?thesis using Suc.IH [of c1] d s r Ok by (simp add: step_def)
  qed (use s d r in \<open>simp_all add: step_def\<close>)
qed simp

lemma rom_two_loads:
  obtains c where "flat_load manifest_two rom_two (4 * 2) IPMS_DEFAULT = Ok c" "display_free 3 c"
proof -
  obtain c where c: "flat_load manifest_two rom_two (4 * 2) IPMS_DEFAULT = Ok c" "cpu_inv c" "cpu_pc c = RAM_BASE" "cpu_regs c = replicate 32 0" "cpu_icount c = 0"
    "cpu_memory c = (memory_new (with_ram_size map_clickdoom (4 * 2)) (Registers \<lparr> ipms = IPMS_DEFAULT, key_queue = [], console = [], frame_commits = [] \<rparr>))
      \<lparr>ram := rom_two @ replicate (4 * unat (2 :: u32) - length rom_two) 0, text_region := Some (RAM_BASE, RAM_BASE + 4 * 2)\<rparr>"
    using cli_load_flat [OF _ rom_two_ok(2,3,4,8), of IPMS_DEFAULT] by (auto simp: manifest_two_def map_constants)
  have "uncached c = cpu_two" using c(3-6)
    by (intro cpu.equality) (simp_all add: cpu_two_def cpu_new_def mem_two_def registers_two_def sql_map_def cfg_two_def rom_two_def map_constants)
  then have "display_free 3 c" using display_free_uncached [OF c(2), of 3] display_free_two by simp
  then show ?thesis by (rule that [OF c(1)])
qed

text \<open>
  C1: from the ROM to the verdict.  Provision a database from a ROM and run it to a target, with the trace file the
  emulator's own trace of that ROM: the runner returns, its tables stand for the emulator's machine some steps after
  reset, and its verdict is one a correct run can have: no checkpoint differs, is missing or is left out.
\<close>

theorem rom_run_agrees:
  assumes "rom_ok sha256_hex m blob" "mf_text_start m = Some RAM_BASE" "mf_text_end m = Some (RAM_BASE + 4 * w)"
    and "unat n < 2 ^ 29" "0 < unat w" "unat w \<le> unat n" and "length blob mod 4 = 0" "length blob \<le> 4 * unat n"
    and c: "flat_load m blob (4 * n) IPMS_DEFAULT = Ok c"
    and run: "file = Some (trace_text (trace_lines dg trace_config_default (follow l c)))" "unat (ra_target_icount args) \<le> l" "l < 2 ^ 64"
      "digest_law dg" "display_free (unat (ra_target_icount args)) c" "unat (ra_target_icount args) < 2 ^ 32" "0 < ra_k args"
      "\<And>i. interrupted i \<Longrightarrow> interrupted (Suc i)"
  shows "\<exists>d d' k r d'' i c'. create_and_load_database sha256_hex m blob n = (Ok (), d) \<and> seed RESET_REGS d = (Ok (Fresh 31), d') \<and>
    run_cfg m n hwm = Ok k \<and> run_from (server_hash dg) file (\<lambda>_ d. d) k args interrupted d' = Some (r, d'') \<and>
    run_steps i c = (Ok None, c') \<and> i \<le> unat (ra_target_icount args) \<and> stands_for k d'' c' \<and> verdict args c c' r"
proof -
  let ?k = "rom_cfg w n hwm" and ?p = "reset_row RESET_REGS"
  have "mf_load_addr m \<in> {None, Some RAM_BASE}" using assms(1) by (simp add: rom_ok_def)
  then have k: "run_cfg m n hwm = Ok ?k" using assms(2-6) by (intro run_cfg_base) simp_all
  obtain d d' where d: "create_and_load_database sha256_hex m blob n = (Ok (), d)" "seed RESET_REGS d = (Ok (Fresh 31), d')"
    "cpu_inv c" "cpu_icount c = 0" "latest_by bc_batch_id (t_batch_commit d') = Some ?p" "stands_for ?k (run_all (recover 0) d') c"
    using provision_stands [OF assms(1-8), of hwm] c by auto
  have b: "bc_batch_id ?p = 0" by (simp add: reset_row_def)
  have t: "unat (ra_target_icount args) - unat (cpu_icount c) = unat (ra_target_icount args)" by (simp add: d(4))
  have tr: "traced dg file (unat (ra_target_icount args) - unat (cpu_icount c)) c"
    unfolding traced_def t using d(3,4) run(1-3) by (intro exI [of _ c] exI [of _ 0] exI [of _ l]) simp
  have df: "display_free (unat (ra_target_icount args) - unat (cpu_icount c)) c" using run(5) by (simp only: t)
  have T: "unat (ra_target_icount args) \<le> 2 ^ 63" "unat 0 + (unat (ra_target_icount args) - unat (cpu_icount c)) < 2 ^ 32" using run(6) by simp_all
  obtain i x c' st where r: "run_from (server_hash dg) file (\<lambda>_ d. d) ?k args interrupted d' = Some (run_finish args (interrupted x) (cpu_icount c) st, rs_db st)"
    "run_steps i c = (Ok None, c')" "i \<le> unat (ra_target_icount args)" "run_at ?k st c'" "verdict args c c' (run_finish args (interrupted x) (cpu_icount c) st)"
    by (rule run_from_follows [OF d(5), unfolded b, OF d(6) tr run(4) df T(1) run(7) T(2), of interrupted]) (use run(8) t in auto)
  then show ?thesis using d(1,2) k unfolding run_at_def by blast
qed

theorem rom_run_agrees_witness:
  "\<exists>c d d' k r d'' i c'. flat_load manifest_two rom_two 8 IPMS_DEFAULT = Ok c \<and> seed RESET_REGS d = (Ok (Fresh 31), d') \<and>
    run_from (server_hash digest_small) (Some (trace_text (trace_lines digest_small trace_config_default (follow 3 c)))) (\<lambda>_ d. d) k
      \<lparr> ra_k = 2, ra_target_icount = 3, ra_stop_at_frame = None \<rparr> (\<lambda>_. False) d' = Some (r, d'') \<and>
    run_steps i c = (Ok None, c') \<and> verdict \<lparr> ra_k = 2, ra_target_icount = 3, ra_stop_at_frame = None \<rparr> c c' r"
proof -
  let ?args = "\<lparr> ra_k = 2, ra_target_icount = 3, ra_stop_at_frame = None \<rparr>"
  obtain c where c: "flat_load manifest_two rom_two (4 * 2) IPMS_DEFAULT = Ok c" "display_free 3 c" by (rule rom_two_loads)
  then show ?thesis
    using rom_run_agrees [OF rom_two_ok c(1) refl, of ?args 3 digest_small "\<lambda>_. False" "\<lambda>_. ''''" 10] digest_small_law c(1) by simp blast
qed

end
