(* ===== verification/Emu_Diff.thy ===== *)
theory Emu_Diff
  imports Emu_Load
begin

text \<open>
  The differential runner of \<open>driver/src/emulation/diff.rs\<close>: a fresh database beside a fresh run of the emulator, every
  batch cut at the next checkpoint, the halts compared in shape, and the number of comparisons checked against the
  oracle's own trace.  The emulator is another process; its trace file and halt report are arguments.
\<close>

section \<open>Errors and reports\<close>

datatype diff_error = RomHash string string | DiffLoad load_rom_error | DiffRebase below_base | DiffBootstrap seed_error | DiffDb | DiffRead
  | DiffNoTraceLine u64 u64 | DiffMismatch u64 "u8 list" "u8 list" | SqlcpuOutranRefemuHalt u64 u64 string
  | SqlcpuHaltedAlone string u64 u64 | RefemuHaltedAlone string u64 | HaltShapeMismatch string u64 string u64
  | OracleTraceShortfall string u64 u64 u64 | CountShortfall string u64 u64 u64

record refemu_halt =
  rh_halted :: bool
  rh_reason :: string
  rh_icount :: u64

text \<open>\<open>read_halt_report\<close>: the halt of the report, if it names one, with the report's count.\<close>

definition read_halt_report :: "(halt_reason option \<times> u64) \<Rightarrow> refemu_halt" where
  "read_halt_report report = (case fst report of
     Some reason \<Rightarrow> \<lparr> rh_halted = True, rh_reason = halt_as_str reason, rh_icount = snd report \<rparr>
   | None \<Rightarrow> \<lparr> rh_halted = False, rh_reason = '''', rh_icount = 0 \<rparr>)"

record diff_state =
  ds_db :: database
  ds_icount :: u64
  ds_compared :: u64
  ds_ram_compared :: u64
  ds_halted :: bool
  ds_halt_reason :: string
  ds_batches_run :: u32

record diff_outcome =
  do_requested :: u64
  do_final_icount :: u64
  do_batches_run :: u32
  do_compared :: u64
  do_expected :: u64
  do_ram_compared :: u64
  do_ram_expected :: u64
  do_sqlcpu_halted :: bool

section \<open>Reading the trace\<close>

definition diff_trace_line_for :: "u8 list option \<Rightarrow> u64 \<Rightarrow> (u8 list, diff_error) rresult" where
  "diff_trace_line_for file icount = (case file of None \<Rightarrow> Err DiffRead
   | Some text \<Rightarrow> (case List.find (\<lambda>line. hd (split_at TAB line) = to_decimal (unat icount)) (text_lines text) of
       None \<Rightarrow> Err (DiffNoTraceLine icount CHECKPOINT_INTERVAL) | Some line \<Rightarrow> Ok line))"

fun count_rows :: "u64 \<Rightarrow> u8 list list \<Rightarrow> u64 \<times> u64 \<Rightarrow> u64 \<times> u64" where
  "count_rows final [] acc = acc"
| "count_rows final (line # lines) (rows, ram_hash_rows) = (let fields = split_at TAB line in
     case parse_u64 (hd fields) of
       None \<Rightarrow> count_rows final lines (rows, ram_hash_rows)
     | Some icount \<Rightarrow> if final < icount then count_rows final lines (rows, ram_hash_rows)
         else count_rows final lines (rows + 1, if length fields = 5 then ram_hash_rows + 1 else ram_hash_rows))"

definition trace_rows_in_range :: "u8 list option \<Rightarrow> u64 \<Rightarrow> (u64 \<times> u64, diff_error) rresult" where
  "trace_rows_in_range file final = (case file of None \<Rightarrow> Err DiffRead | Some text \<Rightarrow> Ok (count_rows final (text_lines text) (0, 0)))"

section \<open>The loop\<close>

definition diff_step_k :: "u64 \<Rightarrow> u64 \<Rightarrow> u32" where
  "diff_step_k target icount =
     (let next_boundary = (icount div CHECKPOINT_INTERVAL + 1) * CHECKPOINT_INTERVAL; stop_at = min next_boundary target in
      ucast (stop_at - icount))"

definition diff_compare :: "(u8 list \<Rightarrow> u64) \<Rightarrow> u8 list option \<Rightarrow> refemu_halt \<Rightarrow> u64 \<Rightarrow> database \<Rightarrow> (u64 \<times> u64, diff_error) rresult" where
  "diff_compare xxHash64 file rh icount d =
     (if 0 < icount \<and> is_multiple_of icount CHECKPOINT_INTERVAL then
        if rh_halted rh \<and> rh_icount rh < icount then Err (SqlcpuOutranRefemuHalt icount (rh_icount rh) (rh_reason rh))
        else let at_ram_hash = is_multiple_of icount RAM_HASH_INTERVAL in
          (case if at_ram_hash then checkpoint_sql xxHash64 d else reg_checkpoint_sql xxHash64 d of
             None \<Rightarrow> Err DiffDb
           | Some actual \<Rightarrow> rbind (diff_trace_line_for file icount) (\<lambda>expected.
               if actual \<noteq> expected then Err (DiffMismatch icount expected actual) else Ok (1, if at_ram_hash then 1 else 0)))
      else Ok (0, 0))"

definition diff_body :: "(u8 list \<Rightarrow> u64) \<Rightarrow> u8 list option \<Rightarrow> refemu_halt \<Rightarrow> fold_cfg \<Rightarrow> u64 \<Rightarrow> diff_state \<Rightarrow> (unit, diff_error) rresult \<times> diff_state" where
  "diff_body xxHash64 file rh cfg target st =
     (if \<not> step_builds Baseline cfg then (Panic, st) else
      case batch Baseline cfg (unat (diff_step_k target (ds_icount st))) (ds_db st) of
        None \<Rightarrow> (Err DiffDb, st)
      | Some d1 \<Rightarrow> let batches = ds_batches_run st + 1; batch_id = ucast batches :: u64;
            d2 = retention batch_id BATCH_COMMIT_RETENTION_N (run_all (flush batch_id) d1);
            st2 = st\<lparr>ds_db := d2, ds_batches_run := batches\<rparr> in
        (case latest_by cs_batch_id (t_cpu_state d2) of
           None \<Rightarrow> (Err DiffDb, st2)
         | Some s \<Rightarrow> let st3 = st2\<lparr>ds_icount := cs_icount s\<rparr> in
            (case diff_compare xxHash64 file rh (cs_icount s) d2 of
               Err e \<Rightarrow> (Err e, st3) | Panic \<Rightarrow> (Panic, st3)
             | Ok (a, b) \<Rightarrow> let st4 = st3\<lparr>ds_compared := ds_compared st3 + a, ds_ram_compared := ds_ram_compared st3 + b\<rparr> in
                 (Ok (), if cs_halted s = 1 then st4\<lparr>ds_halted := True, ds_halt_reason := cs_halt_reason s\<rparr> else st4))))"

partial_function (option) diff_loop :: "(u8 list \<Rightarrow> u64) \<Rightarrow> u8 list option \<Rightarrow> refemu_halt \<Rightarrow> fold_cfg \<Rightarrow> u64 \<Rightarrow> diff_state \<Rightarrow>
    ((unit, diff_error) rresult \<times> diff_state) option" where
  "diff_loop xxHash64 file rh cfg target st =
     (if ds_icount st < target \<and> \<not> ds_halted st
      then case diff_body xxHash64 file rh cfg target st of
          (Ok _, st') \<Rightarrow> diff_loop xxHash64 file rh cfg target st'
        | (Err e, st') \<Rightarrow> Some (Err e, st') | (Panic, st') \<Rightarrow> Some (Panic, st')
      else Some (Ok (), st))"

section \<open>The assertions\<close>

definition halt_shape :: "u64 \<Rightarrow> refemu_halt \<Rightarrow> diff_state \<Rightarrow> (unit, diff_error) rresult" where
  "halt_shape target rh st =
     (if ds_halted st \<and> \<not> rh_halted rh then Err (SqlcpuHaltedAlone (ds_halt_reason st) (ds_icount st) target)
      else if \<not> ds_halted st \<and> rh_halted rh \<and> rh_icount rh \<le> ds_icount st then Err (RefemuHaltedAlone (rh_reason rh) (rh_icount rh))
      else if ds_halted st \<and> rh_halted rh \<and> (ds_icount st \<noteq> rh_icount rh \<or> ds_halt_reason st \<noteq> rh_reason rh)
      then Err (HaltShapeMismatch (rh_reason rh) (rh_icount rh) (ds_halt_reason st) (ds_icount st))
      else Ok ())"

definition diff_finish :: "u8 list option \<Rightarrow> refemu_halt \<Rightarrow> u64 \<Rightarrow> diff_state \<Rightarrow> (diff_outcome, diff_error) rresult" where
  "diff_finish file rh target st =
     (let final = ds_icount st; expected = final div CHECKPOINT_INTERVAL; ram_expected = final div RAM_HASH_INTERVAL;
          checkpoint = ''CHECKPOINT_INTERVAL''; ram_hash = ''RAM_HASH_INTERVAL'' in
      rbind (halt_shape target rh st) (\<lambda>_. rbind (trace_rows_in_range file final) (\<lambda>(rows, ram_rows).
        if rows \<noteq> expected then Err (OracleTraceShortfall checkpoint rows expected final)
        else if ds_compared st \<noteq> expected then Err (CountShortfall checkpoint (ds_compared st) expected final)
        else if ram_rows \<noteq> ram_expected then Err (OracleTraceShortfall ram_hash ram_rows ram_expected final)
        else if ds_ram_compared st \<noteq> ram_expected then Err (CountShortfall ram_hash (ds_ram_compared st) ram_expected final)
        else Ok \<lparr> do_requested = target, do_final_icount = final, do_batches_run = ds_batches_run st, do_compared = ds_compared st,
          do_expected = expected, do_ram_compared = ds_ram_compared st, do_ram_expected = ram_expected, do_sqlcpu_halted = ds_halted st \<rparr>)))"

text \<open>\<open>run_inner\<close>: the ROM is the pinned one, the database is provisioned fresh, then the loop and the assertions.\<close>

definition diff_run :: "(u8 list \<Rightarrow> string) \<Rightarrow> (u8 list \<Rightarrow> u64) \<Rightarrow> string \<Rightarrow> manifest \<Rightarrow> u8 list \<Rightarrow> u32 \<Rightarrow> u32 \<Rightarrow> u8 list option \<Rightarrow>
    halt_reason option \<times> u64 \<Rightarrow> u64 \<Rightarrow> (diff_outcome, diff_error) rresult option" where
  "diff_run sha256_hex xxHash64 pinned_hex m blob ram_words hwm file report target =
     (if sha256_hex blob \<noteq> pinned_hex then Some (Err (RomHash (sha256_hex blob) pinned_hex))
      else case run_cfg m ram_words hwm of Panic \<Rightarrow> Some Panic | Err e \<Rightarrow> Some (Err (DiffRebase e)) | Ok cfg \<Rightarrow>
       (case create_and_load_database sha256_hex m blob ram_words of
          (Panic, _) \<Rightarrow> Some Panic | (Err e, _) \<Rightarrow> Some (Err (DiffLoad e))
        | (Ok _, d) \<Rightarrow> (case seed RESET_REGS d of
             (Panic, _) \<Rightarrow> Some Panic | (Err e, _) \<Rightarrow> Some (Err (DiffBootstrap e))
           | (Ok _, d') \<Rightarrow> map_option (\<lambda>(r, st). rbind r (\<lambda>_. diff_finish file (read_halt_report report) target st))
               (diff_loop xxHash64 file (read_halt_report report) cfg target
                 \<lparr> ds_db = cpu_state_flush 0 d', ds_icount = 0, ds_compared = 0, ds_ram_compared = 0, ds_halted = False,
                    ds_halt_reason = '''', ds_batches_run = 0 \<rparr>))))"

interpretation diff_trace_reader: trace_reader diff_trace_line_for
  by unfold_locales (simp add: diff_trace_line_for_def)

section \<open>Counting what the trace holds\<close>

abbreviation at_ram_hash :: "cpu \<Rightarrow> bool" where
  "at_ram_hash c \<equiv> is_ram_hash trace_config_default (cpu_icount c)"

abbreviation crossed_by :: "nat \<Rightarrow> cpu \<Rightarrow> cpu \<Rightarrow> nat" where
  "crossed_by w c c' \<equiv> unat (cpu_icount c') div w - unat (cpu_icount c) div w"

lemma at_ram_hash_nat: "at_ram_hash c \<longleftrightarrow> 0 < unat (cpu_icount c) \<and> unat (cpu_icount c) mod 1048576 = 0"
proof -
  have "cpu_icount c mod 1048576 = 0 \<longleftrightarrow> unat (cpu_icount c mod 1048576) = 0" by (simp add: unat_eq_0)
  also have "unat (cpu_icount c mod 1048576) = unat (cpu_icount c) mod 1048576" by (simp add: unat_mod)
  finally show ?thesis by (auto simp: is_ram_hash_def is_multiple_of_def trace_config_default_def RAM_HASH_INTERVAL_def unat_gt_0)
qed

lemma ram_hash_cadence: "at_ram_hash c \<Longrightarrow> at_cadence c"
  unfolding at_ram_hash_nat at_cadence_nat by (auto intro: dvd_trans [of 4096 "1048576 :: nat"] simp: mod_eq_0_iff_dvd)

lemma follow_split: "run_steps m c = (Ok None, c') \<Longrightarrow> m \<le> l \<Longrightarrow> follow l c = follow m c @ follow (l - m) c'"
proof (induction m arbitrary: c l)
  case (Suc m)
  from Suc.prems(1) obtain c1 y where "step_reporting c = (Ok y, c1)" "run_steps m c1 = (Ok None, c')" by (rule run_steps_Suc)
  then show ?case using Suc.IH [of c1 "l - 1"] Suc.prems(2) by (cases l) simp_all
qed simp

lemma follow_counted:
  assumes "cpu_inv c" "run_steps m c = (Ok None, c')" "unat (cpu_icount c) + m < 2 ^ 64" "0 < w"
  shows "length (filter (\<lambda>x. unat (cpu_icount x) mod w = 0) (follow m c)) = crossed_by w c c'"
  using assms(1-3)
proof (induction m arbitrary: c)
  case (Suc m)
  from Suc.prems(2) obtain c1 y where s: "step_reporting c = (Ok y, c1)" "run_steps m c1 = (Ok None, c')" by (rule run_steps_Suc)
  note f = step_reporting_facts [OF Suc.prems(1) s(1)]
  have u: "unat (cpu_icount c1) = unat (cpu_icount c) + 1" using f(5) Suc.prems(3) by (auto simp: unat_word_ariths)
  have c': "unat (cpu_icount c') = unat (cpu_icount c1) + m"
    using run_steps_icount [OF f(2) s(2)] Suc.prems(3) u by (simp add: unat_word_ariths unat_of_nat)
  have "crossed_by w c c' = crossed_by w c1 c' + of_bool (unat (cpu_icount c1) mod w = 0)"
    using div_le_mono [of "unat (cpu_icount c1)" "unat (cpu_icount c')" w] c' assms(4) unfolding u by (auto simp: div_Suc mod_Suc)
  moreover have "length (filter (\<lambda>x. unat (cpu_icount x) mod w = 0) (follow m c1)) = crossed_by w c1 c'"
    using Suc.IH [OF f(2) s(2)] Suc.prems(3) u by simp
  ultimately show ?case using s(1) by simp
qed simp

lemma count_rows_lines:
  assumes "\<forall>cp \<in> set cps. checkpoint_ok cp"
  shows "count_rows final (map checkpoint_display cps) (a, b) =
    (a + of_nat (length (filter (\<lambda>cp. ck_icount cp \<le> final) cps)),
     b + of_nat (length (filter (\<lambda>cp. ck_icount cp \<le> final \<and> ck_ramhash cp \<noteq> None) cps)))"
  using assms
proof (induction cps arbitrary: a b)
  case (Cons cp cps)
  have p: "parse_u64 (hd (split_at TAB (checkpoint_display cp))) = Some (ck_icount cp)"
    by (simp only: display_first_field parse_u64_to_decimal)
  have "length (split_at TAB (checkpoint_display cp)) = 5 \<longleftrightarrow> ck_ramhash cp \<noteq> None"
    using Cons.prems by (auto simp: split_display checkpoint_fields_def checkpoint_ok_def split: option.splits)
  then show ?case using Cons p by (simp add: Let_def not_less add.assoc)
qed simp

text \<open>The trace of a run that passes \<open>c'\<close> holds, up to its count, a row for every boundary.\<close>

lemma trace_rows_exact:
  assumes "cpu_inv c" "cpu_icount c = 0" "run_steps m c = (Ok None, c')" "m \<le> l" "l < 2 ^ 64"
  shows "trace_rows_in_range (Some (trace_text (trace_lines dg trace_config_default (follow l c)))) (cpu_icount c') =
    Ok (of_nat (unat (cpu_icount c') div 4096), of_nat (unat (cpu_icount c') div 1048576))"
proof -
  let ?cp = "\<lambda>x. checkpoint_of dg x (at_ram_hash x)" and ?f = "cpu_icount c'"
  have inv': "cpu_inv c'" by (rule steps_inv [OF assms(3,1)])
  have ic: "unat ?f = m" using run_steps_icount [OF assms(1,3)] assms(2,4,5) by (simp add: unat_of_nat)
  have lo: "unat (cpu_icount x) \<le> unat ?f \<and> 0 < unat (cpu_icount x)" if x: "x \<in> set (follow m c)" for x
  proof -
    from follow_reaches [OF x] obtain j where j: "0 < j" "j \<le> m" "run_steps j c = (Ok None, x)" by blast
    then show ?thesis using run_steps_icount [OF assms(1) j(3)] assms(2,4,5) ic by (simp add: unat_of_nat)
  qed
  have hi: "\<not> unat (cpu_icount x) \<le> unat ?f" if "x \<in> set (follow (l - m) c')" for x
    using follow_counts [OF inv', of "l - m"] ic assms(4,5) that by force
  have sp: "follow l c = follow m c @ follow (l - m) c'" by (rule follow_split [OF assms(3,4)])
  have sel: "ck_icount (?cp x) = cpu_icount x" "(\<exists>y. ck_ramhash (?cp x) = Some y) \<longleftrightarrow> at_ram_hash x" "checkpoint_ok (?cp x)" for x
    by (simp_all add: checkpoint_of_def with_memory_def registers_only_def checkpoint_ok_def)
  have "filter (\<lambda>x. at_cadence x \<and> cpu_icount x \<le> ?f) (follow l c) = filter (\<lambda>x. unat (cpu_icount x) mod 4096 = 0) (follow m c)"
    "filter (\<lambda>x. at_cadence x \<and> cpu_icount x \<le> ?f \<and> at_ram_hash x) (follow l c) = filter (\<lambda>x. unat (cpu_icount x) mod 1048576 = 0) (follow m c)"
    using lo hi ram_hash_cadence by (auto simp: sp at_cadence_nat at_ram_hash_nat word_le_nat_alt filter_empty_conv intro!: filter_cong)
  note n = arg_cong [OF this(1), of length] arg_cong [OF this(2), of length]
  have cnt: "length (filter (\<lambda>x. unat (cpu_icount x) mod w = 0) (follow m c)) = unat ?f div w" if "0 < w" for w
    using follow_counted [OF assms(1,3) _ that] assms(2,4,5) by simp
  show ?thesis
    using n cnt count_rows_lines [of "trace_lines dg trace_config_default (follow l c)" ?f 0 0]
    by (simp add: trace_rows_in_range_def trace_text_lines trace_lines_def sel filter_map o_def conj_commute conj_left_commute)
qed

section \<open>One round\<close>

lemma diff_step_k_bounds:
  assumes "icount < target" "unat target \<le> 2 ^ 63"
  shows "0 < unat (diff_step_k target icount)" "unat (diff_step_k target icount) \<le> unat target - unat icount"
    "unat icount + unat (diff_step_k target icount) \<le> (unat icount div 4096 + 1) * 4096"
proof -
  have v: "0 < unat CHECKPOINT_INTERVAL" "unat CHECKPOINT_INTERVAL \<le> 2 ^ 32" "unat CHECKPOINT_INTERVAL = 4096" by (simp_all add: CHECKPOINT_INTERVAL_def)
  let ?r = "min ((icount div CHECKPOINT_INTERVAL + 1) * CHECKPOINT_INTERVAL) target - icount"
  note b = to_boundary [OF assms v(1,2), unfolded v(3)]
  have "(unat icount div 4096 + 1) * 4096 \<le> unat icount + 4096" using div_times_less_eq_dividend [of "unat icount" 4096] by simp
  then have "unat ?r \<le> 4096" using b by simp
  then have "unat (diff_step_k target icount) = unat ?r" by (simp add: diff_step_k_def Let_def unsigned_ucast_eq take_bit_nat_eq_self)
  then show "0 < unat (diff_step_k target icount)" "unat (diff_step_k target icount) \<le> unat target - unat icount"
    "unat icount + unat (diff_step_k target icount) \<le> (unat icount div 4096 + 1) * 4096"
    using b assms(1) by (auto simp: min_def word_less_nat_alt)
qed

lemma boundary_reached:
  fixes i m w :: nat
  assumes "i + m \<le> (i div w + 1) * w" "0 < m" "0 < w"
  shows "(i + m) div w - i div w = of_bool ((i + m) mod w = 0)"
proof (cases "i + m = (i div w + 1) * w")
  case True
  then have "(i + m) div w = i div w + 1" "(i + m) mod w = 0" using assms(3) by simp_all
  then show ?thesis by simp
next
  case False
  then have "(i + m) div w < i div w + 1" using assms by (simp add: div_less_iff_less_mult)
  moreover have "i div w \<le> (i + m) div w" by (rule div_le_mono) simp
  ultimately have e: "(i + m) div w = i div w" by simp
  have "(i + m) mod w \<noteq> 0"
  proof
    assume "(i + m) mod w = 0"
    then have "i + m = i div w * w" using div_mult_mod_eq [of "i + m" w] e by simp
    then show False using div_times_less_eq_dividend [of i w] assms(2) by simp
  qed
  then show ?thesis using e by simp
qed

definition diff_at :: "fold_cfg \<Rightarrow> diff_state \<Rightarrow> cpu \<Rightarrow> bool" where
  "diff_at k st c \<longleftrightarrow> stands_for k (ds_db st) c \<and> ds_icount st = cpu_icount c \<and>
     (\<exists>p. latest_by bc_batch_id (t_batch_commit (ds_db st)) = Some p \<and> bc_batch_id p = ucast (ds_batches_run st))"

lemma diff_compare_ok:
  assumes "stands_for k d c" "digest_law dg" "\<not> (rh_halted rh \<and> rh_icount rh < cpu_icount c)"
    "at_cadence c \<Longrightarrow> diff_trace_line_for file (cpu_icount c) = Ok (checkpoint_display (checkpoint_of dg c (at_ram_hash c)))"
  shows "diff_compare (server_hash dg) file rh (cpu_icount c) d = Ok (of_bool (at_cadence c), of_bool (at_ram_hash c))"
proof (cases "at_cadence c")
  case True
  have "is_multiple_of (cpu_icount c) RAM_HASH_INTERVAL = at_ram_hash c" using True by (auto simp: is_ram_hash_def is_checkpoint_def trace_config_default_def)
  then show ?thesis using True lines_agree [OF assms(1,2)] assms(3,4)
    by (auto simp: diff_compare_def Let_def is_checkpoint_def trace_config_default_def word_neq_0_conv)
next
  case False
  then have "\<not> at_ram_hash c" using ram_hash_cadence by blast
  then show ?thesis using False by (auto simp: diff_compare_def is_checkpoint_def trace_config_default_def)
qed

text \<open>The oracle's halt, if it has one, is not behind any machine of the next \<open>n\<close> steps.\<close>

definition oracle_ahead :: "refemu_halt \<Rightarrow> nat \<Rightarrow> cpu \<Rightarrow> bool" where
  "oracle_ahead rh n c \<longleftrightarrow> (\<forall>j x. run_steps j c = (Ok None, x) \<and> j \<le> n \<and> rh_halted rh \<longrightarrow> cpu_icount x \<le> rh_icount rh)"

lemma oracle_ahead_mono: "oracle_ahead rh n c \<Longrightarrow> m \<le> n \<Longrightarrow> oracle_ahead rh m c"
  unfolding oracle_ahead_def by (meson le_trans)

lemma oracle_ahead_later: "oracle_ahead rh n c \<Longrightarrow> run_steps m c = (Ok None, c') \<Longrightarrow> m \<le> n \<Longrightarrow> oracle_ahead rh (n - m) c'"
  unfolding oracle_ahead_def by (metis run_steps_add le_diff_conv2 add.commute)

lemma diff_body_sim:
  assumes at: "diff_at k st c" "\<not> ds_halted st" and tr: "traced dg file n c" "digest_law dg"
    and n: "n = unat (diff_step_k target (ds_icount st))" "0 < n" "display_free n c" "unat (cpu_icount c) + n < 2 ^ 64"
    and b: "unat (ds_batches_run st) + 1 < 2 ^ 32"
    and rh: "oracle_ahead rh n c"
  shows "\<exists>m c' st'. diff_body (server_hash dg) file rh k target st = (Ok (), st') \<and> m \<le> n \<and> run_steps m c = (Ok None, c') \<and> diff_at k st' c' \<and>
    ds_batches_run st' = ds_batches_run st + 1 \<and> (0 < m \<or> ds_halted st') \<and>
    (ds_halted st' \<longrightarrow> m < n \<and> (\<exists>h. step c' = (Err h, c') \<and> ds_halt_reason st' = halt_as_str (h_reason h))) \<and>
    ds_compared st' = ds_compared st + of_bool (at_cadence c') \<and> ds_ram_compared st' = ds_ram_compared st + of_bool (at_ram_hash c')"
proof -
  from at obtain p where p: "stands_for k (ds_db st) c" "ds_icount st = cpu_icount c" "latest_by bc_batch_id (t_batch_commit (ds_db st)) = Some p"
    "bc_batch_id p = ucast (ds_batches_run st)" unfolding diff_at_def by blast
  have sb: "step_builds Baseline k" using p(1) tables_build by (auto simp: stands_for_def)
  have n32: "n < 2 ^ 32" unfolding n(1) using unsigned_less [where 'a = nat and 'b = 32] by simp
  have ub: "unat (ucast x :: u64) = unat x" for x :: u32 using unsigned_less [of x, where 'a = nat] by (simp add: unsigned_ucast_eq take_bit_nat_eq_self)
  have b1: "unat (bc_batch_id p) + 1 < 2 ^ 32" using b p(4) ub by simp
  have nx: "ucast (ds_batches_run st + 1) = bc_batch_id p + 1"
    using b by (simp add: p(4) word_unat_eq_iff ub unat_word_ariths)
  obtain d' p' m c' where t: "turn Baseline k n (ds_db st) = Some d'" "m \<le> n" "run_steps m c = (Ok None, c')" "stands_for k d' c'"
    "latest_by bc_batch_id (t_batch_commit d') = Some p'" "bc_batch_id p' = bc_batch_id p + 1" "row_outcome n m c' p'"
    using turn_sim [OF p(1,3) n(3,4) n32 b1, of Baseline] by blast
  obtain d1 where d1: "batch Baseline k n (ds_db st) = Some d1"
    "d' = retention (bc_batch_id p') BATCH_COMMIT_RETENTION_N (run_all (flush (bc_batch_id p')) d1)"
    by (rule turn_parts [OF p(3) b1 t(1,5)])
  have s: "latest_by cs_batch_id (t_cpu_state d') = Some (cpu_state_of p')" "bc_icount p' = cpu_icount c'" using t(4,5) by (auto simp: stands_for_def)
  have cmp: "diff_compare (server_hash dg) file rh (cpu_icount c') d' = Ok (of_bool (at_cadence c'), of_bool (at_ram_hash c'))"
    by (rule diff_compare_ok [OF t(4) tr(2)]) (use rh t(2,3) diff_trace_reader.lookup_traced [OF tr(1) t(3,2)] in \<open>auto simp: oracle_ahead_def not_less\<close>)
  let ?st = "st\<lparr>ds_db := d', ds_batches_run := ds_batches_run st + 1, ds_icount := cpu_icount c',
    ds_compared := ds_compared st + of_bool (at_cadence c'), ds_ram_compared := ds_ram_compared st + of_bool (at_ram_hash c')\<rparr>"
  let ?st' = "if bc_halted p' = 1 then ?st\<lparr>ds_halted := True, ds_halt_reason := bc_halt_reason p'\<rparr> else ?st"
  have "diff_body (server_hash dg) file rh k target st = (Ok (), ?st')"
    using sb s cmp d1 t(6) by (simp add: diff_body_def n(1) [symmetric] Let_def nx cpu_state_of_def)
  moreover have "diff_at k ?st' c'" using t(4,5,6) nx by (simp add: diff_at_def)
  ultimately show ?thesis using t(2,3,7) n(2) at(2)
    by (intro exI [of _ m] exI [of _ c'] exI [of _ ?st']) (auto simp: row_outcome_def split: if_splits)
qed

lemma coarser_boundary: "(i div 4096 + 1) * 4096 \<le> (i div 1048576 + 1) * (1048576 :: nat)"
proof -
  have "i div 1048576 = i div 4096 div 256" by (simp flip: div_mult2_eq)
  then have "i div 4096 < (i div 1048576 + 1) * 256" using dividend_less_div_times [of 256 "i div 4096"] by simp
  then show ?thesis by simp
qed

text \<open>What a round counts: the boundary it reached, or once more the one it halted on.\<close>

lemma round_count:
  fixes i m n w :: nat
  assumes "i + n \<le> (i div w + 1) * w" "0 < w" "m \<le> n" "0 < m \<or> halted" "halted \<longrightarrow> m < n"
  shows "of_bool (0 < i + m \<and> (i + m) mod w = 0) = (i + m) div w - i div w + of_bool (halted \<and> 0 < i + m \<and> (i + m) mod w = (0 :: nat))"
proof (cases "m = 0")
  case True
  then show ?thesis using assms(4) by simp
next
  case False
  have b: "(i + m) div w - i div w = of_bool ((i + m) mod w = 0)" by (rule boundary_reached) (use assms False in auto)
  show ?thesis
  proof (cases halted)
    case True
    then have "(i + m) div w < i div w + 1" using assms by (simp add: div_less_iff_less_mult)
    then have "(i + m) mod w \<noteq> 0" using b by (cases "(i + m) mod w = 0") auto
    then show ?thesis using b by simp
  qed (use b False in simp)
qed

definition diff_follows :: "fold_cfg \<Rightarrow> u64 \<Rightarrow> cpu \<Rightarrow> u64 \<Rightarrow> u64 \<Rightarrow> ((unit, diff_error) rresult \<times> diff_state) option \<Rightarrow> bool" where
  "diff_follows k target c compared ram_compared r \<longleftrightarrow> (\<exists>m c' st. r = Some (Ok (), st) \<and> run_steps m c = (Ok None, c') \<and>
     m \<le> unat target - unat (cpu_icount c) \<and> diff_at k st c' \<and>
     (if ds_halted st then cpu_icount c' < target \<and> (\<exists>h. step c' = (Err h, c') \<and> ds_halt_reason st = halt_as_str (h_reason h)) else target \<le> cpu_icount c') \<and>
     ds_compared st = compared + of_nat (crossed_by 4096 c c' + of_bool (ds_halted st \<and> at_cadence c')) \<and>
     ds_ram_compared st = ram_compared + of_nat (crossed_by 1048576 c c' + of_bool (ds_halted st \<and> at_ram_hash c')))"

lemma diff_follows_later:
  assumes s: "run_steps m c = (Ok None, c1)" "unat (cpu_icount c1) = unat (cpu_icount c) + m" "m \<le> unat target - unat (cpu_icount c)"
    and T: "unat target \<le> 2 ^ 63" and inv: "cpu_inv c1"
    and r: "diff_follows k target c1 (compared + of_nat (crossed_by 4096 c c1)) (ram_compared + of_nat (crossed_by 1048576 c c1)) r"
  shows "diff_follows k target c compared ram_compared r"
proof -
  from r obtain m' c' st where f: "r = Some (Ok (), st)" "run_steps m' c1 = (Ok None, c')" "m' \<le> unat target - unat (cpu_icount c1)" "diff_at k st c'"
    "if ds_halted st then cpu_icount c' < target \<and> (\<exists>h. step c' = (Err h, c') \<and> ds_halt_reason st = halt_as_str (h_reason h)) else target \<le> cpu_icount c'"
    "ds_compared st = compared + of_nat (crossed_by 4096 c c1) + of_nat (crossed_by 4096 c1 c' + of_bool (ds_halted st \<and> at_cadence c'))"
    "ds_ram_compared st = ram_compared + of_nat (crossed_by 1048576 c c1) + of_nat (crossed_by 1048576 c1 c' + of_bool (ds_halted st \<and> at_ram_hash c'))"
    unfolding diff_follows_def by blast
  have "unat (cpu_icount c') = unat (cpu_icount c1) + m'"
  proof (cases "m' = 0")
    case False
    then show ?thesis using run_steps_icount [OF inv f(2)] f(3) T by (simp add: unat_word_ariths unat_of_nat)
  qed (use f(2) in simp)
  then have x: "crossed_by w c c' = crossed_by w c c1 + crossed_by w c1 c'" for w
    using s(2) div_le_mono [of "unat (cpu_icount c)" "unat (cpu_icount c1)" w] div_le_mono [of "unat (cpu_icount c1)" "unat (cpu_icount c')" w] by simp
  have "run_steps (m + m') c = (Ok None, c')" using run_steps_add [OF s(1)] f(2) by simp
  moreover have "m + m' \<le> unat target - unat (cpu_icount c)" using f(3) s(2,3) by simp
  moreover have "ds_compared st = compared + of_nat (crossed_by 4096 c c' + of_bool (ds_halted st \<and> at_cadence c'))"
    "ds_ram_compared st = ram_compared + of_nat (crossed_by 1048576 c c' + of_bool (ds_halted st \<and> at_ram_hash c'))"
    unfolding x f(6,7) by (simp_all add: add.assoc)
  ultimately show ?thesis unfolding diff_follows_def using f(1,4,5) by blast
qed

section \<open>The whole loop\<close>

lemma diff_loop_follows:
  assumes "diff_at k st c" "\<not> ds_halted st" "traced dg file (unat target - unat (cpu_icount c)) c" "digest_law dg"
    "display_free (unat target - unat (cpu_icount c)) c" "unat target \<le> 2 ^ 63" "unat (ds_batches_run st) + (unat target - unat (cpu_icount c)) < 2 ^ 32"
    "oracle_ahead rh (unat target - unat (cpu_icount c)) c"
  shows "diff_follows k target c (ds_compared st) (ds_ram_compared st) (diff_loop (server_hash dg) file rh k target st)"
  using assms
proof (induction "unat target - unat (cpu_icount c)" arbitrary: c st rule: less_induct)
  case less
  let ?run = "\<lambda>st. diff_loop (server_hash dg) file rh k target st" and ?i = "unat (cpu_icount c)"
  have ic: "ds_icount st = cpu_icount c" using less.prems(1) by (simp add: diff_at_def)
  have inv: "cpu_inv c" using less.prems(1) by (auto simp: diff_at_def stands_for_def captures_def)
  show ?case
  proof (cases "cpu_icount c < target")
    case False
    then have "?run st = Some (Ok (), st)" using ic by (subst diff_loop.simps) simp
    then show ?thesis using False less.prems(1,2) unfolding diff_follows_def by (intro exI [of _ 0] exI [of _ c] exI [of _ st]) (simp add: not_less)
  next
    case lt: True
    let ?n = "unat (diff_step_k target (ds_icount st))"
    note sk = diff_step_k_bounds [OF lt less.prems(6), folded ic]
    have tr: "traced dg file ?n c" using less.prems(3) sk(2) by (fastforce simp: traced_def ic)
    have df: "display_free ?n c" by (rule display_free_mono [OF less.prems(5)]) (use sk(2) ic in simp)
    have w: "?i + ?n < 2 ^ 64" "unat (ds_batches_run st) + 1 < 2 ^ 32"
      using sk(2) less.prems(6,7) lt unfolding ic word_less_nat_alt by auto
    have rh: "oracle_ahead rh ?n c" by (rule oracle_ahead_mono [OF less.prems(8)]) (use sk(2) ic in simp)
    obtain m c1 st1 where b: "diff_body (server_hash dg) file rh k target st = (Ok (), st1)" "m \<le> ?n" "run_steps m c = (Ok None, c1)" "diff_at k st1 c1"
      "ds_batches_run st1 = ds_batches_run st + 1" "0 < m \<or> ds_halted st1"
      "ds_halted st1 \<longrightarrow> m < ?n \<and> (\<exists>h. step c1 = (Err h, c1) \<and> ds_halt_reason st1 = halt_as_str (h_reason h))"
      "ds_compared st1 = ds_compared st + of_bool (at_cadence c1)" "ds_ram_compared st1 = ds_ram_compared st + of_bool (at_ram_hash c1)"
      using diff_body_sim [OF less.prems(1,2) tr less.prems(4) refl sk(1) df w rh] by blast
    have e: "?run st = ?run st1" using lt ic less.prems(2) b(1) by (subst diff_loop.simps) simp
    have ic1: "unat (cpu_icount c1) = ?i + m" using run_steps_icount [OF inv b(3)] b(2) w(1) by (simp add: unat_word_ariths unat_of_nat)
    have m: "m \<le> unat target - ?i" using b(2) sk(2) ic by simp
    have h': "ds_halted st1 \<longrightarrow> m < ?n" using b(7) by blast
    have cnt: "of_bool (at_cadence c1) = (of_nat (crossed_by 4096 c c1 + of_bool (ds_halted st1 \<and> at_cadence c1)) :: u64)"
      "of_bool (at_ram_hash c1) = (of_nat (crossed_by 1048576 c c1 + of_bool (ds_halted st1 \<and> at_ram_hash c1)) :: u64)"
      using round_count [OF sk(3) [unfolded ic] _ b(2) [unfolded ic] b(6) h' [unfolded ic]]
        round_count [OF le_trans [OF sk(3) [unfolded ic] coarser_boundary] _ b(2) [unfolded ic] b(6) h' [unfolded ic]]
      unfolding at_cadence_nat at_ram_hash_nat ic1 by (metis of_nat_of_bool zero_less_numeral)+
    have cmp: "ds_compared st1 = ds_compared st + of_nat (crossed_by 4096 c c1 + of_bool (ds_halted st1 \<and> at_cadence c1))"
      "ds_ram_compared st1 = ds_ram_compared st + of_nat (crossed_by 1048576 c c1 + of_bool (ds_halted st1 \<and> at_ram_hash c1))"
      unfolding b(8,9) by (rule arg_cong [OF cnt(1)], rule arg_cong [OF cnt(2)])
    show ?thesis
    proof (cases "ds_halted st1")
      case True
      have "?run st1 = Some (Ok (), st1)" using True by (subst diff_loop.simps) simp
      moreover have "cpu_icount c1 < target" using ic1 b(7) True sk(2) lt ic by (auto simp: word_less_nat_alt)
      ultimately show ?thesis unfolding e diff_follows_def using b(3,4,7) m True cmp by (intro exI [of _ m] exI [of _ c1] exI [of _ st1]) simp
    next
      case go: False
      let ?l = "unat target - unat (cpu_icount c1)"
      have l: "?l < unat target - ?i" "?l = unat target - ?i - m" using b(6) go m ic1 by auto
      have inv1: "cpu_inv c1" by (rule steps_inv [OF b(3) inv])
      have "unat (ds_batches_run st1) + ?l < 2 ^ 32" using less.prems(7) l b(5,6) w(2) m go by (simp add: unat_word_ariths)
      moreover have "traced dg file ?l c1" unfolding l(2) by (rule traced_later [OF less.prems(3) b(3) m])
      moreover have "display_free ?l c1" unfolding l(2) by (rule display_free_add [OF b(3)]) (simp only: le_add_diff_inverse [OF m] less.prems(5))
      moreover have "oracle_ahead rh ?l c1" unfolding l(2) by (rule oracle_ahead_later [OF less.prems(8) b(3) m])
      ultimately have "diff_follows k target c1 (ds_compared st1) (ds_ram_compared st1) (?run st1)"
        using less.hyps [OF l(1) b(4) go _ less.prems(4) _ less.prems(6)] by blast
      then show ?thesis unfolding e using diff_follows_later [OF b(3) ic1 m less.prems(6) inv1] cmp go by simp
    qed
  qed
qed

section \<open>The verdict\<close>

text \<open>What the emulator reports of a run with a budget: the reason of its halt, if it came, and its count.\<close>

definition report_of :: "nat \<Rightarrow> cpu \<Rightarrow> halt_reason option \<times> u64" where
  "report_of n c = (case run_steps n c of (Ok (Some h), c') \<Rightarrow> (Some (h_reason h), cpu_icount c') | (_, c') \<Rightarrow> (None, cpu_icount c'))"

lemma steps_then_halt: "run_steps m c = (Ok None, c') \<Longrightarrow> step c' = (Err h, c') \<Longrightarrow> m < n \<Longrightarrow> run_steps n c = (Ok (Some h), c')"
proof -
  assume a: "run_steps m c = (Ok None, c')" "step c' = (Err h, c')" "m < n"
  then obtain j where "n = m + Suc j" by (metis less_iff_Suc_add add_Suc_right)
  then show ?thesis using run_steps_add [OF a(1), of "Suc j"] a(2) by simp
qed

lemma halted_count: "cpu_inv x \<Longrightarrow> run_steps n x = (Ok (Some h), c') \<Longrightarrow> unat (cpu_icount x) + n < 2 ^ 64 \<Longrightarrow> unat (cpu_icount x) \<le> unat (cpu_icount c')"
proof (induction n arbitrary: x)
  case (Suc n)
  obtain r x1 where r: "step_reporting x = (r, x1)" by fastforce
  note f = step_reporting_facts [OF Suc.prems(1) r]
  show ?case
  proof (cases r)
    case (Ok y)
    then have "unat (cpu_icount x1) = unat (cpu_icount x) + 1" using f(5) Suc.prems(3) by (auto simp: unat_word_ariths)
    then show ?thesis using Suc.IH [OF f(2)] Suc.prems(2,3) r Ok by (simp add: step_def)
  next
    case (Err e)
    then have "x1 = c'" using Suc.prems(2) r by (simp add: step_def)
    then show ?thesis using step_Err(2) [OF r [unfolded Err]] by auto
  qed (use f(1) in simp)
qed simp

lemma report_ahead:
  assumes "cpu_inv c" "cpu_icount c = 0" "n < 2 ^ 64"
  shows "oracle_ahead (read_halt_report (report_of n c)) n c"
  unfolding oracle_ahead_def
proof (intro allI impI, elim conjE)
  fix j x assume a: "run_steps j c = (Ok None, x)" "j \<le> n" "rh_halted (read_halt_report (report_of n c))"
  from a(3) obtain h c' where r: "run_steps n c = (Ok (Some h), c')"
    by (auto simp: report_of_def read_halt_report_def split: prod.splits rresult.splits option.splits)
  have "run_steps (n - j) x = (Ok (Some h), c')" using run_steps_add [OF a(1), of "n - j"] a(2) r by simp
  moreover have "unat (cpu_icount x) = j" using run_steps_icount [OF assms(1) a(1)] assms(2,3) a(2) by (simp add: unat_of_nat)
  ultimately have "unat (cpu_icount x) \<le> unat (cpu_icount c')" using halted_count [OF steps_inv [OF a(1) assms(1)]] assms(3) a(2) by simp
  then show "cpu_icount x \<le> rh_icount (read_halt_report (report_of n c))" using r by (simp add: report_of_def read_halt_report_def word_le_nat_alt)
qed

text \<open>
  What the differential runner may conclude of the machine at \<open>c'\<close>: every boundary compared and the halt, if any, the
  same on both sides; or, when that halt is on a boundary, the count that is one too many.
\<close>

definition diff_verdict :: "u64 \<Rightarrow> cpu \<Rightarrow> (diff_outcome, diff_error) rresult \<Rightarrow> bool" where
  "diff_verdict target c' r = (case r of
     Ok out \<Rightarrow> do_final_icount out = cpu_icount c' \<and> do_compared out = cpu_icount c' div CHECKPOINT_INTERVAL \<and>
       do_ram_compared out = cpu_icount c' div RAM_HASH_INTERVAL \<and>
       (if do_sqlcpu_halted out then \<exists>h. step c' = (Err h, c') else target \<le> cpu_icount c')
   | Err e \<Rightarrow> at_cadence c' \<and> (\<exists>h. step c' = (Err h, c')) \<and>
       e = CountShortfall ''CHECKPOINT_INTERVAL'' (cpu_icount c' div CHECKPOINT_INTERVAL + 1) (cpu_icount c' div CHECKPOINT_INTERVAL) (cpu_icount c')
   | Panic \<Rightarrow> False)"

lemma div_word: "(x :: u64) div CHECKPOINT_INTERVAL = of_nat (unat x div 4096)" "x div RAM_HASH_INTERVAL = of_nat (unat x div 1048576)"
  by (simp_all add: word_arith_nat_div CHECKPOINT_INTERVAL_def RAM_HASH_INTERVAL_def)

lemma diff_finish_verdict:
  assumes c: "cpu_inv c" "cpu_icount c = 0" "unat target < 2 ^ 64" and s: "run_steps m c = (Ok None, c')" "m \<le> unat target"
    and st: "diff_at k st c'" "if ds_halted st then cpu_icount c' < target \<and> (\<exists>h. step c' = (Err h, c') \<and> ds_halt_reason st = halt_as_str (h_reason h)) else target \<le> cpu_icount c'"
      "ds_compared st = of_nat (crossed_by 4096 c c' + of_bool (ds_halted st \<and> at_cadence c'))"
      "ds_ram_compared st = of_nat (crossed_by 1048576 c c' + of_bool (ds_halted st \<and> at_ram_hash c'))"
  shows "diff_verdict target c' (diff_finish (Some (trace_text (trace_lines dg trace_config_default (follow (unat target) c))))
    (read_halt_report (report_of (unat target) c)) target st)"
proof -
  let ?rh = "read_halt_report (report_of (unat target) c)"
  have ic: "ds_icount st = cpu_icount c'" using st(1) by (simp add: diff_at_def)
  have ic': "unat (cpu_icount c') = m" using run_steps_icount [OF c(1) s(1)] s(2) c(2,3) by (simp add: unat_of_nat)
  have shape: "halt_shape target ?rh st = Ok ()"
  proof (cases "ds_halted st")
    case True
    then obtain h where h: "m < unat target" "step c' = (Err h, c')" "ds_halt_reason st = halt_as_str (h_reason h)"
      using st(2) ic' by (auto simp: word_less_nat_alt)
    then have "run_steps (unat target) c = (Ok (Some h), c')" using steps_then_halt [OF s(1)] by simp
    then show ?thesis using True h(3) ic by (simp add: halt_shape_def report_of_def read_halt_report_def)
  next
    case False
    then have "m = unat target" using st(2) ic' s(2) by (simp add: word_le_nat_alt)
    then show ?thesis using False s(1) by (simp add: halt_shape_def report_of_def read_halt_report_def)
  qed
  note rows = trace_rows_exact [OF c(1,2) s c(3), of dg]
  show ?thesis
    using shape rows st(2-4) ram_hash_cadence [of c'] by (auto simp: diff_finish_def Let_def ic diff_verdict_def div_word c(2))
qed

section \<open>From the file to the verdict\<close>

text \<open>The one flush a fresh database gets leaves what the recovery of its reset row leaves.\<close>

lemma reset_reading: "batch_rows d 0 = [reset_row RESET_REGS] \<Longrightarrow> same_reading (run_all (recover 0) d) (cpu_state_flush 0 d)"
  by (simp add: same_reading_def run_all_def recover_def flush_def statements reset_row_def console_rows_def)

text \<open>
  C2: the differential runner, from the ROM to its verdict.  With the trace and the halt report the emulator's own for
  that ROM and budget, the runner returns; the machine in its tables is the emulator's some steps after reset; and it
  either reports that every checkpoint up to there was compared and the halts have the same shape, or the run halted
  exactly on a checkpoint, which it then counts twice.
\<close>

theorem diff_agrees:
  assumes "rom_ok sha256_hex m blob" "mf_text_start m = Some RAM_BASE" "mf_text_end m = Some (RAM_BASE + 4 * w)"
    and "unat n < 2 ^ 29" "0 < unat w" "unat w \<le> unat n" and "length blob mod 4 = 0" "length blob \<le> 4 * unat n"
    and c: "flat_load m blob (4 * n) IPMS_DEFAULT = Ok c"
    and run: "digest_law dg" "display_free (unat target) c" "unat target < 2 ^ 32"
  shows "\<exists>r i c'. diff_run sha256_hex (server_hash dg) (sha256_hex blob) m blob n hwm
      (Some (trace_text (trace_lines dg trace_config_default (follow (unat target) c)))) (report_of (unat target) c) target = Some r \<and>
    run_steps i c = (Ok None, c') \<and> i \<le> unat target \<and> diff_verdict target c' r"
proof -
  let ?k = "rom_cfg w n hwm" and ?p = "reset_row RESET_REGS" and ?f = "Some (trace_text (trace_lines dg trace_config_default (follow (unat target) c)))"
  let ?rh = "read_halt_report (report_of (unat target) c)"
  have "mf_load_addr m \<in> {None, Some RAM_BASE}" using assms(1) by (simp add: rom_ok_def)
  then have k: "run_cfg m n hwm = Ok ?k" using assms(2-6) by (intro run_cfg_base) simp_all
  obtain d d' where d: "create_and_load_database sha256_hex m blob n = (Ok (), d)" "seed RESET_REGS d = (Ok (Fresh 31), d')"
    "cpu_inv c" "cpu_icount c = 0" "latest_by bc_batch_id (t_batch_commit d') = Some ?p" "stands_for ?k (run_all (recover 0) d') c"
    using provision_stands [OF assms(1-8), of hwm] c by auto
  let ?st = "\<lparr> ds_db = cpu_state_flush 0 d', ds_icount = 0, ds_compared = 0, ds_ram_compared = 0, ds_halted = False, ds_halt_reason = '''', ds_batches_run = 0 \<rparr>"
  have "batch_rows d' 0 = [?p]" using d(2) by (auto simp: seed_def batch_rows_def reset_row_def split: if_splits)
  then have "stands_for ?k (cpu_state_flush 0 d') c" using stands_for_reading [OF reset_reading] d(6) by simp
  then have at: "diff_at ?k ?st c" using d(4,5) by (simp add: diff_at_def cpu_state_flush_def reset_row_def)
  have t: "unat target - unat (cpu_icount c) = unat target" "unat target < 2 ^ 64" using run(3) by (simp_all add: d(4))
  have tr: "traced dg ?f (unat target) c" unfolding traced_def using d(3,4) t(2) by (intro exI [of _ c] exI [of _ 0] exI [of _ "unat target"]) simp
  have "diff_follows ?k target c 0 0 (diff_loop (server_hash dg) ?f ?rh ?k target ?st)"
    using diff_loop_follows [OF at _ _ run(1), of ?f target ?rh] tr run(2,3) report_ahead [OF d(3,4) t(2)] t by simp
  then obtain i c' st where f: "diff_loop (server_hash dg) ?f ?rh ?k target ?st = Some (Ok (), st)" "run_steps i c = (Ok None, c')" "i \<le> unat target"
    "diff_verdict target c' (diff_finish ?f ?rh target st)"
    unfolding diff_follows_def t(1) using diff_finish_verdict [OF d(3,4) t(2), of _ _ ?k _ dg] by auto
  then show ?thesis using d(1,2) k by (simp add: diff_run_def) blast
qed

theorem diff_agrees_witness:
  "\<exists>c r i c'. flat_load manifest_two rom_two 8 IPMS_DEFAULT = Ok c \<and>
    diff_run (\<lambda>_. ''pin'') (server_hash digest_small) ''pin'' manifest_two rom_two 2 10
      (Some (trace_text (trace_lines digest_small trace_config_default (follow 3 c)))) (report_of 3 c) 3 = Some r \<and>
    run_steps i c = (Ok None, c') \<and> diff_verdict 3 c' r"
proof -
  obtain c where c: "flat_load manifest_two rom_two (4 * 2) IPMS_DEFAULT = Ok c" "display_free 3 c" by (rule rom_two_loads)
  then show ?thesis using diff_agrees [OF rom_two_ok c(1) digest_small_law, of 3 "\<lambda>_. ''pin''" 10] by simp blast
qed

end
