(* ===== verification/Nat_Fixed.thy ===== *)
theory Nat_Fixed
  imports Prelude "HOL-Library.Signed_Division"
begin

text \<open>
  The engine's fixed-point and angle arithmetic as the native port writes it in SQL (\<open>native/src/sql/fixed.rs\<close>), beside
  the C functions it stands for (\<open>rom/vendor/doomgeneric/doomgeneric\<close>: \<open>m_fixed.c\<close>, \<open>tables.c\<close>, \<open>r_main.c\<close>,
  \<open>p_maputl.c\<close>, \<open>p_sight.c\<close>).  A definition of the port is the value of the expression its builder writes, over the
  values of the operands: \<open>Int32\<close>, \<open>Int64\<close> and \<open>UInt32\<close> are words, a comparison compares numbers, \<open>if\<close> evaluates the
  branch it takes, an array answers 0 out of its range, and \<open>intDiv\<close> throws (\<open>None\<close>) on a zero divisor.  The C
  functions are over the same words, with the wrap of a two's complement machine; a read out of an array and a
  division by zero, which C leaves undefined, are \<open>None\<close>.
\<close>

section \<open>Integers of the database\<close>

definition toInt64 :: "i32 \<Rightarrow> i64" where "toInt64 = scast"

definition toInt32 :: "i64 \<Rightarrow> i32" where "toInt32 = ucast"

text \<open>\<open>abs\<close> of an \<open>Int64\<close> is a \<open>UInt64\<close>.\<close>

definition abs64 :: "i64 \<Rightarrow> u64" where "abs64 x = word_of_int \<bar>sint x\<bar>"

definition intDiv :: "i64 \<Rightarrow> i64 \<Rightarrow> i64 option" where
  "intDiv x y = (if y = 0 \<or> sint x = - (2 ^ 63) \<and> sint y = -1 then None else Some (word_of_int (sint x sdiv sint y)))"

definition least_s :: "i32 \<Rightarrow> i32 \<Rightarrow> i32" where "least_s x y = (if sint y < sint x then y else x)"

definition greatest_s :: "i32 \<Rightarrow> i32 \<Rightarrow> i32" where "greatest_s x y = (if sint x < sint y then y else x)"

text \<open>\<open>arr[i]\<close>: one-based, from the end for a negative index, the default out of range.\<close>

definition arrayElement :: "'a :: zero list \<Rightarrow> int \<Rightarrow> 'a" where
  "arrayElement xs i = (if 1 \<le> i \<and> i \<le> int (length xs) then xs ! nat (i - 1)
     else if i < 0 \<and> - int (length xs) \<le> i then xs ! nat (int (length xs) + i) else 0)"

section \<open>The port's arithmetic\<close>

definition fixed_mul :: "i32 \<Rightarrow> i32 \<Rightarrow> i32" where
  "fixed_mul a b = toInt32 (signed_drop_bit 16 (toInt64 a * toInt64 b))"

definition abs32 :: "i32 \<Rightarrow> i32" where
  "abs32 x = toInt32 (abs64 (toInt64 x))"

definition fixed_div :: "i32 \<Rightarrow> i32 \<Rightarrow> i32 option" where
  "fixed_div a b = (let abs_a = abs32 a; abs_b = abs32 b in
     if sint abs_b \<le> sint (signed_drop_bit 14 abs_a)
     then Some (if sint (a XOR b) < 0 then toInt32 (-2147483648) else toInt32 2147483647)
     else map_option toInt32 (intDiv (push_bit 16 (toInt64 a)) (toInt64 b)))"

definition slope_div :: "u32 \<Rightarrow> u32 \<Rightarrow> u32" where
  "slope_div num den = (if den < 512 then 2048 else min (ucast (ucast num * 8 :: u64) div drop_bit 8 den) 2048)"

definition point_to_angle :: "i32 \<Rightarrow> i32 \<Rightarrow> u32 list \<Rightarrow> u32" where
  "point_to_angle dx dy tantoangle =
     (let ax = abs32 dx; ay = abs32 dy;
          yx = arrayElement tantoangle (1 + uint (slope_div ay ax)); xy = arrayElement tantoangle (1 + uint (slope_div ax ay)) in
      if dx = 0 \<and> dy = 0 then 0
      else if 0 \<le> sint dx \<and> 0 \<le> sint dy \<and> sint dy < sint dx then yx
      else if 0 \<le> sint dx \<and> 0 \<le> sint dy then ucast (1073741823 - ucast xy :: i64)
      else if 0 \<le> sint dx \<and> sint ay < sint ax then ucast (4294967296 - ucast yx :: i64)
      else if 0 \<le> sint dx then ucast (3221225472 + ucast xy :: i64)
      else if 0 \<le> sint dy \<and> sint ay < sint ax then ucast (2147483647 - ucast yx :: i64)
      else if 0 \<le> sint dy then ucast (1073741824 + ucast xy :: i64)
      else if sint ay < sint ax then ucast (2147483648 + ucast yx :: i64)
      else ucast (3221225471 - ucast xy :: i64))"

definition aprox_distance :: "i32 \<Rightarrow> i32 \<Rightarrow> i32" where
  "aprox_distance dx dy = (let ax = abs32 dx; ay = abs32 dy in
     toInt32 (toInt64 ax + toInt64 ay - toInt64 (signed_drop_bit 1 (least_s ax ay))))"

definition point_on_side :: "i32 \<Rightarrow> i32 \<Rightarrow> i32 \<Rightarrow> i32 \<Rightarrow> i32 \<Rightarrow> i32 \<Rightarrow> nat \<Rightarrow> u8" where
  "point_on_side x y lx ly ldx ldy shift =
     (let dx = toInt32 (toInt64 x - toInt64 lx); dy = toInt32 (toInt64 y - toInt64 ly);
          (left, right) = (if shift = 16
            then (fixed_mul (signed_drop_bit 16 ldy) dx, fixed_mul dy (signed_drop_bit 16 ldx))
            else (fixed_mul (signed_drop_bit shift ldy) (signed_drop_bit shift dx),
                  fixed_mul (signed_drop_bit shift dy) (signed_drop_bit shift ldx))) in
      if ldx = 0 then (if sint x \<le> sint lx then of_bool (0 < sint ldy) else of_bool (sint ldy < 0))
      else if ldy = 0 then (if sint y \<le> sint ly then of_bool (sint ldx < 0) else of_bool (0 < sint ldx))
      else if (((ldy XOR ldx) XOR dx) XOR dy) AND toInt32 (-2147483648) \<noteq> 0
      then of_bool ((ldy XOR dx) AND toInt32 (-2147483648) \<noteq> 0)
      else of_bool (sint left \<le> sint right))"

definition point_on_line_side :: "i32 \<Rightarrow> i32 \<Rightarrow> i32 \<Rightarrow> i32 \<Rightarrow> i32 \<Rightarrow> i32 \<Rightarrow> u8" where
  "point_on_line_side x y lx ly ldx ldy =
     (let dx = toInt32 (toInt64 x - toInt64 lx); dy = toInt32 (toInt64 y - toInt64 ly);
          left = fixed_mul (signed_drop_bit 16 ldy) dx; right = fixed_mul dy (signed_drop_bit 16 ldx) in
      if ldx = 0 then (if sint x \<le> sint lx then of_bool (0 < sint ldy) else of_bool (sint ldy < 0))
      else if ldy = 0 then (if sint y \<le> sint ly then of_bool (sint ldx < 0) else of_bool (0 < sint ldx))
      else of_bool (sint left \<le> sint right))"

definition divline_side :: "i32 \<Rightarrow> i32 \<Rightarrow> i32 \<Rightarrow> i32 \<Rightarrow> i32 \<Rightarrow> i32 \<Rightarrow> u8" where
  "divline_side x y lx ly ldx ldy =
     (let left = toInt32 (toInt64 (signed_drop_bit 16 ldy) * toInt64 (signed_drop_bit 16 (toInt32 (toInt64 x - toInt64 lx))));
          right = toInt32 (toInt64 (signed_drop_bit 16 (toInt32 (toInt64 y - toInt64 ly))) * toInt64 (signed_drop_bit 16 ldx)) in
      if ldx = 0 then (if x = lx then 2 else if sint x \<le> sint lx then of_bool (0 < sint ldy) else of_bool (sint ldy < 0))
      else if ldy = 0 then (if x = ly then 2 else if sint y \<le> sint ly then of_bool (sint ldx < 0) else of_bool (0 < sint ldx))
      else if sint right < sint left then 0
      else if left = right then 2 else 1)"

definition intercept_vector :: "i32 \<Rightarrow> i32 \<Rightarrow> i32 \<Rightarrow> i32 \<Rightarrow> i32 \<Rightarrow> i32 \<Rightarrow> i32 \<Rightarrow> i32 \<Rightarrow> i32 option" where
  "intercept_vector v2x v2y v2dx v2dy v1x v1y v1dx v1dy =
     (let den = toInt32 (toInt64 (fixed_mul (signed_drop_bit 8 v1dy) v2dx) - toInt64 (fixed_mul (signed_drop_bit 8 v1dx) v2dy));
          num = toInt32 (toInt64 (fixed_mul (signed_drop_bit 8 (toInt32 (toInt64 v1x - toInt64 v2x))) v1dy)
                       + toInt64 (fixed_mul (signed_drop_bit 8 (toInt32 (toInt64 v2y - toInt64 v1y))) v1dx)) in
      if den = 0 then Some 0 else fixed_div num den)"

definition point_to_dist :: "i32 \<Rightarrow> i32 \<Rightarrow> u32 list \<Rightarrow> i32 list \<Rightarrow> i32 option" where
  "point_to_dist dx dy tantoangle finesine =
     (let ax = abs32 dx; ay = abs32 dy; big = greatest_s ax ay; small = least_s ax ay in
      Option.bind (if big \<noteq> 0 then fixed_div small big else Some 0) (\<lambda>frac.
        let angle = drop_bit 19 (ucast (ucast (arrayElement tantoangle (1 + sint (signed_drop_bit 5 frac))) + 1073741824 :: u64) :: u32) in
        fixed_div big (arrayElement finesine (1 + uint angle))))"

definition scale_from_global_angle :: "u32 \<Rightarrow> u32 \<Rightarrow> u32 \<Rightarrow> i32 \<Rightarrow> i32 \<Rightarrow> i32 list \<Rightarrow> i32 option" where
  "scale_from_global_angle visangle viewangle normalangle rw_distance projection finesine =
     (let sine = (\<lambda>other. arrayElement finesine
            (1 + uint (drop_bit 19 (ucast (1073741824 + ucast (ucast (4294967296 + ucast visangle - ucast other :: i64) :: u32) :: u64) :: u32))));
          num = fixed_mul projection (sine normalangle); den = fixed_mul rw_distance (sine viewangle) in
      if sint (signed_drop_bit 16 num) < sint den
      then map_option (\<lambda>scale. least_s (greatest_s scale 256) 4194304) (fixed_div num den) else Some 4194304)"

section \<open>The engine's C\<close>

definition c_abs :: "i32 \<Rightarrow> i32" where
  "c_abs x = (if sint x < 0 then - x else x)"

text \<open>A read of an array at an \<open>int\<close> or an \<open>unsigned\<close> index.\<close>

definition c_at :: "'a list \<Rightarrow> int \<Rightarrow> 'a option" where
  "c_at xs i = (if 0 \<le> i \<and> i < int (length xs) then Some (xs ! nat i) else None)"

definition FixedMul :: "i32 \<Rightarrow> i32 \<Rightarrow> i32" where
  "FixedMul a b = word_of_int (sint a * sint b div 2 ^ 16)"

definition FixedDiv :: "i32 \<Rightarrow> i32 \<Rightarrow> i32 option" where
  "FixedDiv a b =
     (if sint (c_abs b) \<le> sint (c_abs a) div 2 ^ 14 then Some (if sint (a XOR b) < 0 then 0x80000000 else 0x7FFFFFFF)
      else if b = 0 then None else Some (word_of_int (sint a * 2 ^ 16 sdiv sint b)))"

definition SlopeDiv :: "u32 \<Rightarrow> u32 \<Rightarrow> u32" where
  "SlopeDiv num den = (if den < 512 then 2048 else let ans = push_bit 3 num div drop_bit 8 den in if ans \<le> 2048 then ans else 2048)"

definition R_PointToAngle :: "u32 list \<Rightarrow> i32 \<Rightarrow> i32 \<Rightarrow> i32 \<Rightarrow> i32 \<Rightarrow> u32 option" where
  "R_PointToAngle tantoangle viewx viewy x0 y0 =
     (let x = x0 - viewx; y = y0 - viewy; T = (\<lambda>n d. c_at tantoangle (uint (SlopeDiv n d))) in
      if x = 0 \<and> y = 0 then Some 0
      else if 0 \<le> sint x then
        (if 0 \<le> sint y then
           (if sint y < sint x then T y x else map_option (\<lambda>t. 0x40000000 - 1 - t) (T x y))
         else let y = - y in
           (if sint y < sint x then map_option (\<lambda>t. - t) (T y x) else map_option (\<lambda>t. 0xC0000000 + t) (T x y)))
      else let x = - x in
        (if 0 \<le> sint y then
           (if sint y < sint x then map_option (\<lambda>t. 0x80000000 - 1 - t) (T y x) else map_option (\<lambda>t. 0x40000000 + t) (T x y))
         else let y = - y in
           (if sint y < sint x then map_option (\<lambda>t. 0x80000000 + t) (T y x) else map_option (\<lambda>t. 0xC0000000 - 1 - t) (T x y))))"

definition P_AproxDistance :: "i32 \<Rightarrow> i32 \<Rightarrow> i32" where
  "P_AproxDistance dx0 dy0 = (let dx = c_abs dx0; dy = c_abs dy0 in
     if sint dx < sint dy then dx + dy - signed_drop_bit 1 dx else dx + dy - signed_drop_bit 1 dy)"

definition R_PointOnSide :: "i32 \<Rightarrow> i32 \<Rightarrow> i32 \<Rightarrow> i32 \<Rightarrow> i32 \<Rightarrow> i32 \<Rightarrow> u8" where
  "R_PointOnSide x y nx ny ndx ndy =
     (if ndx = 0 then (if sint x \<le> sint nx then of_bool (0 < sint ndy) else of_bool (sint ndy < 0))
      else if ndy = 0 then (if sint y \<le> sint ny then of_bool (sint ndx < 0) else of_bool (0 < sint ndx))
      else let dx = x - nx; dy = y - ny in
        if (ndy XOR ndx XOR dx XOR dy) AND 0x80000000 \<noteq> 0 then (if (ndy XOR dx) AND 0x80000000 \<noteq> 0 then 1 else 0)
        else let left = FixedMul (signed_drop_bit 16 ndy) dx; right = FixedMul dy (signed_drop_bit 16 ndx) in
          if sint right < sint left then 0 else 1)"

definition P_PointOnDivlineSide :: "i32 \<Rightarrow> i32 \<Rightarrow> i32 \<Rightarrow> i32 \<Rightarrow> i32 \<Rightarrow> i32 \<Rightarrow> u8" where
  "P_PointOnDivlineSide x y nx ny ndx ndy =
     (if ndx = 0 then (if sint x \<le> sint nx then of_bool (0 < sint ndy) else of_bool (sint ndy < 0))
      else if ndy = 0 then (if sint y \<le> sint ny then of_bool (sint ndx < 0) else of_bool (0 < sint ndx))
      else let dx = x - nx; dy = y - ny in
        if (ndy XOR ndx XOR dx XOR dy) AND 0x80000000 \<noteq> 0 then (if (ndy XOR dx) AND 0x80000000 \<noteq> 0 then 1 else 0)
        else let left = FixedMul (signed_drop_bit 8 ndy) (signed_drop_bit 8 dx); right = FixedMul (signed_drop_bit 8 dy) (signed_drop_bit 8 ndx) in
          if sint right < sint left then 0 else 1)"

definition P_PointOnLineSide :: "i32 \<Rightarrow> i32 \<Rightarrow> i32 \<Rightarrow> i32 \<Rightarrow> i32 \<Rightarrow> i32 \<Rightarrow> u8" where
  "P_PointOnLineSide x y lx ly ldx ldy =
     (if ldx = 0 then (if sint x \<le> sint lx then of_bool (0 < sint ldy) else of_bool (sint ldy < 0))
      else if ldy = 0 then (if sint y \<le> sint ly then of_bool (sint ldx < 0) else of_bool (0 < sint ldx))
      else let dx = x - lx; dy = y - ly; left = FixedMul (signed_drop_bit 16 ldy) dx; right = FixedMul dy (signed_drop_bit 16 ldx) in
        if sint right < sint left then 0 else 1)"

definition P_DivlineSide :: "i32 \<Rightarrow> i32 \<Rightarrow> i32 \<Rightarrow> i32 \<Rightarrow> i32 \<Rightarrow> i32 \<Rightarrow> u8" where
  "P_DivlineSide x y nx ny ndx ndy =
     (if ndx = 0 then (if x = nx then 2 else if sint x \<le> sint nx then of_bool (0 < sint ndy) else of_bool (sint ndy < 0))
      else if ndy = 0 then (if x = ny then 2 else if sint y \<le> sint ny then of_bool (sint ndx < 0) else of_bool (0 < sint ndx))
      else let dx = x - nx; dy = y - ny; left = signed_drop_bit 16 ndy * signed_drop_bit 16 dx; right = signed_drop_bit 16 dy * signed_drop_bit 16 ndx in
        if sint right < sint left then 0 else if left = right then 2 else 1)"

definition P_InterceptVector :: "i32 \<Rightarrow> i32 \<Rightarrow> i32 \<Rightarrow> i32 \<Rightarrow> i32 \<Rightarrow> i32 \<Rightarrow> i32 \<Rightarrow> i32 \<Rightarrow> i32 option" where
  "P_InterceptVector v2x v2y v2dx v2dy v1x v1y v1dx v1dy =
     (let den = FixedMul (signed_drop_bit 8 v1dy) v2dx - FixedMul (signed_drop_bit 8 v1dx) v2dy in
      if den = 0 then Some 0
      else FixedDiv (FixedMul (signed_drop_bit 8 (v1x - v2x)) v1dy + FixedMul (signed_drop_bit 8 (v2y - v1y)) v1dx) den)"

definition R_PointToDist :: "u32 list \<Rightarrow> i32 list \<Rightarrow> i32 \<Rightarrow> i32 \<Rightarrow> i32 \<Rightarrow> i32 \<Rightarrow> i32 option" where
  "R_PointToDist tantoangle finesine viewx viewy x y =
     (let dx0 = c_abs (x - viewx); dy0 = c_abs (y - viewy);
          (dx, dy) = (if sint dx0 < sint dy0 then (dy0, dx0) else (dx0, dy0)) in
      Option.bind (if dx \<noteq> 0 then FixedDiv dy dx else Some 0) (\<lambda>frac.
      Option.bind (c_at tantoangle (sint (signed_drop_bit 5 frac))) (\<lambda>t.
      Option.bind (c_at finesine (uint (drop_bit 19 (t + 0x40000000)))) (FixedDiv dx))))"

definition R_ScaleFromGlobalAngle :: "i32 list \<Rightarrow> u32 \<Rightarrow> u32 \<Rightarrow> i32 \<Rightarrow> i32 \<Rightarrow> nat \<Rightarrow> u32 \<Rightarrow> i32 option" where
  "R_ScaleFromGlobalAngle finesine viewangle rw_normalangle rw_distance projection detailshift visangle =
     (let anglea = 0x40000000 + (visangle - viewangle); angleb = 0x40000000 + (visangle - rw_normalangle) in
      Option.bind (c_at finesine (uint (drop_bit 19 anglea))) (\<lambda>sinea.
      Option.bind (c_at finesine (uint (drop_bit 19 angleb))) (\<lambda>sineb.
      let num = push_bit detailshift (FixedMul projection sineb); den = FixedMul rw_distance sinea in
      if sint (signed_drop_bit 16 num) < sint den
      then map_option (\<lambda>scale. if 64 * 65536 < sint scale then 64 * 65536 else if sint scale < 256 then 256 else scale) (FixedDiv num den)
      else Some (64 * 65536))))"

section \<open>Conversions\<close>

lemma sint_i32: "- (2 ^ 31) \<le> sint (x :: i32)" "sint (x :: i32) < 2 ^ 31"
  using sint_range_size [of x] by (simp_all add: word_size)

lemma sint_toInt64 [simp]: "sint (toInt64 x) = sint x"
  using sint_i32 [of x] by (simp add: toInt64_def signed_scast_eq signed_take_bit_int_eq_self)

lemma toInt32_of_int [simp]: "toInt32 (word_of_int k) = word_of_int k"
  by (simp add: toInt32_def unsigned_of_int) (transfer, simp add: take_bit_take_bit)

lemma toInt64_of_int: "toInt64 x = word_of_int (sint x)"
  by (simp add: toInt64_def)

lemma of_int_sint32 [simp]: "word_of_int (sint x) = (x :: i32)"
  by simp

lemma toInt32_toInt64 [simp]: "toInt32 (toInt64 x) = x"
  unfolding toInt64_of_int toInt32_of_int by (rule of_int_sint32)

lemma toInt32_hom [simp]: "toInt32 (x + y) = toInt32 x + toInt32 y" "toInt32 (x - y) = toInt32 x - toInt32 y" "toInt32 (x * y) = toInt32 x * toInt32 y"
proof -
  obtain i j where "x = word_of_int i" "y = word_of_int j" by (metis word_of_int_uint)
  then show "toInt32 (x + y) = toInt32 x + toInt32 y" "toInt32 (x - y) = toInt32 x - toInt32 y" "toInt32 (x * y) = toInt32 x * toInt32 y"
    by (simp_all only: toInt32_of_int of_int_add [symmetric] of_int_diff [symmetric] of_int_mult [symmetric])
qed

lemma toInt32_numeral [simp]: "toInt32 (numeral n) = numeral n" "toInt32 (- numeral n) = - numeral n"
  using toInt32_of_int [of "numeral n"] toInt32_of_int [of "- numeral n"] by simp_all

lemma abs32_c_abs [simp]: "abs32 = c_abs"
proof
  fix x
  have "abs32 x = word_of_int \<bar>sint x\<bar>" by (simp only: abs32_def abs64_def sint_toInt64 toInt32_of_int)
  then show "abs32 x = c_abs x" by (simp add: c_abs_def)
qed

lemma fixed_mul_engine [simp]: "fixed_mul = FixedMul"
proof (intro ext)
  fix a b :: i32
  have "\<bar>sint a * sint b\<bar> \<le> 2 ^ 31 * 2 ^ 31" unfolding abs_mult using sint_i32 [of a] sint_i32 [of b] by (intro mult_mono) auto
  then have "sint (toInt64 a * toInt64 b) = sint a * sint b"
    unfolding toInt64_of_int of_int_mult [symmetric] by (simp add: signed_of_int signed_take_bit_int_eq_self del: of_int_mult)
  then have "sint (signed_drop_bit 16 (toInt64 a * toInt64 b)) = sint a * sint b div 2 ^ 16"
    by (simp add: sint_signed_drop_bit_eq drop_bit_eq_div)
  then have "signed_drop_bit 16 (toInt64 a * toInt64 b) = word_of_int (sint a * sint b div 2 ^ 16)" by (metis of_int_sint scast_id)
  then show "fixed_mul a b = FixedMul a b" by (simp only: fixed_mul_def FixedMul_def toInt32_of_int)
qed

section \<open>The port computes the engine's functions\<close>

lemma intDiv_shifted: "intDiv (push_bit 16 (toInt64 a)) (toInt64 b) = (if b = 0 then None else Some (word_of_int (sint a * 2 ^ 16 sdiv sint b)))"
proof -
  have "push_bit 16 (toInt64 a) = word_of_int (sint a * 2 ^ 16)" by (simp add: push_bit_eq_mult toInt64_of_int)
  moreover have "signed_take_bit 63 (sint a * 2 ^ 16) = sint a * 2 ^ 16" using sint_i32 [of a] by (intro signed_take_bit_int_eq_self) auto
  ultimately have "sint (push_bit 16 (toInt64 a)) = sint a * 2 ^ 16" by (simp only: signed_of_int) simp
  moreover have "toInt64 b = 0 \<longleftrightarrow> b = 0" by (metis sint_toInt64 signed_eq_0_iff)
  ultimately show ?thesis using sint_i32 [of a] by (simp add: intDiv_def)
qed

lemma fixed_div_engine [simp]: "fixed_div = FixedDiv"
proof (intro ext)
  fix a b :: i32
  have "sint (signed_drop_bit 14 (c_abs a)) = sint (c_abs a) div 2 ^ 14" by (simp add: sint_signed_drop_bit_eq drop_bit_eq_div)
  then show "fixed_div a b = FixedDiv a b"
    by (simp only: fixed_div_def FixedDiv_def Let_def abs32_c_abs intDiv_shifted toInt32_numeral if_distrib [of "map_option toInt32"] option.map toInt32_of_int) simp
qed

lemma sign_mask [simp]: "(- 2147483648 :: i32) = 0x80000000"
  by simp

lemma toInt32_ucast [simp]: "toInt32 (ucast (t :: u32)) = t"
proof -
  have "ucast t = (word_of_int (uint t) :: u64)" by (rule ucast_eq)
  then show ?thesis by (simp only: toInt32_of_int word_of_int_uint)
qed

lemma slope_div_engine [simp]: "slope_div = SlopeDiv"
proof (intro ext)
  fix num den :: u32
  have "ucast (ucast num * 8 :: u64) = push_bit 3 num" by (simp flip: toInt32_def add: push_bit_eq_mult)
  then show "slope_div num den = SlopeDiv num den" by (simp add: slope_div_def SlopeDiv_def Let_def min_def)
qed

lemma SlopeDiv_le: "uint (SlopeDiv num den) \<le> 2048"
  by (simp add: SlopeDiv_def Let_def word_le_def)

lemma arrayElement_c_at: "0 \<le> i \<Longrightarrow> i < int (length xs) \<Longrightarrow> c_at xs i = Some (arrayElement xs (1 + i))"
  by (simp add: c_at_def arrayElement_def)

lemma point_to_angle_engine:
  assumes "length tantoangle = 2049"
  shows "R_PointToAngle tantoangle viewx viewy x y = Some (point_to_angle (x - viewx) (y - viewy) tantoangle)"
proof -
  have t: "c_at tantoangle (uint (SlopeDiv n d)) = Some (arrayElement tantoangle (1 + uint (SlopeDiv n d)))" for n d
    using SlopeDiv_le [of n d] assms by (intro arrayElement_c_at) simp_all
  show ?thesis by (simp add: R_PointToAngle_def point_to_angle_def Let_def t c_abs_def flip: toInt32_def)
qed

lemma aprox_distance_engine: "aprox_distance = P_AproxDistance"
  by (intro ext) (auto simp: aprox_distance_def P_AproxDistance_def Let_def least_s_def not_less order_le_less dest: signed_word_eqI)

lemma point_on_side_engine: "point_on_side x y lx ly ldx ldy 16 = R_PointOnSide x y lx ly ldx ldy"
  "point_on_side x y lx ly ldx ldy 8 = P_PointOnDivlineSide x y lx ly ldx ldy"
  by (simp_all add: point_on_side_def R_PointOnSide_def P_PointOnDivlineSide_def Let_def not_less xor.assoc sign_mask del: )

lemma point_on_line_side_engine: "point_on_line_side = P_PointOnLineSide"
  by (intro ext) (simp add: point_on_line_side_def P_PointOnLineSide_def Let_def not_less)

lemma divline_side_engine: "divline_side = P_DivlineSide"
  by (intro ext) (simp add: divline_side_def P_DivlineSide_def Let_def)

lemma intercept_vector_engine: "intercept_vector = P_InterceptVector"
  by (intro ext) (simp add: intercept_vector_def P_InterceptVector_def Let_def)

lemma sine_at:
  assumes "length finesine = 10240"
  shows "c_at finesine (uint (drop_bit 19 (a :: u32))) = Some (arrayElement finesine (1 + uint (drop_bit 19 a)))"
proof (rule arrayElement_c_at)
  have "uint a div 2 ^ 19 < 8192" using unsigned_less [of a, where 'a = int] by (simp add: div_less_iff_less_mult)
  moreover have "uint (drop_bit 19 a) = uint a div 2 ^ 19" by (simp add: drop_bit_eq_div uint_div)
  ultimately show "uint (drop_bit 19 a) < int (length finesine)" by (simp add: assms)
qed simp

lemma scale_engine:
  assumes "length finesine = 10240"
  shows "scale_from_global_angle visangle viewangle normalangle rw_distance projection finesine =
    R_ScaleFromGlobalAngle finesine viewangle normalangle rw_distance projection 0 visangle"
proof -
  have a: "ucast (1073741824 + ucast (ucast (4294967296 + ucast visangle - ucast other :: i64) :: u32) :: u64) = (0x40000000 + (visangle - other) :: u32)" for other
    by (simp flip: toInt32_def)
  show ?thesis
    by (simp add: scale_from_global_angle_def R_ScaleFromGlobalAngle_def Let_def sine_at [OF assms] a least_s_def greatest_s_def) (auto intro!: option.map_cong)
qed


section \<open>Distances and quotients\<close>

lemma sint_c_abs: "x \<noteq> 0x80000000 \<Longrightarrow> sint (c_abs x) = \<bar>sint x\<bar>"
proof -
  assume "x \<noteq> 0x80000000"
  then have "sint x \<noteq> - 2147483648" using signed_word_eqI [of x "0x80000000 :: i32"] by auto
  then have "sint (- x) = - sint x" using sint_i32 [of x] by (subst (1) of_int_sint32 [of x, symmetric], simp only: of_int_minus [symmetric] signed_of_int) (auto intro!: signed_take_bit_int_eq_self)
  then show ?thesis by (simp add: c_abs_def)
qed

lemma quotient_less: "x < q * y \<Longrightarrow> 0 < y \<Longrightarrow> x div y < (q :: int)"
proof (rule ccontr)
  assume a: "x < q * y" "0 < y" "\<not> x div y < q"
  then have "q * y \<le> x div y * y" by (intro mult_right_mono) auto
  then show False using a div_mult_mod_eq [of x y] pos_mod_sign [of y x] by linarith
qed

lemma sint_FixedDiv:
  assumes "a \<noteq> 0x80000000" "b \<noteq> 0x80000000" "\<not> \<bar>sint b\<bar> \<le> \<bar>sint a\<bar> div 2 ^ 14"
  shows "\<exists>r. FixedDiv a b = Some r \<and> sint r = sint a * 2 ^ 16 sdiv sint b \<and> \<bar>sint r\<bar> < 2 ^ 30"
proof -
  let ?q = "sint a * 2 ^ 16 sdiv sint b"
  have b: "0 < \<bar>sint b\<bar>" "b \<noteq> 0" using assms(3) by auto
  have "\<bar>sint a\<bar> < \<bar>sint b\<bar> * 2 ^ 14" using assms(3) by (simp add: not_le div_less_iff_less_mult)
  then have "\<bar>sint a\<bar> * 2 ^ 16 div \<bar>sint b\<bar> < 2 ^ 30" using b(1) by (intro quotient_less) auto
  moreover have "\<bar>?q\<bar> \<le> \<bar>sint a\<bar> * 2 ^ 16 div \<bar>sint b\<bar>"
    by (auto simp: signed_divide_int_def abs_mult sgn_if pos_imp_zdiv_nonneg_iff)
  ultimately have q: "\<bar>?q\<bar> < 2 ^ 30" by simp
  then have "sint (word_of_int ?q :: i32) = ?q" by (simp only: signed_of_int) (auto intro!: signed_take_bit_int_eq_self)
  then show ?thesis using q b(2) assms by (simp add: FixedDiv_def sint_c_abs)
qed

lemma point_to_dist_engine:
  assumes "length tantoangle = 2049" "length finesine = 10240" "x - viewx \<noteq> 0x80000000" "y - viewy \<noteq> 0x80000000"
  shows "R_PointToDist tantoangle finesine viewx viewy x y = point_to_dist (x - viewx) (y - viewy) tantoangle finesine"
proof -
  let ?a = "c_abs (x - viewx)" and ?b = "c_abs (y - viewy)"
  let ?big = "greatest_s ?a ?b" and ?small = "least_s ?a ?b"
  have s: "0 \<le> sint ?small" "sint ?small \<le> sint ?big" using assms(3,4) by (auto simp: least_s_def greatest_s_def sint_c_abs)
  have m: "(if sint ?a < sint ?b then (?b, ?a) else (?a, ?b)) = (?big, ?small)"
    by (auto simp: greatest_s_def least_s_def dest: signed_word_eqI)
  have frac: "\<exists>r. (if ?big \<noteq> 0 then FixedDiv ?small ?big else Some 0) = Some r \<and> 0 \<le> sint r \<and> sint r \<le> 2 ^ 16"
  proof (cases "?big = 0")
    case False
    then have "sint ?big \<noteq> 0" unfolding signed_eq_0_iff .
    then have p: "0 < sint ?big" using s by linarith
    have n: "?small \<noteq> 0x80000000" "?big \<noteq> 0x80000000" using s p by auto
    have "sint ?small div 2 ^ 14 \<le> sint ?big div 2 ^ 14" using s by (intro zdiv_mono1) auto
    moreover have "sint ?big div 2 ^ 14 < sint ?big" using p by (intro quotient_less) auto
    ultimately obtain r where r: "FixedDiv ?small ?big = Some r" "sint r = sint ?small * 2 ^ 16 sdiv sint ?big"
      using sint_FixedDiv [OF n] s by force
    have "sint ?small * 2 ^ 16 div sint ?big \<le> sint ?big * 2 ^ 16 div sint ?big" using s p by (intro zdiv_mono1) auto
    then have "sint r \<le> 2 ^ 16" "0 \<le> sint r" using s p unfolding r(2) by (auto simp: signed_divide_int_def pos_imp_zdiv_nonneg_iff sgn_if)
    then show ?thesis using False r(1) by simp
  qed simp
  obtain r where r: "(if ?big \<noteq> 0 then FixedDiv ?small ?big else Some 0) = Some r" "0 \<le> sint r" "sint r \<le> 2 ^ 16" using frac by blast
  have "c_at tantoangle (sint (signed_drop_bit 5 r)) = Some (arrayElement tantoangle (1 + sint (signed_drop_bit 5 r)))"
    by (rule arrayElement_c_at) (use r assms(1) in \<open>simp_all add: sint_signed_drop_bit_eq drop_bit_eq_div\<close>)
  moreover have "ucast (ucast t + 1073741824 :: u64) = (t + 0x40000000 :: u32)" for t :: u32 by (simp flip: toInt32_def)
  ultimately show ?thesis
    using r(1) sine_at [OF assms(2)] by (auto simp: R_PointToDist_def point_to_dist_def m Let_def split: if_splits)
qed



text \<open>
  a quotient is exact or saturates, and never throws.  When neither operand is the most negative integer, the quotient
  expression has a value: the quotient of the 16.16 operands truncated toward zero, with no bit lost in the narrowing, when
  the quotient's size allows it; and otherwise, for a zero divisor too, the largest or smallest integer by the signs.
\<close>

theorem fixed_div_exact:
  assumes "a \<noteq> 0x80000000" "b \<noteq> 0x80000000"
  shows "\<exists>r. fixed_div a b = Some r \<and>
    sint r = (if \<bar>sint b\<bar> \<le> \<bar>sint a\<bar> div 2 ^ 14 then (if (sint a < 0) = (sint b < 0) then 2 ^ 31 - 1 else - (2 ^ 31)) else sint a * 2 ^ 16 sdiv sint b)"
proof (cases "\<bar>sint b\<bar> \<le> \<bar>sint a\<bar> div 2 ^ 14")
  case True
  have "(sint (a XOR b) < 0) = ((sint a < 0) \<noteq> (sint b < 0))" by (simp add: bit_last_iff [symmetric] bit_simps)
  then show ?thesis using True assms by (simp add: FixedDiv_def sint_c_abs)
next
  case False
  then show ?thesis using sint_FixedDiv [OF assms False] by auto
qed

theorem fixed_div_exact_witness: "\<exists>r. fixed_div (- 0x30000) 0x20000 = Some r \<and> sint r = - 98304"
  using fixed_div_exact [of "- 0x30000" "0x20000"] by (simp add: signed_divide_int_def)

end
