(* ===== verification/Nat_Planes.thy ===== *)
theory Nat_Planes
  imports Nat_Fixed
begin

text \<open>
  One plane thinker of the native port: the height a sector's floor or ceiling moves to, the tic of a door and of a
  platform, and the heights around a sector (\<open>native/src/sql/sim/plane.rs\<close>, \<open>doors.rs\<close>, \<open>plats.rs\<close>, \<open>floor.rs\<close>), beside
  the engine's \<open>T_MovePlane\<close>, \<open>T_VerticalDoor\<close>, \<open>T_PlatRaise\<close>, \<open>T_MoveFloor\<close> and \<open>P_Find...\<close> functions
  (\<open>p_floor.c\<close>, \<open>p_doors.c\<close>, \<open>p_plats.c\<close>, \<open>p_spec.c\<close>).

  The port reads \<open>Int32\<close> columns and computes in \<open>Int64\<close>, where sums and differences of two columns are exact, so its
  numbers are integers here.  The engine computes in \<open>int\<close>, which wraps.
\<close>

section \<open>Moving a plane\<close>

definition result_OK :: int where [simp]: "result_OK = 0"
definition result_CRUSHED :: int where [simp]: "result_CRUSHED = 1"
definition result_PASTDEST :: int where [simp]: "result_PASTDEST = 2"

definition PLANE_FLOOR :: int where [simp]: "PLANE_FLOOR = 0"
definition PLANE_CEILING :: int where [simp]: "PLANE_CEILING = 1"

record plane =
  pl_speed :: int
  pl_dest :: int
  pl_crush :: int
  pl_which :: int
  pl_direction :: int
  pl_height :: int

definition plane_past :: "plane \<Rightarrow> bool" where
  "plane_past p \<longleftrightarrow> (pl_direction p = -1 \<and> pl_height p - pl_speed p < pl_dest p) \<or> (pl_direction p = 1 \<and> pl_dest p < pl_height p + pl_speed p)"

definition plane_target :: "plane \<Rightarrow> int" where
  "plane_target p = (if plane_past p then pl_dest p else if pl_direction p = 1 then pl_height p + pl_speed p else pl_height p - pl_speed p)"

text \<open>The result, the height the sector is left at, and 1 when the height was put back.\<close>

definition move_plane :: "plane \<Rightarrow> int \<Rightarrow> int \<Rightarrow> int \<times> int \<times> int" where
  "move_plane p target stuck =
     (let last = pl_height p; up = pl_direction p = 1; down = pl_direction p = -1; floor = pl_which p = PLANE_FLOOR; past = plane_past p;
          reports = \<not> (\<not> floor \<and> up); keeps = pl_crush p = 1 \<and> \<not> (floor \<and> down) in
      if past \<and> stuck = 1 then (result_PASTDEST, last, 1)
      else if past then (result_PASTDEST, target, 0)
      else if stuck = 1 \<and> reports \<and> keeps then (result_CRUSHED, target, 0)
      else if stuck = 1 \<and> reports then (result_CRUSHED, last, 1)
      else (result_OK, target, 0))"

section \<open>Doors\<close>

definition door_NORMAL :: int where [simp]: "door_NORMAL = 0"
definition door_CLOSE30_THEN_OPEN :: int where [simp]: "door_CLOSE30_THEN_OPEN = 1"
definition door_CLOSE :: int where [simp]: "door_CLOSE = 2"
definition door_OPEN :: int where [simp]: "door_OPEN = 3"
definition door_RAISE_IN_5_MINS :: int where [simp]: "door_RAISE_IN_5_MINS = 4"
definition door_BLAZE_RAISE :: int where [simp]: "door_BLAZE_RAISE = 5"
definition door_BLAZE_OPEN :: int where [simp]: "door_BLAZE_OPEN = 6"
definition door_BLAZE_CLOSE :: int where [simp]: "door_BLAZE_CLOSE = 7"

definition VDOORSPEED :: int where "VDOORSPEED = 2 * 2 ^ 16"
definition VDOORWAIT :: int where "VDOORWAIT = 150"
definition DOOR_TICRATE :: int where "DOOR_TICRATE = 35"
definition FRACUNIT :: int where "FRACUNIT = 2 ^ 16"

record door =
  vd_kind :: int
  vd_direction :: int
  vd_count :: int
  vd_wait :: int

text \<open>The direction, the count, the kind, and whether the door comes off the list; a door's tic is never unresolved.\<close>

definition vertical_door :: "door \<Rightarrow> int \<times> int \<times> int \<Rightarrow> int \<times> int \<times> int \<times> int \<times> int" where
  "vertical_door door moved =
     (let kind = vd_kind door; direction = vd_direction door; count = vd_count door - 1; res = fst moved; fires = (count = 0);
          direction_now =
            (if direction = 0 \<and> fires \<and> kind \<in> {door_BLAZE_RAISE, door_NORMAL} then -1
             else if direction = 0 \<and> fires \<and> kind = door_CLOSE30_THEN_OPEN then 1
             else if direction = 2 \<and> fires \<and> kind = door_RAISE_IN_5_MINS then 1
             else if direction = -1 \<and> res = result_PASTDEST \<and> kind = door_CLOSE30_THEN_OPEN then 0
             else if direction = -1 \<and> res = result_CRUSHED \<and> kind \<notin> {door_BLAZE_CLOSE, door_CLOSE} then 1
             else if direction = 1 \<and> res = result_PASTDEST \<and> kind \<in> {door_BLAZE_RAISE, door_NORMAL} then 0
             else direction);
          count_now =
            (if direction \<in> {0, 2} then count
             else if direction = -1 \<and> res = result_PASTDEST \<and> kind = door_CLOSE30_THEN_OPEN then DOOR_TICRATE * 30
             else if direction = 1 \<and> res = result_PASTDEST \<and> kind \<in> {door_BLAZE_RAISE, door_NORMAL} then vd_wait door
             else vd_count door);
          kind_now = (if direction = 2 \<and> fires \<and> kind = door_RAISE_IN_5_MINS then door_NORMAL else kind);
          done = (res = result_PASTDEST \<and>
            ((direction = -1 \<and> kind \<in> {door_BLAZE_RAISE, door_BLAZE_CLOSE, door_NORMAL, door_CLOSE}) \<or>
             (direction = 1 \<and> kind \<in> {door_CLOSE30_THEN_OPEN, door_BLAZE_OPEN, door_OPEN}))) in
      (direction_now, count_now, kind_now, of_bool done, 0))"

section \<open>Platforms\<close>

definition plat_UP :: int where [simp]: "plat_UP = 0"
definition plat_DOWN :: int where [simp]: "plat_DOWN = 1"
definition plat_WAITING :: int where [simp]: "plat_WAITING = 2"
definition plat_IN_STASIS :: int where [simp]: "plat_IN_STASIS = 3"

definition plat_PERPETUAL_RAISE :: int where [simp]: "plat_PERPETUAL_RAISE = 0"
definition plat_DOWN_WAIT_UP_STAY :: int where [simp]: "plat_DOWN_WAIT_UP_STAY = 1"
definition plat_RAISE_AND_CHANGE :: int where [simp]: "plat_RAISE_AND_CHANGE = 2"
definition plat_RAISE_TO_NEAREST_AND_CHANGE :: int where [simp]: "plat_RAISE_TO_NEAREST_AND_CHANGE = 3"
definition plat_BLAZE_DWUS :: int where [simp]: "plat_BLAZE_DWUS = 4"

record plat =
  pt_kind :: int
  pt_status :: int
  pt_count :: int
  pt_wait :: int
  pt_crush :: int
  pt_low :: int
  pt_floorheight :: int

definition plat_raise :: "plat \<Rightarrow> int \<times> int \<times> int \<Rightarrow> int \<times> int \<times> int" where
  "plat_raise plat moved =
     (let kind = pt_kind plat; status = pt_status plat; count = pt_count plat - 1; res = fst moved;
          crushed_now = (res = result_CRUSHED \<and> pt_crush plat = 0); arrived = (res = result_PASTDEST);
          turns = (status = plat_WAITING \<and> count = 0);
          status_now =
            (if status = plat_UP \<and> crushed_now then plat_DOWN
             else if status = plat_UP \<and> arrived then plat_WAITING
             else if status = plat_DOWN \<and> arrived then plat_WAITING
             else if turns \<and> pt_floorheight plat = pt_low plat then plat_UP
             else if turns then plat_DOWN
             else status);
          count_now =
            (if status = plat_UP \<and> (crushed_now \<or> arrived) then pt_wait plat
             else if status = plat_DOWN \<and> arrived then pt_wait plat
             else if status = plat_WAITING then count
             else pt_count plat);
          done = (status = plat_UP \<and> arrived \<and> kind \<noteq> plat_PERPETUAL_RAISE) in
      (status_now, count_now, of_bool done))"

section \<open>Heights around a sector\<close>

text \<open>The constant line tables of a level: the sector in front of and behind each line, its flags, and each sector's lines.\<close>

record level_lines =
  line_front :: "int list"
  line_back :: "int list"
  line_flags :: "int list"
  sec_lines :: "int list list"

definition other_sector :: "level_lines \<Rightarrow> int \<Rightarrow> int \<Rightarrow> int" where
  "other_sector lv sector l = (if arrayElement (line_front lv) (1 + l) = sector then arrayElement (line_back lv) (1 + l) else arrayElement (line_front lv) (1 + l))"

definition two_sided :: "level_lines \<Rightarrow> int \<Rightarrow> int \<Rightarrow> bool" where
  "two_sided lv sector l \<longleftrightarrow> arrayElement (line_flags lv) (1 + l) AND 4 \<noteq> 0 \<and> 0 \<le> other_sector lv sector l"

definition lines_of :: "level_lines \<Rightarrow> int \<Rightarrow> int list" where
  "lines_of lv sector = (let i = 1 + sector in if 1 \<le> i \<and> i \<le> int (length (sec_lines lv)) then sec_lines lv ! nat (i - 1) else [])"

definition arrayMin :: "int list \<Rightarrow> int" where "arrayMin xs = (case xs of [] \<Rightarrow> 0 | x # ys \<Rightarrow> fold min ys x)"

definition arrayMax :: "int list \<Rightarrow> int" where "arrayMax xs = (case xs of [] \<Rightarrow> 0 | x # ys \<Rightarrow> fold max ys x)"

definition neighbour_heights :: "level_lines \<Rightarrow> int \<Rightarrow> int list \<Rightarrow> int list" where
  "neighbour_heights lv sector heights = map (\<lambda>l. arrayElement heights (1 + other_sector lv sector l)) (filter (two_sided lv sector) (lines_of lv sector))"

definition lowest_ceiling_surrounding :: "level_lines \<Rightarrow> int \<Rightarrow> int list \<Rightarrow> int" where
  "lowest_ceiling_surrounding lv sector ceilingheight = arrayMin (neighbour_heights lv sector ceilingheight @ [2147483647])"

definition lowest_floor_surrounding :: "level_lines \<Rightarrow> int \<Rightarrow> int list \<Rightarrow> int" where
  "lowest_floor_surrounding lv sector floorheight = arrayMin (neighbour_heights lv sector floorheight @ [arrayElement floorheight (1 + sector)])"

definition highest_floor_surrounding :: "level_lines \<Rightarrow> int \<Rightarrow> int list \<Rightarrow> int" where
  "highest_floor_surrounding lv sector floorheight = arrayMax (neighbour_heights lv sector floorheight @ [- 500 * 2 ^ 16])"

definition door_topheight :: "level_lines \<Rightarrow> int \<Rightarrow> int list \<Rightarrow> int" where
  "door_topheight lv sector ceilingheight = lowest_ceiling_surrounding lv sector ceilingheight - 4 * FRACUNIT"

text \<open>The running floor, how many neighbours qualified, the least of them, and 1 for the neighbour that overruns the buffer.\<close>

definition next_highest_step :: "level_lines \<Rightarrow> int \<Rightarrow> int list \<Rightarrow> int \<times> int \<times> int \<times> int \<Rightarrow> int \<Rightarrow> int \<times> int \<times> int \<times> int" where
  "next_highest_step lv sector floorheight acc l =
     (let of_l = arrayElement floorheight (1 + other_sector lv sector l); (height, count, least, overflow) = acc in
      if arrayElement (line_flags lv) (1 + l) AND 4 = 0 \<or> other_sector lv sector l < 0 \<or> of_l \<le> height then acc
      else (if count + 1 = 22 then of_l else height, count + 1, if count + 1 = 23 then least else min least of_l,
            if count + 1 = 23 then 1 else overflow))"

definition next_highest_floor :: "level_lines \<Rightarrow> int \<Rightarrow> int list \<Rightarrow> int \<times> int \<times> int \<times> int" where
  "next_highest_floor lv sector floorheight =
     foldl (next_highest_step lv sector floorheight) (arrayElement floorheight (1 + sector), 0, 9223372036854775807, 0) (lines_of lv sector)"

section \<open>The engine's C\<close>

definition c_int :: "int \<Rightarrow> int" where "c_int k = signed_take_bit 31 k"

abbreviation is_int :: "int \<Rightarrow> bool" where "is_int k \<equiv> - (2 ^ 31) \<le> k \<and> k < 2 ^ 31"

lemma c_int_id [simp]: "is_int k \<Longrightarrow> c_int k = k"
  unfolding c_int_def by (rule signed_take_bit_int_eq_self) auto

datatype result_e = res_ok | res_crushed | res_pastdest

record sector_t =
  sc_floorheight :: int
  sc_ceilingheight :: int

text \<open>\<open>nofit sector crush\<close> is the answer of \<open>P_ChangeSector\<close> for the sector as it stands.\<close>

definition T_MovePlane :: "(sector_t \<Rightarrow> bool \<Rightarrow> bool) \<Rightarrow> sector_t \<Rightarrow> int \<Rightarrow> int \<Rightarrow> bool \<Rightarrow> int \<Rightarrow> int \<Rightarrow> result_e \<times> sector_t" where
  "T_MovePlane nofit sector speed dest crush floorOrCeiling direction =
     (if floorOrCeiling = 0 then
        (if direction = -1 then
           (if c_int (sc_floorheight sector - speed) < dest
            then let moved = sector\<lparr>sc_floorheight := dest\<rparr> in (res_pastdest, if nofit moved crush then sector else moved)
            else let moved = sector\<lparr>sc_floorheight := c_int (sc_floorheight sector - speed)\<rparr> in
              if nofit moved crush then (res_crushed, sector) else (res_ok, moved))
         else if direction = 1 then
           (if dest < c_int (sc_floorheight sector + speed)
            then let moved = sector\<lparr>sc_floorheight := dest\<rparr> in (res_pastdest, if nofit moved crush then sector else moved)
            else let moved = sector\<lparr>sc_floorheight := c_int (sc_floorheight sector + speed)\<rparr> in
              if nofit moved crush then (res_crushed, if crush then moved else sector) else (res_ok, moved))
         else (res_ok, sector))
      else if floorOrCeiling = 1 then
        (if direction = -1 then
           (if c_int (sc_ceilingheight sector - speed) < dest
            then let moved = sector\<lparr>sc_ceilingheight := dest\<rparr> in (res_pastdest, if nofit moved crush then sector else moved)
            else let moved = sector\<lparr>sc_ceilingheight := c_int (sc_ceilingheight sector - speed)\<rparr> in
              if nofit moved crush then (res_crushed, if crush then moved else sector) else (res_ok, moved))
         else if direction = 1 then
           (if dest < c_int (sc_ceilingheight sector + speed)
            then let moved = sector\<lparr>sc_ceilingheight := dest\<rparr> in (res_pastdest, if nofit moved crush then sector else moved)
            else (res_ok, sector\<lparr>sc_ceilingheight := c_int (sc_ceilingheight sector + speed)\<rparr>))
         else (res_ok, sector))
      else (res_ok, sector))"

datatype vldoor_e = vld_normal | vld_close30ThenOpen | vld_close | vld_open | vld_raiseIn5Mins | vld_blazeRaise | vld_blazeOpen | vld_blazeClose

record vldoor_t =
  dt_type :: vldoor_e
  dt_topheight :: int
  dt_speed :: int
  dt_direction :: int
  dt_topwait :: int
  dt_topcountdown :: int

text \<open>The door after its tic, \<open>None\<close> once it is removed and its sector's \<open>specialdata\<close> cleared.\<close>

definition T_VerticalDoor :: "(sector_t \<Rightarrow> bool \<Rightarrow> bool) \<Rightarrow> vldoor_t \<Rightarrow> sector_t \<Rightarrow> vldoor_t option \<times> sector_t" where
  "T_VerticalDoor nofit door sector =
     (let counted = door\<lparr>dt_topcountdown := c_int (dt_topcountdown door - 1)\<rparr> in
      if dt_direction door = 0 then
        (Some (if dt_topcountdown counted = 0 then
           (case dt_type door of vld_blazeRaise \<Rightarrow> counted\<lparr>dt_direction := -1\<rparr> | vld_normal \<Rightarrow> counted\<lparr>dt_direction := -1\<rparr>
            | vld_close30ThenOpen \<Rightarrow> counted\<lparr>dt_direction := 1\<rparr> | _ \<Rightarrow> counted) else counted), sector)
      else if dt_direction door = 2 then
        (Some (if dt_topcountdown counted = 0 then
           (case dt_type door of vld_raiseIn5Mins \<Rightarrow> counted\<lparr>dt_direction := 1, dt_type := vld_normal\<rparr> | _ \<Rightarrow> counted) else counted), sector)
      else if dt_direction door = -1 then
        (case T_MovePlane nofit sector (dt_speed door) (sc_floorheight sector) False 1 (dt_direction door) of
           (res_pastdest, sector') \<Rightarrow>
             (case dt_type door of vld_blazeRaise \<Rightarrow> None | vld_blazeClose \<Rightarrow> None | vld_normal \<Rightarrow> None | vld_close \<Rightarrow> None
              | vld_close30ThenOpen \<Rightarrow> Some (door\<lparr>dt_direction := 0, dt_topcountdown := 35 * 30\<rparr>) | _ \<Rightarrow> Some door, sector')
         | (res_crushed, sector') \<Rightarrow>
             (case dt_type door of vld_blazeClose \<Rightarrow> Some door | vld_close \<Rightarrow> Some door | _ \<Rightarrow> Some (door\<lparr>dt_direction := 1\<rparr>), sector')
         | (res_ok, sector') \<Rightarrow> (Some door, sector'))
      else if dt_direction door = 1 then
        (case T_MovePlane nofit sector (dt_speed door) (dt_topheight door) False 1 (dt_direction door) of
           (res_pastdest, sector') \<Rightarrow>
             (case dt_type door of vld_blazeRaise \<Rightarrow> Some (door\<lparr>dt_direction := 0, dt_topcountdown := dt_topwait door\<rparr>)
              | vld_normal \<Rightarrow> Some (door\<lparr>dt_direction := 0, dt_topcountdown := dt_topwait door\<rparr>)
              | vld_close30ThenOpen \<Rightarrow> None | vld_blazeOpen \<Rightarrow> None | vld_open \<Rightarrow> None | _ \<Rightarrow> Some door, sector')
         | (_, sector') \<Rightarrow> (Some door, sector'))
      else (Some door, sector))"

datatype plat_e = p_up | p_down | p_waiting | p_in_stasis

datatype plattype_e = perpetualRaise | downWaitUpStay | raiseAndChange | raiseToNearestAndChange | blazeDWUS

record plat_t =
  pa_speed :: int
  pa_low :: int
  pa_high :: int
  pa_wait :: int
  pa_count :: int
  pa_status :: plat_e
  pa_crush :: bool
  pa_type :: plattype_e

definition T_PlatRaise :: "(sector_t \<Rightarrow> bool \<Rightarrow> bool) \<Rightarrow> plat_t \<Rightarrow> sector_t \<Rightarrow> plat_t option \<times> sector_t" where
  "T_PlatRaise nofit plat sector = (case pa_status plat of
     p_up \<Rightarrow> (let (res, sector') = T_MovePlane nofit sector (pa_speed plat) (pa_high plat) (pa_crush plat) 0 1 in
       if res = res_crushed \<and> \<not> pa_crush plat then (Some (plat\<lparr>pa_count := pa_wait plat, pa_status := p_down\<rparr>), sector')
       else if res = res_pastdest then
         (case pa_type plat of blazeDWUS \<Rightarrow> None | downWaitUpStay \<Rightarrow> None | raiseAndChange \<Rightarrow> None | raiseToNearestAndChange \<Rightarrow> None
          | perpetualRaise \<Rightarrow> Some (plat\<lparr>pa_count := pa_wait plat, pa_status := p_waiting\<rparr>), sector')
       else (Some plat, sector'))
   | p_down \<Rightarrow> (let (res, sector') = T_MovePlane nofit sector (pa_speed plat) (pa_low plat) False 0 (-1) in
       if res = res_pastdest then (Some (plat\<lparr>pa_count := pa_wait plat, pa_status := p_waiting\<rparr>), sector') else (Some plat, sector'))
   | p_waiting \<Rightarrow> (let plat' = plat\<lparr>pa_count := c_int (pa_count plat - 1)\<rparr> in
       (Some (if pa_count plat' = 0 then (if sc_floorheight sector = pa_low plat then plat'\<lparr>pa_status := p_up\<rparr> else plat'\<lparr>pa_status := p_down\<rparr>)
              else plat'), sector))
   | p_in_stasis \<Rightarrow> (Some plat, sector))"

record floormove_t =
  fm_direction :: int
  fm_floordestheight :: int
  fm_speed :: int
  fm_crush :: bool

text \<open>A floor of a kind that changes no picture and no special when it arrives.\<close>

definition T_MoveFloor :: "(sector_t \<Rightarrow> bool \<Rightarrow> bool) \<Rightarrow> floormove_t \<Rightarrow> sector_t \<Rightarrow> floormove_t option \<times> sector_t" where
  "T_MoveFloor nofit floor sector =
     (let (res, sector') = T_MovePlane nofit sector (fm_speed floor) (fm_floordestheight floor) (fm_crush floor) 0 (fm_direction floor) in
      if res = res_pastdest then (None, sector') else (Some floor, sector'))"

text \<open>Numbers of the enumerations, in declaration order.\<close>

fun result_num :: "result_e \<Rightarrow> int" where
  "result_num res_ok = 0" | "result_num res_crushed = 1" | "result_num res_pastdest = 2"

fun vldoor_num :: "vldoor_e \<Rightarrow> int" where
  "vldoor_num vld_normal = 0" | "vldoor_num vld_close30ThenOpen = 1" | "vldoor_num vld_close = 2" | "vldoor_num vld_open = 3"
| "vldoor_num vld_raiseIn5Mins = 4" | "vldoor_num vld_blazeRaise = 5" | "vldoor_num vld_blazeOpen = 6" | "vldoor_num vld_blazeClose = 7"

fun plat_num :: "plat_e \<Rightarrow> int" where
  "plat_num p_up = 0" | "plat_num p_down = 1" | "plat_num p_waiting = 2" | "plat_num p_in_stasis = 3"

fun plattype_num :: "plattype_e \<Rightarrow> int" where
  "plattype_num perpetualRaise = 0" | "plattype_num downWaitUpStay = 1" | "plattype_num raiseAndChange = 2"
| "plattype_num raiseToNearestAndChange = 3" | "plattype_num blazeDWUS = 4"

text \<open>An enumerator by its number; a column never holds another.\<close>

definition vldoor_of :: "int \<Rightarrow> vldoor_e" where
  "vldoor_of k = (if k = 0 then vld_normal else if k = 1 then vld_close30ThenOpen else if k = 2 then vld_close else if k = 3 then vld_open
     else if k = 4 then vld_raiseIn5Mins else if k = 5 then vld_blazeRaise else if k = 6 then vld_blazeOpen else vld_blazeClose)"

definition plat_of :: "int \<Rightarrow> plat_e" where
  "plat_of k = (if k = 0 then p_up else if k = 1 then p_down else if k = 2 then p_waiting else p_in_stasis)"

definition plattype_of :: "int \<Rightarrow> plattype_e" where
  "plattype_of k = (if k = 0 then perpetualRaise else if k = 1 then downWaitUpStay else if k = 2 then raiseAndChange
     else if k = 3 then raiseToNearestAndChange else blazeDWUS)"

lemma of_num [simp]: "vldoor_of (vldoor_num t) = t" "plat_of (plat_num s) = s" "plattype_of (plattype_num y) = y"
  by ((cases t; simp add: vldoor_of_def), (cases s; simp add: plat_of_def), (cases y; simp add: plattype_of_def))

section \<open>A plane moves as in the engine\<close>

definition plane_height_of :: "int \<Rightarrow> sector_t \<Rightarrow> int" where
  "plane_height_of which sector = (if which = PLANE_FLOOR then sc_floorheight sector else sc_ceilingheight sector)"

definition set_plane :: "int \<Rightarrow> int \<Rightarrow> sector_t \<Rightarrow> sector_t" where
  "set_plane which h sector = (if which = PLANE_FLOOR then sector\<lparr>sc_floorheight := h\<rparr> else sector\<lparr>sc_ceilingheight := h\<rparr>)"

text \<open>Neither of the two heights one step away leaves the range of an \<open>int\<close>.\<close>

abbreviation step_fits :: "plane \<Rightarrow> bool" where
  "step_fits p \<equiv> is_int (pl_height p - pl_speed p) \<and> is_int (pl_height p + pl_speed p)"

lemma move_plane_engine:
  assumes "pl_which p \<in> {PLANE_FLOOR, PLANE_CEILING}" "pl_direction p \<in> {1, -1}" "step_fits p" "pl_height p = plane_height_of (pl_which p) sector"
    "crush = (pl_crush p = 1)" "(stuck = 1) = nofit (set_plane (pl_which p) (plane_target p) sector) crush"
    "move_plane p (plane_target p) stuck = (r, h, reverted)"
  shows "\<exists>res. T_MovePlane nofit sector (pl_speed p) (pl_dest p) crush (pl_which p) (pl_direction p) = (res, set_plane (pl_which p) h sector) \<and>
    result_num res = r"
proof -
  have w: "pl_which p = 0 \<or> pl_which p = 1" and d: "pl_direction p = 1 \<or> pl_direction p = -1" using assms(1,2) by auto
  have same: "set_plane (pl_which p) (pl_height p) sector = sector" using assms(4) by (simp add: set_plane_def plane_height_of_def)
  from w d show ?thesis
    using assms(3-7) same
    by (elim disjE) (auto simp: T_MovePlane_def move_plane_def plane_past_def plane_target_def set_plane_def plane_height_of_def Let_def split: if_splits)
qed

section \<open>Doors, platforms and floors tick as in the engine\<close>

definition door_plane_of :: "vldoor_t \<Rightarrow> sector_t \<Rightarrow> plane" where
  "door_plane_of door sector = \<lparr> pl_speed = dt_speed door, pl_dest = (if dt_direction door = -1 then sc_floorheight sector else dt_topheight door),
     pl_crush = 0, pl_which = PLANE_CEILING, pl_direction = dt_direction door, pl_height = sc_ceilingheight sector \<rparr>"

definition port_door :: "vldoor_t \<Rightarrow> door" where
  "port_door door = \<lparr> vd_kind = vldoor_num (dt_type door), vd_direction = dt_direction door, vd_count = dt_topcountdown door, vd_wait = dt_topwait door \<rparr>"

lemma vertical_door_waits:
  assumes "dt_direction door \<in> {0, 2}" "is_int (dt_topcountdown door - 1)" "vertical_door (port_door door) moved = (direction', count', kind', done', unresolved')"
  shows "T_VerticalDoor nofit door sector = (Some (door\<lparr>dt_direction := direction', dt_topcountdown := count', dt_type := vldoor_of kind'\<rparr>), sector)"
proof (cases "dt_topcountdown door = 1")
  case True
  then show ?thesis using assms by (cases door; cases "dt_type door"; elim insertE emptyE) (simp_all add: T_VerticalDoor_def vertical_door_def port_door_def Let_def vldoor_of_def)
next
  case False
  then have "dt_topcountdown door - 1 \<noteq> 0" by simp
  then show ?thesis using assms by (cases door; cases "dt_type door"; elim insertE emptyE) (simp_all add: T_VerticalDoor_def vertical_door_def port_door_def Let_def vldoor_of_def)
qed

lemma vertical_door_moves:
  assumes "dt_direction door \<in> {1, -1}" "step_fits (door_plane_of door sector)" 
    "(stuck = 1) = nofit (set_plane PLANE_CEILING (plane_target (door_plane_of door sector)) sector) False"
    "moved = move_plane (door_plane_of door sector) (plane_target (door_plane_of door sector)) stuck"
    "vertical_door (port_door door) moved = (direction', count', kind', done', unresolved')"
  shows "T_VerticalDoor nofit door sector = (if done' = 1 then None else Some (door\<lparr>dt_direction := direction', dt_topcountdown := count', dt_type := vldoor_of kind'\<rparr>),
      set_plane PLANE_CEILING (fst (snd moved)) sector)"
proof -
  let ?p = "door_plane_of door sector"
  obtain r h v where m: "moved = (r, h, v)" by (metis prod_cases3)
  obtain res where t: "T_MovePlane nofit sector (dt_speed door) (pl_dest ?p) False 1 (dt_direction door) = (res, set_plane PLANE_CEILING h sector)" "result_num res = r"
    using move_plane_engine [of ?p sector False stuck nofit r h v] assms(1-4) m by (auto simp: door_plane_of_def plane_height_of_def)
  from assms(1) show ?thesis
  proof (elim insertE emptyE)
    assume d: "dt_direction door = 1"
    then have "pl_dest ?p = dt_topheight door" by (simp add: door_plane_of_def)
    then show ?thesis using assms(5) t d unfolding m
      by (cases "dt_type door"; cases res) (auto simp: T_VerticalDoor_def vertical_door_def port_door_def Let_def vldoor_of_def)
  next
    assume d: "dt_direction door = -1"
    then have "pl_dest ?p = sc_floorheight sector" by (simp add: door_plane_of_def)
    then show ?thesis using assms(5) t d unfolding m
      by (cases "dt_type door"; cases res) (auto simp: T_VerticalDoor_def vertical_door_def port_door_def Let_def vldoor_of_def DOOR_TICRATE_def)
  qed
qed

definition plat_plane_of :: "plat_t \<Rightarrow> sector_t \<Rightarrow> plane" where
  "plat_plane_of plat sector = \<lparr> pl_speed = pa_speed plat, pl_dest = (if pa_status plat = p_up then pa_high plat else pa_low plat),
     pl_crush = 0, pl_which = PLANE_FLOOR, pl_direction = (if pa_status plat = p_up then 1 else -1), pl_height = sc_floorheight sector \<rparr>"

text \<open>The floor a plat compares with its low is the one its plane would move to, also while it waits.\<close>

definition port_plat :: "plat_t \<Rightarrow> int \<Rightarrow> plat" where
  "port_plat plat h = \<lparr> pt_kind = plattype_num (pa_type plat), pt_status = plat_num (pa_status plat), pt_count = pa_count plat, pt_wait = pa_wait plat,
     pt_crush = of_bool (pa_crush plat), pt_low = pa_low plat, pt_floorheight = h \<rparr>"

lemma plat_raise_moves:
  assumes "pa_status plat \<in> {p_up, p_down}" "\<not> pa_crush plat" "step_fits (plat_plane_of plat sector)"
    "(stuck = 1) = nofit (set_plane PLANE_FLOOR (plane_target (plat_plane_of plat sector)) sector) False"
    "moved = move_plane (plat_plane_of plat sector) (plane_target (plat_plane_of plat sector)) stuck"
    "plat_raise (port_plat plat (fst (snd moved))) moved = (status', count', done')"
  shows "T_PlatRaise nofit plat sector = (if done' = 1 then None else Some (plat\<lparr>pa_count := count', pa_status := plat_of status'\<rparr>),
    set_plane PLANE_FLOOR (fst (snd moved)) sector)"
proof -
  let ?p = "plat_plane_of plat sector"
  obtain r h v where m: "moved = (r, h, v)" by (metis prod_cases3)
  obtain res where t: "T_MovePlane nofit sector (pa_speed plat) (pl_dest ?p) False 0 (pl_direction ?p) = (res, set_plane PLANE_FLOOR h sector)" "result_num res = r"
    using move_plane_engine [of ?p sector False stuck nofit r h v] assms(1-5) m by (auto simp: plat_plane_of_def plane_height_of_def)
  from assms(1) show ?thesis
  proof (elim insertE emptyE)
    assume d: "pa_status plat = p_up"
    then have "pl_dest ?p = pa_high plat" "pl_direction ?p = 1" by (simp_all add: plat_plane_of_def)
    then show ?thesis using assms(2,6) t d unfolding m
      by (cases "pa_type plat"; cases res) (auto simp: T_PlatRaise_def plat_raise_def port_plat_def Let_def plat_of_def)
  next
    assume d: "pa_status plat = p_down"
    then have "pl_dest ?p = pa_low plat" "pl_direction ?p = -1" by (simp_all add: plat_plane_of_def)
    then show ?thesis using assms(2,6) t d unfolding m
      by (cases res) (auto simp: T_PlatRaise_def plat_raise_def port_plat_def Let_def plat_of_def)
  qed
qed

text \<open>
  A waiting platform turns by the floor one step down, not by the floor it stands on; the two agree unless it waits above
  its low by no more than one step.
\<close>

lemma plat_raise_waits:
  assumes "pa_status plat = p_waiting" "is_int (pa_count plat - 1)"
    "sc_floorheight sector = pa_low plat \<or> pa_low plat + pa_speed plat < sc_floorheight sector"
    "moved = move_plane (plat_plane_of plat sector) (plane_target (plat_plane_of plat sector)) 0"
    "0 < pa_speed plat"
    "plat_raise (port_plat plat (fst (snd moved))) moved = (status', count', done')"
  shows "T_PlatRaise nofit plat sector = (Some (plat\<lparr>pa_count := count', pa_status := plat_of status'\<rparr>), sector) \<and> done' = 0"
proof -
  have "fst (snd moved) = pa_low plat \<longleftrightarrow> sc_floorheight sector = pa_low plat"
    using assms(1,3,4,5) by (auto simp: plat_plane_of_def move_plane_def plane_target_def plane_past_def Let_def split: if_splits)
  then show ?thesis using assms(1,2,6) by (auto simp: T_PlatRaise_def plat_raise_def port_plat_def Let_def plat_of_def)
qed

lemma plat_raise_stasis:
  assumes "pa_status plat = p_in_stasis" "plat_raise (port_plat plat h) moved = (status', count', done')"
  shows "T_PlatRaise nofit plat sector = (Some (plat\<lparr>pa_count := count', pa_status := plat_of status'\<rparr>), sector) \<and> done' = 0"
  using assms by (auto simp: T_PlatRaise_def plat_raise_def port_plat_def Let_def plat_of_def)

definition floor_plane_of :: "floormove_t \<Rightarrow> sector_t \<Rightarrow> plane" where
  "floor_plane_of floor sector = \<lparr> pl_speed = fm_speed floor, pl_dest = fm_floordestheight floor, pl_crush = 0, pl_which = PLANE_FLOOR,
     pl_direction = fm_direction floor, pl_height = sc_floorheight sector \<rparr>"

lemma floor_moves:
  assumes "fm_direction floor \<in> {1, -1}" "\<not> fm_crush floor" "step_fits (floor_plane_of floor sector)"
    "(stuck = 1) = nofit (set_plane PLANE_FLOOR (plane_target (floor_plane_of floor sector)) sector) False"
    "moved = move_plane (floor_plane_of floor sector) (plane_target (floor_plane_of floor sector)) stuck"
  shows "T_MoveFloor nofit floor sector = (if fst moved = result_PASTDEST then None else Some floor, set_plane PLANE_FLOOR (fst (snd moved)) sector)"
proof -
  let ?p = "floor_plane_of floor sector"
  obtain r h v where m: "moved = (r, h, v)" by (metis prod_cases3)
  obtain res where "T_MovePlane nofit sector (fm_speed floor) (fm_floordestheight floor) False 0 (fm_direction floor) = (res, set_plane PLANE_FLOOR h sector)" "result_num res = r"
    using move_plane_engine [of ?p sector False stuck nofit r h v] assms m by (auto simp: floor_plane_of_def plane_height_of_def)
  then show ?thesis using assms(2) m by (cases res) (auto simp: T_MoveFloor_def)
qed

section \<open>Heights around a sector, as the engine finds them\<close>

definition getNextSector :: "level_lines \<Rightarrow> int \<Rightarrow> int \<Rightarrow> int option" where
  "getNextSector lv l sec =
     (if arrayElement (line_flags lv) (1 + l) AND 4 = 0 then None
      else let other = (if arrayElement (line_front lv) (1 + l) = sec then arrayElement (line_back lv) (1 + l) else arrayElement (line_front lv) (1 + l)) in
        if other < 0 then None else Some other)"

definition P_FindLowestCeilingSurrounding :: "level_lines \<Rightarrow> int \<Rightarrow> int list \<Rightarrow> int" where
  "P_FindLowestCeilingSurrounding lv sec ceilingheight = foldl (\<lambda>height l. case getNextSector lv l sec of None \<Rightarrow> height
     | Some other \<Rightarrow> if arrayElement ceilingheight (1 + other) < height then arrayElement ceilingheight (1 + other) else height) 2147483647 (lines_of lv sec)"

definition P_FindLowestFloorSurrounding :: "level_lines \<Rightarrow> int \<Rightarrow> int list \<Rightarrow> int" where
  "P_FindLowestFloorSurrounding lv sec floorheight = foldl (\<lambda>floor l. case getNextSector lv l sec of None \<Rightarrow> floor
     | Some other \<Rightarrow> if arrayElement floorheight (1 + other) < floor then arrayElement floorheight (1 + other) else floor)
     (arrayElement floorheight (1 + sec)) (lines_of lv sec)"

definition P_FindHighestFloorSurrounding :: "level_lines \<Rightarrow> int \<Rightarrow> int list \<Rightarrow> int" where
  "P_FindHighestFloorSurrounding lv sec floorheight = foldl (\<lambda>floor l. case getNextSector lv l sec of None \<Rightarrow> floor
     | Some other \<Rightarrow> if floor < arrayElement floorheight (1 + other) then arrayElement floorheight (1 + other) else floor)
     (- 500 * 65536) (lines_of lv sec)"

text \<open>The running height and the list of qualifying floors; \<open>None\<close> once the 23rd makes \<open>I_Error\<close> end the game.\<close>

definition next_height :: "level_lines \<Rightarrow> int \<Rightarrow> int list \<Rightarrow> (int \<times> int list) option \<Rightarrow> int \<Rightarrow> (int \<times> int list) option" where
  "next_height lv sec floorheight acc l = (case acc of None \<Rightarrow> None
   | Some (height, heightlist) \<Rightarrow> (case getNextSector lv l sec of None \<Rightarrow> Some (height, heightlist)
     | Some other \<Rightarrow> let of_l = arrayElement floorheight (1 + other); h = length heightlist in
         if height < of_l then
           if h = 20 + 1 then Some (of_l, heightlist @ [of_l]) else if h = 20 + 2 then None else Some (height, heightlist @ [of_l])
         else Some (height, heightlist)))"

definition P_FindNextHighestFloor :: "level_lines \<Rightarrow> int \<Rightarrow> int list \<Rightarrow> int \<Rightarrow> int option" where
  "P_FindNextHighestFloor lv sec floorheight currentheight =
     map_option (\<lambda>(height, heightlist). case heightlist of [] \<Rightarrow> currentheight | x # xs \<Rightarrow> foldl (\<lambda>m y. if y < m then y else m) x xs)
       (foldl (next_height lv sec floorheight) (Some (currentheight, [])) (lines_of lv sec))"

lemma getNextSector_port: "getNextSector lv l sec = (if two_sided lv sec l then Some (other_sector lv sec l) else None)"
  by (auto simp: getNextSector_def two_sided_def other_sector_def Let_def)

lemma foldl_min: "foldl (\<lambda>m y. if y < m then y else m) x ys = fold min ys (x :: int)"
proof -
  have "(\<lambda>m y. if y < m then y else m) = (\<lambda>m y. min y (m :: int))" by (intro ext) (simp add: min_def)
  then show ?thesis by (simp only: foldl_conv_fold)
qed

lemma fold_min_swap: "fold min xs (min a b) = min a (fold min xs (b :: int))"
  by (induction xs arbitrary: b) (simp, metis fold_simps(2) min.left_commute)

lemma fold_max_swap: "fold max xs (max a b) = max a (fold max xs (b :: int))"
  by (induction xs arbitrary: b) (simp, metis fold_simps(2) max.left_commute)

lemma arrayMin_push: "arrayMin (xs @ [k]) = fold min xs k"
  by (cases xs) (simp_all add: arrayMin_def fold_min_swap [of _ _ k, symmetric] min.commute flip: fold_min_swap)

lemma arrayMax_push: "arrayMax (xs @ [k]) = fold max xs k"
  by (cases xs) (simp_all add: arrayMax_def max.commute flip: fold_max_swap)

lemma neighbour_walk:
  "foldl (\<lambda>a l. case getNextSector lv l sec of None \<Rightarrow> a | Some other \<Rightarrow> f a (arrayElement hs (1 + other))) a ls =
   foldl f a (map (\<lambda>l. arrayElement hs (1 + other_sector lv sec l)) (filter (two_sided lv sec) ls))"
  by (induction ls arbitrary: a) (simp_all add: getNextSector_port)

lemma foldl_max: "foldl (\<lambda>m y. if m < y then y else m) x ys = fold max ys (x :: int)"
proof -
  have "(\<lambda>m y. if m < y then y else m) = (\<lambda>m y. max y (m :: int))" by (intro ext) (simp add: max_def)
  then show ?thesis by (simp only: foldl_conv_fold)
qed

lemma surrounding_engine:
  "lowest_ceiling_surrounding lv sec hs = P_FindLowestCeilingSurrounding lv sec hs"
  "lowest_floor_surrounding lv sec hs = P_FindLowestFloorSurrounding lv sec hs"
  "highest_floor_surrounding lv sec hs = P_FindHighestFloorSurrounding lv sec hs"
  unfolding lowest_ceiling_surrounding_def P_FindLowestCeilingSurrounding_def lowest_floor_surrounding_def P_FindLowestFloorSurrounding_def
    highest_floor_surrounding_def P_FindHighestFloorSurrounding_def neighbour_heights_def arrayMin_push arrayMax_push
    neighbour_walk [where f = "\<lambda>m y. if y < m then y else m"] neighbour_walk [where f = "\<lambda>m y. if m < y then y else m"] foldl_min foldl_max
  by simp_all

lemma overflow_stays: "snd (snd (snd (foldl (next_highest_step lv sec hs) (h, c, m, 1) ls))) = 1"
  by (induction ls arbitrary: h c m) (auto simp: next_highest_step_def Let_def)

lemma next_height_None [simp]: "foldl (next_height lv sec hs) None ls = None"
  by (induction ls) (simp_all add: next_height_def)

lemma next_highest_walk:
  assumes "foldl (next_highest_step lv sec hs) (height, int (length list), fold min list 9223372036854775807, 0) ls = (height', count', least', overflow')"
    "length list \<le> 22"
  shows "case foldl (next_height lv sec hs) (Some (height, list)) ls of None \<Rightarrow> overflow' = 1
    | Some (h, list') \<Rightarrow> overflow' = 0 \<and> count' = int (length list') \<and> least' = fold min list' 9223372036854775807"
  using assms
proof (induction ls arbitrary: height list)
  case (Cons l ls)
  let ?of = "arrayElement hs (1 + other_sector lv sec l)"
  show ?case
  proof (cases "two_sided lv sec l \<and> height < ?of")
    case False
    then have "next_highest_step lv sec hs (height, int (length list), fold min list 9223372036854775807, 0) l = (height, int (length list), fold min list 9223372036854775807, 0)"
      "next_height lv sec hs (Some (height, list)) l = Some (height, list)"
      by (auto simp: next_highest_step_def next_height_def getNextSector_port two_sided_def Let_def)
    then show ?thesis using Cons by simp
  next
    case q: True
    then have g: "getNextSector lv l sec = Some (other_sector lv sec l)" "\<not> (arrayElement (line_flags lv) (1 + l) AND 4 = 0 \<or> other_sector lv sec l < 0 \<or> ?of \<le> height)"
      by (auto simp: getNextSector_port two_sided_def)
    show ?thesis
    proof (cases "length list = 22")
      case True
      then have "next_height lv sec hs (Some (height, list)) l = None" using g q by (simp add: next_height_def)
      moreover have "next_highest_step lv sec hs (height, int (length list), fold min list 9223372036854775807, 0) l = (height, 23, fold min list 9223372036854775807, 1)"
        using g(2) True by (simp add: next_highest_step_def Let_def)
      then have "overflow' = 1" using Cons.prems(1) overflow_stays [of lv sec hs height 23 "fold min list 9223372036854775807" ls] by simp
      ultimately show ?thesis by simp
    next
      case False
      then have "length (list @ [?of]) \<le> 22" using Cons.prems(2) by simp
      moreover have "next_highest_step lv sec hs (height, int (length list), fold min list 9223372036854775807, 0) l =
          (if length list = 21 then ?of else height, int (length (list @ [?of])), fold min (list @ [?of]) 9223372036854775807, 0)"
        "next_height lv sec hs (Some (height, list)) l = Some (if length list = 21 then ?of else height, list @ [?of])"
        using g q False by (auto simp: next_highest_step_def next_height_def Let_def min.commute)
      ultimately show ?thesis using Cons.IH [of "if length list = 21 then ?of else height" "list @ [?of]"] Cons.prems(1) by simp
    qed
  qed
qed simp

lemma next_height_elements:
  "foldl (next_height lv sec hs) (Some (h, list)) ls = Some (h', list') \<Longrightarrow> x \<in> set list' \<Longrightarrow> x \<in> set list \<or> (\<exists>i. x = arrayElement hs i)"
proof (induction ls arbitrary: h list)
  case (Cons l ls)
  obtain h1 list1 where s: "next_height lv sec hs (Some (h, list)) l = Some (h1, list1)" using Cons.prems(1) by (cases "next_height lv sec hs (Some (h, list)) l") auto
  then have "\<forall>y \<in> set list1. y \<in> set list \<or> (\<exists>i. y = arrayElement hs i)" by (auto simp: next_height_def Let_def split: option.splits if_splits)
  then show ?case using Cons.IH [of h1 list1] Cons.prems s by auto
qed simp

lemma arrayElement_in: "arrayElement xs i \<in> set xs \<or> arrayElement xs i = 0"
  by (auto simp: arrayElement_def nat_less_iff intro!: nth_mem)

lemma next_highest_engine:
  assumes "\<forall>h \<in> set hs. is_int h" "next_highest_floor lv sec hs = (height', count', least', overflow')"
  shows "P_FindNextHighestFloor lv sec hs (arrayElement hs (1 + sec)) =
    (if overflow' = 1 then None else Some (if count' = 0 then arrayElement hs (1 + sec) else least'))"
proof -
  let ?run = "foldl (next_height lv sec hs) (Some (arrayElement hs (1 + sec), [])) (lines_of lv sec)"
  have w: "case ?run of None \<Rightarrow> overflow' = 1 | Some (h, list') \<Rightarrow> overflow' = 0 \<and> count' = int (length list') \<and> least' = fold min list' 9223372036854775807"
    by (rule next_highest_walk) (use assms(2) in \<open>simp_all add: next_highest_floor_def\<close>)
  show ?thesis
  proof (cases ?run)
    case None
    then show ?thesis using w by (simp add: P_FindNextHighestFloor_def)
  next
    case (Some hl)
    obtain h list' where hl: "hl = (h, list')" by (cases hl)
    show ?thesis
    proof (cases list')
      case (Cons x xs)
      then obtain i where "x = arrayElement hs i" using next_height_elements [OF Some [unfolded hl], of x] by auto
      then have "x \<le> 9223372036854775807" using assms(1) arrayElement_in [of hs i] by auto
      then show ?thesis using w Some hl Cons by (simp add: P_FindNextHighestFloor_def foldl_min min_absorb1)
    qed (use w Some hl in \<open>simp add: P_FindNextHighestFloor_def\<close>)
  qed
qed

end
