(* ===== verification/Nat_Thinkers.thy ===== *)
theory Nat_Thinkers
  imports Nat_Planes
begin

text \<open>
  The pass of a tic that runs every plane thinker at once (\<open>planes\<close> of \<open>native/src/sql/sim/specials.rs\<close>), beside the
  engine's walk, which runs them one after another.  The thinker columns of the state row are a list of records here, a
  slot its position counted from 1.  The clip of the things near a moving sector (\<open>plane::change_sector\<close>) is an argument:
  it is given the sectors that move and the heights they try, and answers which of them do not fit, the things' heights,
  and whether it could not finish.
\<close>

section \<open>The state\<close>

definition kind_DOOR :: int where [simp]: "kind_DOOR = 1"
definition kind_PLAT :: int where [simp]: "kind_PLAT = 2"
definition kind_FLOOR :: int where [simp]: "kind_FLOOR = 3"
definition kind_CEILING :: int where [simp]: "kind_CEILING = 4"

record plane_thinker =
  s_seq :: int
  s_kind :: int
  s_sector :: int
  s_type :: int
  s_direction :: int
  s_speed :: int
  s_dest :: int
  s_dest2 :: int
  s_count :: int
  s_wait :: int
  s_status :: int
  s_oldstatus :: int
  s_crush :: int
  s_tag :: int
  s_texture :: int
  s_newspecial :: int
  s_minlight :: int
  s_maxlight :: int
  s_mintime :: int
  s_maxtime :: int
  s_active :: int
  s_activeplat_slot :: int
  s_activeceil_slot :: int

record sim_state =
  thinkers :: "plane_thinker list"
  sec_floorheight :: "int list"
  sec_ceilingheight :: "int list"
  sec_specialdata :: "nat list"
  m_z :: "int list"
  m_floorz :: "int list"
  m_ceilingz :: "int list"
  unresolved :: u64

text \<open>The sectors, the floors and the ceilings they try; which do not fit, the things' heights, and 1 when unfinished.\<close>

type_synonym clip = "int list \<Rightarrow> int list \<Rightarrow> int list \<Rightarrow> int list \<times> int list \<times> int list \<times> int list \<times> int"

text \<open>\<open>arrayMap((v, i) -> if(i = at, x, v), ...)\<close>, and the one-based place of a value, 0 when it is absent.\<close>

definition put_at :: "'a list \<Rightarrow> int \<Rightarrow> 'a \<Rightarrow> 'a list" where
  "put_at xs at x = (if 1 \<le> at \<and> at \<le> int (length xs) then xs[nat (at - 1) := x] else xs)"

fun indexOf :: "'a list \<Rightarrow> 'a \<Rightarrow> nat" where
  "indexOf [] x = 0"
| "indexOf (y # ys) x = (if y = x then 1 else if indexOf ys x = 0 then 0 else 1 + indexOf ys x)"

section \<open>One slot of the pass\<close>

definition plane_runs :: "plane_thinker \<Rightarrow> bool" where
  "plane_runs t \<longleftrightarrow> s_active t = 1 \<and>
     ((s_kind t = kind_DOOR \<and> s_direction t \<noteq> 0) \<or> (s_kind t = kind_FLOOR \<and> s_direction t \<noteq> 0) \<or>
      (s_kind t = kind_PLAT \<and> s_status t \<in> {plat_UP, plat_DOWN}))"

definition plane_direction :: "plane_thinker \<Rightarrow> int" where
  "plane_direction t = (if s_kind t = kind_PLAT then if s_status t = plat_UP then 1 else -1 else s_direction t)"

definition plane_dest :: "sim_state \<Rightarrow> plane_thinker \<Rightarrow> int" where
  "plane_dest st t = (if s_kind t = kind_PLAT then if s_status t = plat_UP then s_dest2 t else s_dest t
     else if s_kind t = kind_DOOR \<and> plane_direction t = -1 then arrayElement (sec_floorheight st) (1 + s_sector t) else s_dest t)"

definition plane_which :: "plane_thinker \<Rightarrow> int" where
  "plane_which t = (if s_kind t \<in> {kind_DOOR, kind_CEILING} then PLANE_CEILING else PLANE_FLOOR)"

definition plane_height :: "sim_state \<Rightarrow> plane_thinker \<Rightarrow> int" where
  "plane_height st t = (if plane_which t = PLANE_CEILING then arrayElement (sec_ceilingheight st) (1 + s_sector t)
     else arrayElement (sec_floorheight st) (1 + s_sector t))"

text \<open>\<open>door_plane\<close>: the plane every slot drives, whatever its kind.\<close>

definition slot_plane :: "sim_state \<Rightarrow> plane_thinker \<Rightarrow> plane" where
  "slot_plane st t = \<lparr> pl_speed = s_speed t, pl_dest = plane_dest st t, pl_crush = 0, pl_which = plane_which t,
     pl_direction = plane_direction t, pl_height = plane_height st t \<rparr>"

abbreviation slot_target :: "sim_state \<Rightarrow> plane_thinker \<Rightarrow> int" where
  "slot_target st t \<equiv> plane_target (slot_plane st t)"

definition plane_acts :: "plane_thinker \<Rightarrow> bool" where
  "plane_acts t \<longleftrightarrow> s_active t = 1 \<and> s_kind t \<in> {kind_DOOR, kind_PLAT, kind_FLOOR, kind_CEILING}"

definition plane_running :: "sim_state \<Rightarrow> plane_thinker list" where
  "plane_running st = filter plane_runs (filter plane_acts (thinkers st))"

definition plane_moving :: "sim_state \<Rightarrow> int list" where
  "plane_moving st = map s_sector (plane_running st)"

text \<open>One column of heights with a value put in for every running slot that drives it.\<close>

definition scatter :: "int \<Rightarrow> (plane_thinker \<Rightarrow> int) \<Rightarrow> plane_thinker list \<Rightarrow> int list \<Rightarrow> int list" where
  "scatter which value ts hs = foldl (\<lambda>acc t. if plane_which t = which then put_at acc (1 + s_sector t) (c_int (value t)) else acc) hs ts"

definition plane_trying_floor :: "sim_state \<Rightarrow> int list" where
  "plane_trying_floor st = scatter PLANE_FLOOR (slot_target st) (plane_running st) (sec_floorheight st)"

definition plane_trying :: "sim_state \<Rightarrow> int list" where
  "plane_trying st = scatter PLANE_CEILING (slot_target st) (plane_running st) (sec_ceilingheight st)"

definition plane_clip :: "clip \<Rightarrow> sim_state \<Rightarrow> int list \<times> int list \<times> int list \<times> int list \<times> int" where
  "plane_clip clip st = (if plane_moving st = [] then ([], m_z st, m_floorz st, m_ceilingz st, 0)
     else clip (plane_moving st) (plane_trying_floor st) (plane_trying st))"

definition plane_stuck :: "clip \<Rightarrow> sim_state \<Rightarrow> plane_thinker \<Rightarrow> int" where
  "plane_stuck clip st t = (if plane_runs t then arrayElement (fst (plane_clip clip st)) (int (indexOf (plane_moving st) (s_sector t))) else 0)"

definition plane_moved :: "clip \<Rightarrow> sim_state \<Rightarrow> plane_thinker \<Rightarrow> int \<times> int \<times> int" where
  "plane_moved clip st t = move_plane (slot_plane st t) (slot_target st t) (plane_stuck clip st t)"

definition plane_door :: "clip \<Rightarrow> sim_state \<Rightarrow> plane_thinker \<Rightarrow> int \<times> int \<times> int \<times> int \<times> int" where
  "plane_door clip st t = vertical_door \<lparr> vd_kind = s_type t, vd_direction = s_direction t, vd_count = s_count t, vd_wait = s_wait t \<rparr> (plane_moved clip st t)"

definition plane_plat :: "clip \<Rightarrow> sim_state \<Rightarrow> plane_thinker \<Rightarrow> int \<times> int \<times> int" where
  "plane_plat clip st t = plat_raise \<lparr> pt_kind = s_type t, pt_status = s_status t, pt_count = s_count t, pt_wait = s_wait t, pt_crush = s_crush t,
     pt_low = s_dest t, pt_floorheight = fst (snd (plane_moved clip st t)) \<rparr> (plane_moved clip st t)"

definition plane_ticks :: "plane_thinker \<Rightarrow> bool" where
  "plane_ticks t \<longleftrightarrow> s_active t = 1 \<and> (s_kind t \<in> {kind_PLAT, kind_DOOR} \<or> plane_runs t)"

definition plane_done :: "clip \<Rightarrow> sim_state \<Rightarrow> plane_thinker \<Rightarrow> bool" where
  "plane_done clip st t \<longleftrightarrow> (if s_kind t = kind_PLAT then plane_ticks t \<and> snd (snd (plane_plat clip st t)) = 1
     else if s_kind t = kind_FLOOR then plane_runs t \<and> fst (plane_moved clip st t) = result_PASTDEST
     else plane_runs t \<and> fst (snd (snd (snd (plane_door clip st t)))) = 1)"

definition slot_after :: "clip \<Rightarrow> sim_state \<Rightarrow> plane_thinker \<Rightarrow> plane_thinker" where
  "slot_after clip st t =
     (let is_door = (s_kind t = kind_DOOR \<and> plane_ticks t); is_plat = (s_kind t = kind_PLAT \<and> plane_ticks t);
          (direction, door_count, type, _, _) = plane_door clip st t; (status, plat_count, _) = plane_plat clip st t in
      t\<lparr>s_direction := c_int (if is_door then direction else s_direction t),
        s_type := c_int (if is_door then type else s_type t),
        s_count := c_int (if is_plat then plat_count else if s_kind t = kind_PLAT then s_count t else if is_door then door_count else s_count t),
        s_status := c_int (if is_plat then status else s_status t)\<rparr>)"

section \<open>The pass\<close>

definition thinker_slots :: "bool list \<Rightarrow> nat list" where
  "thinker_slots kept = map (\<lambda>i. if kept ! i then length (filter id (take (Suc i) kept)) else 0) [0..<length kept]"

definition PLANE_SHARED :: u64 where "PLANE_SHARED = 2 ^ 23"
definition PLANE_CLIP_STUCK :: u64 where "PLANE_CLIP_STUCK = 2 ^ 24"
definition PLANE_FLOOR_CHANGER :: u64 where "PLANE_FLOOR_CHANGER = 2 ^ 25"
definition PLANE_REVERTED :: u64 where "PLANE_REVERTED = 2 ^ 26"
definition DOOR_RUN_STUCK :: u64 where "DOOR_RUN_STUCK = 2 ^ 27"
definition PLANE_CRUSH :: u64 where "PLANE_CRUSH = 2 ^ 28"

definition mask :: "u64 \<Rightarrow> (u64 \<times> bool) list \<Rightarrow> u64" where
  "mask prev terms = foldl (\<lambda>acc (bit, cond). acc OR (if cond then bit else 0)) prev terms"

definition plane_unresolved :: "clip \<Rightarrow> sim_state \<Rightarrow> u64" where
  "plane_unresolved clip st = mask (unresolved st)
     [(PLANE_SHARED, length (plane_moving st) \<noteq> length (remdups (plane_moving st))),
      (PLANE_CLIP_STUCK, snd (snd (snd (snd (plane_clip clip st)))) = 1),
      (PLANE_FLOOR_CHANGER, \<exists>t \<in> set (thinkers st). plane_done clip st t \<and> s_kind t = kind_FLOOR \<and> s_type t \<in> {6, 11}),
      (PLANE_REVERTED, \<exists>t \<in> set (thinkers st). plane_runs t \<and> snd (snd (plane_moved clip st t)) = 1),
      (DOOR_RUN_STUCK, \<exists>t \<in> set (thinkers st). plane_runs t \<and> snd (snd (snd (snd (plane_door clip st t)))) = 1),
      (PLANE_CRUSH, \<exists>t \<in> set (thinkers st). plane_runs t \<and> s_crush t = 1)]"

text \<open>The sector of every slot that comes off the list points to nothing.\<close>

definition clear_sectors :: "nat list \<Rightarrow> plane_thinker list \<Rightarrow> nat list" where
  "clear_sectors sd ts = foldl (\<lambda>acc t. put_at acc (1 + s_sector t) 0) sd ts"

definition planes :: "clip \<Rightarrow> sim_state \<Rightarrow> sim_state" where
  "planes clip st =
     (if \<not> (\<exists>t \<in> set (thinkers st). plane_acts t)
      then let slot = thinker_slots (map (\<lambda>_. True) (thinkers st)) in
        st\<lparr>sec_specialdata := map (\<lambda>v. if v = 0 then 0 else arrayElement slot (int v)) (sec_specialdata st)\<rparr>
      else let kept = map (\<lambda>t. \<not> plane_done clip st t) (thinkers st); slot = thinker_slots kept;
        moved_to = (\<lambda>t. fst (snd (plane_moved clip st t)));
        cleared = clear_sectors (sec_specialdata st) (filter (plane_done clip st) (thinkers st));
        (_, z, floorz, ceilingz, _) = plane_clip clip st in
      st\<lparr>thinkers := map (slot_after clip st) (filter (\<lambda>t. \<not> plane_done clip st t) (thinkers st)),
         sec_ceilingheight := scatter PLANE_CEILING moved_to (plane_running st) (sec_ceilingheight st),
         sec_floorheight := scatter PLANE_FLOOR moved_to (plane_running st) (sec_floorheight st),
         sec_specialdata := map (\<lambda>v. if v = 0 then 0 else arrayElement slot (int v)) cleared,
         m_z := z, m_floorz := floorz, m_ceilingz := ceilingz, unresolved := plane_unresolved clip st\<rparr>)"

section \<open>The engine's walk\<close>

text \<open>
  \<open>nofit floors ceilings i crush\<close> is the answer of \<open>P_ChangeSector\<close> for sector \<open>i\<close> in a world with these heights.  A thinker
  reads and writes its own sector; the light thinkers, which share the list, touch no height.
\<close>

type_synonym nofit = "int list \<Rightarrow> int list \<Rightarrow> nat \<Rightarrow> bool \<Rightarrow> bool"

definition door_of :: "plane_thinker \<Rightarrow> vldoor_t" where
  "door_of t = \<lparr> dt_type = vldoor_of (s_type t), dt_topheight = s_dest t, dt_speed = s_speed t, dt_direction = s_direction t,
     dt_topwait = s_wait t, dt_topcountdown = s_count t \<rparr>"

definition plat_t_of :: "plane_thinker \<Rightarrow> plat_t" where
  "plat_t_of t = \<lparr> pa_speed = s_speed t, pa_low = s_dest t, pa_high = s_dest2 t, pa_wait = s_wait t, pa_count = s_count t,
     pa_status = plat_of (s_status t), pa_crush = (s_crush t \<noteq> 0), pa_type = plattype_of (s_type t) \<rparr>"

definition floor_of :: "plane_thinker \<Rightarrow> floormove_t" where
  "floor_of t = \<lparr> fm_direction = s_direction t, fm_floordestheight = s_dest t, fm_speed = s_speed t, fm_crush = (s_crush t \<noteq> 0) \<rparr>"

definition sector_at :: "int list \<Rightarrow> int list \<Rightarrow> nat \<Rightarrow> sector_t" where
  "sector_at fs cs i = \<lparr> sc_floorheight = fs ! i, sc_ceilingheight = cs ! i \<rparr>"

definition think :: "plane_thinker \<Rightarrow> sector_t \<Rightarrow> (sector_t \<Rightarrow> bool \<Rightarrow> bool) \<Rightarrow> plane_thinker option \<times> sector_t" where
  "think t sec ask =
     (if s_active t \<noteq> 1 then (Some t, sec)
      else if s_kind t = kind_DOOR then
        map_prod (map_option (\<lambda>d. t\<lparr>s_direction := dt_direction d, s_count := dt_topcountdown d, s_type := vldoor_num (dt_type d)\<rparr>)) id (T_VerticalDoor ask (door_of t) sec)
      else if s_kind t = kind_PLAT then
        map_prod (map_option (\<lambda>p. t\<lparr>s_count := pa_count p, s_status := plat_num (pa_status p)\<rparr>)) id (T_PlatRaise ask (plat_t_of t) sec)
      else if s_kind t = kind_FLOOR then map_prod (map_option (\<lambda>_. t)) id (T_MoveFloor ask (floor_of t) sec)
      else (Some t, sec))"

fun run_thinkers :: "nofit \<Rightarrow> plane_thinker list \<Rightarrow> int list \<Rightarrow> int list \<Rightarrow> plane_thinker option list \<times> int list \<times> int list" where
  "run_thinkers nofit [] fs cs = ([], fs, cs)"
| "run_thinkers nofit (t # ts) fs cs =
     (let i = nat (s_sector t);
          (t', sec) = think t (sector_at fs cs i) (\<lambda>sec crush. nofit (fs[i := sc_floorheight sec]) (cs[i := sc_ceilingheight sec]) i crush);
          (ts', fs', cs') = run_thinkers nofit ts (fs[i := sc_floorheight sec]) (cs[i := sc_ceilingheight sec]) in
      (t' # ts', fs', cs'))"

section \<open>What the pass relies on\<close>

text \<open>
  The columns hold \<open>int\<close>s and numbers of their enumerations, and no step leaves the range of an \<open>int\<close>.  A door is not in the
  initial wait of a five minute door, and no ceiling thinker is on the list: the port makes neither.  A platform that waits
  above its low is more than one step above it.
\<close>

definition thinker_ok :: "sim_state \<Rightarrow> plane_thinker \<Rightarrow> bool" where
  "thinker_ok st t \<longleftrightarrow> is_int (s_direction t) \<and> is_int (s_type t) \<and> is_int (s_count t) \<and> is_int (s_status t) \<and>
     (s_active t = 1 \<longrightarrow> s_kind t \<noteq> kind_CEILING) \<and>
     (s_active t = 1 \<and> s_kind t \<in> {kind_DOOR, kind_PLAT, kind_FLOOR} \<longrightarrow>
       0 \<le> s_sector t \<and> s_sector t < int (length (sec_floorheight st)) \<and> length (sec_ceilingheight st) = length (sec_floorheight st) \<and>
       step_fits (slot_plane st t) \<and> is_int (slot_target st t) \<and> is_int (s_count t - 1) \<and> is_int (s_wait t) \<and> s_crush t \<in> {0, 1}) \<and>
     (s_active t = 1 \<and> s_kind t = kind_DOOR \<longrightarrow> s_type t \<in> {0..7} \<and> s_direction t \<in> {-1, 0, 1}) \<and>
     (s_active t = 1 \<and> s_kind t = kind_PLAT \<longrightarrow> s_type t \<in> {0..4} \<and> s_status t \<in> {0..3} \<and>
       (s_status t = plat_WAITING \<longrightarrow> 0 < s_speed t \<and> (plane_height st t = s_dest t \<or> s_dest t + s_speed t < plane_height st t))) \<and>
     (s_active t = 1 \<and> s_kind t = kind_FLOOR \<longrightarrow> s_direction t \<in> {-1, 0, 1})"

text \<open>Heights in which some of the moving planes have moved and the others not yet.\<close>

definition mixed :: "int list \<Rightarrow> int list \<Rightarrow> int list \<Rightarrow> bool" where
  "mixed before after hs \<longleftrightarrow> length hs = length before \<and> (\<forall>k < length before. hs ! k = before ! k \<or> hs ! k = after ! k)"

text \<open>The clip answers for each moving sector what the engine answers in any of the worlds its walk can ask in.\<close>

definition clip_answers :: "nofit \<Rightarrow> clip \<Rightarrow> sim_state \<Rightarrow> bool" where
  "clip_answers nofit clip st \<longleftrightarrow> (\<forall>t \<in> set (plane_running st). \<forall>fs cs. let i = nat (s_sector t) in
     mixed (sec_floorheight st) (plane_trying_floor st) fs \<and> mixed (sec_ceilingheight st) (plane_trying st) cs \<and>
     fs ! i = plane_trying_floor st ! i \<and> cs ! i = plane_trying st ! i \<longrightarrow> nofit fs cs i False = (plane_stuck clip st t = 1))"

section \<open>Scattering\<close>

lemma put_at_sector [simp]: "put_at hs (1 + s) x = (if 0 \<le> s then hs[nat s := x] else hs)"
  by (auto simp: put_at_def list_update_beyond)

lemma length_scatter [simp]: "length (scatter w v ts hs) = length hs"
  unfolding scatter_def by (induction ts arbitrary: hs) auto

lemma scatter_Cons [simp]: "scatter w v [] hs = hs"
  "scatter w v (t # ts) hs = scatter w v ts (if plane_which t = w then put_at hs (1 + s_sector t) (c_int (v t)) else hs)"
  by (simp_all add: scatter_def)

lemma scatter_append: "scatter w v (ts @ us) hs = scatter w v us (scatter w v ts hs)"
  by (simp add: scatter_def)

lemma scatter_cong: "(\<And>t. t \<in> set ts \<Longrightarrow> v t = v' t) \<Longrightarrow> scatter w v ts hs = scatter w v' ts hs"
  by (induction ts arbitrary: hs) simp_all

lemma scatter_other: "(\<And>t. t \<in> set ts \<Longrightarrow> s_sector t \<noteq> int i) \<Longrightarrow> scatter w v ts hs ! i = hs ! i"
proof (induction ts arbitrary: hs)
  case (Cons a ts)
  have "s_sector a \<noteq> int i" using Cons.prems by simp
  then have "nat (s_sector a) \<noteq> i \<or> s_sector a < 0" by linarith
  then show ?case using Cons by auto
qed simp

lemma scatter_at:
  assumes "distinct (map s_sector ts)" "t \<in> set ts" "0 \<le> s_sector t" "nat (s_sector t) < length hs"
  shows "scatter w v ts hs ! nat (s_sector t) = (if plane_which t = w then c_int (v t) else hs ! nat (s_sector t))"
  using assms
proof (induction ts arbitrary: hs)
  case (Cons u ts)
  show ?case
  proof (cases "u = t")
    case True
    then have "scatter w v ts hs' ! nat (s_sector t) = hs' ! nat (s_sector t)" for hs'
      using Cons.prems by (intro scatter_other) (auto simp: rev_image_eqI)
    then show ?thesis using True Cons.prems by simp
  next
    case False
    then have "s_sector u \<noteq> s_sector t" using Cons.prems by (auto simp: rev_image_eqI)
    moreover have "scatter w v ts hs' ! nat (s_sector t) = (if plane_which t = w then c_int (v t) else hs' ! nat (s_sector t))" if "length hs' = length hs" for hs'
      using Cons.IH [of hs'] Cons.prems False that by simp
    ultimately show ?thesis using Cons.prems by auto
  qed
qed simp

lemma scatter_mixed:
  assumes "distinct (map s_sector (ts @ us))" "\<And>t. t \<in> set (ts @ us) \<Longrightarrow> 0 \<le> s_sector t"
  shows "mixed hs (scatter w v (ts @ us) hs) (scatter w v ts hs)"
  unfolding mixed_def
proof (intro conjI allI impI)
  fix k assume k: "k < length hs"
  show "scatter w v ts hs ! k = hs ! k \<or> scatter w v ts hs ! k = scatter w v (ts @ us) hs ! k"
  proof (cases "\<exists>t \<in> set ts. s_sector t = int k")
    case True
    then have "\<And>u. u \<in> set us \<Longrightarrow> s_sector u \<noteq> int k" using assms(1) by (auto simp: rev_image_eqI)
    then show ?thesis by (simp add: scatter_append scatter_other)
  qed (auto simp: scatter_other)
qed simp


section \<open>One thinker\<close>

lemma num_of: "k \<in> {0..7} \<Longrightarrow> vldoor_num (vldoor_of k) = k" "k \<in> {0..3} \<Longrightarrow> plat_num (plat_of k) = k" "k \<in> {0..4} \<Longrightarrow> plattype_num (plattype_of k) = k"
  by (auto simp: vldoor_of_def plat_of_def plattype_of_def)

text \<open>A sector that stands where the pass found it.\<close>

definition stands_at :: "sim_state \<Rightarrow> plane_thinker \<Rightarrow> sector_t \<Rightarrow> bool" where
  "stands_at st t sec \<longleftrightarrow> sc_floorheight sec = arrayElement (sec_floorheight st) (1 + s_sector t) \<and> sc_ceilingheight sec = arrayElement (sec_ceilingheight st) (1 + s_sector t)"

text \<open>What the walk does with a thinker is what the pass does with its slot.\<close>

definition slot_agrees :: "clip \<Rightarrow> sim_state \<Rightarrow> plane_thinker \<Rightarrow> sector_t \<Rightarrow> (sector_t \<Rightarrow> bool \<Rightarrow> bool) \<Rightarrow> bool" where
  "slot_agrees clip st t sec ask \<longleftrightarrow> think t sec ask =
     (if plane_done clip st t then None else Some (slot_after clip st t), if plane_runs t then set_plane (plane_which t) (fst (snd (plane_moved clip st t))) sec else sec)"

lemma vertical_door_range:
  "vertical_door d m = (direction', count', kind', done', u) \<Longrightarrow> is_int (vd_direction d) \<Longrightarrow> vd_kind d \<in> {0..7} \<Longrightarrow> is_int (vd_count d - 1) \<Longrightarrow> is_int (vd_count d) \<Longrightarrow> is_int (vd_wait d) \<Longrightarrow>
   is_int direction' \<and> is_int count' \<and> kind' \<in> {0..7}"
  by (auto simp: vertical_door_def Let_def DOOR_TICRATE_def split: if_splits)

lemma door_slot:
  assumes k: "s_active t = 1" "s_kind t = kind_DOOR" and ok: "thinker_ok st t" and sec: "stands_at st t sec"
    and ask: "plane_runs t \<Longrightarrow> ask (set_plane (plane_which t) (slot_target st t) sec) False = (plane_stuck clip st t = 1)"
  shows "slot_agrees clip st t sec ask"
proof -
  let ?d = "door_of t" and ?m = "plane_moved clip st t"
  have o: "s_type t \<in> {0..7}" "s_direction t \<in> {-1, 0, 1}" "step_fits (slot_plane st t)" "is_int (s_count t - 1)" "is_int (s_count t)" "is_int (s_wait t)" "is_int (s_status t)"
    using ok k by (auto simp: thinker_ok_def)
  have pd: "port_door ?d = \<lparr> vd_kind = s_type t, vd_direction = s_direction t, vd_count = s_count t, vd_wait = s_wait t \<rparr>"
    using o(1) by (simp add: port_door_def door_of_def num_of)
  obtain d' c' k' x u where v: "vertical_door (port_door ?d) ?m = (d', c', k', x, u)" by (metis prod_cases5)
  then have pdoor: "plane_door clip st t = (d', c', k', x, u)" by (simp add: plane_door_def pd)
  have "is_int d' \<and> is_int c' \<and> k' \<in> {0..7}" by (rule vertical_door_range [OF v]) (use o in \<open>auto simp: pd\<close>)
  then have r: "is_int d'" "is_int c'" "k' \<in> {0..7}" "is_int k'" by auto
  have sa: "slot_after clip st t = t\<lparr>s_direction := d', s_count := c', s_type := k'\<rparr>"
    by (rule plane_thinker.equality) (use k r o(7) in \<open>simp_all add: slot_after_def pdoor plane_ticks_def split: prod.splits\<close>)
  have p: "door_plane_of ?d sec = slot_plane st t"
    using k sec by (simp add: door_plane_of_def door_of_def slot_plane_def plane_dest_def plane_direction_def plane_which_def plane_height_def stands_at_def)
  show ?thesis
  proof (cases "s_direction t = 0")
    case True
    then have "T_VerticalDoor ask ?d sec = (Some (?d\<lparr>dt_direction := d', dt_topcountdown := c', dt_type := vldoor_of k'\<rparr>), sec)"
      by (intro vertical_door_waits [OF _ _ v]) (use o in \<open>auto simp: door_of_def\<close>)
    moreover have "\<not> plane_runs t" "\<not> plane_done clip st t" using True k by (auto simp: plane_runs_def plane_done_def)
    ultimately show ?thesis using k sa r(3) by (simp add: slot_agrees_def think_def num_of)
  next
    case False
    then have run: "plane_runs t" "plane_which t = PLANE_CEILING" using k by (auto simp: plane_runs_def plane_which_def)
    have "T_VerticalDoor ask ?d sec = (if x = 1 then None else Some (?d\<lparr>dt_direction := d', dt_topcountdown := c', dt_type := vldoor_of k'\<rparr>), set_plane PLANE_CEILING (fst (snd ?m)) sec)"
      by (rule vertical_door_moves [OF _ _ _ _ v, of sec "plane_stuck clip st t"]) (use False o(2,3) p ask [OF run(1)] run(2) in \<open>auto simp: door_of_def plane_moved_def\<close>)
    moreover have "plane_done clip st t \<longleftrightarrow> x = 1" using run k by (simp add: plane_done_def pdoor)
    ultimately show ?thesis using k sa r(3) run by (simp add: slot_agrees_def think_def num_of)
  qed
qed

lemma plat_raise_range:
  "plat_raise p m = (status', count', done') \<Longrightarrow> pt_status p \<in> {0..3} \<Longrightarrow> is_int (pt_count p - 1) \<Longrightarrow> is_int (pt_count p) \<Longrightarrow> is_int (pt_wait p) \<Longrightarrow>
   status' \<in> {0..3} \<and> is_int count'"
  by (auto simp: plat_raise_def Let_def split: if_splits)

lemma plat_slot:
  assumes k: "s_active t = 1" "s_kind t = kind_PLAT" and ok: "thinker_ok st t" and sec: "stands_at st t sec"
    and ask: "plane_runs t \<Longrightarrow> ask (set_plane (plane_which t) (slot_target st t) sec) False = (plane_stuck clip st t = 1)"
    and crush: "plane_runs t \<Longrightarrow> s_crush t \<noteq> 1"
  shows "slot_agrees clip st t sec ask"
proof -
  let ?p = "plat_t_of t" and ?m = "plane_moved clip st t"
  have o: "s_type t \<in> {0..4}" "s_status t \<in> {0..3}" "step_fits (slot_plane st t)" "is_int (s_count t - 1)" "is_int (s_count t)" "is_int (s_wait t)"
    "is_int (s_direction t)" "is_int (s_type t)" "s_crush t \<in> {0, 1}"
    "s_status t = 2 \<Longrightarrow> 0 < s_speed t \<and> (plane_height st t = s_dest t \<or> s_dest t + s_speed t < plane_height st t)"
    using ok k by (auto simp: thinker_ok_def)
  have pp: "port_plat ?p h = \<lparr> pt_kind = s_type t, pt_status = s_status t, pt_count = s_count t, pt_wait = s_wait t, pt_crush = s_crush t, pt_low = s_dest t, pt_floorheight = h \<rparr>" for h
    using o(1,2,9) by (auto simp: port_plat_def plat_t_of_def num_of)
  obtain s' c' x where v: "plat_raise (port_plat ?p (fst (snd ?m))) ?m = (s', c', x)" by (metis prod_cases3)
  then have pplat: "plane_plat clip st t = (s', c', x)" by (simp add: plane_plat_def pp)
  have "s' \<in> {0..3} \<and> is_int c'" by (rule plat_raise_range [OF v]) (use o in \<open>auto simp: pp\<close>)
  then have r: "s' \<in> {0..3}" "is_int s'" "is_int c'" by auto
  have sa: "slot_after clip st t = t\<lparr>s_count := c', s_status := s'\<rparr>"
    by (rule plane_thinker.equality) (use k r o(7,8) in \<open>simp_all add: slot_after_def pplat plane_ticks_def split: prod.splits\<close>)
  have st: "pa_status ?p = p_up \<longleftrightarrow> s_status t = 0" "pa_status ?p = p_down \<longleftrightarrow> s_status t = 1" "pa_status ?p = p_waiting \<longleftrightarrow> s_status t = 2" "pa_status ?p = p_in_stasis \<longleftrightarrow> s_status t = 3"
    using o(2) by (auto simp: plat_t_of_def plat_of_def)
  have p: "plat_plane_of ?p sec = slot_plane st t"
    using k sec st(1) by (simp add: plat_plane_of_def slot_plane_def plane_dest_def plane_direction_def plane_which_def plane_height_def stands_at_def plat_t_of_def)
  have dn: "plane_done clip st t \<longleftrightarrow> x = 1" using k by (simp add: plane_done_def pplat plane_ticks_def)
  have f: "sc_floorheight sec = plane_height st t" using sec k by (simp add: stands_at_def plane_height_def plane_which_def)
  consider "s_status t \<in> {0, 1}" | "s_status t = 2" | "s_status t = 3" using o(2) by fastforce
  then show ?thesis
  proof cases
    case 1
    then have run: "plane_runs t" "plane_which t = PLANE_FLOOR" using k by (auto simp: plane_runs_def plane_which_def)
    have "T_PlatRaise ask ?p sec = (if x = 1 then None else Some (?p\<lparr>pa_count := c', pa_status := plat_of s'\<rparr>), set_plane PLANE_FLOOR (fst (snd ?m)) sec)"
      by (rule plat_raise_moves [OF _ _ _ _ _ v, of sec "plane_stuck clip st t"])
        (use 1 st o(3,9) p ask [OF run(1)] crush [OF run(1)] run(2) in \<open>auto simp: plane_moved_def plat_t_of_def\<close>)
    then show ?thesis using k sa r(1) run dn by (simp add: slot_agrees_def think_def num_of)
  next
    case 2
    then have run: "\<not> plane_runs t" using k by (simp add: plane_runs_def)
    then have m: "?m = move_plane (plat_plane_of ?p sec) (plane_target (plat_plane_of ?p sec)) 0" by (simp add: plane_moved_def plane_stuck_def p)
    have "T_PlatRaise ask ?p sec = (Some (?p\<lparr>pa_count := c', pa_status := plat_of s'\<rparr>), sec) \<and> x = 0"
      by (rule plat_raise_waits [OF _ _ _ m _ v]) (use 2 st(3) o(4) o(10) [OF 2] f in \<open>auto simp: plat_t_of_def\<close>)
    then show ?thesis using k sa r(1) run dn by (simp add: slot_agrees_def think_def num_of)
  next
    case 3
    then have run: "\<not> plane_runs t" using k by (simp add: plane_runs_def)
    have "T_PlatRaise ask ?p sec = (Some (?p\<lparr>pa_count := c', pa_status := plat_of s'\<rparr>), sec) \<and> x = 0"
      by (rule plat_raise_stasis [OF _ v]) (use 3 st(4) in simp)
    then show ?thesis using k sa r(1) run dn by (simp add: slot_agrees_def think_def num_of)
  qed
qed

lemma slot_unchanged:
  assumes "thinker_ok st t" "\<not> (s_active t = 1 \<and> s_kind t \<in> {kind_DOOR, kind_PLAT})"
  shows "slot_after clip st t = t"
proof -
  have a: "\<not> (s_kind t = kind_DOOR \<and> plane_ticks t)" "\<not> (s_kind t = kind_PLAT \<and> plane_ticks t)" using assms(2) by (simp_all add: plane_ticks_def)
  have i: "is_int (s_direction t)" "is_int (s_type t)" "is_int (s_count t)" "is_int (s_status t)" using assms(1) unfolding thinker_ok_def by blast+
  show ?thesis unfolding slot_after_def Let_def using a i by (auto split: prod.split)
qed

lemma floor_slot:
  assumes k: "s_active t = 1" "s_kind t = kind_FLOOR" and ok: "thinker_ok st t" and sec: "stands_at st t sec"
    and ask: "plane_runs t \<Longrightarrow> ask (set_plane (plane_which t) (slot_target st t) sec) False = (plane_stuck clip st t = 1)"
    and crush: "plane_runs t \<Longrightarrow> s_crush t \<noteq> 1"
  shows "slot_agrees clip st t sec ask"
proof -
  let ?m = "plane_moved clip st t"
  have o: "s_direction t \<in> {-1, 0, 1}" "step_fits (slot_plane st t)" "s_crush t \<in> {0, 1}" using ok k by (auto simp: thinker_ok_def)
  have sa: "slot_after clip st t = t" by (rule slot_unchanged [OF ok]) (use k in simp)
  have p: "floor_plane_of (floor_of t) sec = slot_plane st t"
    using k sec by (simp add: floor_plane_of_def floor_of_def slot_plane_def plane_dest_def plane_direction_def plane_which_def plane_height_def stands_at_def)
  show ?thesis
  proof (cases "s_direction t = 0")
    case True
    then have "\<not> plane_runs t" "\<not> plane_done clip st t" "T_MoveFloor ask (floor_of t) sec = (Some (floor_of t), sec)"
      using k by (auto simp: plane_runs_def plane_done_def T_MoveFloor_def T_MovePlane_def floor_of_def)
    then show ?thesis using k sa by (simp add: slot_agrees_def think_def)
  next
    case False
    then have run: "plane_runs t" "plane_which t = PLANE_FLOOR" using k by (auto simp: plane_runs_def plane_which_def)
    have "T_MoveFloor ask (floor_of t) sec = (if fst ?m = result_PASTDEST then None else Some (floor_of t), set_plane PLANE_FLOOR (fst (snd ?m)) sec)"
      by (rule floor_moves [of _ sec "plane_stuck clip st t"])
        (use False o p ask [OF run(1)] crush [OF run(1)] run(2) in \<open>auto simp: plane_moved_def floor_of_def\<close>)
    then show ?thesis using k sa run by (simp add: slot_agrees_def think_def plane_done_def)
  qed
qed

lemma other_slot:
  assumes "s_active t \<noteq> 1 \<or> s_kind t \<notin> {kind_DOOR, kind_PLAT, kind_FLOOR}" "thinker_ok st t"
  shows "slot_agrees clip st t sec ask"
proof -
  have "slot_after clip st t = t" by (rule slot_unchanged [OF assms(2)]) (use assms(1) in auto)
  then show ?thesis using assms by (auto simp: slot_agrees_def think_def plane_done_def plane_runs_def plane_ticks_def)
qed

lemma slot_think:
  assumes "thinker_ok st t" "stands_at st t sec"
    and "plane_runs t \<Longrightarrow> ask (set_plane (plane_which t) (slot_target st t) sec) False = (plane_stuck clip st t = 1)" "plane_runs t \<Longrightarrow> s_crush t \<noteq> 1"
  shows "slot_agrees clip st t sec ask"
  using door_slot [OF _ _ assms(1,2), of ask clip] plat_slot [OF _ _ assms(1,2), of ask clip] floor_slot [OF _ _ assms(1,2), of ask clip] other_slot [OF _ assms(1)] assms(3,4)
  by blast

section \<open>The whole walk\<close>

lemma running_runs: "plane_running st = filter plane_runs (thinkers st)"
  by (auto simp: plane_running_def plane_runs_def plane_acts_def intro!: filter_cong)

text \<open>A tic the pass resolves: every running slot has its sector to itself, moves to where it tried, and crushes nothing.\<close>

definition resolved :: "clip \<Rightarrow> sim_state \<Rightarrow> bool" where
  "resolved clip st \<longleftrightarrow> distinct (plane_moving st) \<and> (\<forall>t \<in> set (thinkers st). plane_runs t \<longrightarrow> snd (snd (plane_moved clip st t)) \<noteq> 1 \<and> s_crush t \<noteq> 1)"

lemma mask_zero: "mask p ts = 0 \<longleftrightarrow> p = 0 \<and> (\<forall>(b, c) \<in> set ts. c \<longrightarrow> b = 0)"
  unfolding mask_def by (induction ts arbitrary: p) (auto simp: or_eq_0_iff split: if_splits)

lemma resolved_bits: "plane_unresolved clip st = 0 \<Longrightarrow> resolved clip st"
proof -
  assume "plane_unresolved clip st = 0"
  then have "length (plane_moving st) = length (remdups (plane_moving st))" "\<not> (\<exists>t \<in> set (thinkers st). plane_runs t \<and> snd (snd (plane_moved clip st t)) = 1)"
    "\<not> (\<exists>t \<in> set (thinkers st). plane_runs t \<and> s_crush t = 1)"
    by (auto simp: plane_unresolved_def mask_zero PLANE_SHARED_def PLANE_REVERTED_def PLANE_CRUSH_def)
  then show ?thesis unfolding resolved_def by (metis length_remdups_card_conv card_distinct)
qed

lemma not_reverted: "snd (snd (plane_moved clip st t)) \<noteq> 1 \<Longrightarrow> fst (snd (plane_moved clip st t)) = slot_target st t"
  by (auto simp: plane_moved_def move_plane_def slot_plane_def Let_def split: if_splits)

text \<open>What the pass needs of the list: every thinker is well formed, and a sector is driven by one of them.\<close>

definition thinkers_ok :: "sim_state \<Rightarrow> bool" where
  "thinkers_ok st \<longleftrightarrow> (\<forall>t \<in> set (thinkers st). thinker_ok st t) \<and> distinct (map s_sector (filter plane_acts (thinkers st)))"

abbreviation floors_upto :: "sim_state \<Rightarrow> plane_thinker list \<Rightarrow> int list" where
  "floors_upto st ts \<equiv> scatter PLANE_FLOOR (slot_target st) (filter plane_runs ts) (sec_floorheight st)"

abbreviation ceilings_upto :: "sim_state \<Rightarrow> plane_thinker list \<Rightarrow> int list" where
  "ceilings_upto st ts \<equiv> scatter PLANE_CEILING (slot_target st) (filter plane_runs ts) (sec_ceilingheight st)"

lemma acts_apart:
  assumes "thinkers_ok st" "thinkers st = pre @ t # suf" "plane_acts t" "u \<in> set (pre @ suf)" "plane_runs u"
  shows "s_sector u \<noteq> s_sector t"
proof -
  have "plane_acts u" using assms(5) by (auto simp: plane_runs_def plane_acts_def)
  then show ?thesis using assms by (auto simp: thinkers_ok_def rev_image_eqI)
qed

lemma runs_acts: "plane_runs t \<Longrightarrow> plane_acts t"
  by (auto simp: plane_runs_def plane_acts_def)

lemma sector_range:
  assumes "thinker_ok st t" "plane_acts t"
  shows "0 \<le> s_sector t" "nat (s_sector t) < length (sec_floorheight st)" "nat (s_sector t) < length (sec_ceilingheight st)" "is_int (slot_target st t)"
    "length (sec_ceilingheight st) = length (sec_floorheight st)"
proof -
  have k: "s_active t = 1 \<and> s_kind t \<noteq> kind_CEILING" using assms(1,2) unfolding thinker_ok_def plane_acts_def by blast
  then have "s_active t = 1 \<and> s_kind t \<in> {kind_DOOR, kind_PLAT, kind_FLOOR}" using assms(2) unfolding plane_acts_def by blast
  then have r: "0 \<le> s_sector t \<and> s_sector t < int (length (sec_floorheight st)) \<and> length (sec_ceilingheight st) = length (sec_floorheight st) \<and> is_int (slot_target st t)"
    using assms(1) unfolding thinker_ok_def by blast
  then show "0 \<le> s_sector t" "is_int (slot_target st t)" "length (sec_ceilingheight st) = length (sec_floorheight st)" by blast+
  show "nat (s_sector t) < length (sec_floorheight st)" "nat (s_sector t) < length (sec_ceilingheight st)" using r by (simp_all add: nat_less_iff)
qed

lemma arrayElement_at: "0 \<le> s \<Longrightarrow> nat s < length xs \<Longrightarrow> arrayElement xs (1 + s) = xs ! nat s"
  by (simp add: arrayElement_def nat_less_iff)

lemma heights_untouched:
  assumes "thinkers_ok st" "thinkers st = pre @ t # suf" "plane_acts t"
  shows "floors_upto st pre ! nat (s_sector t) = sec_floorheight st ! nat (s_sector t)" "ceilings_upto st pre ! nat (s_sector t) = sec_ceilingheight st ! nat (s_sector t)"
proof -
  have "thinker_ok st t" using assms(1,2) by (auto simp: thinkers_ok_def)
  then have "0 \<le> s_sector t" using sector_range(1) assms(3) by blast
  then have "s_sector u \<noteq> int (nat (s_sector t))" if "u \<in> set (filter plane_runs pre)" for u using acts_apart [OF assms, of u] that by auto
  then show "floors_upto st pre ! nat (s_sector t) = sec_floorheight st ! nat (s_sector t)" "ceilings_upto st pre ! nat (s_sector t) = sec_ceilingheight st ! nat (s_sector t)"
    by (intro scatter_other; blast)+
qed

lemma stands_in_walk:
  assumes "thinkers_ok st" "thinkers st = pre @ t # suf" "plane_acts t"
  shows "stands_at st t (sector_at (floors_upto st pre) (ceilings_upto st pre) (nat (s_sector t)))"
proof -
  have ok: "thinker_ok st t" using assms(1,2) by (auto simp: thinkers_ok_def)
  then show ?thesis using heights_untouched [OF assms] sector_range [OF ok assms(3)]
    by (simp add: stands_at_def sector_at_def arrayElement_at)
qed

text \<open>Moving the next thinker's plane to where it tries is one more step of the scatter.\<close>

lemma upto_next:
  assumes "thinkers_ok st" "thinkers st = pre @ t # suf" "plane_runs t"
  defines "sec \<equiv> set_plane (plane_which t) (slot_target st t) (sector_at (floors_upto st pre) (ceilings_upto st pre) (nat (s_sector t)))"
  shows "(floors_upto st pre)[nat (s_sector t) := sc_floorheight sec] = floors_upto st (pre @ [t])"
    "(ceilings_upto st pre)[nat (s_sector t) := sc_ceilingheight sec] = ceilings_upto st (pre @ [t])"
proof -
  have ok: "thinker_ok st t" using assms(1,2) by (auto simp: thinkers_ok_def)
  note r = sector_range [OF ok runs_acts [OF assms(3)]]
  have w: "plane_which t = PLANE_FLOOR \<or> plane_which t = PLANE_CEILING" by (simp add: plane_which_def)
  show "(floors_upto st pre)[nat (s_sector t) := sc_floorheight sec] = floors_upto st (pre @ [t])"
    "(ceilings_upto st pre)[nat (s_sector t) := sc_ceilingheight sec] = ceilings_upto st (pre @ [t])"
    using w r(1,4) assms(3) by (auto simp: sec_def set_plane_def sector_at_def scatter_append)
qed

lemma asked_in_walk:
  assumes ok: "thinkers_ok st" and ts: "thinkers st = pre @ t # suf" "plane_runs t" and clip: "clip_answers nofit clip st"
  shows "nofit (floors_upto st (pre @ [t])) (ceilings_upto st (pre @ [t])) (nat (s_sector t)) False = (plane_stuck clip st t = 1)"
proof -
  let ?run = "filter plane_runs (pre @ [t])" and ?rest = "filter plane_runs suf"
  have all: "plane_running st = ?run @ ?rest" using ts by (simp add: running_runs)
  have d: "distinct (map s_sector (?run @ ?rest))"
  proof -
    have "filter plane_runs (thinkers st) = filter plane_runs (filter plane_acts (thinkers st))" by (auto simp: runs_acts intro!: filter_cong)
    then show ?thesis using ok ts unfolding thinkers_ok_def by (metis all distinct_map_filter running_runs)
  qed
  have pos: "0 \<le> s_sector u" if "u \<in> set (?run @ ?rest)" for u
    using that ok ts sector_range(1) [of st u] runs_acts by (auto simp: thinkers_ok_def)
  have m: "mixed (sec_floorheight st) (plane_trying_floor st) (floors_upto st (pre @ [t]))" "mixed (sec_ceilingheight st) (plane_trying st) (ceilings_upto st (pre @ [t]))"
    unfolding plane_trying_floor_def plane_trying_def all by (rule scatter_mixed [OF d pos]; simp)+
  have o: "s_sector u \<noteq> int (nat (s_sector t))" if "u \<in> set ?rest" for u
    using acts_apart [OF ok ts(1) runs_acts [OF ts(2)], of u] that pos [of t] ts(2) by auto
  have "floors_upto st (pre @ [t]) ! nat (s_sector t) = plane_trying_floor st ! nat (s_sector t)" "ceilings_upto st (pre @ [t]) ! nat (s_sector t) = plane_trying st ! nat (s_sector t)"
    unfolding plane_trying_floor_def plane_trying_def all scatter_append [of _ _ ?run] by (rule scatter_other [symmetric], erule o)+
  moreover have "t \<in> set (plane_running st)" using ts by (simp add: running_runs)
  ultimately show ?thesis using clip m unfolding clip_answers_def Let_def by blast
qed

lemma walk_agrees:
  assumes ok: "thinkers_ok st" and res: "resolved clip st" and clip: "clip_answers nofit clip st"
  shows "thinkers st = pre @ suf \<Longrightarrow> run_thinkers nofit suf (floors_upto st pre) (ceilings_upto st pre) =
    (map (\<lambda>t. if plane_done clip st t then None else Some (slot_after clip st t)) suf, plane_trying_floor st, plane_trying st)"
proof (induction suf arbitrary: pre)
  case Nil
  then show ?case by (simp add: plane_trying_floor_def plane_trying_def running_runs)
next
  case (Cons t suf)
  let ?F = "floors_upto st pre" and ?C = "ceilings_upto st pre" and ?i = "nat (s_sector t)"
  let ?sec = "sector_at ?F ?C ?i" and ?ask = "\<lambda>sec crush. nofit (?F[?i := sc_floorheight sec]) (?C[?i := sc_ceilingheight sec]) ?i crush"
  have tok: "thinker_ok st t" using ok Cons.prems by (auto simp: thinkers_ok_def)
  have agree: "slot_agrees clip st t ?sec ?ask"
  proof (cases "plane_acts t")
    case True
    have "plane_runs t \<Longrightarrow> ?ask (set_plane (plane_which t) (slot_target st t) ?sec) False = (plane_stuck clip st t = 1)"
      unfolding upto_next [OF ok Cons.prems] by (rule asked_in_walk [OF ok Cons.prems _ clip])
    then show ?thesis using slot_think [OF tok stands_in_walk [OF ok Cons.prems True], of ?ask clip] res Cons.prems by (auto simp: resolved_def)
  next
    case False
    then show ?thesis by (intro other_slot [OF _ tok]) (auto simp: plane_acts_def)
  qed
  define sec' where s: "sec' = (if plane_runs t then set_plane (plane_which t) (fst (snd (plane_moved clip st t))) ?sec else ?sec)"
  have th: "think t ?sec ?ask = (if plane_done clip st t then None else Some (slot_after clip st t), sec')" using agree by (simp only: slot_agrees_def s)
  have rest: "run_thinkers nofit suf (?F[?i := sc_floorheight sec']) (?C[?i := sc_ceilingheight sec']) =
      (map (\<lambda>t. if plane_done clip st t then None else Some (slot_after clip st t)) suf, plane_trying_floor st, plane_trying st)"
  proof (cases "plane_runs t")
    case True
    then have "fst (snd (plane_moved clip st t)) = slot_target st t" using res Cons.prems by (intro not_reverted) (auto simp: resolved_def)
    then show ?thesis using Cons.IH [of "pre @ [t]"] Cons.prems True upto_next [OF ok Cons.prems True] s by simp
  next
    case False
    then show ?thesis using Cons.IH [of "pre @ [t]"] Cons.prems s by (simp add: sector_at_def)
  qed
  show ?case by (simp only: run_thinkers.simps Let_def th rest prod.case list.map)
qed

text \<open>
  The pointers after the walk: cleared in the sector of a thinker that was removed, and otherwise the slot of the thinker
  pointed to among those that remain.
\<close>

definition specialdata_after :: "plane_thinker list \<Rightarrow> plane_thinker option list \<Rightarrow> nat list \<Rightarrow> nat list" where
  "specialdata_after before after sd = map (\<lambda>i. let v = sd ! i in
     if \<exists>(t, t') \<in> set (zip before after). t' = None \<and> s_sector t = int i then 0
     else if v = 0 \<or> length after < v \<or> after ! (v - 1) = None then 0 else length (filter (\<lambda>x. x \<noteq> None) (take v after))) [0..<length sd]"

lemma cleared_length [simp]: "length (clear_sectors sd ts) = length sd"
  unfolding clear_sectors_def by (induction ts arbitrary: sd) auto

lemma cleared_at: "i < length sd \<Longrightarrow> clear_sectors sd ts ! i = (if \<exists>t \<in> set ts. s_sector t = int i then 0 else sd ! i)"
  unfolding clear_sectors_def
proof (induction ts arbitrary: sd)
  case (Cons t ts)
  show ?case
  proof (cases "s_sector t = int i")
    case True
    then show ?thesis using Cons by simp
  next
    case False
    then have "0 \<le> s_sector t \<Longrightarrow> nat (s_sector t) \<noteq> i" by linarith
    then show ?thesis using Cons False by auto
  qed
qed simp

lemma kept_slots:
  "(if v = 0 then 0 else arrayElement (thinker_slots (map P ts)) (int v)) =
   (if v = 0 \<or> length ts < v \<or> \<not> P (ts ! (v - 1)) then 0 else length (filter P (take v ts)))"
proof (cases "v = 0 \<or> length ts < v")
  case True
  then show ?thesis by (auto simp: arrayElement_def thinker_slots_def)
next
  case False
  then have "Suc (v - 1) = v" "v - 1 < length ts" by auto
  then have "thinker_slots (map P ts) ! (v - 1) = (if P (ts ! (v - 1)) then length (filter P (take v ts)) else 0)"
    by (simp add: thinker_slots_def take_map filter_map o_def)
  moreover have "nat (int v - 1) = v - 1" by (simp add: nat_diff_distrib')
  ultimately show ?thesis using False by (simp add: arrayElement_def thinker_slots_def)
qed

lemma specialdata_pass:
  "map (\<lambda>v. if v = 0 then 0 else arrayElement (thinker_slots (map (\<lambda>t. \<not> D t) ts)) (int v))
     (clear_sectors sd (filter D ts)) =
   specialdata_after ts (map (\<lambda>t. if D t then None else Some (f t)) ts) sd"
proof (rule nth_equalityI)
  fix i assume "i < length (map (\<lambda>v. if v = 0 then 0 else arrayElement (thinker_slots (map (\<lambda>t. \<not> D t) ts)) (int v))
     (clear_sectors sd (filter D ts)))"
  then have i: "i < length sd" by simp
  have x: "(\<exists>(t, t') \<in> set (zip ts (map (\<lambda>t. if D t then None else Some (f t)) ts)). t' = None \<and> s_sector t = int k) \<longleftrightarrow> (\<exists>t \<in> set (filter D ts). s_sector t = int k)" for k
    unfolding zip_map2 zip_same_conv_map by (auto split: if_splits)
  have n: "filter (\<lambda>x. x \<noteq> None) (take v (map (\<lambda>t. if D t then None else Some (f t)) ts)) = map (\<lambda>t. Some (f t)) (filter (\<lambda>t. \<not> D t) (take v ts))" for v
    unfolding take_map by (induction "take v ts") (auto simp: filter_map o_def intro!: map_cong filter_cong)
  let ?after = "map (\<lambda>t. if D t then None else Some (f t)) ts"
  have e: "(if v = 0 \<or> length ?after < v \<or> ?after ! (v - 1) = None then 0 else length (filter (\<lambda>x. x \<noteq> None) (take v ?after))) =
      (if v = 0 then 0 else arrayElement (thinker_slots (map (\<lambda>t. \<not> D t) ts)) (int v))" for v
  proof (cases "v = 0 \<or> length ts < v")
    case False
    then have "v - 1 < length ts" by auto
    then have "?after ! (v - 1) = None \<longleftrightarrow> D (ts ! (v - 1))" by simp
    then show ?thesis unfolding kept_slots n length_map using False by simp
  qed (auto simp: arrayElement_def thinker_slots_def)
  show "map (\<lambda>v. if v = 0 then 0 else arrayElement (thinker_slots (map (\<lambda>t. \<not> D t) ts)) (int v)) (clear_sectors sd (filter D ts)) ! i = specialdata_after ts ?after sd ! i"
    using i unfolding specialdata_after_def Let_def x e by (auto simp: cleared_at)
qed (simp add: specialdata_after_def)

lemma collected: "List.map_filter (\<lambda>x. x) (map (\<lambda>t. if D t then None else Some (f t)) ts) = map f (filter (\<lambda>t. \<not> D t) ts)"
  by (induction ts) (simp_all add: map_filter_simps)


section \<open>A tic of doors and lights\<close>

definition blank_thinker :: plane_thinker where
  "blank_thinker = \<lparr> s_seq = 0, s_kind = 0, s_sector = 0, s_type = 0, s_direction = 0, s_speed = 0, s_dest = 0, s_dest2 = 0, s_count = 0, s_wait = 0,
     s_status = 0, s_oldstatus = 0, s_crush = 0, s_tag = 0, s_texture = 0, s_newspecial = 0, s_minlight = 0, s_maxlight = 0, s_mintime = 0, s_maxtime = 0,
     s_active = 0, s_activeplat_slot = 0, s_activeceil_slot = 0 \<rparr>"

definition door_example :: plane_thinker where
  "door_example = blank_thinker\<lparr>s_kind := kind_DOOR, s_sector := 1, s_direction := 1, s_speed := VDOORSPEED, s_dest := 4456448, s_wait := VDOORWAIT, s_active := 1\<rparr>"

definition plat_example :: plane_thinker where
  "plat_example = blank_thinker\<lparr>s_kind := kind_PLAT, s_sector := 0, s_type := 1, s_status := plat_DOWN, s_speed := 262144, s_dest := 0, s_dest2 := 655360, s_wait := 105, s_active := 1\<rparr>"

definition sim_example :: sim_state where
  "sim_example = \<lparr> thinkers = [plat_example, door_example], sec_floorheight = [655360, 0], sec_ceilingheight = [4194304, 0], sec_specialdata = [1, 2],
     m_z = [], m_floorz = [], m_ceilingz = [], unresolved = 0 \<rparr>"

definition clip_free :: clip where
  "clip_free sectors floors ceilings = (map (\<lambda>_. 0) sectors, [], [], [], 0)"

lemma clip_free_stuck: "plane_stuck clip_free st t = 0"
  using arrayElement_in [of "map (\<lambda>_. 0) (plane_moving st)"] by (auto simp: plane_stuck_def plane_clip_def clip_free_def arrayElement_def)


end
