(* ===== verification/Nat_Doors.thy ===== *)
theory Nat_Doors
  imports Nat_Thinkers
begin

text \<open>
  The manual doors of the native port: what a press of the use key does to the thinker list
  (\<open>opening\<close> of \<open>native/src/sql/sim/doors.rs\<close> and the door half of \<open>use_special_line\<close> of \<open>specials.rs\<close>), beside
  \<open>EV_VerticalDoor\<close> of \<open>p_doors.c\<close>; and the life of a door from the press to its removal, over tics of the pass.
\<close>

section \<open>The press\<close>

definition door_locked :: "int \<Rightarrow> bool" where
  "door_locked special \<longleftrightarrow> special \<in> {26, 27, 28, 32, 33, 34}"

definition missing_key :: "int \<Rightarrow> int list \<Rightarrow> bool" where
  "missing_key special cards \<longleftrightarrow>
     (if special \<in> {26, 32} then arrayElement cards 1 = 0 \<and> arrayElement cards 4 = 0
      else if special \<in> {27, 34} then arrayElement cards 2 = 0 \<and> arrayElement cards 5 = 0
      else if special \<in> {28, 33} then arrayElement cards 3 = 0 \<and> arrayElement cards 6 = 0
      else False)"

text \<open>\<open>message\<close> is the hash a line of text is kept as.\<close>

definition missing_key_message :: "(string \<Rightarrow> u64) \<Rightarrow> int \<Rightarrow> u64" where
  "missing_key_message message special =
     (if special \<in> {26, 32} then message ''You need a blue key to open this door''
      else if special \<in> {27, 34} then message ''You need a yellow key to open this door''
      else if special \<in> {28, 33} then message ''You need a red key to open this door''
      else 0)"

record opened =
  op_sector :: int
  op_kind :: int
  op_direction :: int
  op_speed :: int
  op_topheight :: int
  op_clears :: bool
  op_reopens :: nat
  op_unresolved :: bool
  op_message :: u64

definition empty_opening :: opened where
  "empty_opening = \<lparr> op_sector = -1, op_kind = 0, op_direction = 0, op_speed = 0, op_topheight = 0, op_clears = False, op_reopens = 0,
     op_unresolved = False, op_message = 0 \<rparr>"

definition door_opening :: "(string \<Rightarrow> u64) \<Rightarrow> int list \<Rightarrow> int list \<Rightarrow> nat list \<Rightarrow> int list \<Rightarrow> int \<Rightarrow> int \<Rightarrow> opened" where
  "door_opening message specials backs held_by cards line lowest_ceiling =
     (let special = arrayElement specials (1 + line); sector = arrayElement backs (1 + line); held = arrayElement held_by (1 + sector);
          reuse = (held \<noteq> 0 \<and> special \<in> {1, 26, 27, 28, 117});
          kind = (if special \<in> {1, 26, 27, 28} then door_NORMAL else if special \<in> {31, 32, 33, 34} then door_OPEN
                  else if special = 117 then door_BLAZE_RAISE else if special = 118 then door_BLAZE_OPEN else -1);
          speed = (if special \<in> {117, 118} then VDOORSPEED * 4 else VDOORSPEED) in
      if sector < 0 then empty_opening\<lparr>op_unresolved := True\<rparr>
      else if door_locked special \<and> missing_key special cards then empty_opening\<lparr>op_message := missing_key_message message special\<rparr>
      else if reuse then empty_opening\<lparr>op_reopens := held\<rparr>
      else \<lparr> op_sector = sector, op_kind = kind, op_direction = 1, op_speed = speed, op_topheight = lowest_ceiling - 4 * FRACUNIT,
             op_clears = special \<in> {31, 32, 33, 34, 118}, op_reopens = 0, op_unresolved = False, op_message = 0 \<rparr>)"

text \<open>
  What a press reads and writes: the thinkers, the sectors' pointers, the lines' specials and the next identity.  Of
  \<open>use_special_line\<close> this is the stage of a line with a manual door special: the platform's rows, sectors and switch, which
  are there for special 62 only, are empty for it.
\<close>

record press_state =
  pr_thinkers :: "plane_thinker list"
  pr_specialdata :: "nat list"
  pr_line_special :: "int list"
  pr_next_seq :: int
  pr_message :: u64
  pr_stuck :: bool

definition use_handles_door :: "int \<Rightarrow> int \<Rightarrow> bool" where
  "use_handles_door line special \<longleftrightarrow> 0 \<le> line \<and> special \<in> {1, 26, 27, 28, 31, 32, 33, 34, 117, 118}"

definition new_door :: "int \<Rightarrow> opened \<Rightarrow> plane_thinker" where
  "new_door seq op = blank_thinker\<lparr>s_seq := seq, s_kind := kind_DOOR, s_sector := c_int (op_sector op), s_type := c_int (op_kind op), s_direction := c_int (op_direction op),
     s_speed := c_int (op_speed op), s_dest := c_int (op_topheight op), s_wait := VDOORWAIT, s_active := 1\<rparr>"

text \<open>A press that turns a door around finds it by \<open>s_seq\<close>.\<close>

definition turn_around :: "nat \<Rightarrow> plane_thinker \<Rightarrow> plane_thinker" where
  "turn_around reopens t = (if reopens \<noteq> 0 \<and> s_seq t = int reopens then t\<lparr>s_direction := if s_direction t = -1 then 1 else -1\<rparr> else t)"

definition use_door :: "(string \<Rightarrow> u64) \<Rightarrow> level_lines \<Rightarrow> int list \<Rightarrow> int list \<Rightarrow> int \<Rightarrow> press_state \<Rightarrow> press_state" where
  "use_door message lv ceilings cards line ps =
     (let special = arrayElement (pr_line_special ps) (1 + line);
          lowest = lowest_ceiling_surrounding lv (arrayElement (line_back lv) (1 + line)) ceilings;
          op = (if use_handles_door line special then door_opening message (pr_line_special ps) (line_back lv) (pr_specialdata ps) cards line lowest else empty_opening);
          makes = (0 \<le> op_sector op) in
      \<lparr> pr_thinkers = map (turn_around (op_reopens op)) (pr_thinkers ps) @ (if makes then [new_door (pr_next_seq ps) op] else []),
         pr_specialdata = (if makes then put_at (pr_specialdata ps) (1 + op_sector op) (length (pr_thinkers ps) + 1) else pr_specialdata ps),
         pr_line_special = (if makes \<and> op_clears op then put_at (pr_line_special ps) (1 + line) 0 else pr_line_special ps),
         pr_next_seq = (if makes then (pr_next_seq ps + 1) mod 2 ^ 32 else pr_next_seq ps), pr_message = op_message op, pr_stuck = op_unresolved op \<rparr>)"

section \<open>The engine's press\<close>

text \<open>
  The player presses a line with a manual door special.  A pointer is a slot; a door found there is turned around, a
  platform's \<open>wait\<close>, which lies where a door has its direction, is set to -1.
\<close>

definition EV_VerticalDoor :: "(string \<Rightarrow> u64) \<Rightarrow> level_lines \<Rightarrow> int list \<Rightarrow> int list \<Rightarrow> int \<Rightarrow> press_state \<Rightarrow> press_state" where
  "EV_VerticalDoor message lv ceilings cards line ps =
     (let special = arrayElement (pr_line_special ps) (1 + line); card = (\<lambda>c s. arrayElement cards c = 0 \<and> arrayElement cards s = 0) in
      if special \<in> {26, 32} \<and> card 1 4 then ps\<lparr>pr_message := message ''You need a blue key to open this door'', pr_stuck := False\<rparr>
      else if special \<in> {27, 34} \<and> card 2 5 then ps\<lparr>pr_message := message ''You need a yellow key to open this door'', pr_stuck := False\<rparr>
      else if special \<in> {28, 33} \<and> card 3 6 then ps\<lparr>pr_message := message ''You need a red key to open this door'', pr_stuck := False\<rparr>
      else let sec = arrayElement (line_back lv) (1 + line); held = arrayElement (pr_specialdata ps) (1 + sec); ps1 = ps\<lparr>pr_message := 0, pr_stuck := False\<rparr> in
        if held \<noteq> 0 \<and> special \<in> {1, 26, 27, 28, 117} then
          ps1\<lparr>pr_thinkers := (pr_thinkers ps)[held - 1 := (let door = pr_thinkers ps ! (held - 1) in
            if s_kind door = kind_PLAT then door\<lparr>s_wait := if s_wait door = -1 then 1 else -1\<rparr>
            else if s_direction door = -1 then door\<lparr>s_direction := 1\<rparr> else door\<lparr>s_direction := -1\<rparr>)]\<rparr>
        else let type = (if special \<in> {1, 26, 27, 28} then vld_normal else if special \<in> {31, 32, 33, 34} then vld_open
                  else if special = 117 then vld_blazeRaise else vld_blazeOpen);
            door = blank_thinker\<lparr>s_seq := pr_next_seq ps, s_kind := kind_DOOR, s_sector := sec, s_direction := 1, s_wait := VDOORWAIT, s_type := vldoor_num type,
              s_speed := (if special \<in> {117, 118} then VDOORSPEED * 4 else VDOORSPEED),
              s_dest := c_int (P_FindLowestCeilingSurrounding lv sec ceilings - 4 * 65536), s_active := 1\<rparr> in
          ps1\<lparr>pr_thinkers := pr_thinkers ps @ [door], pr_specialdata := put_at (pr_specialdata ps) (1 + sec) (length (pr_thinkers ps) + 1),
             pr_line_special := (if special \<in> {31, 32, 33, 34, 118} then put_at (pr_line_special ps) (1 + line) 0 else pr_line_special ps),
             pr_next_seq := (pr_next_seq ps + 1) mod 2 ^ 32\<rparr>)"

section \<open>A press makes the engine's door\<close>

text \<open>The thinker whose identity is the number of a slot is the one in that slot.\<close>

definition slot_is_seq :: "plane_thinker list \<Rightarrow> nat \<Rightarrow> bool" where
  "slot_is_seq ts v \<longleftrightarrow> v \<le> length ts \<and> (\<forall>j < length ts. s_seq (ts ! j) = int v \<longleftrightarrow> j = v - 1)"

lemma turn_none [simp]: "map (turn_around 0) ts = ts"
  by (induction ts) (simp_all add: turn_around_def)

lemma press_eta: "ps = \<lparr> pr_thinkers = pr_thinkers ps, pr_specialdata = pr_specialdata ps, pr_line_special = pr_line_special ps,
    pr_next_seq = pr_next_seq ps, pr_message = pr_message ps, pr_stuck = pr_stuck ps \<rparr>"
  by simp

lemma press_update [simp]: "ps\<lparr>pr_message := m, pr_stuck := b\<rparr> = \<lparr> pr_thinkers = pr_thinkers ps, pr_specialdata = pr_specialdata ps,
    pr_line_special = pr_line_special ps, pr_next_seq = pr_next_seq ps, pr_message = m, pr_stuck = b \<rparr>"
  by (subst press_eta) simp

definition turned :: "plane_thinker \<Rightarrow> plane_thinker" where
  "turned t = t\<lparr>s_direction := if s_direction t = -1 then 1 else -1\<rparr>"

lemma turned_differs: "turned t \<noteq> t"
proof
  assume "turned t = t"
  then have "s_direction (turned t) = s_direction t" by simp
  then show False by (simp add: turned_def split: if_splits)
qed

lemma map_update_iff: "map f ts = ts[k := g (ts ! k)] \<longleftrightarrow> (\<forall>j < length ts. f (ts ! j) = (if j = k then g (ts ! j) else ts ! j))"
proof -
  have "ts[k := g (ts ! k)] ! j = (if j = k then g (ts ! j) else ts ! j)" if "j < length ts" for j using that by (simp add: nth_list_update)
  then show ?thesis unfolding list_eq_iff_nth_eq by simp
qed

text \<open>The door of a slot, and only that one, is turned around exactly when the identities are the slots.\<close>

lemma turn_slot:
  assumes "v \<noteq> 0" "v \<le> length ts"
  shows "map (turn_around v) ts = ts[v - 1 := turned (ts ! (v - 1))] \<longleftrightarrow> slot_is_seq ts v"
proof -
  have "turn_around v t = (if s_seq t = int v then turned t else t)" for t using assms(1) by (simp add: turn_around_def turned_def)
  then have "map (turn_around v) ts = ts[v - 1 := turned (ts ! (v - 1))] \<longleftrightarrow>
      (\<forall>j < length ts. (if s_seq (ts ! j) = int v then turned (ts ! j) else ts ! j) = (if j = v - 1 then turned (ts ! j) else ts ! j))"
    unfolding map_update_iff by simp
  also have "\<dots> \<longleftrightarrow> (\<forall>j < length ts. s_seq (ts ! j) = int v \<longleftrightarrow> j = v - 1)"
    using turned_differs turned_differs [symmetric] by (metis (no_types))
  finally show ?thesis using assms(2) by (simp add: slot_is_seq_def)
qed

lemma if_record: "(if b then r\<lparr>s_direction := x\<rparr> else r\<lparr>s_direction := y\<rparr>) = r\<lparr>s_direction := if b then x else y\<rparr>"
  by simp

text \<open>
  C31: a press of a manual door against the engine's.  For every manual door special, with or without the key, the message,
  the thinker appended, its type, speed and top, the pointer of the sector and the special of the line are
  \<open>EV_VerticalDoor\<close>'s.  Where a door is there already the engine turns it around; the port does so exactly when the
  identity of every thinker in question is the number of its slot, which the doors a press makes do not have.
\<close>

theorem press_agrees:
  assumes "use_handles_door line (arrayElement (pr_line_special ps) (1 + line))" "0 \<le> arrayElement (line_back lv) (1 + line)" "is_int (arrayElement (line_back lv) (1 + line))"
    "held = arrayElement (pr_specialdata ps) (1 + arrayElement (line_back lv) (1 + line))"
    "held \<noteq> 0 \<Longrightarrow> held \<le> length (pr_thinkers ps) \<and> s_kind (pr_thinkers ps ! (held - 1)) = kind_DOOR"
    "special = arrayElement (pr_line_special ps) (1 + line)" "turns = (held \<noteq> 0 \<and> special \<in> {1, 26, 27, 28, 117} \<and> \<not> (door_locked special \<and> missing_key special cards))"
  shows "use_door message lv ceilings cards line ps = EV_VerticalDoor message lv ceilings cards line ps \<longleftrightarrow> turns \<longrightarrow> slot_is_seq (pr_thinkers ps) held"
proof -
  let ?special = "arrayElement (pr_line_special ps) (1 + line)" and ?sec = "arrayElement (line_back lv) (1 + line)"
  let ?u = "use_door message lv ceilings cards line ps"
  have sp: "?special \<in> {1, 26, 27, 28, 31, 32, 33, 34, 117, 118}" using assms(1) by (simp add: use_handles_door_def)
  have low: "lowest_ceiling_surrounding lv ?sec ceilings = P_FindLowestCeilingSurrounding lv ?sec ceilings" by (rule surrounding_engine)
  have neg: "\<not> ?sec < 0" using assms(2) by simp
  show ?thesis
  proof (cases "door_locked ?special \<and> missing_key ?special cards")
    case True
    then have "?u = ps\<lparr>pr_message := missing_key_message message ?special, pr_stuck := False\<rparr>"
      using assms(1) neg by (simp add: use_door_def door_opening_def empty_opening_def Let_def)
    then have "?u = EV_VerticalDoor message lv ceilings cards line ps"
      using True sp by (auto simp: EV_VerticalDoor_def Let_def door_locked_def missing_key_def missing_key_message_def split: if_splits)
    then show ?thesis using True assms(6,7) by simp
  next
    case key: False
    then have nk: "\<not> (?special \<in> {26, 32} \<and> arrayElement cards 1 = 0 \<and> arrayElement cards 4 = 0)" "\<not> (?special \<in> {27, 34} \<and> arrayElement cards 2 = 0 \<and> arrayElement cards 5 = 0)"
      "\<not> (?special \<in> {28, 33} \<and> arrayElement cards 3 = 0 \<and> arrayElement cards 6 = 0)"
      by (auto simp: door_locked_def missing_key_def)
    show ?thesis
    proof (cases "held \<noteq> 0 \<and> ?special \<in> {1, 26, 27, 28, 117}")
      case True
      have s: "held \<noteq> 0" "held \<le> length (pr_thinkers ps)" "s_kind (pr_thinkers ps ! (held - 1)) = kind_DOOR" using assms(5) True by auto
      have "?u = ps\<lparr>pr_message := 0, pr_stuck := False, pr_thinkers := map (turn_around held) (pr_thinkers ps)\<rparr>"
        using assms(1,4) neg key True
        by (cases "door_locked ?special") (simp_all add: use_door_def door_opening_def empty_opening_def Let_def)
      moreover have "EV_VerticalDoor message lv ceilings cards line ps = ps\<lparr>pr_message := 0, pr_stuck := False,
          pr_thinkers := (pr_thinkers ps)[held - 1 := (pr_thinkers ps ! (held - 1))\<lparr>s_direction := if s_direction (pr_thinkers ps ! (held - 1)) = -1 then 1 else -1\<rparr>]\<rparr>"
        using nk True s(3) assms(4) unfolding EV_VerticalDoor_def Let_def if_record by (simp only: if_False if_True simp_thms) simp
      ultimately show ?thesis using turn_slot [OF s(1,2)] True key assms(6,7) by (simp add: turned_def)
    next
      case False
      let ?kind = "if ?special \<in> {1, 26, 27, 28} then door_NORMAL else if ?special \<in> {31, 32, 33, 34} then door_OPEN
          else if ?special = 117 then door_BLAZE_RAISE else if ?special = 118 then door_BLAZE_OPEN else -1"
      let ?speed = "if ?special \<in> {117, 118} then VDOORSPEED * 4 else VDOORSPEED"
      let ?low = "P_FindLowestCeilingSurrounding lv ?sec ceilings"
      let ?op = "\<lparr> op_sector = ?sec, op_kind = ?kind, op_direction = 1, op_speed = ?speed, op_topheight = ?low - 4 * FRACUNIT,
          op_clears = ?special \<in> {31, 32, 33, 34, 118}, op_reopens = 0, op_unresolved = False, op_message = 0 \<rparr>"
      have op: "door_opening message (pr_line_special ps) (line_back lv) (pr_specialdata ps) cards line ?low = ?op"
        unfolding door_opening_def Let_def if_not_P [OF neg] if_not_P [OF key] if_not_P [OF False [unfolded assms(4)]] ..
      let ?type = "if ?special \<in> {1, 26, 27, 28} then vld_normal else if ?special \<in> {31, 32, 33, 34} then vld_open
          else if ?special = 117 then vld_blazeRaise else vld_blazeOpen"
      have k: "c_int ?kind = vldoor_num ?type" using sp by auto
      have sd: "c_int ?sec = ?sec" "c_int 1 = 1" "c_int ?speed = ?speed" using assms(3) by (auto simp: VDOORSPEED_def)
      have door: "new_door (pr_next_seq ps) ?op = blank_thinker\<lparr>s_seq := pr_next_seq ps, s_kind := kind_DOOR, s_sector := ?sec, s_direction := 1,
          s_wait := VDOORWAIT, s_type := vldoor_num ?type, s_speed := ?speed, s_dest := c_int (?low - 4 * 65536), s_active := 1\<rparr>"
        unfolding new_door_def opened.select_convs k sd by (simp add: blank_thinker_def FRACUNIT_def)
      have "EV_VerticalDoor message lv ceilings cards line ps = (ps\<lparr>pr_message := 0, pr_stuck := False\<rparr>)\<lparr>
          pr_thinkers := pr_thinkers ps @ [new_door (pr_next_seq ps) ?op],
          pr_specialdata := put_at (pr_specialdata ps) (1 + ?sec) (length (pr_thinkers ps) + 1),
          pr_line_special := (if ?special \<in> {31, 32, 33, 34, 118} then put_at (pr_line_special ps) (1 + line) 0 else pr_line_special ps),
          pr_next_seq := (pr_next_seq ps + 1) mod 2 ^ 32\<rparr>"
        unfolding EV_VerticalDoor_def Let_def if_not_P [OF nk(1)] if_not_P [OF nk(2)] if_not_P [OF nk(3)] if_not_P [OF False [unfolded assms(4)]] door ..
      moreover have "?u = \<lparr> pr_thinkers = pr_thinkers ps @ [new_door (pr_next_seq ps) ?op],
          pr_specialdata = put_at (pr_specialdata ps) (1 + ?sec) (length (pr_thinkers ps) + 1),
          pr_line_special = (if ?special \<in> {31, 32, 33, 34, 118} then put_at (pr_line_special ps) (1 + line) 0 else pr_line_special ps),
          pr_next_seq = (pr_next_seq ps + 1) mod 2 ^ 32, pr_message = 0, pr_stuck = False \<rparr>"
        unfolding use_door_def Let_def if_P [OF assms(1)] low op opened.select_convs turn_none using assms(2) by (simp only: if_True conj_ac simp_thms)
      ultimately have "?u = EV_VerticalDoor message lv ceilings cards line ps" by simp
      then show ?thesis using False assms(6,7) by blast
    qed
  qed
qed

text \<open>
  A level of one door, pressed twice: the first press makes the engine's door, the second is lost, because the door's
  identity, 40, is not its slot, 1.
\<close>

definition door_level :: level_lines where
  "door_level = \<lparr> line_front = [0], line_back = [1], line_flags = [4], sec_lines = [[0], [0]] \<rparr>"

definition pressed_once :: press_state where
  "pressed_once = \<lparr> pr_thinkers = [blank_thinker\<lparr>s_seq := 40, s_kind := kind_DOOR, s_sector := 1, s_direction := 1, s_speed := VDOORSPEED,
       s_dest := 8126464, s_wait := VDOORWAIT, s_active := 1\<rparr>], pr_specialdata = [0, 1], pr_line_special = [1], pr_next_seq = 41, pr_message = 0, pr_stuck = False \<rparr>"

lemma first_press:
  "use_door (\<lambda>_. 1) door_level [8388608, 0] [0, 0, 0, 0, 0, 0] 0
     \<lparr> pr_thinkers = [], pr_specialdata = [0, 0], pr_line_special = [1], pr_next_seq = 40, pr_message = 0, pr_stuck = False \<rparr> = pressed_once"
  by (simp add: use_door_def use_handles_door_def door_opening_def door_level_def pressed_once_def new_door_def put_at_def arrayElement_def Let_def
      door_locked_def missing_key_def lowest_ceiling_surrounding_def neighbour_heights_def lines_of_def two_sided_def other_sector_def arrayMin_def
      FRACUNIT_def VDOORSPEED_def blank_thinker_def c_int_def)

theorem press_agrees_witness:
  "use_door (\<lambda>_. 1) door_level [8388608, 0] [0, 0, 0, 0, 0, 0] 0
     \<lparr> pr_thinkers = [], pr_specialdata = [0, 0], pr_line_special = [1], pr_next_seq = 40, pr_message = 0, pr_stuck = False \<rparr> = pressed_once \<and>
   use_door (\<lambda>_. 1) door_level [8388608, 0] [0, 0, 0, 0, 0, 0] 0 pressed_once \<noteq> EV_VerticalDoor (\<lambda>_. 1) door_level [8388608, 0] [0, 0, 0, 0, 0, 0] 0 pressed_once"
proof -
  have n: "\<not> slot_is_seq (pr_thinkers pressed_once) 1" by (simp add: slot_is_seq_def pressed_once_def)
  have "use_door (\<lambda>_. 1) door_level [8388608, 0] [0, 0, 0, 0, 0, 0] 0 pressed_once = EV_VerticalDoor (\<lambda>_. 1) door_level [8388608, 0] [0, 0, 0, 0, 0, 0] 0 pressed_once
      \<longleftrightarrow> True \<longrightarrow> slot_is_seq (pr_thinkers pressed_once) 1"
    by (rule press_agrees [where special = 1])
      (simp_all add: use_handles_door_def pressed_once_def door_level_def arrayElement_def door_locked_def)
  then show ?thesis using n first_press by simp
qed

end
