(* ===== verification/Spec2Isabelle.thy ===== *)
theory Spec2Isabelle
  imports Contract Decode Asm Mmio Memory Memory_View Image Predecode Exec Machine
    Machine_Properties Isa Loading Text_Format Checkpoint Trace Snapshot Boot Wad C_Lex_Properties C_Symbols C_Init Probe Row_Binary
    Observe Cli_Drive Emu_Diff Nat_Doors
begin

text \<open>
  ClickDOOM runs DOOM inside a database.  A reference emulator of a 32-bit RISC-V machine
  (\<open>refemu/\<close>) defines what the right execution is; a contract crate (\<open>spec/\<close>) holds what both sides must
  agree on; an executor (\<open>executor/\<close>) and a native port (\<open>native/\<close>) produce SQL that does the same work in
  a database server, and a driver (\<open>driver/\<close>) runs and compares them.  This development models the
  reference machine with everything that observes it, the machine in the database, which is proved to be
  the reference machine, the parts of the native port that are programs of their own (the readers of its
  input files and the encoder of its rows), and of its simulation the arithmetic and the moving sectors,
  which are proved against the engine's C.

  \<^bold>\<open>Reading the model.\<close>  The sources are modelled as their release build runs them: fixed-width
  integers are words and wrap, \<open>usize\<close> is a natural number bounded by a slice length, and a \<open>Result\<close> is
  an \<open>rresult\<close>, with \<open>Panic\<close> as the third outcome for an index out of range, a failed assertion or a
  division by zero.  A struct is a record, an enum a datatype, a method a function from the state to the
  outcome and the new state.  Text is the list of its UTF-8 bytes.  A function of another package
  (the digest, the JSON writer, the byte buffer, the sink of a writer) is an argument, and what is
  relied on of it is a hypothesis.

  \<^bold>\<open>The machine.\<close>
  \<^item> \<open>Contract\<close> (\<open>spec/src/map.rs\<close>, \<open>halt.rs\<close>): the memory map, the classification of an address, and the
    halt reasons with their spellings.
  \<^item> \<open>Decode\<close>, \<open>Asm\<close> (\<open>refemu/src/decode.rs\<close>, \<open>asm.rs\<close>): every opcode of RV32IM with the holes of the
    encoding, and the encoders; decoding and assembling are inverse to each other in both directions.
  \<^item> \<open>Mmio\<close>, \<open>Memory\<close>, \<open>Memory_View\<close> (\<open>mmio.rs\<close>, \<open>memory.rs\<close>): the device registers and the key queue; the
    four regions, alignment, the protected program text, the write watch.  Memory refines a map from
    addresses to bytes.
  \<^item> \<open>Image\<close>, \<open>Loading\<close> (\<open>image.rs\<close>): the ELF reader, in which every index and slice outside the file is a
    panic, that it never panics and reads exactly the loadable headers; and what loading an image leaves in
    memory.
  \<^item> \<open>Predecode\<close>, \<open>Exec\<close>, \<open>Machine\<close>, \<open>Machine_Properties\<close>, \<open>Isa\<close> (\<open>predecode.rs\<close>, \<open>exec.rs\<close>): the decode cache,
    every instruction arm, fetch, step and run.  The cache changes nothing, the program text never
    changes, a halt leaves the machine as it was, the run counts exactly, and the register instructions
    compute what the ISA manual says over the integers.

  \<^bold>\<open>What observes the machine.\<close>
  \<^item> \<open>Text_Format\<close>, \<open>Checkpoint\<close>, \<open>Trace\<close> (\<open>spec/src/checkpoint.rs\<close>, \<open>refemu/src/trace.rs\<close>): the cadence, the
    hashed bytes and the line format of checkpoints, and the loop that drives a machine under an
    observer.  The locale \<open>observer_laws\<close> is what an observer must keep to; it is interpreted on the
    silent observer, the collector, the probe and the random-call log, and under it the traced run
    returns and is the run of the bare machine.
  \<^item> \<open>Snapshot\<close>, \<open>Boot\<close> (\<open>snapshot.rs\<close>, \<open>boot.rs\<close>): capture, container and restore of a machine; the boot
    report.
  \<^item> \<open>Position\<close>, \<open>Probe_Ram\<close>, \<open>Probe_Layout\<close>, \<open>Probe_Offsets\<close>, \<open>Probe_World\<close>, \<open>Probe_Row\<close>, \<open>Probe\<close>
    (\<open>cli/point.rs\<close>, \<open>probe/\<close>): positions on the command line; reading the engine's structures out of RAM at
    the offsets of a table; the walk along the engine's thinker list; the row of a frame in the columns
    of \<open>spec/src/native_state.rs\<close>; the probe and the random-call log as observers.
  \<^item> \<open>Observe\<close>, \<open>Cli_Drive\<close> (\<open>cli/observe.rs\<close>, \<open>cli/mod.rs\<close>): the histogram, the call traps and the console
    milestone, and the driver of the emulator's commands as one observer made of them: where a run
    stops, for which reason, and what was recorded by then.

  \<^bold>\<open>The machine in the database.\<close>
  \<^item> \<open>Sql_Step\<close>, \<open>Sql_Decode\<close> (\<open>executor/src/word.rs\<close>, \<open>config.rs\<close>, \<open>fold.rs\<close>, \<open>sqlcpu/decode.sql\<close>): the decode
    pass and the step of the fold in each of its variants, as what the emitted expressions compute over
    the accumulator; every column of the decoded table is what the reference decoder's instruction asks for,
    for words that halt too.  The variants that only bind an expression to a name are one definition.
  \<^item> \<open>Sql_Refines\<close>, \<open>Sql_Run\<close>: the relation \<open>sim\<close> between an accumulator with its captured tables and a
    machine, that every step keeps it arm by arm, and that a fold is a run of the machine; a batch stops
    only where the source says it may.
  \<^item> \<open>Sql_Db\<close>, \<open>Sql_Store\<close> (\<open>executor/src/commit.rs\<close>, \<open>driver/src/emulation/bootstrap.rs\<close>, \<open>render.rs\<close>): the
    tables, with a replacing table read by its latest version; the statement of a batch and the
    statements that derive RAM, display, console and state from its row; that redoing them after a
    crash is harmless; retention, which keeps the row of the batch just committed and \<open>n\<close> more.
  \<^item> \<open>Sql_Loop\<close>, \<open>Sql_Checkpoint\<close>, \<open>Sql_Properties\<close> (\<open>driver/src/emulation/run.rs\<close>, \<open>driver/src/checkpoint.rs\<close>): the
    relation \<open>stands_for\<close> between the tables and a machine, kept by every turn of the loop, and the
    checkpoint lines computed in the database, which are the lines of the reference trace.
  \<^item> \<open>Emu_Run\<close>, \<open>Emu_Properties\<close> (\<open>driver/src/emulation/run.rs\<close>): the resumable runner around the turn: the
    length of a batch, the comparisons with the trace file, the stops, the final assertions.  The locale
    \<open>trace_reader\<close> is what a lookup in a trace file promises.  The runner agrees with the reference trace,
    reaches its target, and resumes after a crash.
  \<^item> \<open>Emu_Load\<close> (\<open>driver/src/emulation/rom.rs\<close>, \<open>bench/canonical.rs\<close>, \<open>refemu/src/cli/mod.rs\<close>): loading a ROM into the
    tables, and the emulator's loading of an image of any format, with its overrides and a capture to resume
    from; for a ROM the two stand for each other, so the theorems on the runner hold from
    the file on.
  \<^item> \<open>Emu_Diff\<close> (\<open>driver/src/emulation/diff.rs\<close>): the differential runner, a second interpretation of
    \<open>trace_reader\<close>: every batch cut at the next checkpoint, the shapes of the two halts compared, and the number of
    comparisons held against the rows of the emulator's trace, which are counted exactly.
  The hypotheses of this part are what the contract leaves open or the run's preflight checks: the program
  text starts at the RAM base and is not empty, the program counter is aligned, no instruction of the run
  loads from the framebuffer or the palette (\<open>display_free\<close>: the contract makes them write-only), the
  instruction count fits 64 bits, and batch numbers, which become the upper half of a console sequence
  number, fit 32.  No second client writes to the tables; the interrupt flag, once set, stays set.

  \<^bold>\<open>The native port.\<close>
  \<^item> \<open>Wad\<close> (\<open>native/src/wad\<close>): the WAD reader, its lookups and its checksum file.
  \<^item> \<open>C_Lex\<close>, \<open>C_Lex_Properties\<close>, \<open>C_Expr\<close>, \<open>C_Grammar\<close>, \<open>C_Symbols\<close>, \<open>C_Init\<close> (\<open>native/src/csource\<close>): the reader
    of the engine's C tables: lexer, constant expressions, the symbol table, braced initializers and struct
    shapes.  \<open>C_Grammar\<close> states C's expression grammar as an inductive predicate, one category per level of
    precedence; the evaluator succeeds exactly on what it derives.
  \<^item> \<open>Row_Binary\<close> (\<open>native/src/resident/rowbinary.rs\<close>): the rows streamed to a resident statement.
  \<^item> \<open>Nat_Fixed\<close> (\<open>native/src/sql/fixed.rs\<close>; \<open>m_fixed.c\<close>, \<open>tables.c\<close>, \<open>r_main.c\<close>, \<open>p_maputl.c\<close>, \<open>p_sight.c\<close> of the
    vendored engine): the fixed-point and angle expressions of the simulation, equal to the C functions on
    every operand; a quotient is exact or saturates.
  \<^item> \<open>Nat_Planes\<close>, \<open>Nat_Thinkers\<close> (\<open>native/src/sql/sim/plane.rs\<close>, \<open>floor.rs\<close>, \<open>doors.rs\<close>, \<open>plats.rs\<close>, \<open>specials.rs\<close>;
    \<open>p_floor.c\<close>, \<open>p_doors.c\<close>, \<open>p_plats.c\<close>, \<open>p_spec.c\<close>, \<open>p_tick.c\<close>): one step of a plane, of a door, a platform and a
    floor, and the pass that runs all of them at once; unless it marks the tic unresolved it leaves what
    the engine's walk leaves, which runs them one after another.  The clip of the things near a moving sector
    is an argument.
  \<^item> \<open>Nat_Doors\<close> (\<open>doors.rs\<close>, \<open>specials.rs\<close>; \<open>p_doors.c\<close>): a press of a manual door against \<open>EV_VerticalDoor\<close>, and
    where the two differ: a press on a door that is there already.
  A statement of the simulation is modelled by its value.  Of the C the sounds, the sector pictures and
  specials that a finished floor copies, and pointers into memory, which are slots here, are left out.

  \<^bold>\<open>Loops.\<close>  A loop over a list, a byte range or a decreasing counter is a total function with its
  measure.  The expression parser and the initializer reader are total because a successful parse moves
  the cursor on, which is proved on their domains first.  The thinker walk is total because the source
  bounds it by \<open>THINKER_LIMIT\<close>, \<open>2 ^ 20\<close> links; the measure is the number of links left.  The trace loop may
  run for ever under an observer that rewinds the machine, so it is a partial function into an option,
  and that it returns is proved for every observer that keeps to the laws.  The runner's loop may run for
  ever too, with a batch length of zero; that it returns is proved for a positive one.  No definition uses
  fuel.

  \<^bold>\<open>Not modelled.\<close>  The spelling of the statements, as opposed to what they compute, and the rest of
  \<open>native/src/sql\<close>: the other stages of a tic, the renderer and the loading of a level; when a delete takes effect
  (\<open>lightweight_deletes_sync = 0\<close>), the frame hash the runner prints and the pictures it writes; processes, sockets, terminals and files (\<open>driver/\<close>,
  \<open>resident/stream.rs\<close>); the disassembly text, the percentages of the boot report and the messages of the
  errors; the fuzzer, which is a harness around the machine.
\<close>

end
